(* ===== verification/Prelude.thy ===== *)
theory Prelude
  imports Main "HOL-Library.AList" "HOL-Library.Char_ord" "HOL-Library.List_Lexorder"
begin

text \<open>
  Shared vocabulary of the development: the exceptions of the program as values of a
  sum type, Python dictionaries as insertion-ordered association lists, the string
  operations the guards use, Python sets rendered as sorted tuples, and the generic
  lemmas the component theories rely on.

  A raised exception is the left injection of \<open>py_error + 'a\<close>.  Subclasses of
  \<open>ValueError\<close> declared by the program keep a constructor of their own, because callers
  tell them apart; pydantic's \<open>ValidationError\<close> is the \<open>ValueError\<close> its validator raised.
  A \<open>char\<close> is a code point below 256, so strings range over Latin-1.
\<close>

section \<open>Exceptions as values\<close>

datatype py_error =
    ValueError string
  | KeyError string
  | TypeError string
  | OverflowError string
  | ZeroDivisionError string
  | RuntimeError string
  | AssertionError string
  | GovernanceError string
  | PointInTimeError string
  | CostLedgerError string
  | CondorEconomicsError string
  | ExitRulesError string
  | FeeModelError string
  | AlertDeliveryConflict string
  | Phase4AuditConflict string
  | StreamCursorError string
  | AttributionWorkflowError string
  | ReadinessEvidenceError string
  | DayStructureError string
  | TailDistancesError string
  | ScoutError string
  | EntryFeaturesError string
  | ExcursionCoverageError string
  | ImmutableAuditConflict string
  | AuthConfigurationError string
  | IntegrityError string
  | LandingAccessDenied string
  | ImpliedSpxError string
  | AnchorCloseError string
  | NormalizeError string
  | DatabentoApiError string
  | IngestCostCeilingExceeded string

type_synonym 'a result = "py_error + 'a"

definition res_bind :: "'a result \<Rightarrow> ('a \<Rightarrow> 'b result) \<Rightarrow> 'b result" where
  "res_bind m f = (case m of Inl e \<Rightarrow> Inl e | Inr x \<Rightarrow> f x)"

definition is_ok :: "'a result \<Rightarrow> bool" where
  "is_ok m = (case m of Inl _ \<Rightarrow> False | Inr _ \<Rightarrow> True)"

text \<open>Mapping a fallible function over a list stops at the first exception.\<close>

fun res_map :: "('a \<Rightarrow> 'b result) \<Rightarrow> 'a list \<Rightarrow> 'b list result" where
  "res_map f [] = Inr []"
| "res_map f (x # xs) =
     (case f x of Inl e \<Rightarrow> Inl e
      | Inr y \<Rightarrow> (case res_map f xs of Inl e \<Rightarrow> Inl e | Inr ys \<Rightarrow> Inr (y # ys)))"

named_theorems res_simps \<open>evaluation of fallible operations\<close>
named_theorems dict_simps \<open>association-list dictionaries\<close>
named_theorems inv_intros \<open>preservation of component invariants\<close>

lemma res_bind_simps [simp, res_simps]:
  "res_bind (Inl e) f = Inl e" "res_bind (Inr x) f = f x"
  by (simp_all add: res_bind_def)

lemma res_bind_InrE [elim!]:
  assumes "res_bind m f = Inr y"
  obtains x where "m = Inr x" and "f x = Inr y"
  using assms by (cases m) auto

lemma is_ok_simps [simp, res_simps]:
  "\<not> is_ok (Inl e)" "is_ok (Inr x)"
  by (simp_all add: is_ok_def)

lemma is_ok_iff: "is_ok m \<longleftrightarrow> (\<exists>x. m = Inr x)"
  by (cases m) auto

lemma res_map_length: "res_map f xs = Inr ys \<Longrightarrow> length ys = length xs"
  by (induction xs arbitrary: ys) (auto split: sum.splits)

lemma res_map_all2: "res_map f xs = Inr ys \<Longrightarrow> list_all2 (\<lambda>x y. f x = Inr y) xs ys"
  by (induction xs arbitrary: ys) (auto split: sum.splits)

lemma res_map_total: "\<forall>x \<in> set xs. \<exists>y. f x = Inr y \<Longrightarrow> \<exists>ys. res_map f xs = Inr ys"
proof (induction xs)
  case (Cons x xs)
  then obtain y ys where "f x = Inr y" "res_map f xs = Inr ys" by auto
  then show ?case by simp
qed simp

lemma res_map_append:
  "res_map f (xs @ ys) =
     (case res_map f xs of Inl e \<Rightarrow> Inl e
      | Inr us \<Rightarrow> (case res_map f ys of Inl e \<Rightarrow> Inl e | Inr vs \<Rightarrow> Inr (us @ vs)))"
  by (induction xs) (auto split: sum.splits)

section \<open>Dictionaries in insertion order\<close>

text \<open>
  \<open>AList.update\<close> replaces the value of a present key in place and appends a new key at
  the end, which is what assignment to a Python dict does; \<open>AList.delete\<close> is \<open>pop\<close>.
\<close>

type_synonym ('k, 'v) dict = "('k \<times> 'v) list"

definition dict_ok :: "('k, 'v) dict \<Rightarrow> bool" where
  "dict_ok d \<longleftrightarrow> distinct (map fst d)"

definition dict_values :: "('k, 'v) dict \<Rightarrow> 'v list" where
  "dict_values d = map snd d"

lemma dict_ok_Nil [simp, intro]: "dict_ok []"
  by (simp add: dict_ok_def)

lemma dict_ok_update [simp, intro]: "dict_ok d \<Longrightarrow> dict_ok (AList.update k v d)"
  by (simp add: dict_ok_def distinct_update)

lemma dict_ok_delete [simp, intro]: "dict_ok d \<Longrightarrow> dict_ok (AList.delete k d)"
  by (simp add: dict_ok_def distinct_delete)

lemma lookup_update [simp, dict_simps]:
  "map_of (AList.update k v d) = (map_of d)(k \<mapsto> v)"
  by (simp add: update_conv')

lemma lookup_delete [simp, dict_simps]:
  "map_of (AList.delete k d) = (map_of d)(k := None)"
  by (simp add: delete_conv')

lemma dict_values_lookup:
  "dict_ok d \<Longrightarrow> v \<in> set (dict_values d) \<longleftrightarrow> (\<exists>k. map_of d k = Some v)"
  by (force simp: dict_ok_def dict_values_def)

lemma update_keys:
  "map fst (AList.update k v d) = (if k \<in> fst ` set d then map fst d else map fst d @ [k])"
  by (induction d) auto

section \<open>Strings\<close>

definition is_space :: "char \<Rightarrow> bool" where
  "is_space c \<longleftrightarrow>
     (let n = of_char c :: nat
      in (9 \<le> n \<and> n \<le> 13) \<or> (28 \<le> n \<and> n \<le> 32) \<or> n = 133 \<or> n = 160)"

definition lstrip :: "string \<Rightarrow> string" where
  "lstrip s = dropWhile is_space s"

definition strip :: "string \<Rightarrow> string" where
  "strip s = rev (lstrip (rev (lstrip s)))"

definition blank :: "string \<Rightarrow> bool" where
  "blank s \<longleftrightarrow> strip s = []"

definition starts_with :: "string \<Rightarrow> string \<Rightarrow> bool" where
  "starts_with p s \<longleftrightarrow> take (length p) s = p"

lemma lstrip_Nil_iff: "lstrip s = [] \<longleftrightarrow> list_all is_space s"
  by (simp add: lstrip_def dropWhile_eq_Nil_conv list_all_iff)

lemma lstrip_list_all: "list_all is_space (lstrip s) \<longleftrightarrow> list_all is_space s"
  by (induction s) (auto simp: lstrip_def)

lemma blank_iff: "blank s \<longleftrightarrow> list_all is_space s"
proof -
  have "strip s = [] \<longleftrightarrow> list_all is_space (lstrip s)"
    by (simp add: strip_def lstrip_Nil_iff)
  then show ?thesis by (simp add: blank_def lstrip_list_all)
qed

lemma blank_Nil [simp]: "blank []"
  by (simp add: blank_iff)

section \<open>Python sets shown as sorted tuples\<close>

abbreviation sorted_tuple :: "'a::linorder set \<Rightarrow> 'a list" where
  "sorted_tuple A \<equiv> sorted_list_of_set A"

lemma sorted_tuple_Nil_iff [simp]: "finite A \<Longrightarrow> sorted_tuple A = [] \<longleftrightarrow> A = {}"
  by (simp add: sorted_list_of_set_eq_Nil_iff)

text \<open>A sum over a filtered list, and an element-wise extremum, are used by the economics.\<close>

lemma sum_list_mono_ge:
  fixes f :: "'a \<Rightarrow> 'b::ordered_comm_monoid_add"
  shows "(\<And>x. x \<in> set xs \<Longrightarrow> 0 \<le> f x) \<Longrightarrow> 0 \<le> sum_list (map f xs)"
  by (induction xs) auto

end
