(* ===== verification/PyTime.thy ===== *)
theory PyTime
  imports Prelude
begin

text \<open>
  Instants, durations and calendar dates.  An aware Python \<open>datetime\<close> denotes an instant,
  here its UTC time in microseconds since 0001-01-01T00:00; a naive one has no instant.
  Every comparison and subtraction of the program acts on instants, so an offset is not
  kept.  A \<open>timedelta\<close> is its length in microseconds, with the range check of its
  constructor.  The year bound 9999 of \<open>datetime\<close> is not modelled.
\<close>

section \<open>Instants and durations\<close>

type_synonym instant = int
type_synonym timedelta = int

datatype datetime = Naive int | Aware instant

definition microseconds :: "int \<Rightarrow> timedelta" where "microseconds n = n"
definition seconds :: "int \<Rightarrow> timedelta" where "seconds n = n * 1000000"
definition minutes :: "int \<Rightarrow> timedelta" where "minutes n = n * 60000000"

definition day_us :: int where "day_us = 86400000000"

text \<open>\<open>value.tzinfo is None or value.utcoffset() is None\<close> is the test for a naive value.\<close>

fun is_aware :: "datetime \<Rightarrow> bool" where
  "is_aware (Naive _) = False"
| "is_aware (Aware _) = True"

text \<open>The \<open>_utc\<close> / \<open>_aware\<close> helper every module repeats: reject naive, else the instant.\<close>

fun to_utc :: "py_error \<Rightarrow> datetime \<Rightarrow> instant result" where
  "to_utc e (Naive _) = Inl e"
| "to_utc e (Aware t) = Inr t"

fun opt_utc :: "py_error \<Rightarrow> datetime option \<Rightarrow> instant option result" where
  "opt_utc e None = Inr None"
| "opt_utc e (Some (Naive _)) = Inl e"
| "opt_utc e (Some (Aware t)) = Inr (Some t)"

lemma to_utc_Inr_iff: "to_utc e d = Inr t \<longleftrightarrow> d = Aware t"
  by (cases d) auto

lemma opt_utc_Inr_iff: "opt_utc e d = Inr t \<longleftrightarrow> d = map_option Aware t"
  by (induction e d rule: opt_utc.induct) (cases t; auto)+

text \<open>
  \<open>timedelta(seconds=s)\<close> raises \<open>OverflowError\<close> when the number of days exceeds
  999999999 in magnitude.
\<close>

definition timedelta_max :: timedelta where
  "timedelta_max = 1000000000 * day_us - 1"

definition timedelta_min :: timedelta where
  "timedelta_min = - (999999999 * day_us)"

definition mk_timedelta :: "int \<Rightarrow> timedelta result" where
  "mk_timedelta us =
     (if us < timedelta_min \<or> timedelta_max < us
      then Inl (OverflowError ''timedelta out of range'') else Inr us)"

text \<open>
  Exponential back-off as both retry loops compute it:
  \<open>min(timedelta(seconds=base.total_seconds() * 2 ** (attempt - 1)), max)\<close>.  The product
  is formed, and may overflow, before the minimum is taken.
\<close>

definition backoff_delay :: "py_error \<Rightarrow> timedelta \<Rightarrow> timedelta \<Rightarrow> int \<Rightarrow> timedelta result" where
  "backoff_delay e base cap attempt =
     (if attempt < 1 then Inl e
      else case mk_timedelta (base * 2 ^ nat (attempt - 1)) of
             Inl err \<Rightarrow> Inl err
           | Inr candidate \<Rightarrow> Inr (min candidate cap))"

lemma backoff_delay_bounds:
  assumes "backoff_delay e base cap n = Inr d" and "0 < base" and "base \<le> cap"
  shows "base \<le> d \<and> d \<le> cap"
proof -
  have d: "d = min (base * 2 ^ nat (n - 1)) cap"
    using assms(1) by (auto simp: backoff_delay_def mk_timedelta_def split: if_splits)
  have "base * 1 \<le> base * 2 ^ nat (n - 1)"
    using assms(2) by (intro mult_left_mono) auto
  then show ?thesis using assms(3) d by auto
qed

lemma backoff_delay_mono:
  assumes "backoff_delay e base cap m = Inr d" and "backoff_delay e base cap n = Inr d'"
    and "m \<le> n" and "0 < base"
  shows "d \<le> d'"
proof -
  have "base * 2 ^ nat (m - 1) \<le> base * 2 ^ nat (n - 1)"
    using assms(3,4) by (intro mult_left_mono power_increasing) auto
  then show ?thesis
    using assms(1,2) by (auto simp: backoff_delay_def mk_timedelta_def split: if_splits)
qed

lemma backoff_delay_ok:
  assumes "1 \<le> n" and "0 < base" and "base * 2 ^ nat (n - 1) \<le> timedelta_max"
  shows "backoff_delay e base cap n = Inr (min (base * 2 ^ nat (n - 1)) cap)"
proof -
  have "0 \<le> base * 2 ^ nat (n - 1)" using assms(2) by simp
  then have "timedelta_min \<le> base * 2 ^ nat (n - 1)"
    by (simp add: timedelta_min_def day_us_def)
  with assms show ?thesis by (simp add: backoff_delay_def mk_timedelta_def)
qed

lemma backoff_delay_overflow:
  assumes "1 \<le> n" and "timedelta_max < base * 2 ^ nat (n - 1)"
  shows "backoff_delay e base cap n = Inl (OverflowError ''timedelta out of range'')"
  using assms by (simp add: backoff_delay_def mk_timedelta_def)

section \<open>Calendar dates\<close>

text \<open>
  A \<open>date\<close> is its proleptic Gregorian ordinal (\<open>toordinal\<close>: 0001-01-01 is 1, a Monday).
\<close>

type_synonym pydate = int

definition date_of :: "instant \<Rightarrow> pydate" where
  "date_of t = t div day_us + 1"

definition time_of_day :: "instant \<Rightarrow> int" where
  "time_of_day t = t mod day_us"

text \<open>\<open>date.weekday()\<close>: Monday is 0.\<close>

definition weekday :: "pydate \<Rightarrow> int" where
  "weekday d = (d + 6) mod 7"

definition days_before_year :: "int \<Rightarrow> int" where
  "days_before_year y = (y - 1) * 365 + (y - 1) div 4 - (y - 1) div 100 + (y - 1) div 400"

definition is_leap :: "int \<Rightarrow> bool" where
  "is_leap y \<longleftrightarrow> y mod 4 = 0 \<and> (y mod 100 \<noteq> 0 \<or> y mod 400 = 0)"

definition month_lengths :: "int \<Rightarrow> int list" where
  "month_lengths y = [31, if is_leap y then 29 else 28, 31, 30, 31, 30, 31, 31, 30, 31, 30, 31]"

text \<open>The year of an ordinal, by stepping up from an estimate that is never too large.\<close>

function year_from :: "int \<Rightarrow> int \<Rightarrow> int" where
  "year_from y n = (if days_before_year (y + 1) < n then year_from (y + 1) n else y)"
  by pat_completeness auto
termination
proof (relation "measure (\<lambda>(y, n). nat (n - days_before_year y))")
  fix y n :: int
  assume "days_before_year (y + 1) < n"
  moreover have "days_before_year y < days_before_year (y + 1)"
    by (simp add: days_before_year_def)
  ultimately show "((y + 1, n), y, n) \<in> measure (\<lambda>(y, n). nat (n - days_before_year y))"
    by simp
qed simp

declare year_from.simps [simp del]

definition year_of :: "pydate \<Rightarrow> int" where
  "year_of n = year_from ((n - 1) div 366 + 1) n"

fun month_day :: "int list \<Rightarrow> int \<Rightarrow> int \<Rightarrow> int \<times> int" where
  "month_day [] m d = (m, d)"
| "month_day (k # ks) m d = (if d \<le> k then (m, d) else month_day ks (m + 1) (d - k))"

definition ymd :: "pydate \<Rightarrow> int \<times> int \<times> int" where
  "ymd n = (let y = year_of n in (y, month_day (month_lengths y) 1 (n - days_before_year y)))"

lemma ymd_examples:
  "ymd 1 = (1, 1, 1)" "ymd 739845 = (2026, 8, 17)" "weekday 739845 = 0"
  by (simp_all add: ymd_def year_of_def year_from.simps days_before_year_def month_lengths_def
      is_leap_def weekday_def)

end
