(* ===== verification/IsoText.thy ===== *)
theory IsoText
  imports PyTime
begin

text \<open>
  Text of numbers and instants: decimal numerals with zero padding and
  \<open>datetime.isoformat()\<close>, the string under which \<open>domain/snapshot.py\<close> hashes every
  timestamp.  The main fact is that the text of an instant determines it.
\<close>

section \<open>Decimal numerals\<close>

definition digit_char :: "nat \<Rightarrow> char" where
  "digit_char d = char_of (48 + d)"

definition digit_val :: "char \<Rightarrow> nat" where
  "digit_val c = of_char c - 48"

definition is_digit :: "char \<Rightarrow> bool" where
  "is_digit c \<longleftrightarrow> 48 \<le> (of_char c :: nat) \<and> (of_char c :: nat) \<le> 57"

fun show_nat :: "nat \<Rightarrow> string" where
  "show_nat n = (if n < 10 then [digit_char n] else show_nat (n div 10) @ [digit_char (n mod 10)])"

declare show_nat.simps [simp del]

definition show_int :: "int \<Rightarrow> string" where
  "show_int i = (if i < 0 then ''-'' @ show_nat (nat (- i)) else show_nat (nat i))"

definition pad :: "nat \<Rightarrow> string \<Rightarrow> string" where
  "pad w s = replicate (w - length s) (CHR ''0'') @ s"

definition read_nat :: "string \<Rightarrow> nat" where
  "read_nat s = foldl (\<lambda>a c. a * 10 + digit_val c) 0 s"

lemma of_char_digit [simp]: "d < 10 \<Longrightarrow> (of_char (digit_char d) :: nat) = 48 + d"
  by (simp add: digit_char_def)

lemma digit_val_char [simp]: "d < 10 \<Longrightarrow> digit_val (digit_char d) = d"
  by (simp add: digit_val_def)

lemma is_digit_char [simp]: "d < 10 \<Longrightarrow> is_digit (digit_char d)"
  by (simp add: is_digit_def)

lemma read_show_nat: "read_nat (show_nat n) = n"
proof (induction n rule: show_nat.induct)
  case (1 n)
  then show ?case by (subst show_nat.simps) (auto simp: read_nat_def)
qed

lemma show_nat_digits: "list_all is_digit (show_nat n)"
proof (induction n rule: show_nat.induct)
  case (1 n)
  then show ?case by (subst show_nat.simps) auto
qed

lemma show_nat_nonempty [simp]: "show_nat n \<noteq> []"
  by (subst show_nat.simps) simp

lemma show_nat_inj: "show_nat m = show_nat n \<Longrightarrow> m = n"
  by (metis read_show_nat)

lemma read_nat_pad: "read_nat (pad w s) = read_nat s"
proof -
  have "foldl (\<lambda>a c. a * 10 + digit_val c) 0 (replicate k (CHR ''0'')) = 0" for k
    by (induction k) (auto simp: digit_val_def)
  then show ?thesis by (simp add: read_nat_def pad_def)
qed

lemma pad_digits: "list_all is_digit s \<Longrightarrow> list_all is_digit (pad w s)"
  by (auto simp: pad_def list_all_iff is_digit_def)

lemma pad_show_inj: "pad w (show_nat m) = pad w (show_nat n) \<Longrightarrow> m = n"
  by (metis read_nat_pad read_show_nat)

lemma digits_delimited:
  assumes "list_all is_digit a" and "list_all is_digit b"
    and "\<not> is_digit c" and "\<not> is_digit d" and "a @ c # x = b @ d # y"
  shows "a = b \<and> c = d \<and> x = y"
  using assms
proof (induction a arbitrary: b)
  case Nil
  then show ?case by (cases b) auto
next
  case (Cons u us)
  then show ?case by (cases b) auto
qed

lemma is_digit_punct [simp]:
  "\<not> is_digit (CHR ''-'')" "\<not> is_digit (CHR ''T'')" "\<not> is_digit (CHR '':'')"
  "\<not> is_digit (CHR ''.'')" "\<not> is_digit (CHR ''+'')"
  by (simp_all add: is_digit_def)

text \<open>Two numeric fields, each closed by a character that is no digit.\<close>

lemma field_eq [simp]:
  assumes "\<not> is_digit c" and "\<not> is_digit d"
  shows "pad w (show_nat m) @ c # x = pad w (show_nat n) @ d # y \<longleftrightarrow> m = n \<and> c = d \<and> x = y"
proof
  assume "pad w (show_nat m) @ c # x = pad w (show_nat n) @ d # y"
  from digits_delimited [OF pad_digits [OF show_nat_digits] pad_digits [OF show_nat_digits] assms this]
  show "m = n \<and> c = d \<and> x = y" by (auto dest: pad_show_inj)
qed auto

lemma field_eq' [simp]:
  "pad w (show_nat m) = pad w (show_nat n) \<longleftrightarrow> m = n"
  by (auto dest: pad_show_inj)

lemma field_neq [simp]:
  assumes "\<not> is_digit c"
  shows "pad v (show_nat m) \<noteq> pad w (show_nat n) @ c # x"
    and "pad w (show_nat n) @ c # x \<noteq> pad v (show_nat m)"
proof -
  have "list_all is_digit (pad v (show_nat m))" by (rule pad_digits [OF show_nat_digits])
  with assms have "c \<notin> set (pad v (show_nat m))" by (auto simp: list_all_iff)
  then show "pad v (show_nat m) \<noteq> pad w (show_nat n) @ c # x"
    and "pad w (show_nat n) @ c # x \<noteq> pad v (show_nat m)"
    by (metis in_set_conv_decomp)+
qed

section \<open>The text of an instant\<close>

text \<open>\<open>datetime.isoformat()\<close> of a UTC value; the fraction appears only when it is not zero.\<close>

definition iso_date :: "pydate \<Rightarrow> string" where
  "iso_date n = (case ymd n of (y, m, d) \<Rightarrow>
     pad 4 (show_nat (nat y)) @ ''-'' @ pad 2 (show_nat (nat m)) @ ''-'' @ pad 2 (show_nat (nat d)))"

definition isoformat :: "instant \<Rightarrow> string" where
  "isoformat t =
     (let us = nat (time_of_day t); sec = us div 1000000; f = us mod 1000000
      in iso_date (date_of t) @ ''T'' @ pad 2 (show_nat (sec div 3600)) @ '':''
         @ pad 2 (show_nat (sec div 60 mod 60)) @ '':'' @ pad 2 (show_nat (sec mod 60))
         @ (if f = 0 then [] else ''.'' @ pad 6 (show_nat f)) @ ''+00:00'')"

fun days_before_month :: "int list \<Rightarrow> int \<Rightarrow> int \<Rightarrow> int" where
  "days_before_month [] m k = 0"
| "days_before_month (l # ls) m k = (if k = m then 0 else l + days_before_month ls (m + 1) k)"

lemma month_day_ge: "month_day ls m d = (k, r) \<Longrightarrow> m \<le> k"
  by (induction ls m d rule: month_day.induct) (auto split: if_splits)

lemma month_day_inverse:
  "month_day ls m d = (k, r) \<Longrightarrow> d = days_before_month ls m k + r"
proof (induction ls m d rule: month_day.induct)
  case (2 l ls m d)
  show ?case
  proof (cases "d \<le> l")
    case True
    with 2 show ?thesis by simp
  next
    case False
    with 2 have md: "month_day ls (m + 1) (d - l) = (k, r)" by simp
    then have "m + 1 \<le> k" by (rule month_day_ge)
    moreover have "d - l = days_before_month ls (m + 1) k + r"
      by (rule "2.IH" [OF False md])
    ultimately show ?thesis by simp
  qed
qed simp

lemma ymd_inverse:
  assumes "ymd n = (y, m, d)"
  shows "n = days_before_year y + days_before_month (month_lengths y) 1 m + d"
  using assms month_day_inverse [of "month_lengths y" 1 "n - days_before_year y" m d]
  by (auto simp: ymd_def Let_def)

lemma month_day_range:
  assumes "month_day ls m d = (k, r)" and "0 < d" and "d \<le> sum_list ls"
  shows "m \<le> k \<and> 0 < r"
  using assms by (induction ls m d rule: month_day.induct) (auto split: if_splits)

lemma year_from_spec:
  assumes "days_before_year y < n"
  shows "days_before_year (year_from y n) < n \<and> n \<le> days_before_year (year_from y n + 1)
    \<and> y \<le> year_from y n"
  using assms
proof (induction y n rule: year_from.induct)
  case (1 y n)
  show ?case
  proof (cases "days_before_year (y + 1) < n")
    case True
    then have "year_from y n = year_from (y + 1) n" by (simp add: year_from.simps [of y n])
    with "1.IH" [OF True True] show ?thesis by simp
  next
    case False
    then have "year_from y n = y" by (simp add: year_from.simps [of y n])
    with False "1.prems" show ?thesis by simp
  qed
qed

lemma days_before_year_le: "0 \<le> k \<Longrightarrow> days_before_year (k + 1) \<le> k * 366"
  by (simp add: days_before_year_def)

lemma div_step:
  "(y::int) div k = (y - 1) div k + (if y mod k = 0 then 1 else 0)" if "0 < k"
proof -
  have "y = (y div k) * k + y mod k" by simp
  then have y: "y - 1 = (y mod k - 1) + (y div k) * k" by simp
  have r: "0 \<le> y mod k" "y mod k < k" using that by simp_all
  have "(y - 1) div k = (y mod k - 1) div k + y div k"
    by (subst y) (use that in simp)
  moreover have "(y mod k - 1) div k = (if y mod k = 0 then - 1 else 0)"
  proof (cases "y mod k = 0")
    case True
    then show ?thesis using that by (simp add: div_eq_minus1)
  next
    case False
    with r have "0 \<le> y mod k - 1" "y mod k - 1 < k" by linarith+
    then show ?thesis using False by (simp add: div_pos_pos_trivial)
  qed
  ultimately show ?thesis by simp
qed

lemma shift_count:
  "a = a' + p \<Longrightarrow> b = b' + q \<Longrightarrow> c = c' + r \<Longrightarrow>
     (365::int) + (a - a') - (b - b') + (c - c') = 365 + p - q + r"
  by simp

lemma leap_count:
  "(b \<Longrightarrow> a) \<Longrightarrow> (c \<Longrightarrow> b) \<Longrightarrow>
     (365::int) + (if a then 1 else 0) - (if b then 1 else 0) + (if c then 1 else 0)
     = (if a \<and> (\<not> b \<or> c) then 366 else 365)"
  by (cases a; cases b; cases c) simp_all

lemma year_length:
  "days_before_year (y + 1) - days_before_year y = (if is_leap y then 366 else 365)"
proof -
  have m: "y mod 100 = 0 \<Longrightarrow> y mod 4 = 0" "y mod 400 = 0 \<Longrightarrow> y mod 100 = 0"
    using dvd_trans [of 4 100 y] dvd_trans [of 100 400 y] by (simp_all add: mod_eq_0_iff_dvd)
  note d = div_step [of 4 y] div_step [of 100 y] div_step [of 400 y]
  have "days_before_year (y + 1) - days_before_year y
      = 365 + (y div 4 - (y - 1) div 4) - (y div 100 - (y - 1) div 100)
        + (y div 400 - (y - 1) div 400)"
    by (simp add: days_before_year_def)
  also have "\<dots> = 365 + (if y mod 4 = 0 then 1 else 0) - (if y mod 100 = 0 then 1 else 0)
        + (if y mod 400 = 0 then 1 else 0)"
    by (rule shift_count) (rule d, simp)+
  also have "\<dots> = (if is_leap y then 366 else 365)"
    unfolding is_leap_def by (rule leap_count) (fact m)+
  finally show ?thesis .
qed

lemma ymd_positive:
  assumes "1 \<le> n" and "ymd n = (y, m, d)"
  shows "1 \<le> y \<and> 1 \<le> m \<and> 1 \<le> d"
proof -
  let ?y0 = "(n - 1) div 366 + 1"
  have "0 \<le> (n - 1) div 366" using assms(1) by (simp add: pos_imp_zdiv_nonneg_iff)
  from days_before_year_le [OF this]
  have "days_before_year ?y0 < n"
    using div_mult_mod_eq [of "n - 1" 366] pos_mod_sign [of 366 "n - 1"] by linarith
  from year_from_spec [OF this]
  have y: "days_before_year y < n" "n \<le> days_before_year (y + 1)" "?y0 \<le> y"
    using assms(2) by (auto simp: ymd_def Let_def year_of_def)
  have "sum_list (month_lengths y) = (if is_leap y then 366 else 365)"
    by (simp add: month_lengths_def)
  then have "n - days_before_year y \<le> sum_list (month_lengths y)"
    using y(2) year_length [of y] by simp
  moreover have "month_day (month_lengths y) 1 (n - days_before_year y) = (m, d)"
    using assms(2) by (auto simp: ymd_def Let_def)
  ultimately have "1 \<le> m \<and> 0 < d"
    using month_day_range y(1) by fastforce
  moreover have "1 \<le> y"
    using y(3) assms(1) pos_imp_zdiv_nonneg_iff [of 366 "n - 1"] by simp
  ultimately show ?thesis by simp
qed

lemma iso_date_prefix:
  assumes "1 \<le> m" and "1 \<le> n" and "iso_date m @ CHR ''T'' # x = iso_date n @ CHR ''T'' # y"
  shows "m = n \<and> x = y"
proof -
  obtain a b c where m: "ymd m = (a, b, c)" by (cases "ymd m") auto
  obtain a' b' c' where n: "ymd n = (a', b', c')" by (cases "ymd n") auto
  note pos = ymd_positive [OF assms(1) m] ymd_positive [OF assms(2) n]
  have eq: "nat a = nat a' \<and> nat b = nat b' \<and> nat c = nat c' \<and> x = y"
    using assms(3) by (simp add: iso_date_def m n)
  with pos have "a = a'" "b = b'" "c = c'" by auto
  with eq ymd_inverse [OF m] ymd_inverse [OF n] show ?thesis by simp
qed

definition iso_clock :: "nat \<Rightarrow> string" where
  "iso_clock us =
     (let sec = us div 1000000; f = us mod 1000000
      in pad 2 (show_nat (sec div 3600)) @ '':''
         @ pad 2 (show_nat (sec div 60 mod 60)) @ '':'' @ pad 2 (show_nat (sec mod 60))
         @ (if f = 0 then [] else ''.'' @ pad 6 (show_nat f)) @ ''+00:00'')"

lemma isoformat_split:
  "isoformat t = iso_date (date_of t) @ CHR ''T'' # iso_clock (nat (time_of_day t))"
  by (simp add: isoformat_def iso_clock_def Let_def)

lemma iso_clock_inj: "iso_clock m = iso_clock n \<Longrightarrow> m = n"
proof -
  assume eq: "iso_clock m = iso_clock n"
  let ?s = "m div 1000000" and ?r = "n div 1000000"
  have parts: "?s div 3600 = ?r div 3600 \<and> ?s div 60 mod 60 = ?r div 60 mod 60
      \<and> ?s mod 60 = ?r mod 60 \<and> m mod 1000000 = n mod 1000000"
    using eq by (simp add: iso_clock_def Let_def split: if_splits)
  have "k = (k div 3600) * 3600 + (k div 60 mod 60) * 60 + k mod 60" for k :: nat
  proof -
    have "k div 3600 = k div 60 div 60" by (simp add: div_mult2_eq [symmetric])
    then have "k div 60 = k div 3600 * 60 + k div 60 mod 60" by simp
    then show ?thesis using div_mult_mod_eq [of k 60] by linarith
  qed
  with parts have "?s = ?r" by metis
  with parts show "m = n" by (metis div_mult_mod_eq)
qed

lemma isoformat_inj:
  assumes "0 \<le> s" and "0 \<le> t" and "isoformat s = isoformat t"
  shows "s = t"
proof -
  have "1 \<le> date_of s" "1 \<le> date_of t"
    using assms(1,2) by (simp_all add: date_of_def day_us_def pos_imp_zdiv_nonneg_iff)
  from iso_date_prefix [OF this assms(3) [unfolded isoformat_split]]
  have "date_of s = date_of t" and "nat (time_of_day s) = nat (time_of_day t)"
    by (auto dest: iso_clock_inj)
  moreover have "0 \<le> time_of_day s" "0 \<le> time_of_day t"
    by (simp_all add: time_of_day_def day_us_def)
  ultimately have "s div day_us = t div day_us" "s mod day_us = t mod day_us"
    by (auto simp: date_of_def time_of_day_def)
  then show "s = t" by (metis div_mult_mod_eq)
qed

end
