(* ===== verification/Snapshot.thy ===== *)
theory Snapshot
  imports IsoText Complex_Main "HOL-Library.Countable"
begin

text \<open>
  Canonical serialisation and content identities (\<open>domain/snapshot.py\<close>).  A payload is a
  \<open>pyval\<close>; \<open>to_json\<close> applies \<open>_json_default\<close> and the key sorting of \<open>json.dumps\<close>, and
  \<open>render\<close> prints with the separators and escapes \<open>freeze_snapshot\<close> asks for.  \<open>loads\<close>
  models \<open>json.loads\<close>.  The digest of \<open>hashlib.sha256\<close> on the UTF-8 text is the parameter
  \<open>sha\<close> of every definition that hashes.  A finite float carries its value and its
  \<open>repr\<close>; NaN and infinities, which \<open>allow_nan=False\<close> rejects, have no \<open>pyval\<close>.
\<close>

section \<open>Payloads\<close>

text \<open>A finite \<open>Decimal\<close> is coefficient times ten to the exponent (\<open>Dec c e\<close>).\<close>

datatype decimal = Dec int int

fun dec_val :: "decimal \<Rightarrow> rat" where
  "dec_val (Dec c e) = (if 0 \<le> e then of_int c * 10 ^ nat e else of_int c / 10 ^ nat (- e))"

text \<open>\<open>format(value, "f")\<close>: positional notation, all digits of the exponent shown.\<close>

fun format_f :: "decimal \<Rightarrow> string" where
  "format_f (Dec c e) =
     (let sign = (if c < 0 then ''-'' else []); ds = show_nat (nat \<bar>c\<bar>)
      in if 0 \<le> e then sign @ (if c = 0 then ''0'' else ds @ replicate (nat e) (CHR ''0''))
         else let k = nat (- e); padded = pad (Suc k) ds; n = length padded - k
              in sign @ take n padded @ ''.'' @ drop n padded)"

datatype pyval =
    PNone
  | PBool bool
  | PInt int
  | PFloat rat string
  | PStr string
  | PTime instant
  | PDec decimal
  | PList "pyval list"
  | PDict "(string \<times> pyval) list"

datatype json =
    JNull
  | JBool bool
  | JNum string
  | JStr string
  | JArr "json list"
  | JObj "(string \<times> json) list"

text \<open>\<open>_json_default\<close> together with \<open>sort_keys=True\<close>.\<close>

fun to_json :: "pyval \<Rightarrow> json" where
  "to_json PNone = JNull"
| "to_json (PBool b) = JBool b"
| "to_json (PInt i) = JNum (show_int i)"
| "to_json (PFloat q r) = JNum r"
| "to_json (PStr s) = JStr s"
| "to_json (PTime t) = JStr (isoformat t)"
| "to_json (PDec d) = JStr (format_f d)"
| "to_json (PList vs) = JArr (map to_json vs)"
| "to_json (PDict kvs) = JObj (sort_key fst (map (\<lambda>(k, v). (k, to_json v)) kvs))"

section \<open>Printing\<close>

abbreviation quote_ch :: char where "quote_ch \<equiv> CHR 0x22"
abbreviation back_ch :: char where "back_ch \<equiv> CHR 0x5C"

definition hex_char :: "nat \<Rightarrow> char" where
  "hex_char d = (if d < 10 then digit_char d else char_of (87 + d))"

definition json_esc :: "char \<Rightarrow> string" where
  "json_esc c =
     (if c = quote_ch then [back_ch, quote_ch]
      else if c = back_ch then [back_ch, back_ch]
      else if c = CHR 0x08 then [back_ch, CHR ''b'']
      else if c = CHR 0x0C then [back_ch, CHR ''f'']
      else if c = CHR 0x0A then [back_ch, CHR ''n'']
      else if c = CHR 0x0D then [back_ch, CHR ''r'']
      else if c = CHR 0x09 then [back_ch, CHR ''t'']
      else if (of_char c :: nat) < 32
        then [back_ch, CHR ''u'', CHR ''0'', CHR ''0'',
              hex_char (of_char c div 16), hex_char (of_char c mod 16)]
      else [c])"

definition render_str :: "string \<Rightarrow> string" where
  "render_str s = quote_ch # concat (map json_esc s) @ [quote_ch]"

fun render :: "json \<Rightarrow> string"
  and render_elems :: "json list \<Rightarrow> string"
  and render_items :: "(string \<times> json) list \<Rightarrow> string" where
  "render JNull = ''null''"
| "render (JBool b) = (if b then ''true'' else ''false'')"
| "render (JNum t) = t"
| "render (JStr s) = render_str s"
| "render (JArr xs) = ''['' @ render_elems xs @ '']''"
| "render (JObj kvs) = ''{'' @ render_items kvs @ ''}''"
| "render_elems [] = []"
| "render_elems [x] = render x"
| "render_elems (x # y # ys) = render x @ '','' @ render_elems (y # ys)"
| "render_items [] = []"
| "render_items [(k, v)] = render_str k @ '':'' @ render v"
| "render_items ((k, v) # kv # kvs) = render_str k @ '':'' @ render v @ '','' @ render_items (kv # kvs)"

section \<open>Parsing\<close>

definition skip_ws :: "string \<Rightarrow> string" where
  "skip_ws s = dropWhile (\<lambda>c. c \<in> set [CHR 0x20, CHR 0x09, CHR 0x0A, CHR 0x0D]) s"

definition hex_val :: "char \<Rightarrow> nat option" where
  "hex_val c =
     (let n = of_char c :: nat
      in if is_digit c then Some (n - 48)
         else if 97 \<le> n \<and> n \<le> 102 then Some (n - 87)
         else if 65 \<le> n \<and> n \<le> 70 then Some (n - 55) else None)"

definition simple_esc :: "char \<Rightarrow> char option" where
  "simple_esc c = map_of [(quote_ch, quote_ch), (back_ch, back_ch), (CHR ''/'', CHR ''/''),
     (CHR ''b'', CHR 0x08), (CHR ''f'', CHR 0x0C), (CHR ''n'', CHR 0x0A),
     (CHR ''r'', CHR 0x0D), (CHR ''t'', CHR 0x09)] c"

text \<open>
  The body of a string after its opening quote, up to and including the closing one.  An
  escape above code point 255 leaves the model's characters and counts as a failure.
\<close>

fun scan_str :: "string \<Rightarrow> (string \<times> string) option" where
  "scan_str [] = None"
| "scan_str (c # cs) =
     (if c = quote_ch then Some ([], cs)
      else if c = back_ch then
        (case cs of
           [] \<Rightarrow> None
         | e # r \<Rightarrow>
             if e = CHR ''u'' then
               (case r of
                  a # b # p # q # r' \<Rightarrow>
                    (case (hex_val a, hex_val b, hex_val p, hex_val q) of
                       (Some 0, Some 0, Some x, Some y) \<Rightarrow>
                         map_option (\<lambda>(s, t). (char_of (16 * x + y) # s, t)) (scan_str r')
                     | _ \<Rightarrow> None)
                | _ \<Rightarrow> None)
             else (case simple_esc e of None \<Rightarrow> None
                   | Some d \<Rightarrow> map_option (\<lambda>(s, t). (d # s, t)) (scan_str r)))
      else if (of_char c :: nat) < 32 then None
      else map_option (\<lambda>(s, t). (c # s, t)) (scan_str cs))"

definition num_char :: "char \<Rightarrow> bool" where
  "num_char c \<longleftrightarrow> is_digit c \<or> c \<in> set ''+-.eE''"

definition valid_exp :: "string \<Rightarrow> bool" where
  "valid_exp s = (case s of [] \<Rightarrow> True
     | c # q \<Rightarrow> c \<in> set ''eE'' \<and>
         (let d = (if q \<noteq> [] \<and> hd q \<in> set ''+-'' then tl q else q) in d \<noteq> [] \<and> list_all is_digit d))"

definition valid_frac :: "string \<Rightarrow> bool" where
  "valid_frac s = (case s of [] \<Rightarrow> True
     | c # q \<Rightarrow> if c = CHR ''.''
         then takeWhile is_digit q \<noteq> [] \<and> valid_exp (dropWhile is_digit q) else valid_exp s)"

definition valid_num :: "string \<Rightarrow> bool" where
  "valid_num s =
     (let t = (if s \<noteq> [] \<and> hd s = CHR ''-'' then tl s else s); ip = takeWhile is_digit t
      in ip \<noteq> [] \<and> (hd ip \<noteq> CHR ''0'' \<or> length ip = 1) \<and> valid_frac (dropWhile is_digit t))"

text \<open>
  The value parser, with fuel for the nesting; a repeated object key keeps its last value.
\<close>

fun parse_value :: "nat \<Rightarrow> string \<Rightarrow> (json \<times> string) option"
  and parse_elems :: "nat \<Rightarrow> string \<Rightarrow> (json list \<times> string) option"
  and parse_items :: "nat \<Rightarrow> string \<Rightarrow> ((string \<times> json) list \<times> string) option" where
  "parse_value 0 s = None"
| "parse_value (Suc n) s =
     (case s of
        [] \<Rightarrow> None
      | c # cs \<Rightarrow>
          if c = quote_ch then map_option (\<lambda>(t, r). (JStr t, r)) (scan_str cs)
          else if c = CHR ''['' then
            (let r = skip_ws cs in
             if r \<noteq> [] \<and> hd r = CHR '']'' then Some (JArr [], tl r)
             else map_option (\<lambda>(xs, r). (JArr xs, r)) (parse_elems n r))
          else if c = CHR ''{'' then
            (let r = skip_ws cs in
             if r \<noteq> [] \<and> hd r = CHR ''}'' then Some (JObj [], tl r)
             else map_option (\<lambda>(kvs, r). (JObj (fold (\<lambda>(k, v). AList.update k v) kvs []), r))
                    (parse_items n r))
          else if take 4 s = ''null'' then Some (JNull, drop 4 s)
          else if take 4 s = ''true'' then Some (JBool True, drop 4 s)
          else if take 5 s = ''false'' then Some (JBool False, drop 5 s)
          else (let t = takeWhile num_char s
                in if valid_num t then Some (JNum t, dropWhile num_char s) else None))"
| "parse_elems 0 s = None"
| "parse_elems (Suc n) s =
     (case parse_value n s of
        None \<Rightarrow> None
      | Some (x, r) \<Rightarrow>
          (case skip_ws r of
             [] \<Rightarrow> None
           | c # r' \<Rightarrow>
               if c = CHR '']'' then Some ([x], r')
               else if c = CHR '','' then map_option (\<lambda>(xs, q). (x # xs, q)) (parse_elems n (skip_ws r'))
               else None))"
| "parse_items 0 s = None"
| "parse_items (Suc n) s =
     (if s = [] \<or> hd s \<noteq> quote_ch then None
      else case scan_str (tl s) of
        None \<Rightarrow> None
      | Some (k, r) \<Rightarrow>
          (case skip_ws r of
             [] \<Rightarrow> None
           | c # r1 \<Rightarrow>
               if c \<noteq> CHR '':'' then None
               else case parse_value n (skip_ws r1) of
                 None \<Rightarrow> None
               | Some (v, r2) \<Rightarrow>
                   (case skip_ws r2 of
                      [] \<Rightarrow> None
                    | d # r3 \<Rightarrow>
                        if d = CHR ''}'' then Some ([(k, v)], r3)
                        else if d = CHR '','' then
                          map_option (\<lambda>(kvs, q). ((k, v) # kvs, q)) (parse_items n (skip_ws r3))
                        else None)))"

text \<open>\<open>json.loads\<close>: one value, with nothing but white space after it.\<close>

definition loads :: "string \<Rightarrow> json result" where
  "loads s =
     (case parse_value (Suc (length s)) (skip_ws s) of
        None \<Rightarrow> Inl (ValueError ''JSONDecodeError'')
      | Some (j, r) \<Rightarrow> if skip_ws r = [] then Inr j else Inl (ValueError ''JSONDecodeError''))"

section \<open>Frozen snapshots\<close>

record frozen_snapshot =
  snapshot_id :: string
  canonical_json :: string

definition freeze_json :: "(string \<Rightarrow> string) \<Rightarrow> json \<Rightarrow> frozen_snapshot" where
  "freeze_json sha j = \<lparr>snapshot_id = ''sha256:'' @ sha (render j), canonical_json = render j\<rparr>"

definition freeze_snapshot :: "(string \<Rightarrow> string) \<Rightarrow> pyval \<Rightarrow> frozen_snapshot" where
  "freeze_snapshot sha v = freeze_json sha (to_json v)"

text \<open>\<open>sort_keys=True\<close> on a value that \<open>json.loads\<close> returned: every object, at any depth.\<close>

fun sort_json :: "json \<Rightarrow> json" where
  "sort_json (JArr xs) = JArr (map sort_json xs)"
| "sort_json (JObj kvs) = JObj (sort_key fst (map (\<lambda>(k, v). (k, sort_json v)) kvs))"
| "sort_json j = j"

text \<open>Canonical values: valid number tokens, and object keys distinct and sorted.\<close>

fun canonical :: "json \<Rightarrow> bool" where
  "canonical (JNum t) = (valid_num t \<and> list_all num_char t)"
| "canonical (JArr xs) = list_all canonical xs"
| "canonical (JObj kvs) =
     (distinct (map fst kvs) \<and> sorted (map fst kvs) \<and> list_all (\<lambda>(k, v). canonical v) kvs)"
| "canonical j = True"

section \<open>Parsing inverts printing\<close>

lemma hex_val_char [simp]: "d < 16 \<Longrightarrow> hex_val (hex_char d) = Some d"
  by (auto simp: hex_val_def hex_char_def is_digit_def Let_def)

lemma hex_chars_zero [simp]: "hex_val (CHR ''0'') = Some 0"
  by (simp add: hex_val_def is_digit_def)

lemma scan_str_esc: "scan_str (json_esc c @ xs) = map_option (\<lambda>(s, t). (c # s, t)) (scan_str xs)"
proof -
  have "(of_char c :: nat) < 256" by (rule nat_of_char_less_256)
  moreover have "char_of (16 * (of_char c div 16 :: nat) + of_char c mod 16) = c"
    by (simp add: mult.commute)
  ultimately show ?thesis
    by (auto simp: json_esc_def simple_esc_def)
qed

lemma scan_str_render:
  "scan_str (concat (map json_esc s) @ quote_ch # rest) = Some (s, rest)"
  by (induction s) (simp_all add: scan_str_esc)

declare scan_str.simps [simp del]

lemma of_char_num: "num_char c \<Longrightarrow> c \<notin> set [quote_ch, CHR ''['', CHR ''{'', CHR ''n'', CHR ''t'', CHR ''f'']"
  by (auto simp: num_char_def is_digit_def)

definition delim :: "string \<Rightarrow> bool" where
  "delim r \<longleftrightarrow> r = [] \<or> hd r \<in> set '',]}''"

lemma delim_simps [simp]:
  "delim []" "delim (CHR '','' # r)" "delim (CHR '']'' # r)" "delim (CHR ''}'' # r)"
  by (simp_all add: delim_def)

lemma delim_not_num: "delim r \<Longrightarrow> r = [] \<or> \<not> num_char (hd r)"
  by (auto simp: delim_def num_char_def is_digit_def)

lemma take_num:
  assumes "list_all num_char t" and "delim r"
  shows "takeWhile num_char (t @ r) = t" and "dropWhile num_char (t @ r) = r"
  using assms(1) delim_not_num [OF assms(2)]
  by (induction t; cases r; simp)+

lemma valid_num_nonempty: "valid_num t \<Longrightarrow> t \<noteq> []"
  by (auto simp: valid_num_def Let_def)

lemma parse_num:
  assumes "canonical (JNum t)" and "delim r"
  shows "parse_value (Suc n) (t @ r) = Some (JNum t, r)"
proof -
  from assms(1) have t: "valid_num t" "list_all num_char t" by simp_all
  then obtain c cs where c: "t = c # cs" "num_char c"
    using valid_num_nonempty by (cases t) auto
  from of_char_num [OF c(2)] t take_num [OF t(2) assms(2)] show ?thesis
    by (auto simp: c(1) simp del: takeWhile.simps dropWhile.simps)
qed

lemma skip_ws_cons: "(of_char c :: nat) \<noteq> 32 \<Longrightarrow> (of_char c :: nat) \<notin> {9, 10, 13} \<Longrightarrow> skip_ws (c # r) = c # r"
  by (auto simp: skip_ws_def)

lemma skip_ws_simps [simp]:
  "skip_ws [] = []" "skip_ws (CHR '','' # r) = CHR '','' # r" "skip_ws (CHR '']'' # r) = CHR '']'' # r"
  "skip_ws (CHR ''}'' # r) = CHR ''}'' # r" "skip_ws (CHR '':'' # r) = CHR '':'' # r"
  "skip_ws (quote_ch # r) = quote_ch # r"
  by (simp_all add: skip_ws_def)

lemma skip_ws_render [simp]:
  assumes "canonical j"
  shows "skip_ws (render j @ r) = render j @ r"
proof (cases j)
  case (JNum t)
  with assms obtain c cs where "t = c # cs" "num_char c"
    using valid_num_nonempty by (cases t) auto
  with JNum show ?thesis by (auto simp: skip_ws_def num_char_def is_digit_def)
qed (auto simp: skip_ws_def render_str_def)

lemma fold_update_distinct:
  "distinct (map fst acc @ map fst kvs) \<Longrightarrow>
     fold (\<lambda>(k, v). AList.update k v) kvs acc = acc @ kvs"
proof (induction kvs arbitrary: acc)
  case (Cons kv kvs)
  obtain k v where kv: "kv = (k, v)" by (cases kv)
  have "AList.update k v acc = acc @ [(k, v)]"
    using Cons.prems kv by (induction acc) auto
  then show ?case using Cons.IH [of "acc @ [(k, v)]"] Cons.prems kv by simp
qed simp

lemma render_nonempty: "canonical j \<Longrightarrow> 1 \<le> length (render j)"
  using valid_num_nonempty by (cases j) (auto simp: render_str_def Suc_le_eq)

lemma hd_render:
  assumes "canonical j" and "render j @ r = c # cs"
  shows "c \<noteq> CHR '']''"
proof (cases j)
  case (JNum t)
  with assms(1) obtain d ds where "t = d # ds" "num_char d"
    using valid_num_nonempty by (cases t) auto
  with JNum assms(2) show ?thesis by (auto simp: num_char_def is_digit_def)
qed (use assms(2) in \<open>auto simp: render_str_def split: if_splits\<close>)

lemma render_elems_Cons:
  "render_elems (x # xs) = render x @ (if xs = [] then [] else '','' @ render_elems xs)"
  by (cases xs) auto

lemma render_items_Cons:
  "render_items ((k, v) # kvs) =
     render_str k @ '':'' @ render v @ (if kvs = [] then [] else '','' @ render_items kvs)"
  by (cases kvs) auto

text \<open>The statement for each of the three printers, generalised over what follows.\<close>

definition value_ok :: "json \<Rightarrow> bool" where
  "value_ok j \<longleftrightarrow> (\<forall>n r. canonical j \<longrightarrow> length (render j) \<le> n \<longrightarrow> delim r \<longrightarrow>
     parse_value n (render j @ r) = Some (j, r))"

lemma value_okD:
  "value_ok j \<Longrightarrow> canonical j \<Longrightarrow> length (render j) \<le> n \<Longrightarrow> delim r \<Longrightarrow>
     parse_value n (render j @ r) = Some (j, r)"
  by (simp add: value_ok_def)

lemma elems_ok:
  assumes "\<And>x. x \<in> set xs \<Longrightarrow> value_ok x" and "xs \<noteq> []" and "list_all canonical xs"
    and "length (render_elems xs) < n"
  shows "parse_elems n (render_elems xs @ CHR '']'' # r) = Some (xs, r)"
  using assms
proof (induction xs arbitrary: n)
  case (Cons x xs)
  then obtain m where n: "n = Suc m" by (cases n) auto
  have x: "parse_value m (render x @ q) = Some (x, q)" if "delim q" for q
    using Cons.prems that n by (intro value_okD) (auto simp: render_elems_Cons split: if_splits)
  show ?case
  proof (cases "xs = []")
    case True
    then show ?thesis using x by (simp add: n)
  next
    case False
    have len: "length (render_elems xs) < m"
      using Cons.prems n False by (simp add: render_elems_Cons)
    have "skip_ws (render_elems xs @ q) = render_elems xs @ q" for q
      using False Cons.prems(3) by (cases xs) (auto simp: render_elems_Cons)
    then show ?thesis
      using False x Cons.IH [OF _ False _ len] Cons.prems n by (simp add: render_elems_Cons)
  qed
qed simp

lemma items_ok:
  assumes "\<And>k v. (k, v) \<in> set kvs \<Longrightarrow> value_ok v" and "kvs \<noteq> []"
    and "list_all (\<lambda>(k, v). canonical v) kvs" and "length (render_items kvs) < n"
  shows "parse_items n (render_items kvs @ CHR ''}'' # r) = Some (kvs, r)"
  using assms
proof (induction kvs arbitrary: n)
  case (Cons kv kvs)
  obtain k v where kv: "kv = (k, v)" by (cases kv)
  from Cons obtain m where n: "n = Suc m" by (cases n) auto
  have v: "parse_value m (render v @ q) = Some (v, q)" if "delim q" for q
    using Cons.prems that n kv
    by (intro value_okD) (auto simp: render_items_Cons split: if_splits)
  have cv: "canonical v" using Cons.prems kv by simp
  have k: "scan_str (concat (map json_esc k) @ quote_ch # q) = Some (k, q)" for q
    by (rule scan_str_render)
  show ?case
  proof (cases "kvs = []")
    case True
    then show ?thesis using v k cv by (simp add: n kv render_str_def)
  next
    case False
    have len: "length (render_items kvs) < m"
      using Cons.prems n False kv by (simp add: render_items_Cons)
    have rest: "parse_items m (render_items kvs @ CHR ''}'' # r) = Some (kvs, r)"
    proof (rule Cons.IH [OF _ False _ len])
      fix k' v' assume "(k', v') \<in> set kvs"
      then show "value_ok v'" using Cons.prems(1) [of k' v'] by simp
    next
      show "list_all (\<lambda>(k, v). canonical v) kvs" using Cons.prems(3) by simp
    qed
    have "skip_ws (render_items kvs @ q) = render_items kvs @ q" for q
      using False by (cases kvs) (auto simp: render_items_Cons render_str_def)
    then show ?thesis
      using False v k cv rest n kv by (simp add: render_items_Cons render_str_def)
  qed
qed simp

lemma value_ok_all: "value_ok j"
proof (induction j)
  case (JArr xs)
  show ?case unfolding value_ok_def
  proof (intro allI impI)
    fix n r assume c: "canonical (JArr xs)" and n: "length (render (JArr xs)) \<le> n" and r: "delim r"
    then obtain m where m: "n = Suc m" by (cases n) auto
    show "parse_value n (render (JArr xs) @ r) = Some (JArr xs, r)"
    proof (cases "xs = []")
      case True
      then show ?thesis using m by simp
    next
      case False
      then obtain y ys where y: "xs = y # ys" by (cases xs) auto
      with c have cy: "canonical y" by simp
      have ws: "skip_ws (render_elems xs @ q) = render_elems xs @ q" for q
        using cy by (simp add: y render_elems_Cons)
      obtain d ds where d: "render_elems xs = d # ds" "d \<noteq> CHR '']''"
        using render_nonempty [OF cy] hd_render [OF cy]
        by (cases "render y") (auto simp: y render_elems_Cons)
      have "parse_elems m (render_elems xs @ CHR '']'' # r) = Some (xs, r)"
        using elems_ok JArr False c n m by (simp add: list_all_iff)
      with m ws d show ?thesis by simp
    qed
  qed
next
  case (JObj kvs)
  show ?case unfolding value_ok_def
  proof (intro allI impI)
    fix n r assume c: "canonical (JObj kvs)" and n: "length (render (JObj kvs)) \<le> n" and r: "delim r"
    then obtain m where m: "n = Suc m" by (cases n) auto
    show "parse_value n (render (JObj kvs) @ r) = Some (JObj kvs, r)"
    proof (cases "kvs = []")
      case True
      then show ?thesis using m by simp
    next
      case False
      then obtain ds where d: "render_items kvs = quote_ch # ds"
        by (cases kvs) (auto simp: render_items_Cons render_str_def)
      have "parse_items m (render_items kvs @ CHR ''}'' # r) = Some (kvs, r)"
        using items_ok JObj False c n m by (fastforce simp: list_all_iff)
      moreover have "fold (\<lambda>(k, v). AList.update k v) kvs [] = kvs"
        using c fold_update_distinct [of "[]" kvs] by simp
      ultimately show ?thesis using m d by simp
    qed
  qed
next
  case (JNum t)
  show ?case unfolding value_ok_def
  proof (intro allI impI)
    fix n r assume c: "canonical (JNum t)" and n: "length (render (JNum t)) \<le> n" and r: "delim r"
    from n render_nonempty [OF c] obtain m where "n = Suc m" by (cases n) auto
    then show "parse_value n (render (JNum t) @ r) = Some (JNum t, r)"
      using parse_num [OF c r] by simp
  qed
next
  case (JStr s)
  show ?case unfolding value_ok_def
  proof (intro allI impI)
    fix n r assume "length (render (JStr s)) \<le> n"
    then show "parse_value n (render (JStr s) @ r) = Some (JStr s, r)"
      using scan_str_render by (cases n) (auto simp: render_str_def)
  qed
next
  case (JBool b)
  show ?case unfolding value_ok_def
    by (intro allI impI, case_tac n) (auto split: if_splits)
next
  case JNull
  show ?case unfolding value_ok_def
    by (intro allI impI, case_tac n) auto
qed

lemma loads_render: "canonical j \<Longrightarrow> loads (render j) = Inr j"
  using value_okD [OF value_ok_all, of j "Suc (length (render j))" "[]"] skip_ws_render [of j "[]"]
  by (simp add: loads_def)

lemma render_inj: "canonical i \<Longrightarrow> canonical j \<Longrightarrow> render i = render j \<longleftrightarrow> i = j"
  by (metis loads_render Inr_inject)

lemma sort_json_canonical: "canonical j \<Longrightarrow> sort_json j = j"
proof (induction j)
  case (JArr xs)
  then show ?case by (simp add: list_all_iff map_idI)
next
  case (JObj kvs)
  then have "map (\<lambda>(k, v). (k, sort_json v)) kvs = kvs"
    by (intro map_idI) (fastforce simp: list_all_iff)
  with JObj.prems show ?case by (simp add: sorted_sort_id sort_key_id_if_sorted)
qed auto

section \<open>Identities of payloads\<close>

lemma distinct_sort_key: "distinct (map fst (sort_key fst xs)) = distinct (map fst xs)"
  by (simp add: distinct_map)

lemma alist_eq_map_of: "distinct (map fst xs) \<Longrightarrow> map (\<lambda>k. (k, the (map_of xs k))) (map fst xs) = xs"
  unfolding map_map comp_def by (rule map_idI) auto

lemma alist_eq_by_keys:
  assumes "set xs = set ys" and "map fst xs = map fst ys" and "distinct (map fst xs)"
  shows "xs = ys"
proof -
  have "map_of xs = map_of ys"
    using assms map_of_inject_set [of xs ys] by metis
  then show ?thesis
    using assms(2,3) alist_eq_map_of [of xs] alist_eq_map_of [of ys] by metis
qed

lemma canonical_PDict:
  "canonical (to_json (PDict kvs)) \<longleftrightarrow>
     distinct (map fst kvs) \<and> (\<forall>kv \<in> set kvs. canonical (to_json (snd kv)))"
proof -
  let ?js = "map (\<lambda>(k, v). (k, to_json v)) kvs"
  have "map fst ?js = map fst kvs" by (simp add: case_prod_beta comp_def)
  then have "distinct (map fst (sort_key fst ?js)) = distinct (map fst kvs)"
    by (simp only: distinct_sort_key)
  moreover have "sorted (map fst (sort_key fst ?js))" by simp
  moreover have "list_all (\<lambda>(k, v). canonical v) (sort_key fst ?js)
      \<longleftrightarrow> (\<forall>kv \<in> set kvs. canonical (to_json (snd kv)))"
    by (auto simp: list_all_iff)
  ultimately show ?thesis by simp
qed

text \<open>Two payloads over the same keys have the same JSON when they agree key by key.\<close>

lemma PDict_eq_iff:
  assumes "map fst kvs = map fst kvs'" and "distinct (map fst kvs)"
  shows "to_json (PDict kvs) = to_json (PDict kvs') \<longleftrightarrow>
     map (to_json \<circ> snd) kvs = map (to_json \<circ> snd) kvs'"
proof -
  let ?j = "map (\<lambda>(k, v). (k, to_json v)) kvs" and ?j' = "map (\<lambda>(k, v). (k, to_json v)) kvs'"
  have keys: "map fst ?j = map fst kvs" "map fst ?j' = map fst kvs'"
    by (simp_all add: case_prod_beta comp_def)
  have vals: "map snd ?j = map (to_json \<circ> snd) kvs" "map snd ?j' = map (to_json \<circ> snd) kvs'"
    by (simp_all add: case_prod_beta comp_def)
  have d: "distinct (map fst ?j)" "distinct (map fst ?j')"
    using assms keys by metis+
  have "sort_key fst ?j = sort_key fst ?j' \<longleftrightarrow> ?j = ?j'"
  proof
    assume "sort_key fst ?j = sort_key fst ?j'"
    then have s: "set ?j = set ?j'" by (metis set_sort)
    show "?j = ?j'"
      by (rule alist_eq_by_keys [OF s _ d(1)]) (use keys assms(1) in metis)
  qed simp
  also have "\<dots> \<longleftrightarrow> map (to_json \<circ> snd) kvs = map (to_json \<circ> snd) kvs'"
    using keys vals assms(1) by (metis zip_map_fst_snd)
  finally show ?thesis by simp
qed

lemma PDict_keys:
  assumes "to_json (PDict kvs) = to_json (PDict kvs')"
  shows "fst ` set kvs = fst ` set kvs'"
proof -
  have "fst ` set (map (\<lambda>(k, v). (k, to_json v)) xs) = fst ` set xs" for xs
    by force
  moreover have "set (map (\<lambda>(k, v). (k, to_json v)) kvs) = set (map (\<lambda>(k, v). (k, to_json v)) kvs')"
    using assms by (simp only: to_json.simps json.inject) (metis set_sort)
  ultimately show ?thesis by metis
qed

lemma freeze_json_id_eq_iff:
  assumes "inj sha" and "canonical i" and "canonical j"
  shows "snapshot_id (freeze_json sha i) = snapshot_id (freeze_json sha j) \<longleftrightarrow> i = j"
  using assms by (simp add: freeze_json_def inj_eq render_inj)

lemma freeze_id_eq_iff:
  assumes "inj sha" and "canonical (to_json v)" and "canonical (to_json w)"
  shows "snapshot_id (freeze_snapshot sha v) = snapshot_id (freeze_snapshot sha w)
    \<longleftrightarrow> to_json v = to_json w"
  using assms by (simp add: freeze_snapshot_def freeze_json_id_eq_iff)

text \<open>Leaves that occur in identity payloads.\<close>

lemma show_nat_no_zero: "0 < n \<Longrightarrow> hd (show_nat n) \<noteq> CHR ''0''"
proof (induction n rule: show_nat.induct)
  case (1 n)
  show ?case
  proof (cases "n < 10")
    case True
    have "digit_char n \<noteq> CHR ''0''"
    proof
      assume "digit_char n = CHR ''0''"
      then have "(of_char (digit_char n) :: nat) = of_char (CHR ''0'')" by simp
      with True "1.prems" show False by simp
    qed
    then show ?thesis using True by (subst show_nat.simps) simp
  next
    case False
    with 1 have "hd (show_nat (n div 10)) \<noteq> CHR ''0''" by simp
    with False show ?thesis by (subst show_nat.simps) simp
  qed
qed

lemma show_nat_0: "show_nat 0 = ''0''"
  by code_simp

lemma digit_span [simp]:
  "takeWhile is_digit (show_nat n) = show_nat n" "dropWhile is_digit (show_nat n) = []"
  using show_nat_digits [of n] by (simp_all add: list_all_iff takeWhile_eq_all_conv dropWhile_eq_Nil_conv)

lemma valid_show_nat: "valid_num (show_nat n)" "list_all num_char (show_nat n)"
proof -
  have d: "list_all is_digit (show_nat n)" by (rule show_nat_digits)
  have "hd (show_nat n) \<in> set (show_nat n)" by simp
  with d have "hd (show_nat n) \<noteq> CHR ''-''" by (auto simp: list_all_iff simp del: hd_in_set)
  then show "valid_num (show_nat n)"
    using show_nat_no_zero [of n] show_nat_0
    by (cases "n = 0") (auto simp: valid_num_def valid_frac_def Let_def is_digit_def [of "CHR ''0''"])
  show "list_all num_char (show_nat n)"
    using d by (auto simp: list_all_iff num_char_def)
qed

lemma canonical_show_int: "canonical (JNum (show_int i))"
proof (cases "i < 0")
  case True
  then show ?thesis
    using valid_show_nat(2) [of "nat (- i)"] show_nat_no_zero [of "nat (- i)"]
    by (simp add: show_int_def valid_num_def valid_frac_def Let_def num_char_def)
qed (simp add: show_int_def valid_show_nat)

lemma valid_show_int [simp]: "valid_num (show_int i)" "list_all num_char (show_int i)"
  using canonical_show_int [of i] by simp_all

lemma show_int_inj [simp]: "show_int i = show_int j \<longleftrightarrow> i = j"
proof
  assume eq: "show_int i = show_int j"
  have neq: "show_nat m \<noteq> CHR ''-'' # s" for m s
    using show_nat_digits [of m] by auto
  show "i = j"
    using eq neq [THEN not_sym] neq
    by (auto simp: show_int_def split: if_splits dest!: show_nat_inj)
qed simp

lemma canonical_leaves [simp]:
  "canonical (to_json PNone)" "canonical (to_json (PBool b))" "canonical (to_json (PInt i))"
  "canonical (to_json (PStr s))" "canonical (to_json (PTime t))" "canonical (to_json (PDec d))"
  by simp_all

lemma canonical_PList [simp]:
  "canonical (to_json (PList vs)) \<longleftrightarrow> (\<forall>v \<in> set vs. canonical (to_json v))"
  by (simp add: list_all_iff)

lemma loads_freeze:
  "canonical (to_json v) \<Longrightarrow> loads (canonical_json (freeze_snapshot sha v)) = Inr (to_json v)"
  by (simp add: freeze_snapshot_def freeze_json_def loads_render)

declare to_json.simps(9) [simp del] canonical.simps(3) [simp del]

text \<open>Two hashed payloads over the same keys agree key by key when their identities do.\<close>

lemma payload_id_eq:
  assumes "inj sha" and "map fst kvs = map fst kvs'" and "distinct (map fst kvs)"
    and "\<forall>kv \<in> set kvs \<union> set kvs'. canonical (to_json (snd kv))"
    and "snapshot_id (freeze_snapshot sha (PDict kvs)) = snapshot_id (freeze_snapshot sha (PDict kvs'))"
  shows "map (to_json \<circ> snd) kvs = map (to_json \<circ> snd) kvs'"
proof -
  have "canonical (to_json (PDict kvs))" "canonical (to_json (PDict kvs'))"
    unfolding canonical_PDict using assms(2-4) by auto
  then show ?thesis using assms(5) PDict_eq_iff [OF assms(2,3)] by (simp only: freeze_id_eq_iff [OF assms(1)])
qed

text \<open>What identities of payloads with floats rely on: \<open>repr\<close> prints a number, and different floats
  differently.\<close>

definition repr_ok :: "(rat \<Rightarrow> string) \<Rightarrow> bool" where
  "repr_ok fr \<longleftrightarrow> inj fr \<and> (\<forall>x. canonical (JNum (fr x)))"

lemma repr_ok_simps:
  assumes "repr_ok fr"
  shows "canonical (JNum (fr x))" and "fr x = fr y \<longleftrightarrow> x = y"
  using assms by (auto simp: repr_ok_def inj_eq)

text \<open>A rendering with that property, for the examples.\<close>

definition number_text :: "rat \<Rightarrow> string" where
  "number_text x = show_nat (to_nat x)"

lemma number_text_ok: "repr_ok number_text"
  by (auto simp: repr_ok_def number_text_def inj_def valid_show_nat dest: show_nat_inj)

end
