(* ===== verification/Strikes.thy ===== *)
theory Strikes
  imports Snapshot
begin

text \<open>
  Strike selection of the StrikePilot model (\<open>models/strikepilot/strikes.py\<close>).  Prices are
  exact rationals in place of binary floats: rounding errors and overflow of float
  arithmetic are not modelled.
\<close>

section \<open>Rounding\<close>

text \<open>Python's \<open>round\<close>: to the nearest integer, ties to even.\<close>

definition round_half_even :: "rat \<Rightarrow> int" where
  "round_half_even q =
     (let f = \<lfloor>q\<rfloor>; d = q - of_int f
      in if d < 1 / 2 then f else if 1 / 2 < d then f + 1 else if even f then f else f + 1)"

definition round_places :: "nat \<Rightarrow> rat \<Rightarrow> rat" where
  "round_places k q = of_int (round_half_even (q * 10 ^ k)) / 10 ^ k"

lemma round_half_even_near: "\<bar>of_int (round_half_even q) - q\<bar> \<le> 1 / 2"
proof -
  have "of_int \<lfloor>q\<rfloor> \<le> q" "q < of_int \<lfloor>q\<rfloor> + 1" by linarith+
  then show ?thesis by (auto simp: round_half_even_def Let_def abs_le_iff)
qed

lemma round_places_near: "\<bar>round_places k q - q\<bar> \<le> 1 / (2 * 10 ^ k)"
proof -
  have "\<bar>of_int (round_half_even (q * 10 ^ k)) - q * 10 ^ k\<bar> / 10 ^ k \<le> (1 / 2) / 10 ^ k"
    using round_half_even_near by (intro divide_right_mono) auto
  moreover have "\<bar>of_int (round_half_even (q * 10 ^ k)) - q * 10 ^ k\<bar> / 10 ^ k
      = \<bar>round_places k q - q\<bar>"
  proof -
    have "round_places k q - q = (of_int (round_half_even (q * 10 ^ k)) - q * 10 ^ k) / 10 ^ k"
      by (simp add: round_places_def diff_divide_distrib)
    then show ?thesis by (simp only: abs_divide) simp
  qed
  ultimately show ?thesis by simp
qed

section \<open>Iron condor strikes\<close>

record iron_condor_strikes =
  short_put :: int
  long_put :: int
  short_call :: int
  long_call :: int
  put_distance :: rat
  call_distance :: rat

definition select_iron_condor_strikes ::
  "rat \<Rightarrow> rat \<Rightarrow> rat \<Rightarrow> rat \<Rightarrow> rat \<Rightarrow> rat \<Rightarrow> int \<Rightarrow> int \<Rightarrow> iron_condor_strikes result" where
  "select_iron_condor_strikes center up_tail down_tail joint_buffer up_buffer down_buffer
     strike_increment wing_width =
     (if center \<le> 0 then Inl (ValueError ''center must be positive'')
      else if min up_tail (min down_tail (min joint_buffer (min up_buffer down_buffer))) < 0
        then Inl (ValueError ''tails and buffers must be non-negative'')
      else if strike_increment \<le> 0 \<or> wing_width \<le> 0
        then Inl (ValueError ''strike increment and wing width must be positive'')
      else
        let call_dist = up_tail + joint_buffer + up_buffer;
            put_dist = down_tail + joint_buffer + down_buffer;
            s_call = strike_increment * \<lceil>(center + call_dist) / of_int strike_increment\<rceil>;
            s_put = strike_increment * \<lfloor>(center - put_dist) / of_int strike_increment\<rfloor>
        in Inr \<lparr>short_put = s_put, long_put = s_put - wing_width,
                short_call = s_call, long_call = s_call + wing_width,
                put_distance = round_places 10 (center - of_int s_put),
                call_distance = round_places 10 (of_int s_call - center)\<rparr>)"

definition max_loss_dollars :: "rat \<Rightarrow> int \<Rightarrow> int \<Rightarrow> rat result" where
  "max_loss_dollars net_credit wing_width multiplier =
     (if \<not> (0 \<le> net_credit \<and> net_credit < of_int wing_width)
      then Inl (ValueError ''net credit must be between zero and wing width'')
      else Inr ((of_int wing_width - net_credit) * of_int multiplier))"

text \<open>A condor on the grid: what every caller of the selector relies on.\<close>

definition condor_ok :: "int \<Rightarrow> int \<Rightarrow> iron_condor_strikes \<Rightarrow> bool" where
  "condor_ok inc wing s \<longleftrightarrow>
     long_put s = short_put s - wing \<and> long_call s = short_call s + wing \<and>
     inc dvd short_put s \<and> inc dvd short_call s \<and> short_put s \<le> short_call s"

lemma grid_floor:
  fixes x :: rat
  assumes "0 < (k::int)"
  shows "of_int (k * \<lfloor>x / of_int k\<rfloor>) \<le> x" and "x - of_int k < of_int (k * \<lfloor>x / of_int k\<rfloor>)"
proof -
  have k: "0 < (of_int k :: rat)" using assms by simp
  have "of_int \<lfloor>x / of_int k\<rfloor> * of_int k \<le> x"
    by (simp only: pos_le_divide_eq [OF k, symmetric] of_int_floor_le)
  then show "of_int (k * \<lfloor>x / of_int k\<rfloor>) \<le> x" by (simp add: mult.commute)
  have "x / of_int k < of_int \<lfloor>x / of_int k\<rfloor> + 1" by linarith
  then show "x - of_int k < of_int (k * \<lfloor>x / of_int k\<rfloor>)"
    using k by (simp add: pos_divide_less_eq algebra_simps)
qed

lemma grid_ceiling:
  fixes x :: rat
  assumes "0 < (k::int)"
  shows "x \<le> of_int (k * \<lceil>x / of_int k\<rceil>)" and "of_int (k * \<lceil>x / of_int k\<rceil>) < x + of_int k"
proof -
  have eq: "of_int (k * \<lceil>x / of_int k\<rceil>) = - (of_int (k * \<lfloor>(- x) / of_int k\<rfloor>) :: rat)"
    by (simp add: ceiling_def)
  show "x \<le> of_int (k * \<lceil>x / of_int k\<rceil>)" "of_int (k * \<lceil>x / of_int k\<rceil>) < x + of_int k"
    using grid_floor [OF assms, of "- x"] unfolding eq by linarith+
qed

lemma select_strikes_Inr:
  assumes "select_iron_condor_strikes c u d j ub db inc wing = Inr s"
  shows "0 < c" "0 \<le> u" "0 \<le> d" "0 \<le> j" "0 \<le> ub" "0 \<le> db" "0 < inc" "0 < wing"
    and "short_put s = inc * \<lfloor>(c - (d + j + db)) / of_int inc\<rfloor>"
    and "short_call s = inc * \<lceil>(c + (u + j + ub)) / of_int inc\<rceil>"
    and "long_put s = short_put s - wing" "long_call s = short_call s + wing"
  using assms by (auto simp: select_iron_condor_strikes_def Let_def split: if_splits)

lemma select_strikes_outside:
  assumes "select_iron_condor_strikes c u d j ub db inc wing = Inr s"
  shows "of_int (short_put s) \<le> c - (d + j + db)" "c + (u + j + ub) \<le> of_int (short_call s)"
    and "c - (d + j + db) - of_int inc < of_int (short_put s)"
    and "of_int (short_call s) < c + (u + j + ub) + of_int inc"
proof -
  note f = select_strikes_Inr [OF assms]
  show "of_int (short_put s) \<le> c - (d + j + db)"
    unfolding f(9) by (rule grid_floor [OF f(7)])
  show "c - (d + j + db) - of_int inc < of_int (short_put s)"
    unfolding f(9) by (rule grid_floor [OF f(7)])
  show "c + (u + j + ub) \<le> of_int (short_call s)"
    unfolding f(10) by (rule grid_ceiling [OF f(7)])
  show "of_int (short_call s) < c + (u + j + ub) + of_int inc"
    unfolding f(10) by (rule grid_ceiling [OF f(7)])
qed

lemma select_strikes_condor_ok:
  assumes "select_iron_condor_strikes c u d j ub db inc wing = Inr s"
  shows "condor_ok inc wing s"
proof -
  note f = select_strikes_Inr [OF assms] and o = select_strikes_outside [OF assms]
  have "(of_int (short_put s) :: rat) \<le> of_int (short_call s)"
    using f(2-6) o(1,2) by linarith
  then show ?thesis using f by (simp add: condor_ok_def)
qed

end
