(* ===== verification/Decision.thy ===== *)
theory Decision
  imports Strikes
begin

text \<open>
  The decision core: the risk gates (\<open>decision/gates.py\<close>), the model registry
  (\<open>models/registry.py\<close>), the StrikePilot plugin (\<open>models/strikepilot/model.py\<close>) and the
  runner that combines them (\<open>decision/runner.py\<close>).  A plugin is a descriptor and an
  evaluation function; the fresh \<open>uuid4\<close> run identifier is an argument.
\<close>

section \<open>Decisions and market snapshots\<close>

datatype decision_action = ENTER | WAIT | NO_TRADE

datatype no_trade_reason =
    STALE_MARKET_DATA | CONTRACT_MISMATCH | EVENT_PENDING | UNSCHEDULED_SHOCK
  | OPTION_CHAIN_UNUSABLE | TAIL_EXPANDING | NEXT_EVENT_TOO_CLOSE | NEGATIVE_EDGE
  | RISK_BUDGET_EXCEEDED | MODEL_VERSION_NOT_LOADED

datatype data_quality = GREEN | AMBER | RED

record decision_result =
  run_id :: string
  dr_model_id :: string
  model_version :: string
  rules_version :: string
  dr_snapshot_id :: string
  data_as_of :: instant
  action :: decision_action
  reasons :: "no_trade_reason list"
  dr_output :: "(string, pyval) dict"

record data_quality_report =
  dq_status :: data_quality
  dq_stale_fields :: "string list"
  dq_violations :: "string list"

record market_snapshot =
  ms_snapshot_id :: string
  as_of :: instant
  quality :: data_quality_report
  ms_values :: "(string, pyval) dict"

definition mk_market_snapshot ::
  "string \<Rightarrow> datetime \<Rightarrow> data_quality_report \<Rightarrow> (string, pyval) dict \<Rightarrow> market_snapshot result" where
  "mk_market_snapshot sid t q vs =
     res_bind (to_utc (ValueError ''as_of must be timezone-aware'') t)
       (\<lambda>u. Inr \<lparr>ms_snapshot_id = sid, as_of = u, quality = q, ms_values = vs\<rparr>)"

section \<open>The risk gates\<close>

record decision_gate_context =
  gc_data_quality :: data_quality
  contract_matches :: bool
  event_cleared :: bool
  unscheduled_shock :: bool
  option_chain_usable :: bool
  tail_expanding :: bool
  next_major_event_in_holding_period :: bool
  edge_ok :: bool
  risk_budget_ok :: bool

definition gate_evaluate :: "decision_gate_context \<Rightarrow> no_trade_reason list" where
  "gate_evaluate c =
     (if gc_data_quality c \<noteq> GREEN then [STALE_MARKET_DATA] else [])
     @ (if \<not> contract_matches c then [CONTRACT_MISMATCH] else [])
     @ (if \<not> event_cleared c then [EVENT_PENDING] else [])
     @ (if unscheduled_shock c then [UNSCHEDULED_SHOCK] else [])
     @ (if \<not> option_chain_usable c then [OPTION_CHAIN_UNUSABLE] else [])
     @ (if tail_expanding c then [TAIL_EXPANDING] else [])
     @ (if next_major_event_in_holding_period c then [NEXT_EVENT_TOO_CLOSE] else [])
     @ (if \<not> edge_ok c then [NEGATIVE_EDGE] else [])
     @ (if \<not> risk_budget_ok c then [RISK_BUDGET_EXCEEDED] else [])"

section \<open>Model plugins and their registry\<close>

record artifact_identity =
  ai_version :: string
  ai_artifact_hash :: string

record model_descriptor =
  md_model_id :: string
  md_name :: string
  md_version :: string
  md_artifact_hash :: string
  asset_scope :: "string list"
  strategy_scope :: "string list"
  input_contract_version :: string
  output_contract_version :: string

definition descriptor_identity :: "model_descriptor \<Rightarrow> artifact_identity" where
  "descriptor_identity d = \<lparr>ai_version = md_version d, ai_artifact_hash = md_artifact_hash d\<rparr>"

record decision_model =
  descriptor :: model_descriptor
  evaluate :: "market_snapshot \<Rightarrow> (string, pyval) dict result"

type_synonym model_registry = "(string, decision_model) dict"

definition registry_register :: "model_registry \<Rightarrow> decision_model \<Rightarrow> model_registry result" where
  "registry_register reg m =
     (let mid = md_model_id (descriptor m)
      in case map_of reg mid of
           Some _ \<Rightarrow> Inl (ValueError (''model already registered: '' @ mid))
         | None \<Rightarrow> Inr (AList.update mid m reg))"

definition registry_get :: "model_registry \<Rightarrow> string \<Rightarrow> decision_model result" where
  "registry_get reg mid =
     (case map_of reg mid of
        Some m \<Rightarrow> Inr m
      | None \<Rightarrow> Inl (KeyError (''unknown model: '' @ mid)))"

definition registry_descriptors :: "model_registry \<Rightarrow> model_descriptor list" where
  "registry_descriptors reg = map descriptor (dict_values reg)"

section \<open>The runner\<close>

definition decision_run ::
  "model_registry \<Rightarrow> string \<Rightarrow> string \<Rightarrow> string \<Rightarrow> market_snapshot \<Rightarrow> decision_gate_context
     \<Rightarrow> artifact_identity option \<Rightarrow> decision_result result" where
  "decision_run reg rules uuid mid snap gates required =
     res_bind (registry_get reg mid) (\<lambda>m.
       let rs0 = gate_evaluate gates;
           rs = (case required of
                   Some req \<Rightarrow>
                     if req \<noteq> descriptor_identity (descriptor m)
                     then rs0 @ [MODEL_VERSION_NOT_LOADED] else rs0
                 | None \<Rightarrow> rs0)
       in res_bind (if rs \<noteq> [] then Inr (NO_TRADE, [])
                    else res_bind (evaluate m snap) (\<lambda>out. Inr (WAIT, out)))
          (\<lambda>(act, out). Inr \<lparr>run_id = uuid, dr_model_id = md_model_id (descriptor m),
             model_version = md_version (descriptor m), rules_version = rules,
             dr_snapshot_id = ms_snapshot_id snap, data_as_of = as_of snap,
             action = act, reasons = rs, dr_output = out\<rparr>))"

section \<open>The StrikePilot plugin\<close>

definition MODEL_ID :: string where "MODEL_ID = ''strikepilot_spxw_0dte_ic''"
definition MODEL_VERSION :: string where "MODEL_VERSION = ''0.1.0-baseline''"

definition strikepilot_artifact_hash :: "(string \<Rightarrow> string) \<Rightarrow> int \<Rightarrow> int \<Rightarrow> string" where
  "strikepilot_artifact_hash sha inc wing =
     (if (inc, wing) = (5, 5) then
        snapshot_id (freeze_snapshot sha (PDict
          [(''model_id'', PStr MODEL_ID), (''version'', PStr MODEL_VERSION), (''kind'', PStr ''baseline'')]))
      else
        snapshot_id (freeze_snapshot sha (PDict
          [(''artifact_contract'', PStr ''marketpilot-decision-model-v1''),
           (''implementation'', PStr ''marketpilot.models.strikepilot.model.StrikePilotModel''),
           (''implementation_revision'', PStr ''strikepilot-spxw-0dte-ic-v1''),
           (''model_id'', PStr MODEL_ID),
           (''version'', PStr MODEL_VERSION),
           (''parameters'', PDict [(''strike_increment'', PInt inc), (''wing_width'', PInt wing)]),
           (''input_contract_version'', PStr ''strikepilot-input-v1''),
           (''output_contract_version'', PStr ''strike-map-v1'')])))"

text \<open>\<open>float(value)\<close>; numeric strings are not read.\<close>

fun py_float :: "pyval \<Rightarrow> rat result" where
  "py_float (PInt i) = Inr (of_int i)"
| "py_float (PFloat q r) = Inr q"
| "py_float (PBool b) = Inr (if b then 1 else 0)"
| "py_float (PDec d) = Inr (dec_val d)"
| "py_float (PStr s) = Inl (ValueError (''could not convert string to float: '' @ s))"
| "py_float _ = Inl (TypeError ''float() argument must be a string or a real number'')"

definition float_item :: "(string, pyval) dict \<Rightarrow> string \<Rightarrow> rat result" where
  "float_item vs k = (case map_of vs k of None \<Rightarrow> Inl (KeyError k) | Some v \<Rightarrow> py_float v)"

text \<open>The output's floats carry \<open>repr\<close> texts, printed by the argument \<open>fr\<close>.\<close>

definition strikepilot_evaluate ::
  "(rat \<Rightarrow> string) \<Rightarrow> int \<Rightarrow> int \<Rightarrow> market_snapshot \<Rightarrow> (string, pyval) dict result" where
  "strikepilot_evaluate fr inc wing snap =
     (let vs = ms_values snap;
          missing = filter (\<lambda>k. map_of vs k = None) [''center'', ''up_tail'', ''down_tail'']
      in if missing \<noteq> []
         then Inl (ValueError (''missing StrikePilot inputs: '' @
                concat (map (\<lambda>k. k @ '', '') (butlast missing)) @ last missing))
         else res_bind (float_item vs ''center'') (\<lambda>center.
              res_bind (float_item vs ''up_tail'') (\<lambda>up_tail.
              res_bind (float_item vs ''down_tail'') (\<lambda>down_tail.
              res_bind (case map_of vs ''joint_buffer'' of None \<Rightarrow> Inr 0 | Some v \<Rightarrow> py_float v) (\<lambda>joint.
              res_bind (select_iron_condor_strikes center up_tail down_tail joint 0 0 inc wing) (\<lambda>s.
                Inr [(''decision_type'', PStr ''STRIKE_MAP''),
                     (''reference_center'', PFloat center (fr center)),
                     (''short_put'', PInt (short_put s)), (''long_put'', PInt (long_put s)),
                     (''short_call'', PInt (short_call s)), (''long_call'', PInt (long_call s)),
                     (''put_distance'', PFloat (put_distance s) (fr (put_distance s))),
                     (''call_distance'', PFloat (call_distance s) (fr (call_distance s)))]))))))"

definition strikepilot_model :: "(string \<Rightarrow> string) \<Rightarrow> (rat \<Rightarrow> string) \<Rightarrow> int \<Rightarrow> int \<Rightarrow> decision_model result" where
  "strikepilot_model sha fr inc wing =
     (if inc \<le> 0 \<or> wing \<le> 0
      then Inl (ValueError ''strike_increment and wing_width must be positive'')
      else Inr \<lparr>descriptor =
             \<lparr>md_model_id = MODEL_ID, md_name = ''StrikePilot'', md_version = MODEL_VERSION,
              md_artifact_hash = strikepilot_artifact_hash sha inc wing,
              asset_scope = [''INDEX'', ''FUTURE'', ''OPTION''],
              strategy_scope = [''SPXW_0DTE_IRON_CONDOR''],
              input_contract_version = ''strikepilot-input-v1'',
              output_contract_version = ''strike-map-v1''\<rparr>,
             evaluate = strikepilot_evaluate fr inc wing\<rparr>)"

section \<open>Gates\<close>

lemma gate_reasons_iff:
  "STALE_MARKET_DATA \<in> set (gate_evaluate c) \<longleftrightarrow> gc_data_quality c \<noteq> GREEN"
  "CONTRACT_MISMATCH \<in> set (gate_evaluate c) \<longleftrightarrow> \<not> contract_matches c"
  "EVENT_PENDING \<in> set (gate_evaluate c) \<longleftrightarrow> \<not> event_cleared c"
  "UNSCHEDULED_SHOCK \<in> set (gate_evaluate c) \<longleftrightarrow> unscheduled_shock c"
  "OPTION_CHAIN_UNUSABLE \<in> set (gate_evaluate c) \<longleftrightarrow> \<not> option_chain_usable c"
  "TAIL_EXPANDING \<in> set (gate_evaluate c) \<longleftrightarrow> tail_expanding c"
  "NEXT_EVENT_TOO_CLOSE \<in> set (gate_evaluate c) \<longleftrightarrow> next_major_event_in_holding_period c"
  "NEGATIVE_EDGE \<in> set (gate_evaluate c) \<longleftrightarrow> \<not> edge_ok c"
  "RISK_BUDGET_EXCEEDED \<in> set (gate_evaluate c) \<longleftrightarrow> \<not> risk_budget_ok c"
  "MODEL_VERSION_NOT_LOADED \<notin> set (gate_evaluate c)"
  by (auto simp: gate_evaluate_def)

definition all_clear :: "decision_gate_context \<Rightarrow> bool" where
  "all_clear c \<longleftrightarrow> gc_data_quality c = GREEN \<and> contract_matches c \<and> event_cleared c
     \<and> \<not> unscheduled_shock c \<and> option_chain_usable c \<and> \<not> tail_expanding c
     \<and> \<not> next_major_event_in_holding_period c \<and> edge_ok c \<and> risk_budget_ok c"

lemma gate_evaluate_Nil_iff: "gate_evaluate c = [] \<longleftrightarrow> all_clear c"
  by (auto simp: gate_evaluate_def all_clear_def)

lemma gate_evaluate_distinct: "distinct (gate_evaluate c)"
  by (simp add: gate_evaluate_def)

section \<open>Runs\<close>

definition identity_ok :: "artifact_identity option \<Rightarrow> decision_model \<Rightarrow> bool" where
  "identity_ok req m \<longleftrightarrow> req = None \<or> req = Some (descriptor_identity (descriptor m))"

definition run_reasons :: "decision_gate_context \<Rightarrow> artifact_identity option \<Rightarrow> decision_model
    \<Rightarrow> no_trade_reason list" where
  "run_reasons c req m = gate_evaluate c @ (if identity_ok req m then [] else [MODEL_VERSION_NOT_LOADED])"

lemma run_reasons_Nil_iff: "run_reasons c req m = [] \<longleftrightarrow> all_clear c \<and> identity_ok req m"
  by (simp add: run_reasons_def gate_evaluate_Nil_iff)

lemma decision_run_cases:
  assumes "registry_get reg mid = Inr m"
  shows "decision_run reg rules u mid snap c req =
    (let mk = (\<lambda>act out. \<lparr>run_id = u, dr_model_id = md_model_id (descriptor m),
         model_version = md_version (descriptor m), rules_version = rules,
         dr_snapshot_id = ms_snapshot_id snap, data_as_of = as_of snap,
         action = act, reasons = run_reasons c req m, dr_output = out\<rparr>)
     in if all_clear c \<and> identity_ok req m
        then (case evaluate m snap of Inl e \<Rightarrow> Inl e | Inr out \<Rightarrow> Inr (mk WAIT out))
        else Inr (mk NO_TRADE []))"
proof -
  have "(case req of Some q \<Rightarrow> if q \<noteq> descriptor_identity (descriptor m)
        then gate_evaluate c @ [MODEL_VERSION_NOT_LOADED] else gate_evaluate c
      | None \<Rightarrow> gate_evaluate c) = run_reasons c req m"
    by (auto simp: run_reasons_def identity_ok_def split: option.splits)
  then show ?thesis
    using assms run_reasons_Nil_iff [of c req m]
    by (auto simp: decision_run_def Let_def split: sum.splits)
qed

lemma decision_run_Inr:
  assumes "decision_run reg rules u mid snap c req = Inr r"
  obtains m where "map_of reg mid = Some m"
    and "reasons r = run_reasons c req m"
    and "if all_clear c \<and> identity_ok req m
         then action r = WAIT \<and> evaluate m snap = Inr (dr_output r)
         else action r = NO_TRADE \<and> dr_output r = []"
proof -
  from assms obtain m where m: "registry_get reg mid = Inr m"
    by (auto simp: decision_run_def)
  from assms [unfolded decision_run_cases [OF m]] m that show thesis
    by (auto simp: Let_def registry_get_def split: if_splits sum.splits option.splits)
qed

lemma registry_get_register:
  "registry_register reg m = Inr reg' \<Longrightarrow>
     registry_get reg' mid =
       (if mid = md_model_id (descriptor m) then Inr m else registry_get reg mid)"
  by (auto simp: registry_register_def registry_get_def Let_def split: option.splits if_splits)

section \<open>Artifact identity of the plugin\<close>

text \<open>The two payloads that \<open>strikepilot_artifact_hash\<close> freezes.\<close>

definition baseline_payload :: "(string, pyval) dict" where
  "baseline_payload =
     [(''model_id'', PStr MODEL_ID), (''version'', PStr MODEL_VERSION), (''kind'', PStr ''baseline'')]"

definition variant_payload :: "int \<Rightarrow> int \<Rightarrow> (string, pyval) dict" where
  "variant_payload i w =
     [(''artifact_contract'', PStr ''marketpilot-decision-model-v1''),
      (''implementation'', PStr ''marketpilot.models.strikepilot.model.StrikePilotModel''),
      (''implementation_revision'', PStr ''strikepilot-spxw-0dte-ic-v1''),
      (''model_id'', PStr MODEL_ID),
      (''version'', PStr MODEL_VERSION),
      (''parameters'', PDict [(''strike_increment'', PInt i), (''wing_width'', PInt w)]),
      (''input_contract_version'', PStr ''strikepilot-input-v1''),
      (''output_contract_version'', PStr ''strike-map-v1'')]"

lemma strikepilot_artifact_hash_alt:
  "strikepilot_artifact_hash sha i w = snapshot_id (freeze_snapshot sha
     (PDict (if (i, w) = (5, 5) then baseline_payload else variant_payload i w)))"
  by (simp add: strikepilot_artifact_hash_def baseline_payload_def variant_payload_def)

lemma payload_keys:
  "''kind'' \<in> fst ` set baseline_payload" "''kind'' \<notin> fst ` set (variant_payload i w)"
  "distinct (map fst (variant_payload i w))" "distinct (map fst baseline_payload)"
  "map fst (variant_payload i w) = map fst (variant_payload i' w')"
  by (simp_all add: baseline_payload_def variant_payload_def)

lemma payload_canonical [simp]:
  "canonical (to_json (PDict baseline_payload))" "canonical (to_json (PDict (variant_payload i w)))"
  using payload_keys by (simp_all add: canonical_PDict) (simp_all add: baseline_payload_def variant_payload_def canonical_PDict)

lemma variant_payload_inj:
  "to_json (PDict (variant_payload i w)) = to_json (PDict (variant_payload i' w')) \<longleftrightarrow> i = i' \<and> w = w'"
proof -
  have "to_json (PDict [(''strike_increment'', PInt i), (''wing_width'', PInt w)])
      = to_json (PDict [(''strike_increment'', PInt i'), (''wing_width'', PInt w')]) \<longleftrightarrow> i = i' \<and> w = w'"
    by (subst PDict_eq_iff) simp_all
  then show ?thesis
    using PDict_eq_iff [OF payload_keys(5,3), of i w i' w'] by (simp add: variant_payload_def)
qed

lemma strikepilot_identity_inj:
  assumes "inj sha"
  shows "strikepilot_artifact_hash sha i w = strikepilot_artifact_hash sha i' w' \<longleftrightarrow> (i, w) = (i', w')"
proof -
  have "to_json (PDict baseline_payload) \<noteq> to_json (PDict (variant_payload a b))" for a b
    using PDict_keys payload_keys(1,2) by metis
  then show ?thesis
    unfolding strikepilot_artifact_hash_alt
    by (subst freeze_id_eq_iff [OF assms]) (auto simp: variant_payload_inj dest: sym)
qed

section \<open>Properties\<close>

text \<open>C2. Every decision run that returns is fail-closed.  The action is never \<open>ENTER\<close>; it
  is \<open>NO_TRADE\<close>, with an empty output, exactly when some reason was recorded, and \<open>WAIT\<close>
  exactly when every gate is clear and the loaded model has the identity governance asked
  for.  The recorded reasons are the failed gates, each once, and the identity mismatch.\<close>

theorem decision_run_fail_closed:
  assumes "decision_run reg rules u mid snap c req = Inr r"
  shows "action r \<noteq> ENTER
    \<and> (action r = NO_TRADE \<longleftrightarrow> reasons r \<noteq> [])
    \<and> (action r = NO_TRADE \<longrightarrow> dr_output r = [])
    \<and> (\<exists>m. map_of reg mid = Some m
         \<and> (action r = WAIT \<longleftrightarrow> all_clear c \<and> identity_ok req m)
         \<and> (MODEL_VERSION_NOT_LOADED \<in> set (reasons r) \<longleftrightarrow> \<not> identity_ok req m)
         \<and> (set (reasons r) - {MODEL_VERSION_NOT_LOADED} = set (gate_evaluate c)))
    \<and> distinct (reasons r)"
proof -
  from assms obtain m where m: "map_of reg mid = Some m" "reasons r = run_reasons c req m"
    and a: "if all_clear c \<and> identity_ok req m
         then action r = WAIT \<and> evaluate m snap = Inr (dr_output r)
         else action r = NO_TRADE \<and> dr_output r = []"
    by (rule decision_run_Inr)
  have "distinct (reasons r)"
    using m(2) gate_evaluate_distinct gate_reasons_iff(10) by (simp add: run_reasons_def)
  moreover have "reasons r = [] \<longleftrightarrow> all_clear c \<and> identity_ok req m"
    using m(2) run_reasons_Nil_iff by simp
  moreover have "MODEL_VERSION_NOT_LOADED \<in> set (reasons r) \<longleftrightarrow> \<not> identity_ok req m"
    "set (reasons r) - {MODEL_VERSION_NOT_LOADED} = set (gate_evaluate c)"
    using m(2) gate_reasons_iff(10) by (auto simp: run_reasons_def)
  ultimately show ?thesis using a m(1) by (auto split: if_splits)
qed

definition example_gates :: decision_gate_context where
  "example_gates = \<lparr>gc_data_quality = AMBER, contract_matches = True, event_cleared = False,
     unscheduled_shock = False, option_chain_usable = True, tail_expanding = False,
     next_major_event_in_holding_period = False, edge_ok = True, risk_budget_ok = True\<rparr>"

definition clear_gates :: decision_gate_context where
  "clear_gates = example_gates\<lparr>gc_data_quality := GREEN, event_cleared := True\<rparr>"

definition example_snapshot :: market_snapshot where
  "example_snapshot = \<lparr>ms_snapshot_id = ''snap'', as_of = 0,
     quality = \<lparr>dq_status = GREEN, dq_stale_fields = [], dq_violations = []\<rparr>,
     ms_values = [(''center'', PInt 7812), (''up_tail'', PInt 28), (''down_tail'', PInt 37)]\<rparr>"

definition example_model :: decision_model where
  "example_model = (case strikepilot_model (\<lambda>s. s) (\<lambda>_. ''0.0'') 5 5 of Inr m \<Rightarrow> m | Inl _ \<Rightarrow> undefined)"

lemma example_model_simps [simp]:
  "strikepilot_model (\<lambda>s. s) (\<lambda>_. ''0.0'') 5 5 = Inr example_model"
  "evaluate example_model = strikepilot_evaluate (\<lambda>_. ''0.0'') 5 5"
  by (simp_all add: example_model_def strikepilot_model_def)

theorem decision_run_fail_closed_witness:
  "\<exists>r. decision_run [(MODEL_ID, example_model)] ''rules-v1'' ''run-1'' MODEL_ID example_snapshot
        example_gates None = Inr r \<and> action r = NO_TRADE \<and> reasons r = [STALE_MARKET_DATA, EVENT_PENDING]
        \<and> dr_output r = []"
proof -
  obtain r where r: "decision_run [(MODEL_ID, example_model)] ''rules-v1'' ''run-1'' MODEL_ID
      example_snapshot example_gates None = Inr r" "reasons r = [STALE_MARKET_DATA, EVENT_PENDING]"
    by (simp add: decision_run_def registry_get_def example_gates_def gate_evaluate_def)
  with decision_run_fail_closed [OF r(1)] show ?thesis by auto
qed

lemma strikepilot_evaluate_Inr:
  assumes "strikepilot_evaluate fr inc wing snap = Inr out"
  obtains center up down joint s where
      "float_item (ms_values snap) ''center'' = Inr center"
      "float_item (ms_values snap) ''up_tail'' = Inr up"
      "float_item (ms_values snap) ''down_tail'' = Inr down"
      "(case map_of (ms_values snap) ''joint_buffer'' of None \<Rightarrow> Inr 0 | Some v \<Rightarrow> py_float v) = Inr joint"
    and "select_iron_condor_strikes center up down joint 0 0 inc wing = Inr s"
    and "map_of out ''short_put'' = Some (PInt (short_put s))"
      "map_of out ''long_put'' = Some (PInt (long_put s))"
      "map_of out ''short_call'' = Some (PInt (short_call s))"
      "map_of out ''long_call'' = Some (PInt (long_call s))"
  using assms by (auto simp: strikepilot_evaluate_def Let_def split: if_splits)

text \<open>When the runner answers \<open>WAIT\<close> for the StrikePilot plugin, its output is a strike
  map whose short strikes lie on the strike grid, at or beyond the requested tails plus the
  joint buffer and within one grid step of them, with wings of the configured width.\<close>

theorem wait_output_covers_tails:
  assumes model: "strikepilot_model sha fr inc wing = Inr m"
    and reg: "map_of reg mid = Some m"
    and run: "decision_run reg rules u mid snap c req = Inr r"
    and wait: "action r = WAIT"
  shows "\<exists>center up down joint sp sc.
     float_item (ms_values snap) ''center'' = Inr center
   \<and> float_item (ms_values snap) ''up_tail'' = Inr up
   \<and> float_item (ms_values snap) ''down_tail'' = Inr down
   \<and> 0 \<le> up \<and> 0 \<le> down \<and> 0 \<le> joint
   \<and> (case map_of (ms_values snap) ''joint_buffer'' of None \<Rightarrow> joint = 0 | Some v \<Rightarrow> py_float v = Inr joint)
   \<and> map_of (dr_output r) ''short_put'' = Some (PInt sp)
   \<and> map_of (dr_output r) ''long_put'' = Some (PInt (sp - wing))
   \<and> map_of (dr_output r) ''short_call'' = Some (PInt sc)
   \<and> map_of (dr_output r) ''long_call'' = Some (PInt (sc + wing))
   \<and> inc dvd sp \<and> inc dvd sc
   \<and> of_int sp \<le> center - (down + joint) \<and> center - (down + joint) < of_int sp + of_int inc
   \<and> center + (up + joint) \<le> of_int sc \<and> of_int sc < center + (up + joint) + of_int inc"
proof -
  from run obtain m' where "map_of reg mid = Some m'"
    and "if all_clear c \<and> identity_ok req m'
         then action r = WAIT \<and> evaluate m' snap = Inr (dr_output r)
         else action r = NO_TRADE \<and> dr_output r = []"
    by (rule decision_run_Inr)
  with reg wait have "evaluate m snap = Inr (dr_output r)" by (auto split: if_splits)
  moreover have "evaluate m = strikepilot_evaluate fr inc wing"
    using model by (auto simp: strikepilot_model_def split: if_splits)
  ultimately have "strikepilot_evaluate fr inc wing snap = Inr (dr_output r)" by simp
  then obtain center up down joint s where v:
      "float_item (ms_values snap) ''center'' = Inr center"
      "float_item (ms_values snap) ''up_tail'' = Inr up"
      "float_item (ms_values snap) ''down_tail'' = Inr down"
      "(case map_of (ms_values snap) ''joint_buffer'' of None \<Rightarrow> Inr 0 | Some v \<Rightarrow> py_float v) = Inr joint"
    and s: "select_iron_condor_strikes center up down joint 0 0 inc wing = Inr s"
    and out: "map_of (dr_output r) ''short_put'' = Some (PInt (short_put s))"
      "map_of (dr_output r) ''long_put'' = Some (PInt (long_put s))"
      "map_of (dr_output r) ''short_call'' = Some (PInt (short_call s))"
      "map_of (dr_output r) ''long_call'' = Some (PInt (long_call s))"
    by (rule strikepilot_evaluate_Inr)
  note f = select_strikes_Inr [OF s] and o = select_strikes_outside [OF s]
  have ok: "inc dvd short_put s" "inc dvd short_call s" using f by simp_all
  have j: "case map_of (ms_values snap) ''joint_buffer'' of None \<Rightarrow> joint = 0 | Some v \<Rightarrow> py_float v = Inr joint"
    using v(4) by (auto split: option.splits)
  have ineq: "of_int (short_put s) \<le> center - (down + joint)"
      "center - (down + joint) < of_int (short_put s) + of_int inc"
      "center + (up + joint) \<le> of_int (short_call s)"
      "of_int (short_call s) < center + (up + joint) + of_int inc"
    using o by simp_all
  have out': "map_of (dr_output r) ''long_put'' = Some (PInt (short_put s - wing))"
      "map_of (dr_output r) ''long_call'' = Some (PInt (short_call s + wing))"
    using out f by simp_all
  show ?thesis
    by (intro exI conjI) (rule v(1-3) f(2-4) j out(1) out'(1) out(3) out'(2) ok ineq)+
qed

theorem wait_output_covers_tails_witness:
  "\<exists>r. decision_run [(MODEL_ID, example_model)] ''rules-v1'' ''run-1'' MODEL_ID example_snapshot
        clear_gates None = Inr r \<and> action r = WAIT
     \<and> map_of (dr_output r) ''short_put'' = Some (PInt 7775)
     \<and> map_of (dr_output r) ''long_call'' = Some (PInt 7845)
     \<and> (\<exists>sc. map_of (dr_output r) ''short_call'' = Some (PInt sc) \<and> 7840 \<le> (of_int sc :: rat))"
proof -
  obtain r where r: "decision_run [(MODEL_ID, example_model)] ''rules-v1'' ''run-1'' MODEL_ID
      example_snapshot clear_gates None = Inr r" and a: "action r = WAIT"
    "map_of (dr_output r) ''short_put'' = Some (PInt 7775)"
    "map_of (dr_output r) ''long_call'' = Some (PInt 7845)"
    by (simp add: decision_run_def registry_get_def clear_gates_def example_gates_def gate_evaluate_def
        strikepilot_evaluate_def float_item_def example_snapshot_def select_iron_condor_strikes_def Let_def)
  have m: "map_of [(MODEL_ID, example_model)] MODEL_ID = Some example_model" by simp
  from wait_output_covers_tails [OF example_model_simps(1) m r a(1)]
  have "\<exists>sc. map_of (dr_output r) ''short_call'' = Some (PInt sc) \<and> 7840 \<le> (of_int sc :: rat)"
    by (auto simp: float_item_def example_snapshot_def)
  with r a show ?thesis by blast
qed

text \<open>The governed identity of the plugin separates its configurations: two pairs of
  strike increment and wing width have the same artifact hash only when they are equal, as
  long as the digest has no collision.\<close>

theorem strikepilot_identity_separates:
  assumes "inj sha"
  shows "strikepilot_artifact_hash sha i w = strikepilot_artifact_hash sha i' w' \<longleftrightarrow> i = i' \<and> w = w'"
  using strikepilot_identity_inj [OF assms, of i w i' w'] by simp

theorem strikepilot_identity_separates_witness:
  "inj (\<lambda>s::string. s) \<and> strikepilot_artifact_hash (\<lambda>s. s) 5 5 \<noteq> strikepilot_artifact_hash (\<lambda>s. s) 5 10"
proof -
  have "inj (\<lambda>s::string. s)" by simp
  from strikepilot_identity_separates [OF this, of 5 5 5 10] show ?thesis by simp
qed

end
