(* ===== verification/Machine.thy ===== *)
theory Machine
  imports Prelude "HOL-Library.Sublist"
begin

text \<open>
  The interfaces the stateful components share.  A component is a step function on its
  state, driven by a sequence of operations; \<open>machine\<close> lifts an invariant of one step to
  every run, \<open>evolving\<close> a relation between the states before and after, and \<open>audit_log\<close>
  specialises it to a log that steps only extend.
\<close>

locale machine =
  fixes step :: "'s \<Rightarrow> 'e \<Rightarrow> 's"
    and inv :: "'s \<Rightarrow> bool"
  assumes step_inv: "inv s \<Longrightarrow> inv (step s e)"
begin

lemma run_inv: "inv s \<Longrightarrow> inv (foldl step s es)"
  by (induction es arbitrary: s) (simp_all add: step_inv)

lemma run_split: "foldl step s (es @ fs) = foldl step (foldl step s es) fs"
  by simp

end

locale evolving = machine step inv
  for step :: "'s \<Rightarrow> 'e \<Rightarrow> 's" and inv :: "'s \<Rightarrow> bool" +
  fixes rel :: "'s \<Rightarrow> 's \<Rightarrow> bool"
  assumes rel_refl: "rel s s"
    and rel_trans: "rel s t \<Longrightarrow> rel t u \<Longrightarrow> rel s u"
    and step_rel: "inv s \<Longrightarrow> rel s (step s e)"
begin

lemma run_rel: "inv s \<Longrightarrow> rel s (foldl step s es)"
proof (induction es arbitrary: s)
  case Nil
  show ?case by (simp add: rel_refl)
next
  case (Cons e es)
  then have "rel (step s e) (foldl step (step s e) es)" by (simp add: step_inv)
  with step_rel [OF Cons.prems] show ?case by (auto intro: rel_trans)
qed

text \<open>Any earlier point of a run is related to its end.\<close>

lemma run_rel_from: "inv s \<Longrightarrow> rel (foldl step s es) (foldl step s (es @ fs))"
  by (simp add: run_rel run_inv)

end

locale audit_log = machine step inv
  for step :: "'s \<Rightarrow> 'e \<Rightarrow> 's" and inv :: "'s \<Rightarrow> bool" +
  fixes log :: "'s \<Rightarrow> 'a list"
  assumes step_log: "inv s \<Longrightarrow> prefix (log s) (log (step s e))"
begin

sublocale log_order: evolving step inv "\<lambda>s t. prefix (log s) (log t)"
  by unfold_locales (auto intro: step_log prefix_order.trans)

lemma run_log: "inv s \<Longrightarrow> prefix (log s) (log (foldl step s es))"
  by (rule log_order.run_rel)

lemma run_log_mem: "inv s \<Longrightarrow> x \<in> set (log s) \<Longrightarrow> x \<in> set (log (foldl step s es))"
  using run_log by (auto dest: set_mono_prefix)

end

end
