(* ===== verification/Governance.thy ===== *)
theory Governance
  imports Snapshot Machine "HOL-Library.Product_Lexorder"
begin

text \<open>
  Model governance: approvals with a content identity (\<open>domain/governance.py\<close>) and the
  registry that keeps champions frozen while challengers stay offline
  (\<open>governance/registry.py\<close>).  Every registry operation returns its result together with
  the state it leaves, since \<open>register_challenger\<close> changes the state before it raises.
\<close>

section \<open>Versions and approvals\<close>

definition required :: "string \<Rightarrow> string \<Rightarrow> string result" where
  "required v name =
     (let n = strip v in if n = [] then Inl (GovernanceError (name @ '' must not be blank'')) else Inr n)"

record mversion =
  model_id :: string
  version :: string
  artifact_hash :: string
  data_manifest_hash :: string
  trained_at :: instant
  validation_report_hash :: "string option"
  parent_version :: "string option"

definition required_opt :: "string option \<Rightarrow> string \<Rightarrow> string option result" where
  "required_opt v name =
     (case v of None \<Rightarrow> Inr None | Some s \<Rightarrow> res_bind (required s name) (\<lambda>n. Inr (Some n)))"

definition mk_model_version ::
  "string \<Rightarrow> string \<Rightarrow> string \<Rightarrow> string \<Rightarrow> datetime \<Rightarrow> string option \<Rightarrow> string option \<Rightarrow> mversion result" where
  "mk_model_version mid ver art man trained report parent =
     res_bind (required mid ''model_id'') (\<lambda>mid'.
     res_bind (required ver ''version'') (\<lambda>ver'.
     res_bind (required art ''artifact_hash'') (\<lambda>art'.
     res_bind (required man ''data_manifest_hash'') (\<lambda>man'.
     res_bind (to_utc (GovernanceError ''trained_at must be timezone-aware'') trained) (\<lambda>t.
     res_bind (required_opt report ''validation_report_hash'') (\<lambda>report'.
     res_bind (required_opt parent ''parent_version'') (\<lambda>parent'.
       Inr \<lparr>model_id = mid', version = ver', artifact_hash = art', data_manifest_hash = man',
            trained_at = t, validation_report_hash = report', parent_version = parent'\<rparr>)))))))"

datatype approval_action = PROMOTE | ROLLBACK

fun action_str :: "approval_action \<Rightarrow> string" where
  "action_str PROMOTE = ''PROMOTE''"
| "action_str ROLLBACK = ''ROLLBACK''"

record approval =
  approval_id :: string
  ap_action :: approval_action
  ap_model_id :: string
  source_version :: "string option"
  target_version :: string
  approved_by :: string
  approved_at :: instant
  evidence_hash :: string
  ap_note :: string

definition opt_str :: "string option \<Rightarrow> pyval" where
  "opt_str v = (case v of None \<Rightarrow> PNone | Some s \<Rightarrow> PStr s)"

text \<open>The payload whose hash is the approval's identity.\<close>

definition approval_payload ::
  "approval_action \<Rightarrow> string \<Rightarrow> string option \<Rightarrow> string \<Rightarrow> string \<Rightarrow> instant \<Rightarrow> string \<Rightarrow> string
     \<Rightarrow> (string, pyval) dict" where
  "approval_payload act mid src tgt who tm ev nt =
     [(''action'', PStr (action_str act)), (''model_id'', PStr mid), (''source_version'', opt_str src),
      (''target_version'', PStr tgt), (''approved_by'', PStr who), (''approved_at'', PTime tm),
      (''evidence_hash'', PStr ev), (''note'', PStr nt)]"

definition approval_create ::
  "(string \<Rightarrow> string) \<Rightarrow> approval_action \<Rightarrow> string \<Rightarrow> string option \<Rightarrow> string \<Rightarrow> string \<Rightarrow> datetime
     \<Rightarrow> string \<Rightarrow> string \<Rightarrow> approval result" where
  "approval_create sha act mid src tgt who tm ev nt =
     res_bind (to_utc (GovernanceError ''approved_at must be timezone-aware'') tm) (\<lambda>t.
     res_bind (required mid ''model_id'') (\<lambda>mid'.
     res_bind (required tgt ''target_version'') (\<lambda>tgt'.
     res_bind (required who ''approved_by'') (\<lambda>who'.
     res_bind (required ev ''evidence_hash'') (\<lambda>ev'.
     res_bind (required nt ''note'') (\<lambda>nt'.
     res_bind (case src of None \<Rightarrow> Inr None
               | Some s \<Rightarrow> if s = [] then Inr None else required_opt (Some s) ''source_version'') (\<lambda>src'.
       Inr \<lparr>approval_id = snapshot_id (freeze_snapshot sha
                (PDict (approval_payload act mid' src' tgt' who' t ev' nt'))),
            ap_action = act, ap_model_id = mid', source_version = src', target_version = tgt',
            approved_by = who', approved_at = t, evidence_hash = ev', ap_note = nt'\<rparr>)))))))"

definition approval_verify :: "(string \<Rightarrow> string) \<Rightarrow> approval \<Rightarrow> unit result" where
  "approval_verify sha a =
     (if snapshot_id (freeze_snapshot sha (PDict (approval_payload (ap_action a) (ap_model_id a)
           (source_version a) (target_version a) (approved_by a) (approved_at a)
           (evidence_hash a) (ap_note a)))) \<noteq> approval_id a
      then Inl (GovernanceError ''governance approval identity mismatch'') else Inr ())"

record governance_event =
  ev_action :: approval_action
  ev_model_id :: string
  ev_source_version :: "string option"
  ev_target_version :: string
  ev_approval_id :: string
  occurred_at :: instant

section \<open>The registry\<close>

record registry =
  versions :: "(string, (string, mversion) dict) dict"
  champions :: "(string, string) dict"
  session_champions :: "(string \<times> string, string) dict"
  events :: "governance_event list"
  used_approvals :: "string set"

definition empty_registry :: registry where
  "empty_registry = \<lparr>versions = [], champions = [], session_champions = [], events = [],
     used_approvals = {}\<rparr>"

text \<open>\<open>self._versions.get(model_id, {})\<close>.\<close>

definition versions_of :: "registry \<Rightarrow> string \<Rightarrow> (string, mversion) dict" where
  "versions_of r mid = (case map_of (versions r) mid of None \<Rightarrow> [] | Some vs \<Rightarrow> vs)"

definition get_version :: "registry \<Rightarrow> string \<Rightarrow> string \<Rightarrow> mversion result" where
  "get_version r mid ver =
     (case map_of (versions r) mid of
        None \<Rightarrow> Inl (GovernanceError (''unknown model version: '' @ mid @ ''@'' @ ver))
      | Some vs \<Rightarrow>
          (case map_of vs ver of
             None \<Rightarrow> Inl (GovernanceError (''unknown model version: '' @ mid @ ''@'' @ ver))
           | Some m \<Rightarrow> Inr m))"

definition register_challenger :: "registry \<Rightarrow> mversion \<Rightarrow> unit result \<times> registry" where
  "register_challenger r m =
     (let vs = versions_of r (model_id m);
          r0 = r\<lparr>versions := (case map_of (versions r) (model_id m) of
                  None \<Rightarrow> AList.update (model_id m) [] (versions r) | Some _ \<Rightarrow> versions r)\<rparr>
      in if map_of vs (version m) \<noteq> None
         then (Inl (GovernanceError (''model version already registered: '' @ version m)), r0)
         else case parent_version m of
           Some p \<Rightarrow>
             if map_of vs p = None then (Inl (GovernanceError (''unknown parent version: '' @ p)), r0)
             else (Inr (), r0\<lparr>versions := AList.update (model_id m) (AList.update (version m) m vs) (versions r0)\<rparr>)
         | None \<Rightarrow> (Inr (), r0\<lparr>versions := AList.update (model_id m) (AList.update (version m) m vs) (versions r0)\<rparr>))"

definition validate_approval ::
  "(string \<Rightarrow> string) \<Rightarrow> registry \<Rightarrow> approval \<Rightarrow> approval_action \<Rightarrow> string \<Rightarrow> string option \<Rightarrow> string \<Rightarrow> unit result" where
  "validate_approval sha r a act mid src tgt =
     res_bind (approval_verify sha a) (\<lambda>_.
       if approval_id a \<in> used_approvals r
       then Inl (GovernanceError ''governance approval has already been used'')
       else if (ap_action a, ap_model_id a, source_version a, target_version a) \<noteq> (act, mid, src, tgt)
       then Inl (GovernanceError ''approval does not match the requested governance action'')
       else Inr ())"

definition record_approval :: "registry \<Rightarrow> approval \<Rightarrow> registry" where
  "record_approval r a =
     r\<lparr>used_approvals := insert (approval_id a) (used_approvals r),
       events := events r @ [\<lparr>ev_action = ap_action a, ev_model_id = ap_model_id a,
         ev_source_version = source_version a, ev_target_version = target_version a,
         ev_approval_id = approval_id a, occurred_at = approved_at a\<rparr>]\<rparr>"

definition promote :: "(string \<Rightarrow> string) \<Rightarrow> registry \<Rightarrow> string \<Rightarrow> string \<Rightarrow> approval \<Rightarrow> mversion result \<times> registry" where
  "promote sha r mid ver a =
     (case get_version r mid ver of
        Inl e \<Rightarrow> (Inl e, r)
      | Inr candidate \<Rightarrow>
          let current = map_of (champions r) mid in
          case validate_approval sha r a PROMOTE mid current ver of
            Inl e \<Rightarrow> (Inl e, r)
          | Inr _ \<Rightarrow>
              (case validation_report_hash candidate of
                 None \<Rightarrow> (Inl (GovernanceError ''challenger has no frozen validation report''), r)
               | Some report \<Rightarrow>
                   if evidence_hash a \<noteq> report
                   then (Inl (GovernanceError ''promotion evidence does not match validation report''), r)
                   else if approved_at a < trained_at candidate
                   then (Inl (GovernanceError ''promotion approval predates the challenger''), r)
                   else if current \<noteq> None \<and> parent_version candidate \<noteq> current
                   then (Inl (GovernanceError ''challenger lineage must descend from the current champion''), r)
                   else (Inr candidate,
                         record_approval (r\<lparr>champions := AList.update mid ver (champions r)\<rparr>) a)))"

definition freeze_session :: "registry \<Rightarrow> string \<Rightarrow> string \<Rightarrow> mversion result \<times> registry" where
  "freeze_session r mid sid =
     (if strip sid = [] then (Inl (GovernanceError ''session_id must not be blank''), r)
      else case map_of (champions r) mid of
        None \<Rightarrow> (Inl (GovernanceError (''model has no champion: '' @ mid)), r)
      | Some current \<Rightarrow>
          (case map_of (session_champions r) (mid, sid) of
             Some frozen \<Rightarrow> (get_version r mid frozen, r)
           | None \<Rightarrow>
               let r' = r\<lparr>session_champions := AList.update (mid, sid) current (session_champions r)\<rparr>
               in (get_version r' mid current, r')))"

definition champion :: "registry \<Rightarrow> string \<Rightarrow> string option \<Rightarrow> mversion result" where
  "champion r mid sid =
     (let live = (case map_of (champions r) mid of
                    None \<Rightarrow> Inl (GovernanceError (''model has no champion: '' @ mid))
                  | Some v \<Rightarrow> get_version r mid v)
      in case sid of
           None \<Rightarrow> live
         | Some s \<Rightarrow> (case map_of (session_champions r) (mid, s) of
                        Some frozen \<Rightarrow> get_version r mid frozen | None \<Rightarrow> live))"

definition rollback :: "(string \<Rightarrow> string) \<Rightarrow> registry \<Rightarrow> string \<Rightarrow> string \<Rightarrow> approval \<Rightarrow> mversion result \<times> registry" where
  "rollback sha r mid tgt a =
     (case get_version r mid tgt of
        Inl e \<Rightarrow> (Inl e, r)
      | Inr target \<Rightarrow>
          (case map_of (champions r) mid of
             None \<Rightarrow> (Inl (GovernanceError (''model has no champion: '' @ mid)), r)
           | Some current \<Rightarrow>
               if tgt = current
               then (Inl (GovernanceError ''rollback target is already the champion''), r)
               else case validate_approval sha r a ROLLBACK mid (Some current) tgt of
                 Inl e \<Rightarrow> (Inl e, r)
               | Inr _ \<Rightarrow> (Inr target,
                     record_approval (r\<lparr>champions := AList.update mid tgt (champions r)\<rparr>) a)))"

text \<open>The \<open>while True\<close> loop of \<open>lineage\<close>; \<open>seen\<close> grows at every turn.\<close>

function lineage_loop :: "registry \<Rightarrow> string \<Rightarrow> string set \<Rightarrow> mversion list \<Rightarrow> mversion \<Rightarrow> mversion list result" where
  "lineage_loop r mid seen acc cur =
     (if version cur \<in> seen then Inl (GovernanceError ''model lineage contains a cycle'')
      else case parent_version cur of
        None \<Rightarrow> Inr (acc @ [cur])
      | Some p \<Rightarrow>
          (case get_version r mid p of
             Inl e \<Rightarrow> Inl e
           | Inr nxt \<Rightarrow> lineage_loop r mid (insert (version cur) seen) (acc @ [cur]) nxt))"
  by pat_completeness auto
termination
proof (relation "measure (\<lambda>(r, mid, seen, acc, cur).
    card (insert (version cur) (version ` set (dict_values (versions_of r mid))) - seen))")
  fix r :: registry and mid seen acc p and cur nxt :: mversion
  assume fresh: "version cur \<notin> seen" and nxt: "get_version r mid p = Inr nxt"
  let ?V = "version ` set (dict_values (versions_of r mid))"
  from nxt have "nxt \<in> set (dict_values (versions_of r mid))"
    by (force simp: get_version_def versions_of_def dict_values_def split: option.splits dest: map_of_SomeD)
  then have "insert (version nxt) ?V = ?V" by auto
  then have "insert (version nxt) ?V - insert (version cur) seen \<subset> insert (version cur) ?V - seen"
    using fresh by auto
  then show "((r, mid, insert (version cur) seen, acc @ [cur], nxt), r, mid, seen, acc, cur)
      \<in> measure (\<lambda>(r, mid, seen, acc, cur).
          card (insert (version cur) (version ` set (dict_values (versions_of r mid))) - seen))"
    by (auto intro!: psubset_card_mono)
qed simp

declare lineage_loop.simps [simp del]

definition lineage :: "registry \<Rightarrow> string \<Rightarrow> string \<Rightarrow> mversion list result" where
  "lineage r mid ver = res_bind (get_version r mid ver) (lineage_loop r mid {} [])"

definition list_versions :: "registry \<Rightarrow> string \<Rightarrow> mversion list" where
  "list_versions r mid = sort_key (\<lambda>m. (trained_at m, version m)) (dict_values (versions_of r mid))"

section \<open>Histories\<close>

datatype reg_op =
    Register mversion
  | Promote string string approval
  | Rollback string string approval
  | Freeze string string

fun reg_step :: "(string \<Rightarrow> string) \<Rightarrow> registry \<Rightarrow> reg_op \<Rightarrow> registry" where
  "reg_step sha r (Register m) = snd (register_challenger r m)"
| "reg_step sha r (Promote mid ver a) = snd (promote sha r mid ver a)"
| "reg_step sha r (Rollback mid ver a) = snd (rollback sha r mid ver a)"
| "reg_step sha r (Freeze mid sid) = snd (freeze_session r mid sid)"

section \<open>The registry invariant\<close>

text \<open>A parent is registered before its children.\<close>

fun parents_ok :: "string set \<Rightarrow> (string, mversion) dict \<Rightarrow> bool" where
  "parents_ok prev [] = True"
| "parents_ok prev ((v, m) # vs) =
     ((case parent_version m of None \<Rightarrow> True | Some p \<Rightarrow> p \<in> prev) \<and> parents_ok (insert v prev) vs)"

definition versions_ok :: "string \<Rightarrow> (string, mversion) dict \<Rightarrow> bool" where
  "versions_ok mid vs \<longleftrightarrow> dict_ok vs \<and> parents_ok {} vs
     \<and> (\<forall>(v, m) \<in> set vs. version m = v \<and> model_id m = mid)"

text \<open>The champion of a model as the audit log alone determines it.\<close>

definition audit_champion :: "governance_event list \<Rightarrow> string \<Rightarrow> string option" where
  "audit_champion es mid =
     foldl (\<lambda>c e. if ev_model_id e = mid then Some (ev_target_version e) else c) None es"

definition registered :: "registry \<Rightarrow> string \<Rightarrow> string \<Rightarrow> bool" where
  "registered r mid v \<longleftrightarrow> map_of (versions_of r mid) v \<noteq> None"

definition registry_ok :: "registry \<Rightarrow> bool" where
  "registry_ok r \<longleftrightarrow>
     (\<forall>mid. versions_ok mid (versions_of r mid))
   \<and> (\<forall>mid v. map_of (champions r) mid = Some v \<longrightarrow> registered r mid v)
   \<and> (\<forall>mid sid v. map_of (session_champions r) (mid, sid) = Some v \<longrightarrow> registered r mid v)
   \<and> used_approvals r = set (map ev_approval_id (events r)) \<and> distinct (map ev_approval_id (events r))
   \<and> (\<forall>mid. map_of (champions r) mid = audit_champion (events r) mid)"

lemma get_version_alt:
  "get_version r mid v = (case map_of (versions_of r mid) v of
     None \<Rightarrow> Inl (GovernanceError (''unknown model version: '' @ mid @ ''@'' @ v)) | Some m \<Rightarrow> Inr m)"
  by (simp add: get_version_def versions_of_def split: option.splits)

lemma registered_iff: "registered r mid v \<longleftrightarrow> (\<exists>m. get_version r mid v = Inr m)"
  by (auto simp: registered_def get_version_alt split: option.splits)

lemma empty_registry_ok [simp]: "registry_ok empty_registry"
  by (simp add: registry_ok_def empty_registry_def versions_of_def versions_ok_def audit_champion_def)

lemma parents_ok_append:
  "parents_ok prev (xs @ ys) \<longleftrightarrow> parents_ok prev xs \<and> parents_ok (prev \<union> fst ` set xs) ys"
  by (induction prev xs rule: parents_ok.induct) auto

lemma update_fresh: "map_of vs k = None \<Longrightarrow> AList.update k x vs = vs @ [(k, x)]"
  by (induction vs) (auto split: if_splits)

lemma versions_ok_add:
  assumes "versions_ok mid vs" and "map_of vs (version m) = None" and "model_id m = mid"
    and "\<And>p. parent_version m = Some p \<Longrightarrow> map_of vs p \<noteq> None"
  shows "versions_ok mid (AList.update (version m) m vs)"
proof -
  have "parents_ok {} (vs @ [(version m, m)])"
    using assms(1,4) by (auto simp: versions_ok_def parents_ok_append map_of_eq_None_iff split: option.splits)
  then show ?thesis
    using assms dict_ok_update [of vs "version m" m] update_fresh [OF assms(2), of m]
    by (auto simp: versions_ok_def)
qed

lemma register_cases:
  obtains "snd (register_challenger r m) = r"
  | "map_of (versions r) (model_id m) = None"
    "snd (register_challenger r m) = r\<lparr>versions := AList.update (model_id m) [] (versions r)\<rparr>"
  | vs' where "map_of (versions_of r (model_id m)) (version m) = None"
    "\<And>p. parent_version m = Some p \<Longrightarrow> map_of (versions_of r (model_id m)) p \<noteq> None"
    "versions_of (snd (register_challenger r m)) =
       (versions_of r)(model_id m := AList.update (version m) m (versions_of r (model_id m)))"
    "snd (register_challenger r m) = r\<lparr>versions := vs'\<rparr>"
proof (cases "fst (register_challenger r m)")
  case (Inl e)
  then show ?thesis
    by (cases "map_of (versions r) (model_id m)")
      (auto simp: register_challenger_def Let_def split: if_splits option.splits intro: that(1,2))
next
  case (Inr u)
  then show ?thesis
    by (auto simp: register_challenger_def Let_def versions_of_def fun_eq_iff
        split: if_splits option.splits intro!: that(3))
qed

text \<open>Registration never changes a version that is already there.\<close>

definition extends :: "registry \<Rightarrow> registry \<Rightarrow> bool" where
  "extends r s \<longleftrightarrow>
     (\<forall>mid v m. map_of (versions_of r mid) v = Some m \<longrightarrow> map_of (versions_of s mid) v = Some m)
   \<and> (\<forall>k v. map_of (session_champions r) k = Some v \<longrightarrow> map_of (session_champions s) k = Some v)
   \<and> prefix (events r) (events s)"

lemma extends_refl [simp]: "extends r r"
  by (simp add: extends_def)

lemma extends_trans: "extends r s \<Longrightarrow> extends s t \<Longrightarrow> extends r t"
  by (auto simp: extends_def intro: prefix_order.trans)

lemma register_step:
  assumes "registry_ok r"
  shows "registry_ok (snd (register_challenger r m)) \<and> extends r (snd (register_challenger r m))"
proof (cases rule: register_cases [of r m])
  case 1
  with assms show ?thesis by simp
next
  case 2
  then have "versions_of (snd (register_challenger r m)) = versions_of r"
    by (auto simp: versions_of_def fun_eq_iff split: option.splits)
  with 2(2) assms show ?thesis by (simp add: registry_ok_def extends_def registered_def)
next
  case (3 vs')
  let ?s = "snd (register_challenger r m)"
  have same: "champions ?s = champions r" "session_champions ?s = session_champions r"
      "events ?s = events r" "used_approvals ?s = used_approvals r"
    using 3(4) by simp_all
  have ext: "map_of (versions_of r mid) v = Some x \<Longrightarrow> map_of (versions_of ?s mid) v = Some x" for mid v x
    using 3(1,3) by auto
  then have reg: "registered r mid v \<Longrightarrow> registered ?s mid v" for mid v
    by (auto simp: registered_def)
  have "versions_ok mid (versions_of ?s mid)" for mid
    using assms versions_ok_add [OF _ 3(1) refl 3(2)] unfolding 3(3) by (simp add: registry_ok_def)
  with assms ext reg show ?thesis
    unfolding registry_ok_def extends_def same by auto
qed

lemma record_step:
  assumes "registry_ok r" and "registered r mid ver" and "approval_id a \<notin> used_approvals r"
    and "ap_model_id a = mid" and "target_version a = ver"
  defines "s \<equiv> record_approval (r\<lparr>champions := AList.update mid ver (champions r)\<rparr>) a"
  shows "registry_ok s \<and> extends r s"
proof -
  have v: "versions_of s = versions_of r"
    by (simp add: s_def record_approval_def versions_of_def fun_eq_iff)
  have "map_of (champions s) mid' = audit_champion (events s) mid'" for mid'
    using assms(1,4,5) by (simp add: s_def record_approval_def registry_ok_def audit_champion_def)
  moreover have "registered s mid' v" if "map_of (champions s) mid' = Some v" for mid' v
    using that assms(1,2)
    by (auto simp: s_def record_approval_def registry_ok_def registered_def versions_of_def split: if_splits)
  moreover have "map_of (session_champions s) = map_of (session_champions r)"
    "registered s = registered r"
    "used_approvals s = insert (approval_id a) (used_approvals r)"
    "map ev_approval_id (events s) = map ev_approval_id (events r) @ [approval_id a]"
    "prefix (events r) (events s)"
    by (simp_all add: s_def record_approval_def registered_def versions_of_def fun_eq_iff)
  ultimately show ?thesis
    using assms(1,3) unfolding registry_ok_def extends_def v by simp
qed

lemma validate_Inr:
  "validate_approval sha r a act mid src tgt = Inr u \<Longrightarrow>
     approval_verify sha a = Inr () \<and> approval_id a \<notin> used_approvals r \<and> ap_action a = act
     \<and> ap_model_id a = mid \<and> source_version a = src \<and> target_version a = tgt"
  by (auto simp: validate_approval_def split: if_splits)

lemma promote_Inr_raw:
  assumes "fst (promote sha r mid ver a) = Inr m"
  shows "\<exists>u. get_version r mid ver = Inr m
    \<and> validate_approval sha r a PROMOTE mid (map_of (champions r) mid) ver = Inr u
    \<and> validation_report_hash m = Some (evidence_hash a) \<and> trained_at m \<le> approved_at a
    \<and> (map_of (champions r) mid \<noteq> None \<longrightarrow> parent_version m = map_of (champions r) mid)
    \<and> snd (promote sha r mid ver a)
        = record_approval (r\<lparr>champions := AList.update mid ver (champions r)\<rparr>) a"
  using assms
  by (cases "validate_approval sha r a PROMOTE mid (map_of (champions r) mid) ver")
    (auto simp: promote_def Let_def split: sum.splits option.splits if_splits)

lemma promote_Inr:
  assumes "fst (promote sha r mid ver a) = Inr m"
  shows "get_version r mid ver = Inr m"
    and "approval_verify sha a = Inr ()" "approval_id a \<notin> used_approvals r" "ap_action a = PROMOTE"
    and "ap_model_id a = mid" "source_version a = map_of (champions r) mid" "target_version a = ver"
    and "validation_report_hash m = Some (evidence_hash a)" "trained_at m \<le> approved_at a"
    and "map_of (champions r) mid \<noteq> None \<Longrightarrow> parent_version m = map_of (champions r) mid"
    and "snd (promote sha r mid ver a)
           = record_approval (r\<lparr>champions := AList.update mid ver (champions r)\<rparr>) a"
  using promote_Inr_raw [OF assms] by (blast dest: validate_Inr)+

lemma promote_Inl: "fst (promote sha r mid ver a) = Inl e \<Longrightarrow> snd (promote sha r mid ver a) = r"
  by (auto simp: promote_def Let_def split: sum.splits option.splits if_splits)

lemma rollback_Inr:
  assumes "fst (rollback sha r mid ver a) = Inr m"
  shows "get_version r mid ver = Inr m" "approval_verify sha a = Inr ()"
    and "approval_id a \<notin> used_approvals r" "ap_action a = ROLLBACK" "ap_model_id a = mid" "target_version a = ver"
    and "\<exists>c. map_of (champions r) mid = Some c \<and> c \<noteq> ver \<and> source_version a = Some c"
    and "snd (rollback sha r mid ver a)
           = record_approval (r\<lparr>champions := AList.update mid ver (champions r)\<rparr>) a"
  using assms
  by (auto simp: rollback_def Let_def split: sum.splits option.splits if_splits dest!: validate_Inr)

lemma rollback_Inl: "fst (rollback sha r mid ver a) = Inl e \<Longrightarrow> snd (rollback sha r mid ver a) = r"
  by (auto simp: rollback_def Let_def split: sum.splits option.splits if_splits)

lemma freeze_step:
  assumes "registry_ok r"
  shows "registry_ok (snd (freeze_session r mid sid)) \<and> extends r (snd (freeze_session r mid sid))"
proof (cases "snd (freeze_session r mid sid) = r")
  case False
  then obtain c where c: "map_of (champions r) mid = Some c"
      "map_of (session_champions r) (mid, sid) = None"
    and s: "snd (freeze_session r mid sid)
      = r\<lparr>session_champions := AList.update (mid, sid) c (session_champions r)\<rparr>"
    by (auto simp: freeze_session_def Let_def split: if_splits option.splits)
  with assms show ?thesis
    unfolding s by (auto simp: registry_ok_def extends_def registered_def versions_of_def)
qed (use assms in simp)

lemma reg_step_ok: "registry_ok r \<Longrightarrow> registry_ok (reg_step sha r op) \<and> extends r (reg_step sha r op)"
proof (cases op)
  case (Promote mid ver a)
  assume ok: "registry_ok r"
  show ?thesis
  proof (cases "fst (promote sha r mid ver a)")
    case (Inr m)
    from record_step [OF ok _ promote_Inr(3,5,7) [OF Inr]] promote_Inr(1,11) [OF Inr]
    show ?thesis by (simp add: Promote registered_iff)
  qed (use ok Promote promote_Inl in simp)
next
  case (Rollback mid ver a)
  assume ok: "registry_ok r"
  show ?thesis
  proof (cases "fst (rollback sha r mid ver a)")
    case (Inr m)
    from record_step [OF ok _ rollback_Inr(3,5,6) [OF Inr]] rollback_Inr(1,8) [OF Inr]
    show ?thesis by (simp add: Rollback registered_iff)
  qed (use ok Rollback rollback_Inl in simp)
qed (simp_all add: register_step freeze_step)

interpretation reg: evolving "reg_step sha" registry_ok extends
  by unfold_locales (auto simp: reg_step_ok intro: extends_trans)

interpretation reg_log: audit_log "reg_step sha" registry_ok events
  by unfold_locales (use reg_step_ok in \<open>auto simp: extends_def\<close>)


section \<open>Lineage\<close>

lemma parents_ok_split:
  assumes "parents_ok prev vs" and "vs = xs @ (v, m) # ys" and "parent_version m = Some p"
  shows "p \<in> prev \<union> fst ` set xs"
  using assms by (auto simp: parents_ok_append)

lemma lineage_loop_ok:
  assumes ok: "versions_ok mid (versions_of r mid)"
    and "versions_of r mid = xs @ (v, m) # ys"
    and "seen \<inter> insert v (fst ` set xs) = {}"
  shows "\<exists>ms. lineage_loop r mid seen acc m = Inr (acc @ m # ms)
      \<and> successively (\<lambda>a b. parent_version a = Some (version b)) (m # ms)
      \<and> parent_version (last (m # ms)) = None
      \<and> distinct (map version (m # ms)) \<and> version ` set ms \<subseteq> fst ` set xs"
  using assms(2,3)
proof (induction "length xs" arbitrary: xs v m ys seen acc rule: less_induct)
  case less
  let ?vs = "versions_of r mid"
  have ver: "version m = v" and d: "distinct (map fst ?vs)"
    using ok less.prems(1) by (auto simp: versions_ok_def dict_ok_def)
  have fresh: "version m \<notin> seen" using less.prems(2) ver by auto
  show ?case
  proof (cases "parent_version m")
    case None
    with fresh show ?thesis by (simp add: lineage_loop.simps [of r mid seen acc m])
  next
    case (Some p)
    from ok less.prems(1) Some have "p \<in> fst ` set xs"
      using parents_ok_split by (fastforce simp: versions_ok_def)
    then obtain q xs1 xs2 where xs: "xs = xs1 @ (p, q) # xs2"
      by (metis (no_types, lifting) fst_conv imageE prod.collapse split_list)
    have vs: "?vs = xs1 @ (p, q) # (xs2 @ (v, m) # ys)" using xs less.prems(1) by simp
    have notin: "p \<notin> fst ` set xs1" "v \<notin> fst ` set xs" "p \<noteq> v"
      using d vs less.prems(1) by auto
    then have "map_of xs1 p = None" by (simp add: map_of_eq_None_iff)
    then have "map_of ?vs p = Some q" by (simp add: vs map_add_def)
    then have get: "get_version r mid p = Inr q" by (simp add: get_version_alt)
    have "insert v seen \<inter> insert p (fst ` set xs1) = {}"
      using less.prems(2) notin xs by auto
    with less.hyps [OF _ vs, of "insert v seen" "acc @ [m]"] xs obtain ms where ms:
        "lineage_loop r mid (insert v seen) (acc @ [m]) q = Inr ((acc @ [m]) @ q # ms)"
        "successively (\<lambda>a b. parent_version a = Some (version b)) (q # ms)"
        "parent_version (last (q # ms)) = None" "distinct (map version (q # ms))"
        "version ` set ms \<subseteq> fst ` set xs1"
      by auto
    have "version q = p" using ok vs by (auto simp: versions_ok_def)
    with ms notin xs ver Some fresh get show ?thesis
      by (intro exI [of _ "q # ms"])
        (auto simp: lineage_loop.simps [of r mid seen acc m])
  qed
qed

lemma lineage_ok:
  assumes "registry_ok r" and "get_version r mid v = Inr m"
  shows "\<exists>ms. lineage r mid v = Inr (m # ms)
      \<and> successively (\<lambda>a b. parent_version a = Some (version b)) (m # ms)
      \<and> parent_version (last (m # ms)) = None \<and> distinct (map version (m # ms))"
proof -
  from assms(2) have "(v, m) \<in> set (versions_of r mid)"
    by (auto simp: get_version_alt split: option.splits dest: map_of_SomeD)
  then obtain xs ys where "versions_of r mid = xs @ (v, m) # ys" by (meson split_list)
  from lineage_loop_ok [OF _ this, of "{}" "[]"] assms show ?thesis
    by (auto simp: lineage_def registry_ok_def)
qed

lemma audit_champion_prefix:
  assumes "prefix es fs" and "audit_champion es mid \<noteq> None"
  shows "audit_champion fs mid \<noteq> None"
proof -
  have "audit_champion (es @ gs) mid \<noteq> None" for gs
    using assms(2) by (induction gs rule: rev_induct) (simp_all add: audit_champion_def flip: append_assoc)
  with assms(1) show ?thesis by (auto simp: prefix_def)
qed


section \<open>Properties\<close>

text \<open>A small registry for the witnesses: a root version, its child, and an approval.\<close>

definition example_root :: mversion where
  "example_root = \<lparr>model_id = ''m'', version = ''v1'', artifact_hash = ''a1'', data_manifest_hash = ''d'',
     trained_at = 10, validation_report_hash = Some ''rep1'', parent_version = None\<rparr>"

definition example_child :: mversion where
  "example_child = \<lparr>model_id = ''m'', version = ''v2'', artifact_hash = ''a2'', data_manifest_hash = ''d'',
     trained_at = 20, validation_report_hash = Some ''rep2'', parent_version = Some ''v1''\<rparr>"

definition example_approval :: "(string \<Rightarrow> string) \<Rightarrow> approval" where
  "example_approval sha = \<lparr>approval_id = snapshot_id (freeze_snapshot sha (PDict
       (approval_payload PROMOTE ''m'' None ''v1'' ''ops'' 15 ''rep1'' ''go''))),
     ap_action = PROMOTE, ap_model_id = ''m'', source_version = None, target_version = ''v1'',
     approved_by = ''ops'', approved_at = 15, evidence_hash = ''rep1'', ap_note = ''go''\<rparr>"

definition example_registry :: registry where
  "example_registry = foldl (reg_step id) empty_registry [Register example_root, Register example_child]"

lemma example_registry_ok: "registry_ok example_registry"
  unfolding example_registry_def by (rule reg.run_inv) simp

lemma example_registry_simps:
  "versions example_registry = [(''m'', [(''v1'', example_root), (''v2'', example_child)])]"
  "champions example_registry = []" "session_champions example_registry = []"
  "events example_registry = []" "used_approvals example_registry = {}"
  by (simp_all add: example_registry_def empty_registry_def register_challenger_def versions_of_def
      example_root_def example_child_def Let_def)

lemma example_promote:
  "fst (promote id example_registry ''m'' ''v1'' (example_approval id)) = Inr example_root"
  by (simp add: promote_def get_version_def example_registry_simps validate_approval_def
      approval_verify_def example_approval_def example_root_def)

text \<open>Along every history of registrations, promotions, rollbacks and session freezes from
  the empty registry, the registry stays well formed (each champion and each frozen champion is
  a registered version, each parent is registered before its child), the champion of a model is
  the one the audit log replays to, and no approval identity appears twice in the log.\<close>

theorem registry_history_sound:
  "let r = foldl (reg_step sha) empty_registry ops
   in registry_ok r
    \<and> (case map_of (champions r) mid of
         None \<Rightarrow> audit_champion (events r) mid = None
       | Some v \<Rightarrow> audit_champion (events r) mid = Some v
           \<and> (\<exists>m. champion r mid None = Inr m \<and> version m = v \<and> model_id m = mid))
    \<and> distinct (map ev_approval_id (events r))
    \<and> used_approvals r = set (map ev_approval_id (events r))"
proof -
  define r where "r = foldl (reg_step sha) empty_registry ops"
  have ok: "registry_ok r" unfolding r_def by (rule reg.run_inv) simp
  have "\<exists>m. champion r mid None = Inr m \<and> version m = v \<and> model_id m = mid"
    if v: "map_of (champions r) mid = Some v" for v
  proof -
    from ok v have "registered r mid v" by (simp only: registry_ok_def)
    then obtain m where m: "map_of (versions_of r mid) v = Some m" by (auto simp: registered_def)
    with ok have "version m = v \<and> model_id m = mid"
      by (fastforce simp: registry_ok_def versions_ok_def dest: map_of_SomeD)
    with v m show ?thesis by (simp add: champion_def get_version_alt)
  qed
  moreover have "map_of (champions r) mid = audit_champion (events r) mid"
    "distinct (map ev_approval_id (events r))" "used_approvals r = set (map ev_approval_id (events r))"
    using ok by (simp_all add: registry_ok_def)
  ultimately have "case map_of (champions r) mid of
         None \<Rightarrow> audit_champion (events r) mid = None
       | Some v \<Rightarrow> audit_champion (events r) mid = Some v
           \<and> (\<exists>m. champion r mid None = Inr m \<and> version m = v \<and> model_id m = mid)"
    by (simp split: option.split)
  with ok show ?thesis unfolding Let_def r_def [symmetric] by (simp add: registry_ok_def)
qed

text \<open>C4. A promotion that succeeds had a verified, unused promotion approval for exactly this
  model, current champion and target, the candidate's frozen report as evidence, an approval
  time not before training, and a candidate whose parent is the current champion when there is
  one; it makes the candidate champion, logs one event, changes nothing else, and the approval
  cannot be used again for a promotion or a rollback.\<close>

theorem promote_safe:
  fixes mid' ver' :: string
  assumes ok: "fst (promote sha r mid ver a) = Inr m"
  defines "s \<equiv> snd (promote sha r mid ver a)"
  shows "get_version r mid ver = Inr m
    \<and> approval_verify sha a = Inr () \<and> approval_id a \<notin> used_approvals r
    \<and> (ap_action a, ap_model_id a, source_version a, target_version a)
        = (PROMOTE, mid, map_of (champions r) mid, ver)
    \<and> validation_report_hash m = Some (evidence_hash a) \<and> trained_at m \<le> approved_at a
    \<and> (map_of (champions r) mid \<noteq> None \<longrightarrow> parent_version m = map_of (champions r) mid)
    \<and> map_of (champions s) = (map_of (champions r))(mid \<mapsto> ver)
    \<and> versions s = versions r \<and> session_champions s = session_champions r
    \<and> map ev_approval_id (events s) = map ev_approval_id (events r) @ [approval_id a]
    \<and> \<not> is_ok (fst (promote sha s mid' ver' a)) \<and> \<not> is_ok (fst (rollback sha s mid' ver' a))"
proof -
  note p = promote_Inr [OF ok]
  have s: "s = record_approval (r\<lparr>champions := AList.update mid ver (champions r)\<rparr>) a"
    unfolding s_def by (rule p(11))
  then have "approval_id a \<in> used_approvals s" by (simp add: record_approval_def)
  then have "\<not> is_ok (fst (promote sha s mid' ver' a))" "\<not> is_ok (fst (rollback sha s mid' ver' a))"
    using promote_Inr(3) rollback_Inr(3) unfolding is_ok_iff by blast+
  with p s show ?thesis by (simp add: record_approval_def)
qed

theorem promote_safe_witness:
  "map_of (champions (snd (promote id example_registry ''m'' ''v1'' (example_approval id)))) ''m'' = Some ''v1''"
  using promote_safe [OF example_promote] by simp

text \<open>A rejected promotion or rollback leaves the registry untouched, and a rollback that
  succeeds returns a registered version other than the champion it replaces, under an approval
  naming that champion as its source, and keeps sessions and versions as they were.\<close>

theorem rollback_safe:
  "(case fst (rollback sha r mid ver a) of
      Inl e \<Rightarrow> snd (rollback sha r mid ver a) = r
    | Inr m \<Rightarrow> get_version r mid ver = Inr m
        \<and> approval_verify sha a = Inr () \<and> approval_id a \<notin> used_approvals r
        \<and> ap_action a = ROLLBACK \<and> source_version a = map_of (champions r) mid
        \<and> map_of (champions r) mid \<notin> {None, Some ver}
        \<and> map_of (champions (snd (rollback sha r mid ver a))) = (map_of (champions r))(mid \<mapsto> ver)
        \<and> versions (snd (rollback sha r mid ver a)) = versions r
        \<and> session_champions (snd (rollback sha r mid ver a)) = session_champions r)
   \<and> (case fst (promote sha r mid ver a) of
      Inl e \<Rightarrow> snd (promote sha r mid ver a) = r | Inr m \<Rightarrow> get_version r mid ver = Inr m)"
proof -
  have "case fst (promote sha r mid ver a) of
      Inl e \<Rightarrow> snd (promote sha r mid ver a) = r | Inr m \<Rightarrow> get_version r mid ver = Inr m"
    using promote_Inl promote_Inr(1) by (auto split: sum.split)
  moreover have "get_version r mid ver = Inr m
        \<and> approval_verify sha a = Inr () \<and> approval_id a \<notin> used_approvals r
        \<and> ap_action a = ROLLBACK \<and> source_version a = map_of (champions r) mid
        \<and> map_of (champions r) mid \<notin> {None, Some ver}
        \<and> map_of (champions (snd (rollback sha r mid ver a))) = (map_of (champions r))(mid \<mapsto> ver)
        \<and> versions (snd (rollback sha r mid ver a)) = versions r
        \<and> session_champions (snd (rollback sha r mid ver a)) = session_champions r"
    if "fst (rollback sha r mid ver a) = Inr m" for m
    using rollback_Inr [OF that] by (auto simp: record_approval_def)
  ultimately show ?thesis using rollback_Inl by (simp split: sum.split)
qed

text \<open>Once a session is frozen on a model, every later history of the registry, with its
  promotions and rollbacks of that model, gives the session the same version: \<open>champion\<close> with
  the session and a repeated \<open>freeze_session\<close> both return it.\<close>

theorem frozen_session_stable:
  fixes sha :: "string \<Rightarrow> string" and later :: "reg_op list"
  assumes ok: "registry_ok r" and frozen: "fst (freeze_session r mid sid) = Inr m"
  defines "s \<equiv> foldl (reg_step sha) (snd (freeze_session r mid sid)) later"
  shows "champion s mid (Some sid) = Inr m \<and> fst (freeze_session s mid sid) = Inr m"
proof -
  let ?f = "snd (freeze_session r mid sid)"
  have f_ok: "registry_ok ?f" using freeze_step [OF ok] by simp
  obtain v where v: "map_of (session_champions ?f) (mid, sid) = Some v" "get_version ?f mid v = Inr m"
      "map_of (champions ?f) mid \<noteq> None" and sid: "strip sid \<noteq> []"
    using frozen by (auto simp: freeze_session_def Let_def get_version_def split: if_splits option.splits)
  have s_ok: "registry_ok s" and ext: "extends ?f s"
    unfolding s_def using f_ok by (rule reg.run_inv, rule reg.run_rel)
  have "map_of (session_champions s) (mid, sid) = Some v" "get_version s mid v = Inr m"
    using ext v by (auto simp: extends_def get_version_alt split: option.splits)
  moreover have "map_of (champions s) mid \<noteq> None"
    using v(3) f_ok s_ok ext audit_champion_prefix [of "events ?f" "events s" mid]
    by (simp add: registry_ok_def extends_def)
  ultimately show ?thesis using sid by (auto simp: champion_def freeze_session_def)
qed

definition example_live :: registry where
  "example_live = reg_step id example_registry (Promote ''m'' ''v1'' (example_approval id))"

theorem frozen_session_stable_witness:
  "champion (foldl (reg_step id) (snd (freeze_session example_live ''m'' ''s1'')) [Freeze ''m'' ''s2''])
     ''m'' (Some ''s1'') = Inr example_root"
proof -
  have ok: "registry_ok example_live"
    unfolding example_live_def using example_registry_ok reg_step_ok by blast
  have live: "example_live = record_approval (example_registry\<lparr>champions :=
      AList.update ''m'' ''v1'' (champions example_registry)\<rparr>) (example_approval id)"
    using promote_Inr(11) [OF example_promote] by (simp add: example_live_def)
  have "fst (freeze_session example_live ''m'' ''s1'') = Inr example_root"
    by (simp add: live freeze_session_def record_approval_def example_registry_simps get_version_def
        strip_def lstrip_def is_space_def)
  from frozen_session_stable [OF ok this] show ?thesis by blast
qed

text \<open>The lineage walk of a registered version in a reachable registry always returns: it
  never meets a cycle or an unknown parent, starts at the version, follows parents, repeats no
  version and ends at a version without a parent.\<close>

theorem lineage_returns:
  assumes "get_version (foldl (reg_step sha) empty_registry ops) mid v = Inr m"
  shows "\<exists>ms. lineage (foldl (reg_step sha) empty_registry ops) mid v = Inr (m # ms)
      \<and> successively (\<lambda>a b. parent_version a = Some (version b)) (m # ms)
      \<and> parent_version (last (m # ms)) = None \<and> distinct (map version (m # ms))"
  by (rule lineage_ok [OF reg.run_inv [OF empty_registry_ok] assms])

theorem lineage_returns_witness:
  "\<exists>ms. lineage example_registry ''m'' ''v2'' = Inr (example_child # ms) \<and> ms \<noteq> []"
proof -
  have "get_version example_registry ''m'' ''v2'' = Inr example_child"
    by (simp add: get_version_def example_registry_simps)
  from lineage_returns [OF this [unfolded example_registry_def]] obtain ms where
      "lineage example_registry ''m'' ''v2'' = Inr (example_child # ms)"
      "parent_version (last (example_child # ms)) = None"
    unfolding example_registry_def by blast
  moreover from this have "ms \<noteq> []" by (auto simp: example_child_def)
  ultimately show ?thesis by blast
qed

lemma opt_str_inj: "to_json (opt_str u) = to_json (opt_str v) \<longleftrightarrow> u = v"
  by (cases u; cases v) (simp_all add: opt_str_def)

lemma action_str_inj: "action_str x = action_str y \<longleftrightarrow> x = y"
  by (cases x; cases y) simp_all

text \<open>An approval's identity fixes its content: two approvals that verify, with the same
  identity, agree in every field, as long as the digest has no collision.  (Instants are
  nonnegative, as every \<open>datetime\<close> is.)\<close>

theorem approval_identity_binds:
  assumes inj: "inj sha" and "0 \<le> approved_at a" and "0 \<le> approved_at b"
    and va: "approval_verify sha a = Inr ()" and vb: "approval_verify sha b = Inr ()"
    and same: "approval_id a = approval_id b"
  shows "a = b"
proof -
  define P :: "approval \<Rightarrow> pyval" where "P x = PDict (approval_payload (ap_action x) (ap_model_id x)
      (source_version x) (target_version x) (approved_by x) (approved_at x)
      (evidence_hash x) (ap_note x))" for x
  have can: "canonical (to_json (P x))" for x
    unfolding P_def canonical_PDict
    by (auto simp: approval_payload_def opt_str_def split: option.splits)
  have "snapshot_id (freeze_snapshot sha (P a)) = snapshot_id (freeze_snapshot sha (P b))"
    using va vb same by (simp add: approval_verify_def P_def split: if_splits)
  then have "to_json (P a) = to_json (P b)"
    using freeze_id_eq_iff [OF inj can can] by simp
  moreover have "map fst (approval_payload x1 x2 x3 x4 x5 x6 x7 x8)
      = map fst (approval_payload y1 y2 y3 y4 y5 y6 y7 y8)"
    "distinct (map fst (approval_payload x1 x2 x3 x4 x5 x6 x7 x8))" for x1 x2 x3 x4 x5 x6 x7 x8 y1 y2 y3 y4 y5 y6 y7 y8
    by (simp_all add: approval_payload_def)
  ultimately have "map (to_json \<circ> snd) (approval_payload (ap_action a) (ap_model_id a)
      (source_version a) (target_version a) (approved_by a) (approved_at a)
      (evidence_hash a) (ap_note a)) = map (to_json \<circ> snd) (approval_payload (ap_action b) (ap_model_id b)
      (source_version b) (target_version b) (approved_by b) (approved_at b)
      (evidence_hash b) (ap_note b))"
    unfolding P_def by (subst (asm) PDict_eq_iff) simp_all
  then have "action_str (ap_action a) = action_str (ap_action b)" "ap_model_id a = ap_model_id b"
      "to_json (opt_str (source_version a)) = to_json (opt_str (source_version b))"
      "target_version a = target_version b" "approved_by a = approved_by b"
      "isoformat (approved_at a) = isoformat (approved_at b)"
      "evidence_hash a = evidence_hash b" "ap_note a = ap_note b"
    by (simp_all add: approval_payload_def)
  then show ?thesis
    using same isoformat_inj [OF assms(2,3)]
    by (intro approval.equality) (simp_all add: opt_str_inj action_str_inj)
qed

theorem approval_identity_binds_witness:
  "projr (approval_create (\<lambda>s. s) PROMOTE '' m '' (Some []) ''v1 '' ''ops'' (Aware 15) ''rep1'' '' go'')
     = example_approval (\<lambda>s. s)
   \<and> approval_verify (\<lambda>s. s) ((example_approval (\<lambda>s. s))\<lparr>target_version := ''v2''\<rparr>) \<noteq> Inr ()"
proof -
  let ?e = "example_approval (\<lambda>s. s)"
  let ?a = "projr (approval_create (\<lambda>s. s) PROMOTE '' m '' (Some []) ''v1 '' ''ops'' (Aware 15) ''rep1'' '' go'')"
  have inj: "inj (\<lambda>s::string. s)" by simp
  have e: "approval_verify (\<lambda>s. s) ?e = Inr ()" "0 \<le> approved_at ?e"
    by (simp_all add: approval_verify_def example_approval_def)
  have trim: "strip '' m '' = ''m''" "strip ''v1 '' = ''v1''" "strip ''ops'' = ''ops''"
    "strip ''rep1'' = ''rep1''" "strip '' go'' = ''go''"
    by (simp_all add: strip_def lstrip_def is_space_def)
  have a: "approval_verify (\<lambda>s. s) ?a = Inr ()" "0 \<le> approved_at ?a" "approval_id ?a = approval_id ?e"
    by (simp_all add: approval_verify_def approval_create_def required_def trim example_approval_def)
  have "?a = ?e" by (rule approval_identity_binds [OF inj a(2) e(2) a(1) e(1) a(3)])
  moreover have "approval_verify (\<lambda>s. s) (?e\<lparr>target_version := ''v2''\<rparr>) \<noteq> Inr ()"
  proof
    assume v: "approval_verify (\<lambda>s. s) (?e\<lparr>target_version := ''v2''\<rparr>) = Inr ()"
    have "?e\<lparr>target_version := ''v2''\<rparr> = ?e"
      by (rule approval_identity_binds [OF inj _ e(2) v e(1)]) (use e(2) in simp_all)
    then have "target_version (?e\<lparr>target_version := ''v2''\<rparr>) = target_version ?e" by (rule arg_cong)
    then show False by (simp add: example_approval_def)
  qed
  ultimately show ?thesis by blast
qed

end
