(* ===== verification/Events.thy ===== *)
theory Events
  imports PyTime "HOL-Library.Product_Lexorder"
begin

text \<open>
  RiskPilot's event lock: the point-in-time event record with its timeline validator
  (\<open>domain/events.py\<close>) and the assessment of an event at an instant
  (\<open>events/risk_lock.py\<close>).  The record is polymorphic in its time stamps: the validator
  turns Python datetimes, naive or aware, into instants, after which \<open>normalized\<close> (a change
  of offset only) has nothing left to do.
\<close>

section \<open>Event records\<close>

datatype event_kind = SCHEDULED | SOCIAL | GEOPOLITICAL | DISASTER | MARKET_SHOCK
datatype event_severity = P0 | P1 | P2
datatype risk_lock_state = LOCKED | STABILIZING | CLEARED

record 't event_record =
  event_id :: string
  kind :: event_kind
  severity :: event_severity
  scheduled_at :: "'t option"
  source_published_at :: 't
  first_seen_at :: 't
  confirmed_at :: "'t option"
  market_reaction_start_at :: "'t option"
  session_close_at :: "'t option"
  next_cash_open_at :: "'t option"
  corroborating_sources :: int
  contradictory_evidence :: bool
  cross_asset_confirmed :: bool
  cross_asset_confirmed_at :: "'t option"
  stable_since :: "'t option"
  stable_observations :: int

text \<open>The loop that rejects naive time stamps, in the order of the dict literal.\<close>

fun all_aware :: "(string \<times> datetime option) list \<Rightarrow> unit result" where
  "all_aware [] = Inr ()"
| "all_aware ((name, v) # rest) =
     (case v of Some (Naive _) \<Rightarrow> Inl (ValueError (name @ '' must be timezone-aware'')) | _ \<Rightarrow> all_aware rest)"

fun utc_of :: "datetime \<Rightarrow> instant" where
  "utc_of (Aware t) = t"
| "utc_of (Naive t) = t"

definition timestamps :: "datetime event_record \<Rightarrow> (string \<times> datetime option) list" where
  "timestamps e =
     [(''scheduled_at'', scheduled_at e), (''source_published_at'', Some (source_published_at e)),
      (''first_seen_at'', Some (first_seen_at e)), (''confirmed_at'', confirmed_at e),
      (''market_reaction_start_at'', market_reaction_start_at e),
      (''session_close_at'', session_close_at e), (''next_cash_open_at'', next_cash_open_at e),
      (''cross_asset_confirmed_at'', cross_asset_confirmed_at e), (''stable_since'', stable_since e)]"

definition normalized :: "datetime event_record \<Rightarrow> instant event_record" where
  "normalized e = \<lparr>event_id = event_id e, kind = kind e, severity = severity e,
     scheduled_at = map_option utc_of (scheduled_at e),
     source_published_at = utc_of (source_published_at e), first_seen_at = utc_of (first_seen_at e),
     confirmed_at = map_option utc_of (confirmed_at e),
     market_reaction_start_at = map_option utc_of (market_reaction_start_at e),
     session_close_at = map_option utc_of (session_close_at e),
     next_cash_open_at = map_option utc_of (next_cash_open_at e),
     corroborating_sources = corroborating_sources e, contradictory_evidence = contradictory_evidence e,
     cross_asset_confirmed = cross_asset_confirmed e,
     cross_asset_confirmed_at = map_option utc_of (cross_asset_confirmed_at e),
     stable_since = map_option utc_of (stable_since e), stable_observations = stable_observations e\<rparr>"

fun opt_lt :: "instant option \<Rightarrow> instant \<Rightarrow> bool" where
  "opt_lt None t = False"
| "opt_lt (Some s) t = (s < t)"

fun or_else :: "'a option \<Rightarrow> 'a \<Rightarrow> 'a" where
  "or_else None d = d"
| "or_else (Some x) d = x"

text \<open>\<open>self.cross_asset_confirmed_at or self.confirmed_at or self.first_seen_at\<close>.\<close>

definition stability_floor :: "instant event_record \<Rightarrow> instant" where
  "stability_floor e = or_else (cross_asset_confirmed_at e) (or_else (confirmed_at e) (first_seen_at e))"

text \<open>The field bounds of the model come first, then the \<open>mode="after"\<close> validator.\<close>

definition mk_event_record :: "datetime event_record \<Rightarrow> instant event_record result" where
  "mk_event_record raw =
     (if event_id raw = [] \<or> corroborating_sources raw < 0 \<or> stable_observations raw < 0
      then Inl (ValueError ''field constraint violated'')
      else res_bind (all_aware (timestamps raw)) (\<lambda>_.
        let e = normalized raw in
        if source_published_at e > first_seen_at e
        then Inl (ValueError ''source_published_at cannot be after first_seen_at'')
        else if opt_lt (confirmed_at e) (first_seen_at e)
        then Inl (ValueError ''confirmed_at cannot be before first_seen_at'')
        else if cross_asset_confirmed e \<noteq> (cross_asset_confirmed_at e \<noteq> None)
        then Inl (ValueError ''cross_asset_confirmed and cross_asset_confirmed_at must agree'')
        else if opt_lt (cross_asset_confirmed_at e) (first_seen_at e)
        then Inl (ValueError ''cross_asset_confirmed_at cannot be before first_seen_at'')
        else if (case confirmed_at e of None \<Rightarrow> False | Some c \<Rightarrow> opt_lt (cross_asset_confirmed_at e) c)
        then Inl (ValueError ''cross_asset_confirmed_at cannot be before confirmed_at'')
        else if opt_lt (stable_since e) (stability_floor e)
        then Inl (ValueError ''stable_since cannot predate event and cross-asset confirmation'')
        else if (case (session_close_at e, next_cash_open_at e) of
                   (Some c, Some n) \<Rightarrow> n \<le> c | _ \<Rightarrow> False)
        then Inl (ValueError ''next_cash_open_at must follow session_close_at'')
        else Inr e))"

section \<open>The lock\<close>

record risk_lock_assessment =
  ra_event_id :: string
  ra_state :: risk_lock_state
  assessed_at :: instant
  reasons :: "string list"
  rerun_at :: "instant option"
  next_checkpoint :: "string option"

definition EVENT_CHECKPOINTS :: "(string \<times> timedelta) list" where
  "EVENT_CHECKPOINTS =
     [(''T-30m'', minutes (-30)), (''T-5m'', minutes (-5)), (''T+30s'', seconds 30), (''T+2m'', minutes 2),
      (''T+5m'', minutes 5), (''T+15m'', minutes 15), (''T+30m'', minutes 30), (''T+60m'', minutes 60)]"

record risk_lock_policy =
  minimum_corroborating_sources :: int
  minimum_stable_observations :: int
  stability_window :: timedelta

definition default_lock_policy :: risk_lock_policy where
  "default_lock_policy = \<lparr>minimum_corroborating_sources = 2, minimum_stable_observations = 3,
     stability_window = minutes 2\<rparr>"

definition checkpoints :: "instant event_record \<Rightarrow> (instant \<times> string) list" where
  "checkpoints e =
     (let anchor = or_else (scheduled_at e) (first_seen_at e)
      in map (\<lambda>(name, offset). (anchor + offset, name)) EVENT_CHECKPOINTS
         @ (case session_close_at e of None \<Rightarrow> [] | Some t \<Rightarrow> [(t, ''SESSION_CLOSE'')])
         @ (case next_cash_open_at e of None \<Rightarrow> [] | Some t \<Rightarrow> [(t, ''NEXT_CASH_OPEN'')]))"

definition lock_assessment ::
  "instant event_record \<Rightarrow> instant \<Rightarrow> risk_lock_state \<Rightarrow> string list \<Rightarrow> instant option \<Rightarrow> risk_lock_assessment" where
  "lock_assessment e as_of st rs rerun =
     \<lparr>ra_event_id = event_id e, ra_state = st, assessed_at = as_of, reasons = rs, rerun_at = rerun,
      next_checkpoint = Some (case List.find (\<lambda>(tm, _). tm > as_of) (sort (checkpoints e)) of
         Some (_, name) \<Rightarrow> name
       | None \<Rightarrow> if next_cash_open_at e \<noteq> None then ''MONITORING_COMPLETE'' else ''SESSION_BOUNDARY_UNCONFIGURED'')\<rparr>"

definition lock_reasons :: "risk_lock_policy \<Rightarrow> instant event_record \<Rightarrow> instant \<Rightarrow> string list" where
  "lock_reasons p e as_of =
     (if contradictory_evidence e then [''CONTRADICTORY_EVIDENCE''] else [])
   @ (case confirmed_at e of None \<Rightarrow> [''EVENT_NOT_CONFIRMED'']
      | Some c \<Rightarrow> if c > as_of then [''EVENT_NOT_CONFIRMED''] else [])
   @ (if corroborating_sources e < minimum_corroborating_sources p then [''INSUFFICIENT_CORROBORATION''] else [])
   @ (if \<not> cross_asset_confirmed e
         \<or> (case cross_asset_confirmed_at e of None \<Rightarrow> True | Some c \<Rightarrow> c > as_of)
      then [''CROSS_ASSET_NOT_CONFIRMED''] else [])"

definition stable_until :: "risk_lock_policy \<Rightarrow> instant event_record \<Rightarrow> instant option" where
  "stable_until p e = map_option (\<lambda>s. s + stability_window p) (stable_since e)"

definition stability_reasons :: "risk_lock_policy \<Rightarrow> instant event_record \<Rightarrow> instant \<Rightarrow> string list" where
  "stability_reasons p e as_of =
     (case stable_since e of
        None \<Rightarrow> [''STABILITY_WINDOW_NOT_STARTED'']
      | Some s \<Rightarrow> if s > as_of then [''STABILITY_WINDOW_NOT_STARTED'']
                  else if s + stability_window p > as_of then [''STABILITY_WINDOW_INCOMPLETE''] else [])
   @ (if stable_observations e < minimum_stable_observations p then [''INSUFFICIENT_STABLE_OBSERVATIONS''] else [])"

definition assess :: "risk_lock_policy \<Rightarrow> instant event_record \<Rightarrow> datetime \<Rightarrow> risk_lock_assessment result" where
  "assess p e tm =
     res_bind (to_utc (ValueError ''as_of must be timezone-aware'') tm) (\<lambda>as_of.
       if as_of < first_seen_at e then Inl (ValueError ''event is not visible at as_of'')
       else if lock_reasons p e as_of \<noteq> []
       then Inr (lock_assessment e as_of LOCKED (lock_reasons p e as_of) None)
       else if stability_reasons p e as_of \<noteq> []
       then Inr (lock_assessment e as_of STABILIZING (stability_reasons p e as_of) (stable_until p e))
       else Inr (lock_assessment e as_of CLEARED [''EVENT_STABLE''] None))"

section \<open>Lemmas\<close>

text \<open>What the validator guarantees.\<close>

definition timeline_ok :: "instant event_record \<Rightarrow> bool" where
  "timeline_ok e \<longleftrightarrow>
     source_published_at e \<le> first_seen_at e
   \<and> (\<forall>c. confirmed_at e = Some c \<longrightarrow> first_seen_at e \<le> c)
   \<and> (cross_asset_confirmed e \<longleftrightarrow> cross_asset_confirmed_at e \<noteq> None)
   \<and> (\<forall>x. cross_asset_confirmed_at e = Some x \<longrightarrow> first_seen_at e \<le> x)
   \<and> (\<forall>c x. confirmed_at e = Some c \<longrightarrow> cross_asset_confirmed_at e = Some x \<longrightarrow> c \<le> x)
   \<and> (\<forall>s. stable_since e = Some s \<longrightarrow> stability_floor e \<le> s)
   \<and> (\<forall>c n. session_close_at e = Some c \<longrightarrow> next_cash_open_at e = Some n \<longrightarrow> c < n)"

lemma opt_lt_iff: "opt_lt v t \<longleftrightarrow> (\<exists>s. v = Some s \<and> s < t)"
  by (cases v) auto

lemma mk_event_record_Inr:
  assumes "mk_event_record raw = Inr e"
  shows "timeline_ok e" "e = normalized raw" "event_id e \<noteq> []"
    "0 \<le> corroborating_sources e" "0 \<le> stable_observations e" "all_aware (timestamps raw) = Inr ()"
  using assms
  by (auto simp: mk_event_record_def Let_def timeline_ok_def opt_lt_iff not_less normalized_def
      split: if_splits option.splits)

lemma lock_reasons_Nil:
  "lock_reasons p e as_of = [] \<longleftrightarrow>
     \<not> contradictory_evidence e \<and> (\<exists>c. confirmed_at e = Some c \<and> c \<le> as_of)
   \<and> minimum_corroborating_sources p \<le> corroborating_sources e
   \<and> cross_asset_confirmed e \<and> (\<exists>x. cross_asset_confirmed_at e = Some x \<and> x \<le> as_of)"
  by (auto simp: lock_reasons_def split: option.splits)

lemma stability_reasons_Nil:
  assumes "0 \<le> stability_window p"
  shows "stability_reasons p e as_of = [] \<longleftrightarrow>
     (\<exists>s. stable_since e = Some s \<and> s + stability_window p \<le> as_of)
   \<and> minimum_stable_observations p \<le> stable_observations e"
  using assms by (auto simp: stability_reasons_def split: option.splits)

lemma assess_Inr:
  assumes "assess p e tm = Inr a"
  obtains t where "tm = Aware t" "first_seen_at e \<le> t" "assessed_at a = t" "ra_event_id a = event_id e"
    "ra_state a = (if lock_reasons p e t \<noteq> [] then LOCKED
                   else if stability_reasons p e t \<noteq> [] then STABILIZING else CLEARED)"
    "a = lock_assessment e t (ra_state a) (reasons a) (rerun_at a)"
  using assms
  by (auto simp: assess_def to_utc_Inr_iff lock_assessment_def split: if_splits)

lemma assess_ok: "first_seen_at e \<le> t \<Longrightarrow> \<exists>a. assess p e (Aware t) = Inr a"
  by (cases "lock_reasons p e t = []"; cases "stability_reasons p e t = []") (simp_all add: assess_def)

fun lock_rank :: "risk_lock_state \<Rightarrow> int" where
  "lock_rank LOCKED = 0"
| "lock_rank STABILIZING = 1"
| "lock_rank CLEARED = 2"

lemma lock_reasons_mono: "lock_reasons p e s = [] \<Longrightarrow> s \<le> t \<Longrightarrow> lock_reasons p e t = []"
  unfolding lock_reasons_Nil by force

lemma stability_reasons_mono: "stability_reasons p e s = [] \<Longrightarrow> s \<le> t \<Longrightarrow> stability_reasons p e t = []"
  by (auto simp: stability_reasons_def split: option.splits if_splits)

lemma find_sorted:
  assumes "List.find P (sort xs) = Some x" and up: "\<And>x y. P x \<Longrightarrow> x \<le> y \<Longrightarrow> P y"
  shows "x \<in> set xs \<and> P x \<and> (\<forall>y \<in> set xs. P y \<longrightarrow> x \<le> y)"
proof -
  obtain i where i: "i < length (sort xs)" "P (sort xs ! i)" "x = sort xs ! i"
      and before: "\<forall>j<i. \<not> P (sort xs ! j)"
    using assms(1) by (auto simp: find_Some_iff)
  have "x \<le> y" if "y \<in> set xs" "P y" for y
  proof -
    from that obtain j where "j < length (sort xs)" "y = sort xs ! j"
      by (metis in_set_conv_nth set_sort)
    moreover have "i \<le> j" using before that(2) \<open>y = sort xs ! j\<close> by (meson not_less)
    ultimately show ?thesis using i(3) sorted_nth_mono [OF sorted_sort] by blast
  qed
  moreover have "x \<in> set xs" using i(1,3) by (metis nth_mem set_sort)
  ultimately show ?thesis using i(2,3) by blast
qed


section \<open>Properties\<close>

definition example_raw :: "datetime event_record" where
  "example_raw = \<lparr>event_id = ''CPI'', kind = SCHEDULED, severity = P0, scheduled_at = Some (Aware (minutes 60)),
     source_published_at = Aware (minutes 60), first_seen_at = Aware (minutes 61),
     confirmed_at = Some (Aware (minutes 62)), market_reaction_start_at = None,
     session_close_at = Some (Aware (minutes 400)), next_cash_open_at = Some (Aware (minutes 1000)),
     corroborating_sources = 2, contradictory_evidence = False, cross_asset_confirmed = True,
     cross_asset_confirmed_at = Some (Aware (minutes 63)), stable_since = Some (Aware (minutes 64)),
     stable_observations = 3\<rparr>"

lemma example_event: "mk_event_record example_raw = Inr (normalized example_raw)"
  by (simp add: mk_event_record_def example_raw_def normalized_def timestamps_def stability_floor_def minutes_def)

lemma example_first_seen: "first_seen_at (normalized example_raw) = minutes 61"
  by (simp add: normalized_def example_raw_def)

lemma example_cleared:
  assumes "minutes 66 \<le> t"
  shows "\<exists>a. assess default_lock_policy (normalized example_raw) (Aware t) = Inr a \<and> ra_state a = CLEARED
     \<and> reasons a = [''EVENT_STABLE'']"
proof -
  let ?e = "normalized example_raw"
  have "lock_reasons default_lock_policy ?e t = []" "stability_reasons default_lock_policy ?e t = []"
    using assms
    by (simp_all add: lock_reasons_def stability_reasons_def default_lock_policy_def example_raw_def
        normalized_def minutes_def)
  with assms example_first_seen show ?thesis
    by (simp add: assess_def lock_assessment_def minutes_def)
qed

text \<open>C35. The lock opens exactly on full evidence: for a validated event and a window that is not
  negative, \<open>assess\<close> answers \<open>CLEARED\<close> iff there is no contradiction, enough sources corroborate,
  the event was confirmed, then confirmed across assets, then stable for the whole window by the
  time of the assessment, with enough stable observations.\<close>

theorem lock_cleared_iff:
  assumes valid: "mk_event_record raw = Inr e" and window: "0 \<le> stability_window p"
    and run: "assess p e (Aware t) = Inr a"
  shows "ra_state a = CLEARED \<longleftrightarrow>
     \<not> contradictory_evidence e
   \<and> minimum_corroborating_sources p \<le> corroborating_sources e
   \<and> minimum_stable_observations p \<le> stable_observations e
   \<and> (\<exists>c x s. confirmed_at e = Some c \<and> cross_asset_confirmed_at e = Some x \<and> stable_since e = Some s
        \<and> source_published_at e \<le> first_seen_at e \<and> first_seen_at e \<le> c \<and> c \<le> x \<and> x \<le> s
        \<and> s + stability_window p \<le> t)"
proof -
  note ok = mk_event_record_Inr(1) [OF valid]
  obtain st: "ra_state a = (if lock_reasons p e t \<noteq> [] then LOCKED
      else if stability_reasons p e t \<noteq> [] then STABILIZING else CLEARED)"
    using run by (rule assess_Inr) simp
  have "ra_state a = CLEARED \<longleftrightarrow> lock_reasons p e t = [] \<and> stability_reasons p e t = []"
    by (simp add: st)
  also have "\<dots> \<longleftrightarrow> \<not> contradictory_evidence e
   \<and> minimum_corroborating_sources p \<le> corroborating_sources e
   \<and> minimum_stable_observations p \<le> stable_observations e
   \<and> (\<exists>c x s. confirmed_at e = Some c \<and> cross_asset_confirmed_at e = Some x \<and> stable_since e = Some s
        \<and> c \<le> t \<and> x \<le> t \<and> s + stability_window p \<le> t)"
    using ok unfolding lock_reasons_Nil stability_reasons_Nil [OF window] timeline_ok_def by auto
  also have "\<dots> \<longleftrightarrow> \<not> contradictory_evidence e
   \<and> minimum_corroborating_sources p \<le> corroborating_sources e
   \<and> minimum_stable_observations p \<le> stable_observations e
   \<and> (\<exists>c x s. confirmed_at e = Some c \<and> cross_asset_confirmed_at e = Some x \<and> stable_since e = Some s
        \<and> source_published_at e \<le> first_seen_at e \<and> first_seen_at e \<le> c \<and> c \<le> x \<and> x \<le> s
        \<and> s + stability_window p \<le> t)"
    using ok window unfolding timeline_ok_def stability_floor_def by fastforce
  finally show ?thesis .
qed

theorem lock_cleared_iff_witness:
  "\<exists>a. assess default_lock_policy (normalized example_raw) (Aware (minutes 66)) = Inr a
     \<and> ra_state a = CLEARED \<and> 2 \<le> corroborating_sources (normalized example_raw)"
proof -
  obtain a where a: "assess default_lock_policy (normalized example_raw) (Aware (minutes 66)) = Inr a"
    and c: "ra_state a = CLEARED" using example_cleared by blast
  have w: "0 \<le> stability_window default_lock_policy" by (simp add: default_lock_policy_def minutes_def)
  from lock_cleared_iff [OF example_event w a] c a show ?thesis
    by (auto simp: default_lock_policy_def)
qed

text \<open>Time alone only opens the lock: for one record, a later assessment is never in an
  earlier state of \<open>LOCKED\<close>, \<open>STABILIZING\<close>, \<open>CLEARED\<close> than an earlier one, and once the event is
  visible the assessment never fails.\<close>

theorem lock_monotone_in_time:
  assumes run: "assess p e (Aware s) = Inr a" and later: "s \<le> t"
  shows "\<exists>b. assess p e (Aware t) = Inr b \<and> lock_rank (ra_state a) \<le> lock_rank (ra_state b)"
proof -
  obtain vis: "first_seen_at e \<le> s" and a: "ra_state a = (if lock_reasons p e s \<noteq> [] then LOCKED
      else if stability_reasons p e s \<noteq> [] then STABILIZING else CLEARED)"
    using run by (rule assess_Inr) simp
  obtain b where b: "assess p e (Aware t) = Inr b" using vis later assess_ok [of e t p] by auto
  obtain sb: "ra_state b = (if lock_reasons p e t \<noteq> [] then LOCKED
      else if stability_reasons p e t \<noteq> [] then STABILIZING else CLEARED)"
    using b by (rule assess_Inr) simp
  have "lock_rank (ra_state a) \<le> lock_rank (ra_state b)"
    unfolding a sb using lock_reasons_mono [OF _ later] stability_reasons_mono [OF _ later] by auto
  with b show ?thesis by blast
qed

theorem lock_monotone_in_time_witness:
  "\<exists>a b. assess default_lock_policy (normalized example_raw) (Aware (minutes 62)) = Inr a
     \<and> assess default_lock_policy (normalized example_raw) (Aware (minutes 70)) = Inr b
     \<and> lock_rank (ra_state a) \<le> lock_rank (ra_state b)"
proof -
  obtain a where a: "assess default_lock_policy (normalized example_raw) (Aware (minutes 62)) = Inr a"
    using example_first_seen assess_ok [of "normalized example_raw" "minutes 62"] by (auto simp: minutes_def)
  have le: "minutes 62 \<le> minutes 70" by (simp add: minutes_def)
  from lock_monotone_in_time [OF a le] a show ?thesis by blast
qed

text \<open>The next checkpoint of an assessment is a configured checkpoint of the event strictly
  after the assessment, with no other checkpoint between; only when none is left does the
  assessment say that monitoring is complete, or that the session boundary is not configured.\<close>

theorem next_checkpoint_earliest:
  assumes run: "assess p e (Aware t) = Inr a"
  shows "(\<exists>tm name. next_checkpoint a = Some name \<and> (tm, name) \<in> set (checkpoints e) \<and> t < tm
            \<and> (\<forall>(tm', name') \<in> set (checkpoints e). t < tm' \<longrightarrow> tm \<le> tm'))
       \<or> (\<forall>(tm', name') \<in> set (checkpoints e). tm' \<le> t)
         \<and> next_checkpoint a = Some (if next_cash_open_at e = None then ''SESSION_BOUNDARY_UNCONFIGURED''
                                     else ''MONITORING_COMPLETE'')"
proof -
  let ?P = "\<lambda>(tm::instant, _::string). tm > t"
  obtain st: "a = lock_assessment e t (ra_state a) (reasons a) (rerun_at a)"
    using run by (rule assess_Inr) simp
  have next_eq: "next_checkpoint a = Some (case List.find ?P (sort (checkpoints e)) of
         Some (_, name) \<Rightarrow> name
       | None \<Rightarrow> if next_cash_open_at e \<noteq> None then ''MONITORING_COMPLETE'' else ''SESSION_BOUNDARY_UNCONFIGURED'')"
    by (subst st) (simp add: lock_assessment_def)
  show ?thesis
  proof (cases "List.find ?P (sort (checkpoints e))")
    case None
    then have "\<forall>(tm', name') \<in> set (checkpoints e). tm' \<le> t" by (auto simp: find_None_iff not_less)
    with next_eq None show ?thesis by simp
  next
    case (Some x)
    obtain tm name where x: "x = (tm, name)" by force
    have up: "?P u \<Longrightarrow> u \<le> v \<Longrightarrow> ?P v" for u v by (cases u; cases v) auto
    have "x \<in> set (checkpoints e) \<and> ?P x \<and> (\<forall>y \<in> set (checkpoints e). ?P y \<longrightarrow> x \<le> y)"
      by (rule find_sorted [OF Some]) (rule up)
    then have "(tm, name) \<in> set (checkpoints e)" "t < tm" "\<forall>y \<in> set (checkpoints e). ?P y \<longrightarrow> (tm, name) \<le> y"
      using x by auto
    with next_eq Some x show ?thesis by (intro disjI1 exI [of _ tm] exI [of _ name]) force
  qed
qed

theorem next_checkpoint_earliest_witness:
  "\<exists>a. assess default_lock_policy (normalized example_raw) (Aware (minutes 66)) = Inr a
     \<and> (\<exists>tm name. next_checkpoint a = Some name \<and> (tm, name) \<in> set (checkpoints (normalized example_raw))
          \<and> minutes 66 < tm)"
proof -
  obtain a where a: "assess default_lock_policy (normalized example_raw) (Aware (minutes 66)) = Inr a"
    using example_cleared by blast
  have "(minutes 400, ''SESSION_CLOSE'') \<in> set (checkpoints (normalized example_raw))"
    by (simp add: checkpoints_def normalized_def example_raw_def Let_def)
  moreover have "minutes 66 < minutes 400" by (simp add: minutes_def)
  ultimately have "\<not> (\<forall>(tm', name') \<in> set (checkpoints (normalized example_raw)). tm' \<le> minutes 66)" by fastforce
  with next_checkpoint_earliest [OF a] a show ?thesis by blast
qed

end
