(* ===== verification/Alerts.thy ===== *)
theory Alerts
  imports PyTime Machine
begin

text \<open>
  The in-process alert state machine (\<open>domain/alerts.py\<close>, \<open>alerts/engine.py\<close>): hysteresis on
  repeated observations, a cooldown per fingerprint, feedback as append-only evidence and the
  escalation of open P0 alerts.  \<open>uuid4()\<close> is a sequence \<open>uuid\<close> of identifiers; what the code
  relies on is that it never repeats, the hypothesis \<open>inj uuid\<close>.  (The text of a UUID always
  matches the identifier pattern, so the models' check of it cannot fail.)
\<close>

section \<open>Alerts and feedback\<close>

datatype alert_priority = AP0 | AP1 | AP2
datatype alert_status = OPEN | ACKNOWLEDGED | DISMISSED
datatype alert_direction = UPSIDE | DOWNSIDE | TWO_SIDED | NON_DIRECTIONAL
datatype alert_action = NO_TRADE | RISK_LOCK | RERUN
datatype feedback_kind =
  FK_ACKNOWLEDGED | FK_DISMISSED | FK_FALSE_POSITIVE | FK_MANUAL_JUDGMENT | FK_EXECUTION | FK_FILL

text \<open>The pattern \<open>^[A-Za-z0-9][A-Za-z0-9._:+-]*$\<close> with a length from 1 to 120.\<close>

definition alnum :: "char \<Rightarrow> bool" where
  "alnum c \<longleftrightarrow> (let n = of_char c :: nat
     in (48 \<le> n \<and> n \<le> 57) \<or> (65 \<le> n \<and> n \<le> 90) \<or> (97 \<le> n \<and> n \<le> 122))"

definition bounded_identifier :: "string \<Rightarrow> bool" where
  "bounded_identifier s \<longleftrightarrow>
     1 \<le> length s \<and> length s \<le> 120 \<and> alnum (hd s)
   \<and> list_all (\<lambda>c. alnum c \<or> c \<in> set ''._:+-'') (tl s)"

record 't alert_candidate =
  fingerprint :: string
  priority :: alert_priority
  direction :: alert_direction
  observed_at :: 't
  evidence :: "string list"
  event_id :: "string option"
  snapshot_id :: string
  model_version :: string
  rules_version :: string
  action :: alert_action
  invalidation_conditions :: "string list"
  rerun_trigger :: string

definition mk_alert_candidate :: "datetime alert_candidate \<Rightarrow> instant alert_candidate result" where
  "mk_alert_candidate c =
     (if \<not> (bounded_identifier (fingerprint c) \<and> list_all bounded_identifier (evidence c)
            \<and> length (evidence c) \<le> 50
            \<and> (case event_id c of None \<Rightarrow> True | Some i \<Rightarrow> bounded_identifier i)
            \<and> bounded_identifier (snapshot_id c) \<and> bounded_identifier (model_version c)
            \<and> bounded_identifier (rules_version c)
            \<and> list_all bounded_identifier (invalidation_conditions c)
            \<and> length (invalidation_conditions c) \<le> 50 \<and> bounded_identifier (rerun_trigger c))
      then Inl (ValueError ''field constraint violated'')
      else res_bind (to_utc (ValueError ''observed_at must be timezone-aware'') (observed_at c)) (\<lambda>t.
        Inr \<lparr>fingerprint = fingerprint c, priority = priority c, direction = direction c,
          observed_at = t, evidence = evidence c, event_id = event_id c,
          snapshot_id = snapshot_id c, model_version = model_version c,
          rules_version = rules_version c, action = action c,
          invalidation_conditions = invalidation_conditions c, rerun_trigger = rerun_trigger c\<rparr>))"

record alert_record =
  alert_id :: string
  candidate :: "instant alert_candidate"
  created_at :: instant
  status :: alert_status
  deduplicated_count :: int
  escalation_level :: int

record alert_feedback =
  feedback_id :: string
  fb_alert_id :: string
  fb_kind :: feedback_kind
  recorded_at :: instant
  actor :: string
  fb_note :: "string option"

section \<open>The engine\<close>

record alert_policy =
  hysteresis_observations :: int
  cooldown :: timedelta
  p0_escalation_after :: timedelta

definition default_alert_policy :: alert_policy where
  "default_alert_policy = \<lparr>hysteresis_observations = 2, cooldown = minutes 5, p0_escalation_after = minutes 2\<rparr>"

lemma default_alert_policy_simps [simp]:
  "hysteresis_observations default_alert_policy = 2" "cooldown default_alert_policy = minutes 5"
  "p0_escalation_after default_alert_policy = minutes 2"
  by (simp_all add: default_alert_policy_def)

record alert_engine =
  observations :: "(string, int) dict"
  alerts_by_id :: "(string, alert_record) dict"
  latest_by_fingerprint :: "(string, string) dict"
  feedback_log :: "alert_feedback list"

definition empty_engine :: alert_engine where
  "empty_engine = \<lparr>observations = [], alerts_by_id = [], latest_by_fingerprint = [], feedback_log = []\<rparr>"

definition latest_alert :: "alert_engine \<Rightarrow> string \<Rightarrow> alert_record option" where
  "latest_alert e f =
     (case map_of (latest_by_fingerprint e) f of None \<Rightarrow> None | Some i \<Rightarrow> map_of (alerts_by_id e) i)"

definition new_alert :: "alert_engine \<Rightarrow> string \<Rightarrow> instant alert_candidate \<Rightarrow> alert_record option result \<times> alert_engine" where
  "new_alert e uid c =
     (let r = \<lparr>alert_id = uid, candidate = c, created_at = observed_at c, status = OPEN,
               deduplicated_count = 0, escalation_level = 0\<rparr>
      in (Inr (Some r), e\<lparr>alerts_by_id := AList.update uid r (alerts_by_id e),
            latest_by_fingerprint := AList.update (fingerprint c) uid (latest_by_fingerprint e)\<rparr>))"

definition seen_count :: "alert_engine \<Rightarrow> string \<Rightarrow> int" where
  "seen_count e f = (case map_of (observations e) f of None \<Rightarrow> 0 | Some n \<Rightarrow> n)"

definition observe ::
  "alert_policy \<Rightarrow> alert_engine \<Rightarrow> string \<Rightarrow> instant alert_candidate \<Rightarrow> bool
     \<Rightarrow> alert_record option result \<times> alert_engine" where
  "observe p e uid c active =
     (let f = fingerprint c
      in if \<not> active then (Inr None, e\<lparr>observations := AList.delete f (observations e)\<rparr>)
      else let n = seen_count e f + 1;
               e1 = e\<lparr>observations := AList.update f n (observations e)\<rparr>
        in if n < hysteresis_observations p then (Inr None, e1)
        else case latest_alert e1 f of
          None \<Rightarrow> new_alert e1 uid c
        | Some previous \<Rightarrow>
            let elapsed = observed_at c - created_at previous
            in if elapsed < 0
               then (Inl (ValueError ''alert observation cannot move backward in time''), e1)
               else if elapsed < cooldown p
               then let updated = previous\<lparr>deduplicated_count := deduplicated_count previous + 1\<rparr>
                    in (Inr (Some updated),
                        e1\<lparr>alerts_by_id := AList.update (alert_id updated) updated (alerts_by_id e1)\<rparr>)
               else new_alert e1 uid c)"

fun status_for :: "feedback_kind \<Rightarrow> alert_status option" where
  "status_for FK_ACKNOWLEDGED = Some ACKNOWLEDGED"
| "status_for FK_DISMISSED = Some DISMISSED"
| "status_for FK_FALSE_POSITIVE = Some DISMISSED"
| "status_for FK_MANUAL_JUDGMENT = None"
| "status_for FK_EXECUTION = None"
| "status_for FK_FILL = None"

text \<open>Comparing a naive datetime with an aware one raises \<open>TypeError\<close>.\<close>

definition record_feedback ::
  "alert_engine \<Rightarrow> string \<Rightarrow> string \<Rightarrow> feedback_kind \<Rightarrow> string \<Rightarrow> datetime \<Rightarrow> string option
     \<Rightarrow> alert_feedback result \<times> alert_engine" where
  "record_feedback e uid aid k who tm nt =
     (case map_of (alerts_by_id e) aid of
        None \<Rightarrow> (Inl (KeyError (''unknown alert: '' @ aid)), e)
      | Some a \<Rightarrow>
          (case tm of
             Naive _ \<Rightarrow> (Inl (TypeError []), e)
           | Aware t \<Rightarrow>
               if t < created_at a then (Inl (ValueError ''feedback cannot predate the alert''), e)
               else if \<not> (1 \<le> length who \<and> length who \<le> 100)
                 \<or> (case nt of None \<Rightarrow> False | Some s \<Rightarrow> 1000 < length s)
               then (Inl (ValueError ''field constraint violated''), e)
               else let fb = \<lparr>feedback_id = uid, fb_alert_id = aid, fb_kind = k, recorded_at = t,
                              actor = who, fb_note = nt\<rparr>;
                        e1 = e\<lparr>feedback_log := feedback_log e @ [fb]\<rparr>
                 in (Inr fb, case status_for k of
                       None \<Rightarrow> e1
                     | Some st \<Rightarrow> e1\<lparr>alerts_by_id := AList.update aid (a\<lparr>status := st\<rparr>) (alerts_by_id e1)\<rparr>)))"

definition due :: "alert_policy \<Rightarrow> instant \<Rightarrow> alert_record \<Rightarrow> bool" where
  "due p t a \<longleftrightarrow> priority (candidate a) = AP0 \<and> status a = OPEN \<and> p0_escalation_after p \<le> t - created_at a"

text \<open>The loop of \<open>due_escalations\<close> over a copy of the items.\<close>

fun escalate_loop ::
  "alert_policy \<Rightarrow> instant \<Rightarrow> (string \<times> alert_record) list \<Rightarrow> alert_record list \<Rightarrow> (string, alert_record) dict
     \<Rightarrow> alert_record list \<times> (string, alert_record) dict" where
  "escalate_loop p t [] acc d = (acc, d)"
| "escalate_loop p t ((i, a) # rest) acc d =
     (if due p t a
      then let b = a\<lparr>escalation_level := escalation_level a + 1\<rparr>
           in escalate_loop p t rest (acc @ [b]) (AList.update i b d)
      else escalate_loop p t rest acc d)"

definition due_escalations :: "alert_policy \<Rightarrow> alert_engine \<Rightarrow> datetime \<Rightarrow> alert_record list result \<times> alert_engine" where
  "due_escalations p e tm =
     (case tm of
        Naive _ \<Rightarrow> (Inl (ValueError ''as_of must be timezone-aware''), e)
      | Aware t \<Rightarrow>
          let (dues, d) = escalate_loop p t (alerts_by_id e) [] (alerts_by_id e)
          in (Inr dues, e\<lparr>alerts_by_id := d\<rparr>))"

definition alerts_list :: "alert_engine \<Rightarrow> alert_record list" where
  "alerts_list e = sort_key (\<lambda>a. - created_at a) (dict_values (alerts_by_id e))"

definition feedback :: "alert_engine \<Rightarrow> string option \<Rightarrow> alert_feedback list" where
  "feedback e aid = filter (\<lambda>f. aid = None \<or> aid = Some (fb_alert_id f)) (feedback_log e)"

section \<open>Histories\<close>

datatype alert_op =
    Observe "instant alert_candidate" bool
  | Feedback string feedback_kind string datetime "string option"
  | Escalate datetime

fun alert_step :: "alert_policy \<Rightarrow> (nat \<Rightarrow> string) \<Rightarrow> nat \<times> alert_engine \<Rightarrow> alert_op \<Rightarrow> nat \<times> alert_engine" where
  "alert_step p uuid (n, e) (Observe c active) = (Suc n, snd (observe p e (uuid n) c active))"
| "alert_step p uuid (n, e) (Feedback aid k who tm nt) = (Suc n, snd (record_feedback e (uuid n) aid k who tm nt))"
| "alert_step p uuid (n, e) (Escalate tm) = (Suc n, snd (due_escalations p e tm))"

section \<open>Lemmas\<close>

definition escalated :: "alert_policy \<Rightarrow> instant \<Rightarrow> alert_record \<Rightarrow> alert_record" where
  "escalated p t a = (if due p t a then a\<lparr>escalation_level := escalation_level a + 1\<rparr> else a)"

lemma escalate_loop_due:
  "fst (escalate_loop p t items acc d) = acc @ map (escalated p t) (filter (due p t) (map snd items))"
  by (induction p t items acc d rule: escalate_loop.induct) (simp_all add: Let_def escalated_def)

lemma escalate_loop_dict:
  assumes "distinct (map fst items)" and "\<And>i a. (i, a) \<in> set items \<Longrightarrow> map_of d i = Some a"
  shows "map_of (snd (escalate_loop p t items acc d))
      = (\<lambda>i. if i \<in> fst ` set items then map_option (escalated p t) (map_of d i) else map_of d i)
    \<and> (dict_ok d \<longrightarrow> dict_ok (snd (escalate_loop p t items acc d)))"
  using assms
proof (induction p t items acc d rule: escalate_loop.induct)
  case (2 p t i a rest acc d)
  have a: "map_of d i = Some a" and i: "i \<notin> fst ` set rest" using 2(3,4) by auto
  show ?case
  proof (cases "due p t a")
    case True
    let ?b = "a\<lparr>escalation_level := escalation_level a + 1\<rparr>"
    have "\<And>j x. (j, x) \<in> set rest \<Longrightarrow> map_of (AList.update i ?b d) j = Some x"
      using 2(4) i by (auto simp: image_iff)
    with 2(1) [OF True refl] 2(3) True a i show ?thesis
      by (auto simp: Let_def fun_eq_iff escalated_def)
  next
    case False
    then have "map_option (escalated p t) (map_of d i) = map_of d i" using a by (simp add: escalated_def)
    with 2(2) [OF False] 2(3,4) False i show ?thesis by (auto simp: fun_eq_iff)
  qed
qed auto

lemma due_escalations_dict:
  assumes "dict_ok (alerts_by_id e)"
  shows "map_of (alerts_by_id (snd (due_escalations p e (Aware t))))
      = map_option (escalated p t) \<circ> map_of (alerts_by_id e)"
    and "dict_ok (alerts_by_id (snd (due_escalations p e (Aware t))))"
proof -
  have *: "distinct (map fst (alerts_by_id e))" using assms by (simp add: dict_ok_def)
  have **: "(i, a) \<in> set (alerts_by_id e) \<Longrightarrow> map_of (alerts_by_id e) i = Some a" for i a
    using * by simp
  have "map_option f (map_of (alerts_by_id e) i) = map_of (alerts_by_id e) i"
    if "i \<notin> fst ` set (alerts_by_id e)" for f i
    using that by (simp flip: map_of_eq_None_iff)
  then have "map_of (snd (escalate_loop p t (alerts_by_id e) [] (alerts_by_id e)))
        = map_option (escalated p t) \<circ> map_of (alerts_by_id e)"
    and "dict_ok (snd (escalate_loop p t (alerts_by_id e) [] (alerts_by_id e)))"
    using escalate_loop_dict [OF * **, of p t "[]"] assms by (auto simp: fun_eq_iff)
  then show "map_of (alerts_by_id (snd (due_escalations p e (Aware t))))
      = map_option (escalated p t) \<circ> map_of (alerts_by_id e)"
    and "dict_ok (alerts_by_id (snd (due_escalations p e (Aware t))))"
    by (simp_all add: due_escalations_def case_prod_beta Let_def)
qed

text \<open>The fields that no later operation changes, and what the engine keeps of them.\<close>

definition core :: "alert_record \<Rightarrow> string \<times> instant alert_candidate \<times> instant" where
  "core a = (alert_id a, candidate a, created_at a)"

definition view :: "alert_engine \<Rightarrow> string \<Rightarrow> (string \<times> instant alert_candidate \<times> instant) option" where
  "view e i = map_option core (map_of (alerts_by_id e) i)"

definition engine_ok :: "alert_policy \<Rightarrow> string set \<Rightarrow> alert_engine \<Rightarrow> bool" where
  "engine_ok p used e \<longleftrightarrow>
     dict_ok (alerts_by_id e)
   \<and> (\<forall>i j c t. view e i = Some (j, c, t) \<longrightarrow> j = i \<and> t = observed_at c \<and> i \<in> used
        \<and> (\<exists>k c' t'. map_of (latest_by_fingerprint e) (fingerprint c) = Some k \<and> view e k = Some (k, c', t') \<and> t \<le> t'))
   \<and> (\<forall>f i. map_of (latest_by_fingerprint e) f = Some i \<longrightarrow> (\<exists>c t. view e i = Some (i, c, t) \<and> fingerprint c = f))
   \<and> (\<forall>i j c c' t t'. view e i = Some (i, c, t) \<longrightarrow> view e j = Some (j, c', t') \<longrightarrow> i \<noteq> j
        \<longrightarrow> fingerprint c = fingerprint c' \<longrightarrow> cooldown p \<le> \<bar>t - t'\<bar>)"

lemma empty_engine_ok [simp]: "engine_ok p used empty_engine"
  by (simp add: engine_ok_def empty_engine_def view_def)

lemma engine_ok_view:
  assumes "engine_ok p used e" and "view e' = view e"
    and "latest_by_fingerprint e' = latest_by_fingerprint e" and "dict_ok (alerts_by_id e')" and "used \<subseteq> used'"
  shows "engine_ok p used' e'"
  using assms(1,5) unfolding engine_ok_def assms(2,3) using assms(4) by blast

lemma view_update:
  assumes "map_of (alerts_by_id e) i = Some a" and "core b = core a"
    and "alerts_by_id e' = AList.update i b (alerts_by_id e)"
  shows "view e' = view e"
  using assms by (simp add: view_def fun_eq_iff)

lemma latest_alert_Some:
  assumes "engine_ok p used e" and "latest_alert e f = Some a"
  shows "map_of (latest_by_fingerprint e) f = Some (alert_id a)"
    and "map_of (alerts_by_id e) (alert_id a) = Some a" and "fingerprint (candidate a) = f"
    and "view e (alert_id a) = Some (alert_id a, candidate a, created_at a)"
proof -
  from assms(2) obtain i where i: "map_of (latest_by_fingerprint e) f = Some i" "map_of (alerts_by_id e) i = Some a"
    by (auto simp: latest_alert_def split: option.splits)
  moreover from assms(1) i(1) obtain c t where v: "view e i = Some (i, c, t)" "fingerprint c = f"
    unfolding engine_ok_def by blast
  ultimately have "alert_id a = i" "candidate a = c" by (auto simp: view_def core_def)
  with i v show "map_of (latest_by_fingerprint e) f = Some (alert_id a)"
    "map_of (alerts_by_id e) (alert_id a) = Some a" "fingerprint (candidate a) = f"
    "view e (alert_id a) = Some (alert_id a, candidate a, created_at a)"
    by (simp_all add: view_def core_def)
qed

lemma latest_alert_None:
  assumes "engine_ok p used e" and "latest_alert e f = None" and "view e i = Some (i, c, t)"
  shows "fingerprint c \<noteq> f"
proof
  assume f: "fingerprint c = f"
  from assms(1,3) f obtain k c' t' where "map_of (latest_by_fingerprint e) f = Some k" "view e k = Some (k, c', t')"
    unfolding engine_ok_def by blast
  with assms(2) show False by (auto simp: latest_alert_def view_def)
qed

lemma new_alert_ok:
  assumes ok: "engine_ok p used e" and fresh: "uid \<notin> used"
    and gap: "\<And>a. latest_alert e (fingerprint c) = Some a \<Longrightarrow>
        0 \<le> observed_at c - created_at a \<and> cooldown p \<le> observed_at c - created_at a"
  shows "engine_ok p (insert uid used) (snd (new_alert e uid c))"
proof -
  let ?e = "snd (new_alert e uid c)"
  have v: "view ?e = (view e)(uid \<mapsto> (uid, c, observed_at c))"
    by (simp add: new_alert_def view_def core_def fun_eq_iff Let_def)
  have l: "map_of (latest_by_fingerprint ?e) = (map_of (latest_by_fingerprint e))(fingerprint c \<mapsto> uid)"
    by (simp add: new_alert_def Let_def)
  have A: "dict_ok (alerts_by_id ?e)" using ok by (simp add: new_alert_def engine_ok_def Let_def)
  have old: "view e uid = None"
    using ok fresh unfolding engine_ok_def by (metis not_None_eq prod_cases3)
  have before: "t \<le> observed_at c \<and> cooldown p \<le> observed_at c - t"
    if "view e i = Some (i, c', t)" "fingerprint c' = fingerprint c" for i c' t
  proof -
    from ok that obtain k d s where k: "map_of (latest_by_fingerprint e) (fingerprint c) = Some k"
        "view e k = Some (k, d, s)" "t \<le> s" unfolding engine_ok_def by metis
    then obtain a where "latest_alert e (fingerprint c) = Some a" "created_at a = s"
      by (auto simp: latest_alert_def view_def core_def)
    with gap k(3) show ?thesis by force
  qed
  have B: "j = i \<and> t = observed_at c' \<and> i \<in> insert uid used
        \<and> (\<exists>k c'' t'. map_of (latest_by_fingerprint ?e) (fingerprint c') = Some k \<and> view ?e k = Some (k, c'', t') \<and> t \<le> t')"
    if "view ?e i = Some (j, c', t)" for i j c' t
  proof (cases "i = uid")
    case True
    with that have "j = uid" "c' = c" "t = observed_at c" by (auto simp: v)
    with True show ?thesis by (simp add: v l)
  next
    case False
    then have i: "view e i = Some (j, c', t)" using that by (simp add: v)
    then have b: "j = i" "t = observed_at c'" "i \<in> used" using ok unfolding engine_ok_def by blast+
    show ?thesis
    proof (cases "fingerprint c' = fingerprint c")
      case True
      with before i b show ?thesis by (auto simp: v l)
    next
      case False
      from ok i obtain k d s where "map_of (latest_by_fingerprint e) (fingerprint c') = Some k"
          "view e k = Some (k, d, s)" "t \<le> s" unfolding engine_ok_def by blast
      with False old b show ?thesis by (auto simp: v l)
    qed
  qed
  have C: "\<exists>c' t. view ?e i = Some (i, c', t) \<and> fingerprint c' = f"
    if "map_of (latest_by_fingerprint ?e) f = Some i" for f i
  proof (cases "f = fingerprint c")
    case False
    with that have "map_of (latest_by_fingerprint e) f = Some i" by (simp add: l)
    then obtain c' t where "view e i = Some (i, c', t)" "fingerprint c' = f"
      using ok unfolding engine_ok_def by blast
    with old show ?thesis by (auto simp: v)
  next
    case True
    with that have "i = uid" by (simp add: l)
    with True show ?thesis by (simp add: v)
  qed
  have D: "cooldown p \<le> \<bar>t - t'\<bar>"
    if h: "view ?e i = Some (i, d, t)" "view ?e j = Some (j, d', t')" "i \<noteq> j"
      and f: "fingerprint d = fingerprint d'"
    for i j d d' t t'
  proof -
    consider "view e i = Some (i, d, t)" "view e j = Some (j, d', t')"
      | "view e i = Some (i, d, t)" "t' = observed_at c" "d' = c"
      | "view e j = Some (j, d', t')" "t = observed_at c" "d = c"
      using h unfolding v by (cases "i = uid"; cases "j = uid") (simp_all add: eq_commute [of c] eq_commute [of "observed_at c"])
    then show ?thesis
    proof cases
      case 1
      with ok h(3) f show ?thesis unfolding engine_ok_def by blast
    next
      case 2
      then have "cooldown p \<le> observed_at c - t" using before [OF 2(1)] f by simp
      with 2 show ?thesis by linarith
    next
      case 3
      then have "cooldown p \<le> observed_at c - t'" using before [OF 3(1)] f by simp
      with 3 show ?thesis by linarith
    qed
  qed
  have "\<forall>i j c' t. view ?e i = Some (j, c', t) \<longrightarrow> j = i \<and> t = observed_at c' \<and> i \<in> insert uid used
        \<and> (\<exists>k c'' t'. map_of (latest_by_fingerprint ?e) (fingerprint c') = Some k \<and> view ?e k = Some (k, c'', t') \<and> t \<le> t')"
    by (intro allI impI) (rule B)
  moreover have "\<forall>f i. map_of (latest_by_fingerprint ?e) f = Some i \<longrightarrow> (\<exists>c t. view ?e i = Some (i, c, t) \<and> fingerprint c = f)"
    by (intro allI impI) (rule C)
  moreover have "\<forall>i j d d' t t'. view ?e i = Some (i, d, t) \<longrightarrow> view ?e j = Some (j, d', t') \<longrightarrow> i \<noteq> j
        \<longrightarrow> fingerprint d = fingerprint d' \<longrightarrow> cooldown p \<le> \<bar>t - t'\<bar>"
    by (intro allI impI) (rule D)
  ultimately show ?thesis using A unfolding engine_ok_def by (intro conjI)
qed


lemma observe_cases:
  obtains (same) "alerts_by_id (snd (observe p e uid c active)) = alerts_by_id e"
      "latest_by_fingerprint (snd (observe p e uid c active)) = latest_by_fingerprint e"
      "\<forall>a. fst (observe p e uid c active) \<noteq> Inr (Some a)"
  | (dedup) a where "active" "latest_alert e (fingerprint c) = Some a"
      "0 \<le> observed_at c - created_at a" "observed_at c - created_at a < cooldown p"
      "fst (observe p e uid c active) = Inr (Some (a\<lparr>deduplicated_count := deduplicated_count a + 1\<rparr>))"
      "alerts_by_id (snd (observe p e uid c active))
        = AList.update (alert_id a) (a\<lparr>deduplicated_count := deduplicated_count a + 1\<rparr>) (alerts_by_id e)"
      "latest_by_fingerprint (snd (observe p e uid c active)) = latest_by_fingerprint e"
  | (fresh) e1 where "active" "alerts_by_id e1 = alerts_by_id e"
      "latest_by_fingerprint e1 = latest_by_fingerprint e"
      "\<And>a. latest_alert e (fingerprint c) = Some a \<Longrightarrow>
        0 \<le> observed_at c - created_at a \<and> cooldown p \<le> observed_at c - created_at a"
      "observe p e uid c active = new_alert e1 uid c"
proof -
  define e1 where "e1 = e\<lparr>observations := AList.update (fingerprint c) (seen_count e (fingerprint c) + 1) (observations e)\<rparr>"
  have l: "latest_alert e1 f = latest_alert e f" for f by (simp add: e1_def latest_alert_def split: option.split)
  consider "\<not> active" | "active" "seen_count e (fingerprint c) + 1 < hysteresis_observations p"
    | "active" "\<not> seen_count e (fingerprint c) + 1 < hysteresis_observations p" by blast
  then show thesis
  proof cases
    case 3
    then have o: "observe p e uid c active = (case latest_alert e (fingerprint c) of
          None \<Rightarrow> new_alert e1 uid c
        | Some previous \<Rightarrow>
            let elapsed = observed_at c - created_at previous
            in if elapsed < 0
               then (Inl (ValueError ''alert observation cannot move backward in time''), e1)
               else if elapsed < cooldown p
               then let updated = previous\<lparr>deduplicated_count := deduplicated_count previous + 1\<rparr>
                    in (Inr (Some updated),
                        e1\<lparr>alerts_by_id := AList.update (alert_id updated) updated (alerts_by_id e1)\<rparr>)
               else new_alert e1 uid c)"
      unfolding observe_def Let_def e1_def l [unfolded e1_def] by simp
    have e1: "alerts_by_id e1 = alerts_by_id e" "latest_by_fingerprint e1 = latest_by_fingerprint e"
      by (simp_all add: e1_def)
    show thesis
    proof (cases "latest_alert e (fingerprint c)")
      case None
      with o show thesis using 3 e1 by (intro fresh [of e1]) simp_all
    next
      case (Some a)
      consider "observed_at c - created_at a < 0"
        | "0 \<le> observed_at c - created_at a" "observed_at c - created_at a < cooldown p"
        | "0 \<le> observed_at c - created_at a" "cooldown p \<le> observed_at c - created_at a" by linarith
      then show thesis
      proof cases
        case 1
        with o Some e1 show thesis by (intro same) (simp_all add: Let_def)
      next
        case 2
        with o Some e1 \<open>active\<close> show thesis by (intro dedup [of a]) (simp_all add: Let_def)
      next
        case 3
        with o Some e1 \<open>active\<close> show thesis by (intro fresh [of e1]) (simp_all add: Let_def)
      qed
    qed
  qed (auto intro!: same simp: observe_def Let_def)
qed

lemma observe_ok:
  assumes ok: "engine_ok p used e" and uid: "uid \<notin> used"
  shows "engine_ok p (insert uid used) (snd (observe p e uid c active))"
proof (cases rule: observe_cases [of p e uid c active])
  case same
  then have "view (snd (observe p e uid c active)) = view e" by (simp add: view_def fun_eq_iff)
  with ok same show ?thesis by (intro engine_ok_view [OF ok]) (auto simp: engine_ok_def)
next
  case (dedup a)
  have "view (snd (observe p e uid c active)) = view e"
    by (rule view_update [OF latest_alert_Some(2) [OF ok dedup(2)] _ dedup(6)]) (simp add: core_def)
  with ok dedup show ?thesis by (intro engine_ok_view [OF ok]) (auto simp: engine_ok_def)
next
  case (fresh e1)
  have "engine_ok p used e1"
    using fresh(2,3) ok by (intro engine_ok_view [OF ok]) (auto simp: view_def fun_eq_iff engine_ok_def)
  moreover have "latest_alert e1 = latest_alert e"
    using fresh(2,3) by (simp add: latest_alert_def fun_eq_iff split: option.split)
  ultimately show ?thesis unfolding fresh(5) using uid fresh(4) by (intro new_alert_ok) auto
qed

lemma record_feedback_cases:
  obtains (same) er where "record_feedback e uid aid k who tm nt = (Inl er, e)"
  | (ok) a fb where "map_of (alerts_by_id e) aid = Some a" "fst (record_feedback e uid aid k who tm nt) = Inr fb"
      "fb_alert_id fb = aid" "created_at a \<le> recorded_at fb" "tm = Aware (recorded_at fb)" "fb_kind fb = k"
      "feedback_log (snd (record_feedback e uid aid k who tm nt)) = feedback_log e @ [fb]"
      "latest_by_fingerprint (snd (record_feedback e uid aid k who tm nt)) = latest_by_fingerprint e"
      "alerts_by_id (snd (record_feedback e uid aid k who tm nt)) =
        (case status_for k of None \<Rightarrow> alerts_by_id e
         | Some st \<Rightarrow> AList.update aid (a\<lparr>status := st\<rparr>) (alerts_by_id e))"
proof (cases "map_of (alerts_by_id e) aid")
  case None
  then show thesis by (intro same) (simp add: record_feedback_def)
next
  case (Some a)
  show thesis
  proof (cases "is_ok (fst (record_feedback e uid aid k who tm nt))")
    case False
    with Some show thesis
      by (intro same [of "projl (fst (record_feedback e uid aid k who tm nt))"])
        (auto simp: record_feedback_def Let_def split: datetime.splits if_splits)
  next
    case True
    with Some show thesis
      by (intro ok [of a "projr (fst (record_feedback e uid aid k who tm nt))"])
        (auto simp: record_feedback_def Let_def split: datetime.splits if_splits option.splits)
  qed
qed

lemma record_feedback_ok:
  assumes ok: "engine_ok p used e" and "used \<subseteq> used'"
  shows "engine_ok p used' (snd (record_feedback e uid aid k who tm nt))"
proof (cases rule: record_feedback_cases [of e uid aid k who tm nt])
  case (same er)
  with assms show ?thesis by (auto intro: engine_ok_view [OF ok] simp: engine_ok_def)
next
  case (ok a fb)
  have "view (snd (record_feedback e uid aid k who tm nt)) = view e"
    using ok(1,9) by (auto simp: view_def core_def fun_eq_iff split: option.splits)
  with ok assms show ?thesis
    by (intro engine_ok_view [OF assms(1)]) (auto simp: engine_ok_def split: option.splits)
qed

lemma escalated_core [simp]: "core (escalated p t a) = core a"
  by (simp add: escalated_def core_def)

lemma due_escalations_ok:
  assumes ok: "engine_ok p used e" and "used \<subseteq> used'"
  shows "engine_ok p used' (snd (due_escalations p e tm))"
proof (cases tm)
  case (Naive _)
  with assms show ?thesis
    by (intro engine_ok_view [OF ok]) (auto simp: due_escalations_def engine_ok_def)
next
  case (Aware t)
  have d: "dict_ok (alerts_by_id e)" using ok by (simp add: engine_ok_def)
  have "view (snd (due_escalations p e tm)) = view e"
    unfolding Aware view_def fun_eq_iff due_escalations_dict(1) [OF d] by (simp add: option.map_comp comp_def)
  moreover have "latest_by_fingerprint (snd (due_escalations p e tm)) = latest_by_fingerprint e"
    by (simp add: Aware due_escalations_def case_prod_beta Let_def)
  ultimately show ?thesis
    using due_escalations_dict(2) [OF d] assms(2) by (intro engine_ok_view [OF ok]) (simp_all add: Aware)
qed

text \<open>The invariant of a history: the identifiers in use are those the sequence has given out.\<close>

fun history_ok :: "alert_policy \<Rightarrow> (nat \<Rightarrow> string) \<Rightarrow> nat \<times> alert_engine \<Rightarrow> bool" where
  "history_ok p uuid (n, e) = (inj uuid \<longrightarrow> engine_ok p (uuid ` {..<n}) e)"

lemma alert_step_ok: "history_ok p uuid s \<Longrightarrow> history_ok p uuid (alert_step p uuid s x)"
proof -
  assume ok: "history_ok p uuid s"
  obtain n e where s: "s = (n, e)" by force
  have set_Suc: "uuid ` {..<Suc n} = insert (uuid n) (uuid ` {..<n})" by (simp add: lessThan_Suc)
  show ?thesis
  proof (cases x)
    case (Observe c active)
    have "inj uuid \<Longrightarrow> uuid n \<notin> uuid ` {..<n}" by (auto simp: inj_def)
    with ok show ?thesis by (auto simp: s Observe set_Suc intro!: observe_ok)
  qed (use ok in \<open>auto simp: s intro!: record_feedback_ok due_escalations_ok\<close>)
qed

text \<open>How one alert may change: its core never, its level only while it stays open.\<close>

definition alert_le :: "alert_record \<Rightarrow> alert_record \<Rightarrow> bool" where
  "alert_le a b \<longleftrightarrow> core a = core b \<and> escalation_level a \<le> escalation_level b
     \<and> deduplicated_count a \<le> deduplicated_count b
     \<and> (status a \<noteq> OPEN \<longrightarrow> status b \<noteq> OPEN \<and> escalation_level b = escalation_level a)"

definition engine_le :: "alert_engine \<Rightarrow> alert_engine \<Rightarrow> bool" where
  "engine_le e f \<longleftrightarrow>
     (\<forall>i a. map_of (alerts_by_id e) i = Some a \<longrightarrow> (\<exists>b. map_of (alerts_by_id f) i = Some b \<and> alert_le a b))"

lemma alert_le_refl [simp]: "alert_le a a"
  by (simp add: alert_le_def)

lemma alert_le_trans: "alert_le a b \<Longrightarrow> alert_le b c \<Longrightarrow> alert_le a c"
  by (auto simp: alert_le_def)

lemma engine_le_refl [simp]: "engine_le e e"
  by (simp add: engine_le_def)

lemma engine_le_trans: "engine_le e f \<Longrightarrow> engine_le f g \<Longrightarrow> engine_le e g"
  unfolding engine_le_def by (meson alert_le_trans)

lemma engine_le_update:
  assumes "map_of (alerts_by_id e) i = Some a" and "alert_le a b"
    and "alerts_by_id f = AList.update i b (alerts_by_id e)"
  shows "engine_le e f"
  using assms by (auto simp: engine_le_def)

lemma status_for_closed: "status_for k = Some st \<Longrightarrow> st \<noteq> OPEN"
  by (cases k) auto

lemma alert_step_le:
  assumes inj: "inj uuid" and ok: "engine_ok p (uuid ` {..<n}) e"
  shows "engine_le e (snd (alert_step p uuid (n, e) x))"
proof (cases x)
  case (Observe c active)
  have uid: "uuid n \<notin> uuid ` {..<n}" using inj by (auto simp: inj_def)
  have "map_of (alerts_by_id e) (uuid n) = None"
    using ok uid unfolding engine_ok_def view_def core_def
    by (metis (no_types, lifting) not_None_eq option.simps(9))
  then have new: "engine_le e f" if "alerts_by_id f = AList.update (uuid n) b (alerts_by_id e)" for b f
    using that by (auto simp: engine_le_def)
  show ?thesis
  proof (cases rule: observe_cases [of p e "uuid n" c active])
    case same
    then show ?thesis by (simp add: Observe engine_le_def)
  next
    case (dedup a)
    have "alert_le a (a\<lparr>deduplicated_count := deduplicated_count a + 1\<rparr>)"
      by (simp add: alert_le_def core_def)
    from engine_le_update [OF latest_alert_Some(2) [OF ok dedup(2)] this dedup(6)]
    show ?thesis by (simp add: Observe)
  next
    case (fresh e1)
    then show ?thesis by (auto simp: Observe new_alert_def Let_def intro!: new)
  qed
next
  case (Feedback aid k who tm nt)
  show ?thesis
  proof (cases rule: record_feedback_cases [of e "uuid n" aid k who tm nt])
    case (same er)
    then show ?thesis by (simp add: Feedback)
  next
    case f: (ok a fb)
    show ?thesis
    proof (cases "status_for k")
      case None
      with f(9) show ?thesis by (simp add: Feedback engine_le_def)
    next
      case (Some st)
      then have "alert_le a (a\<lparr>status := st\<rparr>)"
        by (auto simp: alert_le_def core_def dest: status_for_closed)
      from engine_le_update [OF f(1) this] f(9) Some show ?thesis by (simp add: Feedback)
    qed
  qed
next
  case (Escalate tm)
  have d: "dict_ok (alerts_by_id e)" using ok by (simp add: engine_ok_def)
  have "alert_le a (escalated p t a)" for a t
    by (auto simp: alert_le_def escalated_def core_def due_def)
  then show ?thesis
    by (cases tm) (auto simp: Escalate engine_le_def due_escalations_dict(1) [OF d],
        simp add: due_escalations_def)
qed

definition history_le :: "(nat \<Rightarrow> string) \<Rightarrow> nat \<times> alert_engine \<Rightarrow> nat \<times> alert_engine \<Rightarrow> bool" where
  "history_le uuid s t \<longleftrightarrow> inj uuid \<longrightarrow> engine_le (snd s) (snd t)"

interpretation alert_run: evolving "alert_step p uuid" "history_ok p uuid" "history_le uuid"
proof unfold_locales
  fix s t u x
  show "history_ok p uuid s \<Longrightarrow> history_ok p uuid (alert_step p uuid s x)" by (rule alert_step_ok)
  show "history_le uuid s s" by (simp add: history_le_def)
  show "history_le uuid s t \<Longrightarrow> history_le uuid t u \<Longrightarrow> history_le uuid s u"
    unfolding history_le_def by (blast intro: engine_le_trans)
  show "history_ok p uuid s \<Longrightarrow> history_le uuid s (alert_step p uuid s x)"
    using alert_step_le [of uuid p "fst s" "snd s" x]
    by (cases s) (simp add: history_le_def)
qed

lemma step_feedback_prefix:
  "prefix (feedback_log (snd s)) (feedback_log (snd (alert_step p uuid s x)))"
proof -
  obtain n e where s: "s = (n, e)" by force
  show ?thesis
  proof (cases x)
    case (Observe c active)
    show ?thesis
      by (auto simp: s Observe observe_def new_alert_def Let_def split: option.splits)
  next
    case (Feedback aid k who tm nt)
    show ?thesis
      by (cases rule: record_feedback_cases [of e "uuid n" aid k who tm nt]) (auto simp: s Feedback)
  next
    case (Escalate tm)
    show ?thesis
      by (cases tm) (auto simp: s Escalate due_escalations_def case_prod_beta Let_def)
  qed
qed

interpretation alert_feedback: audit_log "alert_step p uuid" "history_ok p uuid" "\<lambda>s. feedback_log (snd s)"
  by unfold_locales (rule step_feedback_prefix)


section \<open>Properties\<close>

text \<open>The abstract count the hysteresis promises: active observations since the last inactive one.\<close>

definition streak_step :: "string \<Rightarrow> int \<Rightarrow> alert_op \<Rightarrow> int" where
  "streak_step f n x =
     (case x of Observe c active \<Rightarrow> if fingerprint c = f then (if active then n + 1 else 0) else n | _ \<Rightarrow> n)"

definition streak :: "string \<Rightarrow> alert_op list \<Rightarrow> int" where
  "streak f ops = foldl (streak_step f) 0 ops"

lemma observe_observations:
  "observations (snd (observe p e uid c active)) =
     (if active then AList.update (fingerprint c) (seen_count e (fingerprint c) + 1) (observations e)
      else AList.delete (fingerprint c) (observations e))"
  by (auto simp: observe_def new_alert_def Let_def split: option.split)

lemma seen_count_step:
  "seen_count (snd (alert_step p uuid (n, e) x)) f = streak_step f (seen_count e f) x"
proof (cases x)
  case (Observe c active)
  then show ?thesis by (auto simp: streak_step_def seen_count_def observe_observations)
next
  case (Feedback aid k who tm nt)
  have "observations (snd (record_feedback e (uuid n) aid k who tm nt)) = observations e"
    by (auto simp: record_feedback_def Let_def split: option.split datetime.split)
  then show ?thesis by (simp add: Feedback streak_step_def seen_count_def)
next
  case (Escalate tm)
  have "observations (snd (due_escalations p e tm)) = observations e"
    by (simp add: due_escalations_def case_prod_beta Let_def split: datetime.split)
  then show ?thesis by (simp add: Escalate streak_step_def seen_count_def)
qed

lemma seen_count_run: "seen_count (snd (foldl (alert_step p uuid) s ops)) f = foldl (streak_step f) (seen_count (snd s) f) ops"
proof (induction ops arbitrary: s)
  case (Cons x ops)
  show ?case using Cons.IH [of "alert_step p uuid s x"] seen_count_step [of p uuid "fst s" "snd s" x f] by simp
qed simp

definition run_alerts :: "alert_policy \<Rightarrow> (nat \<Rightarrow> string) \<Rightarrow> alert_op list \<Rightarrow> alert_engine" where
  "run_alerts p uuid ops = snd (foldl (alert_step p uuid) (0, empty_engine) ops)"

lemma run_alerts_ok:
  assumes "inj uuid"
  shows "\<exists>used. engine_ok p used (run_alerts p uuid ops)"
proof -
  have "history_ok p uuid (foldl (alert_step p uuid) (0, empty_engine) ops)"
    by (rule alert_run.run_inv) simp
  with assms show ?thesis unfolding run_alerts_def
    by (cases "foldl (alert_step p uuid) (0, empty_engine) ops") auto
qed

definition tick :: "nat \<Rightarrow> string" where "tick n = replicate n (CHR ''x'')"

lemma inj_tick [simp]: "inj tick"
  by (rule injI) (metis length_replicate tick_def)

definition example_candidate :: "instant \<Rightarrow> instant alert_candidate" where
  "example_candidate t = \<lparr>fingerprint = ''vix-spike'', priority = AP0, direction = TWO_SIDED, observed_at = t,
     evidence = [], event_id = None, snapshot_id = ''s'', model_version = ''m'', rules_version = ''r'',
     action = RISK_LOCK, invalidation_conditions = [], rerun_trigger = ''t''\<rparr>"

definition example_ops :: "alert_op list" where
  "example_ops = [Observe (example_candidate (minutes 1)) True, Observe (example_candidate (minutes 2)) True,
     Observe (example_candidate (minutes 3)) True, Observe (example_candidate (minutes 9)) True]"

definition example_alert :: "string \<Rightarrow> instant \<Rightarrow> int \<Rightarrow> alert_record" where
  "example_alert i t n = \<lparr>alert_id = i, candidate = example_candidate t, created_at = t, status = OPEN,
     deduplicated_count = n, escalation_level = 0\<rparr>"

lemma example_run:
  "alerts_by_id (run_alerts default_alert_policy tick example_ops) =
     [(tick 1, example_alert (tick 1) (minutes 2) 1), (tick 3, example_alert (tick 3) (minutes 9) 0)]"
  by (simp add: run_alerts_def example_ops_def observe_def empty_engine_def seen_count_def Let_def
      latest_alert_def new_alert_def example_candidate_def example_alert_def minutes_def tick_def numeral_nat)

text \<open>C38. Along every history of observations, feedback and escalations, two different alerts of
  one fingerprint were created at least a cooldown apart, so a condition that keeps firing cannot
  flood the user.\<close>

theorem alerts_spaced_by_cooldown:
  assumes "inj uuid"
    and "map_of (alerts_by_id (run_alerts p uuid ops)) i = Some a"
    and "map_of (alerts_by_id (run_alerts p uuid ops)) j = Some b" and "i \<noteq> j"
    and "fingerprint (candidate a) = fingerprint (candidate b)"
  shows "cooldown p \<le> \<bar>created_at a - created_at b\<bar>"
proof -
  obtain used where ok: "engine_ok p used (run_alerts p uuid ops)" using run_alerts_ok [OF assms(1)] by blast
  have v: "view (run_alerts p uuid ops) i = Some (alert_id a, candidate a, created_at a)"
    "view (run_alerts p uuid ops) j = Some (alert_id b, candidate b, created_at b)"
    using assms(2,3) by (simp_all add: view_def core_def)
  with ok have "alert_id a = i" "alert_id b = j" unfolding engine_ok_def by blast+
  with ok v assms(4,5) show ?thesis unfolding engine_ok_def by blast
qed

theorem alerts_spaced_by_cooldown_witness:
  "minutes 5 \<le> \<bar>created_at (example_alert (tick 1) (minutes 2) 1) - created_at (example_alert (tick 3) (minutes 9) 0)\<bar>"
proof -
  have m: "map_of (alerts_by_id (run_alerts default_alert_policy tick example_ops)) (tick 1)
      = Some (example_alert (tick 1) (minutes 2) 1)"
    "map_of (alerts_by_id (run_alerts default_alert_policy tick example_ops)) (tick 3)
      = Some (example_alert (tick 3) (minutes 9) 0)" "tick 1 \<noteq> tick 3"
    by (simp_all add: example_run inj_eq)
  from alerts_spaced_by_cooldown [OF inj_tick m] show ?thesis
    by (simp add: example_alert_def example_candidate_def default_alert_policy_def)
qed

text \<open>The hysteresis is exact: after any history, an observation raises or refreshes an alert
  only if it is active and completes the required number of active observations of its
  fingerprint since the last inactive one; with fewer the answer is no alert and no stored alert
  changes.\<close>

theorem hysteresis_exact:
  "let e = run_alerts p uuid ops; r = observe p e uid c active
   in (fst r = Inr None \<longleftrightarrow> \<not> active \<or> streak (fingerprint c) ops + 1 < hysteresis_observations p)
    \<and> (fst r = Inr None \<longrightarrow> alerts_by_id (snd r) = alerts_by_id e)"
proof -
  have n: "seen_count (run_alerts p uuid ops) (fingerprint c) = streak (fingerprint c) ops"
    using seen_count_run [of p uuid "(0, empty_engine)" ops "fingerprint c"]
    by (simp add: run_alerts_def streak_def seen_count_def empty_engine_def)
  show ?thesis
    unfolding Let_def by (auto simp: observe_def n Let_def new_alert_def split: option.split)
qed

theorem hysteresis_exact_witness:
  "fst (observe default_alert_policy (run_alerts default_alert_policy tick []) (tick 0) (example_candidate 0) True)
     = Inr None"
  using hysteresis_exact [of default_alert_policy tick "[]" "tick 0" "example_candidate 0" True]
  by (simp add: Let_def streak_def default_alert_policy_def)

text \<open>Later operations never alter what an alert records (its identity, candidate and creation
  time), its counters only grow, and once a user has acknowledged or dismissed it, it is never
  reopened and never escalated again; the feedback log is only ever extended.\<close>

theorem closed_alert_stays_closed:
  assumes "inj uuid" and "map_of (alerts_by_id (run_alerts p uuid ops)) i = Some a"
  shows "\<exists>b. map_of (alerts_by_id (run_alerts p uuid (ops @ later))) i = Some b
     \<and> alert_id b = alert_id a \<and> candidate b = candidate a \<and> created_at b = created_at a
     \<and> escalation_level a \<le> escalation_level b
     \<and> (status a \<noteq> OPEN \<longrightarrow> status b \<noteq> OPEN \<and> escalation_level b = escalation_level a)
     \<and> prefix (feedback_log (run_alerts p uuid ops)) (feedback_log (run_alerts p uuid (ops @ later)))"
proof -
  let ?s = "foldl (alert_step p uuid) (0, empty_engine)"
  have ok: "history_ok p uuid (0, empty_engine)" by simp
  from alert_run.run_rel_from [OF ok, of ops later] assms(1)
  have "engine_le (snd (?s ops)) (snd (?s (ops @ later)))" by (simp add: history_le_def)
  moreover have "prefix (feedback_log (snd (?s ops))) (feedback_log (snd (?s (ops @ later))))"
    using alert_feedback.run_log [OF alert_run.run_inv [OF ok, of ops], of later] by simp
  ultimately show ?thesis
    using assms(2) unfolding run_alerts_def engine_le_def alert_le_def core_def by fastforce
qed

theorem closed_alert_stays_closed_witness:
  "\<exists>b. map_of (alerts_by_id (run_alerts default_alert_policy tick
          (example_ops @ [Feedback (tick 1) FK_DISMISSED ''me'' (Aware (minutes 9)) None]))) (tick 1) = Some b
     \<and> created_at b = minutes 2"
proof -
  have "map_of (alerts_by_id (run_alerts default_alert_policy tick example_ops)) (tick 1)
      = Some (example_alert (tick 1) (minutes 2) 1)" by (simp add: example_run)
  from closed_alert_stays_closed [OF inj_tick this] show ?thesis by (fastforce simp: example_alert_def)
qed

text \<open>An escalation sweep returns exactly the open P0 alerts old enough, in insertion order,
  each one level up, and stores exactly those changes; a naive time is refused and changes
  nothing.\<close>

theorem escalation_sweep_exact:
  assumes "inj uuid"
  shows "let e = run_alerts p uuid ops in
     fst (due_escalations p e (Aware t)) =
       Inr (map (\<lambda>a. a\<lparr>escalation_level := escalation_level a + 1\<rparr>)
              (filter (\<lambda>a. priority (candidate a) = AP0 \<and> status a = OPEN
                           \<and> p0_escalation_after p \<le> t - created_at a) (dict_values (alerts_by_id e))))
   \<and> (\<forall>i. map_of (alerts_by_id (snd (due_escalations p e (Aware t)))) i =
        (case map_of (alerts_by_id e) i of None \<Rightarrow> None
         | Some a \<Rightarrow> Some (if priority (candidate a) = AP0 \<and> status a = OPEN \<and> p0_escalation_after p \<le> t - created_at a
                           then a\<lparr>escalation_level := escalation_level a + 1\<rparr> else a)))
   \<and> due_escalations p e (Naive t) = (Inl (ValueError ''as_of must be timezone-aware''), e)"
proof -
  define e where "e = run_alerts p uuid ops"
  obtain used where "engine_ok p used e" using run_alerts_ok [OF assms] unfolding e_def by blast
  then have d: "dict_ok (alerts_by_id e)" by (simp add: engine_ok_def)
  have "map (escalated p t) (filter (due p t) xs) = map (\<lambda>a. a\<lparr>escalation_level := escalation_level a + 1\<rparr>)
      (filter (\<lambda>a. priority (candidate a) = AP0 \<and> status a = OPEN \<and> p0_escalation_after p \<le> t - created_at a) xs)" for xs
    by (induction xs) (auto simp: escalated_def due_def)
  then have "fst (due_escalations p e (Aware t)) = Inr (map (\<lambda>a. a\<lparr>escalation_level := escalation_level a + 1\<rparr>)
      (filter (\<lambda>a. priority (candidate a) = AP0 \<and> status a = OPEN \<and> p0_escalation_after p \<le> t - created_at a)
         (dict_values (alerts_by_id e))))"
    by (simp add: due_escalations_def case_prod_beta Let_def escalate_loop_due dict_values_def)
  moreover have "map_of (alerts_by_id (snd (due_escalations p e (Aware t)))) i =
        (case map_of (alerts_by_id e) i of None \<Rightarrow> None
         | Some a \<Rightarrow> Some (if priority (candidate a) = AP0 \<and> status a = OPEN \<and> p0_escalation_after p \<le> t - created_at a
                           then a\<lparr>escalation_level := escalation_level a + 1\<rparr> else a))" for i
    unfolding due_escalations_dict(1) [OF d] by (auto simp: escalated_def due_def split: option.split)
  ultimately show ?thesis unfolding Let_def e_def [symmetric] by (simp add: due_escalations_def)
qed

theorem escalation_sweep_exact_witness:
  "fst (due_escalations default_alert_policy (run_alerts default_alert_policy tick example_ops) (Aware (minutes 10)))
     = Inr [(example_alert (tick 1) (minutes 2) 1)\<lparr>escalation_level := 1\<rparr>]"
  using escalation_sweep_exact [OF inj_tick, of default_alert_policy example_ops "minutes 10"]
  by (simp add: Let_def example_run dict_values_def example_alert_def example_candidate_def minutes_def)

end
