(* ===== verification/Delivery.thy ===== *)
theory Delivery
  imports Snapshot Machine "HOL-Library.Product_Lexorder"
begin

text \<open>
  The alert outbox: signed messages, their append-only store and the orchestrator that
  delivers, retries, acknowledges and escalates them (\<open>domain/alert_delivery.py\<close>,
  \<open>services/alert_delivery_store.py\<close>, \<open>services/alert_delivery_service.py\<close>).

  The SQLite tables are lists in insertion order, with the constraints the code's SQL
  relies on written out: the primary keys by the lookup that precedes each insert, the
  \<open>ORDER BY\<close> clauses by stable sorts (the ISO text of UTC times, which is what the
  columns hold, sorts like the times).  A message payload is a JSON object, as the API
  passes it, and a row read back has its keys sorted.  SHA-256 and HMAC are the parameters
  \<open>sha\<close> and \<open>hmac\<close>.  A sender is code outside this component: \<open>send n m\<close> is its answer to
  its \<open>n\<close>-th call, \<open>None\<close> an exception.
\<close>

section \<open>Messages, events and attempts\<close>

datatype delivery_channel = WEBHOOK | EMAIL | MOBILE

datatype outbox_event_kind =
    ENQUEUED | SUPPRESSED | DELIVERY_DISABLED | DELIVERED | RETRY_SCHEDULED | DEAD_LETTERED
  | ACKNOWLEDGED | ESCALATED

datatype attempt_outcome = SENT | TRANSIENT_FAILURE | PERMANENT_FAILURE | DISABLED

fun channel_value :: "delivery_channel \<Rightarrow> string" where
  "channel_value WEBHOOK = ''WEBHOOK''"
| "channel_value EMAIL = ''EMAIL''"
| "channel_value MOBILE = ''MOBILE''"

fun event_kind_value :: "outbox_event_kind \<Rightarrow> string" where
  "event_kind_value ENQUEUED = ''ENQUEUED''"
| "event_kind_value SUPPRESSED = ''SUPPRESSED''"
| "event_kind_value DELIVERY_DISABLED = ''DELIVERY_DISABLED''"
| "event_kind_value DELIVERED = ''DELIVERED''"
| "event_kind_value RETRY_SCHEDULED = ''RETRY_SCHEDULED''"
| "event_kind_value DEAD_LETTERED = ''DEAD_LETTERED''"
| "event_kind_value ACKNOWLEDGED = ''ACKNOWLEDGED''"
| "event_kind_value ESCALATED = ''ESCALATED''"

record outbox_message =
  message_id :: string
  alert_id :: string
  fingerprint :: string
  channel :: delivery_channel
  destination_reference :: string
  payload :: "(string, json) dict"
  created_at :: instant
  dedupe_key :: string
  signature :: string
  policy_version :: string
  authorization_reference_hash :: "string option"

record outbox_event =
  event_id :: string
  ev_message_id :: string
  kind :: outbox_event_kind
  recorded_at :: instant
  attempt_number :: "int option"
  reason_code :: "string option"
  next_attempt_at :: "instant option"
  ack_due_at :: "instant option"
  escalation_level :: int
  actor :: "string option"

record delivery_attempt =
  attempt_id :: string
  at_message_id :: string
  at_channel :: delivery_channel
  attempted_at :: instant
  at_number :: int
  sender_name :: string
  outcome :: attempt_outcome
  at_reason_code :: "string option"
  response_reference :: "string option"

definition opt_json :: "string option \<Rightarrow> json" where
  "opt_json v = (case v of None \<Rightarrow> JNull | Some s \<Rightarrow> JStr s)"

definition opt_time_json :: "instant option \<Rightarrow> json" where
  "opt_time_json v = (case v of None \<Rightarrow> JNull | Some t \<Rightarrow> JStr (isoformat t))"

definition opt_int_json :: "int option \<Rightarrow> json" where
  "opt_int_json v = (case v of None \<Rightarrow> JNull | Some i \<Rightarrow> JNum (show_int i))"

definition signing_content :: "outbox_message \<Rightarrow> json" where
  "signing_content m = JObj
     [(''message_id'', JStr (message_id m)), (''alert_id'', JStr (alert_id m)),
      (''fingerprint'', JStr (fingerprint m)), (''channel'', JStr (channel_value (channel m))),
      (''destination_reference'', JStr (destination_reference m)), (''payload'', JObj (payload m)),
      (''created_at'', JStr (isoformat (created_at m))), (''dedupe_key'', JStr (dedupe_key m)),
      (''policy_version'', JStr (policy_version m)),
      (''authorization_reference_hash'', opt_json (authorization_reference_hash m)),
      (''run_mode'', JStr ''SCENARIO'')]"

text \<open>\<open>hmac key text\<close> is the hexadecimal digest.\<close>

definition sign_outbox_content :: "(string \<Rightarrow> string \<Rightarrow> string) \<Rightarrow> json \<Rightarrow> string \<Rightarrow> string result" where
  "sign_outbox_content hmac content key =
     (if key = [] then Inl (ValueError ''signing_key must not be empty'')
      else Inr (''hmac-sha256:'' @ hmac key (render (sort_json content))))"

definition verify_outbox_message :: "(string \<Rightarrow> string \<Rightarrow> string) \<Rightarrow> outbox_message \<Rightarrow> string \<Rightarrow> bool result" where
  "verify_outbox_message hmac m key =
     res_bind (sign_outbox_content hmac (signing_content m) key) (\<lambda>expected. Inr (signature m = expected))"

definition removeprefix :: "string \<Rightarrow> string \<Rightarrow> string" where
  "removeprefix p s = (if starts_with p s then drop (length p) s else s)"

definition deterministic_delivery_id :: "(string \<Rightarrow> string) \<Rightarrow> string \<Rightarrow> json \<Rightarrow> string" where
  "deterministic_delivery_id sha pfx content =
     pfx @ '':'' @ removeprefix ''sha256:'' (snapshot_id (freeze_json sha (sort_json content)))"

section \<open>Policies and senders\<close>

record channel_policy =
  cp_channel :: delivery_channel
  enabled :: bool
  opted_in :: bool
  authorization_id :: "string option"
  allow_network :: bool
  cooldown :: timedelta
  max_attempts :: int
  base_backoff :: timedelta
  max_backoff :: timedelta
  require_ack :: bool
  ack_timeout :: timedelta
  max_escalations :: int

definition authorized :: "channel_policy \<Rightarrow> bool" where
  "authorized p \<longleftrightarrow> strip (case authorization_id p of None \<Rightarrow> [] | Some s \<Rightarrow> s) \<noteq> []"

definition mk_channel_policy :: "channel_policy \<Rightarrow> channel_policy result" where
  "mk_channel_policy p =
     (if enabled p \<and> opted_in p \<and> \<not> authorized p
      then Inl (ValueError ''enabled opted-in channels require authorization_id'')
      else if cooldown p < 0 then Inl (ValueError ''cooldown must not be negative'')
      else if max_attempts p < 1 then Inl (ValueError ''max_attempts must be positive'')
      else if base_backoff p \<le> 0 \<or> max_backoff p < base_backoff p
      then Inl (ValueError ''invalid retry backoff bounds'')
      else if ack_timeout p \<le> 0 then Inl (ValueError ''ack_timeout must be positive'')
      else if max_escalations p < 0 then Inl (ValueError ''max_escalations must not be negative'')
      else Inr p)"

definition delivery_enabled :: "channel_policy \<Rightarrow> bool" where
  "delivery_enabled p \<longleftrightarrow> enabled p \<and> opted_in p \<and> authorized p"

definition retry_delay :: "channel_policy \<Rightarrow> int \<Rightarrow> timedelta result" where
  "retry_delay p n = backoff_delay (ValueError ''attempt_number must be positive'') (base_backoff p) (max_backoff p) n"

definition default_channel_policy :: "delivery_channel \<Rightarrow> channel_policy" where
  "default_channel_policy c = \<lparr>cp_channel = c, enabled = False, opted_in = False, authorization_id = None,
     allow_network = False, cooldown = minutes 5, max_attempts = 3, base_backoff = seconds 5,
     max_backoff = minutes 2, require_ack = False, ack_timeout = minutes 2, max_escalations = 0\<rparr>"

record delivery_policy =
  dp_version :: string
  channels :: "(delivery_channel, channel_policy) dict"

definition mk_delivery_policy :: "string \<Rightarrow> (delivery_channel, channel_policy) dict \<Rightarrow> delivery_policy result" where
  "mk_delivery_policy v cs =
     (if strip v = [] then Inl (ValueError ''policy version must not be blank'')
      else if \<exists>(k, p) \<in> set cs. k \<noteq> cp_channel p
      then Inl (ValueError ''channel policy keys must match their channel'')
      else Inr \<lparr>dp_version = v, channels = cs\<rparr>)"

definition for_channel :: "delivery_policy \<Rightarrow> delivery_channel \<Rightarrow> channel_policy" where
  "for_channel p c = (case map_of (channels p) c of None \<Rightarrow> default_channel_policy c | Some cp \<Rightarrow> cp)"

record sender_result =
  sr_outcome :: attempt_outcome
  sr_reason :: "string option"
  sr_response :: "string option"

record delivery_sender =
  name :: string
  ds_channel :: delivery_channel
  network_capable :: bool
  send :: "nat \<Rightarrow> outbox_message \<Rightarrow> sender_result option"

definition null_sender :: "delivery_channel \<Rightarrow> delivery_sender" where
  "null_sender c = \<lparr>name = ''null-disabled'', ds_channel = c, network_capable = False,
     send = (\<lambda>_ _. Some \<lparr>sr_outcome = DISABLED, sr_reason = Some ''NULL_SENDER_DISABLED'', sr_response = None\<rparr>)\<rparr>"

text \<open>The local failure injector: its \<open>n\<close>-th call pops the \<open>n\<close>-th outcome.\<close>

definition scripted_sender :: "delivery_channel \<Rightarrow> sender_result list \<Rightarrow> delivery_sender" where
  "scripted_sender c outs = \<lparr>name = ''scripted-local'', ds_channel = c, network_capable = False,
     send = (\<lambda>n _. Some (if n < length outs then outs ! n
       else \<lparr>sr_outcome = DISABLED, sr_reason = Some ''SCRIPT_EXHAUSTED'', sr_response = None\<rparr>))\<rparr>"

section \<open>The append-only store\<close>

record store =
  messages :: "outbox_message list"
  events :: "outbox_event list"
  attempts :: "delivery_attempt list"
  calls :: "delivery_channel \<Rightarrow> nat"

definition empty_store :: store where
  "empty_store = \<lparr>messages = [], events = [], attempts = [], calls = (\<lambda>_. 0)\<rparr>"

text \<open>A row as it is read back: the payload went through \<open>json.dumps(sort_keys=True)\<close>.\<close>

definition message_row :: "outbox_message \<Rightarrow> outbox_message" where
  "message_row m = m\<lparr>payload := (case sort_json (JObj (payload m)) of JObj kvs \<Rightarrow> kvs | _ \<Rightarrow> [])\<rparr>"

definition get_message :: "store \<Rightarrow> string \<Rightarrow> outbox_message option" where
  "get_message s mid = List.find (\<lambda>m. message_id m = mid) (messages s)"

definition append_message :: "store \<Rightarrow> outbox_message \<Rightarrow> outbox_message result \<times> store" where
  "append_message s m =
     (case get_message s (message_id m) of
        Some old \<Rightarrow>
          if old \<noteq> message_row m
          then (Inl (AlertDeliveryConflict
                 (''immutable audit conflict: alert_outbox_messages/'' @ message_id m)), s)
          else (Inr old, s)
      | None \<Rightarrow> (Inr (message_row m), s\<lparr>messages := messages s @ [message_row m]\<rparr>))"

definition append_event :: "store \<Rightarrow> outbox_event \<Rightarrow> outbox_event result \<times> store" where
  "append_event s e =
     (if get_message s (ev_message_id e) = None
      then (Inl (KeyError (''unknown outbox message: '' @ ev_message_id e)), s)
      else case List.find (\<lambda>x. event_id x = event_id e) (events s) of
        Some old \<Rightarrow>
          if old \<noteq> e
          then (Inl (AlertDeliveryConflict (''immutable audit conflict: alert_outbox_events/'' @ event_id e)), s)
          else (Inr e, s)
      | None \<Rightarrow> (Inr e, s\<lparr>events := events s @ [e]\<rparr>))"

definition append_attempt :: "store \<Rightarrow> delivery_attempt \<Rightarrow> delivery_attempt result \<times> store" where
  "append_attempt s a =
     (if get_message s (at_message_id a) = None
      then (Inl (KeyError (''unknown outbox message: '' @ at_message_id a)), s)
      else case List.find (\<lambda>x. attempt_id x = attempt_id a) (attempts s) of
        Some old \<Rightarrow>
          if old \<noteq> a
          then (Inl (AlertDeliveryConflict (''immutable audit conflict: alert_delivery_attempts/'' @ attempt_id a)), s)
          else (Inr a, s)
      | None \<Rightarrow> (Inr a, s\<lparr>attempts := attempts s @ [a]\<rparr>))"

definition all_messages :: "store \<Rightarrow> outbox_message list" where
  "all_messages s = sort_key (\<lambda>m. (created_at m, message_id m)) (messages s)"

definition events_of :: "store \<Rightarrow> string \<Rightarrow> outbox_event list" where
  "events_of s mid = sort_key recorded_at (filter (\<lambda>e. ev_message_id e = mid) (events s))"

definition attempts_of :: "store \<Rightarrow> string \<Rightarrow> delivery_attempt list" where
  "attempts_of s mid =
     sort_key (\<lambda>a. (attempted_at a, attempt_id a)) (filter (\<lambda>a. at_message_id a = mid) (attempts s))"

definition latest_message_for_dedupe :: "store \<Rightarrow> string \<Rightarrow> outbox_message option" where
  "latest_message_for_dedupe s key =
     (let ms = sort_key (\<lambda>m. (created_at m, message_id m)) (filter (\<lambda>m. dedupe_key m = key) (messages s))
      in if ms = [] then None else Some (last ms))"

section \<open>The orchestrator\<close>

record orchestrator =
  o_policy :: delivery_policy
  signing_key :: string
  senders :: "(delivery_channel, delivery_sender) dict"
  network_authorized :: bool

definition mk_orchestrator ::
  "delivery_policy \<Rightarrow> string \<Rightarrow> (delivery_channel, delivery_sender) dict \<Rightarrow> bool \<Rightarrow> orchestrator result" where
  "mk_orchestrator p key ss net =
     (if key = [] then Inl (ValueError ''signing_key must not be empty'')
      else if \<exists>(c, s) \<in> set ss. c \<noteq> ds_channel s
      then Inl (ValueError ''sender mapping key must match sender channel'')
      else Inr \<lparr>o_policy = p, signing_key = key, senders = ss, network_authorized = net\<rparr>)"

text \<open>\<open>self._senders.get(channel, NullDeliverySender(channel))\<close>.\<close>

definition sender_for :: "orchestrator \<Rightarrow> delivery_channel \<Rightarrow> delivery_sender" where
  "sender_for orc c = (case map_of (senders orc) c of None \<Rightarrow> null_sender c | Some x \<Rightarrow> x)"

definition event_content :: "outbox_event \<Rightarrow> json" where
  "event_content e = JObj
     [(''message_id'', JStr (ev_message_id e)), (''kind'', JStr (event_kind_value (kind e))),
      (''recorded_at'', JStr (isoformat (recorded_at e))), (''attempt_number'', opt_int_json (attempt_number e)),
      (''reason_code'', opt_json (reason_code e)), (''next_attempt_at'', opt_time_json (next_attempt_at e)),
      (''ack_due_at'', opt_time_json (ack_due_at e)),
      (''escalation_level'', JNum (show_int (escalation_level e))), (''actor'', opt_json (actor e))]"

text \<open>An event with the defaults of \<open>_append_event\<close>; its identity is the hash of the rest.\<close>

definition bare_event :: "string \<Rightarrow> outbox_event_kind \<Rightarrow> instant \<Rightarrow> outbox_event" where
  "bare_event mid k t = \<lparr>event_id = [], ev_message_id = mid, kind = k, recorded_at = t, attempt_number = None,
     reason_code = None, next_attempt_at = None, ack_due_at = None, escalation_level = 0, actor = None\<rparr>"

definition append_new_event :: "(string \<Rightarrow> string) \<Rightarrow> store \<Rightarrow> outbox_event \<Rightarrow> outbox_event result \<times> store" where
  "append_new_event sha s e =
     append_event s (e\<lparr>event_id := deterministic_delivery_id sha ''outbox-event'' (event_content e)\<rparr>)"

text \<open>The destination pattern \<open>^[A-Za-z0-9][A-Za-z0-9._:-]{0,127}$\<close>.\<close>

definition dest_alnum :: "char \<Rightarrow> bool" where
  "dest_alnum c \<longleftrightarrow> (let n = of_char c :: nat
     in (48 \<le> n \<and> n \<le> 57) \<or> (65 \<le> n \<and> n \<le> 90) \<or> (97 \<le> n \<and> n \<le> 122))"

definition destination_ok :: "string \<Rightarrow> bool" where
  "destination_ok s \<longleftrightarrow> s \<noteq> [] \<and> length s \<le> 128 \<and> dest_alnum (hd s)
     \<and> list_all (\<lambda>c. dest_alnum c \<or> c \<in> set ''._:-'') (tl s)"

fun first_blank :: "(string \<times> string) list \<Rightarrow> string option" where
  "first_blank [] = None"
| "first_blank ((n, v) # rest) = (if strip v = [] then Some n else first_blank rest)"

definition build_message ::
  "(string \<Rightarrow> string) \<Rightarrow> (string \<Rightarrow> string \<Rightarrow> string) \<Rightarrow> orchestrator \<Rightarrow> string \<Rightarrow> string \<Rightarrow> string
     \<Rightarrow> delivery_channel \<Rightarrow> string \<Rightarrow> (string, json) dict \<Rightarrow> instant \<Rightarrow> outbox_message result" where
  "build_message sha hmac orc mid aid fp ch dst pl created =
     (let cp = for_channel (o_policy orc) ch;
          auth = (case authorization_id cp of
              None \<Rightarrow> None
            | Some a \<Rightarrow> if a = [] then None
                else Some (deterministic_delivery_id sha ''sha256'' (JObj [(''authorization_id'', JStr a)])));
          m = \<lparr>message_id = mid, alert_id = aid, fingerprint = fp, channel = ch, destination_reference = dst,
               payload = pl, created_at = created,
               dedupe_key = channel_value ch @ '':'' @ fp @ '':'' @ dst, signature = [],
               policy_version = dp_version (o_policy orc), authorization_reference_hash = auth\<rparr>
      in res_bind (sign_outbox_content hmac (signing_content m) (signing_key orc)) (\<lambda>sig.
           Inr (m\<lparr>signature := sig\<rparr>)))"

definition enqueue ::
  "(string \<Rightarrow> string) \<Rightarrow> (string \<Rightarrow> string \<Rightarrow> string) \<Rightarrow> orchestrator \<Rightarrow> store \<Rightarrow> string \<Rightarrow> string \<Rightarrow> string
     \<Rightarrow> delivery_channel \<Rightarrow> string \<Rightarrow> (string, json) dict \<Rightarrow> datetime \<Rightarrow> outbox_message result \<times> store" where
  "enqueue sha hmac orc s mid aid fp ch dst pl tm =
     (case to_utc (ValueError ''created_at must be timezone-aware'') tm of
        Inl e \<Rightarrow> (Inl e, s)
      | Inr created \<Rightarrow>
     (case first_blank [(''message_id'', mid), (''alert_id'', aid), (''fingerprint'', fp),
                        (''destination_reference'', dst)] of
        Some n \<Rightarrow> (Inl (ValueError (n @ '' must not be blank'')), s)
      | None \<Rightarrow>
      if \<not> destination_ok dst
      then (Inl (ValueError ''destination_reference must be an opaque allowlisted identifier''), s)
      else let existing_by_id = get_message s mid;
               previous = latest_message_for_dedupe s (channel_value ch @ '':'' @ fp @ '':'' @ dst);
               cp = for_channel (o_policy orc) ch;
               elapsed = (case previous of
                   Some p \<Rightarrow> if message_id p \<noteq> mid then Some (created - created_at p) else None | None \<Rightarrow> None);
               suppressed = (case elapsed of None \<Rightarrow> False | Some d \<Rightarrow> d < cooldown cp)
      in if (case elapsed of None \<Rightarrow> False | Some d \<Rightarrow> d < 0)
      then (Inl (ValueError ''message created_at regressed behind prior dedupe record''), s)
      else (case build_message sha hmac orc mid aid fp ch dst pl created of
        Inl e \<Rightarrow> (Inl e, s)
      | Inr m \<Rightarrow>
      (case append_message s m of
        (Inl e, s1) \<Rightarrow> (Inl e, s1)
      | (Inr stored, s1) \<Rightarrow>
        if existing_by_id \<noteq> None then (Inr stored, s1)
        else let ev = (if suppressed
                       then (bare_event (message_id stored) SUPPRESSED created)\<lparr>reason_code := Some ''DEDUPE_COOLDOWN''\<rparr>
                       else if \<not> delivery_enabled cp
                       then (bare_event (message_id stored) DELIVERY_DISABLED created)\<lparr>reason_code := Some ''CHANNEL_NOT_OPTED_IN''\<rparr>
                       else bare_event (message_id stored) ENQUEUED created)
          in (case append_new_event sha s1 ev of
               (Inl e, s2) \<Rightarrow> (Inl e, s2) | (Inr _, s2) \<Rightarrow> (Inr stored, s2))))))"

definition terminal :: "outbox_event_kind set" where
  "terminal = {SUPPRESSED, DELIVERY_DISABLED, DEAD_LETTERED, ACKNOWLEDGED}"

definition is_due :: "store \<Rightarrow> string \<Rightarrow> instant \<Rightarrow> bool" where
  "is_due s mid now =
     (let evs = events_of s mid
      in if \<exists>e \<in> set evs. kind e \<in> terminal then False
         else if evs = [] then False
         else let latest = last evs
           in if kind latest = ENQUEUED then recorded_at latest \<le> now
              else kind latest = RETRY_SCHEDULED
                 \<and> (case next_attempt_at latest of None \<Rightarrow> False | Some t \<Rightarrow> t \<le> now))"

text \<open>The decision whether the sender is called, and its answer; the last component counts the call.\<close>

definition attempt_result ::
  "(string \<Rightarrow> string \<Rightarrow> string) \<Rightarrow> orchestrator \<Rightarrow> store \<Rightarrow> outbox_message \<Rightarrow> sender_result result \<times> store" where
  "attempt_result hmac orc s m =
     (let cp = for_channel (o_policy orc) (channel m);
          sender = sender_for orc (channel m)
      in if \<not> delivery_enabled cp
         then (Inr \<lparr>sr_outcome = DISABLED, sr_reason = Some ''CHANNEL_NOT_OPTED_IN'', sr_response = None\<rparr>, s)
         else case verify_outbox_message hmac m (signing_key orc) of
           Inl e \<Rightarrow> (Inl e, s)
         | Inr False \<Rightarrow>
             (Inr \<lparr>sr_outcome = PERMANENT_FAILURE, sr_reason = Some ''SIGNATURE_INVALID'', sr_response = None\<rparr>, s)
         | Inr True \<Rightarrow>
             if network_capable sender \<and> \<not> (network_authorized orc \<and> allow_network cp)
             then (Inr \<lparr>sr_outcome = DISABLED, sr_reason = Some ''NETWORK_NOT_AUTHORIZED'', sr_response = None\<rparr>, s)
             else (Inr (case send sender (calls s (channel m)) m of
                     None \<Rightarrow> \<lparr>sr_outcome = TRANSIENT_FAILURE, sr_reason = Some ''SENDER_EXCEPTION'', sr_response = None\<rparr>
                   | Some r \<Rightarrow> r),
                   s\<lparr>calls := (calls s)(channel m := Suc (calls s (channel m)))\<rparr>))"

definition or_reason :: "string option \<Rightarrow> string \<Rightarrow> string option" where
  "or_reason r d = (case r of None \<Rightarrow> Some d | Some x \<Rightarrow> if x = [] then Some d else Some x)"

definition outcome_event ::
  "channel_policy \<Rightarrow> string \<Rightarrow> instant \<Rightarrow> int \<Rightarrow> sender_result \<Rightarrow> outbox_event result" where
  "outcome_event cp mid now n r =
     (case sr_outcome r of
        SENT \<Rightarrow> Inr ((bare_event mid DELIVERED now)\<lparr>attempt_number := Some n,
            ack_due_at := if require_ack cp then Some (now + ack_timeout cp) else None\<rparr>)
      | TRANSIENT_FAILURE \<Rightarrow>
          if max_attempts cp \<le> n
          then Inr ((bare_event mid DEAD_LETTERED now)\<lparr>attempt_number := Some n,
                 reason_code := Some ''RETRY_BUDGET_EXHAUSTED''\<rparr>)
          else res_bind (retry_delay cp n) (\<lambda>d.
                 Inr ((bare_event mid RETRY_SCHEDULED now)\<lparr>attempt_number := Some (n + 1),
                   next_attempt_at := Some (now + d), reason_code := or_reason (sr_reason r) ''TRANSIENT_FAILURE''\<rparr>))
      | PERMANENT_FAILURE \<Rightarrow> Inr ((bare_event mid DEAD_LETTERED now)\<lparr>attempt_number := Some n,
            reason_code := or_reason (sr_reason r) ''PERMANENT_FAILURE''\<rparr>)
      | DISABLED \<Rightarrow> Inr ((bare_event mid DELIVERY_DISABLED now)\<lparr>attempt_number := Some n,
            reason_code := or_reason (sr_reason r) ''DELIVERY_DISABLED''\<rparr>))"

definition dispatch_one ::
  "(string \<Rightarrow> string) \<Rightarrow> (string \<Rightarrow> string \<Rightarrow> string) \<Rightarrow> orchestrator \<Rightarrow> store \<Rightarrow> outbox_message \<Rightarrow> instant
     \<Rightarrow> delivery_attempt result \<times> store" where
  "dispatch_one sha hmac orc s m now =
     (let cp = for_channel (o_policy orc) (channel m);
          sender = sender_for orc (channel m);
          n = int (length (attempts_of s (message_id m))) + 1
      in case attempt_result hmac orc s m of
           (Inl e, s1) \<Rightarrow> (Inl e, s1)
         | (Inr r, s1) \<Rightarrow>
             let a = \<lparr>attempt_id = deterministic_delivery_id sha ''attempt'' (JObj
                        [(''message_id'', JStr (message_id m)), (''attempt_number'', JNum (show_int n)),
                         (''attempted_at'', JStr (isoformat now))]),
                      at_message_id = message_id m, at_channel = channel m, attempted_at = now,
                      at_number = n, sender_name = name sender, outcome = sr_outcome r,
                      at_reason_code = sr_reason r, response_reference = sr_response r\<rparr>
             in case append_attempt s1 a of
                  (Inl e, s2) \<Rightarrow> (Inl e, s2)
                | (Inr _, s2) \<Rightarrow>
                    (case outcome_event cp (message_id m) now n r of
                       Inl e \<Rightarrow> (Inl e, s2)
                     | Inr ev \<Rightarrow>
                        (case append_new_event sha s2 ev of
                           (Inl e, s3) \<Rightarrow> (Inl e, s3) | (Inr _, s3) \<Rightarrow> (Inr a, s3))))"

fun dispatch_loop ::
  "(string \<Rightarrow> string) \<Rightarrow> (string \<Rightarrow> string \<Rightarrow> string) \<Rightarrow> orchestrator \<Rightarrow> instant \<Rightarrow> outbox_message list
     \<Rightarrow> delivery_attempt list \<Rightarrow> store \<Rightarrow> delivery_attempt list result \<times> store" where
  "dispatch_loop sha hmac orc now [] acc s = (Inr acc, s)"
| "dispatch_loop sha hmac orc now (m # ms) acc s =
     (if \<not> is_due s (message_id m) now then dispatch_loop sha hmac orc now ms acc s
      else case dispatch_one sha hmac orc s m now of
        (Inl e, s1) \<Rightarrow> (Inl e, s1)
      | (Inr a, s1) \<Rightarrow> dispatch_loop sha hmac orc now ms (acc @ [a]) s1)"

definition dispatch_due ::
  "(string \<Rightarrow> string) \<Rightarrow> (string \<Rightarrow> string \<Rightarrow> string) \<Rightarrow> orchestrator \<Rightarrow> store \<Rightarrow> datetime
     \<Rightarrow> delivery_attempt list result \<times> store" where
  "dispatch_due sha hmac orc s tm =
     (case to_utc (ValueError ''as_of must be timezone-aware'') tm of
        Inl e \<Rightarrow> (Inl e, s)
      | Inr now \<Rightarrow> dispatch_loop sha hmac orc now (all_messages s) [] s)"

definition acknowledge ::
  "(string \<Rightarrow> string) \<Rightarrow> store \<Rightarrow> string \<Rightarrow> string \<Rightarrow> datetime \<Rightarrow> outbox_event result \<times> store" where
  "acknowledge sha s mid who tm =
     (case to_utc (ValueError ''acknowledged_at must be timezone-aware'') tm of
        Inl e \<Rightarrow> (Inl e, s)
      | Inr now \<Rightarrow>
        if strip who = [] then (Inl (ValueError ''actor must not be blank''), s)
        else if get_message s mid = None then (Inl (KeyError (''unknown outbox message: '' @ mid)), s)
        else let evs = events_of s mid
        in case List.find (\<lambda>e. kind e = DELIVERED) (rev evs) of
             None \<Rightarrow> (Inl (ValueError ''message must be delivered before acknowledgment''), s)
           | Some latest \<Rightarrow>
               if now < recorded_at latest
               then (Inl (ValueError ''acknowledged_at must not precede delivery''), s)
               else case List.find (\<lambda>e. kind e = ACKNOWLEDGED) evs of
                 Some existing \<Rightarrow> (Inr existing, s)
               | None \<Rightarrow> append_new_event sha s ((bare_event mid ACKNOWLEDGED now)
                   \<lparr>reason_code := Some ''USER_ACKNOWLEDGED'', actor := Some who\<rparr>))"

text \<open>One message of the loop of \<open>escalate_due\<close>: what it appends to the answer, and the store.\<close>

definition escalate_one ::
  "(string \<Rightarrow> string) \<Rightarrow> orchestrator \<Rightarrow> instant \<Rightarrow> outbox_message \<Rightarrow> store \<Rightarrow> outbox_event list result \<times> store" where
  "escalate_one sha orc now m s =
     (let cp = for_channel (o_policy orc) (channel m); evs = events_of s (message_id m);
          delivered = filter (\<lambda>e. kind e = DELIVERED) evs
      in if \<not> require_ack cp then (Inr [], s)
         else if \<exists>e \<in> set evs. kind e = ACKNOWLEDGED then (Inr [], s)
         else if delivered = [] then (Inr [], s)
         else if kind (last evs) \<noteq> DELIVERED then (Inr [], s)
         else if (case ack_due_at (last delivered) of None \<Rightarrow> True | Some t \<Rightarrow> now < t) then (Inr [], s)
         else let level = int (length (filter (\<lambda>e. kind e = ESCALATED) evs))
         in if max_escalations cp \<le> level
         then (if \<exists>e \<in> set evs. kind e = DEAD_LETTERED then (Inr [], s)
               else case append_new_event sha s ((bare_event (message_id m) DEAD_LETTERED now)
                      \<lparr>reason_code := Some ''ACK_TIMEOUT'', escalation_level := level\<rparr>) of
                 (Inl e, s1) \<Rightarrow> (Inl e, s1) | (Inr e, s1) \<Rightarrow> (Inr [e], s1))
         else (case append_new_event sha s ((bare_event (message_id m) ESCALATED now)
                      \<lparr>reason_code := Some ''ACK_TIMEOUT'', escalation_level := level + 1\<rparr>) of
                 (Inl e, s1) \<Rightarrow> (Inl e, s1)
               | (Inr e, s1) \<Rightarrow>
                   let n = int (length (attempts_of s1 (message_id m))) + 1
                   in case append_new_event sha s1 ((bare_event (message_id m) RETRY_SCHEDULED now)
                        \<lparr>attempt_number := Some n, next_attempt_at := Some now,
                         reason_code := Some ''ACK_ESCALATION'', escalation_level := level + 1\<rparr>) of
                     (Inl e', s2) \<Rightarrow> (Inl e', s2) | (Inr _, s2) \<Rightarrow> (Inr [e], s2)))"

fun escalate_loop ::
  "(string \<Rightarrow> string) \<Rightarrow> orchestrator \<Rightarrow> instant \<Rightarrow> outbox_message list \<Rightarrow> outbox_event list \<Rightarrow> store
     \<Rightarrow> outbox_event list result \<times> store" where
  "escalate_loop sha orc now [] acc s = (Inr acc, s)"
| "escalate_loop sha orc now (m # ms) acc s =
     (case escalate_one sha orc now m s of
        (Inl e, s1) \<Rightarrow> (Inl e, s1)
      | (Inr es, s1) \<Rightarrow> escalate_loop sha orc now ms (acc @ es) s1)"

definition escalate_due :: "(string \<Rightarrow> string) \<Rightarrow> orchestrator \<Rightarrow> store \<Rightarrow> datetime \<Rightarrow> outbox_event list result \<times> store" where
  "escalate_due sha orc s tm =
     (case to_utc (ValueError ''as_of must be timezone-aware'') tm of
        Inl e \<Rightarrow> (Inl e, s)
      | Inr now \<Rightarrow> escalate_loop sha orc now (all_messages s) [] s)"

definition verify_signature :: "(string \<Rightarrow> string \<Rightarrow> string) \<Rightarrow> orchestrator \<Rightarrow> store \<Rightarrow> string \<Rightarrow> bool result" where
  "verify_signature hmac orc s mid =
     (case get_message s mid of
        None \<Rightarrow> Inl (KeyError (''unknown outbox message: '' @ mid))
      | Some m \<Rightarrow> verify_outbox_message hmac m (signing_key orc))"


section \<open>Histories\<close>

datatype delivery_op =
    Enqueue string string string delivery_channel string "(string, json) dict" datetime
  | Dispatch datetime
  | Acknowledge string string datetime
  | Escalate datetime

fun delivery_step ::
  "(string \<Rightarrow> string) \<Rightarrow> (string \<Rightarrow> string \<Rightarrow> string) \<Rightarrow> orchestrator \<Rightarrow> store \<Rightarrow> delivery_op \<Rightarrow> store" where
  "delivery_step sha hmac orc s (Enqueue mid aid fp ch dst pl tm) = snd (enqueue sha hmac orc s mid aid fp ch dst pl tm)"
| "delivery_step sha hmac orc s (Dispatch tm) = snd (dispatch_due sha hmac orc s tm)"
| "delivery_step sha hmac orc s (Acknowledge mid who tm) = snd (acknowledge sha s mid who tm)"
| "delivery_step sha hmac orc s (Escalate tm) = snd (escalate_due sha orc s tm)"

section \<open>Rows and signatures\<close>

lemma sort_json_idem: "sort_json (sort_json j) = sort_json j"
proof (induction j)
  case (JArr xs)
  then show ?case by simp
next
  case (JObj kvs)
  let ?f = "\<lambda>(k, v). (k, sort_json v)" and ?ys = "sort_key fst (map (\<lambda>(k, v). (k, sort_json v)) kvs)"
  have "set ?ys = (\<lambda>(k, v). (k, sort_json v)) ` set kvs" by simp
  then have "map ?f ?ys = ?ys"
    using JObj by (intro map_idI) (force simp: snds.simps)
  moreover have "sort_key fst ?ys = ?ys" by (rule sort_key_id_if_sorted) simp
  ultimately show ?case by simp
qed simp_all

lemma message_row_simps [simp]:
  "message_id (message_row m) = message_id m" "channel (message_row m) = channel m"
  "created_at (message_row m) = created_at m" "dedupe_key (message_row m) = dedupe_key m"
  "signature (message_row m) = signature m" "alert_id (message_row m) = alert_id m"
  "fingerprint (message_row m) = fingerprint m" "destination_reference (message_row m) = destination_reference m"
  "policy_version (message_row m) = policy_version m"
  "authorization_reference_hash (message_row m) = authorization_reference_hash m"
  by (simp_all add: message_row_def)

lemma payload_row: "JObj (payload (message_row m)) = sort_json (JObj (payload m))"
  by (simp add: message_row_def)

lemma message_row_idem [simp]: "message_row (message_row m) = message_row m"
proof -
  have "JObj (payload (message_row (message_row m))) = JObj (payload (message_row m))"
    unfolding payload_row by (rule sort_json_idem)
  then have p: "payload (message_row (message_row m)) = payload (message_row m)" by (rule json.inject(5) [THEN iffD1])
  have row: "message_row x = x\<lparr>payload := payload (message_row x)\<rparr>" for x :: outbox_message
    by (simp add: message_row_def)
  have "message_row (message_row m) = (message_row m)\<lparr>payload := payload (message_row m)\<rparr>"
    using row [of "message_row m"] unfolding p .
  then show ?thesis by simp
qed

lemma sort_JObj_cong:
  "map (\<lambda>(k, v). (k, sort_json v)) xs = map (\<lambda>(k, v). (k, sort_json v)) ys \<Longrightarrow>
     sort_json (JObj xs) = sort_json (JObj ys)"
  by simp

lemma signing_content_row: "sort_json (signing_content (message_row m)) = sort_json (signing_content m)"
proof -
  have *: "sort_json (JObj (payload (message_row m))) = sort_json (JObj (payload m))"
    unfolding payload_row by (rule sort_json_idem)
  show ?thesis
    unfolding signing_content_def
    by (rule sort_JObj_cong) (simp only: list.map prod.case * message_row_simps)
qed

lemma verify_row: "verify_outbox_message hmac (message_row m) key = verify_outbox_message hmac m key"
  by (simp add: verify_outbox_message_def sign_outbox_content_def signing_content_row)

lemma signing_content_signature [simp]: "signing_content (m\<lparr>signature := x\<rparr>) = signing_content m"
  by (simp add: signing_content_def)

lemma build_message_Inr:
  assumes "build_message sha hmac orc mid aid fp ch dst pl t = Inr m"
  shows "verify_outbox_message hmac m (signing_key orc) = Inr True"
    and "message_id m = mid" "channel m = ch" "created_at m = t"
  using assms
  by (auto simp: build_message_def Let_def verify_outbox_message_def sign_outbox_content_def signing_content_def
      simp del: sort_json.simps split: if_splits)

section \<open>What every operation keeps\<close>

definition terminated :: "store \<Rightarrow> string \<Rightarrow> bool" where
  "terminated s mid \<longleftrightarrow> (\<exists>e \<in> set (events s). ev_message_id e = mid \<and> kind e \<in> terminal)"

definition attempts_on :: "store \<Rightarrow> string \<Rightarrow> delivery_attempt list" where
  "attempts_on s mid = filter (\<lambda>a. at_message_id a = mid) (attempts s)"

definition may_send :: "orchestrator \<Rightarrow> delivery_channel \<Rightarrow> bool" where
  "may_send orc c \<longleftrightarrow> delivery_enabled (for_channel (o_policy orc) c)
     \<and> (network_capable (sender_for orc c) \<longrightarrow> network_authorized orc \<and> allow_network (for_channel (o_policy orc) c))"

definition store_ok :: "(string \<Rightarrow> string \<Rightarrow> string) \<Rightarrow> orchestrator \<Rightarrow> store \<Rightarrow> bool" where
  "store_ok hmac orc s \<longleftrightarrow>
     distinct (map message_id (messages s)) \<and> distinct (map event_id (events s))
   \<and> distinct (map attempt_id (attempts s))
   \<and> (\<forall>m \<in> set (messages s). message_row m = m \<and> verify_outbox_message hmac m (signing_key orc) = Inr True)
   \<and> (\<forall>e \<in> set (events s). ev_message_id e \<in> message_id ` set (messages s))
   \<and> (\<forall>a \<in> set (attempts s). at_message_id a \<in> message_id ` set (messages s)
        \<and> (\<not> may_send orc (at_channel a) \<longrightarrow> outcome a \<noteq> SENT))"

text \<open>The tables only grow, a settled message gets no further attempt, and a channel that may
  not send has its sender left alone.\<close>

definition store_le :: "orchestrator \<Rightarrow> store \<Rightarrow> store \<Rightarrow> bool" where
  "store_le orc s t \<longleftrightarrow>
     prefix (messages s) (messages t) \<and> prefix (events s) (events t) \<and> prefix (attempts s) (attempts t)
   \<and> (\<forall>mid. terminated s mid \<longrightarrow> attempts_on t mid = attempts_on s mid)
   \<and> (\<forall>c. \<not> may_send orc c \<longrightarrow> calls t c = calls s c)"

definition good :: "(string \<Rightarrow> string \<Rightarrow> string) \<Rightarrow> orchestrator \<Rightarrow> store \<Rightarrow> store \<Rightarrow> bool" where
  "good hmac orc s t \<longleftrightarrow> (store_ok hmac orc s \<longrightarrow> store_ok hmac orc t) \<and> store_le orc s t"

lemma store_le_refl [simp]: "store_le orc s s"
  by (simp add: store_le_def)

lemma terminated_mono: "prefix (events s) (events t) \<Longrightarrow> terminated s mid \<Longrightarrow> terminated t mid"
  unfolding terminated_def by (meson set_mono_prefix subset_iff)

lemma store_le_trans: "store_le orc s t \<Longrightarrow> store_le orc t u \<Longrightarrow> store_le orc s u"
  unfolding store_le_def by (metis prefix_order.trans terminated_mono)

lemma good_refl [simp]: "good hmac orc s s"
  by (simp add: good_def)

lemma good_trans: "good hmac orc s t \<Longrightarrow> good hmac orc t u \<Longrightarrow> good hmac orc s u"
  unfolding good_def by (blast intro: store_le_trans)

lemma find_key_None: "List.find (\<lambda>x. f x = k) xs = None \<longleftrightarrow> k \<notin> f ` set xs"
  by (auto simp: find_None_iff)

lemma find_key_Some: "List.find (\<lambda>x. f x = k) xs = Some x \<Longrightarrow> x \<in> set xs \<and> f x = k"
  by (auto simp: find_Some_iff)

lemma get_message_None: "get_message s mid = None \<longleftrightarrow> mid \<notin> message_id ` set (messages s)"
  unfolding get_message_def by (rule find_key_None)

lemma append_message_good:
  assumes "verify_outbox_message hmac m (signing_key orc) = Inr True"
  shows "good hmac orc s (snd (append_message s m))"
proof (cases "get_message s (message_id m)")
  case None
  then have "snd (append_message s m) = s\<lparr>messages := messages s @ [message_row m]\<rparr>"
    by (simp add: append_message_def)
  with None assms show ?thesis
    by (auto simp: good_def store_ok_def store_le_def get_message_None verify_row attempts_on_def)
qed (auto simp: append_message_def)

lemma append_event_cases:
  "snd (append_event s e) = s
   \<or> ev_message_id e \<in> message_id ` set (messages s) \<and> event_id e \<notin> event_id ` set (events s)
     \<and> snd (append_event s e) = s\<lparr>events := events s @ [e]\<rparr>"
  using find_key_None [of event_id "event_id e" "events s"] get_message_None [of s "ev_message_id e"]
  by (auto simp: append_event_def split: option.split)

lemma append_event_good: "good hmac orc s (snd (append_event s e))"
  using append_event_cases [of s e]
  by (auto simp: good_def store_ok_def store_le_def attempts_on_def)

lemma append_new_event_good: "good hmac orc s (snd (append_new_event sha s e))"
  unfolding append_new_event_def by (rule append_event_good)

lemma append_attempt_cases:
  "snd (append_attempt s a) = s
   \<or> at_message_id a \<in> message_id ` set (messages s) \<and> attempt_id a \<notin> attempt_id ` set (attempts s)
     \<and> snd (append_attempt s a) = s\<lparr>attempts := attempts s @ [a]\<rparr>"
  using find_key_None [of attempt_id "attempt_id a" "attempts s"] get_message_None [of s "at_message_id a"]
  by (auto simp: append_attempt_def split: option.split)

lemma append_attempt_good:
  assumes "\<not> terminated s (at_message_id a)" and "\<not> may_send orc (at_channel a) \<Longrightarrow> outcome a \<noteq> SENT"
  shows "good hmac orc s (snd (append_attempt s a))"
  using append_attempt_cases [of s a] assms
  by (auto simp: good_def store_ok_def store_le_def attempts_on_def)

lemma attempt_result_frame:
  "messages (snd (attempt_result hmac orc s m)) = messages s"
  "events (snd (attempt_result hmac orc s m)) = events s"
  "attempts (snd (attempt_result hmac orc s m)) = attempts s"
  by (auto simp: attempt_result_def Let_def split: sum.split bool.split)

lemma attempt_result_gate:
  assumes "\<not> may_send orc (channel m)"
  shows "snd (attempt_result hmac orc s m) = s"
    and "fst (attempt_result hmac orc s m) = Inr r \<Longrightarrow> sr_outcome r \<noteq> SENT"
  using assms by (auto simp: attempt_result_def Let_def may_send_def split: sum.splits bool.splits if_splits)

lemma attempt_result_calls:
  "c \<noteq> channel m \<Longrightarrow> calls (snd (attempt_result hmac orc s m)) c = calls s c"
  by (auto simp: attempt_result_def Let_def split: sum.split bool.split)

lemma attempt_result_good: "good hmac orc s (snd (attempt_result hmac orc s m))"
proof -
  have "calls (snd (attempt_result hmac orc s m)) c = calls s c" if "\<not> may_send orc c" for c
    using attempt_result_gate(1) attempt_result_calls that by (cases "c = channel m") auto
  then show ?thesis
    by (simp add: good_def store_ok_def store_le_def attempt_result_frame attempts_on_def)
qed

lemma dispatch_one_good:
  assumes "\<not> terminated s (message_id m)"
  shows "good hmac orc s (snd (dispatch_one sha hmac orc s m now))"
proof -
  obtain rr s1 where ar: "attempt_result hmac orc s m = (rr, s1)" by force
  have g1: "good hmac orc s s1" using attempt_result_good [of hmac orc s m] ar by simp
  have t1: "\<not> terminated s1 (message_id m)"
    using assms attempt_result_frame(2) [of hmac orc s m] ar by (simp add: terminated_def)
  show ?thesis
  proof (cases rr)
    case (Inl e)
    with ar g1 show ?thesis by (simp add: dispatch_one_def Let_def)
  next
    case (Inr r)
    define a where "a = \<lparr>attempt_id = deterministic_delivery_id sha ''attempt'' (JObj
          [(''message_id'', JStr (message_id m)),
           (''attempt_number'', JNum (show_int (int (length (attempts_of s (message_id m))) + 1))),
           (''attempted_at'', JStr (isoformat now))]),
        at_message_id = message_id m, at_channel = channel m, attempted_at = now,
        at_number = int (length (attempts_of s (message_id m))) + 1, sender_name = name (sender_for orc (channel m)),
        outcome = sr_outcome r, at_reason_code = sr_reason r, response_reference = sr_response r\<rparr>"
    have "\<not> may_send orc (at_channel a) \<Longrightarrow> outcome a \<noteq> SENT"
      using attempt_result_gate(2) [of orc m hmac s r] ar Inr by (simp add: a_def)
    then have g2: "good hmac orc s1 (snd (append_attempt s1 a))"
      using t1 by (intro append_attempt_good) (simp_all add: a_def)
    obtain ra s2 where aa: "append_attempt s1 a = (ra, s2)" by force
    have "snd (dispatch_one sha hmac orc s m now) = (case ra of Inl _ \<Rightarrow> s2
        | Inr _ \<Rightarrow> (case outcome_event (for_channel (o_policy orc) (channel m)) (message_id m) now (at_number a) r of
            Inl _ \<Rightarrow> s2 | Inr ev \<Rightarrow> snd (append_new_event sha s2 ev)))"
      using aa by (auto simp: dispatch_one_def Let_def ar Inr a_def split: sum.split prod.split)
    moreover have "good hmac orc s s2" using g1 g2 aa good_trans by force
    ultimately show ?thesis
      by (auto split: sum.split intro: good_trans [OF _ append_new_event_good])
  qed
qed

lemma is_due_not_terminated: "is_due s mid now \<Longrightarrow> \<not> terminated s mid"
  by (auto simp: is_due_def Let_def terminated_def events_of_def split: if_splits)

lemma dispatch_loop_good: "good hmac orc s (snd (dispatch_loop sha hmac orc now ms acc s))"
proof (induction sha hmac orc now ms acc s rule: dispatch_loop.induct)
  case (2 sha hmac orc now m ms acc s)
  show ?case
  proof (cases "is_due s (message_id m) now")
    case True
    have g: "good hmac orc s (snd (dispatch_one sha hmac orc s m now))"
      by (rule dispatch_one_good [OF is_due_not_terminated [OF True]])
    obtain ra s1 where d: "dispatch_one sha hmac orc s m now = (ra, s1)" by force
    show ?thesis
    proof (cases ra)
      case (Inl e)
      with True d g show ?thesis by simp
    next
      case (Inr a)
      with True d g 2(2) show ?thesis by (auto intro: good_trans)
    qed
  qed (use 2(1) in simp)
qed simp

lemma enqueue_good: "good hmac orc s (snd (enqueue sha hmac orc s mid aid fp ch dst pl tm))"
proof -
  have app: "good hmac orc s s1 \<Longrightarrow> append_new_event sha s1 ev = (r, s2) \<Longrightarrow> good hmac orc s s2" for s1 ev r s2
    using append_new_event_good [of hmac orc s1 sha ev] by (auto intro: good_trans)
  have msg: "good hmac orc s s1"
    if "build_message sha hmac orc mid aid fp ch dst pl t = Inr m" "append_message s m = (r, s1)" for t m r s1
    using append_message_good [OF build_message_Inr(1) [OF that(1)], of s] that(2) by simp
  show ?thesis
    unfolding enqueue_def Let_def
    by (auto split: sum.split option.split prod.split intro: msg app)
qed

lemma acknowledge_good: "good hmac orc s (snd (acknowledge sha s mid who tm))"
  by (auto simp: acknowledge_def Let_def append_new_event_good split: sum.split option.split)

lemma escalate_one_good: "good hmac orc s (snd (escalate_one sha orc' now m s))"
proof -
  have app: "good hmac orc s s1 \<Longrightarrow> append_new_event sha s1 ev = (r, s2) \<Longrightarrow> good hmac orc s s2" for s1 ev r s2
    using append_new_event_good [of hmac orc s1 sha ev] by (auto intro: good_trans)
  show ?thesis
    unfolding escalate_one_def Let_def
    by (auto split: sum.split option.split prod.split intro: app [OF good_refl] app [OF app [OF good_refl]])
qed

lemma escalate_loop_good: "good hmac orc s (snd (escalate_loop sha orc' now ms acc s))"
proof (induction sha orc' now ms acc s rule: escalate_loop.induct)
  case (2 sha orc' now m ms acc s)
  have g: "good hmac orc s (snd (escalate_one sha orc' now m s))" by (rule escalate_one_good)
  obtain ra s1 where d: "escalate_one sha orc' now m s = (ra, s1)" by force
  show ?case
  proof (cases ra)
    case (Inl e)
    with d g show ?thesis by simp
  next
    case (Inr es)
    with d g 2 show ?thesis by (auto intro: good_trans)
  qed
qed simp

lemma delivery_step_good: "good hmac orc s (delivery_step sha hmac orc s x)"
  by (cases x)
    (auto simp: enqueue_good acknowledge_good dispatch_due_def dispatch_loop_good escalate_due_def
      escalate_loop_good split: sum.split)

interpretation outbox: evolving "delivery_step sha hmac orc" "store_ok hmac orc" "store_le orc"
  using delivery_step_good unfolding good_def by unfold_locales (auto intro: store_le_trans)

interpretation outbox_events: audit_log "delivery_step sha hmac orc" "store_ok hmac orc" events
  by unfold_locales (use delivery_step_good in \<open>auto simp: good_def store_le_def\<close>)

lemma empty_store_ok [simp]: "store_ok hmac orc empty_store"
  by (simp add: store_ok_def empty_store_def)


section \<open>Properties\<close>

definition run_outbox ::
  "(string \<Rightarrow> string) \<Rightarrow> (string \<Rightarrow> string \<Rightarrow> string) \<Rightarrow> orchestrator \<Rightarrow> delivery_op list \<Rightarrow> store" where
  "run_outbox sha hmac orc ops = foldl (delivery_step sha hmac orc) empty_store ops"

lemma run_outbox_ok: "store_ok hmac orc (run_outbox sha hmac orc ops)"
  unfolding run_outbox_def by (rule outbox.run_inv) simp

lemma run_outbox_le:
  "store_le orc (run_outbox sha hmac orc ops) (run_outbox sha hmac orc (ops @ later))"
  unfolding run_outbox_def by (rule outbox.run_rel_from [OF empty_store_ok])

definition example_policy :: channel_policy where
  "example_policy = \<lparr>cp_channel = MOBILE, enabled = True, opted_in = True, authorization_id = Some ''ticket'',
     allow_network = False, cooldown = minutes 5, max_attempts = 3, base_backoff = seconds 5,
     max_backoff = minutes 2, require_ack = False, ack_timeout = minutes 2, max_escalations = 0\<rparr>"

definition example_orc :: orchestrator where
  "example_orc = \<lparr>o_policy = \<lparr>dp_version = ''v1'', channels = [(MOBILE, example_policy)]\<rparr>,
     signing_key = ''k'', senders = [(MOBILE, scripted_sender MOBILE
       [\<lparr>sr_outcome = TRANSIENT_FAILURE, sr_reason = None, sr_response = None\<rparr>])], network_authorized = False\<rparr>"

definition example_enqueue :: delivery_op where
  "example_enqueue = Enqueue ''m1'' ''a1'' ''fp'' MOBILE ''desk'' [(''z'', JNum ''1''), (''a'', JNull)] (Aware (minutes 1))"

definition example_webhook :: delivery_op where
  "example_webhook = Enqueue ''m2'' ''a1'' ''fp'' WEBHOOK ''desk'' [] (Aware (minutes 1))"

definition id_sha :: "string \<Rightarrow> string" where "id_sha s = s"
definition id_hmac :: "string \<Rightarrow> string \<Rightarrow> string" where "id_hmac k s = s"

text \<open>C13. A channel that is not enabled, not opted in or not authorised, or whose sender needs a
  network that was not authorised, is silent: along every history of the outbox its sender is never
  called and no attempt on it is recorded as sent.\<close>

theorem gated_channel_silent:
  assumes "\<not> (delivery_enabled (for_channel (o_policy orc) c)
     \<and> (network_capable (sender_for orc c) \<longrightarrow> network_authorized orc \<and> allow_network (for_channel (o_policy orc) c)))"
  shows "calls (run_outbox sha hmac orc ops) c = 0
    \<and> (\<forall>a \<in> set (attempts (run_outbox sha hmac orc ops)). at_channel a = c \<longrightarrow> outcome a \<noteq> SENT)"
proof -
  have gate: "\<not> may_send orc c" using assms by (simp add: may_send_def)
  have "store_le orc empty_store (run_outbox sha hmac orc ops)"
    using run_outbox_le [of orc sha hmac "[]" ops] by (simp add: run_outbox_def)
  with gate have "calls (run_outbox sha hmac orc ops) c = 0" by (simp add: store_le_def empty_store_def)
  moreover have "store_ok hmac orc (run_outbox sha hmac orc ops)" by (rule run_outbox_ok)
  ultimately show ?thesis using gate by (auto simp: store_ok_def)
qed

theorem gated_channel_silent_witness:
  "calls (run_outbox id_sha id_hmac example_orc [example_webhook, Dispatch (Aware (minutes 2))]) WEBHOOK = 0"
proof -
  have "\<not> delivery_enabled (for_channel (o_policy example_orc) WEBHOOK)"
    by (simp add: delivery_enabled_def for_channel_def example_orc_def default_channel_policy_def)
  with gated_channel_silent [of example_orc WEBHOOK id_sha id_hmac] show ?thesis by blast
qed

text \<open>Once a message has been suppressed, disabled, dead-lettered or acknowledged, no later
  history makes another delivery attempt for it, and its events and attempts stay in the log.\<close>

theorem settled_message_not_retried:
  fixes later :: "delivery_op list"
  assumes "\<exists>e \<in> set (events s). ev_message_id e = mid
      \<and> kind e \<in> {SUPPRESSED, DELIVERY_DISABLED, DEAD_LETTERED, ACKNOWLEDGED}"
    and s: "s = run_outbox sha hmac orc ops"
  shows "filter (\<lambda>a. at_message_id a = mid) (attempts (run_outbox sha hmac orc (ops @ later)))
       = filter (\<lambda>a. at_message_id a = mid) (attempts s)
   \<and> prefix (events s) (events (run_outbox sha hmac orc (ops @ later)))
   \<and> prefix (attempts s) (attempts (run_outbox sha hmac orc (ops @ later)))
   \<and> prefix (messages s) (messages (run_outbox sha hmac orc (ops @ later)))"
proof -
  have "terminated s mid" using assms(1) by (auto simp: terminated_def terminal_def)
  with run_outbox_le [of orc sha hmac ops later] s show ?thesis
    by (simp add: store_le_def attempts_on_def)
qed

lemma run_webhook_events:
  "map (\<lambda>e. (ev_message_id e, kind e)) (events (run_outbox id_sha id_hmac example_orc [example_webhook]))
     = [(''m2'', DELIVERY_DISABLED)]"
  by (simp add: run_outbox_def example_webhook_def enqueue_def empty_store_def strip_def lstrip_def is_space_def
      destination_ok_def dest_alnum_def get_message_def latest_message_for_dedupe_def Let_def build_message_def
      for_channel_def example_orc_def default_channel_policy_def sign_outbox_content_def append_message_def
      delivery_enabled_def append_new_event_def append_event_def bare_event_def)

theorem settled_message_not_retried_witness:
  "filter (\<lambda>a. at_message_id a = ''m2'')
     (attempts (run_outbox id_sha id_hmac example_orc ([example_webhook] @ [Dispatch (Aware (minutes 2))])))
   = filter (\<lambda>a. at_message_id a = ''m2'') (attempts (run_outbox id_sha id_hmac example_orc [example_webhook]))"
proof -
  have "\<exists>e \<in> set (events (run_outbox id_sha id_hmac example_orc [example_webhook])).
      (ev_message_id e, kind e) = (''m2'', DELIVERY_DISABLED)"
    using run_webhook_events by (metis (no_types, lifting) imageE list.set_intros(1) list.set_map)
  then have "\<exists>e \<in> set (events (run_outbox id_sha id_hmac example_orc [example_webhook])). ev_message_id e = ''m2''
      \<and> kind e \<in> {SUPPRESSED, DELIVERY_DISABLED, DEAD_LETTERED, ACKNOWLEDGED}" by auto
  from settled_message_not_retried [OF this refl] show ?thesis by blast
qed

text \<open>Every message in the outbox carries a signature that verifies: along every history,
  checking the signature of a stored message answers true, although the row was written to and read
  back from JSON with its keys sorted.\<close>

theorem stored_messages_verify:
  assumes "get_message (run_outbox sha hmac orc ops) mid = Some m"
  shows "verify_signature hmac orc (run_outbox sha hmac orc ops) mid = Inr True \<and> message_id m = mid"
proof -
  have "m \<in> set (messages (run_outbox sha hmac orc ops)) \<and> message_id m = mid"
    using assms unfolding get_message_def by (rule find_key_Some)
  with run_outbox_ok [of hmac orc sha ops] assms show ?thesis
    by (simp add: store_ok_def verify_signature_def)
qed

lemma enqueued_row:
  "\<exists>m. get_message (run_outbox id_sha id_hmac example_orc [example_enqueue]) ''m1'' = Some m
     \<and> payload m = [(''a'', JNull), (''z'', JNum ''1'')]"
  by (simp add: run_outbox_def example_enqueue_def enqueue_def empty_store_def strip_def lstrip_def is_space_def
      destination_ok_def dest_alnum_def get_message_def latest_message_for_dedupe_def Let_def build_message_def
      for_channel_def example_orc_def example_policy_def sign_outbox_content_def append_message_def
      delivery_enabled_def authorized_def append_new_event_def append_event_def bare_event_def message_row_def
      del: signing_content_signature)

theorem stored_messages_verify_witness:
  "verify_signature id_hmac example_orc (run_outbox id_sha id_hmac example_orc [example_enqueue]) ''m1'' = Inr True"
  using enqueued_row stored_messages_verify by blast

lemma opt_json_inj: "opt_json u = opt_json v \<longleftrightarrow> u = v"
  by (cases u; cases v) (simp_all add: opt_json_def)

lemma channel_value_inj: "channel_value c = channel_value d \<longleftrightarrow> c = d"
  by (cases c; cases d) simp_all

lemma sort_obj_inj:
  assumes "map fst xs = map fst ys" and "distinct (map fst xs)" and "sort_key fst xs = sort_key fst ys"
  shows "xs = ys"
proof -
  from assms(3) have "set xs = set ys" by (metis set_sort)
  with assms(1,2) show ?thesis by (intro alist_eq_by_keys)
qed

text \<open>An object literal with distinct keys and canonical values becomes canonical by sorting.\<close>

lemma sorted_object:
  assumes "distinct (map fst kvs)" and "\<And>k v. (k, v) \<in> set kvs \<Longrightarrow> canonical v"
  shows "sort_json (JObj kvs) = JObj (sort_key fst kvs)" and "canonical (sort_json (JObj kvs))"
proof -
  have "map (\<lambda>(k, v). (k, sort_json v)) kvs = kvs"
    using assms(2) by (intro map_idI) (auto simp: sort_json_canonical)
  then show *: "sort_json (JObj kvs) = JObj (sort_key fst kvs)" by simp
  show "canonical (sort_json (JObj kvs))"
    unfolding * canonical.simps distinct_sort_key using assms by (auto simp: list_all_iff)
qed

definition signing_fields :: "outbox_message \<Rightarrow> (string \<times> json) list" where
  "signing_fields m =
     [(''message_id'', JStr (message_id m)), (''alert_id'', JStr (alert_id m)),
      (''fingerprint'', JStr (fingerprint m)), (''channel'', JStr (channel_value (channel m))),
      (''destination_reference'', JStr (destination_reference m)), (''payload'', JObj (payload m)),
      (''created_at'', JStr (isoformat (created_at m))), (''dedupe_key'', JStr (dedupe_key m)),
      (''policy_version'', JStr (policy_version m)),
      (''authorization_reference_hash'', opt_json (authorization_reference_hash m)),
      (''run_mode'', JStr ''SCENARIO'')]"

lemma signing_fields_eqD:
  assumes "signing_fields m = signing_fields m'" and "0 \<le> created_at m" and "0 \<le> created_at m'"
    and "signature m = signature m'"
  shows "m = m'"
proof -
  have "isoformat (created_at m) = isoformat (created_at m')" using assms(1) by (simp add: signing_fields_def)
  from isoformat_inj [OF assms(2,3) this] assms(1,4) show ?thesis
    by (intro outbox_message.equality) (simp_all add: signing_fields_def channel_value_inj opt_json_inj)
qed

lemma canonical_opt_json [simp]: "canonical (opt_json v)"
  by (simp add: opt_json_def split: option.split)

text \<open>A signature fixes what it signs: two messages with JSON payloads in canonical form that
  verify under one key and carry the same signature agree in every field, as long as the keyed
  digest has no collision.  (Instants are nonnegative, as every \<open>datetime\<close> is.)\<close>

theorem signature_binds_message:
  assumes inj: "inj (hmac key)" and can: "canonical (JObj (payload m))" "canonical (JObj (payload m'))"
    and ver: "verify_outbox_message hmac m key = Inr True" "verify_outbox_message hmac m' key = Inr True"
    and same: "signature m = signature m'" and t: "0 \<le> created_at m" "0 \<le> created_at m'"
  shows "m = m'"
proof -
  have content: "signing_content x = JObj (signing_fields x)" for x
    by (simp add: signing_content_def signing_fields_def)
  have keys: "map fst (signing_fields x) = map fst (signing_fields y)" "distinct (map fst (signing_fields x))" for x y
    by (simp_all add: signing_fields_def)
  have vals: "(k, v) \<in> set (signing_fields x) \<Longrightarrow> canonical v" if "canonical (JObj (payload x))" for k v x
    using that by (auto simp: signing_fields_def)
  have srt: "sort_json (JObj (signing_fields x)) = JObj (sort_key fst (signing_fields x))"
      "canonical (JObj (sort_key fst (signing_fields x)))" if "canonical (JObj (payload x))" for x
    using sorted_object [OF keys(2) vals [OF that], of x] by simp_all
  have "render (sort_json (signing_content m)) = render (sort_json (signing_content m'))"
    using ver same inj by (auto simp: verify_outbox_message_def sign_outbox_content_def inj_eq split: if_splits)
  then have "JObj (sort_key fst (signing_fields m)) = JObj (sort_key fst (signing_fields m'))"
    unfolding content srt(1) [OF can(1)] srt(1) [OF can(2)]
    using render_inj [OF srt(2) [OF can(1)] srt(2) [OF can(2)]] by (rule iffD1 [rotated])
  then have "sort_key fst (signing_fields m) = sort_key fst (signing_fields m')" by (rule json.inject(5) [THEN iffD1])
  from sort_obj_inj [OF keys this] show ?thesis by (rule signing_fields_eqD [OF _ t same])
qed

definition example_message :: outbox_message where
  "example_message = (let m = \<lparr>message_id = ''m1'', alert_id = ''a1'', fingerprint = ''fp'', channel = EMAIL,
      destination_reference = ''desk'', payload = [(''a'', JNull)], created_at = 5, dedupe_key = ''k'',
      signature = [], policy_version = ''v1'', authorization_reference_hash = None\<rparr>
    in m\<lparr>signature := ''hmac-sha256:'' @ render (sort_json (signing_content m))\<rparr>)"

theorem signature_binds_message_witness:
  "verify_outbox_message id_hmac example_message ''k'' = Inr True
   \<and> verify_outbox_message id_hmac (example_message\<lparr>payload := [(''a'', JBool True)]\<rparr>) ''k'' \<noteq> Inr True"
proof -
  have inj: "inj (id_hmac ''k'')" by (simp add: inj_def id_hmac_def)
  have v: "verify_outbox_message id_hmac example_message ''k'' = Inr True"
    by (simp add: verify_outbox_message_def sign_outbox_content_def example_message_def Let_def id_hmac_def
        signing_content_def del: sort_json.simps)
  have c: "canonical (JObj (payload example_message))"
    "canonical (JObj (payload (example_message\<lparr>payload := [(''a'', JBool True)]\<rparr>)))"
    by (simp_all add: example_message_def Let_def canonical.simps)
  have p: "payload example_message = [(''a'', JNull)]" by (simp add: example_message_def Let_def)
  have t: "0 \<le> created_at example_message" by (simp add: example_message_def Let_def)
  have "example_message \<noteq> example_message\<lparr>payload := [(''a'', JBool True)]\<rparr>"
    using p by (metis json.distinct(1) list.inject outbox_message.select_convs(6) outbox_message.surjective
        outbox_message.update_convs(6) prod.inject)
  with signature_binds_message [OF inj c v] v t show ?thesis by auto
qed


lemma sorted_le_last: "sorted xs \<Longrightarrow> x \<in> set xs \<Longrightarrow> x \<le> last xs"
  by (induction xs) auto

lemma latest_Some:
  assumes "latest_message_for_dedupe s k = Some q"
  shows "q \<in> set (messages s)" and "dedupe_key q = k"
    and "\<And>m. m \<in> set (messages s) \<Longrightarrow> dedupe_key m = k \<Longrightarrow> created_at m \<le> created_at q"
proof -
  define f where "f = (\<lambda>m :: outbox_message. (created_at m, message_id m))"
  let ?ms = "sort_key f (filter (\<lambda>m. dedupe_key m = k) (messages s))"
  have ne: "?ms \<noteq> []" and q: "q = last ?ms"
    using assms by (auto simp: latest_message_for_dedupe_def Let_def f_def split: if_splits)
  have "q \<in> set (filter (\<lambda>m. dedupe_key m = k) (messages s))"
    using last_in_set [OF ne] unfolding q [symmetric] set_sort .
  then show "q \<in> set (messages s)" "dedupe_key q = k" by auto
  fix m assume "m \<in> set (messages s)" "dedupe_key m = k"
  then have "f m \<in> set (map f ?ms)" by simp
  moreover have "sorted (map f ?ms)" by simp
  moreover have "last (map f ?ms) = f q" using ne q by (simp add: last_map)
  ultimately have "f m \<le> f q" using sorted_le_last by metis
  then show "created_at m \<le> created_at q" by (auto simp: f_def)
qed

lemma latest_exists:
  assumes "m \<in> set (messages s)" and "dedupe_key m = k"
  shows "latest_message_for_dedupe s k \<noteq> None"
proof -
  have "filter (\<lambda>m. dedupe_key m = k) (messages s) \<noteq> []" using assms by (auto simp: filter_empty_conv)
  then have "sort_key (\<lambda>m. (created_at m, message_id m)) (filter (\<lambda>m. dedupe_key m = k) (messages s)) \<noteq> []"
    by (metis length_0_conv length_sort)
  then show ?thesis by (simp add: latest_message_for_dedupe_def Let_def)
qed

text \<open>A retry is scheduled within the policy: for a channel policy that passed validation, the
  event of a transient failure that schedules a retry does so for the next attempt number, within
  the attempt budget, between the base and the maximum back-off from now; and without overflow
  every failed attempt below the budget schedules one.\<close>

theorem retry_within_policy:
  assumes valid: "mk_channel_policy p0 = Inr p" and r: "sr_outcome r = TRANSIENT_FAILURE" and n: "1 \<le> n"
    and fits: "base_backoff p * 2 ^ nat (n - 1) \<le> timedelta_max"
  shows "\<exists>e. outcome_event p mid now n r = Inr e \<and> ev_message_id e = mid
    \<and> (if n < max_attempts p
       then kind e = RETRY_SCHEDULED \<and> attempt_number e = Some (n + 1) \<and> n + 1 \<le> max_attempts p
          \<and> (\<exists>t. next_attempt_at e = Some t \<and> now + base_backoff p \<le> t \<and> t \<le> now + max_backoff p)
       else kind e = DEAD_LETTERED \<and> next_attempt_at e = None)"
proof -
  have p: "0 < base_backoff p" "base_backoff p \<le> max_backoff p"
    using valid by (auto simp: mk_channel_policy_def split: if_splits)
  have d: "retry_delay p n = Inr (min (base_backoff p * 2 ^ nat (n - 1)) (max_backoff p))"
    unfolding retry_delay_def by (rule backoff_delay_ok [OF n p(1) fits])
  from backoff_delay_bounds [OF this [unfolded retry_delay_def] p] d show ?thesis
    by (auto simp: outcome_event_def r bare_event_def)
qed

theorem retry_within_policy_witness:
  "\<exists>e. outcome_event example_policy ''m1'' 0 2 \<lparr>sr_outcome = TRANSIENT_FAILURE, sr_reason = None, sr_response = None\<rparr> = Inr e
     \<and> kind e = RETRY_SCHEDULED"
proof -
  have v: "mk_channel_policy example_policy = Inr example_policy"
    by (simp add: mk_channel_policy_def example_policy_def authorized_def strip_def lstrip_def is_space_def
        minutes_def seconds_def)
  have f: "base_backoff example_policy * 2 ^ nat (2 - 1) \<le> timedelta_max"
    by (simp add: example_policy_def seconds_def timedelta_max_def day_us_def)
  have m: "max_attempts example_policy = 3" by (simp add: example_policy_def)
  from retry_within_policy [OF v _ _ f, of "\<lparr>sr_outcome = TRANSIENT_FAILURE, sr_reason = None, sr_response = None\<rparr>" "''m1''" 0]
  show ?thesis by (auto simp: m)
qed


lemma find_append_new: "List.find P xs = None \<Longrightarrow> P x \<Longrightarrow> List.find P (xs @ [x]) = Some x"
  by (induction xs) (auto split: if_splits)

lemma append_message_Inr:
  assumes "append_message s m = (Inr stored, s1)"
  shows "stored = message_row m" and "get_message s1 (message_id m) = Some stored"
    and "set (messages s1) \<subseteq> insert stored (set (messages s))" and "append_message s1 m = (Inr stored, s1)"
    and "get_message s (message_id m) \<noteq> None \<Longrightarrow> s1 = s"
proof -
  have *: "stored = message_row m" "get_message s1 (message_id m) = Some stored"
      "set (messages s1) \<subseteq> insert stored (set (messages s))" "get_message s (message_id m) \<noteq> None \<Longrightarrow> s1 = s"
    using assms by (auto simp: append_message_def get_message_def find_append_new split: option.splits if_splits)
  from * show "stored = message_row m" "get_message s1 (message_id m) = Some stored"
    "set (messages s1) \<subseteq> insert stored (set (messages s))" "get_message s (message_id m) \<noteq> None \<Longrightarrow> s1 = s"
    by blast+
  from *(1,2) show "append_message s1 m = (Inr stored, s1)" by (simp add: append_message_def)
qed

lemma append_event_messages [simp]: "messages (snd (append_new_event sha s e)) = messages s"
  unfolding append_new_event_def
  using append_event_cases [of s "e\<lparr>event_id := deterministic_delivery_id sha ''outbox-event'' (event_content e)\<rparr>"]
  by auto

lemma find_unique:
  "distinct (map f xs) \<Longrightarrow> p \<in> set xs \<Longrightarrow> List.find (\<lambda>x. f x = f p) xs = Some p"
  by (induction xs) (auto simp: image_iff)

lemma enqueue_Inr:
  assumes "enqueue sha hmac orc s mid aid fp ch dst pl tm = (Inr m, s')"
  obtains t m0 s1 where "tm = Aware t"
    and "first_blank [(''message_id'', mid), (''alert_id'', aid), (''fingerprint'', fp), (''destination_reference'', dst)] = None"
    and "destination_ok dst"
    and "\<And>p. latest_message_for_dedupe s (channel_value ch @ '':'' @ fp @ '':'' @ dst) = Some p \<Longrightarrow>
          message_id p \<noteq> mid \<Longrightarrow> created_at p \<le> t"
    and "build_message sha hmac orc mid aid fp ch dst pl t = Inr m0"
    and "append_message s m0 = (Inr m, s1)" and "messages s' = messages s1"
proof -
  from assms obtain t where t: "tm = Aware t" by (cases tm) (simp_all add: enqueue_def)
  note e = assms [unfolded enqueue_def Let_def t to_utc.simps sum.case]
  from e have b: "first_blank [(''message_id'', mid), (''alert_id'', aid), (''fingerprint'', fp), (''destination_reference'', dst)] = None"
    and d: "destination_ok dst"
    by (auto split: option.splits if_splits)
  let ?key = "channel_value ch @ '':'' @ fp @ '':'' @ dst"
  have reg: "created_at p \<le> t" if "latest_message_for_dedupe s ?key = Some p" "message_id p \<noteq> mid" for p
    using e that by (auto split: option.splits if_splits)
  obtain m0 where m0: "build_message sha hmac orc mid aid fp ch dst pl t = Inr m0"
    using e by (cases "build_message sha hmac orc mid aid fp ch dst pl t") (auto split: option.splits if_splits)
  obtain r s1 where a: "append_message s m0 = (r, s1)" by force
  have ev: "messages s2 = messages u" if "append_new_event sha u ev = (x, s2)" for u ev x s2
    using append_event_messages [of sha u ev] that by simp
  have "r = Inr m \<and> messages s' = messages s1"
    using e unfolding m0 a sum.case prod.case
    by (auto split: option.splits if_splits sum.splits prod.splits simp: ev)
  with a that [OF t b d reg m0] show thesis by simp
qed

text \<open>Enqueueing is idempotent: after a call that succeeded, in any state the outbox can reach,
  repeating it with the same arguments answers the same message and changes nothing.\<close>

theorem enqueue_idempotent:
  assumes call: "enqueue sha hmac orc s mid aid fp ch dst pl tm = (Inr m, s')"
    and s: "s = run_outbox sha hmac orc ops"
  shows "enqueue sha hmac orc s' mid aid fp ch dst pl tm = (Inr m, s')"
proof -
  let ?key = "channel_value ch @ '':'' @ fp @ '':'' @ dst"
  from call obtain t m0 s1 where tm: "tm = Aware t"
    and guards: "first_blank [(''message_id'', mid), (''alert_id'', aid), (''fingerprint'', fp), (''destination_reference'', dst)] = None"
      "destination_ok dst"
    and old: "\<And>p. latest_message_for_dedupe s ?key = Some p \<Longrightarrow> message_id p \<noteq> mid \<Longrightarrow> created_at p \<le> t"
    and m0: "build_message sha hmac orc mid aid fp ch dst pl t = Inr m0"
    and app: "append_message s m0 = (Inr m, s1)" and msgs: "messages s' = messages s1"
    by (rule enqueue_Inr) (rule that; assumption)
  note b = build_message_Inr(2,4) [OF m0] and a = append_message_Inr [OF app]
  have get: "get_message s' = get_message s1" using msgs by (simp add: get_message_def fun_eq_iff)
  have app': "append_message s' m0 = (Inr m, s')"
    using a(1,2) by (simp add: append_message_def get)
  have dist: "distinct (map message_id (messages s))"
    using run_outbox_ok [of hmac orc sha ops] by (simp add: s store_ok_def)
  have reg: "created_at q \<le> t"
    if q: "latest_message_for_dedupe s' ?key = Some q" "message_id q \<noteq> mid" for q
  proof -
    have "message_id m = mid" using a(1) b(1) by simp
    then have q_old: "q \<in> set (messages s)" "dedupe_key q = ?key"
      using latest_Some(1,2) [OF q(1)] q(2) a(3) msgs by auto
    then obtain p where p: "latest_message_for_dedupe s ?key = Some p" using latest_exists by blast
    have le: "created_at q \<le> created_at p" by (rule latest_Some(3) [OF p q_old])
    show ?thesis
    proof (cases "message_id p = mid")
      case False
      with old [OF p] le show ?thesis by simp
    next
      case True
      then have "get_message s mid = Some p"
        using find_unique [OF dist latest_Some(1) [OF p]] by (simp add: get_message_def)
      then have "p = m" using a(2,5) b(1) by simp
      with le a(1) b(2) show ?thesis by simp
    qed
  qed
  have "get_message s' mid = Some m" using a(2) b(1) get by simp
  moreover have "(case (case latest_message_for_dedupe s' ?key of
       Some p \<Rightarrow> if message_id p \<noteq> mid then Some (t - created_at p) else None | None \<Rightarrow> None) of
       None \<Rightarrow> False | Some d \<Rightarrow> d < 0) = False"
    using reg by (auto split: option.splits)
  ultimately show ?thesis
    using guards unfolding enqueue_def Let_def tm to_utc.simps sum.case m0 app' by simp
qed

theorem enqueue_idempotent_witness:
  "\<exists>m. fst (enqueue id_sha id_hmac example_orc (run_outbox id_sha id_hmac example_orc [example_webhook])
        ''m2'' ''a1'' ''fp'' WEBHOOK ''desk'' [] (Aware (minutes 1))) = Inr m"
proof -
  let ?s = "run_outbox id_sha id_hmac example_orc []"
  let ?r = "enqueue id_sha id_hmac example_orc ?s ''m2'' ''a1'' ''fp'' WEBHOOK ''desk'' [] (Aware (minutes 1))"
  have "\<exists>m. fst ?r = Inr m"
    by (simp add: run_outbox_def example_webhook_def enqueue_def empty_store_def strip_def lstrip_def is_space_def
        destination_ok_def dest_alnum_def get_message_def latest_message_for_dedupe_def Let_def build_message_def
        for_channel_def example_orc_def default_channel_policy_def sign_outbox_content_def append_message_def
        delivery_enabled_def append_new_event_def append_event_def bare_event_def)
  then obtain m where "?r = (Inr m, snd ?r)" by (metis prod.collapse)
  from enqueue_idempotent [OF this refl] show ?thesis
    by (simp add: run_outbox_def example_webhook_def)
qed

end
