(* ===== verification/PointInTime.thy ===== *)
theory PointInTime
  imports Snapshot Machine "HOL-Library.Product_Lexorder"
begin

text \<open>
  Point-in-time records with a content identity, replay manifests
  (\<open>domain/point_in_time.py\<close>), the in-memory ledger that holds the records and the clock that
  replays what was known at an instant (\<open>services/replay.py\<close>).  A number token that is read
  back from canonical content keeps its text.
\<close>

section \<open>Records\<close>

record pit_record =
  record_id :: string
  logical_key :: string
  published_at :: instant
  first_seen_at :: instant
  provider :: string
  provider_version :: string
  schema_version :: string
  content_hash :: string
  canonical_content :: string

definition identity_payload ::
  "string \<Rightarrow> instant \<Rightarrow> instant \<Rightarrow> string \<Rightarrow> string \<Rightarrow> string \<Rightarrow> string \<Rightarrow> (string, pyval) dict" where
  "identity_payload key pub seen prov pver schema ch =
     [(''logical_key'', PStr key), (''published_at'', PTime pub), (''first_seen_at'', PTime seen),
      (''provider'', PStr prov), (''provider_version'', PStr pver), (''schema_version'', PStr schema),
      (''content_hash'', PStr ch)]"

fun first_blank_name :: "(string \<times> string) list \<Rightarrow> string option" where
  "first_blank_name [] = None"
| "first_blank_name ((n, v) # rest) = (if strip v = [] then Some n else first_blank_name rest)"

definition pit_create ::
  "(string \<Rightarrow> string) \<Rightarrow> string \<Rightarrow> datetime \<Rightarrow> datetime \<Rightarrow> string \<Rightarrow> string \<Rightarrow> string
     \<Rightarrow> (string, pyval) dict \<Rightarrow> pit_record result" where
  "pit_create sha key pub_at seen_at prov pver schema cnt =
     res_bind (to_utc (PointInTimeError ''published_at must be timezone-aware'') pub_at) (\<lambda>pub.
     res_bind (to_utc (PointInTimeError ''first_seen_at must be timezone-aware'') seen_at) (\<lambda>seen.
       if pub > seen
       then Inl (PointInTimeError ''published_at must be less than or equal to first_seen_at'')
       else case first_blank_name [(''logical_key'', key), (''provider'', prov),
                 (''provider_version'', pver), (''schema_version'', schema)] of
         Some n \<Rightarrow> Inl (PointInTimeError (n @ '' must not be blank''))
       | None \<Rightarrow>
           let frozen = freeze_snapshot sha (PDict cnt)
           in Inr \<lparr>record_id = snapshot_id (freeze_snapshot sha (PDict
                     (identity_payload key pub seen prov pver schema (snapshot_id frozen)))),
                  logical_key = key, published_at = pub, first_seen_at = seen, provider = prov,
                  provider_version = pver, schema_version = schema,
                  content_hash = snapshot_id frozen, canonical_content = canonical_json frozen\<rparr>))"

definition pit_content :: "pit_record \<Rightarrow> (string, json) dict result" where
  "pit_content r = res_bind (loads (canonical_content r)) (\<lambda>j.
     case j of JObj kvs \<Rightarrow> Inr kvs | _ \<Rightarrow> Inl (PointInTimeError ''record content must decode to an object''))"

definition pit_verify :: "(string \<Rightarrow> string) \<Rightarrow> pit_record \<Rightarrow> unit result" where
  "pit_verify sha r =
     (if published_at r > first_seen_at r
      then Inl (PointInTimeError ''published_at must be less than or equal to first_seen_at'')
      else res_bind (pit_content r) (\<lambda>kvs.
        if snapshot_id (freeze_json sha (sort_json (JObj kvs))) \<noteq> content_hash r
        then Inl (PointInTimeError (''content hash mismatch for record '' @ record_id r))
        else if snapshot_id (freeze_snapshot sha (PDict (identity_payload (logical_key r) (published_at r)
               (first_seen_at r) (provider r) (provider_version r) (schema_version r) (content_hash r))))
             \<noteq> record_id r
        then Inl (PointInTimeError (''record identity mismatch for '' @ record_id r))
        else Inr ()))"

record manifest_entry =
  me_logical_key :: string
  me_record_id :: string
  me_content_hash :: string

definition entry_value :: "manifest_entry \<Rightarrow> pyval" where
  "entry_value e = PDict [(''logical_key'', PStr (me_logical_key e)), (''record_id'', PStr (me_record_id e)),
     (''content_hash'', PStr (me_content_hash e))]"

definition manifest_digest :: "(string \<Rightarrow> string) \<Rightarrow> instant \<Rightarrow> manifest_entry list \<Rightarrow> string" where
  "manifest_digest sha t es =
     snapshot_id (freeze_snapshot sha (PDict [(''as_of'', PTime t), (''entries'', PList (map entry_value es))]))"

record replay_manifest =
  rm_as_of :: instant
  rm_entries :: "manifest_entry list"
  manifest_hash :: string

definition entry_of :: "pit_record \<Rightarrow> manifest_entry" where
  "entry_of r = \<lparr>me_logical_key = logical_key r, me_record_id = record_id r, me_content_hash = content_hash r\<rparr>"

definition manifest_create :: "(string \<Rightarrow> string) \<Rightarrow> datetime \<Rightarrow> pit_record list \<Rightarrow> replay_manifest result" where
  "manifest_create sha tm rs =
     res_bind (to_utc (PointInTimeError ''as_of must be timezone-aware'') tm) (\<lambda>t.
       let es = map entry_of (sort_key logical_key rs)
       in Inr \<lparr>rm_as_of = t, rm_entries = es, manifest_hash = manifest_digest sha t es\<rparr>)"

definition verify_hash :: "(string \<Rightarrow> string) \<Rightarrow> replay_manifest \<Rightarrow> unit result" where
  "verify_hash sha m =
     (if manifest_digest sha (rm_as_of m) (rm_entries m) \<noteq> manifest_hash m
      then Inl (PointInTimeError ''replay manifest hash mismatch'') else Inr ())"

section \<open>The ledger and the replay clock\<close>

type_synonym ledger = "(string, pit_record) dict"

definition ledger_append :: "(string \<Rightarrow> string) \<Rightarrow> ledger \<Rightarrow> pit_record \<Rightarrow> ledger result" where
  "ledger_append sha l r =
     res_bind (pit_verify sha r) (\<lambda>_.
       case map_of l (record_id r) of
         Some old \<Rightarrow>
           if old \<noteq> r then Inl (PointInTimeError (''immutable record collision: '' @ record_id r))
           else Inr (AList.update (record_id r) r l)
       | None \<Rightarrow> Inr (AList.update (record_id r) r l))"

definition ledger_get :: "ledger \<Rightarrow> string \<Rightarrow> pit_record option" where
  "ledger_get l i = map_of l i"

definition ledger_records :: "ledger \<Rightarrow> pit_record list" where
  "ledger_records l = sort_key record_id (dict_values l)"

datatype replay_visibility = OBSERVED | AVAILABLE

fun visible_at :: "replay_visibility \<Rightarrow> pit_record \<Rightarrow> instant" where
  "visible_at OBSERVED r = first_seen_at r"
| "visible_at AVAILABLE r = published_at r"

definition revision_order :: "pit_record \<Rightarrow> instant \<times> instant \<times> string" where
  "revision_order r = (first_seen_at r, published_at r, record_id r)"

fun visible_loop ::
  "(string \<Rightarrow> string) \<Rightarrow> replay_visibility \<Rightarrow> instant \<Rightarrow> pit_record list \<Rightarrow> (string, pit_record) dict
     \<Rightarrow> (string, pit_record) dict result" where
  "visible_loop sha vis t [] latest = Inr latest"
| "visible_loop sha vis t (r # rs) latest =
     res_bind (pit_verify sha r) (\<lambda>_.
       if visible_at vis r > t then visible_loop sha vis t rs latest
       else if published_at r > first_seen_at r
       then Inl (PointInTimeError (''record '' @ record_id r @ '' was seen before it was published''))
       else visible_loop sha vis t rs
         (case map_of latest (logical_key r) of
            None \<Rightarrow> AList.update (logical_key r) r latest
          | Some cur \<Rightarrow> if revision_order r > revision_order cur
              then AList.update (logical_key r) r latest else latest))"

definition visible_records ::
  "(string \<Rightarrow> string) \<Rightarrow> ledger \<Rightarrow> replay_visibility \<Rightarrow> datetime \<Rightarrow> pit_record list result" where
  "visible_records sha l vis tm =
     res_bind (to_utc (PointInTimeError ''as_of must be timezone-aware'') tm) (\<lambda>t.
     res_bind (visible_loop sha vis t (ledger_records l) []) (\<lambda>latest.
       Inr (map (\<lambda>k. the (map_of latest k)) (sort (map fst latest)))))"

definition build_manifest :: "(string \<Rightarrow> string) \<Rightarrow> ledger \<Rightarrow> datetime \<Rightarrow> replay_manifest result" where
  "build_manifest sha l tm =
     res_bind (to_utc (PointInTimeError ''as_of must be timezone-aware'') tm) (\<lambda>t.
     res_bind (visible_records sha l OBSERVED (Aware t)) (\<lambda>rs. manifest_create sha (Aware t) rs))"

fun replay_loop ::
  "(string \<Rightarrow> string) \<Rightarrow> ledger \<Rightarrow> instant \<Rightarrow> (string, pit_record) dict \<Rightarrow> manifest_entry list
     \<Rightarrow> pit_record list \<Rightarrow> pit_record list result" where
  "replay_loop sha l t expected [] acc = Inr acc"
| "replay_loop sha l t expected (e # es) acc =
     (case ledger_get l (me_record_id e) of
        None \<Rightarrow> Inl (PointInTimeError (''manifest record is missing: '' @ me_record_id e))
      | Some r \<Rightarrow>
          res_bind (pit_verify sha r) (\<lambda>_.
            if first_seen_at r > t then Inl (PointInTimeError (''future record in manifest: '' @ me_record_id e))
            else if content_hash r \<noteq> me_content_hash e
            then Inl (PointInTimeError (''manifest content hash mismatch: '' @ me_record_id e))
            else if logical_key r \<noteq> me_logical_key e
            then Inl (PointInTimeError (''manifest logical key mismatch: '' @ me_record_id e))
            else if map_of expected (me_logical_key e) \<noteq> Some r
            then Inl (PointInTimeError (''manifest does not select the visible revision: '' @ me_logical_key e))
            else replay_loop sha l t expected es (acc @ [r])))"

definition replay :: "(string \<Rightarrow> string) \<Rightarrow> ledger \<Rightarrow> replay_manifest \<Rightarrow> pit_record list result" where
  "replay sha l m =
     res_bind (verify_hash sha m) (\<lambda>_.
     res_bind (visible_records sha l OBSERVED (Aware (rm_as_of m))) (\<lambda>vis.
       let expected = fold (\<lambda>r d. AList.update (logical_key r) r d) vis []
       in res_bind (replay_loop sha l (rm_as_of m) expected (rm_entries m) []) (\<lambda>replayed.
         if me_logical_key ` set (rm_entries m) \<noteq> fst ` set expected
         then Inl (PointInTimeError ''manifest is not a complete point-in-time view'')
         else Inr replayed)))"

fun append_all :: "(string \<Rightarrow> string) \<Rightarrow> ledger \<Rightarrow> pit_record list \<Rightarrow> unit result \<times> ledger" where
  "append_all sha l [] = (Inr (), l)"
| "append_all sha l (r # rs) =
     (case ledger_append sha l r of Inl e \<Rightarrow> (Inl e, l) | Inr l' \<Rightarrow> append_all sha l' rs)"

section \<open>Records are bound to their identity\<close>

lemma identity_payload_keys:
  "map fst (identity_payload a b c d e f g) = map fst (identity_payload a' b' c' d' e' f' g')"
  "distinct (map fst (identity_payload a b c d e f g))"
  by (simp_all add: identity_payload_def)

lemma canonical_identity: "canonical (to_json (PDict (identity_payload a b c d e f g)))"
  unfolding canonical_PDict by (auto simp: identity_payload_def)

lemma pit_verify_Inr:
  assumes "pit_verify sha r = Inr u"
  shows "published_at r \<le> first_seen_at r"
    and "record_id r = snapshot_id (freeze_snapshot sha (PDict (identity_payload (logical_key r) (published_at r)
       (first_seen_at r) (provider r) (provider_version r) (schema_version r) (content_hash r))))"
    and "\<exists>kvs. loads (canonical_content r) = Inr (JObj kvs)
       \<and> content_hash r = snapshot_id (freeze_json sha (sort_json (JObj kvs)))"
proof -
  show "published_at r \<le> first_seen_at r"
    using assms by (auto simp: pit_verify_def split: if_splits)
  show "record_id r = snapshot_id (freeze_snapshot sha (PDict (identity_payload (logical_key r) (published_at r)
       (first_seen_at r) (provider r) (provider_version r) (schema_version r) (content_hash r))))"
    using assms by (auto simp: pit_verify_def split: if_splits)
  show "\<exists>kvs. loads (canonical_content r) = Inr (JObj kvs)
       \<and> content_hash r = snapshot_id (freeze_json sha (sort_json (JObj kvs)))"
    using assms by (auto simp: pit_verify_def pit_content_def simp del: sort_json.simps split: if_splits json.splits)
qed

text \<open>All fields but the text of the content, which the content hash stands for.\<close>

lemma pit_identity:
  assumes inj: "inj sha" and "pit_verify sha r = Inr u" and "pit_verify sha s = Inr v"
    and "record_id r = record_id s"
    and t: "0 \<le> published_at r" "0 \<le> published_at s"
  shows "logical_key r = logical_key s" "published_at r = published_at s" "first_seen_at r = first_seen_at s"
    "provider r = provider s" "provider_version r = provider_version s"
    "schema_version r = schema_version s" "content_hash r = content_hash s"
proof -
  have seen: "0 \<le> first_seen_at r" "0 \<le> first_seen_at s"
    using t pit_verify_Inr(1) [OF assms(2)] pit_verify_Inr(1) [OF assms(3)] by linarith+
  have "map (to_json \<circ> snd) (identity_payload (logical_key r) (published_at r)
       (first_seen_at r) (provider r) (provider_version r) (schema_version r) (content_hash r))
     = map (to_json \<circ> snd) (identity_payload (logical_key s) (published_at s)
       (first_seen_at s) (provider s) (provider_version s) (schema_version s) (content_hash s))"
    using pit_verify_Inr(2) [OF assms(2)] pit_verify_Inr(2) [OF assms(3)] assms(4)
      freeze_id_eq_iff [OF inj canonical_identity canonical_identity]
      PDict_eq_iff [OF identity_payload_keys] by metis
  then show "logical_key r = logical_key s" "published_at r = published_at s" "first_seen_at r = first_seen_at s"
    "provider r = provider s" "provider_version r = provider_version s"
    "schema_version r = schema_version s" "content_hash r = content_hash s"
    using isoformat_inj [OF t] isoformat_inj [OF seen] by (simp_all add: identity_payload_def)
qed

lemma pit_create_fields:
  assumes "pit_create sha key pa sa prov pver schema cnt = Inr r"
  shows "logical_key r = key" "pa = Aware (published_at r)" "sa = Aware (first_seen_at r)"
    "provider r = prov" "provider_version r = pver" "schema_version r = schema"
  using assms by (auto simp: pit_create_def Let_def to_utc_Inr_iff split: if_splits option.splits)

lemma pit_create_verify:
  assumes "pit_create sha key pa sa prov pver schema cnt = Inr r" and "canonical (to_json (PDict cnt))"
  shows "pit_verify sha r = Inr ()" and "loads (canonical_content r) = Inr (to_json (PDict cnt))"
proof -
  from assms(1) have le: "published_at r \<le> first_seen_at r"
    and ch: "content_hash r = snapshot_id (freeze_snapshot sha (PDict cnt))"
    and cc: "canonical_content r = canonical_json (freeze_snapshot sha (PDict cnt))"
    and id: "record_id r = snapshot_id (freeze_snapshot sha (PDict (identity_payload (logical_key r) (published_at r)
       (first_seen_at r) (provider r) (provider_version r) (schema_version r) (content_hash r))))"
    by (auto simp: pit_create_def Let_def split: if_splits option.splits)
  show l: "loads (canonical_content r) = Inr (to_json (PDict cnt))"
    unfolding cc by (rule loads_freeze [OF assms(2)])
  obtain kvs where k: "to_json (PDict cnt) = JObj kvs" by (simp add: to_json.simps)
  have "snapshot_id (freeze_json sha (sort_json (JObj kvs))) = content_hash r"
    using sort_json_canonical [OF assms(2)] k ch by (simp add: freeze_snapshot_def)
  with le id l k show "pit_verify sha r = Inr ()"
    by (simp add: pit_verify_def pit_content_def del: sort_json.simps)
qed


section \<open>What the replay clock selects\<close>

definition best :: "pit_record set \<Rightarrow> pit_record \<Rightarrow> bool" where
  "best V r \<longleftrightarrow> r \<in> V \<and> (\<forall>s \<in> V. logical_key s = logical_key r \<longrightarrow> revision_order s \<le> revision_order r)"

definition represents :: "(string, pit_record) dict \<Rightarrow> pit_record set \<Rightarrow> bool" where
  "represents d V \<longleftrightarrow> dict_ok d \<and> (\<forall>k r. map_of d k = Some r \<longrightarrow> logical_key r = k \<and> best V r)
     \<and> (\<forall>r \<in> V. map_of d (logical_key r) \<noteq> None)"

lemma represents_Nil [simp]: "represents [] {}"
  by (simp add: represents_def)

lemma represents_insert:
  assumes rep: "represents d V"
  shows "represents (case map_of d (logical_key r) of
            None \<Rightarrow> AList.update (logical_key r) r d
          | Some cur \<Rightarrow> if revision_order r > revision_order cur
              then AList.update (logical_key r) r d else d) (insert r V)"
proof (cases "map_of d (logical_key r)")
  case None
  then have "\<forall>s \<in> V. logical_key s \<noteq> logical_key r" using rep by (auto simp: represents_def)
  with None rep show ?thesis by (auto simp: represents_def best_def)
next
  case (Some cur)
  have cur: "logical_key cur = logical_key r" "best V cur" using rep Some by (auto simp: represents_def)
  show ?thesis
  proof (cases "revision_order r > revision_order cur")
    case True
    have "best (insert r V) r"
      using cur True unfolding best_def by (metis insert_iff less_imp_le order_refl order_trans)
    moreover have "best (insert r V) s" if "map_of d k = Some s" "k \<noteq> logical_key r" for k s
      using rep that by (auto simp: represents_def best_def)
    ultimately show ?thesis
      using True Some rep by (auto simp: represents_def)
  next
    case False
    have "best (insert r V) s" if "map_of d k = Some s" for k s
      using rep that Some False by (fastforce simp: represents_def best_def not_less)
    with False Some rep show ?thesis by (auto simp: represents_def)
  qed
qed

lemma visible_loop_represents:
  assumes "visible_loop sha vis t rs d = Inr d'" and "represents d V"
  shows "represents d' (V \<union> {r \<in> set rs. visible_at vis r \<le> t})"
  using assms
proof (induction sha vis t rs d arbitrary: V rule: visible_loop.induct)
  case (2 sha vis t r rs latest)
  from 2(3) have v: "pit_verify sha r = Inr ()" by auto
  show ?case
  proof (cases "visible_at vis r > t")
    case True
    then have l: "visible_loop sha vis t rs latest = Inr d'" using 2(3) v by simp
    have "V \<union> {x \<in> set (r # rs). visible_at vis x \<le> t} = V \<union> {x \<in> set rs. visible_at vis x \<le> t}"
      using True by auto
    with 2(1) [OF True l 2(4)] show ?thesis by simp
  next
    case False
    let ?l = "case map_of latest (logical_key r) of
            None \<Rightarrow> AList.update (logical_key r) r latest
          | Some cur \<Rightarrow> if revision_order r > revision_order cur
              then AList.update (logical_key r) r latest else latest"
    have *: "\<not> published_at r > first_seen_at r" and l: "visible_loop sha vis t rs ?l = Inr d'"
      using 2(3) v False by (auto split: if_splits)
    have "insert r V \<union> {r \<in> set rs. visible_at vis r \<le> t} = V \<union> {x \<in> set (r # rs). visible_at vis x \<le> t}"
      using False by auto
    with 2(2) [OF False * l represents_insert [OF 2(4)]] show ?thesis by simp
  qed
qed simp

lemma visible_loop_ok:
  assumes "\<And>r. r \<in> set rs \<Longrightarrow> pit_verify sha r = Inr ()"
  shows "\<exists>d'. visible_loop sha vis t rs d = Inr d'"
  using assms
proof (induction rs arbitrary: d)
  case (Cons r rs)
  then have "pit_verify sha r = Inr ()" by simp
  moreover from this have "\<not> published_at r > first_seen_at r" using pit_verify_Inr(1) by (meson not_less)
  ultimately show ?case using Cons by auto
qed simp

text \<open>The selection as a relation between the visible records and the list returned.\<close>

definition selects :: "pit_record set \<Rightarrow> pit_record list \<Rightarrow> bool" where
  "selects V rs \<longleftrightarrow> sorted (map logical_key rs) \<and> distinct (map logical_key rs)
     \<and> (\<forall>r \<in> set rs. best V r) \<and> logical_key ` V = logical_key ` set rs"

lemma represents_selects:
  assumes "represents d V"
  shows "selects V (map (\<lambda>k. the (map_of d k)) (sort (map fst d)))"
proof -
  let ?rs = "map (\<lambda>k. the (map_of d k)) (sort (map fst d))"
  have get: "\<exists>r. map_of d k = Some r \<and> logical_key r = k \<and> best V r" if "k \<in> set (map fst d)" for k
    using that assms by (cases "map_of d k") (auto simp: represents_def map_of_eq_None_iff)
  then have "map logical_key ?rs = sort (map fst d)"
    unfolding map_map comp_def by (intro map_idI) fastforce
  moreover have "distinct (map fst d)" using assms by (simp add: represents_def dict_ok_def)
  moreover have "\<forall>r \<in> set ?rs. best V r" using get by fastforce
  moreover have "logical_key ` V = logical_key ` set ?rs"
  proof
    show "logical_key ` V \<subseteq> logical_key ` set ?rs"
    proof
      fix k assume "k \<in> logical_key ` V"
      then have "map_of d k \<noteq> None" using assms by (auto simp: represents_def)
      then have "k \<in> set (map fst d)" by (auto simp: map_of_eq_None_iff)
      moreover from this have "logical_key (the (map_of d k)) = k" using get by fastforce
      ultimately show "k \<in> logical_key ` set ?rs" by force
    qed
    show "logical_key ` set ?rs \<subseteq> logical_key ` V"
      using get by (fastforce simp: best_def)
  qed
  ultimately show ?thesis unfolding selects_def by simp
qed

lemma selects_unique:
  assumes rs: "selects V rs" and ss: "selects V ss" and inj: "inj_on record_id V"
  shows "rs = ss"
proof -
  have "map logical_key rs = map logical_key ss"
    using rs ss unfolding selects_def by (intro sorted_distinct_set_unique) auto
  moreover have "r = s" if "r \<in> set rs" "s \<in> set ss" "logical_key r = logical_key s" for r s
  proof -
    have "best V r" "best V s" using rs ss that(1,2) by (auto simp: selects_def)
    then have "revision_order r = revision_order s" "r \<in> V" "s \<in> V"
      using that(3) by (auto simp: best_def intro!: antisym)
    with inj show ?thesis by (auto simp: revision_order_def inj_on_def)
  qed
  ultimately show ?thesis
    by (intro nth_equalityI) (metis length_map, metis length_map nth_map nth_mem)
qed

definition visible_set :: "ledger \<Rightarrow> replay_visibility \<Rightarrow> instant \<Rightarrow> pit_record set" where
  "visible_set l vis t = {r \<in> set (dict_values l). visible_at vis r \<le> t}"

lemma visible_records_selects:
  assumes "visible_records sha l vis (Aware t) = Inr rs"
  shows "selects (visible_set l vis t) rs"
proof -
  from assms obtain d where d: "visible_loop sha vis t (ledger_records l) [] = Inr d"
    and rs: "rs = map (\<lambda>k. the (map_of d k)) (sort (map fst d))"
    by (auto simp: visible_records_def)
  have "represents d ({} \<union> {r \<in> set (ledger_records l). visible_at vis r \<le> t})"
    by (rule visible_loop_represents [OF d represents_Nil])
  then have "represents d (visible_set l vis t)" by (simp add: visible_set_def ledger_records_def)
  with rs show ?thesis by (simp only: represents_selects)
qed

section \<open>The ledger\<close>

definition ledger_ok :: "(string \<Rightarrow> string) \<Rightarrow> ledger \<Rightarrow> bool" where
  "ledger_ok sha l \<longleftrightarrow> dict_ok l \<and> (\<forall>i r. map_of l i = Some r \<longrightarrow> record_id r = i \<and> pit_verify sha r = Inr ())"

definition ledger_step :: "(string \<Rightarrow> string) \<Rightarrow> ledger \<Rightarrow> pit_record \<Rightarrow> ledger" where
  "ledger_step sha l r = snd (append_all sha l [r])"

lemma ledger_step_cases:
  obtains (same) "ledger_step sha l r = l"
  | (new) "pit_verify sha r = Inr ()" "map_of l (record_id r) = None \<or> map_of l (record_id r) = Some r"
      "map_of (ledger_step sha l r) = (map_of l)(record_id r \<mapsto> r)"
      "dict_ok l \<Longrightarrow> dict_ok (ledger_step sha l r)"
proof (cases "pit_verify sha r")
  case (Inr u)
  show thesis
  proof (cases "map_of l (record_id r) = None \<or> map_of l (record_id r) = Some r")
    case True
    with Inr have "ledger_step sha l r = AList.update (record_id r) r l"
      by (auto simp: ledger_step_def ledger_append_def)
    with Inr True new show thesis by simp
  next
    case False
    with Inr show thesis by (intro same) (auto simp: ledger_step_def ledger_append_def split: option.split)
  qed
qed (simp add: same ledger_step_def ledger_append_def)

lemma ledger_okD:
  assumes "ledger_ok sha l" and "map_of l i = Some r"
  shows "record_id r = i" and "pit_verify sha r = Inr ()"
  using assms unfolding ledger_ok_def by blast+

lemma ledger_step_ok:
  assumes ok: "ledger_ok sha l"
  shows "ledger_ok sha (ledger_step sha l r)"
proof (cases rule: ledger_step_cases [of sha l r])
  case new
  have "record_id s = i \<and> pit_verify sha s = Inr ()" if "map_of (ledger_step sha l r) i = Some s" for i s
    using that new(1) ledger_okD [OF ok] unfolding new(3) by (cases "i = record_id r") auto
  with new(4) ok show ?thesis unfolding ledger_ok_def by blast
qed (use ok in simp)

lemma ledger_step_le: "map_of l \<subseteq>\<^sub>m map_of (ledger_step sha l r)"
proof (cases rule: ledger_step_cases [of sha l r])
  case new
  then show ?thesis unfolding new(3) map_le_def by (metis domIff fun_upd_apply)
qed simp

interpretation pit_ledger: evolving "ledger_step sha" "ledger_ok sha" "\<lambda>l l'. map_of l \<subseteq>\<^sub>m map_of l'"
  by unfold_locales (auto intro: ledger_step_ok ledger_step_le map_le_trans)

lemma ledger_step_new:
  "map_of (foldl (ledger_step sha) l rs) i = Some r \<Longrightarrow> map_of l i = Some r \<or> r \<in> set rs"
proof (induction rs arbitrary: l)
  case (Cons x rs)
  then have "map_of (ledger_step sha l x) i = Some r \<or> r \<in> set rs" by simp
  then show ?case
  proof (cases rule: ledger_step_cases [of sha l x])
    case new
    then show ?thesis using \<open>map_of (ledger_step sha l x) i = Some r \<or> r \<in> set rs\<close>
      unfolding new(3) by (cases "i = record_id x") auto
  qed auto
qed simp

lemma ledger_values:
  assumes ok: "ledger_ok sha l"
  shows "r \<in> set (dict_values l) \<longleftrightarrow> map_of l (record_id r) = Some r"
proof -
  have "dict_ok l" using ok by (simp add: ledger_ok_def)
  then have "r \<in> set (dict_values l) \<longleftrightarrow> (\<exists>k. map_of l k = Some r)" by (rule dict_values_lookup)
  also have "\<dots> \<longleftrightarrow> map_of l (record_id r) = Some r" using ledger_okD(1) [OF ok] by blast
  finally show ?thesis .
qed

lemma ledger_visible_ok:
  assumes "ledger_ok sha l"
  shows "\<exists>rs. visible_records sha l vis (Aware t) = Inr rs"
proof -
  have "pit_verify sha r = Inr ()" if "r \<in> set (ledger_records l)" for r
    using that ledger_values [OF assms] ledger_okD(2) [OF assms] by (simp add: ledger_records_def)
  from visible_loop_ok [OF this] obtain d where "visible_loop sha vis t (ledger_records l) [] = Inr d" by blast
  then show ?thesis by (simp add: visible_records_def)
qed

lemma ledger_inj:
  assumes ok: "ledger_ok sha l"
  shows "inj_on record_id (visible_set l vis t)"
proof (rule inj_onI)
  fix r s assume "r \<in> visible_set l vis t" "s \<in> visible_set l vis t" "record_id r = record_id s"
  then have "map_of l (record_id r) = Some r" "map_of l (record_id r) = Some s"
    using ledger_values [OF ok] by (simp_all add: visible_set_def)
  then show "r = s" by simp
qed

lemma fold_update_lookup:
  "distinct (map logical_key rs) \<Longrightarrow>
     map_of (fold (\<lambda>r d. AList.update (logical_key r) r d) rs d) k
       = (case List.find (\<lambda>r. logical_key r = k) rs of Some r \<Rightarrow> Some r | None \<Rightarrow> map_of d k)"
proof (induction rs arbitrary: d)
  case (Cons r rs)
  show ?case
  proof (cases "logical_key r = k")
    case True
    with Cons.prems have "List.find (\<lambda>x. logical_key x = k) rs = None"
      unfolding find_None_iff by (metis distinct.simps(2) imageI list.set_map list.simps(9))
    with Cons True show ?thesis by simp
  next
    case False
    with Cons show ?thesis by (simp split: option.split)
  qed
qed simp

lemma find_by_key:
  "distinct (map logical_key rs) \<Longrightarrow> r \<in> set rs \<Longrightarrow> List.find (\<lambda>x. logical_key x = logical_key r) rs = Some r"
  by (induction rs) (auto simp: image_iff)

lemma replay_loop_ok:
  assumes "\<And>r. r \<in> set rs \<Longrightarrow> ledger_get l (record_id r) = Some r \<and> pit_verify sha r = Inr ()
      \<and> first_seen_at r \<le> t \<and> map_of expected (logical_key r) = Some r"
  shows "replay_loop sha l t expected (map entry_of rs) acc = Inr (acc @ rs)"
  using assms by (induction rs arbitrary: acc) (simp_all add: entry_of_def not_less)

lemma replay_manifest_of:
  assumes ok: "ledger_ok sha l" and vis: "visible_records sha l OBSERVED (Aware t) = Inr rs"
    and m: "manifest_create sha (Aware t) rs = Inr m"
  shows "replay sha l m = Inr rs"
proof -
  have sel: "selects (visible_set l OBSERVED t) rs" by (rule visible_records_selects [OF vis])
  then have srt: "sort_key logical_key rs = rs" and d: "distinct (map logical_key rs)"
    by (auto simp: selects_def intro: sort_key_id_if_sorted)
  then have m': "m = \<lparr>rm_as_of = t, rm_entries = map entry_of rs,
      manifest_hash = manifest_digest sha t (map entry_of rs)\<rparr>"
    using m by (simp add: manifest_create_def Let_def)
  define ex where "ex = fold (\<lambda>r d. AList.update (logical_key r) r d) rs []"
  have ex: "map_of ex (logical_key r) = Some r" if "r \<in> set rs" for r
    unfolding ex_def using that d by (simp add: fold_update_lookup find_by_key)
  have "fst ` set ex = dom (map_of ex)" by (simp add: dom_map_of_conv_image_fst)
  also have "\<dots> = logical_key ` set rs"
  proof (rule set_eqI)
    fix k
    have "k \<in> dom (map_of ex) \<longleftrightarrow> List.find (\<lambda>r. logical_key r = k) rs \<noteq> None"
      by (simp add: ex_def fold_update_lookup [OF d] dom_def split: option.split)
    also have "\<dots> \<longleftrightarrow> k \<in> logical_key ` set rs" by (auto simp: find_None_iff)
    finally show "k \<in> dom (map_of ex) \<longleftrightarrow> k \<in> logical_key ` set rs" .
  qed
  finally have keys: "fst ` set ex = logical_key ` set rs" .
  have entry: "ledger_get l (record_id r) = Some r \<and> pit_verify sha r = Inr ()
      \<and> first_seen_at r \<le> t \<and> map_of ex (logical_key r) = Some r" if "r \<in> set rs" for r
  proof -
    have "r \<in> visible_set l OBSERVED t" using sel that by (auto simp: selects_def best_def)
    then have "map_of l (record_id r) = Some r" "first_seen_at r \<le> t"
      using ledger_values [OF ok] by (auto simp: visible_set_def)
    with ledger_okD(2) [OF ok] ex [OF that] show ?thesis by (simp add: ledger_get_def)
  qed
  have "me_logical_key ` set (map entry_of rs) = logical_key ` set rs"
    by (force simp: entry_of_def)
  then show ?thesis
    by (simp add: replay_def verify_hash_def m' vis ex_def [symmetric] replay_loop_ok [OF entry] keys)
qed


section \<open>Properties\<close>

definition raw_sha :: "string \<Rightarrow> string" where "raw_sha s = s"

lemma inj_raw_sha [simp]: "inj raw_sha"
  by (simp add: inj_def raw_sha_def)

definition example_record :: "string \<Rightarrow> instant \<Rightarrow> pit_record" where
  "example_record v t = projr (pit_create raw_sha ''spx'' (Aware t) (Aware t) ''p'' v ''1'' [(''px'', PInt 1)])"

lemma example_create:
  "strip v \<noteq> [] \<Longrightarrow>
     pit_create raw_sha ''spx'' (Aware t) (Aware t) ''p'' v ''1'' [(''px'', PInt 1)] = Inr (example_record v t)"
  by (simp add: example_record_def pit_create_def Let_def strip_def lstrip_def is_space_def)

lemma example_record_fields:
  "strip v \<noteq> [] \<Longrightarrow> logical_key (example_record v t) = ''spx'' \<and> published_at (example_record v t) = t
     \<and> first_seen_at (example_record v t) = t \<and> provider_version (example_record v t) = v
     \<and> pit_verify raw_sha (example_record v t) = Inr ()"
  using pit_create_verify(1) [OF example_create [of v t]] pit_create_fields [OF example_create [of v t]]
  by (simp add: canonical_PDict)

lemma plain_strip: "strip ''v1'' = ''v1''" "strip ''v2'' = ''v2''"
  by (simp_all add: strip_def lstrip_def is_space_def)

text \<open>C5. A replay sees no future: what the clock returns at an instant are records of the ledger
  that were visible by then, one per logical key in key order, each the latest such revision of its
  key, and no visible key is missing.\<close>

theorem replay_sees_no_future:
  assumes "visible_records sha l vis (Aware t) = Inr rs"
  shows "sorted (map logical_key rs) \<and> distinct (map logical_key rs)
   \<and> (\<forall>r \<in> set rs. r \<in> set (dict_values l) \<and> visible_at vis r \<le> t
        \<and> (\<forall>s \<in> set (dict_values l). visible_at vis s \<le> t \<longrightarrow> logical_key s = logical_key r
             \<longrightarrow> (first_seen_at s, published_at s, record_id s) \<le> (first_seen_at r, published_at r, record_id r)))
   \<and> logical_key ` {r \<in> set (dict_values l). visible_at vis r \<le> t} = logical_key ` set rs"
  using visible_records_selects [OF assms]
  unfolding selects_def best_def visible_set_def revision_order_def by simp

definition example_ledger :: ledger where
  "example_ledger = foldl (ledger_step raw_sha) [] [example_record ''v1'' 10, example_record ''v2'' 20]"

lemma example_ledger_ok: "ledger_ok raw_sha example_ledger"
  unfolding example_ledger_def by (rule pit_ledger.run_inv) (simp add: ledger_ok_def)

theorem replay_sees_no_future_witness:
  "\<exists>rs. visible_records raw_sha example_ledger OBSERVED (Aware 15) = Inr rs
     \<and> (\<forall>r \<in> set rs. first_seen_at r \<le> 15)"
proof -
  obtain rs where rs: "visible_records raw_sha example_ledger OBSERVED (Aware 15) = Inr rs"
    using ledger_visible_ok [OF example_ledger_ok] by blast
  from replay_sees_no_future [OF rs] rs show ?thesis by auto
qed

text \<open>C36. A replay is reproducible: from any history of appends, the clock always builds a manifest;
  replaying it returns the records it was built from; and after any later appends of records first
  seen after the replay time, the same manifest is built again and replays to the same records.\<close>

theorem manifest_replay_reproducible:
  fixes later :: "pit_record list"
  assumes l: "l = foldl (ledger_step sha) [] history" and later: "\<forall>r \<in> set later. t < first_seen_at r"
  defines "l' \<equiv> foldl (ledger_step sha) l later"
  shows "\<exists>m rs. build_manifest sha l (Aware t) = Inr m \<and> replay sha l m = Inr rs
     \<and> visible_records sha l OBSERVED (Aware t) = Inr rs
     \<and> build_manifest sha l' (Aware t) = Inr m \<and> replay sha l' m = Inr rs"
proof -
  have ok: "ledger_ok sha l" unfolding l by (rule pit_ledger.run_inv) (simp add: ledger_ok_def)
  have ok': "ledger_ok sha l'" unfolding l'_def using ok by (rule pit_ledger.run_inv)
  have le: "map_of l \<subseteq>\<^sub>m map_of l'" unfolding l'_def using ok by (rule pit_ledger.run_rel)
  obtain rs where rs: "visible_records sha l OBSERVED (Aware t) = Inr rs" using ledger_visible_ok [OF ok] by blast
  obtain rs' where rs': "visible_records sha l' OBSERVED (Aware t) = Inr rs'" using ledger_visible_ok [OF ok'] by blast
  have "r \<in> visible_set l' OBSERVED t \<longleftrightarrow> r \<in> visible_set l OBSERVED t" for r
  proof
    assume "r \<in> visible_set l OBSERVED t"
    then show "r \<in> visible_set l' OBSERVED t"
      using le ledger_values [OF ok] ledger_values [OF ok'] by (auto simp: visible_set_def map_le_def dom_def)
  next
    assume "r \<in> visible_set l' OBSERVED t"
    then have r: "map_of l' (record_id r) = Some r" "first_seen_at r \<le> t"
      using ledger_values [OF ok'] by (auto simp: visible_set_def)
    then have "map_of l (record_id r) = Some r" using ledger_step_new later unfolding l'_def by fastforce
    with r(2) show "r \<in> visible_set l OBSERVED t" using ledger_values [OF ok] by (simp add: visible_set_def)
  qed
  then have "visible_set l' OBSERVED t = visible_set l OBSERVED t" by blast
  then have same: "rs' = rs"
    using selects_unique [OF visible_records_selects [OF rs'] _ ledger_inj [OF ok']] visible_records_selects [OF rs] by simp
  obtain m where m: "manifest_create sha (Aware t) rs = Inr m" by (simp add: manifest_create_def Let_def)
  with rs rs' same show ?thesis
    using replay_manifest_of [OF ok rs m] replay_manifest_of [OF ok' rs' m [folded same]]
    by (auto simp: build_manifest_def)
qed

theorem manifest_replay_reproducible_witness:
  "\<exists>m rs. build_manifest raw_sha example_ledger (Aware 30) = Inr m
     \<and> replay raw_sha (foldl (ledger_step raw_sha) example_ledger [example_record ''v1'' 40]) m = Inr rs"
proof -
  have "\<forall>r \<in> set [example_record ''v1'' 40]. 30 < first_seen_at r"
    using example_record_fields [of "''v1''" 40] by (simp add: plain_strip)
  from manifest_replay_reproducible [OF example_ledger_def this] show ?thesis by blast
qed

text \<open>The identity of a record is its content: records created from canonical content verify,
  their content decodes to what they were created from, and two of them have the same identity only
  when they are the same record, as long as the digest has no collision.\<close>

theorem record_identity_is_content:
  assumes inj: "inj sha"
    and r: "pit_create sha k p s pr pv sv c = Inr r" "canonical (to_json (PDict c))" "0 \<le> published_at r"
    and r': "pit_create sha k' p' s' pr' pv' sv' c' = Inr r'" "canonical (to_json (PDict c'))" "0 \<le> published_at r'"
  shows "pit_verify sha r = Inr () \<and> loads (canonical_content r) = Inr (to_json (PDict c))
     \<and> (record_id r = record_id r' \<longleftrightarrow> r = r')"
proof -
  note v = pit_create_verify [OF r(1,2)] and v' = pit_create_verify [OF r'(1,2)]
  have "r = r'" if same: "record_id r = record_id r'"
  proof -
    note f = pit_identity [OF inj v(1) v'(1) same r(3) r'(3)]
    have ch: "content_hash r = snapshot_id (freeze_snapshot sha (PDict c))"
        "canonical_content r = render (to_json (PDict c))"
      and ch': "content_hash r' = snapshot_id (freeze_snapshot sha (PDict c'))"
        "canonical_content r' = render (to_json (PDict c'))"
      using r(1) r'(1)
      by (auto simp: pit_create_def Let_def freeze_snapshot_def freeze_json_def split: if_splits option.splits)
    have "to_json (PDict c) = to_json (PDict c')"
      using f(7) ch(1) ch'(1) freeze_id_eq_iff [OF inj r(2) r'(2)] by simp
    with ch(2) ch'(2) f same show ?thesis by (intro pit_record.equality) simp_all
  qed
  with v show ?thesis by blast
qed

theorem record_identity_is_content_witness:
  "record_id (example_record ''v1'' 10) \<noteq> record_id (example_record ''v2'' 10)"
proof -
  have s: "strip ''v1'' \<noteq> []" "strip ''v2'' \<noteq> []" by (simp_all add: plain_strip)
  have c: "canonical (to_json (PDict [(''px'', PInt 1)]))" by (simp add: canonical_PDict)
  have t: "0 \<le> published_at (example_record ''v1'' 10)" "0 \<le> published_at (example_record ''v2'' 10)"
    using example_record_fields [OF s(1), of 10] example_record_fields [OF s(2), of 10] by simp_all
  have "example_record ''v1'' 10 \<noteq> example_record ''v2'' 10"
    using example_record_fields [OF s(1), of 10] example_record_fields [OF s(2), of 10] by auto
  with record_identity_is_content [OF inj_raw_sha example_create [OF s(1)] c t(1) example_create [OF s(2)] c t(2)]
  show ?thesis by blast
qed

end
