(* ===== verification/DataQuality.thy ===== *)
theory DataQuality
  imports Decision
begin

text \<open>
  The quality gate for quotes (\<open>domain/data_quality.py\<close>): observations from several
  sources, the policy, and the evaluator that grades them \<open>GREEN\<close>, \<open>AMBER\<close> or \<open>RED\<close>.
  \<open>Decimal\<close> arithmetic is exact here (the context's rounding to 28 digits and non-finite
  decimals are not modelled); field names are ASCII, which is what \<open>upper\<close> covers.
\<close>

section \<open>Observations and policy\<close>

datatype entitlement_status = VERIFIED | DENIED | UNKNOWN

fun entitlement_value :: "entitlement_status \<Rightarrow> string" where
  "entitlement_value VERIFIED = ''VERIFIED''"
| "entitlement_value DENIED = ''DENIED''"
| "entitlement_value UNKNOWN = ''UNKNOWN''"

record 't quote_observation =
  source :: string
  instrument_id :: string
  source_ts :: 't
  received_ts :: 't
  delayed :: "bool option"
  entitlement :: entitlement_status
  bid :: "decimal option"
  ask :: "decimal option"
  bid_size :: "decimal option"
  ask_size :: "decimal option"
  field_timestamps :: "(string, 't) dict"

fun aware_fields :: "(string, datetime) dict \<Rightarrow> (string, instant) dict result" where
  "aware_fields [] = Inr []"
| "aware_fields ((name, t) # rest) =
     (if strip name = [] then Inl (ValueError ''field timestamp names must not be blank'')
      else res_bind (to_utc (ValueError (''field_timestamps['' @ name @ ''] must be timezone-aware'')) t) (\<lambda>u.
           res_bind (aware_fields rest) (\<lambda>us. Inr ((name, u) # us))))"

definition mk_observation :: "datetime quote_observation \<Rightarrow> instant quote_observation result" where
  "mk_observation ob =
     (if strip (source ob) = [] \<or> strip (instrument_id ob) = []
      then Inl (ValueError ''source and instrument_id are required'')
      else res_bind (to_utc (ValueError ''source_ts must be timezone-aware'') (source_ts ob)) (\<lambda>s.
           res_bind (to_utc (ValueError ''received_ts must be timezone-aware'') (received_ts ob)) (\<lambda>r.
           res_bind (aware_fields (field_timestamps ob)) (\<lambda>fs.
             Inr \<lparr>source = source ob, instrument_id = instrument_id ob, source_ts = s, received_ts = r,
                  delayed = delayed ob, entitlement = entitlement ob, bid = bid ob, ask = ask ob,
                  bid_size = bid_size ob, ask_size = ask_size ob, field_timestamps = fs\<rparr>))))"

definition midpoint :: "'t quote_observation \<Rightarrow> rat option" where
  "midpoint ob = (case (bid ob, ask ob) of (Some b, Some a) \<Rightarrow> Some ((dec_val b + dec_val a) / 2) | _ \<Rightarrow> None)"

record quality_policy =
  green_max_age :: timedelta
  amber_max_age :: timedelta
  max_receive_latency :: timedelta
  conflict_absolute_tolerance :: decimal
  conflict_relative_tolerance :: decimal
  require_two_sources :: bool
  required_fields :: "string list"

definition mk_quality_policy :: "quality_policy \<Rightarrow> quality_policy result" where
  "mk_quality_policy p =
     (if green_max_age p < 0 then Inl (ValueError ''green_max_age must not be negative'')
      else if amber_max_age p < green_max_age p
      then Inl (ValueError ''amber_max_age must be at least green_max_age'')
      else if max_receive_latency p < 0 then Inl (ValueError ''max_receive_latency must not be negative'')
      else if dec_val (conflict_absolute_tolerance p) < 0 \<or> dec_val (conflict_relative_tolerance p) < 0
      then Inl (ValueError ''conflict tolerances must not be negative'')
      else Inr p)"

record feed_quality_report =
  fq_status :: data_quality
  freeze :: bool
  fq_reasons :: "string list"
  stale_fields :: "string list"
  sources :: "string list"
  observed_at :: instant

definition permits_decision :: "feed_quality_report \<Rightarrow> bool" where
  "permits_decision r \<longleftrightarrow> fq_status r = GREEN \<and> \<not> freeze r"

section \<open>The evaluator\<close>

text \<open>The mutable locals of \<open>evaluate\<close>.\<close>

record eval_state =
  es_reasons :: "string set"
  es_stale :: "string set"
  worst_age :: timedelta
  amber_age :: bool

definition upper :: "string \<Rightarrow> string" where
  "upper s = map (\<lambda>c. let n = of_char c :: nat in if 97 \<le> n \<and> n \<le> 122 then char_of (n - 32) else c) s"

text \<open>\<open>getattr(observation, name, None) is None\<close>, for the attributes an observation has.\<close>

definition attr_missing :: "instant quote_observation \<Rightarrow> string \<Rightarrow> bool" where
  "attr_missing ob name =
     (if name = ''bid'' then bid ob = None else if name = ''ask'' then ask ob = None
      else if name = ''bid_size'' then bid_size ob = None else if name = ''ask_size'' then ask_size ob = None
      else if name = ''delayed'' then delayed ob = None else if name = ''midpoint'' then midpoint ob = None
      else name \<notin> {''source'', ''instrument_id'', ''source_ts'', ''received_ts'', ''entitlement'', ''field_timestamps''})"

definition add_reason :: "bool \<Rightarrow> string \<Rightarrow> eval_state \<Rightarrow> eval_state" where
  "add_reason b r s = (if b then s\<lparr>es_reasons := insert r (es_reasons s)\<rparr> else s)"

text \<open>\<open>_age\<close>: a time stamp in the future is a reason, and its age counts as zero.\<close>

definition age_of :: "instant \<Rightarrow> instant \<Rightarrow> timedelta" where
  "age_of now t = (if now - t < 0 then 0 else now - t)"

definition age_reason :: "instant \<Rightarrow> instant \<Rightarrow> string \<Rightarrow> eval_state \<Rightarrow> eval_state" where
  "age_reason now t fld = add_reason (now - t < 0) (fld @ '':FUTURE_TIMESTAMP'')"

definition field_step ::
  "quality_policy \<Rightarrow> instant \<Rightarrow> instant quote_observation \<Rightarrow> string \<Rightarrow> eval_state \<Rightarrow> eval_state" where
  "field_step p now ob name s =
     (let pfx = source ob;
          s1 = add_reason (attr_missing ob name) (pfx @ '':MISSING_'' @ upper name) s
      in case map_of (field_timestamps ob) name of
           None \<Rightarrow> add_reason True (pfx @ '':MISSING_'' @ upper name @ ''_TIMESTAMP'') s1
         | Some t \<Rightarrow>
             let s2 = add_reason (t > received_ts ob) (pfx @ '':'' @ upper name @ ''_AFTER_RECEIPT'') s1;
                 age = age_of now t;
                 s3 = age_reason now t (pfx @ '':'' @ name) s2;
                 s4 = s3\<lparr>worst_age := max (worst_age s3) age,
                         es_stale := (if age > green_max_age p then insert (pfx @ '':'' @ name) (es_stale s3) else es_stale s3),
                         amber_age := amber_age s3 \<or> green_max_age p < age \<and> age \<le> amber_max_age p\<rparr>
             in add_reason (age > amber_max_age p) (pfx @ '':'' @ upper name @ ''_STALE'') s4)"

definition opt_neg :: "decimal option \<Rightarrow> bool" where
  "opt_neg d = (case d of None \<Rightarrow> False | Some x \<Rightarrow> dec_val x < 0)"

definition opt_zero :: "decimal option \<Rightarrow> bool" where
  "opt_zero d = (case d of None \<Rightarrow> False | Some x \<Rightarrow> dec_val x = 0)"

definition validate_quote :: "instant quote_observation \<Rightarrow> eval_state \<Rightarrow> eval_state" where
  "validate_quote ob s =
     (let s1 = add_reason (opt_neg (bid ob) \<or> opt_neg (ask ob) \<or> opt_neg (bid_size ob) \<or> opt_neg (ask_size ob))
                 (source ob @ '':NEGATIVE_QUOTE_VALUE'') s;
          s2 = add_reason (opt_zero (bid_size ob) \<or> opt_zero (ask_size ob)) (source ob @ '':EMPTY_QUOTE_SIZE'') s1
      in add_reason (case (bid ob, ask ob) of (Some b, Some a) \<Rightarrow> dec_val b > dec_val a | _ \<Rightarrow> False)
           (source ob @ '':CROSSED_QUOTE'') s2)"

definition observation_step ::
  "quality_policy \<Rightarrow> instant \<Rightarrow> instant quote_observation \<Rightarrow> eval_state \<Rightarrow> eval_state" where
  "observation_step p now ob s =
     (let pfx = source ob;
          s1 = add_reason (entitlement ob \<noteq> VERIFIED) (pfx @ '':ENTITLEMENT_'' @ entitlement_value (entitlement ob)) s;
          s2 = (case delayed ob of
                  None \<Rightarrow> add_reason True (pfx @ '':DELAY_STATUS_UNKNOWN'') s1
                | Some d \<Rightarrow> add_reason d (pfx @ '':DELAYED'') s1);
          s3 = (if received_ts ob < source_ts ob then add_reason True (pfx @ '':RECEIVED_BEFORE_SOURCE'') s2
                else add_reason (received_ts ob - source_ts ob > max_receive_latency p)
                       (pfx @ '':RECEIVE_LATENCY_EXCEEDED'') s2);
          s4 = fold (field_step p now ob) (required_fields p) s3;
          s5 = age_reason now (source_ts ob) (pfx @ '':source_ts'') s4;
          s6 = age_reason now (received_ts ob) (pfx @ '':received_ts'') s5;
          age = max (age_of now (source_ts ob)) (age_of now (received_ts ob));
          s7 = s6\<lparr>worst_age := max (worst_age s6) age, amber_age := amber_age s6 \<or> age > green_max_age p\<rparr>;
          s8 = add_reason (age > amber_max_age p) (pfx @ '':OBSERVATION_STALE'') s7
      in validate_quote ob s8)"

definition has_conflict :: "quality_policy \<Rightarrow> instant quote_observation list \<Rightarrow> bool" where
  "has_conflict p os =
     (if length os < 2 then False
      else if None \<in> set (map midpoint os) then False
      else let mids = map (the \<circ> midpoint) os; low = Min (set mids); high = Max (set mids);
               allowed = max (dec_val (conflict_absolute_tolerance p))
                             (\<bar>low\<bar> * dec_val (conflict_relative_tolerance p))
           in high - low > allowed)"

definition initial_state :: eval_state where
  "initial_state = \<lparr>es_reasons = {}, es_stale = {}, worst_age = 0, amber_age = False\<rparr>"

definition structure_reasons :: "quality_policy \<Rightarrow> instant quote_observation list \<Rightarrow> eval_state \<Rightarrow> eval_state" where
  "structure_reasons p os s =
     (let srcs = sorted_tuple (source ` set os);
          s1 = add_reason (os = []) ''NO_SOURCES'' s;
          s2 = add_reason (length srcs \<noteq> length os) ''DUPLICATE_SOURCE'' s1;
          s3 = add_reason (require_two_sources p \<and> length srcs < 2) ''SECOND_SOURCE_MISSING'' s2
      in add_reason (card (instrument_id ` set os) > 1) ''INSTRUMENT_MISMATCH'' s3)"

definition quality_evaluate ::
  "quality_policy \<Rightarrow> instant quote_observation list \<Rightarrow> datetime \<Rightarrow> feed_quality_report result" where
  "quality_evaluate p os tm =
     res_bind (to_utc (ValueError ''as_of must be timezone-aware'') tm) (\<lambda>now.
       let s = fold (observation_step p now) os (structure_reasons p os initial_state);
           conflict = has_conflict p os;
           s' = add_reason conflict ''DUAL_SOURCE_CONFLICT'' s;
           st = (if es_reasons s' \<noteq> {} then RED
                 else if amber_age s' \<or> worst_age s' > green_max_age p then AMBER else GREEN)
       in Inr \<lparr>fq_status = st, freeze = (conflict \<or> st = RED), fq_reasons = sorted_tuple (es_reasons s'),
              stale_fields = sorted_tuple (es_stale s'), sources = sorted_tuple (source ` set os),
              observed_at = now\<rparr>)"

section \<open>Lemmas\<close>

text \<open>Nothing recorded so far, and every age so far within the green limit.\<close>

definition clean :: "quality_policy \<Rightarrow> eval_state \<Rightarrow> bool" where
  "clean p s \<longleftrightarrow> es_reasons s = {} \<and> \<not> amber_age s \<and> worst_age s \<le> green_max_age p"

definition field_green :: "quality_policy \<Rightarrow> instant \<Rightarrow> instant quote_observation \<Rightarrow> string \<Rightarrow> bool" where
  "field_green p now ob name \<longleftrightarrow> \<not> attr_missing ob name
     \<and> (\<exists>t. map_of (field_timestamps ob) name = Some t \<and> t \<le> received_ts ob \<and> t \<le> now \<and> now - t \<le> green_max_age p)"

definition quote_green :: "instant quote_observation \<Rightarrow> bool" where
  "quote_green ob \<longleftrightarrow>
     \<not> opt_neg (bid ob) \<and> \<not> opt_neg (ask ob) \<and> \<not> opt_neg (bid_size ob) \<and> \<not> opt_neg (ask_size ob)
   \<and> \<not> opt_zero (bid_size ob) \<and> \<not> opt_zero (ask_size ob)
   \<and> (case (bid ob, ask ob) of (Some b, Some a) \<Rightarrow> dec_val b \<le> dec_val a | _ \<Rightarrow> True)"

definition observation_green :: "quality_policy \<Rightarrow> instant \<Rightarrow> instant quote_observation \<Rightarrow> bool" where
  "observation_green p now ob \<longleftrightarrow>
     entitlement ob = VERIFIED \<and> delayed ob = Some False
   \<and> source_ts ob \<le> received_ts ob \<and> received_ts ob - source_ts ob \<le> max_receive_latency p
   \<and> received_ts ob \<le> now \<and> now - source_ts ob \<le> green_max_age p
   \<and> (\<forall>name \<in> set (required_fields p). field_green p now ob name) \<and> quote_green ob"

lemma add_reason_clean [simp]: "clean p (add_reason b r s) \<longleftrightarrow> clean p s \<and> \<not> b"
  by (auto simp: add_reason_def clean_def)

lemma age_reason_clean [simp]: "clean p (age_reason now t f s) \<longleftrightarrow> clean p s \<and> t \<le> now"
  by (auto simp: age_reason_def)

lemma add_reason_fields [simp]:
  "worst_age (add_reason b r s) = worst_age s" "amber_age (add_reason b r s) = amber_age s"
  by (simp_all add: add_reason_def)

lemma age_reason_fields [simp]:
  "worst_age (age_reason now t f s) = worst_age s" "amber_age (age_reason now t f s) = amber_age s"
  by (simp_all add: age_reason_def)

lemma clean_ages:
  "clean p (s\<lparr>worst_age := max (worst_age s) a, amber_age := amber_age s \<or> b\<rparr>) \<longleftrightarrow> clean p s \<and> a \<le> green_max_age p \<and> \<not> b"
  by (auto simp: clean_def)

lemma clean_ages_stale:
  "clean p (s\<lparr>worst_age := max (worst_age s) a, es_stale := x, amber_age := amber_age s \<or> b\<rparr>)
     \<longleftrightarrow> clean p s \<and> a \<le> green_max_age p \<and> \<not> b"
  by (auto simp: clean_def)

lemma field_step_clean:
  assumes "green_max_age p \<le> amber_max_age p \<and> 0 \<le> green_max_age p"
  shows "clean p (field_step p now ob name s) \<longleftrightarrow> clean p s \<and> field_green p now ob name"
proof (cases "map_of (field_timestamps ob) name")
  case None
  then show ?thesis by (simp add: field_step_def Let_def field_green_def)
next
  case (Some t)
  show ?thesis
    unfolding field_step_def Let_def Some option.case add_reason_clean clean_ages_stale age_reason_clean
    using assms Some by (auto simp: field_green_def age_of_def)
qed

lemma fold_clean:
  assumes "\<And>x s. clean p (f x s) \<longleftrightarrow> clean p s \<and> P x"
  shows "clean p (fold f xs s) \<longleftrightarrow> clean p s \<and> (\<forall>x \<in> set xs. P x)"
  by (induction xs arbitrary: s) (auto simp: assms)

lemma validate_quote_clean: "clean p (validate_quote ob s) \<longleftrightarrow> clean p s \<and> quote_green ob"
  by (auto simp: validate_quote_def Let_def quote_green_def split: option.splits)

lemma observation_step_clean:
  assumes "green_max_age p \<le> amber_max_age p \<and> 0 \<le> green_max_age p"
  shows "clean p (observation_step p now ob s) \<longleftrightarrow> clean p s \<and> observation_green p now ob"
  unfolding observation_step_def Let_def validate_quote_clean add_reason_clean clean_ages age_reason_clean
    fold_clean [OF field_step_clean [OF assms]]
  using assms
  by (auto simp: observation_green_def age_of_def split: option.splits)

lemma fold_finite:
  assumes "\<And>x s. finite (es_reasons s) \<Longrightarrow> finite (es_reasons (f x s))"
  shows "finite (es_reasons s) \<Longrightarrow> finite (es_reasons (fold f xs s))"
  by (induction xs arbitrary: s) (auto simp: assms)

lemma add_reason_finite [simp]: "finite (es_reasons (add_reason b r s)) \<longleftrightarrow> finite (es_reasons s)"
  by (simp add: add_reason_def)

lemma age_reason_finite [simp]: "finite (es_reasons (age_reason a t f s)) \<longleftrightarrow> finite (es_reasons s)"
  by (simp add: age_reason_def)

lemma observation_step_finite: "finite (es_reasons s) \<Longrightarrow> finite (es_reasons (observation_step p now ob s))"
proof -
  have f: "finite (es_reasons s) \<Longrightarrow> finite (es_reasons (field_step p now ob name s))" for name s
    by (simp add: field_step_def Let_def split: option.split)
  assume "finite (es_reasons s)"
  then show ?thesis
    by (auto simp: observation_step_def validate_quote_def Let_def intro!: fold_finite f split: option.splits)
qed

text \<open>The report in terms of what was collected.\<close>

definition collected :: "quality_policy \<Rightarrow> instant \<Rightarrow> instant quote_observation list \<Rightarrow> eval_state" where
  "collected p now os = add_reason (has_conflict p os) ''DUAL_SOURCE_CONFLICT''
     (fold (observation_step p now) os (structure_reasons p os initial_state))"

lemma collected_finite: "finite (es_reasons (collected p now os))"
  by (simp add: collected_def fold_finite observation_step_finite structure_reasons_def Let_def initial_state_def)

lemma quality_evaluate_Inr:
  assumes "quality_evaluate p os (Aware t) = Inr r"
  shows "fq_status r = (if es_reasons (collected p t os) \<noteq> {} then RED
      else if clean p (collected p t os) then GREEN else AMBER)"
    and "fq_reasons r = sorted_tuple (es_reasons (collected p t os))" "observed_at r = t"
    and "freeze r \<longleftrightarrow> fq_status r = RED"
proof -
  let ?c = "collected p t os"
  let ?st = "if es_reasons ?c \<noteq> {} then RED
      else if amber_age ?c \<or> worst_age ?c > green_max_age p then AMBER else GREEN"
  have r: "r = \<lparr>fq_status = ?st, freeze = (has_conflict p os \<or> ?st = RED), fq_reasons = sorted_tuple (es_reasons ?c),
      stale_fields = sorted_tuple (es_stale ?c), sources = sorted_tuple (source ` set os), observed_at = t\<rparr>"
    using assms unfolding quality_evaluate_def Let_def to_utc.simps res_bind_simps collected_def [symmetric] by simp
  have "has_conflict p os \<Longrightarrow> es_reasons ?c \<noteq> {}" by (simp add: collected_def add_reason_def)
  then show "fq_status r = (if es_reasons ?c \<noteq> {} then RED else if clean p ?c then GREEN else AMBER)"
    "fq_reasons r = sorted_tuple (es_reasons ?c)" "observed_at r = t" "freeze r \<longleftrightarrow> fq_status r = RED"
    by (auto simp: r clean_def)
qed

lemma quality_evaluate_ok: "\<exists>r. quality_evaluate p os (Aware t) = Inr r"
  by (simp add: quality_evaluate_def Let_def)

lemma length_sources: "length (sorted_tuple (source ` set os)) = card (source ` set os)"
  by (rule sorted_list_of_set.length_sorted_key_list_of_set)

lemma sources_distinct: "card (source ` set os) = length os \<longleftrightarrow> distinct (map source os)"
  by (metis card_distinct distinct_card length_map list.set_map)

definition one_instrument :: "instant quote_observation list \<Rightarrow> bool" where
  "one_instrument os \<longleftrightarrow> (\<forall>a \<in> set os. \<forall>b \<in> set os. instrument_id a = instrument_id b)"

lemma one_instrument_card: "\<not> 1 < card (instrument_id ` set os) \<longleftrightarrow> one_instrument os"
proof -
  have "\<not> 1 < card (instrument_id ` set os) \<longleftrightarrow> card (instrument_id ` set os) \<le> Suc 0" by auto
  also have "\<dots> \<longleftrightarrow> one_instrument os"
    using card_le_Suc0_iff_eq [of "instrument_id ` set os"] unfolding one_instrument_def by blast
  finally show ?thesis .
qed

lemma collected_clean:
  assumes "green_max_age p \<le> amber_max_age p \<and> 0 \<le> green_max_age p"
  shows "clean p (collected p t os) \<longleftrightarrow>
     os \<noteq> [] \<and> distinct (map source os) \<and> (require_two_sources p \<longrightarrow> 2 \<le> length os)
   \<and> one_instrument os
   \<and> (\<forall>ob \<in> set os. observation_green p t ob) \<and> \<not> has_conflict p os"
proof -
  have "clean p initial_state" using assms by (simp add: clean_def initial_state_def)
  then have "clean p (structure_reasons p os initial_state) \<longleftrightarrow>
     os \<noteq> [] \<and> distinct (map source os) \<and> (require_two_sources p \<longrightarrow> 2 \<le> length os)
   \<and> one_instrument os"
    unfolding structure_reasons_def Let_def add_reason_clean length_sources one_instrument_card
      sources_distinct [symmetric] by auto
  then show ?thesis
    by (auto simp: collected_def fold_clean [OF observation_step_clean [OF assms]])
qed


section \<open>Properties\<close>

text \<open>C9. A report permits a decision exactly when the evidence is complete: under a validated policy
  the grade is \<open>GREEN\<close> and unfrozen iff there are observations, from distinct sources (two when
  required) of one instrument, each entitled, not delayed, received in time and not before it was
  sent, with every required field present and stamped, every time stamp in the past and within the
  green age, valid sizes and an uncrossed quote, and without a conflict between the sources.\<close>

theorem quality_green_iff:
  assumes valid: "mk_quality_policy p0 = Inr p" and run: "quality_evaluate p os (Aware t) = Inr r"
  shows "permits_decision r \<longleftrightarrow>
     os \<noteq> [] \<and> distinct (map source os) \<and> (require_two_sources p \<longrightarrow> 2 \<le> length os)
   \<and> (\<forall>a \<in> set os. \<forall>b \<in> set os. instrument_id a = instrument_id b) \<and> \<not> has_conflict p os
   \<and> (\<forall>ob \<in> set os.
        entitlement ob = VERIFIED \<and> delayed ob = Some False
      \<and> source_ts ob \<le> received_ts ob \<and> received_ts ob - source_ts ob \<le> max_receive_latency p
      \<and> received_ts ob \<le> t \<and> t - source_ts ob \<le> green_max_age p \<and> quote_green ob
      \<and> (\<forall>name \<in> set (required_fields p). \<not> attr_missing ob name
           \<and> (\<exists>u. map_of (field_timestamps ob) name = Some u \<and> u \<le> received_ts ob \<and> u \<le> t \<and> t - u \<le> green_max_age p)))"
proof -
  have p: "green_max_age p \<le> amber_max_age p \<and> 0 \<le> green_max_age p"
    using valid by (auto simp: mk_quality_policy_def split: if_splits)
  have "permits_decision r \<longleftrightarrow> clean p (collected p t os)"
    using quality_evaluate_Inr(1,4) [OF run] by (auto simp: permits_decision_def clean_def)
  then show ?thesis
    unfolding collected_clean [OF p] one_instrument_def observation_green_def field_green_def by blast
qed

definition example_quality_policy :: quality_policy where
  "example_quality_policy = \<lparr>green_max_age = 5, amber_max_age = 9, max_receive_latency = 2,
     conflict_absolute_tolerance = Dec 1 0, conflict_relative_tolerance = Dec 0 0,
     require_two_sources = True, required_fields = [''bid'']\<rparr>"

definition example_quote :: "string \<Rightarrow> int \<Rightarrow> instant quote_observation" where
  "example_quote src b = \<lparr>source = src, instrument_id = ''SPX'', source_ts = 10, received_ts = 11,
     delayed = Some False, entitlement = VERIFIED, bid = Some (Dec b 0), ask = Some (Dec 11 0),
     bid_size = Some (Dec 1 0), ask_size = Some (Dec 1 0), field_timestamps = [(''bid'', 10)]\<rparr>"

lemma example_quality:
  "mk_quality_policy example_quality_policy = Inr example_quality_policy"
  by (simp add: mk_quality_policy_def example_quality_policy_def)

theorem quality_green_iff_witness:
  "\<exists>r. quality_evaluate example_quality_policy [example_quote ''a'' 9, example_quote ''b'' 10] (Aware 12) = Inr r
     \<and> permits_decision r"
proof -
  let ?os = "[example_quote ''a'' 9, example_quote ''b'' 10]"
  obtain r where r: "quality_evaluate example_quality_policy ?os (Aware 12) = Inr r"
    using quality_evaluate_ok by blast
  have "\<not> has_conflict example_quality_policy ?os"
    by (simp add: has_conflict_def midpoint_def example_quote_def example_quality_policy_def)
  then have "permits_decision r"
    unfolding quality_green_iff [OF example_quality r]
    by (simp add: example_quote_def example_quality_policy_def attr_missing_def quote_green_def opt_neg_def opt_zero_def)
  with r show ?thesis by blast
qed

text \<open>The evaluator fails closed and explains itself: for an aware time it always returns; the
  report is frozen exactly when the grade is \<open>RED\<close>, which is exactly when some reason is listed;
  and a naive time is refused.\<close>

theorem quality_report_fail_closed:
  "(\<exists>r. quality_evaluate p os (Aware t) = Inr r
     \<and> (freeze r \<longleftrightarrow> fq_status r = RED) \<and> (fq_status r = RED \<longleftrightarrow> fq_reasons r \<noteq> [])
     \<and> sorted (fq_reasons r) \<and> distinct (fq_reasons r) \<and> observed_at r = t)
   \<and> quality_evaluate p os (Naive t) = Inl (ValueError ''as_of must be timezone-aware'')"
proof -
  obtain r where r: "quality_evaluate p os (Aware t) = Inr r" using quality_evaluate_ok by blast
  note q = quality_evaluate_Inr [OF r]
  have "fq_status r = RED \<longleftrightarrow> fq_reasons r \<noteq> []"
    unfolding q(1,2) using collected_finite [of p t os] by simp
  moreover have "sorted (fq_reasons r)" "distinct (fq_reasons r)" unfolding q(2) by simp_all
  ultimately show ?thesis using r q(3,4) by (simp add: quality_evaluate_def)
qed

end
