(* ===== verification/Collector.thy ===== *)
theory Collector
  imports DataQuality PointInTime
begin

text \<open>
  The collector (\<open>domain/collector.py\<close>, \<open>services/collector_service.py\<close>): a state machine over
  provider events that freezes every event and every outcome as point-in-time records, tracks
  retries, the watermark and freshness, and grades the latest quotes.  The locals of \<open>run\<close> are
  the record \<open>run_state\<close>; one turn of its loop is \<open>collect_event\<close>.  A session gate is a function
  argument, and of the capability report only the fields the collector reads are kept.
\<close>

section \<open>Events and policy\<close>

datatype collector_state =
  STOPPED | CONNECTING | STREAMING | BACKING_OFF | RATE_LIMITED | DEGRADED | HALTED

fun state_value :: "collector_state \<Rightarrow> string" where
  "state_value STOPPED = ''STOPPED''"
| "state_value CONNECTING = ''CONNECTING''"
| "state_value STREAMING = ''STREAMING''"
| "state_value BACKING_OFF = ''BACKING_OFF''"
| "state_value RATE_LIMITED = ''RATE_LIMITED''"
| "state_value DEGRADED = ''DEGRADED''"
| "state_value HALTED = ''HALTED''"

datatype collector_event_kind =
  START | CONNECTED | QUOTE | HEARTBEAT | CONNECTION_LOST | K_RATE_LIMITED | SCHEMA_DRIFT | STOP

fun kind_value :: "collector_event_kind \<Rightarrow> string" where
  "kind_value START = ''START''"
| "kind_value CONNECTED = ''CONNECTED''"
| "kind_value QUOTE = ''QUOTE''"
| "kind_value HEARTBEAT = ''HEARTBEAT''"
| "kind_value CONNECTION_LOST = ''CONNECTION_LOST''"
| "kind_value K_RATE_LIMITED = ''RATE_LIMITED''"
| "kind_value SCHEMA_DRIFT = ''SCHEMA_DRIFT''"
| "kind_value STOP = ''STOP''"

record collector_policy =
  base_backoff :: timedelta
  max_backoff :: timedelta
  max_reconnect_attempts :: int
  allowed_lateness :: timedelta
  freshness_limit :: timedelta

definition mk_collector_policy :: "collector_policy \<Rightarrow> collector_policy result" where
  "mk_collector_policy p =
     (if base_backoff p \<le> 0 then Inl (ValueError ''base_backoff must be positive'')
      else if max_backoff p < base_backoff p then Inl (ValueError ''max_backoff must be at least base_backoff'')
      else if max_reconnect_attempts p < 1 then Inl (ValueError ''max_reconnect_attempts must be positive'')
      else if allowed_lateness p < 0 then Inl (ValueError ''allowed_lateness must not be negative'')
      else if freshness_limit p \<le> 0 then Inl (ValueError ''freshness_limit must be positive'')
      else Inr p)"

definition reconnect_delay :: "collector_policy \<Rightarrow> int \<Rightarrow> timedelta result" where
  "reconnect_delay p n = backoff_delay (ValueError ''attempt must be positive'') (base_backoff p) (max_backoff p) n"

record 't collector_event =
  event_id :: string
  ce_kind :: collector_event_kind
  ce_published_at :: 't
  ce_first_seen_at :: 't
  ce_schema_version :: string
  payload :: "(string, pyval) dict"
  observation :: "instant quote_observation option"

definition mk_collector_event :: "datetime collector_event \<Rightarrow> instant collector_event result" where
  "mk_collector_event e =
     (case first_blank_name [(''event_id'', event_id e), (''schema_version'', ce_schema_version e)] of
        Some n \<Rightarrow> Inl (ValueError (n @ '' must not be blank''))
      | None \<Rightarrow>
        res_bind (to_utc (ValueError ''published_at must be timezone-aware'') (ce_published_at e)) (\<lambda>p.
        res_bind (to_utc (ValueError ''first_seen_at must be timezone-aware'') (ce_first_seen_at e)) (\<lambda>f.
          if p > f then Inl (ValueError ''published_at must be less than or equal to first_seen_at'')
          else if ce_kind e = QUOTE \<and> observation e = None
          then Inl (ValueError ''QUOTE events require an observation'')
          else if ce_kind e \<noteq> QUOTE \<and> observation e \<noteq> None
          then Inl (ValueError ''only QUOTE events may contain an observation'')
          else Inr \<lparr>event_id = event_id e, ce_kind = ce_kind e, ce_published_at = p, ce_first_seen_at = f,
                 ce_schema_version = ce_schema_version e, payload = payload e, observation = observation e\<rparr>)))"

definition opt_dec :: "decimal option \<Rightarrow> pyval" where
  "opt_dec d = (case d of None \<Rightarrow> PNone | Some x \<Rightarrow> PDec x)"

definition opt_time :: "instant option \<Rightarrow> pyval" where
  "opt_time t = (case t of None \<Rightarrow> PNone | Some x \<Rightarrow> PTime x)"

definition observation_value :: "instant quote_observation \<Rightarrow> pyval" where
  "observation_value ob = PDict
     [(''source'', PStr (source ob)), (''instrument_id'', PStr (instrument_id ob)),
      (''source_ts'', PTime (source_ts ob)), (''received_ts'', PTime (received_ts ob)),
      (''delayed'', case delayed ob of None \<Rightarrow> PNone | Some b \<Rightarrow> PBool b),
      (''entitlement'', PStr (entitlement_value (entitlement ob))),
      (''bid'', opt_dec (bid ob)), (''ask'', opt_dec (ask ob)),
      (''bid_size'', opt_dec (bid_size ob)), (''ask_size'', opt_dec (ask_size ob)),
      (''field_timestamps'', PDict (map (\<lambda>(k, t). (k, PTime t)) (field_timestamps ob)))]"

definition event_content :: "instant collector_event \<Rightarrow> (string, pyval) dict" where
  "event_content e =
     [(''event_id'', PStr (event_id e)), (''kind'', PStr (kind_value (ce_kind e))), (''payload'', PDict (payload e))]
     @ (case observation e of None \<Rightarrow> [] | Some ob \<Rightarrow> [(''observation'', observation_value ob)])"

definition event_record :: "(string \<Rightarrow> string) \<Rightarrow> string \<Rightarrow> string \<Rightarrow> instant collector_event \<Rightarrow> pit_record result" where
  "event_record sha prov pver e =
     pit_create sha (''collector-event:'' @ prov @ '':'' @ event_id e) (Aware (ce_published_at e))
       (Aware (ce_first_seen_at e)) prov pver (ce_schema_version e) (event_content e)"

record collector_trace =
  tr_event_id :: string
  tr_state :: collector_state
  accepted :: bool
  tr_reasons :: "string list"
  input_record_id :: string
  input_content_hash :: string
  output_record_id :: string
  output_content_hash :: string
  tr_watermark :: "instant option"
  tr_next_retry_at :: "instant option"
  reconnect_attempts :: int
  quality :: data_quality
  tr_freeze :: bool

record collector_run_result =
  rr_state :: collector_state
  rr_traces :: "collector_trace list"
  rr_records :: "pit_record list"
  rr_report :: "feed_quality_report option"
  rr_reasons :: "string list"
  rr_accepted_quotes :: int
  rr_duplicate_events :: int
  rr_duplicate_observations :: int
  rr_out_of_order :: int
  rr_watermark :: "instant option"
  rr_next_retry_at :: "instant option"

definition run_permits_decision :: "collector_run_result \<Rightarrow> bool" where
  "run_permits_decision r \<longleftrightarrow> rr_state r = STREAMING
     \<and> (case rr_report r of None \<Rightarrow> False | Some q \<Rightarrow> permits_decision q) \<and> rr_reasons r = []"

section \<open>The orchestrator\<close>

record capability_report =
  cap_provider :: string
  configured :: bool
  verification_status :: string
  production_ready :: bool
  cap_quality :: data_quality

record collector =
  co_provider :: string
  co_provider_version :: string
  expected_schema_version :: string
  expected_instrument_id :: string
  capability :: capability_report
  co_policy :: collector_policy
  co_quality_policy :: quality_policy
  session_gate :: "(instant \<Rightarrow> string list) option"

definition mk_collector :: "collector \<Rightarrow> collector result" where
  "mk_collector c =
     (case first_blank_name [(''provider'', co_provider c), (''provider_version'', co_provider_version c),
             (''expected_schema_version'', expected_schema_version c),
             (''expected_instrument_id'', expected_instrument_id c)] of
        Some n \<Rightarrow> Inl (ValueError (n @ '' must not be blank''))
      | None \<Rightarrow> if cap_provider (capability c) \<noteq> co_provider c
          then Inl (ValueError ''capability provider must match collector provider'') else Inr c)"

record run_state =
  state :: collector_state
  next_retry_at :: "instant option"
  attempts :: int
  watermark :: "instant option"
  last_observation_at :: "instant option"
  seen_events :: "string set"
  seen_observations :: "string set"
  latest_by_source :: "(string, instant quote_observation) dict"
  records :: "pit_record list"
  traces :: "collector_trace list"
  run_reasons :: "string set"
  accepted_quotes :: int
  duplicate_events :: int
  duplicate_observations :: int
  out_of_order :: int
  quality_report :: "feed_quality_report option"
  previous_first_seen_at :: "instant option"

definition capability_reasons :: "collector \<Rightarrow> string list" where
  "capability_reasons c =
     (let cap = capability c in
      (if \<not> configured cap then [''CAPABILITY_NOT_CONFIGURED''] else [])
    @ (if verification_status cap \<noteq> ''VERIFIED'' then [''CAPABILITY_UNVERIFIED''] else [])
    @ (if \<not> production_ready cap then [''CAPABILITY_NOT_PRODUCTION_READY''] else [])
    @ (if cap_quality cap \<noteq> GREEN then [''CAPABILITY_QUALITY_NOT_GREEN''] else []))"

definition initial_run :: "collector \<Rightarrow> run_state" where
  "initial_run c = \<lparr>state = STOPPED, next_retry_at = None, attempts = 0, watermark = None,
     last_observation_at = None, seen_events = {}, seen_observations = {}, latest_by_source = [],
     records = [], traces = [], run_reasons = set (capability_reasons c), accepted_quotes = 0,
     duplicate_events = 0, duplicate_observations = 0, out_of_order = 0, quality_report = None,
     previous_first_seen_at = None\<rparr>"

definition observation_fingerprint :: "(string \<Rightarrow> string) \<Rightarrow> instant quote_observation \<Rightarrow> string \<Rightarrow> string" where
  "observation_fingerprint sha ob sv = snapshot_id (freeze_snapshot sha (PDict
     [(''source'', PStr (source ob)), (''instrument_id'', PStr (instrument_id ob)),
      (''source_ts'', PTime (source_ts ob)), (''received_ts'', PTime (received_ts ob)),
      (''schema_version'', PStr sv), (''bid'', opt_dec (bid ob)), (''ask'', opt_dec (ask ob)),
      (''bid_size'', opt_dec (bid_size ob)), (''ask_size'', opt_dec (ask_size ob)),
      (''field_timestamps'', PDict (map (\<lambda>(k, t). (k, PTime t)) (field_timestamps ob)))]))"

text \<open>\<open>isinstance(retry_seconds, (int, float))\<close> also admits a \<open>bool\<close>, which is an \<open>int\<close>.\<close>

fun numeric_value :: "pyval option \<Rightarrow> rat option" where
  "numeric_value (Some (PInt n)) = Some (of_int n)"
| "numeric_value (Some (PFloat q _)) = Some q"
| "numeric_value (Some (PBool b)) = Some (if b then 1 else 0)"
| "numeric_value _ = None"

definition clear_quotes :: "run_state \<Rightarrow> run_state" where
  "clear_quotes s = s\<lparr>latest_by_source := [], last_observation_at := None\<rparr>"

text \<open>The quote branch of \<open>_apply_event\<close>; \<open>reasons\<close> is empty when it is entered.\<close>

definition apply_quote ::
  "(string \<Rightarrow> string) \<Rightarrow> collector \<Rightarrow> instant collector_event \<Rightarrow> instant quote_observation \<Rightarrow> run_state
     \<Rightarrow> string set \<times> run_state" where
  "apply_quote sha c e ob s =
     (let rs = (if instrument_id ob \<noteq> expected_instrument_id c then {''INSTRUMENT_MISMATCH''} else {});
          fp = observation_fingerprint sha ob (ce_schema_version e)
      in if rs = {} \<and> fp \<in> seen_observations s
         then ({''DUPLICATE_OBSERVATION''}, s\<lparr>duplicate_observations := duplicate_observations s + 1\<rparr>)
         else if rs \<noteq> {} then (rs, s)
         else let s1 = s\<lparr>seen_observations := insert fp (seen_observations s)\<rparr>
           in if (case watermark s of None \<Rightarrow> False | Some w \<Rightarrow> source_ts ob < w)
              then (insert ''OUT_OF_ORDER_OBSERVATION''
                      (if (case watermark s of None \<Rightarrow> False
                           | Some w \<Rightarrow> source_ts ob < w - allowed_lateness (co_policy c))
                       then {''BEHIND_WATERMARK''} else {}),
                    s1\<lparr>out_of_order := out_of_order s + 1\<rparr>)
              else ({}, s1\<lparr>latest_by_source := AList.update (source ob) ob (latest_by_source s),
                        watermark := Some (case watermark s of None \<Rightarrow> source_ts ob | Some w \<Rightarrow> max w (source_ts ob)),
                        last_observation_at := Some (ce_first_seen_at e),
                        accepted_quotes := accepted_quotes s + 1, state := STREAMING\<rparr>))"

definition apply_event ::
  "(string \<Rightarrow> string) \<Rightarrow> collector \<Rightarrow> instant collector_event \<Rightarrow> run_state \<Rightarrow> (string set \<times> run_state) result" where
  "apply_event sha c e s =
     (case ce_kind e of
        START \<Rightarrow> Inr (if state s \<noteq> STOPPED then ({''INVALID_TRANSITION''}, s) else ({}, s\<lparr>state := CONNECTING\<rparr>))
      | CONNECTED \<Rightarrow> Inr
          (if state s \<notin> {CONNECTING, BACKING_OFF, RATE_LIMITED, DEGRADED} then ({''INVALID_TRANSITION''}, s)
           else if (case next_retry_at s of None \<Rightarrow> False | Some t \<Rightarrow> ce_first_seen_at e < t)
           then ({''RETRY_TOO_EARLY''}, s)
           else ({}, s\<lparr>state := STREAMING, next_retry_at := None, attempts := 0\<rparr>))
      | CONNECTION_LOST \<Rightarrow>
          let s1 = (clear_quotes s)\<lparr>attempts := attempts s + 1\<rparr>
          in if attempts s1 > max_reconnect_attempts (co_policy c)
             then Inr ({''RECONNECT_BUDGET_EXHAUSTED''}, s1\<lparr>state := HALTED, next_retry_at := None\<rparr>)
             else res_bind (reconnect_delay (co_policy c) (attempts s1)) (\<lambda>d.
               Inr ({}, s1\<lparr>state := BACKING_OFF, next_retry_at := Some (ce_first_seen_at e + d)\<rparr>))
      | K_RATE_LIMITED \<Rightarrow>
          let s1 = clear_quotes s
          in (case numeric_value (map_of (payload e) ''retry_after_seconds'') of
                None \<Rightarrow> Inr ({''INVALID_RETRY_AFTER''}, s1\<lparr>state := HALTED, next_retry_at := None\<rparr>)
              | Some q \<Rightarrow>
                  if q \<le> 0 then Inr ({''INVALID_RETRY_AFTER''}, s1\<lparr>state := HALTED, next_retry_at := None\<rparr>)
                  else res_bind (mk_timedelta (round_half_even (q * 1000000))) (\<lambda>d.
                    Inr ({}, s1\<lparr>state := RATE_LIMITED,
                      next_retry_at := Some (ce_first_seen_at e + max d (base_backoff (co_policy c)))\<rparr>)))
      | SCHEMA_DRIFT \<Rightarrow> Inr ({''SCHEMA_DRIFT''}, s\<lparr>state := HALTED\<rparr>)
      | STOP \<Rightarrow> Inr ({}, (clear_quotes s)\<lparr>state := STOPPED, next_retry_at := None\<rparr>)
      | HEARTBEAT \<Rightarrow> Inr (if state s \<notin> {STREAMING, DEGRADED} then ({''INVALID_TRANSITION''}, s) else ({}, s))
      | QUOTE \<Rightarrow>
          if state s \<notin> {STREAMING, DEGRADED} then Inr ({''COLLECTOR_NOT_STREAMING''}, s)
          else (case observation e of
             None \<Rightarrow> Inl (AssertionError ''QUOTE event missing observation'')
           | Some ob \<Rightarrow> Inr (apply_quote sha c e ob s)))"

definition apply_freshness ::
  "collector \<Rightarrow> collector_state \<Rightarrow> instant \<Rightarrow> instant option \<Rightarrow> collector_state \<times> string option" where
  "apply_freshness c st now last_obs =
     (if st \<notin> {STREAMING, DEGRADED} then (st, None)
      else if (case last_obs of None \<Rightarrow> True | Some l \<Rightarrow> now - l > freshness_limit (co_policy c))
      then (DEGRADED, Some ''COLLECTOR_STALE'')
      else (st, None))"

text \<open>The guards before an event is applied: duplicates, time regression, schema and halt.\<close>

definition admit_event ::
  "(string \<Rightarrow> string) \<Rightarrow> collector \<Rightarrow> instant collector_event \<Rightarrow> run_state \<Rightarrow> (bool \<times> string set \<times> run_state) result" where
  "admit_event sha c e s =
     (let dup = event_id e \<in> seen_events s;
          regress = (case previous_first_seen_at s of None \<Rightarrow> False | Some p \<Rightarrow> ce_first_seen_at e < p);
          rs = (if dup then {''DUPLICATE_EVENT''} else {}) \<union> (if regress then {''EVENT_TIME_REGRESSION''} else {});
          s1 = s\<lparr>seen_events := insert (event_id e) (seen_events s),
                 duplicate_events := duplicate_events s + (if dup then 1 else 0),
                 previous_first_seen_at := Some (case previous_first_seen_at s of
                   None \<Rightarrow> ce_first_seen_at e | Some p \<Rightarrow> max p (ce_first_seen_at e))\<rparr>
      in if dup \<or> regress then Inr (False, rs, s1)
         else if ce_schema_version e \<noteq> expected_schema_version c
         then Inr (False, {''SCHEMA_DRIFT''},
                s1\<lparr>state := HALTED, run_reasons := insert ''SCHEMA_DRIFT'' (run_reasons s1)\<rparr>)
         else if state s = HALTED then Inr (False, {''COLLECTOR_HALTED''}, s1)
         else res_bind (apply_event sha c e s1) (\<lambda>(rs', s2). Inr (rs' = {}, rs', s2)))"

definition run_flags :: "string set" where
  "run_flags = {''SCHEMA_DRIFT'', ''RECONNECT_BUDGET_EXHAUSTED'', ''INVALID_RETRY_AFTER''}"

definition output_content ::
  "instant collector_event \<Rightarrow> run_state \<Rightarrow> bool \<Rightarrow> string list \<Rightarrow> data_quality \<Rightarrow> bool \<Rightarrow> (string, pyval) dict" where
  "output_content e s acc rs q frz =
     [(''event_id'', PStr (event_id e)), (''state'', PStr (state_value (state s))), (''accepted'', PBool acc),
      (''reasons'', PList (map PStr rs)), (''watermark'', opt_time (watermark s)),
      (''next_retry_at'', opt_time (next_retry_at s)), (''reconnect_attempts'', PInt (attempts s)),
      (''quality'', PStr (case q of GREEN \<Rightarrow> ''GREEN'' | AMBER \<Rightarrow> ''AMBER'' | RED \<Rightarrow> ''RED'')), (''freeze'', PBool frz)]"

definition collect_event ::
  "(string \<Rightarrow> string) \<Rightarrow> collector \<Rightarrow> run_state \<Rightarrow> instant collector_event \<Rightarrow> run_state result" where
  "collect_event sha c s e =
     res_bind (event_record sha (co_provider c) (co_provider_version c) e) (\<lambda>rec.
     res_bind (admit_event sha c e (s\<lparr>records := records s @ [rec]\<rparr>)) (\<lambda>(acc, rs, s1).
     res_bind (if latest_by_source s1 = [] then Inr None
               else res_bind (quality_evaluate (co_quality_policy c) (dict_values (latest_by_source s1))
                                (Aware (ce_first_seen_at e))) (\<lambda>q. Inr (Some q))) (\<lambda>report.
       let (st, fr) = apply_freshness c (state s1) (ce_first_seen_at e) (last_observation_at s1);
           rs' = (case fr of None \<Rightarrow> rs | Some f \<Rightarrow> insert f rs);
           s2 = s1\<lparr>state := st, quality_report := report, run_reasons := run_reasons s1 \<union> (rs' \<inter> run_flags)\<rparr>;
           q = (case report of None \<Rightarrow> RED | Some r \<Rightarrow> fq_status r);
           frz = (case report of None \<Rightarrow> True | Some r \<Rightarrow> freeze r)
       in res_bind (pit_create sha (''collector-output:'' @ co_provider c @ '':'' @ event_id e)
                      (Aware (ce_first_seen_at e)) (Aware (ce_first_seen_at e)) ''marketpilot'' ''collector-v1''
                      ''collector-output-v1'' (output_content e s2 acc (sorted_tuple rs') q frz)) (\<lambda>out.
            Inr (s2\<lparr>records := records s2 @ [out],
              traces := traces s2 @ [\<lparr>tr_event_id = event_id e, tr_state = st, accepted = acc,
                tr_reasons = sorted_tuple rs', input_record_id = record_id rec,
                input_content_hash = content_hash rec, output_record_id = record_id out,
                output_content_hash = content_hash out, tr_watermark = watermark s2,
                tr_next_retry_at = next_retry_at s2, reconnect_attempts = attempts s2,
                quality = q, tr_freeze = frz\<rparr>]\<rparr>)))))"

fun collect_loop :: "(string \<Rightarrow> string) \<Rightarrow> collector \<Rightarrow> run_state \<Rightarrow> instant collector_event list \<Rightarrow> run_state result" where
  "collect_loop sha c s [] = Inr s"
| "collect_loop sha c s (e # es) = res_bind (collect_event sha c s e) (\<lambda>s'. collect_loop sha c s' es)"

definition final_reasons :: "collector \<Rightarrow> run_state \<Rightarrow> instant collector_event list \<Rightarrow> string set" where
  "final_reasons c s es =
     run_reasons s
   \<union> (if state s \<noteq> STREAMING then {''COLLECTOR_'' @ state_value (state s)} else {})
   \<union> (case session_gate c of None \<Rightarrow> {} | Some g \<Rightarrow> if es = [] then {} else set (g (ce_first_seen_at (last es))))
   \<union> (case quality_report s of
        None \<Rightarrow> {''NO_QUALITY_REPORT''}
      | Some q \<Rightarrow> if permits_decision q then {}
          else if fq_reasons q = [] then {''QUALITY_NOT_GREEN''} else set (fq_reasons q))"

definition collector_run ::
  "(string \<Rightarrow> string) \<Rightarrow> collector \<Rightarrow> instant collector_event list \<Rightarrow> collector_run_result result" where
  "collector_run sha c es =
     res_bind (collect_loop sha c (initial_run c) es) (\<lambda>s.
       Inr \<lparr>rr_state = state s, rr_traces = traces s, rr_records = records s, rr_report = quality_report s,
            rr_reasons = sorted_tuple (final_reasons c s es), rr_accepted_quotes = accepted_quotes s,
            rr_duplicate_events = duplicate_events s, rr_duplicate_observations = duplicate_observations s,
            rr_out_of_order = out_of_order s, rr_watermark = watermark s, rr_next_retry_at = next_retry_at s\<rparr>)"


section \<open>One event\<close>

lemma apply_quote_cases:
  obtains (rejected) "fst (apply_quote sha c e ob s) \<noteq> {}"
      "state (snd (apply_quote sha c e ob s)) = state s" "watermark (snd (apply_quote sha c e ob s)) = watermark s"
      "latest_by_source (snd (apply_quote sha c e ob s)) = latest_by_source s"
      "run_reasons (snd (apply_quote sha c e ob s)) = run_reasons s"
      "traces (snd (apply_quote sha c e ob s)) = traces s" "records (snd (apply_quote sha c e ob s)) = records s"
      "seen_events (snd (apply_quote sha c e ob s)) = seen_events s"
  | (taken) "fst (apply_quote sha c e ob s) = {}" "instrument_id ob = expected_instrument_id c"
      "watermark (snd (apply_quote sha c e ob s))
         = Some (case watermark s of None \<Rightarrow> source_ts ob | Some w \<Rightarrow> max w (source_ts ob))"
      "latest_by_source (snd (apply_quote sha c e ob s)) = AList.update (source ob) ob (latest_by_source s)"
      "run_reasons (snd (apply_quote sha c e ob s)) = run_reasons s"
      "traces (snd (apply_quote sha c e ob s)) = traces s" "records (snd (apply_quote sha c e ob s)) = records s"
      "seen_events (snd (apply_quote sha c e ob s)) = seen_events s"
proof (cases "fst (apply_quote sha c e ob s) = {}")
  case True
  then show thesis by (intro taken) (auto simp: apply_quote_def Let_def split: if_splits)
next
  case False
  then show thesis by (intro rejected) (auto simp: apply_quote_def Let_def split: if_splits)
qed

text \<open>What applying an event keeps, whichever branch it takes.\<close>

definition latest_ok :: "collector \<Rightarrow> run_state \<Rightarrow> bool" where
  "latest_ok c s \<longleftrightarrow> dict_ok (latest_by_source s)
     \<and> (\<forall>ob \<in> set (dict_values (latest_by_source s)). instrument_id ob = expected_instrument_id c)"

definition mark_le :: "instant option \<Rightarrow> instant option \<Rightarrow> bool" where
  "mark_le v w \<longleftrightarrow> (\<forall>x. v = Some x \<longrightarrow> (\<exists>y. w = Some y \<and> x \<le> y))"

lemma mark_le_refl [simp]: "mark_le v v"
  by (simp add: mark_le_def)

lemma mark_le_trans: "mark_le u v \<Longrightarrow> mark_le v w \<Longrightarrow> mark_le u w"
  by (cases u; cases v; cases w) (auto simp: mark_le_def)

definition frame :: "collector \<Rightarrow> run_state \<Rightarrow> run_state \<Rightarrow> bool" where
  "frame c s t \<longleftrightarrow> traces t = traces s \<and> records t = records s \<and> seen_events t = seen_events s
     \<and> run_reasons t = run_reasons s \<and> mark_le (watermark s) (watermark t) \<and> (latest_ok c s \<longrightarrow> latest_ok c t)"

lemma update_values: "set (dict_values (AList.update k v d)) \<subseteq> insert v (set (dict_values d))"
  by (induction d) (auto simp: dict_values_def)

lemma apply_quote_frame: "frame c s (snd (apply_quote sha c e ob s))"
proof (cases rule: apply_quote_cases [of sha c e ob s])
  case rejected
  then show ?thesis by (simp add: frame_def latest_ok_def)
next
  case taken
  have "mark_le (watermark s) (watermark (snd (apply_quote sha c e ob s)))"
    unfolding taken(3) by (auto simp: mark_le_def)
  moreover have "latest_ok c s \<Longrightarrow> latest_ok c (snd (apply_quote sha c e ob s))"
    unfolding latest_ok_def taken(4) using update_values [of "source ob" ob "latest_by_source s"] taken(2) by auto
  ultimately show ?thesis using taken(5-8) by (simp add: frame_def)
qed

lemma clear_quotes_frame [simp]: "frame c s (clear_quotes s)"
  by (simp add: frame_def clear_quotes_def latest_ok_def dict_values_def)

lemma frame_simps [simp]:
  "frame c s (t\<lparr>state := x\<rparr>) = frame c s t" "frame c s (t\<lparr>next_retry_at := y\<rparr>) = frame c s t"
  "frame c s (t\<lparr>attempts := z\<rparr>) = frame c s t" "frame c s s"
  by (simp_all add: frame_def latest_ok_def)

lemma apply_event_frame:
  assumes "apply_event sha c e s = Inr (rs, t)"
  shows "frame c s t"
proof (cases "ce_kind e")
  case QUOTE
  show ?thesis
  proof (cases "state s \<in> {STREAMING, DEGRADED}")
    case True
    with QUOTE assms obtain ob where "apply_quote sha c e ob s = (rs, t)"
      by (cases "observation e"; cases "state s") (simp_all add: apply_event_def)
    with apply_quote_frame [of c s sha e ob] show ?thesis by simp
  next
    case False
    with QUOTE assms show ?thesis by (simp add: apply_event_def)
  qed
next
  case CONNECTION_LOST
  with assms show ?thesis by (auto simp: apply_event_def Let_def split: if_splits)
next
  case K_RATE_LIMITED
  with assms show ?thesis by (auto simp: apply_event_def Let_def split: if_splits option.splits)
qed (use assms in \<open>auto simp: apply_event_def Let_def split: if_splits\<close>)

lemma admit_event_Inr:
  assumes "admit_event sha c e s = Inr (acc, rs, t)"
  shows "traces t = traces s" "records t = records s" "seen_events t = insert (event_id e) (seen_events s)"
    and "run_reasons s \<subseteq> run_reasons t" "run_reasons t \<subseteq> insert ''SCHEMA_DRIFT'' (run_reasons s)"
    and "mark_le (watermark s) (watermark t)" "latest_ok c s \<Longrightarrow> latest_ok c t"
    and "acc \<Longrightarrow> event_id e \<notin> seen_events s \<and> state s \<noteq> HALTED \<and> ce_schema_version e = expected_schema_version c"
    and "state s = HALTED \<Longrightarrow> state t = HALTED"
proof -
  define s1 where "s1 = s\<lparr>seen_events := insert (event_id e) (seen_events s),
                 duplicate_events := duplicate_events s + (if event_id e \<in> seen_events s then 1 else 0),
                 previous_first_seen_at := Some (case previous_first_seen_at s of
                   None \<Rightarrow> ce_first_seen_at e | Some p \<Rightarrow> max p (ce_first_seen_at e))\<rparr>"
  have s1: "traces s1 = traces s" "records s1 = records s" "seen_events s1 = insert (event_id e) (seen_events s)"
      "run_reasons s1 = run_reasons s" "watermark s1 = watermark s" "latest_ok c s1 = latest_ok c s" "state s1 = state s"
    by (simp_all add: s1_def latest_ok_def)
  consider (refused) "\<not> acc" "t = s1"
    | (drift) "\<not> acc" "t = s1\<lparr>state := HALTED, run_reasons := insert ''SCHEMA_DRIFT'' (run_reasons s1)\<rparr>"
    | (applied) "event_id e \<notin> seen_events s" "state s \<noteq> HALTED" "ce_schema_version e = expected_schema_version c"
        "apply_event sha c e s1 = Inr (rs, t)"
    using assms unfolding admit_event_def Let_def s1_def [symmetric] by (auto split: if_splits)
  then have all: "traces t = traces s \<and> records t = records s \<and> seen_events t = insert (event_id e) (seen_events s)
      \<and> run_reasons s \<subseteq> run_reasons t \<and> run_reasons t \<subseteq> insert ''SCHEMA_DRIFT'' (run_reasons s)
      \<and> mark_le (watermark s) (watermark t) \<and> (latest_ok c s \<longrightarrow> latest_ok c t)
      \<and> (acc \<longrightarrow> event_id e \<notin> seen_events s \<and> state s \<noteq> HALTED \<and> ce_schema_version e = expected_schema_version c)
      \<and> (state s = HALTED \<longrightarrow> state t = HALTED)"
  proof cases
    case refused
    with s1 show ?thesis by auto
  next
    case drift
    with s1 show ?thesis by (auto simp: latest_ok_def)
  next
    case applied
    with s1 apply_event_frame [OF applied(4)] show ?thesis by (auto simp: frame_def)
  qed
  then show "traces t = traces s" "records t = records s" "seen_events t = insert (event_id e) (seen_events s)"
    "run_reasons s \<subseteq> run_reasons t" "run_reasons t \<subseteq> insert ''SCHEMA_DRIFT'' (run_reasons s)"
    "mark_le (watermark s) (watermark t)" "latest_ok c s \<Longrightarrow> latest_ok c t"
    "acc \<Longrightarrow> event_id e \<notin> seen_events s \<and> state s \<noteq> HALTED \<and> ce_schema_version e = expected_schema_version c"
    "state s = HALTED \<Longrightarrow> state t = HALTED"
    by blast+
qed

lemma apply_freshness_Inr:
  "fst (apply_freshness c st now last_obs) = HALTED \<longleftrightarrow> st = HALTED"
  "fst (apply_freshness c st now last_obs) = STREAMING \<Longrightarrow>
     \<exists>l. last_obs = Some l \<and> now - l \<le> freshness_limit (co_policy c)"
  by (auto simp: apply_freshness_def split: if_splits option.splits)

lemma collect_event_Inr:
  assumes "collect_event sha c s e = Inr s'"
  obtains acc rs s1 tr rec out where "admit_event sha c e (s\<lparr>records := records s @ [rec]\<rparr>) = Inr (acc, rs, s1)"
    and "traces s' = traces s @ [tr]" "records s' = records s @ [rec, out]"
    and "tr_event_id tr = event_id e" "accepted tr = acc" "tr_state tr = state s'" "tr_watermark tr = watermark s'"
    and "state s' = fst (apply_freshness c (state s1) (ce_first_seen_at e) (last_observation_at s1))"
    and "watermark s' = watermark s1" "seen_events s' = seen_events s1" "latest_by_source s' = latest_by_source s1"
      "last_observation_at s' = last_observation_at s1" "previous_first_seen_at s' = previous_first_seen_at s1"
    and "run_reasons s1 \<subseteq> run_reasons s'" "run_reasons s' \<subseteq> run_reasons s1 \<union> run_flags"
      "set (tr_reasons tr) \<inter> run_flags \<subseteq> run_reasons s'"
    and "quality_report s' = None \<and> latest_by_source s1 = [] \<or>
      (\<exists>q. quality_report s' = Some q \<and> quality_evaluate (co_quality_policy c)
         (dict_values (latest_by_source s1)) (Aware (ce_first_seen_at e)) = Inr q)"
proof -
  obtain rec where rec: "event_record sha (co_provider c) (co_provider_version c) e = Inr rec"
    using assms by (auto simp: collect_event_def)
  obtain acc rs s1 where adm: "admit_event sha c e (s\<lparr>records := records s @ [rec]\<rparr>) = Inr (acc, rs, s1)"
    using assms rec by (auto simp: collect_event_def)
  obtain report where rep: "(if latest_by_source s1 = [] then Inr None
               else res_bind (quality_evaluate (co_quality_policy c) (dict_values (latest_by_source s1))
                                (Aware (ce_first_seen_at e))) (\<lambda>q. Inr (Some q))) = Inr report"
    using assms rec adm by (auto simp: collect_event_def)
  obtain st fr where fresh: "apply_freshness c (state s1) (ce_first_seen_at e) (last_observation_at s1) = (st, fr)"
    by force
  define rs' where "rs' = (case fr of None \<Rightarrow> rs | Some f \<Rightarrow> insert f rs)"
  define s2 where "s2 = s1\<lparr>state := st, quality_report := report, run_reasons := run_reasons s1 \<union> (rs' \<inter> run_flags)\<rparr>"
  define q where "q = (case report of None \<Rightarrow> RED | Some r \<Rightarrow> fq_status r)"
  define frz where "frz = (case report of None \<Rightarrow> True | Some r \<Rightarrow> freeze r)"
  obtain out where "pit_create sha (''collector-output:'' @ co_provider c @ '':'' @ event_id e)
                      (Aware (ce_first_seen_at e)) (Aware (ce_first_seen_at e)) ''marketpilot'' ''collector-v1''
                      ''collector-output-v1'' (output_content e s2 acc (sorted_tuple rs') q frz) = Inr out"
    and s': "s' = s2\<lparr>records := records s1 @ [out],
              traces := traces s1 @ [\<lparr>tr_event_id = event_id e, tr_state = st, accepted = acc,
                tr_reasons = sorted_tuple rs', input_record_id = record_id rec,
                input_content_hash = content_hash rec, output_record_id = record_id out,
                output_content_hash = content_hash out, tr_watermark = watermark s1,
                tr_next_retry_at = next_retry_at s1, reconnect_attempts = attempts s1,
                quality = q, tr_freeze = frz\<rparr>]\<rparr>"
    using assms rec adm rep fresh
    by (auto simp: collect_event_def Let_def rs'_def [symmetric] s2_def [symmetric] q_def [symmetric] frz_def [symmetric])
  have sub: "set (sorted_tuple rs') \<subseteq> rs'"
    by (cases "finite rs'") simp_all
  show thesis
    by (rule that [OF adm, of "last (traces s')" out])
      (use s' s2_def fresh rep sub admit_event_Inr(1,2) [OF adm] in \<open>auto split: if_splits\<close>)
qed

lemma collect_event_final:
  assumes step: "collect_event sha c s e = Inr s'"
  shows "state s' = STREAMING \<Longrightarrow>
      \<exists>l. last_observation_at s' = Some l \<and> ce_first_seen_at e - l \<le> freshness_limit (co_policy c)"
    and "quality_report s' = Some q \<Longrightarrow> quality_evaluate (co_quality_policy c)
         (dict_values (latest_by_source s')) (Aware (ce_first_seen_at e)) = Inr q"
proof -
  from step obtain acc rs s1 tr rec out where "admit_event sha c e (s\<lparr>records := records s @ [rec]\<rparr>) = Inr (acc, rs, s1)"
    and st: "state s' = fst (apply_freshness c (state s1) (ce_first_seen_at e) (last_observation_at s1))"
    and lat: "latest_by_source s' = latest_by_source s1" "last_observation_at s' = last_observation_at s1"
    and rep: "quality_report s' = None \<and> latest_by_source s1 = [] \<or>
      (\<exists>q. quality_report s' = Some q \<and> quality_evaluate (co_quality_policy c)
         (dict_values (latest_by_source s1)) (Aware (ce_first_seen_at e)) = Inr q)"
    by (rule collect_event_Inr) (rule that)
  from st lat(2) show "state s' = STREAMING \<Longrightarrow>
      \<exists>l. last_observation_at s' = Some l \<and> ce_first_seen_at e - l \<le> freshness_limit (co_policy c)"
    using apply_freshness_Inr(2) by metis
  from rep lat(1) show "quality_report s' = Some q \<Longrightarrow> quality_evaluate (co_quality_policy c)
         (dict_values (latest_by_source s')) (Aware (ce_first_seen_at e)) = Inr q"
    by auto
qed

section \<open>The quotes in force\<close>

text \<open>Read off the events and whether each was accepted: a quote is in force when it was accepted and
  no event accepted after it is a quote of the same source, a lost connection, a rate limit or a stop.\<close>

type_synonym history = "(instant collector_event \<times> bool) list"

definition clears :: "collector_event_kind \<Rightarrow> bool" where
  "clears k \<longleftrightarrow> k \<in> {CONNECTION_LOST, K_RATE_LIMITED, STOP}"

definition quote_source :: "instant collector_event \<Rightarrow> string option" where
  "quote_source e = map_option source (observation e)"

definition supersedes :: "instant collector_event \<Rightarrow> instant collector_event \<Rightarrow> bool" where
  "supersedes d e \<longleftrightarrow> clears (ce_kind d) \<or> (ce_kind d = QUOTE \<and> quote_source d = quote_source e)"

fun in_force :: "history \<Rightarrow> instant collector_event \<Rightarrow> bool" where
  "in_force [] q \<longleftrightarrow> False"
| "in_force ((e, acc) # h) q \<longleftrightarrow>
     (acc \<and> e = q \<and> ce_kind e = QUOTE \<and> observation e \<noteq> None \<and> (\<forall>(d, a) \<in> set h. \<not> (a \<and> supersedes d e))) \<or> in_force h q"

lemma in_force_snoc:
  "in_force (h @ [(d, a)]) q \<longleftrightarrow>
     (a \<and> d = q \<and> ce_kind d = QUOTE \<and> observation d \<noteq> None) \<or> (in_force h q \<and> \<not> (a \<and> supersedes d q))"
  by (induction h) auto

lemma in_force_quote: "in_force h q \<Longrightarrow> (q, True) \<in> set h \<and> ce_kind q = QUOTE \<and> observation q \<noteq> None"
  by (induction h) auto

definition quotes_on_file :: "history \<Rightarrow> run_state \<Rightarrow> bool" where
  "quotes_on_file h s \<longleftrightarrow>
     (\<forall>src ob. map_of (latest_by_source s) src = Some ob \<longleftrightarrow> source ob = src \<and> (\<exists>q. in_force h q \<and> observation q = Some ob))
   \<and> (\<forall>l. last_observation_at s = Some l \<longrightarrow> (\<exists>q. in_force h q \<and> ce_first_seen_at q = l))"

lemma quotes_on_file_values:
  assumes "quotes_on_file h s" and "dict_ok (latest_by_source s)"
  shows "set (dict_values (latest_by_source s)) = {ob. \<exists>q. in_force h q \<and> observation q = Some ob}"
    and "distinct (map source (dict_values (latest_by_source s)))"
proof -
  have mem: "(k, ob) \<in> set (latest_by_source s) \<longleftrightarrow> source ob = k \<and> (\<exists>q. in_force h q \<and> observation q = Some ob)" for k ob
    using assms map_of_eq_Some_iff [of "latest_by_source s" k ob] by (simp add: quotes_on_file_def dict_ok_def)
  have "ob \<in> set (dict_values (latest_by_source s)) \<longleftrightarrow> (\<exists>k. (k, ob) \<in> set (latest_by_source s))" for ob
    by (simp add: dict_values_def image_iff Bex_def)
  then show "set (dict_values (latest_by_source s)) = {ob. \<exists>q. in_force h q \<and> observation q = Some ob}"
    unfolding mem by (intro set_eqI) simp
  have "map source (dict_values (latest_by_source s)) = map fst (latest_by_source s)"
    using mem by (auto simp: dict_values_def)
  with assms(2) show "distinct (map source (dict_values (latest_by_source s)))" by (simp add: dict_ok_def)
qed

text \<open>What an event does to the quotes on file, unless it halts the collector.\<close>

definition same_quotes :: "run_state \<Rightarrow> run_state \<Rightarrow> bool" where
  "same_quotes s t \<longleftrightarrow> latest_by_source t = latest_by_source s \<and> last_observation_at t = last_observation_at s"

definition quotes_move :: "instant collector_event \<Rightarrow> bool \<Rightarrow> run_state \<Rightarrow> run_state \<Rightarrow> bool" where
  "quotes_move e acc s t \<longleftrightarrow>
     (if acc \<and> ce_kind e = QUOTE
      then \<exists>ob. observation e = Some ob \<and> latest_by_source t = AList.update (source ob) ob (latest_by_source s)
             \<and> last_observation_at t = Some (ce_first_seen_at e)
      else if acc \<and> clears (ce_kind e) then latest_by_source t = [] \<and> last_observation_at t = None
      else same_quotes s t)"

lemma quotes_move_records [simp]: "quotes_move e acc (s\<lparr>records := x\<rparr>) t = quotes_move e acc s t"
  by (simp add: quotes_move_def same_quotes_def)

lemma quotes_move_on_file:
  assumes "quotes_on_file h s" and "quotes_move e acc s t"
  shows "quotes_on_file (h @ [(e, acc)]) t"
proof -
  consider (quote) ob where "acc" "ce_kind e = QUOTE" "observation e = Some ob"
      "latest_by_source t = AList.update (source ob) ob (latest_by_source s)" "last_observation_at t = Some (ce_first_seen_at e)"
    | (clear) "acc" "clears (ce_kind e)" "ce_kind e \<noteq> QUOTE" "latest_by_source t = []" "last_observation_at t = None"
    | (same) "\<not> (acc \<and> ce_kind e = QUOTE)" "\<not> (acc \<and> clears (ce_kind e))" "same_quotes s t"
    using assms(2) unfolding quotes_move_def by (auto split: if_splits)
  then show ?thesis
  proof cases
    case quote
    have not_clear: "\<not> clears (ce_kind e)" using quote(2) by (simp add: clears_def)
    have force: "in_force (h @ [(e, acc)]) q \<longleftrightarrow> e = q \<or> (in_force h q \<and> quote_source q \<noteq> Some (source ob))" for q
      using quote(1-3) not_clear in_force_quote [of h q]
      by (cases "observation q") (auto simp: in_force_snoc supersedes_def quote_source_def)
    have "map_of (latest_by_source t) src = Some v \<longleftrightarrow> source v = src \<and> (\<exists>q. in_force (h @ [(e, acc)]) q \<and> observation q = Some v)"
      for src v
    proof (cases "src = source ob")
      case True
      then show ?thesis unfolding force quote(4) update_conv' using quote(3) by (auto simp: quote_source_def)
    next
      case False
      then have "map_of (latest_by_source t) src = map_of (latest_by_source s) src" by (simp add: quote(4) update_conv')
      with False assms(1) quote(3) show ?thesis unfolding force quotes_on_file_def by (auto simp: quote_source_def)
    qed
    with quote(5) force show ?thesis unfolding quotes_on_file_def by auto
  next
    case clear
    then have "\<not> in_force (h @ [(e, acc)]) q" for q by (simp add: in_force_snoc supersedes_def)
    with clear show ?thesis by (simp add: quotes_on_file_def)
  next
    case same
    then have "in_force (h @ [(e, acc)]) q \<longleftrightarrow> in_force h q" for q by (auto simp: in_force_snoc supersedes_def)
    with same(3) assms(1) show ?thesis by (simp add: quotes_on_file_def same_quotes_def)
  qed
qed

lemma apply_quote_move:
  assumes "ce_kind e = QUOTE" and "observation e = Some ob"
  shows "quotes_move e (fst (apply_quote sha c e ob s) = {}) s (snd (apply_quote sha c e ob s))"
  using assms by (auto simp: quotes_move_def same_quotes_def apply_quote_def Let_def clears_def)

lemma apply_event_move:
  assumes "apply_event sha c e s = Inr (rs, t)" and "state t \<noteq> HALTED"
  shows "ce_kind e \<noteq> SCHEMA_DRIFT \<and> quotes_move e (rs = {}) s t"
proof (cases "ce_kind e")
  case QUOTE
  show ?thesis
  proof (cases "state s \<in> {STREAMING, DEGRADED}")
    case True
    with QUOTE assms obtain ob where ob: "observation e = Some ob" "apply_quote sha c e ob s = (rs, t)"
      by (cases "observation e"; cases "state s") (simp_all add: apply_event_def)
    with apply_quote_move [OF QUOTE ob(1), of sha c s] QUOTE show ?thesis by simp
  next
    case False
    with QUOTE assms show ?thesis by (auto simp: apply_event_def quotes_move_def same_quotes_def)
  qed
next
  case CONNECTION_LOST
  with assms show ?thesis
    by (auto simp: apply_event_def Let_def quotes_move_def clears_def clear_quotes_def split: if_splits)
next
  case K_RATE_LIMITED
  with assms show ?thesis
    by (auto simp: apply_event_def Let_def quotes_move_def clears_def clear_quotes_def split: if_splits option.splits)
qed (use assms in \<open>auto simp: apply_event_def Let_def quotes_move_def same_quotes_def clears_def clear_quotes_def split: if_splits\<close>)

lemma apply_event_clock:
  assumes "apply_event sha c e s = Inr (rs, t)"
  shows "previous_first_seen_at t = previous_first_seen_at s"
proof (cases "ce_kind e")
  case QUOTE
  show ?thesis
  proof (cases "state s \<in> {STREAMING, DEGRADED}")
    case True
    with QUOTE assms obtain ob where "apply_quote sha c e ob s = (rs, t)"
      by (cases "observation e"; cases "state s") (simp_all add: apply_event_def)
    then show ?thesis by (auto simp: apply_quote_def Let_def split: if_splits)
  next
    case False
    with QUOTE assms show ?thesis by (simp add: apply_event_def)
  qed
next
  case CONNECTION_LOST
  with assms show ?thesis by (auto simp: apply_event_def Let_def clear_quotes_def split: if_splits)
next
  case K_RATE_LIMITED
  with assms show ?thesis by (auto simp: apply_event_def Let_def clear_quotes_def split: if_splits option.splits)
qed (use assms in \<open>auto simp: apply_event_def Let_def clear_quotes_def split: if_splits\<close>)

definition on_schema :: "collector \<Rightarrow> instant collector_event \<Rightarrow> bool" where
  "on_schema c e \<longleftrightarrow> ce_schema_version e = expected_schema_version c \<and> ce_kind e \<noteq> SCHEMA_DRIFT"

lemma admit_event_move:
  assumes "admit_event sha c e s = Inr (acc, rs, t)"
  shows "previous_first_seen_at t = Some (case previous_first_seen_at s of
      None \<Rightarrow> ce_first_seen_at e | Some p \<Rightarrow> max p (ce_first_seen_at e))"
    and "state t \<noteq> HALTED \<Longrightarrow> quotes_move e acc s t"
    and "state t \<noteq> HALTED \<Longrightarrow> on_schema c e \<or> (\<not> acc \<and> (event_id e \<in> seen_events s
      \<or> (\<exists>p. previous_first_seen_at s = Some p \<and> ce_first_seen_at e < p)))"
proof -
  define s1 where "s1 = s\<lparr>seen_events := insert (event_id e) (seen_events s),
                 duplicate_events := duplicate_events s + (if event_id e \<in> seen_events s then 1 else 0),
                 previous_first_seen_at := Some (case previous_first_seen_at s of
                   None \<Rightarrow> ce_first_seen_at e | Some p \<Rightarrow> max p (ce_first_seen_at e))\<rparr>"
  have s1: "previous_first_seen_at s1 = Some (case previous_first_seen_at s of
        None \<Rightarrow> ce_first_seen_at e | Some p \<Rightarrow> max p (ce_first_seen_at e))"
      "same_quotes s s1" "state s1 = state s" "quotes_move e a s1 u = quotes_move e a s u" for a u
    by (simp_all add: s1_def same_quotes_def quotes_move_def)
  consider (refused) "\<not> acc" "t = s1" "event_id e \<in> seen_events s \<or> (\<exists>p. previous_first_seen_at s = Some p \<and> ce_first_seen_at e < p)"
    | (halted) "state t = HALTED" "previous_first_seen_at t = previous_first_seen_at s1"
    | (applied) "ce_schema_version e = expected_schema_version c" "acc = (rs = {})" "apply_event sha c e s1 = Inr (rs, t)"
    using assms s1(3) unfolding admit_event_def Let_def s1_def [symmetric] by (auto split: if_splits option.splits)
  then have "previous_first_seen_at t = previous_first_seen_at s1 \<and> (state t \<noteq> HALTED \<longrightarrow> quotes_move e acc s t
      \<and> (on_schema c e \<or> (\<not> acc \<and> (event_id e \<in> seen_events s
           \<or> (\<exists>p. previous_first_seen_at s = Some p \<and> ce_first_seen_at e < p)))))"
  proof cases
    case refused
    with s1(2) show ?thesis by (simp add: quotes_move_def)
  next
    case applied
    with apply_event_move [OF applied(3)] apply_event_clock [OF applied(3)] s1(4) show ?thesis by (simp add: on_schema_def)
  qed simp
  with s1(1) show "previous_first_seen_at t = Some (case previous_first_seen_at s of
      None \<Rightarrow> ce_first_seen_at e | Some p \<Rightarrow> max p (ce_first_seen_at e))"
    "state t \<noteq> HALTED \<Longrightarrow> quotes_move e acc s t"
    "state t \<noteq> HALTED \<Longrightarrow> on_schema c e \<or> (\<not> acc \<and> (event_id e \<in> seen_events s
      \<or> (\<exists>p. previous_first_seen_at s = Some p \<and> ce_first_seen_at e < p)))"
    by simp_all
qed

text \<open>The invariant that ties a state to the events read so far.\<close>

definition repeated_or_late :: "instant collector_event list \<Rightarrow> nat \<Rightarrow> bool" where
  "repeated_or_late es i \<longleftrightarrow>
     (\<exists>j < i. event_id (es ! j) = event_id (es ! i) \<or> ce_first_seen_at (es ! i) < ce_first_seen_at (es ! j))"

definition history_of :: "instant collector_event list \<Rightarrow> collector_trace list \<Rightarrow> history" where
  "history_of es trs = zip es (map accepted trs)"

definition tracked :: "collector \<Rightarrow> instant collector_event list \<Rightarrow> run_state \<Rightarrow> bool" where
  "tracked c es s \<longleftrightarrow> map tr_event_id (traces s) = map event_id es \<and> seen_events s = event_id ` set es
   \<and> (\<forall>p. previous_first_seen_at s = Some p \<longrightarrow> p \<in> ce_first_seen_at ` set es)
   \<and> (state s \<noteq> HALTED \<longrightarrow> quotes_on_file (history_of es (traces s)) s
        \<and> (\<forall>i < length es. on_schema c (es ! i) \<or> (\<not> accepted (traces s ! i) \<and> repeated_or_late es i)))"

lemma repeated_or_late_snoc: "i < length es \<Longrightarrow> repeated_or_late (es @ [e]) i = repeated_or_late es i"
  unfolding repeated_or_late_def by (intro ex_cong1) (auto simp: nth_append)

lemma repeated_or_late_last:
  "repeated_or_late (es @ [e]) (length es) \<longleftrightarrow>
     event_id e \<in> event_id ` set es \<or> (\<exists>t \<in> ce_first_seen_at ` set es. ce_first_seen_at e < t)"
proof -
  let ?P = "\<lambda>x. event_id x = event_id e \<or> ce_first_seen_at e < ce_first_seen_at x"
  have "repeated_or_late (es @ [e]) (length es) \<longleftrightarrow> (\<exists>j < length es. ?P (es ! j))"
    unfolding repeated_or_late_def by (intro ex_cong1) (auto simp: nth_append)
  also have "\<dots> \<longleftrightarrow> (\<exists>x \<in> set es. ?P x)"
    using list_ex_length [of ?P es] by (simp add: list_ex_iff)
  also have "\<dots> \<longleftrightarrow> event_id e \<in> event_id ` set es \<or> (\<exists>t \<in> ce_first_seen_at ` set es. ce_first_seen_at e < t)"
    by (simp add: image_iff eq_commute [of "event_id e"] bex_disj_distrib)
  finally show ?thesis .
qed

lemma collect_event_tracked:
  assumes step: "collect_event sha c s e = Inr s'" and s: "tracked c es s"
  shows "tracked c (es @ [e]) s'"
proof -
  from step obtain acc rs s1 tr rec out where adm: "admit_event sha c e (s\<lparr>records := records s @ [rec]\<rparr>) = Inr (acc, rs, s1)"
    and tr: "traces s' = traces s @ [tr]" "tr_event_id tr = event_id e" "accepted tr = acc"
    and st: "state s' = fst (apply_freshness c (state s1) (ce_first_seen_at e) (last_observation_at s1))"
    and same: "seen_events s' = seen_events s1" "latest_by_source s' = latest_by_source s1"
      "last_observation_at s' = last_observation_at s1"
    and prev: "previous_first_seen_at s' = previous_first_seen_at s1"
    by (rule collect_event_Inr) (rule that)
  note a = admit_event_Inr [OF adm, simplified]
  note m = admit_event_move [OF adm, simplified]
  have len: "length (traces s) = length es"
    using s unfolding tracked_def by (metis length_map)
  have seen: "seen_events s' = event_id ` set (es @ [e])" using s same(1) a(3) by (simp add: tracked_def)
  have clock: "p \<in> ce_first_seen_at ` set (es @ [e])" if "previous_first_seen_at s' = Some p" for p
    using that s m(1) prev by (auto simp: tracked_def max_def split: option.splits if_splits)
  have run: "quotes_on_file (history_of (es @ [e]) (traces s')) s'
        \<and> (\<forall>i < length (es @ [e]). on_schema c ((es @ [e]) ! i) \<or> (\<not> accepted (traces s' ! i) \<and> repeated_or_late (es @ [e]) i))"
    if live: "state s' \<noteq> HALTED"
  proof
    have s1: "state s1 \<noteq> HALTED" using live st apply_freshness_Inr(1) by auto
    then have "state s \<noteq> HALTED" using a(9) by auto
    with s have old: "quotes_on_file (history_of es (traces s)) s"
        "\<forall>i < length es. on_schema c (es ! i) \<or> (\<not> accepted (traces s ! i) \<and> repeated_or_late es i)"
      by (simp_all add: tracked_def)
    from quotes_move_on_file [OF old(1) m(2) [OF s1]] show "quotes_on_file (history_of (es @ [e]) (traces s')) s'"
      using len same by (simp add: history_of_def tr quotes_on_file_def)
    have "on_schema c e \<or> (\<not> acc \<and> repeated_or_late (es @ [e]) (length es))"
      using m(3) [OF s1] s unfolding repeated_or_late_last tracked_def by auto
    with old(2) len show "\<forall>i < length (es @ [e]). on_schema c ((es @ [e]) ! i)
        \<or> (\<not> accepted (traces s' ! i) \<and> repeated_or_late (es @ [e]) i)"
      by (auto simp: tr nth_append repeated_or_late_snoc less_Suc_eq)
  qed
  have "map tr_event_id (traces s') = map event_id (es @ [e])" using s tr by (simp add: tracked_def)
  with seen clock run show ?thesis unfolding tracked_def by blast
qed

lemma collect_loop_tracked:
  assumes "collect_loop sha c s es = Inr t" and "tracked c ds s"
  shows "tracked c (ds @ es) t"
  using assms
proof (induction es arbitrary: s ds)
  case (Cons e es)
  then obtain u where u: "collect_event sha c s e = Inr u" "collect_loop sha c u es = Inr t" by auto
  from Cons.IH [OF u(2) collect_event_tracked [OF u(1) Cons.prems(2)]] show ?case by simp
qed simp

lemma initial_run_tracked: "tracked c [] (initial_run c)"
  by (simp add: tracked_def initial_run_def quotes_on_file_def history_of_def)

section \<open>The run as a machine\<close>

text \<open>The loop as a total step: an exception ends the run, so the state then no longer matters.\<close>

definition collect_step :: "(string \<Rightarrow> string) \<Rightarrow> collector \<Rightarrow> run_state \<Rightarrow> instant collector_event \<Rightarrow> run_state" where
  "collect_step sha c s e = (case collect_event sha c s e of Inl _ \<Rightarrow> s | Inr s' \<Rightarrow> s')"

lemma collect_loop_foldl: "collect_loop sha c s es = Inr s' \<Longrightarrow> foldl (collect_step sha c) s es = s'"
  by (induction es arbitrary: s) (auto simp: collect_step_def)

definition run_ok :: "collector \<Rightarrow> run_state \<Rightarrow> bool" where
  "run_ok c s \<longleftrightarrow>
     finite (run_reasons s) \<and> set (capability_reasons c) \<subseteq> run_reasons s
   \<and> (\<forall>tr \<in> set (traces s). tr_event_id tr \<in> seen_events s \<and> mark_le (tr_watermark tr) (watermark s)
        \<and> set (tr_reasons tr) \<inter> run_flags \<subseteq> run_reasons s)
   \<and> distinct (map tr_event_id (filter accepted (traces s)))
   \<and> sorted_wrt mark_le (map tr_watermark (traces s))
   \<and> latest_ok c s"

definition run_le :: "run_state \<Rightarrow> run_state \<Rightarrow> bool" where
  "run_le s t \<longleftrightarrow> prefix (traces s) (traces t) \<and> prefix (records s) (records t) \<and> run_reasons s \<subseteq> run_reasons t
     \<and> (state s = HALTED \<longrightarrow> state t = HALTED
          \<and> (\<forall>tr \<in> set (drop (length (traces s)) (traces t)). \<not> accepted tr \<and> tr_state tr = HALTED))"

lemma run_le_refl [simp]: "run_le s s"
  by (simp add: run_le_def)

lemma run_le_trans:
  assumes "run_le s t" and "run_le t u"
  shows "run_le s u"
proof -
  from assms obtain xs ys where xs: "traces t = traces s @ xs" and ys: "traces u = traces t @ ys"
    by (auto simp: run_le_def prefix_def)
  from assms xs ys show ?thesis
    unfolding run_le_def by (auto simp: ball_Un intro: prefix_order.trans)
qed

lemma collect_event_ok:
  assumes ok: "run_ok c s" and step: "collect_event sha c s e = Inr s'"
  shows "run_ok c s' \<and> run_le s s'"
proof -
  from step obtain acc rs s1 tr rec out where adm: "admit_event sha c e (s\<lparr>records := records s @ [rec]\<rparr>) = Inr (acc, rs, s1)"
    and tr: "traces s' = traces s @ [tr]" "records s' = records s @ [rec, out]" "tr_event_id tr = event_id e"
      "accepted tr = acc" "tr_state tr = state s'" "tr_watermark tr = watermark s'"
    and st: "state s' = fst (apply_freshness c (state s1) (ce_first_seen_at e) (last_observation_at s1))"
    and s': "watermark s' = watermark s1" "seen_events s' = seen_events s1" "latest_by_source s' = latest_by_source s1"
    and rr: "run_reasons s1 \<subseteq> run_reasons s'" "run_reasons s' \<subseteq> run_reasons s1 \<union> run_flags"
      "set (tr_reasons tr) \<inter> run_flags \<subseteq> run_reasons s'"
    by (rule collect_event_Inr) (rule that)
  note a = admit_event_Inr [OF adm, simplified]
  have mono: "mark_le (watermark s) (watermark s')" using a(6) s'(1) by simp
  have fin: "finite (run_reasons s')"
    using ok a(5) rr(2) by (auto simp: run_ok_def run_flags_def intro: finite_subset)
  have "latest_ok c s" using ok by (simp add: run_ok_def)
  then have "latest_ok c s1" by (intro a(7)) (simp add: latest_ok_def)
  then have lat: "latest_ok c s'" by (simp add: latest_ok_def s'(3))
  have seen: "seen_events s' = insert (event_id e) (seen_events s)" using a(3) s'(2) by simp
  have old: "tr_event_id x \<in> seen_events s' \<and> mark_le (tr_watermark x) (watermark s')
      \<and> set (tr_reasons x) \<inter> run_flags \<subseteq> run_reasons s'" if "x \<in> set (traces s)" for x
    using ok that seen mark_le_trans [OF _ mono] a(4) rr(1) unfolding run_ok_def by blast
  have "distinct (map tr_event_id (filter accepted (traces s')))"
    using ok a(8) tr(1,3,4) by (fastforce simp: run_ok_def)
  moreover have "sorted_wrt mark_le (map tr_watermark (traces s'))"
    using ok tr(1,6) mono by (auto simp: run_ok_def sorted_wrt_append intro: mark_le_trans)
  moreover have "set (capability_reasons c) \<subseteq> run_reasons s'"
    using ok a(4) rr(1) by (auto simp: run_ok_def)
  ultimately have "run_ok c s'"
    using fin lat old tr(1,3,6) seen rr(3) unfolding run_ok_def by auto
  moreover have "state s = HALTED \<Longrightarrow> state s' = HALTED \<and> \<not> acc"
    using a(8,9) st apply_freshness_Inr(1) by auto
  ultimately show ?thesis using tr a(4) rr(1) by (auto simp: run_le_def)
qed

interpretation collector_machine: evolving "collect_step sha c" "run_ok c" run_le
proof unfold_locales
  fix s t u :: run_state and e
  show "run_ok c s \<Longrightarrow> run_ok c (collect_step sha c s e)"
    using collect_event_ok by (auto simp: collect_step_def split: sum.split)
  show "run_le s s" by simp
  show "run_le s t \<Longrightarrow> run_le t u \<Longrightarrow> run_le s u" by (rule run_le_trans)
  show "run_ok c s \<Longrightarrow> run_le s (collect_step sha c s e)"
    using collect_event_ok by (auto simp: collect_step_def split: sum.split)
qed

lemma initial_run_ok [simp]: "run_ok c (initial_run c)"
  by (simp add: run_ok_def initial_run_def latest_ok_def dict_values_def)

lemma collect_loop_append:
  "collect_loop sha c s (es @ fs) = res_bind (collect_loop sha c s es) (\<lambda>t. collect_loop sha c t fs)"
proof (induction es arbitrary: s)
  case (Cons e es)
  then show ?case by (cases "collect_event sha c s e") simp_all
qed simp


section \<open>Properties\<close>

lemma collector_run_Inr:
  assumes "collector_run sha c es = Inr r"
  obtains s where "collect_loop sha c (initial_run c) es = Inr s" "run_ok c s"
    "rr_state r = state s" "rr_traces r = traces s" "rr_records r = records s"
    "rr_report r = quality_report s" "rr_reasons r = sorted_tuple (final_reasons c s es)"
proof -
  from assms obtain s where s: "collect_loop sha c (initial_run c) es = Inr s"
    and r: "rr_state r = state s" "rr_traces r = traces s" "rr_records r = records s"
      "rr_report r = quality_report s" "rr_reasons r = sorted_tuple (final_reasons c s es)"
    by (auto simp: collector_run_def)
  have "run_ok c (foldl (collect_step sha c) (initial_run c) es)"
    by (rule collector_machine.run_inv) simp
  then have "run_ok c s" using collect_loop_foldl [OF s] by simp
  with s r that show thesis by blast
qed

lemma final_reasons_finite: "run_ok c s \<Longrightarrow> finite (final_reasons c s es)"
  by (auto simp: final_reasons_def run_ok_def split: option.splits)

lemma collect_loop_last:
  assumes "collect_loop sha c s es = Inr t" and "es \<noteq> []"
  obtains u where "collect_loop sha c s (butlast es) = Inr u" "collect_event sha c u (last es) = Inr t"
proof -
  have "collect_loop sha c s (butlast es @ [last es]) = Inr t" using assms by simp
  then show thesis unfolding collect_loop_append using that by auto
qed

text \<open>C6. A run permits a decision only on sound evidence.  Then the capability is configured,
  verified, production ready and green, the session gate has no objection at the last event and the
  last state is \<open>STREAMING\<close>.  The quotes that were graded are exactly the latest accepted one of each source:
  those of events accepted in the run after which neither a quote of the same source was accepted nor a lost
  connection, a rate limit or a stop; all are of the expected instrument, one was seen within the freshness limit before the last
  event, and they grade green and unfrozen at the time of the last event.  Every event has its trace, and
  every event has the expected schema and announces no drift, unless it was refused as the
  repetition of an earlier identity or as first seen before an earlier event; and no trace
  names a drift, exhausted retries or an invalid retry delay.\<close>

theorem collector_permits_safe:
  assumes run: "collector_run sha c es = Inr r" and permit: "run_permits_decision r"
  shows "es \<noteq> [] \<and> rr_state r = STREAMING
   \<and> configured (capability c) \<and> verification_status (capability c) = ''VERIFIED''
   \<and> production_ready (capability c) \<and> cap_quality (capability c) = GREEN
   \<and> (case session_gate c of None \<Rightarrow> True | Some g \<Rightarrow> g (ce_first_seen_at (last es)) = [])
   \<and> (\<exists>obs q. quality_evaluate (co_quality_policy c) obs (Aware (ce_first_seen_at (last es))) = Inr q
        \<and> rr_report r = Some q \<and> permits_decision q
        \<and> distinct (map source obs)
        \<and> set obs = {ob. \<exists>e. in_force (zip es (map accepted (rr_traces r))) e \<and> observation e = Some ob}
        \<and> (\<forall>ob \<in> set obs. instrument_id ob = expected_instrument_id c))
   \<and> (\<exists>e. in_force (zip es (map accepted (rr_traces r))) e
        \<and> ce_first_seen_at (last es) - ce_first_seen_at e \<le> freshness_limit (co_policy c))
   \<and> map tr_event_id (rr_traces r) = map event_id es
   \<and> (\<forall>i < length es. (ce_schema_version (es ! i) = expected_schema_version c \<and> ce_kind (es ! i) \<noteq> SCHEMA_DRIFT)
        \<or> (\<not> accepted (rr_traces r ! i)
            \<and> (\<exists>j < i. event_id (es ! j) = event_id (es ! i) \<or> ce_first_seen_at (es ! i) < ce_first_seen_at (es ! j))))
   \<and> (\<forall>tr \<in> set (rr_traces r). set (tr_reasons tr) \<inter>
        {''SCHEMA_DRIFT'', ''RECONNECT_BUDGET_EXHAUSTED'', ''INVALID_RETRY_AFTER''} = {})"
proof -
  from run obtain s where s: "collect_loop sha c (initial_run c) es = Inr s" "run_ok c s"
    and r: "rr_state r = state s" "rr_traces r = traces s" "rr_report r = quality_report s"
      "rr_reasons r = sorted_tuple (final_reasons c s es)"
    by (rule collector_run_Inr) (rule that)
  have none: "final_reasons c s es = {}"
    using permit r(4) final_reasons_finite [OF s(2)] by (simp add: run_permits_decision_def)
  from permit r(1,3) obtain q where st: "state s = STREAMING" and q: "quality_report s = Some q" "permits_decision q"
    by (auto simp: run_permits_decision_def split: option.splits)
  have ne: "es \<noteq> []" using s(1) st by (auto simp: initial_run_def)
  obtain u where "collect_loop sha c (initial_run c) (butlast es) = Inr u"
    and u: "collect_event sha c u (last es) = Inr s"
    using s(1) ne by (rule collect_loop_last)
  note fin = collect_event_final [OF u]
  let ?h = "zip es (map accepted (traces s))"
  have tracked: "map tr_event_id (traces s) = map event_id es" "quotes_on_file ?h s"
      "\<forall>i < length es. on_schema c (es ! i) \<or> (\<not> accepted (traces s ! i) \<and> repeated_or_late es i)"
    using collect_loop_tracked [OF s(1) initial_run_tracked] st by (simp_all add: tracked_def history_of_def)
  have caps: "capability_reasons c = []" and flags: "run_reasons s = {}"
    using none s(2) by (auto simp: final_reasons_def run_ok_def)
  have latest: "latest_ok c s" using s(2) by (simp add: run_ok_def)
  have "\<forall>tr \<in> set (traces s). set (tr_reasons tr) \<inter> run_flags = {}"
    using s(2) flags by (auto simp: run_ok_def)
  moreover have "configured (capability c) \<and> verification_status (capability c) = ''VERIFIED''
      \<and> production_ready (capability c) \<and> cap_quality (capability c) = GREEN"
    using caps by (simp add: capability_reasons_def Let_def split: if_splits)
  moreover have "case session_gate c of None \<Rightarrow> True | Some g \<Rightarrow> g (ce_first_seen_at (last es)) = []"
    using none ne by (auto simp: final_reasons_def split: option.splits)
  moreover have "\<exists>e. in_force ?h e \<and> ce_first_seen_at (last es) - ce_first_seen_at e \<le> freshness_limit (co_policy c)"
    using fin(1) [OF st] tracked(2) unfolding quotes_on_file_def by blast
  moreover have "\<exists>obs q. quality_evaluate (co_quality_policy c) obs (Aware (ce_first_seen_at (last es))) = Inr q
      \<and> rr_report r = Some q \<and> permits_decision q \<and> distinct (map source obs)
      \<and> set obs = {ob. \<exists>e. in_force ?h e \<and> observation e = Some ob}
      \<and> (\<forall>ob \<in> set obs. instrument_id ob = expected_instrument_id c)"
    using fin(2) [OF q(1)] r(3) q quotes_on_file_values [OF tracked(2)] latest
    by (intro exI [of _ "dict_values (latest_by_source s)"] exI [of _ q]) (simp add: latest_ok_def)
  ultimately show ?thesis
    using ne st r(1,2) tracked(1,3) unfolding run_flags_def on_schema_def repeated_or_late_def by simp
qed

text \<open>A halted collector stays halted: once a run of some events has halted, in every longer run
  every later event is refused, leaves the state halted, and the run never permits a decision; its
  traces and records only grow.\<close>

theorem collector_halt_is_final:
  assumes first: "collector_run sha c es = Inr r" and halted: "rr_state r = HALTED"
    and longer: "collector_run sha c (es @ fs) = Inr r'"
  shows "rr_state r' = HALTED \<and> \<not> run_permits_decision r'
   \<and> prefix (rr_traces r) (rr_traces r') \<and> prefix (rr_records r) (rr_records r')
   \<and> (\<forall>tr \<in> set (drop (length (rr_traces r)) (rr_traces r')). \<not> accepted tr \<and> tr_state tr = HALTED)"
proof -
  from first obtain s where s: "collect_loop sha c (initial_run c) es = Inr s" "run_ok c s"
    and r: "rr_state r = state s" "rr_traces r = traces s" "rr_records r = records s"
    by (rule collector_run_Inr) (rule that)
  from longer obtain t where t: "collect_loop sha c (initial_run c) (es @ fs) = Inr t"
    and r': "rr_state r' = state t" "rr_traces r' = traces t" "rr_records r' = records t"
    by (rule collector_run_Inr) (rule that)
  have "foldl (collect_step sha c) s fs = t"
    using s(1) t collect_loop_foldl by (auto simp: collect_loop_append)
  then have "run_le s t" using collector_machine.run_rel [OF s(2)] by blast
  with halted show ?thesis by (auto simp: run_le_def r r' run_permits_decision_def)
qed

text \<open>Along a run no event identity is accepted twice and the watermark never moves back: the
  accepted traces have distinct events, and a trace with a watermark is followed only by traces with
  the same or a later one.\<close>

theorem collector_trace_order:
  assumes "collector_run sha c es = Inr r"
  shows "distinct (map tr_event_id (filter accepted (rr_traces r)))
   \<and> (\<forall>i j w. i < j \<longrightarrow> j < length (rr_traces r) \<longrightarrow> tr_watermark (rr_traces r ! i) = Some w
        \<longrightarrow> (\<exists>w'. tr_watermark (rr_traces r ! j) = Some w' \<and> w \<le> w'))"
proof -
  from assms obtain s where s: "run_ok c s" "rr_traces r = traces s"
    by (rule collector_run_Inr) (rule that)
  have "mark_le (tr_watermark (traces s ! i)) (tr_watermark (traces s ! j))" if "i < j" "j < length (traces s)" for i j
    using s(1) that by (auto simp: run_ok_def sorted_wrt_iff_nth_less)
  with s show ?thesis unfolding mark_le_def by (auto simp: run_ok_def)
qed

definition example_collector :: collector where
  "example_collector = \<lparr>co_provider = ''p'', co_provider_version = ''1'', expected_schema_version = ''s1'',
     expected_instrument_id = ''SPX'',
     capability = \<lparr>cap_provider = ''p'', configured = True, verification_status = ''VERIFIED'',
       production_ready = True, cap_quality = GREEN\<rparr>,
     co_policy = \<lparr>base_backoff = seconds 1, max_backoff = seconds 30, max_reconnect_attempts = 5,
       allowed_lateness = 250000, freshness_limit = seconds 5\<rparr>,
     co_quality_policy = example_quality_policy\<lparr>require_two_sources := False\<rparr>, session_gate = None\<rparr>"

definition event :: "string \<Rightarrow> collector_event_kind \<Rightarrow> string \<Rightarrow> instant quote_observation option \<Rightarrow> instant collector_event" where
  "event i k sv ob = \<lparr>event_id = i, ce_kind = k, ce_published_at = 12, ce_first_seen_at = 12,
     ce_schema_version = sv, payload = [], observation = ob\<rparr>"

lemma plain_text:
  "strip ''p'' = ''p''" "strip ''1'' = ''1''" "strip ''s1'' = ''s1''" "strip ''s2'' = ''s2''"
  "strip ''marketpilot'' = ''marketpilot''" "strip ''collector-v1'' = ''collector-v1''"
  "strip ''collector-output-v1'' = ''collector-output-v1''"
  "strip ''collector-event:p:1'' = ''collector-event:p:1''" "strip ''collector-output:p:1'' = ''collector-output:p:1''"
  "strip ''collector-event:p:2'' = ''collector-event:p:2''" "strip ''collector-output:p:2'' = ''collector-output:p:2''"
  "strip ''collector-event:p:3'' = ''collector-event:p:3''" "strip ''collector-output:p:3'' = ''collector-output:p:3''"
  by (simp_all add: strip_def lstrip_def is_space_def)

definition example_events :: "instant collector_event list" where
  "example_events = [event ''1'' START ''s1'' None, event ''2'' CONNECTED ''s1'' None,
     event ''3'' QUOTE ''s1'' (Some (example_quote ''a'' 9))]"

lemma example_grade:
  "\<exists>q. quality_evaluate (example_quality_policy\<lparr>require_two_sources := False\<rparr>) [example_quote ''a'' 9] (Aware 12) = Inr q
     \<and> permits_decision q"
proof -
  let ?p = "example_quality_policy\<lparr>require_two_sources := False\<rparr>"
  obtain r where r: "quality_evaluate ?p [example_quote ''a'' 9] (Aware 12) = Inr r"
    using quality_evaluate_ok by blast
  have v: "mk_quality_policy ?p = Inr ?p" by (simp add: mk_quality_policy_def example_quality_policy_def)
  have "permits_decision r"
    unfolding quality_green_iff [OF v r]
    by (simp add: example_quote_def example_quality_policy_def attr_missing_def quote_green_def opt_neg_def
        opt_zero_def has_conflict_def)
  with r show ?thesis by blast
qed

lemma event_record_event:
  "strip (''collector-event:p:'' @ i) \<noteq> [] \<Longrightarrow> strip sv \<noteq> [] \<Longrightarrow>
     event_record raw_sha ''p'' ''1'' (event i k sv ob) = Inr (projr (event_record raw_sha ''p'' ''1'' (event i k sv ob)))"
  by (simp add: event_record_def event_def pit_create_def plain_text Let_def)

definition output_rec :: "(string \<Rightarrow> string) \<Rightarrow> string \<Rightarrow> instant \<Rightarrow> (string, pyval) dict \<Rightarrow> pit_record" where
  "output_rec sha key t cnt =
     projr (pit_create sha key (Aware t) (Aware t) ''marketpilot'' ''collector-v1'' ''collector-output-v1'' cnt)"

lemma output_record:
  "strip key \<noteq> [] \<Longrightarrow>
     pit_create sha key (Aware t) (Aware t) ''marketpilot'' ''collector-v1'' ''collector-output-v1'' cnt
       = Inr (output_rec sha key t cnt)"
  by (simp add: output_rec_def pit_create_def plain_text Let_def)

text \<open>The part of the state that decides what happens next.\<close>

definition control :: "run_state \<Rightarrow> (collector_state \<times> instant option \<times> instant option \<times> instant option)
    \<times> (string set \<times> string set \<times> (string, instant quote_observation) dict \<times> string set \<times> instant option)" where
  "control s = ((state s, next_retry_at s, watermark s, last_observation_at s),
     (seen_events s, seen_observations s, latest_by_source s, run_reasons s, previous_first_seen_at s))"

lemma collect_event_eval:
  assumes i: "strip (''collector-event:p:'' @ i) \<noteq> []" "strip (''collector-output:p:'' @ i) \<noteq> []" "strip sv \<noteq> []"
    and adm: "\<And>rec. admit_event raw_sha example_collector (event i k sv ob) (s\<lparr>records := records s @ [rec]\<rparr>)
        = Inr (acc, rs, t rec)"
    and t: "\<And>rec. control (t rec) = ((st, nr, wm, lo), (se, so, lat, rr, pr))"
    and rep: "(if lat = [] then Inr None
               else res_bind (quality_evaluate (co_quality_policy example_collector) (dict_values lat)
                                (Aware 12)) (\<lambda>q. Inr (Some q))) = Inr report"
    and fr: "apply_freshness example_collector st 12 lo = (st', fr)"
    and flags: "(case fr of None \<Rightarrow> rs | Some f \<Rightarrow> insert f rs) \<inter> run_flags \<subseteq> rr"
  shows "\<exists>s'. collect_event raw_sha example_collector s (event i k sv ob) = Inr s' \<and> quality_report s' = report
     \<and> control s' = ((st', nr, wm, lo), (se, so, lat, rr, pr))"
proof -
  define rec where "rec = projr (event_record raw_sha ''p'' ''1'' (event i k sv ob))"
  have p: "co_provider example_collector = ''p''" "co_provider_version example_collector = ''1''"
    by (simp_all add: example_collector_def)
  have e: "ce_first_seen_at (event i k sv ob) = 12" "event_id (event i k sv ob) = i" by (simp_all add: event_def)
  have r: "event_record raw_sha ''p'' ''1'' (event i k sv ob) = Inr rec"
    unfolding rec_def by (rule event_record_event [OF i(1,3)])
  have c: "latest_by_source (t rec) = lat" "state (t rec) = st" "last_observation_at (t rec) = lo"
    using t [of rec] by (simp_all add: control_def)
  have "run_reasons (t rec) = rr" using t [of rec] by (simp add: control_def)
  then have fl: "run_reasons (t rec) \<union> (case fr of None \<Rightarrow> rs | Some f \<Rightarrow> insert f rs) \<inter> run_flags = run_reasons (t rec)"
    using flags by (simp add: Un_absorb2)
  have rep': "(if latest_by_source (t rec) = [] then Inr None
               else res_bind (quality_evaluate (co_quality_policy example_collector) (dict_values (latest_by_source (t rec)))
                                (Aware 12)) (\<lambda>q. Inr (Some q))) = Inr report"
    unfolding c(1) by (rule rep)
  obtain s' where s': "collect_event raw_sha example_collector s (event i k sv ob) = Inr s'"
    and q: "quality_report s' = report"
    and f: "control s' = control ((t rec)\<lparr>state := st'\<rparr>)"
    using i(2) fl
      output_record [of "''collector-output:'' @ ''p'' @ '':'' @ i" raw_sha 12]
    unfolding collect_event_def p r res_bind_simps adm prod.case rep' c(2,3) e fr Let_def
    by (auto simp: control_def)
  from f t [of rec] have "control s' = ((st', nr, wm, lo), (se, so, lat, rr, pr))" by (simp add: control_def)
  with s' q show ?thesis by blast
qed


text \<open>Each step of the example, from any state with the given control part.\<close>

lemma example_start:
  assumes "control s = ((STOPPED, None, None, None), ({}, {}, [], {}, None))"
  shows "\<exists>s'. collect_event raw_sha example_collector s (event ''1'' START ''s1'' None) = Inr s' \<and> quality_report s' = None
     \<and> control s' = ((CONNECTING, None, None, None), ({''1''}, {}, [], {}, Some 12))"
  using assms
  by (intro collect_event_eval [where t = "\<lambda>rec. s\<lparr>records := records s @ [rec], seen_events := {''1''},
        duplicate_events := duplicate_events s, previous_first_seen_at := Some 12, state := CONNECTING\<rparr>"
      and rs = "{}" and acc = True and st = CONNECTING and fr = None])
    (simp_all add: control_def admit_event_def apply_event_def Let_def event_def example_collector_def
      apply_freshness_def plain_text)

lemma example_connect:
  assumes "control s = ((CONNECTING, None, None, None), ({''1''}, {}, [], {}, Some 12))"
  shows "\<exists>s'. collect_event raw_sha example_collector s (event ''2'' CONNECTED ''s1'' None) = Inr s' \<and> quality_report s' = None
     \<and> control s' = ((DEGRADED, None, None, None), ({''2'', ''1''}, {}, [], {}, Some 12))"
  using assms
  by (intro collect_event_eval [where t = "\<lambda>rec. s\<lparr>records := records s @ [rec], seen_events := {''2'', ''1''},
        duplicate_events := duplicate_events s, previous_first_seen_at := Some 12, state := STREAMING,
        next_retry_at := None, attempts := 0\<rparr>"
      and rs = "{}" and acc = True and st = STREAMING and fr = "Some ''COLLECTOR_STALE''"])
    (simp_all add: control_def admit_event_def apply_event_def Let_def event_def example_collector_def
      apply_freshness_def plain_text run_flags_def)

lemma example_take_quote:
  assumes "control s = ((DEGRADED, None, None, None), ({''2'', ''1''}, {}, [], {}, Some 12))"
    and q: "quality_evaluate (example_quality_policy\<lparr>require_two_sources := False\<rparr>) [example_quote ''a'' 9] (Aware 12) = Inr q"
  shows "\<exists>s'. collect_event raw_sha example_collector s (event ''3'' QUOTE ''s1'' (Some (example_quote ''a'' 9))) = Inr s'
     \<and> quality_report s' = Some q
     \<and> control s' = ((STREAMING, None, Some 10, Some 12), ({''3'', ''2'', ''1''},
          {observation_fingerprint raw_sha (example_quote ''a'' 9) ''s1''}, [(''a'', example_quote ''a'' 9)], {}, Some 12))"
proof -
  have f: "instrument_id (example_quote ''a'' 9) = ''SPX''" "source (example_quote ''a'' 9) = ''a''"
    "source_ts (example_quote ''a'' 9) = 10" by (simp_all add: example_quote_def)
  show ?thesis
    using assms(1) q
    by (intro collect_event_eval [where t = "\<lambda>rec. s\<lparr>records := records s @ [rec], seen_events := {''3'', ''2'', ''1''},
          duplicate_events := duplicate_events s, previous_first_seen_at := Some 12,
          seen_observations := {observation_fingerprint raw_sha (example_quote ''a'' 9) ''s1''},
          latest_by_source := [(''a'', example_quote ''a'' 9)], watermark := Some 10, last_observation_at := Some 12,
          accepted_quotes := accepted_quotes s + 1, state := STREAMING\<rparr>"
        and rs = "{}" and acc = True and st = STREAMING and fr = None])
      (simp_all add: control_def admit_event_def apply_event_def apply_quote_def Let_def event_def
        example_collector_def apply_freshness_def plain_text f dict_values_def seconds_def)
qed

lemma example_run_permits:
  "\<exists>r. collector_run raw_sha example_collector example_events = Inr r \<and> run_permits_decision r"
proof -
  obtain q where q: "quality_evaluate (example_quality_policy\<lparr>require_two_sources := False\<rparr>) [example_quote ''a'' 9] (Aware 12) = Inr q"
    "permits_decision q" using example_grade by blast
  have "control (initial_run example_collector) = ((STOPPED, None, None, None), ({}, {}, [], {}, None))"
    by (simp add: control_def initial_run_def capability_reasons_def example_collector_def Let_def)
  from example_start [OF this] obtain s1 where s1:
      "collect_event raw_sha example_collector (initial_run example_collector) (event ''1'' START ''s1'' None) = Inr s1"
      "control s1 = ((CONNECTING, None, None, None), ({''1''}, {}, [], {}, Some 12))" by blast
  from example_connect [OF s1(2)] obtain s2 where s2:
      "collect_event raw_sha example_collector s1 (event ''2'' CONNECTED ''s1'' None) = Inr s2"
      "control s2 = ((DEGRADED, None, None, None), ({''2'', ''1''}, {}, [], {}, Some 12))" by blast
  from example_take_quote [OF s2(2) q(1)] obtain s3 where s3:
      "collect_event raw_sha example_collector s2 (event ''3'' QUOTE ''s1'' (Some (example_quote ''a'' 9))) = Inr s3"
      "quality_report s3 = Some q" "state s3 = STREAMING" "run_reasons s3 = {}" by (auto simp: control_def)
  have "session_gate example_collector = None" by (simp add: example_collector_def)
  with s1(1) s2(1) s3 q(2) show ?thesis
    by (simp add: collector_run_def example_events_def run_permits_decision_def final_reasons_def)
qed

theorem collector_permits_safe_witness:
  "\<exists>r e. collector_run raw_sha example_collector example_events = Inr r \<and> rr_state r = STREAMING
     \<and> rr_report r \<noteq> None \<and> in_force (zip example_events (map accepted (rr_traces r))) e
     \<and> map tr_event_id (rr_traces r) = [''1'', ''2'', ''3'']"
proof -
  obtain r where r: "collector_run raw_sha example_collector example_events = Inr r" "run_permits_decision r"
    using example_run_permits by blast
  note safe = collector_permits_safe [OF this, THEN conjunct2, THEN conjunct2, THEN conjunct2, THEN conjunct2,
      THEN conjunct2, THEN conjunct2, THEN conjunct2, THEN conjunct2]
  from safe [THEN conjunct1] obtain e where "in_force (zip example_events (map accepted (rr_traces r))) e"
    by (elim exE conjE)
  moreover note safe [THEN conjunct2, THEN conjunct1]
  moreover have "map event_id example_events = [''1'', ''2'', ''3'']" by (simp add: example_events_def event_def)
  moreover have "rr_report r \<noteq> None" "rr_state r = STREAMING"
    using r(2) by (auto simp: run_permits_decision_def split: option.splits)
  ultimately show ?thesis using r(1) by (intro exI [of _ r] exI [of _ e]) simp
qed

theorem collector_trace_order_witness:
  "\<exists>r. collector_run raw_sha example_collector example_events = Inr r
     \<and> distinct (map tr_event_id (filter accepted (rr_traces r)))"
proof -
  obtain r where r: "collector_run raw_sha example_collector example_events = Inr r"
    using example_run_permits by blast
  from collector_trace_order [OF this] r show ?thesis by auto
qed

text \<open>An event with another schema version halts the collector.\<close>

lemma example_drift:
  assumes "control s = ((st, None, None, None), ({}, {}, [], rr, None))"
  shows "\<exists>s'. collect_event raw_sha example_collector s (event ''1'' START ''s2'' None) = Inr s' \<and> quality_report s' = None
     \<and> control s' = ((HALTED, None, None, None), ({''1''}, {}, [], insert ''SCHEMA_DRIFT'' rr, Some 12))"
  using assms
  by (intro collect_event_eval [where t = "\<lambda>rec. s\<lparr>records := records s @ [rec], seen_events := {''1''},
        duplicate_events := duplicate_events s, previous_first_seen_at := Some 12, state := HALTED,
        run_reasons := insert ''SCHEMA_DRIFT'' (run_reasons s)\<rparr>"
      and rs = "{''SCHEMA_DRIFT''}" and acc = False and st = HALTED and fr = None])
    (simp_all add: control_def admit_event_def Let_def event_def example_collector_def
      apply_freshness_def plain_text run_flags_def)

lemma example_after_drift:
  assumes "control s = ((HALTED, None, None, None), ({''1''}, {}, [], {''SCHEMA_DRIFT''}, Some 12))"
  shows "\<exists>s'. collect_event raw_sha example_collector s (event ''2'' START ''s1'' None) = Inr s' \<and> quality_report s' = None
     \<and> control s' = ((HALTED, None, None, None), ({''2'', ''1''}, {}, [], {''SCHEMA_DRIFT''}, Some 12))"
  using assms
  by (intro collect_event_eval [where t = "\<lambda>rec. s\<lparr>records := records s @ [rec], seen_events := {''2'', ''1''},
        duplicate_events := duplicate_events s, previous_first_seen_at := Some 12\<rparr>"
      and rs = "{''COLLECTOR_HALTED''}" and acc = False and st = HALTED and fr = None])
    (simp_all add: control_def admit_event_def Let_def event_def example_collector_def
      apply_freshness_def plain_text run_flags_def)

theorem collector_halt_is_final_witness:
  "\<exists>r. collector_run raw_sha example_collector ([event ''1'' START ''s2'' None] @ [event ''2'' START ''s1'' None]) = Inr r
     \<and> rr_state r = HALTED \<and> \<not> run_permits_decision r"
proof -
  have "control (initial_run example_collector) = ((STOPPED, None, None, None), ({}, {}, [], {}, None))"
    by (simp add: control_def initial_run_def capability_reasons_def example_collector_def Let_def)
  from example_drift [OF this] obtain s1 where s1:
      "collect_event raw_sha example_collector (initial_run example_collector) (event ''1'' START ''s2'' None) = Inr s1"
      "control s1 = ((HALTED, None, None, None), ({''1''}, {}, [], {''SCHEMA_DRIFT''}, Some 12))" by blast
  from example_after_drift [OF s1(2)] obtain s2 where s2:
      "collect_event raw_sha example_collector s1 (event ''2'' START ''s1'' None) = Inr s2" by blast
  have "state s1 = HALTED" using s1(2) by (simp add: control_def)
  with s1(1) obtain r where r: "collector_run raw_sha example_collector [event ''1'' START ''s2'' None] = Inr r"
      "rr_state r = HALTED" by (simp add: collector_run_def)
  from s1(1) s2 obtain r' where r': "collector_run raw_sha example_collector
      ([event ''1'' START ''s2'' None] @ [event ''2'' START ''s1'' None]) = Inr r'"
    by (simp add: collector_run_def)
  from collector_halt_is_final [OF r r'] r' show ?thesis by blast
qed

end
