(* ===== verification/Condor.thy ===== *)
theory Condor
  imports Strikes "HOL-Library.Multiset"
begin

text \<open>
  The iron condor backtest: one day of option quotes (\<open>features/day_structure.py\<close>), the fee
  schedule (\<open>validation/fee_model.py\<close>), the recommended tail distances
  (\<open>validation/tail_distances.py\<close>) and the economics built on them
  (\<open>validation/condor_economics.py\<close>): the entry fill, the settlement, the day, the summary and
  the batch.  Floats are exact rationals, so the finiteness checks have no counterpart and
  the tolerances are compared as written.  The wall clock of New York is a parameter
  \<open>et_utc day time\<close>, and the loader of a day's chain is a parameter whose exceptions are
  left values.
\<close>

section \<open>One day of quotes\<close>

record 't minute_bar =
  bar_ts :: 't
  bar_open :: rat
  bar_high :: rat
  bar_low :: rat
  bar_close :: rat
  bar_volume :: rat

definition mk_minute_bar :: "datetime minute_bar \<Rightarrow> instant minute_bar result" where
  "mk_minute_bar b =
     res_bind (to_utc (DayStructureError ''ts must be timezone-aware'') (bar_ts b)) (\<lambda>t.
       if bar_low b > bar_high b then Inl (DayStructureError ''low must not exceed high'')
       else if \<not> (bar_low b \<le> bar_open b \<and> bar_open b \<le> bar_high b
                  \<and> bar_low b \<le> bar_close b \<and> bar_close b \<le> bar_high b)
         then Inl (DayStructureError ''open/close must lie within [low, high]'')
       else if bar_volume b < 0 then Inl (DayStructureError ''volume must not be negative'')
       else Inr \<lparr>bar_ts = t, bar_open = bar_open b, bar_high = bar_high b, bar_low = bar_low b,
                 bar_close = bar_close b, bar_volume = bar_volume b\<rparr>)"

record 't option_quote =
  q_ts :: 't
  q_symbol :: string
  q_bid :: "rat option"
  q_ask :: "rat option"
  q_bid_size :: int
  q_ask_size :: int

definition below :: "rat option \<Rightarrow> rat \<Rightarrow> bool" where
  "below v x = (case v of None \<Rightarrow> False | Some y \<Rightarrow> y < x)"

definition crossed :: "'t option_quote \<Rightarrow> bool" where
  "crossed q = (case (q_bid q, q_ask q) of (Some b, Some a) \<Rightarrow> a < b | _ \<Rightarrow> False)"

definition mk_option_quote :: "datetime option_quote \<Rightarrow> instant option_quote result" where
  "mk_option_quote q =
     res_bind (to_utc (DayStructureError ''ts must be timezone-aware'') (q_ts q)) (\<lambda>t.
       if length (q_symbol q) \<noteq> 21
         then Inl (DayStructureError ''symbol must be the 21-character padded OSI form'')
       else if below (q_bid q) 0 then Inl (DayStructureError ''bid must not be negative'')
       else if below (q_ask q) 0 then Inl (DayStructureError ''ask must not be negative'')
       else if crossed q then Inl (DayStructureError ''bid must not exceed ask'')
       else if q_bid_size q < 0 \<or> q_ask_size q < 0
         then Inl (DayStructureError ''sizes must not be negative'')
       else Inr \<lparr>q_ts = t, q_symbol = q_symbol q, q_bid = q_bid q, q_ask = q_ask q,
                 q_bid_size = q_bid_size q, q_ask_size = q_ask_size q\<rparr>)"

type_synonym quote = "instant option_quote"

record chain_day =
  cd_day :: pydate
  cd_bars :: "instant minute_bar list"
  cd_quotes :: "quote list"

definition mk_chain_day :: "chain_day \<Rightarrow> chain_day result" where
  "mk_chain_day c =
     (if cd_bars c = [] then Inl (DayStructureError ''underlying_bars must not be empty'')
      else if cd_quotes c = [] then Inl (DayStructureError ''quotes must not be empty'')
      else if \<not> sorted (map bar_ts (cd_bars c))
        then Inl (DayStructureError ''underlying_bars must be time-ordered'')
      else if \<not> sorted (map q_ts (cd_quotes c))
        then Inl (DayStructureError ''quotes must be time-ordered'')
      else Inr c)"

section \<open>Fees\<close>

record fee_schedule =
  fs_version :: string
  commission_per_contract_usd :: rat
  regulatory_per_contract_usd :: rat
  fixed_per_order_usd :: rat

definition expected_version :: string where "expected_version = ''fees-v1''"
definition condor_leg_count :: int where "condor_leg_count = 4"
definition spxw_point_value_usd :: rat where "spxw_point_value_usd = 100"

text \<open>\<open>repr\<close> of a string without quotes or characters to escape.\<close>

definition quoted :: "string \<Rightarrow> string" where
  "quoted s = CHR 0x27 # s @ [CHR 0x27]"

definition finite_non_negative :: "rat \<Rightarrow> string \<Rightarrow> rat result" where
  "finite_non_negative v name =
     (if v < 0 then Inl (FeeModelError (name @ '' must not be negative'')) else Inr v)"

definition mk_fee_schedule :: "fee_schedule \<Rightarrow> fee_schedule result" where
  "mk_fee_schedule s =
     (if fs_version s \<noteq> expected_version
      then Inl (FeeModelError (''fee schedule version must be '' @ quoted expected_version
             @ '', got '' @ quoted (fs_version s)))
      else res_bind (finite_non_negative (commission_per_contract_usd s) ''commission_per_contract_usd'') (\<lambda>c.
           res_bind (finite_non_negative (regulatory_per_contract_usd s) ''regulatory_per_contract_usd'') (\<lambda>r.
           res_bind (finite_non_negative (fixed_per_order_usd s) ''fixed_per_order_usd'') (\<lambda>f.
             Inr \<lparr>fs_version = fs_version s, commission_per_contract_usd = c,
                  regulatory_per_contract_usd = r, fixed_per_order_usd = f\<rparr>))))"

text \<open>
  A decoded TOML document.  The decoder itself is the library's; a document it rejects is
  \<open>None\<close>.
\<close>

datatype toml =
    TStr string
  | TBool bool
  | TInt int
  | TFloat rat
  | TTable "(string \<times> toml) list"
  | TOther

definition required_number :: "toml option \<Rightarrow> string \<Rightarrow> string \<Rightarrow> rat result" where
  "required_number mapping key table =
     (let missing = Inl (FeeModelError (''fee schedule is missing ['' @ table @ ''] '' @ key)) in
      case mapping of
        Some (TTable d) \<Rightarrow>
          (case map_of d key of
             None \<Rightarrow> missing
           | Some (TInt i) \<Rightarrow> Inr (of_int i)
           | Some (TFloat x) \<Rightarrow> Inr x
           | Some _ \<Rightarrow> Inl (FeeModelError (''fee schedule ['' @ table @ ''] '' @ key @ '' must be numeric'')))
      | _ \<Rightarrow> missing)"

definition load_fee_schedule :: "(string \<times> toml) list option \<Rightarrow> fee_schedule result" where
  "load_fee_schedule doc =
     (case doc of
        None \<Rightarrow> Inl (FeeModelError ''malformed fee schedule TOML'')
      | Some raw \<Rightarrow>
          (case map_of raw ''version'' of
             Some (TStr v) \<Rightarrow>
               res_bind (required_number (map_of raw ''per_contract'') ''commission_usd'' ''per_contract'') (\<lambda>c.
               res_bind (required_number (map_of raw ''per_contract'') ''regulatory_usd'' ''per_contract'') (\<lambda>r.
               res_bind (required_number (map_of raw ''per_order'') ''fixed_usd'' ''per_order'') (\<lambda>f.
                 mk_fee_schedule \<lparr>fs_version = v, commission_per_contract_usd = c,
                   regulatory_per_contract_usd = r, fixed_per_order_usd = f\<rparr>)))
           | _ \<Rightarrow> Inl (FeeModelError ''fee schedule must declare a string version'')))"

definition fees_for_condor :: "fee_schedule \<Rightarrow> int \<Rightarrow> bool \<Rightarrow> rat result" where
  "fees_for_condor s contracts_per_leg round_trip =
     (if contracts_per_leg < 1 then Inl (FeeModelError ''contracts_per_leg must be at least 1'')
      else let opening = of_int (condor_leg_count * contracts_per_leg)
                 * (commission_per_contract_usd s + regulatory_per_contract_usd s)
                 + fixed_per_order_usd s;
               total = if round_trip then opening * 2 else opening
           in finite_non_negative total ''condor fees'')"

definition fee_adjusted_pnl :: "rat \<Rightarrow> rat \<Rightarrow> rat result" where
  "fee_adjusted_pnl gross fees =
     res_bind (finite_non_negative fees ''fees'') (\<lambda>fee_total. Inr (gross - fee_total))"

section \<open>Tail distances\<close>

record tail_distances =
  td_day :: pydate
  down_distance :: rat
  up_distance :: rat
  td_regime :: string
  td_model_version :: string
  td_quantile :: rat

definition mk_tail_distances :: "tail_distances \<Rightarrow> tail_distances result" where
  "mk_tail_distances d =
     (if down_distance d \<le> 0 \<or> up_distance d \<le> 0
        then Inl (TailDistancesError ''distances must be positive'')
      else if blank (td_regime d) then Inl (TailDistancesError ''regime must not be blank'')
      else if blank (td_model_version d)
        then Inl (TailDistancesError ''model_version must not be blank'')
      else if \<not> (0 < td_quantile d \<and> td_quantile d < 1)
        then Inl (TailDistancesError ''quantile must be within (0, 1)'')
      else Inr d)"

section \<open>The entry fill\<close>

definition option_root :: string where "option_root = ''SPXW''"

text \<open>\<open>f"{ROOT:<6}{day:%y%m%d}{right}{strike * 1000:08d}"\<close>.\<close>

definition osi_symbol :: "pydate \<Rightarrow> string \<Rightarrow> int \<Rightarrow> string result" where
  "osi_symbol day right strike =
     (if right \<notin> {''P'', ''C''} then Inl (CondorEconomicsError (''right must be '' @ quoted ''P'' @ '' or '' @ quoted ''C''))
      else if strike \<le> 0 then Inl (CondorEconomicsError ''strike must be positive'')
      else let symbol = (case ymd day of (y, m, d) \<Rightarrow>
             option_root @ replicate (6 - length option_root) CHR '' ''
             @ pad 2 (show_nat (nat (y mod 100))) @ pad 2 (show_nat (nat m)) @ pad 2 (show_nat (nat d))
             @ right @ pad 8 (show_nat (nat (strike * 1000))))
           in if length symbol \<noteq> 21
              then Inl (CondorEconomicsError (''malformed OSI symbol '' @ quoted symbol)) else Inr symbol)"

definition isclose :: "rat \<Rightarrow> rat \<Rightarrow> bool" where
  "isclose a b \<longleftrightarrow> \<bar>a - b\<bar> \<le> 1 / 10 ^ 9"

record 't condor_fill =
  filled_at :: 't
  fill_strikes :: iron_condor_strikes
  short_put_price :: rat
  long_put_price :: rat
  short_call_price :: rat
  long_call_price :: rat
  fill_credit :: rat

definition mk_condor_fill :: "datetime condor_fill \<Rightarrow> instant condor_fill result" where
  "mk_condor_fill f =
     res_bind (to_utc (CondorEconomicsError ''filled_at must be timezone-aware'') (filled_at f)) (\<lambda>t.
       if short_put_price f < 0 then Inl (CondorEconomicsError ''short_put_price must not be negative'')
       else if long_put_price f < 0 then Inl (CondorEconomicsError ''long_put_price must not be negative'')
       else if short_call_price f < 0 then Inl (CondorEconomicsError ''short_call_price must not be negative'')
       else if long_call_price f < 0 then Inl (CondorEconomicsError ''long_call_price must not be negative'')
       else if \<not> isclose (fill_credit f)
                 (short_put_price f + short_call_price f - long_put_price f - long_call_price f)
         then Inl (CondorEconomicsError ''credit must equal short proceeds minus long cost'')
       else Inr \<lparr>filled_at = t, fill_strikes = fill_strikes f, short_put_price = short_put_price f,
                 long_put_price = long_put_price f, short_call_price = short_call_price f,
                 long_call_price = long_call_price f, fill_credit = fill_credit f\<rparr>)"

text \<open>The loop over the time-ordered quotes breaks at the first one after the entry.\<close>

fun latest_quotes :: "quote list \<Rightarrow> instant \<Rightarrow> (string, quote) dict \<Rightarrow> (string, quote) dict" where
  "latest_quotes [] entry latest = latest"
| "latest_quotes (q # qs) entry latest =
     (if q_ts q > entry then latest
      else latest_quotes qs entry (AList.update (q_symbol q) q latest))"

definition latest_quotes_at_or_before :: "quote list \<Rightarrow> instant \<Rightarrow> (string, quote) dict" where
  "latest_quotes_at_or_before quotes entry = latest_quotes quotes entry []"

definition sell_price :: "quote option \<Rightarrow> rat option" where
  "sell_price v = (case v of None \<Rightarrow> None | Some q \<Rightarrow>
     (case q_bid q of None \<Rightarrow> None | Some b \<Rightarrow>
        if b \<le> 0 then None else if crossed q then None else Some b))"

definition buy_price :: "quote option \<Rightarrow> rat option" where
  "buy_price v = (case v of None \<Rightarrow> None | Some q \<Rightarrow>
     (case q_ask q of None \<Rightarrow> None | Some a \<Rightarrow> if crossed q then None else Some a))"

definition price_condor ::
  "chain_day \<Rightarrow> datetime \<Rightarrow> iron_condor_strikes \<Rightarrow> instant condor_fill option result" where
  "price_condor chain entry strikes =
     res_bind (to_utc (CondorEconomicsError ''entry must be timezone-aware'') entry) (\<lambda>moment.
     let latest = map_of (latest_quotes_at_or_before (cd_quotes chain) moment);
         day = cd_day chain in
     res_bind (osi_symbol day ''P'' (short_put strikes)) (\<lambda>sp.
     res_bind (osi_symbol day ''P'' (long_put strikes)) (\<lambda>lp.
     res_bind (osi_symbol day ''C'' (short_call strikes)) (\<lambda>sc.
     res_bind (osi_symbol day ''C'' (long_call strikes)) (\<lambda>lc.
       case (sell_price (latest sp), buy_price (latest lp), sell_price (latest sc), buy_price (latest lc)) of
         (Some psp, Some plp, Some psc, Some plc) \<Rightarrow>
           res_bind (mk_condor_fill \<lparr>filled_at = Aware moment, fill_strikes = strikes,
             short_put_price = psp, long_put_price = plp, short_call_price = psc,
             long_call_price = plc, fill_credit = psp + psc - plp - plc\<rparr>) (\<lambda>f. Inr (Some f))
       | _ \<Rightarrow> Inr None)))))"

section \<open>Settlement and the day\<close>

definition settle_condor :: "iron_condor_strikes \<Rightarrow> rat \<Rightarrow> rat result" where
  "settle_condor s close =
     (if close \<le> 0 then Inl (CondorEconomicsError ''close_price must be positive'')
      else let wing = short_put s - long_put s in
        if wing \<le> 0 \<or> long_call s - short_call s \<noteq> wing
        then Inl (CondorEconomicsError ''strikes must have symmetric positive wings'')
        else let short_put_loss = max 0 (of_int (short_put s) - close);
                 short_call_loss = max 0 (close - of_int (short_call s));
                 recovery = max 0 (of_int (long_put s) - close) + max 0 (close - of_int (long_call s));
                 loss = short_put_loss + short_call_loss - recovery
             in Inr (min (max loss 0) (of_int wing)))"

datatype pricing_status = PRICED | UNPRICEABLE

record day_economics =
  de_day :: pydate
  de_regime :: string
  de_status :: pricing_status
  de_credit :: "rat option"
  de_max_loss :: "rat option"
  de_settlement_loss :: "rat option"
  de_pnl :: "rat option"
  de_put_breached :: "bool option"
  de_call_breached :: "bool option"
  de_fees :: rat
  de_net_pnl :: "rat option"

definition numeric_fields :: "day_economics \<Rightarrow> (string \<times> rat option) list" where
  "numeric_fields e = [(''credit'', de_credit e), (''max_loss'', de_max_loss e),
     (''settlement_loss'', de_settlement_loss e), (''pnl'', de_pnl e)]"

definition mk_day_economics :: "day_economics \<Rightarrow> day_economics result" where
  "mk_day_economics e =
     (if blank (de_regime e) then Inl (CondorEconomicsError ''regime must not be blank'')
      else if de_fees e < 0 then Inl (CondorEconomicsError ''fees must not be negative'')
      else case de_status e of
        PRICED \<Rightarrow>
          (case (de_credit e, de_max_loss e, de_settlement_loss e, de_pnl e) of
             (Some credit, Some max_loss, Some loss, Some pnl) \<Rightarrow>
               if de_put_breached e = None \<or> de_call_breached e = None
                 then Inl (CondorEconomicsError ''PRICED day requires breach flags'')
               else if max_loss < 0 then Inl (CondorEconomicsError ''max_loss must not be negative'')
               else if loss < 0 then Inl (CondorEconomicsError ''settlement_loss must not be negative'')
               else if \<not> isclose pnl (credit - loss)
                 then Inl (CondorEconomicsError ''pnl must equal credit minus settlement_loss'')
               else (case de_net_pnl e of
                       None \<Rightarrow> Inr (e\<lparr>de_net_pnl := Some (pnl - de_fees e)\<rparr>)
                     | Some net \<Rightarrow>
                         if \<not> isclose net (pnl - de_fees e)
                         then Inl (CondorEconomicsError ''net_pnl must equal pnl minus fees'')
                         else Inr e)
           | _ \<Rightarrow> Inl (CondorEconomicsError (''PRICED day requires '' @
                    (case List.find (\<lambda>f. snd f = None) (numeric_fields e) of
                       Some f \<Rightarrow> fst f | None \<Rightarrow> []))))
      | UNPRICEABLE \<Rightarrow>
          (case List.find (\<lambda>f. snd f \<noteq> None) (numeric_fields e) of
             Some f \<Rightarrow> Inl (CondorEconomicsError (''UNPRICEABLE day must not carry '' @ fst f))
           | None \<Rightarrow>
               if de_put_breached e \<noteq> None \<or> de_call_breached e \<noteq> None
                 then Inl (CondorEconomicsError ''UNPRICEABLE day must not carry breach flags'')
               else if de_fees e \<noteq> 0 then Inl (CondorEconomicsError ''UNPRICEABLE day must not carry fees'')
               else if de_net_pnl e \<noteq> None
                 then Inl (CondorEconomicsError ''UNPRICEABLE day must not carry net_pnl'')
               else Inr e))"

text \<open>Strikes come from the selector with its defaults: no buffers, 5-point grid and wings.\<close>

definition condor_strikes :: "rat \<Rightarrow> tail_distances \<Rightarrow> iron_condor_strikes result" where
  "condor_strikes center d =
     select_iron_condor_strikes center (up_distance d) (down_distance d) 0 0 0 5 5"

definition evaluate_day ::
  "chain_day \<Rightarrow> datetime \<Rightarrow> rat \<Rightarrow> tail_distances \<Rightarrow> rat \<Rightarrow> rat \<Rightarrow> day_economics result" where
  "evaluate_day chain entry center distances close_price fees =
     (if td_day distances \<noteq> cd_day chain
      then Inl (CondorEconomicsError (''distances day '' @ iso_date (td_day distances)
             @ '' does not match chain day '' @ iso_date (cd_day chain)))
      else if fees < 0 then Inl (CondorEconomicsError ''fees must not be negative'')
      else res_bind (condor_strikes center distances) (\<lambda>strikes.
           res_bind (price_condor chain entry strikes) (\<lambda>v.
           case v of
             None \<Rightarrow> mk_day_economics \<lparr>de_day = cd_day chain, de_regime = td_regime distances,
               de_status = UNPRICEABLE, de_credit = None, de_max_loss = None,
               de_settlement_loss = None, de_pnl = None, de_put_breached = None,
               de_call_breached = None, de_fees = 0, de_net_pnl = None\<rparr>
           | Some fill \<Rightarrow>
               res_bind (settle_condor strikes close_price) (\<lambda>loss.
               mk_day_economics \<lparr>de_day = cd_day chain, de_regime = td_regime distances,
                 de_status = PRICED, de_credit = Some (fill_credit fill),
                 de_max_loss = Some (of_int (short_put strikes - long_put strikes) - fill_credit fill),
                 de_settlement_loss = Some loss, de_pnl = Some (fill_credit fill - loss),
                 de_put_breached = Some (close_price < of_int (short_put strikes)),
                 de_call_breached = Some (close_price > of_int (short_call strikes)),
                 de_fees = fees, de_net_pnl = None\<rparr>))))"

section \<open>The summary\<close>

definition mean_of :: "rat list \<Rightarrow> rat" where
  "mean_of vs = sum_list vs / of_nat (length vs)"

definition cvar_95 :: "rat list \<Rightarrow> rat" where
  "cvar_95 vs = mean_of (take (max 1 (nat \<lceil>(of_nat (length vs) :: rat) * (5 / 100)\<rceil>)) (sort vs))"

definition win_rate :: "rat list \<Rightarrow> rat" where
  "win_rate vs = of_nat (length (filter (\<lambda>v. v > 0) vs)) / of_nat (length vs)"

definition max_daily_loss :: "rat list \<Rightarrow> rat" where
  "max_daily_loss vs = max 0 (- Min (set vs))"

definition on_values :: "(rat list \<Rightarrow> rat) \<Rightarrow> rat list \<Rightarrow> rat option" where
  "on_values f vs = (if vs = [] then None else Some (f vs))"

record regime_economics =
  re_regime :: string
  re_n_priced :: int
  re_n_unpriceable :: int
  re_total_pnl :: rat
  re_mean_pnl :: "rat option"
  re_win_rate :: "rat option"
  re_max_daily_loss :: "rat option"

record economics_summary =
  es_n_priced :: int
  es_n_unpriceable :: int
  es_total_pnl :: rat
  es_mean_pnl :: "rat option"
  es_ev :: rat
  es_cvar_95 :: "rat option"
  es_max_daily_loss :: "rat option"
  es_win_rate :: "rat option"
  es_regimes :: "(string, regime_economics) dict"
  es_total_fees :: rat
  es_net_total_pnl :: rat
  es_net_ev :: rat

definition priced_pnl :: "day_economics list \<Rightarrow> rat list" where
  "priced_pnl days = List.map_filter de_pnl (filter (\<lambda>d. de_status d = PRICED) days)"

definition group_day ::
  "(string, day_economics list) dict \<Rightarrow> day_economics \<Rightarrow> (string, day_economics list) dict" where
  "group_day g d =
     AList.update (de_regime d)
       ((case map_of g (de_regime d) of None \<Rightarrow> [] | Some ms \<Rightarrow> ms) @ [d]) g"

definition by_regime :: "day_economics list \<Rightarrow> (string, day_economics list) dict" where
  "by_regime days = sort_key fst (foldl group_day [] days)"

definition regime_summary :: "string \<Rightarrow> day_economics list \<Rightarrow> regime_economics" where
  "regime_summary r members =
     (let vs = priced_pnl members in
      \<lparr>re_regime = r, re_n_priced = int (length vs),
       re_n_unpriceable = int (length members) - int (length vs), re_total_pnl = sum_list vs,
       re_mean_pnl = on_values mean_of vs, re_win_rate = on_values win_rate vs,
       re_max_daily_loss = on_values max_daily_loss vs\<rparr>)"

definition summarize :: "day_economics list \<Rightarrow> economics_summary" where
  "summarize days =
     (let vs = priced_pnl days;
          total = sum_list vs;
          fees = sum_list (map de_fees (filter (\<lambda>d. de_status d = PRICED) days));
          net = total - fees;
          n = length days in
      \<lparr>es_n_priced = int (length vs), es_n_unpriceable = int n - int (length vs),
       es_total_pnl = total, es_mean_pnl = on_values mean_of vs,
       es_ev = (if n = 0 then 0 else total / of_nat n),
       es_cvar_95 = on_values cvar_95 vs, es_max_daily_loss = on_values max_daily_loss vs,
       es_win_rate = on_values win_rate vs,
       es_regimes = map (\<lambda>(r, ms). (r, regime_summary r ms)) (by_regime days),
       es_total_fees = fees, es_net_total_pnl = net,
       es_net_ev = (if n = 0 then 0 else net / of_nat n)\<rparr>)"

section \<open>The batch\<close>

text \<open>A label's entry time is a time of day in microseconds.\<close>

record excursion_label =
  el_day :: pydate
  el_entry_et :: int
  el_entry_price :: rat
  el_close_price :: rat

definition window :: "pydate \<Rightarrow> pydate \<Rightarrow> ('a \<Rightarrow> pydate) \<Rightarrow> 'a list \<Rightarrow> (pydate, 'a) dict" where
  "window start stop key xs =
     foldl (\<lambda>d x. if start \<le> key x \<and> key x \<le> stop then AList.update (key x) x d else d) [] xs"

definition joined_days :: "(pydate, 'a) dict \<Rightarrow> (pydate, 'b) dict \<Rightarrow> pydate list" where
  "joined_days ls ds = sorted_list_of_set (set (map fst ls) \<union> set (map fst ds))"

record economics_batch_report =
  br_start :: pydate
  br_end :: pydate
  br_summary :: economics_summary
  br_missing_chain :: int
  br_missing_distances :: int
  br_missing_labels :: int

record batch_state =
  bs_missing_chain :: int
  bs_missing_labels :: int
  bs_economics :: "day_economics list"

definition batch_day ::
  "(pydate \<Rightarrow> int \<Rightarrow> instant) \<Rightarrow> (pydate \<Rightarrow> chain_day result) \<Rightarrow> rat
     \<Rightarrow> (pydate, excursion_label) dict \<Rightarrow> (pydate, tail_distances) dict
     \<Rightarrow> batch_state \<Rightarrow> pydate \<Rightarrow> batch_state result" where
  "batch_day et_utc loader fee_points labels distances s day =
     (case map_of labels day of
        None \<Rightarrow> Inr (s\<lparr>bs_missing_labels := bs_missing_labels s + 1\<rparr>)
      | Some lab \<Rightarrow>
          (case map_of distances day of
             None \<Rightarrow> Inr s
           | Some rec \<Rightarrow>
               (case loader day of
                  Inl _ \<Rightarrow> Inr (s\<lparr>bs_missing_chain := bs_missing_chain s + 1\<rparr>)
                | Inr chain \<Rightarrow>
                    res_bind (evaluate_day chain (Aware (et_utc day (el_entry_et lab)))
                      (el_entry_price lab) rec (el_close_price lab) fee_points) (\<lambda>e.
                    Inr (s\<lparr>bs_economics := bs_economics s @ [e]\<rparr>)))))"

fun batch_loop :: "('s \<Rightarrow> pydate \<Rightarrow> 's result) \<Rightarrow> 's \<Rightarrow> pydate list \<Rightarrow> 's result" where
  "batch_loop step s [] = Inr s"
| "batch_loop step s (d # ds) = res_bind (step s d) (\<lambda>s'. batch_loop step s' ds)"

text \<open>\<open>fees_doc\<close> is \<open>None\<close> without a fee file, else what the decoder makes of it.\<close>

definition batch_fee_points :: "(string \<times> toml) list option option \<Rightarrow> rat result" where
  "batch_fee_points fees_doc =
     (case fees_doc of None \<Rightarrow> Inr 0
      | Some doc \<Rightarrow> res_bind (load_fee_schedule doc) (\<lambda>s.
          res_bind (fees_for_condor s 1 False) (\<lambda>f. Inr (f / spxw_point_value_usd))))"

definition run_economics_batch ::
  "(pydate \<Rightarrow> int \<Rightarrow> instant) \<Rightarrow> (pydate \<Rightarrow> chain_day result)
     \<Rightarrow> excursion_label list \<Rightarrow> tail_distances list \<Rightarrow> (string \<times> toml) list option option
     \<Rightarrow> pydate \<Rightarrow> pydate \<Rightarrow> economics_batch_report result" where
  "run_economics_batch et_utc loader label_file distance_file fees_doc start stop =
     (if start > stop
      then Inl (CondorEconomicsError (''start '' @ iso_date start @ '' must not be after end '' @ iso_date stop))
      else res_bind (batch_fee_points fees_doc) (\<lambda>fee_points.
        let labels = window start stop el_day label_file;
            distances = window start stop td_day distance_file in
        res_bind (batch_loop (batch_day et_utc loader fee_points labels distances)
            \<lparr>bs_missing_chain = 0, bs_missing_labels = 0, bs_economics = []\<rparr>
            (joined_days labels distances)) (\<lambda>s.
        Inr \<lparr>br_start = start, br_end = stop, br_summary = summarize (bs_economics s),
             br_missing_chain = bs_missing_chain s,
             br_missing_distances =
               int (length (filter (\<lambda>l. map_of distances (fst l) = None) labels)),
             br_missing_labels = bs_missing_labels s\<rparr>)))"

section \<open>The fill\<close>

text \<open>The reference for a leg's quote: the last one of its symbol at or before the entry.\<close>

definition last_quote :: "quote list \<Rightarrow> instant \<Rightarrow> string \<Rightarrow> quote option" where
  "last_quote qs t sy =
     (let own = filter (\<lambda>q. q_symbol q = sy \<and> q_ts q \<le> t) qs
      in if own = [] then None else Some (last own))"

definition index_quotes :: "quote list \<Rightarrow> (string, quote) dict \<Rightarrow> (string, quote) dict" where
  "index_quotes qs d = foldl (\<lambda>d q. AList.update (q_symbol q) q d) d qs"

lemma latest_quotes_filter:
  "sorted (map q_ts qs) \<Longrightarrow> latest_quotes qs t d = index_quotes (filter (\<lambda>q. q_ts q \<le> t) qs) d"
proof (induction qs arbitrary: d)
  case (Cons q qs)
  show ?case
  proof (cases "q_ts q > t")
    case True
    then have "\<forall>x \<in> set qs. \<not> q_ts x \<le> t" using Cons.prems by force
    then have "filter (\<lambda>x. q_ts x \<le> t) qs = []" by (simp add: filter_empty_conv)
    with True show ?thesis by (simp add: index_quotes_def)
  qed (use Cons in \<open>simp add: index_quotes_def\<close>)
qed (simp add: index_quotes_def)

lemma index_quotes_snoc:
  "index_quotes (qs @ [q]) d = AList.update (q_symbol q) q (index_quotes qs d)"
  by (simp add: index_quotes_def)

lemma index_quotes_lookup:
  "map_of (index_quotes qs []) sy =
     (let own = filter (\<lambda>q. q_symbol q = sy) qs in if own = [] then None else Some (last own))"
  by (induction qs rule: rev_induct) (auto simp: index_quotes_snoc index_quotes_def Let_def)

lemma latest_is_last:
  assumes "sorted (map q_ts qs)"
  shows "map_of (latest_quotes_at_or_before qs t) sy = last_quote qs t sy"
  by (simp add: latest_quotes_at_or_before_def latest_quotes_filter [OF assms] index_quotes_lookup
      last_quote_def Let_def conj_commute)

lemma mk_chain_day_sorted:
  "mk_chain_day c = Inr c' \<Longrightarrow> c' = c \<and> sorted (map q_ts (cd_quotes c))"
  by (auto simp: mk_chain_day_def split: if_splits)

lemma mk_condor_fill_exact:
  "mk_condor_fill f = Inr g \<Longrightarrow> filled_at f = Aware (filled_at g) \<and> fill_credit g = fill_credit f
     \<and> short_put_price g = short_put_price f \<and> long_put_price g = long_put_price f
     \<and> short_call_price g = short_call_price f \<and> long_call_price g = long_call_price f
     \<and> fill_strikes g = fill_strikes f"
  by (auto simp: mk_condor_fill_def to_utc_Inr_iff split: if_splits)

section \<open>Settlement\<close>

lemma condor_payoff:
  fixes a b w c :: rat
  assumes "a \<le> b" and "0 < w"
  shows "min (max (max 0 (a - c) + max 0 (c - b) - (max 0 (a - w - c) + max 0 (c - (b + w)))) 0) w
    = min w (max 0 (a - c) + max 0 (c - b))"
proof -
  consider "c < a" | "a \<le> c" "c \<le> b" | "b < c" by linarith
  then show ?thesis
  proof cases
    case 1
    then have "max 0 (a - c) = a - c" "max 0 (c - b) = 0" "max 0 (c - (b + w)) = 0" using assms by auto
    then show ?thesis using 1 assms by (cases "a - c \<le> w") auto
  next
    case 2
    then have "max 0 (a - c) = 0" "max 0 (c - b) = 0" "max 0 (a - w - c) = 0" "max 0 (c - (b + w)) = 0"
      using assms by auto
    then show ?thesis using assms by simp
  next
    case 3
    then have "max 0 (a - c) = 0" "max 0 (c - b) = c - b" "max 0 (a - w - c) = 0" using assms by auto
    then show ?thesis using 3 assms by (cases "c - b \<le> w") auto
  qed
qed

lemma settle_condor_payoff:
  assumes "condor_ok inc w s" and "0 < w" and "0 < close"
  shows "settle_condor s close = Inr (min (of_int w)
    (max 0 (of_int (short_put s) - close) + max 0 (close - of_int (short_call s))))"
proof -
  have l: "(of_int (long_put s) :: rat) = of_int (short_put s) - of_int w"
    "(of_int (long_call s) :: rat) = of_int (short_call s) + of_int w"
    and le: "(of_int (short_put s) :: rat) \<le> of_int (short_call s)"
    and w: "(0 :: rat) < of_int w" and wing: "short_put s - long_put s = w" "long_call s - short_call s = w"
    using assms by (auto simp: condor_ok_def)
  have "\<not> close \<le> 0" "\<not> w \<le> 0" using assms by simp_all
  then show ?thesis unfolding settle_condor_def wing Let_def l condor_payoff [OF le w] by simp
qed

lemma clamp_bounds:
  fixes l w :: rat
  assumes "0 < w"
  shows "0 \<le> min (max l 0) w" "min (max l 0) w \<le> w"
  using assms by simp_all

lemma settle_condor_bounds:
  assumes "settle_condor s close = Inr x"
  shows "0 \<le> x" "x \<le> of_int (short_put s - long_put s)" "0 < close"
proof -
  let ?l = "max 0 (of_int (short_put s) - close) + max 0 (close - of_int (short_call s))
    - (max 0 (of_int (long_put s) - close) + max 0 (close - of_int (long_call s)))"
  have c: "0 < close" using assms by (cases "close \<le> 0") (simp_all add: settle_condor_def)
  have wing: "\<not> (short_put s - long_put s \<le> 0 \<or> long_call s - short_call s \<noteq> short_put s - long_put s)"
  proof
    assume "short_put s - long_put s \<le> 0 \<or> long_call s - short_call s \<noteq> short_put s - long_put s"
    then have "\<exists>m. settle_condor s close = Inl m" unfolding settle_condor_def Let_def using c by simp
    with assms show False by simp
  qed
  then have w: "0 < short_put s - long_put s" by simp
  have "settle_condor s close = Inr (min (max ?l 0) (of_int (short_put s - long_put s)))"
    unfolding settle_condor_def Let_def using c wing by simp
  with assms have "x = min (max ?l 0) (of_int (short_put s - long_put s))" by simp
  moreover have "(0 :: rat) < of_int (short_put s - long_put s)" using w by simp
  ultimately show "0 \<le> x" "x \<le> of_int (short_put s - long_put s)" by (simp_all only: clamp_bounds)
  show "0 < close" by (rule c)
qed

section \<open>The day\<close>

lemma mk_day_priced:
  assumes "mk_day_economics e = Inr e'" and "de_status e = PRICED" and "de_net_pnl e = None"
  obtains c m l p where "de_credit e = Some c" "de_max_loss e = Some m"
    "de_settlement_loss e = Some l" "de_pnl e = Some p" "0 \<le> m" "0 \<le> l"
    "e' = e\<lparr>de_net_pnl := Some (p - de_fees e)\<rparr>"
proof -
  from assms obtain c m l p where f: "de_credit e = Some c" "de_max_loss e = Some m"
    "de_settlement_loss e = Some l" "de_pnl e = Some p"
    by (cases "de_credit e"; cases "de_max_loss e"; cases "de_settlement_loss e"; cases "de_pnl e")
      (simp_all add: mk_day_economics_def split: if_split_asm)
  with assms show ?thesis
    by (intro that [OF f]) (simp_all add: mk_day_economics_def not_less split: if_split_asm)
qed

lemma mk_day_unpriceable:
  "mk_day_economics e = Inr e' \<Longrightarrow> de_status e = UNPRICEABLE \<Longrightarrow> e' = e"
  by (auto simp: mk_day_economics_def split: if_splits option.splits)

lemma evaluate_day_Inr:
  assumes "evaluate_day chain entry center d close fees = Inr e"
  obtains (unpriced) s where "condor_strikes center d = Inr s" "price_condor chain entry s = Inr None"
      "de_status e = UNPRICEABLE" "de_pnl e = None" "de_regime e = td_regime d" "de_fees e = 0"
  | (priced) s f l where "condor_strikes center d = Inr s" "price_condor chain entry s = Inr (Some f)"
      "settle_condor s close = Inr l" "de_status e = PRICED" "de_credit e = Some (fill_credit f)"
      "de_settlement_loss e = Some l"
      "de_max_loss e = Some (of_int (short_put s - long_put s) - fill_credit f)"
      "0 \<le> of_int (short_put s - long_put s) - fill_credit f"
      "de_pnl e = Some (fill_credit f - l)" "de_net_pnl e = Some (fill_credit f - l - fees)"
      "de_put_breached e = Some (close < of_int (short_put s))"
      "de_call_breached e = Some (close > of_int (short_call s))" "de_fees e = fees"
      "de_regime e = td_regime d"
proof -
  from assms obtain s v where s: "condor_strikes center d = Inr s" and v: "price_condor chain entry s = Inr v"
    by (auto simp: evaluate_day_def split: if_splits)
  show ?thesis
  proof (cases v)
    case None
    from assms s v None show ?thesis
      by (intro unpriced [OF s]) (auto simp: evaluate_day_def split: if_splits dest: mk_day_unpriceable)
  next
    case (Some f)
    from assms s v Some obtain l where l: "settle_condor s close = Inr l"
      by (auto simp: evaluate_day_def split: if_splits)
    from assms s v Some l show ?thesis
      by (intro priced [OF s _ l])
        (auto simp: evaluate_day_def split: if_splits elim!: mk_day_priced)
  qed
qed

section \<open>Accounting\<close>

lemma priced_pnl_append [simp]: "priced_pnl (xs @ ys) = priced_pnl xs @ priced_pnl ys"
  by (simp add: priced_pnl_def map_filter_def)

lemma priced_pnl_Nil [simp]: "priced_pnl [] = []"
  by (simp add: priced_pnl_def map_filter_def)

text \<open>Grouping loses and invents nothing: any additive total over the groups is the total.\<close>

lemma sum_group_day:
  fixes h :: "day_economics list \<Rightarrow> 'a::comm_monoid_add"
  assumes "dict_ok g" and add: "\<And>xs ys. h (xs @ ys) = h xs + h ys" and nil: "h [] = 0"
  shows "(\<Sum>x\<leftarrow>group_day g d. h (snd x)) = (\<Sum>x\<leftarrow>g. h (snd x)) + h [d]"
  using assms(1)
proof (induction g)
  case (Cons x g)
  then show ?case
  proof (cases "fst x = de_regime d")
    case True
    then show ?thesis
      by (cases x) (simp add: group_day_def add nil algebra_simps)
  next
    case False
    have "dict_ok g" using Cons.prems by (simp add: dict_ok_def)
    from Cons.IH [OF this] False show ?thesis
      by (cases x) (simp add: group_day_def algebra_simps)
  qed
qed (simp add: group_day_def nil)

lemma dict_ok_group_day: "dict_ok g \<Longrightarrow> dict_ok (group_day g d)"
  by (simp add: group_day_def)

lemma dict_ok_group: "dict_ok (foldl group_day [] days)"
  by (induction days rule: rev_induct) (simp_all add: dict_ok_group_day)

lemma sum_by_regime:
  fixes h :: "day_economics list \<Rightarrow> 'a::comm_monoid_add"
  assumes add: "\<And>xs ys. h (xs @ ys) = h xs + h ys" and nil: "h [] = 0"
  shows "(\<Sum>x\<leftarrow>by_regime days. h (snd x)) = h days"
proof -
  have "(\<Sum>x\<leftarrow>foldl group_day [] days. h (snd x)) = h days"
  proof (induction days rule: rev_induct)
    case (snoc d days)
    have "(\<Sum>x\<leftarrow>foldl group_day [] (days @ [d]). h (snd x))
      = (\<Sum>x\<leftarrow>group_day (foldl group_day [] days) d. h (snd x))" by simp
    also have "\<dots> = (\<Sum>x\<leftarrow>foldl group_day [] days. h (snd x)) + h [d]"
      by (rule sum_group_day [OF dict_ok_group]) (rule add, rule nil)
    finally show ?case by (simp only: snoc.IH add)
  qed (simp add: nil)
  moreover have "mset (by_regime days) = mset (foldl group_day [] days)" by (simp add: by_regime_def)
  then have "mset (map (\<lambda>x. h (snd x)) (by_regime days))
    = mset (map (\<lambda>x. h (snd x)) (foldl group_day [] days))" by (simp only: mset_map)
  then have "(\<Sum>x\<leftarrow>by_regime days. h (snd x)) = (\<Sum>x\<leftarrow>foldl group_day [] days. h (snd x))"
    by (simp only: sum_mset_sum_list [symmetric])
  ultimately show ?thesis by simp
qed

lemma lookup_group:
  "map_of (foldl group_day [] days) r =
     (let own = filter (\<lambda>d. de_regime d = r) days in if own = [] then None else Some own)"
  by (induction days rule: rev_induct) (auto simp: group_day_def Let_def split: option.splits if_splits)

lemma by_regime_members:
  "(r, ms) \<in> set (by_regime days) \<longleftrightarrow> ms = filter (\<lambda>d. de_regime d = r) days \<and> ms \<noteq> []"
proof -
  have "(r, ms) \<in> set (by_regime days) \<longleftrightarrow> map_of (foldl group_day [] days) r = Some ms"
    using dict_ok_group by (simp add: by_regime_def dict_ok_def map_of_eq_Some_iff)
  then show ?thesis by (auto simp: lookup_group Let_def)
qed

lemma by_regime_sorted: "sorted (map fst (by_regime days)) \<and> distinct (map fst (by_regime days))"
proof -
  have "mset (map fst (by_regime days)) = mset (map fst (foldl group_day [] days))"
    by (simp add: by_regime_def)
  moreover have "distinct (map fst (foldl group_day [] days))"
    using dict_ok_group by (simp add: dict_ok_def)
  ultimately have "distinct (map fst (by_regime days))" by (metis mset_eq_imp_distinct_iff)
  then show ?thesis by (simp add: by_regime_def)
qed

section \<open>The batch\<close>

lemma window_snoc:
  "window a b key (xs @ [x]) =
     (if a \<le> key x \<and> key x \<le> b then AList.update (key x) x (window a b key xs) else window a b key xs)"
  by (simp add: window_def)

lemma window_ok: "dict_ok (window a b key xs)"
  by (induction xs rule: rev_induct) (simp_all add: window_snoc, simp add: window_def)

lemma update_fst: "fst ` set (AList.update k v d) = insert k (fst ` set d)"
  by (induction d) auto

lemma window_keys: "fst ` set (window a b key xs) = {d \<in> key ` set xs. a \<le> d \<and> d \<le> b}"
  by (induction xs rule: rev_induct) (auto simp: window_snoc update_fst, simp add: window_def)

text \<open>A step handles its day: it counts it missing or appends its economics.\<close>

definition joinable :: "(pydate, 'a) dict \<Rightarrow> (pydate, 'b) dict \<Rightarrow> pydate \<Rightarrow> bool" where
  "joinable labels distances day \<longleftrightarrow> \<not> (map_of labels day \<noteq> None \<and> map_of distances day = None)"

lemma batch_day_count:
  assumes "batch_day et ld fp labels distances s day = Inr s'"
  shows "bs_missing_chain s' + bs_missing_labels s' + int (length (bs_economics s'))
    = bs_missing_chain s + bs_missing_labels s + int (length (bs_economics s))
      + (if joinable labels distances day then 1 else 0)"
  using assms by (auto simp: batch_day_def joinable_def split: option.splits sum.splits)

lemma batch_loop_count:
  assumes "batch_loop (batch_day et ld fp labels distances) s ds = Inr s'"
  shows "bs_missing_chain s' + bs_missing_labels s' + int (length (bs_economics s'))
    = bs_missing_chain s + bs_missing_labels s + int (length (bs_economics s))
      + int (length (filter (joinable labels distances) ds))"
  using assms
proof (induction ds arbitrary: s)
  case (Cons d ds)
  then obtain s1 where s1: "batch_day et ld fp labels distances s d = Inr s1"
    and rest: "batch_loop (batch_day et ld fp labels distances) s1 ds = Inr s'"
    by auto
  show ?case using batch_day_count [OF s1] Cons.IH [OF rest] by simp
qed simp

lemma joined_split:
  fixes labels :: "(pydate, 'a) dict" and distances :: "(pydate, 'b) dict"
  assumes "dict_ok labels"
  shows "length (joined_days labels distances) = length (filter (joinable labels distances) (joined_days labels distances))
    + length (filter (\<lambda>l. map_of distances (fst l) = None) labels)"
proof -
  let ?ds = "joined_days labels distances"
  have "length (filter (\<lambda>d. \<not> joinable labels distances d) ?ds)
    = card {d \<in> set ?ds. \<not> joinable labels distances d}"
    by (simp add: joined_days_def flip: distinct_card)
  also have "{d \<in> set ?ds. \<not> joinable labels distances d}
    = fst ` set (filter (\<lambda>l. map_of distances (fst l) = None) labels)"
    by (auto simp: joined_days_def joinable_def map_of_eq_None_iff intro: rev_image_eqI)
  also have "card \<dots> = length (filter (\<lambda>l. map_of distances (fst l) = None) labels)"
  proof -
    have "distinct (map fst (filter (\<lambda>l. map_of distances (fst l) = None) labels))"
      using assms by (simp add: dict_ok_def distinct_map_filter)
    then show ?thesis by (metis distinct_card length_map list.set_map)
  qed
  finally show ?thesis using sum_length_filter_compl [of "joinable labels distances" ?ds] by simp
qed

section \<open>A concrete day\<close>

definition example_quote :: "string \<Rightarrow> rat \<Rightarrow> rat \<Rightarrow> instant \<Rightarrow> quote" where
  "example_quote sy b a t =
     \<lparr>q_ts = t, q_symbol = sy, q_bid = Some b, q_ask = Some a, q_bid_size = 1, q_ask_size = 1\<rparr>"

definition example_chain :: "quote list \<Rightarrow> chain_day" where
  "example_chain late = \<lparr>cd_day = 739845,
     cd_bars = [\<lparr>bar_ts = 0, bar_open = 1, bar_high = 1, bar_low = 1, bar_close = 1, bar_volume = 0\<rparr>],
     cd_quotes = [example_quote ''SPXW  260817P04985000'' (9/10) 1 1,
       example_quote ''SPXW  260817P04990000'' (3/2) (8/5) 2,
       example_quote ''SPXW  260817C05010000'' (6/5) (13/10) 3,
       example_quote ''SPXW  260817C05015000'' (3/5) (7/10) 4] @ late\<rparr>"

definition example_distances :: tail_distances where
  "example_distances = \<lparr>td_day = 739845, down_distance = 10, up_distance = 10, td_regime = ''calm'',
     td_model_version = ''v1'', td_quantile = 19/20\<rparr>"

definition example_strikes :: iron_condor_strikes where
  "example_strikes = \<lparr>short_put = 4990, long_put = 4985, short_call = 5010, long_call = 5015,
     put_distance = 10, call_distance = 10\<rparr>"

lemma example_strikes_fields:
  "short_put example_strikes = 4990" "long_put example_strikes = 4985"
  "short_call example_strikes = 5010" "long_call example_strikes = 5015"
  by (simp_all add: example_strikes_def)

lemma digit_chars:
  "digit_char 0 = CHR ''0''" "digit_char 1 = CHR ''1''" "digit_char 2 = CHR ''2''" "digit_char 3 = CHR ''3''"
  "digit_char 4 = CHR ''4''" "digit_char 5 = CHR ''5''" "digit_char 6 = CHR ''6''" "digit_char 7 = CHR ''7''"
  "digit_char 8 = CHR ''8''" "digit_char 9 = CHR ''9''"
  by code_simp+

lemma replicate_2: "replicate 2 x = [x, x]"
  by (simp add: numeral_2_eq_2)

lemma example_symbols:
  "osi_symbol 739845 ''P'' 4990 = Inr ''SPXW  260817P04990000''"
  "osi_symbol 739845 ''P'' 4985 = Inr ''SPXW  260817P04985000''"
  "osi_symbol 739845 ''C'' 5010 = Inr ''SPXW  260817C05010000''"
  "osi_symbol 739845 ''C'' 5015 = Inr ''SPXW  260817C05015000''"
  by (simp_all add: osi_symbol_def ymd_examples option_root_def pad_def show_nat.simps
      digit_chars [simplified] replicate_2)

lemma example_condor_strikes: "condor_strikes 5000 example_distances = Inr example_strikes"
  by (simp add: condor_strikes_def example_distances_def select_iron_condor_strikes_def example_strikes_def
      round_places_def round_half_even_def)

lemma example_price:
  "price_condor (example_chain late) (Aware 10) example_strikes = Inr (Some \<lparr>filled_at = 10,
     fill_strikes = example_strikes, short_put_price = 3/2, long_put_price = 1, short_call_price = 6/5,
     long_call_price = 7/10, fill_credit = 1\<rparr>)"
  if "\<forall>q \<in> set late. 10 < q_ts q"
  using that
  by (cases late) (simp_all add: price_condor_def example_strikes_def example_chain_def example_symbols
      latest_quotes_at_or_before_def example_quote_def sell_price_def buy_price_def crossed_def
      mk_condor_fill_def isclose_def)

lemma example_day:
  "evaluate_day (example_chain []) (Aware 10) 5000 example_distances 4988 (1/100) =
     Inr \<lparr>de_day = 739845, de_regime = ''calm'', de_status = PRICED, de_credit = Some 1,
       de_max_loss = Some 4, de_settlement_loss = Some 2, de_pnl = Some (-1),
       de_put_breached = Some True, de_call_breached = Some False, de_fees = 1/100,
       de_net_pnl = Some (-101/100)\<rparr>"
proof -
  have "\<not> blank ''calm''" by (simp add: blank_iff is_space_def)
  moreover have "td_day example_distances = cd_day (example_chain [])" "cd_day (example_chain []) = 739845"
    "td_regime example_distances = ''calm''"
    by (simp_all add: example_distances_def example_chain_def)
  ultimately show ?thesis
    by (simp add: evaluate_day_def example_condor_strikes example_price settle_condor_def
        example_strikes_fields mk_day_economics_def isclose_def)
qed

section \<open>Properties\<close>

text \<open>C10. A priced day stays within its declared risk: the strikes are on the grid beyond the
  recommended tails, the settlement loss is the intrinsic payoff of the condor capped by the wing,
  it is zero exactly when no short strike is breached, the day's result is the credit less that
  loss, never below minus the declared maximum loss and never above the credit, and fees only
  lower it.\<close>

theorem condor_day_within_risk:
  assumes "evaluate_day chain entry center d close fees = Inr e" and "de_status e = PRICED"
  shows "\<exists>s credit loss. condor_strikes center d = Inr s \<and> condor_ok 5 5 s
    \<and> of_int (short_put s) \<le> center - down_distance d \<and> center + up_distance d \<le> of_int (short_call s)
    \<and> loss = min 5 (max 0 (of_int (short_put s) - close) + max 0 (close - of_int (short_call s)))
    \<and> de_credit e = Some credit \<and> de_settlement_loss e = Some loss \<and> de_max_loss e = Some (5 - credit)
    \<and> (loss = 0 \<longleftrightarrow> de_put_breached e = Some False \<and> de_call_breached e = Some False)
    \<and> de_pnl e = Some (credit - loss) \<and> - (5 - credit) \<le> credit - loss \<and> credit - loss \<le> credit
    \<and> credit \<le> 5 \<and> de_net_pnl e = Some (credit - loss - fees) \<and> credit - loss - fees \<le> credit - loss"
  using assms(1)
proof (cases rule: evaluate_day_Inr)
  case (priced s f l)
  from priced(1) have ok: "condor_ok 5 5 s" unfolding condor_strikes_def by (rule select_strikes_condor_ok)
  from priced(1) have out: "of_int (short_put s) \<le> center - down_distance d"
    "center + up_distance d \<le> of_int (short_call s)"
    unfolding condor_strikes_def by (auto dest: select_strikes_outside(1,2))
  have close: "0 < close" using settle_condor_bounds(3) [OF priced(3)] .
  then have l: "l = min 5 (max 0 (of_int (short_put s) - close) + max 0 (close - of_int (short_call s)))"
    using settle_condor_payoff [OF ok _ close] priced(3) by simp
  have wing: "short_put s - long_put s = 5" using ok by (simp add: condor_ok_def)
  have zero: "l = 0 \<longleftrightarrow> \<not> close < of_int (short_put s) \<and> \<not> close > of_int (short_call s)"
    unfolding l by (auto simp: min_def max_def)
  have "0 \<le> l" "l \<le> 5" using settle_condor_bounds(1,2) [OF priced(3)] wing by simp_all
  moreover have "0 \<le> fees" using assms(1) by (auto simp: evaluate_day_def split: if_splits)
  ultimately show ?thesis
    using priced ok out l zero wing by (intro exI [of _ s] exI [of _ "fill_credit f"] exI [of _ l]) simp
qed (use assms(2) in simp)

theorem condor_day_within_risk_witness:
  "\<exists>s (credit :: rat) loss. condor_strikes 5000 example_distances = Inr s
     \<and> loss = min 5 (max 0 (of_int (short_put s) - 4988) + max 0 (4988 - of_int (short_call s)))
     \<and> loss = 2 \<and> credit = 1 \<and> credit - loss - 1/100 \<le> credit - loss"
proof -
  from condor_day_within_risk [OF example_day] obtain s credit loss
    where w: "condor_strikes 5000 example_distances = Inr s"
      "loss = min 5 (max 0 (of_int (short_put s) - 4988) + max 0 (4988 - of_int (short_call s)))"
      "Some (1 :: rat) = Some credit" "Some (2 :: rat) = Some loss" "credit - loss - 1/100 \<le> credit - loss"
    by auto
  then show ?thesis by (intro exI [of _ s] exI [of _ credit] exI [of _ loss]) simp
qed

definition leg_filled ::
  "chain_day \<Rightarrow> instant \<Rightarrow> string \<Rightarrow> int \<Rightarrow> (quote \<Rightarrow> rat option) \<Rightarrow> rat \<Rightarrow> bool" where
  "leg_filled c t right strike side price \<longleftrightarrow>
     (\<exists>sy q. osi_symbol (cd_day c) right strike = Inr sy \<and> last_quote (cd_quotes c) t sy = Some q
        \<and> q_symbol q = sy \<and> q_ts q \<le> t \<and> q \<in> set (cd_quotes c) \<and> side q = Some price \<and> \<not> crossed q)"

lemma last_quote_Some:
  "last_quote qs t sy = Some q \<Longrightarrow> q_symbol q = sy \<and> q_ts q \<le> t \<and> q \<in> set qs"
  by (auto simp: last_quote_def Let_def split: if_splits dest!: last_in_set)

lemma sell_price_Some: "sell_price v = Some x \<Longrightarrow> \<exists>q. v = Some q \<and> q_bid q = Some x \<and> 0 < x \<and> \<not> crossed q"
  by (auto simp: sell_price_def split: option.splits if_splits)

lemma buy_price_Some: "buy_price v = Some x \<Longrightarrow> \<exists>q. v = Some q \<and> q_ask q = Some x \<and> \<not> crossed q"
  by (auto simp: buy_price_def split: option.splits if_splits)

lemma price_condor_legs:
  assumes "price_condor c (Aware t) s = Inr (Some f)" and sorted: "sorted (map q_ts (cd_quotes c))"
  shows "leg_filled c t ''P'' (short_put s) q_bid (short_put_price f)"
    "leg_filled c t ''P'' (long_put s) q_ask (long_put_price f)"
    "leg_filled c t ''C'' (short_call s) q_bid (short_call_price f)"
    "leg_filled c t ''C'' (long_call s) q_ask (long_call_price f)"
    "0 < short_put_price f" "0 < short_call_price f"
    "fill_credit f = short_put_price f + short_call_price f - long_put_price f - long_call_price f"
proof -
  note pc = assms(1) [unfolded price_condor_def Let_def]
  from pc obtain sp lp sc lc where sy: "osi_symbol (cd_day c) ''P'' (short_put s) = Inr sp"
    "osi_symbol (cd_day c) ''P'' (long_put s) = Inr lp" "osi_symbol (cd_day c) ''C'' (short_call s) = Inr sc"
    "osi_symbol (cd_day c) ''C'' (long_call s) = Inr lc"
    by (auto simp only: res_bind_simps to_utc.simps elim!: res_bind_InrE)
  note pc' = pc [unfolded to_utc.simps sy res_bind_simps latest_is_last [OF sorted]]
  from pc' obtain a b a' b' where pr: "sell_price (last_quote (cd_quotes c) t sp) = Some a"
      "buy_price (last_quote (cd_quotes c) t lp) = Some b" "sell_price (last_quote (cd_quotes c) t sc) = Some a'"
      "buy_price (last_quote (cd_quotes c) t lc) = Some b'"
    by (auto split: option.splits)
  have f: "short_put_price f = a" "long_put_price f = b" "short_call_price f = a'" "long_call_price f = b'"
    "fill_credit f = a + a' - b - b'"
    using pc' [unfolded pr] by (auto dest: mk_condor_fill_exact)
  show "leg_filled c t ''P'' (short_put s) q_bid (short_put_price f)"
    "leg_filled c t ''P'' (long_put s) q_ask (long_put_price f)"
    "leg_filled c t ''C'' (short_call s) q_bid (short_call_price f)"
    "leg_filled c t ''C'' (long_call s) q_ask (long_call_price f)"
    "0 < short_put_price f" "0 < short_call_price f"
    "fill_credit f = short_put_price f + short_call_price f - long_put_price f - long_call_price f"
    using sell_price_Some [OF pr(1)] buy_price_Some [OF pr(2)] sell_price_Some [OF pr(3)]
      buy_price_Some [OF pr(4)] sy
    by (auto simp: f leg_filled_def dest: last_quote_Some)
qed

text \<open>C12. The backtest entry sees no future: the economics of a day depend only on the quotes at or
  before the entry, and every leg of a fill is priced on the defensive side of the last quote of its
  own symbol visible then, with positive premiums sold.\<close>

theorem condor_entry_sees_no_future:
  assumes "mk_chain_day c = Inr c" and "mk_chain_day c' = Inr c'" and "cd_day c' = cd_day c"
    and "filter (\<lambda>q. q_ts q \<le> t) (cd_quotes c') = filter (\<lambda>q. q_ts q \<le> t) (cd_quotes c)"
  shows "evaluate_day c' (Aware t) center d close fees = evaluate_day c (Aware t) center d close fees
    \<and> (\<forall>s f. price_condor c (Aware t) s = Inr (Some f) \<longrightarrow>
      leg_filled c t ''P'' (short_put s) q_bid (short_put_price f)
      \<and> leg_filled c t ''P'' (long_put s) q_ask (long_put_price f)
      \<and> leg_filled c t ''C'' (short_call s) q_bid (short_call_price f)
      \<and> leg_filled c t ''C'' (long_call s) q_ask (long_call_price f)
      \<and> 0 < short_put_price f \<and> 0 < short_call_price f
      \<and> fill_credit f = short_put_price f + short_call_price f - long_put_price f - long_call_price f)"
proof -
  have sorted: "sorted (map q_ts (cd_quotes c))" "sorted (map q_ts (cd_quotes c'))"
    using assms(1,2) by (auto dest: mk_chain_day_sorted)
  have "latest_quotes_at_or_before (cd_quotes c') t = latest_quotes_at_or_before (cd_quotes c) t"
    by (simp add: latest_quotes_at_or_before_def latest_quotes_filter sorted assms(4))
  then have "price_condor c' (Aware t) s = price_condor c (Aware t) s" for s
    by (simp add: price_condor_def assms(3))
  then have "evaluate_day c' (Aware t) center d close fees = evaluate_day c (Aware t) center d close fees"
    by (simp add: evaluate_day_def assms(3))
  then show ?thesis using price_condor_legs [OF _ sorted(1)] by (intro conjI allI impI) blast+
qed

theorem condor_entry_sees_no_future_witness:
  "evaluate_day (example_chain [example_quote ''SPXW  260817P04990000'' 4 5 11]) (Aware 10) 5000
     example_distances 4988 (1/100)
   = evaluate_day (example_chain []) (Aware 10) 5000 example_distances 4988 (1/100)
   \<and> leg_filled (example_chain []) 10 ''P'' 4990 q_bid (3/2)"
proof -
  have c: "mk_chain_day (example_chain []) = Inr (example_chain [])"
    "mk_chain_day (example_chain [example_quote ''SPXW  260817P04990000'' 4 5 11])
      = Inr (example_chain [example_quote ''SPXW  260817P04990000'' 4 5 11])"
    by (simp_all add: mk_chain_day_def example_chain_def example_quote_def)
  have same: "cd_day (example_chain [example_quote ''SPXW  260817P04990000'' 4 5 11]) = cd_day (example_chain [])"
    "filter (\<lambda>q. q_ts q \<le> 10) (cd_quotes (example_chain [example_quote ''SPXW  260817P04990000'' 4 5 11]))
      = filter (\<lambda>q. q_ts q \<le> 10) (cd_quotes (example_chain []))"
    by (simp_all add: example_chain_def example_quote_def)
  note t = condor_entry_sees_no_future [OF c same]
  have "leg_filled (example_chain []) 10 ''P'' 4990 q_bid (3/2)"
    using conjunct2 [OF t] example_price [of "[]"] by (force simp: example_strikes_fields)
  then show ?thesis using conjunct1 [OF t] by blast
qed

text \<open>A summary accounts for every day: priced and unpriceable days add up to the batch, the
  regimes are disjoint slices in name order, each made of exactly the days that carry its name, and
  their counts and results add up to the totals; the net total is the gross total less the fees of
  the priced days.\<close>

theorem summary_partitions_by_regime:
  "let e = summarize days in
     es_n_priced e + es_n_unpriceable e = int (length days)
     \<and> sorted (map fst (es_regimes e)) \<and> distinct (map fst (es_regimes e))
     \<and> fst ` set (es_regimes e) = de_regime ` set days
     \<and> es_regimes e = map (\<lambda>r. (r, regime_summary r (filter (\<lambda>d. de_regime d = r) days))) (map fst (es_regimes e))
     \<and> (\<Sum>x\<leftarrow>es_regimes e. re_n_priced (snd x)) = es_n_priced e
     \<and> (\<Sum>x\<leftarrow>es_regimes e. re_n_unpriceable (snd x)) = es_n_unpriceable e
     \<and> (\<Sum>x\<leftarrow>es_regimes e. re_total_pnl (snd x)) = es_total_pnl e
     \<and> es_net_total_pnl e = es_total_pnl e - (\<Sum>d\<leftarrow>filter (\<lambda>d. de_status d = PRICED) days. de_fees d)"
proof -
  have keys: "map fst (map (\<lambda>(r, ms). (r, regime_summary r ms)) (by_regime days)) = map fst (by_regime days)"
    by (simp add: comp_def case_prod_beta)
  have regs: "fst ` set (by_regime days) = de_regime ` set days"
  proof (intro set_eqI iffI)
    fix r assume "r \<in> fst ` set (by_regime days)"
    then obtain ms where "(r, ms) \<in> set (by_regime days)" by force
    then show "r \<in> de_regime ` set days" unfolding by_regime_members by (auto simp: filter_empty_conv)
  next
    fix r assume "r \<in> de_regime ` set days"
    then have "(r, filter (\<lambda>d. de_regime d = r) days) \<in> set (by_regime days)"
      unfolding by_regime_members by (auto simp: filter_empty_conv)
    then show "r \<in> fst ` set (by_regime days)" by force
  qed
  have n: "(\<Sum>x\<leftarrow>by_regime days. int (length (priced_pnl (snd x)))) = int (length (priced_pnl days))"
    by (rule sum_by_regime) simp_all
  have u: "(\<Sum>x\<leftarrow>by_regime days. int (length (snd x)) - int (length (priced_pnl (snd x))))
    = int (length days) - int (length (priced_pnl days))"
    by (rule sum_by_regime) simp_all
  have p: "(\<Sum>x\<leftarrow>by_regime days. sum_list (priced_pnl (snd x))) = sum_list (priced_pnl days)"
    by (rule sum_by_regime) simp_all
  have members: "map (\<lambda>(r, ms). (r, regime_summary r ms)) (by_regime days)
    = map (\<lambda>r. (r, regime_summary r (filter (\<lambda>d. de_regime d = r) days))) (map fst (by_regime days))"
    by (auto simp: by_regime_members)
  have image: "fst ` set (map (\<lambda>(r, ms). (r, regime_summary r ms)) (by_regime days)) = de_regime ` set days"
    unfolding regs [symmetric] by (force simp: image_image case_prod_beta)
  let ?R = "map (\<lambda>(r, ms). (r, regime_summary r ms)) (by_regime days)"
  have es: "es_regimes (summarize days) = ?R" "es_n_priced (summarize days) = int (length (priced_pnl days))"
    "es_n_unpriceable (summarize days) = int (length days) - int (length (priced_pnl days))"
    "es_total_pnl (summarize days) = sum_list (priced_pnl days)"
    "es_net_total_pnl (summarize days) = sum_list (priced_pnl days)
       - (\<Sum>d\<leftarrow>filter (\<lambda>d. de_status d = PRICED) days. de_fees d)"
    by (simp_all add: summarize_def Let_def)
  have sums: "(\<Sum>x\<leftarrow>?R. re_n_priced (snd x)) = (\<Sum>x\<leftarrow>by_regime days. int (length (priced_pnl (snd x))))"
    "(\<Sum>x\<leftarrow>?R. re_n_unpriceable (snd x))
       = (\<Sum>x\<leftarrow>by_regime days. int (length (snd x)) - int (length (priced_pnl (snd x))))"
    "(\<Sum>x\<leftarrow>?R. re_total_pnl (snd x)) = (\<Sum>x\<leftarrow>by_regime days. sum_list (priced_pnl (snd x)))"
    by (simp_all add: comp_def case_prod_beta regime_summary_def Let_def)
  show ?thesis
    unfolding Let_def es sums n u p keys using by_regime_sorted [of days] members image
    by (intro conjI) simp_all
qed

text \<open>A batch drops no day: the days of the window that have a label or recommended distances
  are exactly the priced days, the unpriceable ones and those counted as missing a chain, their
  distances or their label.\<close>

theorem batch_accounts_for_every_day:
  assumes "run_economics_batch et_utc loader label_file distance_file fees_doc start stop = Inr r"
  shows "int (card {day. start \<le> day \<and> day \<le> stop \<and> day \<in> el_day ` set label_file \<union> td_day ` set distance_file})
    = es_n_priced (br_summary r) + es_n_unpriceable (br_summary r)
      + br_missing_chain r + br_missing_distances r + br_missing_labels r"
proof -
  let ?ls = "window start stop el_day label_file" and ?ds = "window start stop td_day distance_file"
  from assms obtain fp s where
    loop: "batch_loop (batch_day et_utc loader fp ?ls ?ds)
      \<lparr>bs_missing_chain = 0, bs_missing_labels = 0, bs_economics = []\<rparr> (joined_days ?ls ?ds) = Inr s"
    and r: "br_summary r = summarize (bs_economics s)" "br_missing_chain r = bs_missing_chain s"
      "br_missing_distances r = int (length (filter (\<lambda>l. map_of ?ds (fst l) = None) ?ls))"
      "br_missing_labels r = bs_missing_labels s"
    by (auto simp: run_economics_batch_def Let_def split: if_splits)
  have "{day. start \<le> day \<and> day \<le> stop \<and> day \<in> el_day ` set label_file \<union> td_day ` set distance_file}
    = fst ` set ?ls \<union> fst ` set ?ds" by (auto simp: window_keys)
  then have "card {day. start \<le> day \<and> day \<le> stop \<and> day \<in> el_day ` set label_file \<union> td_day ` set distance_file}
    = length (joined_days ?ls ?ds)" by (simp add: joined_days_def)
  moreover have "es_n_priced (summarize (bs_economics s)) + es_n_unpriceable (summarize (bs_economics s))
    = int (length (bs_economics s))" by (simp add: summarize_def Let_def)
  ultimately show ?thesis
    using batch_loop_count [OF loop] joined_split [OF window_ok, of start stop el_day label_file ?ds] r by simp
qed

definition example_label :: "pydate \<Rightarrow> excursion_label" where
  "example_label d = \<lparr>el_day = d, el_entry_et = 10, el_entry_price = 5000, el_close_price = 4988\<rparr>"

lemma example_label_fields:
  "el_day (example_label d) = d" "el_entry_et (example_label d) = 10"
  "el_entry_price (example_label d) = 5000" "el_close_price (example_label d) = 4988"
  by (simp_all add: example_label_def)

definition example_loader :: "pydate \<Rightarrow> chain_day result" where
  "example_loader d = (if d = 739845 then Inr (example_chain []) else Inl (ValueError ''no batch''))"

lemma example_windows:
  "window 739840 739850 el_day [example_label 739845, example_label 739846]
    = [(739845, example_label 739845), (739846, example_label 739846)]"
  "window 739840 739850 td_day [example_distances, example_distances\<lparr>td_day := 739847\<rparr>]
    = [(739845, example_distances), (739847, example_distances\<lparr>td_day := 739847\<rparr>)]"
  by (simp_all add: window_def example_label_def example_distances_def)

lemma example_days:
  "joined_days [(739845, example_label 739845), (739846, example_label 739846)]
      [(739845, example_distances), (739847, example_distances\<lparr>td_day := 739847\<rparr>)] = [739845, 739846, 739847]"
proof -
  have "set (map fst [(739845, example_label 739845), (739846, example_label 739846)])
    \<union> set (map fst [(739845, example_distances), (739847, example_distances\<lparr>td_day := 739847\<rparr>)])
    = set [739845, 739846, 739847 :: int]" by auto
  then show ?thesis unfolding joined_days_def
    by (simp only: sorted_list_of_set.idem_if_sorted_distinct) simp
qed

lemma example_batch:
  "\<exists>r. run_economics_batch (\<lambda>day t. t) example_loader [example_label 739845, example_label 739846]
       [example_distances, example_distances\<lparr>td_day := 739847\<rparr>] None 739840 739850 = Inr r
     \<and> es_n_priced (br_summary r) = 1"
proof -
  obtain e where e: "evaluate_day (example_chain []) (Aware 10) 5000 example_distances 4988 0 = Inr e"
    and p: "de_status e = PRICED" "de_pnl e = Some (-1)"
  proof -
    have "\<not> blank ''calm''" by (simp add: blank_iff is_space_def)
    moreover have "td_day example_distances = cd_day (example_chain [])" "cd_day (example_chain []) = 739845"
      "td_regime example_distances = ''calm''"
      by (simp_all add: example_distances_def example_chain_def)
    ultimately have "\<exists>e. evaluate_day (example_chain []) (Aware 10) 5000 example_distances 4988 0 = Inr e
        \<and> de_status e = PRICED \<and> de_pnl e = Some (-1)"
      by (simp add: evaluate_day_def example_condor_strikes example_price settle_condor_def
          example_strikes_fields mk_day_economics_def isclose_def)
    then show ?thesis using that by blast
  qed
  have "batch_loop (batch_day (\<lambda>day t. t) example_loader 0
      [(739845, example_label 739845), (739846, example_label 739846)]
      [(739845, example_distances), (739847, example_distances\<lparr>td_day := 739847\<rparr>)])
      \<lparr>bs_missing_chain = 0, bs_missing_labels = 0, bs_economics = []\<rparr> [739845, 739846, 739847]
    = Inr \<lparr>bs_missing_chain = 0, bs_missing_labels = 1, bs_economics = [e]\<rparr>"
    by (simp add: batch_day_def example_loader_def example_label_fields e)
  moreover have "es_n_priced (summarize [e]) = 1"
    by (simp add: summarize_def Let_def priced_pnl_def map_filter_def p)
  ultimately show ?thesis
    by (simp add: run_economics_batch_def batch_fee_points_def example_windows example_days)
qed

theorem batch_accounts_for_every_day_witness:
  "\<exists>r. run_economics_batch (\<lambda>day t. t) example_loader [example_label 739845, example_label 739846]
       [example_distances, example_distances\<lparr>td_day := 739847\<rparr>]
       None 739840 739850 = Inr r
     \<and> es_n_priced (br_summary r) = 1
     \<and> int (card {day. 739840 \<le> day \<and> day \<le> 739850 \<and> day \<in> el_day ` set [example_label 739845, example_label 739846]
         \<union> td_day ` set [example_distances, example_distances\<lparr>td_day := 739847\<rparr>]})
       = es_n_priced (br_summary r) + es_n_unpriceable (br_summary r)
         + br_missing_chain r + br_missing_distances r + br_missing_labels r"
  using example_batch batch_accounts_for_every_day by blast

end
