(* ===== verification/ExitRules.thy ===== *)
theory ExitRules
  imports Condor
begin

text \<open>
  Exit policies of the iron condor (\<open>validation/exit_rules.py\<close>): the rules, the minute by minute
  simulation of one position, the summary of a rule and the comparison of several rules over a
  window on shared entry fills.  The New York wall clock is two parameters, \<open>et_utc day time\<close>
  (a local time of a day as an instant) and \<open>et_date\<close> (the local date of an instant).
\<close>

section \<open>Rules and outcomes\<close>

datatype exit_rule_kind = HOLD | PROFIT_TARGET | STOP_LOSS | TIME_EXIT

datatype exit_reason = BY_PROFIT_TARGET | BY_STOP_LOSS | BY_TIME_EXIT | BY_EXPIRY

fun reason_value :: "exit_reason \<Rightarrow> string" where
  "reason_value BY_PROFIT_TARGET = ''PROFIT_TARGET''"
| "reason_value BY_STOP_LOSS = ''STOP_LOSS''"
| "reason_value BY_TIME_EXIT = ''TIME_EXIT''"
| "reason_value BY_EXPIRY = ''EXPIRY''"

definition exit_reasons :: "exit_reason list" where
  "exit_reasons = [BY_PROFIT_TARGET, BY_STOP_LOSS, BY_TIME_EXIT, BY_EXPIRY]"

record exit_rule =
  er_kind :: exit_rule_kind
  profit_fraction :: rat
  stop_multiple :: rat
  time_exit_et :: int

definition mk_exit_rule :: "exit_rule \<Rightarrow> exit_rule result" where
  "mk_exit_rule r =
     (if \<not> (0 < profit_fraction r \<and> profit_fraction r \<le> 1)
        then Inl (ExitRulesError ''profit_fraction must be within (0, 1]'')
      else if stop_multiple r \<le> 0 then Inl (ExitRulesError ''stop_multiple must be positive'')
      else Inr r)"

record 't exit_outcome =
  exit_ts :: 't
  exit_why :: exit_reason
  exit_cost :: rat
  exit_pnl :: rat
  holding_minutes :: rat

type_synonym outcome = "instant exit_outcome"

definition mk_exit_outcome :: "datetime exit_outcome \<Rightarrow> outcome result" where
  "mk_exit_outcome x =
     res_bind (to_utc (ExitRulesError ''exit_ts must be timezone-aware'') (exit_ts x)) (\<lambda>t.
       if holding_minutes x < 0 then Inl (ExitRulesError ''holding_minutes must not be negative'')
       else Inr \<lparr>exit_ts = t, exit_why = exit_why x, exit_cost = exit_cost x,
                 exit_pnl = exit_pnl x, holding_minutes = holding_minutes x\<rparr>)"

section \<open>The simulation\<close>

record leg_symbols =
  sp_symbol :: string
  lp_symbol :: string
  sc_symbol :: string
  lc_symbol :: string

definition close_cost :: "(string \<Rightarrow> quote option) \<Rightarrow> leg_symbols \<Rightarrow> rat option" where
  "close_cost latest l =
     (case (buy_price (latest (sp_symbol l)), buy_price (latest (sc_symbol l)),
            sell_price (latest (lp_symbol l)), sell_price (latest (lc_symbol l))) of
        (Some sp, Some sc, Some lp, Some lc) \<Rightarrow> Some (sp + sc - lp - lc)
      | _ \<Rightarrow> None)"

text \<open>The inner loop moves the quote pointer: the quotes it leaves are later than the minute.\<close>

fun advance ::
  "quote list \<Rightarrow> instant \<Rightarrow> (string, quote) dict \<Rightarrow> quote list \<times> (string, quote) dict" where
  "advance [] minute latest = ([], latest)"
| "advance (q # qs) minute latest =
     (if q_ts q \<le> minute then advance qs minute (AList.update (q_symbol q) q latest)
      else (q # qs, latest))"

definition one_minute :: timedelta where "one_minute = 60000000"

definition exit_trigger :: "exit_rule \<Rightarrow> rat \<Rightarrow> instant \<Rightarrow> rat \<Rightarrow> instant \<Rightarrow> exit_reason option" where
  "exit_trigger rule credit time_exit_ts cost minute =
     (case er_kind rule of
        PROFIT_TARGET \<Rightarrow>
          if cost \<le> credit * (1 - profit_fraction rule) then Some BY_PROFIT_TARGET else None
      | STOP_LOSS \<Rightarrow>
          if cost \<ge> credit * (1 + stop_multiple rule) then Some BY_STOP_LOSS else None
      | TIME_EXIT \<Rightarrow> if minute \<ge> time_exit_ts then Some BY_TIME_EXIT else None
      | HOLD \<Rightarrow> None)"

function exit_loop ::
  "leg_symbols \<Rightarrow> (rat \<Rightarrow> instant \<Rightarrow> exit_reason option) \<Rightarrow> instant
     \<Rightarrow> quote list \<Rightarrow> (string, quote) dict \<Rightarrow> instant \<Rightarrow> (instant \<times> exit_reason \<times> rat) option" where
  "exit_loop legs trigger close_ts qs latest minute =
     (if minute \<le> close_ts then
        let (qs', latest') = advance qs minute latest in
        case close_cost (map_of latest') legs of
          None \<Rightarrow> exit_loop legs trigger close_ts qs' latest' (minute + one_minute)
        | Some cost \<Rightarrow>
            (case trigger cost minute of
               Some reason \<Rightarrow> Some (minute, reason, cost)
             | None \<Rightarrow> exit_loop legs trigger close_ts qs' latest' (minute + one_minute))
      else None)"
  by pat_completeness auto
termination
  by (relation "measure (\<lambda>(_, _, close_ts, _, _, minute). nat (close_ts + 1 - minute))")
    (auto simp: one_minute_def)

declare exit_loop.simps [simp del]

definition session_close_et :: int where "session_close_et = 16 * 3600000000"

definition outcome_of ::
  "instant condor_fill \<Rightarrow> instant \<Rightarrow> instant \<Rightarrow> exit_reason \<Rightarrow> rat \<Rightarrow> outcome result" where
  "outcome_of fill entry_ts t reason cost =
     mk_exit_outcome \<lparr>exit_ts = Aware t, exit_why = reason, exit_cost = cost,
       exit_pnl = fill_credit fill - cost,
       holding_minutes = of_int (t - entry_ts) / 60000000\<rparr>"

definition symbols_of :: "pydate \<Rightarrow> iron_condor_strikes \<Rightarrow> leg_symbols result" where
  "symbols_of day strikes =
     res_bind (osi_symbol day ''P'' (short_put strikes)) (\<lambda>sp.
     res_bind (osi_symbol day ''P'' (long_put strikes)) (\<lambda>lp.
     res_bind (osi_symbol day ''C'' (short_call strikes)) (\<lambda>sc.
     res_bind (osi_symbol day ''C'' (long_call strikes)) (\<lambda>lc.
       Inr \<lparr>sp_symbol = sp, lp_symbol = lp, sc_symbol = sc, lc_symbol = lc\<rparr>))))"

definition simulate_exit ::
  "(pydate \<Rightarrow> int \<Rightarrow> instant) \<Rightarrow> (instant \<Rightarrow> pydate) \<Rightarrow> chain_day \<Rightarrow> datetime \<Rightarrow> instant condor_fill
     \<Rightarrow> iron_condor_strikes \<Rightarrow> rat \<Rightarrow> exit_rule \<Rightarrow> outcome result" where
  "simulate_exit et_utc et_date chain entry fill strikes close_price rule =
     res_bind (to_utc (ExitRulesError ''entry must be timezone-aware'') entry) (\<lambda>entry_ts.
     if et_date entry_ts \<noteq> cd_day chain
       then Inl (ExitRulesError ''entry must fall on the chain day'')
     else let close_ts = et_utc (cd_day chain) session_close_et in
     if entry_ts \<ge> close_ts then Inl (ExitRulesError ''entry must be before the session close'')
     else let expiry = res_bind (settle_condor strikes close_price) (\<lambda>loss.
                outcome_of fill entry_ts close_ts BY_EXPIRY loss) in
     if er_kind rule = HOLD then expiry
     else res_bind (symbols_of (cd_day chain) strikes) (\<lambda>legs.
       case exit_loop legs
              (exit_trigger rule (fill_credit fill) (et_utc (cd_day chain) (time_exit_et rule)))
              close_ts (cd_quotes chain) [] (entry_ts + one_minute) of
         Some (minute, reason, cost) \<Rightarrow> outcome_of fill entry_ts minute reason cost
       | None \<Rightarrow> expiry))"

section \<open>Summaries and the comparison\<close>

record rule_summary =
  rs_rule :: exit_rule
  rs_n_priced :: int
  rs_n_unpriceable :: int
  rs_total_pnl :: rat
  rs_mean_pnl :: "rat option"
  rs_ev :: rat
  rs_cvar_95 :: "rat option"
  rs_win_rate :: "rat option"
  rs_mean_holding :: "rat option"
  rs_reason_counts :: "(string, int) dict"

definition count_reason :: "(string, int) dict \<Rightarrow> outcome \<Rightarrow> (string, int) dict" where
  "count_reason d x =
     (let k = reason_value (exit_why x) in AList.update k (the (map_of d k) + 1) d)"

definition summarize_rule :: "exit_rule \<Rightarrow> outcome list \<Rightarrow> int \<Rightarrow> rule_summary" where
  "summarize_rule rule results n_unpriceable =
     (let vs = map exit_pnl results;
          total = sum_list vs;
          n = int (length results) + n_unpriceable in
      \<lparr>rs_rule = rule, rs_n_priced = int (length results), rs_n_unpriceable = n_unpriceable,
       rs_total_pnl = total, rs_mean_pnl = on_values mean_of vs,
       rs_ev = (if n = 0 then 0 else total / of_int n),
       rs_cvar_95 = on_values cvar_95 vs, rs_win_rate = on_values win_rate vs,
       rs_mean_holding = on_values mean_of (map holding_minutes results),
       rs_reason_counts =
         foldl count_reason (map (\<lambda>r. (reason_value r, 0)) exit_reasons) results\<rparr>)"

record exit_comparison_report =
  xr_start :: pydate
  xr_end :: pydate
  xr_rules :: "rule_summary list"
  xr_missing_chain :: int
  xr_missing_distances :: int
  xr_missing_labels :: int

record comparison_state =
  cs_missing_chain :: int
  cs_missing_labels :: int
  cs_outcomes :: "outcome list list"
  cs_unpriceable :: "int list"

definition compare_day ::
  "(pydate \<Rightarrow> int \<Rightarrow> instant) \<Rightarrow> (instant \<Rightarrow> pydate) \<Rightarrow> (pydate \<Rightarrow> chain_day result) \<Rightarrow> exit_rule list
     \<Rightarrow> (pydate, excursion_label) dict \<Rightarrow> (pydate, tail_distances) dict
     \<Rightarrow> comparison_state \<Rightarrow> pydate \<Rightarrow> comparison_state result" where
  "compare_day et_utc et_date loader rules labels distances s day =
     (case map_of labels day of
        None \<Rightarrow> Inr (s\<lparr>cs_missing_labels := cs_missing_labels s + 1\<rparr>)
      | Some lab \<Rightarrow>
          (case map_of distances day of
             None \<Rightarrow> Inr s
           | Some rec \<Rightarrow>
               (case loader day of
                  Inl _ \<Rightarrow> Inr (s\<lparr>cs_missing_chain := cs_missing_chain s + 1\<rparr>)
                | Inr chain \<Rightarrow>
                    let entry = Aware (et_utc day (el_entry_et lab)) in
                    res_bind (condor_strikes (el_entry_price lab) rec) (\<lambda>strikes.
                    res_bind (price_condor chain entry strikes) (\<lambda>v.
                    case v of
                      None \<Rightarrow> Inr (s\<lparr>cs_unpriceable := map (\<lambda>n. n + 1) (cs_unpriceable s)\<rparr>)
                    | Some fill \<Rightarrow>
                        res_bind (res_map (simulate_exit et_utc et_date chain entry fill strikes
                                             (el_close_price lab)) rules) (\<lambda>new.
                        Inr (s\<lparr>cs_outcomes := map2 (\<lambda>os x. os @ [x]) (cs_outcomes s) new\<rparr>)))))))"

definition summarize_all ::
  "exit_rule list \<Rightarrow> outcome list list \<Rightarrow> int list \<Rightarrow> rule_summary list" where
  "summarize_all rules outs ns = map (\<lambda>(r, os, n). summarize_rule r os n) (zip rules (zip outs ns))"

definition run_exit_comparison ::
  "(pydate \<Rightarrow> int \<Rightarrow> instant) \<Rightarrow> (instant \<Rightarrow> pydate) \<Rightarrow> (pydate \<Rightarrow> chain_day result)
     \<Rightarrow> excursion_label list \<Rightarrow> tail_distances list \<Rightarrow> exit_rule list
     \<Rightarrow> pydate \<Rightarrow> pydate \<Rightarrow> exit_comparison_report result" where
  "run_exit_comparison et_utc et_date loader label_file distance_file rules start stop =
     (if start > stop
      then Inl (ExitRulesError (''start '' @ iso_date start @ '' must not be after end '' @ iso_date stop))
      else if rules = [] then Inl (ExitRulesError ''rules must not be empty'')
      else let labels = window start stop el_day label_file;
               distances = window start stop td_day distance_file in
        res_bind (batch_loop (compare_day et_utc et_date loader rules labels distances)
            \<lparr>cs_missing_chain = 0, cs_missing_labels = 0, cs_outcomes = map (\<lambda>_. []) rules,
             cs_unpriceable = replicate (length rules) 0\<rparr>
            (joined_days labels distances)) (\<lambda>s.
        Inr \<lparr>xr_start = start, xr_end = stop,
             xr_rules = summarize_all rules (cs_outcomes s) (cs_unpriceable s),
             xr_missing_chain = cs_missing_chain s,
             xr_missing_distances =
               int (length (filter (\<lambda>l. map_of distances (fst l) = None) labels)),
             xr_missing_labels = cs_missing_labels s\<rparr>))"

section \<open>The simulation against a reference without incremental state\<close>

text \<open>
  What a minute offers when looked at on its own: the cost from the last quotes visible at that
  minute, recomputed from the whole day, and the decision of the rule on it.
\<close>

definition fires ::
  "quote list \<Rightarrow> leg_symbols \<Rightarrow> (rat \<Rightarrow> instant \<Rightarrow> exit_reason option) \<Rightarrow> instant \<Rightarrow> (exit_reason \<times> rat) option" where
  "fires qs legs trigger m =
     (case close_cost (last_quote qs m) legs of
        None \<Rightarrow> None
      | Some cost \<Rightarrow> (case trigger cost m of None \<Rightarrow> None | Some r \<Rightarrow> Some (r, cost)))"

definition exit_hit ::
  "chain_day \<Rightarrow> iron_condor_strikes \<Rightarrow> rat \<Rightarrow> exit_rule \<Rightarrow> instant \<Rightarrow> instant \<Rightarrow> (exit_reason \<times> rat) option" where
  "exit_hit c s credit rule time_exit_ts m =
     (case symbols_of (cd_day c) s of
        Inl _ \<Rightarrow> None
      | Inr legs \<Rightarrow> fires (cd_quotes c) legs (exit_trigger rule credit time_exit_ts) m)"

lemma advance_filter:
  "sorted (map q_ts qs) \<Longrightarrow> advance qs m l =
     (filter (\<lambda>q. m < q_ts q) qs, index_quotes (filter (\<lambda>q. q_ts q \<le> m) qs) l)"
proof (induction qs arbitrary: l)
  case (Cons q qs)
  show ?case
  proof (cases "q_ts q \<le> m")
    case False
    then have "\<forall>x \<in> set qs. m < q_ts x" using Cons.prems by force
    then have "filter (\<lambda>x. m < q_ts x) qs = qs" "filter (\<lambda>x. q_ts x \<le> m) qs = []"
      by (auto simp: filter_id_conv filter_empty_conv)
    with False show ?thesis by (simp add: index_quotes_def)
  qed (use Cons in \<open>simp add: index_quotes_def\<close>)
qed (simp add: index_quotes_def)

lemma split_at:
  "sorted (map q_ts qs) \<Longrightarrow> qs = filter (\<lambda>q. q_ts q \<le> m) qs @ filter (\<lambda>q. m < q_ts q) qs"
proof (induction qs)
  case (Cons q qs)
  show ?case
  proof (cases "q_ts q \<le> m")
    case False
    then have "\<forall>x \<in> set (q # qs). m < q_ts x" using Cons.prems by force
    then have "filter (\<lambda>x. m < q_ts x) (q # qs) = q # qs" "filter (\<lambda>x. q_ts x \<le> m) (q # qs) = []"
      by (simp_all only: filter_id_conv filter_empty_conv not_le) 
    then show ?thesis by simp
  qed (use Cons in simp)
qed simp

lemma index_quotes_append: "index_quotes ys (index_quotes xs d) = index_quotes (xs @ ys) d"
  by (simp add: index_quotes_def)

text \<open>The state of the walk: the quotes already indexed and those still ahead make the day.\<close>

definition walk_ok :: "quote list \<Rightarrow> quote list \<Rightarrow> (string, quote) dict \<Rightarrow> instant \<Rightarrow> bool" where
  "walk_ok all qs latest m \<longleftrightarrow> sorted (map q_ts all) \<and>
     (\<exists>past. all = past @ qs \<and> latest = index_quotes past [] \<and> (\<forall>q \<in> set past. q_ts q \<le> m))"

lemma walk_start: "sorted (map q_ts all) \<Longrightarrow> walk_ok all all [] m"
  by (simp add: walk_ok_def index_quotes_def)

lemma walk_advance:
  assumes "walk_ok all qs latest m" and "advance qs m latest = (qs', latest')"
  shows "map_of latest' sy = last_quote all m sy" and "m \<le> n \<Longrightarrow> walk_ok all qs' latest' n"
proof -
  from assms(1) obtain past where p: "sorted (map q_ts all)" "all = past @ qs" "latest = index_quotes past []"
    "\<forall>q \<in> set past. q_ts q \<le> m" by (auto simp: walk_ok_def)
  have s: "sorted (map q_ts qs)" using p(1,2) by (simp add: sorted_append)
  have past: "filter (\<lambda>q. q_ts q \<le> m) past = past" using p(4) by (simp add: filter_id_conv)
  from assms(2) have q: "qs' = filter (\<lambda>q. m < q_ts q) qs"
    "latest' = index_quotes (filter (\<lambda>q. q_ts q \<le> m) all) []"
    by (auto simp: advance_filter [OF s] p(2,3) index_quotes_append past)
  show "map_of latest' sy = last_quote all m sy"
    by (simp add: q index_quotes_lookup last_quote_def Let_def conj_commute)
  have "qs = filter (\<lambda>q. q_ts q \<le> m) qs @ filter (\<lambda>q. m < q_ts q) qs"
    by (rule split_at [OF s])
  then have "all = (past @ filter (\<lambda>q. q_ts q \<le> m) qs) @ qs'" using p(2) q(1) by simp
  then show "walk_ok all qs' latest' n" if "m \<le> n"
    unfolding walk_ok_def using p(1,4) that
    by (intro conjI exI [of _ "past @ filter (\<lambda>q. q_ts q \<le> m) qs"]) (auto simp: q(2) p(2) past)
qed

text \<open>The loop stops at the first minute that fires, and runs out only when none does.\<close>

definition minute_at :: "instant \<Rightarrow> nat \<Rightarrow> instant" where
  "minute_at m k = m + one_minute * int k"

lemma exit_loop_first:
  assumes "walk_ok all qs latest m"
  shows "case exit_loop legs trigger stop qs latest m of
      Some (t, r, cost) \<Rightarrow> (\<exists>k. t = minute_at m k \<and> t \<le> stop \<and> fires all legs trigger t = Some (r, cost)
        \<and> (\<forall>j<k. fires all legs trigger (minute_at m j) = None))
    | None \<Rightarrow> (\<forall>j. minute_at m j \<le> stop \<longrightarrow> fires all legs trigger (minute_at m j) = None)"
  using assms
proof (induction legs trigger stop qs latest m rule: exit_loop.induct)
  case (1 legs trigger stop qs latest m)
  show ?case
  proof (cases "m \<le> stop")
    case False
    then have "\<not> minute_at m j \<le> stop" for j by (simp add: minute_at_def one_minute_def)
    with False show ?thesis by (simp add: exit_loop.simps)
  next
    case True
    obtain qs' latest' where adv: "advance qs m latest = (qs', latest')" by force
    note w = walk_advance [OF "1.prems" adv]
    have look: "map_of latest' = last_quote all m" by (rule ext) (rule w(1))
    have zero: "minute_at m 0 = m" by (simp add: minute_at_def)
    have suc: "minute_at m (Suc k) = minute_at (m + one_minute) k" for k
      by (simp add: minute_at_def algebra_simps)
    show ?thesis
    proof (cases "fires all legs trigger m")
      case (Some x)
      then obtain cost r where "close_cost (last_quote all m) legs = Some cost" "trigger cost m = Some r" "x = (r, cost)"
        by (auto simp: fires_def split: option.splits)
      then have "exit_loop legs trigger stop qs latest m = Some (m, r, cost)"
        by (subst exit_loop.simps) (simp add: True adv look)
      then show ?thesis using True Some \<open>x = (r, cost)\<close> zero by (auto intro!: exI [of _ 0])
    next
      case None
      have step: "exit_loop legs trigger stop qs latest m = exit_loop legs trigger stop qs' latest' (m + one_minute)"
        using None by (subst exit_loop.simps) (auto simp: True adv look fires_def split: option.splits)
      have walk: "walk_ok all qs' latest' (m + one_minute)" by (rule w(2)) (simp add: one_minute_def)
      have rest: "case exit_loop legs trigger stop qs' latest' (m + one_minute) of
          Some (t, r, cost) \<Rightarrow> (\<exists>k. t = minute_at (m + one_minute) k \<and> t \<le> stop
            \<and> fires all legs trigger t = Some (r, cost)
            \<and> (\<forall>j<k. fires all legs trigger (minute_at (m + one_minute) j) = None))
        | None \<Rightarrow> (\<forall>j. minute_at (m + one_minute) j \<le> stop \<longrightarrow> fires all legs trigger (minute_at (m + one_minute) j) = None)"
      proof (cases "close_cost (map_of latest') legs")
        case None
        show ?thesis by (rule "1.IH"(1) [OF True adv [symmetric] refl None walk])
      next
        case (Some cost)
        moreover have "trigger cost m = None" using \<open>fires all legs trigger m = None\<close> Some
          by (simp add: fires_def look split: option.splits)
        ultimately show ?thesis by (intro "1.IH"(2) [OF True adv [symmetric] refl _ _ walk])
      qed
      show ?thesis
      proof (cases "exit_loop legs trigger stop qs' latest' (m + one_minute)")
        case (Some x)
        obtain t r cost where x: "x = (t, r, cost)" by (cases x)
        with rest Some obtain k where "t = minute_at (m + one_minute) k" "t \<le> stop" "fires all legs trigger t = Some (r, cost)"
          "\<forall>j<k. fires all legs trigger (minute_at (m + one_minute) j) = None" by auto
        then have "t = minute_at m (Suc k)" "t \<le> stop" "fires all legs trigger t = Some (r, cost)"
          "\<forall>j<Suc k. fires all legs trigger (minute_at m j) = None"
          using None by (auto simp: suc zero less_Suc_eq_0_disj)
        then show ?thesis using step Some x by auto
      next
        case None': None
        have "fires all legs trigger (minute_at m j) = None" if "minute_at m j \<le> stop" for j
        proof (cases j)
          case (Suc i)
          then show ?thesis using rest None' that by (simp add: suc)
        qed (simp add: zero None)
        then show ?thesis using step None' by simp
      qed
    qed
  qed
qed

section \<open>Outcomes\<close>

lemma outcome_of_Inr:
  "outcome_of f t0 t r c = Inr x \<longleftrightarrow> t0 \<le> t \<and> x = \<lparr>exit_ts = t, exit_why = r, exit_cost = c,
     exit_pnl = fill_credit f - c, holding_minutes = of_int (t - t0) / 60000000\<rparr>"
  by (auto simp: outcome_of_def mk_exit_outcome_def zero_le_divide_iff)

lemma trigger_reason:
  "exit_trigger rule credit at' cost m = Some r \<Longrightarrow> r \<noteq> BY_EXPIRY
     \<and> (r = BY_PROFIT_TARGET \<longrightarrow> cost \<le> credit * (1 - profit_fraction rule))
     \<and> (r = BY_STOP_LOSS \<longrightarrow> credit * (1 + stop_multiple rule) \<le> cost)
     \<and> (r = BY_TIME_EXIT \<longrightarrow> at' \<le> m)"
  by (auto simp: exit_trigger_def split: exit_rule_kind.splits if_splits)

lemma simulate_exit_Inr:
  assumes "simulate_exit eu ed c (Aware t) f s close rule = Inr x" and sorted: "sorted (map q_ts (cd_quotes c))"
  defines "stop \<equiv> eu (cd_day c) session_close_et"
    and "hit \<equiv> exit_hit c s (fill_credit f) rule (eu (cd_day c) (time_exit_et rule))"
  obtains (early) k r cost where "minute_at t (Suc k) \<le> stop" "hit (minute_at t (Suc k)) = Some (r, cost)"
      "\<forall>j<k. hit (minute_at t (Suc j)) = None" "outcome_of f t (minute_at t (Suc k)) r cost = Inr x"
  | (expiry) loss where "settle_condor s close = Inr loss" "outcome_of f t stop BY_EXPIRY loss = Inr x"
      "\<forall>j. minute_at t (Suc j) \<le> stop \<longrightarrow> hit (minute_at t (Suc j)) = None"
proof (cases "er_kind rule = HOLD")
  case True
  then have none: "hit m = None" for m
    by (auto simp: hit_def exit_hit_def fires_def exit_trigger_def split: sum.splits option.splits)
  from assms(1) True obtain loss where "settle_condor s close = Inr loss" "outcome_of f t stop BY_EXPIRY loss = Inr x"
    by (auto simp: simulate_exit_def stop_def Let_def split: if_splits)
  then show ?thesis using none by (intro expiry) simp_all
next
  case False
  from assms(1) False obtain legs where legs: "symbols_of (cd_day c) s = Inr legs"
    by (auto simp: simulate_exit_def Let_def split: if_splits)
  let ?trig = "exit_trigger rule (fill_credit f) (eu (cd_day c) (time_exit_et rule))"
  have hit: "hit m = fires (cd_quotes c) legs ?trig m" for m by (simp add: hit_def exit_hit_def legs)
  have suc: "minute_at (t + one_minute) k = minute_at t (Suc k)" for k by (simp add: minute_at_def algebra_simps)
  note first = exit_loop_first [OF walk_start [OF sorted],
    where legs = legs and trigger = ?trig and stop = stop and m = "t + one_minute"]
  show ?thesis
  proof (cases "exit_loop legs ?trig stop (cd_quotes c) [] (t + one_minute)")
    case None
    with assms(1) False legs obtain loss where "settle_condor s close = Inr loss"
      "outcome_of f t stop BY_EXPIRY loss = Inr x"
      by (auto simp: simulate_exit_def stop_def Let_def split: if_splits)
    then show ?thesis using first None by (intro expiry) (simp_all add: hit suc)
  next
    case (Some y)
    obtain m r cost where y: "y = (m, r, cost)" by (cases y)
    with assms(1) False legs Some have x: "outcome_of f t m r cost = Inr x"
      by (auto simp: simulate_exit_def stop_def Let_def split: if_splits)
    from first Some y obtain k where "m = minute_at (t + one_minute) k" "m \<le> stop"
      "fires (cd_quotes c) legs ?trig m = Some (r, cost)"
      "\<forall>j<k. fires (cd_quotes c) legs ?trig (minute_at (t + one_minute) j) = None" by auto
    with x show ?thesis by (intro early [of k r cost]) (simp_all add: hit suc)
  qed
qed

lemma hit_reason:
  assumes "exit_hit c s credit rule te m = Some (r, cost)"
  shows "r \<noteq> BY_EXPIRY" "r = BY_PROFIT_TARGET \<Longrightarrow> cost \<le> credit * (1 - profit_fraction rule)"
    "r = BY_STOP_LOSS \<Longrightarrow> credit * (1 + stop_multiple rule) \<le> cost" "r = BY_TIME_EXIT \<Longrightarrow> te \<le> m"
  using assms by (auto simp: exit_hit_def fires_def split: sum.splits option.splits dest: trigger_reason)

lemma simulate_hold:
  assumes "simulate_exit eu ed c (Aware t) f s close rule = Inr x" and "er_kind rule = HOLD"
    and "settle_condor s close = Inr loss"
  shows "exit_pnl x = fill_credit f - loss"
  using assms by (auto simp: simulate_exit_def Let_def outcome_of_Inr split: if_splits)

section \<open>The comparison against the baseline economics\<close>

definition hold_rel :: "nat \<Rightarrow> nat \<Rightarrow> batch_state \<Rightarrow> comparison_state \<Rightarrow> bool" where
  "hold_rel n i b c \<longleftrightarrow> i < n \<and> length (cs_outcomes c) = n \<and> length (cs_unpriceable c) = n
     \<and> cs_missing_chain c = bs_missing_chain b \<and> cs_missing_labels c = bs_missing_labels b
     \<and> map exit_pnl (cs_outcomes c ! i) = priced_pnl (bs_economics b)
     \<and> cs_unpriceable c ! i = int (length (bs_economics b)) - int (length (priced_pnl (bs_economics b)))"

lemma priced_pnl_single:
  "priced_pnl [e] = (if de_status e = PRICED then (case de_pnl e of None \<Rightarrow> [] | Some p \<Rightarrow> [p]) else [])"
  by (simp add: priced_pnl_def map_filter_def split: option.splits)

lemma hold_step:
  assumes rel: "hold_rel (length rules) i b c" and kind: "er_kind (rules ! i) = HOLD"
    and b: "batch_day eu ld fp labels distances b d = Inr b'"
    and c: "compare_day eu ed ld rules labels distances c d = Inr c'"
  shows "hold_rel (length rules) i b' c'"
proof (cases "\<exists>lab rec chain. map_of labels d = Some lab \<and> map_of distances d = Some rec \<and> ld d = Inr chain")
  case False
  then show ?thesis using rel b c
    by (auto simp: batch_day_def compare_day_def hold_rel_def split: option.splits sum.splits)
next
  case True
  then obtain lab rec chain where j: "map_of labels d = Some lab" "map_of distances d = Some rec" "ld d = Inr chain"
    by blast
  let ?t = "eu d (el_entry_et lab)"
  from b j obtain e where e: "evaluate_day chain (Aware ?t) (el_entry_price lab) rec (el_close_price lab) fp = Inr e"
    and b': "b' = b\<lparr>bs_economics := bs_economics b @ [e]\<rparr>" by (auto simp: batch_day_def)
  from e show ?thesis
  proof (cases rule: evaluate_day_Inr)
    case (unpriced s)
    with c j have "c' = c\<lparr>cs_unpriceable := map (\<lambda>n. n + 1) (cs_unpriceable c)\<rparr>"
      by (simp add: compare_day_def)
    then show ?thesis using rel unpriced by (simp add: hold_rel_def b' priced_pnl_single)
  next
    case (priced s f l)
    from c j priced obtain new where new: "res_map (simulate_exit eu ed chain (Aware ?t) f s (el_close_price lab)) rules = Inr new"
      and c': "c' = c\<lparr>cs_outcomes := map2 (\<lambda>os x. os @ [x]) (cs_outcomes c) new\<rparr>"
      by (auto simp: compare_day_def Let_def)
    have len: "length new = length rules" using res_map_length [OF new] .
    have i: "i < length rules" using rel by (simp add: hold_rel_def)
    then have "simulate_exit eu ed chain (Aware ?t) f s (el_close_price lab) (rules ! i) = Inr (new ! i)"
      using res_map_all2 [OF new] by (simp add: list_all2_conv_all_nth)
    from simulate_hold [OF this kind priced(3)] have "exit_pnl (new ! i) = fill_credit f - l" .
    then show ?thesis using rel priced i len by (simp add: hold_rel_def b' c' priced_pnl_single)
  qed
qed

lemma hold_loop:
  assumes "hold_rel (length rules) i b c" and "er_kind (rules ! i) = HOLD"
    and "batch_loop (batch_day eu ld fp labels distances) b ds = Inr b'"
    and "batch_loop (compare_day eu ed ld rules labels distances) c ds = Inr c'"
  shows "hold_rel (length rules) i b' c'"
  using assms
proof (induction ds arbitrary: b c)
  case (Cons d ds)
  then obtain b1 c1 where "batch_day eu ld fp labels distances b d = Inr b1"
    "compare_day eu ed ld rules labels distances c d = Inr c1"
    "batch_loop (batch_day eu ld fp labels distances) b1 ds = Inr b'"
    "batch_loop (compare_day eu ed ld rules labels distances) c1 ds = Inr c'" by auto
  then show ?case using Cons.IH hold_step [OF Cons.prems(1,2)] Cons.prems(2) by blast
qed simp

lemma hold_summary:
  assumes "hold_rel (length rules) i b c"
  shows "let r = summarize_all rules (cs_outcomes c) (cs_unpriceable c) ! i; e = summarize (bs_economics b) in
    rs_n_priced r = es_n_priced e \<and> rs_n_unpriceable r = es_n_unpriceable e \<and> rs_total_pnl r = es_total_pnl e
    \<and> rs_mean_pnl r = es_mean_pnl e \<and> rs_ev r = es_ev e \<and> rs_cvar_95 r = es_cvar_95 e
    \<and> rs_win_rate r = es_win_rate e"
proof -
  have len: "length (cs_outcomes c ! i) = length (priced_pnl (bs_economics b))"
    using assms by (metis hold_rel_def length_map)
  show ?thesis
    using assms len by (simp add: hold_rel_def summarize_all_def summarize_rule_def summarize_def Let_def)
qed

section \<open>Properties\<close>

text \<open>C11. A position is closed at the first minute after the entry at which its rule fires on the
  quotes visible then, looked up afresh in the whole day, or settles at the session close when none
  does; its result is the credit less the cost of closing, a profit target secures its share of the
  credit, a stop has lost at least its multiple, and a timed exit is not early.\<close>

theorem exit_at_first_trigger:
  assumes "mk_chain_day c = Inr c"
    and "simulate_exit et_utc et_date c (Aware t) fill s close rule = Inr x"
  shows "let stop = et_utc (cd_day c) session_close_et;
             at_time = et_utc (cd_day c) (time_exit_et rule);
             hit = exit_hit c s (fill_credit fill) rule at_time in
    ((\<exists>k. minute_at t (Suc k) \<le> stop \<and> exit_ts x = minute_at t (Suc k)
         \<and> hit (minute_at t (Suc k)) = Some (exit_why x, exit_cost x) \<and> exit_why x \<noteq> BY_EXPIRY
         \<and> (\<forall>j<k. hit (minute_at t (Suc j)) = None))
     \<or> (exit_why x = BY_EXPIRY \<and> exit_ts x = stop \<and> settle_condor s close = Inr (exit_cost x)
         \<and> (\<forall>j. minute_at t (Suc j) \<le> stop \<longrightarrow> hit (minute_at t (Suc j)) = None)))
    \<and> exit_pnl x = fill_credit fill - exit_cost x
    \<and> holding_minutes x = of_int (exit_ts x - t) / 60000000
    \<and> (exit_why x = BY_PROFIT_TARGET \<longrightarrow> fill_credit fill * profit_fraction rule \<le> exit_pnl x)
    \<and> (exit_why x = BY_STOP_LOSS \<longrightarrow> exit_pnl x \<le> - (fill_credit fill * stop_multiple rule))
    \<and> (exit_why x = BY_TIME_EXIT \<longrightarrow> at_time \<le> exit_ts x)"
proof -
  have sorted: "sorted (map q_ts (cd_quotes c))" using mk_chain_day_sorted [OF assms(1)] by blast
  from assms(2) sorted show ?thesis
  proof (cases rule: simulate_exit_Inr)
    case (early k r cost)
    note reason = hit_reason [OF early(2)]
    have x: "exit_ts x = minute_at t (Suc k)" "exit_why x = r" "exit_cost x = cost"
      "exit_pnl x = fill_credit fill - cost" "holding_minutes x = of_int (minute_at t (Suc k) - t) / 60000000"
      using early(4) by (simp_all add: outcome_of_Inr)
    have p: "r = BY_PROFIT_TARGET \<Longrightarrow> fill_credit fill * profit_fraction rule \<le> fill_credit fill - cost"
      and q: "r = BY_STOP_LOSS \<Longrightarrow> fill_credit fill - cost \<le> - (fill_credit fill * stop_multiple rule)"
      using reason(2,3) by (simp_all add: algebra_simps)
    show ?thesis unfolding Let_def x using early(1-3) reason(1,4) p q by blast
  next
    case (expiry loss)
    then have x: "exit_ts x = et_utc (cd_day c) session_close_et" "exit_why x = BY_EXPIRY" "exit_cost x = loss"
      "exit_pnl x = fill_credit fill - loss"
      "holding_minutes x = of_int (et_utc (cd_day c) session_close_et - t) / 60000000"
      by (simp_all add: outcome_of_Inr)
    show ?thesis unfolding Let_def x using expiry by simp
  qed
qed

text \<open>C37. Every position gets closed: from an entry on the day and before the close, with strikes
  that have symbols and a settlement, the simulation returns an outcome after the entry and no
  later than the session close, whatever the quotes and the rule; held to expiry it loses at most
  the wing less the credit.\<close>

theorem every_position_is_closed:
  assumes "mk_chain_day c = Inr c" and "et_date t = cd_day c"
    and "t < et_utc (cd_day c) session_close_et"
    and "symbols_of (cd_day c) s = Inr legs" and "settle_condor s close = Inr loss"
  shows "\<exists>x. simulate_exit et_utc et_date c (Aware t) fill s close rule = Inr x
    \<and> t < exit_ts x \<and> exit_ts x \<le> et_utc (cd_day c) session_close_et \<and> 0 < holding_minutes x
    \<and> (exit_why x = BY_EXPIRY \<longrightarrow>
         - (of_int (short_put s - long_put s) - fill_credit fill) \<le> exit_pnl x \<and> exit_pnl x \<le> fill_credit fill)"
proof -
  have sorted: "sorted (map q_ts (cd_quotes c))" using mk_chain_day_sorted [OF assms(1)] by blast
  let ?stop = "et_utc (cd_day c) session_close_et"
  let ?trig = "exit_trigger rule (fill_credit fill) (et_utc (cd_day c) (time_exit_et rule))"
  have later: "t < minute_at (t + one_minute) k" for k by (simp add: minute_at_def one_minute_def)
  have "\<exists>x. simulate_exit et_utc et_date c (Aware t) fill s close rule = Inr x"
  proof (cases "exit_loop legs ?trig ?stop (cd_quotes c) [] (t + one_minute)")
    case None
    then show ?thesis using assms(2-5) by (simp add: simulate_exit_def Let_def outcome_of_Inr not_le)
  next
    case (Some y)
    obtain m r cost where y: "y = (m, r, cost)" by (cases y)
    from exit_loop_first [OF walk_start [OF sorted], where legs = legs and trigger = ?trig
        and stop = ?stop and m = "t + one_minute"] Some y
    obtain k where "m = minute_at (t + one_minute) k" by auto
    then have "t < m" using later by simp
    then show ?thesis using assms(2-5) Some y
      by (auto simp: simulate_exit_def Let_def outcome_of_Inr not_le)
  qed
  then obtain x where x: "simulate_exit et_utc et_date c (Aware t) fill s close rule = Inr x" by blast
  from x sorted show ?thesis
  proof (cases rule: simulate_exit_Inr)
    case (early k r cost)
    then show ?thesis using x hit_reason(1) [OF early(2)]
      by (intro exI [of _ x]) (auto simp: outcome_of_Inr minute_at_def one_minute_def)
  next
    case (expiry l)
    then show ?thesis using x assms(3) settle_condor_bounds(1,2) [OF expiry(1)]
      by (intro exI [of _ x]) (auto simp: outcome_of_Inr)
  qed
qed

text \<open>Holding to expiry is the baseline: over the same files and window, the rule \<open>HOLD\<close> of a
  comparison reports the counts, the result, the expected value, the tail average and the win rate
  that the economics batch reports.\<close>

theorem hold_is_the_baseline:
  assumes "run_economics_batch et_utc loader label_file distance_file fees_doc start stop = Inr r"
    and "run_exit_comparison et_utc et_date loader label_file distance_file rules start stop = Inr x"
    and "i < length rules" and "er_kind (rules ! i) = HOLD"
  shows "let h = xr_rules x ! i; e = br_summary r in
    rs_n_priced h = es_n_priced e \<and> rs_n_unpriceable h = es_n_unpriceable e \<and> rs_total_pnl h = es_total_pnl e
    \<and> rs_mean_pnl h = es_mean_pnl e \<and> rs_ev h = es_ev e \<and> rs_cvar_95 h = es_cvar_95 e
    \<and> rs_win_rate h = es_win_rate e \<and> xr_missing_chain x = br_missing_chain r
    \<and> xr_missing_labels x = br_missing_labels r \<and> xr_missing_distances x = br_missing_distances r"
proof -
  let ?ls = "window start stop el_day label_file" and ?ds = "window start stop td_day distance_file"
  let ?b = "\<lparr>bs_missing_chain = 0, bs_missing_labels = 0, bs_economics = []\<rparr>"
  let ?c = "\<lparr>cs_missing_chain = 0, cs_missing_labels = 0, cs_outcomes = map (\<lambda>_. []) rules,
     cs_unpriceable = replicate (length rules) 0\<rparr>"
  from assms(1) obtain fp b where b: "batch_loop (batch_day et_utc loader fp ?ls ?ds) ?b (joined_days ?ls ?ds) = Inr b"
    and r: "br_summary r = summarize (bs_economics b)" "br_missing_chain r = bs_missing_chain b"
      "br_missing_distances r = int (length (filter (\<lambda>l. map_of ?ds (fst l) = None) ?ls))"
      "br_missing_labels r = bs_missing_labels b"
    by (auto simp: run_economics_batch_def Let_def split: if_splits)
  from assms(2) obtain c where c: "batch_loop (compare_day et_utc et_date loader rules ?ls ?ds) ?c (joined_days ?ls ?ds) = Inr c"
    and x: "xr_rules x = summarize_all rules (cs_outcomes c) (cs_unpriceable c)" "xr_missing_chain x = cs_missing_chain c"
      "xr_missing_distances x = int (length (filter (\<lambda>l. map_of ?ds (fst l) = None) ?ls))"
      "xr_missing_labels x = cs_missing_labels c"
    by (auto simp: run_exit_comparison_def Let_def split: if_splits)
  have "hold_rel (length rules) i ?b ?c" using assms(3) by (simp add: hold_rel_def)
  from hold_loop [OF this assms(4) b c] have rel: "hold_rel (length rules) i b c" .
  show ?thesis using hold_summary [OF rel] rel unfolding r x Let_def by (simp add: hold_rel_def)
qed

section \<open>Witnesses\<close>

definition example_rule :: "exit_rule_kind \<Rightarrow> exit_rule" where
  "example_rule k = \<lparr>er_kind = k, profit_fraction = 1/2, stop_multiple = 2, time_exit_et = 120000000\<rparr>"

definition example_fill :: "instant condor_fill" where
  "example_fill = \<lparr>filled_at = 10, fill_strikes = example_strikes, short_put_price = 3/2, long_put_price = 1,
     short_call_price = 6/5, long_call_price = 7/10, fill_credit = 1\<rparr>"

lemma example_legs: "symbols_of 739845 example_strikes = Inr \<lparr>sp_symbol = ''SPXW  260817P04990000'',
    lp_symbol = ''SPXW  260817P04985000'', sc_symbol = ''SPXW  260817C05010000'', lc_symbol = ''SPXW  260817C05015000''\<rparr>"
  by (simp add: symbols_of_def example_strikes_fields example_symbols)

lemma example_chain_ok: "mk_chain_day (example_chain []) = Inr (example_chain [])"
  "cd_day (example_chain []) = 739845"
  by (simp_all add: mk_chain_day_def example_chain_def example_quote_def)

lemma example_settle: "settle_condor example_strikes 5000 = Inr 0"
  by (simp add: settle_condor_def example_strikes_fields)

text \<open>With a clock that reads local times as instants, the timed rule closes at the second minute.\<close>

lemma example_timed_exit:
  "simulate_exit (\<lambda>day x. x) (\<lambda>x. 739845) (example_chain []) (Aware 10) example_fill example_strikes 5000
     (example_rule TIME_EXIT) = Inr \<lparr>exit_ts = 120000010, exit_why = BY_TIME_EXIT, exit_cost = 7/5,
       exit_pnl = -2/5, holding_minutes = 2\<rparr>"
proof -
  let ?trig = "exit_trigger (example_rule TIME_EXIT) 1 120000000"
  define L where "L = [(''SPXW  260817P04985000'', example_quote ''SPXW  260817P04985000'' (9/10) 1 1),
      (''SPXW  260817P04990000'', example_quote ''SPXW  260817P04990000'' (3/2) (8/5) 2),
      (''SPXW  260817C05010000'', example_quote ''SPXW  260817C05010000'' (6/5) (13/10) 3),
      (''SPXW  260817C05015000'', example_quote ''SPXW  260817C05015000'' (3/5) (7/10) 4)]"
  have cost: "close_cost (map_of L) \<lparr>sp_symbol = ''SPXW  260817P04990000'',
      lp_symbol = ''SPXW  260817P04985000'', sc_symbol = ''SPXW  260817C05010000'', lc_symbol = ''SPXW  260817C05015000''\<rparr> = Some (7/5)"
    by (simp add: L_def close_cost_def buy_price_def sell_price_def example_quote_def crossed_def)
  have adv: "advance (cd_quotes (example_chain [])) 60000010 [] = ([], L)"
    by (simp add: L_def example_chain_def example_quote_def)
  have "exit_loop \<lparr>sp_symbol = ''SPXW  260817P04990000'', lp_symbol = ''SPXW  260817P04985000'',
      sc_symbol = ''SPXW  260817C05010000'', lc_symbol = ''SPXW  260817C05015000''\<rparr> ?trig session_close_et
      (cd_quotes (example_chain [])) [] 60000010 = Some (120000010, BY_TIME_EXIT, 7/5)"
    by (subst exit_loop.simps, subst exit_loop.simps)
      (simp add: adv cost session_close_et_def one_minute_def exit_trigger_def example_rule_def)
  then show ?thesis
    by (simp add: simulate_exit_def example_chain_ok example_legs one_minute_def example_fill_def
        outcome_of_Inr session_close_et_def example_rule_def)
qed

theorem exit_at_first_trigger_witness:
  "exit_hit (example_chain []) example_strikes 1 (example_rule TIME_EXIT) 120000000 60000010 = None
   \<and> exit_hit (example_chain []) example_strikes 1 (example_rule TIME_EXIT) 120000000 120000010 = Some (BY_TIME_EXIT, 7/5)"
proof -
  from exit_at_first_trigger [OF example_chain_ok(1) example_timed_exit]
  obtain k where k: "minute_at 10 (Suc k) = 120000010"
    "exit_hit (example_chain []) example_strikes 1 (example_rule TIME_EXIT) 120000000 120000010 = Some (BY_TIME_EXIT, 7/5)"
    "\<forall>j<k. exit_hit (example_chain []) example_strikes 1 (example_rule TIME_EXIT) 120000000 (minute_at 10 (Suc j)) = None"
    by (auto simp: Let_def example_fill_def example_rule_def)
  then have "k = 1" by (simp add: minute_at_def one_minute_def)
  with k show ?thesis by (simp add: minute_at_def one_minute_def)
qed

theorem every_position_is_closed_witness:
  "\<exists>x. simulate_exit (\<lambda>day x. x) (\<lambda>x. 739845) (example_chain []) (Aware 10) example_fill example_strikes 5000
     (example_rule STOP_LOSS) = Inr x \<and> 10 < exit_ts x \<and> exit_ts x \<le> session_close_et"
proof -
  have t: "(\<lambda>x::instant. 739845) 10 = cd_day (example_chain [])" by (simp add: example_chain_ok)
  have b: "10 < (\<lambda>(day::pydate) x::int. x) (cd_day (example_chain [])) session_close_et"
    by (simp add: session_close_et_def)
  have legs: "\<exists>legs. symbols_of (cd_day (example_chain [])) example_strikes = Inr legs"
    by (simp add: example_chain_ok example_legs)
  then obtain legs where legs: "symbols_of (cd_day (example_chain [])) example_strikes = Inr legs" ..
  from every_position_is_closed [where et_utc = "\<lambda>day x. x" and et_date = "\<lambda>x. 739845",
      OF example_chain_ok(1) t b legs example_settle] show ?thesis by blast
qed

lemma example_comparison:
  "\<exists>x. run_exit_comparison (\<lambda>day t. t) (\<lambda>t. 739845) example_loader [example_label 739845, example_label 739846]
     [example_distances, example_distances\<lparr>td_day := 739847\<rparr>] [example_rule STOP_LOSS, example_rule HOLD]
     739840 739850 = Inr x"
proof -
  have settle: "settle_condor example_strikes 4988 = Inr 2"
    by (simp add: settle_condor_def example_strikes_fields)
  have "\<exists>y. simulate_exit (\<lambda>day t. t) (\<lambda>t. 739845) (example_chain []) (Aware 10) example_fill example_strikes 4988
      (example_rule k) = Inr y" for k
    using every_position_is_closed [where et_utc = "\<lambda>day x. x" and et_date = "\<lambda>x. 739845" and t = 10
        and fill = example_fill and rule = "example_rule k", OF example_chain_ok(1) _ _ _ settle]
    by (auto simp: example_chain_ok(2) session_close_et_def example_legs)
  then obtain y where y: "\<And>k. simulate_exit (\<lambda>day t. t) (\<lambda>t. 739845) (example_chain []) (Aware 10) example_fill
      example_strikes 4988 (example_rule k) = Inr (y k)" by metis
  have price: "price_condor (example_chain []) (Aware 10) example_strikes = Inr (Some example_fill)"
    using example_price [of "[]"] by (simp add: example_fill_def)
  have step: "compare_day (\<lambda>day t. t) (\<lambda>t. 739845) example_loader [example_rule STOP_LOSS, example_rule HOLD]
      [(739845, example_label 739845), (739846, example_label 739846)]
      [(739845, example_distances), (739847, example_distances\<lparr>td_day := 739847\<rparr>)] s d
    = (if d = 739845 then Inr (s\<lparr>cs_outcomes := map2 (\<lambda>os x. os @ [x]) (cs_outcomes s) [y STOP_LOSS, y HOLD]\<rparr>)
       else if d = 739846 then Inr s else Inr (s\<lparr>cs_missing_labels := cs_missing_labels s + 1\<rparr>))" for s d
    by (simp add: compare_day_def example_loader_def example_label_fields example_condor_strikes price y)
  show ?thesis
    by (simp add: run_exit_comparison_def example_windows example_days step)
qed

theorem hold_is_the_baseline_witness:
  "\<exists>r x. run_economics_batch (\<lambda>day t. t) example_loader [example_label 739845, example_label 739846]
       [example_distances, example_distances\<lparr>td_day := 739847\<rparr>] None 739840 739850 = Inr r
     \<and> run_exit_comparison (\<lambda>day t. t) (\<lambda>t. 739845) example_loader [example_label 739845, example_label 739846]
         [example_distances, example_distances\<lparr>td_day := 739847\<rparr>] [example_rule STOP_LOSS, example_rule HOLD]
         739840 739850 = Inr x
     \<and> rs_n_priced (xr_rules x ! 1) = 1"
proof -
  obtain r x where r: "run_economics_batch (\<lambda>day t. t) example_loader [example_label 739845, example_label 739846]
       [example_distances, example_distances\<lparr>td_day := 739847\<rparr>] None 739840 739850 = Inr r"
      "es_n_priced (br_summary r) = 1"
    and x: "run_exit_comparison (\<lambda>day t. t) (\<lambda>t. 739845) example_loader [example_label 739845, example_label 739846]
         [example_distances, example_distances\<lparr>td_day := 739847\<rparr>] [example_rule STOP_LOSS, example_rule HOLD]
         739840 739850 = Inr x" using example_batch example_comparison by blast
  have "1 < length [example_rule STOP_LOSS, example_rule HOLD]"
    "er_kind ([example_rule STOP_LOSS, example_rule HOLD] ! 1) = HOLD" by (simp_all add: example_rule_def)
  from hold_is_the_baseline [OF r(1) x this] r x show ?thesis by (auto simp: Let_def)
qed

end
