(* ===== verification/Attribution.thy ===== *)
theory Attribution
  imports Strikes Decision Events Alerts "HOL-Library.Product_Lexorder"
    "HOL-Library.Countable"
begin

text \<open>
  The alert stream and the attribution workflow (\<open>domain/attribution.py\<close>,
  \<open>domain/streaming.py\<close>, \<open>services/stream_attribution_store.py\<close>,
  \<open>services/stream_attribution_service.py\<close>).  The four append-only SQLite tables are lists of
  rows in insertion order.  A row holds the JSON text pydantic makes of a model; the encoder and
  the validating decoder of that library are a parameter \<open>codec\<close>, and what the code relies on,
  that decoding the encoding of a value gives the value back, is \<open>codec_ok\<close>.  Timestamps are
  stored as UTC texts, whose order is the order of the instants kept here.
\<close>

section \<open>Signals, tasks and reviews\<close>

datatype trigger_kind = MAJOR_EVENT | ABNORMAL_MOVE
datatype review_status = RS_OPEN | IN_REVIEW | CONFIRMED | REJECTED | INCONCLUSIVE
datatype cross_asset_coherence = CA_UNKNOWN | COHERENT | MIXED | DIVERGENT
datatype reaction_timing = SIGNAL_PRECEDED_MARKET | MARKET_PRECEDED_SIGNAL | SIMULTANEOUS

definition field_error :: py_error where "field_error = ValueError ''field constraint violated''"

record 't candidate_cause =
  cause_id :: string
  cause_summary :: string
  cc_published_at :: 't
  cc_first_seen_at :: 't
  cc_confidence :: rat
  evidence_refs :: "string list"

definition mk_candidate_cause :: "datetime candidate_cause \<Rightarrow> instant candidate_cause result" where
  "mk_candidate_cause c =
     (if cause_id c = [] \<or> cause_summary c = [] \<or> 500 < length (cause_summary c)
         \<or> cc_confidence c < 0 \<or> 1 < cc_confidence c \<or> 50 < length (evidence_refs c)
      then Inl field_error
      else res_bind (to_utc (ValueError ''source_published_at must be timezone-aware'') (cc_published_at c)) (\<lambda>p.
           res_bind (to_utc (ValueError ''first_seen_at must be timezone-aware'') (cc_first_seen_at c)) (\<lambda>f.
             if p > f then Inl (ValueError ''source_published_at cannot be after first_seen_at'')
             else Inr \<lparr>cause_id = cause_id c, cause_summary = cause_summary c, cc_published_at = p,
                       cc_first_seen_at = f, cc_confidence = cc_confidence c,
                       evidence_refs = evidence_refs c\<rparr>)))"

record 't cross_asset_observation =
  asset :: string
  ca_observed_at :: 't
  move_bps :: rat
  coherent :: bool
  ca_snapshot_id :: string

definition mk_cross_asset_observation ::
  "datetime cross_asset_observation \<Rightarrow> instant cross_asset_observation result" where
  "mk_cross_asset_observation x =
     (if asset x = [] \<or> ca_snapshot_id x = [] then Inl field_error
      else res_bind (to_utc (ValueError ''observed_at must be timezone-aware'') (ca_observed_at x)) (\<lambda>t.
        if \<not> starts_with ''sha256:'' (ca_snapshot_id x)
        then Inl (ValueError ''snapshot_id must be a sha256 identity'')
        else Inr \<lparr>asset = asset x, ca_observed_at = t, move_bps = move_bps x,
                  coherent = coherent x, ca_snapshot_id = ca_snapshot_id x\<rparr>))"

record 't attribution_signal =
  signal_id :: string
  as_kind :: trigger_kind
  as_severity :: event_severity
  observed_as_of :: 't
  as_first_seen_at :: 't
  market_reaction_start_at :: 't
  as_snapshot_id :: string
  replay_manifest_hash :: string
  candidates :: "instant candidate_cause list"
  cross_asset_observations :: "instant cross_asset_observation list"

type_synonym signal = "instant attribution_signal"

definition mk_attribution_signal :: "datetime attribution_signal \<Rightarrow> signal result" where
  "mk_attribution_signal s =
     (if signal_id s = [] \<or> as_snapshot_id s = [] \<or> replay_manifest_hash s = []
         \<or> 50 < length (candidates s) \<or> 50 < length (cross_asset_observations s)
      then Inl field_error
      else res_bind (to_utc (ValueError ''observed_as_of must be timezone-aware'') (observed_as_of s)) (\<lambda>now.
           res_bind (to_utc (ValueError ''first_seen_at must be timezone-aware'') (as_first_seen_at s)) (\<lambda>seen.
           res_bind (to_utc (ValueError ''market_reaction_start_at must be timezone-aware'')
                       (market_reaction_start_at s)) (\<lambda>start.
             if as_kind s = MAJOR_EVENT \<and> as_severity s \<notin> {P0, P1}
               then Inl (ValueError ''MAJOR_EVENT requires P0 or P1 severity'')
             else if \<not> starts_with ''sha256:'' (as_snapshot_id s)
               then Inl (ValueError ''snapshot_id must be a sha256 identity'')
             else if \<not> starts_with ''sha256:'' (replay_manifest_hash s)
               then Inl (ValueError ''replay_manifest_hash must be a sha256 identity'')
             else if seen > now then Inl (ValueError ''first_seen_at cannot be after observed_as_of'')
             else if start > now
               then Inl (ValueError ''market_reaction_start_at cannot be after observed_as_of'')
             else if list_ex (\<lambda>c. cc_first_seen_at c > now) (candidates s)
               then Inl (ValueError ''candidate causes cannot use future first_seen_at values'')
             else if list_ex (\<lambda>x. ca_observed_at x > now) (cross_asset_observations s)
               then Inl (ValueError ''cross-asset observations cannot be after observed_as_of'')
             else if \<not> distinct (map cause_id (candidates s))
               then Inl (ValueError ''candidate cause_id values must be unique'')
             else Inr \<lparr>signal_id = signal_id s, as_kind = as_kind s, as_severity = as_severity s,
                       observed_as_of = now, as_first_seen_at = seen, market_reaction_start_at = start,
                       as_snapshot_id = as_snapshot_id s, replay_manifest_hash = replay_manifest_hash s,
                       candidates = candidates s,
                       cross_asset_observations = cross_asset_observations s\<rparr>))))"

record attribution_task =
  task_id :: string
  at_signal :: signal
  at_created_at :: instant
  reaction_lag_seconds :: rat
  reaction_timing_interpretation :: reaction_timing
  at_coherence :: cross_asset_coherence
  at_confidence :: rat
  at_review_status :: review_status
  counterfactual_replay_link :: string
  retained_as_reusable_sample :: bool
  at_execution_enabled :: bool
  at_action :: decision_action

definition mk_attribution_task :: "attribution_task \<Rightarrow> attribution_task result" where
  "mk_attribution_task t =
     (if at_confidence t < 0 \<or> 1 < at_confidence t then Inl field_error else Inr t)"

record 't attribution_review =
  review_id :: string
  rv_task_id :: string
  rv_status :: review_status
  reviewer :: string
  reviewed_at :: 't
  rv_note :: "string option"
  retain_sample :: bool

type_synonym review = "instant attribution_review"

definition mk_attribution_review :: "datetime attribution_review \<Rightarrow> review result" where
  "mk_attribution_review r =
     (if reviewer r = [] \<or> 100 < length (reviewer r)
         \<or> (case rv_note r of None \<Rightarrow> False | Some n \<Rightarrow> 1000 < length n)
      then Inl field_error
      else res_bind (to_utc (ValueError ''reviewed_at must be timezone-aware'') (reviewed_at r)) (\<lambda>t.
        Inr \<lparr>review_id = review_id r, rv_task_id = rv_task_id r, rv_status = rv_status r,
             reviewer = reviewer r, reviewed_at = t, rv_note = rv_note r,
             retain_sample = retain_sample r\<rparr>))"

section \<open>Stream events and deliveries\<close>

record alert_stream_event =
  se_event_id :: string
  se_recorded_at :: instant
  se_alert :: alert_record

record delivery_audit =
  delivery_id :: string
  connection_id :: string
  stream_event_id :: string
  attempted_at :: instant

definition mk_delivery_audit :: "delivery_audit \<Rightarrow> delivery_audit result" where
  "mk_delivery_audit d =
     (if connection_id d = [] \<or> stream_event_id d = [] then Inl field_error else Inr d)"

section \<open>The store\<close>

record 'a codec =
  enc :: "'a \<Rightarrow> string"
  dec :: "string \<Rightarrow> 'a"

definition codec_ok :: "'a codec \<Rightarrow> bool" where
  "codec_ok c \<longleftrightarrow> (\<forall>x. dec c (enc c x) = x)"

record codecs =
  alert_codec :: "alert_record codec"
  delivery_codec :: "delivery_audit codec"
  task_codec :: "attribution_task codec"
  review_codec :: "review codec"

record stream_row =
  sr_sequence :: nat
  sr_key :: string
  sr_recorded_at :: instant
  sr_payload :: string

text \<open>A row of the other tables: key, timestamp, the indexed column, the payload.\<close>

record audit_row =
  ar_key :: string
  ar_time :: instant
  ar_extra :: string
  ar_payload :: string

record attribution_store =
  stream_events :: "stream_row list"
  stream_deliveries :: "audit_row list"
  attribution_tasks :: "audit_row list"
  attribution_reviews :: "audit_row list"

definition empty_attribution_store :: attribution_store where
  "empty_attribution_store = \<lparr>stream_events = [], stream_deliveries = [], attribution_tasks = [],
     attribution_reviews = []\<rparr>"

text \<open>The failure injector of the tests names the operations that raise; none does in service.\<close>

type_synonym injector = "string \<Rightarrow> py_error option"

definition inject :: "injector \<Rightarrow> string \<Rightarrow> unit result" where
  "inject fi op = (case fi op of Some e \<Rightarrow> Inl e | None \<Rightarrow> Inr ())"

definition no_failure :: injector where "no_failure op = None"

definition stream_event_of :: "codecs \<Rightarrow> stream_row \<Rightarrow> alert_stream_event" where
  "stream_event_of k r = \<lparr>se_event_id = show_nat (sr_sequence r), se_recorded_at = sr_recorded_at r,
     se_alert = dec (alert_codec k) (sr_payload r)\<rparr>"

definition max_sequence :: "stream_row list \<Rightarrow> nat" where
  "max_sequence rows = foldl (\<lambda>m r. max m (sr_sequence r)) 0 rows"

definition append_alert_projection ::
  "codecs \<Rightarrow> injector \<Rightarrow> attribution_store \<Rightarrow> string \<Rightarrow> alert_record \<Rightarrow> instant
     \<Rightarrow> alert_stream_event result \<times> attribution_store" where
  "append_alert_projection k fi st key alert now =
     (case inject fi ''append_stream_event'' of Inl e \<Rightarrow> (Inl e, st) | Inr _ \<Rightarrow>
      (case List.find (\<lambda>r. sr_key r = key) (stream_events st) of
         Some r \<Rightarrow>
           (if sr_payload r \<noteq> enc (alert_codec k) alert
            then Inl (Phase4AuditConflict (''immutable stream projection conflict: '' @ key))
            else Inr (stream_event_of k r), st)
       | None \<Rightarrow>
           let r = \<lparr>sr_sequence = max_sequence (stream_events st) + 1, sr_key = key,
                    sr_recorded_at = now, sr_payload = enc (alert_codec k) alert\<rparr>
           in (Inr (stream_event_of k r), st\<lparr>stream_events := stream_events st @ [r]\<rparr>)))"

text \<open>Text Python's \<open>int\<close> accepts, and the canonical form the cursor has to have.\<close>

fun digit_groups :: "string \<Rightarrow> bool" where
  "digit_groups [] = False"
| "digit_groups [c] = is_digit c"
| "digit_groups (c # d # r) = (is_digit c \<and> (if d = CHR ''_'' then digit_groups r else digit_groups (d # r)))"

definition int_text :: "string \<Rightarrow> bool" where
  "int_text s =
     (case strip s of [] \<Rightarrow> False
      | c # r \<Rightarrow> if c = CHR ''+'' \<or> c = CHR ''-'' then digit_groups r else digit_groups (c # r))"

definition validate_cursor :: "attribution_store \<Rightarrow> string option \<Rightarrow> nat result" where
  "validate_cursor st cursor =
     (case cursor of None \<Rightarrow> Inr 0
      | Some s \<Rightarrow>
          if s = [] then Inr 0
          else if \<not> int_text s
            then Inl (StreamCursorError ''Last-Event-ID must be a positive integer'')
          else if show_nat (read_nat s) \<noteq> s
            then Inl (StreamCursorError ''Last-Event-ID must be a canonical non-negative integer'')
          else if read_nat s > max_sequence (stream_events st)
            then Inl (StreamCursorError ''Last-Event-ID is ahead of the local stream'')
          else Inr (read_nat s))"

definition stream_events_after ::
  "codecs \<Rightarrow> attribution_store \<Rightarrow> string option \<Rightarrow> alert_stream_event list result" where
  "stream_events_after k st cursor =
     res_bind (validate_cursor st cursor) (\<lambda>n.
       Inr (map (stream_event_of k)
              (sort_key sr_sequence (filter (\<lambda>r. sr_sequence r > n) (stream_events st)))))"

definition append_immutable ::
  "string \<Rightarrow> audit_row list \<Rightarrow> audit_row \<Rightarrow> audit_row list result" where
  "append_immutable table rows new =
     (case List.find (\<lambda>r. ar_key r = ar_key new) rows of
        Some r \<Rightarrow>
          if ar_payload r \<noteq> ar_payload new
          then Inl (Phase4AuditConflict (''immutable audit conflict: '' @ table @ ''/'' @ ar_key new))
          else Inr rows
      | None \<Rightarrow> Inr (rows @ [new]))"

text \<open>
  The event identity of a delivery is a foreign key on the stream's sequence; identities
  reach this call only as texts of sequences.
\<close>

definition append_delivery ::
  "codecs \<Rightarrow> injector \<Rightarrow> attribution_store \<Rightarrow> delivery_audit \<Rightarrow> unit result \<times> attribution_store" where
  "append_delivery k fi st d =
     (case inject fi ''append_delivery'' of Inl e \<Rightarrow> (Inl e, st) | Inr _ \<Rightarrow>
      (case append_immutable ''stream_deliveries'' (stream_deliveries st)
              \<lparr>ar_key = delivery_id d, ar_time = attempted_at d, ar_extra = stream_event_id d,
               ar_payload = enc (delivery_codec k) d\<rparr> of
         Inl e \<Rightarrow> (Inl e, st)
       | Inr rows \<Rightarrow>
           if rows \<noteq> stream_deliveries st
              \<and> \<not> list_ex (\<lambda>r. show_nat (sr_sequence r) = stream_event_id d) (stream_events st)
           then (Inl (IntegrityError ''FOREIGN KEY constraint failed''), st)
           else (Inr (), st\<lparr>stream_deliveries := rows\<rparr>)))"

definition deliveries_of :: "codecs \<Rightarrow> attribution_store \<Rightarrow> string option \<Rightarrow> delivery_audit list" where
  "deliveries_of k st cursor =
     map (\<lambda>r. dec (delivery_codec k) (ar_payload r))
       (sort_key (\<lambda>r. (ar_time r, ar_key r))
          (filter (\<lambda>r. case cursor of None \<Rightarrow> True | Some i \<Rightarrow> ar_extra r = i) (stream_deliveries st)))"

definition reviews_of :: "codecs \<Rightarrow> attribution_store \<Rightarrow> string \<Rightarrow> review list" where
  "reviews_of k st tid =
     map (\<lambda>r. dec (review_codec k) (ar_payload r))
       (sort_key (\<lambda>r. (ar_time r, ar_key r))
          (filter (\<lambda>r. ar_extra r = tid) (attribution_reviews st)))"

definition with_review_state ::
  "codecs \<Rightarrow> attribution_store \<Rightarrow> attribution_task \<Rightarrow> attribution_task" where
  "with_review_state k st t =
     (let rs = reviews_of k st (task_id t) in
      if rs = [] then t
      else t\<lparr>at_review_status := rv_status (last rs),
             retained_as_reusable_sample := (retained_as_reusable_sample t \<or> list_ex retain_sample rs)\<rparr>)"

definition task_by_signal :: "codecs \<Rightarrow> attribution_store \<Rightarrow> string \<Rightarrow> attribution_task option" where
  "task_by_signal k st sid =
     map_option (\<lambda>r. dec (task_codec k) (ar_payload r))
       (List.find (\<lambda>r. ar_extra r = sid) (attribution_tasks st))"

definition get_attribution_task :: "codecs \<Rightarrow> attribution_store \<Rightarrow> string \<Rightarrow> attribution_task option" where
  "get_attribution_task k st tid =
     map_option (\<lambda>r. with_review_state k st (dec (task_codec k) (ar_payload r)))
       (List.find (\<lambda>r. ar_key r = tid) (attribution_tasks st))"

definition list_tasks :: "codecs \<Rightarrow> attribution_store \<Rightarrow> attribution_task list" where
  "list_tasks k st =
     map (\<lambda>r. with_review_state k st (dec (task_codec k) (ar_payload r)))
       (sort_key (\<lambda>r. (- ar_time r, ar_key r)) (attribution_tasks st))"

definition append_attribution_task ::
  "codecs \<Rightarrow> injector \<Rightarrow> attribution_store \<Rightarrow> attribution_task
     \<Rightarrow> attribution_task result \<times> attribution_store" where
  "append_attribution_task k fi st t =
     (case inject fi ''append_attribution_task'' of Inl e \<Rightarrow> (Inl e, st) | Inr _ \<Rightarrow>
      (case append_immutable ''attribution_tasks'' (attribution_tasks st)
              \<lparr>ar_key = task_id t, ar_time = at_created_at t, ar_extra = signal_id (at_signal t),
               ar_payload = enc (task_codec k) t\<rparr> of
         Inl e \<Rightarrow> (Inl e, st)
       | Inr rows \<Rightarrow>
           if rows \<noteq> attribution_tasks st
              \<and> list_ex (\<lambda>r. ar_extra r = signal_id (at_signal t)) (attribution_tasks st)
           then (Inl (IntegrityError ''UNIQUE constraint failed: attribution_tasks.signal_id''), st)
           else let st' = st\<lparr>attribution_tasks := rows\<rparr> in
             (case task_by_signal k st' (signal_id (at_signal t)) of
                None \<Rightarrow> (Inl (RuntimeError ''attribution task insert was not readable''), st')
              | Some stored \<Rightarrow> (Inr stored, st'))))"

definition append_attribution_review ::
  "codecs \<Rightarrow> injector \<Rightarrow> attribution_store \<Rightarrow> review \<Rightarrow> unit result \<times> attribution_store" where
  "append_attribution_review k fi st r =
     (case inject fi ''append_attribution_review'' of Inl e \<Rightarrow> (Inl e, st) | Inr _ \<Rightarrow>
      if get_attribution_task k st (rv_task_id r) = None
      then (Inl (KeyError (''unknown attribution task: '' @ rv_task_id r)), st)
      else (case append_immutable ''attribution_reviews'' (attribution_reviews st)
              \<lparr>ar_key = review_id r, ar_time = reviewed_at r, ar_extra = rv_task_id r,
               ar_payload = enc (review_codec k) r\<rparr> of
         Inl e \<Rightarrow> (Inl e, st)
       | Inr rows \<Rightarrow> (Inr (), st\<lparr>attribution_reviews := rows\<rparr>)))"

section \<open>The service: streaming\<close>

text \<open>The digest of the alert's JSON text names its projection.\<close>

definition projection_key :: "codecs \<Rightarrow> (string \<Rightarrow> string) \<Rightarrow> alert_record \<Rightarrow> string" where
  "projection_key k sha a = sha (enc (alert_codec k) a)"

text \<open>
  The alerts a poll sees come paired with the clock's reading when each is projected.  The
  two counts around an append tell whether it added an event.
\<close>

fun sync_loop ::
  "codecs \<Rightarrow> (string \<Rightarrow> string) \<Rightarrow> injector \<Rightarrow> attribution_store \<Rightarrow> int \<Rightarrow> (alert_record \<times> instant) list
     \<Rightarrow> int result \<times> attribution_store" where
  "sync_loop k sha fi st appended [] = (Inr appended, st)"
| "sync_loop k sha fi st appended ((a, now) # rest) =
     (case stream_events_after k st None of Inl e \<Rightarrow> (Inl e, st) | Inr before \<Rightarrow>
      (case append_alert_projection k fi st (projection_key k sha a) a now of
         (Inl e, st') \<Rightarrow> (Inl e, st')
       | (Inr _, st') \<Rightarrow>
           (case stream_events_after k st' None of Inl e \<Rightarrow> (Inl e, st') | Inr after \<Rightarrow>
            sync_loop k sha fi st' (appended + (int (length after) - int (length before))) rest)))"

definition sync_alerts ::
  "codecs \<Rightarrow> (string \<Rightarrow> string) \<Rightarrow> injector \<Rightarrow> attribution_store \<Rightarrow> (alert_record \<times> instant) list
     \<Rightarrow> int result \<times> attribution_store" where
  "sync_alerts k sha fi st alerts = sync_loop k sha fi st 0 alerts"

datatype frame = EventFrame alert_stream_event | HeartbeatFrame instant

text \<open>
  One pass of the generator's loop reads its environment: whether the client has gone, the
  alerts to project, the event loop's time and the clock for a heartbeat.  Each attempt reads a
  fresh identifier, the clock and the event loop's time, the sequence \<open>tks\<close>.
\<close>

record poll_env =
  pe_disconnected :: bool
  pe_alerts :: "(alert_record \<times> instant) list"
  pe_time :: rat
  pe_now :: instant

record stream_state =
  sm_store :: attribution_store
  sm_cursor :: "string option"
  sm_emitted :: int
  sm_due :: rat
  sm_ticks :: nat
  sm_frames :: "frame list"

record stream_config =
  sc_connection_id :: string
  sc_heartbeat :: rat
  sc_max_frames :: "int option"

definition max_reached :: "stream_config \<Rightarrow> stream_state \<Rightarrow> bool" where
  "max_reached c s = (case sc_max_frames c of None \<Rightarrow> False | Some m \<Rightarrow> sm_emitted s \<ge> m)"

fun emit_loop ::
  "codecs \<Rightarrow> injector \<Rightarrow> (nat \<Rightarrow> string \<times> instant \<times> rat) \<Rightarrow> stream_config \<Rightarrow> stream_state
     \<Rightarrow> alert_stream_event list \<Rightarrow> bool result \<times> stream_state" where
  "emit_loop k fi tks c s [] = (Inr False, s)"
| "emit_loop k fi tks c s (e # es) =
     (case tks (sm_ticks s) of (uid, now, time) \<Rightarrow>
      (case mk_delivery_audit \<lparr>delivery_id = uid, connection_id = sc_connection_id c,
              stream_event_id = se_event_id e, attempted_at = now\<rparr> of
         Inl err \<Rightarrow> (Inl err, s)
       | Inr d \<Rightarrow>
           (case append_delivery k fi (sm_store s) d of
              (Inl err, st) \<Rightarrow> (Inl err, s\<lparr>sm_store := st\<rparr>)
            | (Inr _, st) \<Rightarrow>
                let s' = s\<lparr>sm_store := st, sm_frames := sm_frames s @ [EventFrame e],
                          sm_cursor := Some (se_event_id e), sm_emitted := sm_emitted s + 1,
                          sm_due := time + sc_heartbeat c, sm_ticks := Suc (sm_ticks s)\<rparr>
                in if max_reached c s' then (Inr True, s') else emit_loop k fi tks c s' es)))"

text \<open>\<open>True\<close> when the generator returns.\<close>

definition poll ::
  "codecs \<Rightarrow> (string \<Rightarrow> string) \<Rightarrow> injector \<Rightarrow> (nat \<Rightarrow> string \<times> instant \<times> rat) \<Rightarrow> stream_config
     \<Rightarrow> stream_state \<Rightarrow> poll_env \<Rightarrow> bool result \<times> stream_state" where
  "poll k sha fi tks c s env =
     (if max_reached c s then (Inr True, s)
      else if pe_disconnected env then (Inr True, s)
      else case sync_alerts k sha fi (sm_store s) (pe_alerts env) of
        (Inl e, st) \<Rightarrow> (Inl e, s\<lparr>sm_store := st\<rparr>)
      | (Inr _, st) \<Rightarrow>
          let s1 = s\<lparr>sm_store := st\<rparr> in
          (case stream_events_after k st (sm_cursor s) of
             Inl e \<Rightarrow> (Inl e, s1)
           | Inr pending \<Rightarrow>
               if pending \<noteq> [] then emit_loop k fi tks c s1 pending
               else if pe_time env \<ge> sm_due s
               then let s2 = s1\<lparr>sm_frames := sm_frames s @ [HeartbeatFrame (pe_now env)],
                               sm_emitted := sm_emitted s + 1, sm_due := pe_time env + sc_heartbeat c\<rparr>
                    in (Inr (max_reached c s2), s2)
               else (Inr False, s1)))"

fun poll_loop ::
  "codecs \<Rightarrow> (string \<Rightarrow> string) \<Rightarrow> injector \<Rightarrow> (nat \<Rightarrow> string \<times> instant \<times> rat) \<Rightarrow> stream_config
     \<Rightarrow> stream_state \<Rightarrow> poll_env list \<Rightarrow> bool result \<times> stream_state" where
  "poll_loop k sha fi tks c s [] = (Inr False, s)"
| "poll_loop k sha fi tks c s (env # envs) =
     (case poll k sha fi tks c s env of
        (Inr False, s') \<Rightarrow> poll_loop k sha fi tks c s' envs
      | r \<Rightarrow> r)"

definition service_validate_cursor ::
  "codecs \<Rightarrow> (string \<Rightarrow> string) \<Rightarrow> injector \<Rightarrow> attribution_store \<Rightarrow> (alert_record \<times> instant) list
     \<Rightarrow> string option \<Rightarrow> unit result \<times> attribution_store" where
  "service_validate_cursor k sha fi st alerts last_id =
     (case sync_alerts k sha fi st alerts of
        (Inl e, st') \<Rightarrow> (Inl e, st')
      | (Inr _, st') \<Rightarrow> (case validate_cursor st' last_id of Inl e \<Rightarrow> (Inl e, st') | Inr _ \<Rightarrow> (Inr (), st')))"

definition stream_frames ::
  "codecs \<Rightarrow> (string \<Rightarrow> string) \<Rightarrow> injector \<Rightarrow> (nat \<Rightarrow> string \<times> instant \<times> rat) \<Rightarrow> stream_config
     \<Rightarrow> attribution_store \<Rightarrow> (alert_record \<times> instant) list \<Rightarrow> string option \<Rightarrow> rat \<Rightarrow> poll_env list
     \<Rightarrow> bool result \<times> stream_state" where
  "stream_frames k sha fi tks c st alerts last_id start envs =
     (let idle = (\<lambda>st. \<lparr>sm_store = st, sm_cursor = last_id, sm_emitted = 0,
                       sm_due = start + sc_heartbeat c, sm_ticks = 0, sm_frames = []\<rparr>) in
      case service_validate_cursor k sha fi st alerts last_id of
        (Inl e, st') \<Rightarrow> (Inl e, idle st')
      | (Inr _, st') \<Rightarrow> poll_loop k sha fi tks c (idle st') envs)"

section \<open>The service: attribution\<close>

definition coherence_of :: "signal \<Rightarrow> cross_asset_coherence" where
  "coherence_of s =
     (let obs = cross_asset_observations s; n = length (filter coherent obs) in
      if obs = [] then CA_UNKNOWN
      else if n = length obs then COHERENT
      else if n = 0 then DIVERGENT else MIXED)"

fun coherence_factor :: "cross_asset_coherence \<Rightarrow> rat" where
  "coherence_factor COHERENT = 1"
| "coherence_factor MIXED = 85 / 100"
| "coherence_factor DIVERGENT = 6 / 10"
| "coherence_factor CA_UNKNOWN = 75 / 100"

definition confidence_of :: "signal \<Rightarrow> cross_asset_coherence \<Rightarrow> rat" where
  "confidence_of s c =
     (if candidates s = [] then 0
      else round_places 4 (Max (set (map cc_confidence (candidates s))) * coherence_factor c))"

definition timing_interpretation :: "rat \<Rightarrow> reaction_timing" where
  "timing_interpretation lag =
     (if lag < 0 then MARKET_PRECEDED_SIGNAL
      else if lag > 0 then SIGNAL_PRECEDED_MARKET else SIMULTANEOUS)"

text \<open>\<open>hex\<close> is the hexadecimal digest of a text, its first 24 characters name the task.\<close>

definition task_of_signal :: "(string \<Rightarrow> string) \<Rightarrow> signal \<Rightarrow> attribution_task result" where
  "task_of_signal hex s =
     (let digest = take 24 (hex (signal_id s));
          lag = of_int (market_reaction_start_at s - as_first_seen_at s) / 1000000;
          coh = coherence_of s in
      mk_attribution_task \<lparr>task_id = ''attr-'' @ digest, at_signal = s, at_created_at = observed_as_of s,
        reaction_lag_seconds = lag, reaction_timing_interpretation = timing_interpretation lag,
        at_coherence = coh, at_confidence = confidence_of s coh, at_review_status = RS_OPEN,
        counterfactual_replay_link = ''/v1/attribution/tasks/attr-'' @ digest @ ''/counterfactual-replay'',
        retained_as_reusable_sample = False, at_execution_enabled = False,
        at_action = decision_action.NO_TRADE\<rparr>)"

definition create_attribution_task ::
  "codecs \<Rightarrow> (string \<Rightarrow> string) \<Rightarrow> injector \<Rightarrow> attribution_store \<Rightarrow> signal
     \<Rightarrow> attribution_task result \<times> attribution_store" where
  "create_attribution_task k hex fi st s =
     (case task_of_signal hex s of
        Inl e \<Rightarrow> (Inl e, st)
      | Inr t \<Rightarrow> append_attribution_task k fi st t)"

definition service_task :: "codecs \<Rightarrow> attribution_store \<Rightarrow> string \<Rightarrow> attribution_task result" where
  "service_task k st tid =
     (case get_attribution_task k st tid of
        None \<Rightarrow> Inl (KeyError (''unknown attribution task: '' @ tid))
      | Some t \<Rightarrow> Inr t)"

definition service_reviews :: "codecs \<Rightarrow> attribution_store \<Rightarrow> string \<Rightarrow> review list result" where
  "service_reviews k st tid = res_bind (service_task k st tid) (\<lambda>_. Inr (reviews_of k st tid))"

definition terminal_review :: "review_status \<Rightarrow> bool" where
  "terminal_review s \<longleftrightarrow> s \<in> {CONFIRMED, REJECTED, INCONCLUSIVE}"

fun review_status_value :: "review_status \<Rightarrow> string" where
  "review_status_value RS_OPEN = ''OPEN''"
| "review_status_value IN_REVIEW = ''IN_REVIEW''"
| "review_status_value CONFIRMED = ''CONFIRMED''"
| "review_status_value REJECTED = ''REJECTED''"
| "review_status_value INCONCLUSIVE = ''INCONCLUSIVE''"

definition validate_review_transition :: "review_status \<Rightarrow> review_status \<Rightarrow> unit result" where
  "validate_review_transition current requested =
     (if requested = RS_OPEN
      then Inl (AttributionWorkflowError ''review status cannot transition back to OPEN'')
      else if terminal_review current
      then Inl (AttributionWorkflowError (''review is terminal: '' @ review_status_value current))
      else Inr ())"

definition review_task ::
  "codecs \<Rightarrow> injector \<Rightarrow> attribution_store \<Rightarrow> string \<Rightarrow> string \<Rightarrow> review_status \<Rightarrow> string \<Rightarrow> datetime
     \<Rightarrow> string option \<Rightarrow> bool \<Rightarrow> (review \<times> attribution_task) result \<times> attribution_store" where
  "review_task k fi st uid tid requested who tm nt retain =
     (case res_bind (service_task k st tid) (\<lambda>current.
           res_bind (validate_review_transition (at_review_status current) requested) (\<lambda>_.
             if retain \<and> requested \<notin> {CONFIRMED, INCONCLUSIVE}
             then Inl (AttributionWorkflowError ''only a completed review can retain a reusable shock sample'')
             else mk_attribution_review \<lparr>review_id = uid, rv_task_id = tid, rv_status = requested,
                    reviewer = who, reviewed_at = tm, rv_note = nt, retain_sample = retain\<rparr>)) of
        Inl e \<Rightarrow> (Inl e, st)
      | Inr r \<Rightarrow>
          (case append_attribution_review k fi st r of
             (Inl e, st') \<Rightarrow> (Inl e, st')
           | (Inr _, st') \<Rightarrow> (res_bind (service_task k st' tid) (\<lambda>t. Inr (r, t)), st')))"

definition counterfactual_replay ::
  "codecs \<Rightarrow> attribution_store \<Rightarrow> string \<Rightarrow> (string, pyval) dict result" where
  "counterfactual_replay k st tid =
     res_bind (service_task k st tid) (\<lambda>t.
       Inr [(''task_id'', PStr (task_id t)), (''as_of'', PTime (as_first_seen_at (at_signal t))),
            (''snapshot_id'', PStr (as_snapshot_id (at_signal t))),
            (''replay_manifest_hash'', PStr (replay_manifest_hash (at_signal t))),
            (''exclude_signal_id'', PStr (signal_id (at_signal t))),
            (''purpose'', PStr ''COUNTERFACTUAL_ATTRIBUTION_REPLAY''),
            (''execution_enabled'', PBool False), (''action'', PStr ''NO_TRADE'')])"

section \<open>The stream\<close>

definition stream_ok :: "attribution_store \<Rightarrow> bool" where
  "stream_ok st \<longleftrightarrow> sorted_wrt (<) (map sr_sequence (stream_events st))
     \<and> (\<forall>r \<in> set (stream_events st). 0 < sr_sequence r)"

definition cursor_value :: "string option \<Rightarrow> nat" where
  "cursor_value v = (case v of None \<Rightarrow> 0 | Some s \<Rightarrow> if s = [] then 0 else read_nat s)"

definition events_from :: "codecs \<Rightarrow> attribution_store \<Rightarrow> nat \<Rightarrow> alert_stream_event list" where
  "events_from k st n = map (stream_event_of k) (filter (\<lambda>r. sr_sequence r > n) (stream_events st))"

lemma empty_stream_ok: "stream_ok empty_attribution_store"
  by (simp add: stream_ok_def empty_attribution_store_def)

lemma max_sequence_snoc: "max_sequence (rs @ [r]) = max (max_sequence rs) (sr_sequence r)"
  by (simp add: max_sequence_def)

lemma max_sequence_ge: "r \<in> set rs \<Longrightarrow> sr_sequence r \<le> max_sequence rs"
  by (induction rs rule: rev_induct) (auto simp: max_sequence_snoc)

lemma validate_cursor_value: "validate_cursor st v = Inr n \<Longrightarrow> n = cursor_value v"
  by (auto simp: validate_cursor_def cursor_value_def split: option.splits if_splits)

lemma stream_events_after_ok:
  assumes "stream_ok st" and "stream_events_after k st v = Inr es"
  shows "es = events_from k st (cursor_value v)"
proof -
  have "sorted_wrt (<) (map sr_sequence (filter P (stream_events st)))" for P
    using assms(1) by (auto simp: stream_ok_def sorted_wrt_map intro!: sorted_wrt_filter)
  then have "sort_key sr_sequence (filter P (stream_events st)) = filter P (stream_events st)" for P
    by (intro sort_key_id_if_sorted strict_sorted_imp_sorted) simp
  then show ?thesis using assms(2) validate_cursor_value
    by (auto simp: stream_events_after_def events_from_def)
qed

text \<open>Appending is at the end, with the next sequence number.\<close>

lemma append_projection_store:
  assumes "append_alert_projection k fi st key a now = (res, st')" and "stream_ok st"
  shows "stream_ok st' \<and> prefix (stream_events st) (stream_events st')
    \<and> stream_deliveries st' = stream_deliveries st \<and> attribution_tasks st' = attribution_tasks st
    \<and> attribution_reviews st' = attribution_reviews st"
proof -
  have "\<forall>r \<in> set (stream_events st). sr_sequence r < Suc (max_sequence (stream_events st))"
    by (auto simp: less_Suc_eq_le max_sequence_ge)
  then show ?thesis using assms
    by (auto simp: append_alert_projection_def stream_ok_def sorted_wrt_append Let_def
        split: sum.splits option.splits if_splits)
qed

lemma sync_store:
  assumes "sync_loop k sha fi st n as = (res, st')" and "stream_ok st"
  shows "stream_ok st' \<and> prefix (stream_events st) (stream_events st')
    \<and> stream_deliveries st' = stream_deliveries st"
  using assms
proof (induction as arbitrary: st n)
  case (Cons x as)
  obtain a now where x: "x = (a, now)" by force
  obtain r1 st1 where step: "append_alert_projection k fi st (projection_key k sha a) a now = (r1, st1)" by force
  note s1 = append_projection_store [OF step Cons.prems(2)]
  from Cons.prems(1) show ?case
    using s1 Cons.IH [of st1] Cons.prems(2)
    by (auto simp: x step split: sum.splits intro: prefix_order.trans)
qed auto

lemma append_delivery_store:
  assumes "append_delivery k fi st d = (res, st')"
  shows "stream_events st' = stream_events st \<and> set (stream_deliveries st) \<subseteq> set (stream_deliveries st')
    \<and> (res = Inr () \<longrightarrow> (\<exists>r \<in> set (stream_deliveries st'). ar_key r = delivery_id d
          \<and> ar_payload r = enc (delivery_codec k) d))"
  using assms
  by (auto simp: append_delivery_def append_immutable_def find_None_iff find_Some_iff
      split: sum.splits option.splits if_splits)

text \<open>Moving the cursor to the first pending event leaves the rest pending.\<close>

lemma events_from_next:
  assumes "stream_ok st" and "events_from k st n = e # es"
  shows "events_from k st (cursor_value (Some (se_event_id e))) = es" and "cursor_value (Some (se_event_id e)) > n"
proof -
  from assms(2) obtain r rs where f: "filter (\<lambda>r. n < sr_sequence r) (stream_events st) = r # rs"
    and e: "e = stream_event_of k r" "es = map (stream_event_of k) rs"
    by (auto simp: events_from_def)
  have c: "cursor_value (Some (se_event_id e)) = sr_sequence r"
    by (simp add: e cursor_value_def stream_event_of_def read_show_nat)
  from f obtain us vs where split: "stream_events st = us @ r # vs" "\<forall>u \<in> set us. \<not> n < sr_sequence u"
    "n < sr_sequence r" "rs = filter (\<lambda>r. n < sr_sequence r) vs"
    by (auto simp: filter_eq_Cons_iff)
  have "\<forall>v \<in> set vs. sr_sequence r < sr_sequence v" "\<forall>u \<in> set us. \<not> sr_sequence r < sr_sequence u"
    using assms(1) split(1) by (auto simp: stream_ok_def sorted_wrt_append)
  then have "filter (\<lambda>x. sr_sequence r < sr_sequence x) (stream_events st) = vs" "rs = vs"
    using split by (auto simp: filter_id_conv filter_empty_conv)
  then show "events_from k st (cursor_value (Some (se_event_id e))) = es"
    unfolding c by (simp add: events_from_def e)
  show "cursor_value (Some (se_event_id e)) > n" unfolding c by (rule split(3))
qed

lemma max_sequence_mem: "max_sequence rs = 0 \<or> (\<exists>r \<in> set rs. sr_sequence r = max_sequence rs)"
  by (induction rs rule: rev_induct) (auto simp: max_sequence_snoc max_def, simp add: max_sequence_def)

lemma events_from_prefix:
  assumes ok: "stream_ok st'" and "prefix (stream_events st) (stream_events st')"
  shows "\<exists>new. \<forall>m \<le> max_sequence (stream_events st). events_from k st' m = events_from k st m @ new"
    and "max_sequence (stream_events st) \<le> max_sequence (stream_events st')"
proof -
  from assms(2) obtain new where new: "stream_events st' = stream_events st @ new" by (auto simp: prefix_def)
  have "\<forall>r \<in> set new. max_sequence (stream_events st) < sr_sequence r"
    using ok max_sequence_mem [of "stream_events st"]
    by (auto simp: stream_ok_def new sorted_wrt_append)
  then have "filter (\<lambda>r. m < sr_sequence r) new = new" if "m \<le> max_sequence (stream_events st)" for m
    using that by (auto simp: filter_id_conv)
  then show "\<exists>new. \<forall>m \<le> max_sequence (stream_events st). events_from k st' m = events_from k st m @ new"
    by (intro exI [of _ "map (stream_event_of k) new"]) (simp add: events_from_def new)
  show "max_sequence (stream_events st) \<le> max_sequence (stream_events st')"
    unfolding new by (induction new rule: rev_induct) (auto simp: max_sequence_snoc simp flip: append_assoc)
qed

definition frame_events :: "frame list \<Rightarrow> alert_stream_event list" where
  "frame_events fs = List.map_filter (\<lambda>f. case f of EventFrame e \<Rightarrow> Some e | HeartbeatFrame _ \<Rightarrow> None) fs"

lemma frame_events_simps [simp]:
  "frame_events [] = []" "frame_events (xs @ ys) = frame_events xs @ frame_events ys"
  "frame_events [EventFrame e] = [e]" "frame_events [HeartbeatFrame t] = []"
  by (simp_all add: frame_events_def map_filter_def)

text \<open>
  What a connection keeps: sent events and pending events together are the events after where
  the client started, the cursor is at the last event sent, and each sent event has its audit row.
\<close>

definition resumed :: "codecs \<Rightarrow> string option \<Rightarrow> attribution_store \<Rightarrow> stream_state \<Rightarrow> bool" where
  "resumed k v0 st0 s \<longleftrightarrow>
     stream_ok (sm_store s) \<and> prefix (stream_events st0) (stream_events (sm_store s))
   \<and> events_from k (sm_store s) (cursor_value v0)
       = frame_events (sm_frames s) @ events_from k (sm_store s) (cursor_value (sm_cursor s))
   \<and> cursor_value v0 \<le> cursor_value (sm_cursor s)
   \<and> cursor_value (sm_cursor s) \<le> max_sequence (stream_events (sm_store s))
   \<and> sm_cursor s = (if frame_events (sm_frames s) = [] then v0
                    else Some (se_event_id (last (frame_events (sm_frames s)))))
   \<and> (\<forall>e \<in> set (frame_events (sm_frames s)). \<exists>d r. r \<in> set (stream_deliveries (sm_store s))
        \<and> ar_payload r = enc (delivery_codec k) d \<and> stream_event_id d = se_event_id e)"

lemma resumed_store:
  assumes r: "resumed k v0 st0 s" and ok: "stream_ok st"
    and p: "prefix (stream_events (sm_store s)) (stream_events st)"
    and d: "set (stream_deliveries (sm_store s)) \<subseteq> set (stream_deliveries st)"
  shows "resumed k v0 st0 (s\<lparr>sm_store := st\<rparr>)"
proof -
  obtain new where new: "\<And>m. m \<le> max_sequence (stream_events (sm_store s)) \<Longrightarrow>
      events_from k st m = events_from k (sm_store s) m @ new"
    using events_from_prefix(1) [OF ok p] by blast
  note le = events_from_prefix(2) [OF ok p]
  from r have pre: "prefix (stream_events st0) (stream_events (sm_store s))"
    and ev: "events_from k (sm_store s) (cursor_value v0)
       = frame_events (sm_frames s) @ events_from k (sm_store s) (cursor_value (sm_cursor s))"
    and lo: "cursor_value v0 \<le> cursor_value (sm_cursor s)"
    and hi: "cursor_value (sm_cursor s) \<le> max_sequence (stream_events (sm_store s))"
    and c: "sm_cursor s = (if frame_events (sm_frames s) = [] then v0
              else Some (se_event_id (last (frame_events (sm_frames s)))))"
    and a: "\<forall>e \<in> set (frame_events (sm_frames s)). \<exists>d r. r \<in> set (stream_deliveries (sm_store s))
        \<and> ar_payload r = enc (delivery_codec k) d \<and> stream_event_id d = se_event_id e"
    unfolding resumed_def by blast+
  have "events_from k st (cursor_value v0)
      = frame_events (sm_frames s) @ events_from k st (cursor_value (sm_cursor s))"
    unfolding new [OF hi] new [OF order.trans [OF lo hi]] ev by simp
  moreover have "\<forall>e \<in> set (frame_events (sm_frames s)). \<exists>d r. r \<in> set (stream_deliveries st)
        \<and> ar_payload r = enc (delivery_codec k) d \<and> stream_event_id d = se_event_id e"
    using a d by blast
  moreover have "prefix (stream_events st0) (stream_events st)" using pre p by (rule prefix_order.trans)
  moreover have "cursor_value (sm_cursor s) \<le> max_sequence (stream_events st)" using hi le by (rule order.trans)
  moreover have u: "sm_store (s\<lparr>sm_store := st\<rparr>) = st" "sm_frames (s\<lparr>sm_store := st\<rparr>) = sm_frames s"
    "sm_cursor (s\<lparr>sm_store := st\<rparr>) = sm_cursor s" by simp_all
  ultimately show ?thesis unfolding resumed_def u using ok lo c by blast
qed

lemma emit_resumed:
  assumes "emit_loop k fi tks c s es = (res, s')" and "resumed k v0 st0 s"
    and "events_from k (sm_store s) (cursor_value (sm_cursor s)) = es"
  shows "resumed k v0 st0 s'"
  using assms
proof (induction es arbitrary: s)
  case (Cons e es)
  obtain uid now time where t: "tks (sm_ticks s) = (uid, now, time)" by (cases "tks (sm_ticks s)")
  show ?case
  proof (cases "mk_delivery_audit \<lparr>delivery_id = uid, connection_id = sc_connection_id c,
      stream_event_id = se_event_id e, attempted_at = now\<rparr>")
    case (Inl err)
    with Cons.prems t show ?thesis by simp
  next
    case (Inr d)
    then have d: "stream_event_id d = se_event_id e" by (auto simp: mk_delivery_audit_def split: if_splits)
    obtain r1 st where call: "append_delivery k fi (sm_store s) d = (r1, st)" by force
    note st = append_delivery_store [OF call]
    have ok: "stream_ok st" using Cons.prems(2) st by (simp add: resumed_def stream_ok_def)
    have keep: "resumed k v0 st0 (s\<lparr>sm_store := st\<rparr>)"
      by (rule resumed_store [OF Cons.prems(2) ok]) (use st in auto)
    show ?thesis
    proof (cases r1)
      case (Inl err)
      with Cons.prems(1) t Inr call keep show ?thesis by simp
    next
      case ok1: (Inr u)
      let ?s = "s\<lparr>sm_store := st, sm_frames := sm_frames s @ [EventFrame e],
        sm_cursor := Some (se_event_id e), sm_emitted := sm_emitted s + 1,
        sm_due := time + sc_heartbeat c, sm_ticks := Suc (sm_ticks s)\<rparr>"
      have same: "events_from k st = events_from k (sm_store s)"
        using st by (simp add: events_from_def fun_eq_iff)
      note next_ev = events_from_next [OF ok, of k "cursor_value (sm_cursor s)" e es]
      have pend: "events_from k st (cursor_value (sm_cursor s)) = e # es" using Cons.prems(3) same by simp
      have "\<exists>r \<in> set (stream_events st). cursor_value (Some (se_event_id e)) = sr_sequence r"
      proof -
        from pend have "e \<in> set (events_from k st (cursor_value (sm_cursor s)))" by simp
        then show ?thesis by (auto simp: events_from_def stream_event_of_def cursor_value_def read_show_nat)
      qed
      then have bound: "cursor_value (Some (se_event_id e)) \<le> max_sequence (stream_events st)"
        using max_sequence_ge by metis
      have start: "cursor_value v0 \<le> cursor_value (sm_cursor s)"
        using Cons.prems(2) unfolding resumed_def by blast
      have "resumed k v0 st0 ?s"
        unfolding resumed_def
      proof (intro conjI)
        show "events_from k (sm_store ?s) (cursor_value v0)
            = frame_events (sm_frames ?s) @ events_from k (sm_store ?s) (cursor_value (sm_cursor ?s))"
          using keep next_ev(1) [OF pend] pend by (simp add: resumed_def)
        show "cursor_value v0 \<le> cursor_value (sm_cursor ?s)"
          using start next_ev(2) [OF pend] by simp
        show "\<forall>x \<in> set (frame_events (sm_frames ?s)). \<exists>d r. r \<in> set (stream_deliveries (sm_store ?s))
            \<and> ar_payload r = enc (delivery_codec k) d \<and> stream_event_id d = se_event_id x"
          using keep st ok1 d by (auto simp: resumed_def)
      qed (use keep bound ok in \<open>simp_all add: resumed_def\<close>)
      then show ?thesis
        using Cons.prems(1) t Inr call ok1 Cons.IH [of ?s] next_ev(1) [OF pend]
        by (auto simp: Let_def split: if_splits)
    qed
  qed
qed simp

lemma poll_resumed:
  assumes "poll k sha fi tks c s env = (res, s')" and r: "resumed k v0 st0 s"
  shows "resumed k v0 st0 s'"
proof (cases "max_reached c s \<or> pe_disconnected env")
  case True
  with assms show ?thesis by (auto simp: poll_def split: if_splits)
next
  case False
  obtain r1 st where sync: "sync_alerts k sha fi (sm_store s) (pe_alerts env) = (r1, st)" by force
  have ok: "stream_ok (sm_store s)" using r by (simp add: resumed_def)
  note st = sync_store [OF sync [unfolded sync_alerts_def] ok]
  have keep: "resumed k v0 st0 (s\<lparr>sm_store := st\<rparr>)"
    by (rule resumed_store [OF r]) (use st in auto)
  show ?thesis
  proof (cases "is_ok r1 \<and> is_ok (stream_events_after k st (sm_cursor s))")
    case bad: False
    with assms(1) False sync keep show ?thesis by (auto simp: poll_def is_ok_def split: sum.splits)
  next
    case True
    then obtain n pending where p: "r1 = Inr n" "stream_events_after k st (sm_cursor s) = Inr pending"
      by (auto simp: is_ok_iff)
    have pend: "events_from k st (cursor_value (sm_cursor s)) = pending"
      using stream_events_after_ok [OF _ p(2)] st by simp
    show ?thesis
    proof (cases "pending = []")
      case e: False
      with assms(1) False sync p have "emit_loop k fi tks c (s\<lparr>sm_store := st\<rparr>) pending = (res, s')"
        by (simp add: poll_def)
      from emit_resumed [OF this keep] pend show ?thesis by simp
    next
      case e: True
      with assms(1) False sync p keep show ?thesis
        by (auto simp: poll_def resumed_def Let_def split: if_splits)
    qed
  qed
qed

lemma poll_loop_resumed:
  assumes "poll_loop k sha fi tks c s envs = (res, s')" and "resumed k v0 st0 s"
  shows "resumed k v0 st0 s'"
  using assms
proof (induction envs arbitrary: s)
  case (Cons env envs)
  obtain r1 s1 where p: "poll k sha fi tks c s env = (r1, s1)" by force
  have "resumed k v0 st0 s1" by (rule poll_resumed [OF p Cons.prems(2)])
  then show ?case using Cons.prems(1) Cons.IH [of s1] p by (auto split: sum.splits bool.splits)
qed simp

section \<open>The review workflow\<close>

text \<open>The store's rows are what the store writes: the payload of each is the encoding of a value
  whose key, time and indexed column the row repeats.\<close>

definition task_rows_ok :: "codecs \<Rightarrow> attribution_store \<Rightarrow> bool" where
  "task_rows_ok k st \<longleftrightarrow> (\<forall>r \<in> set (attribution_tasks st). task_id (dec (task_codec k) (ar_payload r)) = ar_key r)"

definition review_rows_ok :: "codecs \<Rightarrow> attribution_store \<Rightarrow> bool" where
  "review_rows_ok k st \<longleftrightarrow> distinct (map ar_key (attribution_reviews st))
     \<and> (\<forall>r \<in> set (attribution_reviews st). let v = dec (review_codec k) (ar_payload r) in
          review_id v = ar_key r \<and> reviewed_at v = ar_time r \<and> rv_task_id v = ar_extra r)"

definition workflow_ok :: "codecs \<Rightarrow> attribution_store \<Rightarrow> bool" where
  "workflow_ok k st \<longleftrightarrow> codec_ok (task_codec k) \<and> codec_ok (review_codec k)
     \<and> task_rows_ok k st \<and> review_rows_ok k st"

datatype attribution_op =
    ProjectAlert string alert_record instant
  | Deliver delivery_audit
  | CreateTask signal
  | Review string string review_status string datetime "string option" bool

fun attribution_step ::
  "codecs \<Rightarrow> (string \<Rightarrow> string) \<Rightarrow> injector \<Rightarrow> attribution_store \<Rightarrow> attribution_op \<Rightarrow> attribution_store" where
  "attribution_step k hex fi st (ProjectAlert key a now) = snd (append_alert_projection k fi st key a now)"
| "attribution_step k hex fi st (Deliver d) = snd (append_delivery k fi st d)"
| "attribution_step k hex fi st (CreateTask s) = snd (create_attribution_task k hex fi st s)"
| "attribution_step k hex fi st (Review uid tid req who tm nt retain) =
     snd (review_task k fi st uid tid req who tm nt retain)"

text \<open>From one state to a later one nothing is lost, and a completed review stays as it is.\<close>

definition workflow_le :: "codecs \<Rightarrow> attribution_store \<Rightarrow> attribution_store \<Rightarrow> bool" where
  "workflow_le k st st' \<longleftrightarrow>
     prefix (stream_events st) (stream_events st') \<and> prefix (stream_deliveries st) (stream_deliveries st')
   \<and> prefix (attribution_tasks st) (attribution_tasks st') \<and> prefix (attribution_reviews st) (attribution_reviews st')
   \<and> (\<forall>tid t. get_attribution_task k st tid = Some t \<and> terminal_review (at_review_status t) \<longrightarrow>
        get_attribution_task k st' tid = Some t \<and> reviews_of k st' tid = reviews_of k st tid)"

lemma workflow_le_refl: "workflow_le k st st"
  by (simp add: workflow_le_def)

lemma workflow_le_trans: "workflow_le k a b \<Longrightarrow> workflow_le k b c \<Longrightarrow> workflow_le k a c"
  unfolding workflow_le_def by (metis prefix_order.trans)

lemma get_task_same:
  assumes "attribution_reviews st' = attribution_reviews st" and "prefix (attribution_tasks st) (attribution_tasks st')"
    and "get_attribution_task k st tid = Some t"
  shows "get_attribution_task k st' tid = Some t \<and> reviews_of k st' tid = reviews_of k st tid"
proof -
  have "reviews_of k st' = reviews_of k st" by (simp add: reviews_of_def fun_eq_iff assms(1))
  moreover have "List.find P (xs @ ys) = (case List.find P xs of None \<Rightarrow> List.find P ys | Some x \<Rightarrow> Some x)"
    for P :: "audit_row \<Rightarrow> bool" and xs ys by (induction xs) auto
  ultimately show ?thesis using assms(2,3)
    by (auto simp: get_attribution_task_def with_review_state_def prefix_def)
qed

lemma step_other:
  assumes "attribution_reviews st' = attribution_reviews st" and "prefix (attribution_tasks st) (attribution_tasks st')"
    and "prefix (stream_events st) (stream_events st')" and "prefix (stream_deliveries st) (stream_deliveries st')"
  shows "workflow_le k st st'"
  using assms get_task_same [OF assms(1,2)] by (simp add: workflow_le_def)

lemma projection_frame:
  "append_alert_projection k fi st key a now = (res, st') \<Longrightarrow>
     prefix (stream_events st) (stream_events st') \<and> stream_deliveries st' = stream_deliveries st
     \<and> attribution_tasks st' = attribution_tasks st \<and> attribution_reviews st' = attribution_reviews st"
  by (auto simp: append_alert_projection_def Let_def split: sum.splits option.splits if_splits)

lemma append_immutable_Inr:
  assumes "append_immutable table rows new = Inr rows'"
  shows "rows' = rows \<or> rows' = rows @ [new] \<and> ar_key new \<notin> ar_key ` set rows"
  using assms by (auto simp: append_immutable_def find_None_iff split: option.splits if_splits)

lemma delivery_frame:
  "append_delivery k fi st d = (res, st') \<Longrightarrow>
     stream_events st' = stream_events st \<and> prefix (stream_deliveries st) (stream_deliveries st')
     \<and> attribution_tasks st' = attribution_tasks st \<and> attribution_reviews st' = attribution_reviews st"
  by (auto simp: append_delivery_def split: sum.splits if_splits dest!: append_immutable_Inr)

lemma append_task_frame:
  assumes "append_attribution_task k fi st t = (res, st')"
  shows "stream_events st' = stream_events st \<and> stream_deliveries st' = stream_deliveries st
    \<and> attribution_reviews st' = attribution_reviews st
    \<and> (attribution_tasks st' = attribution_tasks st \<or> attribution_tasks st' = attribution_tasks st
        @ [\<lparr>ar_key = task_id t, ar_time = at_created_at t, ar_extra = signal_id (at_signal t),
            ar_payload = enc (task_codec k) t\<rparr>])"
  using assms by (auto simp: append_attribution_task_def Let_def split: sum.splits option.splits if_splits
      dest!: append_immutable_Inr)

lemma review_task_cases:
  assumes "review_task k fi st uid tid req who tm nt retain = (res, st')"
  obtains (same) "st' = st"
  | (added) cur r where "get_attribution_task k st tid = Some cur" "req \<noteq> RS_OPEN"
      "\<not> terminal_review (at_review_status cur)" "retain \<longrightarrow> req \<in> {CONFIRMED, INCONCLUSIVE}"
      "tm = Aware (reviewed_at r)" "review_id r = uid" "rv_task_id r = tid" "rv_status r = req"
      "retain_sample r = retain" "uid \<notin> ar_key ` set (attribution_reviews st)"
      "st' = st\<lparr>attribution_reviews := attribution_reviews st @ [\<lparr>ar_key = uid, ar_time = reviewed_at r,
         ar_extra = tid, ar_payload = enc (review_codec k) r\<rparr>]\<rparr>"
      "res = res_bind (service_task k st' tid) (\<lambda>t. Inr (r, t))"
proof (cases "st' = st")
  case False
  let ?g = "res_bind (service_task k st tid) (\<lambda>current.
           res_bind (validate_review_transition (at_review_status current) req) (\<lambda>_.
             if retain \<and> req \<notin> {CONFIRMED, INCONCLUSIVE}
             then Inl (AttributionWorkflowError ''only a completed review can retain a reusable shock sample'')
             else mk_attribution_review \<lparr>review_id = uid, rv_task_id = tid, rv_status = req,
                    reviewer = who, reviewed_at = tm, rv_note = nt, retain_sample = retain\<rparr>))"
  obtain r where g: "?g = Inr r"
    using assms False by (cases ?g) (simp_all add: review_task_def)
  then obtain cur where c: "get_attribution_task k st tid = Some cur"
    and v: "validate_review_transition (at_review_status cur) req = Inr ()"
    and ret: "retain \<longrightarrow> req \<in> {CONFIRMED, INCONCLUSIVE}"
    and m: "mk_attribution_review \<lparr>review_id = uid, rv_task_id = tid, rv_status = req,
        reviewer = who, reviewed_at = tm, rv_note = nt, retain_sample = retain\<rparr> = Inr r"
    by (auto simp: service_task_def split: option.splits if_splits)
  obtain r1 st1 where app1: "append_attribution_review k fi st r = (r1, st1)" by force
  have r1: "r1 = Inr ()"
  proof (cases r1)
    case (Inl e)
    then have "st1 = st" using app1
      by (auto simp: append_attribution_review_def split: sum.splits if_splits)
    with assms False g app1 Inl show ?thesis by (simp add: review_task_def)
  qed simp
  with assms g app1 have app: "append_attribution_review k fi st r = (Inr (), st')"
    and res: "res = res_bind (service_task k st' tid) (\<lambda>t. Inr (r, t))"
    by (auto simp add: review_task_def)
  from m have r: "tm = Aware (reviewed_at r)" "review_id r = uid" "rv_task_id r = tid" "rv_status r = req"
    "retain_sample r = retain"
    by (auto simp: mk_attribution_review_def to_utc_Inr_iff split: if_splits)
  from app obtain rows where rows: "append_immutable ''attribution_reviews'' (attribution_reviews st)
      \<lparr>ar_key = uid, ar_time = reviewed_at r, ar_extra = tid, ar_payload = enc (review_codec k) r\<rparr> = Inr rows"
    and st': "st' = st\<lparr>attribution_reviews := rows\<rparr>"
    by (auto simp: append_attribution_review_def r split: sum.splits if_splits)
  from append_immutable_Inr [OF rows] False st'
  have "rows = attribution_reviews st @ [\<lparr>ar_key = uid, ar_time = reviewed_at r, ar_extra = tid,
      ar_payload = enc (review_codec k) r\<rparr>]" "uid \<notin> ar_key ` set (attribution_reviews st)" by auto
  with c v ret r st' res show ?thesis
    by (intro added [of cur r]) (auto simp: validate_review_transition_def split: if_splits)
qed (rule same)

lemma reviews_of_snoc_other:
  "ar_extra row \<noteq> tid \<Longrightarrow> attribution_reviews st' = attribution_reviews st @ [row]
     \<Longrightarrow> reviews_of k st' tid = reviews_of k st tid"
  by (simp add: reviews_of_def)

lemma attribution_step_ok:
  assumes ok: "workflow_ok k st"
  shows "workflow_ok k (attribution_step k hex fi st x) \<and> workflow_le k st (attribution_step k hex fi st x)"
proof (cases x)
  case (ProjectAlert key a now)
  obtain res st' where p: "append_alert_projection k fi st key a now = (res, st')" by force
  from projection_frame [OF p] ok show ?thesis
    by (auto simp: ProjectAlert p workflow_ok_def task_rows_ok_def review_rows_ok_def intro!: step_other)
next
  case (Deliver d)
  obtain res st' where p: "append_delivery k fi st d = (res, st')" by force
  from delivery_frame [OF p] ok show ?thesis
    by (auto simp: Deliver p workflow_ok_def task_rows_ok_def review_rows_ok_def intro!: step_other)
next
  case (CreateTask s)
  show ?thesis
  proof (cases "task_of_signal hex s")
    case (Inl e)
    with ok show ?thesis by (simp add: CreateTask create_attribution_task_def workflow_le_refl)
  next
    case (Inr t)
    obtain res st' where p: "append_attribution_task k fi st t = (res, st')" by force
    from append_task_frame [OF p] ok have "workflow_ok k st'"
      by (auto simp: workflow_ok_def task_rows_ok_def review_rows_ok_def codec_ok_def)
    moreover have "workflow_le k st st'" using append_task_frame [OF p] by (intro step_other) auto
    ultimately show ?thesis by (simp add: CreateTask create_attribution_task_def Inr p)
  qed
next
  case (Review uid tid req who tm nt retain)
  obtain res st' where p: "review_task k fi st uid tid req who tm nt retain = (res, st')" by force
  from p show ?thesis
  proof (cases rule: review_task_cases)
    case same
    with ok p show ?thesis by (simp add: Review workflow_le_refl)
  next
    case (added cur r)
    have "workflow_ok k st'" using ok added
      by (auto simp: workflow_ok_def task_rows_ok_def review_rows_ok_def codec_ok_def Let_def)
    moreover have "workflow_le k st st'"
      unfolding workflow_le_def
    proof (intro conjI allI impI)
      fix i t assume t: "get_attribution_task k st i = Some t \<and> terminal_review (at_review_status t)"
      then have ne: "i \<noteq> tid" using added by auto
      then have rev: "reviews_of k st' i = reviews_of k st i"
        using added by (intro reviews_of_snoc_other) simp_all
      from t obtain row where row: "List.find (\<lambda>r. ar_key r = i) (attribution_tasks st) = Some row"
        and tv: "t = with_review_state k st (dec (task_codec k) (ar_payload row))"
        by (auto simp: get_attribution_task_def)
      from row have "row \<in> set (attribution_tasks st)" "ar_key row = i" by (auto simp: find_Some_iff)
      then have "task_id (dec (task_codec k) (ar_payload row)) = i"
        using ok by (auto simp: workflow_ok_def task_rows_ok_def)
      then have "with_review_state k st' (dec (task_codec k) (ar_payload row)) = t"
        by (simp add: tv with_review_state_def rev)
      then show "get_attribution_task k st' i = Some t"
        using row added by (simp add: get_attribution_task_def)
      show "reviews_of k st' i = reviews_of k st i" by (rule rev)
    qed (use added in simp_all)
    ultimately show ?thesis by (simp add: Review p)
  qed
qed

interpretation attribution_run: evolving "attribution_step k hex fi" "workflow_ok k" "workflow_le k"
proof unfold_locales
  fix s t u x
  show "workflow_ok k s \<Longrightarrow> workflow_ok k (attribution_step k hex fi s x)" using attribution_step_ok by blast
  show "workflow_le k s s" by (rule workflow_le_refl)
  show "workflow_le k s t \<Longrightarrow> workflow_le k t u \<Longrightarrow> workflow_le k s u" by (rule workflow_le_trans)
  show "workflow_ok k s \<Longrightarrow> workflow_le k s (attribution_step k hex fi s x)" using attribution_step_ok by blast
qed

section \<open>The latest review\<close>

lemma find_mem: "List.find P xs = Some x \<Longrightarrow> x \<in> set xs \<and> P x"
  by (induction xs) (auto split: if_splits)

lemma sort_key_Nil_iff: "sort_key f xs = [] \<longleftrightarrow> xs = []"
  by (metis length_0_conv length_sort)

lemma last_sort_key:
  fixes f :: "'a \<Rightarrow> 'b::linorder"
  assumes "xs \<noteq> []"
  shows "last (sort_key f xs) \<in> set xs" and "y \<in> set xs \<Longrightarrow> f y \<le> f (last (sort_key f xs))"
proof -
  have ne: "sort_key f xs \<noteq> []" using assms by (metis length_sort length_greater_0_conv)
  then show "last (sort_key f xs) \<in> set xs" by (metis last_in_set set_sort)
  assume "y \<in> set xs"
  then obtain i where i: "i < length (sort_key f xs)" "y = sort_key f xs ! i" by (metis in_set_conv_nth set_sort)
  have "map f (sort_key f xs) ! i \<le> map f (sort_key f xs) ! (length (sort_key f xs) - 1)"
    using i(1) by (intro sorted_nth_mono [OF sorted_sort_key]) auto
  then show "f y \<le> f (last (sort_key f xs))" using i ne by (simp add: last_conv_nth)
qed

lemma last_sort_key_snoc:
  fixes f :: "'a \<Rightarrow> 'b::linorder"
  assumes "inj_on f (set (xs @ [x]))" and "x \<notin> set xs"
  shows "last (sort_key f (xs @ [x])) = (if \<forall>y \<in> set xs. f y < f x then x else last (sort_key f xs))"
proof (cases "\<forall>y \<in> set xs. f y < f x")
  case True
  have "f x \<le> f (last (sort_key f (xs @ [x])))" "last (sort_key f (xs @ [x])) \<in> set (xs @ [x])"
    by (rule last_sort_key(2); simp) (rule last_sort_key(1); simp)
  then show ?thesis using True by force
next
  case False
  then obtain y where y: "y \<in> set xs" "\<not> f y < f x" by blast
  let ?l = "last (sort_key f (xs @ [x]))" and ?m = "last (sort_key f xs)"
  have l: "?l \<in> set (xs @ [x])" "\<And>z. z \<in> set (xs @ [x]) \<Longrightarrow> f z \<le> f ?l"
    by (rule last_sort_key(1); simp) (rule last_sort_key(2); simp)
  have m: "?m \<in> set xs" "\<And>z. z \<in> set xs \<Longrightarrow> f z \<le> f ?m"
    using y(1) by (auto intro!: last_sort_key)
  have "f ?l \<le> f ?m" using l(1) m y by fastforce
  moreover have "f ?m \<le> f ?l" using l(2) m(1) by simp
  ultimately have "?l = ?m" using assms(1) l(1) m(1) by (auto dest: inj_onD)
  then show ?thesis unfolding if_not_P [OF False] .
qed

lemma review_status_snoc:
  assumes ok: "workflow_ok k st" and new: "rid \<notin> ar_key ` set (attribution_reviews st)"
    and st': "st' = st\<lparr>attribution_reviews := attribution_reviews st @ [\<lparr>ar_key = rid, ar_time = reviewed_at r,
         ar_extra = tid, ar_payload = enc (review_codec k) r\<rparr>]\<rparr>"
    and r: "review_id r = rid" "rv_task_id r = tid"
    and t: "get_attribution_task k st tid = Some cur"
  shows "\<exists>t. get_attribution_task k st' tid = Some t \<and> at_review_status t =
    (if \<forall>v \<in> set (reviews_of k st tid). (reviewed_at v, review_id v) < (reviewed_at r, rid)
     then rv_status r else at_review_status cur)"
proof -
  let ?row = "\<lparr>ar_key = rid, ar_time = reviewed_at r, ar_extra = tid, ar_payload = enc (review_codec k) r\<rparr>"
  let ?own = "filter (\<lambda>x. ar_extra x = tid) (attribution_reviews st)"
  let ?f = "\<lambda>x::audit_row. (ar_time x, ar_key x)"
  have d: "dec (review_codec k) (enc (review_codec k) x) = x" for x
    using ok by (simp add: workflow_ok_def codec_ok_def)
  have rows: "review_id (dec (review_codec k) (ar_payload x)) = ar_key x"
    "reviewed_at (dec (review_codec k) (ar_payload x)) = ar_time x" if "x \<in> set ?own" for x
    using ok that by (auto simp: workflow_ok_def review_rows_ok_def Let_def)
  have revs: "reviews_of k st tid = map (\<lambda>x. dec (review_codec k) (ar_payload x)) (sort_key ?f ?own)"
    "reviews_of k st' tid = map (\<lambda>x. dec (review_codec k) (ar_payload x)) (sort_key ?f (?own @ [?row]))"
    by (simp_all add: reviews_of_def st')
  have inj: "inj_on ?f (set (?own @ [?row]))" "?row \<notin> set ?own"
    using ok new by (auto simp: inj_on_def workflow_ok_def review_rows_ok_def distinct_map image_iff)
  have all: "(\<forall>y \<in> set ?own. ?f y < ?f ?row) \<longleftrightarrow>
      (\<forall>v \<in> set (reviews_of k st tid). (reviewed_at v, review_id v) < (reviewed_at r, rid))"
    unfolding revs using rows by auto
  obtain x where x: "List.find (\<lambda>r. ar_key r = tid) (attribution_tasks st) = Some x"
    and cur: "cur = with_review_state k st (dec (task_codec k) (ar_payload x))"
    using t by (auto simp: get_attribution_task_def)
  have id: "task_id (dec (task_codec k) (ar_payload x)) = tid"
    using find_mem [OF x] ok by (simp add: workflow_ok_def task_rows_ok_def)
  have ne: "sort_key ?f (?own @ [?row]) \<noteq> []" by (simp add: sort_key_Nil_iff)
  have last': "rv_status (last (reviews_of k st' tid)) =
      (if \<forall>y \<in> set ?own. ?f y < ?f ?row then rv_status r
       else rv_status (last (reviews_of k st tid)))"
  proof (cases "\<forall>y \<in> set ?own. ?f y < ?f ?row")
    case True
    with last_sort_key_snoc [OF inj] ne show ?thesis by (simp add: revs last_map d)
  next
    case False
    then have "?own \<noteq> []" by (metis empty_iff list.set(1))
    then have "sort_key ?f ?own \<noteq> []" unfolding sort_key_Nil_iff .
    then have "last (reviews_of k st tid) = dec (review_codec k) (ar_payload (last (sort_key ?f ?own)))"
      unfolding revs by (rule last_map)
    moreover have "last (reviews_of k st' tid)
        = dec (review_codec k) (ar_payload (last (sort_key ?f (?own @ [?row]))))"
      unfolding revs by (rule last_map [OF ne])
    moreover have "last (sort_key ?f (?own @ [?row])) = last (sort_key ?f ?own)"
      using last_sort_key_snoc [OF inj] unfolding if_not_P [OF False] .
    ultimately show ?thesis unfolding if_not_P [OF False] by (simp only:)
  qed
  have ne': "reviews_of k st' tid \<noteq> []" using ne by (simp add: revs)
  have "get_attribution_task k st' tid = Some (with_review_state k st' (dec (task_codec k) (ar_payload x)))"
    using x by (simp add: get_attribution_task_def st')
  moreover have "at_review_status (with_review_state k st' (dec (task_codec k) (ar_payload x)))
      = rv_status (last (reviews_of k st' tid))"
    using ne' by (simp add: with_review_state_def id Let_def)
  moreover have "at_review_status cur = rv_status (last (reviews_of k st tid))"
    if "\<not> (\<forall>y \<in> set ?own. ?f y < ?f ?row)"
  proof -
    have "?own \<noteq> []" using that by (metis empty_iff list.set(1))
    then have "sort_key ?f ?own \<noteq> []" unfolding sort_key_Nil_iff .
    then have "reviews_of k st tid \<noteq> []" unfolding revs by simp
    then show ?thesis by (simp add: cur with_review_state_def id Let_def)
  qed
  ultimately show ?thesis unfolding last' all by auto
qed

section \<open>Properties of the stream\<close>

text \<open>The audit has a row for an attempt to send the event.\<close>

definition attempted :: "codecs \<Rightarrow> attribution_store \<Rightarrow> alert_stream_event \<Rightarrow> bool" where
  "attempted k st e \<longleftrightarrow> (\<exists>d. enc (delivery_codec k) d \<in> ar_payload ` set (stream_deliveries st)
     \<and> stream_event_id d = se_event_id e)"

lemma resumedD:
  assumes "resumed k v0 st0 s"
  shows "events_from k (sm_store s) (cursor_value v0)
       = frame_events (sm_frames s) @ events_from k (sm_store s) (cursor_value (sm_cursor s))"
    and "cursor_value v0 \<le> cursor_value (sm_cursor s)"
    and "cursor_value (sm_cursor s) \<le> max_sequence (stream_events (sm_store s))"
    and "stream_ok (sm_store s)"
    and "\<forall>e \<in> set (frame_events (sm_frames s)). attempted k (sm_store s) e"
  using assms unfolding resumed_def attempted_def by (blast+, force)

lemma service_cursor_store:
  assumes "service_validate_cursor k sha fi st alerts v = (res, st')" and "stream_ok st"
  shows "stream_ok st' \<and> set (stream_deliveries st) \<subseteq> set (stream_deliveries st')
    \<and> prefix (stream_events st) (stream_events st')
    \<and> (is_ok res \<longrightarrow> cursor_value v \<le> max_sequence (stream_events st'))"
proof -
  obtain r1 st1 where sync: "sync_loop k sha fi st 0 alerts = (r1, st1)" by force
  note st = sync_store [OF sync assms(2)]
  have "st' = st1" "is_ok res \<longrightarrow> (\<exists>n. validate_cursor st1 v = Inr n)"
    using assms(1) sync by (auto simp: service_validate_cursor_def sync_alerts_def is_ok_def split: sum.splits)
  moreover have "n \<le> max_sequence (stream_events st1)" if "validate_cursor st1 v = Inr n" for n
    using that by (auto simp: validate_cursor_def split: option.splits if_splits)
  ultimately show ?thesis using st validate_cursor_value by fastforce
qed

text \<open>Sequences only grow, so identities of events never repeat.\<close>

lemma events_from_distinct:
  assumes "stream_ok st"
  shows "distinct (map se_event_id (events_from k st n))"
proof -
  let ?seqs = "map sr_sequence (filter (\<lambda>r. n < sr_sequence r) (stream_events st))"
  have "sorted_wrt (<) ?seqs"
    using assms by (auto simp: stream_ok_def sorted_wrt_map intro!: sorted_wrt_filter)
  then have "distinct ?seqs" by (simp add: strict_sorted_iff)
  moreover have "inj show_nat" by (metis injI read_show_nat)
  moreover have "map se_event_id (events_from k st n) = map show_nat ?seqs"
    by (simp add: events_from_def stream_event_of_def)
  ultimately show ?thesis by (metis distinct_map inj_on_subset subset_UNIV)
qed

lemma stream_frames_cases:
  assumes "stream_frames k sha fi tks c st alerts v start envs = (res, s)" and "stream_ok st"
  obtains (refused) "frame_events (sm_frames s) = []" "sm_cursor s = v" "stream_ok (sm_store s)"
      "prefix (stream_events st) (stream_events (sm_store s))"
  | (streamed) st' where "resumed k v st' s" "prefix (stream_events st) (stream_events (sm_store s))"
proof -
  obtain r1 st1 where v: "service_validate_cursor k sha fi st alerts v = (r1, st1)" by force
  note st1 = service_cursor_store [OF v assms(2)]
  show ?thesis
  proof (cases r1)
    case (Inl e)
    with assms(1) v st1 show ?thesis by (intro refused) (auto simp: stream_frames_def Let_def)
  next
    case (Inr u)
    let ?s = "\<lparr>sm_store = st1, sm_cursor = v, sm_emitted = 0, sm_due = start + sc_heartbeat c,
      sm_ticks = 0, sm_frames = []\<rparr>"
    have "resumed k v st1 ?s" using st1 Inr by (simp add: resumed_def is_ok_def)
    moreover have "poll_loop k sha fi tks c ?s envs = (res, s)"
      using assms(1) v Inr by (simp add: stream_frames_def Let_def)
    ultimately have "resumed k v st1 s" by (rule poll_loop_resumed [rotated])
    moreover from this st1 have "prefix (stream_events st) (stream_events (sm_store s))"
      unfolding resumed_def by (metis prefix_order.trans)
    ultimately show ?thesis by (rule streamed)
  qed
qed


text \<open>C39. A stream survives its connections: a client that reconnects at the cursor where a first
  connection ended, by whatever cause, gets over both connections exactly the events after
  where it started, in order, none twice and none left out up to those still pending at the end,
  whatever alerts arrived meanwhile; every event sent has an audited attempt.\<close>

theorem stream_resumes_exactly_once:
  assumes "stream_ok st"
    and "stream_frames k sha fi tks c st alerts last_id start envs = (res, s)"
    and "stream_frames k sha fi' tks' c' (sm_store s) alerts' (sm_cursor s) start' envs' = (res', s')"
  shows "frame_events (sm_frames s) @ frame_events (sm_frames s') @ events_from k (sm_store s') (cursor_value (sm_cursor s'))
      = events_from k (sm_store s') (cursor_value last_id)
    \<and> distinct (map se_event_id (frame_events (sm_frames s) @ frame_events (sm_frames s')))
    \<and> (\<forall>e \<in> set (frame_events (sm_frames s)). attempted k (sm_store s) e)
    \<and> (\<forall>e \<in> set (frame_events (sm_frames s')). attempted k (sm_store s') e)"
proof -
  have ok: "stream_ok (sm_store s)" and aud: "\<forall>e \<in> set (frame_events (sm_frames s)). attempted k (sm_store s) e"
    using assms(2,1) by (cases rule: stream_frames_cases; use resumedD(4,5) in auto)+
  have ok': "stream_ok (sm_store s')" and aud': "\<forall>e \<in> set (frame_events (sm_frames s')). attempted k (sm_store s') e"
    and pre: "prefix (stream_events (sm_store s)) (stream_events (sm_store s'))"
    and second: "events_from k (sm_store s') (cursor_value (sm_cursor s))
      = frame_events (sm_frames s') @ events_from k (sm_store s') (cursor_value (sm_cursor s'))"
    using assms(3) ok by (cases rule: stream_frames_cases; use resumedD in auto)+
  obtain new where new: "\<And>m. m \<le> max_sequence (stream_events (sm_store s)) \<Longrightarrow>
      events_from k (sm_store s') m = events_from k (sm_store s) m @ new"
    using events_from_prefix(1) [OF ok' pre] by blast
  have first: "events_from k (sm_store s') (cursor_value last_id)
      = frame_events (sm_frames s) @ events_from k (sm_store s') (cursor_value (sm_cursor s))"
    using assms(2,1)
  proof (cases rule: stream_frames_cases)
    case (streamed st')
    note d = resumedD [OF streamed(1)]
    show ?thesis unfolding new [OF d(3)] new [OF order.trans [OF d(2,3)]] d(1) by simp
  qed simp
  have all: "frame_events (sm_frames s) @ frame_events (sm_frames s')
      @ events_from k (sm_store s') (cursor_value (sm_cursor s')) = events_from k (sm_store s') (cursor_value last_id)"
    unfolding first second by simp
  have "distinct (map se_event_id (frame_events (sm_frames s) @ frame_events (sm_frames s')))"
    using events_from_distinct [OF ok', of k "cursor_value last_id"] unfolding all [symmetric] by auto
  with all aud aud' show ?thesis by blast
qed

text \<open>An example: two alerts, a first connection closed after one frame and a second one.\<close>

definition stream_alert :: "string \<Rightarrow> alert_record" where
  "stream_alert i = \<lparr>alert_id = i,
     candidate = \<lparr>fingerprint = ''f'', priority = AP1, direction = UPSIDE, observed_at = 1, evidence = [],
       event_id = None, snapshot_id = ''s'', model_version = ''m'', rules_version = ''r'',
       action = alert_action.NO_TRADE, invalidation_conditions = [], rerun_trigger = ''t''\<rparr>,
     created_at = 2, status = OPEN, deduplicated_count = 0, escalation_level = 0\<rparr>"

definition example_codecs :: codecs where
  "example_codecs =
     \<lparr>alert_codec = \<lparr>enc = alert_id, dec = stream_alert\<rparr>,
      delivery_codec = \<lparr>enc = (\<lambda>d. delivery_id d @ stream_event_id d),
        dec = (\<lambda>i. \<lparr>delivery_id = i, connection_id = ''c'', stream_event_id = i, attempted_at = 0\<rparr>)\<rparr>,
      task_codec = \<lparr>enc = task_id, dec = (\<lambda>i. undefined)\<rparr>,
      review_codec = \<lparr>enc = review_id, dec = (\<lambda>i. undefined)\<rparr>\<rparr>"

definition example_alerts :: "string \<Rightarrow> (alert_record \<times> instant) list" where
  "example_alerts ids = map (\<lambda>i. (dec (alert_codec example_codecs) [i], 5)) ids"

definition example_env :: "string \<Rightarrow> rat \<Rightarrow> poll_env" where
  "example_env ids tm = \<lparr>pe_disconnected = False, pe_alerts = example_alerts ids, pe_time = tm, pe_now = 6\<rparr>"

definition example_ticks :: "string \<Rightarrow> nat \<Rightarrow> string \<times> instant \<times> rat" where
  "example_ticks c n = (c @ show_nat n, 7, 0)"

definition example_connection :: "string \<Rightarrow> int option \<Rightarrow> attribution_store \<Rightarrow> string option \<Rightarrow> bool result \<times> stream_state" where
  "example_connection c m st v = stream_frames example_codecs (\<lambda>t. t) no_failure (example_ticks c)
     \<lparr>sc_connection_id = c, sc_heartbeat = 15, sc_max_frames = m\<rparr> st (example_alerts ''ab'') v 0
     [example_env ''ab'' 1]"

definition example_first :: "bool result \<times> stream_state" where
  "example_first = example_connection ''x'' (Some 1) empty_attribution_store None"

definition example_second :: "bool result \<times> stream_state" where
  "example_second = example_connection ''y'' None (sm_store (snd example_first)) (sm_cursor (snd example_first))"

lemma example_digits: "show_nat (Suc 0) = ''1''" "show_nat (Suc (Suc 0)) = ''2''" "int_text ''1''"
  "read_nat ''1'' = Suc 0" "read_nat ''2'' = Suc (Suc 0)"
  by code_simp+

lemma example_streams:
  "map se_event_id (frame_events (sm_frames (snd example_first))) = [''1'']
   \<and> map se_event_id (frame_events (sm_frames (snd example_second))) = [''2'']
   \<and> events_from example_codecs (sm_store (snd example_second))
       (cursor_value (sm_cursor (snd example_second))) = []"
  by (simp add: example_first_def example_second_def example_connection_def stream_frames_def Let_def
    service_validate_cursor_def sync_alerts_def example_alerts_def example_env_def example_ticks_def
    stream_events_after_def validate_cursor_def max_sequence_def append_alert_projection_def append_delivery_def
    append_immutable_def mk_delivery_audit_def max_reached_def poll_def example_codecs_def stream_alert_def
    stream_event_of_def inject_def no_failure_def empty_attribution_store_def projection_key_def
    events_from_def cursor_value_def read_show_nat numeral_nat
    example_digits)

theorem stream_resumes_exactly_once_witness:
  "map se_event_id (events_from example_codecs (sm_store (snd example_second)) 0) = [''1'', ''2'']
   \<and> stream_ok empty_attribution_store"
proof -
  have first: "stream_frames example_codecs (\<lambda>t. t) no_failure (example_ticks ''x'')
     \<lparr>sc_connection_id = ''x'', sc_heartbeat = 15, sc_max_frames = Some 1\<rparr> empty_attribution_store
     (example_alerts ''ab'') None 0 [example_env ''ab'' 1]
     = (fst example_first, snd example_first)"
    by (simp add: example_first_def example_connection_def)
  have second: "stream_frames example_codecs (\<lambda>t. t) no_failure (example_ticks ''y'')
     \<lparr>sc_connection_id = ''y'', sc_heartbeat = 15, sc_max_frames = None\<rparr> (sm_store (snd example_first))
     (example_alerts ''ab'') (sm_cursor (snd example_first)) 0 [example_env ''ab'' 1]
     = (fst example_second, snd example_second)"
    by (simp add: example_second_def example_connection_def)
  show ?thesis
    using stream_resumes_exactly_once [OF empty_stream_ok first second] empty_stream_ok example_streams
    by (auto simp: cursor_value_def dest!: arg_cong [where f = "map se_event_id"])
qed

section \<open>Codecs for the examples\<close>

text \<open>Any countable type has a text encoding; it gives codecs that satisfy \<open>codec_ok\<close>.\<close>

instance trigger_kind :: countable by countable_datatype
instance review_status :: countable by countable_datatype
instance cross_asset_coherence :: countable by countable_datatype
instance reaction_timing :: countable by countable_datatype
instance event_severity :: countable by countable_datatype
instance decision_action :: countable by countable_datatype
instance char :: countable by countable_datatype

definition text_codec :: "('a \<Rightarrow> 'b::countable) \<Rightarrow> ('b \<Rightarrow> 'a) \<Rightarrow> 'a codec" where
  "text_codec f g = \<lparr>enc = (\<lambda>x. show_nat (to_nat (f x))), dec = (\<lambda>s. g (from_nat (read_nat s)))\<rparr>"

lemma text_codec_ok: "(\<And>x. g (f x) = x) \<Longrightarrow> codec_ok (text_codec f g)"
  by (simp add: codec_ok_def text_codec_def read_show_nat)


definition review_fields where
  "review_fields (x :: review) = (review_id x, rv_task_id x, rv_status x, reviewer x,
     reviewed_at x, rv_note x, retain_sample x)"

definition review_of :: "_ \<Rightarrow> review" where
  "review_of = (\<lambda>(a, b, c, d, e, f, g). \<lparr>
     review_id = a, rv_task_id = b, rv_status = c, reviewer = d, reviewed_at = e, rv_note = f,
     retain_sample = g\<rparr>)"

lemma review_fields [simp]: "review_of (review_fields x) = x"
  by (simp add: review_of_def review_fields_def)

definition cause_fields where
  "cause_fields (x :: instant candidate_cause) = (cause_id x, cause_summary x, cc_published_at x,
     cc_first_seen_at x, cc_confidence x, evidence_refs x)"

definition cause_of :: "_ \<Rightarrow> instant candidate_cause" where
  "cause_of = (\<lambda>(a, b, c, d, e, f). \<lparr>
     cause_id = a, cause_summary = b, cc_published_at = c, cc_first_seen_at = d, cc_confidence = e,
     evidence_refs = f\<rparr>)"

lemma cause_fields [simp]: "cause_of (cause_fields x) = x"
  by (simp add: cause_of_def cause_fields_def)

definition observation_fields where
  "observation_fields (x :: instant cross_asset_observation) = (asset x, ca_observed_at x,
     move_bps x, coherent x, ca_snapshot_id x)"

definition observation_of :: "_ \<Rightarrow> instant cross_asset_observation" where
  "observation_of = (\<lambda>(a, b, c, d, e). \<lparr>
     asset = a, ca_observed_at = b, move_bps = c, coherent = d, ca_snapshot_id = e\<rparr>)"

lemma observation_fields [simp]: "observation_of (observation_fields x) = x"
  by (simp add: observation_of_def observation_fields_def)

definition signal_fields where
  "signal_fields (x :: signal) = (signal_id x, as_kind x, as_severity x, observed_as_of x,
     as_first_seen_at x, market_reaction_start_at x, as_snapshot_id x, replay_manifest_hash x,
     map cause_fields (candidates x), map observation_fields (cross_asset_observations x))"

definition signal_of :: "_ \<Rightarrow> signal" where
  "signal_of = (\<lambda>(a, b, c, d, e, f, g, h, i, j). \<lparr>
     signal_id = a, as_kind = b, as_severity = c, observed_as_of = d, as_first_seen_at = e,
     market_reaction_start_at = f, as_snapshot_id = g, replay_manifest_hash = h,
     candidates = map cause_of i, cross_asset_observations = map observation_of j\<rparr>)"

lemma signal_fields [simp]: "signal_of (signal_fields x) = x"
  by (simp add: signal_of_def signal_fields_def map_idI)

definition task_fields where
  "task_fields (x :: attribution_task) = (task_id x, signal_fields (at_signal x), at_created_at x,
     reaction_lag_seconds x, reaction_timing_interpretation x, at_coherence x, at_confidence x,
     at_review_status x, counterfactual_replay_link x, retained_as_reusable_sample x,
     at_execution_enabled x, at_action x)"

definition task_of :: "_ \<Rightarrow> attribution_task" where
  "task_of = (\<lambda>(a, b, c, d, e, f, g, h, i, j, k, l). \<lparr>
     task_id = a, at_signal = signal_of b, at_created_at = c, reaction_lag_seconds = d,
     reaction_timing_interpretation = e, at_coherence = f, at_confidence = g, at_review_status = h,
     counterfactual_replay_link = i, retained_as_reusable_sample = j, at_execution_enabled = k,
     at_action = l\<rparr>)"

lemma task_fields [simp]: "task_of (task_fields x) = x"
  by (simp add: task_of_def task_fields_def)

definition text_codecs :: codecs where
  "text_codecs = example_codecs\<lparr>task_codec := text_codec task_fields task_of,
     review_codec := text_codec review_fields review_of\<rparr>"

lemma text_codecs_ok: "codec_ok (task_codec text_codecs)" "codec_ok (review_codec text_codecs)"
  by (simp_all add: text_codecs_def text_codec_ok)

section \<open>Properties of the review workflow\<close>

definition attribution_history ::
  "codecs \<Rightarrow> (string \<Rightarrow> string) \<Rightarrow> injector \<Rightarrow> attribution_op list \<Rightarrow> attribution_store" where
  "attribution_history k hex fi ops = foldl (attribution_step k hex fi) empty_attribution_store ops"

lemma empty_workflow_ok:
  "codec_ok (task_codec k) \<Longrightarrow> codec_ok (review_codec k) \<Longrightarrow> workflow_ok k empty_attribution_store"
  by (simp add: workflow_ok_def task_rows_ok_def review_rows_ok_def empty_attribution_store_def)

definition example_signal :: signal where
  "example_signal = \<lparr>signal_id = ''cpi'', as_kind = MAJOR_EVENT, as_severity = P0, observed_as_of = 9,
     as_first_seen_at = 1, market_reaction_start_at = 3, as_snapshot_id = ''sha256:1'',
     replay_manifest_hash = ''sha256:2'', candidates = [], cross_asset_observations = []\<rparr>"

definition example_attribution_ops :: "attribution_op list" where
  "example_attribution_ops = [CreateTask example_signal,
     Review ''u1'' ''attr-cpi'' IN_REVIEW ''me'' (Aware 20) None False]"

definition example_review :: "string \<Rightarrow> review_status \<Rightarrow> instant \<Rightarrow> review" where
  "example_review i s tm = \<lparr>review_id = i, rv_task_id = ''attr-cpi'', rv_status = s, reviewer = ''me'',
     reviewed_at = tm, rv_note = None, retain_sample = False\<rparr>"

definition example_task :: attribution_task where
  "example_task = (case task_of_signal (\<lambda>t. t) example_signal of Inr t \<Rightarrow> t)"

lemma example_task:
  "task_of_signal (\<lambda>t. t) example_signal = Inr example_task" "task_id example_task = ''attr-cpi''"
  "signal_id (at_signal example_task) = ''cpi''" "at_review_status example_task = RS_OPEN"
  by (simp_all add: example_task_def task_of_signal_def mk_attribution_task_def confidence_of_def example_signal_def Let_def)

definition example_store :: "codecs \<Rightarrow> review list \<Rightarrow> attribution_store" where
  "example_store k rs = \<lparr>stream_events = [], stream_deliveries = [],
     attribution_tasks = [\<lparr>ar_key = ''attr-cpi'', ar_time = at_created_at example_task, ar_extra = ''cpi'',
       ar_payload = enc (task_codec k) example_task\<rparr>],
     attribution_reviews = map (\<lambda>r. \<lparr>ar_key = review_id r, ar_time = reviewed_at r, ar_extra = ''attr-cpi'',
       ar_payload = enc (review_codec k) r\<rparr>) rs\<rparr>"

lemma sort_key_of_map: "sort_key f (map g xs) = map g (sort_key (\<lambda>x. f (g x)) xs)"
proof -
  have "insort_key f (g x) (map g ys) = map g (insort_key (\<lambda>x. f (g x)) x ys)" for x ys
    by (induction ys) auto
  then show ?thesis by (induction xs) auto
qed

lemma example_store_task:
  assumes "codec_ok (task_codec k)" and "codec_ok (review_codec k)"
  shows "service_task k (example_store k rs) ''attr-cpi'' = Inr
    (let vs = sort_key (\<lambda>r. (reviewed_at r, review_id r)) rs in
       if vs = [] then example_task
       else example_task\<lparr>at_review_status := rv_status (last vs),
         retained_as_reusable_sample := (retained_as_reusable_sample example_task \<or> list_ex retain_sample vs)\<rparr>)"
proof -
  have "reviews_of k (example_store k rs) ''attr-cpi'' = sort_key (\<lambda>r. (reviewed_at r, review_id r)) rs"
    using assms by (simp add: reviews_of_def example_store_def filter_map comp_def sort_key_of_map codec_ok_def)
  moreover have "dec (task_codec k) (enc (task_codec k) x) = x" for x using assms(1) by (simp add: codec_ok_def)
  moreover have "List.find (\<lambda>r. ar_key r = ''attr-cpi'') (attribution_tasks (example_store k rs))
      = Some \<lparr>ar_key = ''attr-cpi'', ar_time = at_created_at example_task, ar_extra = ''cpi'',
       ar_payload = enc (task_codec k) example_task\<rparr>" by (simp add: example_store_def)
  ultimately show ?thesis
    by (simp add: service_task_def get_attribution_task_def with_review_state_def example_task Let_def)
qed

lemma example_review_step:
  assumes "codec_ok (task_codec k)" and "codec_ok (review_codec k)"
    and "service_task k (example_store k rs) ''attr-cpi'' = Inr cur"
    and "\<not> terminal_review (at_review_status cur)" and "requested \<noteq> RS_OPEN"
    and "i \<notin> review_id ` set rs"
  shows "review_task k no_failure (example_store k rs) i ''attr-cpi'' requested ''me'' (Aware tm) None False
    = (res_bind (service_task k (example_store k (rs @ [example_review i requested tm])) ''attr-cpi'')
         (\<lambda>t. Inr (example_review i requested tm, t)), example_store k (rs @ [example_review i requested tm]))"
proof -
  have find: "List.find (\<lambda>r. ar_key r = i) (attribution_reviews (example_store k rs)) = None"
    using assms(6) unfolding find_None_iff by (auto simp: example_store_def)
  have "get_attribution_task k (example_store k rs) ''attr-cpi'' = Some cur"
    using assms(3) by (simp add: service_task_def split: option.splits)
  moreover have "(example_store k rs)\<lparr>attribution_reviews := attribution_reviews (example_store k rs) @
      [\<lparr>ar_key = i, ar_time = tm, ar_extra = ''attr-cpi'', ar_payload = enc (review_codec k) (example_review i requested tm)\<rparr>]\<rparr>
    = example_store k (rs @ [example_review i requested tm])"
    by (simp add: example_store_def example_review_def)
  ultimately show ?thesis
    using assms(3,4,5) find
    by (simp add: review_task_def validate_review_transition_def mk_attribution_review_def
        append_attribution_review_def inject_def no_failure_def append_immutable_def example_review_def)
qed

lemma example_attribution_run:
  assumes "codec_ok (task_codec k)" and "codec_ok (review_codec k)"
  shows "attribution_history k (\<lambda>t. t) no_failure example_attribution_ops
    = example_store k [example_review ''u1'' IN_REVIEW 20]"
proof -
  have "attribution_step k (\<lambda>t. t) no_failure empty_attribution_store (CreateTask example_signal) = example_store k []"
    by (simp add: create_attribution_task_def example_task append_attribution_task_def inject_def no_failure_def
        append_immutable_def empty_attribution_store_def example_store_def task_by_signal_def Let_def)
  moreover have "service_task k (example_store k []) ''attr-cpi'' = Inr example_task"
    by (simp add: example_store_task [OF assms])
  ultimately show ?thesis
    using example_review_step [OF assms, of "[]" example_task IN_REVIEW "''u1''" 20]
    by (simp add: attribution_history_def example_attribution_ops_def example_task terminal_review_def)
qed

text \<open>A completed review is final: in every history of projections, deliveries, task creations
  and reviews, once the workflow reads a task as confirmed, rejected or inconclusive, it reads the
  same task with the same reviews after any further operations, and every later review of it is
  refused and changes nothing.\<close>

theorem completed_review_is_final:
  assumes "codec_ok (task_codec k)" and "codec_ok (review_codec k)"
    and "service_task k (attribution_history k hex fi ops) tid = Inr t"
    and "terminal_review (at_review_status t)"
  shows "let st = attribution_history k hex fi (ops @ later) in
      service_task k st tid = Inr t
    \<and> service_reviews k st tid = service_reviews k (attribution_history k hex fi ops) tid
    \<and> (\<exists>text. review_task k fi' st uid tid requested who tm nt retain
         = (Inl (AttributionWorkflowError text), st))"
proof -
  have t: "get_attribution_task k (attribution_history k hex fi ops) tid = Some t"
    using assms(3) by (simp add: service_task_def split: option.splits)
  have "workflow_le k (attribution_history k hex fi ops) (attribution_history k hex fi (ops @ later))"
    unfolding attribution_history_def
    by (rule attribution_run.run_rel_from [OF empty_workflow_ok [OF assms(1,2)]])
  with t assms(4) have same: "get_attribution_task k (attribution_history k hex fi (ops @ later)) tid = Some t"
    "reviews_of k (attribution_history k hex fi (ops @ later)) tid = reviews_of k (attribution_history k hex fi ops) tid"
    by (auto simp: workflow_le_def)
  then show ?thesis
    using t assms(4) by (simp add: service_task_def service_reviews_def review_task_def validate_review_transition_def)
qed

theorem completed_review_is_final_witness:
  "service_task text_codecs (attribution_history text_codecs (\<lambda>t. t) no_failure
       (example_attribution_ops @ [Review ''u2'' ''attr-cpi'' CONFIRMED ''me'' (Aware 30) None False]
        @ [Review ''u3'' ''attr-cpi'' IN_REVIEW ''me'' (Aware 40) None False])) ''attr-cpi''
     = Inr (example_task\<lparr>at_review_status := CONFIRMED\<rparr>)"
proof -
  let ?rs = "[example_review ''u1'' IN_REVIEW 20]" and ?k = text_codecs
  note task = example_store_task [OF text_codecs_ok]
  have kept: "\<not> retained_as_reusable_sample example_task"
    by (simp add: example_task_def task_of_signal_def mk_attribution_task_def confidence_of_def example_signal_def Let_def)
  have "service_task ?k (example_store ?k ?rs) ''attr-cpi'' = Inr (example_task\<lparr>at_review_status := IN_REVIEW\<rparr>)"
    using kept by (simp add: task example_review_def)
  from example_review_step [OF text_codecs_ok this, of CONFIRMED "''u2''" 30]
  have "attribution_history ?k (\<lambda>t. t) no_failure
      (example_attribution_ops @ [Review ''u2'' ''attr-cpi'' CONFIRMED ''me'' (Aware 30) None False])
    = example_store ?k (?rs @ [example_review ''u2'' CONFIRMED 30])"
    using example_attribution_run [OF text_codecs_ok]
    by (simp add: attribution_history_def terminal_review_def example_review_def)
  moreover have "service_task ?k (example_store ?k (?rs @ [example_review ''u2'' CONFIRMED 30])) ''attr-cpi''
      = Inr (example_task\<lparr>at_review_status := CONFIRMED\<rparr>)"
    using kept by (simp add: task example_review_def)
  ultimately have "service_task ?k (attribution_history ?k (\<lambda>t. t) no_failure
      (example_attribution_ops @ [Review ''u2'' ''attr-cpi'' CONFIRMED ''me'' (Aware 30) None False])) ''attr-cpi''
      = Inr (example_task\<lparr>at_review_status := CONFIRMED\<rparr>)" by simp
  from completed_review_is_final [OF text_codecs_ok this] show ?thesis
    by (simp add: terminal_review_def Let_def)
qed

lemma append_review_stored:
  assumes "append_attribution_review k fi st r = (Inr (), st')" and "review_id r \<notin> ar_key ` set (attribution_reviews st)"
  shows "st' \<noteq> st"
proof -
  have "List.find (\<lambda>x. ar_key x = review_id r) (attribution_reviews st) = None"
    using assms(2) unfolding find_None_iff by (metis imageI)
  with assms(1) show ?thesis
    by (auto simp: append_attribution_review_def append_immutable_def dest!: arg_cong [where f = attribution_reviews]
        split: sum.splits if_splits)
qed

lemma accepted_review_stored:
  assumes "review_task k fi st uid tid requested who tm nt retain = (Inr x, st')"
    and "uid \<notin> ar_key ` set (attribution_reviews st)"
  shows "st' \<noteq> st"
proof -
  let ?v = "\<lparr>review_id = uid, rv_task_id = tid, rv_status = requested, reviewer = who, reviewed_at = tm,
    rv_note = nt, retain_sample = retain\<rparr>"
  obtain r where "mk_attribution_review ?v = Inr r" "append_attribution_review k fi st r = (Inr (), st')"
    using assms(1) by (fastforce simp: review_task_def split: sum.splits if_splits prod.splits)
  moreover from this(1) have "review_id r = uid" by (auto simp: mk_attribution_review_def split: if_splits)
  ultimately show ?thesis using append_review_stored assms(2) by metis
qed

text \<open>A review that is accepted was a legal transition, and it becomes the task's status exactly
  when it is later than every earlier review of the task, by time and then by identifier; a review
  dated before one of them leaves the status as it was.\<close>

theorem review_takes_effect_when_latest:
  assumes "codec_ok (task_codec k)" and "codec_ok (review_codec k)"
    and "review_task k fi' (attribution_history k hex fi ops) uid tid requested who tm nt retain
           = (Inr (r, t), st')"
    and "uid \<notin> ar_key ` set (attribution_reviews (attribution_history k hex fi ops))"
  shows "\<exists>current. service_task k (attribution_history k hex fi ops) tid = Inr current
    \<and> validate_review_transition (at_review_status current) requested = Inr ()
    \<and> tm = Aware (reviewed_at r)
    \<and> at_review_status t =
        (if list_all (\<lambda>v. (reviewed_at v, review_id v) < (reviewed_at r, uid))
              (reviews_of k (attribution_history k hex fi ops) tid)
         then requested else at_review_status current)"
proof -
  let ?st = "attribution_history k hex fi ops"
  have ok: "workflow_ok k ?st"
    unfolding attribution_history_def by (rule attribution_run.run_inv [OF empty_workflow_ok [OF assms(1,2)]])
  from assms(3) show ?thesis
  proof (cases rule: review_task_cases)
    case same
    with accepted_review_stored [OF assms(3,4)] show ?thesis by blast
  next
    case (added cur r')
    then have r': "r' = r" "service_task k st' tid = Inr t" by (auto simp: service_task_def split: option.splits)
    have "service_task k ?st tid = Inr cur" using added by (simp add: service_task_def)
    moreover have "validate_review_transition (at_review_status cur) requested = Inr ()"
      using added by (simp add: validate_review_transition_def)
    moreover obtain t' where "get_attribution_task k st' tid = Some t'" "at_review_status t' =
       (if \<forall>v \<in> set (reviews_of k ?st tid). (reviewed_at v, review_id v) < (reviewed_at r', uid)
        then rv_status r' else at_review_status cur)"
      using review_status_snoc [OF ok assms(4), of st' r' tid cur] added by auto
    ultimately show ?thesis using r' added by (auto simp: service_task_def list_all_iff)
  qed
qed

text \<open>A confirmation dated before the review in progress is accepted and has no effect.\<close>

theorem review_takes_effect_when_latest_witness:
  "\<exists>t. fst (review_task text_codecs no_failure
       (attribution_history text_codecs (\<lambda>t. t) no_failure example_attribution_ops)
       ''u2'' ''attr-cpi'' CONFIRMED ''me'' (Aware 10) None False)
     = Inr (example_review ''u2'' CONFIRMED 10, t) \<and> at_review_status t = IN_REVIEW"
proof -
  let ?rs = "[example_review ''u1'' IN_REVIEW 20]" and ?k = text_codecs
  note task = example_store_task [OF text_codecs_ok]
  note run = example_attribution_run [OF text_codecs_ok]
  obtain cur where cur: "service_task ?k (example_store ?k ?rs) ''attr-cpi'' = Inr cur" "at_review_status cur = IN_REVIEW"
    by (simp add: task example_review_def)
  obtain t where t: "service_task ?k (example_store ?k (?rs @ [example_review ''u2'' CONFIRMED 10])) ''attr-cpi'' = Inr t"
    by (simp add: task example_review_def)
  have step: "review_task ?k no_failure (attribution_history ?k (\<lambda>t. t) no_failure example_attribution_ops)
       ''u2'' ''attr-cpi'' CONFIRMED ''me'' (Aware 10) None False
     = (Inr (example_review ''u2'' CONFIRMED 10, t), example_store ?k (?rs @ [example_review ''u2'' CONFIRMED 10]))"
    using example_review_step [OF text_codecs_ok cur(1), of CONFIRMED "''u2''" 10] cur(2) t
    by (simp add: run terminal_review_def example_review_def)
  have "reviews_of ?k (example_store ?k ?rs) ''attr-cpi'' = ?rs"
    using text_codecs_ok(2) by (simp add: reviews_of_def example_store_def codec_ok_def)
  then have "at_review_status t = at_review_status cur"
    using review_takes_effect_when_latest [OF text_codecs_ok step] cur
    by (simp add: run example_store_def example_review_def)
  with step cur show ?thesis by simp
qed

end
