(* ===== verification/PromotionGate.thy ===== *)
theory PromotionGate
  imports Snapshot "HOL-Library.Product_Lexorder" "HOL-Library.Multiset"
begin

text \<open>
  The promotion gate (\<open>validation/promotion_gate.py\<close>): pre-registered criteria, the evidence of
  one validation slice, the evaluation of a frozen holdout and its report.  \<open>fr\<close> is the text
  \<open>json\<close> prints for a float.  The finiteness checks pass, since floats are rationals.
\<close>

section \<open>Criteria\<close>

record 't promotion_criteria =
  criteria_id :: string
  pc_version :: string
  registered_at :: 't
  required_slices :: "(string \<times> string) list"
  minimum_samples_per_slice :: int
  maximum_expiry_cross_rate :: rat
  maximum_touch_rate :: rat
  maximum_cvar :: rat
  pc_maximum_drawdown :: rat
  minimum_no_trade_pnl_difference :: rat
  criteria_hash :: string

type_synonym criteria = "instant promotion_criteria"

definition validate_fields :: "criteria \<Rightarrow> unit result" where
  "validate_fields c =
     (if blank (criteria_id c) \<or> blank (pc_version c)
        then Inl (ValueError ''criteria_id and version are required'')
      else if required_slices c = [] \<or> \<not> distinct (required_slices c)
        then Inl (ValueError ''required_slices must be non-empty and unique'')
      else if list_ex (\<lambda>(event, regime). blank event \<or> blank regime) (required_slices c)
        then Inl (ValueError ''required slice values must not be blank'')
      else if minimum_samples_per_slice c \<le> 0
        then Inl (ValueError ''minimum_samples_per_slice must be positive'')
      else if \<not> (0 \<le> maximum_expiry_cross_rate c \<and> maximum_expiry_cross_rate c \<le> 1)
        then Inl (ValueError ''maximum_expiry_cross_rate must be in [0, 1]'')
      else if \<not> (0 \<le> maximum_touch_rate c \<and> maximum_touch_rate c \<le> 1)
        then Inl (ValueError ''maximum_touch_rate must be in [0, 1]'')
      else if maximum_cvar c < 0 then Inl (ValueError ''maximum_cvar must not be negative'')
      else if pc_maximum_drawdown c < 0 then Inl (ValueError ''maximum_drawdown must not be negative'')
      else Inr ())"

definition pair_value :: "string \<times> string \<Rightarrow> pyval" where
  "pair_value p = PList [PStr (fst p), PStr (snd p)]"

definition float_value :: "(rat \<Rightarrow> string) \<Rightarrow> rat \<Rightarrow> pyval" where
  "float_value fr x = PFloat x (fr x)"

definition criteria_payload :: "(rat \<Rightarrow> string) \<Rightarrow> criteria \<Rightarrow> (string, pyval) dict" where
  "criteria_payload fr c =
     [(''criteria_id'', PStr (criteria_id c)), (''version'', PStr (pc_version c)),
      (''registered_at'', PTime (registered_at c)),
      (''required_slices'', PList (map pair_value (required_slices c))),
      (''minimum_samples_per_slice'', PInt (minimum_samples_per_slice c)),
      (''maximum_expiry_cross_rate'', float_value fr (maximum_expiry_cross_rate c)),
      (''maximum_touch_rate'', float_value fr (maximum_touch_rate c)),
      (''maximum_cvar'', float_value fr (maximum_cvar c)),
      (''maximum_drawdown'', float_value fr (pc_maximum_drawdown c)),
      (''minimum_no_trade_pnl_difference'', float_value fr (minimum_no_trade_pnl_difference c))]"

definition calculated_hash :: "(string \<Rightarrow> string) \<Rightarrow> (rat \<Rightarrow> string) \<Rightarrow> criteria \<Rightarrow> string" where
  "calculated_hash sha fr c = snapshot_id (freeze_snapshot sha (PDict (criteria_payload fr c)))"

definition criteria_create ::
  "(string \<Rightarrow> string) \<Rightarrow> (rat \<Rightarrow> string) \<Rightarrow> datetime promotion_criteria \<Rightarrow> criteria result" where
  "criteria_create sha fr r =
     res_bind (to_utc (ValueError ''registered_at must be timezone-aware'') (registered_at r)) (\<lambda>t.
       let c = \<lparr>criteria_id = criteria_id r, pc_version = pc_version r, registered_at = t,
                required_slices = required_slices r,
                minimum_samples_per_slice = minimum_samples_per_slice r,
                maximum_expiry_cross_rate = maximum_expiry_cross_rate r,
                maximum_touch_rate = maximum_touch_rate r, maximum_cvar = maximum_cvar r,
                pc_maximum_drawdown = pc_maximum_drawdown r,
                minimum_no_trade_pnl_difference = minimum_no_trade_pnl_difference r,
                criteria_hash = []\<rparr>
       in res_bind (validate_fields c) (\<lambda>_. Inr (c\<lparr>criteria_hash := calculated_hash sha fr c\<rparr>)))"

definition criteria_verify :: "(string \<Rightarrow> string) \<Rightarrow> (rat \<Rightarrow> string) \<Rightarrow> criteria \<Rightarrow> unit result" where
  "criteria_verify sha fr c =
     res_bind (validate_fields c) (\<lambda>_.
       if criteria_hash c \<noteq> calculated_hash sha fr c
       then Inl (ValueError ''promotion criteria hash mismatch'') else Inr ())"

section \<open>Evidence\<close>

record slice_evidence =
  sl_event_type :: string
  sl_regime :: string
  sample_count :: int
  expiry_cross_rate :: rat
  touch_rate :: rat
  sl_cvar :: rat
  sl_maximum_drawdown :: rat
  no_trade_pnl_difference :: rat

definition mk_slice_evidence :: "slice_evidence \<Rightarrow> slice_evidence result" where
  "mk_slice_evidence s =
     (if blank (sl_event_type s) \<or> blank (sl_regime s)
        then Inl (ValueError ''event_type and regime are required'')
      else if sample_count s < 0 then Inl (ValueError ''sample_count must not be negative'')
      else if \<not> (0 \<le> expiry_cross_rate s \<and> expiry_cross_rate s \<le> 1)
              \<or> \<not> (0 \<le> touch_rate s \<and> touch_rate s \<le> 1)
        then Inl (ValueError ''cross and touch rates must be in [0, 1]'')
      else if sl_cvar s < 0 \<or> sl_maximum_drawdown s < 0
        then Inl (ValueError ''cvar and maximum_drawdown must not be negative'')
      else Inr s)"

definition slice_key :: "slice_evidence \<Rightarrow> string \<times> string" where
  "slice_key s = (sl_event_type s, sl_regime s)"

definition slice_value :: "(rat \<Rightarrow> string) \<Rightarrow> slice_evidence \<Rightarrow> pyval" where
  "slice_value fr s = PDict
     [(''event_type'', PStr (sl_event_type s)), (''regime'', PStr (sl_regime s)),
      (''sample_count'', PInt (sample_count s)),
      (''expiry_cross_rate'', float_value fr (expiry_cross_rate s)),
      (''touch_rate'', float_value fr (touch_rate s)), (''cvar'', float_value fr (sl_cvar s)),
      (''maximum_drawdown'', float_value fr (sl_maximum_drawdown s)),
      (''no_trade_pnl_difference'', float_value fr (no_trade_pnl_difference s))]"

section \<open>The report\<close>

record validation_report =
  rp_criteria_hash :: string
  data_manifest_hash :: string
  holdout_manifest_hash :: string
  evaluated_at :: instant
  rp_slices :: "slice_evidence list"
  passed :: bool
  failures :: "string list"
  report_hash :: string

definition report_payload :: "(rat \<Rightarrow> string) \<Rightarrow> validation_report \<Rightarrow> (string, pyval) dict" where
  "report_payload fr r =
     [(''criteria_hash'', PStr (rp_criteria_hash r)),
      (''data_manifest_hash'', PStr (data_manifest_hash r)),
      (''holdout_manifest_hash'', PStr (holdout_manifest_hash r)),
      (''evaluated_at'', PTime (evaluated_at r)),
      (''slices'', PList (map (slice_value fr) (rp_slices r))),
      (''passed'', PBool (passed r)), (''failures'', PList (map PStr (failures r)))]"

definition report_verify :: "(string \<Rightarrow> string) \<Rightarrow> (rat \<Rightarrow> string) \<Rightarrow> validation_report \<Rightarrow> unit result" where
  "report_verify sha fr r =
     (if report_hash r \<noteq> snapshot_id (freeze_snapshot sha (PDict (report_payload fr r)))
      then Inl (ValueError ''validation report hash mismatch'') else Inr ())"

section \<open>The evaluation\<close>

definition slice_failures :: "criteria \<Rightarrow> slice_evidence \<Rightarrow> string list" where
  "slice_failures c s =
     (if sample_count s < minimum_samples_per_slice c then ['':INSUFFICIENT_SAMPLES''] else [])
     @ (if expiry_cross_rate s > maximum_expiry_cross_rate c then ['':EXPIRY_CROSS_EXCEEDED''] else [])
     @ (if touch_rate s > maximum_touch_rate c then ['':TOUCH_RATE_EXCEEDED''] else [])
     @ (if sl_cvar s > maximum_cvar c then ['':CVAR_EXCEEDED''] else [])
     @ (if sl_maximum_drawdown s > pc_maximum_drawdown c then ['':DRAWDOWN_EXCEEDED''] else [])
     @ (if no_trade_pnl_difference s < minimum_no_trade_pnl_difference c
        then ['':NO_TRADE_EFFECT_BELOW_MINIMUM''] else [])"

fun gate_loop ::
  "criteria \<Rightarrow> (string \<times> string, slice_evidence) dict \<Rightarrow> string list \<Rightarrow> (string \<times> string) list
     \<Rightarrow> string list" where
  "gate_loop c evidence fs [] = fs"
| "gate_loop c evidence fs ((event, regime) # rest) =
     (let prefix = event @ ''/'' @ regime in
      case map_of evidence (event, regime) of
        None \<Rightarrow> gate_loop c evidence (fs @ [prefix @ '':MISSING_SLICE'']) rest
      | Some s \<Rightarrow> gate_loop c evidence (fs @ map (\<lambda>f. prefix @ f) (slice_failures c s)) rest)"

definition evaluate_promotion_gate ::
  "(string \<Rightarrow> string) \<Rightarrow> (rat \<Rightarrow> string) \<Rightarrow> criteria \<Rightarrow> string \<Rightarrow> string \<Rightarrow> datetime \<Rightarrow> datetime
     \<Rightarrow> slice_evidence list \<Rightarrow> validation_report result" where
  "evaluate_promotion_gate sha fr c data holdout frozen_at evaluated slices =
     res_bind (criteria_verify sha fr c) (\<lambda>_.
     res_bind (to_utc (ValueError ''holdout_frozen_at must be timezone-aware'') frozen_at) (\<lambda>frozen.
     res_bind (to_utc (ValueError ''evaluated_at must be timezone-aware'') evaluated) (\<lambda>now.
       if blank data \<or> blank holdout
         then Inl (ValueError ''data and holdout manifest hashes are required'')
       else if frozen \<le> registered_at c
         then Inl (ValueError ''holdout must be frozen after criteria registration'')
       else if now \<le> frozen
         then Inl (ValueError ''evaluation must occur after the holdout is frozen'')
       else if \<not> distinct (map slice_key slices)
         then Inl (ValueError ''validation slice keys must be unique'')
       else
         let evidence = fold (\<lambda>s. AList.update (slice_key s) s) slices [];
             fs = gate_loop c evidence [] (required_slices c);
             candidate = \<lparr>rp_criteria_hash = criteria_hash c, data_manifest_hash = data,
               holdout_manifest_hash = holdout, evaluated_at = now,
               rp_slices = sort_key slice_key slices, passed = (fs = []), failures = sort fs,
               report_hash = []\<rparr>;
             report = candidate\<lparr>report_hash :=
               snapshot_id (freeze_snapshot sha (PDict (report_payload fr candidate)))\<rparr>
         in res_bind (report_verify sha fr report) (\<lambda>_. Inr report))))"

section \<open>What the evaluation returns\<close>

lemma evidence_lookup:
  "distinct (map slice_key slices) \<Longrightarrow>
     map_of (fold (\<lambda>s. AList.update (slice_key s) s) slices []) k = Some s
       \<longleftrightarrow> s \<in> set slices \<and> slice_key s = k"
  by (induction slices arbitrary: s k rule: rev_induct) (auto, metis imageI)

definition slice_reasons ::
  "criteria \<Rightarrow> (string \<times> string \<Rightarrow> slice_evidence option) \<Rightarrow> string \<times> string \<Rightarrow> string list" where
  "slice_reasons c lookup k = map (\<lambda>f. (fst k @ ''/'' @ snd k) @ f)
     (case lookup k of None \<Rightarrow> ['':MISSING_SLICE''] | Some s \<Rightarrow> slice_failures c s)"

lemma gate_loop_concat:
  "gate_loop c evidence fs ks = fs @ concat (map (slice_reasons c (map_of evidence)) ks)"
  by (induction c evidence fs ks rule: gate_loop.induct)
    (simp_all add: slice_reasons_def Let_def split: option.split)

lemma slice_failures_Nil:
  "slice_failures c s = [] \<longleftrightarrow>
     minimum_samples_per_slice c \<le> sample_count s \<and> expiry_cross_rate s \<le> maximum_expiry_cross_rate c
   \<and> touch_rate s \<le> maximum_touch_rate c \<and> sl_cvar s \<le> maximum_cvar c
   \<and> sl_maximum_drawdown s \<le> pc_maximum_drawdown c
   \<and> minimum_no_trade_pnl_difference c \<le> no_trade_pnl_difference s"
  by (auto simp: slice_failures_def)

definition sealed :: "(string \<Rightarrow> string) \<Rightarrow> (rat \<Rightarrow> string) \<Rightarrow> validation_report \<Rightarrow> validation_report" where
  "sealed sha fr r = r\<lparr>report_hash := snapshot_id (freeze_snapshot sha (PDict (report_payload fr r)))\<rparr>"

lemma sealed_verifies: "report_verify sha fr (sealed sha fr r) = Inr ()"
  by (simp add: report_verify_def sealed_def report_payload_def)

lemma evaluate_Inr:
  "evaluate_promotion_gate sha fr c data holdout frozen_at tm slices = Inr r \<longleftrightarrow>
     criteria_verify sha fr c = Inr ()
   \<and> (\<exists>frozen now. frozen_at = Aware frozen \<and> tm = Aware now \<and> registered_at c < frozen \<and> frozen < now
        \<and> \<not> blank data \<and> \<not> blank holdout \<and> distinct (map slice_key slices)
        \<and> (let fs = gate_loop c (fold (\<lambda>s. AList.update (slice_key s) s) slices []) [] (required_slices c)
           in r = sealed sha fr \<lparr>rp_criteria_hash = criteria_hash c, data_manifest_hash = data,
               holdout_manifest_hash = holdout, evaluated_at = now,
               rp_slices = sort_key slice_key slices, passed = (fs = []), failures = sort fs,
               report_hash = []\<rparr>))"
  unfolding evaluate_promotion_gate_def Let_def sealed_def [symmetric]
  by (auto simp: sealed_verifies to_utc_Inr_iff simp del: distinct_map split: if_splits)

section \<open>Properties\<close>

text \<open>C14. A promotion passes exactly on complete evidence: a report exists only for criteria that
  verify and a holdout frozen strictly between their registration and the evaluation; it passes
  exactly when every required slice has evidence with enough samples and every measure within
  its limit, and otherwise it names a failure.\<close>

theorem promotion_gate_exact:
  assumes "evaluate_promotion_gate sha fr c data holdout frozen_at tm slices = Inr r"
  shows "(passed r \<longleftrightarrow> (\<forall>k \<in> set (required_slices c). \<exists>s \<in> set slices. slice_key s = k
           \<and> minimum_samples_per_slice c \<le> sample_count s
           \<and> expiry_cross_rate s \<le> maximum_expiry_cross_rate c
           \<and> touch_rate s \<le> maximum_touch_rate c \<and> sl_cvar s \<le> maximum_cvar c
           \<and> sl_maximum_drawdown s \<le> pc_maximum_drawdown c
           \<and> minimum_no_trade_pnl_difference c \<le> no_trade_pnl_difference s))
    \<and> (passed r \<longleftrightarrow> failures r = [])
    \<and> (\<exists>frozen. frozen_at = Aware frozen \<and> registered_at c < frozen \<and> frozen < evaluated_at r)
    \<and> criteria_verify sha fr c = Inr () \<and> report_verify sha fr r = Inr ()"
proof -
  let ?d = "fold (\<lambda>s. AList.update (slice_key s) s) slices []"
  let ?fs = "gate_loop c ?d [] (required_slices c)"
  from assms have dist: "distinct (map slice_key slices)" and cv: "criteria_verify sha fr c = Inr ()"
    and times: "\<exists>frozen. frozen_at = Aware frozen \<and> registered_at c < frozen \<and> frozen < evaluated_at r"
    and p: "passed r = (?fs = [])" "failures r = sort ?fs" and rv: "report_verify sha fr r = Inr ()"
    unfolding evaluate_Inr Let_def by (auto simp: sealed_verifies) (simp_all add: sealed_def)
  have "slice_reasons c (map_of ?d) k = [] \<longleftrightarrow> (\<exists>s \<in> set slices. slice_key s = k \<and> slice_failures c s = [])" for k
  proof (cases "map_of ?d k")
    case None
    then show ?thesis using evidence_lookup [OF dist, of k] by (auto simp: slice_reasons_def)
  next
    case (Some s)
    then have s: "s \<in> set slices \<and> slice_key s = k" using evidence_lookup [OF dist] by blast
    have "t = s" if "t \<in> set slices \<and> slice_key t = k" for t
      using iffD2 [OF evidence_lookup [OF dist], OF that] Some by simp
    with s have "(\<exists>t \<in> set slices. slice_key t = k \<and> slice_failures c t = []) \<longleftrightarrow> slice_failures c s = []"
      by blast
    then show ?thesis by (simp add: slice_reasons_def Some)
  qed
  then have all: "passed r \<longleftrightarrow> (\<forall>k \<in> set (required_slices c). \<exists>s \<in> set slices. slice_key s = k \<and> slice_failures c s = [])"
    unfolding p(1) gate_loop_concat append_Nil concat_eq_Nil_conv set_map ball_simps by (simp only:)
  have "sort xs = [] \<longleftrightarrow> xs = []" for xs :: "string list" by (metis length_0_conv length_sort)
  then have "failures r = [] \<longleftrightarrow> ?fs = []" unfolding p(2) .
  then have named: "passed r \<longleftrightarrow> failures r = []" unfolding p(1) by (rule HOL.sym)
  show ?thesis
    by (intro conjI all [unfolded slice_failures_Nil] named times cv rv)
qed

text \<open>An example: one required slice, met by its evidence; a float is printed as its number.\<close>

definition example_criteria :: criteria where
  "example_criteria = projr (criteria_create (\<lambda>t. t) number_text
     \<lparr>criteria_id = ''c'', pc_version = ''1'', registered_at = Aware 10,
      required_slices = [(''FOMC'', ''CALM'')], minimum_samples_per_slice = 30,
      maximum_expiry_cross_rate = 1/10, maximum_touch_rate = 1/5, maximum_cvar = 100,
      pc_maximum_drawdown = 200, minimum_no_trade_pnl_difference = 0, criteria_hash = []\<rparr>)"

definition example_slice :: "string \<Rightarrow> int \<Rightarrow> slice_evidence" where
  "example_slice event n = \<lparr>sl_event_type = event, sl_regime = ''CALM'', sample_count = n,
     expiry_cross_rate = 1/20, touch_rate = 1/5, sl_cvar = 90, sl_maximum_drawdown = 150,
     no_trade_pnl_difference = 3\<rparr>"

definition example_gate :: "slice_evidence list \<Rightarrow> validation_report result" where
  "example_gate slices = evaluate_promotion_gate (\<lambda>t. t) number_text example_criteria ''d'' ''h''
     (Aware 20) (Aware 30) slices"

lemma example_criteria:
  "criteria_verify (\<lambda>t. t) number_text example_criteria = Inr ()" "registered_at example_criteria = 10"
  "required_slices example_criteria = [(''FOMC'', ''CALM'')]" "minimum_samples_per_slice example_criteria = 30"
  by (simp_all add: example_criteria_def criteria_create_def criteria_verify_def validate_fields_def
      blank_iff is_space_def calculated_hash_def criteria_payload_def Let_def)

lemma example_gate_returns:
  assumes "distinct (map slice_key slices)"
  obtains r where "example_gate slices = Inr r"
  using assms by (auto simp: example_gate_def evaluate_Inr example_criteria blank_iff is_space_def Let_def)

theorem promotion_gate_exact_witness:
  "\<exists>r. example_gate [example_slice ''CPI'' 40, example_slice ''FOMC'' 29] = Inr r
     \<and> \<not> passed r \<and> failures r \<noteq> []"
proof -
  obtain r where r: "example_gate [example_slice ''CPI'' 40, example_slice ''FOMC'' 29] = Inr r"
    by (rule example_gate_returns [of "[example_slice ''CPI'' 40, example_slice ''FOMC'' 29]"])
      (simp add: slice_key_def example_slice_def)
  from promotion_gate_exact [OF this [unfolded example_gate_def]] r show ?thesis
    by (auto simp: example_criteria slice_key_def example_slice_def)
qed

text \<open>The canonical leaves of the payloads, and what equal payloads say.\<close>

lemma payload_leaves:
  assumes "repr_ok fr"
  shows "canonical (to_json (float_value fr x))" and "canonical (to_json (pair_value p))"
    and "to_json (float_value fr x) = to_json (float_value fr y) \<longleftrightarrow> x = y"
    and "to_json (pair_value p) = to_json (pair_value q) \<longleftrightarrow> p = q"
  using repr_ok_simps [OF assms] by (simp_all add: float_value_def pair_value_def prod_eq_iff)

lemma map_inj_eq: "(\<And>x y. f x = f y \<longleftrightarrow> x = y) \<Longrightarrow> map f xs = map f ys \<longleftrightarrow> xs = ys"
  by (simp add: inj_def inj_map_eq_map)

lemma slice_value_payload:
  assumes "repr_ok fr"
  shows "canonical (to_json (slice_value fr s))"
    and "to_json (slice_value fr s) = to_json (slice_value fr t) \<longleftrightarrow> s = t"
proof -
  note leaves = payload_leaves [OF assms]
  show "canonical (to_json (slice_value fr s))"
    unfolding slice_value_def canonical_PDict using leaves by simp
  show "to_json (slice_value fr s) = to_json (slice_value fr t) \<longleftrightarrow> s = t"
    unfolding slice_value_def by (subst PDict_eq_iff) (auto simp: leaves intro: slice_evidence.equality)
qed

lemma criteria_hash_binds:
  assumes "inj sha" and "repr_ok fr" and "0 \<le> registered_at c" and "0 \<le> registered_at c'"
    and "criteria_verify sha fr c = Inr ()" and "criteria_verify sha fr c' = Inr ()"
    and "criteria_hash c = criteria_hash c'"
  shows "c = c'"
proof -
  note leaves = payload_leaves [OF assms(2)]
  have "map (to_json \<circ> snd) (criteria_payload fr c) = map (to_json \<circ> snd) (criteria_payload fr c')"
  proof (rule payload_id_eq [OF assms(1)])
    show "snapshot_id (freeze_snapshot sha (PDict (criteria_payload fr c)))
        = snapshot_id (freeze_snapshot sha (PDict (criteria_payload fr c')))"
      using assms(5-7) by (auto simp: criteria_verify_def calculated_hash_def split: if_splits)
    show "\<forall>kv \<in> set (criteria_payload fr c) \<union> set (criteria_payload fr c'). canonical (to_json (snd kv))"
      by (simp add: criteria_payload_def leaves del: to_json.simps)
  qed (simp_all add: criteria_payload_def)
  then show ?thesis
    using isoformat_inj [OF assms(3,4)] assms(7)
    by (intro promotion_criteria.equality) (simp_all add: criteria_payload_def leaves map_inj_eq)
qed


lemma report_hash_binds:
  assumes "inj sha" and "repr_ok fr" and "0 \<le> evaluated_at r" and "0 \<le> evaluated_at r'"
    and "report_verify sha fr r = Inr ()" and "report_verify sha fr r' = Inr ()"
    and "report_hash r = report_hash r'"
  shows "r = r'"
proof -
  note leaves = slice_value_payload [OF assms(2)]
  have "map (to_json \<circ> snd) (report_payload fr r) = map (to_json \<circ> snd) (report_payload fr r')"
  proof (rule payload_id_eq [OF assms(1)])
    show "snapshot_id (freeze_snapshot sha (PDict (report_payload fr r)))
        = snapshot_id (freeze_snapshot sha (PDict (report_payload fr r')))"
      using assms(5-7) by (auto simp: report_verify_def split: if_splits)
    show "\<forall>kv \<in> set (report_payload fr r) \<union> set (report_payload fr r'). canonical (to_json (snd kv))"
      by (simp add: report_payload_def leaves del: to_json.simps)
  qed (simp_all add: report_payload_def)
  then show ?thesis
    using isoformat_inj [OF assms(3,4)] assms(7)
    by (intro validation_report.equality) (simp_all add: report_payload_def leaves map_inj_eq)
qed

text \<open>A report's hash fixes the whole evaluation: two evaluations whose reports have the same
  hash used the same pre-registered criteria, thresholds included, the same data and holdout, the
  same evidence and came to the same verdict with the same failures, as long as the digest has no
  collision.\<close>

theorem report_binds_evaluation:
  assumes "inj sha" and "repr_ok fr"
    and "evaluate_promotion_gate sha fr c data holdout frozen_at tm slices = Inr r"
    and "evaluate_promotion_gate sha fr c' data' holdout' frozen_at' tm' slices' = Inr r'"
    and "0 \<le> registered_at c" and "0 \<le> registered_at c'"
    and "report_hash r = report_hash r'"
  shows "c = c' \<and> r = r' \<and> tm = tm' \<and> data = data' \<and> holdout = holdout' \<and> mset slices = mset slices'"
proof -
  have r: "report_verify sha fr r = Inr ()" "0 \<le> evaluated_at r" "criteria_verify sha fr c = Inr ()"
    "tm = Aware (evaluated_at r)" "data = data_manifest_hash r" "holdout = holdout_manifest_hash r"
    "mset slices = mset (rp_slices r)" "criteria_hash c = rp_criteria_hash r"
    if "evaluate_promotion_gate sha fr c data holdout frozen_at tm slices = Inr r" "0 \<le> registered_at c"
    for c data holdout frozen_at tm slices r
    using that unfolding evaluate_Inr Let_def by (auto simp: sealed_verifies) (auto simp: sealed_def)
  note a = r [OF assms(3,5)] and b = r [OF assms(4,6)]
  have "r = r'" by (rule report_hash_binds [OF assms(1,2) a(2) b(2) a(1) b(1) assms(7)])
  moreover from this have "c = c'"
    using a b by (intro criteria_hash_binds [OF assms(1,2,5,6) a(3) b(3)]) simp
  ultimately show ?thesis using a b by simp
qed

theorem report_binds_evaluation_witness:
  "\<exists>r r'. example_gate [example_slice ''FOMC'' 40] = Inr r \<and> example_gate [example_slice ''FOMC'' 41] = Inr r'
     \<and> report_hash r \<noteq> report_hash r'"
proof -
  obtain r where r: "example_gate [example_slice ''FOMC'' 40] = Inr r"
    by (rule example_gate_returns [of "[example_slice ''FOMC'' 40]"]) simp
  obtain r' where r': "example_gate [example_slice ''FOMC'' 41] = Inr r'"
    by (rule example_gate_returns [of "[example_slice ''FOMC'' 41]"]) simp
  have inj: "inj (\<lambda>t::string. t)" and t: "0 \<le> registered_at example_criteria"
    by (simp_all add: example_criteria)
  have "report_hash r \<noteq> report_hash r'"
  proof
    assume same: "report_hash r = report_hash r'"
    from report_binds_evaluation [OF inj number_text_ok r [unfolded example_gate_def]
        r' [unfolded example_gate_def] t t same]
    have "mset [example_slice ''FOMC'' 40] = mset [example_slice ''FOMC'' 41]" by (elim conjE)
    then show False by (simp add: example_slice_def)
  qed
  with r r' show ?thesis by blast
qed

text \<open>The order in which evidence is handed in does not matter: permuted slices give the same
  answer, report, hash and error included.\<close>

theorem gate_order_independent:
  assumes "mset slices = mset slices'"
  shows "evaluate_promotion_gate sha fr c data holdout frozen_at tm slices
       = evaluate_promotion_gate sha fr c data holdout frozen_at tm slices'"
proof (cases "distinct (map slice_key slices)")
  case False
  then have "\<not> distinct (map slice_key slices')" using assms by (metis mset_eq_imp_distinct_iff mset_map)
  with False show ?thesis unfolding evaluate_promotion_gate_def by (simp only: if_True simp_thms)
next
  case True
  then have d: "distinct (map slice_key slices')" using assms by (metis mset_eq_imp_distinct_iff mset_map)
  let ?e = "\<lambda>xs. fold (\<lambda>s. AList.update (slice_key s) s) xs []"
  have "map_of (?e slices) = map_of (?e slices')"
  proof
    fix k
    show "map_of (?e slices) k = map_of (?e slices') k"
      using evidence_lookup [OF True, of k] evidence_lookup [OF d, of k] mset_eq_setD [OF assms]
      by (cases "map_of (?e slices) k"; cases "map_of (?e slices') k") auto
  qed
  then have loop: "gate_loop c (?e slices) [] ks = gate_loop c (?e slices') [] ks" for ks
    by (simp only: gate_loop_concat)
  have "sort_key slice_key slices = sort_key slice_key slices'"
    using assms True by (intro sort_key_inj_key_eq) (auto simp: distinct_map)
  with True d loop show ?thesis unfolding evaluate_promotion_gate_def by (simp only: Let_def)
qed

theorem gate_order_independent_witness:
  "example_gate [example_slice ''FOMC'' 40, example_slice ''CPI'' 40]
     = example_gate [example_slice ''CPI'' 40, example_slice ''FOMC'' 40]"
  unfolding example_gate_def by (rule gate_order_independent) simp

end
