(* ===== verification/Execution.thy ===== *)
theory Execution
  imports Decision PyTime
begin

text \<open>
  Executable prices and the entry risk gate (\<open>validation/execution_economics.py\<close>,
  \<open>validation/risk_economics.py\<close>): the quote of one leg, the conservative value of a fill at the
  quoted sides, the profit of an opened and closed position, its path over marks, the tail loss of
  a scenario set and the eligibility of an entry.  Floats are rationals; \<open>fsum\<close> is the exact sum.
\<close>

section \<open>Assumptions and quotes\<close>

datatype execution_failure =
    MISSING_LEGS | QUOTE_IN_FUTURE | STALE_NBBO | INVALID_NBBO | MISSING_SIZE
  | INSUFFICIENT_SIZE | LIQUIDITY_LIMIT | LEG_SET_MISMATCH

fun failure_str :: "execution_failure \<Rightarrow> string" where
  "failure_str MISSING_LEGS = ''MISSING_LEGS''"
| "failure_str QUOTE_IN_FUTURE = ''QUOTE_IN_FUTURE''"
| "failure_str STALE_NBBO = ''STALE_NBBO''"
| "failure_str INVALID_NBBO = ''INVALID_NBBO''"
| "failure_str MISSING_SIZE = ''MISSING_SIZE''"
| "failure_str INSUFFICIENT_SIZE = ''INSUFFICIENT_SIZE''"
| "failure_str LIQUIDITY_LIMIT = ''LIQUIDITY_LIMIT''"
| "failure_str LEG_SET_MISMATCH = ''LEG_SET_MISMATCH''"

lemma failure_str_inj [simp]: "failure_str x = failure_str y \<longleftrightarrow> x = y"
  by (cases x; cases y) simp_all

text \<open>\<open>sorted(failures, key=str)\<close> is the order of the enumeration's texts.\<close>

instantiation execution_failure :: linorder
begin

definition less_eq_execution_failure :: "execution_failure \<Rightarrow> execution_failure \<Rightarrow> bool" where
  "less_eq_execution_failure x y \<longleftrightarrow> failure_str x \<le> failure_str y"

definition less_execution_failure :: "execution_failure \<Rightarrow> execution_failure \<Rightarrow> bool" where
  "less_execution_failure x y \<longleftrightarrow> failure_str x < failure_str y"

instance
proof
  fix x y z :: execution_failure
  show "x < y \<longleftrightarrow> x \<le> y \<and> \<not> y \<le> x"
    unfolding less_eq_execution_failure_def less_execution_failure_def by (rule less_le_not_le)
  show "x \<le> x" by (simp add: less_eq_execution_failure_def)
  show "x \<le> y \<Longrightarrow> y \<le> z \<Longrightarrow> x \<le> z" by (simp add: less_eq_execution_failure_def)
  show "x \<le> y \<Longrightarrow> y \<le> x \<Longrightarrow> x = y"
    unfolding less_eq_execution_failure_def failure_str_inj [symmetric] by (rule order.antisym)
  show "x \<le> y \<or> y \<le> x" by (auto simp: less_eq_execution_failure_def)
qed

end

record execution_assumptions =
  max_quote_age :: timedelta
  fee_per_contract :: rat
  slippage_per_contract :: rat
  max_size_participation :: rat

definition mk_execution_assumptions :: "execution_assumptions \<Rightarrow> execution_assumptions result" where
  "mk_execution_assumptions a =
     (if max_quote_age a < 0 then Inl (ValueError ''max_quote_age must not be negative'')
      else if fee_per_contract a < 0 \<or> slippage_per_contract a < 0
        then Inl (ValueError ''fees and slippage must not be negative'')
      else if \<not> (0 < max_size_participation a \<and> max_size_participation a \<le> 1)
        then Inl (ValueError ''max_size_participation must be in (0, 1]'')
      else Inr a)"

record 't leg_nbbo =
  leg_id :: string
  ln_quantity :: int
  ln_multiplier :: rat
  ln_bid :: rat
  ln_ask :: rat
  ln_bid_size :: "int option"
  ln_ask_size :: "int option"
  quoted_at :: 't

type_synonym nbbo = "instant leg_nbbo"

definition negative_size :: "int option \<Rightarrow> bool" where
  "negative_size n = (case n of None \<Rightarrow> False | Some k \<Rightarrow> k < 0)"

definition mk_leg_nbbo :: "datetime leg_nbbo \<Rightarrow> nbbo result" where
  "mk_leg_nbbo q =
     (if blank (leg_id q) then Inl (ValueError ''leg_id must not be blank'')
      else if ln_quantity q = 0 then Inl (ValueError ''quantity must not be zero'')
      else if ln_multiplier q \<le> 0 then Inl (ValueError ''multiplier must be positive'')
      else if ln_bid q < 0 \<or> ln_ask q < ln_bid q then Inl (ValueError ''require 0 <= bid <= ask'')
      else if negative_size (ln_bid_size q) then Inl (ValueError ''bid_size must not be negative'')
      else if negative_size (ln_ask_size q) then Inl (ValueError ''ask_size must not be negative'')
      else res_bind (to_utc (ValueError ''quoted_at must be timezone-aware'') (quoted_at q)) (\<lambda>t.
        Inr \<lparr>leg_id = leg_id q, ln_quantity = ln_quantity q, ln_multiplier = ln_multiplier q,
             ln_bid = ln_bid q, ln_ask = ln_ask q, ln_bid_size = ln_bid_size q,
             ln_ask_size = ln_ask_size q, quoted_at = t\<rparr>))"

section \<open>The value of a fill\<close>

record executed_leg =
  xl_leg_id :: string
  xl_quantity :: int
  execution_price :: rat
  half_spread_cost :: rat
  slippage_cost :: rat
  xl_fee :: rat

record executable_value =
  valued_at :: instant
  is_executable :: bool
  ev_failures :: "execution_failure list"
  ev_legs :: "executed_leg list"
  gross_cashflow :: "rat option"
  fees :: "rat option"
  net_cashflow :: "rat option"
  net_credit :: "rat option"

definition not_executable :: "instant \<Rightarrow> execution_failure set \<Rightarrow> executable_value" where
  "not_executable now fs = \<lparr>valued_at = now, is_executable = False, ev_failures = sorted_tuple fs,
     ev_legs = [], gross_cashflow = None, fees = None, net_cashflow = None, net_credit = None\<rparr>"

definition trade_quantity :: "bool \<Rightarrow> nbbo \<Rightarrow> int" where
  "trade_quantity closing q = (if closing then - ln_quantity q else ln_quantity q)"

definition displayed_size :: "bool \<Rightarrow> nbbo \<Rightarrow> int option" where
  "displayed_size closing q = (if trade_quantity closing q > 0 then ln_ask_size q else ln_bid_size q)"

definition quote_failures ::
  "execution_assumptions \<Rightarrow> bool \<Rightarrow> instant \<Rightarrow> nbbo \<Rightarrow> execution_failure set" where
  "quote_failures a closing now q =
     (if quoted_at q > now then {QUOTE_IN_FUTURE}
      else if now - quoted_at q > max_quote_age a then {STALE_NBBO} else {})
     \<union> (case displayed_size closing q of
          None \<Rightarrow> {MISSING_SIZE}
        | Some n \<Rightarrow>
            if n < \<bar>trade_quantity closing q\<bar> then {INSUFFICIENT_SIZE}
            else if of_int \<bar>trade_quantity closing q\<bar> / of_int n > max_size_participation a
            then {LIQUIDITY_LIMIT} else {})"

fun check_loop ::
  "execution_assumptions \<Rightarrow> bool \<Rightarrow> instant \<Rightarrow> execution_failure set \<Rightarrow> nbbo list
     \<Rightarrow> execution_failure set" where
  "check_loop a closing now fs [] = fs"
| "check_loop a closing now fs (q # qs) =
     check_loop a closing now (fs \<union> quote_failures a closing now q) qs"

definition side_price :: "bool \<Rightarrow> nbbo \<Rightarrow> rat" where
  "side_price closing q = (if trade_quantity closing q > 0 then ln_ask q else ln_bid q)"

definition fill_price :: "execution_assumptions \<Rightarrow> bool \<Rightarrow> nbbo \<Rightarrow> rat" where
  "fill_price a closing q = side_price closing q
     + (if trade_quantity closing q > 0 then slippage_per_contract a else - slippage_per_contract a)"

definition midpoint :: "nbbo \<Rightarrow> rat" where
  "midpoint q = (ln_bid q + ln_ask q) / 2"

definition execute_leg :: "execution_assumptions \<Rightarrow> bool \<Rightarrow> nbbo \<Rightarrow> executed_leg" where
  "execute_leg a closing q =
     (let contracts = of_int \<bar>trade_quantity closing q\<bar> in
      \<lparr>xl_leg_id = leg_id q, xl_quantity = trade_quantity closing q,
       execution_price = fill_price a closing q,
       half_spread_cost = \<bar>side_price closing q - midpoint q\<bar> * contracts * ln_multiplier q,
       slippage_cost = slippage_per_contract a * contracts * ln_multiplier q,
       xl_fee = fee_per_contract a * contracts\<rparr>)"

text \<open>The second loop: failures, legs, gross cash flow and fees so far.\<close>

fun fill_loop ::
  "execution_assumptions \<Rightarrow> bool \<Rightarrow> execution_failure set \<times> executed_leg list \<times> rat \<times> rat \<Rightarrow> nbbo list
     \<Rightarrow> execution_failure set \<times> executed_leg list \<times> rat \<times> rat" where
  "fill_loop a closing acc [] = acc"
| "fill_loop a closing (fs, legs, gross, fee) (q # qs) =
     (if fill_price a closing q < 0 then fill_loop a closing (fs \<union> {INVALID_NBBO}, legs, gross, fee) qs
      else let leg = execute_leg a closing q in
        fill_loop a closing (fs, legs @ [leg],
          gross + - of_int (trade_quantity closing q) * fill_price a closing q * ln_multiplier q,
          fee + xl_fee leg) qs)"

definition value_execution ::
  "nbbo list \<Rightarrow> datetime \<Rightarrow> execution_assumptions \<Rightarrow> bool \<Rightarrow> executable_value result" where
  "value_execution quotes tm a closing =
     res_bind (to_utc (ValueError ''valued_at must be timezone-aware'') tm) (\<lambda>now.
       if \<not> distinct (map leg_id quotes) then Inl (ValueError ''leg_id values must be unique'')
       else
         let fs = check_loop a closing now (if quotes = [] then {MISSING_LEGS} else {}) quotes in
         if fs \<noteq> {} then Inr (not_executable now fs)
         else (case fill_loop a closing ({}, [], 0, 0) quotes of (fs', legs, gross, fee) \<Rightarrow>
           if fs' \<noteq> {} then Inr (not_executable now fs')
           else Inr \<lparr>valued_at = now, is_executable = True, ev_failures = [], ev_legs = legs,
                  gross_cashflow = Some gross, fees = Some fee, net_cashflow = Some (gross - fee),
                  net_credit = Some (max 0 (gross - fee))\<rparr>))"

definition value_opening_execution ::
  "nbbo list \<Rightarrow> datetime \<Rightarrow> execution_assumptions \<Rightarrow> executable_value result" where
  "value_opening_execution quotes tm a = value_execution quotes tm a False"

section \<open>Profit of a closed position and its path\<close>

record executable_pnl =
  opened_at :: instant
  closed_at :: instant
  opening_net_cashflow :: rat
  closing_net_cashflow :: rat
  xp_pnl :: rat

definition positions :: "nbbo list \<Rightarrow> (string, int \<times> rat) dict" where
  "positions quotes = fold (\<lambda>q. AList.update (leg_id q) (ln_quantity q, ln_multiplier q)) quotes []"

definition conservative_executable_pnl ::
  "nbbo list \<Rightarrow> nbbo list \<Rightarrow> datetime \<Rightarrow> datetime \<Rightarrow> execution_assumptions
     \<Rightarrow> executable_pnl option result" where
  "conservative_executable_pnl opening closing opened_tm closed_tm a =
     res_bind (to_utc (ValueError ''opened_at must be timezone-aware'') opened_tm) (\<lambda>opened.
     res_bind (to_utc (ValueError ''closed_at must be timezone-aware'') closed_tm) (\<lambda>closed.
       if closed \<le> opened then Inl (ValueError ''closed_at must be after opened_at'')
       else if set (positions opening) \<noteq> set (positions closing) then Inr None
       else res_bind (value_execution opening (Aware opened) a False) (\<lambda>vo.
            res_bind (value_execution closing (Aware closed) a True) (\<lambda>vc.
              if \<not> is_executable vo \<or> \<not> is_executable vc then Inr None
              else (case (net_cashflow vo, net_cashflow vc) of
                (Some x, Some y) \<Rightarrow> Inr (Some \<lparr>opened_at = opened, closed_at = closed,
                   opening_net_cashflow = x, closing_net_cashflow = y, xp_pnl = x + y\<rparr>)
              | _ \<Rightarrow> Inl (AssertionError []))))))"

record pnl_mark =
  marked_at :: instant
  mk_quotes :: "nbbo list"

record pnl_path =
  path_marks :: "executable_pnl list"
  maximum_mtm_loss :: rat

fun mark_loop ::
  "nbbo list \<Rightarrow> instant \<Rightarrow> execution_assumptions \<Rightarrow> executable_pnl list \<Rightarrow> pnl_mark list
     \<Rightarrow> executable_pnl list option result" where
  "mark_loop opening opened a acc [] = Inr (Some acc)"
| "mark_loop opening opened a acc (m # ms) =
     res_bind (conservative_executable_pnl opening (mk_quotes m) (Aware opened) (Aware (marked_at m)) a)
       (\<lambda>r. case r of None \<Rightarrow> Inr None | Some p \<Rightarrow> mark_loop opening opened a (acc @ [p]) ms)"

definition evaluate_conservative_pnl_path ::
  "nbbo list \<Rightarrow> pnl_mark list \<Rightarrow> datetime \<Rightarrow> execution_assumptions \<Rightarrow> pnl_path option result" where
  "evaluate_conservative_pnl_path opening marks opened_tm a =
     res_bind (to_utc (ValueError ''opened_at must be timezone-aware'') opened_tm) (\<lambda>opened.
       if marks = [] then Inl (ValueError ''marks must not be empty'')
       else if list_ex (\<lambda>m. marked_at m \<le> opened) marks
         then Inl (ValueError ''marks must be strictly after opened_at'')
       else if list_ex (\<lambda>(l, r). marked_at l \<ge> marked_at r) (zip marks (tl marks))
         then Inl (ValueError ''marks must be strictly time ordered'')
       else res_bind (mark_loop opening opened a [] marks) (\<lambda>r.
         case r of None \<Rightarrow> Inr None
         | Some ps \<Rightarrow> Inr (Some \<lparr>path_marks = ps,
             maximum_mtm_loss = max 0 (- Min (set (map xp_pnl ps)))\<rparr>)))"

section \<open>The entry risk gate\<close>

record pnl_scenario =
  sc_name :: string
  probability :: rat
  conservative_pnl :: rat

definition mk_pnl_scenario :: "pnl_scenario \<Rightarrow> pnl_scenario result" where
  "mk_pnl_scenario s =
     (if blank (sc_name s) then Inl (ValueError ''scenario name must not be blank'')
      else if probability s \<le> 0 \<or> 1 < probability s
        then Inl (ValueError ''scenario probability must be in (0, 1]'')
      else Inr s)"

record risk_contract =
  rc_max_loss :: "rat option"
  risk_budget :: rat
  cvar_budget :: rat
  cvar_confidence :: rat

definition mk_risk_contract :: "risk_contract \<Rightarrow> risk_contract result" where
  "mk_risk_contract c =
     (if risk_budget c < 0 \<or> cvar_budget c < 0 then Inl (ValueError ''risk budgets must not be negative'')
      else if \<not> (0 < cvar_confidence c \<and> cvar_confidence c < 1)
        then Inl (ValueError ''cvar_confidence must be in (0, 1)'')
      else if (case rc_max_loss c of None \<Rightarrow> False | Some m \<Rightarrow> m < 0)
        then Inl (ValueError ''max_loss must not be negative'')
      else Inr c)"

record risk_eligibility =
  re_action :: decision_action
  entry_eligible :: bool
  quote_executable :: bool
  re_max_loss :: "rat option"
  scenario_max_loss :: rat
  scenario_expected_pnl :: rat
  tail_loss_cvar :: rat
  re_reason :: "no_trade_reason option"

fun tail_loop :: "rat \<Rightarrow> rat \<Rightarrow> pnl_scenario list \<Rightarrow> rat" where
  "tail_loop remaining tail [] = tail"
| "tail_loop remaining tail (s # ss) =
     (let consumed = min remaining (probability s);
          tail' = tail + consumed * conservative_pnl s; remaining' = remaining - consumed
      in if remaining' \<le> 1 / 10 ^ 15 then tail' else tail_loop remaining' tail' ss)"

definition weighted_tail_loss_cvar :: "pnl_scenario list \<Rightarrow> rat \<Rightarrow> rat" where
  "weighted_tail_loss_cvar scenarios confidence =
     (let tail_mass = 1 - confidence
      in max 0 (- tail_loop tail_mass 0 (sort_key conservative_pnl scenarios) / tail_mass))"

definition assess_entry_risk ::
  "executable_value \<Rightarrow> pnl_scenario list \<Rightarrow> risk_contract \<Rightarrow> risk_eligibility result" where
  "assess_entry_risk execution scenarios c =
     (if scenarios = [] then Inl (ValueError ''scenarios must not be empty'')
      else if \<not> distinct (map sc_name scenarios) then Inl (ValueError ''scenario names must be unique'')
      else if \<bar>sum_list (map probability scenarios) - 1\<bar> > 1 / 10 ^ 9
        then Inl (ValueError ''scenario probabilities must sum to 1'')
      else
        let expected = sum_list (map (\<lambda>s. probability s * conservative_pnl s) scenarios);
            worst = max 0 (- Min (set (map conservative_pnl scenarios)));
            cvar = weighted_tail_loss_cvar scenarios (cvar_confidence c)
        in if (case rc_max_loss c of None \<Rightarrow> False | Some m \<Rightarrow> worst > m + 1 / 10 ^ 9)
           then Inl (ValueError ''scenario loss exceeds the declared max_loss bound'')
           else
             let reason = (if \<not> is_executable execution then Some OPTION_CHAIN_UNUSABLE
                           else if (case rc_max_loss c of None \<Rightarrow> True | Some m \<Rightarrow> m > risk_budget c)
                                   \<or> cvar > cvar_budget c
                           then Some RISK_BUDGET_EXCEEDED else None)
             in Inr \<lparr>re_action = (if reason = None then WAIT else NO_TRADE),
                     entry_eligible = (reason = None), quote_executable = is_executable execution,
                     re_max_loss = rc_max_loss c, scenario_max_loss = worst,
                     scenario_expected_pnl = expected, tail_loss_cvar = cvar, re_reason = reason\<rparr>)"

section \<open>What a fill is\<close>

lemma check_loop_union:
  "check_loop a closing now fs qs = fs \<union> (\<Union>q \<in> set qs. quote_failures a closing now q)"
  by (induction qs arbitrary: fs) auto

lemma fill_loop_split:
  "fill_loop a closing (fs, legs, g, f) qs =
     (fs \<union> (if list_ex (\<lambda>q. fill_price a closing q < 0) qs then {INVALID_NBBO} else {}),
      legs @ map (execute_leg a closing) (filter (\<lambda>q. 0 \<le> fill_price a closing q) qs),
      g + sum_list (map (\<lambda>q. - of_int (trade_quantity closing q) * fill_price a closing q * ln_multiplier q)
            (filter (\<lambda>q. 0 \<le> fill_price a closing q) qs)),
      f + sum_list (map (\<lambda>q. xl_fee (execute_leg a closing q)) (filter (\<lambda>q. 0 \<le> fill_price a closing q) qs)))"
  by (induction qs arbitrary: fs legs g f) (auto simp: Let_def)

lemma quote_failures_Nil:
  "quote_failures a closing now q = {} \<longleftrightarrow>
     quoted_at q \<le> now \<and> now - quoted_at q \<le> max_quote_age a
   \<and> (\<exists>n. displayed_size closing q = Some n \<and> \<bar>trade_quantity closing q\<bar> \<le> n
        \<and> of_int \<bar>trade_quantity closing q\<bar> / of_int n \<le> max_size_participation a)"
  by (auto simp: quote_failures_def split: option.splits)

lemma value_execution_split:
  "value_execution qs (Aware now) a closing =
     (if \<not> distinct (map leg_id qs) then Inl (ValueError ''leg_id values must be unique'')
      else if qs = [] \<or> (\<exists>q \<in> set qs. quote_failures a closing now q \<noteq> {})
        then Inr (not_executable now ((if qs = [] then {MISSING_LEGS} else {})
               \<union> (\<Union>q \<in> set qs. quote_failures a closing now q)))
      else if \<exists>q \<in> set qs. fill_price a closing q < 0 then Inr (not_executable now {INVALID_NBBO})
      else (let g = sum_list (map (\<lambda>q. - of_int (trade_quantity closing q) * fill_price a closing q
                   * ln_multiplier q) qs);
               f = sum_list (map (\<lambda>q. xl_fee (execute_leg a closing q)) qs)
        in Inr \<lparr>valued_at = now, is_executable = True, ev_failures = [],
             ev_legs = map (execute_leg a closing) qs, gross_cashflow = Some g, fees = Some f,
             net_cashflow = Some (g - f), net_credit = Some (max 0 (g - f))\<rparr>))"
proof (cases "\<exists>q \<in> set qs. fill_price a closing q < 0")
  case True
  then show ?thesis
    by (auto simp: value_execution_def check_loop_union fill_loop_split list_ex_iff Let_def simp del: distinct_map)
next
  case False
  then have "filter (\<lambda>q. 0 \<le> fill_price a closing q) qs = qs" by (auto simp: filter_id_conv not_less)
  with False show ?thesis
    by (auto simp: value_execution_def check_loop_union fill_loop_split list_ex_iff Let_def simp del: distinct_map)
qed

text \<open>A side price is the midpoint, worse by half the spread.\<close>

lemma leg_cashflow:
  assumes "ln_bid q \<le> ln_ask q"
  shows "- of_int (trade_quantity closing q) * fill_price a closing q * ln_multiplier q
       = - of_int (trade_quantity closing q) * midpoint q * ln_multiplier q
         - half_spread_cost (execute_leg a closing q) - slippage_cost (execute_leg a closing q)"
proof -
  have spread: "\<bar>side_price closing q - midpoint q\<bar> = (ln_ask q - ln_bid q) / 2"
    using assms by (auto simp: side_price_def midpoint_def abs_if field_simps)
  show ?thesis
  proof (cases "0 < trade_quantity closing q")
    case True
    then have "(of_int \<bar>trade_quantity closing q\<bar> :: rat) = of_int (trade_quantity closing q)" by simp
    with True show ?thesis unfolding execute_leg_def Let_def executed_leg.simps spread
      by (simp add: fill_price_def side_price_def midpoint_def field_simps)
  next
    case False
    then have "(of_int \<bar>trade_quantity closing q\<bar> :: rat) = - of_int (trade_quantity closing q)" by simp
    with False show ?thesis unfolding execute_leg_def Let_def executed_leg.simps spread
      by (simp add: fill_price_def side_price_def midpoint_def field_simps)
  qed
qed

section \<open>Properties of fills and positions\<close>

text \<open>A fill is valued exactly when it is provable: there are legs, every quote is of the past and
  fresh enough, its traded side shows a size that covers the contracts within the participation
  limit, and no price falls below zero; otherwise failures are named and no leg, cash flow or
  credit is claimed.\<close>

theorem fill_valued_exactly_when_provable:
  assumes "value_execution qs (Aware now) a closing = Inr v"
  shows "(is_executable v \<longleftrightarrow> qs \<noteq> [] \<and> (\<forall>q \<in> set qs.
            quoted_at q \<le> now \<and> now - quoted_at q \<le> max_quote_age a
          \<and> (\<exists>n. displayed_size closing q = Some n \<and> \<bar>trade_quantity closing q\<bar> \<le> n
               \<and> of_int \<bar>trade_quantity closing q\<bar> / of_int n \<le> max_size_participation a)
          \<and> 0 \<le> fill_price a closing q))
    \<and> (is_executable v \<longleftrightarrow> ev_failures v = [])
    \<and> (\<not> is_executable v \<longrightarrow> ev_legs v = [] \<and> gross_cashflow v = None \<and> fees v = None
          \<and> net_cashflow v = None \<and> net_credit v = None)"
proof -
  have fin: "finite (\<Union>q \<in> set qs. quote_failures a closing now q)"
    by (auto simp: quote_failures_def split: option.splits)
  consider (quotes) "qs = [] \<or> (\<exists>q \<in> set qs. quote_failures a closing now q \<noteq> {})"
    | (price) "qs \<noteq> []" "\<forall>q \<in> set qs. quote_failures a closing now q = {}" "\<exists>q \<in> set qs. fill_price a closing q < 0"
    | (good) "qs \<noteq> []" "\<forall>q \<in> set qs. quote_failures a closing now q = {}" "\<forall>q \<in> set qs. 0 \<le> fill_price a closing q"
    by (meson not_le)
  then show ?thesis
  proof cases
    case quotes
    with assms have v: "v = not_executable now ((if qs = [] then {MISSING_LEGS} else {})
        \<union> (\<Union>q \<in> set qs. quote_failures a closing now q))"
      by (simp add: value_execution_split split: if_splits)
    have "(if qs = [] then {MISSING_LEGS} else {}) \<union> (\<Union>q \<in> set qs. quote_failures a closing now q) \<noteq> {}"
      using quotes by auto
    then have "ev_failures v \<noteq> []" using fin by (simp add: v not_executable_def del: Un_insert_left)
    moreover have "\<not> (qs \<noteq> [] \<and> (\<forall>q \<in> set qs. quote_failures a closing now q = {}))" using quotes by blast
    ultimately show ?thesis
      unfolding quote_failures_Nil by (simp add: v not_executable_def del: Un_insert_left) blast
  next
    case price
    with assms have "v = not_executable now {INVALID_NBBO}" by (auto simp: value_execution_split split: if_splits)
    with price(3) show ?thesis by (auto simp: not_executable_def not_le)
  next
    case good
    then have "\<not> (qs = [] \<or> (\<exists>q \<in> set qs. quote_failures a closing now q \<noteq> {}))"
      "\<not> (\<exists>q \<in> set qs. fill_price a closing q < 0)" by (auto simp: not_less)
    with assms have "is_executable v" "ev_failures v = []"
      by (auto simp: value_execution_split Let_def split: if_splits)
    with good show ?thesis unfolding quote_failures_Nil by auto
  qed
qed

text \<open>An example: a sold put spread, opened for a credit and closed the next minute.\<close>

definition example_assumptions :: execution_assumptions where
  "example_assumptions = \<lparr>max_quote_age = seconds 5, fee_per_contract = 1, slippage_per_contract = 1/20,
     max_size_participation = 1/2\<rparr>"

definition example_quote :: "string \<Rightarrow> int \<Rightarrow> rat \<Rightarrow> rat \<Rightarrow> 't \<Rightarrow> 't leg_nbbo" where
  "example_quote i n b s tm = \<lparr>leg_id = i, ln_quantity = n, ln_multiplier = 100, ln_bid = b, ln_ask = s,
     ln_bid_size = Some 10, ln_ask_size = Some 10, quoted_at = tm\<rparr>"

definition example_opening :: "'t \<Rightarrow> 't leg_nbbo list" where
  "example_opening tm = [example_quote ''p1'' (-1) 3 (31/10) tm, example_quote ''p2'' 1 1 (11/10) tm]"

definition example_closing :: "'t \<Rightarrow> 't leg_nbbo list" where
  "example_closing tm = [example_quote ''p2'' 1 (1/2) (6/10) tm, example_quote ''p1'' (-1) 1 (11/10) tm]"

lemmas example_fill_defs = example_assumptions_def example_quote_def example_opening_def example_closing_def
  seconds_def

lemma example_quotes:
  "res_map mk_leg_nbbo (example_opening (Aware t)) = Inr (example_opening t)"
  "res_map mk_leg_nbbo (example_closing (Aware t)) = Inr (example_closing t)"
  "mk_execution_assumptions example_assumptions = Inr example_assumptions"
  by (simp_all add: example_fill_defs mk_leg_nbbo_def mk_execution_assumptions_def blank_iff is_space_def negative_size_def)

lemmas fill_eval = not_executable_def quote_failures_def displayed_size_def trade_quantity_def fill_price_def
  side_price_def execute_leg_def Let_def value_execution_split

theorem fill_valued_exactly_when_provable_witness:
  "\<exists>v. value_execution (example_opening 0) (Aware (seconds 6)) example_assumptions False = Inr v
     \<and> ev_failures v \<noteq> [] \<and> net_credit v = None"
proof -
  obtain v where v: "value_execution (example_opening 0) (Aware (seconds 6)) example_assumptions False = Inr v"
    by (simp add: fill_eval example_fill_defs)
  moreover have "\<not> is_executable v"
    using fill_valued_exactly_when_provable [OF v] by (simp add: example_fill_defs)
  ultimately show ?thesis using fill_valued_exactly_when_provable [OF v] by blast
qed

text \<open>The cash flow of a fill is its value at the midpoints less its costs.\<close>

definition mid_value :: "nbbo list \<Rightarrow> rat" where
  "mid_value qs = sum_list (map (\<lambda>q. of_int (ln_quantity q) * midpoint q * ln_multiplier q) qs)"

definition leg_costs :: "executed_leg list \<Rightarrow> rat" where
  "leg_costs ls = sum_list (map (\<lambda>l. half_spread_cost l + slippage_cost l + xl_fee l) ls)"

lemma fill_cashflow:
  assumes "value_execution qs (Aware now) a closing = Inr v" and "is_executable v"
    and "\<forall>q \<in> set qs. ln_bid q \<le> ln_ask q"
  shows "net_cashflow v = Some ((if closing then mid_value qs else - mid_value qs) - leg_costs (ev_legs v))"
proof -
  have cash: "sum_list (map (\<lambda>q. - of_int (trade_quantity closing q) * fill_price a closing q * ln_multiplier q) qs)
      - sum_list (map (\<lambda>q. xl_fee (execute_leg a closing q)) qs)
    = (if closing then mid_value qs else - mid_value qs) - leg_costs (map (execute_leg a closing) qs)"
    using assms(3)
  proof (induction qs)
    case (Cons q qs)
    then have "ln_bid q \<le> ln_ask q" by simp
    from leg_cashflow [OF this, of closing a] Cons show ?case
      by (auto simp: mid_value_def leg_costs_def trade_quantity_def)
  qed (simp add: mid_value_def leg_costs_def)
  have "net_cashflow v = Some (sum_list (map (\<lambda>q. - of_int (trade_quantity closing q) * fill_price a closing q
        * ln_multiplier q) qs) - sum_list (map (\<lambda>q. xl_fee (execute_leg a closing q)) qs))
      \<and> ev_legs v = map (execute_leg a closing) qs"
    using assms(1,2) by (auto simp: value_execution_split not_executable_def Let_def split: if_splits)
  then show ?thesis unfolding cash by (elim conjE) (simp only:)
qed

lemma leg_costs_nonneg:
  assumes "mk_execution_assumptions a0 = Inr a" and "\<forall>q \<in> set qs. 0 < ln_multiplier q"
  shows "0 \<le> leg_costs (map (execute_leg a closing) qs)"
proof -
  have "0 \<le> fee_per_contract a" "0 \<le> slippage_per_contract a"
    using assms(1) by (auto simp: mk_execution_assumptions_def split: if_splits)
  then show ?thesis using assms(2)
    unfolding leg_costs_def map_map comp_def
    by (intro sum_list_mono_ge) (auto simp: execute_leg_def Let_def)
qed

lemma valid_quotes:
  assumes "res_map mk_leg_nbbo raw = Inr qs"
  shows "\<forall>q \<in> set qs. ln_bid q \<le> ln_ask q \<and> 0 < ln_multiplier q"
  using res_map_all2 [OF assms]
  by (induction raw qs rule: list_all2_induct) (auto simp: mk_leg_nbbo_def split: if_splits)

text \<open>C21. A profit is conservative: for quotes and assumptions that passed validation, the profit of a
  position opened and closed is its profit at the midpoints less the half spreads, slippage and
  fees of all its legs at both ends, so it never exceeds the profit at the midpoints.\<close>

theorem executable_pnl_is_conservative:
  assumes "conservative_executable_pnl opening closing opened_tm closed_tm a = Inr (Some r)"
    and "res_map mk_leg_nbbo raw_opening = Inr opening" and "res_map mk_leg_nbbo raw_closing = Inr closing"
    and "mk_execution_assumptions a0 = Inr a"
  shows "\<exists>vo vc. value_execution opening opened_tm a False = Inr vo
      \<and> value_execution closing closed_tm a True = Inr vc \<and> is_executable vo \<and> is_executable vc
      \<and> xp_pnl r = mid_value closing - mid_value opening - leg_costs (ev_legs vo) - leg_costs (ev_legs vc)
      \<and> xp_pnl r \<le> mid_value closing - mid_value opening"
proof -
  from assms(1) obtain opened closed vo vc where t: "opened_tm = Aware opened" "closed_tm = Aware closed"
    and vo: "value_execution opening (Aware opened) a False = Inr vo" "is_executable vo"
    and vc: "value_execution closing (Aware closed) a True = Inr vc" "is_executable vc"
    and r: "\<exists>x y. net_cashflow vo = Some x \<and> net_cashflow vc = Some y \<and> xp_pnl r = x + y"
    by (auto simp: conservative_executable_pnl_def to_utc_Inr_iff split: if_splits option.splits)
  note ok = valid_quotes [OF assms(2)] valid_quotes [OF assms(3)]
  have "net_cashflow vo = Some (- mid_value opening - leg_costs (ev_legs vo))"
    "net_cashflow vc = Some (mid_value closing - leg_costs (ev_legs vc))"
    using fill_cashflow [OF vo] fill_cashflow [OF vc] ok by simp_all
  with r have pnl: "xp_pnl r = mid_value closing - mid_value opening - leg_costs (ev_legs vo) - leg_costs (ev_legs vc)"
    by auto
  have "ev_legs vo = map (execute_leg a False) opening" "ev_legs vc = map (execute_leg a True) closing"
    using vo vc by (auto simp: value_execution_split not_executable_def Let_def split: if_splits)
  then have "0 \<le> leg_costs (ev_legs vo)" "0 \<le> leg_costs (ev_legs vc)"
    using leg_costs_nonneg [OF assms(4)] ok by simp_all
  with pnl vo vc t show ?thesis by auto
qed

theorem executable_pnl_is_conservative_witness:
  "\<exists>r. conservative_executable_pnl (example_opening 0) (example_closing (minutes 1)) (Aware 0) (Aware (minutes 1))
        example_assumptions = Inr (Some r) \<and> xp_pnl r = 106 \<and> xp_pnl r \<le> 150"
proof -
  have "conservative_executable_pnl (example_opening 0) (example_closing (minutes 1)) (Aware 0) (Aware (minutes 1))
      example_assumptions = Inr (Some \<lparr>opened_at = 0, closed_at = minutes 1, opening_net_cashflow = 178,
        closing_net_cashflow = -72, xp_pnl = 106\<rparr>)"
    by (simp add: conservative_executable_pnl_def positions_def fill_eval example_fill_defs minutes_def insert_commute)
  from executable_pnl_is_conservative [OF this example_quotes] this show ?thesis
    by (simp add: mid_value_def midpoint_def example_fill_defs)
qed

section \<open>Properties of the risk gate\<close>

text \<open>What the tail loop takes of each scenario: everything of those below some profit, nothing of
  those above it, and all of the tail up to what is left over.\<close>

lemma tail_loop_takes:
  assumes "sorted (map conservative_pnl ss)" and "distinct ss" and "\<forall>s \<in> set ss. 0 < probability s"
    and "0 \<le> rem" and "ss \<noteq> []"
  shows "\<exists>g c rest. tail_loop rem tail ss = tail + (\<Sum>s \<in> set ss. g s * conservative_pnl s)
    \<and> (\<forall>s \<in> set ss. 0 \<le> g s \<and> g s \<le> probability s) \<and> (\<Sum>s \<in> set ss. g s) = rem - rest \<and> 0 \<le> rest
    \<and> (rest \<le> 1 / 10 ^ 15 \<or> (\<forall>s \<in> set ss. g s = probability s)) \<and> c \<in> conservative_pnl ` set ss
    \<and> (\<forall>s \<in> set ss. conservative_pnl s < c \<longrightarrow> g s = probability s)
    \<and> (\<forall>s \<in> set ss. c < conservative_pnl s \<longrightarrow> g s = 0)"
  using assms
proof (induction ss arbitrary: rem tail)
  case (Cons s ss)
  let ?k = "min rem (probability s)"
  have s: "s \<notin> set ss" "\<forall>t \<in> set ss. conservative_pnl s \<le> conservative_pnl t" using Cons.prems by auto
  have k: "0 \<le> ?k" "?k \<le> probability s" "0 \<le> rem - ?k" using Cons.prems by auto
  have other: "(\<Sum>t \<in> set ss. (if t = s then x else g t) * conservative_pnl t) = (\<Sum>t \<in> set ss. g t * conservative_pnl t)"
    "(\<Sum>t \<in> set ss. (if t = s then x else g t)) = (\<Sum>t \<in> set ss. g t)" for x :: rat and g
    using s by (auto intro!: sum.cong)
  show ?case
  proof (cases "rem - ?k \<le> 1 / 10 ^ 15 \<or> ss = []")
    case True
    let ?g = "\<lambda>t. if t = s then ?k else 0"
    have loop: "tail_loop rem tail (s # ss) = tail + ?k * conservative_pnl s"
      using True by (auto simp: Let_def)
    have full: "rem - ?k \<le> 1 / 10 ^ 15 \<or> (\<forall>t \<in> set (s # ss). ?g t = probability t)"
      using True k by (auto simp: min_def)
    show ?thesis
    proof (rule exI [of _ ?g], rule exI [of _ "conservative_pnl s"], rule exI [of _ "rem - ?k"], intro conjI)
      show "tail_loop rem tail (s # ss) = tail + (\<Sum>t \<in> set (s # ss). ?g t * conservative_pnl t)"
        unfolding loop using s(1) by (simp add: other)
      show "(\<Sum>t \<in> set (s # ss). ?g t) = rem - (rem - ?k)" using s(1) by (simp add: other)
      show "rem - ?k \<le> 1 / 10 ^ 15 \<or> (\<forall>t \<in> set (s # ss). ?g t = probability t)" by (rule full)
      show "0 \<le> rem - ?k" by (rule k)
      show "\<forall>t \<in> set (s # ss). 0 \<le> ?g t \<and> ?g t \<le> probability t" using k Cons.prems(3) by auto
    qed (use s in auto)
  next
    case False
    then have k_full: "?k = probability s" by (auto simp: min_def)
    have "sorted (map conservative_pnl ss)" "distinct ss" "\<forall>t \<in> set ss. 0 < probability t" "ss \<noteq> []"
      using Cons.prems False by auto
    from Cons.IH [OF this(1-3) k(3) this(4), of "tail + ?k * conservative_pnl s"]
    obtain g c rest where g: "tail_loop (rem - ?k) (tail + ?k * conservative_pnl s) ss
          = tail + ?k * conservative_pnl s + (\<Sum>t \<in> set ss. g t * conservative_pnl t)"
      "\<forall>t \<in> set ss. 0 \<le> g t \<and> g t \<le> probability t" "(\<Sum>t \<in> set ss. g t) = rem - ?k - rest" "0 \<le> rest"
      "rest \<le> 1 / 10 ^ 15 \<or> (\<forall>t \<in> set ss. g t = probability t)" "c \<in> conservative_pnl ` set ss"
      "\<forall>t \<in> set ss. conservative_pnl t < c \<longrightarrow> g t = probability t"
      "\<forall>t \<in> set ss. c < conservative_pnl t \<longrightarrow> g t = 0" by blast
    let ?g = "\<lambda>t. if t = s then ?k else g t"
    have loop: "tail_loop rem tail (s # ss) = tail_loop (rem - ?k) (tail + ?k * conservative_pnl s) ss"
      using False by (simp add: Let_def)
    have cs: "conservative_pnl s \<le> c" using g(6) s(2) by auto
    show ?thesis
    proof (rule exI [of _ ?g], rule exI [of _ c], rule exI [of _ rest], intro conjI)
      show "tail_loop rem tail (s # ss) = tail + (\<Sum>t \<in> set (s # ss). ?g t * conservative_pnl t)"
        unfolding loop g(1) using s(1) by (simp add: other)
      show "(\<Sum>t \<in> set (s # ss). ?g t) = rem - rest" using s(1) g(3) by (simp add: other)
      show "\<forall>t \<in> set (s # ss). 0 \<le> ?g t \<and> ?g t \<le> probability t" using k g(2) by auto
      show "rest \<le> 1 / 10 ^ 15 \<or> (\<forall>t \<in> set (s # ss). ?g t = probability t)" using g(5) k_full by auto
      show "c \<in> conservative_pnl ` set (s # ss)" using g(6) by auto
      show "\<forall>t \<in> set (s # ss). conservative_pnl t < c \<longrightarrow> ?g t = probability t" using g(7) k_full by auto
      show "\<forall>t \<in> set (s # ss). c < conservative_pnl t \<longrightarrow> ?g t = 0" using g(8) cs by auto
    qed (rule g(4))
  qed
qed simp

lemma worst_loss: "s \<in> set ss \<Longrightarrow> - conservative_pnl s \<le> max 0 (- Min (set (map conservative_pnl ss)))"
  by (simp add: max.coboundedI2)

lemma scale_le: "0 \<le> (x::rat) \<Longrightarrow> x \<le> y \<Longrightarrow> 0 \<le> w \<Longrightarrow> - c \<le> w \<Longrightarrow> x * (- c) \<le> y * w"
  by (rule order.trans [OF mult_left_mono mult_right_mono])

lemma combine_le: "(G::rat) + r * c \<le> S \<Longrightarrow> - G \<le> X \<Longrightarrow> r * (- c) \<le> 1 / k * w \<Longrightarrow> - S \<le> X + w / k"
  by simp

text \<open>The tail loss is the worst tail: no way to spread the tail mass over the scenarios, within
  their probabilities, loses more than the tail mass times the reported figure, up to what the
  loop leaves out at its tolerance, and the figure never exceeds the worst scenario loss.\<close>

theorem tail_cvar_is_worst_tail:
  assumes "list_all (\<lambda>s. 0 < probability s) scenarios" and "distinct scenarios" and "scenarios \<noteq> []"
    and "0 < confidence" and "confidence < 1"
    and "list_all (\<lambda>s. 0 \<le> w s \<and> w s \<le> probability s) scenarios"
    and "(\<Sum>s \<in> set scenarios. w s) = 1 - confidence"
  shows "- (\<Sum>s \<in> set scenarios. w s * conservative_pnl s)
      \<le> (1 - confidence) * weighted_tail_loss_cvar scenarios confidence
         + max 0 (- Min (set (map conservative_pnl scenarios))) / 10 ^ 15
    \<and> weighted_tail_loss_cvar scenarios confidence \<le> max 0 (- Min (set (map conservative_pnl scenarios)))"
proof -
  let ?A = "set scenarios" and ?T = "1 - confidence" and ?W = "max 0 (- Min (set (map conservative_pnl scenarios)))"
  let ?G = "tail_loop ?T 0 (sort_key conservative_pnl scenarios)"
  have T: "0 < ?T" using assms(5) by simp
  have W: "0 \<le> ?W" by simp
  have pos: "\<forall>s \<in> set (sort_key conservative_pnl scenarios). 0 < probability s" using assms(1) by (simp add: list_all_iff)
  have ne: "sort_key conservative_pnl scenarios \<noteq> []" using assms(3) by (metis length_0_conv length_sort)
  have dist: "distinct (sort_key conservative_pnl scenarios)" using assms(2) by simp
  from tail_loop_takes [OF sorted_sort_key dist pos less_imp_le [OF T] ne, of 0]
  obtain g c rest where G: "?G = (\<Sum>s \<in> ?A. g s * conservative_pnl s)"
    and g: "\<forall>s \<in> ?A. 0 \<le> g s \<and> g s \<le> probability s" and sum_g: "(\<Sum>s \<in> ?A. g s) = ?T - rest"
    and rest: "0 \<le> rest" "rest \<le> 1 / 10 ^ 15 \<or> (\<forall>s \<in> ?A. g s = probability s)"
    and c: "c \<in> conservative_pnl ` ?A"
    and below: "\<forall>s \<in> ?A. conservative_pnl s < c \<longrightarrow> g s = probability s"
    and above: "\<forall>s \<in> ?A. c < conservative_pnl s \<longrightarrow> g s = 0"
    by (auto simp only: set_sort add_0)
  have w: "\<forall>s \<in> ?A. 0 \<le> w s \<and> w s \<le> probability s" using assms(6) by (simp add: list_all_iff)
  have small: "rest \<le> 1 / 10 ^ 15"
  proof (rule ccontr)
    assume "\<not> rest \<le> 1 / 10 ^ 15"
    with rest have "\<forall>s \<in> ?A. w s \<le> g s" "0 < rest" using w by (auto simp: not_le)
    then have "(\<Sum>s \<in> ?A. w s) \<le> (\<Sum>s \<in> ?A. g s)" by (intro sum_mono) auto
    with \<open>0 < rest\<close> sum_g assms(7) show False by simp
  qed
  have "0 \<le> (w s - g s) * (conservative_pnl s - c)" if "s \<in> ?A" for s
    using that w g below above
    by (cases "conservative_pnl s" c rule: linorder_cases) (auto simp: mult_nonpos_nonpos)
  then have "0 \<le> (\<Sum>s \<in> ?A. (w s - g s) * (conservative_pnl s - c))" by (rule sum_nonneg)
  also have "\<dots> = (\<Sum>s \<in> ?A. w s * conservative_pnl s) - (\<Sum>s \<in> ?A. g s * conservative_pnl s)
      - ((\<Sum>s \<in> ?A. w s) - (\<Sum>s \<in> ?A. g s)) * c"
    by (simp add: algebra_simps sum_subtractf sum.distrib sum_distrib_left)
  finally have dom: "?G + rest * c \<le> (\<Sum>s \<in> ?A. w s * conservative_pnl s)"
    unfolding G assms(7) sum_g by simp
  have worst_c: "- c \<le> ?W" using c worst_loss [of _ scenarios] by blast
  have cvar: "weighted_tail_loss_cvar scenarios confidence = max 0 (- ?G / ?T)"
    by (simp only: weighted_tail_loss_cvar_def Let_def)
  have "?T * (- ?G / ?T) \<le> ?T * max 0 (- ?G / ?T)" using T by (intro mult_left_mono) auto
  moreover have "?T * (- ?G / ?T) = - ?G" using T by simp
  ultimately have GT: "- ?G \<le> ?T * weighted_tail_loss_cvar scenarios confidence" unfolding cvar by simp
  have left: "rest * (- c) \<le> 1 / 10 ^ 15 * ?W" by (rule scale_le [OF rest(1) small W worst_c])
  have first: "- (\<Sum>s \<in> ?A. w s * conservative_pnl s)
      \<le> ?T * weighted_tail_loss_cvar scenarios confidence + ?W / 10 ^ 15"
    by (rule combine_le [OF dom GT left])
  have "- ?G = (\<Sum>s \<in> ?A. g s * (- conservative_pnl s))" unfolding G by (simp add: sum_negf)
  also have "\<dots> \<le> (\<Sum>s \<in> ?A. g s * ?W)"
    using g worst_loss by (intro sum_mono mult_left_mono) auto
  also have "\<dots> = (?T - rest) * ?W" unfolding sum_g [symmetric] by (simp add: sum_distrib_right)
  also have "\<dots> \<le> ?T * ?W" using rest(1) W by (intro mult_right_mono) auto
  finally have "- ?G / ?T \<le> ?W" using T by (simp add: field_simps)
  then have "weighted_tail_loss_cvar scenarios confidence \<le> ?W" unfolding cvar using W by (rule max.boundedI [rotated])
  with first show ?thesis by blast
qed

text \<open>The risk gate fails closed and never enters: its action is to wait exactly when the fill is
  executable, a loss bound is proven and within the risk budget and the tail loss is within its
  own, otherwise it is no trade; and no scenario loses more than a declared bound, up to the
  comparison's tolerance.\<close>

theorem entry_risk_gate_sound:
  assumes "assess_entry_risk execution scenarios c = Inr r"
  shows "re_action r \<noteq> ENTER \<and> (entry_eligible r \<longleftrightarrow> re_action r = WAIT) \<and> (re_reason r = None \<longleftrightarrow> entry_eligible r)
    \<and> (entry_eligible r \<longleftrightarrow> is_executable execution
         \<and> (\<exists>m. rc_max_loss c = Some m \<and> m \<le> risk_budget c) \<and> tail_loss_cvar r \<le> cvar_budget c)
    \<and> (\<forall>m. rc_max_loss c = Some m \<longrightarrow> list_all (\<lambda>s. - conservative_pnl s \<le> m + 1 / 10 ^ 9) scenarios)"
proof -
  let ?W = "max 0 (- Min (set (map conservative_pnl scenarios)))"
  from assms have bound: "\<forall>m. rc_max_loss c = Some m \<longrightarrow> ?W \<le> m + 1 / 10 ^ 9"
    by (auto simp: assess_entry_risk_def Let_def not_less simp del: max_def split: if_splits option.splits)
  have "list_all (\<lambda>s. - conservative_pnl s \<le> m + 1 / 10 ^ 9) scenarios" if "rc_max_loss c = Some m" for m
    unfolding list_all_iff using worst_loss bound that order.trans by blast
  moreover from assms have "tail_loss_cvar r = weighted_tail_loss_cvar scenarios (cvar_confidence c)"
    "re_reason r = (if \<not> is_executable execution then Some OPTION_CHAIN_UNUSABLE
       else if (case rc_max_loss c of None \<Rightarrow> True | Some m \<Rightarrow> m > risk_budget c)
         \<or> weighted_tail_loss_cvar scenarios (cvar_confidence c) > cvar_budget c
       then Some RISK_BUDGET_EXCEEDED else None)"
    "re_action r = (if re_reason r = None then WAIT else NO_TRADE)" "entry_eligible r = (re_reason r = None)"
    by (auto simp: assess_entry_risk_def Let_def split: if_splits)
  ultimately show ?thesis by (cases "rc_max_loss c") (auto simp: not_less)
qed

definition example_scenarios :: "pnl_scenario list" where
  "example_scenarios = [\<lparr>sc_name = ''up'', probability = 9/10, conservative_pnl = 100\<rparr>,
     \<lparr>sc_name = ''down'', probability = 1/10, conservative_pnl = -400\<rparr>]"

theorem tail_cvar_is_worst_tail_witness:
  "0 < weighted_tail_loss_cvar example_scenarios (8/10)
   \<and> weighted_tail_loss_cvar example_scenarios (8/10) \<le> 400"
proof -
  let ?w = "\<lambda>s. if sc_name s = ''up'' then 1/10 else 1/10 :: rat"
  have "(\<Sum>s \<in> set example_scenarios. ?w s) = 1 - 8/10" by (simp add: example_scenarios_def)
  from tail_cvar_is_worst_tail [OF _ _ _ _ _ _ this]
  show ?thesis by (simp add: example_scenarios_def)
qed

definition example_contract :: "rat \<Rightarrow> risk_contract" where
  "example_contract budget = \<lparr>rc_max_loss = Some 400, risk_budget = budget, cvar_budget = 300, cvar_confidence = 8/10\<rparr>"

theorem entry_risk_gate_sound_witness:
  "\<exists>v r. value_opening_execution (example_opening 0) (Aware 0) example_assumptions = Inr v
     \<and> assess_entry_risk v example_scenarios (example_contract 399) = Inr r \<and> re_action r = NO_TRADE"
proof -
  obtain v where v: "value_opening_execution (example_opening 0) (Aware 0) example_assumptions = Inr v"
    by (simp add: value_opening_execution_def fill_eval example_fill_defs)
  obtain r where r: "assess_entry_risk v example_scenarios (example_contract 399) = Inr r"
    by (simp add: assess_entry_risk_def example_scenarios_def example_contract_def Let_def)
  have "re_action r \<noteq> WAIT" "re_action r \<noteq> ENTER"
    using entry_risk_gate_sound [OF r] by (auto simp: example_contract_def)
  with v r show ?thesis by (cases "re_action r") auto
qed

end
