(* ===== verification/HashChain.thy ===== *)
theory HashChain
  imports Prelude
begin

text \<open>
  The contract of the hash-chained ledgers.  An entry has a position, the hash of its
  predecessor and a hash of its own; \<open>chained\<close> says that a list of entries is a chain from a
  genesis hash, with each stored hash the seal of its entry's content.  The locale promises that
  equal seals mean equal entries, which is what a collision-free digest of the content gives.
\<close>

fun chained ::
  "('e \<Rightarrow> int) \<Rightarrow> ('e \<Rightarrow> string) \<Rightarrow> ('e \<Rightarrow> string) \<Rightarrow> ('e \<Rightarrow> string) \<Rightarrow> int \<Rightarrow> string \<Rightarrow> 'e list \<Rightarrow> bool" where
  "chained position previous stored seal n h [] = True"
| "chained position previous stored seal n h (e # es) =
     (position e = n \<and> previous e = h \<and> stored e = seal e
      \<and> chained position previous stored seal (n + 1) (stored e) es)"

text \<open>The hash a chain ends with.\<close>

definition chain_head :: "('e \<Rightarrow> string) \<Rightarrow> string \<Rightarrow> 'e list \<Rightarrow> string" where
  "chain_head stored h es = (if es = [] then h else stored (last es))"

lemma chained_snoc:
  "chained position previous stored seal n h (es @ [e]) \<longleftrightarrow>
     chained position previous stored seal n h es \<and> position e = n + int (length es)
   \<and> previous e = chain_head stored h es \<and> stored e = seal e"
  by (induction es arbitrary: n h) (auto simp: chain_head_def algebra_simps)

lemma chained_append:
  "chained position previous stored seal n h (es @ fs) \<Longrightarrow> chained position previous stored seal n h es"
  by (induction es arbitrary: n h) auto

locale hash_chain =
  fixes position :: "'e \<Rightarrow> int" and previous :: "'e \<Rightarrow> string" and stored :: "'e \<Rightarrow> string"
    and seal :: "'e \<Rightarrow> string" and valid :: "'e \<Rightarrow> bool"
  assumes seal_binds: "valid e \<Longrightarrow> valid f \<Longrightarrow> seal e = seal f \<Longrightarrow> stored e = stored f \<Longrightarrow> e = f"
begin

abbreviation chain :: "int \<Rightarrow> string \<Rightarrow> 'e list \<Rightarrow> bool" where
  "chain \<equiv> chained position previous stored seal"

text \<open>The last hash fixes the chain.\<close>

lemma head_binds:
  assumes "chain n h es" and "chain n h fs" and "\<forall>e \<in> set es. valid e" and "\<forall>e \<in> set fs. valid e"
    and "es \<noteq> []" and "fs \<noteq> []" and "stored (last es) = stored (last fs)"
  shows "es = fs"
  using assms
proof (induction es arbitrary: fs rule: rev_induct)
  case (snoc e es)
  obtain f gs where fs: "fs = gs @ [f]" using snoc.prems(6) by (metis append_butlast_last_id)
  have e: "chain n h es" "position e = n + int (length es)" "previous e = chain_head stored h es" "stored e = seal e"
    using snoc.prems(1) by (auto simp: chained_snoc)
  have f: "chain n h gs" "position f = n + int (length gs)" "previous f = chain_head stored h gs" "stored f = seal f"
    using snoc.prems(2) by (auto simp: fs chained_snoc)
  have same: "e = f" using snoc.prems(3,4,7) e(4) f(4) by (intro seal_binds) (auto simp: fs)
  then have len: "length es = length gs" using e(2) f(2) by simp
  have "es = gs"
  proof (cases "es = []")
    case True
    with len show ?thesis by simp
  next
    case False
    with len have "gs \<noteq> []" by auto
    moreover have "stored (last es) = stored (last gs)"
      using same e(3) f(3) False \<open>gs \<noteq> []\<close> by (simp add: chain_head_def)
    ultimately show ?thesis using snoc.IH [OF e(1) f(1)] snoc.prems(3,4) False by (auto simp: fs)
  qed
  with same fs show ?case by simp
qed simp

text \<open>So the hash of any entry fixes what was written before it.\<close>

lemma entry_binds_past:
  assumes "chain n h (es @ e # us)" and "chain n h (fs @ f # vs)"
    and "\<forall>x \<in> set (es @ [e]). valid x" and "\<forall>x \<in> set (fs @ [f]). valid x" and "stored e = stored f"
  shows "es = fs \<and> e = f"
  using head_binds [of n h "es @ [e]" "fs @ [f]"] assms
    chained_append [of position previous stored seal n h "es @ [e]" us]
    chained_append [of position previous stored seal n h "fs @ [f]" vs] by auto

end

end
