(* ===== verification/CostLedger.thy ===== *)
theory CostLedger
  imports Snapshot HashChain Machine
begin

text \<open>
  The cost ledger (\<open>ingest/cost_ledger.py\<close>): an append-only file in which every entry carries the
  hash of the one before.  The file is the list of the entries its lines decode to, so loading is
  the verification of that list; the clock's reading is an argument, and \<open>fr\<close> is the text \<open>json\<close>
  prints for a float.
\<close>

definition GENESIS_HASH :: string where "GENESIS_HASH = ''sha256:cost-ledger-genesis''"

record cost_entry =
  ce_sequence :: int
  ce_recorded_at :: instant
  plan_id :: string
  estimated_usd :: rat
  ceiling_usd :: rat
  ce_decision :: string
  ce_previous_hash :: string
  ce_entry_hash :: string

definition cost_payload :: "(rat \<Rightarrow> string) \<Rightarrow> cost_entry \<Rightarrow> (string, pyval) dict" where
  "cost_payload fr e =
     [(''sequence'', PInt (ce_sequence e)), (''recorded_at'', PTime (ce_recorded_at e)),
      (''plan_id'', PStr (plan_id e)), (''estimated_usd'', PFloat (estimated_usd e) (fr (estimated_usd e))),
      (''ceiling_usd'', PFloat (ceiling_usd e) (fr (ceiling_usd e))), (''decision'', PStr (ce_decision e)),
      (''previous_hash'', PStr (ce_previous_hash e))]"

definition cost_seal :: "(string \<Rightarrow> string) \<Rightarrow> (rat \<Rightarrow> string) \<Rightarrow> cost_entry \<Rightarrow> string" where
  "cost_seal sha fr e = snapshot_id (freeze_snapshot sha (PDict (cost_payload fr e)))"

fun verify_loop ::
  "(string \<Rightarrow> string) \<Rightarrow> (rat \<Rightarrow> string) \<Rightarrow> int \<Rightarrow> string \<Rightarrow> cost_entry list \<Rightarrow> unit result" where
  "verify_loop sha fr index previous_hash [] = Inr ()"
| "verify_loop sha fr index previous_hash (e # es) =
     (if ce_sequence e \<noteq> index \<or> ce_previous_hash e \<noteq> previous_hash
        then Inl (CostLedgerError ''cost ledger chain is broken'')
      else if cost_seal sha fr e \<noteq> ce_entry_hash e
        then Inl (CostLedgerError ''cost ledger entry hash mismatch'')
      else verify_loop sha fr (index + 1) (ce_entry_hash e) es)"

definition cost_verify :: "(string \<Rightarrow> string) \<Rightarrow> (rat \<Rightarrow> string) \<Rightarrow> cost_entry list \<Rightarrow> unit result" where
  "cost_verify sha fr es = verify_loop sha fr 0 GENESIS_HASH es"

definition cost_load :: "(string \<Rightarrow> string) \<Rightarrow> (rat \<Rightarrow> string) \<Rightarrow> cost_entry list \<Rightarrow> cost_entry list result" where
  "cost_load sha fr book = res_bind (cost_verify sha fr book) (\<lambda>_. Inr book)"

definition cost_append ::
  "(string \<Rightarrow> string) \<Rightarrow> (rat \<Rightarrow> string) \<Rightarrow> cost_entry list \<Rightarrow> string \<Rightarrow> rat \<Rightarrow> rat \<Rightarrow> string \<Rightarrow> instant
     \<Rightarrow> cost_entry result \<times> cost_entry list" where
  "cost_append sha fr book plan estimated cap decision now =
     (case cost_load sha fr book of
        Inl e \<Rightarrow> (Inl e, book)
      | Inr entries \<Rightarrow>
          let previous = (if entries = [] then GENESIS_HASH else ce_entry_hash (last entries));
              draft = \<lparr>ce_sequence = int (length entries), ce_recorded_at = now, plan_id = plan,
                estimated_usd = estimated, ceiling_usd = cap, ce_decision = decision,
                ce_previous_hash = previous, ce_entry_hash = []\<rparr>;
              entry = draft\<lparr>ce_entry_hash := cost_seal sha fr draft\<rparr>
          in (Inr entry, book @ [entry]))"

section \<open>The ledger is a hash chain\<close>

abbreviation cost_chain ::
  "(string \<Rightarrow> string) \<Rightarrow> (rat \<Rightarrow> string) \<Rightarrow> int \<Rightarrow> string \<Rightarrow> cost_entry list \<Rightarrow> bool" where
  "cost_chain sha fr \<equiv> chained ce_sequence ce_previous_hash ce_entry_hash (cost_seal sha fr)"

lemma verify_loop_chain: "verify_loop sha fr n h es = Inr () \<longleftrightarrow> cost_chain sha fr n h es"
  by (induction sha fr n h es rule: verify_loop.induct) auto

lemma cost_load_chain: "cost_load sha fr book = Inr es \<longleftrightarrow> es = book \<and> cost_chain sha fr 0 GENESIS_HASH book"
  using verify_loop_chain [of sha fr 0 GENESIS_HASH book]
  by (cases "verify_loop sha fr 0 GENESIS_HASH book") (auto simp: cost_load_def cost_verify_def)

lemma cost_seal_update [simp]: "cost_seal sha fr (e\<lparr>ce_entry_hash := h\<rparr>) = cost_seal sha fr e"
  by (simp add: cost_seal_def cost_payload_def)

lemma cost_seal_binds:
  assumes "inj sha" and "repr_ok fr" and "0 \<le> ce_recorded_at e" and "0 \<le> ce_recorded_at f"
    and "cost_seal sha fr e = cost_seal sha fr f" and "ce_entry_hash e = ce_entry_hash f"
  shows "e = f"
proof -
  note leaves = repr_ok_simps [OF assms(2)]
  have "map (to_json \<circ> snd) (cost_payload fr e) = map (to_json \<circ> snd) (cost_payload fr f)"
    by (rule payload_id_eq [OF assms(1) _ _ _ assms(5) [unfolded cost_seal_def]])
      (use leaves in \<open>simp_all add: cost_payload_def\<close>)
  then show ?thesis
    using isoformat_inj [OF assms(3,4)] assms(6)
    by (intro cost_entry.equality) (simp_all add: cost_payload_def leaves)
qed

text \<open>Without collisions the ledger's seal keeps the contract of a hash chain.\<close>

definition collision_free :: "(string \<Rightarrow> string) \<Rightarrow> (rat \<Rightarrow> string) \<Rightarrow> bool" where
  "collision_free sha fr \<longleftrightarrow> inj sha \<and> repr_ok fr"

interpretation cost_ledger: hash_chain ce_sequence ce_previous_hash ce_entry_hash "cost_seal sha fr"
  "\<lambda>e. collision_free sha fr \<and> 0 \<le> ce_recorded_at e" for sha fr
  by unfold_locales (auto simp: collision_free_def intro: cost_seal_binds)

text \<open>Appending as a step of a machine; a refused append leaves the file as it is.\<close>

type_synonym cost_request = "string \<times> rat \<times> rat \<times> string \<times> instant"

definition cost_step ::
  "(string \<Rightarrow> string) \<Rightarrow> (rat \<Rightarrow> string) \<Rightarrow> cost_entry list \<Rightarrow> cost_request \<Rightarrow> cost_entry list" where
  "cost_step sha fr book q = (case q of (plan, estimated, cap, decision, now) \<Rightarrow>
     snd (cost_append sha fr book plan estimated cap decision now))"

definition request_of :: "cost_entry \<Rightarrow> cost_request" where
  "request_of e = (plan_id e, estimated_usd e, ceiling_usd e, ce_decision e, ce_recorded_at e)"

lemma cost_step_chain:
  assumes "cost_chain sha fr 0 GENESIS_HASH book"
  shows "\<exists>e. cost_step sha fr book q = book @ [e] \<and> request_of e = q
    \<and> cost_chain sha fr 0 GENESIS_HASH (book @ [e])"
proof -
  obtain plan est cap decision now where q: "q = (plan, est, cap, decision, now)" by (cases q) auto
  have "cost_load sha fr book = Inr book" using assms by (simp add: cost_load_chain)
  then show ?thesis using assms
    by (auto simp: q cost_step_def cost_append_def Let_def chained_snoc chain_head_def request_of_def
        cost_seal_def cost_payload_def)
qed

interpretation cost_file: audit_log "cost_step sha fr" "cost_chain sha fr 0 GENESIS_HASH" "\<lambda>book. book" for sha fr
proof unfold_locales
  fix s and e :: cost_request assume ok: "cost_chain sha fr 0 GENESIS_HASH s"
  show "cost_chain sha fr 0 GENESIS_HASH (cost_step sha fr s e)" using cost_step_chain [OF ok, of e] by auto
next
  fix s and e :: cost_request assume ok: "cost_chain sha fr 0 GENESIS_HASH s"
  show "prefix s (cost_step sha fr s e)" using cost_step_chain [OF ok, of e] by auto
qed

lemma cost_history_requests:
  "cost_chain sha fr 0 GENESIS_HASH book \<Longrightarrow>
     map request_of (foldl (cost_step sha fr) book qs) = map request_of book @ qs"
proof (induction qs arbitrary: book)
  case (Cons q qs)
  from cost_step_chain [OF Cons.prems, of q] Cons.IH show ?case by auto
qed simp

section \<open>Properties\<close>

text \<open>The cost ledger is tamper evident: the file that a history of gate decisions leaves loads
  and lists exactly those decisions in order, and any file that loads and ends with the same
  entry hash is that file, entry for entry, as long as the digest has no collision.\<close>

theorem cost_ledger_tamper_evident:
  assumes "inj sha" and "repr_ok fr" and "qs \<noteq> []"
    and "list_all (\<lambda>(plan, estimated, cap, decision, now). 0 \<le> now) qs"
    and "book \<noteq> []" and "list_all (\<lambda>e. 0 \<le> ce_recorded_at e) book"
  shows "let written = foldl (cost_step sha fr) [] qs in
      cost_load sha fr written = Inr written \<and> map request_of written = qs
    \<and> (cost_load sha fr book = Inr book \<and> ce_entry_hash (last book) = ce_entry_hash (last written)
         \<longrightarrow> book = written)"
proof -
  let ?w = "foldl (cost_step sha fr) [] qs"
  have chain: "cost_chain sha fr 0 GENESIS_HASH ?w" by (rule cost_file.run_inv) simp
  have reqs: "map request_of ?w = qs" using cost_history_requests [of sha fr "[]"] by simp
  then have "?w \<noteq> []" using assms(3) by auto
  have "list_all (\<lambda>(plan, estimated, cap, decision, now). 0 \<le> now) (map request_of ?w)"
    unfolding reqs by (rule assms(4))
  then have "\<forall>e \<in> set ?w. 0 \<le> ce_recorded_at e" by (auto simp: list_all_iff request_of_def)
  moreover have "collision_free sha fr" using assms(1,2) by (simp add: collision_free_def)
  ultimately have "book = ?w" if "cost_load sha fr book = Inr book" "ce_entry_hash (last book) = ce_entry_hash (last ?w)"
    using cost_ledger.head_binds [of sha fr 0 GENESIS_HASH book ?w] that chain assms(5,6) \<open>?w \<noteq> []\<close>
    by (simp add: cost_load_chain list_all_iff)
  with chain reqs show ?thesis by (simp add: cost_load_chain Let_def)
qed

text \<open>An example: two decisions, and a copy of the file with another estimate under the same hashes.\<close>

definition example_requests :: "cost_request list" where
  "example_requests = [(''plan-1'', 12, 50, ''APPROVED'', 3), (''plan-2'', 80, 50, ''REFUSED'', 4)]"

theorem cost_ledger_tamper_evident_witness:
  "let written = foldl (cost_step (\<lambda>t. t) number_text) [] example_requests;
       forged = butlast written @ [(last written)\<lparr>estimated_usd := 8\<rparr>]
   in length written = 2 \<and> cost_load (\<lambda>t. t) number_text written = Inr written
    \<and> cost_load (\<lambda>t. t) number_text forged \<noteq> Inr forged"
proof -
  let ?w = "foldl (cost_step (\<lambda>t. t) number_text) [] example_requests"
  let ?f = "butlast ?w @ [(last ?w)\<lparr>estimated_usd := 8\<rparr>]"
  have inj: "inj (\<lambda>t::string. t)" by simp
  have chain: "cost_chain (\<lambda>t. t) number_text 0 GENESIS_HASH ?w" by (rule cost_file.run_inv) simp
  have reqs: "map request_of ?w = example_requests"
    using cost_history_requests [of "\<lambda>t. t" number_text "[]"] by simp
  then have len: "length ?w = 2" by (metis example_requests_def length_map length_Cons list.size(3) numeral_2_eq_2)
  then obtain a b where w: "?w = [a, b]" by (metis (no_types) One_nat_def Suc_1 length_0_conv length_Suc_conv)
  then have ab: "ce_recorded_at a = 3" "ce_recorded_at b = 4" "estimated_usd b = 80"
    using reqs by (simp_all add: example_requests_def request_of_def)
  have times: "list_all (\<lambda>e. 0 \<le> ce_recorded_at e) ?f" by (simp add: w ab)
  from cost_ledger_tamper_evident [OF inj number_text_ok _ _ _ times, of example_requests]
  have "cost_load (\<lambda>t. t) number_text ?w = Inr ?w"
    "cost_load (\<lambda>t. t) number_text ?f = Inr ?f \<Longrightarrow> ?f = ?w"
    by (simp_all add: example_requests_def [of] Let_def w)
  moreover have "?f \<noteq> ?w"
  proof
    assume "?f = ?w"
    then have "b\<lparr>estimated_usd := 8\<rparr> = b" by (simp add: w)
    then have "estimated_usd (b\<lparr>estimated_usd := 8\<rparr>) = estimated_usd b" by (rule arg_cong)
    with ab show False by simp
  qed
  ultimately show ?thesis using len by (auto simp: Let_def)
qed

end
