(* ===== verification/AsciiJson.thy ===== *)
theory AsciiJson
  imports Snapshot
begin

text \<open>
  The canonical text \<open>services/readiness.py\<close> hashes: the JSON text of \<open>Snapshot\<close> with every character
  outside printable ASCII escaped, and the proof that it still determines the value.
\<close>

section \<open>Canonical JSON in ASCII\<close>

text \<open>\<open>json.dumps(value, sort_keys=True, separators=(",", ":"))\<close>, whose \<open>ensure_ascii\<close> escapes every
  character above the tilde; below it, \<open>render\<close> already escapes what JSON asks for.\<close>

definition ascii_esc :: "char \<Rightarrow> string" where
  "ascii_esc c =
     (if 127 \<le> (of_char c :: nat)
      then [back_ch, CHR ''u'', CHR ''0'', CHR ''0'', hex_char (of_char c div 16), hex_char (of_char c mod 16)]
      else [c])"

definition canonical_text :: "json \<Rightarrow> string" where
  "canonical_text j = concat (map ascii_esc (render (sort_json j)))"

section \<open>The ASCII text determines the value\<close>

text \<open>Texts in which a backslash begins an escape of JSON, and reading back what \<open>ascii_esc\<close> adds.\<close>

inductive escaped :: "string \<Rightarrow> bool" where
  escaped_Nil: "escaped []"
| escaped_plain: "c \<noteq> back_ch \<Longrightarrow> escaped s \<Longrightarrow> escaped (c # s)"
| escaped_short: "d \<noteq> CHR ''u'' \<Longrightarrow> (of_char d :: nat) < 127 \<Longrightarrow> escaped s \<Longrightarrow> escaped (back_ch # d # s)"
| escaped_code: "n < 32 \<Longrightarrow> escaped s \<Longrightarrow>
    escaped (back_ch # CHR ''u'' # CHR ''0'' # CHR ''0'' # hex_char (n div 16) # hex_char (n mod 16) # s)"

fun unesc :: "string \<Rightarrow> string" where
  "unesc [] = []"
| "unesc [c] = [c]"
| "unesc (c # d # s) =
     (if c \<noteq> back_ch then c # unesc (d # s)
      else if d \<noteq> CHR ''u'' then c # d # unesc s
      else (case s of
          a # b # x # y # r \<Rightarrow>
            (case (hex_val x, hex_val y) of
               (Some m, Some n) \<Rightarrow>
                 if 127 \<le> 16 * m + n then char_of (16 * m + n) # unesc r
                 else c # d # a # b # x # y # unesc r
             | _ \<Rightarrow> [])
        | _ \<Rightarrow> []))"

lemma unesc_plain [simp]: "c \<noteq> back_ch \<Longrightarrow> unesc (c # s) = c # unesc s"
  by (cases s) auto

lemma ascii_esc_simps [simp]:
  "ascii_esc back_ch = [back_ch]" "ascii_esc (CHR ''u'') = [CHR ''u'']" "ascii_esc (CHR ''0'') = [CHR ''0'']"
  by (simp_all add: ascii_esc_def)

lemma ascii_esc_hex [simp]: "n < 16 \<Longrightarrow> ascii_esc (hex_char n) = [hex_char n]"
  by (auto simp: ascii_esc_def hex_char_def digit_char_def)

lemma unesc_ascii: "escaped s \<Longrightarrow> unesc (concat (map ascii_esc s)) = s"
proof (induction rule: escaped.induct)
  case (escaped_plain c s)
  have "(of_char c :: nat) < 256" by (rule nat_of_char_less_256)
  then have "of_char c div 16 < (16::nat)" by (rule less_mult_imp_div_less [OF order.strict_trans2]) simp
  moreover have "16 * (of_char c div 16) + of_char c mod 16 = (of_char c :: nat)" by (rule mult_div_mod_eq)
  ultimately show ?case using escaped_plain by (cases "127 \<le> (of_char c :: nat)") (simp_all add: ascii_esc_def)
next
  case (escaped_short d s)
  then show ?case by (simp add: ascii_esc_def)
next
  case (escaped_code n s)
  then have "16 * (n div 16) + n mod 16 < 127" by simp
  with escaped_code show ?case by simp
qed simp

lemma escaped_append: "escaped s \<Longrightarrow> escaped t \<Longrightarrow> escaped (s @ t)"
  by (induction rule: escaped.induct) (auto intro: escaped.intros)

lemma escaped_char: "escaped (json_esc c)"
proof -
  have one: "c \<noteq> back_ch \<Longrightarrow> escaped [c]" by (intro escaped_plain escaped_Nil)
  have two: "d \<noteq> CHR ''u'' \<Longrightarrow> (of_char d :: nat) < 127 \<Longrightarrow> escaped [back_ch, d]" for d
    by (intro escaped_short escaped_Nil)
  have six: "(of_char c :: nat) < 32 \<Longrightarrow> escaped [back_ch, CHR ''u'', CHR ''0'', CHR ''0'',
      hex_char (of_char c div 16), hex_char (of_char c mod 16)]"
    by (intro escaped_code escaped_Nil)
  show ?thesis by (simp add: json_esc_def one two six)
qed

lemma escaped_list: "back_ch \<notin> set s \<Longrightarrow> escaped s"
  by (induction s) (auto intro: escaped.intros)

lemma escaped_str: "escaped (render_str s)"
proof -
  have "escaped (concat (map json_esc s))"
    by (induction s) (auto intro: escaped_append escaped_char escaped_Nil)
  then show ?thesis unfolding render_str_def
    by (intro escaped_plain escaped_append) (auto intro: escaped_list)
qed

lemma escaped_num: "list_all num_char t \<Longrightarrow> escaped t"
  by (rule escaped_list) (auto simp: list_all_iff num_char_def is_digit_def)

lemma escaped_render:
  "canonical j \<Longrightarrow> escaped (render j)"
  "list_all canonical xs \<Longrightarrow> escaped (render_elems xs)"
  "list_all (\<lambda>(k, v). canonical v) kvs \<Longrightarrow> escaped (render_items kvs)"
  by (induction j and xs and kvs rule: render_render_elems_render_items.induct)
    (auto simp: canonical.simps intro!: escaped_append escaped_plain escaped_Nil escaped_str intro: escaped_num)

lemma canonical_text_inj:
  assumes "canonical i" and "canonical j" and "canonical_text i = canonical_text j"
  shows "i = j"
proof -
  have "concat (map ascii_esc (render i)) = concat (map ascii_esc (render j))"
    using assms(3) unfolding canonical_text_def sort_json_canonical [OF assms(1)] sort_json_canonical [OF assms(2)] .
  then have "render i = render j"
    using unesc_ascii [OF escaped_render(1) [OF assms(1)]] unesc_ascii [OF escaped_render(1) [OF assms(2)]] by metis
  then show ?thesis using assms by (simp add: render_inj)
qed
end
