(* ===== verification/Contracts.thy ===== *)
theory Contracts
  imports PyText PyTime IsoText
begin

text \<open>
  Explicit ES futures contracts (\<open>domain/contracts.py\<close>): the normalisation of a symbol, which
  refuses continuous aliases, and the contract whose symbol must name its expiry.
\<close>

definition es_symbol :: "string \<Rightarrow> bool" where
  "es_symbol s \<longleftrightarrow> take 2 s = ''ES'' \<and> 4 \<le> length s \<and> length s \<le> 7 \<and> s ! 2 \<in> set ''HMUZ''
     \<and> list_all is_digit (drop 3 s)"

definition normalize_explicit_es_symbol :: "string \<Rightarrow> string result" where
  "normalize_explicit_es_symbol s =
     (let n = upper (strip s) in
      if n \<in> set [''ES'', ''/ES'', ''ESMAIN'', ''ES-MAIN'', ''ES1!'', ''ES.C.0''] \<or> contains ''MAIN'' n
        then Inl (ValueError ''continuous/main ES contracts are forbidden'')
      else if \<not> es_symbol n
        then Inl (ValueError ''ES symbol must be an explicit quarterly contract, for example ESU6'')
      else Inr n)"

definition month_by_code :: "char \<Rightarrow> int option" where
  "month_by_code c = map_of [(CHR ''H'', 3), (CHR ''M'', 6), (CHR ''U'', 9), (CHR ''Z'', 12)] c"

record es_contract =
  es_contract_symbol :: string
  es_expiry :: pydate

definition mk_es_contract :: "es_contract \<Rightarrow> es_contract result" where
  "mk_es_contract c =
     res_bind (normalize_explicit_es_symbol (es_contract_symbol c)) (\<lambda>n.
       if Some (fst (snd (ymd (es_expiry c)))) \<noteq> month_by_code (n ! 2)
       then Inl (ValueError ''ES symbol month code does not match the explicit expiry date'')
       else if \<not> ends_with (drop 3 n) (show_int (fst (ymd (es_expiry c))))
       then Inl (ValueError ''ES symbol year does not match the explicit expiry date'')
       else Inr (c\<lparr>es_contract_symbol := n\<rparr>))"

section \<open>Properties\<close>

lemma normalize_Inr: "normalize_explicit_es_symbol s = Inr n \<Longrightarrow> es_symbol n"
  by (auto simp: normalize_explicit_es_symbol_def Let_def split: if_splits)

lemma es_symbol_shape:
  assumes "es_symbol n"
  obtains code digits where "n = ''ES'' @ code # digits" and "code \<in> set ''HMUZ''"
    and "list_all is_digit digits" and "digits \<noteq> []"
proof -
  obtain a b c ds where n: "n = a # b # c # ds"
    using assms by (cases n; cases "tl n"; cases "tl (tl n)") (auto simp: es_symbol_def)
  show thesis by (rule that [of c ds]) (use assms n in \<open>auto simp: es_symbol_def\<close>)
qed

text \<open>A contract's symbol names its expiry: whatever text it was made from, it is \<open>ES\<close>, the code of the
  expiry's quarterly month and a suffix of its year in digits, and never a continuous alias.\<close>

theorem es_contract_names_expiry:
  assumes "mk_es_contract c = Inr c'"
  shows "es_expiry c' = es_expiry c
    \<and> (\<exists>code digits. es_contract_symbol c' = ''ES'' @ code # digits \<and> digits \<noteq> [] \<and> list_all is_digit digits
         \<and> month_by_code code = Some (fst (snd (ymd (es_expiry c))))
         \<and> ends_with digits (show_int (fst (ymd (es_expiry c)))))
    \<and> es_contract_symbol c' \<notin> set [''ES'', ''ESMAIN'', ''ES-MAIN'', ''ES1!'', ''ES.C.0'']"
proof -
  obtain n where n: "normalize_explicit_es_symbol (es_contract_symbol c) = Inr n"
    "Some (fst (snd (ymd (es_expiry c)))) = month_by_code (n ! 2)"
    "ends_with (drop 3 n) (show_int (fst (ymd (es_expiry c))))" "c' = c\<lparr>es_contract_symbol := n\<rparr>"
    using assms by (auto simp: mk_es_contract_def split: if_splits)
  obtain code digits where s: "n = ''ES'' @ code # digits" "list_all is_digit digits" "digits \<noteq> []"
    by (rule es_symbol_shape [OF normalize_Inr [OF n(1)]])
  have "n \<notin> set [''ES'', ''ESMAIN'', ''ES-MAIN'', ''ES1!'', ''ES.C.0'']"
    using n(1) by (auto simp: normalize_explicit_es_symbol_def Let_def split: if_splits)
  with n s show ?thesis by auto
qed

end
