(* ===== verification/Readiness.thy ===== *)
theory Readiness
  imports AsciiJson HashChain Machine Contracts "HOL-Library.Countable"
begin

text \<open>
  Readiness (\<open>domain/readiness.py\<close>, \<open>services/readiness.py\<close>): external
  evidence and its manifest, the hash-chained ledger of shadow sessions and the gate over both.
  What pydantic dumps of a manifest or a session is the parameter \<open>dump\<close>; a ledger line decodes to
  an entry or fails validation.  The date of an instant in New York is the parameter \<open>et_date\<close>.
\<close>

section \<open>External evidence\<close>

datatype evidence_requirement =
    WEBULL_ACCOUNT_ENTITLEMENT | LICENSED_MARKET_DATA_COVERAGE | POINT_IN_TIME_TIMESTAMP_SEMANTICS
  | EXPIRED_SPXW_NBBO_HISTORY | LIVE_EVENT_SOURCE_COVERAGE | PRODUCTION_SECURITY_AND_RECOVERY
  | UNTOUCHED_HOLDOUT_APPROVAL

fun requirement_str :: "evidence_requirement \<Rightarrow> string" where
  "requirement_str WEBULL_ACCOUNT_ENTITLEMENT = ''WEBULL_ACCOUNT_ENTITLEMENT''"
| "requirement_str LICENSED_MARKET_DATA_COVERAGE = ''LICENSED_MARKET_DATA_COVERAGE''"
| "requirement_str POINT_IN_TIME_TIMESTAMP_SEMANTICS = ''POINT_IN_TIME_TIMESTAMP_SEMANTICS''"
| "requirement_str EXPIRED_SPXW_NBBO_HISTORY = ''EXPIRED_SPXW_NBBO_HISTORY''"
| "requirement_str LIVE_EVENT_SOURCE_COVERAGE = ''LIVE_EVENT_SOURCE_COVERAGE''"
| "requirement_str PRODUCTION_SECURITY_AND_RECOVERY = ''PRODUCTION_SECURITY_AND_RECOVERY''"
| "requirement_str UNTOUCHED_HOLDOUT_APPROVAL = ''UNTOUCHED_HOLDOUT_APPROVAL''"

definition REQUIRED_EXTERNAL_EVIDENCE :: "evidence_requirement list" where
  "REQUIRED_EXTERNAL_EVIDENCE =
     [WEBULL_ACCOUNT_ENTITLEMENT, LICENSED_MARKET_DATA_COVERAGE, POINT_IN_TIME_TIMESTAMP_SEMANTICS,
      EXPIRED_SPXW_NBBO_HISTORY, LIVE_EVENT_SOURCE_COVERAGE, PRODUCTION_SECURITY_AND_RECOVERY,
      UNTOUCHED_HOLDOUT_APPROVAL]"

datatype evidence_status = EV_UNVERIFIED | EV_VERIFIED | EV_FAILED

fun evidence_status_str :: "evidence_status \<Rightarrow> string" where
  "evidence_status_str EV_UNVERIFIED = ''UNVERIFIED''"
| "evidence_status_str EV_VERIFIED = ''VERIFIED''"
| "evidence_status_str EV_FAILED = ''FAILED''"

datatype evidence_authority =
    AUTHORIZED_PROVIDER | INDEPENDENT_LICENSEE | INFRASTRUCTURE_CONTROL | APPROVAL_AUTHORITY
  | LOCAL_SIMULATION

fun authority_str :: "evidence_authority \<Rightarrow> string" where
  "authority_str AUTHORIZED_PROVIDER = ''AUTHORIZED_PROVIDER''"
| "authority_str INDEPENDENT_LICENSEE = ''INDEPENDENT_LICENSEE''"
| "authority_str INFRASTRUCTURE_CONTROL = ''INFRASTRUCTURE_CONTROL''"
| "authority_str APPROVAL_AUTHORITY = ''APPROVAL_AUTHORITY''"
| "authority_str LOCAL_SIMULATION = ''LOCAL_SIMULATION''"

fun allowed_authorities :: "evidence_requirement \<Rightarrow> evidence_authority list" where
  "allowed_authorities WEBULL_ACCOUNT_ENTITLEMENT = [AUTHORIZED_PROVIDER]"
| "allowed_authorities LICENSED_MARKET_DATA_COVERAGE = [INDEPENDENT_LICENSEE]"
| "allowed_authorities POINT_IN_TIME_TIMESTAMP_SEMANTICS = [AUTHORIZED_PROVIDER, INDEPENDENT_LICENSEE]"
| "allowed_authorities EXPIRED_SPXW_NBBO_HISTORY = [INDEPENDENT_LICENSEE]"
| "allowed_authorities LIVE_EVENT_SOURCE_COVERAGE = [INDEPENDENT_LICENSEE]"
| "allowed_authorities PRODUCTION_SECURITY_AND_RECOVERY = [INFRASTRUCTURE_CONTROL]"
| "allowed_authorities UNTOUCHED_HOLDOUT_APPROVAL = [APPROVAL_AUTHORITY]"

record 't readiness_evidence =
  requirement :: evidence_requirement
  re_status :: evidence_status
  authority :: evidence_authority
  re_issuer :: "string option"
  re_observed_at :: "'t option"
  re_expires_at :: "'t option"
  artifact_sha256 :: "string option"
  re_review_id :: "string option"
  re_scope :: "string option"
  redactions_confirmed :: bool

type_synonym evidence = "instant readiness_evidence"

text \<open>\<open>^sha256:[0-9a-f]{64}$\<close> and the length bounds of the optional fields.\<close>

definition sha256_text :: "string \<Rightarrow> bool" where
  "sha256_text s \<longleftrightarrow> starts_with ''sha256:'' s \<and> length s = 71
     \<and> list_all (\<lambda>c. is_digit c \<or> c \<in> set ''abcdef'') (drop 7 s)"

definition opt_ok :: "('a \<Rightarrow> bool) \<Rightarrow> 'a option \<Rightarrow> bool" where
  "opt_ok P v = (case v of None \<Rightarrow> True | Some x \<Rightarrow> P x)"

definition field_error :: py_error where
  "field_error = ValueError ''field constraint violated''"

fun comma_join :: "string list \<Rightarrow> string" where
  "comma_join [] = []"
| "comma_join [x] = x"
| "comma_join (x # y # ys) = x @ '','' @ comma_join (y # ys)"

text \<open>The names of missing fields come sorted.\<close>

definition missing_fields :: "evidence \<Rightarrow> string list" where
  "missing_fields e =
     (if artifact_sha256 e = None then [''artifact_sha256''] else [])
     @ (if re_expires_at e = None then [''expires_at''] else [])
     @ (if re_issuer e = None then [''issuer''] else [])
     @ (if re_observed_at e = None then [''observed_at''] else [])
     @ (if re_review_id e = None then [''review_id''] else [])
     @ (if re_scope e = None then [''scope''] else [])"

definition check_verified :: "evidence \<Rightarrow> evidence result" where
  "check_verified e =
     (if re_status e \<noteq> EV_VERIFIED then Inr e
      else if authority e = LOCAL_SIMULATION
        then Inl (ValueError ''VERIFIED evidence cannot be based on LOCAL_SIMULATION'')
      else if authority e \<notin> set (allowed_authorities (requirement e))
        then Inl (ValueError (authority_str (authority e) @ '' cannot verify '' @ requirement_str (requirement e)))
      else if missing_fields e \<noteq> []
        then Inl (ValueError (''VERIFIED evidence is missing: '' @ comma_join (missing_fields e)))
      else if \<not> redactions_confirmed e
        then Inl (ValueError ''VERIFIED evidence must confirm redactions'')
      else (case (re_observed_at e, re_expires_at e) of
          (Some obs, Some expires) \<Rightarrow>
            if expires \<le> obs then Inl (ValueError ''evidence expiry must follow observation time'') else Inr e
        | _ \<Rightarrow> Inl (AssertionError [])))"

definition mk_readiness_evidence :: "datetime readiness_evidence \<Rightarrow> evidence result" where
  "mk_readiness_evidence e =
     (if \<not> (opt_ok (\<lambda>s. length s \<le> 120) (re_issuer e) \<and> opt_ok sha256_text (artifact_sha256 e)
            \<and> opt_ok (\<lambda>s. length s \<le> 120) (re_review_id e) \<and> opt_ok (\<lambda>s. length s \<le> 500) (re_scope e))
      then Inl field_error
      else res_bind (opt_utc (ValueError ''evidence timestamps must be timezone-aware'') (re_observed_at e)) (\<lambda>obs.
           res_bind (opt_utc (ValueError ''evidence timestamps must be timezone-aware'') (re_expires_at e)) (\<lambda>expires.
             check_verified \<lparr>requirement = requirement e, re_status = re_status e, authority = authority e,
               re_issuer = re_issuer e, re_observed_at = obs, re_expires_at = expires,
               artifact_sha256 = artifact_sha256 e, re_review_id = re_review_id e, re_scope = re_scope e,
               redactions_confirmed = redactions_confirmed e\<rparr>)))"

record 't readiness_manifest =
  generated_at :: 't
  rm_environment :: string
  rm_evidence :: "evidence list"

type_synonym manifest = "instant readiness_manifest"

definition mk_readiness_manifest :: "datetime readiness_manifest \<Rightarrow> manifest result" where
  "mk_readiness_manifest m =
     (if rm_environment m = [] \<or> 80 < length (rm_environment m) then Inl field_error
      else res_bind (to_utc (ValueError ''generated_at must be timezone-aware'') (generated_at m)) (\<lambda>t.
        if \<not> distinct (map requirement (rm_evidence m))
          then Inl (ValueError ''readiness evidence requirements must be unique'')
        else if list_ex (\<lambda>e. case re_observed_at e of None \<Rightarrow> False | Some o' \<Rightarrow> o' > t) (rm_evidence m)
          then Inl (ValueError ''manifest cannot predate its evidence'')
        else Inr \<lparr>generated_at = t, rm_environment = rm_environment m, rm_evidence = rm_evidence m\<rparr>))"

definition unverified_evidence :: "evidence_requirement \<Rightarrow> evidence" where
  "unverified_evidence r = \<lparr>requirement = r, re_status = EV_UNVERIFIED, authority = LOCAL_SIMULATION,
     re_issuer = None, re_observed_at = None, re_expires_at = None, artifact_sha256 = None,
     re_review_id = None, re_scope = None, redactions_confirmed = False\<rparr>"

definition unverified_template :: "datetime \<Rightarrow> string \<Rightarrow> manifest result" where
  "unverified_template tm env = mk_readiness_manifest \<lparr>generated_at = tm, rm_environment = env,
     rm_evidence = map unverified_evidence REQUIRED_EXTERNAL_EVIDENCE\<rparr>"

definition manifest_digest :: "(string \<Rightarrow> string) \<Rightarrow> (manifest \<Rightarrow> json) \<Rightarrow> manifest \<Rightarrow> string" where
  "manifest_digest sha dump m = ''sha256:'' @ sha (canonical_text (dump m))"

section \<open>Shadow sessions\<close>

definition id_char :: "char \<Rightarrow> bool" where
  "id_char c \<longleftrightarrow> (let n = of_char c :: nat in is_digit c \<or> (65 \<le> n \<and> n \<le> 90) \<or> (97 \<le> n \<and> n \<le> 122))"

text \<open>\<open>^[A-Za-z0-9][A-Za-z0-9._:-]*$\<close> with bounds on the length.\<close>

definition id_text :: "nat \<Rightarrow> nat \<Rightarrow> string \<Rightarrow> bool" where
  "id_text lo hi s \<longleftrightarrow> s \<noteq> [] \<and> lo \<le> length s \<and> length s \<le> hi \<and> id_char (hd s)
     \<and> list_all (\<lambda>c. id_char c \<or> c \<in> set ''._:-'') (tl s)"

definition text_within :: "nat \<Rightarrow> string \<Rightarrow> bool" where
  "text_within n s \<longleftrightarrow> s \<noteq> [] \<and> length s \<le> n"

definition count_ok :: "int \<Rightarrow> bool" where
  "count_ok n \<longleftrightarrow> 0 \<le> n \<and> n \<le> 100000"

record 't shadow_session =
  session_id :: string
  trading_date :: pydate
  started_at :: 't
  ended_at :: 't
  ss_environment :: string
  readiness_manifest_sha256 :: string
  capability_report_ids :: "string list"
  exact_es_contract :: "string option"
  code_version :: string
  ss_rules_version :: string
  ss_model_version :: string
  audit_export_sha256 :: string
  operator_review_id :: string
  decision_count :: int
  no_trade_count :: int
  wait_count :: int
  audit_integrity_passed :: bool
  source_degradation_drill_passed :: bool
  recovery_drill_passed :: bool
  source_degradation_evidence_sha256 :: "string option"
  recovery_evidence_sha256 :: "string option"
  incident_ids :: "string list"

type_synonym session = "instant shadow_session"

definition session_fields_ok :: "datetime shadow_session \<Rightarrow> bool" where
  "session_fields_ok s \<longleftrightarrow>
     id_text 3 120 (session_id s) \<and> text_within 80 (ss_environment s)
   \<and> sha256_text (readiness_manifest_sha256 s)
   \<and> length (capability_report_ids s) \<le> 20 \<and> list_all (id_text 1 120) (capability_report_ids s)
   \<and> text_within 120 (code_version s) \<and> text_within 120 (ss_rules_version s)
   \<and> text_within 120 (ss_model_version s) \<and> sha256_text (audit_export_sha256 s)
   \<and> text_within 120 (operator_review_id s)
   \<and> count_ok (decision_count s) \<and> count_ok (no_trade_count s) \<and> count_ok (wait_count s)
   \<and> opt_ok sha256_text (source_degradation_evidence_sha256 s)
   \<and> opt_ok sha256_text (recovery_evidence_sha256 s)
   \<and> length (incident_ids s) \<le> 100 \<and> list_all (id_text 1 120) (incident_ids s)"

definition check_session :: "(instant \<Rightarrow> pydate) \<Rightarrow> session \<Rightarrow> session result" where
  "check_session et_date s =
     (if ended_at s \<le> started_at s then Inl (ValueError ''shadow session must end after it starts'')
      else if trading_date s \<noteq> et_date (started_at s)
        then Inl (ValueError ''trading_date must match the session start date in America/New_York'')
      else if no_trade_count s + wait_count s \<noteq> decision_count s
        then Inl (ValueError ''every shadow decision must be NO_TRADE or WAIT'')
      else if source_degradation_drill_passed s \<and> source_degradation_evidence_sha256 s = None
        then Inl (ValueError ''a passing source-degradation drill requires evidence'')
      else if recovery_drill_passed s \<and> recovery_evidence_sha256 s = None
        then Inl (ValueError ''a passing recovery drill requires evidence'')
      else Inr s)"

definition mk_shadow_session :: "(instant \<Rightarrow> pydate) \<Rightarrow> datetime shadow_session \<Rightarrow> session result" where
  "mk_shadow_session et_date s =
     (if \<not> session_fields_ok s then Inl field_error
      else res_bind (to_utc (ValueError ''shadow session timestamps must be timezone-aware'') (started_at s)) (\<lambda>t0.
           res_bind (to_utc (ValueError ''shadow session timestamps must be timezone-aware'') (ended_at s)) (\<lambda>t1.
           res_bind (case exact_es_contract s of None \<Rightarrow> Inr None
                     | Some c \<Rightarrow> res_bind (normalize_explicit_es_symbol c) (\<lambda>n. Inr (Some n))) (\<lambda>es.
             check_session et_date
               \<lparr>session_id = session_id s, trading_date = trading_date s, started_at = t0, ended_at = t1,
                ss_environment = ss_environment s, readiness_manifest_sha256 = readiness_manifest_sha256 s,
                capability_report_ids = capability_report_ids s, exact_es_contract = es,
                code_version = code_version s, ss_rules_version = ss_rules_version s,
                ss_model_version = ss_model_version s, audit_export_sha256 = audit_export_sha256 s,
                operator_review_id = operator_review_id s, decision_count = decision_count s,
                no_trade_count = no_trade_count s, wait_count = wait_count s,
                audit_integrity_passed = audit_integrity_passed s,
                source_degradation_drill_passed = source_degradation_drill_passed s,
                recovery_drill_passed = recovery_drill_passed s,
                source_degradation_evidence_sha256 = source_degradation_evidence_sha256 s,
                recovery_evidence_sha256 = recovery_evidence_sha256 s,
                incident_ids = incident_ids s\<rparr>))))"

section \<open>The shadow ledger\<close>

record shadow_entry =
  sl_sequence :: int
  sl_previous_hash :: string
  sl_session :: session
  sl_entry_hash :: string

definition GENESIS :: string where "GENESIS = ''GENESIS''"





definition parse_lines :: "py_error \<Rightarrow> shadow_entry option list \<Rightarrow> shadow_entry list result" where
  "parse_lines e ls = res_map (\<lambda>l. case l of None \<Rightarrow> Inl e | Some x \<Rightarrow> Inr x) ls"



section \<open>The gate\<close>

record shadow_report =
  chain_valid :: bool
  ledger_head_sha256 :: "string option"
  recorded_sessions :: int
  qualifying_sessions :: int
  qualifying_trading_dates :: int
  rejected_time_window_sessions :: int
  degradation_drill_observed :: bool
  recovery_drill_observed :: bool
  shadow_blockers :: "string list"

definition wrong_version :: "string option \<Rightarrow> session \<Rightarrow> bool" where
  "wrong_version expected s = (case expected of None \<Rightarrow> False | Some v \<Rightarrow> code_version s \<noteq> v)"

definition qualifies :: "instant \<Rightarrow> instant \<Rightarrow> string option \<Rightarrow> session \<Rightarrow> bool" where
  "qualifies generated now expected s \<longleftrightarrow>
     started_at s \<ge> generated \<and> ended_at s \<le> now \<and> \<not> wrong_version expected s
   \<and> audit_integrity_passed s \<and> exact_es_contract s \<noteq> None \<and> capability_report_ids s \<noteq> []
   \<and> decision_count s > 0"

definition evaluate_shadow_evidence ::
  "shadow_entry list \<Rightarrow> string \<Rightarrow> datetime \<Rightarrow> datetime \<Rightarrow> string option \<Rightarrow> int \<Rightarrow> int \<Rightarrow> shadow_report result" where
  "evaluate_shadow_evidence entries digest generated_tm evaluated_tm expected min_sessions min_dates =
     (if min_sessions \<le> 0 \<or> min_dates \<le> 0
      then Inl (ValueError ''shadow evidence thresholds must be positive'')
      else res_bind (to_utc (ValueError ''manifest_generated_at must be timezone-aware'') generated_tm) (\<lambda>generated.
           res_bind (to_utc (ValueError ''evaluated_at must be timezone-aware'') evaluated_tm) (\<lambda>now.
             let matching = filter (\<lambda>s. readiness_manifest_sha256 s = digest) (map sl_session entries);
                 outside = filter (\<lambda>s. started_at s < generated \<or> ended_at s > now) matching;
                 mismatched = filter (wrong_version expected) matching;
                 qualifying = filter (qualifies generated now expected) matching;
                 dates = set (map trading_date qualifying);
                 degradation = list_ex source_degradation_drill_passed qualifying;
                 recovery = list_ex recovery_drill_passed qualifying
             in Inr \<lparr>chain_valid = True,
                  ledger_head_sha256 = (if entries = [] then None else Some (sl_entry_hash (last entries))),
                  recorded_sessions = int (length entries), qualifying_sessions = int (length qualifying),
                  qualifying_trading_dates = int (card dates),
                  rejected_time_window_sessions = int (length outside),
                  degradation_drill_observed = degradation, recovery_drill_observed = recovery,
                  shadow_blockers =
                    (if outside \<noteq> [] then [''SESSION_TIME_WINDOW''] else [])
                    @ (if mismatched \<noteq> [] then [''CODE_VERSION_MISMATCH''] else [])
                    @ (if int (length qualifying) < min_sessions then [''SHADOW_SESSION_COUNT''] else [])
                    @ (if int (card dates) < min_dates then [''SHADOW_TRADING_DATE_COUNT''] else [])
                    @ (if \<not> degradation then [''SOURCE_DEGRADATION_DRILL''] else [])
                    @ (if \<not> recovery then [''RECOVERY_DRILL''] else [])\<rparr>)))"

record readiness_report =
  rr_evaluated_at :: instant
  manifest_sha256 :: string
  evidence_complete :: bool
  shadow_evidence :: shadow_report
  shadow_admission_ready :: bool
  production_ready :: bool
  rr_execution_enabled :: bool
  rr_blockers :: "string list"

definition evidence_for :: "manifest \<Rightarrow> evidence_requirement \<Rightarrow> evidence option" where
  "evidence_for m r = map_of (fold (\<lambda>e. AList.update (requirement e) e) (rm_evidence m) []) r"

definition evidence_blocker :: "manifest \<Rightarrow> instant \<Rightarrow> evidence_requirement \<Rightarrow> string list" where
  "evidence_blocker m now r =
     (case evidence_for m r of
        None \<Rightarrow> [''EVIDENCE_MISSING:'' @ requirement_str r]
      | Some e \<Rightarrow>
          if re_status e \<noteq> EV_VERIFIED
            then [''EVIDENCE_'' @ evidence_status_str (re_status e) @ '':'' @ requirement_str r]
          else if (case re_expires_at e of None \<Rightarrow> True | Some x \<Rightarrow> x \<le> now)
            then [''EVIDENCE_EXPIRED:'' @ requirement_str r]
          else [])"

definition evaluate_readiness ::
  "(string \<Rightarrow> string) \<Rightarrow> (manifest \<Rightarrow> json) \<Rightarrow> manifest \<Rightarrow> shadow_entry list \<Rightarrow> datetime \<Rightarrow> string option
     \<Rightarrow> int \<Rightarrow> int \<Rightarrow> readiness_report result" where
  "evaluate_readiness sha dump m entries evaluated_tm expected min_sessions min_dates =
     res_bind (to_utc (ValueError ''evaluated_at must be timezone-aware'') evaluated_tm) (\<lambda>now.
       let first = (if generated_at m > now then [''MANIFEST_GENERATED_IN_FUTURE''] else [])
                   @ concat (map (evidence_blocker m now) REQUIRED_EXTERNAL_EVIDENCE);
           digest = manifest_digest sha dump m
       in res_bind (evaluate_shadow_evidence entries digest (Aware (generated_at m)) (Aware now) expected
                      min_sessions min_dates) (\<lambda>shadow.
            let blockers = first @ map (\<lambda>b. ''SHADOW:'' @ b) (shadow_blockers shadow)
            in Inr \<lparr>rr_evaluated_at = now, manifest_sha256 = digest,
                 evidence_complete = (\<not> list_ex (\<lambda>b. starts_with ''EVIDENCE_'' b \<or> starts_with ''MANIFEST_'' b) blockers),
                 shadow_evidence = shadow, shadow_admission_ready = (blockers = []),
                 production_ready = False, rr_execution_enabled = False, rr_blockers = blockers\<rparr>))"

section \<open>The ledger is a hash chain\<close>









lemma parse_lines_Some [simp]: "parse_lines e (map Some es) = Inr es"
  by (induction es) (auto simp: parse_lines_def)

lemma parse_lines_Inr: "parse_lines e ls = Inr es \<Longrightarrow> ls = map Some es"
  by (induction ls arbitrary: es) (auto simp: parse_lines_def split: option.splits sum.splits)

section \<open>The file as a machine\<close>













section \<open>What readiness needs\<close>

lemma evidence_for_mem: "evidence_for m r = Some e \<Longrightarrow> e \<in> set (rm_evidence m) \<and> requirement e = r"
proof -
  have "map_of (fold (\<lambda>e. AList.update (requirement e) e) es []) r = Some e \<Longrightarrow> e \<in> set es \<and> requirement e = r" for es
    by (induction es rule: rev_induct) (auto split: if_splits)
  then show "evidence_for m r = Some e \<Longrightarrow> e \<in> set (rm_evidence m) \<and> requirement e = r"
    by (simp add: evidence_for_def)
qed

lemma all_required: "r \<in> set REQUIRED_EXTERNAL_EVIDENCE"
  by (cases r) (simp_all add: REQUIRED_EXTERNAL_EVIDENCE_def)

definition evidence_current :: "manifest \<Rightarrow> instant \<Rightarrow> evidence_requirement \<Rightarrow> bool" where
  "evidence_current m now r \<longleftrightarrow> (\<exists>e x. evidence_for m r = Some e \<and> re_status e = EV_VERIFIED
     \<and> re_expires_at e = Some x \<and> now < x)"

lemma evidence_blocker_Nil: "evidence_blocker m now r = [] \<longleftrightarrow> evidence_current m now r"
  by (auto simp: evidence_blocker_def evidence_current_def split: option.splits)

lemma evidence_blocker_prefix: "b \<in> set (evidence_blocker m now r) \<Longrightarrow> starts_with ''EVIDENCE_'' b"
  by (auto simp: evidence_blocker_def starts_with_def split: option.splits if_splits)

lemma no_marked:
  assumes "A = F \<union> g ` S" and "\<And>b. b \<in> F \<Longrightarrow> P b" and "\<And>b. \<not> P (g b)"
  shows "(\<not> (\<exists>b \<in> A. P b)) \<longleftrightarrow> F = {}"
  using assms by auto

lemma shadow_blockers_Nil:
  assumes "evaluate_shadow_evidence entries digest (Aware generated) (Aware now) expected min_sessions min_dates = Inr r"
  shows "shadow_blockers r = [] \<longleftrightarrow>
    (let own = filter (\<lambda>s. readiness_manifest_sha256 s = digest) (map sl_session entries);
         good = filter (qualifies generated now expected) own in
      list_all (\<lambda>s. generated \<le> started_at s \<and> ended_at s \<le> now \<and> \<not> wrong_version expected s) own
    \<and> min_sessions \<le> int (length good) \<and> min_dates \<le> int (card (set (map trading_date good)))
    \<and> list_ex source_degradation_drill_passed good \<and> list_ex recovery_drill_passed good)"
proof -
  have nil: "((if P then [x] else []) @ ys = []) \<longleftrightarrow> \<not> P \<and> ys = []" "((if P then [x] else []) = []) \<longleftrightarrow> \<not> P"
    for P and x :: string and ys by auto
  have own: "list_all (\<lambda>s. generated \<le> started_at s \<and> ended_at s \<le> now \<and> \<not> wrong_version expected s) xs
      \<longleftrightarrow> filter (\<lambda>s. started_at s < generated \<or> now < ended_at s) xs = [] \<and> filter (wrong_version expected) xs = []" for xs
    by (auto simp: list_all_iff filter_empty_conv not_less)
  have pos: "\<not> (min_sessions \<le> 0 \<or> min_dates \<le> 0)"
    using assms by (auto simp: evaluate_shadow_evidence_def)
  show ?thesis
    using assms unfolding evaluate_shadow_evidence_def if_not_P [OF pos] to_utc.simps res_bind_simps Let_def sum.inject own
    by (elim subst) (simp only: shadow_report.simps nil not_less not_not de_Morgan_disj conj_assoc)
qed

lemma readiness_gate_conditions:
  assumes "evaluate_readiness sha dump m entries (Aware now) expected min_sessions min_dates = Inr rep"
  shows "let own = filter (\<lambda>s. readiness_manifest_sha256 s = manifest_digest sha dump m) (map sl_session entries);
             good = filter (qualifies (generated_at m) now expected) own in
      (evidence_complete rep \<longleftrightarrow> generated_at m \<le> now \<and> (\<forall>r. evidence_current m now r))
    \<and> (shadow_admission_ready rep \<longleftrightarrow> evidence_complete rep
        \<and> list_all (\<lambda>s. generated_at m \<le> started_at s \<and> ended_at s \<le> now \<and> \<not> wrong_version expected s) own
        \<and> min_sessions \<le> int (length good) \<and> min_dates \<le> int (card (set (map trading_date good)))
        \<and> list_ex source_degradation_drill_passed good \<and> list_ex recovery_drill_passed good)
    \<and> \<not> production_ready rep \<and> \<not> rr_execution_enabled rep"
proof -
  let ?own = "filter (\<lambda>s. readiness_manifest_sha256 s = manifest_digest sha dump m) (map sl_session entries)"
  let ?good = "filter (qualifies (generated_at m) now expected) ?own"
  let ?first = "(if generated_at m > now then [''MANIFEST_GENERATED_IN_FUTURE''] else [])
    @ concat (map (evidence_blocker m now) REQUIRED_EXTERNAL_EVIDENCE)"
  from assms obtain shadow where shadow: "evaluate_shadow_evidence entries (manifest_digest sha dump m)
      (Aware (generated_at m)) (Aware now) expected min_sessions min_dates = Inr shadow"
    and rep: "rr_blockers rep = ?first @ map (\<lambda>b. ''SHADOW:'' @ b) (shadow_blockers shadow)"
    "shadow_admission_ready rep = (rr_blockers rep = [])"
    "evidence_complete rep = (\<not> list_ex (\<lambda>b. starts_with ''EVIDENCE_'' b \<or> starts_with ''MANIFEST_'' b) (rr_blockers rep))"
    "\<not> production_ready rep" "\<not> rr_execution_enabled rep"
    by (auto simp: evaluate_readiness_def Let_def)
  have first: "?first = [] \<longleftrightarrow> generated_at m \<le> now \<and> (\<forall>r. evidence_current m now r)"
    using all_required by (auto simp: evidence_blocker_Nil)
  define fb where "fb = ?first"
  have named: "starts_with ''EVIDENCE_'' b \<or> starts_with ''MANIFEST_'' b" if "b \<in> set fb" for b
    using that evidence_blocker_prefix by (auto simp: fb_def starts_with_def split: if_splits)
  have other: "\<not> starts_with ''EVIDENCE_'' (''SHADOW:'' @ b)" "\<not> starts_with ''MANIFEST_'' (''SHADOW:'' @ b)" for b
    by (simp_all add: starts_with_def)
  have "set (rr_blockers rep) = set fb \<union> (\<lambda>b. ''SHADOW:'' @ b) ` set (shadow_blockers shadow)"
    unfolding rep(1) fb_def [symmetric] by simp
  then have "evidence_complete rep \<longleftrightarrow> set fb = {}"
    unfolding rep(3) list_ex_iff by (rule no_marked) (use named other in simp_all)
  then have complete: "evidence_complete rep \<longleftrightarrow> ?first = []" unfolding set_empty fb_def .
  have "shadow_blockers shadow = [] \<longleftrightarrow>
      list_all (\<lambda>s. generated_at m \<le> started_at s \<and> ended_at s \<le> now \<and> \<not> wrong_version expected s) ?own
    \<and> min_sessions \<le> int (length ?good) \<and> min_dates \<le> int (card (set (map trading_date ?good)))
    \<and> list_ex source_degradation_drill_passed ?good \<and> list_ex recovery_drill_passed ?good"
    by (rule shadow_blockers_Nil [OF shadow, unfolded Let_def])
  moreover have "shadow_admission_ready rep \<longleftrightarrow> ?first = [] \<and> shadow_blockers shadow = []"
    unfolding rep(2) rep(1) append_is_Nil_conv map_is_Nil_conv ..
  ultimately show ?thesis using complete first rep(4,5) unfolding Let_def by blast
qed

text \<open>C15. The readiness gate is exact: admission is granted exactly when the manifest is not of the
  future, every external requirement has verified evidence that has not expired, every recorded
  session for this manifest lies between its generation and the evaluation and ran the expected
  code, enough of them qualify on enough trading dates, and both drills were observed; the evidence
  is reported complete exactly on the first two conditions, and production and execution are
  never reported ready.\<close>

theorem readiness_gate_exact:
  assumes "evaluate_readiness sha dump m entries (Aware now) expected min_sessions min_dates = Inr rep"
  shows "let own = filter (\<lambda>s. readiness_manifest_sha256 s = manifest_digest sha dump m) (map sl_session entries);
             good = filter (qualifies (generated_at m) now expected) own in
      (evidence_complete rep \<longleftrightarrow> generated_at m \<le> now \<and> (\<forall>r. evidence_current m now r))
    \<and> (shadow_admission_ready rep \<longleftrightarrow> evidence_complete rep
        \<and> list_all (\<lambda>s. generated_at m \<le> started_at s \<and> ended_at s \<le> now \<and> \<not> wrong_version expected s) own
        \<and> min_sessions \<le> int (length good) \<and> min_dates \<le> int (card (set (map trading_date good)))
        \<and> list_ex source_degradation_drill_passed good \<and> list_ex recovery_drill_passed good)
    \<and> \<not> production_ready rep \<and> \<not> rr_execution_enabled rep"
  using assms by (rule readiness_gate_conditions)

section \<open>Examples\<close>





definition example_session :: "string \<Rightarrow> session" where
  "example_session i = \<lparr>session_id = i, trading_date = 1, started_at = 10, ended_at = 20, ss_environment = ''lab'',
     readiness_manifest_sha256 = ''sha256:null'', capability_report_ids = [''cap-1''],
     exact_es_contract = Some ''ESU6'', code_version = ''1'', ss_rules_version = ''r'', ss_model_version = ''m'',
     audit_export_sha256 = ''a'', operator_review_id = ''o'', decision_count = 2, no_trade_count = 1, wait_count = 1,
     audit_integrity_passed = True, source_degradation_drill_passed = True, recovery_drill_passed = True,
     source_degradation_evidence_sha256 = Some ''d'', recovery_evidence_sha256 = Some ''r'', incident_ids = []\<rparr>"

definition example_evidence :: "evidence_requirement \<Rightarrow> datetime readiness_evidence" where
  "example_evidence r = \<lparr>requirement = r, re_status = EV_VERIFIED, authority = hd (allowed_authorities r),
     re_issuer = Some ''issuer'', re_observed_at = Some (Aware 3), re_expires_at = Some (Aware 90),
     artifact_sha256 = Some (''sha256:'' @ replicate 64 (CHR ''a'')), re_review_id = Some ''review'',
     re_scope = Some ''scope'', redactions_confirmed = True\<rparr>"

definition verified_evidence :: "evidence_requirement \<Rightarrow> evidence" where
  "verified_evidence r = \<lparr>requirement = r, re_status = EV_VERIFIED, authority = hd (allowed_authorities r),
     re_issuer = Some ''issuer'', re_observed_at = Some 3, re_expires_at = Some 90,
     artifact_sha256 = Some (''sha256:'' @ replicate 64 (CHR ''a'')), re_review_id = Some ''review'',
     re_scope = Some ''scope'', redactions_confirmed = True\<rparr>"

definition example_manifest :: manifest where
  "example_manifest = \<lparr>generated_at = 5, rm_environment = ''lab'',
     rm_evidence = map verified_evidence REQUIRED_EXTERNAL_EVIDENCE\<rparr>"

definition example_entries :: "shadow_entry list" where
  "example_entries = [\<lparr>sl_sequence = 1, sl_previous_hash = GENESIS, sl_session = example_session ''s-1'',
     sl_entry_hash = ''h''\<rparr>]"

lemma example_evidence_valid: "mk_readiness_evidence (example_evidence r) = Inr (verified_evidence r)"
  by (cases r) (simp_all add: mk_readiness_evidence_def example_evidence_def verified_evidence_def opt_ok_def
      sha256_text_def starts_with_def check_verified_def missing_fields_def list_all_iff)

lemma example_manifest_valid:
  "res_map mk_readiness_evidence (map example_evidence REQUIRED_EXTERNAL_EVIDENCE) = Inr (rm_evidence example_manifest)"
  "mk_readiness_manifest \<lparr>generated_at = Aware 5, rm_environment = ''lab'',
     rm_evidence = map verified_evidence REQUIRED_EXTERNAL_EVIDENCE\<rparr> = Inr example_manifest"
proof -
  have "res_map mk_readiness_evidence (map example_evidence rs) = Inr (map verified_evidence rs)" for rs
    by (induction rs) (simp_all add: example_evidence_valid)
  then show "res_map mk_readiness_evidence (map example_evidence REQUIRED_EXTERNAL_EVIDENCE) = Inr (rm_evidence example_manifest)"
    by (simp add: example_manifest_def)
  have "map requirement (map verified_evidence rs) = rs" for rs
    by (induction rs) (simp_all add: verified_evidence_def)
  moreover have "distinct REQUIRED_EXTERNAL_EVIDENCE" by (simp add: REQUIRED_EXTERNAL_EVIDENCE_def)
  ultimately show "mk_readiness_manifest \<lparr>generated_at = Aware 5, rm_environment = ''lab'',
      rm_evidence = map verified_evidence REQUIRED_EXTERNAL_EVIDENCE\<rparr> = Inr example_manifest"
    by (simp add: mk_readiness_manifest_def example_manifest_def list_ex_iff verified_evidence_def del: map_map)
qed

lemma example_lookup: "evidence_for example_manifest r = Some (verified_evidence r)"
  by (cases r) (simp_all add: evidence_for_def example_manifest_def REQUIRED_EXTERNAL_EVIDENCE_def verified_evidence_def)

definition example_readiness :: "instant \<Rightarrow> readiness_report result" where
  "example_readiness now = evaluate_readiness (\<lambda>t. t) (\<lambda>m. JNull) example_manifest example_entries (Aware now)
     (Some ''1'') 1 1"

lemma example_readiness_returns: obtains rep where "example_readiness now = Inr rep"
  by (auto simp: example_readiness_def evaluate_readiness_def evaluate_shadow_evidence_def Let_def)

lemma example_own:
  "filter (\<lambda>s. readiness_manifest_sha256 s = manifest_digest (\<lambda>t. t) (\<lambda>m. JNull) example_manifest)
     (map sl_session example_entries) = [example_session ''s-1'']"
  by (simp add: example_entries_def example_session_def manifest_digest_def canonical_text_def ascii_esc_def)

theorem readiness_gate_exact_witness:
  "\<exists>rep. example_readiness 95 = Inr rep \<and> \<not> shadow_admission_ready rep \<and> \<not> evidence_complete rep"
proof -
  obtain rep where rep: "example_readiness 95 = Inr rep" by (rule example_readiness_returns)
  have "\<not> evidence_current example_manifest 95 WEBULL_ACCOUNT_ENTITLEMENT"
    by (simp add: evidence_current_def example_lookup verified_evidence_def)
  with readiness_gate_exact [OF rep [unfolded example_readiness_def], unfolded Let_def] rep
  show ?thesis by blast
qed

lemma manifest_follows_evidence:
  assumes "mk_readiness_manifest raw = Inr m" and "e \<in> set (rm_evidence m)" and "re_observed_at e = Some obs"
  shows "obs \<le> generated_at m"
proof -
  from assms(1) obtain x where "generated_at m = x"
    "\<not> list_ex (\<lambda>e. case re_observed_at e of None \<Rightarrow> False | Some o' \<Rightarrow> o' > x) (rm_evidence m)"
    by (auto simp: mk_readiness_manifest_def split: if_splits cong: option.case_cong)
  then show ?thesis using assms(2,3) by (auto simp: list_ex_iff not_less split: option.splits)
qed

lemma evidence_checked: "mk_readiness_evidence raw = Inr e \<Longrightarrow> check_verified e = Inr e"
proof -
  have "check_verified x = Inr e \<Longrightarrow> x = e" for x
    by (simp add: check_verified_def split: if_splits option.splits)
  then show "mk_readiness_evidence raw = Inr e \<Longrightarrow> check_verified e = Inr e"
    unfolding mk_readiness_evidence_def by (auto split: if_splits)
qed

text \<open>Readiness rests on external evidence: when admission is granted on a manifest whose parts
  passed validation, each requirement is covered by verified, redacted, unexpired evidence with an
  artifact, observed no later than the manifest, from an authority that may verify it, never from
  a local simulation.\<close>

theorem readiness_needs_external_evidence:
  assumes "evaluate_readiness sha dump m entries (Aware now) expected min_sessions min_dates = Inr rep"
    and "shadow_admission_ready rep"
    and "res_map mk_readiness_evidence raws = Inr (rm_evidence m)"
    and "mk_readiness_manifest raw = Inr m"
  shows "\<exists>e \<in> set (rm_evidence m). requirement e = r \<and> re_status e = EV_VERIFIED
    \<and> authority e \<in> set (allowed_authorities r) \<and> authority e \<noteq> LOCAL_SIMULATION
    \<and> redactions_confirmed e \<and> artifact_sha256 e \<noteq> None \<and> re_review_id e \<noteq> None
    \<and> (\<exists>obs x. re_observed_at e = Some obs \<and> re_expires_at e = Some x \<and> obs \<le> generated_at m
          \<and> generated_at m \<le> now \<and> now < x)"
proof -
  have "evidence_current m now r" "generated_at m \<le> now"
    using readiness_gate_conditions [OF assms(1), unfolded Let_def] assms(2) by blast+
  then obtain e x where e: "evidence_for m r = Some e" "re_status e = EV_VERIFIED" "re_expires_at e = Some x" "now < x"
    by (auto simp: evidence_current_def)
  have mem: "e \<in> set (rm_evidence m)" "requirement e = r" using evidence_for_mem [OF e(1)] by auto
  obtain raw_e where "mk_readiness_evidence raw_e = Inr e"
    using res_map_all2 [OF assms(3)] mem(1) by (auto simp: list_all2_conv_all_nth in_set_conv_nth)
  then have "check_verified e = Inr e" by (rule evidence_checked)
  then have ok: "authority e \<noteq> LOCAL_SIMULATION" "authority e \<in> set (allowed_authorities r)"
      "missing_fields e = []" "redactions_confirmed e"
    using e(2) mem(2) by (auto simp: check_verified_def split: if_splits)
  then obtain obs where obs: "re_observed_at e = Some obs" "artifact_sha256 e \<noteq> None" "re_review_id e \<noteq> None"
    by (auto simp: missing_fields_def split: if_splits)
  have "obs \<le> generated_at m" by (rule manifest_follows_evidence [OF assms(4) mem(1) obs(1)])
  with mem e ok obs \<open>generated_at m \<le> now\<close> show ?thesis by auto
qed

theorem readiness_needs_external_evidence_witness:
  "\<exists>rep. example_readiness 30 = Inr rep \<and> shadow_admission_ready rep
     \<and> (\<exists>e \<in> set (rm_evidence example_manifest). requirement e = UNTOUCHED_HOLDOUT_APPROVAL
          \<and> authority e \<in> set (allowed_authorities UNTOUCHED_HOLDOUT_APPROVAL))"
proof -
  obtain rep where rep: "example_readiness 30 = Inr rep" by (rule example_readiness_returns)
  have current: "evidence_current example_manifest 30 r" for r
    by (simp add: evidence_current_def example_lookup verified_evidence_def)
  have good: "qualifies (generated_at example_manifest) 30 (Some ''1'') (example_session ''s-1'')"
    by (simp add: qualifies_def example_session_def example_manifest_def wrong_version_def)
  have ready: "shadow_admission_ready rep"
    using readiness_gate_conditions [OF rep [unfolded example_readiness_def], unfolded Let_def example_own] current good
    by (auto simp: example_session_def example_manifest_def wrong_version_def)
  from readiness_needs_external_evidence [OF rep [unfolded example_readiness_def] ready example_manifest_valid,
      of UNTOUCHED_HOLDOUT_APPROVAL] rep ready
  show ?thesis by blast
qed


end
