(* ===== verification/WalkForward.thy ===== *)
theory WalkForward
  imports PyTime "HOL-Library.Product_Lexorder"
begin

text \<open>
  The purged walk-forward splitter (\<open>validation/walk_forward.py\<close>).  The loop over the test windows
  is a partial function, so that not returning is \<open>None\<close>; it is proved to return.  The iteration
  over sets of groups is that over the groups in order, since the samples are then sorted by keys
  that are unique.
\<close>

record 't validation_sample =
  vs_sample_id :: string
  vs_observed_at :: 't
  group_id :: string
  vs_event_type :: string
  vs_regime :: string

type_synonym sample = "instant validation_sample"

definition mk_validation_sample :: "datetime validation_sample \<Rightarrow> sample result" where
  "mk_validation_sample s =
     (if blank (vs_sample_id s) \<or> blank (group_id s)
      then Inl (ValueError ''sample_id and group_id must not be blank'')
      else res_bind (to_utc (ValueError ''observed_at must be timezone-aware'') (vs_observed_at s)) (\<lambda>t.
        Inr \<lparr>vs_sample_id = vs_sample_id s, vs_observed_at = t, group_id = group_id s,
             vs_event_type = vs_event_type s, vs_regime = vs_regime s\<rparr>))"

record walk_fold =
  fold_index :: nat
  train_ids :: "string list"
  test_ids :: "string list"
  purge_cutoff :: instant
  test_start :: instant
  test_end :: instant

record splitter =
  min_train_groups :: int
  test_groups :: int
  purge_gap :: timedelta
  step_groups :: int

definition mk_splitter :: "int \<Rightarrow> int \<Rightarrow> timedelta \<Rightarrow> int option \<Rightarrow> splitter result" where
  "mk_splitter min_train tests gap step =
     (if min_train \<le> 0 \<or> tests \<le> 0 then Inl (ValueError ''train and test group counts must be positive'')
      else if gap < 0 then Inl (ValueError ''purge_gap must not be negative'')
      else if (case step of None \<Rightarrow> False | Some k \<Rightarrow> k \<le> 0)
        then Inl (ValueError ''step_groups must be positive'')
      else Inr \<lparr>min_train_groups = min_train, test_groups = tests, purge_gap = gap,
             step_groups = (case step of None \<Rightarrow> tests | Some k \<Rightarrow> k)\<rparr>)"

definition grouped :: "sample list \<Rightarrow> (string, sample list) dict" where
  "grouped samples = fold (\<lambda>s d. AList.update (group_id s)
     ((case map_of d (group_id s) of None \<Rightarrow> [] | Some ss \<Rightarrow> ss) @ [s]) d) samples []"

definition members :: "(string, sample list) dict \<Rightarrow> string \<Rightarrow> sample list" where
  "members d g = (case map_of d g of None \<Rightarrow> [] | Some ss \<Rightarrow> ss)"

definition ordered_groups :: "(string, sample list) dict \<Rightarrow> string list" where
  "ordered_groups d = sort_key (\<lambda>g. (Min (set (map vs_observed_at (members d g))), g)) (map fst d)"

definition sample_order :: "sample \<Rightarrow> instant \<times> string" where
  "sample_order s = (vs_observed_at s, vs_sample_id s)"

definition test_samples :: "splitter \<Rightarrow> (string, sample list) dict \<Rightarrow> string list \<Rightarrow> nat \<Rightarrow> sample list" where
  "test_samples sp d groups offset =
     sort_key sample_order (concat (map (members d) (take (nat (test_groups sp)) (drop offset groups))))"

definition train_samples :: "(string, sample list) dict \<Rightarrow> string list \<Rightarrow> nat \<Rightarrow> instant \<Rightarrow> sample list" where
  "train_samples d groups offset cutoff =
     sort_key sample_order
       (filter (\<lambda>s. vs_observed_at s < cutoff) (concat (map (members d) (take offset groups))))"

partial_function (option) fold_loop ::
  "splitter \<Rightarrow> (string, sample list) dict \<Rightarrow> string list \<Rightarrow> nat \<Rightarrow> walk_fold list
     \<Rightarrow> walk_fold list result option" where
  "fold_loop sp d groups offset folds =
     (if offset + nat (test_groups sp) \<le> length groups
      then
        let tests = test_samples sp d groups offset;
            start = vs_observed_at (hd tests);
            cutoff = start - purge_gap sp;
            train = train_samples d groups offset cutoff
        in if train = [] then Some (Inl (ValueError ''purge gap leaves a fold without training samples''))
           else fold_loop sp d groups (offset + nat (step_groups sp))
             (folds @ [\<lparr>fold_index = length folds, train_ids = map vs_sample_id train,
                test_ids = map vs_sample_id tests, purge_cutoff = cutoff, test_start = start,
                test_end = vs_observed_at (last tests)\<rparr>])
      else Some (Inr folds))"

declare fold_loop.simps [code]

definition split_samples :: "splitter \<Rightarrow> sample list \<Rightarrow> walk_fold list result option" where
  "split_samples sp samples =
     (if \<not> distinct (map vs_sample_id samples) then Some (Inl (ValueError ''sample_id values must be unique''))
      else let d = grouped samples
           in fold_loop sp d (ordered_groups d) (nat (min_train_groups sp)) [])"

section \<open>Groups\<close>

lemma members_grouped: "members (grouped samples) g = filter (\<lambda>s. group_id s = g) samples"
  by (induction samples rule: rev_induct) (auto simp: grouped_def members_def split: option.splits)

lemma grouped_keys: "fst ` set (grouped samples) = group_id ` set samples"
  by (induction samples rule: rev_induct) (auto simp: grouped_def dom_update simp flip: dom_map_of_conv_image_fst)

lemma grouped_ok: "dict_ok (grouped samples)"
  by (induction samples rule: rev_induct) (auto simp: grouped_def)

lemma ordered_groups_set: "set (ordered_groups (grouped samples)) = group_id ` set samples"
  by (simp add: ordered_groups_def grouped_keys)

lemma ordered_groups_distinct: "distinct (ordered_groups (grouped samples))"
  using grouped_ok [of samples] by (simp add: ordered_groups_def dict_ok_def)

lemma test_samples_set:
  "set (test_samples sp (grouped samples) groups n) =
     {s \<in> set samples. group_id s \<in> set (take (nat (test_groups sp)) (drop n groups))}"
  by (auto simp: test_samples_def members_grouped)

lemma train_samples_set:
  "set (train_samples (grouped samples) groups n c) =
     {s \<in> set samples. group_id s \<in> set (take n groups) \<and> vs_observed_at s < c}"
  by (auto simp: train_samples_def members_grouped)

section \<open>The loop\<close>

text \<open>The gap to the end of the groups shrinks by a positive step.\<close>

lemma fold_loop_returns:
  assumes "0 < nat (step_groups sp)"
  shows "\<exists>r. fold_loop sp d groups offset folds = Some r"
proof (induction "length groups + 1 - offset" arbitrary: offset folds rule: less_induct)
  case less
  show ?case
  proof (cases "offset + nat (test_groups sp) \<le> length groups")
    case True
    with assms have "length groups + 1 - (offset + nat (step_groups sp)) < length groups + 1 - offset" by linarith
    with less show ?thesis by (subst fold_loop.simps) (simp add: Let_def)
  next
    case False
    then show ?thesis by (subst fold_loop.simps) simp
  qed
qed

definition fold_sound :: "splitter \<Rightarrow> sample list \<Rightarrow> walk_fold \<Rightarrow> bool" where
  "fold_sound sp samples f \<longleftrightarrow> (\<exists>n. let groups = ordered_groups (grouped samples);
       tests = test_samples sp (grouped samples) groups n in
     n + nat (test_groups sp) \<le> length groups
   \<and> test_ids f = map vs_sample_id tests
   \<and> test_start f = vs_observed_at (hd tests) \<and> purge_cutoff f = test_start f - purge_gap sp
   \<and> train_ids f \<noteq> []
   \<and> train_ids f = map vs_sample_id (train_samples (grouped samples) groups n (purge_cutoff f)))"

lemma fold_loop_sound:
  assumes "fold_loop sp (grouped samples) (ordered_groups (grouped samples)) offset folds = Some (Inr rs)"
    and "\<forall>f \<in> set folds. fold_sound sp samples f" and "0 < nat (step_groups sp)"
  shows "\<forall>f \<in> set rs. fold_sound sp samples f"
  using assms(1,2)
proof (induction "length (ordered_groups (grouped samples)) + 1 - offset" arbitrary: offset folds rule: less_induct)
  case less
  let ?g = "ordered_groups (grouped samples)"
  let ?tests = "test_samples sp (grouped samples) ?g offset"
  let ?start = "vs_observed_at (hd ?tests)"
  let ?train = "train_samples (grouped samples) ?g offset (?start - purge_gap sp)"
  show ?case
  proof (cases "offset + nat (test_groups sp) \<le> length ?g")
    case False
    with less.prems show ?thesis by (subst (asm) fold_loop.simps) simp
  next
    case True
    let ?f = "\<lparr>fold_index = length folds, train_ids = map vs_sample_id ?train, test_ids = map vs_sample_id ?tests,
       purge_cutoff = ?start - purge_gap sp, test_start = ?start, test_end = vs_observed_at (last ?tests)\<rparr>"
    have step: "?train \<noteq> []"
      "fold_loop sp (grouped samples) ?g (offset + nat (step_groups sp)) (folds @ [?f]) = Some (Inr rs)"
      using less.prems(1) True by (subst (asm) fold_loop.simps; simp add: Let_def split: if_splits)+
    have "fold_sound sp samples ?f"
      unfolding fold_sound_def Let_def by (rule exI [of _ offset]) (use True step(1) in simp)
    with less.prems(2) have "\<forall>f \<in> set (folds @ [?f]). fold_sound sp samples f" by auto
    moreover have "length ?g + 1 - (offset + nat (step_groups sp)) < length ?g + 1 - offset"
      using True assms(3) by linarith
    ultimately show ?thesis using less.hyps step(2) by blast
  qed
qed


lemma mk_splitter_fields:
  assumes "mk_splitter m t gap k = Inr sp"
  shows "purge_gap sp = gap" "0 < nat (step_groups sp)" "0 < nat (test_groups sp)"
  using assms by (auto simp: mk_splitter_def split: if_splits option.splits)

lemma test_starts_first:
  assumes "s \<in> set (test_samples sp d groups n)"
  shows "vs_observed_at (hd (test_samples sp d groups n)) \<le> vs_observed_at s"
proof -
  let ?ts = "test_samples sp d groups n"
  have "sorted (map sample_order ?ts)" by (simp add: test_samples_def)
  then have "sample_order (hd ?ts) \<le> sample_order s"
    using assms by (cases ?ts) auto
  then show ?thesis by (auto simp: sample_order_def less_eq_prod_def)
qed

lemma take_drop_disjoint:
  "distinct xs \<Longrightarrow> x \<in> set (take n xs) \<Longrightarrow> y \<in> set (take m (drop n xs)) \<Longrightarrow> x \<noteq> y"
  by (metis disjoint_iff in_set_takeD set_take_disj_set_drop_if_distinct order_refl)

lemma same_id_same_sample:
  assumes "distinct (map vs_sample_id samples)" and "a \<in> set samples" and "T \<subseteq> set samples"
  shows "vs_sample_id a \<in> vs_sample_id ` T \<longleftrightarrow> a \<in> T"
  using assms by (auto simp: distinct_map inj_on_def)

lemma split_samples_sound:
  assumes "split_samples sp samples = Some (Inr folds)" and "0 < nat (step_groups sp)"
  shows "distinct (map vs_sample_id samples)" and "\<forall>f \<in> set folds. fold_sound sp samples f"
  using assms fold_loop_sound [of sp samples _ "[]" folds]
  by (auto simp: split_samples_def Let_def split: if_splits)

lemma fold_sound_no_leakage:
  assumes "fold_sound sp samples f" and distinct: "distinct (map vs_sample_id samples)"
    and ab: "a \<in> set samples" "b \<in> set samples"
    and ids: "vs_sample_id a \<in> set (train_ids f)" "vs_sample_id b \<in> set (test_ids f)"
  shows "vs_observed_at a + purge_gap sp < vs_observed_at b" and "group_id a \<noteq> group_id b"
    and "\<forall>s \<in> set samples. group_id s = group_id b \<longrightarrow> vs_sample_id s \<in> set (test_ids f)"
proof -
  let ?g = "ordered_groups (grouped samples)"
  obtain n where n: "test_ids f = map vs_sample_id (test_samples sp (grouped samples) ?g n)"
      "test_start f = vs_observed_at (hd (test_samples sp (grouped samples) ?g n))"
      "purge_cutoff f = test_start f - purge_gap sp"
      "train_ids f = map vs_sample_id (train_samples (grouped samples) ?g n (purge_cutoff f))"
    using assms(1) by (auto simp: fold_sound_def Let_def)
  have b: "b \<in> set (test_samples sp (grouped samples) ?g n)"
    using ids(2) same_id_same_sample [OF distinct ab(2), of "set (test_samples sp (grouped samples) ?g n)"]
    by (auto simp: n(1) test_samples_set)
  have a: "a \<in> set (train_samples (grouped samples) ?g n (purge_cutoff f))"
    using ids(1) same_id_same_sample [OF distinct ab(1), of "set (train_samples (grouped samples) ?g n (purge_cutoff f))"]
    by (auto simp: n(4) train_samples_set)
  show "vs_observed_at a + purge_gap sp < vs_observed_at b"
    using a test_starts_first [OF b] n(2,3) by (simp add: train_samples_set)
  show "group_id a \<noteq> group_id b"
    using a b take_drop_disjoint [OF ordered_groups_distinct]
    by (fastforce simp: train_samples_set test_samples_set)
  show "\<forall>s \<in> set samples. group_id s = group_id b \<longrightarrow> vs_sample_id s \<in> set (test_ids f)"
    using b by (auto simp: n(1) test_samples_set)
qed

section \<open>Properties\<close>

text \<open>C16. No fold leaks: whatever the samples and the parameters a splitter accepts, a training sample of a
  fold lies strictly more than the purge gap before every test sample of it, the two are of different
  groups, and the test takes in every sample of its groups.\<close>

theorem walk_forward_no_leakage:
  assumes "mk_splitter m t gap k = Inr sp" and "split_samples sp samples = Some (Inr folds)"
    and "f \<in> set folds" and "a \<in> set samples" and "b \<in> set samples"
    and "vs_sample_id a \<in> set (train_ids f)" and "vs_sample_id b \<in> set (test_ids f)"
  shows "vs_observed_at a + gap < vs_observed_at b \<and> group_id a \<noteq> group_id b
    \<and> (\<forall>s \<in> set samples. group_id s = group_id b \<longrightarrow> vs_sample_id s \<in> set (test_ids f))"
  using fold_sound_no_leakage [of sp samples f a b] split_samples_sound [OF assms(2)]
    mk_splitter_fields [OF assms(1)] assms(3-7) by simp

definition demo_sample :: "nat \<Rightarrow> sample" where
  "demo_sample n = \<lparr>vs_sample_id = replicate (n + 1) (CHR ''s''), vs_observed_at = 100 * int n,
     group_id = replicate (n div 2 + 1) (CHR ''g''), vs_event_type = ''e'', vs_regime = ''r''\<rparr>"

definition demo_samples :: "sample list" where
  "demo_samples = map demo_sample [0, 1, 2, 3]"

definition demo_splitter :: splitter where
  "demo_splitter = \<lparr>min_train_groups = 1, test_groups = 1, purge_gap = 100, step_groups = 1\<rparr>"

definition demo_fold :: walk_fold where
  "demo_fold = \<lparr>fold_index = 0, train_ids = [''s''], test_ids = [''sss'', ''ssss''],
     purge_cutoff = 100, test_start = 200, test_end = 300\<rparr>"

lemma demo_split: "split_samples demo_splitter demo_samples = Some (Inr [demo_fold])"
  by (code_simp)

theorem walk_forward_no_leakage_witness:
  "vs_observed_at (demo_sample 0) + 100 < vs_observed_at (demo_sample 2)
   \<and> group_id (demo_sample 0) \<noteq> group_id (demo_sample 2)
   \<and> vs_sample_id (demo_sample 3) \<in> set (test_ids demo_fold)"
proof -
  have "vs_observed_at (demo_sample 0) + 100 < vs_observed_at (demo_sample 2)
      \<and> group_id (demo_sample 0) \<noteq> group_id (demo_sample 2)
      \<and> (\<forall>s \<in> set demo_samples. group_id s = group_id (demo_sample 2) \<longrightarrow> vs_sample_id s \<in> set (test_ids demo_fold))"
    by (rule walk_forward_no_leakage [OF _ demo_split, of 1 1 100 None])
       (simp_all add: mk_splitter_def demo_splitter_def demo_fold_def demo_samples_def demo_sample_def eval_nat_numeral)
  moreover have "demo_sample 3 \<in> set demo_samples" by (simp add: demo_samples_def)
  moreover have "group_id (demo_sample 3) = group_id (demo_sample 2)" by (simp add: demo_sample_def)
  ultimately show ?thesis by blast
qed

text \<open>C40. Splitting always returns, with folds or with an error: for every splitter the constructor accepts,
  the \<open>while\<close> over the test windows ends on every sequence of samples.\<close>

theorem walk_forward_returns:
  assumes "mk_splitter m t gap k = Inr sp"
  shows "\<exists>r. split_samples sp samples = Some r"
  using fold_loop_returns mk_splitter_fields(2) [OF assms]
  by (cases "distinct (map vs_sample_id samples)") (simp_all add: split_samples_def Let_def)

theorem walk_forward_returns_witness:
  "\<exists>r. split_samples \<lparr>min_train_groups = 2, test_groups = 1, purge_gap = 5, step_groups = 3\<rparr> demo_samples = Some r"
  by (rule walk_forward_returns [of 2 1 5 "Some 3"]) (simp add: mk_splitter_def)

end
