(* ===== verification/Scout.thy ===== *)
theory Scout
  imports Snapshot "HOL-Library.Multiset"
begin

text \<open>
  ScoutPilot's candidates (\<open>domain/scout.py\<close>): versioned detectors and the evidence-bounded
  observations they may emit, each identified by the digest of what it observed.  The protocol of a
  detector has no code of its own.
\<close>

datatype detector_kind = GAMMA_SQUEEZE | SHORT_SQUEEZE | VOLATILITY_SQUEEZE | IV_CRUSH

fun kind_str :: "detector_kind \<Rightarrow> string" where
  "kind_str GAMMA_SQUEEZE = ''GAMMA_SQUEEZE''"
| "kind_str SHORT_SQUEEZE = ''SHORT_SQUEEZE''"
| "kind_str VOLATILITY_SQUEEZE = ''VOLATILITY_SQUEEZE''"
| "kind_str IV_CRUSH = ''IV_CRUSH''"

datatype candidate_direction = OPPORTUNITY_LONG | OPPORTUNITY_LONG_VOLATILITY | RISK_WARNING | NEUTRAL_WATCH

fun direction_str :: "candidate_direction \<Rightarrow> string" where
  "direction_str OPPORTUNITY_LONG = ''OPPORTUNITY_LONG''"
| "direction_str OPPORTUNITY_LONG_VOLATILITY = ''OPPORTUNITY_LONG_VOLATILITY''"
| "direction_str RISK_WARNING = ''RISK_WARNING''"
| "direction_str NEUTRAL_WATCH = ''NEUTRAL_WATCH''"

definition inferred_kinds :: "detector_kind list" where
  "inferred_kinds = [GAMMA_SQUEEZE]"

record detector =
  detector_id :: string
  detector_version :: string
  detector_kind :: detector_kind
  universe :: "string list"

definition mk_detector :: "detector \<Rightarrow> detector result" where
  "mk_detector d =
     (if blank (detector_id d) then Inl (ScoutError ''detector_id must not be blank'')
      else if blank (detector_version d) then Inl (ScoutError ''version must not be blank'')
      else if universe d = [] \<or> list_ex blank (universe d)
        then Inl (ScoutError ''universe must declare at least one non-blank target'')
      else Inr d)"

record candidate =
  candidate_id :: string
  c_detector_id :: string
  c_detector_version :: string
  c_kind :: detector_kind
  target :: string
  direction :: candidate_direction
  observed_as_of :: instant
  next_checkpoint :: instant
  confidence :: rat
  evidence :: "string list"
  invalidation_conditions :: "string list"
  data_manifest_id :: string
  estimate_method :: "string option"

definition opt_text :: "string option \<Rightarrow> pyval" where
  "opt_text x = (case x of None \<Rightarrow> PNone | Some s \<Rightarrow> PStr s)"

definition candidate_payload ::
  "(rat \<Rightarrow> string) \<Rightarrow> detector \<Rightarrow> string \<Rightarrow> candidate_direction \<Rightarrow> instant \<Rightarrow> rat \<Rightarrow> string list \<Rightarrow> string
     \<Rightarrow> string option \<Rightarrow> (string, pyval) dict" where
  "candidate_payload fr d tgt dir t conf ev manifest est =
     [(''detector_id'', PStr (detector_id d)), (''detector_version'', PStr (detector_version d)),
      (''kind'', PStr (kind_str (detector_kind d))), (''target'', PStr tgt), (''direction'', PStr (direction_str dir)),
      (''as_of'', PTime t), (''confidence'', PFloat conf (fr conf)), (''evidence'', PList (map PStr (sort ev))),
      (''data_manifest_id'', PStr manifest), (''estimate_method'', opt_text est)]"

definition candidate_create ::
  "(string \<Rightarrow> string) \<Rightarrow> (rat \<Rightarrow> string) \<Rightarrow> detector \<Rightarrow> string \<Rightarrow> candidate_direction \<Rightarrow> datetime \<Rightarrow> datetime
     \<Rightarrow> rat \<Rightarrow> string list \<Rightarrow> string list \<Rightarrow> string \<Rightarrow> string option \<Rightarrow> candidate result" where
  "candidate_create sha fr d tgt dir as_of_tm next_tm conf ev invalid manifest est =
     res_bind (to_utc (ScoutError ''as_of must be timezone-aware'') as_of_tm) (\<lambda>t.
     res_bind (to_utc (ScoutError ''next_checkpoint must be timezone-aware'') next_tm) (\<lambda>check.
       if check \<le> t then Inl (ScoutError ''next_checkpoint must be after as_of'')
       else if \<not> (0 \<le> conf \<and> conf \<le> 1) then Inl (ScoutError ''confidence must be within [0, 1]'')
       else if blank tgt then Inl (ScoutError ''target must not be blank'')
       else if strip tgt \<notin> set (universe d)
         then Inl (ScoutError ''target is outside the declared detector universe'')
       else if ev = [] \<or> list_ex blank ev then Inl (ScoutError ''evidence must contain at least one non-blank entry'')
       else if invalid = [] \<or> list_ex blank invalid
         then Inl (ScoutError ''invalidation_conditions must contain a non-blank entry'')
       else if blank manifest then Inl (ScoutError ''data_manifest_id must not be blank'')
       else if detector_kind d \<in> set inferred_kinds \<and> blank (case est of None \<Rightarrow> [] | Some e \<Rightarrow> e)
         then Inl (ScoutError (kind_str (detector_kind d) @ '' candidates must declare an estimate_method ''
                @ ''because the underlying quantity is inferred, not observed''))
       else Inr \<lparr>candidate_id = snapshot_id (freeze_snapshot sha (PDict
                   (candidate_payload fr d tgt dir t conf ev manifest est))),
              c_detector_id = detector_id d, c_detector_version = detector_version d,
              c_kind = detector_kind d, target = strip tgt, direction = dir, observed_as_of = t,
              next_checkpoint = check, confidence = conf, evidence = ev,
              invalidation_conditions = invalid, data_manifest_id = manifest, estimate_method = est\<rparr>))"

section \<open>Properties\<close>

lemma kind_str_inj: "kind_str k = kind_str l \<longleftrightarrow> k = l"
  by (cases k; cases l) simp_all

lemma direction_str_inj: "direction_str k = direction_str l \<longleftrightarrow> k = l"
  by (cases k; cases l) simp_all

lemma opt_text_canonical: "canonical (to_json (opt_text x))"
  by (simp add: opt_text_def split: option.split)

lemma opt_text_inj: "to_json (opt_text x) = to_json (opt_text y) \<longleftrightarrow> x = y"
  by (auto simp: opt_text_def split: option.splits)

lemma texts_inj: "map (to_json \<circ> PStr) xs = map (to_json \<circ> PStr) ys \<longleftrightarrow> xs = ys"
  by (simp add: inj_def inj_map_eq_map comp_def)

text \<open>A candidate is bounded by its evidence: every candidate a detector emits carries non-blank
  evidence and invalidation conditions, is checked again later than it was observed, has a confidence
  within one, targets the declared universe and, when its quantity is inferred, names the method.
  Its identity is what was observed: two candidates have one identity exactly when detector, target as
  given, direction, time, confidence, manifest and method agree and the evidence is the same up to
  order, as long as the digest has no collision.\<close>

theorem candidate_evidence_bounded:
  assumes "inj sha" and "repr_ok fr"
    and "candidate_create sha fr d tgt dir (Aware t) tm conf ev invalid manifest est = Inr c"
    and "candidate_create sha fr d' tgt' dir' (Aware t') tm' conf' ev' invalid' manifest' est' = Inr c'"
    and "0 \<le> t" and "0 \<le> t'"
  shows "t < next_checkpoint c \<and> 0 \<le> confidence c \<and> confidence c \<le> 1 \<and> target c \<in> set (universe d)
    \<and> evidence c \<noteq> [] \<and> \<not> list_ex blank (evidence c)
    \<and> invalidation_conditions c \<noteq> [] \<and> \<not> list_ex blank (invalidation_conditions c)
    \<and> (c_kind c = GAMMA_SQUEEZE \<longrightarrow> (\<exists>m. estimate_method c = Some m \<and> \<not> blank m))
    \<and> (candidate_id c = candidate_id c' \<longleftrightarrow>
         detector_id d = detector_id d' \<and> detector_version d = detector_version d'
       \<and> detector_kind d = detector_kind d' \<and> tgt = tgt' \<and> dir = dir' \<and> t = t' \<and> conf = conf'
       \<and> mset ev = mset ev' \<and> manifest = manifest' \<and> est = est')"
proof -
  let ?p = "candidate_payload fr d tgt dir t conf ev manifest est"
  let ?p' = "candidate_payload fr d' tgt' dir' t' conf' ev' manifest' est'"
  note leaves = repr_ok_simps [OF assms(2)]
  have ids: "candidate_id c = snapshot_id (freeze_snapshot sha (PDict ?p))"
    "candidate_id c' = snapshot_id (freeze_snapshot sha (PDict ?p'))"
    using assms(3,4) by (auto simp: candidate_create_def split: if_splits)
  have "map (to_json \<circ> snd) ?p = map (to_json \<circ> snd) ?p'" if "candidate_id c = candidate_id c'"
  proof (rule payload_id_eq [OF assms(1)])
    show "snapshot_id (freeze_snapshot sha (PDict ?p)) = snapshot_id (freeze_snapshot sha (PDict ?p'))"
      using that ids by simp
    show "\<forall>kv \<in> set ?p \<union> set ?p'. canonical (to_json (snd kv))"
      using leaves(1) [of conf] leaves(1) [of conf']
      by (simp add: candidate_payload_def opt_text_canonical list_all_iff)
  qed (simp_all add: candidate_payload_def)
  moreover have "sort ev = sort ev' \<longleftrightarrow> mset ev = mset ev'"
    by (metis mset_sort properties_for_sort sorted_sort)
  ultimately have same: "candidate_id c = candidate_id c' \<longleftrightarrow>
         detector_id d = detector_id d' \<and> detector_version d = detector_version d'
       \<and> detector_kind d = detector_kind d' \<and> tgt = tgt' \<and> dir = dir' \<and> t = t' \<and> conf = conf'
       \<and> mset ev = mset ev' \<and> manifest = manifest' \<and> est = est'"
    using isoformat_inj [OF assms(5,6)] ids
    by (auto simp: candidate_payload_def leaves kind_str_inj direction_str_inj opt_text_inj texts_inj)
  have "t < next_checkpoint c \<and> 0 \<le> confidence c \<and> confidence c \<le> 1 \<and> target c \<in> set (universe d)
    \<and> evidence c \<noteq> [] \<and> \<not> list_ex blank (evidence c)
    \<and> invalidation_conditions c \<noteq> [] \<and> \<not> list_ex blank (invalidation_conditions c)"
    using assms(3) by (auto simp: candidate_create_def not_le split: if_splits)
  moreover have "\<exists>m. estimate_method c = Some m \<and> \<not> blank m" if "c_kind c = GAMMA_SQUEEZE"
    using assms(3) that by (auto simp: candidate_create_def inferred_kinds_def split: if_splits option.splits)
  ultimately show ?thesis using same by blast
qed


definition example_detector :: detector where
  "example_detector = \<lparr>detector_id = ''d'', detector_version = ''1'', detector_kind = GAMMA_SQUEEZE, universe = [''SPX'']\<rparr>"

lemma example_texts: "\<not> blank ''SPX''" "strip ''SPX'' = ''SPX''" "\<not> blank ''a''" "\<not> blank ''b''" "\<not> blank ''m''"
  by (simp_all add: blank_def strip_def lstrip_def is_space_def)

theorem candidate_evidence_bounded_witness:
  "\<exists>c c'. candidate_create (\<lambda>x. x) number_text example_detector ''SPX'' RISK_WARNING (Aware 5) (Aware 9)
        (1 / 2) [''a'', ''b''] [''a''] ''m'' (Some ''m'') = Inr c
     \<and> candidate_create (\<lambda>x. x) number_text example_detector ''SPX'' RISK_WARNING (Aware 5) (Aware 8)
        (1 / 2) [''b'', ''a''] [''b''] ''m'' (Some ''m'') = Inr c'
     \<and> candidate_id c = candidate_id c' \<and> 5 < next_checkpoint c"
proof -
  obtain c where c: "candidate_create (\<lambda>x. x) number_text example_detector ''SPX'' RISK_WARNING (Aware 5) (Aware 9)
        (1 / 2) [''a'', ''b''] [''a''] ''m'' (Some ''m'') = Inr c"
    by (simp add: candidate_create_def example_detector_def example_texts)
  obtain c' where c': "candidate_create (\<lambda>x. x) number_text example_detector ''SPX'' RISK_WARNING (Aware 5) (Aware 8)
        (1 / 2) [''b'', ''a''] [''b''] ''m'' (Some ''m'') = Inr c'"
    by (simp add: candidate_create_def example_detector_def example_texts)
  have "inj (\<lambda>x::string. x)" by simp
  from candidate_evidence_bounded [OF this number_text_ok c c'] c c' show ?thesis by auto
qed

end
