(* ===== verification/BatchLedger.thy ===== *)
theory BatchLedger
  imports PointInTime
begin

text \<open>
  The file of batch-level point-in-time records (\<open>ingest/pit_ledger.py\<close>).  The file is the list of
  the records its lines decode to; every read verifies each of them.
\<close>

type_synonym batch_file = "pit_record list"

definition batch_load :: "(string \<Rightarrow> string) \<Rightarrow> batch_file \<Rightarrow> pit_record list result" where
  "batch_load sha f = res_map (\<lambda>r. res_bind (pit_verify sha r) (\<lambda>_. Inr r)) f"

definition batch_find :: "(string \<Rightarrow> string) \<Rightarrow> batch_file \<Rightarrow> string \<Rightarrow> pit_record option result" where
  "batch_find sha f key = res_bind (batch_load sha f) (\<lambda>rs. Inr (List.find (\<lambda>r. logical_key r = key) rs))"

definition batch_append :: "(string \<Rightarrow> string) \<Rightarrow> batch_file \<Rightarrow> pit_record \<Rightarrow> unit result \<times> batch_file" where
  "batch_append sha f r =
     (case res_bind (pit_verify sha r) (\<lambda>_. batch_find sha f (logical_key r)) of
        Inl e \<Rightarrow> (Inl e, f)
      | Inr (Some existing) \<Rightarrow>
          if record_id existing \<noteq> record_id r
          then (Inl (PointInTimeError (''conflicting batch record for '' @ logical_key r @ '': immutable'')), f)
          else (Inr (), f)
      | Inr None \<Rightarrow> (Inr (), f @ [r]))"

fun append_records :: "(string \<Rightarrow> string) \<Rightarrow> ledger \<Rightarrow> pit_record list \<Rightarrow> ledger result" where
  "append_records sha l [] = Inr l"
| "append_records sha l (r # rs) = res_bind (ledger_append sha l r) (\<lambda>l'. append_records sha l' rs)"

definition emit_manifest ::
  "(string \<Rightarrow> string) \<Rightarrow> batch_file \<Rightarrow> datetime \<Rightarrow> replay_visibility \<Rightarrow> replay_manifest result" where
  "emit_manifest sha f tm vis =
     res_bind (batch_load sha f) (\<lambda>rs.
     res_bind (append_records sha [] rs) (\<lambda>l.
     res_bind (visible_records sha l vis tm) (\<lambda>visible.
       manifest_create sha tm visible)))"

section \<open>The file\<close>

definition batch_ok :: "(string \<Rightarrow> string) \<Rightarrow> batch_file \<Rightarrow> bool" where
  "batch_ok sha f \<longleftrightarrow> (\<forall>r \<in> set f. pit_verify sha r = Inr ()) \<and> distinct (map logical_key f)"

lemma batch_load_ok: "(\<forall>r \<in> set f. pit_verify sha r = Inr ()) \<Longrightarrow> batch_load sha f = Inr f"
  by (induction f) (simp_all add: batch_load_def)

definition batch_step :: "(string \<Rightarrow> string) \<Rightarrow> batch_file \<Rightarrow> pit_record \<Rightarrow> batch_file" where
  "batch_step sha f r = snd (batch_append sha f r)"

lemma batch_step_cases:
  assumes "batch_ok sha f"
  shows "batch_step sha f r =
    (if pit_verify sha r = Inr () \<and> logical_key r \<notin> logical_key ` set f then f @ [r] else f)"
proof -
  have load: "batch_load sha f = Inr f" using assms by (simp add: batch_load_ok batch_ok_def)
  show ?thesis
  proof (cases "List.find (\<lambda>x. logical_key x = logical_key r) f")
    case None
    then have "logical_key r \<notin> logical_key ` set f" by (auto simp: find_None_iff)
    with None load show ?thesis
      by (cases "pit_verify sha r") (simp_all add: batch_step_def batch_append_def batch_find_def)
  next
    case (Some x)
    then have "\<exists>x \<in> set f. logical_key x = logical_key r" by (auto simp: find_Some_iff)
    then have "logical_key r \<in> logical_key ` set f" by (metis imageI)
    with Some load show ?thesis
      by (cases "pit_verify sha r") (simp_all add: batch_step_def batch_append_def batch_find_def)
  qed
qed

interpretation batch_file: audit_log "batch_step sha" "batch_ok sha" "\<lambda>f. f" for sha
  by unfold_locales (auto simp: batch_step_cases batch_ok_def)

lemma batch_history_records:
  "batch_ok sha f \<Longrightarrow> r \<in> set (foldl (batch_step sha) f rs) \<Longrightarrow> r \<in> set f \<or> r \<in> set rs"
proof (induction rs arbitrary: f)
  case (Cons x rs)
  have "r \<in> set (batch_step sha f x) \<or> r \<in> set rs"
    using Cons.IH [OF batch_file.step_inv [OF Cons.prems(1)]] Cons.prems(2) by simp
  then show ?case using batch_step_cases [OF Cons.prems(1), of x] by (auto split: if_splits)
qed simp

lemma batch_history_keys:
  "batch_ok sha f \<Longrightarrow> r \<in> set rs \<Longrightarrow> pit_verify sha r = Inr () \<Longrightarrow>
     logical_key r \<in> logical_key ` set (foldl (batch_step sha) f rs)"
proof (induction rs arbitrary: f)
  case (Cons x rs)
  note ok = batch_file.step_inv [OF Cons.prems(1), of x]
  show ?case
  proof (cases "r \<in> set rs")
    case False
    with Cons.prems have "logical_key r \<in> logical_key ` set (batch_step sha f x)"
      by (auto simp: batch_step_cases)
    moreover have "set (batch_step sha f x) \<subseteq> set (foldl (batch_step sha) (batch_step sha f x) rs)"
      by (rule set_mono_prefix [OF batch_file.run_log [OF ok]])
    ultimately show ?thesis by auto
  qed (use Cons ok in simp)
qed simp

section \<open>The manifest\<close>

lemma update_new: "k \<notin> fst ` set d \<Longrightarrow> AList.update k v d = d @ [(k, v)]"
  by (induction d) auto

lemma append_records_ok:
  assumes "\<forall>r \<in> set rs. pit_verify sha r = Inr ()" and "distinct (map record_id rs)"
    and "fst ` set l \<inter> record_id ` set rs = {}"
  shows "append_records sha l rs = Inr (l @ map (\<lambda>r. (record_id r, r)) rs)"
  using assms
proof (induction rs arbitrary: l)
  case (Cons r rs)
  then have "map_of l (record_id r) = None" by (simp add: map_of_eq_None_iff)
  moreover have "pit_verify sha r = Inr ()" using Cons.prems(1) by simp
  ultimately have "ledger_append sha l r = Inr (l @ [(record_id r, r)])"
    using Cons.prems(3) by (simp add: ledger_append_def update_new)
  with Cons show ?case by (auto simp: image_iff)
qed simp

lemma ids_distinct:
  assumes "inj sha" and "batch_ok sha f" and "\<forall>r \<in> set f. 0 \<le> published_at r"
  shows "distinct (map record_id f)"
proof -
  have keys: "distinct f" "inj_on logical_key (set f)" using assms(2) by (simp_all add: batch_ok_def distinct_map)
  have "r = s" if "r \<in> set f" "s \<in> set f" "record_id r = record_id s" for r s
  proof -
    have "logical_key r = logical_key s"
      by (rule pit_identity(1) [OF assms(1) _ _ that(3)]) (use assms(2,3) that(1,2) in \<open>simp_all add: batch_ok_def\<close>)
    with keys(2) that(1,2) show ?thesis by (simp add: inj_on_def)
  qed
  with keys(1) show ?thesis by (simp add: distinct_map inj_on_def)
qed

lemma selects_unique_keys:
  assumes "distinct (map logical_key f)"
  shows "selects {r \<in> set f. P r} (sort_key logical_key (filter P f))"
proof -
  have "distinct (map logical_key (filter P f))" using assms by (rule distinct_map_filter)
  then have "distinct (map logical_key (sort_key logical_key (filter P f)))"
    by (simp add: distinct_map)
  moreover have "inj_on logical_key (set f)" using assms by (simp add: distinct_map)
  then have "best {r \<in> set f. P r} r" if "r \<in> set f" "P r" for r
    using that by (auto simp: best_def inj_on_def)
  ultimately show ?thesis unfolding selects_def by auto
qed

text \<open>The batch file is immutable and its manifests are exact: over any history of appends it keeps,
  for each logical key, one verified record, and covers every key of which a verified record was
  offered; later appends only extend it; and the manifest emitted as of an instant lists, in key
  order, exactly the records published by then, as long as the digest has no collision.\<close>

theorem batch_manifest_exact:
  assumes "inj sha" and "\<forall>r \<in> set rs. 0 \<le> published_at r"
  shows "let f = foldl (batch_step sha) [] rs in
      set f \<subseteq> set rs \<and> distinct (map logical_key f)
    \<and> (\<forall>r \<in> set rs. pit_verify sha r = Inr () \<longrightarrow> logical_key r \<in> logical_key ` set f)
    \<and> prefix f (foldl (batch_step sha) f later)
    \<and> (\<exists>m. emit_manifest sha f (Aware t) AVAILABLE = Inr m
         \<and> rm_as_of m = t
         \<and> rm_entries m = map entry_of (sort_key logical_key (filter (\<lambda>r. published_at r \<le> t) f)))"
proof -
  let ?f = "foldl (batch_step sha) [] rs"
  let ?rs = "sort_key logical_key (filter (\<lambda>r. published_at r \<le> t) ?f)"
  have start: "batch_ok sha []" by (simp add: batch_ok_def)
  have ok: "batch_ok sha ?f" by (rule batch_file.run_inv [OF start])
  have sub: "set ?f \<subseteq> set rs" using batch_history_records [OF start] by auto
  have ids: "distinct (map record_id ?f)" by (rule ids_distinct [OF assms(1) ok]) (use sub assms(2) in auto)
  let ?l = "map (\<lambda>r. (record_id r, r)) ?f"
  have records: "append_records sha [] ?f = Inr ?l"
    using append_records_ok [of ?f sha "[]"] ok ids by (simp add: batch_ok_def)
  have lok: "ledger_ok sha ?l"
    using ids ok by (auto simp: ledger_ok_def dict_ok_def batch_ok_def comp_def dest!: map_of_SomeD)
  obtain vs where vs: "visible_records sha ?l AVAILABLE (Aware t) = Inr vs" using ledger_visible_ok [OF lok] by blast
  have "dict_values ?l = ?f" by (simp add: dict_values_def comp_def)
  then have "visible_set ?l AVAILABLE t = {r \<in> set ?f. published_at r \<le> t}" by (simp add: visible_set_def)
  then have "selects (visible_set ?l AVAILABLE t) ?rs"
    using selects_unique_keys ok by (simp add: batch_ok_def)
  then have "vs = ?rs" by (rule selects_unique [OF visible_records_selects [OF vs] _ ledger_inj [OF lok]])
  moreover have "batch_load sha ?f = Inr ?f" using ok by (simp add: batch_load_ok batch_ok_def)
  ultimately have "\<exists>m. emit_manifest sha ?f (Aware t) AVAILABLE = Inr m
         \<and> rm_as_of m = t \<and> rm_entries m = map entry_of ?rs"
    using records vs by (simp add: emit_manifest_def manifest_create_def Let_def sort_key_id_if_sorted)
  moreover have "\<forall>r \<in> set rs. pit_verify sha r = Inr () \<longrightarrow> logical_key r \<in> logical_key ` set ?f"
    using batch_history_keys [OF start] by blast
  moreover have "prefix ?f (foldl (batch_step sha) ?f later)" by (rule batch_file.run_log [OF ok])
  ultimately show ?thesis using sub ok unfolding Let_def batch_ok_def by blast
qed

theorem batch_manifest_exact_witness:
  "\<exists>m. emit_manifest raw_sha (foldl (batch_step raw_sha) [] [example_record ''v1'' 10, example_record ''v2'' 20])
         (Aware 15) AVAILABLE = Inr m
     \<and> rm_entries m = [entry_of (example_record ''v1'' 10)]"
proof -
  let ?a = "example_record ''v1'' 10" and ?b = "example_record ''v2'' 20"
  have s: "strip ''v1'' \<noteq> []" "strip ''v2'' \<noteq> []" by (simp_all add: plain_strip)
  note a = example_record_fields [OF s(1), of 10] and b = example_record_fields [OF s(2), of 20]
  have "batch_ok raw_sha [?a]" "batch_ok raw_sha []" using a by (simp_all add: batch_ok_def)
  then have f: "foldl (batch_step raw_sha) [] [?a, ?b] = [?a]" using a b by (simp add: batch_step_cases)
  have "\<forall>r \<in> set [?a, ?b]. 0 \<le> published_at r" using a b by simp
  from batch_manifest_exact [OF inj_raw_sha this, of "[]" 15] show ?thesis
    unfolding Let_def f using a by auto
qed

end
