(* ===== verification/Metrics.thy ===== *)
theory Metrics
  imports Decision "HOL-Library.Multiset"
begin

text \<open>
  The validation metrics (\<open>validation/metrics.py\<close>): the tail loss and the drawdown of a series of
  profits, and the summary of validation results by stratum.  Values are exact rationals, so the
  finiteness checks are vacuous.
\<close>

record validation_result =
  vr_sample_id :: string
  vr_event_type :: string
  vr_regime :: string
  vr_action :: decision_action
  counterfactual_pnl :: rat
  realized_pnl :: "rat option"
  vr_metrics :: "(string, rat) dict"

definition mk_validation_result :: "validation_result \<Rightarrow> validation_result result" where
  "mk_validation_result r =
     (if blank (vr_sample_id r) then Inl (ValueError ''sample_id must not be blank'')
      else if vr_action r = ENTER \<and> realized_pnl r = None then Inl (ValueError ''ENTER requires realized_pnl'')
      else if vr_action r \<noteq> ENTER \<and> realized_pnl r \<noteq> None
        then Inl (ValueError ''WAIT and NO_TRADE must not claim a realized strategy PnL'')
      else Inr r)"

definition conditional_value_at_risk :: "rat list \<Rightarrow> rat \<Rightarrow> rat result" where
  "conditional_value_at_risk pnl confidence =
     (if pnl = [] then Inl (ValueError ''pnl_observations must not be empty'')
      else if \<not> (0 < confidence \<and> confidence < 1) then Inl (ValueError ''confidence must be in (0, 1)'')
      else
        let tail_count = max 1 (\<lceil>of_nat (length pnl) * (1 - confidence)\<rceil>);
            worst = take (nat tail_count) (sort pnl)
        in Inr (max 0 (- sum_list worst / of_nat (length worst))))"

fun drawdown_loop :: "rat \<Rightarrow> rat \<Rightarrow> rat \<Rightarrow> rat list \<Rightarrow> rat" where
  "drawdown_loop equity peak maximum [] = maximum"
| "drawdown_loop equity peak maximum (v # vs) =
     (let equity' = equity + v; peak' = max peak equity'; drawdown = peak' - equity'
      in drawdown_loop equity' peak' (max maximum drawdown) vs)"

definition maximum_drawdown :: "rat list \<Rightarrow> rat" where
  "maximum_drawdown vs = drawdown_loop 0 0 0 vs"

record no_trade_effect =
  eligible_count :: nat
  no_trade_total :: nat
  entered_count :: nat
  filtered_pnl_total :: rat
  unfiltered_counterfactual_pnl_total :: rat
  no_trade_counterfactual_pnl_total :: rat
  pnl_difference :: rat

record slice_summary =
  strata :: "(string \<times> string) list"
  sample_count :: nat
  action_counts :: "(decision_action, nat) dict"
  metric_means :: "(string, rat) dict"
  trade_effect :: no_trade_effect

definition dict_get :: "'v \<Rightarrow> ('k, 'v) dict \<Rightarrow> 'k \<Rightarrow> 'v" where
  "dict_get z d k = (case map_of d k of None \<Rightarrow> z | Some v \<Rightarrow> v)"

text \<open>\<open>Counter\<close>, and the \<open>defaultdict(list)\<close> of the metric values.\<close>

definition counted :: "'a list \<Rightarrow> ('a, nat) dict" where
  "counted xs = fold (\<lambda>x d. AList.update x (dict_get 0 d x + 1) d) xs []"

definition appended :: "('k \<times> 'v) list \<Rightarrow> ('k, 'v list) dict" where
  "appended kvs = fold (\<lambda>(k, v) d. AList.update k (dict_get [] d k @ [v]) d) kvs []"

definition summarize_slice :: "(string \<times> string) list \<Rightarrow> validation_result list \<Rightarrow> slice_summary" where
  "summarize_slice key rs =
     (let counts = counted (map vr_action rs);
          values = appended (concat (map vr_metrics rs));
          filtered = sum_list (map (\<lambda>r. case realized_pnl r of None \<Rightarrow> 0 | Some p \<Rightarrow> p) rs);
          unfiltered = sum_list (map counterfactual_pnl rs);
          no_trade = sum_list (map counterfactual_pnl (filter (\<lambda>r. vr_action r = NO_TRADE) rs))
      in \<lparr>strata = key, sample_count = length rs, action_counts = counts,
          metric_means = map (\<lambda>(name, vs). (name, sum_list vs / of_nat (length vs))) values,
          trade_effect = \<lparr>eligible_count = length rs, no_trade_total = dict_get 0 counts NO_TRADE,
            entered_count = dict_get 0 counts ENTER, filtered_pnl_total = filtered,
            unfiltered_counterfactual_pnl_total = unfiltered,
            no_trade_counterfactual_pnl_total = no_trade, pnl_difference = filtered - unfiltered\<rparr>\<rparr>)"

definition dimension_value :: "validation_result \<Rightarrow> string \<Rightarrow> string" where
  "dimension_value r d = (if d = ''event_type'' then vr_event_type r else vr_regime r)"

definition stratum :: "string list \<Rightarrow> validation_result \<Rightarrow> string list" where
  "stratum dims r = map (dimension_value r) dims"

definition summarize_validation :: "validation_result list \<Rightarrow> string list \<Rightarrow> slice_summary list result" where
  "summarize_validation rs dims =
     (if dims = [] \<or> \<not> set dims \<subseteq> {''event_type'', ''regime''}
      then Inl (ValueError ''dimensions must contain event_type and/or regime'')
      else
        let slices = appended (map (\<lambda>r. (stratum dims r, r)) rs)
        in Inr (map (\<lambda>key. summarize_slice (zip dims key) (dict_get [] slices key)) (sort (map fst slices))))"

section \<open>Dictionaries\<close>

lemma appended_get: "dict_get [] (appended kvs) k = map snd (filter (\<lambda>kv. fst kv = k) kvs)"
  by (induction kvs rule: rev_induct) (auto simp: appended_def dict_get_def split: prod.splits)

lemma appended_keys: "fst ` set (appended kvs) = fst ` set kvs"
  by (induction kvs rule: rev_induct)
     (auto simp: appended_def dom_update split: prod.splits simp flip: dom_map_of_conv_image_fst)

lemma appended_ok: "dict_ok (appended kvs)"
  by (induction kvs rule: rev_induct) (auto simp: appended_def split: prod.splits)

lemma appended_lookup:
  assumes "(k, vs) \<in> set (appended kvs)"
  shows "vs = map snd (filter (\<lambda>kv. fst kv = k) kvs)"
proof -
  have "map_of (appended kvs) k = Some vs"
    using assms appended_ok [of kvs] by (simp add: dict_ok_def)
  then show ?thesis using appended_get [of kvs k] by (simp add: dict_get_def)
qed

lemma count_map: "count (mset (map f xs)) y = length (filter (\<lambda>x. f x = y) xs)"
  by (induction xs) auto

lemma counted_get: "dict_get 0 (counted xs) x = count (mset xs) x"
  by (induction xs rule: rev_induct) (auto simp: counted_def dict_get_def)

section \<open>Drawdown\<close>

definition equity_at :: "rat list \<Rightarrow> nat \<Rightarrow> rat" where
  "equity_at vs n = sum_list (take n vs)"

definition is_max :: "rat \<Rightarrow> rat set \<Rightarrow> bool" where
  "is_max m A \<longleftrightarrow> m \<in> A \<and> (\<forall>x \<in> A. x \<le> m)"

lemma is_max_Max: "finite A \<Longrightarrow> is_max m A \<Longrightarrow> m = Max A"
  by (auto simp: is_max_def intro!: Max_eqI [symmetric])

lemma is_max_union: "is_max m A \<Longrightarrow> is_max n B \<Longrightarrow> is_max (max m n) (A \<union> B)"
  by (auto simp: is_max_def max_def)

definition falls :: "rat list \<Rightarrow> rat set" where
  "falls vs = {equity_at vs i - equity_at vs j | i j. i \<le> j \<and> j \<le> length vs}"

definition levels :: "rat list \<Rightarrow> rat set" where
  "levels vs = equity_at vs ` {..length vs}"

lemma equity_snoc: "n \<le> length vs \<Longrightarrow> equity_at (vs @ [v]) n = equity_at vs n"
  by (simp add: equity_at_def)

lemma equity_snoc_last: "equity_at (vs @ [v]) (Suc (length vs)) = sum_list vs + v"
  by (simp add: equity_at_def)

lemma levels_snoc: "levels (vs @ [v]) = levels vs \<union> {sum_list vs + v}"
  by (auto simp: levels_def atMost_Suc equity_snoc equity_snoc_last)

lemma falls_snoc:
  "falls (vs @ [v]) = falls vs \<union> (\<lambda>x. x - (sum_list vs + v)) ` levels (vs @ [v])"
proof -
  have "falls (vs @ [v]) = {equity_at (vs @ [v]) i - equity_at (vs @ [v]) j | i j. i \<le> j \<and> j \<le> length vs}
      \<union> {equity_at (vs @ [v]) i - equity_at (vs @ [v]) (Suc (length vs)) | i. i \<le> Suc (length vs)}"
    unfolding falls_def length_append_singleton by (blast intro: le_SucI elim: le_SucE)
  also have "{equity_at (vs @ [v]) i - equity_at (vs @ [v]) j | i j. i \<le> j \<and> j \<le> length vs} = falls vs"
    by (force simp: falls_def equity_snoc)
  finally show ?thesis by (auto simp: levels_def equity_snoc_last)
qed

lemma is_max_shift: "is_max m A \<Longrightarrow> is_max (m - c) ((\<lambda>x. x - c) ` A)"
  by (auto simp: is_max_def)

lemma drawdown_loop_max:
  assumes "is_max peak (levels us)" and "is_max m (falls us)"
  shows "is_max (drawdown_loop (sum_list us) peak m vs) (falls (us @ vs))"
  using assms
proof (induction vs arbitrary: us peak m)
  case (Cons v vs)
  let ?e = "sum_list us + v"
  have peak: "is_max (max peak ?e) (levels (us @ [v]))"
    unfolding levels_snoc by (rule is_max_union [OF Cons.prems(1)]) (simp add: is_max_def)
  have "is_max (max m (max peak ?e - ?e)) (falls (us @ [v]))"
    unfolding falls_snoc by (rule is_max_union [OF Cons.prems(2) is_max_shift [OF peak]])
  from Cons.IH [OF peak this] show ?case by (simp add: Let_def)
qed simp

lemma falls_finite: "finite (falls vs)"
proof -
  have "falls vs \<subseteq> (\<lambda>(i, j). equity_at vs i - equity_at vs j) ` ({..length vs} \<times> {..length vs})"
    by (force simp: falls_def)
  then show ?thesis by (rule finite_subset) simp
qed

section \<open>Properties\<close>

text \<open>The one-pass drawdown is the definition of it: over all pairs of times, the largest fall of the
  cumulative profit, which starts at zero, from the earlier to the later one.\<close>

theorem drawdown_is_largest_fall:
  "maximum_drawdown vs =
     Max {sum_list (take i vs) - sum_list (take j vs) | i j. i \<le> j \<and> j \<le> length vs}"
proof -
  have start: "is_max 0 (levels [])" "is_max 0 (falls [])"
    by (auto simp: is_max_def levels_def falls_def equity_at_def)
  have "is_max (maximum_drawdown vs) (falls vs)"
    using drawdown_loop_max [OF start, of vs] by (simp add: maximum_drawdown_def)
  then have "maximum_drawdown vs = Max (falls vs)" by (rule is_max_Max [OF falls_finite])
  then show ?thesis by (simp add: falls_def equity_at_def)
qed


text \<open>The tail of \<open>k\<close> observations that is averaged is the worst one.\<close>

lemma smallest_sum:
  assumes "sorted xs" and "T \<subseteq># mset xs"
  shows "sum_list (take (size T) xs) \<le> sum_mset (T :: rat multiset)"
  using assms
proof (induction xs arbitrary: T)
  case (Cons x xs)
  show ?case
  proof (cases "T = {#}")
    case False
    obtain y U where y: "T = add_mset y U" "x \<le> y" "U \<subseteq># mset xs"
    proof (cases "x \<in># T")
      case True
      then obtain U where "T = add_mset x U" by (auto dest: multi_member_split)
      with Cons.prems(2) show ?thesis by (intro that [of x U]) auto
    next
      case outside: False
      with Cons.prems(2) have sub: "T \<subseteq># mset xs"
        by (intro mset_subset_eqI, drule_tac a = a in mset_subset_eq_count)
           (auto simp: not_in_iff split: if_splits)
      from False obtain y U where yU: "T = add_mset y U" by (metis multiset_cases)
      with sub have "y \<in># mset xs" and "U \<subseteq># mset xs"
        by (auto simp: insert_subset_eq_iff dest: mset_subset_eqD intro: subset_mset.order_trans)
      with Cons.prems(1) yU show ?thesis by (intro that [of y U]) auto
    qed
    then show ?thesis using Cons.IH [of U] Cons.prems(1) by (auto intro: add_mono)
  qed simp
qed simp

text \<open>The empirical tail loss is exact: it is the average loss of the worst tail of \<open>k\<close> observations,
  never below zero, and no \<open>k\<close> observations lose more on average.\<close>

theorem empirical_cvar_is_worst_tail:
  assumes "conditional_value_at_risk pnl c = Inr v"
  shows "let k = nat (max 1 \<lceil>of_nat (length pnl) * (1 - c)\<rceil>) in
      0 \<le> v \<and> k \<le> length pnl
    \<and> (\<forall>T. T \<subseteq># mset pnl \<and> size T = k \<longrightarrow> - sum_mset T / of_nat k \<le> v)
    \<and> (v = 0 \<or> (\<exists>T. T \<subseteq># mset pnl \<and> size T = k \<and> v = - sum_mset T / of_nat k))"
proof -
  let ?k = "nat (max 1 \<lceil>of_nat (length pnl) * (1 - c)\<rceil>)"
  have c: "pnl \<noteq> []" "0 < c" "c < 1" using assms by (auto simp: conditional_value_at_risk_def split: if_splits)
  have "of_nat (length pnl) * (1 - c) \<le> of_nat (length pnl) * 1"
    by (rule mult_left_mono) (use c in auto)
  then have "\<lceil>of_nat (length pnl) * (1 - c)\<rceil> \<le> int (length pnl)" by (simp add: ceiling_le_iff)
  moreover have "1 \<le> int (length pnl)" using c(1) by (cases pnl) auto
  ultimately have k: "?k \<le> length pnl" "0 < ?k" by linarith+
  have v: "v = max 0 (- sum_list (take ?k (sort pnl)) / of_nat ?k)"
    using assms c k(1) by (simp add: conditional_value_at_risk_def Let_def min_absorb2)
  have "- sum_mset T / of_nat ?k \<le> v" if "T \<subseteq># mset pnl" "size T = ?k" for T
    using smallest_sum [of "sort pnl" T] that k(2)
    by (simp add: v le_max_iff_disj divide_right_mono)
  moreover have "v = 0 \<or> v = - sum_mset (mset (take ?k (sort pnl))) / of_nat ?k"
    by (simp add: v max_def sum_mset_sum_list)
  moreover have "mset (take ?k (sort pnl)) \<subseteq># mset pnl"
    by (metis append_take_drop_id mset_append mset_sort mset_subset_eq_add_left)
  moreover have "size (mset (take ?k (sort pnl))) = ?k" using k(1) by simp
  moreover have "0 \<le> v" by (simp add: v)
  ultimately show ?thesis using k(1) unfolding Let_def by blast
qed

section \<open>Slices\<close>

lemma summarize_Inr:
  assumes "summarize_validation rs dims = Inr slices"
  obtains keys where "sorted keys" and "distinct keys" and "set keys = stratum dims ` set rs"
    and "slices = map (\<lambda>key. summarize_slice (zip dims key) (filter (\<lambda>r. stratum dims r = key) rs)) keys"
proof -
  let ?kvs = "map (\<lambda>r. (stratum dims r, r)) rs"
  let ?keys = "sort (map fst (appended ?kvs))"
  have own: "dict_get [] (appended ?kvs) key = filter (\<lambda>r. stratum dims r = key) rs" for key
    by (simp add: appended_get filter_map comp_def)
  have "distinct ?keys" using appended_ok [of ?kvs] by (simp add: dict_ok_def)
  moreover have "set ?keys = stratum dims ` set rs" by (simp add: appended_keys image_image)
  moreover have "slices = map (\<lambda>key. summarize_slice (zip dims key) (filter (\<lambda>r. stratum dims r = key) rs)) ?keys"
    using assms by (simp add: summarize_validation_def Let_def own split: if_splits)
  ultimately show ?thesis by (intro that [of ?keys]) simp_all
qed

lemma sum_by_key:
  fixes g :: "'a \<Rightarrow> 'b::comm_monoid_add"
  assumes "finite K" and "key ` set rs \<subseteq> K"
  shows "(\<Sum>k\<in>K. sum_list (map g (filter (\<lambda>r. key r = k) rs))) = sum_list (map g rs)"
  using assms(2)
proof (induction rs)
  case (Cons r rs)
  have "(\<Sum>k\<in>K. sum_list (map g (filter (\<lambda>r. key r = k) (r # rs))))
      = (\<Sum>k\<in>K. (if key r = k then g r else 0) + sum_list (map g (filter (\<lambda>r. key r = k) rs)))"
    by (rule sum.cong) simp_all
  also have "\<dots> = g r + sum_list (map g rs)" using assms(1) Cons by (simp add: sum.distrib)
  finally show ?case by simp
qed simp

text \<open>What not trading, or trading, gained against the counterfactual.\<close>

definition gain :: "validation_result \<Rightarrow> rat" where
  "gain r = (case realized_pnl r of None \<Rightarrow> 0 | Some p \<Rightarrow> p) - counterfactual_pnl r"

lemma slice_gain: "pnl_difference (trade_effect (summarize_slice key rs)) = sum_list (map gain rs)"
  by (simp add: summarize_slice_def Let_def gain_def [abs_def] sum_list_subtractf)

lemma slice_metric:
  assumes "(name, mean) \<in> set (metric_means (summarize_slice key rs))"
  shows "let vs = map snd (filter (\<lambda>m. fst m = name) (concat (map vr_metrics rs)))
         in vs \<noteq> [] \<and> mean = sum_list vs / of_nat (length vs)"
proof -
  let ?kvs = "concat (map vr_metrics rs)"
  obtain vs where vs: "(name, vs) \<in> set (appended ?kvs)" "mean = sum_list vs / of_nat (length vs)"
    using assms by (auto simp: summarize_slice_def Let_def)
  have "name \<in> fst ` set (appended ?kvs)" using vs(1) by force
  then have "vs \<noteq> []" unfolding appended_keys appended_lookup [OF vs(1)] by (auto simp: filter_empty_conv)
  with vs appended_lookup [OF vs(1)] show ?thesis by simp
qed

text \<open>The summary partitions the results: its strata are the distinct strata of the results in
  order, each slice counts exactly the results of its stratum, its effect is what their realized
  profits gained over the counterfactual, each mean is over exactly the values reported under that
  name, and counts and effects of the slices add up to those of all results.\<close>

theorem summary_partitions_results:
  assumes "summarize_validation rs dims = Inr slices"
  shows "let keys = map (\<lambda>s. map snd (strata s)) slices in
      sorted keys \<and> distinct keys \<and> set keys = stratum dims ` set rs
    \<and> (\<forall>s \<in> set slices. let own = filter (\<lambda>r. stratum dims r = map snd (strata s)) rs in
          sample_count s = length own \<and> own \<noteq> []
        \<and> no_trade_total (trade_effect s) = length (filter (\<lambda>r. vr_action r = NO_TRADE) own)
        \<and> pnl_difference (trade_effect s) = sum_list (map gain own)
        \<and> (\<forall>(name, mean) \<in> set (metric_means s).
             let vs = map snd (filter (\<lambda>m. fst m = name) (concat (map vr_metrics own)))
             in vs \<noteq> [] \<and> mean = sum_list vs / of_nat (length vs)))
    \<and> sum_list (map sample_count slices) = length rs
    \<and> sum_list (map (\<lambda>s. pnl_difference (trade_effect s)) slices) = sum_list (map gain rs)"
proof -
  obtain keys where keys: "sorted keys" "distinct keys" "set keys = stratum dims ` set rs"
    and slices: "slices = map (\<lambda>key. summarize_slice (zip dims key) (filter (\<lambda>r. stratum dims r = key) rs)) keys"
    by (rule summarize_Inr [OF assms])
  have key: "map snd (strata (summarize_slice (zip dims key) us)) = key" if "key \<in> set keys" for key us
    using that keys(3) by (auto simp: summarize_slice_def Let_def stratum_def map_snd_zip)
  then have names: "map (\<lambda>s. map snd (strata s)) slices = keys" by (simp add: slices comp_def map_idI)
  have own: "\<exists>r \<in> set rs. stratum dims r = key" if "key \<in> set keys" for key using that keys(3) by auto
  have counts: "no_trade_total (trade_effect (summarize_slice k us)) = length (filter (\<lambda>r. vr_action r = NO_TRADE) us)"
      "sample_count (summarize_slice k us) = length us" for k us
    by (simp_all add: summarize_slice_def Let_def counted_get count_map del: mset_map)
  have sums: "sum_list (map sample_count slices) = length rs"
      "sum_list (map (\<lambda>s. pnl_difference (trade_effect s)) slices) = sum_list (map gain rs)"
    using sum_by_key [of "set keys" "stratum dims" rs "\<lambda>_. 1::nat"] sum_by_key [of "set keys" "stratum dims" rs gain]
      keys(2,3)
    by (simp_all add: slices comp_def counts slice_gain sum_list_distinct_conv_sum_set sum_list_triv)
  have each: "let own = filter (\<lambda>r. stratum dims r = map snd (strata s)) rs in
          sample_count s = length own \<and> own \<noteq> []
        \<and> no_trade_total (trade_effect s) = length (filter (\<lambda>r. vr_action r = NO_TRADE) own)
        \<and> pnl_difference (trade_effect s) = sum_list (map gain own)
        \<and> (\<forall>(name, mean) \<in> set (metric_means s).
             let vs = map snd (filter (\<lambda>m. fst m = name) (concat (map vr_metrics own)))
             in vs \<noteq> [] \<and> mean = sum_list vs / of_nat (length vs))" if "s \<in> set slices" for s
  proof -
    from that obtain k where k: "k \<in> set keys" and
      s: "s = summarize_slice (zip dims k) (filter (\<lambda>r. stratum dims r = k) rs)" by (auto simp: slices)
    have "filter (\<lambda>r. stratum dims r = k) rs \<noteq> []" using own [OF k] by (auto simp: filter_empty_conv)
    moreover have "\<forall>(name, mean) \<in> set (metric_means s).
        let vs = map snd (filter (\<lambda>m. fst m = name) (concat (map vr_metrics (filter (\<lambda>r. stratum dims r = k) rs))))
        in vs \<noteq> [] \<and> mean = sum_list vs / of_nat (length vs)"
      unfolding s using slice_metric by blast
    ultimately show ?thesis using k by (simp add: s key counts slice_gain Let_def)
  qed
  with keys sums show ?thesis unfolding Let_def names by blast
qed

definition example_result :: "string \<Rightarrow> decision_action \<Rightarrow> rat option \<Rightarrow> validation_result" where
  "example_result kind a p = \<lparr>vr_sample_id = ''s'', vr_event_type = kind, vr_regime = ''calm'', vr_action = a,
     counterfactual_pnl = 3, realized_pnl = p, vr_metrics = [(''brier'', 1 / 2)]\<rparr>"

theorem summary_partitions_results_witness:
  "\<exists>slices. summarize_validation [example_result ''FOMC'' NO_TRADE None, example_result ''CPI'' ENTER (Some 5)]
       [''event_type''] = Inr slices
     \<and> sum_list (map sample_count slices) = 2
     \<and> sum_list (map (\<lambda>s. pnl_difference (trade_effect s)) slices) = -1"
proof -
  let ?rs = "[example_result ''FOMC'' NO_TRADE None, example_result ''CPI'' ENTER (Some 5)]"
  obtain slices where s: "summarize_validation ?rs [''event_type''] = Inr slices"
    by (simp add: summarize_validation_def Let_def)
  from summary_partitions_results [OF s] s show ?thesis
    by (simp add: Let_def gain_def example_result_def)
qed

end
