(* ===== verification/Calendar.thy ===== *)
theory Calendar
  imports PyTime
begin

text \<open>
  The trading calendars (\<open>domain/trading_calendar.py\<close>, \<open>ingest/calendar.py\<close>): the verified US equity
  calendar and its sessions, the Globex session clock, and the days of a window that the calendar
  proves tradable.  A \<open>time\<close> is its microsecond of the day.  The wall clock of New York is three
  parameters: \<open>et_utc\<close> from a date and a time to the instant, \<open>et_date\<close> and \<open>et_clock\<close> back.
\<close>

section \<open>The equity calendar\<close>

datatype trading_day_status = TRADING_DAY | WEEKEND | HOLIDAY | DAY_UNVERIFIED

type_synonym pytime = int

definition clock :: "int \<Rightarrow> int \<Rightarrow> int \<Rightarrow> pytime" where
  "clock h m s = ((h * 60 + m) * 60 + s) * 1000000"

record equity_config =
  ec_verified_from :: pydate
  ec_verified_through :: pydate
  holidays :: "pydate set"
  early_closes :: "(pydate, pytime) dict"
  ec_timezone :: string

definition mk_equity_config :: "equity_config \<Rightarrow> equity_config result" where
  "mk_equity_config c =
     (if ec_timezone c \<noteq> ''America/New_York''
        then Inl (ValueError ''equity calendar timezone must be America/New_York'')
      else if ec_verified_from c > ec_verified_through c
        then Inl (ValueError ''verified_from must not be after verified_through'')
      else if \<exists>d \<in> holidays c. d < ec_verified_from c \<or> d > ec_verified_through c
        then Inl (ValueError ''holiday dates must be inside the verified calendar range'')
      else if \<exists>d \<in> fst ` set (early_closes c). d < ec_verified_from c \<or> d > ec_verified_through c
        then Inl (ValueError ''early-close dates must be inside the verified calendar range'')
      else if fst ` set (early_closes c) \<inter> holidays c \<noteq> {}
        then Inl (ValueError ''a date cannot be both a holiday and an early close'')
      else if \<exists>d \<in> holidays c \<union> fst ` set (early_closes c). weekday d \<ge> 5
        then Inl (ValueError ''weekend dates must not be configured as holidays or early closes'')
      else if \<exists>t \<in> snd ` set (early_closes c). t \<ge> clock 16 0 0
        then Inl (ValueError ''an early close must be before 16:00 America/New_York'')
      else Inr c)"

record equity_session =
  session_date :: pydate
  day_state :: trading_day_status
  opens_at :: "instant option"
  preopen_cutoff_at :: "instant option"
  closes_at :: "instant option"
  anchor_at :: "instant option"
  is_early_close :: bool

definition permits_trading :: "equity_session \<Rightarrow> bool" where
  "permits_trading s \<longleftrightarrow> day_state s = TRADING_DAY"

definition regular_open :: pytime where "regular_open = clock 9 30 0"
definition preopen_cutoff :: pytime where "preopen_cutoff = clock 9 29 59"
definition regular_close :: pytime where "regular_close = clock 16 0 0"

definition in_verified_range :: "equity_config \<Rightarrow> pydate \<Rightarrow> bool" where
  "in_verified_range c d \<longleftrightarrow> ec_verified_from c \<le> d \<and> d \<le> ec_verified_through c"

definition day_status :: "equity_config \<Rightarrow> pydate \<Rightarrow> trading_day_status" where
  "day_status c d =
     (if weekday d \<ge> 5 then WEEKEND
      else if \<not> in_verified_range c d then DAY_UNVERIFIED
      else if d \<in> holidays c then HOLIDAY
      else TRADING_DAY)"

definition calendar_session :: "(pydate \<Rightarrow> pytime \<Rightarrow> instant) \<Rightarrow> equity_config \<Rightarrow> pydate \<Rightarrow> equity_session" where
  "calendar_session et_utc c d =
     (let state = day_status c d in
      if state \<noteq> TRADING_DAY
      then \<lparr>session_date = d, day_state = state, opens_at = None, preopen_cutoff_at = None,
            closes_at = None, anchor_at = None, is_early_close = False\<rparr>
      else
        let close = (case map_of (early_closes c) d of None \<Rightarrow> regular_close | Some t \<Rightarrow> t)
        in \<lparr>session_date = d, day_state = state, opens_at = Some (et_utc d regular_open),
            preopen_cutoff_at = Some (et_utc d preopen_cutoff), closes_at = Some (et_utc d close),
            anchor_at = Some (et_utc d close), is_early_close = (map_of (early_closes c) d \<noteq> None)\<rparr>)"

section \<open>The Globex clock\<close>

datatype session_state = GLOBEX_OPEN | GLOBEX_CLOSED | GLOBEX_MAINTENANCE | GLOBEX_UNVERIFIED

record globex_config =
  gc_verified_from :: pydate
  gc_verified_through :: pydate
  closed_dates :: "pydate set"
  gc_timezone :: string

definition mk_globex_config :: "globex_config \<Rightarrow> globex_config result" where
  "mk_globex_config c =
     (if gc_timezone c \<noteq> ''America/New_York'' then Inl (ValueError ''Globex calendar timezone must be America/New_York'')
      else if gc_verified_from c > gc_verified_through c
        then Inl (ValueError ''verified_from must not be after verified_through'')
      else if \<exists>d \<in> closed_dates c. d < gc_verified_from c \<or> d > gc_verified_through c
        then Inl (ValueError ''closed dates must be inside the verified calendar range'')
      else Inr c)"

definition maintenance_start :: pytime where "maintenance_start = clock 17 0 0"
definition maintenance_end :: pytime where "maintenance_end = clock 18 0 0"

definition state_at :: "(instant \<Rightarrow> pydate) \<Rightarrow> (instant \<Rightarrow> pytime) \<Rightarrow> globex_config \<Rightarrow> datetime \<Rightarrow> session_state result" where
  "state_at et_date et_clock c tm =
     res_bind (to_utc (ValueError ''instant must be timezone-aware'') tm) (\<lambda>t.
       let d = et_date t; time = et_clock t in
       if d < gc_verified_from c \<or> d > gc_verified_through c then Inr GLOBEX_UNVERIFIED
       else if d \<in> closed_dates c then Inr GLOBEX_CLOSED
       else if weekday d = 5 \<or> (weekday d = 4 \<and> time \<ge> maintenance_start) then Inr GLOBEX_CLOSED
       else if weekday d = 6 \<and> time < maintenance_end then Inr GLOBEX_CLOSED
       else if maintenance_start \<le> time \<and> time < maintenance_end then Inr GLOBEX_MAINTENANCE
       else Inr GLOBEX_OPEN)"

section \<open>Loading and expanding\<close>

text \<open>The decoded TOML document, its dates and times parsed; keys that are absent default to empty.\<close>

record calendar_document =
  doc_verified_from :: pydate
  doc_verified_through :: pydate
  doc_holidays :: "pydate list"
  doc_early_closes :: "(pydate \<times> pytime) list"

definition load_equity_calendar :: "calendar_document \<Rightarrow> equity_config result" where
  "load_equity_calendar doc = mk_equity_config
     \<lparr>ec_verified_from = doc_verified_from doc, ec_verified_through = doc_verified_through doc,
      holidays = set (doc_holidays doc),
      early_closes = fold (\<lambda>(d, t). AList.update d t) (doc_early_closes doc) [],
      ec_timezone = ''America/New_York''\<rparr>"

function days_loop :: "equity_config \<Rightarrow> pydate \<Rightarrow> pydate \<Rightarrow> pydate list \<Rightarrow> pydate list" where
  "days_loop c current stop days =
     (if current \<le> stop
      then days_loop c (current + 1) stop (if day_status c current = TRADING_DAY then days @ [current] else days)
      else days)"
  by pat_completeness auto
termination by (relation "measure (\<lambda>(c, current, stop, days). nat (stop + 1 - current))") auto

declare days_loop.simps [simp del]

definition trading_days :: "equity_config \<Rightarrow> pydate \<Rightarrow> pydate \<Rightarrow> pydate list result" where
  "trading_days c start stop =
     (if start > stop then Inl (ValueError ''start must not be after end'') else Inr (days_loop c start stop []))"

section \<open>Properties\<close>

lemma days_loop_filter:
  "days_loop c current stop days = days @ filter (\<lambda>d. day_status c d = TRADING_DAY) [current..stop]"
proof (induction c current stop days rule: days_loop.induct)
  case (1 c current stop days)
  show ?case
  proof (cases "current \<le> stop")
    case True
    with 1 show ?thesis by (subst days_loop.simps) (simp add: upto_rec1)
  next
    case False
    then show ?thesis by (subst days_loop.simps) simp
  qed
qed

lemma trading_day_iff:
  "day_status c d = TRADING_DAY \<longleftrightarrow>
     weekday d < 5 \<and> ec_verified_from c \<le> d \<and> d \<le> ec_verified_through c \<and> d \<notin> holidays c"
  by (auto simp: day_status_def in_verified_range_def)

lemma weekday_range: "0 \<le> weekday d" "weekday d < 7"
  by (simp_all add: weekday_def)

text \<open>Expanding a window lists exactly the days the calendar proves tradable, each once and in
  order: the weekdays of the window inside the verified range that are no holiday; it returns for
  every window whose start is not after its end, and any other window is an error.\<close>

theorem trading_days_exact:
  "case trading_days c start stop of
     Inl e \<Rightarrow> stop < start
   | Inr days \<Rightarrow> start \<le> stop \<and> sorted_wrt (<) days
       \<and> set days = {d. start \<le> d \<and> d \<le> stop \<and> weekday d < 5 \<and> d \<notin> holidays c
                      \<and> ec_verified_from c \<le> d \<and> d \<le> ec_verified_through c}"
proof -
  have "sorted_wrt (<) [start..stop]" by (simp add: strict_sorted_iff)
  then have "sorted_wrt (<) (filter P [start..stop])" for P by (rule sorted_wrt_filter)
  then show ?thesis by (auto simp: trading_days_def days_loop_filter trading_day_iff)
qed

text \<open>A session fails closed: a valid calendar permits trading exactly on its verified weekdays that
  are no holiday; on any other day the session has no times, and on a permitted day it opens at
  9:30, is anchored to its close, and closes at 16:00 or, on exactly the days configured so,
  earlier.\<close>

theorem equity_session_fails_closed:
  assumes "mk_equity_config c = Inr c'"
  shows "let s = calendar_session et_utc c' d in
      (permits_trading s \<longleftrightarrow> weekday d < 5 \<and> ec_verified_from c \<le> d \<and> d \<le> ec_verified_through c \<and> d \<notin> holidays c)
    \<and> (if permits_trading s
       then opens_at s = Some (et_utc d (clock 9 30 0)) \<and> anchor_at s = closes_at s
         \<and> (\<exists>t. closes_at s = Some (et_utc d t) \<and>
              (if is_early_close s then t < clock 16 0 0 \<and> (d, t) \<in> set (early_closes c) else t = clock 16 0 0))
         \<and> is_early_close s = (d \<in> fst ` set (early_closes c))
       else opens_at s = None \<and> preopen_cutoff_at s = None \<and> closes_at s = None \<and> anchor_at s = None
         \<and> \<not> is_early_close s)"
proof -
  have c: "c' = c" "\<forall>t \<in> snd ` set (early_closes c). t < clock 16 0 0"
    using assms by (auto simp: mk_equity_config_def split: if_splits)
  have early: "t < clock 16 0 0 \<and> (d, t) \<in> set (early_closes c)" if "map_of (early_closes c) d = Some t" for t
    using map_of_SomeD [OF that] c(2) by force
  have listed: "map_of (early_closes c) d = None \<longleftrightarrow> d \<notin> fst ` set (early_closes c)"
    by (simp add: map_of_eq_None_iff)
  show ?thesis
  proof (cases "day_status c d = TRADING_DAY")
    case True
    then show ?thesis using early listed trading_day_iff [of c d]
      by (cases "map_of (early_closes c) d")
         (auto simp: c(1) calendar_session_def permits_trading_def Let_def regular_open_def regular_close_def)
  next
    case False
    then show ?thesis using trading_day_iff [of c d]
      by (simp add: c(1) calendar_session_def permits_trading_def Let_def)
  qed
qed

theorem equity_session_fails_closed_witness:
  "let c = \<lparr>ec_verified_from = 739845, ec_verified_through = 739849, holidays = {739846},
            early_closes = [(739847, clock 13 0 0)], ec_timezone = ''America/New_York''\<rparr> in
     permits_trading (calendar_session (\<lambda>d t. d * day_us + t) c 739847)
   \<and> \<not> permits_trading (calendar_session (\<lambda>d t. d * day_us + t) c 739846)
   \<and> is_early_close (calendar_session (\<lambda>d t. d * day_us + t) c 739847)"
proof -
  let ?c = "\<lparr>ec_verified_from = 739845, ec_verified_through = 739849, holidays = {739846},
            early_closes = [(739847, clock 13 0 0)], ec_timezone = ''America/New_York''\<rparr>"
  have "mk_equity_config ?c = Inr ?c" by (simp add: mk_equity_config_def weekday_def clock_def)
  from equity_session_fails_closed [OF this, of "\<lambda>d t. d * day_us + t" 739847, unfolded Let_def]
    equity_session_fails_closed [OF this, of "\<lambda>d t. d * day_us + t" 739846, unfolded Let_def]
  show ?thesis by (simp add: weekday_def Let_def)
qed

text \<open>The Globex clock is the weekly schedule: at an instant whose New York date is verified and not
  configured as closed, the market is closed exactly from Friday 17:00 to Sunday 18:00, in
  maintenance exactly in the hour from 17:00 of the other days, and open otherwise; outside the
  verified dates the state is never open.\<close>

theorem globex_follows_week:
  assumes "mk_globex_config c = Inr c'" and "0 \<le> et_clock t" and "et_clock t < day_us"
  shows "let d = et_date t; week = weekday d * day_us + et_clock t;
          weekend = (4 * day_us + clock 17 0 0 \<le> week \<and> week < 6 * day_us + clock 18 0 0);
          pause = (clock 17 0 0 \<le> et_clock t \<and> et_clock t < clock 18 0 0)
      in state_at et_date et_clock c' (Aware t) = Inr
        (if \<not> (gc_verified_from c \<le> d \<and> d \<le> gc_verified_through c) then GLOBEX_UNVERIFIED
         else if d \<in> closed_dates c \<or> weekend then GLOBEX_CLOSED
         else if pause then GLOBEX_MAINTENANCE else GLOBEX_OPEN)"
proof -
  let ?w = "weekday (et_date t)"
  have c: "c' = c" using assms(1) by (auto simp: mk_globex_config_def split: if_splits)
  have "?w \<in> {0, 1, 2, 3, 4, 5, 6}" using weekday_range [of "et_date t"] by auto
  then have "(4 * day_us + clock 17 0 0 \<le> ?w * day_us + et_clock t \<and> ?w * day_us + et_clock t < 6 * day_us + clock 18 0 0)
      \<longleftrightarrow> ?w = 5 \<or> (?w = 4 \<and> et_clock t \<ge> clock 17 0 0) \<or> (?w = 6 \<and> et_clock t < clock 18 0 0)"
    using assms(2,3) by (auto simp: day_us_def clock_def)
  then show ?thesis
    unfolding Let_def by (auto simp: c state_at_def Let_def maintenance_start_def maintenance_end_def)
qed

theorem globex_follows_week_witness:
  "let c = \<lparr>gc_verified_from = 739845, gc_verified_through = 739860, closed_dates = {}, gc_timezone = ''America/New_York''\<rparr>
   in state_at date_of time_of_day c (Aware (739848 * day_us + clock 17 0 0)) = Inr GLOBEX_CLOSED
    \<and> state_at date_of time_of_day c (Aware (739844 * day_us + clock 17 59 59)) = Inr GLOBEX_MAINTENANCE
    \<and> state_at date_of time_of_day c (Aware (739850 * day_us + clock 18 0 0)) = Inr GLOBEX_OPEN"
proof -
  let ?c = "\<lparr>gc_verified_from = 739845, gc_verified_through = 739860, closed_dates = {}, gc_timezone = ''America/New_York''\<rparr>"
  have ok: "mk_globex_config ?c = Inr ?c" by (simp add: mk_globex_config_def)
  have "0 \<le> time_of_day t" "time_of_day t < day_us" for t by (simp_all add: time_of_day_def day_us_def)
  from globex_follows_week [where et_clock = time_of_day and et_date = date_of, OF ok this]
  show ?thesis by (simp add: Let_def date_of_def time_of_day_def day_us_def clock_def weekday_def)
qed

end
