(* ===== verification/Auth.thy ===== *)
theory Auth
  imports PyText
begin

text \<open>
  Authentication of the HTTP layer (\<open>services/auth.py\<close>): the configuration from the environment, the
  bearer token, the role a route requires and the middleware that forwards a request or refuses it.
  The digest of a token is the parameter \<open>sha\<close>; the handler behind the middleware is the response it
  would give, and the middleware says whether it was called.
\<close>

datatype auth_mode = LOCAL_MODE | SHARED_MODE | PRODUCTION_MODE

datatype auth_role = READ_ONLY | OPERATOR | REVIEWER

type_synonym environment = "string \<rightharpoonup> string"

definition env_get :: "environment \<Rightarrow> string \<Rightarrow> string \<Rightarrow> string" where
  "env_get env key z = (case env key of None \<Rightarrow> z | Some v \<Rightarrow> v)"

fun token_variable :: "auth_role \<Rightarrow> string" where
  "token_variable READ_ONLY = ''MARKETPILOT_READ_ONLY_TOKEN''"
| "token_variable OPERATOR = ''MARKETPILOT_OPERATOR_TOKEN''"
| "token_variable REVIEWER = ''MARKETPILOT_REVIEWER_TOKEN''"

definition token_roles :: "auth_role list" where
  "token_roles = [READ_ONLY, OPERATOR, REVIEWER]"

definition safe_methods :: "string list" where
  "safe_methods = [''GET'', ''HEAD'', ''OPTIONS'']"

definition min_token_length :: nat where "min_token_length = 32"

record auth_config =
  auth_mode_of :: auth_mode
  auth_code_version :: string
  token_digests :: "(auth_role \<times> string) list"

definition protected :: "auth_config \<Rightarrow> bool" where
  "protected c \<longleftrightarrow> auth_mode_of c \<noteq> LOCAL_MODE"

definition docs_enabled :: "auth_config \<Rightarrow> bool" where
  "docs_enabled c \<longleftrightarrow> auth_mode_of c = LOCAL_MODE"

definition deployment_of :: "environment \<Rightarrow> string" where
  "deployment_of env = lower (strip (env_get env ''MARKETPILOT_ENV'' ''development''))"

definition local_deployment :: "string \<Rightarrow> bool" where
  "local_deployment d \<longleftrightarrow> d \<in> set [''development'', ''test'', ''local'']"

definition auth_mode_from :: "environment \<Rightarrow> auth_mode result" where
  "auth_mode_from env =
     (let deployment = deployment_of env;
          configured = lower (strip (env_get env ''MARKETPILOT_AUTH_MODE'' []))
      in if configured \<noteq> [] then
           (if configured = ''local'' then Inr LOCAL_MODE
            else if configured = ''shared'' then Inr SHARED_MODE
            else if configured = ''production'' then Inr PRODUCTION_MODE
            else Inl (AuthConfigurationError ''MARKETPILOT_AUTH_MODE must be local, shared, or production''))
         else if local_deployment deployment then Inr LOCAL_MODE
         else if deployment = ''production'' then Inr PRODUCTION_MODE
         else Inr SHARED_MODE)"

definition role_token :: "environment \<Rightarrow> auth_role \<Rightarrow> string" where
  "role_token env role = env_get env (token_variable role) []"

definition read_token :: "environment \<Rightarrow> auth_role \<Rightarrow> (auth_role \<times> string) result" where
  "read_token env role =
     (let token = role_token env role in
      if length token < min_token_length \<or> token \<noteq> strip token
      then Inl (AuthConfigurationError (token_variable role
             @ '' must be a non-whitespace token of at least 32 characters''))
      else Inr (role, token))"

definition auth_from_env :: "(string \<Rightarrow> string) \<Rightarrow> environment \<Rightarrow> auth_config result" where
  "auth_from_env sha env =
     res_bind (auth_mode_from env) (\<lambda>mode.
       if mode = LOCAL_MODE then
         (if \<not> local_deployment (deployment_of env)
          then Inl (AuthConfigurationError ''local authentication bypass is forbidden outside a local deployment'')
          else Inr \<lparr>auth_mode_of = mode,
                 auth_code_version = strip (env_get env ''MARKETPILOT_CODE_VERSION'' ''development-unpinned''),
                 token_digests = []\<rparr>)
       else
         let version = strip (env_get env ''MARKETPILOT_CODE_VERSION'' []) in
         if version = [] \<or> version = ''development-unpinned'' \<or> length version > 120
         then Inl (AuthConfigurationError ''MARKETPILOT_CODE_VERSION must identify the pinned deployed artifact'')
         else res_bind (res_map (read_token env) token_roles) (\<lambda>tokens.
           if \<not> distinct (map snd tokens)
           then Inl (AuthConfigurationError ''authentication tokens must be unique per role'')
           else Inr \<lparr>auth_mode_of = mode, auth_code_version = version,
                  token_digests = map (\<lambda>(role, token). (role, sha token)) tokens\<rparr>))"

definition bearer_token :: "string option \<Rightarrow> string option" where
  "bearer_token authorization =
     (case authorization of
        None \<Rightarrow> None
      | Some text \<Rightarrow>
          let scheme = takeWhile (\<lambda>c. c \<noteq> CHR '' '') text; rest = dropWhile (\<lambda>c. c \<noteq> CHR '' '') text;
              token = drop 1 rest
          in if rest = [] \<or> lower scheme \<noteq> ''bearer'' \<or> token = [] then None
             else if token \<noteq> strip token \<or> list_ex is_space token then None
             else Some token)"

text \<open>Every configured digest is compared; the last match wins.\<close>

fun match_loop :: "string \<Rightarrow> (auth_role \<times> string) list \<Rightarrow> auth_role option \<Rightarrow> auth_role option" where
  "match_loop supplied [] matched = matched"
| "match_loop supplied ((role, expected) # rest) matched =
     match_loop supplied rest (if supplied = expected then Some role else matched)"

definition authenticate :: "(string \<Rightarrow> string) \<Rightarrow> auth_config \<Rightarrow> string option \<Rightarrow> auth_role option" where
  "authenticate sha c authorization =
     (case bearer_token authorization of
        None \<Rightarrow> None
      | Some token \<Rightarrow> match_loop (sha token) (token_digests c) None)"

definition required_role :: "string \<Rightarrow> string \<Rightarrow> auth_role option" where
  "required_role method path =
     (if path = ''/health'' \<or> \<not> starts_with ''/v1'' path then None
      else if upper method \<in> set safe_methods then Some READ_ONLY
      else if path = ''/v1/governance'' \<or> starts_with ''/v1/governance/'' path then Some REVIEWER
      else Some OPERATOR)"

definition role_allows :: "auth_role \<Rightarrow> auth_role \<Rightarrow> bool" where
  "role_allows actual required = (if required = READ_ONLY then True else actual = required)"

record http_response =
  status_code :: int
  response_headers :: "(string, string) dict"
  response_body :: string

definition set_default :: "('k, 'v) dict \<Rightarrow> 'k \<Rightarrow> 'v \<Rightarrow> ('k, 'v) dict" where
  "set_default d k v = (if map_of d k = None then AList.update k v d else d)"

definition authorize ::
  "(string \<Rightarrow> string) \<Rightarrow> auth_config \<Rightarrow> string \<Rightarrow> string \<Rightarrow> string option \<Rightarrow> http_response \<Rightarrow> bool \<times> http_response" where
  "authorize sha c method path authorization handler =
     (case (protected c, required_role method path) of
        (False, _) \<Rightarrow> (True, handler)
      | (_, None) \<Rightarrow> (True, handler)
      | (True, Some required) \<Rightarrow>
          (case authenticate sha c authorization of
             None \<Rightarrow> (False, \<lparr>status_code = 401,
               response_headers = [(''WWW-Authenticate'', ''Bearer''), (''Cache-Control'', ''no-store'')],
               response_body = ''authentication required''\<rparr>)
           | Some role \<Rightarrow>
               if \<not> role_allows role required
               then (False, \<lparr>status_code = 403, response_headers = [(''Cache-Control'', ''no-store'')],
                       response_body = ''insufficient permissions''\<rparr>)
               else (True, handler\<lparr>response_headers :=
                       set_default (response_headers handler) ''Cache-Control'' ''no-store''\<rparr>)))"

section \<open>Properties\<close>

lemma match_loop_found:
  "match_loop d xs m = Some r \<Longrightarrow> (r, d) \<in> set xs \<or> m = Some r"
  by (induction d xs m rule: match_loop.induct) (auto split: if_splits)

lemma match_loop_skip: "d \<notin> snd ` set xs \<Longrightarrow> match_loop d xs m = m"
  by (induction d xs m rule: match_loop.induct) auto

lemma match_loop_unique:
  "(r, d) \<in> set xs \<Longrightarrow> distinct (map snd xs) \<Longrightarrow> match_loop d xs m = Some r"
proof (induction d xs m rule: match_loop.induct)
  case (2 d role e rest m)
  show ?case
  proof (cases "e = d")
    case True
    with "2.prems" have "r = role" "d \<notin> snd ` set rest" by (auto simp: image_iff)
    with True show ?thesis by (simp add: match_loop_skip)
  qed (use 2 in auto)
qed simp

lemma all_roles: "set token_roles = UNIV"
proof -
  have "r \<in> set token_roles" for r by (cases r) (simp_all add: token_roles_def)
  then show ?thesis by auto
qed

lemma read_tokens:
  assumes "res_map (read_token env) roles = Inr tokens"
  shows "tokens = map (\<lambda>r. (r, role_token env r)) roles
    \<and> (\<forall>r \<in> set roles. min_token_length \<le> length (role_token env r))"
  using assms
  by (induction roles arbitrary: tokens) (auto simp: read_token_def Let_def split: sum.splits if_splits)

lemma auth_from_env_protected:
  assumes "auth_from_env sha env = Inr c" and "protected c"
  shows "token_digests c = map (\<lambda>r. (r, sha (role_token env r))) token_roles"
    and "distinct (map (role_token env) token_roles)"
    and "min_token_length \<le> length (role_token env r)"
    and "auth_code_version c \<noteq> []" and "auth_code_version c \<noteq> ''development-unpinned''"
proof -
  obtain tokens where t: "res_map (read_token env) token_roles = Inr tokens" "distinct (map snd tokens)"
    "token_digests c = map (\<lambda>(role, token). (role, sha token)) tokens"
    and v: "auth_code_version c \<noteq> []" "auth_code_version c \<noteq> ''development-unpinned''"
    using assms by (auto simp: auth_from_env_def protected_def Let_def split: if_splits)
  from read_tokens [OF t(1)] t(2,3) all_roles
  show "token_digests c = map (\<lambda>r. (r, sha (role_token env r))) token_roles"
    "distinct (map (role_token env) token_roles)" "min_token_length \<le> length (role_token env r)"
    by (auto simp: comp_def)
  from v show "auth_code_version c \<noteq> []" "auth_code_version c \<noteq> ''development-unpinned''" .
qed

lemma authenticate_iff:
  assumes "inj sha" and "auth_from_env sha env = Inr c" and "protected c"
  shows "authenticate sha c authorization = Some r \<longleftrightarrow> bearer_token authorization = Some (role_token env r)"
proof -
  note c = auth_from_env_protected [OF assms(2,3)]
  have digest: "(r, sha token) \<in> set (token_digests c) \<longleftrightarrow> token = role_token env r" for r token
    using assms(1) all_roles by (auto simp: c(1) inj_def)
  have "distinct (map sha (map (role_token env) token_roles))"
    by (rule distinct_map [THEN iffD2]) (use c(2) assms(1) in \<open>auto simp: inj_on_def inj_def\<close>)
  then have distinct: "distinct (map snd (token_digests c))" by (simp add: c(1) comp_def)
  show ?thesis
  proof (cases "bearer_token authorization")
    case (Some token)
    then have auth: "authenticate sha c authorization = match_loop (sha token) (token_digests c) None"
      by (simp add: authenticate_def)
    have "match_loop (sha token) (token_digests c) None = Some r \<longleftrightarrow> (r, sha token) \<in> set (token_digests c)"
      using match_loop_found match_loop_unique [OF _ distinct] by fastforce
    with auth Some digest show ?thesis by auto
  qed (simp add: authenticate_def)
qed

lemma required_role_policy:
  "required_role method path = None \<longleftrightarrow> \<not> (path \<noteq> ''/health'' \<and> starts_with ''/v1'' path)"
  "required_role method path = Some role \<Longrightarrow>
     role_allows r role \<longleftrightarrow> upper method \<in> {''GET'', ''HEAD'', ''OPTIONS''}
       \<or> r = (if path = ''/v1/governance'' \<or> starts_with ''/v1/governance/'' path then REVIEWER else OPERATOR)"
  by (auto simp: required_role_def role_allows_def safe_methods_def split: if_splits)

lemma set_default_lookup:
  "map_of (set_default d k v) = (map_of d)(k \<mapsto> (case map_of d k of None \<Rightarrow> v | Some w \<Rightarrow> w))"
  by (auto simp: set_default_def update_conv' split: option.splits)

text \<open>C18. A protected deployment forwards exactly the requests it should.  The guarded routes are those
  that start with /v1; the methods GET, HEAD and OPTIONS only read; a read is allowed to every role, a
  write to the governance routes to the reviewer alone and every other write to the operator alone.
  A request to a guarded route reaches its handler if and only if its header carries, as a
  well-formed bearer token, the configured token of a role that is allowed, and then only the default of the
  Cache-Control header is added to the handler's answer; otherwise the answer is 401 without a known
  token and 403 with one; and every other route is forwarded unchanged.\<close>

theorem auth_forwards_exactly:
  assumes "inj sha" and "auth_from_env sha env = Inr c" and "protected c"
    and guarded: "guarded \<longleftrightarrow> path \<noteq> ''/health'' \<and> starts_with ''/v1'' path"
    and reads: "reads \<longleftrightarrow> upper method \<in> {''GET'', ''HEAD'', ''OPTIONS''}"
    and governance: "governance \<longleftrightarrow> path = ''/v1/governance'' \<or> starts_with ''/v1/governance/'' path"
    and allowed: "\<And>r. allowed r \<longleftrightarrow> reads \<or> r = (if governance then REVIEWER else OPERATOR)"
    and response: "authorize sha c method path authorization handler = (forwarded, response)"
  shows "(\<not> guarded \<longrightarrow> forwarded \<and> response = handler)
   \<and> (guarded \<longrightarrow>
        (forwarded \<longleftrightarrow> (\<exists>r. bearer_token authorization = Some (role_token env r) \<and> allowed r))
      \<and> (forwarded \<longrightarrow> status_code response = status_code handler \<and> response_body response = response_body handler
           \<and> map_of (response_headers response) = (map_of (response_headers handler))(''Cache-Control'' \<mapsto>
               (case map_of (response_headers handler) ''Cache-Control'' of None \<Rightarrow> ''no-store'' | Some v \<Rightarrow> v)))
      \<and> (\<not> forwarded \<longrightarrow> status_code response =
           (if \<exists>r. bearer_token authorization = Some (role_token env r) then 403 else 401)))"
proof (cases "required_role method path")
  case None
  then have "\<not> guarded" using required_role_policy(1) [of "method" path] guarded by blast
  with None response assms(3) show ?thesis by (simp add: authorize_def)
next
  case (Some required)
  note iff = authenticate_iff [OF assms(1-3), of authorization]
  have g: guarded using Some required_role_policy(1) [of "method" path] guarded by auto
  have ok: "role_allows r required \<longleftrightarrow> allowed r" for r
    unfolding allowed reads governance by (rule required_role_policy(2) [OF Some])
  show ?thesis
  proof (cases "authenticate sha c authorization")
    case None
    then have "bearer_token authorization \<noteq> Some (role_token env r)" for r using iff [of r] by simp
    with None Some assms(3) g response show ?thesis by (auto simp: authorize_def)
  next
    case role: (Some actual)
    have same: "bearer_token authorization = Some (role_token env r) \<longleftrightarrow> r = actual" for r
      using iff [of r] role by auto
    show ?thesis
      using Some role assms(3) g response unfolding same
      by (auto simp: authorize_def ok set_default_lookup split: if_splits)
  qed
qed

text \<open>The configuration fails closed: the bypass of a local mode is granted only to a local
  deployment, and a protected configuration exists only with three different tokens of at least 32
  characters and a pinned code version; so an environment without them starts nothing.\<close>

theorem auth_config_fails_closed:
  assumes "auth_from_env sha env = Inr c"
  shows "(\<not> protected c \<longrightarrow> local_deployment (deployment_of env))
    \<and> (protected c \<longrightarrow> (\<forall>r. 32 \<le> length (role_token env r)) \<and> inj (role_token env)
         \<and> auth_code_version c \<noteq> [] \<and> auth_code_version c \<noteq> ''development-unpinned'')"
proof -
  have "local_deployment (deployment_of env)" if "\<not> protected c"
    using assms that by (auto simp: auth_from_env_def protected_def Let_def split: if_splits)
  moreover have "inj (role_token env)" if "protected c"
    using auth_from_env_protected(2) [OF assms that] all_roles by (simp add: distinct_map)
  moreover have "32 \<le> length (role_token env r)" if "protected c" for r
    using auth_from_env_protected(3) [OF assms that, of r] by (simp add: min_token_length_def)
  ultimately show ?thesis using auth_from_env_protected(4,5) [OF assms] by blast
qed

definition example_environment :: environment where
  "example_environment = [''MARKETPILOT_ENV'' \<mapsto> ''Production'', ''MARKETPILOT_CODE_VERSION'' \<mapsto> ''1.0'',
     ''MARKETPILOT_READ_ONLY_TOKEN'' \<mapsto> replicate 32 (CHR ''a''),
     ''MARKETPILOT_OPERATOR_TOKEN'' \<mapsto> replicate 32 (CHR ''b''),
     ''MARKETPILOT_REVIEWER_TOKEN'' \<mapsto> replicate 32 (CHR ''c'')]"

definition example_config :: auth_config where
  "example_config = \<lparr>auth_mode_of = PRODUCTION_MODE, auth_code_version = ''1.0'', token_digests =
     [(READ_ONLY, replicate 32 (CHR ''a'')), (OPERATOR, replicate 32 (CHR ''b'')),
      (REVIEWER, replicate 32 (CHR ''c''))]\<rparr>"

lemma example_auth: "auth_from_env (\<lambda>t. t) example_environment = Inr example_config"
  by code_simp

abbreviation example_reviewer :: "string option" where
  "example_reviewer \<equiv> Some (''Bearer '' @ replicate 32 (CHR ''c''))"

abbreviation example_operator :: "string option" where
  "example_operator \<equiv> Some (''Bearer '' @ replicate 32 (CHR ''b''))"

lemma example_requests:
  "bearer_token example_reviewer = Some (replicate 32 (CHR ''c''))"
  "bearer_token example_operator = Some (replicate 32 (CHR ''b''))"
  by code_simp+

lemma example_tokens:
  "role_token example_environment READ_ONLY = replicate 32 (CHR ''a'')"
  "role_token example_environment OPERATOR = replicate 32 (CHR ''b'')"
  "role_token example_environment REVIEWER = replicate 32 (CHR ''c'')"
  by (simp_all add: role_token_def env_get_def example_environment_def)

lemma example_token_eq:
  "replicate 32 (CHR ''c'') = role_token example_environment r \<longleftrightarrow> r = REVIEWER"
  "replicate 32 (CHR ''b'') = role_token example_environment r \<longleftrightarrow> r = OPERATOR"
  by (cases r; simp add: example_tokens)+

definition example_answer :: http_response where
  "example_answer = \<lparr>status_code = 200, response_headers = [], response_body = ''ok''\<rparr>"

lemma example_route:
  "starts_with ''/v1'' ''/v1/governance/promote''" "starts_with ''/v1/governance/'' ''/v1/governance/promote''"
  "upper ''POST'' \<notin> {''GET'', ''HEAD'', ''OPTIONS''}"
  by code_simp+

theorem auth_forwards_exactly_witness:
  "fst (authorize (\<lambda>t. t) example_config ''POST'' ''/v1/governance/promote'' example_reviewer example_answer)
   \<and> \<not> fst (authorize (\<lambda>t. t) example_config ''POST'' ''/v1/governance/promote'' example_operator example_answer)
   \<and> status_code (snd (authorize (\<lambda>t. t) example_config ''POST'' ''/v1/governance/promote'' example_operator example_answer)) = 403"
proof -
  have "inj (\<lambda>t::string. t)" "protected example_config" by (simp_all add: protected_def example_config_def)
  note auth = auth_forwards_exactly [OF this(1) example_auth this(2) refl refl refl refl surjective_pairing,
      of "''/v1/governance/promote''" "''POST''"]
  show ?thesis
    using auth [of example_reviewer example_answer] auth [of example_operator example_answer] example_route
    unfolding example_requests option.inject example_token_eq by simp
qed

theorem auth_config_fails_closed_witness:
  "protected example_config \<and> inj (role_token example_environment)
   \<and> 32 \<le> length (role_token example_environment OPERATOR)"
  using auth_config_fails_closed [OF example_auth] by (simp add: protected_def example_config_def)

end
