(* ===== verification/GovernanceService.thy ===== *)
theory GovernanceService
  imports Governance Metrics
begin

text \<open>
  The governance facade (\<open>services/governance_service.py\<close>) and its request and response models
  (\<open>services/governance_schemas.py\<close>), over the in-memory registry of \<open>Governance\<close>.  An operation
  returns its result and the service it leaves.
\<close>

section \<open>Requests and responses\<close>

datatype run_mode = SCENARIO

datatype approval_scope = LOCAL_SCOPE

datatype calibration_status = NOT_CALIBRATED | LOCAL_VALIDATION_AVAILABLE

definition schema_error :: py_error where
  "schema_error = ValueError ''value must not be blank''"

record 't approval_input =
  ai_run_mode :: run_mode
  ai_scope :: approval_scope
  ai_source_version :: "string option"
  ai_target_version :: string
  ai_approved_by :: string
  ai_approved_at :: 't
  ai_evidence_hash :: string
  ai_note :: string

definition opt_blank :: "string option \<Rightarrow> bool" where
  "opt_blank v = (case v of None \<Rightarrow> False | Some s \<Rightarrow> blank s)"

definition mk_approval_input :: "datetime approval_input \<Rightarrow> datetime approval_input result" where
  "mk_approval_input i =
     (if opt_blank (ai_source_version i) \<or> blank (ai_target_version i) \<or> blank (ai_approved_by i)
         \<or> blank (ai_evidence_hash i) \<or> blank (ai_note i) then Inl schema_error
      else if \<not> is_aware (ai_approved_at i) then Inl (ValueError ''approved_at must be timezone-aware'')
      else Inr i)"

record 't registration_input =
  ri_run_mode :: run_mode
  ri_scope :: approval_scope
  ri_version :: string
  ri_artifact_hash :: string
  ri_data_manifest_hash :: string
  ri_trained_at :: 't
  ri_validation_report_hash :: "string option"
  ri_parent_version :: "string option"

definition mk_registration_input :: "datetime registration_input \<Rightarrow> datetime registration_input result" where
  "mk_registration_input i =
     (if blank (ri_version i) \<or> blank (ri_artifact_hash i) \<or> blank (ri_data_manifest_hash i)
         \<or> opt_blank (ri_validation_report_hash i) \<or> opt_blank (ri_parent_version i) then Inl schema_error
      else if \<not> is_aware (ri_trained_at i) then Inl (ValueError ''trained_at must be timezone-aware'')
      else Inr i)"

record version_output =
  vo_model_id :: string
  vo_version :: string
  vo_artifact_hash :: string
  vo_data_manifest_hash :: string
  vo_trained_at :: instant
  vo_validation_report_hash :: "string option"
  vo_parent_version :: "string option"
  is_local_champion :: bool
  vo_calibration_status :: calibration_status
  deployment_scope :: approval_scope
  vo_live_eligible :: bool

record versions_output =
  vs_model_id :: string
  vs_versions :: "version_output list"
  vs_live_enabled :: bool

record registration_output =
  ro_run_mode :: run_mode
  ro_scope :: approval_scope
  verification :: string
  ro_execution_enabled :: bool
  ro_action :: decision_action
  ro_model :: version_output
  ro_live_eligible :: bool

record champion_output =
  co_model_id :: string
  co_champion :: version_output
  co_session_id :: "string option"
  frozen_for_session :: bool
  co_live_enabled :: bool

record action_output =
  ga_action :: approval_action
  ga_approval_id :: string
  ga_champion :: champion_output
  ga_live_enabled :: bool
  ga_message :: string

record summary_output =
  so_model_id :: string
  so_calibration_status :: calibration_status
  so_report_hash :: "string option"
  so_slices :: "slice_summary list"
  so_conclusion :: string
  so_live_eligible :: bool

section \<open>The service\<close>

record service =
  sv_registry :: registry
  sv_results :: "(string, validation_result list) dict"
  sv_report_hashes :: "(string, string) dict"

definition BASELINE_MODEL_ID :: string where "BASELINE_MODEL_ID = ''strikepilot_spxw_0dte_ic''"
definition BASELINE_VERSION :: string where "BASELINE_VERSION = ''0.1.0-baseline''"

text \<open>\<open>datetime(2026, 8, 15, tzinfo=UTC)\<close>.\<close>

definition baseline_trained_at :: instant where "baseline_trained_at = 739842 * day_us"

definition baseline_model :: "(string \<Rightarrow> string) \<Rightarrow> string option \<Rightarrow> mversion result" where
  "baseline_model sha baseline = mk_model_version BASELINE_MODEL_ID BASELINE_VERSION
     (case baseline of Some h \<Rightarrow> if h = [] then strikepilot_artifact_hash sha 5 5 else h
      | None \<Rightarrow> strikepilot_artifact_hash sha 5 5)
     (snapshot_id (freeze_snapshot sha (PDict [(''status'', PStr ''NO_DATA_MANIFEST'')])))
     (Aware baseline_trained_at) None None"

definition new_service :: "(string \<Rightarrow> string) \<Rightarrow> registry \<Rightarrow> string option \<Rightarrow> unit result \<times> service" where
  "new_service sha r baseline =
     (let s = \<lparr>sv_registry = r, sv_results = [], sv_report_hashes = []\<rparr> in
      if list_versions r BASELINE_MODEL_ID \<noteq> [] then (Inr (), s)
      else case baseline_model sha baseline of
             Inl e \<Rightarrow> (Inl e, s)
           | Inr m \<Rightarrow> (case register_challenger r m of (res, r') \<Rightarrow> (res, s\<lparr>sv_registry := r'\<rparr>)))"

definition register_local_challenger :: "service \<Rightarrow> mversion \<Rightarrow> unit result \<times> service" where
  "register_local_challenger s m =
     (case register_challenger (sv_registry s) m of (res, r') \<Rightarrow> (res, s\<lparr>sv_registry := r'\<rparr>))"

definition champion_version :: "service \<Rightarrow> string \<Rightarrow> string option" where
  "champion_version s mid =
     (case champion (sv_registry s) mid None of Inl e \<Rightarrow> None | Inr m \<Rightarrow> Some (version m))"

definition version_output_of :: "mversion \<Rightarrow> string option \<Rightarrow> version_output" where
  "version_output_of m champ =
     \<lparr>vo_model_id = model_id m, vo_version = version m, vo_artifact_hash = artifact_hash m,
      vo_data_manifest_hash = data_manifest_hash m, vo_trained_at = trained_at m,
      vo_validation_report_hash = validation_report_hash m, vo_parent_version = parent_version m,
      is_local_champion = (Some (version m) = champ),
      vo_calibration_status =
        (if validation_report_hash m \<noteq> None then LOCAL_VALIDATION_AVAILABLE else NOT_CALIBRATED),
      deployment_scope = LOCAL_SCOPE, vo_live_eligible = False\<rparr>"

definition register_from_api ::
  "service \<Rightarrow> string \<Rightarrow> datetime registration_input \<Rightarrow> registration_output result \<times> service" where
  "register_from_api s mid i =
     (if ri_run_mode i \<noteq> SCENARIO then (Inl (GovernanceError ''challenger registration requires SCENARIO mode''), s)
      else if ri_scope i \<noteq> LOCAL_SCOPE
        then (Inl (GovernanceError ''challenger registration is restricted to LOCAL scope''), s)
      else case mk_model_version mid (ri_version i) (ri_artifact_hash i) (ri_data_manifest_hash i)
              (ri_trained_at i) (ri_validation_report_hash i) (ri_parent_version i) of
        Inl e \<Rightarrow> (Inl e, s)
      | Inr m \<Rightarrow>
          (case register_local_challenger s m of
             (Inl e, s') \<Rightarrow> (Inl e, s')
           | (Inr _, s') \<Rightarrow> (Inr \<lparr>ro_run_mode = SCENARIO, ro_scope = LOCAL_SCOPE, verification = ''UNVERIFIED'',
                 ro_execution_enabled = False, ro_action = NO_TRADE,
                 ro_model = version_output_of m (champion_version s' mid), ro_live_eligible = False\<rparr>, s')))"

definition record_local_validation ::
  "service \<Rightarrow> string \<Rightarrow> string \<Rightarrow> validation_result list \<Rightarrow> unit result \<times> service" where
  "record_local_validation s mid report results =
     (if blank report then (Inl (GovernanceError ''report_hash must not be blank''), s)
      else (Inr (), s\<lparr>sv_results := AList.update mid results (sv_results s),
                     sv_report_hashes := AList.update mid report (sv_report_hashes s)\<rparr>))"

definition service_versions :: "service \<Rightarrow> string \<Rightarrow> versions_output result" where
  "service_versions s mid =
     (let models = list_versions (sv_registry s) mid in
      if models = [] then Inl (GovernanceError (''unknown model: '' @ mid))
      else Inr \<lparr>vs_model_id = mid,
             vs_versions = map (\<lambda>m. version_output_of m (champion_version s mid)) models, vs_live_enabled = False\<rparr>)"

definition service_champion :: "service \<Rightarrow> string \<Rightarrow> string option \<Rightarrow> champion_output result \<times> service" where
  "service_champion s mid sid =
     (case sid of
        Some x \<Rightarrow>
          if \<not> starts_with ''SCENARIO:'' x
          then (Inl (GovernanceError ''public session freeze is restricted to SCENARIO sessions''), s)
          else (case freeze_session (sv_registry s) mid x of (res, r') \<Rightarrow>
            (res_bind res (\<lambda>m. Inr \<lparr>co_model_id = mid, co_champion = version_output_of m (Some (version m)),
               co_session_id = sid, frozen_for_session = True, co_live_enabled = False\<rparr>),
             s\<lparr>sv_registry := r'\<rparr>))
      | None \<Rightarrow>
          (res_bind (champion (sv_registry s) mid None) (\<lambda>m.
             Inr \<lparr>co_model_id = mid, co_champion = version_output_of m (Some (version m)),
               co_session_id = None, frozen_for_session = False, co_live_enabled = False\<rparr>), s))"

definition require_local_scenario :: "datetime approval_input \<Rightarrow> unit result" where
  "require_local_scenario i =
     (if ai_run_mode i \<noteq> SCENARIO then Inl (GovernanceError ''governance writes require SCENARIO mode'')
      else if ai_scope i \<noteq> LOCAL_SCOPE
        then Inl (GovernanceError ''governance writes are restricted to LOCAL scope'')
      else Inr ())"

definition approval_of ::
  "(string \<Rightarrow> string) \<Rightarrow> approval_action \<Rightarrow> string \<Rightarrow> datetime approval_input \<Rightarrow> approval result" where
  "approval_of sha act mid i = approval_create sha act mid (ai_source_version i) (ai_target_version i)
     (ai_approved_by i) (ai_approved_at i) (ai_evidence_hash i) (ai_note i)"

definition promote_local ::
  "(string \<Rightarrow> string) \<Rightarrow> service \<Rightarrow> string \<Rightarrow> datetime approval_input \<Rightarrow> action_output result \<times> service" where
  "promote_local sha s mid i =
     (case res_bind (require_local_scenario i) (\<lambda>_. approval_of sha PROMOTE mid i) of
        Inl e \<Rightarrow> (Inl e, s)
      | Inr a \<Rightarrow>
          (case promote sha (sv_registry s) mid (ai_target_version i) a of
             (Inl e, r') \<Rightarrow> (Inl e, s\<lparr>sv_registry := r'\<rparr>)
           | (Inr _, r') \<Rightarrow>
               (case service_champion (s\<lparr>sv_registry := r'\<rparr>) mid None of (res, s') \<Rightarrow>
                 (res_bind res (\<lambda>c. Inr \<lparr>ga_action = PROMOTE, ga_approval_id = approval_id a, ga_champion = c,
                    ga_live_enabled = False,
                    ga_message = ''Local scenario champion changed; live execution remains disabled.''\<rparr>), s'))))"

definition rollback_local ::
  "(string \<Rightarrow> string) \<Rightarrow> service \<Rightarrow> string \<Rightarrow> datetime approval_input \<Rightarrow> action_output result \<times> service" where
  "rollback_local sha s mid i =
     (case res_bind (require_local_scenario i) (\<lambda>_. approval_of sha ROLLBACK mid i) of
        Inl e \<Rightarrow> (Inl e, s)
      | Inr a \<Rightarrow>
          (case rollback sha (sv_registry s) mid (ai_target_version i) a of
             (Inl e, r') \<Rightarrow> (Inl e, s\<lparr>sv_registry := r'\<rparr>)
           | (Inr _, r') \<Rightarrow>
               (case service_champion (s\<lparr>sv_registry := r'\<rparr>) mid None of (res, s') \<Rightarrow>
                 (res_bind res (\<lambda>c. Inr \<lparr>ga_action = ROLLBACK, ga_approval_id = approval_id a, ga_champion = c,
                    ga_live_enabled = False,
                    ga_message = ''Local scenario rollback completed; live execution remains disabled.''\<rparr>), s'))))"

definition validation_summary :: "service \<Rightarrow> string \<Rightarrow> summary_output result" where
  "validation_summary s mid =
     (if list_versions (sv_registry s) mid = [] then Inl (GovernanceError (''unknown model: '' @ mid))
      else
        let results = dict_get [] (sv_results s) mid; report = map_of (sv_report_hashes s) mid
        in res_bind (if results \<noteq> [] then summarize_validation results [''event_type'', ''regime''] else Inr [])
             (\<lambda>slices. Inr \<lparr>so_model_id = mid,
                so_calibration_status = (if report \<noteq> None then LOCAL_VALIDATION_AVAILABLE else NOT_CALIBRATED),
                so_report_hash = report, so_slices = slices,
                so_conclusion = ''NO_AUTOMATIC_PERFORMANCE_CONCLUSION'', so_live_eligible = False\<rparr>))"

section \<open>Histories\<close>

datatype service_op =
    RegisterLocal mversion
  | RegisterApi string "datetime registration_input"
  | RecordValidation string string "validation_result list"
  | PromoteLocal string "datetime approval_input"
  | RollbackLocal string "datetime approval_input"
  | AskChampion string "string option"

fun service_step :: "(string \<Rightarrow> string) \<Rightarrow> service \<Rightarrow> service_op \<Rightarrow> service" where
  "service_step sha s (RegisterLocal m) = snd (register_local_challenger s m)"
| "service_step sha s (RegisterApi mid i) = snd (register_from_api s mid i)"
| "service_step sha s (RecordValidation mid h rs) = snd (record_local_validation s mid h rs)"
| "service_step sha s (PromoteLocal mid i) = snd (promote_local sha s mid i)"
| "service_step sha s (RollbackLocal mid i) = snd (rollback_local sha s mid i)"
| "service_step sha s (AskChampion mid sid) = snd (service_champion s mid sid)"

text \<open>The registry operations an operation of the service stands for.\<close>

definition model_of :: "string \<Rightarrow> datetime registration_input \<Rightarrow> mversion result" where
  "model_of mid i = mk_model_version mid (ri_version i) (ri_artifact_hash i) (ri_data_manifest_hash i)
     (ri_trained_at i) (ri_validation_report_hash i) (ri_parent_version i)"

fun reg_ops :: "(string \<Rightarrow> string) \<Rightarrow> service_op \<Rightarrow> reg_op list" where
  "reg_ops sha (RegisterLocal m) = [Register m]"
| "reg_ops sha (RegisterApi mid i) = (case model_of mid i of Inl _ \<Rightarrow> [] | Inr m \<Rightarrow> [Register m])"
| "reg_ops sha (RecordValidation mid h rs) = []"
| "reg_ops sha (PromoteLocal mid i) =
     (case approval_of sha PROMOTE mid i of Inl _ \<Rightarrow> [] | Inr a \<Rightarrow> [Promote mid (ai_target_version i) a])"
| "reg_ops sha (RollbackLocal mid i) =
     (case approval_of sha ROLLBACK mid i of Inl _ \<Rightarrow> [] | Inr a \<Rightarrow> [Rollback mid (ai_target_version i) a])"
| "reg_ops sha (AskChampion mid sid) =
     (case sid of Some x \<Rightarrow> if starts_with ''SCENARIO:'' x then [Freeze mid x] else [] | None \<Rightarrow> [])"

lemma one_mode [simp]: "(m :: run_mode) = SCENARIO" "(c :: approval_scope) = LOCAL_SCOPE"
  by (cases m, simp) (cases c, simp)

lemma scenario_only [simp]: "require_local_scenario i = Inr ()"
  by (simp add: require_local_scenario_def)

lemma service_champion_none [simp]: "snd (service_champion s mid None) = s"
  by (simp add: service_champion_def)

lemma service_step_refines:
  "sv_registry (service_step sha s e) = foldl (reg_step sha) (sv_registry s) (reg_ops sha e)"
proof (cases e)
  case (RegisterApi mid i)
  then show ?thesis
    by (auto simp: register_from_api_def register_local_challenger_def model_of_def split: sum.split prod.split)
next
  case (PromoteLocal mid i)
  then show ?thesis
    by (simp add: promote_local_def service_champion_def split: sum.split prod.split)
next
  case (RollbackLocal mid i)
  then show ?thesis
    by (simp add: rollback_local_def service_champion_def split: sum.split prod.split)
next
  case (AskChampion mid sid)
  then show ?thesis by (simp add: service_champion_def split: prod.split option.split)
qed (simp_all add: register_local_challenger_def record_local_validation_def split: prod.split)

lemma service_run_refines:
  "sv_registry (foldl (service_step sha) s es)
     = foldl (reg_step sha) (sv_registry s) (concat (map (reg_ops sha) es))"
  by (induction es arbitrary: s) (simp_all add: service_step_refines)

interpretation gov_service: machine "service_step sha" "\<lambda>s. registry_ok (sv_registry s)" for sha
  by unfold_locales (auto simp: service_step_refines intro: reg.run_inv)

section \<open>The list of versions\<close>

lemma listed_versions:
  assumes "registry_ok r"
  shows "distinct (map version (list_versions r mid))"
    and "version ` set (list_versions r mid) = {v. registered r mid v}"
proof -
  let ?vs = "versions_of r mid"
  have ok: "dict_ok ?vs" "\<forall>(v, m) \<in> set ?vs. version m = v"
    using assms by (auto simp: registry_ok_def versions_ok_def)
  have keys: "map version (dict_values ?vs) = map fst ?vs"
    unfolding dict_values_def map_map by (rule map_cong) (use ok(2) in auto)
  have "distinct (map version (dict_values ?vs))" using ok(1) by (simp add: keys dict_ok_def)
  then show "distinct (map version (list_versions r mid))"
    by (simp add: list_versions_def distinct_map)
  have "version ` set (list_versions r mid) = set (map version (dict_values ?vs))"
    by (simp add: list_versions_def)
  also have "\<dots> = {v. registered r mid v}"
    unfolding keys by (auto simp: registered_def map_of_eq_None_iff)
  finally show "version ` set (list_versions r mid) = {v. registered r mid v}" .
qed

lemma single_match:
  "distinct (map f xs) \<Longrightarrow> v \<in> f ` set xs \<Longrightarrow> map f (filter (\<lambda>x. f x = v) xs) = [v]"
  by (induction xs) (auto simp: filter_empty_conv image_iff)

lemma champion_registered:
  assumes "registry_ok r" and "map_of (champions r) mid = Some v"
  obtains m where "champion r mid None = Inr m" and "version m = v" and "registered r mid v"
proof -
  have reg: "registered r mid v" using assms by (simp only: registry_ok_def)
  then obtain m where m: "map_of (versions_of r mid) v = Some m" by (auto simp: registered_def)
  with assms(1) have "version m = v" by (fastforce simp: registry_ok_def versions_ok_def dest: map_of_SomeD)
  with m reg assms(2) show thesis by (intro that [of m]) (simp_all add: champion_def get_version_alt)
qed

lemma champion_version_of:
  assumes "registry_ok (sv_registry s)"
  shows "champion_version s mid = map_of (champions (sv_registry s)) mid"
proof (cases "map_of (champions (sv_registry s)) mid")
  case (Some v)
  obtain m where "champion (sv_registry s) mid None = Inr m" "version m = v"
    by (rule champion_registered [OF assms Some])
  with Some show ?thesis by (simp add: champion_version_def)
qed (simp add: champion_version_def champion_def)

text \<open>A fresh service holds the baseline version.\<close>

definition baseline_ops :: "(string \<Rightarrow> string) \<Rightarrow> string option \<Rightarrow> reg_op list" where
  "baseline_ops sha baseline = (case baseline_model sha baseline of Inl _ \<Rightarrow> [] | Inr m \<Rightarrow> [Register m])"

lemma empty_list_versions: "list_versions empty_registry mid = []"
  by (simp add: list_versions_def versions_of_def empty_registry_def dict_values_def)

lemma new_service_registry:
  "sv_registry (snd (new_service sha empty_registry baseline)) = foldl (reg_step sha) empty_registry (baseline_ops sha baseline)"
  by (cases "baseline_model sha baseline")
     (simp_all add: new_service_def baseline_ops_def empty_list_versions split: prod.split)

section \<open>Properties\<close>

text \<open>C20. The service refines the registry: after any history of calls to a new service, its registry is
  the one the corresponding registry operations lead to, so it is well formed; and what it lists of a
  model are the registered versions, of which exactly the registry's champion is marked.\<close>

theorem governance_service_refines:
  "let s = foldl (service_step sha) (snd (new_service sha empty_registry baseline)) es;
       r = foldl (reg_step sha) empty_registry (baseline_ops sha baseline @ concat (map (reg_ops sha) es))
   in sv_registry s = r \<and> registry_ok r
    \<and> (case service_versions s mid of
         Inl e \<Rightarrow> {v. registered r mid v} = {}
       | Inr out \<Rightarrow> vo_version ` set (vs_versions out) = {v. registered r mid v}
           \<and> map vo_version (filter is_local_champion (vs_versions out))
               = (case map_of (champions r) mid of None \<Rightarrow> [] | Some v \<Rightarrow> [v]))"
proof -
  let ?s = "foldl (service_step sha) (snd (new_service sha empty_registry baseline)) es"
  let ?r = "foldl (reg_step sha) empty_registry (baseline_ops sha baseline @ concat (map (reg_ops sha) es))"
  have same: "sv_registry ?s = ?r" by (simp add: service_run_refines new_service_registry)
  have ok: "registry_ok ?r" by (rule reg.run_inv) simp
  note champ = champion_version_of [of ?s mid, unfolded same, OF ok]
  note listed = listed_versions [OF ok, of mid]
  have marked: "map vo_version (filter is_local_champion (map (\<lambda>m. version_output_of m c) ms))
      = map version (filter (\<lambda>m. Some (version m) = c) ms)" for c ms
    by (induction ms) (simp_all add: version_output_of_def)
  have one: "map version (filter (\<lambda>m. Some (version m) = map_of (champions ?r) mid) (list_versions ?r mid))
      = (case map_of (champions ?r) mid of None \<Rightarrow> [] | Some v \<Rightarrow> [v])"
  proof (cases "map_of (champions ?r) mid")
    case (Some v)
    then obtain m where "registered ?r mid v" using champion_registered [OF ok Some] by blast
    with Some listed single_match [of version "list_versions ?r mid" v] show ?thesis by simp
  qed simp
  have names: "vo_version ` (\<lambda>m. version_output_of m c) ` set ms = version ` set ms" for c ms
    by (simp add: image_image version_output_of_def)
  have "case service_versions ?s mid of
         Inl e \<Rightarrow> {v. registered ?r mid v} = {}
       | Inr out \<Rightarrow> vo_version ` set (vs_versions out) = {v. registered ?r mid v}
           \<and> map vo_version (filter is_local_champion (vs_versions out))
               = (case map_of (champions ?r) mid of None \<Rightarrow> [] | Some v \<Rightarrow> [v])"
  proof (cases "list_versions ?r mid = []")
    case True
    with listed(2) show ?thesis by (simp add: service_versions_def same)
  next
    case False
    then have "service_versions ?s mid = Inr \<lparr>vs_model_id = mid,
        vs_versions = map (\<lambda>m. version_output_of m (map_of (champions ?r) mid)) (list_versions ?r mid),
        vs_live_enabled = False\<rparr>"
      by (simp only: service_versions_def same champ Let_def if_False)
    then show ?thesis using one listed(2) by (simp only: sum.case versions_output.simps list.set_map names marked)
  qed
  with same ok show ?thesis unfolding Let_def by blast
qed

text \<open>C19. A governance write is all or nothing: on a well-formed registry, a promotion that answers with an
  error left the service as it was, and one that succeeds made exactly its target the champion it
  reports, with an approval identity that was never used before, and did not touch the recorded
  validation; the answer never enables live trading.\<close>

theorem governance_promotion_atomic:
  assumes "registry_ok (sv_registry s)"
  shows "case promote_local sha s mid i of
      (Inl e, s') \<Rightarrow> s' = s
    | (Inr out, s') \<Rightarrow> map_of (champions (sv_registry s')) mid = Some (ai_target_version i)
        \<and> vo_version (co_champion (ga_champion out)) = ai_target_version i
        \<and> ga_approval_id out \<notin> used_approvals (sv_registry s)
        \<and> ga_approval_id out \<in> used_approvals (sv_registry s')
        \<and> sv_results s' = sv_results s \<and> sv_report_hashes s' = sv_report_hashes s
        \<and> \<not> ga_live_enabled out"
proof (cases "approval_of sha PROMOTE mid i")
  case (Inl e)
  then show ?thesis by (simp add: promote_local_def)
next
  case a: (Inr a)
  let ?p = "promote sha (sv_registry s) mid (ai_target_version i) a"
  show ?thesis
  proof (cases "fst ?p")
    case (Inl e)
    then have "?p = (Inl e, sv_registry s)" using promote_Inl [OF Inl] by (metis prod.collapse)
    then show ?thesis using a by (simp add: promote_local_def)
  next
    case m: (Inr m)
    note p = promote_Inr [OF m]
    obtain r' where r': "?p = (Inr m, r')" using m by (metis prod.collapse)
    have r: "r' = record_approval ((sv_registry s)\<lparr>champions := AList.update mid (ai_target_version i)
        (champions (sv_registry s))\<rparr>) a" using p(11) by (simp add: r')
    have champ: "map_of (champions r') mid = Some (ai_target_version i)"
      by (simp add: r record_approval_def)
    have "registry_ok r'" using reg_step_ok [OF assms, of sha "Promote mid (ai_target_version i) a"] by (simp add: r')
    from champion_registered [OF this champ]
    obtain c where c: "champion r' mid None = Inr c" "version c = ai_target_version i" by blast
    have "promote_local sha s mid i =
        (Inr \<lparr>ga_action = PROMOTE, ga_approval_id = approval_id a,
            ga_champion = \<lparr>co_model_id = mid, co_champion = version_output_of c (Some (version c)),
              co_session_id = None, frozen_for_session = False, co_live_enabled = False\<rparr>,
            ga_live_enabled = False,
            ga_message = ''Local scenario champion changed; live execution remains disabled.''\<rparr>,
         s\<lparr>sv_registry := r'\<rparr>)"
      using a c(1) by (simp add: promote_local_def service_champion_def r')
    moreover have "approval_id a \<in> used_approvals r'" by (simp add: r record_approval_def)
    ultimately show ?thesis using champ c(2) p(3) by (simp add: version_output_of_def)
  qed
qed

definition example_service :: service where
  "example_service = \<lparr>sv_registry = example_registry, sv_results = [], sv_report_hashes = []\<rparr>"

definition example_request :: "datetime approval_input" where
  "example_request = \<lparr>ai_run_mode = SCENARIO, ai_scope = LOCAL_SCOPE, ai_source_version = None,
     ai_target_version = ''v1'', ai_approved_by = ''ops'', ai_approved_at = Aware 15,
     ai_evidence_hash = ''rep1'', ai_note = ''go''\<rparr>"

lemma example_request_approval: "approval_of id PROMOTE ''m'' example_request = Inr (example_approval id)"
  by (simp add: approval_of_def example_request_def approval_create_def required_def Let_def
      strip_def lstrip_def is_space_def example_approval_def)

theorem governance_promotion_atomic_witness:
  "\<exists>out s'. promote_local id example_service ''m'' example_request = (Inr out, s')
     \<and> map_of (champions (sv_registry s')) ''m'' = Some ''v1'' \<and> \<not> ga_live_enabled out"
proof -
  have ok: "registry_ok (sv_registry example_service)" by (simp add: example_service_def example_registry_ok)
  obtain res s' where r: "promote_local id example_service ''m'' example_request = (res, s')" by (cases "promote_local id example_service ''m'' example_request")
  have target: "ai_target_version example_request = ''v1''" by (simp add: example_request_def)
  show ?thesis
  proof (cases res)
    case (Inr out)
    with governance_promotion_atomic [where sha = id and mid = "''m''" and i = example_request, OF ok] r target show ?thesis by simp
  next
    case (Inl e)
    with governance_promotion_atomic [where sha = id and mid = "''m''" and i = example_request, OF ok] r have "s' = example_service" by simp
    moreover have "sv_registry s' = snd (promote id example_registry ''m'' ''v1'' (example_approval id))"
      using service_step_refines [of id example_service "PromoteLocal ''m'' example_request"] r
      by (simp add: example_request_approval target example_service_def)
    moreover have "map_of (champions (snd (promote id example_registry ''m'' ''v1'' (example_approval id)))) ''m'' = Some ''v1''"
      using promote_Inr(11) [OF example_promote] by (simp add: record_approval_def)
    ultimately show ?thesis by (simp add: example_service_def example_registry_simps)
  qed
qed

end
