(* ===== verification/DateText.thy ===== *)
theory DateText
  imports IsoText
begin

text \<open>
  \<open>date.fromisoformat\<close> on the extended form \<open>YYYY-MM-DD\<close>, and its round trip with \<open>isoformat\<close> on
  the dates Python has.
\<close>

definition date_max :: pydate where "date_max = 3652059"

definition date_valid :: "pydate \<Rightarrow> bool" where
  "date_valid d \<longleftrightarrow> 1 \<le> d \<and> d \<le> date_max"

definition month_len :: "int \<Rightarrow> int \<Rightarrow> int" where
  "month_len y m = month_lengths y ! nat (m - 1)"

definition date_of_ymd :: "int \<Rightarrow> int \<Rightarrow> int \<Rightarrow> pydate result" where
  "date_of_ymd y m d =
     (if y < 1 \<or> 9999 < y then Inl (ValueError ''year is out of range'')
      else if m < 1 \<or> 12 < m then Inl (ValueError ''month must be in 1..12'')
      else if d < 1 \<or> month_len y m < d then Inl (ValueError ''day is out of range for month'')
      else Inr (days_before_year y + days_before_month (month_lengths y) 1 m + d))"

definition date_fromisoformat :: "string \<Rightarrow> pydate result" where
  "date_fromisoformat s =
     (if length s = 10 \<and> s ! 4 = CHR ''-'' \<and> s ! 7 = CHR ''-'' \<and> list_all is_digit (take 4 s)
         \<and> list_all is_digit (take 2 (drop 5 s)) \<and> list_all is_digit (drop 8 s)
      then date_of_ymd (int (read_nat (take 4 s))) (int (read_nat (take 2 (drop 5 s)))) (int (read_nat (drop 8 s)))
      else Inl (ValueError ''Invalid isoformat string''))"

lemma show_nat_length: "n < 10 ^ k \<Longrightarrow> 0 < k \<Longrightarrow> length (show_nat n) \<le> k"
proof (induction n arbitrary: k rule: show_nat.induct)
  case (1 n)
  show ?case
  proof (cases "n < 10")
    case True
    with 1 show ?thesis by (subst show_nat.simps) simp
  next
    case False
    from 1(2,3) obtain j where k: "k = Suc j" by (cases k) auto
    have "0 < j" using False 1(2) k by (cases j) auto
    moreover have "n div 10 < 10 ^ j" using 1(2) by (simp add: k)
    ultimately have "length (show_nat (n div 10)) \<le> j" using 1(1) False by simp
    with False k show ?thesis by (subst show_nat.simps) simp
  qed
qed

lemma pad_length: "n < 10 ^ k \<Longrightarrow> 0 < k \<Longrightarrow> length (pad k (show_nat n)) = k"
  using show_nat_length [of n k] by (simp add: pad_def)

lemma month_day_bound:
  assumes "month_day ls m d = (k, r)" and "d \<le> sum_list ls" and "ls \<noteq> []"
  shows "k < m + int (length ls) \<and> m \<le> k \<and> r \<le> ls ! nat (k - m)"
  using assms
proof (induction ls m d rule: month_day.induct)
  case (2 l ls m d)
  show ?case
  proof (cases "d \<le> l")
    case False
    then have "ls \<noteq> []" using 2(3) by auto
    with 2 False have "k < m + 1 + int (length ls) \<and> m + 1 \<le> k \<and> r \<le> ls ! nat (k - (m + 1))" by simp
    moreover from this have "nat (k - m) = Suc (nat (k - (m + 1)))" by arith
    ultimately show ?thesis by simp
  qed (use 2 in auto)
qed simp

lemma days_before_year_mono: "y \<le> z \<Longrightarrow> days_before_year y \<le> days_before_year z"
proof (induction z rule: int_ge_induct)
  case (step z)
  have "days_before_year z \<le> days_before_year (z + 1)" using year_length [of z] by (simp split: if_splits)
  with step show ?case by simp
qed simp

lemma ymd_bounds:
  assumes "date_valid n" and "ymd n = (y, m, d)"
  shows "1 \<le> y \<and> y \<le> 9999" and "1 \<le> m \<and> m \<le> 12" and "1 \<le> d \<and> d \<le> month_len y m"
proof -
  have n: "1 \<le> n" "n \<le> 3652059" using assms(1) by (auto simp: date_valid_def date_max_def)
  have pos: "1 \<le> y" "1 \<le> m" "1 \<le> d" using ymd_positive [OF n(1) assms(2)] by auto
  have "0 \<le> (n - 1) div 366" using n(1) by (simp add: pos_imp_zdiv_nonneg_iff)
  from days_before_year_le [OF this] have "days_before_year ((n - 1) div 366 + 1) < n" by linarith
  from year_from_spec [OF this] have year: "days_before_year y < n" "n \<le> days_before_year (y + 1)"
    using assms(2) by (auto simp: ymd_def year_of_def Let_def)
  have "y \<le> 9999"
  proof (rule ccontr)
    assume "\<not> y \<le> 9999"
    then have "days_before_year 10000 \<le> days_before_year y" by (intro days_before_year_mono) simp
    with year(1) n(2) show False by (simp add: days_before_year_def)
  qed
  with pos show "1 \<le> y \<and> y \<le> 9999" by simp
  have md: "month_day (month_lengths y) 1 (n - days_before_year y) = (m, d)"
    using assms(2) by (auto simp: ymd_def Let_def)
  have "sum_list (month_lengths y) = days_before_year (y + 1) - days_before_year y"
    by (simp add: month_lengths_def year_length)
  then have "n - days_before_year y \<le> sum_list (month_lengths y)" using year(2) by simp
  from month_day_bound [OF md this] have "m < 1 + 12 \<and> d \<le> month_lengths y ! nat (m - 1)"
    by (simp add: month_lengths_def)
  with pos show "1 \<le> m \<and> m \<le> 12" "1 \<le> d \<and> d \<le> month_len y m" by (simp_all add: month_len_def)
qed

text \<open>Reading back the text of a date gives the date.\<close>

theorem date_fromiso_roundtrip:
  assumes "date_valid n"
  shows "date_fromisoformat (iso_date n) = Inr n"
proof -
  obtain y m d where e: "ymd n = (y, m, d)" by (cases "ymd n") auto
  note b = ymd_bounds [OF assms e]
  have "month_len y m \<le> 31"
  proof -
    have "nat (m - 1) < length (month_lengths y)" using b(2) by (simp add: month_lengths_def) arith
    then have "month_len y m \<in> set (month_lengths y)" by (simp add: month_len_def)
    then show ?thesis by (auto simp: month_lengths_def split: if_splits)
  qed
  with b have small: "nat y < 10 ^ 4" "nat m < 10 ^ 2" "nat d < 10 ^ 2" by (simp_all, arith+)
  then have len: "length (pad 4 (show_nat (nat y))) = 4" "length (pad 2 (show_nat (nat m))) = 2"
      "length (pad 2 (show_nat (nat d))) = 2"
    by (auto intro: pad_length)
  define p q r where "p = pad 4 (show_nat (nat y))" and "q = pad 2 (show_nat (nat m))" and "r = pad 2 (show_nat (nat d))"
  have iso: "iso_date n = p @ CHR ''-'' # q @ CHR ''-'' # r"
    by (simp add: iso_date_def e p_def q_def r_def)
  have lens: "length p = 4" "length q = 2" "length r = 2" using len by (simp_all add: p_def q_def r_def)
  have parts: "take 4 (iso_date n) = p" "take 2 (drop 5 (iso_date n)) = q" "drop 8 (iso_date n) = r"
    "iso_date n ! 4 = CHR ''-''" "iso_date n ! 7 = CHR ''-''" "length (iso_date n) = 10"
    using lens by (simp_all add: iso nth_append drop_Cons')
  have digits: "list_all is_digit p" "list_all is_digit q" "list_all is_digit r"
    unfolding p_def q_def r_def by (intro pad_digits show_nat_digits)+
  have reads: "read_nat p = nat y" "read_nat q = nat m" "read_nat r = nat d"
    by (simp_all add: p_def q_def r_def read_nat_pad read_show_nat)
  have "date_fromisoformat (iso_date n) = date_of_ymd y m d"
    using b by (simp add: date_fromisoformat_def parts digits reads)
  also have "\<dots> = Inr n" using b by (simp add: date_of_ymd_def ymd_inverse [OF e, symmetric])
  finally show ?thesis .
qed

lemma date_fromiso_roundtrip_witness: "date_fromisoformat (iso_date 739845) = Inr 739845"
  using date_fromiso_roundtrip [of 739845] by (simp add: date_valid_def date_max_def)

end
