(* ===== verification/TailCalibration.thy ===== *)
theory TailCalibration
  imports Snapshot "HOL-Library.Multiset"
begin

text \<open>
  The conservative empirical quantile and the joint tail corridor (\<open>validation/tail_calibration.py\<close>).
  Floats are exact rationals, so the finiteness checks are vacuous.
\<close>

section \<open>The empirical quantile\<close>

definition empirical_quantile_higher :: "rat list \<Rightarrow> rat \<Rightarrow> rat result" where
  "empirical_quantile_higher values quantile =
     (if values = [] then Inl (ValueError ''quantile values must not be empty'')
      else if \<not> (0 < quantile \<and> quantile < 1) then Inl (ValueError ''quantile must be in (0, 1)'')
      else if list_ex (\<lambda>v. v < 0) values
        then Inl (ValueError ''quantile value must be finite and non-negative'')
      else
        let ordered = sort values; index = max 0 (\<lceil>quantile * of_nat (length ordered)\<rceil> - 1)
        in Inr (ordered ! nat index))"

definition share_below :: "rat list \<Rightarrow> rat \<Rightarrow> nat" where
  "share_below xs w = length (filter (\<lambda>x. x \<le> w) xs)"

lemma share_below_sort: "share_below (sort xs) w = share_below xs w"
proof -
  have "size (filter_mset (\<lambda>x. x \<le> w) (mset (sort xs))) = size (filter_mset (\<lambda>x. x \<le> w) (mset xs))" by simp
  then show ?thesis unfolding share_below_def by (metis mset_filter size_mset)
qed

lemma share_split: "share_below xs w = share_below (take k xs) w + share_below (drop k xs) w"
  unfolding share_below_def by (metis append_take_drop_id filter_append length_append)

lemma share_below_nth:
  assumes "sorted xs" and "k < length xs"
  shows "k + 1 \<le> share_below xs (xs ! k)"
proof -
  have "x \<le> xs ! k" if "x \<in> set (take (k + 1) xs)" for x
    using that assms by (auto simp: in_set_conv_nth sorted_nth_mono)
  then have "filter (\<lambda>x. x \<le> xs ! k) (take (k + 1) xs) = take (k + 1) xs" by simp
  then have "share_below (take (k + 1) xs) (xs ! k) = k + 1" using assms(2) by (simp add: share_below_def)
  then show ?thesis using share_split [of xs "xs ! k" "k + 1"] by linarith
qed

lemma share_below_less:
  assumes "sorted xs" and "k < length xs" and "w < xs ! k"
  shows "share_below xs w \<le> k"
proof -
  have "\<not> x \<le> w" if x: "x \<in> set (drop k xs)" for x
  proof -
    obtain i where "i < length xs - k" "x = xs ! (k + i)" using x by (auto simp: in_set_conv_nth)
    then have "xs ! k \<le> x" using assms(1) by (simp add: sorted_nth_mono)
    with assms(3) show ?thesis by simp
  qed
  then have "share_below (drop k xs) w = 0" by (simp add: share_below_def)
  moreover have "share_below (take k xs) w \<le> k"
    unfolding share_below_def by (rule order_trans [OF length_filter_le]) simp
  ultimately show ?thesis using share_split [of xs w k] by linarith
qed

lemma quantile_facts:
  assumes "empirical_quantile_higher xs q = Inr v"
  shows "v \<in> set xs" and "q * of_nat (length xs) \<le> of_nat (share_below xs v)"
    and "q * of_nat (length xs) \<le> of_nat (share_below xs w) \<Longrightarrow> v \<le> w"
    and "0 \<le> v" and "0 < q" and "q < 1" and "xs \<noteq> []"
proof -
  let ?n = "length xs" and ?k = "nat (max 0 (\<lceil>q * of_nat (length xs)\<rceil> - 1))"
  have ok: "xs \<noteq> []" "0 < q" "q < 1" "\<forall>x \<in> set xs. 0 \<le> x"
    using assms by (auto simp: empirical_quantile_higher_def list_ex_iff not_less split: if_splits)
  then show "0 < q" "q < 1" "xs \<noteq> []" by simp_all
  have v: "v = sort xs ! ?k"
    using assms by (auto simp: empirical_quantile_higher_def Let_def split: if_splits)
  have n: "0 < (of_nat ?n :: rat)" using ok(1) by simp
  then have qn: "0 < q * of_nat ?n" "q * of_nat ?n < of_nat ?n" using ok(2,3) by simp_all
  then have "1 \<le> \<lceil>q * of_nat ?n\<rceil>" "\<lceil>q * of_nat ?n\<rceil> \<le> int ?n" by (simp_all add: ceiling_le_iff)
  then have k: "?k < ?n" "int ?k + 1 = \<lceil>q * of_nat ?n\<rceil>" by linarith+
  then have up: "q * of_nat ?n \<le> of_nat (?k + 1)" by (metis le_of_int_ceiling of_int_of_nat_eq of_nat_1 of_nat_add)
  have low: "of_nat ?k < q * of_nat ?n"
  proof -
    have "int ?k < \<lceil>q * of_nat ?n\<rceil>" using k(2) by linarith
    then show ?thesis by (simp add: less_ceiling_iff)
  qed
  have "v \<in> set (sort xs)" unfolding v by (rule nth_mem) (use k(1) in simp)
  then show mem: "v \<in> set xs" by simp
  then show "0 \<le> v" using ok(4) by simp
  have "?k + 1 \<le> share_below xs v"
    using share_below_nth [of "sort xs" ?k] k(1) unfolding v share_below_sort by simp
  then show "q * of_nat (length xs) \<le> of_nat (share_below xs v)" using up by (meson of_nat_mono order_trans)
  show "v \<le> w" if w: "q * of_nat (length xs) \<le> of_nat (share_below xs w)"
  proof (rule ccontr)
    assume "\<not> v \<le> w"
    then have "share_below xs w \<le> ?k"
      using share_below_less [of "sort xs" ?k w] k(1) unfolding v share_below_sort by simp
    then have "(of_nat (share_below xs w) :: rat) \<le> of_nat ?k" by simp
    with low w show False by linarith
  qed
qed

section \<open>The joint corridor\<close>

record calibration_sample =
  cs_sample_id :: string
  cs_group_id :: string
  cs_event_type :: string
  cs_regime :: string
  upward_move :: rat
  downward_move :: rat

definition mk_calibration_sample :: "calibration_sample \<Rightarrow> calibration_sample result" where
  "mk_calibration_sample s =
     (if blank (cs_sample_id s) \<or> blank (cs_group_id s) \<or> blank (cs_event_type s) \<or> blank (cs_regime s)
      then Inl (ValueError ''sample identity and strata must not be blank'')
      else if upward_move s < 0 then Inl (ValueError ''upward_move must be finite and non-negative'')
      else if downward_move s < 0 then Inl (ValueError ''downward_move must be finite and non-negative'')
      else Inr s)"

record calibration_config =
  cc_target_coverage :: rat
  minimum_samples :: int
  cc_event_type :: string
  cc_regime :: string

definition mk_calibration_config :: "calibration_config \<Rightarrow> calibration_config result" where
  "mk_calibration_config c =
     (if \<not> (1 / 2 < cc_target_coverage c \<and> cc_target_coverage c < 1)
        then Inl (ValueError ''target_coverage must be in (0.5, 1)'')
      else if minimum_samples c < 2 then Inl (ValueError ''minimum_samples must be at least 2'')
      else if blank (cc_event_type c) \<or> blank (cc_regime c)
        then Inl (ValueError ''event_type and regime are required'')
      else Inr c)"

record tail_artifact =
  artifact_version :: string
  ta_data_manifest_hash :: string
  ta_config :: calibration_config
  ta_sample_ids :: "string list"
  ta_group_ids :: "string list"
  upward_tail :: rat
  downward_tail :: rat
  joint_buffer :: rat
  ta_artifact_hash :: string

definition artifact_payload :: "(rat \<Rightarrow> string) \<Rightarrow> tail_artifact \<Rightarrow> (string, pyval) dict" where
  "artifact_payload fr a =
     [(''artifact_version'', PStr (artifact_version a)), (''data_manifest_hash'', PStr (ta_data_manifest_hash a)),
      (''config'', PDict
        [(''target_coverage'', PFloat (cc_target_coverage (ta_config a)) (fr (cc_target_coverage (ta_config a)))),
         (''minimum_samples'', PInt (minimum_samples (ta_config a))),
         (''event_type'', PStr (cc_event_type (ta_config a))), (''regime'', PStr (cc_regime (ta_config a)))]),
      (''sample_ids'', PList (map PStr (ta_sample_ids a))), (''group_ids'', PList (map PStr (ta_group_ids a))),
      (''upward_tail'', PFloat (upward_tail a) (fr (upward_tail a))),
      (''downward_tail'', PFloat (downward_tail a) (fr (downward_tail a))),
      (''joint_buffer'', PFloat (joint_buffer a) (fr (joint_buffer a)))]"

definition artifact_digest :: "(string \<Rightarrow> string) \<Rightarrow> (rat \<Rightarrow> string) \<Rightarrow> tail_artifact \<Rightarrow> string" where
  "artifact_digest sha fr a = snapshot_id (freeze_snapshot sha (PDict (artifact_payload fr a)))"

definition artifact_verify :: "(string \<Rightarrow> string) \<Rightarrow> (rat \<Rightarrow> string) \<Rightarrow> tail_artifact \<Rightarrow> unit result" where
  "artifact_verify sha fr a =
     (if ta_artifact_hash a \<noteq> artifact_digest sha fr a
      then Inl (ValueError ''tail calibration artifact hash mismatch'') else Inr ())"

record coverage_report =
  cv_sample_count :: nat
  upward_coverage :: rat
  downward_coverage :: rat
  joint_coverage :: rat

definition in_stratum :: "calibration_config \<Rightarrow> calibration_sample \<Rightarrow> bool" where
  "in_stratum c s \<longleftrightarrow> cs_event_type s = cc_event_type c \<and> cs_regime s = cc_regime c"

definition nonconformity :: "rat \<Rightarrow> rat \<Rightarrow> calibration_sample \<Rightarrow> rat" where
  "nonconformity up down s = max 0 (max (upward_move s - up) (downward_move s - down))"

definition finite_sample_quantile :: "nat \<Rightarrow> rat \<Rightarrow> rat" where
  "finite_sample_quantile n c = min (1 - 1 / 10 ^ 12) (of_int \<lceil>of_nat (n + 1) * c\<rceil> / of_nat n)"

definition calibrate_joint_tail_corridor ::
  "(string \<Rightarrow> string) \<Rightarrow> (rat \<Rightarrow> string) \<Rightarrow> calibration_sample list \<Rightarrow> calibration_config \<Rightarrow> string \<Rightarrow> string
     \<Rightarrow> tail_artifact result" where
  "calibrate_joint_tail_corridor sha fr samples c manifest ver =
     (if blank manifest \<or> blank ver then Inl (ValueError ''data manifest hash and artifact version are required'')
      else if \<not> distinct (map cs_sample_id samples) then Inl (ValueError ''sample_id values must be unique'')
      else
        let kept = filter (in_stratum c) samples in
        if int (length kept) < minimum_samples c
        then Inl (ValueError ''insufficient stratum samples; tail corridor must remain unavailable'')
        else res_bind (empirical_quantile_higher (map upward_move kept) (cc_target_coverage c)) (\<lambda>up.
             res_bind (empirical_quantile_higher (map downward_move kept) (cc_target_coverage c)) (\<lambda>down.
             res_bind (empirical_quantile_higher (map (nonconformity up down) kept)
                         (finite_sample_quantile (length kept) (cc_target_coverage c))) (\<lambda>buffer.
               let candidate = \<lparr>artifact_version = ver, ta_data_manifest_hash = manifest, ta_config = c,
                     ta_sample_ids = sort (map cs_sample_id kept),
                     ta_group_ids = sorted_tuple (set (map cs_group_id kept)),
                     upward_tail = up + buffer, downward_tail = down + buffer, joint_buffer = buffer,
                     ta_artifact_hash = []\<rparr>;
                   artifact = candidate\<lparr>ta_artifact_hash := artifact_digest sha fr candidate\<rparr>
               in res_bind (artifact_verify sha fr artifact) (\<lambda>_. Inr artifact)))))"

definition inside_up :: "tail_artifact \<Rightarrow> calibration_sample \<Rightarrow> bool" where
  "inside_up a s \<longleftrightarrow> upward_move s \<le> upward_tail a"

definition inside_down :: "tail_artifact \<Rightarrow> calibration_sample \<Rightarrow> bool" where
  "inside_down a s \<longleftrightarrow> downward_move s \<le> downward_tail a"

definition count_if :: "('a \<Rightarrow> bool) \<Rightarrow> 'a list \<Rightarrow> nat" where
  "count_if P xs = length (filter P xs)"

definition evaluate_tail_coverage ::
  "(string \<Rightarrow> string) \<Rightarrow> (rat \<Rightarrow> string) \<Rightarrow> tail_artifact \<Rightarrow> calibration_sample list \<Rightarrow> coverage_report result" where
  "evaluate_tail_coverage sha fr a holdout =
     res_bind (artifact_verify sha fr a) (\<lambda>_.
       let relevant = filter (in_stratum (ta_config a)) holdout in
       if relevant = [] then Inl (ValueError ''holdout has no samples for the calibrated stratum'')
       else if set (ta_sample_ids a) \<inter> set (map cs_sample_id relevant) \<noteq> {}
         then Inl (ValueError ''calibration and holdout sample ids overlap'')
       else if set (ta_group_ids a) \<inter> set (map cs_group_id relevant) \<noteq> {}
         then Inl (ValueError ''calibration and holdout groups overlap'')
       else
         let n = length relevant in
         Inr \<lparr>cv_sample_count = n, upward_coverage = of_nat (count_if (inside_up a) relevant) / of_nat n,
           downward_coverage = of_nat (count_if (inside_down a) relevant) / of_nat n,
           joint_coverage = of_nat (count_if (\<lambda>s. inside_up a s \<and> inside_down a s) relevant) / of_nat n\<rparr>)"

section \<open>Properties\<close>

text \<open>The empirical quantile is the exact conservative one: the value returned is an observation, at
  least the asked share of the observations lie at or below it, and it is the least number of which
  that is true; it is returned exactly for observations and a quantile in range.\<close>

theorem quantile_exact:
  "case empirical_quantile_higher xs q of
     Inl e \<Rightarrow> xs = [] \<or> \<not> (0 < q \<and> q < 1) \<or> (\<exists>x \<in> set xs. x < 0)
   | Inr v \<Rightarrow> xs \<noteq> [] \<and> 0 < q \<and> q < 1 \<and> v \<in> set xs
       \<and> q * of_nat (length xs) \<le> of_nat (length (filter (\<lambda>x. x \<le> v) xs))
       \<and> (\<forall>w. q * of_nat (length xs) \<le> of_nat (length (filter (\<lambda>x. x \<le> w) xs)) \<longrightarrow> v \<le> w)"
proof (cases "empirical_quantile_higher xs q")
  case (Inl e)
  then show ?thesis by (auto simp: empirical_quantile_higher_def Let_def list_ex_iff split: if_splits)
next
  case (Inr v)
  then show ?thesis using quantile_facts [OF Inr, unfolded share_below_def] by auto
qed

lemma artifact_digest_update [simp]:
  "artifact_digest sha fr (a\<lparr>ta_artifact_hash := h\<rparr>) = artifact_digest sha fr a"
  by (simp add: artifact_digest_def artifact_payload_def)

lemma inside_corridor: "nonconformity up down s \<le> buffer \<Longrightarrow> upward_move s \<le> up + buffer \<and> downward_move s \<le> down + buffer"
  by (simp add: nonconformity_def)

lemma count_if_mono: "(\<And>x. x \<in> set xs \<Longrightarrow> P x \<Longrightarrow> Q x) \<Longrightarrow> count_if P xs \<le> count_if Q xs"
  by (induction xs) (auto simp: count_if_def)

text \<open>A calibrated corridor covers its own calibration sample jointly: whenever a corridor is fitted,
  its artifact verifies, its stratum had the required samples, and the share of them inside both tails
  at once is at least the finite-sample quantile of the target, so at least the target itself whenever
  the target leaves room below one.\<close>

theorem corridor_covers_calibration:
  assumes "calibrate_joint_tail_corridor sha fr samples c manifest ver = Inr a"
  shows "let kept = filter (in_stratum c) samples;
             joint = length (filter (\<lambda>s. upward_move s \<le> upward_tail a \<and> downward_move s \<le> downward_tail a) kept)
    in artifact_verify sha fr a = Inr () \<and> minimum_samples c \<le> int (length kept)
     \<and> finite_sample_quantile (length kept) (cc_target_coverage c) * of_nat (length kept) \<le> of_nat joint
     \<and> (cc_target_coverage c \<le> 1 - 1 / 10 ^ 12 \<longrightarrow> cc_target_coverage c * of_nat (length kept) \<le> of_nat joint)"
proof -
  let ?kept = "filter (in_stratum c) samples" and ?c = "cc_target_coverage c"
  let ?n = "length ?kept"
  let ?joint = "length (filter (\<lambda>s. upward_move s \<le> upward_tail a \<and> downward_move s \<le> downward_tail a) ?kept)"
  obtain up down buffer where q: "empirical_quantile_higher (map upward_move ?kept) ?c = Inr up"
      "empirical_quantile_higher (map (nonconformity up down) ?kept) (finite_sample_quantile ?n ?c) = Inr buffer"
    and tails: "upward_tail a = up + buffer" "downward_tail a = down + buffer"
    and ok: "artifact_verify sha fr a = Inr ()" "minimum_samples c \<le> int ?n"
    using assms by (auto simp: calibrate_joint_tail_corridor_def Let_def not_less split: if_splits)
  note facts = quantile_facts [OF q(2)] and c = quantile_facts [OF q(1)]
  have "share_below (map (nonconformity up down) ?kept) buffer
      = length (filter (\<lambda>s. nonconformity up down s \<le> buffer) ?kept)"
    by (simp add: share_below_def filter_map comp_def)
  also have "\<dots> \<le> ?joint"
    using count_if_mono [of ?kept "\<lambda>s. nonconformity up down s \<le> buffer"
        "\<lambda>s. upward_move s \<le> upward_tail a \<and> downward_move s \<le> downward_tail a"] inside_corridor
    unfolding count_if_def tails by blast
  finally have "(of_nat (share_below (map (nonconformity up down) ?kept) buffer) :: rat) \<le> of_nat ?joint" by simp
  with facts(2) have joint: "finite_sample_quantile ?n ?c * of_nat ?n \<le> of_nat ?joint" by simp
  have n: "0 < (of_nat ?n :: rat)" using c(7) by simp
  have "?c \<le> finite_sample_quantile ?n ?c" if "?c \<le> 1 - 1 / 10 ^ 12"
  proof -
    have "?c * of_nat ?n \<le> of_nat (?n + 1) * ?c" using c(5) by (simp add: algebra_simps)
    also have "\<dots> \<le> of_int \<lceil>of_nat (?n + 1) * ?c\<rceil>" by (rule le_of_int_ceiling)
    finally have "?c \<le> of_int \<lceil>of_nat (?n + 1) * ?c\<rceil> / of_nat ?n" using n by (simp add: pos_le_divide_eq)
    with that show ?thesis by (simp add: finite_sample_quantile_def)
  qed
  then have "?c * of_nat ?n \<le> of_nat ?joint" if "?c \<le> 1 - 1 / 10 ^ 12"
    using that joint n mult_right_mono [of ?c "finite_sample_quantile ?n ?c" "of_nat ?n"] by linarith
  with ok joint show ?thesis unfolding Let_def by blast
qed

lemma quantile_returns:
  "xs \<noteq> [] \<Longrightarrow> 0 < q \<Longrightarrow> q < 1 \<Longrightarrow> \<forall>x \<in> set xs. 0 \<le> x \<Longrightarrow> \<exists>v. empirical_quantile_higher xs q = Inr v"
  by (auto simp: empirical_quantile_higher_def Let_def list_ex_iff not_less)

lemma finite_sample_quantile_range:
  assumes "0 < n" and "0 < c"
  shows "0 < finite_sample_quantile n c" and "finite_sample_quantile n c < 1"
proof -
  have "0 < \<lceil>of_nat (n + 1) * c\<rceil>" using assms by (simp add: zero_less_ceiling add_pos_nonneg)
  then show "0 < finite_sample_quantile n c" using assms(1) by (simp add: finite_sample_quantile_def)
  have "finite_sample_quantile n c \<le> 1 - 1 / 10 ^ 12" unfolding finite_sample_quantile_def by (rule min.cobounded1)
  also have "\<dots> < 1" by simp
  finally show "finite_sample_quantile n c < 1" .
qed

definition example_calibration :: "calibration_sample list" where
  "example_calibration =
     [\<lparr>cs_sample_id = ''a'', cs_group_id = ''g'', cs_event_type = ''e'', cs_regime = ''r'', upward_move = 1, downward_move = 2\<rparr>,
      \<lparr>cs_sample_id = ''b'', cs_group_id = ''h'', cs_event_type = ''e'', cs_regime = ''r'', upward_move = 3, downward_move = 1\<rparr>]"

definition example_calibration_config :: calibration_config where
  "example_calibration_config =
     \<lparr>cc_target_coverage = 3 / 5, minimum_samples = 2, cc_event_type = ''e'', cc_regime = ''r''\<rparr>"

theorem corridor_covers_calibration_witness:
  "\<exists>a. calibrate_joint_tail_corridor (\<lambda>x. x) number_text example_calibration example_calibration_config ''d'' ''v'' = Inr a
     \<and> length (filter (\<lambda>s. upward_move s \<le> upward_tail a \<and> downward_move s \<le> downward_tail a) example_calibration) = 2"
proof -
  let ?kept = "example_calibration" and ?c = "3 / 5 :: rat"
  have kept: "filter (in_stratum example_calibration_config) example_calibration = example_calibration"
    by (simp add: example_calibration_def example_calibration_config_def in_stratum_def)
  have moves: "map upward_move ?kept = [1, 3]" "map downward_move ?kept = [2, 1]" "length ?kept = 2"
    "distinct (map cs_sample_id ?kept)"
    by (simp_all add: example_calibration_def)
  have config: "cc_target_coverage example_calibration_config = ?c" "minimum_samples example_calibration_config = 2"
    by (simp_all add: example_calibration_config_def)
  obtain up where up: "empirical_quantile_higher (map upward_move ?kept) ?c = Inr up"
    using quantile_returns [of "map upward_move ?kept" ?c] by (auto simp: moves)
  obtain down where down: "empirical_quantile_higher (map downward_move ?kept) ?c = Inr down"
    using quantile_returns [of "map downward_move ?kept" ?c] by (auto simp: moves)
  obtain buffer where buffer: "empirical_quantile_higher (map (nonconformity up down) ?kept) (finite_sample_quantile 2 ?c) = Inr buffer"
  proof -
    have "map (nonconformity up down) ?kept \<noteq> []" by (simp add: example_calibration_def)
    moreover have "0 < finite_sample_quantile 2 ?c" "finite_sample_quantile 2 ?c < 1"
      by (rule finite_sample_quantile_range; simp)+
    moreover have "\<forall>x \<in> set (map (nonconformity up down) ?kept). 0 \<le> x" by (simp add: nonconformity_def)
    ultimately show thesis using quantile_returns that by blast
  qed
  have "\<not> blank ''d''" "\<not> blank ''v''" by (simp_all add: blank_iff is_space_def)
  then obtain a where a: "calibrate_joint_tail_corridor (\<lambda>x. x) number_text example_calibration example_calibration_config ''d'' ''v'' = Inr a"
    using up down buffer
    by (simp add: calibrate_joint_tail_corridor_def kept moves(3,4) Let_def artifact_verify_def config)
  define k where "k = length (filter (\<lambda>s. upward_move s \<le> upward_tail a \<and> downward_move s \<le> downward_tail a) ?kept)"
  from corridor_covers_calibration [OF a] have "?c * 2 \<le> of_nat k"
    by (simp add: kept moves(3) Let_def config k_def)
  then have "(of_nat 1 :: rat) < of_nat k" by simp
  then have "1 < k" by (simp only: of_nat_less_iff)
  moreover have "k \<le> 2" unfolding k_def moves(3) [symmetric] by (rule length_filter_le)
  ultimately show ?thesis using a by (intro exI [of _ a]) (simp add: k_def)
qed

end
