(* ===== verification/TailModel.thy ===== *)
theory TailModel
  imports TailCalibration WalkForward DateText Condor
begin

text \<open>
  Tail models v1 and their walk-forward evaluation (\<open>validation/tail_model.py\<close>): the unconditional and
  the IV-regime model, and the harness that fits a model on the training days of each purged fold
  and scores it on the test days.  The protocol of a model is a record of its operations.  The
  readers of label and feature mappings and of the rules file are not modelled: labels and features
  are records.
\<close>

section \<open>Labels, features and configuration\<close>

record tail_label =
  tl_day :: pydate
  up_max :: rat
  down_max :: rat
  tl_entry_price :: "rat option"

definition mk_tail_label :: "tail_label \<Rightarrow> tail_label result" where
  "mk_tail_label l =
     (if up_max l < 0 then Inl (TailDistancesError ''up_max must be finite and non-negative'')
      else if down_max l < 0 then Inl (TailDistancesError ''down_max must be finite and non-negative'')
      else (case tl_entry_price l of
          None \<Rightarrow> Inr l
        | Some p \<Rightarrow>
            if p < 0 then Inl (TailDistancesError ''entry_price must be finite and non-negative'')
            else if p \<le> 0 then Inl (TailDistancesError ''entry_price must be positive'')
            else Inr l))"

record entry_features =
  ef_day :: pydate
  atm_iv :: "rat option"
  atm_iv_valid :: bool

definition mk_entry_features :: "entry_features \<Rightarrow> entry_features result" where
  "mk_entry_features f =
     (case atm_iv f of
        None \<Rightarrow> Inr f
      | Some v \<Rightarrow>
          if v < 0 then Inl (TailDistancesError ''atm_iv must be finite and non-negative'')
          else if v \<le> 0 then Inl (TailDistancesError ''atm_iv must be positive when present'')
          else Inr f)"

record tail_config =
  quantiles :: "rat list"
  min_regime_samples :: int
  allow_fallback :: bool
  min_distance :: rat

definition mk_tail_config :: "tail_config \<Rightarrow> tail_config result" where
  "mk_tail_config c =
     (if quantiles c = [] then Inl (TailDistancesError ''quantiles must not be empty'')
      else if list_ex (\<lambda>q. \<not> (0 < q \<and> q < 1)) (quantiles c)
        then Inl (TailDistancesError ''quantiles must be within (0, 1)'')
      else if \<not> distinct (quantiles c) then Inl (TailDistancesError ''quantiles must be unique'')
      else if min_regime_samples c < 1 then Inl (TailDistancesError ''min_regime_samples must be positive'')
      else if min_distance c \<le> 0 then Inl (TailDistancesError ''min_distance must be positive and finite'')
      else Inr (c\<lparr>quantiles := sort (quantiles c)\<rparr>))"

definition REGIME_NAMES :: "string list" where
  "REGIME_NAMES = [''IV_Q1'', ''IV_Q2'', ''IV_Q3'', ''IV_Q4'']"

definition REGIME_CUTS :: "rat list" where
  "REGIME_CUTS = [1 / 4, 1 / 2, 3 / 4]"

section \<open>The models\<close>

text \<open>The structural contract of \<open>TailModel\<close>: \<open>fit\<close>, \<open>recommend\<close> and the version.\<close>

record 'm tail_ops =
  ops_fit :: "'m \<Rightarrow> tail_label list \<Rightarrow> entry_features list \<Rightarrow> 'm result"
  ops_recommend :: "'m \<Rightarrow> entry_features \<Rightarrow> rat \<Rightarrow> tail_distances option result"
  ops_version :: "'m \<Rightarrow> string"

definition quantile_table :: "rat list \<Rightarrow> rat list \<Rightarrow> (rat, rat) dict result" where
  "quantile_table qs values =
     res_map (\<lambda>q. res_bind (empirical_quantile_higher values q) (\<lambda>v. Inr (q, v))) qs"

record uncond_model =
  um_config :: tail_config
  um_up :: "(rat, rat) dict"
  um_down :: "(rat, rat) dict"
  um_train_days :: nat

definition new_uncond :: "tail_config \<Rightarrow> uncond_model" where
  "new_uncond c = \<lparr>um_config = c, um_up = [], um_down = [], um_train_days = 0\<rparr>"

definition uncond_version :: string where "uncond_version = ''unconditional-tail-v1''"

definition uncond_fit :: "uncond_model \<Rightarrow> tail_label list \<Rightarrow> entry_features list \<Rightarrow> uncond_model result" where
  "uncond_fit m labels features =
     (if labels = [] then Inl (TailDistancesError ''training labels must not be empty'')
      else res_bind (quantile_table (quantiles (um_config m)) (map up_max labels)) (\<lambda>up.
           res_bind (quantile_table (quantiles (um_config m)) (map down_max labels)) (\<lambda>down.
             Inr (m\<lparr>um_up := up, um_down := down, um_train_days := length labels\<rparr>))))"

definition uncond_recommend :: "uncond_model \<Rightarrow> entry_features \<Rightarrow> rat \<Rightarrow> tail_distances option result" where
  "uncond_recommend m f q =
     (if um_up m = [] then Inl (TailDistancesError ''model is not fitted'')
      else (case (map_of (um_up m) q, map_of (um_down m) q) of
          (Some up, Some down) \<Rightarrow>
            res_bind (mk_tail_distances \<lparr>td_day = ef_day f,
                down_distance = max down (min_distance (um_config m)),
                up_distance = max up (min_distance (um_config m)), td_regime = ''ALL'',
                td_model_version = uncond_version, td_quantile = q\<rparr>) (\<lambda>t. Inr (Some t))
        | _ \<Rightarrow> Inl (TailDistancesError ''quantile was not fitted'')))"

definition uncond_ops :: "uncond_model tail_ops" where
  "uncond_ops = \<lparr>ops_fit = uncond_fit, ops_recommend = uncond_recommend, ops_version = (\<lambda>_. uncond_version)\<rparr>"

text \<open>\<open>bisect_right\<close> on sorted boundaries.\<close>

definition bisect_right :: "rat list \<Rightarrow> rat \<Rightarrow> nat" where
  "bisect_right bs x = length (filter (\<lambda>b. b \<le> x) bs)"

definition regime_name :: "rat list \<Rightarrow> rat \<Rightarrow> string" where
  "regime_name bs iv = REGIME_NAMES ! bisect_right bs iv"

record iv_model =
  iv_config :: tail_config
  iv_boundaries :: "rat list"
  iv_tables :: "(string, (rat, rat \<times> rat) dict) dict"
  iv_counts :: "(string, nat) dict"
  iv_unconditional :: "uncond_model option"

definition new_iv :: "tail_config \<Rightarrow> iv_model" where
  "new_iv c = \<lparr>iv_config = c, iv_boundaries = [], iv_tables = [], iv_counts = [], iv_unconditional = None\<rparr>"

definition iv_version :: string where "iv_version = ''iv-regime-tail-v1''"

definition features_by_day :: "entry_features list \<Rightarrow> (pydate, entry_features) dict" where
  "features_by_day fs = fold (\<lambda>f. AList.update (ef_day f) f) fs []"

definition usable_iv :: "entry_features option \<Rightarrow> rat option" where
  "usable_iv f = (case f of None \<Rightarrow> None | Some x \<Rightarrow> if atm_iv_valid x then atm_iv x else None)"

definition valid_days :: "(pydate, entry_features) dict \<Rightarrow> tail_label list \<Rightarrow> (tail_label \<times> rat) list" where
  "valid_days fs labels = concat (map (\<lambda>l. case usable_iv (map_of fs (tl_day l)) of None \<Rightarrow> [] | Some v \<Rightarrow> [(l, v)]) labels)"

definition regime_bucket :: "rat list \<Rightarrow> (tail_label \<times> rat) list \<Rightarrow> string \<Rightarrow> tail_label list" where
  "regime_bucket bs valid name = map fst (filter (\<lambda>(l, v). regime_name bs v = name) valid)"

definition regime_table :: "rat list \<Rightarrow> tail_label list \<Rightarrow> (rat, rat \<times> rat) dict result" where
  "regime_table qs bucket =
     res_map (\<lambda>q. res_bind (empirical_quantile_higher (map up_max bucket) q) (\<lambda>u.
                  res_bind (empirical_quantile_higher (map down_max bucket) q) (\<lambda>d. Inr (q, (u, d))))) qs"

definition regime_boundaries :: "(tail_label \<times> rat) list \<Rightarrow> rat list result" where
  "regime_boundaries valid = res_map (empirical_quantile_higher (map snd valid)) REGIME_CUTS"

definition iv_fit :: "iv_model \<Rightarrow> tail_label list \<Rightarrow> entry_features list \<Rightarrow> iv_model result" where
  "iv_fit m labels features =
     (if labels = [] then Inl (TailDistancesError ''training labels must not be empty'')
      else
        let valid = valid_days (features_by_day features) labels; c = iv_config m in
        if valid = [] then Inl (TailDistancesError ''no training days with valid atm_iv'')
        else res_bind (regime_boundaries valid) (\<lambda>bs.
             res_bind (uncond_fit (new_uncond c) (map fst valid) []) (\<lambda>fallback.
             res_bind (res_map (\<lambda>name. res_bind (regime_table (quantiles c) (regime_bucket bs valid name)) (\<lambda>t. Inr (name, t)))
                 (filter (\<lambda>name. min_regime_samples c \<le> int (length (regime_bucket bs valid name))) REGIME_NAMES))
               (\<lambda>tables. Inr (m\<lparr>iv_boundaries := bs, iv_tables := tables,
                  iv_counts := map (\<lambda>name. (name, length (regime_bucket bs valid name))) REGIME_NAMES,
                  iv_unconditional := Some fallback\<rparr>)))))"

definition iv_recommend :: "iv_model \<Rightarrow> entry_features \<Rightarrow> rat \<Rightarrow> tail_distances option result" where
  "iv_recommend m f q =
     (let c = iv_config m in
      if iv_boundaries m = [] then Inl (TailDistancesError ''model is not fitted'')
      else if q \<notin> set (quantiles c) then Inl (TailDistancesError ''quantile was not fitted'')
      else (case usable_iv (Some f) of
          None \<Rightarrow> Inr None
        | Some iv \<Rightarrow>
            let name = regime_name (iv_boundaries m) iv in
            (case map_of (iv_tables m) name of
               Some table \<Rightarrow>
                 (case map_of table q of
                    None \<Rightarrow> Inl (KeyError ''quantile'')
                  | Some (up, down) \<Rightarrow>
                      res_bind (mk_tail_distances \<lparr>td_day = ef_day f, down_distance = max down (min_distance c),
                          up_distance = max up (min_distance c), td_regime = name,
                          td_model_version = iv_version, td_quantile = q\<rparr>) (\<lambda>t. Inr (Some t)))
             | None \<Rightarrow>
                 (case (if allow_fallback c then iv_unconditional m else None) of
                    None \<Rightarrow> Inr None
                  | Some u \<Rightarrow>
                      res_bind (uncond_recommend u f q) (\<lambda>r.
                        case r of None \<Rightarrow> Inr None
                        | Some t \<Rightarrow>
                            res_bind (mk_tail_distances \<lparr>td_day = ef_day f, down_distance = down_distance t,
                                up_distance = up_distance t, td_regime = name @ ''_FALLBACK'',
                                td_model_version = iv_version, td_quantile = q\<rparr>) (\<lambda>t'. Inr (Some t')))))))"

definition iv_ops :: "iv_model tail_ops" where
  "iv_ops = \<lparr>ops_fit = iv_fit, ops_recommend = iv_recommend, ops_version = (\<lambda>_. iv_version)\<rparr>"

section \<open>Evaluation metrics\<close>

record evaluation_metrics =
  em_test_days :: int
  em_abstain_days :: int
  em_evaluated_days :: int
  em_covered_days :: int
  em_up_breach_count :: int
  em_down_breach_count :: int
  em_coverage :: "rat option"
  em_no_trade_share :: rat
  mean_up_distance :: "rat option"
  mean_down_distance :: "rat option"
  median_up_distance :: "rat option"
  median_down_distance :: "rat option"

definition not_positive :: "rat option \<Rightarrow> bool" where
  "not_positive v = (case v of None \<Rightarrow> False | Some x \<Rightarrow> x \<le> 0)"

definition mk_metrics :: "evaluation_metrics \<Rightarrow> evaluation_metrics result" where
  "mk_metrics m =
     (if list_ex (\<lambda>n. n < 0) [em_test_days m, em_abstain_days m, em_evaluated_days m, em_covered_days m,
           em_up_breach_count m, em_down_breach_count m]
        then Inl (ValueError ''evaluation counts must be non-negative'')
      else if em_abstain_days m + em_evaluated_days m \<noteq> em_test_days m
        then Inl (ValueError ''abstain and evaluated days must add up to test days'')
      else if em_covered_days m > em_evaluated_days m
        then Inl (ValueError ''covered days cannot exceed evaluated days'')
      else if em_up_breach_count m > em_evaluated_days m
        then Inl (ValueError ''up breach count cannot exceed evaluated days'')
      else if em_down_breach_count m > em_evaluated_days m
        then Inl (ValueError ''down breach count cannot exceed evaluated days'')
      else if \<not> (0 \<le> em_no_trade_share m \<and> em_no_trade_share m \<le> 1)
        then Inl (ValueError ''no_trade_share must be in [0, 1]'')
      else if em_evaluated_days m = 0 \<and> em_coverage m \<noteq> None
        then Inl (ValueError ''coverage is undefined without evaluated days'')
      else if em_evaluated_days m \<noteq> 0 \<and>
              (case em_coverage m of None \<Rightarrow> True | Some c \<Rightarrow> \<not> (0 \<le> c \<and> c \<le> 1))
        then Inl (ValueError ''coverage must be in [0, 1] when days were evaluated'')
      else if list_ex not_positive [mean_up_distance m, mean_down_distance m, median_up_distance m, median_down_distance m]
        then Inl (ValueError ''distance statistics must be positive and finite'')
      else Inr m)"

definition mean_of :: "rat list \<Rightarrow> rat option" where
  "mean_of xs = (if xs = [] then None else Some (sum_list xs / of_nat (length xs)))"

definition median_of :: "rat list \<Rightarrow> rat option" where
  "median_of xs =
     (if xs = [] then None
      else let s = sort xs; n = length s in
           if n mod 2 = 1 then Some (s ! (n div 2)) else Some ((s ! (n div 2 - 1) + s ! (n div 2)) / 2))"

text \<open>What the loop over the test days counts.\<close>

record tally =
  ty_abstain :: nat
  ty_covered :: nat
  ty_up_breaches :: nat
  ty_down_breaches :: nat
  ty_ups :: "rat list"
  ty_downs :: "rat list"

definition empty_tally :: tally where
  "empty_tally = \<lparr>ty_abstain = 0, ty_covered = 0, ty_up_breaches = 0, ty_down_breaches = 0, ty_ups = [], ty_downs = []\<rparr>"

definition add_tally :: "tally \<Rightarrow> tally \<Rightarrow> tally" where
  "add_tally s t = \<lparr>ty_abstain = ty_abstain s + ty_abstain t, ty_covered = ty_covered s + ty_covered t,
     ty_up_breaches = ty_up_breaches s + ty_up_breaches t, ty_down_breaches = ty_down_breaches s + ty_down_breaches t,
     ty_ups = ty_ups s @ ty_ups t, ty_downs = ty_downs s @ ty_downs t\<rparr>"

definition build_metrics :: "nat \<Rightarrow> tally \<Rightarrow> evaluation_metrics result" where
  "build_metrics test_days t =
     (let evaluated = int test_days - int (ty_abstain t) in
      if evaluated \<noteq> int (length (ty_ups t)) \<or> evaluated \<noteq> int (length (ty_downs t))
      then Inl (ValueError ''distance observations must match evaluated days'')
      else mk_metrics \<lparr>em_test_days = int test_days, em_abstain_days = int (ty_abstain t),
        em_evaluated_days = evaluated, em_covered_days = int (ty_covered t),
        em_up_breach_count = int (ty_up_breaches t), em_down_breach_count = int (ty_down_breaches t),
        em_coverage = (if evaluated \<noteq> 0 then Some (of_nat (ty_covered t) / of_int evaluated) else None),
        em_no_trade_share = (if test_days \<noteq> 0 then of_nat (ty_abstain t) / of_nat test_days else 0),
        mean_up_distance = mean_of (ty_ups t), mean_down_distance = mean_of (ty_downs t),
        median_up_distance = median_of (ty_ups t), median_down_distance = median_of (ty_downs t)\<rparr>)"

section \<open>The harness\<close>

record fold_evaluation =
  fe_fold_index :: nat
  fe_train_days :: nat
  fe_purge_cutoff :: instant
  fe_test_start :: instant
  fe_test_end :: instant
  fe_metrics :: evaluation_metrics

record evaluation_report =
  er_model_version :: string
  er_quantile :: rat
  er_purge_gap :: timedelta
  er_folds :: "fold_evaluation list"
  er_aggregate :: evaluation_metrics

definition mk_evaluation_report :: "evaluation_report \<Rightarrow> evaluation_report result" where
  "mk_evaluation_report r =
     (if blank (er_model_version r) then Inl (ValueError ''model_version must not be blank'')
      else if \<not> (0 < er_quantile r \<and> er_quantile r < 1) then Inl (ValueError ''quantile must be within (0, 1)'')
      else if er_folds r = [] then Inl (ValueError ''an evaluation report needs at least one fold'')
      else Inr r)"

fun by_day :: "string \<Rightarrow> ('a \<Rightarrow> pydate) \<Rightarrow> (pydate, 'a) dict \<Rightarrow> 'a list \<Rightarrow> (pydate, 'a) dict result" where
  "by_day what day d [] = Inr d"
| "by_day what day d (x # xs) =
     (if map_of d (day x) \<noteq> None then Inl (ValueError (''duplicate '' @ what @ '' for day '' @ iso_date (day x)))
      else by_day what day (AList.update (day x) x d) xs)"

definition invalid_features :: "pydate \<Rightarrow> entry_features" where
  "invalid_features d = \<lparr>ef_day = d, atm_iv = None, atm_iv_valid = False\<rparr>"

definition feature_for :: "(pydate, entry_features) dict \<Rightarrow> pydate \<Rightarrow> entry_features" where
  "feature_for fs d = (case map_of fs d of None \<Rightarrow> invalid_features d | Some f \<Rightarrow> f)"

definition label_for :: "(pydate, tail_label) dict \<Rightarrow> pydate \<Rightarrow> tail_label result" where
  "label_for ls d = (case map_of ls d of None \<Rightarrow> Inl (KeyError (iso_date d)) | Some l \<Rightarrow> Inr l)"

definition noon :: "pydate \<Rightarrow> instant" where
  "noon d = (d - 1) * day_us + 43200000000"

definition day_sample :: "pydate \<Rightarrow> datetime validation_sample" where
  "day_sample d = \<lparr>vs_sample_id = iso_date d, vs_observed_at = Aware (noon d), group_id = iso_date d,
     vs_event_type = ''EXCURSION'', vs_regime = ''ALL''\<rparr>"

definition score_day :: "tail_label \<Rightarrow> tail_distances \<Rightarrow> tally" where
  "score_day l r =
     \<lparr>ty_abstain = 0,
      ty_covered = (if up_distance r \<ge> up_max l \<and> down_distance r \<ge> down_max l then 1 else 0),
      ty_up_breaches = (if up_distance r < up_max l then 1 else 0),
      ty_down_breaches = (if down_distance r < down_max l then 1 else 0),
      ty_ups = [up_distance r], ty_downs = [down_distance r]\<rparr>"

fun score_days ::
  "'m tail_ops \<Rightarrow> 'm \<Rightarrow> (pydate, tail_label) dict \<Rightarrow> (pydate, entry_features) dict \<Rightarrow> rat \<Rightarrow> pydate list \<Rightarrow> tally
     \<Rightarrow> tally result" where
  "score_days ops m ls fs q [] t = Inr t"
| "score_days ops m ls fs q (d # ds) t =
     res_bind (ops_recommend ops m (feature_for fs d) q) (\<lambda>r.
       case r of
         None \<Rightarrow> score_days ops m ls fs q ds (t\<lparr>ty_abstain := ty_abstain t + 1\<rparr>)
       | Some rec \<Rightarrow> res_bind (label_for ls d) (\<lambda>l. score_days ops m ls fs q ds (add_tally t (score_day l rec))))"

record evaluation_state =
  es_version :: string
  es_folds :: "fold_evaluation list"
  es_test_days :: nat
  es_tally :: tally

definition evaluate_fold ::
  "'m tail_ops \<Rightarrow> 'm \<Rightarrow> (pydate, tail_label) dict \<Rightarrow> (pydate, entry_features) dict \<Rightarrow> rat \<Rightarrow> walk_fold
     \<Rightarrow> evaluation_state \<Rightarrow> evaluation_state result" where
  "evaluate_fold ops factory ls fs q f s =
     res_bind (res_map date_fromisoformat (train_ids f)) (\<lambda>train.
     res_bind (res_map date_fromisoformat (test_ids f)) (\<lambda>test.
     res_bind (res_map (label_for ls) train) (\<lambda>train_labels.
     res_bind (ops_fit ops factory train_labels (map (feature_for fs) train)) (\<lambda>m.
     res_bind (score_days ops m ls fs q test empty_tally) (\<lambda>t.
     res_bind (build_metrics (length test) t) (\<lambda>metrics.
       Inr \<lparr>es_version = ops_version ops m,
         es_folds = es_folds s @ [\<lparr>fe_fold_index = fold_index f, fe_train_days = length train,
           fe_purge_cutoff = purge_cutoff f, fe_test_start = test_start f, fe_test_end = test_end f,
           fe_metrics = metrics\<rparr>],
         es_test_days = es_test_days s + length test, es_tally = add_tally (es_tally s) t\<rparr>))))))"

fun evaluate_folds ::
  "'m tail_ops \<Rightarrow> 'm \<Rightarrow> (pydate, tail_label) dict \<Rightarrow> (pydate, entry_features) dict \<Rightarrow> rat \<Rightarrow> walk_fold list
     \<Rightarrow> evaluation_state \<Rightarrow> evaluation_state result" where
  "evaluate_folds ops factory ls fs q [] s = Inr s"
| "evaluate_folds ops factory ls fs q (f # folds) s =
     res_bind (evaluate_fold ops factory ls fs q f s) (evaluate_folds ops factory ls fs q folds)"

definition evaluate_split ::
  "'m tail_ops \<Rightarrow> 'm \<Rightarrow> (pydate, tail_label) dict \<Rightarrow> (pydate, entry_features) dict \<Rightarrow> rat \<Rightarrow> timedelta
     \<Rightarrow> walk_fold list \<Rightarrow> evaluation_report result" where
  "evaluate_split ops factory ls fs q gap folds =
     (if folds = [] then Inl (ValueError ''no walk-forward folds; add days or reduce folds'')
      else res_bind (evaluate_folds ops factory ls fs q folds
             \<lparr>es_version = [], es_folds = [], es_test_days = 0, es_tally = empty_tally\<rparr>) (\<lambda>s.
           res_bind (build_metrics (es_test_days s) (es_tally s)) (\<lambda>aggregate.
             mk_evaluation_report \<lparr>er_model_version = es_version s, er_quantile = q, er_purge_gap = gap,
               er_folds = es_folds s, er_aggregate = aggregate\<rparr>)))"

definition test_window :: "nat \<Rightarrow> int \<Rightarrow> int \<Rightarrow> int" where
  "test_window total_days min_train folds = max 1 ((int total_days - min_train) div folds)"

definition walk_forward_evaluate ::
  "'m tail_ops \<Rightarrow> 'm \<Rightarrow> tail_label list \<Rightarrow> entry_features list \<Rightarrow> rat \<Rightarrow> int \<Rightarrow> int option \<Rightarrow> timedelta
     \<Rightarrow> evaluation_report result option" where
  "walk_forward_evaluate ops factory labels features q folds min_train_days gap =
     (if \<not> (0 < q \<and> q < 1) then Some (Inl (ValueError ''quantile must be within (0, 1)''))
      else if folds \<le> 0 then Some (Inl (ValueError ''folds must be positive''))
      else if gap < 0 then Some (Inl (ValueError ''purge_gap must not be negative''))
      else case by_day ''excursion label'' tl_day [] labels of
        Inl e \<Rightarrow> Some (Inl e)
      | Inr ls \<Rightarrow>
          (case by_day ''entry features'' ef_day [] features of
             Inl e \<Rightarrow> Some (Inl e)
           | Inr fs \<Rightarrow>
               if ls = [] then Some (Inl (ValueError ''labels must not be empty''))
               else
                 let days = sort (map fst ls); total_days = length days;
                     min_train = (case min_train_days of Some n \<Rightarrow> n | None \<Rightarrow> max 1 (int total_days div 2))
                 in if \<not> (0 < min_train \<and> min_train < int total_days)
                    then Some (Inl (ValueError ''min_train_days must leave room for a test window''))
                    else (case res_bind (res_map mk_validation_sample (map day_sample days)) (\<lambda>samples.
                             res_bind (mk_splitter min_train (test_window total_days min_train folds) gap None)
                               (\<lambda>sp. Inr (sp, samples))) of
                        Inl e \<Rightarrow> Some (Inl e)
                      | Inr (sp, samples) \<Rightarrow>
                          (case split_samples sp samples of
                             None \<Rightarrow> None
                           | Some (Inl e) \<Rightarrow> Some (Inl e)
                           | Some (Inr fds) \<Rightarrow> Some (evaluate_split ops factory ls fs q gap fds)))))"

record model_comparison =
  mc_conditional :: evaluation_report
  mc_baseline :: evaluation_report

definition evaluate_against_baseline ::
  "tail_config \<Rightarrow> tail_label list \<Rightarrow> entry_features list \<Rightarrow> rat \<Rightarrow> int \<Rightarrow> int option \<Rightarrow> timedelta
     \<Rightarrow> model_comparison result option" where
  "evaluate_against_baseline c labels features q folds min_train gap =
     (case walk_forward_evaluate iv_ops (new_iv c) labels features q folds min_train gap of
        None \<Rightarrow> None
      | Some (Inl e) \<Rightarrow> Some (Inl e)
      | Some (Inr conditional) \<Rightarrow>
          (case walk_forward_evaluate uncond_ops (new_uncond c) labels features q folds min_train gap of
             None \<Rightarrow> None
           | Some (Inl e) \<Rightarrow> Some (Inl e)
           | Some (Inr baseline) \<Rightarrow> Some (Inr \<lparr>mc_conditional = conditional, mc_baseline = baseline\<rparr>)))"

end
