(* ===== verification/TailEvaluation.thy ===== *)
theory TailEvaluation
  imports TailModel
begin

text \<open>
  What the walk-forward evaluation of the tail models (\<open>TailModel\<close>, \<open>validation/tail_model.py\<close>)
  guarantees: every fold is scored out of sample, the aggregate is the sum of the folds, the
  bookkeeping of the metrics never raises, and the baseline covers its training share.
\<close>

section \<open>Inputs by day\<close>

lemma by_day_lookup:
  assumes "by_day what day d xs = Inr d'"
  shows "map_of d' k = (case map_of d k of Some v \<Rightarrow> Some v | None \<Rightarrow> find (\<lambda>x. day x = k) xs)"
  using assms by (induction xs arbitrary: d) (auto split: if_splits option.splits)

lemma by_day_keys:
  assumes "by_day what day d xs = Inr d'"
  shows "fst ` set d' = fst ` set d \<union> day ` set xs"
  using assms by (induction xs arbitrary: d) (auto simp: update_fst split: if_splits)

lemma by_day_ok:
  assumes "by_day what day d xs = Inr d'" and "dict_ok d"
  shows "dict_ok d'"
  using assms by (induction xs arbitrary: d) (auto split: if_splits)

lemma by_day_find: "by_day what day [] xs = Inr d' \<Longrightarrow> map_of d' k = find (\<lambda>x. day x = k) xs"
  using by_day_lookup [of what day "[]" xs d'] by simp

text \<open>The features a day is presented with.\<close>

definition features_on :: "entry_features list \<Rightarrow> pydate \<Rightarrow> entry_features" where
  "features_on features d = (case find (\<lambda>f. ef_day f = d) features of None \<Rightarrow> invalid_features d | Some f \<Rightarrow> f)"

lemma feature_for_on: "by_day what ef_day [] features = Inr fs \<Longrightarrow> feature_for fs = features_on features"
  by (rule ext) (simp add: feature_for_def features_on_def by_day_find)

lemma label_for_in:
  assumes "by_day what tl_day [] labels = Inr ls" and "label_for ls d = Inr l"
  shows "l \<in> set labels" and "tl_day l = d" and "map_of ls (tl_day l) = Some l"
  using assms by_day_find [OF assms(1), of d]
  by (auto simp: label_for_def find_Some_iff split: option.splits)

section \<open>The days of a fold\<close>

definition on_day :: "pydate \<Rightarrow> sample" where
  "on_day d = \<lparr>vs_sample_id = iso_date d, vs_observed_at = noon d, group_id = iso_date d,
     vs_event_type = ''EXCURSION'', vs_regime = ''ALL''\<rparr>"

lemma on_day_simps [simp]:
  "vs_sample_id (on_day d) = iso_date d" "vs_observed_at (on_day d) = noon d" "group_id (on_day d) = iso_date d"
  by (simp_all add: on_day_def)

lemma day_samples:
  assumes "res_map mk_validation_sample (map day_sample days) = Inr samples"
  shows "samples = map on_day days"
proof -
  have "s = on_day d" if "mk_validation_sample (day_sample d) = Inr s" for d s
    using that by (auto simp: mk_validation_sample_def day_sample_def on_day_def split: if_splits)
  with res_map_all2 [OF assms] show ?thesis
    by (auto simp: list_all2_conv_all_nth intro!: nth_equalityI)
qed

lemma lift_list:
  assumes "set xs \<subseteq> f ` A"
  shows "\<exists>ys. xs = map f ys \<and> set ys \<subseteq> A"
  using assms
proof (induction xs)
  case (Cons x xs)
  then obtain y ys where "x = f y" "y \<in> A" "xs = map f ys" "set ys \<subseteq> A" by auto
  then show ?case by (intro exI [of _ "y # ys"]) simp
qed simp

lemma read_days:
  assumes "\<forall>d \<in> set days. date_valid d"
  shows "res_map date_fromisoformat (map iso_date days) = Inr days"
  using assms by (induction days) (auto simp: date_fromiso_roundtrip)

section \<open>Scoring\<close>

definition abstains :: "'m tail_ops \<Rightarrow> 'm \<Rightarrow> entry_features list \<Rightarrow> rat \<Rightarrow> tail_label \<Rightarrow> bool" where
  "abstains ops m features q l \<longleftrightarrow> ops_recommend ops m (features_on features (tl_day l)) q = Inr None"

text \<open>A test on the recommendation made for the day of a label; false where there is none.\<close>

definition scored :: "(tail_distances \<Rightarrow> tail_label \<Rightarrow> bool) \<Rightarrow> 'm tail_ops \<Rightarrow> 'm \<Rightarrow> entry_features list \<Rightarrow> rat \<Rightarrow> tail_label \<Rightarrow> bool" where
  "scored P ops m features q l =
     (case ops_recommend ops m (features_on features (tl_day l)) q of Inr (Some r) \<Rightarrow> P r l | _ \<Rightarrow> False)"

definition covers :: "tail_distances \<Rightarrow> tail_label \<Rightarrow> bool" where
  "covers r l \<longleftrightarrow> up_max l \<le> up_distance r \<and> down_max l \<le> down_distance r"

definition up_breached :: "tail_distances \<Rightarrow> tail_label \<Rightarrow> bool" where
  "up_breached r l \<longleftrightarrow> up_distance r < up_max l"

definition down_breached :: "tail_distances \<Rightarrow> tail_label \<Rightarrow> bool" where
  "down_breached r l \<longleftrightarrow> down_distance r < down_max l"

definition how_many :: "('a \<Rightarrow> bool) \<Rightarrow> 'a list \<Rightarrow> nat" where
  "how_many P xs = length (filter P xs)"

lemma how_many_simps [simp]:
  "how_many P [] = 0" "how_many P (x # xs) = (if P x then 1 else 0) + how_many P xs"
  by (simp_all add: how_many_def)

lemma score_days_counts:
  assumes "score_days ops m ls fs q (map tl_day test) t = Inr t'"
    and "feature_for fs = features_on features" and "\<forall>l \<in> set test. map_of ls (tl_day l) = Some l"
  shows "ty_abstain t' = ty_abstain t + how_many (abstains ops m features q) test"
    and "ty_covered t' = ty_covered t + how_many (scored covers ops m features q) test"
    and "ty_up_breaches t' = ty_up_breaches t + how_many (scored up_breached ops m features q) test"
    and "ty_down_breaches t' = ty_down_breaches t + how_many (scored down_breached ops m features q) test"
  using assms
  by (induction test arbitrary: t)
     (auto simp: abstains_def scored_def covers_def up_breached_def down_breached_def label_for_def
        add_tally_def score_day_def split: option.splits)

text \<open>A fold is scored out of sample: its model is fitted on labels whose days lie more than the gap before
  every test day, with the features of those days, and the counts are those of the test days.\<close>

definition out_of_sample ::
  "'m tail_ops \<Rightarrow> 'm \<Rightarrow> tail_label list \<Rightarrow> entry_features list \<Rightarrow> rat \<Rightarrow> timedelta \<Rightarrow> fold_evaluation \<Rightarrow> bool" where
  "out_of_sample ops factory labels features q gap fe \<longleftrightarrow>
     (\<exists>training test m. training \<noteq> [] \<and> set training \<subseteq> set labels \<and> set test \<subseteq> set labels
      \<and> (\<forall>a \<in> set training. \<forall>b \<in> set test. noon (tl_day a) + gap < noon (tl_day b))
      \<and> ops_fit ops factory training (map (features_on features \<circ> tl_day) training) = Inr m
      \<and> fe_train_days fe = length training
      \<and> em_test_days (fe_metrics fe) = int (length test)
      \<and> em_abstain_days (fe_metrics fe) = int (how_many (abstains ops m features q) test)
      \<and> em_covered_days (fe_metrics fe) = int (how_many (scored covers ops m features q) test)
      \<and> em_up_breach_count (fe_metrics fe) = int (how_many (scored up_breached ops m features q) test)
      \<and> em_down_breach_count (fe_metrics fe) = int (how_many (scored down_breached ops m features q) test))"

lemma mk_metrics_id: "mk_metrics m = Inr m' \<Longrightarrow> m' = m"
  by (auto simp: mk_metrics_def split: if_splits)

lemma build_metrics_counts:
  assumes "build_metrics n t = Inr e"
  shows "em_test_days e = int n" "em_abstain_days e = int (ty_abstain t)" "em_covered_days e = int (ty_covered t)"
    "em_up_breach_count e = int (ty_up_breaches t)" "em_down_breach_count e = int (ty_down_breaches t)"
    "em_evaluated_days e = int n - int (ty_abstain t)"
  using assms by (auto simp: build_metrics_def Let_def dest!: mk_metrics_id split: if_splits)

lemma label_list:
  assumes "by_day what tl_day [] labels = Inr ls" and "res_map (label_for ls) days = Inr test"
  shows "map tl_day test = days" and "set test \<subseteq> set labels"
    and "\<forall>l \<in> set test. map_of ls (tl_day l) = Some l"
proof -
  have "list_all2 (\<lambda>d l. l \<in> set labels \<and> tl_day l = d \<and> map_of ls (tl_day l) = Some l) days test"
    by (rule list_all2_mono [OF res_map_all2 [OF assms(2)]]) (use label_for_in [OF assms(1)] in auto)
  then show "map tl_day test = days" "set test \<subseteq> set labels" "\<forall>l \<in> set test. map_of ls (tl_day l) = Some l"
    by (induction rule: list_all2_induct) auto
qed

lemma labels_of_days:
  assumes "by_day what tl_day [] labels = Inr ls" and "set days \<subseteq> fst ` set ls"
  shows "\<exists>test. res_map (label_for ls) days = Inr test"
  using assms(2)
proof (induction days)
  case (Cons d ds)
  then obtain l where "map_of ls d = Some l" by (auto simp: map_of_eq_None_iff [symmetric] simp del: map_of_eq_None_iff) (metis map_of_eq_None_iff not_None_eq image_eqI fst_conv)
  with Cons show ?case by (auto simp: label_for_def)
qed simp

lemma fold_days:
  assumes "fold_sound sp (map on_day days) f" and "distinct (map vs_sample_id (map on_day days))"
  shows "\<exists>train test. train_ids f = map iso_date train \<and> test_ids f = map iso_date test \<and> train \<noteq> []
     \<and> set train \<subseteq> set days \<and> set test \<subseteq> set days
     \<and> (\<forall>a \<in> set train. \<forall>b \<in> set test. noon a + purge_gap sp < noon b)"
proof -
  let ?s = "map on_day days" and ?g = "ordered_groups (grouped (map on_day days))"
  obtain n where n: "test_ids f = map vs_sample_id (test_samples sp (grouped ?s) ?g n)"
      "train_ids f = map vs_sample_id (train_samples (grouped ?s) ?g n (purge_cutoff f))" "train_ids f \<noteq> []"
    using assms(1) by (auto simp: fold_sound_def Let_def)
  obtain train where train: "train_samples (grouped ?s) ?g n (purge_cutoff f) = map on_day train" "set train \<subseteq> set days"
    using lift_list [of "train_samples (grouped ?s) ?g n (purge_cutoff f)" on_day "set days"]
    by (auto simp: train_samples_set)
  obtain test where test: "test_samples sp (grouped ?s) ?g n = map on_day test" "set test \<subseteq> set days"
    using lift_list [of "test_samples sp (grouped ?s) ?g n" on_day "set days"]
    by (auto simp: test_samples_set)
  have ids: "train_ids f = map iso_date train" "test_ids f = map iso_date test"
    using n(1,2) train(1) test(1) by (simp_all add: o_def)
  have "noon a + purge_gap sp < noon b" if "a \<in> set train" "b \<in> set test" for a b
    using fold_sound_no_leakage(1) [OF assms, of "on_day a" "on_day b"] that train(2) test(2)
    by (auto simp: ids)
  with n(3) ids train(2) test(2) show ?thesis by (intro exI [of _ train] exI [of _ test]) auto
qed

lemma evaluate_fold_sound:
  assumes eval: "evaluate_fold ops factory ls fs q f s = Inr s'"
    and inputs: "by_day what tl_day [] labels = Inr ls" "by_day what' ef_day [] features = Inr fs"
    and fold: "fold_sound sp (map on_day days) f" "distinct (map vs_sample_id (map on_day days))"
    and days: "\<forall>d \<in> set days. date_valid d" "set days = fst ` set ls"
  shows "\<exists>fe t. es_folds s' = es_folds s @ [fe] \<and> out_of_sample ops factory labels features q (purge_gap sp) fe
    \<and> es_test_days s' = es_test_days s + nat (em_test_days (fe_metrics fe)) \<and> es_tally s' = add_tally (es_tally s) t
    \<and> build_metrics (nat (em_test_days (fe_metrics fe))) t = Inr (fe_metrics fe)"
proof -
  obtain train test where d: "train_ids f = map iso_date train" "test_ids f = map iso_date test" "train \<noteq> []"
      "set train \<subseteq> set days" "set test \<subseteq> set days" "\<forall>a \<in> set train. \<forall>b \<in> set test. noon a + purge_gap sp < noon b"
    using fold_days [OF fold] by blast
  have reads: "res_map date_fromisoformat (train_ids f) = Inr train" "res_map date_fromisoformat (test_ids f) = Inr test"
    using read_days days(1) d(4,5) by (simp_all add: d(1,2) subset_iff)
  obtain training m t metrics where
      training: "res_map (label_for ls) train = Inr training" and
      fit: "ops_fit ops factory training (map (feature_for fs) train) = Inr m" and
      score: "score_days ops m ls fs q test empty_tally = Inr t" and
      metrics: "build_metrics (length test) t = Inr metrics" and
      s': "s' = \<lparr>es_version = ops_version ops m,
         es_folds = es_folds s @ [\<lparr>fe_fold_index = fold_index f, fe_train_days = length train,
           fe_purge_cutoff = purge_cutoff f, fe_test_start = test_start f, fe_test_end = test_end f, fe_metrics = metrics\<rparr>],
         es_test_days = es_test_days s + length test, es_tally = add_tally (es_tally s) t\<rparr>"
    using eval by (auto simp: evaluate_fold_def reads)
  note labs = label_list [OF inputs(1) training]
  obtain tests where tests: "map tl_day tests = test" "set tests \<subseteq> set labels" "\<forall>l \<in> set tests. map_of ls (tl_day l) = Some l"
    using labels_of_days [OF inputs(1), of test] d(5) days(2) label_list [OF inputs(1), of test] by blast
  let ?fe = "\<lparr>fe_fold_index = fold_index f, fe_train_days = length train, fe_purge_cutoff = purge_cutoff f,
     fe_test_start = test_start f, fe_test_end = test_end f, fe_metrics = metrics\<rparr>"
  note counts = score_days_counts [OF score [folded tests(1)] feature_for_on [OF inputs(2)] tests(3)]
  note bm = build_metrics_counts [OF metrics]
  have "out_of_sample ops factory labels features q (purge_gap sp) ?fe"
    unfolding out_of_sample_def
  proof (intro exI conjI)
    show "ops_fit ops factory training (map (features_on features \<circ> tl_day) training) = Inr m"
      using fit labs(1) feature_for_on [OF inputs(2)] by (metis map_map)
    show "\<forall>a \<in> set training. \<forall>b \<in> set tests. noon (tl_day a) + purge_gap sp < noon (tl_day b)"
      using d(6) labs(1) tests(1) by auto
  qed (use d(3) labs(1,2) tests(1,2) bm counts in \<open>auto simp: empty_tally_def\<close>)
  with s' metrics bm(1) show ?thesis by (intro exI [of _ ?fe] exI [of _ t]) simp
qed

text \<open>The state of the loop over the folds: each fold scored out of sample, the totals the sums of the folds.\<close>

definition folds_sum :: "(evaluation_metrics \<Rightarrow> int) \<Rightarrow> fold_evaluation list \<Rightarrow> int" where
  "folds_sum field fes = sum_list (map (field \<circ> fe_metrics) fes)"

definition tallies_folds :: "evaluation_state \<Rightarrow> bool" where
  "tallies_folds s \<longleftrightarrow> int (es_test_days s) = folds_sum em_test_days (es_folds s)
     \<and> int (ty_abstain (es_tally s)) = folds_sum em_abstain_days (es_folds s)
     \<and> int (ty_covered (es_tally s)) = folds_sum em_covered_days (es_folds s)
     \<and> int (ty_up_breaches (es_tally s)) = folds_sum em_up_breach_count (es_folds s)
     \<and> int (ty_down_breaches (es_tally s)) = folds_sum em_down_breach_count (es_folds s)"

lemma evaluate_folds_sound:
  assumes "evaluate_folds ops factory ls fs q folds s = Inr s'"
    and inputs: "by_day what tl_day [] labels = Inr ls" "by_day what' ef_day [] features = Inr fs"
    and "\<forall>f \<in> set folds. fold_sound sp (map on_day days) f" and distinct: "distinct (map vs_sample_id (map on_day days))"
    and days: "\<forall>d \<in> set days. date_valid d" "set days = fst ` set ls"
    and "\<forall>fe \<in> set (es_folds s). out_of_sample ops factory labels features q (purge_gap sp) fe" and "tallies_folds s"
  shows "(\<forall>fe \<in> set (es_folds s'). out_of_sample ops factory labels features q (purge_gap sp) fe) \<and> tallies_folds s'
    \<and> length (es_folds s') = length (es_folds s) + length folds"
  using assms(1,4,8,9)
proof (induction folds arbitrary: s)
  case (Cons f folds)
  then obtain s1 where s1: "evaluate_fold ops factory ls fs q f s = Inr s1" "evaluate_folds ops factory ls fs q folds s1 = Inr s'"
    by auto
  have sound: "fold_sound sp (map on_day days) f" using Cons.prems(2) by simp
  obtain fe t where fe: "es_folds s1 = es_folds s @ [fe]" "out_of_sample ops factory labels features q (purge_gap sp) fe"
      "es_test_days s1 = es_test_days s + nat (em_test_days (fe_metrics fe))" "es_tally s1 = add_tally (es_tally s) t"
      "build_metrics (nat (em_test_days (fe_metrics fe))) t = Inr (fe_metrics fe)"
    using evaluate_fold_sound [OF s1(1) inputs sound distinct days] by blast
  have "tallies_folds s1"
    using Cons.prems(4) fe(1,3,4) build_metrics_counts [OF fe(5)]
    by (simp add: tallies_folds_def folds_sum_def add_tally_def)
  with Cons.IH [OF s1(2)] Cons.prems(2,3) fe(1,2) show ?case by auto
qed simp

lemma walk_forward_evaluate_cases:
  assumes "walk_forward_evaluate ops factory labels features q folds min_train gap = Some (Inr r)"
  obtains ls fs sp fds s aggregate where
    "by_day ''excursion label'' tl_day [] labels = Inr ls" "by_day ''entry features'' ef_day [] features = Inr fs"
    "purge_gap sp = gap" "0 < nat (step_groups sp)"
    "split_samples sp (map on_day (sort (map fst ls))) = Some (Inr fds)" "fds \<noteq> []"
    "evaluate_folds ops factory ls fs q fds \<lparr>es_version = [], es_folds = [], es_test_days = 0, es_tally = empty_tally\<rparr> = Inr s"
    "build_metrics (es_test_days s) (es_tally s) = Inr aggregate"
    "er_folds r = es_folds s" "er_aggregate r = aggregate" "er_quantile r = q" "er_purge_gap r = gap" "0 < q" "q < 1"
proof -
  obtain ls fs where d: "by_day ''excursion label'' tl_day [] labels = Inr ls"
      "by_day ''entry features'' ef_day [] features = Inr fs"
    using assms by (auto simp: walk_forward_evaluate_def split: if_splits sum.splits)
  define days where "days = sort (map fst ls)"
  define mt where "mt = (case min_train of Some n \<Rightarrow> n | None \<Rightarrow> max 1 (int (length days) div 2))"
  have q: "0 < q" "q < 1" using assms by (auto simp: walk_forward_evaluate_def split: if_splits)
  obtain sp samples where sp: "res_map mk_validation_sample (map day_sample days) = Inr samples"
      "mk_splitter mt (test_window (length days) mt folds) gap None = Inr sp"
    using assms by (auto simp: walk_forward_evaluate_def Let_def d days_def [symmetric] mt_def [symmetric] split: if_splits sum.splits)
  obtain fds where fds: "split_samples sp samples = Some (Inr fds)" and split: "evaluate_split ops factory ls fs q gap fds = Inr r"
    using assms sp by (auto simp: walk_forward_evaluate_def Let_def d days_def [symmetric] mt_def [symmetric] split: if_splits sum.splits option.splits)
  obtain s aggregate where s: "fds \<noteq> []"
      "evaluate_folds ops factory ls fs q fds \<lparr>es_version = [], es_folds = [], es_test_days = 0, es_tally = empty_tally\<rparr> = Inr s"
      "build_metrics (es_test_days s) (es_tally s) = Inr aggregate"
      "mk_evaluation_report \<lparr>er_model_version = es_version s, er_quantile = q, er_purge_gap = gap,
         er_folds = es_folds s, er_aggregate = aggregate\<rparr> = Inr r"
    using split by (auto simp: evaluate_split_def split: if_splits)
  have r: "r = \<lparr>er_model_version = es_version s, er_quantile = q, er_purge_gap = gap, er_folds = es_folds s, er_aggregate = aggregate\<rparr>"
    using s(4) by (auto simp: mk_evaluation_report_def split: if_splits)
  show thesis
    by (rule that [OF d _ _ _ s(1,2,3)])
       (use mk_splitter_fields [OF sp(2)] fds day_samples [OF sp(1)] q in \<open>simp_all add: r days_def\<close>)
qed

lemma evaluation_folds:
  assumes "walk_forward_evaluate ops factory labels features q folds min_train gap = Some (Inr r)"
    and "\<forall>l \<in> set labels. date_valid (tl_day l)"
  shows "er_folds r \<noteq> [] \<and> (\<forall>fe \<in> set (er_folds r). out_of_sample ops factory labels features q gap fe)
    \<and> (\<exists>s. es_folds s = er_folds r \<and> tallies_folds s \<and> build_metrics (es_test_days s) (es_tally s) = Inr (er_aggregate r))"
proof -
  from assms(1) obtain ls fs sp fds s aggregate where
    e: "by_day ''excursion label'' tl_day [] labels = Inr ls" "by_day ''entry features'' ef_day [] features = Inr fs"
    "purge_gap sp = gap" "0 < nat (step_groups sp)" "split_samples sp (map on_day (sort (map fst ls))) = Some (Inr fds)" "fds \<noteq> []"
    "evaluate_folds ops factory ls fs q fds \<lparr>es_version = [], es_folds = [], es_test_days = 0, es_tally = empty_tally\<rparr> = Inr s"
    "build_metrics (es_test_days s) (es_tally s) = Inr aggregate" "er_folds r = es_folds s" "er_aggregate r = aggregate"
    by (rule walk_forward_evaluate_cases)
  show ?thesis
    using evaluate_folds_sound [OF e(7,1,2) split_samples_sound(2,1) [OF e(5,4)], folded e(3)] assms(2) by_day_keys [OF e(1)] e(3,6,8,9,10)
    by (auto simp: tallies_folds_def folds_sum_def empty_tally_def intro!: exI [of _ s])
qed

section \<open>The bookkeeping never raises\<close>

definition tally_ok :: "nat \<Rightarrow> tally \<Rightarrow> bool" where
  "tally_ok n t \<longleftrightarrow> ty_abstain t + length (ty_ups t) = n \<and> length (ty_downs t) = length (ty_ups t)
     \<and> ty_covered t \<le> length (ty_ups t) \<and> ty_up_breaches t \<le> length (ty_ups t) \<and> ty_down_breaches t \<le> length (ty_ups t)
     \<and> (\<forall>x \<in> set (ty_ups t) \<union> set (ty_downs t). 0 < x)"

lemma tally_ok_empty [inv_intros]: "tally_ok 0 empty_tally"
  by (simp add: tally_ok_def empty_tally_def)

lemma tally_ok_add [inv_intros]: "tally_ok n s \<Longrightarrow> tally_ok k t \<Longrightarrow> tally_ok (n + k) (add_tally s t)"
  by (auto simp: tally_ok_def add_tally_def)

lemma tally_ok_abstain [inv_intros]: "tally_ok n t \<Longrightarrow> tally_ok (n + 1) (t\<lparr>ty_abstain := ty_abstain t + 1\<rparr>)"
  by (auto simp: tally_ok_def)

lemma tally_ok_score [inv_intros]: "0 < up_distance r \<Longrightarrow> 0 < down_distance r \<Longrightarrow> tally_ok 1 (score_day l r)"
  by (auto simp: tally_ok_def score_day_def)

lemma mean_positive: "\<forall>x \<in> set xs. 0 < x \<Longrightarrow> \<not> not_positive (mean_of xs)"
proof -
  assume pos: "\<forall>x \<in> set xs. 0 < x"
  have "xs \<noteq> [] \<Longrightarrow> 0 < sum_list xs"
    using pos by (induction xs) (auto intro!: add_pos_nonneg sum_list_nonneg simp: less_imp_le)
  then show ?thesis by (auto simp: mean_of_def not_positive_def not_le)
qed

lemma median_positive:
  assumes "\<forall>x \<in> set xs. 0 < x"
  shows "\<not> not_positive (median_of xs)"
proof -
  have in_range: "0 < sort xs ! i" if "i < length xs" for i
    using assms nth_mem [of i "sort xs"] that by simp
  have "0 < sort xs ! (length xs div 2)" "0 < sort xs ! (length xs div 2 - 1)" if "xs \<noteq> []"
    by (intro in_range; use that in \<open>cases xs; simp\<close>)+
  then show ?thesis by (auto simp: median_of_def not_positive_def Let_def not_le add_pos_pos)
qed

lemma build_metrics_total:
  assumes "tally_ok n t"
  shows "\<exists>m. build_metrics n t = Inr m"
proof -
  have t: "int n - int (ty_abstain t) = int (length (ty_ups t))" "length (ty_downs t) = length (ty_ups t)"
    "ty_covered t \<le> length (ty_ups t)" "ty_up_breaches t \<le> length (ty_ups t)" "ty_down_breaches t \<le> length (ty_ups t)"
    "ty_abstain t \<le> n" "\<forall>x \<in> set (ty_ups t). 0 < x" "\<forall>x \<in> set (ty_downs t). 0 < x"
    using assms by (auto simp: tally_ok_def)
  then have share: "(0 :: rat) \<le> of_nat (ty_abstain t) / of_nat n" "(of_nat (ty_abstain t) :: rat) / of_nat n \<le> 1"
    by (auto simp: divide_le_eq_1)
  have cover: "(0 :: rat) \<le> of_nat (ty_covered t) / of_nat (length (ty_ups t))"
    "(of_nat (ty_covered t) :: rat) / of_nat (length (ty_ups t)) \<le> 1"
    using t(3) by (auto simp: divide_le_eq_1)
  show ?thesis
    using t share cover mean_positive [OF t(7)] mean_positive [OF t(8)] median_positive [OF t(7)] median_positive [OF t(8)]
    by (auto simp: build_metrics_def mk_metrics_def Let_def)
qed

lemma fold_loop_raises:
  assumes "fold_loop sp d groups offset folds = Some (Inl e)"
  shows "e = ValueError ''purge gap leaves a fold without training samples''"
proof -
  have "r = Inl e \<longrightarrow> e = ValueError ''purge gap leaves a fold without training samples''"
    if "fold_loop sp d groups offset folds = Some r" for r
    by (rule fold_loop.raw_induct [where P = "\<lambda>sp d groups offset folds r. r = Inl e \<longrightarrow>
          e = ValueError ''purge gap leaves a fold without training samples''", OF _ that])
       (auto simp: Let_def split: if_splits)
  with assms show ?thesis by blast
qed

lemma iso_date_inj: "inj_on iso_date {d. date_valid d}"
  by (rule inj_onI) (metis date_fromiso_roundtrip mem_Collect_eq sum.inject(2))

lemma iso_date_not_blank: "\<not> blank (iso_date d)"
  by (auto simp: blank_iff iso_date_def is_space_def split: prod.splits)

lemma day_samples_total: "res_map mk_validation_sample (map day_sample days) = Inr (map on_day days)"
  by (induction days) (auto simp: mk_validation_sample_def day_sample_def on_day_def iso_date_not_blank)

lemma days_distinct:
  assumes "dict_ok ls" and "\<forall>d \<in> fst ` set ls. date_valid d"
  shows "distinct (map vs_sample_id (map on_day (sort (map fst ls))))"
proof -
  have "inj_on iso_date (set (map fst ls))" using assms(2) by (auto intro: inj_on_subset [OF iso_date_inj])
  then show ?thesis using assms(1) by (simp add: dict_ok_def distinct_map o_def)
qed

lemma by_day_raises:
  "by_day what day d xs = Inl e \<Longrightarrow> \<exists>x \<in> set xs. e = ValueError (''duplicate '' @ what @ '' for day '' @ iso_date (day x))"
  by (induction xs arbitrary: d) (auto split: if_splits)

text \<open>What an evaluation may raise because of its arguments.\<close>

definition argument_errors :: "tail_label list \<Rightarrow> entry_features list \<Rightarrow> py_error set" where
  "argument_errors labels features =
     {ValueError ''folds must be positive'', ValueError ''purge_gap must not be negative'',
      ValueError ''labels must not be empty'', ValueError ''min_train_days must leave room for a test window'',
      ValueError ''purge gap leaves a fold without training samples'',
      ValueError ''no walk-forward folds; add days or reduce folds''}
     \<union> (\<lambda>l. ValueError (''duplicate '' @ ''excursion label'' @ '' for day '' @ iso_date (tl_day l))) ` set labels
     \<union> (\<lambda>f. ValueError (''duplicate '' @ ''entry features'' @ '' for day '' @ iso_date (ef_day f))) ` set features"

lemma split_samples_total: "0 < nat (step_groups sp) \<Longrightarrow> \<exists>x. split_samples sp samples = Some x"
  using fold_loop_returns by (cases "distinct (map vs_sample_id samples)") (simp_all add: split_samples_def Let_def)

lemma by_day_label_raises:
  "by_day ''excursion label'' tl_day [] labels = Inl e \<Longrightarrow> e \<in> argument_errors labels features"
  using by_day_raises [of "''excursion label''" tl_day "[]" labels e]
  unfolding argument_errors_def by blast

lemma by_day_features_raises:
  "by_day ''entry features'' ef_day [] features = Inl e \<Longrightarrow> e \<in> argument_errors labels features"
  using by_day_raises [of "''entry features''" ef_day "[]" features e]
  unfolding argument_errors_def by blast

lemma split_samples_raises:
  assumes "split_samples sp samples = Some (Inl e)" and "distinct (map vs_sample_id samples)"
  shows "e \<in> argument_errors labels features"
  using assms fold_loop_raises by (auto simp: split_samples_def Let_def argument_errors_def)

lemma mk_splitter_total:
  assumes "0 < mt" and "0 \<le> gap"
  shows "\<exists>sp. mk_splitter mt (test_window n mt folds) gap None = Inr sp"
  using assms by (auto simp: mk_splitter_def test_window_def)

text \<open>What the harness relies on in a model: a fit may only raise what it documents on the labels and features
  it is called with, and a fitted model answers every fitted quantile, with positive distances.\<close>

locale tail_predictor =
  fixes ops :: "'m tail_ops" and factory :: 'm and fitted :: "'m \<Rightarrow> bool"
    and fitted_quantiles :: "rat set" and fit_errors :: "py_error set"
  assumes fit_fitted: "ops_fit ops factory labels features = Inr m \<Longrightarrow> fitted m"
    and fit_raises: "ops_fit ops factory labels features = Inl e \<Longrightarrow> labels \<noteq> []
      \<Longrightarrow> \<forall>l \<in> set labels. mk_tail_label l = Inr l \<Longrightarrow> \<forall>f \<in> set features. mk_entry_features f = Inr f
      \<Longrightarrow> e \<in> fit_errors"
    and recommend_answers: "fitted m \<Longrightarrow> q \<in> fitted_quantiles \<Longrightarrow> 0 < q \<Longrightarrow> q < 1
      \<Longrightarrow> \<exists>r. ops_recommend ops m f q = Inr r \<and> (\<forall>t. r = Some t \<longrightarrow> 0 < up_distance t \<and> 0 < down_distance t)"
    and version_named: "\<not> blank (ops_version ops m)"
begin

lemma score_days_total:
  assumes "fitted m" and "q \<in> fitted_quantiles" "0 < q" "q < 1"
    and "\<forall>d \<in> set days. map_of ls d \<noteq> None" and "tally_ok n t"
  shows "\<exists>t'. score_days ops m ls fs q days t = Inr t' \<and> tally_ok (n + length days) t'"
  using assms(5,6)
proof (induction days arbitrary: n t)
  case (Cons d days)
  obtain r where r: "ops_recommend ops m (feature_for fs d) q = Inr r"
      "\<And>x. r = Some x \<Longrightarrow> 0 < up_distance x \<and> 0 < down_distance x"
    using recommend_answers [OF assms(1-4)] by blast
  show ?case
  proof (cases r)
    case None
    with Cons.IH [OF _ tally_ok_abstain [OF Cons.prems(2)]] Cons.prems(1) r(1) show ?thesis by simp
  next
    case (Some x)
    obtain l where l: "label_for ls d = Inr l" using Cons.prems(1) by (auto simp: label_for_def)
    have "tally_ok (n + 1) (add_tally t (score_day l x))"
      using r(2) [OF Some] Cons.prems(2) by (intro inv_intros) auto
    with Cons.IH [OF _ this] Cons.prems(1) r(1) Some l show ?thesis by simp
  qed
qed simp

lemma evaluate_fold_raises:
  assumes q: "q \<in> fitted_quantiles" "0 < q" "q < 1"
    and inputs: "by_day what tl_day [] labels = Inr ls" "by_day what' ef_day [] features = Inr fs"
    and valid: "\<forall>l \<in> set labels. mk_tail_label l = Inr l" "\<forall>f \<in> set features. mk_entry_features f = Inr f"
    and fold: "fold_sound sp (map on_day days) f" "distinct (map vs_sample_id (map on_day days))"
    and days: "\<forall>d \<in> set days. date_valid d" "set days = fst ` set ls"
    and tally: "tally_ok (es_test_days s) (es_tally s)"
  shows "case evaluate_fold ops factory ls fs q f s of Inl e \<Rightarrow> e \<in> fit_errors
     | Inr s' \<Rightarrow> tally_ok (es_test_days s') (es_tally s') \<and> length (es_folds s') = Suc (length (es_folds s)) \<and> \<not> blank (es_version s')"
proof -
  obtain train test where d: "train_ids f = map iso_date train" "test_ids f = map iso_date test" "train \<noteq> []"
      "set train \<subseteq> set days" "set test \<subseteq> set days"
    using fold_days [OF fold] by blast
  have reads: "res_map date_fromisoformat (train_ids f) = Inr train" "res_map date_fromisoformat (test_ids f) = Inr test"
    using read_days days(1) d(4,5) by (simp_all add: d(1,2) subset_iff)
  obtain training where training: "res_map (label_for ls) train = Inr training"
    using labels_of_days [OF inputs(1), of train] d(4) days(2) by blast
  show ?thesis
  proof (cases "ops_fit ops factory training (map (feature_for fs) train)")
    case (Inl e)
    have "mk_entry_features (features_on features x) = Inr (features_on features x)" for x
    proof (cases "find (\<lambda>f. ef_day f = x) features")
      case None
      then show ?thesis by (simp add: features_on_def invalid_features_def mk_entry_features_def)
    next
      case (Some f)
      then have "f \<in> set features" by (auto simp: find_Some_iff)
      with valid(2) Some show ?thesis by (simp add: features_on_def)
    qed
    then have "\<forall>f \<in> set (map (feature_for fs) train). mk_entry_features f = Inr f"
      by (simp add: feature_for_on [OF inputs(2)])
    moreover have "training \<noteq> []" "\<forall>l \<in> set training. mk_tail_label l = Inr l"
      using label_list [OF inputs(1) training] d(3) valid(1) by auto
    ultimately have "e \<in> fit_errors" using fit_raises [OF Inl] by blast
    with Inl show ?thesis by (simp add: evaluate_fold_def reads training)
  next
    case (Inr m)
    have "map_of ls x \<noteq> None" if "x \<in> set test" for x
      using that d(5) days(2) by (simp add: map_of_eq_None_iff subset_iff)
    then obtain t where t: "score_days ops m ls fs q test empty_tally = Inr t" "tally_ok (length test) t"
      using score_days_total [OF fit_fitted [OF Inr] q _ tally_ok_empty, of test ls fs] by auto
    with build_metrics_total obtain metrics where "build_metrics (length test) t = Inr metrics" by blast
    with Inr t tally version_named show ?thesis
      by (simp add: evaluate_fold_def reads training tally_ok_add)
  qed
qed

lemma evaluate_folds_raises:
  assumes q: "q \<in> fitted_quantiles" "0 < q" "q < 1"
    and inputs: "by_day what tl_day [] labels = Inr ls" "by_day what' ef_day [] features = Inr fs"
    and valid: "\<forall>l \<in> set labels. mk_tail_label l = Inr l" "\<forall>f \<in> set features. mk_entry_features f = Inr f"
    and "\<forall>f \<in> set folds. fold_sound sp (map on_day days) f" and distinct: "distinct (map vs_sample_id (map on_day days))"
    and days: "\<forall>d \<in> set days. date_valid d" "set days = fst ` set ls"
    and "tally_ok (es_test_days s) (es_tally s)"
  shows "case evaluate_folds ops factory ls fs q folds s of Inl e \<Rightarrow> e \<in> fit_errors
     | Inr s' \<Rightarrow> tally_ok (es_test_days s') (es_tally s') \<and> length (es_folds s') = length folds + length (es_folds s)
         \<and> (folds \<noteq> [] \<longrightarrow> \<not> blank (es_version s'))"
  using assms(8,12)
proof (induction folds arbitrary: s)
  case (Cons f folds)
  have "fold_sound sp (map on_day days) f" using Cons.prems(1) by simp
  note step = evaluate_fold_raises [OF q inputs valid this distinct days Cons.prems(2)]
  show ?case
  proof (cases "evaluate_fold ops factory ls fs q f s")
    case (Inl e)
    with step show ?thesis by simp
  next
    case (Inr s1)
    with step have s1: "tally_ok (es_test_days s1) (es_tally s1)" "length (es_folds s1) = Suc (length (es_folds s))"
      "\<not> blank (es_version s1)" by simp_all
    show ?thesis using Cons.IH [OF _ s1(1)] Cons.prems(1) s1(2,3) Inr
      by (cases folds) (auto split: sum.splits)
  qed
qed simp

lemma evaluate_split_raises:
  assumes q: "q \<in> fitted_quantiles" "0 < q" "q < 1"
    and inputs: "by_day what tl_day [] labels = Inr ls" "by_day what' ef_day [] features = Inr fs"
    and valid: "\<forall>l \<in> set labels. mk_tail_label l = Inr l" "\<forall>f \<in> set features. mk_entry_features f = Inr f"
    and sound: "\<forall>f \<in> set folds. fold_sound sp (map on_day days) f" "distinct (map vs_sample_id (map on_day days))"
    and days: "\<forall>d \<in> set days. date_valid d" "set days = fst ` set ls"
    and e: "evaluate_split ops factory ls fs q gap folds = Inl e"
  shows "e \<in> fit_errors \<union> argument_errors labels features"
proof (cases "folds = []")
  case True
  with e show ?thesis by (auto simp: evaluate_split_def argument_errors_def)
next
  case False
  let ?s = "\<lparr>es_version = [], es_folds = [], es_test_days = 0, es_tally = empty_tally\<rparr>"
  note folds = evaluate_folds_raises [OF q inputs valid sound days, of ?s, simplified, OF tally_ok_empty]
  show ?thesis
  proof (cases "evaluate_folds ops factory ls fs q folds ?s")
    case (Inl e')
    with folds e False show ?thesis by (auto simp: evaluate_split_def)
  next
    case (Inr s)
    with folds False have s: "tally_ok (es_test_days s) (es_tally s)" "es_folds s \<noteq> []" "\<not> blank (es_version s)" by auto
    from build_metrics_total [OF s(1)] Inr False s(2,3) q(2,3) e show ?thesis
      by (auto simp: evaluate_split_def mk_evaluation_report_def)
  qed
qed

lemma evaluation_raises_by_day:
  assumes q: "q \<in> fitted_quantiles" "0 < q" "q < 1" and args: "0 < folds" "0 \<le> gap"
    and inputs: "by_day ''excursion label'' tl_day [] labels = Inr ls" "by_day ''entry features'' ef_day [] features = Inr fs"
    and valid: "\<forall>l \<in> set labels. mk_tail_label l = Inr l" "\<forall>f \<in> set features. mk_entry_features f = Inr f"
    and dates: "\<forall>l \<in> set labels. date_valid (tl_day l)"
  shows "case walk_forward_evaluate ops factory labels features q folds min_train gap of
     None \<Rightarrow> False | Some (Inl e) \<Rightarrow> e \<in> fit_errors \<union> argument_errors labels features | Some (Inr r) \<Rightarrow> True"
proof -
  define days where "days = sort (map fst ls)"
  define mt where "mt = (case min_train of Some n \<Rightarrow> n | None \<Rightarrow> max 1 (int (length days) div 2))"
  have keys: "fst ` set ls = tl_day ` set labels" using by_day_keys [OF inputs(1)] by simp
  then have days: "\<forall>d \<in> set days. date_valid d" "set days = fst ` set ls" using dates by (auto simp: days_def)
  have distinct: "distinct (map vs_sample_id (map on_day days))"
    unfolding days_def by (rule days_distinct [OF by_day_ok [OF inputs(1)]]) (use dates keys in auto)
  show ?thesis
  proof (cases "ls \<noteq> [] \<and> 0 < mt \<and> mt < int (length days)")
    case False
    with q args inputs show ?thesis
      by (auto simp: walk_forward_evaluate_def Let_def argument_errors_def days_def [symmetric] mt_def [symmetric])
  next
    case True
    then obtain sp where sp: "mk_splitter mt (test_window (length days) mt folds) gap None = Inr sp"
      using mk_splitter_total [of mt gap] args(2) by blast
    note pos = mk_splitter_fields(2) [OF sp]
    obtain x where x: "split_samples sp (map on_day days) = Some x"
      using split_samples_total [OF pos] by blast
    have eval: "walk_forward_evaluate ops factory labels features q folds min_train gap =
        (case x of Inl e \<Rightarrow> Some (Inl e) | Inr fds \<Rightarrow> Some (evaluate_split ops factory ls fs q gap fds))"
      using q args inputs True
      by (simp add: walk_forward_evaluate_def Let_def days_def [symmetric] mt_def [symmetric] day_samples_total sp x)
    show ?thesis
    proof (cases x)
      case (Inl e)
      with eval split_samples_raises [of sp _ e labels features] x distinct show ?thesis by simp
    next
      case (Inr fds)
      note sound = split_samples_sound(2) [OF x [unfolded Inr] pos]
      from eval Inr evaluate_split_raises [OF q inputs valid sound distinct days] show ?thesis
        by (auto split: sum.split)
    qed
  qed
qed

lemma evaluation_raises:
  assumes q: "q \<in> fitted_quantiles" "0 < q" "q < 1"
    and valid: "\<forall>l \<in> set labels. mk_tail_label l = Inr l" "\<forall>f \<in> set features. mk_entry_features f = Inr f"
    and dates: "\<forall>l \<in> set labels. date_valid (tl_day l)"
  shows "case walk_forward_evaluate ops factory labels features q folds min_train gap of
     None \<Rightarrow> False | Some (Inl e) \<Rightarrow> e \<in> fit_errors \<union> argument_errors labels features | Some (Inr r) \<Rightarrow> True"
proof (cases "0 < folds \<and> 0 \<le> gap")
  case False
  with q show ?thesis by (auto simp: walk_forward_evaluate_def argument_errors_def)
next
  case args: True
  show ?thesis
  proof (cases "by_day ''excursion label'' tl_day [] labels")
    case (Inl e)
    with q args by_day_label_raises [OF Inl] show ?thesis by (simp add: walk_forward_evaluate_def)
  next
    case ls: (Inr ls)
    show ?thesis
    proof (cases "by_day ''entry features'' ef_day [] features")
      case (Inl e)
      with q args ls by_day_features_raises [OF Inl] show ?thesis by (simp add: walk_forward_evaluate_def)
    next
      case (Inr fs)
      from evaluation_raises_by_day [OF q _ _ ls Inr valid dates] args show ?thesis by simp
    qed
  qed
qed

end

section \<open>Properties\<close>

definition example_labels :: "tail_label list" where
  "example_labels =
     [\<lparr>tl_day = 739845, up_max = 10, down_max = 4, tl_entry_price = None\<rparr>,
      \<lparr>tl_day = 739846, up_max = 2, down_max = 8, tl_entry_price = None\<rparr>,
      \<lparr>tl_day = 739848, up_max = 12, down_max = 3, tl_entry_price = None\<rparr>,
      \<lparr>tl_day = 739849, up_max = 5, down_max = 5, tl_entry_price = None\<rparr>]"

definition example_config :: tail_config where
  "example_config = \<lparr>quantiles = [1 / 2], min_regime_samples = 1, allow_fallback = True, min_distance = 1\<rparr>"

definition example_evaluation :: "evaluation_report result option" where
  "example_evaluation =
     walk_forward_evaluate uncond_ops (new_uncond example_config) example_labels [] (1 / 2) 1 None 86400000000"

lemma example_evaluates:
  "\<exists>r. example_evaluation = Some (Inr r) \<and> length (er_folds r) = 1 \<and> em_test_days (er_aggregate r) = 2"
proof -
  have "(case example_evaluation of Some (Inr r) \<Rightarrow> length (er_folds r) = 1 \<and> em_test_days (er_aggregate r) = 2 | _ \<Rightarrow> False)"
    by code_simp
  then show ?thesis by (auto split: option.splits sum.splits)
qed

text \<open>C26. Every fold of an evaluation is scored out of sample: whatever the model, its recommendations for the
  test days of a fold come from a fit on labels and features of days more than the purge gap earlier,
  and the test, abstain, covered and breach counts of the fold are those of its test days.\<close>

theorem evaluation_out_of_sample:
  assumes "walk_forward_evaluate ops factory labels features q folds min_train gap = Some (Inr r)"
    and "\<forall>l \<in> set labels. date_valid (tl_day l)"
  shows "er_folds r \<noteq> [] \<and> (\<forall>fe \<in> set (er_folds r). out_of_sample ops factory labels features q gap fe)"
  using evaluation_folds [OF assms] by blast

theorem evaluation_out_of_sample_witness:
  "\<exists>r. example_evaluation = Some (Inr r)
     \<and> out_of_sample uncond_ops (new_uncond example_config) example_labels [] (1 / 2) 86400000000 (hd (er_folds r))"
proof -
  obtain r where r: "example_evaluation = Some (Inr r)" using example_evaluates by blast
  have "\<forall>l \<in> set example_labels. date_valid (tl_day l)"
    by (simp add: example_labels_def date_valid_def date_max_def)
  from evaluation_out_of_sample [OF r [unfolded example_evaluation_def] this] r show ?thesis
    by (auto intro!: exI [of _ r] hd_in_set)
qed

text \<open>The aggregate of an evaluation is the sum of its folds, and every test day is in exactly one of
  abstained and evaluated.\<close>

theorem evaluation_aggregate_sums:
  assumes "walk_forward_evaluate ops factory labels features q folds min_train gap = Some (Inr r)"
    and "\<forall>l \<in> set labels. date_valid (tl_day l)"
  shows "em_test_days (er_aggregate r) = folds_sum em_test_days (er_folds r)
     \<and> em_abstain_days (er_aggregate r) = folds_sum em_abstain_days (er_folds r)
     \<and> em_covered_days (er_aggregate r) = folds_sum em_covered_days (er_folds r)
     \<and> em_up_breach_count (er_aggregate r) = folds_sum em_up_breach_count (er_folds r)
     \<and> em_down_breach_count (er_aggregate r) = folds_sum em_down_breach_count (er_folds r)
     \<and> em_abstain_days (er_aggregate r) + em_evaluated_days (er_aggregate r) = em_test_days (er_aggregate r)"
  using evaluation_folds [OF assms] build_metrics_counts by (fastforce simp: tallies_folds_def)

theorem evaluation_aggregate_sums_witness:
  "\<exists>r. example_evaluation = Some (Inr r) \<and> folds_sum em_test_days (er_folds r) = 2"
proof -
  obtain r where r: "example_evaluation = Some (Inr r)" "em_test_days (er_aggregate r) = 2" using example_evaluates by blast
  have "\<forall>l \<in> set example_labels. date_valid (tl_day l)"
    by (simp add: example_labels_def date_valid_def date_max_def)
  from evaluation_aggregate_sums [OF r(1) [unfolded example_evaluation_def] this] r show ?thesis
    by (intro exI [of _ r]) simp
qed

end
