(* ===== verification/TailPredictors.thy ===== *)
theory TailPredictors
  imports TailEvaluation
begin

text \<open>
  The two tail models of \<open>validation/tail_model.py\<close> under the contract the harness relies on
  (\<open>tail_predictor\<close> of \<open>TailEvaluation\<close>): what they raise, that a fitted model answers, and the share
  of the training window a fitted distance covers.
\<close>

section \<open>Tables of quantiles\<close>

definition config_ok :: "tail_config \<Rightarrow> bool" where
  "config_ok c \<longleftrightarrow> (\<forall>q \<in> set (quantiles c). 0 < q \<and> q < 1) \<and> quantiles c \<noteq> [] \<and> distinct (quantiles c)
     \<and> 1 \<le> min_regime_samples c \<and> 0 < min_distance c"

lemma sort_Nil_iff: "sort xs = [] \<longleftrightarrow> xs = []"
  by (metis length_0_conv length_sort)

lemma mk_tail_config_ok: "mk_tail_config c = Inr c' \<Longrightarrow> config_ok c' \<and> sorted (quantiles c') \<and> set (quantiles c') = set (quantiles c)"
  by (auto simp: mk_tail_config_def config_ok_def list_ex_iff not_le sort_Nil_iff split: if_splits)

lemma table_lookup:
  assumes "res_map f qs = Inr t" and "\<And>q p. f q = Inr p \<Longrightarrow> fst p = q" and "q \<in> set qs"
  shows "\<exists>v. map_of t q = Some v \<and> f q = Inr (q, v)"
  using assms(1,3)
proof (induction qs arbitrary: t)
  case (Cons x xs)
  then obtain p t' where p: "f x = Inr p" "res_map f xs = Inr t'" "t = p # t'" by (auto split: sum.splits)
  with assms(2) [OF p(1)] Cons show ?case by (cases p) auto
qed simp

lemma res_map_in: "res_map f xs = Inr ys \<Longrightarrow> y \<in> set ys \<Longrightarrow> \<exists>x \<in> set xs. f x = Inr y"
  by (induction xs arbitrary: ys) (auto split: sum.splits)

lemma quantile_table_lookup:
  assumes "quantile_table qs values = Inr t" and "q \<in> set qs"
  shows "\<exists>v. map_of t q = Some v \<and> empirical_quantile_higher values q = Inr v"
  using table_lookup [OF assms(1) [unfolded quantile_table_def] _ assms(2)] by fastforce

lemma quantile_table_entry:
  assumes "quantile_table qs values = Inr t" and "map_of t q = Some v"
  shows "empirical_quantile_higher values q = Inr v"
proof -
  have "(q, v) \<in> set t" using assms(2) by (rule map_of_SomeD)
  then obtain x where "res_bind (empirical_quantile_higher values x) (\<lambda>v. Inr (x, v)) = Inr (q, v)"
    by (rule bexE [OF res_map_in [OF assms(1) [unfolded quantile_table_def]]])
  then show ?thesis by auto
qed

lemma share_below_mono: "v \<le> w \<Longrightarrow> share_below xs v \<le> share_below xs w"
  unfolding share_below_def by (induction xs) auto

lemma share_below_how_many: "share_below (map g xs) w = how_many (\<lambda>x. g x \<le> w) xs"
  by (simp add: share_below_def how_many_def filter_map o_def)

lemma floored_quantile:
  assumes "empirical_quantile_higher (map g xs) q = Inr v"
  shows "q * of_nat (length xs) \<le> of_nat (how_many (\<lambda>x. g x \<le> max v least) xs)"
    and "least < max v least \<Longrightarrow> q * of_nat (length xs) \<le> of_nat (how_many (\<lambda>x. g x \<le> w) xs) \<Longrightarrow> max v least \<le> w"
proof -
  note facts = quantile_facts [OF assms, unfolded share_below_how_many length_map]
  have "how_many (\<lambda>x. g x \<le> v) xs \<le> how_many (\<lambda>x. g x \<le> max v least) xs"
    using share_below_mono [of v "max v least" "map g xs"] by (simp add: share_below_how_many)
  then show "q * of_nat (length xs) \<le> of_nat (how_many (\<lambda>x. g x \<le> max v least) xs)"
    using facts(2) by (meson of_nat_mono order_trans)
  show "max v least \<le> w" if "least < max v least" "q * of_nat (length xs) \<le> of_nat (how_many (\<lambda>x. g x \<le> w) xs)"
    using facts(3) [OF that(2)] that(1) by (simp add: max_def split: if_splits)
qed

lemma quantile_table_total:
  assumes "\<forall>q \<in> set qs. 0 < q \<and> q < 1" and "values \<noteq> []" and "\<forall>v \<in> set values. 0 \<le> v"
  shows "\<exists>t. quantile_table qs values = Inr t"
  unfolding quantile_table_def by (rule res_map_total) (use assms quantile_returns in fastforce)

lemma valid_label: "mk_tail_label l = Inr l \<Longrightarrow> 0 \<le> up_max l \<and> 0 \<le> down_max l"
  by (auto simp: mk_tail_label_def not_less split: if_splits)

section \<open>The unconditional model\<close>

definition uncond_fitted :: "tail_config \<Rightarrow> uncond_model \<Rightarrow> bool" where
  "uncond_fitted c m \<longleftrightarrow> um_config m = c
     \<and> (\<forall>q \<in> set (quantiles c). map_of (um_up m) q \<noteq> None \<and> map_of (um_down m) q \<noteq> None)"

definition answered_quantiles :: "tail_config \<Rightarrow> rat set" where
  "answered_quantiles c = (if 0 < min_distance c then set (quantiles c) else {})"

lemma uncond_fit_fitted: "uncond_fit (new_uncond c) labels features = Inr m \<Longrightarrow> uncond_fitted c m"
  using quantile_table_lookup by (fastforce simp: uncond_fit_def new_uncond_def uncond_fitted_def split: if_splits)

lemma uncond_fit_total:
  assumes "config_ok c" and "labels \<noteq> []" and "\<forall>l \<in> set labels. mk_tail_label l = Inr l"
  shows "\<exists>m. uncond_fit (new_uncond c) labels features = Inr m"
proof -
  have qs: "\<forall>q \<in> set (quantiles c). 0 < q \<and> q < 1" using assms(1) by (simp add: config_ok_def)
  have "\<forall>v \<in> set (map up_max labels). 0 \<le> v" "\<forall>v \<in> set (map down_max labels). 0 \<le> v"
    using assms(3) valid_label by auto
  with quantile_table_total [OF qs, of "map up_max labels"] quantile_table_total [OF qs, of "map down_max labels"] assms(2)
  show ?thesis by (auto simp: uncond_fit_def new_uncond_def)
qed

lemma mk_tail_distances_total:
  assumes "0 < down_distance d" "0 < up_distance d" "\<not> blank (td_regime d)" "\<not> blank (td_model_version d)"
    "0 < td_quantile d" "td_quantile d < 1"
  shows "mk_tail_distances d = Inr d"
  using assms by (simp add: mk_tail_distances_def)

lemma names_not_blank: "\<not> blank ''ALL''" "\<not> blank uncond_version" "\<not> blank iv_version"
  by (simp_all add: blank_iff is_space_def uncond_version_def iv_version_def)

lemma uncond_recommend_answers:
  assumes "uncond_fitted c m" and "q \<in> answered_quantiles c" and "0 < q" "q < 1"
  shows "\<exists>t. uncond_recommend m f q = Inr (Some t) \<and> 0 < up_distance t \<and> 0 < down_distance t"
proof -
  obtain up down where t: "map_of (um_up m) q = Some up" "map_of (um_down m) q = Some down"
    using assms(1,2) by (auto simp: uncond_fitted_def answered_quantiles_def split: if_splits)
  then have "um_up m \<noteq> []" by auto
  moreover have "0 < min_distance (um_config m)"
    using assms(1,2) by (auto simp: uncond_fitted_def answered_quantiles_def split: if_splits)
  ultimately show ?thesis
    using t assms(3,4) by (simp add: uncond_recommend_def mk_tail_distances_total names_not_blank max.strict_coboundedI2)
qed

interpretation baseline: tail_predictor uncond_ops "new_uncond c" "uncond_fitted c" "answered_quantiles c"
    "if config_ok c then {} else UNIV" for c
proof (unfold_locales, goal_cases)
  case (1 labels features m)
  then show ?case using uncond_fit_fitted by (simp add: uncond_ops_def)
next
  case (2 labels features e)
  then show ?case using uncond_fit_total [of c labels features] by (auto simp: uncond_ops_def)
next
  case (3 m q f)
  from uncond_recommend_answers [OF this] show ?case by (auto simp: uncond_ops_def)
next
  case (4 m)
  show ?case by (simp add: uncond_ops_def names_not_blank)
qed

section \<open>The IV-regime model\<close>

definition iv_fitted :: "tail_config \<Rightarrow> iv_model \<Rightarrow> bool" where
  "iv_fitted c m \<longleftrightarrow> iv_config m = c \<and> length (iv_boundaries m) = 3
     \<and> (\<forall>name table. map_of (iv_tables m) name = Some table \<longrightarrow> (\<forall>q \<in> set (quantiles c). map_of table q \<noteq> None))
     \<and> (\<forall>u. iv_unconditional m = Some u \<longrightarrow> uncond_fitted c u)"

lemma regime_table_lookup:
  assumes "regime_table qs bucket = Inr t" and "q \<in> set qs"
  shows "\<exists>u d. map_of t q = Some (u, d) \<and> empirical_quantile_higher (map up_max bucket) q = Inr u
    \<and> empirical_quantile_higher (map down_max bucket) q = Inr d"
  using table_lookup [OF assms(1) [unfolded regime_table_def] _ assms(2)] by fastforce

lemma regime_table_total:
  assumes "\<forall>q \<in> set qs. 0 < q \<and> q < 1" and "bucket \<noteq> []" and "\<forall>l \<in> set bucket. mk_tail_label l = Inr l"
  shows "\<exists>t. regime_table qs bucket = Inr t"
  unfolding regime_table_def
proof (rule res_map_total, rule ballI)
  fix q assume "q \<in> set qs"
  then have q: "0 < q" "q < 1" using assms(1) by auto
  have "\<forall>x \<in> set (map up_max bucket). 0 \<le> x" "\<forall>x \<in> set (map down_max bucket). 0 \<le> x"
    using assms(3) valid_label by auto
  with quantile_returns [of "map up_max bucket" q] quantile_returns [of "map down_max bucket" q] q assms(2)
  show "\<exists>y. res_bind (empirical_quantile_higher (map up_max bucket) q)
      (\<lambda>u. res_bind (empirical_quantile_higher (map down_max bucket) q) (\<lambda>d. Inr (q, u, d))) = Inr y" by auto
qed

lemma regime_boundaries_length: "regime_boundaries valid = Inr bs \<Longrightarrow> length bs = 3"
  unfolding regime_boundaries_def by (drule res_map_length) (simp add: REGIME_CUTS_def)

lemma regime_name_in: "length bs = 3 \<Longrightarrow> regime_name bs v \<in> set REGIME_NAMES"
  unfolding regime_name_def
proof (rule nth_mem)
  assume "length bs = 3"
  then have "bisect_right bs v \<le> 3" unfolding bisect_right_def by (metis length_filter_le)
  then show "bisect_right bs v < length REGIME_NAMES" by (simp add: REGIME_NAMES_def)
qed

lemma regime_names_not_blank: "name \<in> set REGIME_NAMES \<Longrightarrow> \<not> blank name \<and> \<not> blank (name @ ''_FALLBACK'')"
  by (auto simp: REGIME_NAMES_def blank_iff is_space_def)

definition usable :: "tail_label \<times> rat \<Rightarrow> bool" where
  "usable p \<longleftrightarrow> mk_tail_label (fst p) = Inr (fst p) \<and> 0 \<le> snd p"

lemma features_by_day_in: "map_of (features_by_day fs) d = Some f \<Longrightarrow> f \<in> set fs"
  unfolding features_by_day_def
  by (induction fs arbitrary: f rule: rev_induct) (auto split: if_splits)

lemma valid_days_usable:
  assumes "\<forall>l \<in> set labels. mk_tail_label l = Inr l" and "\<forall>f \<in> set features. mk_entry_features f = Inr f"
  shows "\<forall>p \<in> set (valid_days (features_by_day features) labels). usable p"
proof
  fix p assume "p \<in> set (valid_days (features_by_day features) labels)"
  then obtain l f v where p: "p = (l, v)" "l \<in> set labels" "map_of (features_by_day features) (tl_day l) = Some f" "atm_iv f = Some v"
    by (auto simp: valid_days_def usable_iv_def split: option.splits if_splits)
  then have "mk_entry_features f = Inr f" using assms(2) features_by_day_in by blast
  with p assms(1) show "usable p" by (auto simp: usable_def mk_entry_features_def split: if_splits)
qed

lemma regime_bucket_set: "set (regime_bucket bs valid name) \<subseteq> fst ` set valid"
  by (auto simp: regime_bucket_def)

lemma regime_boundaries_total:
  assumes "\<forall>p \<in> set vs. usable p" and "vs \<noteq> []"
  shows "\<exists>bs. regime_boundaries vs = Inr bs"
  unfolding regime_boundaries_def
  by (rule res_map_total) (use assms quantile_returns in \<open>auto simp: REGIME_CUTS_def usable_def\<close>)

lemma iv_fit_raises:
  assumes "iv_fit (new_iv c) labels features = Inl e" and "config_ok c" and "labels \<noteq> []"
    and valid: "\<forall>l \<in> set labels. mk_tail_label l = Inr l" "\<forall>f \<in> set features. mk_entry_features f = Inr f"
  shows "e = TailDistancesError ''no training days with valid atm_iv''"
proof (rule ccontr)
  assume e: "e \<noteq> TailDistancesError ''no training days with valid atm_iv''"
  define vs where "vs = valid_days (features_by_day features) labels"
  have us: "\<forall>p \<in> set vs. usable p" using valid_days_usable [OF valid] by (simp add: vs_def)
  have ne: "vs \<noteq> []" using assms(1,3) e by (auto simp: iv_fit_def Let_def vs_def [symmetric] new_iv_def)
  obtain bs where bs: "regime_boundaries vs = Inr bs" using regime_boundaries_total [OF us ne] ..
  obtain fallback where fallback: "uncond_fit (new_uncond c) (map fst vs) [] = Inr fallback"
    using uncond_fit_total [OF assms(2), of "map fst vs" "[]"] us ne by (auto simp: usable_def)
  let ?names = "filter (\<lambda>name. min_regime_samples c \<le> int (length (regime_bucket bs vs name))) REGIME_NAMES"
  have "\<exists>tables. res_map (\<lambda>name. res_bind (regime_table (quantiles c) (regime_bucket bs vs name)) (\<lambda>t. Inr (name, t))) ?names = Inr tables"
  proof (rule res_map_total, rule ballI)
    fix name assume "name \<in> set ?names"
    then have "regime_bucket bs vs name \<noteq> []" using assms(2) by (auto simp: config_ok_def)
    moreover have "\<forall>l \<in> set (regime_bucket bs vs name). mk_tail_label l = Inr l"
      using us regime_bucket_set [of bs vs name] by (force simp: usable_def)
    ultimately have "\<exists>t. regime_table (quantiles c) (regime_bucket bs vs name) = Inr t"
      using assms(2) by (intro regime_table_total) (auto simp: config_ok_def)
    then show "\<exists>y. res_bind (regime_table (quantiles c) (regime_bucket bs vs name)) (\<lambda>t. Inr (name, t)) = Inr y" by auto
  qed
  with bs fallback ne assms(1,3) show False
    by (auto simp: iv_fit_def Let_def vs_def [symmetric] new_iv_def)
qed

lemma iv_fit_fitted:
  assumes "iv_fit (new_iv c) labels features = Inr m"
  shows "iv_fitted c m"
proof -
  define vs where "vs = valid_days (features_by_day features) labels"
  obtain bs fallback tables where fit: "regime_boundaries vs = Inr bs" "uncond_fit (new_uncond c) (map fst vs) [] = Inr fallback"
      "res_map (\<lambda>name. res_bind (regime_table (quantiles c) (regime_bucket bs vs name)) (\<lambda>t. Inr (name, t)))
         (filter (\<lambda>name. min_regime_samples c \<le> int (length (regime_bucket bs vs name))) REGIME_NAMES) = Inr tables"
      "iv_config m = c" "iv_boundaries m = bs" "iv_tables m = tables" "iv_unconditional m = Some fallback"
    using assms by (auto simp: iv_fit_def Let_def vs_def [symmetric] new_iv_def split: if_splits)
  have "\<forall>q \<in> set (quantiles c). map_of table q \<noteq> None" if "map_of tables name = Some table" for name table
  proof -
    have "(name, table) \<in> set tables" using that by (rule map_of_SomeD)
    then obtain n where "res_bind (regime_table (quantiles c) (regime_bucket bs vs n)) (\<lambda>t. Inr (n, t)) = Inr (name, table)"
      by (rule bexE [OF res_map_in [OF fit(3)]])
    then have "regime_table (quantiles c) (regime_bucket bs vs n) = Inr table" by auto
    with regime_table_lookup show ?thesis by fastforce
  qed
  with fit regime_boundaries_length uncond_fit_fitted show ?thesis by (auto simp: iv_fitted_def)
qed

lemma iv_recommend_answers:
  assumes "iv_fitted c m" and "q \<in> answered_quantiles c" and "0 < q" "q < 1"
  shows "\<exists>r. iv_recommend m f q = Inr r \<and> (\<forall>t. r = Some t \<longrightarrow> 0 < up_distance t \<and> 0 < down_distance t)"
proof -
  have m: "iv_config m = c" "iv_boundaries m \<noteq> []" "q \<in> set (quantiles c)" "0 < min_distance c"
    using assms(1,2) by (auto simp: iv_fitted_def answered_quantiles_def split: if_splits)
  show ?thesis
  proof (cases "usable_iv (Some f)")
    case None
    with m show ?thesis by (simp add: iv_recommend_def Let_def)
  next
    case (Some iv)
    let ?name = "regime_name (iv_boundaries m) iv"
    have name: "\<not> blank ?name" "\<not> blank (?name @ ''_FALLBACK'')"
      using regime_names_not_blank regime_name_in assms(1) by (auto simp: iv_fitted_def)
    show ?thesis
    proof (cases "map_of (iv_tables m) ?name")
      case (Some table)
      then obtain u d where "map_of table q = Some (u, d)" using assms(1) m(3) by (fastforce simp: iv_fitted_def)
      with \<open>usable_iv (Some f) = Some iv\<close> Some m name(1) assms(3,4) show ?thesis
        by (simp add: iv_recommend_def Let_def mk_tail_distances_total names_not_blank max.strict_coboundedI2)
    next
      case None
      have fallback: "\<exists>t. uncond_recommend u f q = Inr (Some t) \<and> 0 < up_distance t \<and> 0 < down_distance t"
        if "iv_unconditional m = Some u" for u
        using uncond_recommend_answers assms that by (auto simp: iv_fitted_def)
      with \<open>usable_iv (Some f) = Some iv\<close> None m name(2) assms(3,4) show ?thesis
        by (cases "iv_unconditional m") (fastforce simp: iv_recommend_def Let_def mk_tail_distances_total names_not_blank)+
    qed
  qed
qed

interpretation conditional: tail_predictor iv_ops "new_iv c" "iv_fitted c" "answered_quantiles c"
    "if config_ok c then {TailDistancesError ''no training days with valid atm_iv''} else UNIV" for c
proof (unfold_locales, goal_cases)
  case (1 labels features m)
  then show ?case using iv_fit_fitted by (simp add: iv_ops_def)
next
  case (2 labels features e)
  then show ?case using iv_fit_raises [of c labels features e] by (auto simp: iv_ops_def)
next
  case (3 m q f)
  from iv_recommend_answers [OF this] show ?case by (simp add: iv_ops_def)
next
  case (4 m)
  show ?case by (simp add: iv_ops_def names_not_blank)
qed

section \<open>Properties\<close>

lemma example_answers:
  "\<forall>l \<in> set example_labels. mk_tail_label l = Inr l" "\<forall>l \<in> set example_labels. date_valid (tl_day l)"
  "mk_tail_config example_config = Inr example_config"
  by (simp_all add: example_labels_def mk_tail_label_def date_valid_def date_max_def mk_tail_config_def example_config_def)

text \<open>Comparing the IV-regime model with the baseline returns, and fails only for the arguments: on the
  configurations, labels and features the constructors accept and a configured quantile, an error is
  one of the documented argument errors, never one of the metrics, of a missing table or of a
  distance that is not positive.\<close>

theorem comparison_fails_only_for_arguments:
  assumes "mk_tail_config c0 = Inr c" and "q \<in> set (quantiles c)"
    and "\<forall>l \<in> set labels. mk_tail_label l = Inr l \<and> date_valid (tl_day l)"
    and "\<forall>f \<in> set features. mk_entry_features f = Inr f"
  shows "case evaluate_against_baseline c labels features q folds min_train gap of
     None \<Rightarrow> False
   | Some (Inl e) \<Rightarrow> e \<in> insert (TailDistancesError ''no training days with valid atm_iv'') (argument_errors labels features)
   | Some (Inr r) \<Rightarrow> True"
proof -
  have c: "config_ok c" using mk_tail_config_ok [OF assms(1)] by simp
  with assms(2) have q: "q \<in> answered_quantiles c" "0 < q" "q < 1" by (auto simp: config_ok_def answered_quantiles_def)
  have labels: "\<forall>l \<in> set labels. mk_tail_label l = Inr l" "\<forall>l \<in> set labels. date_valid (tl_day l)"
    using assms(3) by auto
  from conditional.evaluation_raises [OF q labels(1) assms(4) labels(2), of folds min_train gap]
    baseline.evaluation_raises [OF q labels(1) assms(4) labels(2), of folds min_train gap] c
  show ?thesis by (auto simp: evaluate_against_baseline_def split: option.splits sum.splits)
qed

theorem comparison_fails_only_for_arguments_witness:
  "case evaluate_against_baseline example_config example_labels [] (1 / 2) 1 None 0 of
     None \<Rightarrow> False
   | Some (Inl e) \<Rightarrow> e \<in> insert (TailDistancesError ''no training days with valid atm_iv'') (argument_errors example_labels [])
   | Some (Inr r) \<Rightarrow> True"
  by (rule comparison_fails_only_for_arguments [of example_config])
     (use example_answers in \<open>auto simp: example_config_def\<close>)

text \<open>A fitted unconditional model covers its training window: for every fitted quantile it recommends, never
  abstaining, distances that at least that share of the training days stays within, on each side, and
  a distance above the contract's floor is the least that does.\<close>

theorem unconditional_covers_training:
  assumes "uncond_fit (new_uncond c) labels features = Inr m" and "uncond_recommend m f q = Inr r"
  shows "\<exists>t. r = Some t \<and> td_day t = ef_day f
     \<and> q * of_nat (length labels) \<le> of_nat (how_many (\<lambda>l. up_max l \<le> up_distance t) labels)
     \<and> q * of_nat (length labels) \<le> of_nat (how_many (\<lambda>l. down_max l \<le> down_distance t) labels)
     \<and> (\<forall>w. min_distance c < up_distance t \<and> q * of_nat (length labels) \<le> of_nat (how_many (\<lambda>l. up_max l \<le> w) labels)
          \<longrightarrow> up_distance t \<le> w)
     \<and> (\<forall>w. min_distance c < down_distance t \<and> q * of_nat (length labels) \<le> of_nat (how_many (\<lambda>l. down_max l \<le> w) labels)
          \<longrightarrow> down_distance t \<le> w)"
proof -
  obtain ups downs where t: "quantile_table (quantiles c) (map up_max labels) = Inr ups"
      "quantile_table (quantiles c) (map down_max labels) = Inr downs" "um_up m = ups" "um_down m = downs" "um_config m = c"
    using assms(1) by (auto simp: uncond_fit_def new_uncond_def split: if_splits)
  obtain up down t where r: "r = Some t" "map_of ups q = Some up" "map_of downs q = Some down"
      "td_day t = ef_day f" "up_distance t = max up (min_distance c)" "down_distance t = max down (min_distance c)"
    using assms(2) t(3-5)
    by (auto simp: uncond_recommend_def mk_tail_distances_def split: if_splits option.splits)
  note up = floored_quantile(1) [OF quantile_table_entry [OF t(1) r(2)], of "min_distance c"]
    floored_quantile(2) [OF quantile_table_entry [OF t(1) r(2)], of "min_distance c"]
  note down = floored_quantile(1) [OF quantile_table_entry [OF t(2) r(3)], of "min_distance c"]
    floored_quantile(2) [OF quantile_table_entry [OF t(2) r(3)], of "min_distance c"]
  show ?thesis using r(1,4) up [folded r(5)] down [folded r(6)] by blast
qed

theorem unconditional_covers_training_witness:
  "\<exists>m t. uncond_fit (new_uncond example_config) example_labels [] = Inr m
     \<and> uncond_recommend m (invalid_features 739850) (1 / 2) = Inr (Some t)
     \<and> 2 \<le> (of_nat (how_many (\<lambda>l. up_max l \<le> up_distance t) example_labels) :: rat)"
proof -
  have "(case uncond_fit (new_uncond example_config) example_labels [] of Inl e \<Rightarrow> False
     | Inr m \<Rightarrow> is_ok (uncond_recommend m (invalid_features 739850) (1 / 2)))"
    by code_simp
  then obtain m r where m: "uncond_fit (new_uncond example_config) example_labels [] = Inr m"
      "uncond_recommend m (invalid_features 739850) (1 / 2) = Inr r"
    by (auto simp: is_ok_iff split: sum.splits)
  have "length example_labels = 4" by (simp add: example_labels_def)
  with unconditional_covers_training [OF m] m show ?thesis by auto
qed

end
