(* ===== verification/TailModelV2.thy ===== *)
theory TailModelV2
  imports TailPredictors "HOL-Library.Product_Lexorder"
begin

text \<open>
  Tail model v2 (\<open>validation/tail_model_v2.py\<close>): the empirical quantiles of v1 plus additive buffers per
  side, the least on a grid whose joint coverage of the training window reaches the target, with
  abstention where none does; the same per IV regime; and the three-way evaluation.
\<close>

section \<open>Calibrating the buffers\<close>

definition buffer_grid :: "rat \<Rightarrow> rat \<Rightarrow> rat list result" where
  "buffer_grid buffer_max buffer_step =
     (if buffer_max < 0 then Inl (TailDistancesError ''buffer_max must be finite and non-negative'')
      else if buffer_step \<le> 0 then Inl (TailDistancesError ''buffer_step must be positive and finite'')
      else Inr (map (\<lambda>i. of_nat i * buffer_step) [0..<nat \<lfloor>buffer_max / buffer_step\<rfloor> + 1]))"

record buffer_calibration =
  bc_quantile :: rat
  bc_target_coverage :: rat
  base_up :: rat
  base_down :: rat
  buffer_up :: rat
  buffer_down :: rat
  calibrated :: bool
  train_coverage :: rat

definition mk_buffer_calibration :: "buffer_calibration \<Rightarrow> buffer_calibration result" where
  "mk_buffer_calibration b =
     (if \<not> (0 < bc_quantile b \<and> bc_quantile b < 1) then Inl (TailDistancesError ''quantile must be within (0, 1)'')
      else if \<not> (0 < bc_target_coverage b \<and> bc_target_coverage b < 1)
        then Inl (TailDistancesError ''target_coverage must be within (0, 1)'')
      else if base_up b < 0 then Inl (TailDistancesError ''base_up must be finite and non-negative'')
      else if base_down b < 0 then Inl (TailDistancesError ''base_down must be finite and non-negative'')
      else if buffer_up b < 0 then Inl (TailDistancesError ''buffer_up must be finite and non-negative'')
      else if buffer_down b < 0 then Inl (TailDistancesError ''buffer_down must be finite and non-negative'')
      else if \<not> (0 \<le> train_coverage b \<and> train_coverage b \<le> 1)
        then Inl (TailDistancesError ''train_coverage must be in [0, 1]'')
      else if calibrated b \<and> train_coverage b < bc_target_coverage b
        then Inl (TailDistancesError ''calibrated buffers must reach target coverage'')
      else Inr b)"

definition buffer_key :: "rat \<times> rat \<times> rat \<Rightarrow> rat \<times> rat \<times> rat" where
  "buffer_key b = (case b of (u, d, _) \<Rightarrow> (u + d, u, d))"

definition row_coverage :: "bool list \<Rightarrow> rat list \<Rightarrow> rat \<Rightarrow> rat" where
  "row_coverage up_ok down_excess buffer =
     of_nat (length (filter (\<lambda>i. up_ok ! i \<and> down_excess ! i \<le> buffer) [0..<length up_ok])) / of_nat (length up_ok)"

text \<open>The inner loop, which stops at the first feasible buffer.\<close>

fun scan_row ::
  "rat \<Rightarrow> bool list \<Rightarrow> rat list \<Rightarrow> rat \<Rightarrow> rat list \<Rightarrow> (rat \<times> rat \<times> rat) option \<Rightarrow> (rat \<times> rat \<times> rat) option" where
  "scan_row target up_ok down_excess u [] best = best"
| "scan_row target up_ok down_excess u (d # ds) best =
     (let coverage = row_coverage up_ok down_excess d in
      if target \<le> coverage
      then (if best = None \<or> buffer_key (u, d, coverage) < buffer_key (the best) then Some (u, d, coverage) else best)
      else scan_row target up_ok down_excess u ds best)"

definition calibrate_side_buffers :: "rat list \<Rightarrow> rat list \<Rightarrow> rat \<Rightarrow> rat list \<Rightarrow> (rat \<times> rat \<times> rat) option" where
  "calibrate_side_buffers up_excess down_excess target grid =
     fold (\<lambda>u best. scan_row target (map (\<lambda>x. x \<le> u) up_excess) down_excess u grid best) grid None"

definition calibrate_quantile :: "tail_label list \<Rightarrow> rat \<Rightarrow> rat \<Rightarrow> rat list \<Rightarrow> buffer_calibration result" where
  "calibrate_quantile labels q target grid =
     res_bind (empirical_quantile_higher (map up_max labels) q) (\<lambda>up.
     res_bind (empirical_quantile_higher (map down_max labels) q) (\<lambda>down.
       let up_excess = map (\<lambda>l. up_max l - up) labels; down_excess = map (\<lambda>l. down_max l - down) labels in
       case calibrate_side_buffers up_excess down_excess target grid of
         None \<Rightarrow>
           let top = last grid in
           mk_buffer_calibration \<lparr>bc_quantile = q, bc_target_coverage = target, base_up = up, base_down = down,
             buffer_up = top, buffer_down = top, calibrated = False,
             train_coverage = of_nat (length (filter (\<lambda>i. up_excess ! i \<le> top \<and> down_excess ! i \<le> top) [0..<length labels]))
               / of_nat (length labels)\<rparr>
       | Some (u, d, coverage) \<Rightarrow>
           mk_buffer_calibration \<lparr>bc_quantile = q, bc_target_coverage = target, base_up = up, base_down = down,
             buffer_up = u, buffer_down = d, calibrated = True, train_coverage = coverage\<rparr>))"

section \<open>The buffered models\<close>

record buffered_model =
  bm_config :: tail_config
  bm_target_coverage :: "rat option"
  bm_buffer_max :: rat
  bm_buffer_step :: rat
  bm_calibrations :: "(rat, buffer_calibration) dict"
  bm_train_days :: nat

definition validate_target_coverage :: "rat option \<Rightarrow> unit result" where
  "validate_target_coverage t =
     (case t of None \<Rightarrow> Inr ()
      | Some c \<Rightarrow> if 0 < c \<and> c < 1 then Inr () else Inl (TailDistancesError ''target_coverage must be within (0, 1)''))"

definition new_buffered :: "tail_config \<Rightarrow> rat option \<Rightarrow> rat \<Rightarrow> rat \<Rightarrow> buffered_model result" where
  "new_buffered c target buffer_max buffer_step =
     res_bind (buffer_grid buffer_max buffer_step) (\<lambda>_.
     res_bind (validate_target_coverage target) (\<lambda>_.
       Inr \<lparr>bm_config = c, bm_target_coverage = target, bm_buffer_max = buffer_max, bm_buffer_step = buffer_step,
         bm_calibrations = [], bm_train_days = 0\<rparr>))"

definition buffered_version :: string where "buffered_version = ''buffer-calibrated-tail-v2''"

definition calibration :: "buffered_model \<Rightarrow> rat \<Rightarrow> buffer_calibration result" where
  "calibration m q = (case map_of (bm_calibrations m) q of
       None \<Rightarrow> Inl (TailDistancesError ''quantile was not fitted'') | Some b \<Rightarrow> Inr b)"

definition is_calibrated :: "buffered_model \<Rightarrow> rat \<Rightarrow> bool result" where
  "is_calibrated m q = res_bind (calibration m q) (\<lambda>b. Inr (calibrated b))"

definition target_for :: "rat option \<Rightarrow> rat \<Rightarrow> rat" where
  "target_for t q = (case t of Some c \<Rightarrow> c | None \<Rightarrow> q)"

definition buffered_fit :: "buffered_model \<Rightarrow> tail_label list \<Rightarrow> entry_features list \<Rightarrow> buffered_model result" where
  "buffered_fit m labels features =
     (if labels = [] then Inl (TailDistancesError ''training labels must not be empty'')
      else res_bind (buffer_grid (bm_buffer_max m) (bm_buffer_step m)) (\<lambda>grid.
           res_bind (res_map (\<lambda>q. res_bind (calibrate_quantile labels q (target_for (bm_target_coverage m) q) grid) (\<lambda>b. Inr (q, b)))
               (quantiles (bm_config m))) (\<lambda>calibrations.
             Inr (m\<lparr>bm_calibrations := calibrations, bm_train_days := length labels\<rparr>))))"

definition buffered_recommend :: "buffered_model \<Rightarrow> entry_features \<Rightarrow> rat \<Rightarrow> tail_distances option result" where
  "buffered_recommend m f q =
     (if bm_calibrations m = [] then Inl (TailDistancesError ''model is not fitted'')
      else res_bind (calibration m q) (\<lambda>b.
        if \<not> calibrated b then Inr None
        else res_bind (mk_tail_distances \<lparr>td_day = ef_day f,
              down_distance = max (base_down b + buffer_down b) (min_distance (bm_config m)),
              up_distance = max (base_up b + buffer_up b) (min_distance (bm_config m)),
              td_regime = ''BUFFERED'', td_model_version = buffered_version, td_quantile = q\<rparr>) (\<lambda>t. Inr (Some t))))"

definition buffered_ops :: "buffered_model tail_ops" where
  "buffered_ops = \<lparr>ops_fit = buffered_fit, ops_recommend = buffered_recommend, ops_version = (\<lambda>_. buffered_version)\<rparr>"

record buffered_iv_model =
  bi_config :: tail_config
  bi_target_coverage :: "rat option"
  bi_buffer_max :: rat
  bi_buffer_step :: rat
  bi_boundaries :: "rat list"
  bi_models :: "(string, buffered_model) dict"
  bi_counts :: "(string, nat) dict"
  bi_fallback :: "buffered_model option"

definition buffered_iv_version :: string where "buffered_iv_version = ''buffer-calibrated-iv-v2''"

definition new_buffered_iv :: "tail_config \<Rightarrow> rat option \<Rightarrow> rat \<Rightarrow> rat \<Rightarrow> buffered_iv_model result" where
  "new_buffered_iv c target buffer_max buffer_step =
     res_bind (buffer_grid buffer_max buffer_step) (\<lambda>_.
     res_bind (validate_target_coverage target) (\<lambda>_.
       Inr \<lparr>bi_config = c, bi_target_coverage = target, bi_buffer_max = buffer_max, bi_buffer_step = buffer_step,
         bi_boundaries = [], bi_models = [], bi_counts = [], bi_fallback = None\<rparr>))"

definition new_unconditional :: "buffered_iv_model \<Rightarrow> buffered_model result" where
  "new_unconditional m = new_buffered (bi_config m) (bi_target_coverage m) (bi_buffer_max m) (bi_buffer_step m)"

definition buffered_iv_fit :: "buffered_iv_model \<Rightarrow> tail_label list \<Rightarrow> entry_features list \<Rightarrow> buffered_iv_model result" where
  "buffered_iv_fit m labels features =
     (if labels = [] then Inl (TailDistancesError ''training labels must not be empty'')
      else
        let valid = valid_days (features_by_day features) labels in
        if valid = [] then Inl (TailDistancesError ''no training days with valid atm_iv'')
        else res_bind (regime_boundaries valid) (\<lambda>bs.
             res_bind (res_bind (new_unconditional m) (\<lambda>u. buffered_fit u (map fst valid) [])) (\<lambda>fallback.
             res_bind (res_map (\<lambda>name. res_bind (res_bind (new_unconditional m)
                   (\<lambda>u. buffered_fit u (regime_bucket bs valid name) [])) (\<lambda>r. Inr (name, r)))
                 (filter (\<lambda>name. min_regime_samples (bi_config m) \<le> int (length (regime_bucket bs valid name))) REGIME_NAMES))
               (\<lambda>models. Inr (m\<lparr>bi_boundaries := bs, bi_models := models,
                  bi_counts := map (\<lambda>name. (name, length (regime_bucket bs valid name))) REGIME_NAMES,
                  bi_fallback := Some fallback\<rparr>)))))"

definition regime_calibration :: "buffered_iv_model \<Rightarrow> string \<Rightarrow> rat \<Rightarrow> buffer_calibration option result" where
  "regime_calibration m name q =
     (case map_of (bi_models m) name of
        None \<Rightarrow> Inr None
      | Some r \<Rightarrow> res_bind (calibration r q) (\<lambda>b. Inr (if calibrated b then Some b else None)))"

definition buffered_iv_fallback :: "buffered_iv_model \<Rightarrow> string \<Rightarrow> entry_features \<Rightarrow> rat \<Rightarrow> tail_distances option result" where
  "buffered_iv_fallback m name f q =
     (case (if allow_fallback (bi_config m) then bi_fallback m else None) of
        None \<Rightarrow> Inr None
      | Some u \<Rightarrow> res_bind (is_calibrated u q) (\<lambda>ok.
          if \<not> ok then Inr None
          else res_bind (buffered_recommend u f q) (\<lambda>r. case r of
              None \<Rightarrow> Inr None
            | Some t \<Rightarrow> res_bind (mk_tail_distances \<lparr>td_day = ef_day f, down_distance = down_distance t,
                  up_distance = up_distance t, td_regime = name @ ''_BUFFERED_FALLBACK'',
                  td_model_version = buffered_iv_version, td_quantile = q\<rparr>) (\<lambda>t'. Inr (Some t')))))"

definition buffered_iv_recommend :: "buffered_iv_model \<Rightarrow> entry_features \<Rightarrow> rat \<Rightarrow> tail_distances option result" where
  "buffered_iv_recommend m f q =
     (let c = bi_config m in
      if bi_boundaries m = [] then Inl (TailDistancesError ''model is not fitted'')
      else if q \<notin> set (quantiles c) then Inl (TailDistancesError ''quantile was not fitted'')
      else (case usable_iv (Some f) of
          None \<Rightarrow> Inr None
        | Some iv \<Rightarrow>
            let name = regime_name (bi_boundaries m) iv in
            res_bind (regime_calibration m name q) (\<lambda>rc. case rc of
                Some b \<Rightarrow> res_bind (mk_tail_distances \<lparr>td_day = ef_day f,
                    down_distance = max (base_down b + buffer_down b) (min_distance c),
                    up_distance = max (base_up b + buffer_up b) (min_distance c),
                    td_regime = name @ ''_BUFFERED'', td_model_version = buffered_iv_version, td_quantile = q\<rparr>)
                  (\<lambda>t. Inr (Some t))
              | None \<Rightarrow> buffered_iv_fallback m name f q)))"

definition buffered_iv_ops :: "buffered_iv_model tail_ops" where
  "buffered_iv_ops = \<lparr>ops_fit = buffered_iv_fit, ops_recommend = buffered_iv_recommend, ops_version = (\<lambda>_. buffered_iv_version)\<rparr>"

section \<open>The three-way evaluation\<close>

record model_efficiency =
  me_model_version :: string
  me_coverage :: "rat option"
  mean_total_distance :: "rat option"
  coverage_per_distance :: "rat option"

definition mk_efficiency :: "model_efficiency \<Rightarrow> model_efficiency result" where
  "mk_efficiency e = (if blank (me_model_version e) then Inl (ValueError ''model_version must not be blank'') else Inr e)"

text \<open>The total of two means that the metrics validated as positive is not zero.\<close>

definition efficiency :: "evaluation_report \<Rightarrow> model_efficiency result" where
  "efficiency r =
     (let m = er_aggregate r in
      case (em_coverage m, mean_up_distance m, mean_down_distance m) of
        (Some coverage, Some up, Some down) \<Rightarrow>
          mk_efficiency \<lparr>me_model_version = er_model_version r, me_coverage = Some coverage,
            mean_total_distance = Some (up + down), coverage_per_distance = Some (coverage / (up + down))\<rparr>
      | _ \<Rightarrow> mk_efficiency \<lparr>me_model_version = er_model_version r, me_coverage = None,
            mean_total_distance = None, coverage_per_distance = None\<rparr>)"

record v2_comparison =
  v2_buffered :: evaluation_report
  v2_unconditional :: evaluation_report
  v2_iv_regime :: evaluation_report
  v2_efficiency :: "model_efficiency list"

definition evaluate_v2 ::
  "tail_config \<Rightarrow> rat option \<Rightarrow> tail_label list \<Rightarrow> entry_features list \<Rightarrow> rat \<Rightarrow> int \<Rightarrow> timedelta \<Rightarrow> v2_comparison result option" where
  "evaluate_v2 c target labels features q folds gap =
     (case res_bind (validate_target_coverage target) (\<lambda>_. new_buffered c target 100 2) of
        Inl e \<Rightarrow> Some (Inl e)
      | Inr factory \<Rightarrow>
     (case walk_forward_evaluate buffered_ops factory labels features q folds None gap of
        None \<Rightarrow> None | Some (Inl e) \<Rightarrow> Some (Inl e)
      | Some (Inr buffered) \<Rightarrow>
     (case walk_forward_evaluate uncond_ops (new_uncond c) labels features q folds None gap of
        None \<Rightarrow> None | Some (Inl e) \<Rightarrow> Some (Inl e)
      | Some (Inr unconditional) \<Rightarrow>
     (case walk_forward_evaluate iv_ops (new_iv c) labels features q folds None gap of
        None \<Rightarrow> None | Some (Inl e) \<Rightarrow> Some (Inl e)
      | Some (Inr iv) \<Rightarrow>
          Some (res_bind (res_map efficiency [buffered, unconditional, iv]) (\<lambda>es.
            Inr \<lparr>v2_buffered = buffered, v2_unconditional = unconditional, v2_iv_regime = iv, v2_efficiency = es\<rparr>))))))"

section \<open>The least feasible buffers\<close>

text \<open>The reference: the least total, then the least upper, then the least lower buffer, of all pairs of grid
  values whose joint coverage reaches the target.\<close>

definition joint_share :: "rat list \<Rightarrow> rat list \<Rightarrow> rat \<Rightarrow> rat \<Rightarrow> rat" where
  "joint_share up_excess down_excess u d =
     of_nat (how_many (\<lambda>(x, y). x \<le> u \<and> y \<le> d) (zip up_excess down_excess)) / of_nat (length up_excess)"

definition feasible_keys :: "rat list \<Rightarrow> rat list \<Rightarrow> rat \<Rightarrow> rat list \<Rightarrow> (rat \<times> rat \<times> rat) list" where
  "feasible_keys up_excess down_excess target grid =
     map (\<lambda>(u, d). (u + d, u, d)) (filter (\<lambda>(u, d). target \<le> joint_share up_excess down_excess u d) (List.product grid grid))"

definition brute_force_buffers :: "rat list \<Rightarrow> rat list \<Rightarrow> rat \<Rightarrow> rat list \<Rightarrow> (rat \<times> rat \<times> rat) option" where
  "brute_force_buffers up_excess down_excess target grid =
     (if feasible_keys up_excess down_excess target grid = [] then None
      else case Min (set (feasible_keys up_excess down_excess target grid)) of
        (_, u, d) \<Rightarrow> Some (u, d, joint_share up_excess down_excess u d))"

lemma count_by_index: "length ys = length xs \<Longrightarrow> length (filter (\<lambda>i. P (xs ! i) (ys ! i)) [0..<length xs]) = how_many (\<lambda>(x, y). P x y) (zip xs ys)"
proof (induction xs arbitrary: ys)
  case (Cons x xs)
  then obtain y ys' where ys: "ys = y # ys'" "length ys' = length xs" by (cases ys) auto
  have "[0..<length (x # xs)] = 0 # map Suc [0..<length xs]" by (simp add: map_Suc_upt upt_conv_Cons del: upt_Suc)
  then show ?case using Cons.IH [OF ys(2)] by (simp add: ys(1) filter_map o_def del: upt_Suc)
qed simp

lemma row_coverage_joint:
  assumes "length down_excess = length up_excess"
  shows "row_coverage (map (\<lambda>x. x \<le> u) up_excess) down_excess d = joint_share up_excess down_excess u d"
proof -
  have "filter (\<lambda>i. map (\<lambda>x. x \<le> u) up_excess ! i \<and> down_excess ! i \<le> d) [0..<length up_excess]
      = filter (\<lambda>i. up_excess ! i \<le> u \<and> down_excess ! i \<le> d) [0..<length up_excess]"
    by (rule filter_cong) auto
  then show ?thesis
    using count_by_index [OF assms, of "\<lambda>x y. x \<le> u \<and> y \<le> d"]
    by (simp add: row_coverage_def joint_share_def)
qed

definition improve :: "(rat \<times> rat \<times> rat) option \<Rightarrow> (rat \<times> rat \<times> rat) option \<Rightarrow> (rat \<times> rat \<times> rat) option" where
  "improve best x = (case x of None \<Rightarrow> best
     | Some y \<Rightarrow> if best = None \<or> buffer_key y < buffer_key (the best) then Some y else best)"

definition row_candidate :: "rat list \<Rightarrow> rat list \<Rightarrow> rat \<Rightarrow> rat list \<Rightarrow> rat \<Rightarrow> (rat \<times> rat \<times> rat) option" where
  "row_candidate up_excess down_excess target grid u =
     map_option (\<lambda>d. (u, d, joint_share up_excess down_excess u d))
       (find (\<lambda>d. target \<le> joint_share up_excess down_excess u d) grid)"

lemma scan_row_candidate:
  assumes "length down_excess = length up_excess"
  shows "scan_row target (map (\<lambda>x. x \<le> u) up_excess) down_excess u grid best
    = improve best (row_candidate up_excess down_excess target grid u)"
  using row_coverage_joint [OF assms]
  by (induction grid) (simp_all add: row_candidate_def improve_def Let_def)

lemma improve_keeps: "b = Some x \<or> c = Some x \<Longrightarrow> \<exists>y. improve b c = Some y \<and> buffer_key y \<le> buffer_key x"
  by (cases c; cases b) (auto simp: improve_def not_less less_imp_le simp del: split_paired_Ex)

lemma improve_fold_keeps: "\<exists>y. fold (\<lambda>u b. improve b (cand u)) us (Some x) = Some y \<and> buffer_key y \<le> buffer_key x"
proof (induction us arbitrary: x)
  case (Cons u us)
  obtain z where z: "improve (Some x) (cand u) = Some z" "buffer_key z \<le> buffer_key x" using improve_keeps by blast
  with Cons.IH [of z] show ?case by (auto simp del: split_paired_Ex)
qed auto

lemma improve_fold_least:
  assumes "u \<in> set us" and "cand u = Some x"
  shows "\<exists>y. fold (\<lambda>u b. improve b (cand u)) us b = Some y \<and> buffer_key y \<le> buffer_key x"
  using assms(1)
proof (induction us arbitrary: b)
  case (Cons v us)
  show ?case
  proof (cases "u \<in> set us")
    case False
    with Cons.prems have "v = u" by simp
    obtain z where z: "improve b (cand u) = Some z" "buffer_key z \<le> buffer_key x" using improve_keeps assms(2) by blast
    with improve_fold_keeps [of cand us z] \<open>v = u\<close> show ?thesis by (auto simp del: split_paired_Ex)
  qed (use Cons.IH in simp)
qed simp

lemma improve_fold_from: "fold (\<lambda>u b. improve b (cand u)) us b = Some y \<Longrightarrow> b = Some y \<or> (\<exists>u \<in> set us. cand u = Some y)"
proof (induction us arbitrary: b)
  case (Cons u us)
  then have "improve b (cand u) = Some y \<or> (\<exists>u \<in> set us. cand u = Some y)" by simp
  then show ?case by (auto simp: improve_def split: option.splits if_splits)
qed simp

lemma find_least:
  assumes "sorted xs" and "find P xs = Some x" and "y \<in> set xs" and "P y"
  shows "x \<le> y"
  using assms by (induction xs) (auto split: if_splits)

lemma buffer_grid_facts:
  assumes "buffer_grid m s = Inr grid"
  shows "sorted grid" and "grid \<noteq> []" and "\<forall>b \<in> set grid. 0 \<le> b"
  using assms
  by (auto simp: buffer_grid_def sorted_iff_nth_mono nth_append mult_right_mono split: if_splits)

lemma calibrate_side_buffers_brute_force:
  assumes "sorted grid" and len: "length down_excess = length up_excess"
  shows "calibrate_side_buffers up_excess down_excess target grid = brute_force_buffers up_excess down_excess target grid"
proof -
  let ?cand = "row_candidate up_excess down_excess target grid" and ?S = "set (feasible_keys up_excess down_excess target grid)"
  let ?share = "joint_share up_excess down_excess"
  define R where "R = fold (\<lambda>u b. improve b (?cand u)) grid None"
  have calibrate: "calibrate_side_buffers up_excess down_excess target grid = R"
    unfolding calibrate_side_buffers_def R_def by (intro fold_cong refl ext) (simp add: scan_row_candidate [OF len])
  have keys: "(s, u, d) \<in> ?S \<longleftrightarrow> u \<in> set grid \<and> d \<in> set grid \<and> target \<le> ?share u d \<and> s = u + d" for s u d
    by (auto simp: feasible_keys_def)
  have key: "\<exists>u d. k = (u + d, u, d) \<and> u \<in> set grid \<and> d \<in> set grid \<and> target \<le> ?share u d" if "k \<in> ?S" for k
    using that by (auto simp: feasible_keys_def)
  have row: "\<exists>d0 \<le> d. ?cand u = Some (u, d0, ?share u d0)" if feas: "u \<in> set grid" "d \<in> set grid" "target \<le> ?share u d" for u d
  proof -
    obtain d0 where d0: "find (\<lambda>d. target \<le> ?share u d) grid = Some d0"
      using feas by (cases "find (\<lambda>d. target \<le> ?share u d) grid") (auto simp: find_None_iff)
    with find_least [OF assms(1) d0 feas(2,3)] show ?thesis by (auto simp: row_candidate_def)
  qed
  note least = improve_fold_least [where us = grid and cand = ?cand and b = None, folded R_def]
  show ?thesis
  proof (cases R)
    case None
    have "k \<notin> ?S" for k
    proof
      assume "k \<in> ?S"
      then obtain u d where k: "u \<in> set grid" "d \<in> set grid" "target \<le> ?share u d" using key by blast
      with row obtain d0 where "?cand u = Some (u, d0, ?share u d0)" by blast
      from least [OF k(1) this] None show False by simp
    qed
    then have "?S = {}" by (metis all_not_in_conv)
    with None show ?thesis by (simp add: calibrate brute_force_buffers_def)
  next
    case (Some y)
    with improve_fold_from [of ?cand grid None y] obtain u where u: "u \<in> set grid" "?cand u = Some y"
      unfolding R_def by blast
    then obtain d where y: "y = (u, d, ?share u d)" "d \<in> set grid" "target \<le> ?share u d"
      by (auto simp: row_candidate_def find_Some_iff)
    have "Min ?S = (u + d, u, d)"
    proof (rule Min_eqI)
      show "(u + d, u, d) \<in> ?S" using u(1) y by (simp add: keys)
      show "(u + d, u, d) \<le> k" if mem: "k \<in> ?S" for k
      proof -
        obtain u' d' where k: "k = (u' + d', u', d')" "u' \<in> set grid" "d' \<in> set grid" "target \<le> ?share u' d'"
          using key [OF mem] by blast
        with row obtain d0 where d0: "d0 \<le> d'" "?cand u' = Some (u', d0, ?share u' d0)" by blast
        then have "(u + d, u, d) \<le> (u' + d0, u', d0)" using least [OF k(2) d0(2)] Some y(1) by (simp add: buffer_key_def)
        also have "\<dots> \<le> k" using d0(1) by (auto simp: k(1) less_eq_prod_def)
        finally show ?thesis .
      qed
    qed simp
    then show ?thesis using Some u(1) y keys [of "u + d" u d]
      by (auto simp: calibrate brute_force_buffers_def)
  qed
qed

section \<open>Coverage of the training window\<close>

definition inside_both :: "rat \<Rightarrow> rat \<Rightarrow> tail_label \<Rightarrow> bool" where
  "inside_both up down l \<longleftrightarrow> up_max l \<le> up \<and> down_max l \<le> down"

lemma how_many_map: "how_many P (map g xs) = how_many (P \<circ> g) xs"
  by (simp add: how_many_def filter_map)

lemma how_many_le: "how_many P xs \<le> length xs"
  by (simp add: how_many_def)

lemma how_many_mono: "(\<And>x. P x \<Longrightarrow> Q x) \<Longrightarrow> how_many P xs \<le> how_many Q xs"
  by (induction xs) auto

lemma joint_share_labels:
  "joint_share (map (\<lambda>l. up_max l - up) labels) (map (\<lambda>l. down_max l - down) labels) u d
     = of_nat (how_many (inside_both (up + u) (down + d)) labels) / of_nat (length labels)"
proof -
  have "zip (map (\<lambda>l. up_max l - up) labels) (map (\<lambda>l. down_max l - down) labels)
      = map (\<lambda>l. (up_max l - up, down_max l - down)) labels" by (induction labels) auto
  moreover have "(\<lambda>(x, y). x \<le> u \<and> y \<le> d) \<circ> (\<lambda>l. (up_max l - up, down_max l - down)) = inside_both (up + u) (down + d)"
    by (rule ext) (auto simp: inside_both_def algebra_simps)
  ultimately show ?thesis by (simp add: joint_share_def how_many_map)
qed

lemma brute_force_feasible:
  assumes "brute_force_buffers us ds target grid = Some (u, d, c)"
  shows "u \<in> set grid" "d \<in> set grid" "c = joint_share us ds u d" "target \<le> c"
proof -
  let ?S = "set (feasible_keys us ds target grid)"
  obtain k where k: "Min ?S = (k, u, d)" "c = joint_share us ds u d" "?S \<noteq> {}"
    using assms by (auto simp: brute_force_buffers_def split: if_splits prod.splits)
  then have "(k, u, d) \<in> ?S" using Min_in [of ?S] by simp
  with k(2) show "u \<in> set grid" "d \<in> set grid" "c = joint_share us ds u d" "target \<le> c"
    by (auto simp: feasible_keys_def)
qed

lemma brute_force_infeasible:
  "brute_force_buffers us ds target grid = None \<Longrightarrow> u \<in> set grid \<Longrightarrow> d \<in> set grid \<Longrightarrow> joint_share us ds u d < target"
  by (auto simp: brute_force_buffers_def feasible_keys_def filter_empty_conv not_le split: if_splits prod.splits)

lemma calibrate_quantile_facts:
  assumes "calibrate_quantile labels q target grid = Inr b" and "buffer_grid m s = Inr grid"
  shows "empirical_quantile_higher (map up_max labels) q = Inr (base_up b)"
    and "empirical_quantile_higher (map down_max labels) q = Inr (base_down b)"
    and "calibrated b \<Longrightarrow> target * of_nat (length labels)
           \<le> of_nat (how_many (inside_both (base_up b + buffer_up b) (base_down b + buffer_down b)) labels)"
    and "\<not> calibrated b \<Longrightarrow> u \<in> set grid \<Longrightarrow> d \<in> set grid
           \<Longrightarrow> of_nat (how_many (inside_both (base_up b + u) (base_down b + d)) labels) < target * of_nat (length labels)"
proof -
  obtain up down where q: "empirical_quantile_higher (map up_max labels) q = Inr up"
      "empirical_quantile_higher (map down_max labels) q = Inr down"
    using assms(1) by (auto simp: calibrate_quantile_def)
  let ?us = "map (\<lambda>l. up_max l - up) labels" and ?ds = "map (\<lambda>l. down_max l - down) labels"
  note brute = calibrate_side_buffers_brute_force [OF buffer_grid_facts(1) [OF assms(2)], of ?ds ?us target, simplified]
  have n: "0 < (of_nat (length labels) :: rat)" using quantile_facts(7) [OF q(1)] by simp
  have b: "base_up b = up \<and> base_down b = down \<and> (calibrated b \<longleftrightarrow> brute_force_buffers ?us ?ds target grid \<noteq> None)
      \<and> (calibrated b \<longrightarrow> (\<exists>c. brute_force_buffers ?us ?ds target grid = Some (buffer_up b, buffer_down b, c)))"
    using assms(1) q brute
    by (auto simp: calibrate_quantile_def Let_def mk_buffer_calibration_def split: option.splits if_splits)
  then show "empirical_quantile_higher (map up_max labels) q = Inr (base_up b)"
    "empirical_quantile_higher (map down_max labels) q = Inr (base_down b)" using q by simp_all
  show "target * of_nat (length labels) \<le> of_nat (how_many (inside_both (base_up b + buffer_up b) (base_down b + buffer_down b)) labels)"
    if cal: "calibrated b"
  proof -
    obtain c where "brute_force_buffers ?us ?ds target grid = Some (buffer_up b, buffer_down b, c)" using b cal by blast
    from brute_force_feasible(3,4) [OF this] n b show ?thesis by (simp add: joint_share_labels le_divide_eq)
  qed
  show "of_nat (how_many (inside_both (base_up b + u) (base_down b + d)) labels) < target * of_nat (length labels)"
    if cal: "\<not> calibrated b" "u \<in> set grid" "d \<in> set grid"
  proof -
    have "brute_force_buffers ?us ?ds target grid = None" using b cal by blast
    from brute_force_infeasible [OF this cal(2,3)] n b show ?thesis by (simp add: joint_share_labels divide_less_eq)
  qed
qed

lemma calibrate_quantile_total:
  assumes q: "0 < q" "q < 1" and target: "0 < target" "target < 1" and grid: "buffer_grid m s = Inr grid"
    and labels: "labels \<noteq> []" "\<forall>l \<in> set labels. mk_tail_label l = Inr l"
  shows "\<exists>b. calibrate_quantile labels q target grid = Inr b"
proof -
  have nonneg: "\<forall>v \<in> set (map up_max labels). 0 \<le> v" "\<forall>v \<in> set (map down_max labels). 0 \<le> v"
    using labels(2) valid_label by auto
  then obtain up down where v: "empirical_quantile_higher (map up_max labels) q = Inr up"
      "empirical_quantile_higher (map down_max labels) q = Inr down"
    using quantile_returns [of "map up_max labels" q] quantile_returns [of "map down_max labels" q] labels(1) q by auto
  note base = quantile_facts(4) [OF v(1)] quantile_facts(4) [OF v(2)]
  let ?us = "map (\<lambda>l. up_max l - up) labels" and ?ds = "map (\<lambda>l. down_max l - down) labels"
  note g = buffer_grid_facts [OF grid]
  note brute = calibrate_side_buffers_brute_force [OF g(1), of ?ds ?us target, simplified]
  have share: "0 \<le> (of_nat k :: rat) / of_nat (length labels)" "(of_nat k :: rat) / of_nat (length labels) \<le> 1"
    if "k \<le> length labels" for k using that labels(1) by (simp_all add: divide_le_eq_1)
  show ?thesis
  proof (cases "brute_force_buffers ?us ?ds target grid")
    case None
    let ?P = "\<lambda>i. ?us ! i \<le> last grid \<and> ?ds ! i \<le> last grid"
    have "length (filter ?P [0..<length labels]) \<le> length labels" by (metis length_filter_le length_upt minus_nat.diff_0)
    moreover have "0 \<le> last grid" using g(2,3) last_in_set by blast
    ultimately show ?thesis using share None v base q target brute
      by (simp add: calibrate_quantile_def Let_def mk_buffer_calibration_def)
  next
    case (Some x)
    obtain u d c where x: "x = (u, d, c)" by (cases x) auto
    note f = brute_force_feasible [OF Some [unfolded x]]
    have "0 \<le> c" "c \<le> 1" using share [OF how_many_le] by (simp_all add: f(3) joint_share_labels)
    moreover have "0 \<le> u" "0 \<le> d" using f(1,2) g(3) by simp_all
    ultimately show ?thesis using f(3,4) v base q target brute Some x
      by (simp add: calibrate_quantile_def Let_def mk_buffer_calibration_def)
  qed
qed

section \<open>The contract of the harness\<close>

definition calibration_args_ok :: "tail_config \<Rightarrow> rat option \<Rightarrow> rat \<Rightarrow> rat \<Rightarrow> bool" where
  "calibration_args_ok c target buffer_max buffer_step \<longleftrightarrow>
     config_ok c \<and> is_ok (validate_target_coverage target) \<and> is_ok (buffer_grid buffer_max buffer_step)"

definition buffered0 :: "tail_config \<Rightarrow> rat option \<Rightarrow> rat \<Rightarrow> rat \<Rightarrow> buffered_model" where
  "buffered0 c target buffer_max buffer_step =
     \<lparr>bm_config = c, bm_target_coverage = target, bm_buffer_max = buffer_max, bm_buffer_step = buffer_step,
      bm_calibrations = [], bm_train_days = 0\<rparr>"

lemma new_buffered_model:
  "new_buffered c target buffer_max buffer_step = Inr m \<Longrightarrow> m = buffered0 c target buffer_max buffer_step"
  by (auto simp: new_buffered_def buffered0_def)

definition buffered_fitted :: "tail_config \<Rightarrow> buffered_model \<Rightarrow> bool" where
  "buffered_fitted c m \<longleftrightarrow> bm_config m = c \<and> (\<forall>q \<in> set (quantiles c). map_of (bm_calibrations m) q \<noteq> None)"

lemma buffered_fit_calibrations:
  assumes "buffered_fit m0 labels features = Inr m" and "q \<in> set (quantiles (bm_config m0))"
  obtains b grid where "map_of (bm_calibrations m) q = Some b" "buffer_grid (bm_buffer_max m0) (bm_buffer_step m0) = Inr grid"
    "calibrate_quantile labels q (target_for (bm_target_coverage m0) q) grid = Inr b"
proof -
  obtain grid cs where g: "buffer_grid (bm_buffer_max m0) (bm_buffer_step m0) = Inr grid"
      "res_map (\<lambda>q. res_bind (calibrate_quantile labels q (target_for (bm_target_coverage m0) q) grid) (\<lambda>b. Inr (q, b)))
               (quantiles (bm_config m0)) = Inr cs" "bm_calibrations m = cs"
    using assms(1) by (auto simp: buffered_fit_def split: if_splits)
  obtain b where "map_of cs q = Some b"
      "res_bind (calibrate_quantile labels q (target_for (bm_target_coverage m0) q) grid) (\<lambda>b. Inr (q, b)) = Inr (q, b)"
    using table_lookup [OF g(2) _ assms(2)] by fastforce
  with g that show thesis by auto
qed

lemma buffered_fit_config: "buffered_fit m0 labels features = Inr m \<Longrightarrow> bm_config m = bm_config m0"
  by (auto simp: buffered_fit_def split: if_splits)

lemma buffered_fit_fitted:
  assumes "buffered_fit (buffered0 c target buffer_max buffer_step) labels features = Inr m"
  shows "buffered_fitted c m"
proof -
  have "map_of (bm_calibrations m) q \<noteq> None" if "q \<in> set (quantiles c)" for q
    by (rule buffered_fit_calibrations [OF assms, of q]) (use that in \<open>auto simp: buffered0_def\<close>)
  with buffered_fit_config [OF assms] show ?thesis by (simp add: buffered_fitted_def buffered0_def)
qed

lemma target_for_range: "is_ok (validate_target_coverage t) \<Longrightarrow> 0 < q \<Longrightarrow> q < 1 \<Longrightarrow> 0 < target_for t q \<and> target_for t q < 1"
  by (auto simp: validate_target_coverage_def target_for_def split: option.splits if_splits)

lemma buffered_fit_total:
  assumes "calibration_args_ok c target buffer_max buffer_step" and "labels \<noteq> []"
    and "\<forall>l \<in> set labels. mk_tail_label l = Inr l"
  shows "\<exists>m. buffered_fit (buffered0 c target buffer_max buffer_step) labels features = Inr m"
proof -
  obtain grid where grid: "buffer_grid buffer_max buffer_step = Inr grid"
    using assms(1) by (auto simp: calibration_args_ok_def is_ok_iff)
  have "\<exists>cs. res_map (\<lambda>q. res_bind (calibrate_quantile labels q (target_for target q) grid) (\<lambda>b. Inr (q, b))) (quantiles c) = Inr cs"
  proof (rule res_map_total, rule ballI)
    fix q assume "q \<in> set (quantiles c)"
    then have q: "0 < q" "q < 1" using assms(1) by (auto simp: calibration_args_ok_def config_ok_def)
    then have "0 < target_for target q" "target_for target q < 1"
      using target_for_range assms(1) by (auto simp: calibration_args_ok_def)
    from calibrate_quantile_total [OF q this grid assms(2,3)]
    show "\<exists>y. res_bind (calibrate_quantile labels q (target_for target q) grid) (\<lambda>b. Inr (q, b)) = Inr y" by auto
  qed
  with grid assms(2) show ?thesis by (auto simp: buffered_fit_def buffered0_def)
qed

lemma buffered_names: "\<not> blank ''BUFFERED''" "\<not> blank buffered_version" "\<not> blank buffered_iv_version"
  by (simp_all add: blank_iff is_space_def buffered_version_def buffered_iv_version_def)

lemma buffered_recommend_answers:
  assumes "buffered_fitted c m" and "q \<in> answered_quantiles c" and "0 < q" "q < 1"
  shows "\<exists>r. buffered_recommend m f q = Inr r \<and> (\<forall>t. r = Some t \<longrightarrow> 0 < up_distance t \<and> 0 < down_distance t)"
proof -
  obtain b where b: "map_of (bm_calibrations m) q = Some b" "bm_config m = c" "0 < min_distance c"
    using assms(1,2) by (auto simp: buffered_fitted_def answered_quantiles_def split: if_splits)
  then have "bm_calibrations m \<noteq> []" by auto
  with b assms(3,4) show ?thesis
    by (simp add: buffered_recommend_def calibration_def mk_tail_distances_total buffered_names max.strict_coboundedI2)
qed

interpretation buffered: tail_predictor buffered_ops "buffered0 c target buffer_max buffer_step" "buffered_fitted c"
    "answered_quantiles c" "if calibration_args_ok c target buffer_max buffer_step then {} else UNIV"
    for c target buffer_max buffer_step
proof (unfold_locales, goal_cases)
  case (1 labels features m)
  then show ?case using buffered_fit_fitted by (simp add: buffered_ops_def)
next
  case (2 labels features e)
  then show ?case using buffered_fit_total [of c target buffer_max buffer_step labels features] by (auto simp: buffered_ops_def)
next
  case (3 m q f)
  from buffered_recommend_answers [OF this] show ?case by (simp add: buffered_ops_def)
next
  case (4 m)
  show ?case by (simp add: buffered_ops_def buffered_names)
qed

definition buffered_iv0 :: "tail_config \<Rightarrow> rat option \<Rightarrow> rat \<Rightarrow> rat \<Rightarrow> buffered_iv_model" where
  "buffered_iv0 c target buffer_max buffer_step =
     \<lparr>bi_config = c, bi_target_coverage = target, bi_buffer_max = buffer_max, bi_buffer_step = buffer_step,
      bi_boundaries = [], bi_models = [], bi_counts = [], bi_fallback = None\<rparr>"

definition buffered_iv_fitted :: "tail_config \<Rightarrow> buffered_iv_model \<Rightarrow> bool" where
  "buffered_iv_fitted c m \<longleftrightarrow> bi_config m = c \<and> length (bi_boundaries m) = 3
     \<and> (\<forall>name r. map_of (bi_models m) name = Some r \<longrightarrow> buffered_fitted c r)
     \<and> (\<forall>u. bi_fallback m = Some u \<longrightarrow> buffered_fitted c u)"

lemma new_unconditional_model:
  assumes "calibration_args_ok c target buffer_max buffer_step"
  shows "new_unconditional (buffered_iv0 c target buffer_max buffer_step) = Inr (buffered0 c target buffer_max buffer_step)"
  using assms by (auto simp: new_unconditional_def buffered_iv0_def new_buffered_def buffered0_def calibration_args_ok_def is_ok_iff)

lemma new_unconditional_fitted:
  assumes "res_bind (new_unconditional (buffered_iv0 c target buffer_max buffer_step)) (\<lambda>u. buffered_fit u labels []) = Inr m"
  shows "buffered_fitted c m"
proof -
  obtain u where u: "new_unconditional (buffered_iv0 c target buffer_max buffer_step) = Inr u" "buffered_fit u labels [] = Inr m"
    using assms by auto
  have "u = buffered0 c target buffer_max buffer_step"
    using new_buffered_model u(1) by (simp add: new_unconditional_def buffered_iv0_def)
  with u(2) buffered_fit_fitted show ?thesis by blast
qed

lemma buffered_iv_fit_raises:
  assumes "buffered_iv_fit (buffered_iv0 c target buffer_max buffer_step) labels features = Inl e"
    and args: "calibration_args_ok c target buffer_max buffer_step" and "labels \<noteq> []"
    and valid: "\<forall>l \<in> set labels. mk_tail_label l = Inr l" "\<forall>f \<in> set features. mk_entry_features f = Inr f"
  shows "e = TailDistancesError ''no training days with valid atm_iv''"
proof (rule ccontr)
  assume e: "e \<noteq> TailDistancesError ''no training days with valid atm_iv''"
  define vs where "vs = valid_days (features_by_day features) labels"
  have us: "\<forall>p \<in> set vs. usable p" using valid_days_usable [OF valid] by (simp add: vs_def)
  have ne: "vs \<noteq> []" using assms(1,3) e by (auto simp: buffered_iv_fit_def Let_def vs_def [symmetric])
  obtain bs where bs: "regime_boundaries vs = Inr bs" using regime_boundaries_total [OF us ne] ..
  obtain fallback where fallback: "buffered_fit (buffered0 c target buffer_max buffer_step) (map fst vs) [] = Inr fallback"
    using buffered_fit_total [OF args, of "map fst vs" "[]"] us ne by (auto simp: usable_def)
  have small: "1 \<le> min_regime_samples c" using args by (simp add: calibration_args_ok_def config_ok_def)
  let ?names = "filter (\<lambda>name. min_regime_samples c \<le> int (length (regime_bucket bs vs name))) REGIME_NAMES"
  let ?fit = "\<lambda>name. res_bind (new_unconditional (buffered_iv0 c target buffer_max buffer_step))
     (\<lambda>u. buffered_fit u (regime_bucket bs vs name) [])"
  have "\<exists>models. res_map (\<lambda>name. res_bind (?fit name) (\<lambda>r. Inr (name, r))) ?names = Inr models"
  proof (rule res_map_total, rule ballI)
    fix name assume "name \<in> set ?names"
    then have "regime_bucket bs vs name \<noteq> []" using small by auto
    moreover have "\<forall>l \<in> set (regime_bucket bs vs name). mk_tail_label l = Inr l"
      using us regime_bucket_set [of bs vs name] by (force simp: usable_def)
    ultimately have "\<exists>r. ?fit name = Inr r"
      using buffered_fit_total [OF args] by (simp add: new_unconditional_model [OF args])
    then show "\<exists>y. res_bind (?fit name) (\<lambda>r. Inr (name, r)) = Inr y" by auto
  qed
  moreover have "bi_config (buffered_iv0 c target buffer_max buffer_step) = c" by (simp add: buffered_iv0_def)
  ultimately show False
    using bs fallback ne assms(1,3)
    by (auto simp: buffered_iv_fit_def Let_def vs_def [symmetric] new_unconditional_model [OF args])
qed

lemma buffered_iv_fit_fitted:
  assumes "buffered_iv_fit (buffered_iv0 c target buffer_max buffer_step) labels features = Inr m"
  shows "buffered_iv_fitted c m"
proof -
  let ?m0 = "buffered_iv0 c target buffer_max buffer_step"
  define vs where "vs = valid_days (features_by_day features) labels"
  obtain bs fallback models where fit: "regime_boundaries vs = Inr bs"
      "res_bind (new_unconditional ?m0) (\<lambda>u. buffered_fit u (map fst vs) []) = Inr fallback"
      "res_map (\<lambda>name. res_bind (res_bind (new_unconditional ?m0) (\<lambda>u. buffered_fit u (regime_bucket bs vs name) [])) (\<lambda>r. Inr (name, r)))
         (filter (\<lambda>name. min_regime_samples (bi_config ?m0) \<le> int (length (regime_bucket bs vs name))) REGIME_NAMES) = Inr models"
      "m = ?m0\<lparr>bi_boundaries := bs, bi_models := models,
         bi_counts := map (\<lambda>name. (name, length (regime_bucket bs vs name))) REGIME_NAMES, bi_fallback := Some fallback\<rparr>"
    using assms unfolding buffered_iv_fit_def Let_def vs_def [symmetric]
    by (auto split: if_splits elim!: res_bind_InrE)
  have "buffered_fitted c r" if "map_of models name = Some r" for name r
  proof -
    have "(name, r) \<in> set models" using that by (rule map_of_SomeD)
    then obtain n where "res_bind (res_bind (new_unconditional ?m0) (\<lambda>u. buffered_fit u (regime_bucket bs vs n) [])) (\<lambda>r. Inr (n, r)) = Inr (name, r)"
      by (rule bexE [OF res_map_in [OF fit(3)]])
    then have "res_bind (new_unconditional ?m0) (\<lambda>u. buffered_fit u (regime_bucket bs vs n) []) = Inr r"
      by (cases "res_bind (new_unconditional ?m0) (\<lambda>u. buffered_fit u (regime_bucket bs vs n) [])") auto
    then show ?thesis by (rule new_unconditional_fitted)
  qed
  with fit(1,4) regime_boundaries_length new_unconditional_fitted [OF fit(2)] show ?thesis
    by (auto simp: buffered_iv_fitted_def buffered_iv0_def)
qed

lemma regime_buffered_names: "name \<in> set REGIME_NAMES \<Longrightarrow> \<not> blank (name @ ''_BUFFERED'') \<and> \<not> blank (name @ ''_BUFFERED_FALLBACK'')"
  by (auto simp: REGIME_NAMES_def blank_iff is_space_def)

lemma buffered_calibration: "buffered_fitted c m \<Longrightarrow> q \<in> answered_quantiles c \<Longrightarrow> \<exists>b. calibration m q = Inr b"
  by (auto simp: buffered_fitted_def answered_quantiles_def calibration_def split: if_splits)

lemma buffered_iv_fallback_answers:
  assumes "buffered_iv_fitted c m" and "q \<in> answered_quantiles c" and "0 < q" "q < 1"
    and name: "name \<in> set REGIME_NAMES"
  shows "\<exists>r. buffered_iv_fallback m name f q = Inr r \<and> (\<forall>t. r = Some t \<longrightarrow> 0 < up_distance t \<and> 0 < down_distance t)"
proof (cases "if allow_fallback (bi_config m) then bi_fallback m else None")
  case None
  then show ?thesis by (simp add: buffered_iv_fallback_def)
next
  case (Some u)
  then have u: "buffered_fitted c u" using assms(1) by (auto simp: buffered_iv_fitted_def split: if_splits)
  obtain b where b: "calibration u q = Inr b" using buffered_calibration [OF u assms(2)] by blast
  obtain r where r: "buffered_recommend u f q = Inr r" "\<And>t. r = Some t \<Longrightarrow> 0 < up_distance t \<and> 0 < down_distance t"
    using buffered_recommend_answers [OF u assms(2-4)] by blast
  show ?thesis
    using Some b r assms(3,4) regime_buffered_names [OF name]
    by (cases r) (auto simp: buffered_iv_fallback_def is_calibrated_def mk_tail_distances_total buffered_names)
qed

lemma buffered_iv_recommend_answers:
  assumes "buffered_iv_fitted c m" and "q \<in> answered_quantiles c" and "0 < q" "q < 1"
  shows "\<exists>r. buffered_iv_recommend m f q = Inr r \<and> (\<forall>t. r = Some t \<longrightarrow> 0 < up_distance t \<and> 0 < down_distance t)"
proof -
  have m: "bi_config m = c" "bi_boundaries m \<noteq> []" "q \<in> set (quantiles c)" "0 < min_distance c"
    using assms(1,2) by (auto simp: buffered_iv_fitted_def answered_quantiles_def split: if_splits)
  show ?thesis
  proof (cases "usable_iv (Some f)")
    case None
    with m show ?thesis by (simp add: buffered_iv_recommend_def Let_def)
  next
    case (Some iv)
    let ?name = "regime_name (bi_boundaries m) iv"
    have name: "?name \<in> set REGIME_NAMES" using regime_name_in assms(1) by (auto simp: buffered_iv_fitted_def)
    have "\<exists>rc. regime_calibration m ?name q = Inr rc"
      using buffered_calibration [OF _ assms(2)] assms(1)
      by (fastforce simp: regime_calibration_def buffered_iv_fitted_def split: option.split)
    then obtain rc where rc: "regime_calibration m ?name q = Inr rc" ..
    show ?thesis
    proof (cases rc)
      case None
      have "buffered_iv_recommend m f q = buffered_iv_fallback m ?name f q"
        using Some m rc None by (simp add: buffered_iv_recommend_def Let_def)
      with buffered_iv_fallback_answers [OF assms name] show ?thesis by simp
    next
      case b: (Some b)
      show ?thesis
        using Some m rc b assms(3,4) regime_buffered_names [OF name]
        by (simp add: buffered_iv_recommend_def Let_def mk_tail_distances_total buffered_names max.strict_coboundedI2)
    qed
  qed
qed

interpretation buffered_iv: tail_predictor buffered_iv_ops "buffered_iv0 c target buffer_max buffer_step" "buffered_iv_fitted c"
    "answered_quantiles c"
    "if calibration_args_ok c target buffer_max buffer_step
     then {TailDistancesError ''no training days with valid atm_iv''} else UNIV"
    for c target buffer_max buffer_step
proof (unfold_locales, goal_cases)
  case (1 labels features m)
  then show ?case using buffered_iv_fit_fitted by (simp add: buffered_iv_ops_def)
next
  case (2 labels features e)
  then show ?case using buffered_iv_fit_raises [of c target buffer_max buffer_step labels features e]
    by (auto simp: buffered_iv_ops_def)
next
  case (3 m q f)
  from buffered_iv_recommend_answers [OF this] show ?case by (simp add: buffered_iv_ops_def)
next
  case (4 m)
  show ?case by (simp add: buffered_iv_ops_def buffered_names)
qed

section \<open>Properties\<close>

text \<open>C25. The search for the buffers finds the optimum: on every grid of the code, scanning each row only to its
  first feasible buffer gives what the search over all pairs gives, the least total buffer that reaches
  the target with ties to the smaller upper buffer, and nothing exactly where no pair reaches it.\<close>

theorem buffers_equal_brute_force:
  assumes "buffer_grid buffer_max buffer_step = Inr grid" and "length down_excess = length up_excess"
  shows "calibrate_side_buffers up_excess down_excess target grid = brute_force_buffers up_excess down_excess target grid"
  by (rule calibrate_side_buffers_brute_force [OF buffer_grid_facts(1) [OF assms(1)] assms(2)])

theorem buffers_equal_brute_force_witness:
  "calibrate_side_buffers [-1, 3, 5] [2, -2, 0] (2 / 3) [0, 2, 4] = brute_force_buffers [-1, 3, 5] [2, -2, 0] (2 / 3) [0, 2, 4]
   \<and> calibrate_side_buffers [-1, 3, 5] [2, -2, 0] (2 / 3) [0, 2, 4] = Some (4, 2, 2 / 3)"
proof (rule conjI)
  have "buffer_grid 4 2 = Inr [0, 2, 4]" by code_simp
  from buffers_equal_brute_force [OF this]
  show "calibrate_side_buffers [-1, 3, 5] [2, -2, 0] (2 / 3) [0, 2, 4] = brute_force_buffers [-1, 3, 5] [2, -2, 0] (2 / 3) [0, 2, 4]"
    by simp
  show "calibrate_side_buffers [-1, 3, 5] [2, -2, 0] (2 / 3) [0, 2, 4] = Some (4, 2, 2 / 3)"
    by code_simp
qed

text \<open>A buffered model is never knowingly uncalibrated: what it recommends after a fit covers the target share
  of the training window on both sides at once, and it abstains exactly where no pair of buffers of the
  grid does.\<close>

theorem buffered_covers_or_abstains:
  assumes "new_buffered c target buffer_max buffer_step = Inr m0" and "buffered_fit m0 labels features = Inr m"
    and "q \<in> set (quantiles c)" and "buffered_recommend m f q = Inr r"
  shows "case r of
     Some t \<Rightarrow> target_for target q * of_nat (length labels) \<le> of_nat (how_many (inside_both (up_distance t) (down_distance t)) labels)
   | None \<Rightarrow> (\<exists>up down grid. empirical_quantile_higher (map up_max labels) q = Inr up
        \<and> empirical_quantile_higher (map down_max labels) q = Inr down \<and> buffer_grid buffer_max buffer_step = Inr grid
        \<and> (\<forall>u \<in> set grid. \<forall>d \<in> set grid. of_nat (how_many (inside_both (up + u) (down + d)) labels)
              < target_for target q * of_nat (length labels)))"
proof -
  have m0: "m0 = buffered0 c target buffer_max buffer_step" by (rule new_buffered_model [OF assms(1)])
  obtain b grid where b: "map_of (bm_calibrations m) q = Some b" "buffer_grid buffer_max buffer_step = Inr grid"
      "calibrate_quantile labels q (target_for target q) grid = Inr b"
    by (rule buffered_fit_calibrations [OF assms(2), of q]) (use assms(3) in \<open>simp_all add: m0 buffered0_def\<close>)
  note facts = calibrate_quantile_facts [OF b(3,2)]
  have ne: "bm_calibrations m \<noteq> []" using b(1) by auto
  show ?thesis
  proof (cases "calibrated b")
    case False
    then have "r = None" using assms(4) b(1) ne by (simp add: buffered_recommend_def calibration_def)
    with facts(1,2) facts(4) [OF False] b(2) show ?thesis by auto
  next
    case True
    obtain t where t: "r = Some t" "up_distance t = max (base_up b + buffer_up b) (min_distance (bm_config m))"
        "down_distance t = max (base_down b + buffer_down b) (min_distance (bm_config m))"
      using assms(4) b(1) ne True
      by (auto simp: buffered_recommend_def calibration_def mk_tail_distances_def split: if_splits)
    have "how_many (inside_both (base_up b + buffer_up b) (base_down b + buffer_down b)) labels
        \<le> how_many (inside_both (up_distance t) (down_distance t)) labels"
      by (rule how_many_mono) (auto simp: inside_both_def t(2,3))
    then have "(of_nat (how_many (inside_both (base_up b + buffer_up b) (base_down b + buffer_down b)) labels) :: rat)
        \<le> of_nat (how_many (inside_both (up_distance t) (down_distance t)) labels)" by simp
    with facts(3) [OF True] t(1) show ?thesis by simp
  qed
qed

theorem buffered_covers_or_abstains_witness:
  "\<exists>m t. buffered_fit (buffered0 example_config None 100 2) example_labels [] = Inr m
     \<and> buffered_recommend m (invalid_features 739850) (1 / 2) = Inr (Some t)
     \<and> (2 :: rat) \<le> of_nat (how_many (inside_both (up_distance t) (down_distance t)) example_labels)"
proof -
  have "(case buffered_fit (buffered0 example_config None 100 2) example_labels [] of Inl e \<Rightarrow> False
     | Inr m \<Rightarrow> (case buffered_recommend m (invalid_features 739850) (1 / 2) of Inr (Some t) \<Rightarrow> True | _ \<Rightarrow> False))"
    by code_simp
  then obtain m t where m: "buffered_fit (buffered0 example_config None 100 2) example_labels [] = Inr m"
      "buffered_recommend m (invalid_features 739850) (1 / 2) = Inr (Some t)"
    by (auto split: sum.splits option.splits)
  have new: "new_buffered example_config None 100 2 = Inr (buffered0 example_config None 100 2)"
    by (simp add: new_buffered_def buffer_grid_def validate_target_coverage_def buffered0_def)
  have "length example_labels = 4" "1 / 2 \<in> set (quantiles example_config)"
    by (simp_all add: example_labels_def example_config_def)
  with buffered_covers_or_abstains [OF new m(1) _ m(2)] m show ?thesis by (auto simp: target_for_def)
qed

lemma report_named:
  assumes "walk_forward_evaluate ops factory labels features q folds min_train gap = Some (Inr r)"
  shows "\<not> blank (er_model_version r)"
  using assms
  by (auto simp: walk_forward_evaluate_def Let_def evaluate_split_def mk_evaluation_report_def
      split: if_splits sum.splits option.splits)

lemma efficiency_total: "\<not> blank (er_model_version r) \<Longrightarrow> \<exists>e. efficiency r = Inr e"
  by (auto simp: efficiency_def mk_efficiency_def Let_def split: option.split)

definition harness_result :: "py_error set \<Rightarrow> evaluation_report result option \<Rightarrow> bool" where
  "harness_result E w = (case w of None \<Rightarrow> False | Some (Inl e) \<Rightarrow> e \<in> E | Some (Inr r) \<Rightarrow> \<not> blank (er_model_version r))"

definition compare_reports ::
  "evaluation_report result option \<Rightarrow> evaluation_report result option \<Rightarrow> evaluation_report result option \<Rightarrow> v2_comparison result option" where
  "compare_reports w1 w2 w3 =
     (case w1 of None \<Rightarrow> None | Some (Inl e) \<Rightarrow> Some (Inl e) | Some (Inr buffered) \<Rightarrow>
     (case w2 of None \<Rightarrow> None | Some (Inl e) \<Rightarrow> Some (Inl e) | Some (Inr unconditional) \<Rightarrow>
     (case w3 of None \<Rightarrow> None | Some (Inl e) \<Rightarrow> Some (Inl e) | Some (Inr iv) \<Rightarrow>
        Some (res_bind (res_map efficiency [buffered, unconditional, iv]) (\<lambda>es.
          Inr \<lparr>v2_buffered = buffered, v2_unconditional = unconditional, v2_iv_regime = iv, v2_efficiency = es\<rparr>)))))"

lemma compare_reports_raises:
  assumes "harness_result E w1" "harness_result E w2" "harness_result E w3"
  shows "case compare_reports w1 w2 w3 of None \<Rightarrow> False | Some (Inl e) \<Rightarrow> e \<in> E | Some (Inr r) \<Rightarrow> True"
proof -
  have "\<exists>es. res_map efficiency [r1, r2, r3] = Inr es"
    if "\<not> blank (er_model_version r1)" "\<not> blank (er_model_version r2)" "\<not> blank (er_model_version r3)" for r1 r2 r3
    using efficiency_total that by (intro res_map_total) auto
  with assms show ?thesis
    by (fastforce simp: compare_reports_def harness_result_def simp del: res_map.simps split: option.splits sum.splits)
qed

text \<open>The three-way evaluation fails only for its arguments as well: buffered, unconditional and IV-regime
  models go through one harness, which returns, and whose errors are the documented ones.\<close>

theorem v2_fails_only_for_arguments:
  assumes "mk_tail_config c0 = Inr c" and "q \<in> set (quantiles c)"
    and "\<forall>l \<in> set labels. mk_tail_label l = Inr l \<and> date_valid (tl_day l)"
    and "\<forall>f \<in> set features. mk_entry_features f = Inr f"
  shows "case evaluate_v2 c target labels features q folds gap of
     None \<Rightarrow> False
   | Some (Inl e) \<Rightarrow> e \<in> {TailDistancesError ''no training days with valid atm_iv'',
        TailDistancesError ''target_coverage must be within (0, 1)''} \<union> argument_errors labels features
   | Some (Inr r) \<Rightarrow> True"
proof (cases "validate_target_coverage target")
  case (Inl e)
  then have "e = TailDistancesError ''target_coverage must be within (0, 1)''"
    by (auto simp: validate_target_coverage_def split: option.splits if_splits)
  with Inl show ?thesis by (simp add: evaluate_v2_def)
next
  case (Inr u)
  have c: "config_ok c" using mk_tail_config_ok [OF assms(1)] by simp
  with assms(2) have q: "q \<in> answered_quantiles c" "0 < q" "q < 1" by (auto simp: config_ok_def answered_quantiles_def)
  have labels: "\<forall>l \<in> set labels. mk_tail_label l = Inr l" "\<forall>l \<in> set labels. date_valid (tl_day l)"
    using assms(3) by auto
  have new: "new_buffered c target 100 2 = Inr (buffered0 c target 100 2)" "calibration_args_ok c target 100 2"
    using Inr c by (simp_all add: new_buffered_def buffer_grid_def buffered0_def calibration_args_ok_def)
  define w1 where "w1 = walk_forward_evaluate buffered_ops (buffered0 c target 100 2) labels features q folds None gap"
  define w2 where "w2 = walk_forward_evaluate uncond_ops (new_uncond c) labels features q folds None gap"
  define w3 where "w3 = walk_forward_evaluate iv_ops (new_iv c) labels features q folds None gap"
  let ?E = "{TailDistancesError ''no training days with valid atm_iv'',
        TailDistancesError ''target_coverage must be within (0, 1)''} \<union> argument_errors labels features"
  have w: "harness_result ?E w1" "harness_result ?E w2" "harness_result ?E w3"
    using buffered.evaluation_raises [OF q labels(1) assms(4) labels(2), of target 100 2 folds None gap] new(2)
      baseline.evaluation_raises [OF q labels(1) assms(4) labels(2), of folds None gap]
      conditional.evaluation_raises [OF q labels(1) assms(4) labels(2), of folds None gap] c
    unfolding w1_def [symmetric] w2_def [symmetric] w3_def [symmetric] harness_result_def
    by (auto simp: w1_def w2_def w3_def dest: report_named split: option.split_asm sum.split_asm option.split sum.split)
  have "evaluate_v2 c target labels features q folds gap = compare_reports w1 w2 w3"
    unfolding evaluate_v2_def compare_reports_def Inr res_bind_simps new(1) sum.case w1_def w2_def w3_def by (rule refl)
  with compare_reports_raises [OF w] show ?thesis by simp
qed

theorem v2_fails_only_for_arguments_witness:
  "case evaluate_v2 example_config None example_labels [] (1 / 2) 1 0 of
     None \<Rightarrow> False
   | Some (Inl e) \<Rightarrow> e \<in> {TailDistancesError ''no training days with valid atm_iv'',
        TailDistancesError ''target_coverage must be within (0, 1)''} \<union> argument_errors example_labels []
   | Some (Inr r) \<Rightarrow> True"
  by (rule v2_fails_only_for_arguments [of example_config])
     (use example_answers in \<open>auto simp: example_config_def\<close>)

end
