(* ===== verification/RawLanding.thy ===== *)
theory RawLanding
  imports Machine IsoText
begin

text \<open>
  The encrypted landing of licensed payloads (\<open>services/raw_landing.py\<close>) over the local adapters
  (\<open>ingest/local_landing.py\<close>).  Bytes are strings of code points below 256.  The digest \<open>sha\<close> gives
  the hexadecimal text of a digest of bytes; AES-GCM is a pair of functions.  The directory of
  objects is a dictionary from object keys, each file the object its JSON text decodes to; the receipt
  file is the list of its receipts.  A nonce is drawn for every landing.
\<close>

section \<open>Data\<close>

type_synonym bytes = string

datatype landing_operation = LO_WRITE | LO_READ

record landing_context =
  lc_principal :: string
  lc_purpose :: string
  lc_operation :: landing_operation
  lc_provider :: string
  lc_dataset :: string

record encryption_envelope =
  ciphertext :: bytes
  en_key_id :: string
  en_algorithm :: string
  en_nonce :: bytes

record encrypted_object =
  eo_object_key :: string
  eo_envelope :: encryption_envelope
  eo_content_type :: string
  eo_plaintext_sha256 :: string

record landing_receipt =
  landing_id :: string
  object_key :: string
  rc_provider :: string
  rc_dataset :: string
  logical_key_hash :: string
  rc_published_at :: instant
  rc_first_seen_at :: instant
  plaintext_sha256 :: string
  rc_key_id :: string
  rc_algorithm :: string
  content_type :: string

section \<open>The local adapters\<close>

record landing_cipher =
  cipher_encrypt :: "bytes \<Rightarrow> bytes \<Rightarrow> bytes \<Rightarrow> encryption_envelope"
  cipher_decrypt :: "encryption_envelope \<Rightarrow> bytes \<Rightarrow> bytes result"

definition LOCAL_KEY_ID :: string where "LOCAL_KEY_ID = ''local-aesgcm-v1''"
definition LOCAL_ALGORITHM :: string where "LOCAL_ALGORITHM = ''AES-256-GCM''"

text \<open>Opening the key file: an absent file is written with the random bytes before the length is checked.\<close>

definition open_key :: "bytes option \<Rightarrow> bytes \<Rightarrow> bytes result \<times> bytes option" where
  "open_key stored random =
     (let key = (case stored of Some k \<Rightarrow> k | None \<Rightarrow> random) in
      (if length key \<noteq> 32 then Inl (ValueError ''local landing key must be 32 bytes'') else Inr key, Some key))"

definition local_encrypt :: "(bytes \<Rightarrow> bytes \<Rightarrow> bytes \<Rightarrow> bytes \<Rightarrow> bytes) \<Rightarrow> bytes \<Rightarrow> bytes \<Rightarrow> bytes \<Rightarrow> bytes \<Rightarrow> encryption_envelope" where
  "local_encrypt aes key nonce plain ad =
     \<lparr>ciphertext = aes key nonce plain ad, en_key_id = LOCAL_KEY_ID, en_algorithm = LOCAL_ALGORITHM, en_nonce = nonce\<rparr>"

definition local_decrypt ::
  "(bytes \<Rightarrow> bytes \<Rightarrow> bytes \<Rightarrow> bytes \<Rightarrow> bytes result) \<Rightarrow> bytes \<Rightarrow> encryption_envelope \<Rightarrow> bytes \<Rightarrow> bytes result" where
  "local_decrypt unaes key env ad =
     (if en_key_id env \<noteq> LOCAL_KEY_ID then Inl (ValueError (''unknown landing key: '' @ en_key_id env))
      else unaes key (en_nonce env) (ciphertext env) ad)"

definition local_cipher ::
  "(bytes \<Rightarrow> bytes \<Rightarrow> bytes \<Rightarrow> bytes \<Rightarrow> bytes) \<Rightarrow> (bytes \<Rightarrow> bytes \<Rightarrow> bytes \<Rightarrow> bytes \<Rightarrow> bytes result) \<Rightarrow> bytes \<Rightarrow> landing_cipher" where
  "local_cipher aes unaes key = \<lparr>cipher_encrypt = local_encrypt aes key, cipher_decrypt = local_decrypt unaes key\<rparr>"

definition static_authorize :: "(string \<times> string) list \<Rightarrow> landing_context \<Rightarrow> bool" where
  "static_authorize allowed c \<longleftrightarrow> (lc_principal c, lc_purpose c) \<in> set allowed"

record landing_state =
  ls_objects :: "(string, encrypted_object) dict"
  ls_receipts :: "landing_receipt list"

definition store_get :: "landing_state \<Rightarrow> string \<Rightarrow> encrypted_object option" where
  "store_get s key = map_of (ls_objects s) key"

definition put_if_absent :: "landing_state \<Rightarrow> encrypted_object \<Rightarrow> encrypted_object \<times> landing_state" where
  "put_if_absent s v =
     (case store_get s (eo_object_key v) of
        Some existing \<Rightarrow> (existing, s)
      | None \<Rightarrow> (v, s\<lparr>ls_objects := AList.update (eo_object_key v) v (ls_objects s)\<rparr>))"

definition sink_append :: "landing_state \<Rightarrow> landing_receipt \<Rightarrow> landing_state" where
  "sink_append s r = s\<lparr>ls_receipts := ls_receipts s @ [r]\<rparr>"

section \<open>The landing service\<close>

text \<open>\<open>str.encode()\<close> on the code points of the model.\<close>

definition utf8_char :: "char \<Rightarrow> bytes" where
  "utf8_char c = (let n = of_char c :: nat in if n < 128 then [c] else [char_of (192 + n div 64), char_of (128 + n mod 64)])"

definition utf8 :: "string \<Rightarrow> bytes" where
  "utf8 s = concat (map utf8_char s)"

definition safe_char :: "char \<Rightarrow> bool" where
  "safe_char c \<longleftrightarrow>
     (let n = of_char c :: nat in (65 \<le> n \<and> n \<le> 90) \<or> (97 \<le> n \<and> n \<le> 122) \<or> (48 \<le> n \<and> n \<le> 57))
     \<or> c = CHR ''.'' \<or> c = CHR ''_'' \<or> c = CHR ''-''"

definition safe_component :: "string \<Rightarrow> bool" where
  "safe_component s \<longleftrightarrow> s \<noteq> [] \<and> list_all safe_char s"

record landing_request =
  lq_provider :: string
  lq_dataset :: string
  lq_logical_key :: string
  lq_published_at :: datetime
  lq_first_seen_at :: datetime
  lq_payload :: bytes
  lq_content_type :: string
  lq_principal :: string
  lq_purpose :: string

definition write_context :: "landing_request \<Rightarrow> landing_context" where
  "write_context q = \<lparr>lc_principal = lq_principal q, lc_purpose = lq_purpose q, lc_operation = LO_WRITE,
     lc_provider = lq_provider q, lc_dataset = lq_dataset q\<rparr>"

definition landing_identity :: "(bytes \<Rightarrow> string) \<Rightarrow> landing_request \<Rightarrow> instant \<Rightarrow> string" where
  "landing_identity sha q first =
     sha (utf8 (lq_provider q @ ''|'' @ lq_dataset q @ ''|'' @ sha (utf8 (lq_logical_key q)) @ ''|'' @ isoformat first
       @ ''|'' @ sha (lq_payload q)))"

definition object_key_of :: "string \<Rightarrow> string \<Rightarrow> string \<Rightarrow> string" where
  "object_key_of provider dataset lid = ''licensed/'' @ provider @ ''/'' @ dataset @ ''/'' @ lid"

definition associated_data :: "string \<Rightarrow> string \<Rightarrow> string \<Rightarrow> bytes" where
  "associated_data lid provider dataset = utf8 (''marketpilot:'' @ lid @ '':'' @ provider @ '':'' @ dataset)"

definition envelope_failure :: "encryption_envelope \<Rightarrow> bytes \<Rightarrow> py_error option" where
  "envelope_failure env plain =
     (if ciphertext env = [] \<or> ciphertext env = plain then Some (ValueError ''cipher must return non-plaintext ciphertext'')
      else if blank (en_key_id env) \<or> blank (en_algorithm env) \<or> en_nonce env = []
        then Some (ValueError ''cipher envelope is incomplete'')
      else None)"

definition landing_guard :: "(landing_context \<Rightarrow> bool) \<Rightarrow> landing_request \<Rightarrow> (instant \<times> instant) result" where
  "landing_guard authorizer q =
     res_bind (to_utc (ValueError ''published_at must be timezone-aware'') (lq_published_at q)) (\<lambda>published.
     res_bind (to_utc (ValueError ''first_seen_at must be timezone-aware'') (lq_first_seen_at q)) (\<lambda>first.
       if published > first then Inl (ValueError ''published_at must be less than or equal to first_seen_at'')
       else if list_ex blank [lq_provider q, lq_dataset q, lq_logical_key q, lq_content_type q, lq_principal q, lq_purpose q]
         then Inl (ValueError ''landing fields must not be blank'')
       else if \<not> safe_component (lq_provider q) \<or> \<not> safe_component (lq_dataset q)
         then Inl (ValueError ''provider and dataset must be safe object-key components'')
       else if \<not> authorizer (write_context q) then Inl (LandingAccessDenied ''raw landing access denied'')
       else if lq_payload q = [] then Inl (ValueError ''payload must not be empty'')
       else Inr (published, first)))"

definition seal_object ::
  "landing_cipher \<Rightarrow> bytes \<Rightarrow> string \<Rightarrow> bytes \<Rightarrow> string \<Rightarrow> bytes \<Rightarrow> string \<Rightarrow> landing_state
     \<Rightarrow> encrypted_object result \<times> landing_state" where
  "seal_object cipher nonce key plain digest ad ctype s =
     (case store_get s key of
        Some stored \<Rightarrow> (Inr stored, s)
      | None \<Rightarrow>
          let env = cipher_encrypt cipher nonce plain ad in
          (case envelope_failure env plain of
             Some e \<Rightarrow> (Inl e, s)
           | None \<Rightarrow>
               let (stored, s') = put_if_absent s \<lparr>eo_object_key = key, eo_envelope = env, eo_content_type = ctype,
                     eo_plaintext_sha256 = digest\<rparr>
               in (Inr stored, s')))"

definition land ::
  "(bytes \<Rightarrow> string) \<Rightarrow> (landing_context \<Rightarrow> bool) \<Rightarrow> landing_cipher \<Rightarrow> bytes \<Rightarrow> landing_request \<Rightarrow> landing_state
     \<Rightarrow> landing_receipt result \<times> landing_state" where
  "land sha authorizer cipher nonce q s =
     (case landing_guard authorizer q of
        Inl e \<Rightarrow> (Inl e, s)
      | Inr (published, first) \<Rightarrow>
          let plain = lq_payload q; digest = sha plain; lid = landing_identity sha q first;
              key = object_key_of (lq_provider q) (lq_dataset q) lid
          in (case seal_object cipher nonce key plain digest
                     (associated_data lid (lq_provider q) (lq_dataset q)) (lq_content_type q) s of
                (Inl e, s') \<Rightarrow> (Inl e, s')
              | (Inr stored, s') \<Rightarrow>
                  if eo_object_key stored \<noteq> key \<or> eo_plaintext_sha256 stored \<noteq> digest \<or> eo_content_type stored \<noteq> lq_content_type q
                  then (Inl (ValueError ''immutable raw landing object conflict''), s')
                  else
                    let receipt = \<lparr>landing_id = lid, object_key = key, rc_provider = lq_provider q,
                          rc_dataset = lq_dataset q, logical_key_hash = sha (utf8 (lq_logical_key q)),
                          rc_published_at = published, rc_first_seen_at = first, plaintext_sha256 = digest,
                          rc_key_id = en_key_id (eo_envelope stored), rc_algorithm = en_algorithm (eo_envelope stored),
                          content_type = lq_content_type q\<rparr>
                    in (Inr receipt, sink_append s' receipt)))"

definition read_context :: "landing_receipt \<Rightarrow> string \<Rightarrow> string \<Rightarrow> landing_context" where
  "read_context r who purpose = \<lparr>lc_principal = who, lc_purpose = purpose, lc_operation = LO_READ,
     lc_provider = rc_provider r, lc_dataset = rc_dataset r\<rparr>"

definition matches_receipt :: "encrypted_object \<Rightarrow> landing_receipt \<Rightarrow> bool" where
  "matches_receipt stored r \<longleftrightarrow> eo_object_key stored = object_key r \<and> eo_plaintext_sha256 stored = plaintext_sha256 r
     \<and> eo_content_type stored = content_type r \<and> en_key_id (eo_envelope stored) = rc_key_id r
     \<and> en_algorithm (eo_envelope stored) = rc_algorithm r"

definition read_authorized ::
  "(bytes \<Rightarrow> string) \<Rightarrow> (landing_context \<Rightarrow> bool) \<Rightarrow> landing_cipher \<Rightarrow> landing_receipt \<Rightarrow> string \<Rightarrow> string \<Rightarrow> landing_state
     \<Rightarrow> bytes result" where
  "read_authorized sha authorizer cipher r who purpose s =
     (if \<not> authorizer (read_context r who purpose) then Inl (LandingAccessDenied ''raw landing access denied'')
      else case store_get s (object_key r) of
        None \<Rightarrow> Inl (KeyError ''encrypted landing object is unavailable'')
      | Some stored \<Rightarrow>
          if \<not> matches_receipt stored r then Inl (ValueError ''raw landing object metadata integrity check failed'')
          else res_bind (cipher_decrypt cipher (eo_envelope stored)
                 (associated_data (landing_id r) (rc_provider r) (rc_dataset r))) (\<lambda>plain.
            if sha plain \<noteq> plaintext_sha256 r then Inl (ValueError ''raw landing payload integrity check failed'')
            else Inr plain))"

section \<open>Object keys\<close>

lemma safe_component_no_slash: "safe_component x \<Longrightarrow> CHR ''/'' \<notin> set x"
  by (auto simp: safe_component_def list_all_iff safe_char_def Let_def)

lemma append_split_at:
  assumes "xs @ c # ys = xs' @ c # ys'" and "c \<notin> set xs" and "c \<notin> set xs'"
  shows "xs = xs' \<and> ys = ys'"
  using assms
proof (induction xs arbitrary: xs')
  case Nil
  then show ?case by (cases xs') auto
next
  case (Cons x xs)
  then show ?case by (cases xs') auto
qed

lemma object_key_inj:
  assumes "object_key_of p d i = object_key_of p' d' i'"
    and "safe_component p" "safe_component d" "safe_component p'" "safe_component d'"
  shows "p = p' \<and> d = d' \<and> i = i'"
proof -
  note ns = safe_component_no_slash [OF assms(2)] safe_component_no_slash [OF assms(3)]
    safe_component_no_slash [OF assms(4)] safe_component_no_slash [OF assms(5)]
  have "p @ CHR ''/'' # (d @ CHR ''/'' # i) = p' @ CHR ''/'' # (d' @ CHR ''/'' # i')"
    using assms(1) by (simp add: object_key_of_def)
  from append_split_at [OF this ns(1,3)] have "p = p'" "d @ CHR ''/'' # i = d' @ CHR ''/'' # i'" by simp_all
  with append_split_at [OF this(2) ns(2,4)] show ?thesis by simp
qed

section \<open>The store\<close>

lemma store_get_put:
  "store_get (snd (put_if_absent s v)) k =
     (case store_get s k of Some x \<Rightarrow> Some x | None \<Rightarrow> if k = eo_object_key v then Some v else None)"
  by (auto simp: put_if_absent_def store_get_def split: option.splits)

lemma store_get_sink [simp]: "store_get (sink_append s r) k = store_get s k"
  by (simp add: store_get_def sink_append_def)

text \<open>What every stored object is: filed under its own key, and decrypting, with the data associated with its
  key, to a payload of its digest.\<close>

definition object_ok :: "(bytes \<Rightarrow> string) \<Rightarrow> landing_cipher \<Rightarrow> string \<Rightarrow> encrypted_object \<Rightarrow> bool" where
  "object_ok sha cipher key v \<longleftrightarrow> eo_object_key v = key
     \<and> (\<exists>p d i x. safe_component p \<and> safe_component d \<and> key = object_key_of p d i
          \<and> cipher_decrypt cipher (eo_envelope v) (associated_data i p d) = Inr x \<and> sha x = eo_plaintext_sha256 v)"

definition landing_ok :: "(bytes \<Rightarrow> string) \<Rightarrow> landing_cipher \<Rightarrow> landing_state \<Rightarrow> bool" where
  "landing_ok sha cipher s \<longleftrightarrow> (\<forall>key v. store_get s key = Some v \<longrightarrow> object_ok sha cipher key v)"

definition objects_kept :: "landing_state \<Rightarrow> landing_state \<Rightarrow> bool" where
  "objects_kept s t \<longleftrightarrow> (\<forall>key v. store_get s key = Some v \<longrightarrow> store_get t key = Some v) \<and> prefix (ls_receipts s) (ls_receipts t)"

definition cipher_ok :: "landing_cipher \<Rightarrow> bool" where
  "cipher_ok cipher \<longleftrightarrow> (\<forall>n x ad. cipher_decrypt cipher (cipher_encrypt cipher n x ad) ad = Inr x)"

lemma local_cipher_ok:
  "(\<forall>n x ad. unaes key n (aes key n x ad) ad = Inr x) \<Longrightarrow> cipher_ok (local_cipher aes unaes key)"
  by (simp add: cipher_ok_def local_cipher_def local_encrypt_def local_decrypt_def)

lemma landing_guard_Inr:
  assumes "landing_guard authorizer q = Inr (p, f)"
  shows "lq_published_at q = Aware p" "lq_first_seen_at q = Aware f" "p \<le> f" "safe_component (lq_provider q)"
    "safe_component (lq_dataset q)" "authorizer (write_context q)" "lq_payload q \<noteq> []"
  using assms by (auto simp: landing_guard_def to_utc_Inr_iff split: if_splits)

lemma seal_object_cases:
  assumes "seal_object cipher nonce key plain digest ad ctype s = (r, s')"
  shows "(\<exists>e. r = Inl e \<and> s' = s)
    \<or> (\<exists>v. r = Inr v \<and> store_get s key = Some v \<and> s' = s)
    \<or> (\<exists>v. r = Inr v \<and> store_get s key = None \<and> s' = s\<lparr>ls_objects := AList.update key v (ls_objects s)\<rparr>
         \<and> v = \<lparr>eo_object_key = key, eo_envelope = cipher_encrypt cipher nonce plain ad, eo_content_type = ctype,
               eo_plaintext_sha256 = digest\<rparr> \<and> envelope_failure (eo_envelope v) plain = None)"
  using assms
  by (auto simp: seal_object_def Let_def put_if_absent_def split: option.splits prod.splits)

lemma land_cases:
  assumes "land sha authorizer cipher nonce q s = (r, s')"
  obtains (refused) e where "r = Inl e" "s' = s"
  | (landed) p f stored t where "landing_guard authorizer q = Inr (p, f)"
      "seal_object cipher nonce (object_key_of (lq_provider q) (lq_dataset q) (landing_identity sha q f)) (lq_payload q)
         (sha (lq_payload q)) (associated_data (landing_identity sha q f) (lq_provider q) (lq_dataset q)) (lq_content_type q) s
       = (Inr stored, t)"
      "eo_object_key stored = object_key_of (lq_provider q) (lq_dataset q) (landing_identity sha q f)"
      "eo_plaintext_sha256 stored = sha (lq_payload q)" "eo_content_type stored = lq_content_type q"
      "r = Inr \<lparr>landing_id = landing_identity sha q f, object_key = eo_object_key stored, rc_provider = lq_provider q,
          rc_dataset = lq_dataset q, logical_key_hash = sha (utf8 (lq_logical_key q)), rc_published_at = p,
          rc_first_seen_at = f, plaintext_sha256 = sha (lq_payload q), rc_key_id = en_key_id (eo_envelope stored),
          rc_algorithm = en_algorithm (eo_envelope stored), content_type = lq_content_type q\<rparr>"
      "s' = sink_append t (case r of Inr x \<Rightarrow> x)"
proof (cases "landing_guard authorizer q")
  case (Inl e)
  with assms have "r = Inl e" "s' = s" by (simp_all add: land_def)
  then show thesis by (rule refused)
next
  case (Inr pf)
  obtain p f where pf: "pf = (p, f)" by (cases pf) auto
  obtain x t where seal: "seal_object cipher nonce (object_key_of (lq_provider q) (lq_dataset q) (landing_identity sha q f)) (lq_payload q)
         (sha (lq_payload q)) (associated_data (landing_identity sha q f) (lq_provider q) (lq_dataset q)) (lq_content_type q) s
       = (x, t)" by (cases "seal_object cipher nonce (object_key_of (lq_provider q) (lq_dataset q) (landing_identity sha q f)) (lq_payload q)
         (sha (lq_payload q)) (associated_data (landing_identity sha q f) (lq_provider q) (lq_dataset q)) (lq_content_type q) s") auto
  show thesis
  proof (cases x)
    case e: (Inl e)
    with seal_object_cases [OF seal] have "t = s" by auto
    with assms Inr pf seal e have "r = Inl e" "s' = s" by (simp_all add: land_def Let_def)
    then show thesis by (rule refused)
  next
    case v: (Inr stored)
    show thesis
    proof (cases "eo_object_key stored = object_key_of (lq_provider q) (lq_dataset q) (landing_identity sha q f)
        \<and> eo_plaintext_sha256 stored = sha (lq_payload q) \<and> eo_content_type stored = lq_content_type q")
      case True
      show thesis
        by (rule landed [OF Inr [unfolded pf] seal [unfolded v]])
           (use True assms Inr pf seal v in \<open>auto simp: land_def Let_def\<close>)
    next
      case False
      with seal_object_cases [OF seal] v have "t = s" by auto
      with assms Inr pf seal v False have "r = Inl (ValueError ''immutable raw landing object conflict'')" "s' = s"
        by (auto simp: land_def Let_def split: if_splits)
      then show thesis by (rule refused)
    qed
  qed
qed

section \<open>Histories\<close>

type_synonym landing_step = "bytes \<times> landing_request"

definition landing_run :: "(bytes \<Rightarrow> string) \<Rightarrow> (landing_context \<Rightarrow> bool) \<Rightarrow> landing_cipher \<Rightarrow> landing_state \<Rightarrow> landing_step \<Rightarrow> landing_state" where
  "landing_run sha authorizer cipher s e = (case e of (nonce, q) \<Rightarrow> snd (land sha authorizer cipher nonce q s))"

definition empty_landing :: landing_state where
  "empty_landing = \<lparr>ls_objects = [], ls_receipts = []\<rparr>"

lemma landed_object:
  assumes land: "land sha authorizer cipher nonce q s = (Inr r, s')" and cipher: "cipher_ok cipher"
    and ok: "landing_ok sha cipher s"
  shows "landing_ok sha cipher s' \<and> objects_kept s s'
    \<and> (\<exists>v. store_get s' (object_key r) = Some v \<and> matches_receipt v r
         \<and> (\<exists>x. cipher_decrypt cipher (eo_envelope v) (associated_data (landing_id r) (rc_provider r) (rc_dataset r)) = Inr x
                \<and> sha x = plaintext_sha256 r))"
  using land
proof (cases rule: land_cases)
  case (landed p f stored t)
  let ?i = "landing_identity sha q f" and ?p = "lq_provider q" and ?d = "lq_dataset q"
  have safe: "safe_component ?p" "safe_component ?d" using landing_guard_Inr [OF landed(1)] by simp_all
  have get: "store_get t k = (if k = object_key_of ?p ?d ?i then Some stored else store_get s k)"
    and okv: "object_ok sha cipher (object_key_of ?p ?d ?i) stored" and rs: "ls_receipts t = ls_receipts s" for k
  proof -
    consider (old) "store_get s (object_key_of ?p ?d ?i) = Some stored" "t = s"
      | (new) "store_get s (object_key_of ?p ?d ?i) = None"
          "t = s\<lparr>ls_objects := AList.update (object_key_of ?p ?d ?i) stored (ls_objects s)\<rparr>"
          "eo_envelope stored = cipher_encrypt cipher nonce (lq_payload q) (associated_data ?i ?p ?d)"
      using seal_object_cases [OF landed(2)] by auto
    then have "store_get t k = (if k = object_key_of ?p ?d ?i then Some stored else store_get s k)
        \<and> object_ok sha cipher (object_key_of ?p ?d ?i) stored \<and> ls_receipts t = ls_receipts s"
    proof cases
      case old
      with ok show ?thesis by (simp add: landing_ok_def)
    next
      case new
      have "cipher_decrypt cipher (eo_envelope stored) (associated_data ?i ?p ?d) = Inr (lq_payload q)"
        using cipher new(3) by (simp add: cipher_ok_def)
      then have "object_ok sha cipher (object_key_of ?p ?d ?i) stored"
        unfolding object_ok_def using landed(3,4) safe
        by (intro conjI exI [of _ ?p] exI [of _ ?d] exI [of _ ?i] exI [of _ "lq_payload q"]) simp_all
      with new(2) show ?thesis by (simp add: store_get_def)
    qed
    then show "store_get t k = (if k = object_key_of ?p ?d ?i then Some stored else store_get s k)"
      "object_ok sha cipher (object_key_of ?p ?d ?i) stored" "ls_receipts t = ls_receipts s" by simp_all
  qed
  have kept: "objects_kept s t"
    unfolding objects_kept_def rs
  proof (intro conjI allI impI)
    fix k v assume "store_get s k = Some v"
    moreover have "store_get s (object_key_of ?p ?d ?i) = None \<or> store_get s (object_key_of ?p ?d ?i) = Some stored"
      using seal_object_cases [OF landed(2)] by auto
    ultimately show "store_get t k = Some v" by (auto simp: get)
  qed simp
  have r: "object_key r = object_key_of ?p ?d ?i" "landing_id r = ?i" "rc_provider r = ?p" "rc_dataset r = ?d"
    "matches_receipt stored r" "plaintext_sha256 r = eo_plaintext_sha256 stored" "s' = sink_append t r"
    using landed(3-7) by (auto simp: matches_receipt_def)
  obtain p' d' i' x where x: "safe_component p'" "safe_component d'" "object_key_of ?p ?d ?i = object_key_of p' d' i'"
      "cipher_decrypt cipher (eo_envelope stored) (associated_data i' p' d') = Inr x" "sha x = eo_plaintext_sha256 stored"
    using okv by (auto simp: object_ok_def)
  from object_key_inj [OF x(3) safe x(1,2)] x(4,5)
  have "cipher_decrypt cipher (eo_envelope stored) (associated_data ?i ?p ?d) = Inr x" "sha x = plaintext_sha256 r"
    by (simp_all add: r(6))
  moreover have "landing_ok sha cipher s'" using ok okv by (simp add: landing_ok_def r(7) get)
  moreover have "objects_kept s s'"
    using kept by (auto simp: objects_kept_def r(7) sink_append_def store_get_def)
  ultimately show ?thesis using get r(1-5,7) by auto
qed simp

lemma landing_run_ok: "cipher_ok cipher \<Longrightarrow> landing_ok sha cipher s \<Longrightarrow>
    landing_ok sha cipher (landing_run sha authorizer cipher s e) \<and> objects_kept s (landing_run sha authorizer cipher s e)"
proof -
  assume a: "cipher_ok cipher" "landing_ok sha cipher s"
  obtain nonce q where e: "e = (nonce, q)" by (cases e) auto
  obtain r s' where l: "land sha authorizer cipher nonce q s = (r, s')" by (cases "land sha authorizer cipher nonce q s") auto
  show ?thesis
  proof (cases r)
    case (Inl x)
    from l have "s' = s" by (rule land_cases) (auto simp: Inl)
    with l a(2) e show ?thesis by (simp add: landing_run_def objects_kept_def)
  next
    case (Inr x)
    from landed_object [OF l [unfolded Inr] a] l e show ?thesis by (simp add: landing_run_def)
  qed
qed

interpretation landing: evolving "landing_run sha authorizer cipher" "\<lambda>s. cipher_ok cipher \<and> landing_ok sha cipher s" objects_kept
    for sha authorizer cipher
  by unfold_locales (use landing_run_ok in \<open>auto simp: objects_kept_def\<close>)

section \<open>Properties\<close>

lemma empty_landing_ok [simp]: "landing_ok sha cipher empty_landing"
  by (simp add: landing_ok_def empty_landing_def store_get_def)

lemma land_receipt:
  assumes "land sha authorizer cipher nonce q s = (Inr r, s')"
  shows "plaintext_sha256 r = sha (lq_payload q)" "authorizer (write_context q)" "rc_published_at r \<le> rc_first_seen_at r"
    "ls_receipts s' = ls_receipts s @ [r]" "rc_provider r = lq_provider q" "rc_dataset r = lq_dataset q"
proof -
  from assms have "plaintext_sha256 r = sha (lq_payload q) \<and> authorizer (write_context q) \<and> rc_published_at r \<le> rc_first_seen_at r
      \<and> ls_receipts s' = ls_receipts s @ [r] \<and> rc_provider r = lq_provider q \<and> rc_dataset r = lq_dataset q"
  proof (cases rule: land_cases)
    case (landed p f stored t)
    then show ?thesis
      using landing_guard_Inr [OF landed(1)] seal_object_cases [OF landed(2)]
      by (auto simp: sink_append_def)
  qed simp
  then show "plaintext_sha256 r = sha (lq_payload q)" "authorizer (write_context q)" "rc_published_at r \<le> rc_first_seen_at r"
    "ls_receipts s' = ls_receipts s @ [r]" "rc_provider r = lq_provider q" "rc_dataset r = lq_dataset q" by simp_all
qed

lemma land_receipt_fields:
  assumes "land sha authorizer cipher nonce q s = (Inr r, s')"
    and "lq_published_at q = Aware published" and "lq_first_seen_at q = Aware first"
  shows "landing_id r = landing_identity sha q first"
    "object_key r = object_key_of (lq_provider q) (lq_dataset q) (landing_id r)"
    "logical_key_hash r = sha (utf8 (lq_logical_key q))" "content_type r = lq_content_type q"
    "rc_published_at r = published" "rc_first_seen_at r = first"
proof -
  from assms(1) obtain p f where g: "landing_guard authorizer q = Inr (p, f)" and r: "landing_id r = landing_identity sha q f"
      "object_key r = object_key_of (lq_provider q) (lq_dataset q) (landing_id r)"
      "logical_key_hash r = sha (utf8 (lq_logical_key q))" "content_type r = lq_content_type q"
      "rc_published_at r = p" "rc_first_seen_at r = f"
    by (cases rule: land_cases) auto
  from landing_guard_Inr(1,2) [OF g] assms(2,3) have "p = published" "f = first" by simp_all
  with r show "landing_id r = landing_identity sha q first"
    "object_key r = object_key_of (lq_provider q) (lq_dataset q) (landing_id r)"
    "logical_key_hash r = sha (utf8 (lq_logical_key q))" "content_type r = lq_content_type q"
    "rc_published_at r = published" "rc_first_seen_at r = first" by simp_all
qed

text \<open>A digest without collisions and a cipher that undoes itself, to show that both can hold.\<close>

definition demo_sha :: "bytes \<Rightarrow> string" where "demo_sha x = x"

definition demo_cipher :: landing_cipher where
  "demo_cipher = local_cipher (\<lambda>key n x ad. CHR ''#'' # x) (\<lambda>key n x ad. Inr (tl x)) ''k''"

definition demo_landing :: landing_request where
  "demo_landing = \<lparr>lq_provider = ''databento'', lq_dataset = ''GLBX.MDP3'', lq_logical_key = ''day'', lq_published_at = Aware 5,
     lq_first_seen_at = Aware 9, lq_payload = ''rows'', lq_content_type = ''text/csv'', lq_principal = ''ingest'', lq_purpose = ''pull''\<rparr>"

definition demo_allowed :: "landing_context \<Rightarrow> bool" where
  "demo_allowed = static_authorize [(''ingest'', ''pull'')]"

lemma demo_cipher_ok: "cipher_ok demo_cipher"
  unfolding demo_cipher_def by (rule local_cipher_ok) simp

lemma demo_lands:
  "\<exists>r s. land demo_sha demo_allowed demo_cipher ''n'' demo_landing empty_landing = (Inr r, s)"
proof -
  have guard: "landing_guard demo_allowed demo_landing = Inr (5, 9)"
    by (simp add: landing_guard_def demo_landing_def demo_allowed_def static_authorize_def write_context_def
        blank_iff is_space_def safe_component_def safe_char_def)
  have "envelope_failure (cipher_encrypt demo_cipher ''n'' (lq_payload demo_landing) ad) (lq_payload demo_landing) = None" for ad
    by (simp add: envelope_failure_def demo_cipher_def local_cipher_def local_encrypt_def demo_landing_def
        LOCAL_KEY_ID_def LOCAL_ALGORITHM_def blank_iff is_space_def)
  with guard show ?thesis
    by (simp add: land_def Let_def seal_object_def store_get_def empty_landing_def put_if_absent_def)
qed

lemma landed_reads_back:
  assumes "inj sha" and "cipher_ok cipher" and "landing_ok sha cipher s0"
    and "land sha authorizer cipher nonce q s0 = (Inr r, s)"
  shows "read_authorized sha authorizer cipher r who purpose s =
    (if authorizer (read_context r who purpose) then Inr (lq_payload q)
     else Inl (LandingAccessDenied ''raw landing access denied''))"
    and "landing_ok sha cipher s"
    and "objects_kept s t \<Longrightarrow> read_authorized sha authorizer cipher r who purpose t =
      read_authorized sha authorizer cipher r who purpose s"
proof -
  from landed_object [OF assms(4,2,3)] obtain v x where v: "landing_ok sha cipher s" "store_get s (object_key r) = Some v"
      "matches_receipt v r" "sha x = plaintext_sha256 r"
      "cipher_decrypt cipher (eo_envelope v) (associated_data (landing_id r) (rc_provider r) (rc_dataset r)) = Inr x"
    by blast
  have "sha x = sha (lq_payload q)" using v(4) land_receipt(1) [OF assms(4)] by simp
  then have "x = lq_payload q" using assms(1) by (simp add: inj_eq)
  with v show "read_authorized sha authorizer cipher r who purpose s =
    (if authorizer (read_context r who purpose) then Inr (lq_payload q)
     else Inl (LandingAccessDenied ''raw landing access denied''))" by (simp add: read_authorized_def)
  show "landing_ok sha cipher s" by (rule v(1))
  show "read_authorized sha authorizer cipher r who purpose t = read_authorized sha authorizer cipher r who purpose s"
    if "objects_kept s t"
    using that v(2) by (simp add: objects_kept_def read_authorized_def)
qed

text \<open>C22. What was landed can be read back: after any history of landings, and whatever is landed later, reading
  with the receipt of a landing returns exactly the payload that was landed to an authorised reader and
  denies every other.\<close>

theorem landing_roundtrip:
  assumes "inj sha" and "cipher_ok cipher"
    and "land sha authorizer cipher nonce q (foldl (landing_run sha authorizer cipher) empty_landing before) = (Inr r, s)"
  shows "read_authorized sha authorizer cipher r who purpose (foldl (landing_run sha authorizer cipher) s later) =
    (if authorizer (read_context r who purpose) then Inr (lq_payload q)
     else Inl (LandingAccessDenied ''raw landing access denied''))"
proof -
  have "landing_ok sha cipher (foldl (landing_run sha authorizer cipher) empty_landing before)"
    using landing.run_inv [of cipher sha empty_landing authorizer before] assms(2) by simp
  note reads = landed_reads_back [OF assms(1,2) this assms(3)]
  have "objects_kept s (foldl (landing_run sha authorizer cipher) s later)"
    using landing.run_rel [of cipher sha s authorizer later] reads(2) assms(2) by simp
  from reads(3) [OF this] reads(1) show ?thesis by simp
qed

theorem landing_roundtrip_witness:
  "\<exists>r s. land demo_sha demo_allowed demo_cipher ''n'' demo_landing empty_landing = (Inr r, s)
     \<and> read_authorized demo_sha demo_allowed demo_cipher r ''ingest'' ''pull'' s = Inr ''rows''
     \<and> \<not> is_ok (read_authorized demo_sha demo_allowed demo_cipher r ''guest'' ''pull'' s)"
proof -
  obtain r s where r: "land demo_sha demo_allowed demo_cipher ''n'' demo_landing empty_landing = (Inr r, s)"
    using demo_lands by blast
  have sha: "inj demo_sha" by (simp add: demo_sha_def inj_def)
  have l: "land demo_sha demo_allowed demo_cipher ''n'' demo_landing
      (foldl (landing_run demo_sha demo_allowed demo_cipher) empty_landing []) = (Inr r, s)" using r by simp
  show ?thesis
    using landing_roundtrip [OF sha demo_cipher_ok l, of "''ingest''" "''pull''" "[]"]
      landing_roundtrip [OF sha demo_cipher_ok l, of "''guest''" "''pull''" "[]"] r
    by (auto simp: demo_allowed_def static_authorize_def read_context_def demo_landing_def)
qed

text \<open>The landing fails closed and its reads are authentic: a refused landing changes nothing; an accepted one
  was authorised, with its publication not after its first sight, and appends one receipt; and whatever
  becomes of the stored objects and with any cipher, a read with that receipt that returns at all is
  authorised and returns the payload that was landed.\<close>

theorem landing_fails_closed:
  assumes "inj sha" and "land sha authorizer cipher nonce q s = (answer, s')"
  shows "case answer of
     Inl e \<Rightarrow> s' = s
   | Inr r \<Rightarrow> authorizer (write_context q) \<and> rc_published_at r \<le> rc_first_seen_at r \<and> ls_receipts s' = ls_receipts s @ [r]
       \<and> (\<forall>gate decipher who purpose tampered. case read_authorized sha gate decipher r who purpose tampered of
            Inl e \<Rightarrow> True
          | Inr plain \<Rightarrow> plain = lq_payload q \<and> gate (read_context r who purpose))"
proof (cases answer)
  case (Inl e)
  from assms(2) have "s' = s" by (rule land_cases) (auto simp: Inl)
  with Inl show ?thesis by simp
next
  case (Inr r)
  note f = land_receipt [OF assms(2) [unfolded Inr]]
  have "case read_authorized sha gate decipher r who purpose tampered of
            Inl e \<Rightarrow> True | Inr plain \<Rightarrow> plain = lq_payload q \<and> gate (read_context r who purpose)"
    for gate decipher who purpose tampered
  proof (cases "read_authorized sha gate decipher r who purpose tampered")
    case (Inr plain)
    then have "sha plain = plaintext_sha256 r" "gate (read_context r who purpose)"
      by (auto simp: read_authorized_def split: if_splits option.splits)
    with f(1) assms(1) Inr show ?thesis by (simp add: inj_eq)
  qed simp
  with f(2-4) Inr show ?thesis by simp
qed

theorem landing_fails_closed_witness:
  "\<exists>r s. land demo_sha demo_allowed demo_cipher ''n'' demo_landing empty_landing = (Inr r, s) \<and> ls_receipts s = [r]
     \<and> demo_allowed (write_context demo_landing)"
proof -
  obtain r s where r: "land demo_sha demo_allowed demo_cipher ''n'' demo_landing empty_landing = (Inr r, s)"
    using demo_lands by blast
  have "inj demo_sha" by (simp add: demo_sha_def inj_def)
  from landing_fails_closed [OF this r] r show ?thesis by (auto simp: empty_landing_def)
qed

end
