(* ===== verification/IngestPipeline.thy ===== *)
theory IngestPipeline
  imports RawLanding BatchLedger CostLedger Strikes
begin

text \<open>
  Cost-gated licensed history pulls (\<open>ingest/pipeline.py\<close>) with their requests (\<open>DayPull\<close> of
  \<open>adapters/databento.py\<close>), over the landing service, the file of batch records and the cost ledger.
  The gateway and the chain resolver are protocols: what they answer to a pull, the clock and the
  nonces drawn are fields of an oracle, one for each pull of a plan or a run, so that answers may differ
  from call to call.  \<open>bsha\<close> is the digest of bytes, \<open>fr\<close> the text \<open>json\<close> prints for a float.
\<close>

section \<open>Requests\<close>

record day_pull =
  dp_dataset :: string
  dp_schema :: string
  dp_day :: pydate
  dp_stype_in :: string
  dp_symbols :: "string list"
  dp_scope :: string

definition SUPPORTED_STYPES :: "string list" where
  "SUPPORTED_STYPES = [''parent'', ''raw_symbol'', ''continuous'']"

definition mk_day_pull :: "day_pull \<Rightarrow> day_pull result" where
  "mk_day_pull p =
     (if blank (dp_dataset p) then Inl (ValueError ''dataset must not be blank'')
      else if blank (dp_schema p) then Inl (ValueError ''schema must not be blank'')
      else if blank (dp_scope p) then Inl (ValueError ''scope must not be blank'')
      else if dp_stype_in p \<notin> set SUPPORTED_STYPES then Inl (ValueError ''stype_in must be a supported type'')
      else if dp_symbols p = [] \<or> list_ex blank (dp_symbols p)
        then Inl (ValueError ''symbols must contain at least one non-blank symbol'')
      else Inr p)"

definition pull_key :: "day_pull \<Rightarrow> string" where
  "pull_key p = dp_dataset p @ ''/'' @ dp_schema p @ ''/'' @ dp_scope p @ ''/'' @ iso_date (dp_day p)"

definition spxw_definitions_pull :: "pydate \<Rightarrow> day_pull result" where
  "spxw_definitions_pull d = mk_day_pull \<lparr>dp_dataset = ''OPRA.PILLAR'', dp_schema = ''definition'', dp_day = d,
     dp_stype_in = ''parent'', dp_symbols = [''SPXW.OPT''], dp_scope = ''spxw-definitions''\<rparr>"

definition SPXW_0DTE_SCOPE :: string where "SPXW_0DTE_SCOPE = ''spxw-0dte''"

section \<open>Counting the rows of a definition file\<close>

text \<open>\<open>bytes.decode("utf-8")\<close>, as code points; \<open>None\<close> where it raises.\<close>

definition continuation :: "nat \<Rightarrow> bool" where
  "continuation b \<longleftrightarrow> 128 \<le> b \<and> b < 192"

fun utf8_decode :: "nat list \<Rightarrow> nat list option" where
  "utf8_decode [] = Some []"
| "utf8_decode (b # bs) =
     (if b < 128 then map_option (Cons b) (utf8_decode bs)
      else if 194 \<le> b \<and> b < 224 then
        (case bs of c # r \<Rightarrow>
           if continuation c then map_option (Cons ((b - 192) * 64 + (c - 128))) (utf8_decode r) else None
         | _ \<Rightarrow> None)
      else if 224 \<le> b \<and> b < 240 then
        (case bs of c # d # r \<Rightarrow>
           let cp = (b - 224) * 4096 + (c - 128) * 64 + (d - 128) in
           if continuation c \<and> continuation d \<and> 2048 \<le> cp \<and> \<not> (55296 \<le> cp \<and> cp < 57344)
           then map_option (Cons cp) (utf8_decode r) else None
         | _ \<Rightarrow> None)
      else if 240 \<le> b \<and> b < 245 then
        (case bs of c # d # e # r \<Rightarrow>
           let cp = (b - 240) * 262144 + (c - 128) * 4096 + (d - 128) * 64 + (e - 128) in
           if continuation c \<and> continuation d \<and> continuation e \<and> 65536 \<le> cp \<and> cp < 1114112
           then map_option (Cons cp) (utf8_decode r) else None
         | _ \<Rightarrow> None)
      else None)"

text \<open>\<open>len(text.splitlines())\<close>; the flag says that the current line has begun.\<close>

definition line_break :: "nat \<Rightarrow> bool" where
  "line_break c \<longleftrightarrow> c \<in> {10, 11, 12, 13, 28, 29, 30, 133, 8232, 8233}"

fun count_lines :: "bool \<Rightarrow> nat list \<Rightarrow> nat" where
  "count_lines begun [] = (if begun then 1 else 0)"
| "count_lines begun (c # cs) =
     (if c = 13 \<and> take 1 cs = [10] then 1 + count_lines False (tl cs)
      else if line_break c then 1 + count_lines False cs
      else count_lines True cs)"

definition row_count :: "bytes \<Rightarrow> int result" where
  "row_count payload = (case utf8_decode (map of_char payload) of
       None \<Rightarrow> Inl (ValueError ''invalid utf-8'')
     | Some text \<Rightarrow> Inr (max (int (count_lines False text) - 1) 0))"

section \<open>Plans and reports\<close>

datatype day_status = LANDED | SKIPPED_PRESENT | NOT_DUE | GAP | EMPTY_CHAIN

record planned_day =
  pd_pull :: day_pull
  pd_estimated_usd :: rat

record pull_outcome =
  po_logical_key :: string
  po_status :: day_status
  po_detail :: string

record pull_plan =
  pp_plan_id :: string
  pp_created_at :: instant
  pp_ceiling_usd :: rat
  pp_total_estimated_usd :: rat
  pp_items :: "planned_day list"
  pp_empty_chain_outcomes :: "pull_outcome list"

record pull_report =
  pr_plan_id :: string
  pr_started_at :: instant
  pr_finished_at :: instant
  pr_outcomes :: "pull_outcome list"

definition report_count :: "pull_report \<Rightarrow> day_status \<Rightarrow> nat" where
  "report_count r st = length (filter (\<lambda>p. po_status p = st) (pr_outcomes r))"

record ingest_state =
  is_landing :: landing_state
  is_pit :: batch_file
  is_costs :: "cost_entry list"
  is_reports :: "pull_report list"

text \<open>What the pipeline is built with.\<close>

record ingest_env =
  ie_bsha :: "bytes \<Rightarrow> string"
  ie_fr :: "rat \<Rightarrow> string"
  ie_authorizer :: "landing_context \<Rightarrow> bool"
  ie_cipher :: landing_cipher
  ie_et_utc :: "pydate \<Rightarrow> int \<Rightarrow> instant"
  ie_report_path :: bool

definition text_sha :: "ingest_env \<Rightarrow> string \<Rightarrow> string" where
  "text_sha env t = ie_bsha env (utf8 t)"

text \<open>The last second of a day in New York, as UTC.\<close>

definition day_end :: "ingest_env \<Rightarrow> pydate \<Rightarrow> instant" where
  "day_end env d = ie_et_utc env d 86399000000"

section \<open>Landing a batch\<close>

text \<open>Both callers land a payload and append the record that names it.\<close>

definition batch_content :: "ingest_env \<Rightarrow> day_pull \<Rightarrow> landing_receipt \<Rightarrow> int option \<Rightarrow> rat \<Rightarrow> (string, pyval) dict" where
  "batch_content env p receipt rows usd =
     [(''dataset'', PStr (dp_dataset p)), (''schema'', PStr (dp_schema p)), (''day'', PStr (iso_date (dp_day p))),
      (''scope'', PStr (dp_scope p)), (''object_key'', PStr (object_key receipt)),
      (''plaintext_sha256'', PStr (plaintext_sha256 receipt)),
      (''record_count'', (case rows of None \<Rightarrow> PNone | Some n \<Rightarrow> PInt n)),
      (''estimated_usd'', PFloat usd (ie_fr env usd))]"

definition landing_of :: "day_pull \<Rightarrow> bytes \<Rightarrow> instant \<Rightarrow> instant \<Rightarrow> string \<Rightarrow> landing_request" where
  "landing_of p payload published seen ctype =
     \<lparr>lq_provider = ''databento'', lq_dataset = dp_dataset p, lq_logical_key = pull_key p, lq_published_at = Aware published,
      lq_first_seen_at = Aware seen, lq_payload = payload, lq_content_type = ctype, lq_principal = ''ingest-pipeline'',
      lq_purpose = ''licensed-history-pull''\<rparr>"

definition append_batch ::
  "ingest_env \<Rightarrow> day_pull \<Rightarrow> landing_receipt \<Rightarrow> int option \<Rightarrow> rat \<Rightarrow> instant \<Rightarrow> instant \<Rightarrow> ingest_state
     \<Rightarrow> pit_record result \<times> ingest_state" where
  "append_batch env p receipt rows usd published seen s =
     (case pit_create (text_sha env) (pull_key p) (Aware published) (Aware seen) ''databento'' ''databento-historical-v1''
             (dp_schema p) (batch_content env p receipt rows usd) of
        Inl e \<Rightarrow> (Inl e, s)
      | Inr r \<Rightarrow> (case batch_append (text_sha env) (is_pit s) r of
            (Inl e, f) \<Rightarrow> (Inl e, s\<lparr>is_pit := f\<rparr>)
          | (Inr _, f) \<Rightarrow> (Inr r, s\<lparr>is_pit := f\<rparr>)))"

definition land_batch ::
  "ingest_env \<Rightarrow> bytes \<Rightarrow> day_pull \<Rightarrow> bytes \<Rightarrow> instant \<Rightarrow> instant \<Rightarrow> string \<Rightarrow> ingest_state
     \<Rightarrow> landing_receipt result \<times> ingest_state" where
  "land_batch env nonce p payload published seen ctype s =
     (case land (ie_bsha env) (ie_authorizer env) (ie_cipher env) nonce (landing_of p payload published seen ctype) (is_landing s) of
        (r, l) \<Rightarrow> (r, s\<lparr>is_landing := l\<rparr>))"

section \<open>Running a plan\<close>

record day_oracle =
  or_now :: instant
  or_nonce :: bytes
  or_download :: "day_pull \<Rightarrow> bytes result"
  or_record_count :: "day_pull \<Rightarrow> int result"

definition outcome :: "string \<Rightarrow> day_status \<Rightarrow> string \<Rightarrow> pull_outcome" where
  "outcome key st detail = \<lparr>po_logical_key = key, po_status = st, po_detail = detail\<rparr>"

definition run_landed :: "ingest_env \<Rightarrow> day_oracle \<Rightarrow> day_pull \<Rightarrow> rat \<Rightarrow> bytes \<Rightarrow> ingest_state \<Rightarrow> pull_outcome result \<times> ingest_state" where
  "run_landed env w p usd payload s =
     (case land_batch env (or_nonce w) p payload (day_end env (dp_day p)) (or_now w) ''application/x-dbn'' s of
        (Inl e, s1) \<Rightarrow> (Inl e, s1)
      | (Inr receipt, s1) \<Rightarrow>
          (case (case or_record_count w p of
                   Inr n \<Rightarrow> Inr (Some n) | Inl (DatabentoApiError _) \<Rightarrow> Inr None | Inl e \<Rightarrow> Inl e) of
             Inl e \<Rightarrow> (Inl e, s1)
           | Inr rows \<Rightarrow>
               (case append_batch env p receipt rows usd (day_end env (dp_day p)) (or_now w) s1 of
                  (Inl e, s2) \<Rightarrow> (Inl e, s2)
                | (Inr r, s2) \<Rightarrow> (Inr (outcome (pull_key p) LANDED (record_id r)), s2))))"

definition run_day :: "ingest_env \<Rightarrow> day_oracle \<Rightarrow> day_pull \<Rightarrow> rat \<Rightarrow> ingest_state \<Rightarrow> pull_outcome result \<times> ingest_state" where
  "run_day env w p usd s =
     (case batch_find (text_sha env) (is_pit s) (pull_key p) of
        Inl e \<Rightarrow> (Inl e, s)
      | Inr (Some _) \<Rightarrow> (Inr (outcome (pull_key p) SKIPPED_PRESENT ''already landed''), s)
      | Inr None \<Rightarrow>
          if day_end env (dp_day p) > or_now w
          then (Inr (outcome (pull_key p) NOT_DUE ''day has not closed yet''), s)
          else (case or_download w p of
              Inl (DatabentoApiError c) \<Rightarrow> (Inr (outcome (pull_key p) GAP (''download failed ('' @ c @ '')'')), s)
            | Inl e \<Rightarrow> (Inl e, s)
            | Inr payload \<Rightarrow> run_landed env w p usd payload s))"

fun run_items ::
  "ingest_env \<Rightarrow> (nat \<Rightarrow> day_oracle) \<Rightarrow> nat \<Rightarrow> planned_day list \<Rightarrow> pull_outcome list \<Rightarrow> ingest_state
     \<Rightarrow> pull_outcome list result \<times> ingest_state" where
  "run_items env w i [] outs s = (Inr outs, s)"
| "run_items env w i (d # ds) outs s =
     (case run_day env (w i) (pd_pull d) (pd_estimated_usd d) s of
        (Inl e, s') \<Rightarrow> (Inl e, s')
      | (Inr x, s') \<Rightarrow> run_items env w (Suc i) ds (outs @ [x]) s')"

definition persist_report :: "ingest_env \<Rightarrow> pull_report \<Rightarrow> ingest_state \<Rightarrow> ingest_state" where
  "persist_report env r s = (if \<not> ie_report_path env then s else s\<lparr>is_reports := is_reports s @ [r]\<rparr>)"

definition run_plan ::
  "ingest_env \<Rightarrow> (nat \<Rightarrow> day_oracle) \<Rightarrow> instant \<Rightarrow> instant \<Rightarrow> pull_plan \<Rightarrow> ingest_state \<Rightarrow> pull_report result \<times> ingest_state" where
  "run_plan env w started finished plan s =
     (case run_items env w 0 (pp_items plan) [] s of
        (Inl e, s') \<Rightarrow> (Inl e, s')
      | (Inr outs, s') \<Rightarrow>
          let report = \<lparr>pr_plan_id = pp_plan_id plan, pr_started_at = started, pr_finished_at = finished,
                pr_outcomes = outs @ pp_empty_chain_outcomes plan\<rparr>
          in (Inr report, persist_report env report s'))"

section \<open>Building a plan\<close>

record plan_oracle =
  pl_estimate :: "day_pull \<Rightarrow> rat result"
  pl_symbols :: "pydate \<Rightarrow> string list result"
  pl_payload :: "pydate \<Rightarrow> bytes result"
  pl_now :: instant
  pl_nonce :: bytes

definition land_definitions :: "ingest_env \<Rightarrow> plan_oracle \<Rightarrow> day_pull \<Rightarrow> bytes \<Rightarrow> rat \<Rightarrow> ingest_state \<Rightarrow> unit result \<times> ingest_state" where
  "land_definitions env w p payload usd s =
     (case batch_find (text_sha env) (is_pit s) (pull_key p) of
        Inl e \<Rightarrow> (Inl e, s)
      | Inr (Some _) \<Rightarrow> (Inr (), s)
      | Inr None \<Rightarrow>
          if day_end env (dp_day p) > pl_now w then (Inr (), s)
          else (case land_batch env (pl_nonce w) p payload (day_end env (dp_day p)) (pl_now w) ''text/csv'' s of
              (Inl e, s1) \<Rightarrow> (Inl e, s1)
            | (Inr receipt, s1) \<Rightarrow>
                (case row_count payload of
                   Inl e \<Rightarrow> (Inl e, s1)
                 | Inr n \<Rightarrow>
                     (case append_batch env p receipt (Some n) usd (day_end env (dp_day p)) (pl_now w) s1 of
                        (Inl e, s2) \<Rightarrow> (Inl e, s2)
                      | (Inr _, s2) \<Rightarrow> (Inr (), s2)))))"

text \<open>The resolved pull, or \<open>None\<close> for an empty chain, and the estimate of the definitions.\<close>

definition resolve_zero_dte ::
  "ingest_env \<Rightarrow> plan_oracle \<Rightarrow> day_pull \<Rightarrow> ingest_state \<Rightarrow> (day_pull option \<times> rat) result \<times> ingest_state" where
  "resolve_zero_dte env w p s =
     (case res_bind (spxw_definitions_pull (dp_day p)) (\<lambda>definitions.
           res_bind (pl_estimate w definitions) (\<lambda>usd.
           res_bind (pl_symbols w (dp_day p)) (\<lambda>symbols.
           res_bind (pl_payload w (dp_day p)) (\<lambda>payload. Inr (definitions, usd, symbols, payload))))) of
        Inl e \<Rightarrow> (Inl e, s)
      | Inr (definitions, usd, symbols, payload) \<Rightarrow>
          (case land_definitions env w definitions payload usd s of
             (Inl e, s') \<Rightarrow> (Inl e, s')
           | (Inr _, s') \<Rightarrow>
               if symbols = [] then (Inr (None, usd), s')
               else (res_bind (mk_day_pull (p\<lparr>dp_symbols := symbols\<rparr>)) (\<lambda>p'. Inr (Some p', usd)), s')))"

record plan_draft =
  dr_items :: "planned_day list"
  dr_empty :: "pull_outcome list"
  dr_enumeration_usd :: rat

definition plan_estimate :: "plan_oracle \<Rightarrow> day_pull \<Rightarrow> plan_draft \<Rightarrow> plan_draft result" where
  "plan_estimate w p d =
     (case pl_estimate w p of
        Inr usd \<Rightarrow> Inr (d\<lparr>dr_items := dr_items d @ [\<lparr>pd_pull = p, pd_estimated_usd = usd\<rparr>]\<rparr>)
      | Inl (DatabentoApiError c) \<Rightarrow>
          Inr (d\<lparr>dr_empty := dr_empty d @ [outcome (pull_key p) GAP (''estimate failed ('' @ c @ '')'')]\<rparr>)
      | Inl e \<Rightarrow> Inl e)"

definition plan_pull ::
  "ingest_env \<Rightarrow> bool \<Rightarrow> plan_oracle \<Rightarrow> day_pull \<Rightarrow> plan_draft \<Rightarrow> ingest_state \<Rightarrow> plan_draft result \<times> ingest_state" where
  "plan_pull env resolver w p d s =
     (if dp_scope p \<noteq> SPXW_0DTE_SCOPE then (plan_estimate w p d, s)
      else if \<not> resolver then (Inl (ValueError ''scope requires a chain resolver''), s)
      else case batch_find (text_sha env) (is_pit s) (pull_key p) of
        Inl e \<Rightarrow> (Inl e, s)
      | Inr (Some _) \<Rightarrow> (Inr (d\<lparr>dr_items := dr_items d @ [\<lparr>pd_pull = p, pd_estimated_usd = 0\<rparr>]\<rparr>), s)
      | Inr None \<Rightarrow>
          (case resolve_zero_dte env w p s of
             (Inl (DatabentoApiError c), s') \<Rightarrow>
               (Inr (d\<lparr>dr_empty := dr_empty d @ [outcome (pull_key p) GAP (''plan failed ('' @ c @ '')'')]\<rparr>), s')
           | (Inl e, s') \<Rightarrow> (Inl e, s')
           | (Inr (None, usd), s') \<Rightarrow>
               (Inr (d\<lparr>dr_enumeration_usd := dr_enumeration_usd d + usd,
                      dr_empty := dr_empty d @ [outcome (pull_key p) EMPTY_CHAIN ''no contracts expiring this day'']\<rparr>), s')
           | (Inr (Some p', usd), s') \<Rightarrow>
               (plan_estimate w p' (d\<lparr>dr_enumeration_usd := dr_enumeration_usd d + usd\<rparr>), s')))"

fun plan_pulls ::
  "ingest_env \<Rightarrow> bool \<Rightarrow> (nat \<Rightarrow> plan_oracle) \<Rightarrow> nat \<Rightarrow> day_pull list \<Rightarrow> plan_draft \<Rightarrow> ingest_state
     \<Rightarrow> plan_draft result \<times> ingest_state" where
  "plan_pulls env resolver w i [] d s = (Inr d, s)"
| "plan_pulls env resolver w i (p # ps) d s =
     (case plan_pull env resolver (w i) p d s of
        (Inl e, s') \<Rightarrow> (Inl e, s')
      | (Inr d', s') \<Rightarrow> plan_pulls env resolver w (Suc i) ps d' s')"

definition draft_total :: "plan_draft \<Rightarrow> rat" where
  "draft_total d = round_places 6 (sum_list (map pd_estimated_usd (dr_items d)) + dr_enumeration_usd d)"

definition plan_payload :: "ingest_env \<Rightarrow> instant \<Rightarrow> rat \<Rightarrow> plan_draft \<Rightarrow> (string, pyval) dict" where
  "plan_payload env created cap d =
     (let number = (\<lambda>q. PFloat q (ie_fr env q)); enumeration = round_places 6 (dr_enumeration_usd d) in
      [(''created_at'', PTime created), (''ceiling_usd'', number cap),
       (''items'', PList (map (\<lambda>x. PDict [(''logical_key'', PStr (pull_key (pd_pull x))),
          (''estimated_usd'', number (pd_estimated_usd x))]) (dr_items d))),
       (''enumeration_usd'', number enumeration),
       (''empty_chain_days'', PList (map (\<lambda>x. PStr (po_logical_key x)) (dr_empty d)))])"

definition build_plan ::
  "ingest_env \<Rightarrow> bool \<Rightarrow> (nat \<Rightarrow> plan_oracle) \<Rightarrow> instant \<Rightarrow> instant \<Rightarrow> day_pull list \<Rightarrow> rat \<Rightarrow> ingest_state
     \<Rightarrow> pull_plan result \<times> ingest_state" where
  "build_plan env resolver w created decided pulls cap s =
     (case plan_pulls env resolver w 0 pulls \<lparr>dr_items = [], dr_empty = [], dr_enumeration_usd = 0\<rparr> s of
        (Inl e, s') \<Rightarrow> (Inl e, s')
      | (Inr d, s') \<Rightarrow>
          let usd = draft_total d;
              pid = snapshot_id (freeze_snapshot (text_sha env) (PDict (plan_payload env created cap d)))
          in (case cost_append (text_sha env) (ie_fr env) (is_costs s') pid usd cap
                     (if usd \<le> cap then ''APPROVED'' else ''BLOCKED'') decided of
                (Inl e, book) \<Rightarrow> (Inl e, s'\<lparr>is_costs := book\<rparr>)
              | (Inr _, book) \<Rightarrow>
                  if \<not> usd \<le> cap
                  then (Inl (IngestCostCeilingExceeded ''estimated cost exceeds the ceiling''), s'\<lparr>is_costs := book\<rparr>)
                  else (Inr \<lparr>pp_plan_id = pid, pp_created_at = created, pp_ceiling_usd = cap,
                         pp_total_estimated_usd = usd, pp_items = dr_items d, pp_empty_chain_outcomes = dr_empty d\<rparr>,
                        s'\<lparr>is_costs := book\<rparr>)))"

section \<open>What a run leaves\<close>

definition recorded :: "ingest_state \<Rightarrow> string \<Rightarrow> bool" where
  "recorded s key \<longleftrightarrow> key \<in> logical_key ` set (is_pit s)"

lemma batch_find_ok:
  assumes "batch_ok sha f"
  shows "batch_find sha f key = Inr (List.find (\<lambda>r. logical_key r = key) f)"
  using assms by (simp add: batch_find_def batch_load_ok batch_ok_def)

lemma find_record_None: "List.find (\<lambda>r. logical_key r = key) f = None \<longleftrightarrow> key \<notin> logical_key ` set f"
  by (auto simp: find_None_iff)

lemma batch_append_fresh:
  assumes "batch_ok sha f" and "pit_verify sha r = Inr ()" and "logical_key r \<notin> logical_key ` set f"
  shows "batch_append sha f r = (Inr (), f @ [r])"
  using assms by (simp add: batch_append_def batch_find_ok find_record_None [THEN iffD2])

lemma batch_content_canonical:
  assumes "repr_ok (ie_fr env)"
  shows "canonical (to_json (PDict (batch_content env p receipt rows usd)))"
  using repr_ok_simps [OF assms] by (auto simp: canonical_PDict batch_content_def split: option.split)

lemma append_batch_Inr:
  assumes "append_batch env p receipt rows usd published seen s = (Inr r, s')" and "repr_ok (ie_fr env)"
    and "batch_ok (text_sha env) (is_pit s)" and "\<not> recorded s (pull_key p)"
  shows "s' = s\<lparr>is_pit := is_pit s @ [r]\<rparr>" "logical_key r = pull_key p" "published_at r = published" "first_seen_at r = seen"
    "pit_verify (text_sha env) r = Inr ()" "published \<le> seen"
    "loads (canonical_content r) = Inr (to_json (PDict (batch_content env p receipt rows usd)))"
proof -
  obtain r0 where r0: "pit_create (text_sha env) (pull_key p) (Aware published) (Aware seen) ''databento'' ''databento-historical-v1''
      (dp_schema p) (batch_content env p receipt rows usd) = Inr r0"
    using assms(1) by (auto simp: append_batch_def split: sum.splits)
  note f = pit_create_fields [OF r0] pit_create_verify [OF r0 batch_content_canonical [OF assms(2)]]
  have "batch_append (text_sha env) (is_pit s) r0 = (Inr (), is_pit s @ [r0])"
    using assms(3,4) f by (intro batch_append_fresh) (simp_all add: recorded_def)
  with assms(1) r0 have "r = r0" "s' = s\<lparr>is_pit := is_pit s @ [r0]\<rparr>" by (auto simp: append_batch_def)
  then show "s' = s\<lparr>is_pit := is_pit s @ [r]\<rparr>" "logical_key r = pull_key p" "published_at r = published" "first_seen_at r = seen"
    "pit_verify (text_sha env) r = Inr ()"
    "loads (canonical_content r) = Inr (to_json (PDict (batch_content env p receipt rows usd)))"
    using f by simp_all
  have "published_at r0 \<le> first_seen_at r0"
    using r0 by (auto simp: pit_create_def Let_def split: if_splits option.splits)
  then show "published \<le> seen" using f by simp
qed

text \<open>A day that landed.\<close>

definition landed_by :: "ingest_env \<Rightarrow> day_oracle \<Rightarrow> day_pull \<Rightarrow> rat \<Rightarrow> ingest_state \<Rightarrow> pull_outcome \<Rightarrow> ingest_state \<Rightarrow> bool" where
  "landed_by env w p usd s x s' \<longleftrightarrow>
     (\<exists>payload receipt l rows r. or_download w p = Inr payload
        \<and> rows = (case or_record_count w p of Inr n \<Rightarrow> Some n | Inl e \<Rightarrow> None)
        \<and> land (ie_bsha env) (ie_authorizer env) (ie_cipher env) (or_nonce w)
            (landing_of p payload (day_end env (dp_day p)) (or_now w) ''application/x-dbn'') (is_landing s) = (Inr receipt, l)
        \<and> s' = s\<lparr>is_landing := l, is_pit := is_pit s @ [r]\<rparr> \<and> logical_key r = pull_key p
        \<and> published_at r = day_end env (dp_day p) \<and> first_seen_at r = or_now w \<and> pit_verify (text_sha env) r = Inr ()
        \<and> loads (canonical_content r) = Inr (to_json (PDict (batch_content env p receipt rows usd)))
        \<and> x = outcome (pull_key p) LANDED (record_id r) \<and> \<not> recorded s (pull_key p))"

lemma run_landed_Inr:
  assumes run: "run_landed env w p usd payload s = (Inr x, s')" and "or_download w p = Inr payload" and fr: "repr_ok (ie_fr env)"
    and ok: "batch_ok (text_sha env) (is_pit s)" and new: "\<not> recorded s (pull_key p)"
  shows "landed_by env w p usd s x s'"
proof -
  obtain receipt l where l: "land (ie_bsha env) (ie_authorizer env) (ie_cipher env) (or_nonce w)
      (landing_of p payload (day_end env (dp_day p)) (or_now w) ''application/x-dbn'') (is_landing s) = (Inr receipt, l)"
    using run by (auto simp: run_landed_def land_batch_def split: prod.splits sum.splits)
  let ?s1 = "s\<lparr>is_landing := l\<rparr>"
  obtain rows r where r: "append_batch env p receipt rows usd (day_end env (dp_day p)) (or_now w) ?s1 = (Inr r, s')"
      "x = outcome (pull_key p) LANDED (record_id r)" "rows = (case or_record_count w p of Inr n \<Rightarrow> Some n | Inl e \<Rightarrow> None)"
    using run by (auto simp: run_landed_def land_batch_def l split: prod.splits sum.splits py_error.splits)
  have "batch_ok (text_sha env) (is_pit ?s1)" "\<not> recorded ?s1 (pull_key p)" using ok new by (simp_all add: recorded_def)
  note f = append_batch_Inr [OF r(1) fr this]
  show ?thesis unfolding landed_by_def
    using assms(2) l f r(2,3) new
    by (intro exI [of _ payload] exI [of _ receipt] exI [of _ l] exI [of _ rows] exI [of _ r]) simp
qed

lemma run_day_Inr:
  assumes "run_day env w p usd s = (Inr x, s')" and "repr_ok (ie_fr env)" and "batch_ok (text_sha env) (is_pit s)"
  shows "landed_by env w p usd s x s'
    \<or> (s' = s \<and> po_logical_key x = pull_key p \<and> po_status x \<in> {SKIPPED_PRESENT, NOT_DUE, GAP}
        \<and> (po_status x = SKIPPED_PRESENT \<longleftrightarrow> recorded s (pull_key p)))"
proof (cases "List.find (\<lambda>r. logical_key r = pull_key p) (is_pit s)")
  case (Some r)
  moreover from Some have "recorded s (pull_key p)"
    using find_record_None [of "pull_key p" "is_pit s"] by (simp add: recorded_def)
  ultimately show ?thesis using assms(1) batch_find_ok [OF assms(3)] by (auto simp: run_day_def outcome_def)
next
  case None
  then have new: "\<not> recorded s (pull_key p)" by (simp add: recorded_def find_record_None)
  show ?thesis
  proof (cases "day_end env (dp_day p) > or_now w")
    case True
    with assms(1) None new batch_find_ok [OF assms(3)] show ?thesis by (auto simp: run_day_def outcome_def)
  next
    case due: False
    show ?thesis
    proof (cases "or_download w p")
      case (Inl e)
      with assms(1) None new due batch_find_ok [OF assms(3)] show ?thesis
        by (auto simp: run_day_def outcome_def split: py_error.splits)
    next
      case (Inr payload)
      with assms(1) None due batch_find_ok [OF assms(3)] have "run_landed env w p usd payload s = (Inr x, s')"
        by (simp add: run_day_def)
      from run_landed_Inr [OF this Inr assms(2,3) new] show ?thesis ..
    qed
  qed
qed

lemma landed_by_state:
  assumes "landed_by env w p usd s x s'" and "batch_ok (text_sha env) (is_pit s)"
  shows "batch_ok (text_sha env) (is_pit s')" "prefix (is_pit s) (is_pit s')" "recorded s' (pull_key p)"
    "po_logical_key x = pull_key p" "po_status x = LANDED"
  using assms by (auto simp: landed_by_def batch_ok_def recorded_def outcome_def)

lemma run_day_state:
  assumes "run_day env w p usd s = (Inr x, s')" and "repr_ok (ie_fr env)" and "batch_ok (text_sha env) (is_pit s)"
  shows "batch_ok (text_sha env) (is_pit s')" "prefix (is_pit s) (is_pit s')" "po_logical_key x = pull_key p"
    "po_status x \<in> {LANDED, SKIPPED_PRESENT} \<Longrightarrow> recorded s' (pull_key p)"
  using run_day_Inr [OF assms] landed_by_state [OF _ assms(3)] assms(3) by auto

lemma recorded_mono: "prefix (is_pit s) (is_pit t) \<Longrightarrow> recorded s key \<Longrightarrow> recorded t key"
  by (auto simp: recorded_def prefix_def)

lemma run_items_state:
  assumes "run_items env w i ds outs s = (Inr outs', s')" and "repr_ok (ie_fr env)" and "batch_ok (text_sha env) (is_pit s)"
  shows "\<exists>xs. outs' = outs @ xs \<and> batch_ok (text_sha env) (is_pit s') \<and> prefix (is_pit s) (is_pit s')
    \<and> list_all2 (\<lambda>d x. po_logical_key x = pull_key (pd_pull d)
         \<and> (po_status x \<in> {LANDED, SKIPPED_PRESENT} \<longrightarrow> recorded s' (pull_key (pd_pull d)))) ds xs"
  using assms(1,3)
proof (induction ds arbitrary: i outs s)
  case (Cons d ds)
  obtain x s1 where x: "run_day env (w i) (pd_pull d) (pd_estimated_usd d) s = (Inr x, s1)"
      "run_items env w (Suc i) ds (outs @ [x]) s1 = (Inr outs', s')"
    using Cons.prems(1) by (auto split: prod.splits sum.splits)
  note st = run_day_state [OF x(1) assms(2) Cons.prems(2)]
  obtain xs where xs: "outs' = (outs @ [x]) @ xs" "batch_ok (text_sha env) (is_pit s')" "prefix (is_pit s1) (is_pit s')"
      "list_all2 (\<lambda>d x. po_logical_key x = pull_key (pd_pull d)
         \<and> (po_status x \<in> {LANDED, SKIPPED_PRESENT} \<longrightarrow> recorded s' (pull_key (pd_pull d)))) ds xs"
    using Cons.IH [OF x(2) st(1)] by blast
  have "po_status x \<in> {LANDED, SKIPPED_PRESENT} \<longrightarrow> recorded s' (pull_key (pd_pull d))"
    using st(4) recorded_mono [OF xs(3)] by blast
  with xs st(2,3) show ?case
    by (intro exI [of _ "x # xs"]) (auto intro: prefix_order.trans)
qed simp

lemma rerun_items:
  assumes "batch_ok (text_sha env) (is_pit s)" and "\<forall>d \<in> set ds. recorded s (pull_key (pd_pull d))"
  shows "run_items env w i ds outs s =
    (Inr (outs @ map (\<lambda>d. outcome (pull_key (pd_pull d)) SKIPPED_PRESENT ''already landed'') ds), s)"
  using assms(2)
proof (induction ds arbitrary: i outs)
  case (Cons d ds)
  then obtain r where "List.find (\<lambda>r. logical_key r = pull_key (pd_pull d)) (is_pit s) = Some r"
    by (cases "List.find (\<lambda>r. logical_key r = pull_key (pd_pull d)) (is_pit s)") (auto simp: recorded_def find_record_None)
  then have "run_day env (w i) (pd_pull d) (pd_estimated_usd d) s
      = (Inr (outcome (pull_key (pd_pull d)) SKIPPED_PRESENT ''already landed''), s)"
    using batch_find_ok [OF assms(1)] by (simp add: run_day_def)
  with Cons show ?case by simp
qed simp

section \<open>What a plan leaves in the cost ledger\<close>

lemma land_batch_costs: "land_batch env nonce p payload published seen ctype s = (r, s') \<Longrightarrow> is_costs s' = is_costs s"
  by (auto simp: land_batch_def split: prod.splits)

lemma append_batch_costs: "append_batch env p receipt rows usd published seen s = (r, s') \<Longrightarrow> is_costs s' = is_costs s"
  by (auto simp: append_batch_def split: prod.splits sum.splits)

lemma land_definitions_costs: "land_definitions env w p payload usd s = (r, s') \<Longrightarrow> is_costs s' = is_costs s"
  by (auto simp: land_definitions_def split: prod.splits sum.splits option.splits if_splits
      dest!: land_batch_costs append_batch_costs)

lemma resolve_zero_dte_costs: "resolve_zero_dte env w p s = (r, s') \<Longrightarrow> is_costs s' = is_costs s"
  by (auto simp: resolve_zero_dte_def split: prod.splits sum.splits if_splits dest!: land_definitions_costs)

lemma plan_pull_costs: "plan_pull env resolver w p d s = (r, s') \<Longrightarrow> is_costs s' = is_costs s"
  by (auto simp: plan_pull_def split: prod.splits sum.splits option.splits if_splits py_error.splits
      dest!: resolve_zero_dte_costs)

lemma plan_pulls_costs: "plan_pulls env resolver w i ps d s = (r, s') \<Longrightarrow> is_costs s' = is_costs s"
  by (induction env resolver w i ps d s rule: plan_pulls.induct)
     (auto split: prod.splits sum.splits dest!: plan_pull_costs)

definition draft_nonneg :: "plan_draft \<Rightarrow> bool" where
  "draft_nonneg d \<longleftrightarrow> 0 \<le> dr_enumeration_usd d"

lemma resolve_zero_dte_usd:
  "resolve_zero_dte env w p s = (Inr (x, usd), s') \<Longrightarrow> \<exists>q. pl_estimate w q = Inr usd"
  by (auto simp: resolve_zero_dte_def split: prod.splits sum.splits if_splits)

lemma plan_pull_nonneg:
  assumes "plan_pull env resolver w p d s = (Inr d', s')" and "draft_nonneg d"
    and "\<And>q usd. pl_estimate w q = Inr usd \<Longrightarrow> 0 \<le> usd"
  shows "draft_nonneg d'"
proof -
  have est: "draft_nonneg b" if "plan_estimate w q a = Inr b" "draft_nonneg a" for q a b
    using that by (auto simp: plan_estimate_def draft_nonneg_def split: sum.splits py_error.splits)
  have res: "0 \<le> usd" if "resolve_zero_dte env w p s = (Inr (x, usd), t)" for x usd t
    using resolve_zero_dte_usd [OF that] assms(3) by blast
  show ?thesis
  proof (cases "dp_scope p \<noteq> SPXW_0DTE_SCOPE")
    case True
    with assms(1,2) est show ?thesis by (auto simp: plan_pull_def)
  next
    case False
    show ?thesis
    proof (cases "resolve_zero_dte env w p s")
      case (Pair r t)
      show ?thesis
      proof (cases r)
        case (Inl e)
        with assms(1,2) False Pair show ?thesis
          by (auto simp: plan_pull_def draft_nonneg_def split: sum.splits option.splits if_splits py_error.splits)
      next
        case (Inr xu)
        obtain x usd where xu: "xu = (x, usd)" by (cases xu) auto
        have "0 \<le> usd" using res Pair Inr xu by blast
        then have "draft_nonneg (d\<lparr>dr_enumeration_usd := dr_enumeration_usd d + usd\<rparr>)"
          using assms(2) by (simp add: draft_nonneg_def)
        with assms(1,2) False Pair Inr xu est show ?thesis
          by (auto simp: plan_pull_def draft_nonneg_def split: sum.splits option.splits if_splits)
      qed
    qed
  qed
qed

lemma plan_pulls_nonneg:
  assumes "plan_pulls env resolver w i ps d s = (Inr d', s')" and "draft_nonneg d"
    and "\<And>i q usd. pl_estimate (w i) q = Inr usd \<Longrightarrow> 0 \<le> usd"
  shows "draft_nonneg d'"
  using assms(1,2)
proof (induction ps arbitrary: i d s)
  case (Cons p ps)
  then obtain d1 s1 where d1: "plan_pull env resolver (w i) p d s = (Inr d1, s1)" "plan_pulls env resolver w (Suc i) ps d1 s1 = (Inr d', s')"
    by (auto split: prod.splits sum.splits)
  have "draft_nonneg d1" by (rule plan_pull_nonneg [OF d1(1) Cons.prems(2)]) (rule assms(3))
  then show ?case by (rule Cons.IH [OF d1(2)])
qed simp

text \<open>The decision a plan leaves, with the plan itself where it was approved.\<close>

definition decided :: "rat \<Rightarrow> pull_plan result \<Rightarrow> cost_entry \<Rightarrow> bool" where
  "decided cap answer e \<longleftrightarrow> ceiling_usd e = cap
     \<and> (if estimated_usd e \<le> cap
        then ce_decision e = ''APPROVED'' \<and> (case answer of Inl _ \<Rightarrow> False
          | Inr plan \<Rightarrow> pp_plan_id plan = plan_id e \<and> pp_total_estimated_usd plan = estimated_usd e
              \<and> sum_list (map pd_estimated_usd (pp_items plan)) \<le> cap + 1 / 2000000)
        else ce_decision e = ''BLOCKED'' \<and> answer = Inl (IngestCostCeilingExceeded ''estimated cost exceeds the ceiling''))"

lemma cost_append_Inr:
  "cost_append sha fr book plan usd cap decision now = (Inr e, book') \<Longrightarrow>
     book' = book @ [e] \<and> estimated_usd e = usd \<and> ceiling_usd e = cap \<and> plan_id e = plan \<and> ce_decision e = decision"
  by (auto simp: cost_append_def Let_def cost_load_def split: sum.splits)

lemma cost_append_Inl: "cost_append sha fr book plan usd cap decision now = (Inl e, book') \<Longrightarrow> book' = book"
  by (auto simp: cost_append_def Let_def split: sum.splits)

lemma draft_total_bound:
  assumes "draft_nonneg d" and "draft_total d \<le> cap"
  shows "sum_list (map pd_estimated_usd (dr_items d)) \<le> cap + 1 / 2000000"
proof -
  let ?x = "sum_list (map pd_estimated_usd (dr_items d)) + dr_enumeration_usd d"
  have "\<bar>round_places 6 ?x - ?x\<bar> \<le> 1 / (2 * 10 ^ 6)" by (rule round_places_near)
  moreover have "(1 :: rat) / (2 * 10 ^ 6) = 1 / 2000000" by simp
  ultimately have "?x \<le> round_places 6 ?x + 1 / 2000000" by linarith
  with assms show ?thesis by (simp add: draft_total_def draft_nonneg_def)
qed

section \<open>An example\<close>

definition demo_env :: ingest_env where
  "demo_env = \<lparr>ie_bsha = demo_sha, ie_fr = number_text,
     ie_authorizer = static_authorize [(''ingest-pipeline'', ''licensed-history-pull'')], ie_cipher = demo_cipher,
     ie_et_utc = (\<lambda>d t. (d - 1) * day_us + t), ie_report_path = True\<rparr>"

definition demo_pull :: day_pull where
  "demo_pull = \<lparr>dp_dataset = ''GLBX.MDP3'', dp_schema = ''ohlcv-1m'', dp_day = 1, dp_stype_in = ''parent'',
     dp_symbols = [''ES.FUT''], dp_scope = ''es''\<rparr>"

definition demo_day :: day_oracle where
  "demo_day = \<lparr>or_now = day_us, or_nonce = ''n'', or_download = (\<lambda>p. Inr ''rows''), or_record_count = (\<lambda>p. Inr 3)\<rparr>"

definition empty_ingest :: ingest_state where
  "empty_ingest = \<lparr>is_landing = empty_landing, is_pit = [], is_costs = [], is_reports = []\<rparr>"

lemma demo_not_blank:
  "\<not> blank ''databento''" "\<not> blank ''databento-historical-v1''" "\<not> blank ''GLBX.MDP3''" "\<not> blank ''ohlcv-1m''"
  "\<not> blank (pull_key demo_pull)" "\<not> blank ''application/x-dbn''" "\<not> blank ''ingest-pipeline''" "\<not> blank ''licensed-history-pull''"
  by (simp_all add: blank_iff is_space_def pull_key_def demo_pull_def)

lemma demo_pull_lands:
  "\<exists>receipt l. land demo_sha (ie_authorizer demo_env) demo_cipher ''n''
     (landing_of demo_pull ''rows'' 86399000000 day_us ''application/x-dbn'') empty_landing = (Inr receipt, l)"
proof -
  let ?q = "landing_of demo_pull ''rows'' 86399000000 day_us ''application/x-dbn''"
  have key: "lq_logical_key ?q = pull_key demo_pull" by (simp add: landing_of_def)
  have safe: "safe_component ''databento''" "safe_component ''GLBX.MDP3''" by (simp_all add: safe_component_def safe_char_def)
  have guard: "landing_guard (ie_authorizer demo_env) ?q = Inr (86399000000, day_us)"
    using demo_not_blank safe
    by (simp add: landing_guard_def landing_of_def demo_env_def static_authorize_def write_context_def demo_pull_def
        day_us_def del: blank_iff)
  have "envelope_failure (cipher_encrypt demo_cipher ''n'' (lq_payload ?q) ad) (lq_payload ?q) = None" for ad
    by (simp add: envelope_failure_def demo_cipher_def local_cipher_def local_encrypt_def landing_of_def
        LOCAL_KEY_ID_def LOCAL_ALGORITHM_def blank_iff is_space_def)
  with guard show ?thesis
    by (simp add: land_def Let_def seal_object_def store_get_def empty_landing_def put_if_absent_def)
qed

lemma demo_day_lands: "\<exists>x s'. run_day demo_env demo_day demo_pull 2 empty_ingest = (Inr x, s') \<and> po_status x = LANDED"
proof -
  obtain receipt l where l: "land demo_sha (ie_authorizer demo_env) demo_cipher ''n''
     (landing_of demo_pull ''rows'' 86399000000 day_us ''application/x-dbn'') empty_landing = (Inr receipt, l)"
    using demo_pull_lands by blast
  have env: "ie_bsha demo_env = demo_sha" "ie_cipher demo_env = demo_cipher" "repr_ok (ie_fr demo_env)"
    by (simp_all add: demo_env_def number_text_ok)
  have day: "day_end demo_env (dp_day demo_pull) = 86399000000" by (simp add: day_end_def demo_env_def demo_pull_def)
  have "86399000000 \<le> day_us" by (simp add: day_us_def)
  then have "\<exists>r. pit_create (text_sha demo_env) (pull_key demo_pull) (Aware 86399000000) (Aware day_us) ''databento''
      ''databento-historical-v1'' (dp_schema demo_pull) (batch_content demo_env demo_pull receipt (Some 3) 2) = Inr r"
    using demo_not_blank [unfolded blank_def demo_pull_def] by (simp add: pit_create_def Let_def demo_pull_def)
  then obtain r where r: "pit_create (text_sha demo_env) (pull_key demo_pull) (Aware 86399000000) (Aware day_us) ''databento''
      ''databento-historical-v1'' (dp_schema demo_pull) (batch_content demo_env demo_pull receipt (Some 3) 2) = Inr r" ..
  have "pit_verify (text_sha demo_env) r = Inr ()"
    by (rule pit_create_verify [OF r batch_content_canonical [OF env(3)]])
  then have "batch_append (text_sha demo_env) [] r = (Inr (), [] @ [r])"
    by (intro batch_append_fresh) (simp_all add: batch_ok_def)
  then show ?thesis
    using l env day r
    by (simp add: run_day_def batch_find_ok batch_ok_def empty_ingest_def demo_day_def run_landed_def land_batch_def
        append_batch_def outcome_def day_us_def)
qed

section \<open>Properties\<close>

text \<open>C23. No pull is planned past the cost ceiling, and no decision goes unrecorded: with estimates that are not
  negative, building a plan either raises before any decision and leaves the cost ledger as it was, or
  appends exactly one entry; that entry approves the plan it returns, whose items' estimates keep within
  the ceiling up to the rounding of the total, or blocks it, and then no plan is returned.\<close>

theorem cost_ceiling_enforced:
  assumes "build_plan env resolver w created now pulls cap s = (r, s')"
    and "\<forall>i q usd. pl_estimate (w i) q = Inr usd \<longrightarrow> 0 \<le> usd"
  shows "(is_costs s' = is_costs s \<and> \<not> is_ok r) \<or> (\<exists>e. is_costs s' = is_costs s @ [e] \<and> decided cap r e)"
proof (cases "plan_pulls env resolver w 0 pulls \<lparr>dr_items = [], dr_empty = [], dr_enumeration_usd = 0\<rparr> s")
  case (Pair x s1)
  note costs = plan_pulls_costs [OF Pair]
  show ?thesis
  proof (cases x)
    case (Inl e)
    with assms(1) Pair costs show ?thesis by (auto simp: build_plan_def)
  next
    case (Inr d)
    have nonneg: "draft_nonneg d"
      using plan_pulls_nonneg [OF Pair [unfolded Inr]] assms(2) by (simp add: draft_nonneg_def)
    let ?pid = "snapshot_id (freeze_snapshot (text_sha env) (PDict (plan_payload env created cap d)))"
    obtain y book where y: "cost_append (text_sha env) (ie_fr env) (is_costs s1) ?pid (draft_total d) cap
        (if draft_total d \<le> cap then ''APPROVED'' else ''BLOCKED'') now = (y, book)"
      by (cases "cost_append (text_sha env) (ie_fr env) (is_costs s1) ?pid (draft_total d) cap
        (if draft_total d \<le> cap then ''APPROVED'' else ''BLOCKED'') now") auto
    show ?thesis
    proof (cases y)
      case (Inl e)
      with assms(1) Pair \<open>x = Inr d\<close> y cost_append_Inl costs show ?thesis
        by (auto simp: build_plan_def Let_def)
    next
      case e: (Inr e)
      note f = cost_append_Inr [OF y [unfolded e]]
      have b: "build_plan env resolver w created now pulls cap s =
          (if \<not> draft_total d \<le> cap
           then (Inl (IngestCostCeilingExceeded ''estimated cost exceeds the ceiling''), s1\<lparr>is_costs := book\<rparr>)
           else (Inr \<lparr>pp_plan_id = ?pid, pp_created_at = created, pp_ceiling_usd = cap,
                  pp_total_estimated_usd = draft_total d, pp_items = dr_items d, pp_empty_chain_outcomes = dr_empty d\<rparr>,
                s1\<lparr>is_costs := book\<rparr>))"
        by (simp add: build_plan_def Pair Inr Let_def y e)
      have "is_costs s' = is_costs s @ [e] \<and> decided cap r e"
        using assms(1) f costs draft_total_bound [OF nonneg, of cap] unfolding b
        by (auto simp: decided_def split: if_splits)
      then show ?thesis by blast
    qed
  qed
qed

text \<open>A run that landed its days is not repeated: running the same plan again on the state a run left, when
  every day landed or was present, downloads nothing whatever the gateway would answer, changes neither
  the landing, nor the batch file, nor the cost ledger, and reports every day as present.\<close>

theorem rerun_downloads_nothing:
  assumes "repr_ok (ie_fr env)" and "batch_ok (text_sha env) (is_pit s)"
    and "run_plan env w started finished plan s = (Inr report, s')"
    and "\<forall>x \<in> set (take (length (pp_items plan)) (pr_outcomes report)). po_status x \<in> {LANDED, SKIPPED_PRESENT}"
  shows "\<exists>report' s''. run_plan env w' started' finished' plan s' = (Inr report', s'')
    \<and> is_landing s'' = is_landing s' \<and> is_pit s'' = is_pit s' \<and> is_costs s'' = is_costs s'
    \<and> pr_outcomes report' = map (\<lambda>d. outcome (pull_key (pd_pull d)) SKIPPED_PRESENT ''already landed'') (pp_items plan)
        @ pp_empty_chain_outcomes plan"
proof -
  obtain outs s1 where run: "run_items env w 0 (pp_items plan) [] s = (Inr outs, s1)"
      "pr_outcomes report = outs @ pp_empty_chain_outcomes plan" "is_landing s' = is_landing s1" "is_pit s' = is_pit s1"
    using assms(3) by (auto simp: run_plan_def Let_def persist_report_def split: prod.splits sum.splits)
  obtain xs where xs: "outs = xs" "batch_ok (text_sha env) (is_pit s1)"
      "list_all2 (\<lambda>d x. po_logical_key x = pull_key (pd_pull d)
         \<and> (po_status x \<in> {LANDED, SKIPPED_PRESENT} \<longrightarrow> recorded s1 (pull_key (pd_pull d)))) (pp_items plan) xs"
    using run_items_state [OF run(1) assms(1,2)] by auto
  have len: "length xs = length (pp_items plan)" using xs(3) by (simp add: list_all2_lengthD)
  then have landed: "\<forall>x \<in> set xs. po_status x \<in> {LANDED, SKIPPED_PRESENT}" using assms(4) run(2) xs(1) by simp
  have "\<forall>d \<in> set (pp_items plan). recorded s' (pull_key (pd_pull d))"
  proof
    fix d assume "d \<in> set (pp_items plan)"
    then obtain k where k: "k < length (pp_items plan)" "d = pp_items plan ! k" by (auto simp: in_set_conv_nth)
    with xs(3) landed len show "recorded s' (pull_key (pd_pull d))"
      by (auto simp: list_all2_conv_all_nth recorded_def run(4))
  qed
  with xs(2) run(4) have "run_items env w' 0 (pp_items plan) [] s' =
      (Inr (map (\<lambda>d. outcome (pull_key (pd_pull d)) SKIPPED_PRESENT ''already landed'') (pp_items plan)), s')"
    using rerun_items [of env s' "pp_items plan" w' 0 "[]"] by simp
  then show ?thesis by (simp add: run_plan_def Let_def persist_report_def)
qed

theorem rerun_downloads_nothing_witness:
  "\<exists>report s' report' s''. run_plan demo_env (\<lambda>i. demo_day) 1 2
       \<lparr>pp_plan_id = ''p'', pp_created_at = 1, pp_ceiling_usd = 5, pp_total_estimated_usd = 2,
        pp_items = [\<lparr>pd_pull = demo_pull, pd_estimated_usd = 2\<rparr>], pp_empty_chain_outcomes = []\<rparr> empty_ingest = (Inr report, s')
     \<and> run_plan demo_env (\<lambda>i. demo_day) 3 4
       \<lparr>pp_plan_id = ''p'', pp_created_at = 1, pp_ceiling_usd = 5, pp_total_estimated_usd = 2,
        pp_items = [\<lparr>pd_pull = demo_pull, pd_estimated_usd = 2\<rparr>], pp_empty_chain_outcomes = []\<rparr> s' = (Inr report', s'')
     \<and> report_count report' SKIPPED_PRESENT = 1 \<and> is_pit s'' = is_pit s'"
proof -
  let ?plan = "\<lparr>pp_plan_id = ''p'', pp_created_at = 1, pp_ceiling_usd = 5, pp_total_estimated_usd = 2,
        pp_items = [\<lparr>pd_pull = demo_pull, pd_estimated_usd = 2\<rparr>], pp_empty_chain_outcomes = []\<rparr>"
  obtain x s1 where x: "run_day demo_env demo_day demo_pull 2 empty_ingest = (Inr x, s1)" "po_status x = LANDED"
    using demo_day_lands by blast
  then obtain report s' where r: "run_plan demo_env (\<lambda>i. demo_day) 1 2 ?plan empty_ingest = (Inr report, s')" "pr_outcomes report = [x]"
    by (simp add: run_plan_def Let_def)
  have "repr_ok (ie_fr demo_env)" "batch_ok (text_sha demo_env) (is_pit empty_ingest)"
    by (simp_all add: demo_env_def number_text_ok empty_ingest_def batch_ok_def)
  from rerun_downloads_nothing [OF this r(1), of "\<lambda>i. demo_day" 3 4] r x(2)
  show ?thesis by (auto simp: report_count_def outcome_def)
qed

definition demo_planning :: plan_oracle where
  "demo_planning = \<lparr>pl_estimate = (\<lambda>p. Inr 2), pl_symbols = (\<lambda>d. Inr []), pl_payload = (\<lambda>d. Inr []), pl_now = 0, pl_nonce = ''n''\<rparr>"

theorem cost_ceiling_enforced_witness:
  "\<exists>r s'. build_plan demo_env False (\<lambda>i. demo_planning) 1 2 [demo_pull] 1 empty_ingest = (r, s')
     \<and> ((is_costs s' = is_costs empty_ingest \<and> \<not> is_ok r) \<or> (\<exists>e. is_costs s' = is_costs empty_ingest @ [e] \<and> decided 1 r e))"
proof -
  obtain r s' where b: "build_plan demo_env False (\<lambda>i. demo_planning) 1 2 [demo_pull] 1 empty_ingest = (r, s')" by fastforce
  from cost_ceiling_enforced [OF this] b show ?thesis by (simp add: demo_planning_def)
qed

text \<open>C24. What a run reports as landed can be recovered from what it left.  The receipt is the one of this
  landing, it is appended to the receipt file, carries the digest of the bytes the gateway delivered,
  the hash of the day's key, the end of the day and the time it was seen, and the object stored under its key
  agrees with it in every field.  The batch file is extended by one verified record with the reported identity,
  of the day's key, published at the end of the day and not after it was seen, whose content names the landed object, its
  digest and the gateway's record count.  And reading with that receipt from that state returns to an
  authorised reader exactly the bytes the gateway delivered, and nothing to any other.\<close>

theorem landed_day_is_recoverable:
  assumes "inj (ie_bsha env)" and "cipher_ok (ie_cipher env)" and "repr_ok (ie_fr env)"
    and "batch_ok (text_sha env) (is_pit s)" and "landing_ok (ie_bsha env) (ie_cipher env) (is_landing s)"
    and "run_day env w p usd s = (Inr x, s')" and "po_status x = LANDED"
  shows "\<exists>payload receipt v r. or_download w p = Inr payload
    \<and> land (ie_bsha env) (ie_authorizer env) (ie_cipher env) (or_nonce w)
        (landing_of p payload (day_end env (dp_day p)) (or_now w) ''application/x-dbn'') (is_landing s)
      = (Inr receipt, is_landing s')
    \<and> ls_receipts (is_landing s') = ls_receipts (is_landing s) @ [receipt]
    \<and> rc_provider receipt = ''databento'' \<and> rc_dataset receipt = dp_dataset p
    \<and> plaintext_sha256 receipt = ie_bsha env payload \<and> logical_key_hash receipt = ie_bsha env (utf8 (pull_key p))
    \<and> rc_published_at receipt = day_end env (dp_day p) \<and> rc_first_seen_at receipt = or_now w
    \<and> object_key receipt = object_key_of ''databento'' (dp_dataset p) (landing_id receipt)
    \<and> store_get (is_landing s') (object_key receipt) = Some v
    \<and> eo_object_key v = object_key receipt \<and> eo_plaintext_sha256 v = plaintext_sha256 receipt
    \<and> eo_content_type v = content_type receipt \<and> en_key_id (eo_envelope v) = rc_key_id receipt
    \<and> en_algorithm (eo_envelope v) = rc_algorithm receipt
    \<and> is_pit s' = is_pit s @ [r] \<and> record_id r = po_detail x \<and> logical_key r = pull_key p
    \<and> published_at r = day_end env (dp_day p) \<and> first_seen_at r = or_now w
    \<and> published_at r \<le> first_seen_at r \<and> pit_verify (text_sha env) r = Inr ()
    \<and> loads (canonical_content r) = Inr (to_json (PDict (batch_content env p receipt
        (case or_record_count w p of Inr n \<Rightarrow> Some n | Inl e \<Rightarrow> None) usd)))
    \<and> (\<forall>who purpose. read_authorized (ie_bsha env) (ie_authorizer env) (ie_cipher env) receipt who purpose (is_landing s') =
         (if ie_authorizer env (read_context receipt who purpose) then Inr payload
          else Inl (LandingAccessDenied ''raw landing access denied'')))"
proof -
  have "landed_by env w p usd s x s'" using run_day_Inr [OF assms(6,3,4)] assms(7) by auto
  then obtain payload receipt l r where d: "or_download w p = Inr payload"
      "land (ie_bsha env) (ie_authorizer env) (ie_cipher env) (or_nonce w)
         (landing_of p payload (day_end env (dp_day p)) (or_now w) ''application/x-dbn'') (is_landing s) = (Inr receipt, l)"
      "s' = s\<lparr>is_landing := l, is_pit := is_pit s @ [r]\<rparr>" "logical_key r = pull_key p" "pit_verify (text_sha env) r = Inr ()"
      "loads (canonical_content r) = Inr (to_json (PDict (batch_content env p receipt
         (case or_record_count w p of Inr n \<Rightarrow> Some n | Inl e \<Rightarrow> None) usd)))"
      "x = outcome (pull_key p) LANDED (record_id r)" "published_at r = day_end env (dp_day p)" "first_seen_at r = or_now w"
    by (auto simp: landed_by_def)
  let ?q = "landing_of p payload (day_end env (dp_day p)) (or_now w) ''application/x-dbn''"
  have q: "lq_published_at ?q = Aware (day_end env (dp_day p))" "lq_first_seen_at ?q = Aware (or_now w)"
      "lq_provider ?q = ''databento''" "lq_dataset ?q = dp_dataset p" "lq_logical_key ?q = pull_key p" "lq_payload ?q = payload"
    by (simp_all add: landing_of_def)
  note receipt = land_receipt [OF d(2)] land_receipt_fields [OF d(2) q(1,2)]
  from landed_object [OF d(2) assms(2,5)] obtain v where v: "store_get l (object_key receipt) = Some v" "matches_receipt v receipt"
    by blast
  have "published_at r \<le> first_seen_at r" using d(5) by (auto simp: pit_verify_def split: if_splits)
  moreover have "read_authorized (ie_bsha env) (ie_authorizer env) (ie_cipher env) receipt who purpose l =
      (if ie_authorizer env (read_context receipt who purpose) then Inr payload
       else Inl (LandingAccessDenied ''raw landing access denied''))" for who purpose
    using landed_reads_back [OF assms(1,2,5) d(2)] by (simp only: q(6))
  moreover have "is_landing s' = l" "is_pit s' = is_pit s @ [r]" "record_id r = po_detail x"
    using d(3,7) by (simp_all add: outcome_def)
  ultimately show ?thesis
    using d(1,2,4-6,8,9) receipt v q(3-6)
    by (intro exI [of _ payload] exI [of _ receipt] exI [of _ v] exI [of _ r]) (simp add: matches_receipt_def)
qed

theorem landed_day_is_recoverable_witness:
  "\<exists>x s' r receipt. run_day demo_env demo_day demo_pull 2 empty_ingest = (Inr x, s') \<and> is_pit s' = [r] \<and> record_id r = po_detail x
     \<and> ls_receipts (is_landing s') = [receipt] \<and> rc_first_seen_at receipt = or_now demo_day"
proof -
  obtain x s' where x: "run_day demo_env demo_day demo_pull 2 empty_ingest = (Inr x, s')" "po_status x = LANDED"
    using demo_day_lands by blast
  have "inj (ie_bsha demo_env)" "cipher_ok (ie_cipher demo_env)" "repr_ok (ie_fr demo_env)"
    "batch_ok (text_sha demo_env) (is_pit empty_ingest)" "landing_ok (ie_bsha demo_env) (ie_cipher demo_env) (is_landing empty_ingest)"
    using demo_cipher_ok by (simp_all add: demo_env_def number_text_ok empty_ingest_def batch_ok_def demo_sha_def inj_def)
  from landed_day_is_recoverable [OF this x] obtain receipt r where
      "is_pit s' = is_pit empty_ingest @ [r]" "record_id r = po_detail x" "rc_first_seen_at receipt = or_now demo_day"
      "ls_receipts (is_landing s') = ls_receipts (is_landing empty_ingest) @ [receipt]" by blast
  with x(1) show ?thesis by (simp add: empty_ingest_def empty_landing_def)
qed

end
