(* ===== verification/Excursions.thy ===== *)
theory Excursions
  imports Condor
begin

text \<open>
  The implied SPX coordinate of a session's futures bars (\<open>features/implied_spx.py\<close>) and the realized
  excursions between an entry and a close (\<open>validation/realized_excursions.py\<close>): the coverage
  contract, the anchor price and the extremes.  The loaders of official closes read a web service
  and are not modelled; an argument of another type than a float, a bar or a pair cannot be stated.
\<close>

section \<open>The implied coordinate\<close>

definition require_positive :: "rat \<Rightarrow> string \<Rightarrow> unit result" where
  "require_positive v field = (if v \<le> 0 then Inl (ImpliedSpxError (field @ '' must be positive'')) else Inr ())"

definition unordered_pair :: "('a \<Rightarrow> 'b::linorder) \<Rightarrow> 'a list \<Rightarrow> bool" where
  "unordered_pair f xs = list_ex (\<lambda>(l, r). f l > f r) (zip xs (tl xs))"

definition require_ordered_bars :: "instant minute_bar list \<Rightarrow> unit result" where
  "require_ordered_bars bars =
     (if bars = [] then Inl (ImpliedSpxError ''bars must not be empty'')
      else if unordered_pair bar_ts bars then Inl (ImpliedSpxError ''bars must be time-ordered (non-decreasing ts)'')
      else Inr ())"

definition implied_point :: "rat \<Rightarrow> rat \<Rightarrow> instant minute_bar \<Rightarrow> (instant \<times> rat) result" where
  "implied_point cash anchor b =
     res_bind (require_positive (bar_close b) ''bar.close'') (\<lambda>_. Inr (bar_ts b, cash * bar_close b / anchor))"

definition implied_spx_series :: "instant minute_bar list \<Rightarrow> rat \<Rightarrow> rat \<Rightarrow> (instant \<times> rat) list result" where
  "implied_spx_series bars cash anchor =
     res_bind (require_positive cash ''prior_cash_close'') (\<lambda>_.
     res_bind (require_positive anchor ''anchor_futures_price'') (\<lambda>_.
     res_bind (require_ordered_bars bars) (\<lambda>_.
     res_map (implied_point cash anchor) bars)))"

definition last_bar_close :: "instant minute_bar list \<Rightarrow> rat result" where
  "last_bar_close bars =
     res_bind (require_ordered_bars bars) (\<lambda>_.
     res_bind (require_positive (bar_close (last bars)) ''bars[-1].close'') (\<lambda>_. Inr (bar_close (last bars))))"

section \<open>Series\<close>

datatype series_item = BarItem "instant minute_bar" | PointItem datetime rat

record price_obs =
  ob_ts :: instant
  ob_high :: rat
  ob_low :: rat
  ob_ref :: rat

fun bar_item :: "series_item \<Rightarrow> bool" where
  "bar_item (BarItem _) = True"
| "bar_item (PointItem _ _) = False"

definition normalize_item :: "bool \<Rightarrow> series_item \<Rightarrow> price_obs result" where
  "normalize_item bars x =
     (case x of
        BarItem b \<Rightarrow>
          if bars then Inr \<lparr>ob_ts = bar_ts b, ob_high = bar_high b, ob_low = bar_low b, ob_ref = bar_close b\<rparr>
          else Inl (TypeError ''series items must all be MinuteBar or all be (ts, price) pairs'')
      | PointItem t p \<Rightarrow>
          if bars then Inl (TypeError ''series must not mix MinuteBar and (ts, price) items'')
          else res_bind (to_utc (ValueError ''series timestamp must be timezone-aware'') t)
                 (\<lambda>u. Inr \<lparr>ob_ts = u, ob_high = p, ob_low = p, ob_ref = p\<rparr>))"

definition normalize_series :: "series_item list \<Rightarrow> price_obs list result" where
  "normalize_series series =
     (if series = [] then Inl (ExcursionCoverageError ''series must not be empty'')
      else res_bind (res_map (normalize_item (bar_item (hd series))) series) (\<lambda>obs.
        if list_ex (\<lambda>(l, r). ob_ts l \<ge> ob_ts r) (zip obs (tl obs))
        then Inl (ValueError ''series observations must be strictly time ordered'')
        else Inr obs))"

section \<open>The excursion of a window\<close>

record excursion_result =
  ex_entry_ts :: instant
  ex_close_ts :: instant
  ex_entry_price :: rat
  ex_close_price :: rat
  ex_up_max :: rat
  ex_down_max :: rat
  ex_up_max_ts :: instant
  ex_down_max_ts :: instant
  ex_sample_count :: nat

text \<open>The loop for the anchor stops at the first observation after the entry.\<close>

fun anchor_loop :: "instant \<Rightarrow> price_obs option \<Rightarrow> price_obs list \<Rightarrow> price_obs option" where
  "anchor_loop entry found [] = found"
| "anchor_loop entry found (x # xs) = (if ob_ts x \<le> entry then anchor_loop entry (Some x) xs else found)"

definition seconds_text :: "timedelta \<Rightarrow> string" where
  "seconds_text us = show_int (round_half_even (of_int us / 1000000)) @ ''s''"

fun gap_loop :: "int \<Rightarrow> instant \<Rightarrow> price_obs list \<Rightarrow> instant result" where
  "gap_loop gap prev [] = Inr prev"
| "gap_loop gap prev (x # xs) =
     (if ob_ts x - prev > seconds gap
      then Inl (ExcursionCoverageError (''coverage gap of '' @ seconds_text (ob_ts x - prev)
             @ '' exceeds max_gap_seconds='' @ show_int gap))
      else gap_loop gap (ob_ts x) xs)"

text \<open>The highest high and the lowest low, with the times of their first occurrence.\<close>

fun extreme_loop :: "rat \<times> instant \<Rightarrow> rat \<times> instant \<Rightarrow> price_obs list \<Rightarrow> (rat \<times> instant) \<times> (rat \<times> instant)" where
  "extreme_loop up down [] = (up, down)"
| "extreme_loop up down (x # xs) =
     extreme_loop (if ob_high x > fst up then (ob_high x, ob_ts x) else up)
       (if ob_low x < fst down then (ob_low x, ob_ts x) else down) xs"

definition window_of :: "price_obs list \<Rightarrow> instant \<Rightarrow> instant \<Rightarrow> price_obs list" where
  "window_of obs entry close = filter (\<lambda>x. entry < ob_ts x \<and> ob_ts x \<le> close) obs"

definition excursion_of :: "price_obs list \<Rightarrow> instant \<Rightarrow> instant \<Rightarrow> int \<Rightarrow> excursion_result result" where
  "excursion_of obs entry close gap =
     (case anchor_loop entry None obs of
        None \<Rightarrow> Inl (ExcursionCoverageError ''no observation at or before entry'')
      | Some anchor \<Rightarrow>
          (case window_of obs entry close of
             [] \<Rightarrow> Inl (ExcursionCoverageError ''no observations strictly after entry and at or before close'')
           | w # ws \<Rightarrow>
               res_bind (gap_loop gap (ob_ts anchor) (w # ws)) (\<lambda>prev.
                 if close - prev > seconds gap
                 then Inl (ExcursionCoverageError (''coverage ends '' @ seconds_text (close - prev)
                        @ '' before close, exceeding max_gap_seconds='' @ show_int gap))
                 else case extreme_loop (ob_high w, ob_ts w) (ob_low w, ob_ts w) ws of
                   ((up, up_ts), (down, down_ts)) \<Rightarrow>
                     Inr \<lparr>ex_entry_ts = entry, ex_close_ts = close, ex_entry_price = ob_ref anchor,
                        ex_close_price = ob_ref (last (w # ws)), ex_up_max = max 0 (up - ob_ref anchor),
                        ex_down_max = max 0 (ob_ref anchor - down), ex_up_max_ts = up_ts, ex_down_max_ts = down_ts,
                        ex_sample_count = length (w # ws)\<rparr>)))"

definition realized_excursion :: "series_item list \<Rightarrow> datetime \<Rightarrow> datetime \<Rightarrow> int \<Rightarrow> excursion_result result" where
  "realized_excursion series entry close gap =
     res_bind (to_utc (ValueError ''entry must be timezone-aware'') entry) (\<lambda>e.
     res_bind (to_utc (ValueError ''close must be timezone-aware'') close) (\<lambda>c.
       if \<not> e < c then Inl (ValueError ''require entry < close'')
       else if gap \<le> 0 then Inl (ValueError ''max_gap_seconds must be positive'')
       else res_bind (normalize_series series) (\<lambda>obs. excursion_of obs e c gap)))"

section \<open>Coverage\<close>

lemma adjacent_sorted:
  "\<not> list_ex (\<lambda>(l, r). f l \<ge> f r) (zip xs (tl xs)) \<longleftrightarrow> sorted_wrt (\<lambda>a b. f a < (f b :: int)) xs"
proof (induction xs)
  case (Cons x xs)
  then show ?case by (cases xs) (auto simp: not_le intro: less_trans)
qed simp

lemma normalize_series_Inr:
  assumes "normalize_series series = Inr obs"
  shows "sorted_wrt (\<lambda>a b. ob_ts a < ob_ts b) obs" "length obs = length series" "obs \<noteq> []"
  using assms adjacent_sorted [of ob_ts obs] res_map_length
  by (fastforce simp: normalize_series_def split: if_splits)+

lemma anchor_loop_last: "anchor_loop e found xs =
    (case takeWhile (\<lambda>x. ob_ts x \<le> e) xs of [] \<Rightarrow> found | ys \<Rightarrow> Some (last ys))"
  by (induction xs arbitrary: found) (auto split: list.splits)

lemma sorted_split:
  assumes "sorted_wrt (\<lambda>a b. ob_ts a < ob_ts b) xs"
  shows "takeWhile (\<lambda>x. ob_ts x \<le> e) xs = filter (\<lambda>x. ob_ts x \<le> e) xs"
proof (rule takeWhile_eq_filter)
  fix x assume "x \<in> set (dropWhile (\<lambda>x. ob_ts x \<le> e) xs)"
  moreover have "\<forall>y \<in> set (dropWhile (\<lambda>x. ob_ts x \<le> e) xs). e < ob_ts y"
    using assms by (induction xs) auto
  ultimately show "\<not> ob_ts x \<le> e" by auto
qed

lemma last_sorted:
  assumes "sorted_wrt (\<lambda>a b. ob_ts a < ob_ts b) xs" and "xs \<noteq> []"
  shows "\<forall>x \<in> set xs. ob_ts x \<le> ob_ts (last xs)"
  using assms by (induction xs) (auto split: if_splits intro: less_imp_le)

lemma strict_distinct: "sorted_wrt (\<lambda>a b. ob_ts a < ob_ts b) xs \<Longrightarrow> distinct xs"
  by (induction xs) auto

text \<open>The observation in force at the entry.\<close>

definition in_force :: "price_obs list \<Rightarrow> instant \<Rightarrow> price_obs \<Rightarrow> bool" where
  "in_force obs t a \<longleftrightarrow> a \<in> set obs \<and> ob_ts a \<le> t \<and> (\<forall>x \<in> set obs. ob_ts x \<le> t \<longrightarrow> ob_ts x \<le> ob_ts a)"

lemma anchor_in_force:
  assumes "sorted_wrt (\<lambda>a b. ob_ts a < ob_ts b) obs"
  shows "case anchor_loop e None obs of None \<Rightarrow> \<forall>x \<in> set obs. e < ob_ts x | Some a \<Rightarrow> in_force obs e a"
proof (cases "filter (\<lambda>x. ob_ts x \<le> e) obs")
  case Nil
  then show ?thesis using sorted_split [OF assms, of e] by (auto simp: anchor_loop_last filter_empty_conv not_le)
next
  case (Cons y ys)
  let ?f = "filter (\<lambda>x. ob_ts x \<le> e) obs"
  have "sorted_wrt (\<lambda>a b. ob_ts a < ob_ts b) ?f" using assms by (rule sorted_wrt_filter)
  from last_sorted [OF this] Cons have "\<forall>x \<in> set ?f. ob_ts x \<le> ob_ts (last ?f)" by simp
  moreover have "last ?f \<in> set ?f" using Cons by (intro last_in_set) simp
  ultimately have "in_force obs e (last ?f)" by (auto simp: in_force_def)
  moreover have "anchor_loop e None obs = Some (last ?f)"
    using sorted_split [OF assms, of e] Cons by (simp add: anchor_loop_last)
  ultimately show ?thesis by simp
qed

text \<open>Every observation of the window follows an earlier one within the allowed gap, and so does the close.\<close>

definition covered :: "price_obs list \<Rightarrow> instant \<Rightarrow> instant \<Rightarrow> int \<Rightarrow> bool" where
  "covered obs entry close gap \<longleftrightarrow>
     (\<exists>x \<in> set obs. ob_ts x \<le> entry) \<and> (\<exists>x \<in> set obs. entry < ob_ts x \<and> ob_ts x \<le> close)
     \<and> (\<forall>x \<in> set obs. entry < ob_ts x \<and> ob_ts x \<le> close \<longrightarrow>
          (\<exists>y \<in> set obs. ob_ts y < ob_ts x \<and> ob_ts x - ob_ts y \<le> seconds gap))
     \<and> (\<exists>y \<in> set obs. ob_ts y \<le> close \<and> close - ob_ts y \<le> seconds gap)"

section \<open>The window\<close>

lemma gap_loop_Inr:
  assumes "sorted_wrt (\<lambda>a b. ob_ts a < ob_ts b) (a # xs)"
  shows "is_ok (gap_loop gap (ob_ts a) xs) \<longleftrightarrow>
    (\<forall>x \<in> set xs. \<exists>y \<in> set (a # xs). ob_ts y < ob_ts x \<and> ob_ts x - ob_ts y \<le> seconds gap)"
  using assms
proof (induction xs arbitrary: a)
  case (Cons x xs)
  have near: "(\<exists>y \<in> set (a # x # xs). ob_ts y < ob_ts z \<and> ob_ts z - ob_ts y \<le> seconds gap)
      \<longleftrightarrow> (\<exists>y \<in> set (x # xs). ob_ts y < ob_ts z \<and> ob_ts z - ob_ts y \<le> seconds gap)" if "z \<in> set xs" for z
    using Cons.prems that by force
  have first: "(\<exists>y \<in> set (a # x # xs). ob_ts y < ob_ts x \<and> ob_ts x - ob_ts y \<le> seconds gap)
      \<longleftrightarrow> ob_ts x - ob_ts a \<le> seconds gap"
    using Cons.prems by force
  have "is_ok (gap_loop gap (ob_ts x) xs) \<longleftrightarrow>
      (\<forall>z \<in> set xs. \<exists>y \<in> set (x # xs). ob_ts y < ob_ts z \<and> ob_ts z - ob_ts y \<le> seconds gap)"
    using Cons by simp
  then show ?case using near first by simp
qed simp

lemma gap_loop_fails: "\<not> is_ok (gap_loop gap p xs) \<Longrightarrow> \<exists>m. gap_loop gap p xs = Inl (ExcursionCoverageError m)"
  by (induction gap p xs rule: gap_loop.induct) (auto split: if_splits)

lemma gap_loop_last: "gap_loop gap (ob_ts a) xs = Inr p \<Longrightarrow> p = ob_ts (last (a # xs))"
  by (induction xs arbitrary: a) (auto split: if_splits)

text \<open>An extreme value and the time it was first reached.\<close>

definition first_reached :: "(price_obs \<Rightarrow> rat) \<Rightarrow> price_obs set \<Rightarrow> rat \<Rightarrow> instant \<Rightarrow> bool" where
  "first_reached f W v t \<longleftrightarrow> (\<exists>x \<in> W. f x = v \<and> ob_ts x = t)
     \<and> (\<forall>y \<in> W. f y \<le> v \<and> (f y = v \<longrightarrow> t \<le> ob_ts y))"

lemma first_reached_insert:
  assumes "first_reached f W v t" and "\<forall>y \<in> W. ob_ts y < ob_ts x"
  shows "first_reached f (insert x W) (if f x > v then f x else v) (if f x > v then ob_ts x else t)"
  using assms by (fastforce simp: first_reached_def)

lemma extreme_loop_reached:
  assumes "extreme_loop up down xs = (up', down')"
    and "first_reached ob_high (set pre) (fst up) (snd up)"
    and "first_reached (\<lambda>x. - ob_low x) (set pre) (- fst down) (snd down)"
    and "sorted_wrt (\<lambda>a b. ob_ts a < ob_ts b) (pre @ xs)"
  shows "first_reached ob_high (set (pre @ xs)) (fst up') (snd up')
    \<and> first_reached (\<lambda>x. - ob_low x) (set (pre @ xs)) (- fst down') (snd down')"
  using assms
proof (induction xs arbitrary: pre up down)
  case (Cons x xs)
  have "\<forall>y \<in> set pre. ob_ts y < ob_ts x" using Cons.prems(4) by (auto simp: sorted_wrt_append)
  note high = first_reached_insert [OF Cons.prems(2) this] and low = first_reached_insert [OF Cons.prems(3) this]
  have "first_reached ob_high (set (pre @ [x])) (fst (if ob_high x > fst up then (ob_high x, ob_ts x) else up))
      (snd (if ob_high x > fst up then (ob_high x, ob_ts x) else up))"
    using high by (cases "ob_high x > fst up") (simp_all add: insert_commute)
  moreover have "first_reached (\<lambda>x. - ob_low x) (set (pre @ [x])) (- fst (if ob_low x < fst down then (ob_low x, ob_ts x) else down))
      (snd (if ob_low x < fst down then (ob_low x, ob_ts x) else down))"
    using low by (cases "ob_low x < fst down") (simp_all add: insert_commute)
  ultimately show ?case using Cons.IH [of _ _ "pre @ [x]"] Cons.prems(1,4) by simp
qed simp

lemma max_first_reached:
  assumes "first_reached f W v t" and "finite W"
  shows "max 0 (v - p) = Max (insert 0 ((\<lambda>x. f x - p) ` W))"
proof (rule Max_eqI [symmetric])
  show "max 0 (v - p) \<in> insert 0 ((\<lambda>x. f x - p) ` W)"
    using assms(1) by (force simp: first_reached_def max_def)
  show "y \<le> max 0 (v - p)" if "y \<in> insert 0 ((\<lambda>x. f x - p) ` W)" for y
    using assms(1) that by (auto simp: first_reached_def intro: max.coboundedI2)
qed (use assms(2) in simp)

section \<open>Properties\<close>

definition window_set :: "price_obs list \<Rightarrow> instant \<Rightarrow> instant \<Rightarrow> price_obs set" where
  "window_set obs entry close = {x \<in> set obs. entry < ob_ts x \<and> ob_ts x \<le> close}"

lemma window_of_set [simp]: "set (window_of obs e c) = window_set obs e c"
  by (auto simp: window_of_def window_set_def)

lemma window_sorted:
  assumes "sorted_wrt (\<lambda>a b. ob_ts a < ob_ts b) obs" and "in_force obs e a"
  shows "sorted_wrt (\<lambda>a b. ob_ts a < ob_ts b) (a # window_of obs e c)"
  using assms by (auto simp: window_of_def in_force_def intro: sorted_wrt_filter)

lemma covered_iff_gaps:
  assumes sorted: "sorted_wrt (\<lambda>a b. ob_ts a < ob_ts b) obs" and a: "in_force obs e a" and "e < c"
    and w: "window_of obs e c \<noteq> []"
  shows "covered obs e c gap \<longleftrightarrow> is_ok (gap_loop gap (ob_ts a) (window_of obs e c))
    \<and> c - ob_ts (last (window_of obs e c)) \<le> seconds gap"
proof -
  let ?w = "window_of obs e c"
  have before: "ob_ts y \<le> ob_ts a" if "y \<in> set obs" "ob_ts y \<le> e" for y using a that by (simp add: in_force_def)
  have mem: "set (a # ?w) \<subseteq> set obs" using a by (auto simp: in_force_def window_set_def)
  have pred: "(\<exists>y \<in> set obs. ob_ts y < ob_ts x \<and> ob_ts x - ob_ts y \<le> seconds gap)
      \<longleftrightarrow> (\<exists>y \<in> set (a # ?w). ob_ts y < ob_ts x \<and> ob_ts x - ob_ts y \<le> seconds gap)" if x: "x \<in> set ?w" for x
  proof
    assume "\<exists>y \<in> set obs. ob_ts y < ob_ts x \<and> ob_ts x - ob_ts y \<le> seconds gap"
    then obtain y where y: "y \<in> set obs" "ob_ts y < ob_ts x" "ob_ts x - ob_ts y \<le> seconds gap" by blast
    show "\<exists>y \<in> set (a # ?w). ob_ts y < ob_ts x \<and> ob_ts x - ob_ts y \<le> seconds gap"
    proof (cases "ob_ts y \<le> e")
      case True
      then have "ob_ts y \<le> ob_ts a" "ob_ts a < ob_ts x" using before [OF y(1)] a x by (auto simp: in_force_def window_set_def)
      with y(3) show ?thesis by (intro bexI [of _ a]) auto
    next
      case False
      with y x show ?thesis by (intro bexI [of _ y]) (auto simp: window_set_def)
    qed
  qed (use mem in blast)
  have gaps: "is_ok (gap_loop gap (ob_ts a) ?w) \<longleftrightarrow> (\<forall>x \<in> set obs. e < ob_ts x \<and> ob_ts x \<le> c \<longrightarrow>
      (\<exists>y \<in> set obs. ob_ts y < ob_ts x \<and> ob_ts x - ob_ts y \<le> seconds gap))"
    using gap_loop_Inr [OF window_sorted [OF sorted a]] pred by (auto simp: window_set_def)
  have l: "last ?w \<in> set ?w" using last_in_set [OF w] .
  have "sorted_wrt (\<lambda>a b. ob_ts a < ob_ts b) ?w" using window_sorted [OF sorted a, of c] by simp
  from last_sorted [OF this w] have most: "ob_ts y \<le> ob_ts (last ?w)" if "y \<in> set obs" "ob_ts y \<le> c" for y
    using that before [of y] l a by (cases "ob_ts y \<le> e") (auto simp: window_set_def in_force_def)
  have "(\<exists>y \<in> set obs. ob_ts y \<le> c \<and> c - ob_ts y \<le> seconds gap) \<longleftrightarrow> c - ob_ts (last ?w) \<le> seconds gap"
    using l most by (force simp: window_set_def)
  moreover have "\<exists>x \<in> set obs. ob_ts x \<le> e" "\<exists>x \<in> set obs. e < ob_ts x \<and> ob_ts x \<le> c"
    using a l by (auto simp: in_force_def window_set_def)
  ultimately show ?thesis unfolding covered_def gaps by blast
qed

lemma excursion_of_uncovered:
  assumes sorted: "sorted_wrt (\<lambda>a b. ob_ts a < ob_ts b) obs" and "e < c" and "\<not> covered obs e c gap"
  shows "\<exists>m. excursion_of obs e c gap = Inl (ExcursionCoverageError m)"
proof (cases "anchor_loop e None obs")
  case (Some a)
  then have a: "in_force obs e a" using anchor_in_force [OF sorted, of e] by simp
  show ?thesis
  proof (cases "window_of obs e c")
    case (Cons w ws)
    then have "window_of obs e c \<noteq> []" by simp
    from covered_iff_gaps [OF sorted a assms(2) this, of gap] assms(3) Cons
    consider "\<not> is_ok (gap_loop gap (ob_ts a) (w # ws))"
      | p where "gap_loop gap (ob_ts a) (w # ws) = Inr p" "\<not> c - ob_ts (last (w # ws)) \<le> seconds gap"
      by (auto simp: is_ok_iff simp del: gap_loop.simps)
    then show ?thesis
    proof cases
      case 1
      with gap_loop_fails [OF 1] show ?thesis by (auto simp: excursion_of_def Some Cons simp del: gap_loop.simps)
    next
      case 2
      with gap_loop_last [OF 2(1)] show ?thesis by (simp add: excursion_of_def Some Cons not_le del: gap_loop.simps)
    qed
  qed (simp add: excursion_of_def Some)
qed (simp add: excursion_of_def)

lemma excursion_of_covered:
  assumes sorted: "sorted_wrt (\<lambda>a b. ob_ts a < ob_ts b) obs" and "e < c" and cov: "covered obs e c gap"
  shows "\<exists>r a z. excursion_of obs e c gap = Inr r \<and> in_force obs e a \<and> ex_entry_price r = ob_ref a
    \<and> in_force obs c z \<and> e < ob_ts z \<and> ex_close_price r = ob_ref z
    \<and> ex_up_max r = Max (insert 0 ((\<lambda>x. ob_high x - ex_entry_price r) ` window_set obs e c))
    \<and> ex_down_max r = Max (insert 0 ((\<lambda>x. ex_entry_price r - ob_low x) ` window_set obs e c))
    \<and> (\<exists>high. first_reached ob_high (window_set obs e c) high (ex_up_max_ts r))
    \<and> (\<exists>low. first_reached (\<lambda>x. - ob_low x) (window_set obs e c) (- low) (ex_down_max_ts r))
    \<and> ex_sample_count r = card (window_set obs e c)"
proof -
  obtain a where a: "anchor_loop e None obs = Some a" "in_force obs e a"
    using anchor_in_force [OF sorted, of e] cov by (auto simp: covered_def split: option.splits)
  let ?W = "window_set obs e c"
  have ne: "window_of obs e c \<noteq> []" using cov by (auto simp: covered_def window_of_def filter_empty_conv)
  then obtain w ws where w: "window_of obs e c = w # ws" by (cases "window_of obs e c") auto
  have set: "set (w # ws) = ?W" using window_of_set [of obs e c] by (simp add: w)
  from covered_iff_gaps [OF sorted a(2) assms(2) ne, of gap] cov w obtain p where
    p: "gap_loop gap (ob_ts a) (w # ws) = Inr p" "c - ob_ts (last (w # ws)) \<le> seconds gap"
    by (auto simp: is_ok_iff simp del: gap_loop.simps)
  with gap_loop_last [OF p(1)] have p': "\<not> c - p > seconds gap" by simp
  obtain up down where ul: "extreme_loop (ob_high w, ob_ts w) (ob_low w, ob_ts w) ws = (up, down)"
    by (cases "extreme_loop (ob_high w, ob_ts w) (ob_low w, ob_ts w) ws")
  have sw: "sorted_wrt (\<lambda>a b. ob_ts a < ob_ts b) (w # ws)" using window_sorted [OF sorted a(2), of c] by (simp add: w)
  have reached: "first_reached ob_high ?W (fst up) (snd up)" "first_reached (\<lambda>x. - ob_low x) ?W (- fst down) (snd down)"
    using extreme_loop_reached [OF ul, of "[w]"] sw set by (auto simp: first_reached_def)
  have fin: "finite ?W" by (simp add: window_set_def)
  define r where "r = \<lparr>ex_entry_ts = e, ex_close_ts = c, ex_entry_price = ob_ref a,
    ex_close_price = ob_ref (last (w # ws)), ex_up_max = max 0 (fst up - ob_ref a),
    ex_down_max = max 0 (ob_ref a - fst down), ex_up_max_ts = snd up, ex_down_max_ts = snd down,
    ex_sample_count = length (w # ws)\<rparr>"
  have "excursion_of obs e c gap = Inr r"
    using a(1) p(1) p' ul by (cases up, cases down) (simp add: excursion_of_def w r_def del: gap_loop.simps)
  moreover have "in_force obs c (last (w # ws)) \<and> e < ob_ts (last (w # ws))"
  proof -
    have l: "last (w # ws) \<in> ?W" using set last_in_set [of "w # ws"] by blast
    have "ob_ts x \<le> ob_ts (last (w # ws))" if "x \<in> set obs" "ob_ts x \<le> c" for x
      using that last_sorted [OF sw] set l by (cases "e < ob_ts x") (auto simp: window_set_def)
    with l show ?thesis by (simp add: in_force_def window_set_def)
  qed
  moreover have "ex_up_max r = Max (insert 0 ((\<lambda>x. ob_high x - ex_entry_price r) ` ?W))"
    using max_first_reached [OF reached(1) fin] by (simp add: r_def)
  moreover have "ex_down_max r = Max (insert 0 ((\<lambda>x. ex_entry_price r - ob_low x) ` ?W))"
    using max_first_reached [OF reached(2) fin, of "- ob_ref a"] by (simp add: r_def add.commute)
  moreover have "ex_sample_count r = card ?W"
  proof -
    from distinct_card [OF strict_distinct [OF sw]] show ?thesis by (simp add: r_def set [symmetric])
  qed
  ultimately show ?thesis using a(2) reached by (intro exI [of _ r] exI [of _ a] exI [of _ "last (w # ws)"]) (auto simp: r_def)
qed

text \<open>C27. A label is honest and a refusal is necessary: for a series that is in order, the excursion from the
  entry to the close is refused exactly when the series does not cover the window, every observation
  and the close following an earlier one within the allowed gap; otherwise the entry and close prices
  are those in force at the two instants, never later ones, the excursions are the largest over the
  observations after the entry and up to the close, and their times are the first at which they were
  reached.\<close>

theorem excursion_label_exact:
  assumes "normalize_series series = Inr obs" and "e < c" and "0 < gap"
  shows "case realized_excursion series (Aware e) (Aware c) gap of
     Inl err \<Rightarrow> \<not> covered obs e c gap \<and> (\<exists>m. err = ExcursionCoverageError m)
   | Inr r \<Rightarrow> covered obs e c gap
       \<and> (\<exists>a. in_force obs e a \<and> ex_entry_price r = ob_ref a)
       \<and> (\<exists>z. in_force obs c z \<and> e < ob_ts z \<and> ex_close_price r = ob_ref z)
       \<and> ex_up_max r = Max (insert 0 ((\<lambda>x. ob_high x - ex_entry_price r) ` window_set obs e c))
       \<and> ex_down_max r = Max (insert 0 ((\<lambda>x. ex_entry_price r - ob_low x) ` window_set obs e c))
       \<and> (\<exists>high. first_reached ob_high (window_set obs e c) high (ex_up_max_ts r))
       \<and> (\<exists>low. first_reached (\<lambda>x. - ob_low x) (window_set obs e c) (- low) (ex_down_max_ts r))
       \<and> ex_sample_count r = card (window_set obs e c)"
proof -
  note sorted = normalize_series_Inr(1) [OF assms(1)]
  have run: "realized_excursion series (Aware e) (Aware c) gap = excursion_of obs e c gap"
    using assms by (simp add: realized_excursion_def)
  show ?thesis
  proof (cases "covered obs e c gap")
    case True
    with excursion_of_covered [OF sorted assms(2) True] show ?thesis unfolding run by fastforce
  next
    case False
    with excursion_of_uncovered [OF sorted assms(2) False] show ?thesis unfolding run by fastforce
  qed
qed

definition demo_series :: "series_item list" where
  "demo_series = [PointItem (Aware 0) 100, PointItem (Aware 60000000) 103, PointItem (Aware 120000000) 98]"

theorem excursion_label_exact_witness:
  "\<exists>r. realized_excursion demo_series (Aware 0) (Aware 120000000) 180 = Inr r \<and> ex_up_max r = 3 \<and> ex_down_max r = 2
    \<and> ex_up_max_ts r = 60000000 \<and> ex_sample_count r = 2 \<and> ex_close_price r = 98"
proof -
  let ?o = "[\<lparr>ob_ts = 0, ob_high = 100, ob_low = 100, ob_ref = 100\<rparr>, \<lparr>ob_ts = 60000000, ob_high = 103, ob_low = 103, ob_ref = 103\<rparr>,
    \<lparr>ob_ts = 120000000, ob_high = 98, ob_low = 98, ob_ref = 98\<rparr>]"
  have n: "normalize_series demo_series = Inr ?o" by (simp add: normalize_series_def demo_series_def normalize_item_def)
  have c: "covered ?o 0 120000000 180" by (simp add: covered_def seconds_def)
  obtain r where r: "realized_excursion demo_series (Aware 0) (Aware 120000000) 180 = Inr r"
    using excursion_label_exact [OF n, of 0 120000000 180] c by (auto split: sum.splits)
  from excursion_label_exact [OF n, of 0 120000000 180] r have "covered ?o 0 120000000 180" by simp
  moreover have "realized_excursion demo_series (Aware 0) (Aware 120000000) 180 = excursion_of ?o 0 120000000 180"
    using n by (simp add: realized_excursion_def)
  ultimately show ?thesis using r by (auto simp: excursion_of_def window_of_def seconds_def max_def)
qed

end
