(* ===== verification/LabelBatch.thy ===== *)
theory LabelBatch
  imports Excursions BatchLedger DateText
begin

text \<open>
  The batch of excursion labels over landed futures history (\<open>validation/excursion_batch.py\<close>): the day
  index of the batch ledger, the append-only label store, one day's label record, and the loop over
  the days of a window.  The label file is the list of the values its lines decode to, a line
  appended being the record itself; \<open>py_str\<close> is \<open>str\<close> on values that are not texts, \<open>fr\<close> the text
  \<open>json\<close> prints for a float, \<open>et_utc\<close> the wall clock of New York and \<open>loader\<close> the source of a day's bars.
\<close>

section \<open>The label store\<close>

definition ES_LOGICAL_PREFIX :: string where "ES_LOGICAL_PREFIX = ''GLBX.MDP3/ohlcv-1m/es-front-month/''"
definition DEFINITIONS_LOGICAL_PREFIX :: string where "DEFINITIONS_LOGICAL_PREFIX = ''OPRA.PILLAR/definition/spxw-definitions/''"
definition CODE_VERSION :: string where "CODE_VERSION = ''marketpilot-0.1.0:excursion-batch-v1''"

type_synonym label_record = "(string, pyval) dict"

definition load_label :: "pyval \<Rightarrow> label_record result" where
  "load_label v =
     (case v of
        PDict d \<Rightarrow> if map_of d ''day'' = None then Inl (ValueError ''corrupt label record'') else Inr d
      | _ \<Rightarrow> Inl (ValueError ''corrupt label record''))"

definition load_labels :: "pyval list \<Rightarrow> label_record list result" where
  "load_labels file_lines = res_map load_label file_lines"

definition str_of :: "(pyval \<Rightarrow> string) \<Rightarrow> pyval \<Rightarrow> string" where
  "str_of py_str v = (case v of PStr s \<Rightarrow> s | _ \<Rightarrow> py_str v)"

definition label_day_of :: "(pyval \<Rightarrow> string) \<Rightarrow> label_record \<Rightarrow> pydate result" where
  "label_day_of py_str d = (case map_of d ''day'' of None \<Rightarrow> Inl (KeyError ''day'') | Some v \<Rightarrow> date_fromisoformat (str_of py_str v))"

definition labelled_days :: "(pyval \<Rightarrow> string) \<Rightarrow> pyval list \<Rightarrow> pydate list result" where
  "labelled_days py_str file_lines = res_bind (load_labels file_lines) (res_map (label_day_of py_str))"

section \<open>The ledger's days\<close>

fun index_loop :: "pit_record list \<Rightarrow> (pydate, string) dict \<Rightarrow> pydate list \<Rightarrow> ((pydate, string) dict \<times> pydate list) result" where
  "index_loop [] es defs = Inr (es, defs)"
| "index_loop (r # rs) es defs =
     (if prefix ES_LOGICAL_PREFIX (logical_key r)
      then res_bind (date_fromisoformat (drop (length ES_LOGICAL_PREFIX) (logical_key r))) (\<lambda>d.
             index_loop rs (AList.update d (record_id r) es) defs)
      else if prefix DEFINITIONS_LOGICAL_PREFIX (logical_key r)
      then res_bind (date_fromisoformat (drop (length DEFINITIONS_LOGICAL_PREFIX) (logical_key r))) (\<lambda>d.
             index_loop rs es (List.insert d defs))
      else index_loop rs es defs)"

definition ledger_day_index :: "(string \<Rightarrow> string) \<Rightarrow> batch_file \<Rightarrow> ((pydate, string) dict \<times> pydate list) result" where
  "ledger_day_index sha ledger_file = res_bind (batch_load sha ledger_file) (\<lambda>rs. index_loop rs [] [])"

section \<open>One label\<close>

text \<open>\<open>time.isoformat()\<close> of a time given in microseconds.\<close>

definition clock_text :: "int \<Rightarrow> string" where
  "clock_text t =
     (let us = nat t; sec = us div 1000000; f = us mod 1000000
      in pad 2 (show_nat (sec div 3600)) @ '':'' @ pad 2 (show_nat (sec div 60 mod 60)) @ '':'' @ pad 2 (show_nat (sec mod 60))
         @ (if f = 0 then [] else ''.'' @ pad 6 (show_nat f)))"

record label_config =
  lg_anchors :: "(pydate, rat) dict"
  lg_entry :: int
  lg_close :: int
  lg_early :: "(pydate, int) dict"
  lg_loader :: "pydate \<Rightarrow> instant minute_bar list result"
  lg_et_utc :: "pydate \<Rightarrow> int \<Rightarrow> instant"
  lg_fr :: "rat \<Rightarrow> string"
  lg_computed_at :: instant

definition build_label_record ::
  "label_config \<Rightarrow> pydate \<Rightarrow> instant minute_bar list \<Rightarrow> instant minute_bar list \<Rightarrow> rat \<Rightarrow> int \<Rightarrow> string \<Rightarrow> string
     \<Rightarrow> label_record result" where
  "build_label_record c day bars prior_bars cash close_et es_id prior_id =
     (let number = (\<lambda>q. PFloat q (lg_fr c q)) in
      res_bind (last_bar_close prior_bars) (\<lambda>f_a.
      res_bind (implied_spx_series bars cash f_a) (\<lambda>series.
      res_bind (realized_excursion (map (\<lambda>(t, v). PointItem (Aware t) v) series) (Aware (lg_et_utc c day (lg_entry c)))
          (Aware (lg_et_utc c day close_et)) 180) (\<lambda>r.
        Inr [(''day'', PStr (iso_date day)), (''entry_et'', PStr (clock_text (lg_entry c))),
             (''close_et'', PStr (clock_text close_et)), (''spx_a'', number cash), (''f_a'', number f_a),
             (''entry_price'', number (ex_entry_price r)), (''close_price'', number (ex_close_price r)),
             (''up_max'', number (ex_up_max r)), (''down_max'', number (ex_down_max r)),
             (''up_max_ts'', PStr (isoformat (ex_up_max_ts r))), (''down_max_ts'', PStr (isoformat (ex_down_max_ts r))),
             (''sample_count'', PInt (int (ex_sample_count r))), (''es_record_id'', PStr es_id),
             (''prior_es_record_id'', PStr prior_id), (''code_version'', PStr CODE_VERSION),
             (''computed_at'', PStr (isoformat (lg_computed_at c)))]))))"

section \<open>The batch\<close>

datatype label_outcome = LABELLED | ALREADY_PRESENT | SKIPPED_NO_ANCHOR | SKIPPED_NO_PRIOR | SKIPPED_COVERAGE
  | SKIPPED_ENTRY_AFTER_CLOSE | GAP

record label_disposition =
  ld_day :: pydate
  ld_outcome :: label_outcome
  ld_detail :: string

record label_report =
  lr_start :: pydate
  lr_end :: pydate
  lr_outcomes :: "label_disposition list"

definition report_counts :: "label_report \<Rightarrow> (label_outcome, nat) dict" where
  "report_counts r = fold (\<lambda>x d. AList.update (ld_outcome x) ((case map_of d (ld_outcome x) of None \<Rightarrow> 0 | Some n \<Rightarrow> n) + 1) d)
     (lr_outcomes r) []"

text \<open>The state of a run: the label file, the days it has, the bars decoded so far and, for the record, the
  days the loader was asked for.\<close>

record label_state =
  lb_store :: "pyval list"
  lb_present :: "pydate list"
  lb_cache :: "(pydate, instant minute_bar list) dict"
  lb_asked :: "pydate list"
  lb_outcomes :: "label_disposition list"

definition bars_for :: "label_config \<Rightarrow> pydate \<Rightarrow> label_state \<Rightarrow> instant minute_bar list result \<times> label_state" where
  "bars_for c day s =
     (case map_of (lb_cache s) day of
        Some bars \<Rightarrow> (Inr bars, s)
      | None \<Rightarrow>
          let s' = s\<lparr>lb_asked := lb_asked s @ [day]\<rparr> in
          (case lg_loader c day of
             Inl e \<Rightarrow> (Inl e, s')
           | Inr bars \<Rightarrow> (Inr bars, s'\<lparr>lb_cache := AList.update day bars (lb_cache s')\<rparr>)))"

definition report_day :: "pydate \<Rightarrow> label_outcome \<Rightarrow> string \<Rightarrow> label_state \<Rightarrow> label_state" where
  "report_day day oc detail s = s\<lparr>lb_outcomes := lb_outcomes s @ [\<lparr>ld_day = day, ld_outcome = oc, ld_detail = detail\<rparr>]\<rparr>"

definition compute_label ::
  "label_config \<Rightarrow> (pydate, string) dict \<Rightarrow> pydate \<Rightarrow> pydate \<Rightarrow> rat \<Rightarrow> int \<Rightarrow> label_state \<Rightarrow> label_record result \<times> label_state" where
  "compute_label c es day prior cash close_et s =
     (case bars_for c day s of
        (Inl e, s1) \<Rightarrow> (Inl e, s1)
      | (Inr bars, s1) \<Rightarrow>
          (case bars_for c prior s1 of
             (Inl e, s2) \<Rightarrow> (Inl e, s2)
           | (Inr prior_bars, s2) \<Rightarrow>
               (case (map_of es day, map_of es prior) of
                  (Some i, Some j) \<Rightarrow> (build_label_record c day bars prior_bars cash close_et i j, s2)
                | _ \<Rightarrow> (Inl (KeyError ''day''), s2))))"

definition label_day :: "label_config \<Rightarrow> (pydate, string) dict \<Rightarrow> pydate list \<Rightarrow> pydate \<Rightarrow> label_state \<Rightarrow> unit result \<times> label_state" where
  "label_day c es defs day s =
     (let es_days = sort (map fst es); n = length (filter (\<lambda>d. d < day) es_days) in
      if map_of es day = None
      then (Inr (), if day \<in> set defs then report_day day GAP ''definition batch landed but ES batch is missing'' s else s)
      else if day \<in> set (lb_present s) then (Inr (), report_day day ALREADY_PRESENT [] s)
      else if n = 0 then (Inr (), report_day day SKIPPED_NO_PRIOR ''no earlier landed ES day to anchor F_a'' s)
      else
        let prior = es_days ! (n - 1) in
        (case map_of (lg_anchors c) prior of
           None \<Rightarrow> (Inr (), report_day day SKIPPED_NO_ANCHOR (''no official SPX cash close for prior day '' @ iso_date prior) s)
         | Some cash \<Rightarrow>
             let day_close = (case map_of (lg_early c) day of None \<Rightarrow> lg_close c | Some t \<Rightarrow> t) in
             if lg_entry c \<ge> day_close
             then (Inr (), report_day day SKIPPED_ENTRY_AFTER_CLOSE
                    (''entry '' @ clock_text (lg_entry c) @ '' is not before close '' @ clock_text day_close) s)
             else
               (case compute_label c es day prior cash day_close s of
                  (Inl (ExcursionCoverageError m), s') \<Rightarrow> (Inr (), report_day day SKIPPED_COVERAGE m s')
                | (Inl e, s') \<Rightarrow> (Inl e, s')
                | (Inr label, s') \<Rightarrow>
                    (Inr (), report_day day LABELLED []
                       (s'\<lparr>lb_store := lb_store s' @ [PDict label], lb_present := List.insert day (lb_present s')\<rparr>)))))"

text \<open>Stepping past the last date Python has raises.\<close>

function label_loop :: "label_config \<Rightarrow> (pydate, string) dict \<Rightarrow> pydate list \<Rightarrow> pydate \<Rightarrow> pydate \<Rightarrow> label_state \<Rightarrow> unit result \<times> label_state" where
  "label_loop c es defs end_day day s =
     (if \<not> day \<le> end_day then (Inr (), s)
      else case label_day c es defs day s of
        (Inl e, s') \<Rightarrow> (Inl e, s')
      | (Inr _, s') \<Rightarrow>
          if day = date_max then (Inl (OverflowError ''date value out of range''), s')
          else label_loop c es defs end_day (day + 1) s')"
  by pat_completeness auto
termination by (relation "measure (\<lambda>(c, es, defs, end_day, day, s). nat (end_day + 1 - day))") auto

declare label_loop.simps [simp del]

definition generate_labels ::
  "(string \<Rightarrow> string) \<Rightarrow> (pyval \<Rightarrow> string) \<Rightarrow> label_config \<Rightarrow> batch_file \<Rightarrow> pydate \<Rightarrow> pydate \<Rightarrow> pyval list
     \<Rightarrow> label_report result \<times> pyval list \<times> pydate list" where
  "generate_labels sha py_str c ledger_file start end_day store =
     (if start > end_day then (Inl (ValueError ''start must not be after end''), store, [])
      else case ledger_day_index sha ledger_file of
        Inl e \<Rightarrow> (Inl e, store, [])
      | Inr (es, defs) \<Rightarrow>
          (case labelled_days py_str store of
             Inl e \<Rightarrow> (Inl e, store, [])
           | Inr present \<Rightarrow>
               (case label_loop c es defs end_day start
                    \<lparr>lb_store = store, lb_present = present, lb_cache = [], lb_asked = [], lb_outcomes = []\<rparr> of
                  (Inl e, s) \<Rightarrow> (Inl e, lb_store s, lb_asked s)
                | (Inr _, s) \<Rightarrow> (Inr \<lparr>lr_start = start, lr_end = end_day, lr_outcomes = lb_outcomes s\<rparr>, lb_store s, lb_asked s))))"

section \<open>The previous landed day\<close>

definition prior_landed :: "(pydate, string) dict \<Rightarrow> pydate \<Rightarrow> pydate \<Rightarrow> bool" where
  "prior_landed es day p \<longleftrightarrow> p \<in> fst ` set es \<and> p < day \<and> (\<forall>x \<in> fst ` set es. x < day \<longrightarrow> x \<le> p)"

lemma sorted_filter_take: "sorted (xs :: int list) \<Longrightarrow> filter (\<lambda>x. x < d) xs = take (length (filter (\<lambda>x. x < d) xs)) xs"
proof (induction xs)
  case (Cons x xs)
  show ?case
  proof (cases "x < d")
    case False
    with Cons.prems have "filter (\<lambda>x. x < d) (x # xs) = []" by (auto simp: filter_empty_conv)
    then show ?thesis by simp
  qed (use Cons in simp)
qed simp

lemma sorted_last_greatest: "sorted (xs :: int list) \<Longrightarrow> x \<in> set xs \<Longrightarrow> x \<le> last xs"
  by (induction xs) auto

lemma bisect_prior:
  fixes es :: "(pydate, string) dict" and day :: pydate
  defines "xs \<equiv> sort (map fst es)" and "n \<equiv> length (filter (\<lambda>d. d < day) (sort (map fst es)))"
  shows "n = 0 \<longleftrightarrow> (\<forall>x \<in> fst ` set es. \<not> x < day)" and "n \<noteq> 0 \<Longrightarrow> prior_landed es day (xs ! (n - 1))"
proof -
  show "n = 0 \<longleftrightarrow> (\<forall>x \<in> fst ` set es. \<not> x < day)" by (auto simp: n_def filter_empty_conv)
  assume "n \<noteq> 0"
  let ?f = "filter (\<lambda>d. d < day) xs"
  have f: "?f = take n xs" using sorted_filter_take [of xs day] by (simp add: xs_def n_def)
  have len: "length ?f = n" by (simp add: xs_def n_def)
  with \<open>n \<noteq> 0\<close> have ne: "?f \<noteq> []" by auto
  then have "last ?f = ?f ! (n - 1)" using len by (simp add: last_conv_nth)
  moreover have "?f ! (n - 1) = xs ! (n - 1)" using \<open>n \<noteq> 0\<close> by (subst f) simp
  ultimately have l: "last ?f = xs ! (n - 1)" by simp
  have "sorted ?f" by (simp add: xs_def sorted_wrt_filter)
  then have "\<forall>x \<in> set ?f. x \<le> last ?f" by (blast intro: sorted_last_greatest)
  moreover have "last ?f \<in> set ?f" using ne by (rule last_in_set)
  ultimately show "prior_landed es day (xs ! (n - 1))" unfolding l [symmetric] by (force simp: prior_landed_def xs_def)
qed

lemma prior_landed_unique: "prior_landed es day p \<Longrightarrow> prior_landed es day q \<Longrightarrow> p = q"
  by (auto simp: prior_landed_def intro: antisym)

section \<open>Decoding\<close>

definition loads_ok :: "label_config \<Rightarrow> label_state \<Rightarrow> bool" where
  "loads_ok c s \<longleftrightarrow> (\<forall>d bars. map_of (lb_cache s) d = Some bars \<longrightarrow> lg_loader c d = Inr bars)
     \<and> (\<forall>d \<in> set (lb_asked s). is_ok (lg_loader c d) \<longrightarrow> map_of (lb_cache s) d \<noteq> None)
     \<and> distinct (filter (\<lambda>d. is_ok (lg_loader c d)) (lb_asked s))"

definition same_labels :: "label_state \<Rightarrow> label_state \<Rightarrow> bool" where
  "same_labels s t \<longleftrightarrow> lb_store t = lb_store s \<and> lb_present t = lb_present s \<and> lb_outcomes t = lb_outcomes s"

lemma same_labels_trans: "same_labels s t \<Longrightarrow> same_labels t u \<Longrightarrow> same_labels s u"
  by (simp add: same_labels_def)

lemma bars_for_spec:
  assumes "bars_for c day s = (r, s')" and "loads_ok c s"
  shows "r = lg_loader c day \<and> loads_ok c s' \<and> same_labels s s'"
proof (cases "map_of (lb_cache s) day")
  case None
  then have new: "is_ok (lg_loader c day) \<longrightarrow> day \<notin> set (lb_asked s)" using assms(2) by (auto simp: loads_ok_def)
  show ?thesis
  proof (cases "lg_loader c day")
    case (Inl e)
    then have "\<not> is_ok (lg_loader c day)" by simp
    with assms None Inl show ?thesis by (auto simp: bars_for_def Let_def loads_ok_def same_labels_def)
  next
    case (Inr bars)
    with assms None new show ?thesis
      by (auto simp: bars_for_def Let_def loads_ok_def same_labels_def split: if_splits)
  qed
qed (use assms in \<open>auto simp: bars_for_def loads_ok_def same_labels_def\<close>)

text \<open>The label of a day as a function of what the loader has for the two days.\<close>

definition day_label :: "label_config \<Rightarrow> (pydate, string) dict \<Rightarrow> pydate \<Rightarrow> pydate \<Rightarrow> rat \<Rightarrow> int \<Rightarrow> label_record result" where
  "day_label c es day prior cash close_et =
     res_bind (lg_loader c day) (\<lambda>bars. res_bind (lg_loader c prior) (\<lambda>prior_bars.
       case (map_of es day, map_of es prior) of
         (Some i, Some j) \<Rightarrow> build_label_record c day bars prior_bars cash close_et i j
       | _ \<Rightarrow> Inl (KeyError ''day'')))"

lemma compute_label_spec:
  assumes "compute_label c es day prior cash close_et s = (r, s')" and "loads_ok c s"
  shows "r = day_label c es day prior cash close_et \<and> loads_ok c s' \<and> same_labels s s'"
proof -
  obtain a s1 where a: "bars_for c day s = (a, s1)" by (cases "bars_for c day s")
  note fa = bars_for_spec [OF a assms(2)]
  obtain b s2 where b: "bars_for c prior s1 = (b, s2)" by (cases "bars_for c prior s1")
  have fb: "b = lg_loader c prior \<and> loads_ok c s2 \<and> same_labels s1 s2" using bars_for_spec [OF b] fa by blast
  show ?thesis
  proof (cases "lg_loader c day")
    case (Inl e)
    with assms(1) a fa show ?thesis by (auto simp: compute_label_def day_label_def)
  next
    case bars: (Inr bars)
    show ?thesis
    proof (cases "lg_loader c prior")
      case (Inl e)
      with assms(1) a fa b fb bars show ?thesis
        by (auto simp: compute_label_def day_label_def intro: same_labels_trans)
    next
      case (Inr pb)
      with assms(1) a fa b fb bars show ?thesis
        by (auto simp: compute_label_def day_label_def intro: same_labels_trans split: option.splits)
    qed
  qed
qed

section \<open>What a disposition means\<close>

definition close_of :: "label_config \<Rightarrow> pydate \<Rightarrow> int" where
  "close_of c day = (case map_of (lg_early c) day of None \<Rightarrow> lg_close c | Some t \<Rightarrow> t)"

lemma close_of_later [simp]: "close_of (c\<lparr>lg_computed_at := t\<rparr>) = close_of c"
  by (rule ext) (simp add: close_of_def split: option.splits)

definition labels_with ::
  "label_config \<Rightarrow> (pydate, string) dict \<Rightarrow> pydate \<Rightarrow> label_record result \<Rightarrow> bool" where
  "labels_with c es day r \<longleftrightarrow> (\<exists>p cash. prior_landed es day p \<and> map_of (lg_anchors c) p = Some cash
     \<and> lg_entry c < close_of c day \<and> r = day_label c es day p cash (close_of c day))"

definition justified ::
  "label_config \<Rightarrow> (pydate, string) dict \<Rightarrow> pydate list \<Rightarrow> pydate list \<Rightarrow> label_disposition \<Rightarrow> bool" where
  "justified c es defs present x \<longleftrightarrow>
     (case ld_outcome x of
        GAP \<Rightarrow> map_of es (ld_day x) = None \<and> ld_day x \<in> set defs
      | ALREADY_PRESENT \<Rightarrow> map_of es (ld_day x) \<noteq> None \<and> ld_day x \<in> set present
      | oc \<Rightarrow> map_of es (ld_day x) \<noteq> None \<and> ld_day x \<notin> set present \<and>
          (case oc of
             SKIPPED_NO_PRIOR \<Rightarrow> \<forall>d \<in> fst ` set es. \<not> d < ld_day x
           | SKIPPED_NO_ANCHOR \<Rightarrow> \<exists>p. prior_landed es (ld_day x) p \<and> map_of (lg_anchors c) p = None
           | SKIPPED_ENTRY_AFTER_CLOSE \<Rightarrow> \<exists>p cash. prior_landed es (ld_day x) p \<and> map_of (lg_anchors c) p = Some cash
               \<and> close_of c (ld_day x) \<le> lg_entry c
           | SKIPPED_COVERAGE \<Rightarrow> labels_with c es (ld_day x) (Inl (ExcursionCoverageError (ld_detail x)))
           | LABELLED \<Rightarrow> \<exists>label. labels_with c es (ld_day x) (Inr label)
           | _ \<Rightarrow> True))"

definition day_done ::
  "label_config \<Rightarrow> (pydate, string) dict \<Rightarrow> pydate list \<Rightarrow> pydate \<Rightarrow> label_state \<Rightarrow> label_state \<Rightarrow> bool" where
  "day_done c es defs day s s' \<longleftrightarrow>
     (map_of es day = None \<and> day \<notin> set defs \<and> same_labels s s')
   \<or> (\<exists>x. ld_day x = day \<and> justified c es defs (lb_present s) x \<and> lb_outcomes s' = lb_outcomes s @ [x]
        \<and> (if ld_outcome x = LABELLED
           then \<exists>label. labels_with c es day (Inr label) \<and> lb_store s' = lb_store s @ [PDict label]
                  \<and> set (lb_present s') = insert day (set (lb_present s))
           else lb_store s' = lb_store s \<and> lb_present s' = lb_present s))"

lemma report_day_simps [simp]:
  "lb_outcomes (report_day day oc m s) = lb_outcomes s @ [\<lparr>ld_day = day, ld_outcome = oc, ld_detail = m\<rparr>]"
  "lb_store (report_day day oc m s) = lb_store s" "lb_present (report_day day oc m s) = lb_present s"
  "loads_ok c (report_day day oc m s) = loads_ok c s"
  by (simp_all add: report_day_def loads_ok_def)

lemma day_done_report:
  assumes "justified c es defs (lb_present s) \<lparr>ld_day = day, ld_outcome = oc, ld_detail = m\<rparr>" and "oc \<noteq> LABELLED"
    and "same_labels s t"
  shows "day_done c es defs day s (report_day day oc m t)"
  using assms unfolding day_done_def
  by (intro disjI2 exI [of _ "\<lparr>ld_day = day, ld_outcome = oc, ld_detail = m\<rparr>"]) (simp add: same_labels_def)

lemma same_labels_refl [simp]: "same_labels s s"
  by (simp add: same_labels_def)

text \<open>The only other way a day ends: the computation of its label raises something else.\<close>

definition day_raises :: "label_config \<Rightarrow> (pydate, string) dict \<Rightarrow> pydate \<Rightarrow> label_state \<Rightarrow> unit result \<Rightarrow> bool" where
  "day_raises c es day s r \<longleftrightarrow> map_of es day \<noteq> None \<and> day \<notin> set (lb_present s)
     \<and> (\<exists>x. r = Inl x \<and> labels_with c es day (Inl x) \<and> (\<forall>m. x \<noteq> ExcursionCoverageError m))"

lemma label_day_done:
  assumes run: "label_day c es defs day s = (r, s')" and loads: "loads_ok c s"
  shows "loads_ok c s' \<and> (if r = Inr () then day_done c es defs day s s' else same_labels s s' \<and> day_raises c es day s r)"
proof -
  let ?xs = "sort (map fst es)" and ?n = "length (filter (\<lambda>d. d < day) (sort (map fst es)))"
  show ?thesis
  proof (cases "map_of es day = None \<or> day \<in> set (lb_present s) \<or> ?n = 0")
    case True
    then consider (absent) "map_of es day = None" "day \<notin> set defs" | (gap) "map_of es day = None" "day \<in> set defs"
      | (present) "map_of es day \<noteq> None" "day \<in> set (lb_present s)"
      | (first) "map_of es day \<noteq> None" "day \<notin> set (lb_present s)" "?n = 0" by metis
    then show ?thesis
    proof cases
      case absent
      with run loads show ?thesis by (simp add: label_day_def Let_def day_done_def same_labels_def)
    next
      case gap
      with run have s': "r = Inr ()" "s' = report_day day GAP ''definition batch landed but ES batch is missing'' s"
        by (simp_all add: label_day_def Let_def)
      with loads gap show ?thesis by (auto intro: day_done_report simp: justified_def)
    next
      case present
      with run have s': "r = Inr ()" "s' = report_day day ALREADY_PRESENT [] s" by (simp_all add: label_day_def Let_def)
      with loads present show ?thesis by (auto intro: day_done_report simp: justified_def)
    next
      case first
      with run have s': "r = Inr ()" "s' = report_day day SKIPPED_NO_PRIOR ''no earlier landed ES day to anchor F_a'' s"
        by (simp_all add: label_day_def Let_def)
      with loads first bisect_prior(1) [of day es] show ?thesis by (auto intro: day_done_report simp: justified_def)
    qed
  next
    case False
    then have here: "map_of es day \<noteq> None" "day \<notin> set (lb_present s)" "?n \<noteq> 0" by simp_all
    define p where "p = ?xs ! (?n - 1)"
    have p: "prior_landed es day p" unfolding p_def by (rule bisect_prior(2) [OF here(3)])
    show ?thesis
    proof (cases "map_of (lg_anchors c) p")
      case None
      with run here have s': "r = Inr ()" "s' = report_day day SKIPPED_NO_ANCHOR (''no official SPX cash close for prior day '' @ iso_date p) s"
        by (simp_all add: label_day_def Let_def p_def)
      have "day_done c es defs day s s'"
        unfolding s' by (rule day_done_report) (use here p None in \<open>auto simp: justified_def\<close>)
      with loads show ?thesis by (simp add: s')
    next
      case (Some cash)
      show ?thesis
      proof (cases "close_of c day \<le> lg_entry c")
        case True
        with run here Some have s': "r = Inr ()" "s' = report_day day SKIPPED_ENTRY_AFTER_CLOSE
            (''entry '' @ clock_text (lg_entry c) @ '' is not before close '' @ clock_text (close_of c day)) s"
          by (simp_all add: label_day_def Let_def p_def close_of_def)
        have "day_done c es defs day s s'"
          unfolding s' by (rule day_done_report) (use here p Some True in \<open>auto simp: justified_def\<close>)
        with loads show ?thesis by (simp add: s')
      next
        case early: False
        obtain a t where at: "compute_label c es day p cash (close_of c day) s = (a, t)"
          by (cases "compute_label c es day p cash (close_of c day) s")
        from compute_label_spec [OF at loads] have a: "a = day_label c es day p cash (close_of c day)" "loads_ok c t" "same_labels s t"
          by blast+
        have lw: "labels_with c es day a" using p Some early a(1) by (auto simp: labels_with_def not_le)
        have run': "(r, s') = (case a of
              Inl (ExcursionCoverageError m) \<Rightarrow> (Inr (), report_day day SKIPPED_COVERAGE m t)
            | Inl e \<Rightarrow> (Inl e, t)
            | Inr label \<Rightarrow> (Inr (), report_day day LABELLED []
                       (t\<lparr>lb_store := lb_store t @ [PDict label], lb_present := List.insert day (lb_present t)\<rparr>)))"
          using run here Some early at by (simp add: label_day_def Let_def p_def close_of_def split: sum.splits py_error.splits)
        show ?thesis
        proof (cases a)
          case (Inr label)
          with run' have s': "r = Inr ()" "s' = report_day day LABELLED []
              (t\<lparr>lb_store := lb_store t @ [PDict label], lb_present := List.insert day (lb_present t)\<rparr>)" by simp_all
          have "day_done c es defs day s s'"
            unfolding day_done_def
            using here lw Inr a(3)
            by (intro disjI2 exI [of _ "\<lparr>ld_day = day, ld_outcome = LABELLED, ld_detail = []\<rparr>"])
               (auto simp: s' justified_def same_labels_def)
          moreover have "loads_ok c s'" using a(2) by (simp add: s' loads_ok_def report_day_def)
          ultimately show ?thesis by (simp add: s'(1))
        next
          case (Inl e)
          show ?thesis
          proof (cases "\<exists>m. e = ExcursionCoverageError m")
            case True
            then obtain m where m: "e = ExcursionCoverageError m" ..
            with run' Inl have s': "r = Inr ()" "s' = report_day day SKIPPED_COVERAGE m t" by simp_all
            have "day_done c es defs day s s'"
              unfolding s' by (rule day_done_report) (use here lw Inl m a(3) in \<open>auto simp: justified_def\<close>)
            with a(2) show ?thesis by (simp add: s')
          next
            case False
            with run' Inl have "r = Inl e" "s' = t" by (auto split: py_error.splits)
            with a lw here Inl False show ?thesis by (auto simp: day_raises_def)
          qed
        qed
      qed
    qed
  qed
qed

section \<open>A run\<close>

definition landed :: "(pydate, string) dict \<Rightarrow> pydate list \<Rightarrow> pydate \<Rightarrow> bool" where
  "landed es defs d \<longleftrightarrow> map_of es d \<noteq> None \<or> d \<in> set defs"

definition labels_of :: "label_disposition list \<Rightarrow> label_disposition list" where
  "labels_of ds = filter (\<lambda>x. ld_outcome x = LABELLED) ds"

text \<open>Between two states of a run, over the days from \<open>a\<close> to \<open>b\<close>.\<close>

definition run_done ::
  "label_config \<Rightarrow> (pydate, string) dict \<Rightarrow> pydate list \<Rightarrow> pydate \<Rightarrow> pydate \<Rightarrow> label_state \<Rightarrow> label_state
     \<Rightarrow> label_disposition list \<Rightarrow> label_record list \<Rightarrow> bool" where
  "run_done c es defs a b s t ds ls \<longleftrightarrow>
     lb_outcomes t = lb_outcomes s @ ds \<and> lb_store t = lb_store s @ map PDict ls
     \<and> set (lb_present t) = set (lb_present s) \<union> ld_day ` set (labels_of ds)
     \<and> list_all2 (\<lambda>x l. labels_with c es (ld_day x) (Inr l)) (labels_of ds) ls
     \<and> (\<forall>x \<in> set ds. justified c es defs (lb_present s) x \<and> a \<le> ld_day x \<and> ld_day x \<le> b)
     \<and> sorted_wrt (<) (map ld_day ds)"

lemma justified_present:
  "(ld_day x \<in> set ps \<longleftrightarrow> ld_day x \<in> set qs) \<Longrightarrow> justified c es defs ps x = justified c es defs qs x"
  by (simp add: justified_def split: label_outcome.splits)

lemma justified_landed: "justified c es defs ps x \<Longrightarrow> landed es defs (ld_day x)"
  by (cases "ld_outcome x") (auto simp: justified_def landed_def)

lemma run_done_none: "same_labels s t \<Longrightarrow> run_done c es defs a b s t [] []"
  by (simp add: run_done_def same_labels_def labels_of_def)

lemma day_done_run:
  assumes "day_done c es defs day s t"
  shows "\<exists>ds ls. run_done c es defs day day s t ds ls \<and> map ld_day ds = filter (landed es defs) [day]"
proof (cases "map_of es day = None \<and> day \<notin> set defs")
  case True
  with assms have "same_labels s t" by (auto simp: day_done_def landed_def dest: justified_landed)
  from run_done_none [OF this] True show ?thesis by (fastforce simp: landed_def)
next
  case False
  with assms obtain x where x: "ld_day x = day" "justified c es defs (lb_present s) x" "lb_outcomes t = lb_outcomes s @ [x]"
      "if ld_outcome x = LABELLED
           then \<exists>label. labels_with c es day (Inr label) \<and> lb_store t = lb_store s @ [PDict label]
                  \<and> set (lb_present t) = insert day (set (lb_present s))
           else lb_store t = lb_store s \<and> lb_present t = lb_present s"
    by (auto simp: day_done_def)
  have days: "map ld_day [x] = filter (landed es defs) [day]" using False x(1) by (simp add: landed_def)
  show ?thesis
  proof (cases "ld_outcome x = LABELLED")
    case True
    with x obtain label where "run_done c es defs day day s t [x] [label]" by (auto simp: run_done_def labels_of_def)
    with days show ?thesis by blast
  next
    case no: False
    with x have "run_done c es defs day day s t [x] []" by (simp add: run_done_def labels_of_def)
    with days show ?thesis by blast
  qed
qed

lemma run_done_append:
  assumes "run_done c es defs a a s t ds ls" and "run_done c es defs (a + 1) b t u ds' ls'" and "a \<le> b"
  shows "run_done c es defs a b s u (ds @ ds') (ls @ ls')"
proof -
  have "justified c es defs (lb_present s) x = justified c es defs (lb_present t) x" if "x \<in> set ds'" for x
  proof (rule justified_present)
    have "a < ld_day x" using that assms(2) by (auto simp: run_done_def)
    then show "ld_day x \<in> set (lb_present s) \<longleftrightarrow> ld_day x \<in> set (lb_present t)"
      using assms(1) by (auto simp: run_done_def labels_of_def)
  qed
  moreover have "ld_day x < ld_day y" if "x \<in> set ds" "y \<in> set ds'" for x y
    using that assms(1,2) by (fastforce simp: run_done_def)
  ultimately show ?thesis
    using assms unfolding run_done_def
    by (auto simp: labels_of_def sorted_wrt_append intro: list_all2_appendI)
qed

lemma label_loop_done:
  assumes "label_loop c es defs e day s = (r, s')" and "loads_ok c s"
  shows "loads_ok c s' \<and> (\<exists>ds ls. run_done c es defs day e s s' ds ls
    \<and> (r = Inr () \<longrightarrow> map ld_day ds = filter (landed es defs) [day..e]))"
  using assms
proof (induction c es defs e day s rule: label_loop.induct)
  case (1 c es defs e day s)
  show ?case
  proof (cases "day \<le> e")
    case False
    with 1(2,3) run_done_none [OF same_labels_refl] show ?thesis
      by (fastforce simp: label_loop.simps [of c es defs e day s])
  next
    case True
    obtain a t where a: "label_day c es defs day s = (a, t)" by (cases "label_day c es defs day s")
    note step = label_day_done [OF a 1(3)]
    show ?thesis
    proof (cases a)
      case (Inl x)
      with 1(2) True a have "r = Inl x" "s' = t" by (simp_all add: label_loop.simps [of c es defs e day s])
      with step Inl run_done_none show ?thesis by fastforce
    next
      case (Inr u)
      with step have t: "loads_ok c t" "day_done c es defs day s t" by auto
      obtain ds ls where d: "run_done c es defs day day s t ds ls" "map ld_day ds = filter (landed es defs) [day]"
        using day_done_run [OF t(2)] by blast
      show ?thesis
      proof (cases "day = date_max")
        case end_of_time: True
        have "label_loop c es defs e day s = (Inl (OverflowError ''date value out of range''), t)"
          using True a Inr end_of_time by (subst label_loop.simps) simp
        with 1(2) have "\<not> is_ok r" "s' = t" by auto
        moreover have "run_done c es defs day e s t ds ls" using d(1) True by (auto simp: run_done_def)
        ultimately show ?thesis using t(1) by auto
      next
        case False
        with 1(2) True a Inr have l: "label_loop c es defs e (day + 1) t = (r, s')"
          by (simp add: label_loop.simps [of c es defs e day s])
        from 1(1) [OF _ a [symmetric] Inr False l t(1)] True obtain ds' ls' where r: "loads_ok c s'"
            "run_done c es defs (day + 1) e t s' ds' ls'" "r = Inr () \<longrightarrow> map ld_day ds' = filter (landed es defs) [day + 1..e]"
          by auto
        have "[day..e] = day # [day + 1..e]" using True by (simp add: upto_rec1)
        with d(2) r(3) have "r = Inr () \<longrightarrow> map ld_day (ds @ ds') = filter (landed es defs) [day..e]" by auto
        with run_done_append [OF d(1) r(2) True] r(1) show ?thesis by blast
      qed
    qed
  qed
qed

section \<open>Dates read from a text\<close>

lemma date_of_ymd_valid:
  assumes "date_of_ymd y m d = Inr n"
  shows "date_valid n"
proof -
  have b: "1 \<le> y" "y \<le> 9999" "1 \<le> m" "m \<le> 12" "1 \<le> d" "d \<le> month_len y m"
    and n: "n = days_before_year y + days_before_month (month_lengths y) 1 m + d"
    using assms by (auto simp: date_of_ymd_def split: if_splits)
  from b(3,4) have "m = 1 \<or> m = 2 \<or> m = 3 \<or> m = 4 \<or> m = 5 \<or> m = 6 \<or> m = 7 \<or> m = 8 \<or> m = 9 \<or> m = 10 \<or> m = 11 \<or> m = 12"
    by presburger
  then have "0 \<le> days_before_month (month_lengths y) 1 m
      \<and> days_before_month (month_lengths y) 1 m + month_len y m \<le> days_before_year (y + 1) - days_before_year y"
    by (auto simp: month_lengths_def month_len_def year_length)
  moreover have "0 \<le> days_before_year y" using days_before_year_mono [OF b(1)] by (simp add: days_before_year_def)
  moreover have "days_before_year (y + 1) \<le> 3652059"
    using days_before_year_mono [of "y + 1" 10000] b(2) by (simp add: days_before_year_def)
  ultimately show ?thesis using b(5,6) by (simp add: n date_valid_def date_max_def)
qed

lemma date_fromisoformat_valid: "date_fromisoformat t = Inr n \<Longrightarrow> date_valid n"
  by (auto simp: date_fromisoformat_def intro: date_of_ymd_valid split: if_splits)

lemma index_loop_valid:
  assumes "index_loop rs es defs = Inr (es', defs')" and "\<forall>d \<in> fst ` set es. date_valid d"
  shows "\<forall>d \<in> fst ` set es'. date_valid d"
  using assms
proof (induction rs es defs rule: index_loop.induct)
  case (2 r rs es defs)
  show ?case
  proof (cases "prefix ES_LOGICAL_PREFIX (logical_key r)")
    case True
    with 2(4) obtain d where d: "date_fromisoformat (drop (length ES_LOGICAL_PREFIX) (logical_key r)) = Inr d"
        "index_loop rs (AList.update d (record_id r) es) defs = Inr (es', defs')" by auto
    have "\<forall>x \<in> fst ` set (AList.update d (record_id r) es). date_valid x"
      using 2(5) date_fromisoformat_valid [OF d(1)] by (simp add: update_fst)
    from 2(1) [OF True d(2) this] show ?thesis .
  next
    case False
    with 2 show ?thesis by (auto split: if_splits)
  qed
qed simp

section \<open>The label file\<close>

lemma build_label_day: "build_label_record c day bars pb cash t i j = Inr l \<Longrightarrow> map_of l ''day'' = Some (PStr (iso_date day))"
  by (auto simp: build_label_record_def Let_def)

lemma labels_with_day:
  assumes "labels_with c es day (Inr l)"
  shows "map_of l ''day'' = Some (PStr (iso_date day))"
proof -
  from assms obtain p cash where "day_label c es day p cash (close_of c day) = Inr l" unfolding labels_with_def by metis
  then show ?thesis by (auto simp: day_label_def dest: build_label_day split: option.splits)
qed

lemma load_label_PDict: "map_of l ''day'' = Some v \<Longrightarrow> load_label (PDict l) = Inr l"
  by (simp add: load_label_def)

lemma labelled_days_append:
  assumes "labelled_days py_str store = Inr ps"
    and "list_all2 (\<lambda>d l. map_of l ''day'' = Some (PStr (iso_date d)) \<and> date_valid d) days ls"
  shows "labelled_days py_str (store @ map PDict ls) = Inr (ps @ days)"
proof -
  have "load_labels (map PDict ls) = Inr ls \<and> res_map (label_day_of py_str) ls = Inr days"
    using assms(2)
    by (induction rule: list_all2_induct)
       (auto simp: load_labels_def load_label_PDict label_day_of_def str_of_def date_fromiso_roundtrip)
  with assms(1) show ?thesis
    by (auto simp: labelled_days_def load_labels_def res_map_append split: sum.splits)
qed

lemma run_labels:
  assumes "labelled_days py_str (lb_store s) = Inr days" and "ledger_day_index sha f = Inr (es, defs)"
    and d: "run_done c es defs a b s t ds ls"
  shows "labelled_days py_str (lb_store t) = Inr (days @ map ld_day (labels_of ds))"
proof -
  have valid: "\<forall>x \<in> fst ` set es. date_valid x"
    using assms(2) index_loop_valid [of _ "[]" "[]" es defs] by (auto simp: ledger_day_index_def)
  have made: "list_all2 (\<lambda>x l. labels_with c es (ld_day x) (Inr l)) (labels_of ds) ls" using d by (simp add: run_done_def)
  have "date_valid (ld_day x)" if "x \<in> set (labels_of ds)" for x
  proof -
    have "map_of es (ld_day x) \<noteq> None" using d that by (auto simp: run_done_def justified_def labels_of_def)
    then have "ld_day x \<in> fst ` set es" by (metis map_of_eq_None_iff)
    with valid show ?thesis by blast
  qed
  with made have "list_all2 (\<lambda>d l. map_of l ''day'' = Some (PStr (iso_date d)) \<and> date_valid d) (map ld_day (labels_of ds)) ls"
    unfolding list_all2_map1 by (auto simp: list_all2_conv_all_nth dest: labels_with_day)
  from labelled_days_append [OF assms(1) this] show ?thesis using d by (simp add: run_done_def)
qed

lemma generate_labels_run:
  assumes "generate_labels sha py_str c f start e store = (r, store', asked)" and "labelled_days py_str store = Inr ps"
  shows "(r = Inl (ValueError ''start must not be after end'') \<or> (\<exists>x. ledger_day_index sha f = Inl x \<and> r = Inl x)) \<and> store' = store \<and> asked = []
    \<or> (\<exists>es defs x s. start \<le> e \<and> ledger_day_index sha f = Inr (es, defs) \<and> store' = lb_store s \<and> asked = lb_asked s
        \<and> label_loop c es defs e start \<lparr>lb_store = store, lb_present = ps, lb_cache = [], lb_asked = [], lb_outcomes = []\<rparr> = (x, s)
        \<and> r = res_bind x (\<lambda>_. Inr \<lparr>lr_start = start, lr_end = e, lr_outcomes = lb_outcomes s\<rparr>))"
proof (cases "start \<le> e")
  case True
  show ?thesis
  proof (cases "ledger_day_index sha f")
    case (Inr i)
    obtain es defs where i: "i = (es, defs)" by (cases i)
    obtain x s where "label_loop c es defs e start
        \<lparr>lb_store = store, lb_present = ps, lb_cache = [], lb_asked = [], lb_outcomes = []\<rparr> = (x, s)"
      by (cases "label_loop c es defs e start
        \<lparr>lb_store = store, lb_present = ps, lb_cache = [], lb_asked = [], lb_outcomes = []\<rparr>")
    with assms True Inr i show ?thesis by (cases x) (auto simp: generate_labels_def)
  qed (use assms True in \<open>auto simp: generate_labels_def\<close>)
qed (use assms in \<open>auto simp: generate_labels_def\<close>)

lemma loads_ok_empty [simp]:
  "loads_ok c \<lparr>lb_store = store, lb_present = ps, lb_cache = [], lb_asked = [], lb_outcomes = []\<rparr>"
  by (simp add: loads_ok_def)

section \<open>An example\<close>

text \<open>Two landed days, the second anchored on the first.\<close>

definition demo_key :: "pydate \<Rightarrow> string" where "demo_key d = ES_LOGICAL_PREFIX @ iso_date d"

definition demo_es :: "pydate \<Rightarrow> pit_record" where
  "demo_es d = projr (pit_create raw_sha (demo_key d) (Aware 0) (Aware 0) ''p'' ''v1'' ''1'' [(''px'', PInt 1)])"

definition demo_labels :: label_config where
  "demo_labels = \<lparr>lg_anchors = [(5, 100)], lg_entry = 0, lg_close = 60000000, lg_early = [],
     lg_loader = (\<lambda>d. Inr [\<lparr>bar_ts = (d - 1) * day_us, bar_open = 10, bar_high = 10, bar_low = 10, bar_close = 10, bar_volume = 0\<rparr>,
       \<lparr>bar_ts = (d - 1) * day_us + 60000000, bar_open = 11, bar_high = 11, bar_low = 11, bar_close = 11, bar_volume = 0\<rparr>]),
     lg_et_utc = (\<lambda>d t. (d - 1) * day_us + t), lg_fr = (\<lambda>q. ''n''), lg_computed_at = 0\<rparr>"

lemma demo_es_ok: "logical_key (demo_es d) = demo_key d \<and> pit_verify raw_sha (demo_es d) = Inr ()"
proof -
  have nb: "\<not> blank (demo_key d)" "\<not> blank ''p''" "\<not> blank ''v1''" "\<not> blank ''1''"
    by (simp_all add: blank_iff is_space_def demo_key_def ES_LOGICAL_PREFIX_def)
  have "\<exists>r. pit_create raw_sha (demo_key d) (Aware 0) (Aware 0) ''p'' ''v1'' ''1'' [(''px'', PInt 1)] = Inr r"
    using nb [unfolded blank_def] by (simp add: pit_create_def Let_def)
  then obtain r where r: "pit_create raw_sha (demo_key d) (Aware 0) (Aware 0) ''p'' ''v1'' ''1'' [(''px'', PInt 1)] = Inr r" ..
  from pit_create_fields(1) [OF r] pit_create_verify(1) [OF r] show ?thesis
    by (simp add: demo_es_def r canonical_PDict)
qed

lemma demo_index: "ledger_day_index raw_sha [demo_es 5, demo_es 6] =
    Inr ([(5, record_id (demo_es 5)), (6, record_id (demo_es 6))], [])"
proof -
  have "prefix ES_LOGICAL_PREFIX (demo_key d)" "drop (length ES_LOGICAL_PREFIX) (demo_key d) = iso_date d" for d
    by (simp_all add: demo_key_def)
  moreover have "date_valid 5" "date_valid 6" by (simp_all add: date_valid_def date_max_def)
  ultimately show ?thesis
    using demo_es_ok by (simp add: ledger_day_index_def batch_load_ok date_fromiso_roundtrip)
qed

lemma demo_label: "\<exists>l. day_label demo_labels [(5, i), (6, j)] 6 5 100 60000000 = Inr l"
  by (simp add: day_label_def demo_labels_def build_label_record_def last_bar_close_def require_ordered_bars_def
      unordered_pair_def require_positive_def implied_spx_series_def implied_point_def realized_excursion_def
      normalize_series_def normalize_item_def excursion_of_def window_of_def seconds_def day_us_def)

lemma demo_run: "\<exists>report label. generate_labels raw_sha (\<lambda>v. []) demo_labels [demo_es 5, demo_es 6] 5 6 [] =
    (Inr report, [PDict label], [6, 5]) \<and> map ld_outcome (lr_outcomes report) = [SKIPPED_NO_PRIOR, LABELLED]"
proof -
  let ?es = "[(5, record_id (demo_es 5)), (6, record_id (demo_es 6))] :: (pydate, string) dict"
  obtain l where l: "day_label demo_labels ?es 6 5 100 60000000 = Inr l" using demo_label by blast
  then have b: "\<exists>bars pb. lg_loader demo_labels 6 = Inr bars \<and> lg_loader demo_labels 5 = Inr pb
      \<and> build_label_record demo_labels 6 bars pb 100 60000000 (record_id (demo_es 6)) (record_id (demo_es 5)) = Inr l"
    by (auto simp: day_label_def)
  let ?s0 = "\<lparr>lb_store = [], lb_present = [], lb_cache = [], lb_asked = [], lb_outcomes = []\<rparr>"
  let ?s1 = "report_day 5 SKIPPED_NO_PRIOR ''no earlier landed ES day to anchor F_a'' ?s0"
  have one: "label_day demo_labels ?es [] 5 ?s0 = (Inr (), ?s1)" by (simp add: label_day_def)
  have "\<exists>s2. compute_label demo_labels ?es 6 5 100 60000000 ?s1 = (Inr l, s2) \<and> lb_asked s2 = [6, 5] \<and> same_labels ?s1 s2"
    using b by (auto simp: compute_label_def bars_for_def report_day_def same_labels_def)
  then obtain s2 where s2: "compute_label demo_labels ?es 6 5 100 60000000 ?s1 = (Inr l, s2)" "lb_asked s2 = [6, 5]" "same_labels ?s1 s2"
    by blast
  let ?s3 = "report_day 6 LABELLED [] (s2\<lparr>lb_store := lb_store s2 @ [PDict l], lb_present := List.insert 6 (lb_present s2)\<rparr>)"
  have two: "label_day demo_labels ?es [] 6 ?s1 = (Inr (), ?s3)"
    using s2(1) by (simp add: label_day_def demo_labels_def)
  have "label_loop demo_labels ?es [] 6 5 ?s0 = (Inr (), ?s3)"
    by (simp add: label_loop.simps one two date_max_def)
  then show ?thesis
    using s2(2,3) demo_index
    by (simp add: generate_labels_def labelled_days_def load_labels_def same_labels_def report_day_def)
qed

section \<open>Properties\<close>

text \<open>C28. A batch of labels is sound: a run that reports accounts for exactly the days of the window with a landed
  batch, in order; each outcome is justified, a labelled day by a label computed from that day's bars
  and those of the previous landed day, anchored at the official close of that previous day; the file
  grows by exactly the labels of the labelled days; and every batch that decodes is decoded at most
  once.\<close>

theorem label_batch_sound:
  assumes "generate_labels sha py_str c f start e store = (Inr report, store', asked)"
    and "labelled_days py_str store = Inr present"
  shows "\<exists>es defs labels. ledger_day_index sha f = Inr (es, defs)
    \<and> map ld_day (lr_outcomes report) = filter (landed es defs) [start..e]
    \<and> (\<forall>x \<in> set (lr_outcomes report). justified c es defs present x)
    \<and> store' = store @ map PDict labels
    \<and> list_all2 (\<lambda>x l. labels_with c es (ld_day x) (Inr l)) (labels_of (lr_outcomes report)) labels
    \<and> distinct (filter (\<lambda>d. is_ok (lg_loader c d)) asked)"
proof -
  from generate_labels_run [OF assms] obtain es defs x s where g: "ledger_day_index sha f = Inr (es, defs)"
      "store' = lb_store s" "asked = lb_asked s"
      "label_loop c es defs e start \<lparr>lb_store = store, lb_present = present, lb_cache = [], lb_asked = [], lb_outcomes = []\<rparr> = (x, s)"
      "Inr report = res_bind x (\<lambda>_. Inr \<lparr>lr_start = start, lr_end = e, lr_outcomes = lb_outcomes s\<rparr>)"
    by auto
  then have x: "x = Inr ()" "lr_outcomes report = lb_outcomes s" by (cases x; simp)+
  from label_loop_done [OF g(4) loads_ok_empty] x(1) obtain ds ls where d: "loads_ok c s"
      "run_done c es defs start e \<lparr>lb_store = store, lb_present = present, lb_cache = [], lb_asked = [], lb_outcomes = []\<rparr> s ds ls"
      "map ld_day ds = filter (landed es defs) [start..e]" by blast
  then have "lr_outcomes report = ds" by (simp add: run_done_def x(2))
  with d g(1-3) show ?thesis
    by (intro exI [of _ es] exI [of _ defs] exI [of _ ls]) (simp add: run_done_def loads_ok_def)
qed

theorem label_batch_sound_witness:
  "\<exists>report label asked. generate_labels raw_sha (\<lambda>v. []) demo_labels [demo_es 5, demo_es 6] 5 6 [] = (Inr report, [PDict label], asked)
    \<and> length (labels_of (lr_outcomes report)) = 1"
proof -
  obtain report label where run: "generate_labels raw_sha (\<lambda>v. []) demo_labels [demo_es 5, demo_es 6] 5 6 [] =
    (Inr report, [PDict label], [6, 5])" using demo_run by blast
  have "labelled_days (\<lambda>v. []) [] = Inr []" by (simp add: labelled_days_def load_labels_def)
  from label_batch_sound [OF run this] have "length (labels_of (lr_outcomes report)) = 1"
    by (auto dest: list_all2_lengthD)
  with run show ?thesis by blast
qed

text \<open>C29. A day is labelled at most once, however a run ends: when the label file has one label for each of its
  days, a run leaves the labels it found in place, and the file it leaves, also where it raised half way,
  again has one label for each of its days.\<close>

theorem one_label_per_day:
  assumes "labelled_days py_str store = Inr days" and "distinct days"
    and "generate_labels sha py_str c f start e store = (r, store', asked)"
  shows "\<exists>new. labelled_days py_str store' = Inr (days @ new) \<and> distinct (days @ new)
    \<and> (\<forall>d \<in> set new. start \<le> d \<and> d \<le> e) \<and> take (length store) store' = store"
proof -
  let ?s0 = "\<lparr>lb_store = store, lb_present = days, lb_cache = [], lb_asked = [], lb_outcomes = []\<rparr>"
  consider (refused) "store' = store"
    | (ran) es defs x s where "ledger_day_index sha f = Inr (es, defs)" "store' = lb_store s" "label_loop c es defs e start ?s0 = (x, s)"
    using generate_labels_run [OF assms(3,1)] by auto
  then show ?thesis
  proof cases
    case refused
    with assms(1,2) show ?thesis by (intro exI [of _ "[]"]) simp
  next
    case ran
    from label_loop_done [OF ran(3) loads_ok_empty] obtain ds ls where d: "run_done c es defs start e ?s0 s ds ls" by blast
    let ?new = "map ld_day (labels_of ds)"
    have "labelled_days py_str store' = Inr (days @ ?new)"
      using run_labels [OF _ ran(1) d, of py_str days] assms(1) ran(2) by simp
    moreover have "distinct ?new"
    proof -
      have "sorted_wrt (<) (map ld_day ds)" using d by (simp add: run_done_def)
      then have "distinct (map ld_day ds)" by (simp add: strict_sorted_iff)
      then show ?thesis by (auto simp: labels_of_def distinct_map intro: inj_on_subset)
    qed
    moreover have "\<forall>x \<in> set ?new. x \<notin> set days \<and> start \<le> x \<and> x \<le> e"
      using d by (auto simp: run_done_def justified_def labels_of_def)
    moreover have "take (length store) store' = store" using d ran(2) by (simp add: run_done_def)
    ultimately show ?thesis using assms(2) by (intro exI [of _ ?new]) auto
  qed
qed

theorem one_label_per_day_witness:
  "\<exists>report label days. generate_labels raw_sha (\<lambda>v. []) demo_labels [demo_es 5, demo_es 6] 5 6 [] = (Inr report, [PDict label], [6, 5])
    \<and> labelled_days (\<lambda>v. []) [PDict label] = Inr days \<and> distinct days"
proof -
  obtain report label where run: "generate_labels raw_sha (\<lambda>v. []) demo_labels [demo_es 5, demo_es 6] 5 6 [] =
    (Inr report, [PDict label], [6, 5])" using demo_run by blast
  have "labelled_days (\<lambda>v. []) [] = Inr []" by (simp add: labelled_days_def load_labels_def)
  from one_label_per_day [OF this _ run] run show ?thesis by auto
qed

section \<open>Running again\<close>

text \<open>The time a run computes at appears in a label only.\<close>

lemma labels_with_later:
  assumes "labels_with c es day (Inl x)"
  shows "labels_with (c\<lparr>lg_computed_at := t\<rparr>) es day (Inl x)"
proof -
  have "(build_label_record (c\<lparr>lg_computed_at := t\<rparr>) d b pb cash ct i j = Inl x) = (build_label_record c d b pb cash ct i j = Inl x)"
    for d b pb cash ct i j by (auto simp: build_label_record_def Let_def res_bind_def split: sum.splits)
  then have "(day_label (c\<lparr>lg_computed_at := t\<rparr>) es d p cash ct = Inl x) = (day_label c es d p cash ct = Inl x)" for d p cash ct
    by (auto simp: day_label_def res_bind_def split: sum.splits option.splits)
  then have later: "(Inl x = day_label (c\<lparr>lg_computed_at := t\<rparr>) es d p cash ct) = (Inl x = day_label c es d p cash ct)" for d p cash ct
    by (metis)
  with assms show ?thesis by (simp add: labels_with_def)
qed

definition settled :: "label_disposition \<Rightarrow> label_disposition" where
  "settled x = (if ld_outcome x = LABELLED then \<lparr>ld_day = ld_day x, ld_outcome = ALREADY_PRESENT, ld_detail = []\<rparr> else x)"

lemma settled_justified:
  assumes "justified c es defs ps x" and "set ps \<subseteq> set qs" and "ld_day x \<in> set qs \<longleftrightarrow> ld_day x \<in> set ps \<or> ld_outcome x = LABELLED"
  shows "justified (c\<lparr>lg_computed_at := t\<rparr>) es defs qs (settled x) \<and> ld_outcome (settled x) \<noteq> LABELLED"
  using assms labels_with_later [of c es "ld_day x" _ t]
  by (cases "ld_outcome x") (auto simp: justified_def settled_def)

lemma justified_unique:
  assumes "justified c es defs ps x" and "justified c es defs ps y" and "ld_day x = ld_day y"
  shows "ld_outcome x = ld_outcome y"
proof -
  have "(\<forall>d \<in> fst ` set es. \<not> d < day) \<longrightarrow> \<not> prior_landed es day p" for day p by (auto simp: prior_landed_def)
  moreover have "labels_with c es day r \<longrightarrow> labels_with c es day r' \<longrightarrow> r = r'" for day r r'
    by (auto simp: labels_with_def dest: prior_landed_unique)
  moreover have "labels_with c es day r \<longrightarrow> (\<exists>p cash. prior_landed es day p \<and> map_of (lg_anchors c) p = Some cash \<and> \<not> close_of c day \<le> lg_entry c)" for day r
    by (auto simp: labels_with_def not_le)
  ultimately show ?thesis
    using assms prior_landed_unique
    by (cases "ld_outcome x"; cases "ld_outcome y") (simp add: justified_def; (blast | fastforce))+
qed

lemma justified_not_raises:
  assumes "justified c es defs (lb_present s) x" and "ld_outcome x \<noteq> LABELLED"
  shows "\<not> day_raises c es (ld_day x) s r"
proof
  assume r: "day_raises c es (ld_day x) s r"
  then obtain e p cash where e: "map_of es (ld_day x) \<noteq> None" "ld_day x \<notin> set (lb_present s)" "prior_landed es (ld_day x) p"
      "map_of (lg_anchors c) p = Some cash" "\<not> close_of c (ld_day x) \<le> lg_entry c"
      "day_label c es (ld_day x) p cash (close_of c (ld_day x)) = Inl e" "\<forall>m. e \<noteq> ExcursionCoverageError m"
    unfolding day_raises_def labels_with_def by (metis not_le)
  have q: "q = p" if "prior_landed es (ld_day x) q" for q using that e(3) by (rule prior_landed_unique)
  have lw: "y = e" if "labels_with c es (ld_day x) (Inl y)" for y
    using that e(4,6) q unfolding labels_with_def by (metis sum.inject(1) option.inject)
  have some: "\<not> (\<forall>d \<in> fst ` set es. \<not> d < ld_day x)" using e(3) by (auto simp: prior_landed_def)
  show False
  proof (cases "ld_outcome x")
    case SKIPPED_NO_PRIOR
    with assms(1) some show False by (simp add: justified_def)
  next
    case SKIPPED_NO_ANCHOR
    with assms(1) q e(4) show False by (auto simp: justified_def)
  next
    case SKIPPED_ENTRY_AFTER_CLOSE
    with assms(1) e(5) show False by (auto simp: justified_def)
  next
    case SKIPPED_COVERAGE
    with assms(1) lw e(7) show False by (auto simp: justified_def)
  qed (use assms e(1,2) in \<open>auto simp: justified_def\<close>)
qed

lemma label_loop_complete:
  assumes "\<forall>d. landed es defs d \<and> day \<le> d \<and> d \<le> e \<longrightarrow>
      (\<exists>x. ld_day x = d \<and> justified c es defs (lb_present s) x \<and> ld_outcome x \<noteq> LABELLED)"
    and "loads_ok c s" and "e < date_max"
  shows "\<exists>s'. label_loop c es defs e day s = (Inr (), s')"
  using assms
proof (induction c es defs e day s rule: label_loop.induct)
  case (1 c es defs e day s)
  show ?case
  proof (cases "day \<le> e")
    case False
    then show ?thesis by (simp add: label_loop.simps [of c es defs e day s])
  next
    case True
    obtain a t where a: "label_day c es defs day s = (a, t)" by (cases "label_day c es defs day s")
    note step = label_day_done [OF a 1(3)]
    have quiet: "\<not> day_raises c es day s a"
    proof
      assume r: "day_raises c es day s a"
      then have "landed es defs day" by (simp add: landed_def day_raises_def)
      with 1(2) True obtain x where "ld_day x = day" "justified c es defs (lb_present s) x" "ld_outcome x \<noteq> LABELLED" by blast
      with r justified_not_raises [of c es defs s x a] show False by simp
    qed
    with step have t: "a = Inr ()" "loads_ok c t" "day_done c es defs day s t" by (auto split: if_splits)
    have same: "lb_present t = lb_present s"
    proof (cases "landed es defs day")
      case False
      with t(3) show ?thesis by (auto simp: day_done_def landed_def same_labels_def dest: justified_landed)
    next
      case there: True
      with 1(2) True obtain x where x: "ld_day x = day" "justified c es defs (lb_present s) x" "ld_outcome x \<noteq> LABELLED" by blast
      from t(3) there obtain y where y: "ld_day y = day" "justified c es defs (lb_present s) y"
          "if ld_outcome y = LABELLED then True else lb_present t = lb_present s"
        by (auto simp: day_done_def landed_def split: if_splits)
      from justified_unique [OF x(2) y(2)] x y show ?thesis by simp
    qed
    have next_day: "day \<noteq> date_max" using True 1(4) by simp
    have "\<forall>d. landed es defs d \<and> day + 1 \<le> d \<and> d \<le> e \<longrightarrow>
        (\<exists>x. ld_day x = d \<and> justified c es defs (lb_present t) x \<and> ld_outcome x \<noteq> LABELLED)"
      using 1(2) same by auto
    from 1(1) [OF _ a [symmetric] t(1) next_day this t(2) 1(4)] True
    show ?thesis using a t(1) next_day by (simp add: label_loop.simps [of c es defs e day s])
  qed
qed

text \<open>Running a batch again changes nothing: when a run has reported, a second run over the same window with
  the same ledger, anchors and bars, at whatever time, reports again, leaves the label file exactly as
  it was, and gives each day the same outcome, the labelled ones being already present.\<close>

theorem label_rerun_appends_nothing:
  assumes "labelled_days py_str store = Inr days" and "e < date_max"
    and "generate_labels sha py_str c f start e store = (Inr report, store', asked)"
  shows "\<exists>report' asked'. generate_labels sha py_str (c\<lparr>lg_computed_at := t\<rparr>) f start e store' = (Inr report', store', asked')
    \<and> map ld_outcome (lr_outcomes report') =
      map (\<lambda>x. if ld_outcome x = LABELLED then ALREADY_PRESENT else ld_outcome x) (lr_outcomes report)"
proof -
  let ?c = "c\<lparr>lg_computed_at := t\<rparr>" and ?s0 = "\<lambda>store days. \<lparr>lb_store = store, lb_present = days, lb_cache = [], lb_asked = [], lb_outcomes = []\<rparr>"
  from generate_labels_run [OF assms(3,1)] obtain es defs x s where g: "start \<le> e" "ledger_day_index sha f = Inr (es, defs)"
      "store' = lb_store s" "label_loop c es defs e start (?s0 store days) = (x, s)"
      "Inr report = res_bind x (\<lambda>_. Inr \<lparr>lr_start = start, lr_end = e, lr_outcomes = lb_outcomes s\<rparr>)"
    by auto
  then have x: "x = Inr ()" "lr_outcomes report = lb_outcomes s" by (cases x; simp)+
  from label_loop_done [OF g(4) loads_ok_empty] x(1) obtain ds ls where d: "run_done c es defs start e (?s0 store days) s ds ls"
      "map ld_day ds = filter (landed es defs) [start..e]" by blast
  have ds: "lr_outcomes report = ds" using d(1) by (simp add: run_done_def x(2))
  obtain new where new: "labelled_days py_str store' = Inr (days @ new)" "set new = ld_day ` set (labels_of ds)"
    using run_labels [OF _ g(2) d(1), of py_str days] assms(1) g(3) by simp
  have again: "justified ?c es defs (days @ new) (settled y) \<and> ld_outcome (settled y) \<noteq> LABELLED" if "y \<in> set ds" for y
  proof (rule settled_justified)
    show "justified c es defs days y" using d(1) that by (simp add: run_done_def)
    have "distinct (map ld_day ds)" using d(1) by (simp add: run_done_def strict_sorted_iff)
    then show "ld_day y \<in> set (days @ new) \<longleftrightarrow> ld_day y \<in> set days \<or> ld_outcome y = LABELLED"
      using that new(2) by (auto simp: labels_of_def distinct_map dest: inj_onD)
  qed simp
  have days: "ld_day (settled y) = ld_day y" for y by (simp add: settled_def)
  have "\<exists>y. ld_day y = k \<and> justified ?c es defs (days @ new) y \<and> ld_outcome y \<noteq> LABELLED"
    if "landed es defs k" "start \<le> k" "k \<le> e" for k
  proof -
    have "k \<in> set (map ld_day ds)" unfolding d(2) using that by simp
    then obtain y where y: "y \<in> set ds" "ld_day y = k" by auto
    with again [OF y(1)] days [of y] show ?thesis by (intro exI [of _ "settled y"]) simp
  qed
  then obtain s'' where l: "label_loop ?c es defs e start (?s0 store' (days @ new)) = (Inr (), s'')"
    using label_loop_complete [of es defs start e ?c "?s0 store' (days @ new)"] assms(2) by auto
  from label_loop_done [OF l loads_ok_empty] obtain ds' ls' where d': "run_done ?c es defs start e (?s0 store' (days @ new)) s'' ds' ls'"
      "map ld_day ds' = map ld_day ds" by (auto simp: d(2))
  have out: "map ld_outcome ds' = map ld_outcome (map settled ds)"
  proof (rule nth_equalityI)
    show "length (map ld_outcome ds') = length (map ld_outcome (map settled ds))" using d'(2) by (metis length_map)
    fix i assume i: "i < length (map ld_outcome ds')"
    then have mem: "ds' ! i \<in> set ds'" "ds ! i \<in> set ds" "ld_day (ds' ! i) = ld_day (ds ! i)"
      using d'(2) by (auto simp: list_eq_iff_nth_eq)
    have "justified ?c es defs (days @ new) (ds' ! i)" using d'(1) mem(1) by (simp add: run_done_def)
    with again [OF mem(2)] mem(3) days have "ld_outcome (ds' ! i) = ld_outcome (settled (ds ! i))"
      by (metis justified_unique)
    then show "map ld_outcome ds' ! i = map ld_outcome (map settled ds) ! i" using i d'(2) by (auto simp: list_eq_iff_nth_eq)
  qed
  have "labels_of ds' = []"
  proof -
    have "ld_outcome y \<noteq> LABELLED" if "y \<in> set ds'" for y
    proof -
      have "ld_outcome y \<in> set (map ld_outcome ds')" using that by simp
      then have "ld_outcome y \<in> set (map ld_outcome (map settled ds))" unfolding out .
      then obtain x where "x \<in> set ds" "ld_outcome y = ld_outcome (settled x)" by auto
      with again [OF this(1)] show ?thesis by simp
    qed
    then show ?thesis by (simp add: labels_of_def filter_empty_conv)
  qed
  then have "lb_store s'' = store'" using d'(1) by (simp add: run_done_def)
  moreover have "lb_outcomes s'' = ds'" using d'(1) by (simp add: run_done_def)
  moreover have "map ld_outcome (map settled ds) = map (\<lambda>x. if ld_outcome x = LABELLED then ALREADY_PRESENT else ld_outcome x) ds"
    by (simp add: settled_def)
  ultimately show ?thesis
    using l g(1,2) new(1) out ds by (simp add: generate_labels_def)
qed

theorem label_rerun_appends_nothing_witness:
  "\<exists>report label asked. generate_labels raw_sha (\<lambda>v. []) (demo_labels\<lparr>lg_computed_at := 7\<rparr>) [demo_es 5, demo_es 6] 5 6 [PDict label] =
      (Inr report, [PDict label], asked) \<and> map ld_outcome (lr_outcomes report) = [SKIPPED_NO_PRIOR, ALREADY_PRESENT]"
proof -
  obtain report label where run: "generate_labels raw_sha (\<lambda>v. []) demo_labels [demo_es 5, demo_es 6] 5 6 [] =
    (Inr report, [PDict label], [6, 5])" "map ld_outcome (lr_outcomes report) = [SKIPPED_NO_PRIOR, LABELLED]"
    by (rule exE [OF demo_run]) (elim exE conjE)
  have "labelled_days (\<lambda>v. []) [] = Inr []" "(6 :: pydate) < date_max"
    by (simp_all add: labelled_days_def load_labels_def date_max_def)
  from label_rerun_appends_nothing [OF this run(1), of 7] obtain report' asked' where r:
      "generate_labels raw_sha (\<lambda>v. []) (demo_labels\<lparr>lg_computed_at := 7\<rparr>) [demo_es 5, demo_es 6] 5 6 [PDict label] =
        (Inr report', [PDict label], asked')"
      "map ld_outcome (lr_outcomes report') = map (\<lambda>x. if ld_outcome x = LABELLED then ALREADY_PRESENT else ld_outcome x) (lr_outcomes report)"
    by blast
  have "map (\<lambda>x. if ld_outcome x = LABELLED then ALREADY_PRESENT else ld_outcome x) (lr_outcomes report) =
      map (\<lambda>oc. if oc = LABELLED then ALREADY_PRESENT else oc) (map ld_outcome (lr_outcomes report))" by simp
  also have "\<dots> = [SKIPPED_NO_PRIOR, ALREADY_PRESENT]" unfolding run(2) by simp
  finally have "map ld_outcome (lr_outcomes report') = [SKIPPED_NO_PRIOR, ALREADY_PRESENT]" by (simp only: r(2))
  with r(1) show ?thesis by (intro exI conjI)
qed

end
