(* ===== verification/DistanceRecommender.thy ===== *)
theory DistanceRecommender
  imports TailModel
begin

text \<open>
  The walk-forward recommender of tail distances (\<open>validation/distance_recommender.py\<close>): one
  recommendation for each labelled day from a model fitted afresh on an expanding window.  The written
  file is the list of the recommendations its lines hold; a model is a record of its operations, as in
  \<open>TailModel\<close>.
\<close>

section \<open>The recommender\<close>

text \<open>\<open>{x.day: x for x in xs}\<close>: the last item of a day is kept.\<close>

definition keyed :: "('a \<Rightarrow> pydate) \<Rightarrow> 'a list \<Rightarrow> (pydate, 'a) dict" where
  "keyed day xs = fold (\<lambda>x. AList.update (day x) x) xs []"

text \<open>Subtracting a \<open>timedelta\<close> from a \<open>date\<close> uses its whole days only.\<close>

definition date_minus :: "pydate \<Rightarrow> timedelta \<Rightarrow> pydate result" where
  "date_minus d gap =
     (let c = d - gap div day_us in
      if c < 1 \<or> date_max < c then Inl (OverflowError ''date value out of range'') else Inr c)"

record recommendation_state =
  rs_lines :: "tail_distances list"
  rs_abstain :: nat
  rs_insufficient :: nat

record recommendation_report =
  rr_recommended_days :: nat
  rr_abstain_days :: nat
  rr_insufficient_history_days :: nat
  rr_min_train_days :: int
  rr_quantile :: rat

text \<open>What the model fitted for a day answers; \<open>None\<close> where the history is too short.\<close>

definition recommend_for ::
  "'m tail_ops \<Rightarrow> 'm \<Rightarrow> (pydate, tail_label) dict \<Rightarrow> (pydate, entry_features) dict \<Rightarrow> rat \<Rightarrow> int \<Rightarrow> timedelta
     \<Rightarrow> pydate list \<Rightarrow> pydate \<Rightarrow> tail_distances option option result" where
  "recommend_for ops factory ls fs q min_train gap days d =
     res_bind (date_minus d gap) (\<lambda>cutoff.
       let train = filter (\<lambda>k. k \<le> cutoff) days in
       if int (length train) < min_train then Inr None
       else res_bind (res_map (label_for ls) train) (\<lambda>train_labels.
            res_bind (ops_fit ops factory train_labels (map (feature_for fs) train)) (\<lambda>m.
            res_bind (ops_recommend ops m (feature_for fs d) q) (\<lambda>r. Inr (Some r)))))"

fun recommend_loop ::
  "'m tail_ops \<Rightarrow> 'm \<Rightarrow> (pydate, tail_label) dict \<Rightarrow> (pydate, entry_features) dict \<Rightarrow> rat \<Rightarrow> int \<Rightarrow> timedelta
     \<Rightarrow> pydate list \<Rightarrow> pydate list \<Rightarrow> recommendation_state \<Rightarrow> recommendation_state result" where
  "recommend_loop ops factory ls fs q min_train gap days [] s = Inr s"
| "recommend_loop ops factory ls fs q min_train gap days (d # ds) s =
     res_bind (recommend_for ops factory ls fs q min_train gap days d) (\<lambda>r.
       recommend_loop ops factory ls fs q min_train gap days ds
         (case r of
            None \<Rightarrow> s\<lparr>rs_insufficient := rs_insufficient s + 1\<rparr>
          | Some None \<Rightarrow> s\<lparr>rs_abstain := rs_abstain s + 1\<rparr>
          | Some (Some x) \<Rightarrow> s\<lparr>rs_lines := rs_lines s @ [x]\<rparr>))"

definition recommend_walk_forward ::
  "'m tail_ops \<Rightarrow> 'm \<Rightarrow> tail_label list \<Rightarrow> entry_features list \<Rightarrow> rat \<Rightarrow> int \<Rightarrow> timedelta
     \<Rightarrow> (recommendation_report \<times> tail_distances list) result" where
  "recommend_walk_forward ops factory labels features q min_train gap =
     (let ls = keyed tl_day labels; fs = keyed ef_day features; days = sort (map fst ls) in
      res_bind (recommend_loop ops factory ls fs q min_train gap days days
          \<lparr>rs_lines = [], rs_abstain = 0, rs_insufficient = 0\<rparr>) (\<lambda>s.
        Inr (\<lparr>rr_recommended_days = length (rs_lines s), rr_abstain_days = rs_abstain s,
              rr_insufficient_history_days = rs_insufficient s, rr_min_train_days = min_train, rr_quantile = q\<rparr>,
             rs_lines s)))"

section \<open>The dictionaries\<close>

lemma keyed_snoc: "keyed day (xs @ [x]) = AList.update (day x) x (keyed day xs)"
  by (simp add: keyed_def)

lemma keyed_ok: "dict_ok (keyed day xs)"
  by (induction xs rule: rev_induct) (simp_all add: keyed_snoc keyed_def [of _ "[]"])

lemma keyed_day: "map_of (keyed day xs) k = Some x \<Longrightarrow> day x = k \<and> x \<in> set xs"
  by (induction xs rule: rev_induct) (auto simp: keyed_snoc keyed_def [of _ "[]"] split: if_splits)

lemma keyed_keys: "fst ` set (keyed day xs) = day ` set xs"
  by (induction xs rule: rev_induct) (auto simp: keyed_snoc keyed_def [of _ "[]"] update_fst)

text \<open>The label and the features a day is presented with.\<close>

definition label_on :: "tail_label list \<Rightarrow> pydate \<Rightarrow> tail_label option" where
  "label_on labels = map_of (keyed tl_day labels)"

definition features_last :: "entry_features list \<Rightarrow> pydate \<Rightarrow> entry_features" where
  "features_last features = feature_for (keyed ef_day features)"

lemma features_last_day: "ef_day (features_last features d) = d"
  using keyed_day [of ef_day features d] by (auto simp: features_last_def feature_for_def invalid_features_def split: option.split)

definition label_days :: "tail_label list \<Rightarrow> pydate list" where
  "label_days labels = sort (map fst (keyed tl_day labels))"

lemma label_days: "sorted_wrt (<) (label_days labels)" "set (label_days labels) = {d. label_on labels d \<noteq> None}"
  using keyed_ok [of tl_day labels]
  by (auto simp: label_days_def dict_ok_def strict_sorted_iff label_on_def map_of_eq_None_iff)

section \<open>What a day depends on\<close>

definition same_until :: "pydate \<Rightarrow> tail_label list \<Rightarrow> entry_features list \<Rightarrow> tail_label list \<Rightarrow> entry_features list \<Rightarrow> bool" where
  "same_until c labels features labels' features' \<longleftrightarrow>
     (\<forall>k. k \<le> c \<longrightarrow> label_on labels k = label_on labels' k \<and> features_last features k = features_last features' k)"

lemma sorted_sets: "sorted_wrt (<) xs \<Longrightarrow> sorted_wrt (<) ys \<Longrightarrow> set xs = set ys \<Longrightarrow> xs = (ys :: int list)"
  by (simp add: strict_sorted_iff sorted_distinct_set_unique)

lemma train_days_same:
  assumes "same_until c labels features labels' features'"
  shows "filter (\<lambda>k. k \<le> c) (label_days labels) = filter (\<lambda>k. k \<le> c) (label_days labels')"
  by (rule sorted_sets) (use assms label_days in \<open>auto simp: same_until_def intro: sorted_wrt_filter\<close>)

lemma res_map_eq: "(\<And>x. x \<in> set xs \<Longrightarrow> f x = g x) \<Longrightarrow> res_map f xs = res_map g xs"
  by (induction xs) (auto split: sum.splits)

lemma recommend_for_same:
  assumes "same_until (d - gap div day_us) labels features labels' features'" and "features_last features d = features_last features' d"
  shows "recommend_for ops factory (keyed tl_day labels) (keyed ef_day features) q n gap (label_days labels) d =
    recommend_for ops factory (keyed tl_day labels') (keyed ef_day features') q n gap (label_days labels') d"
proof -
  let ?c = "d - gap div day_us" and ?t = "filter (\<lambda>k. k \<le> d - gap div day_us) (label_days labels)"
  have lab: "res_map (label_for (keyed tl_day labels)) xs = res_map (label_for (keyed tl_day labels')) xs"
    if "set xs \<subseteq> {..?c}" for xs
    by (rule res_map_eq) (use that assms(1) in \<open>auto simp: label_for_def same_until_def label_on_def\<close>)
  have feat: "map (feature_for (keyed ef_day features)) xs = map (feature_for (keyed ef_day features')) xs"
    if "set xs \<subseteq> {..?c}" for xs
    using that assms(1) unfolding same_until_def features_last_def by (intro map_cong refl) blast
  have sub: "set ?t \<subseteq> {..?c}" by auto
  show ?thesis
  proof (cases "?c < 1 \<or> date_max < ?c")
    case False
    then have expand: "recommend_for ops factory ls fs q n gap days d =
        (let train = filter (\<lambda>k. k \<le> ?c) days in
         if int (length train) < n then Inr None
         else res_bind (res_map (label_for ls) train) (\<lambda>l. res_bind (ops_fit ops factory l (map (feature_for fs) train))
                (\<lambda>m. res_bind (ops_recommend ops m (feature_for fs d) q) (\<lambda>r. Inr (Some r)))))" for ls fs days
      by (simp add: recommend_for_def date_minus_def Let_def)
    show ?thesis
      unfolding expand train_days_same [OF assms(1), symmetric] lab [OF sub] feat [OF sub] assms(2) [unfolded features_last_def] Let_def ..
  qed (simp add: recommend_for_def date_minus_def Let_def)
qed

section \<open>A run\<close>

definition answer_for ::
  "'m tail_ops \<Rightarrow> 'm \<Rightarrow> tail_label list \<Rightarrow> entry_features list \<Rightarrow> rat \<Rightarrow> int \<Rightarrow> timedelta \<Rightarrow> pydate
     \<Rightarrow> tail_distances option option result" where
  "answer_for ops factory labels features q n gap d =
     recommend_for ops factory (keyed tl_day labels) (keyed ef_day features) q n gap (label_days labels) d"

definition recommended :: "tail_distances option option result \<Rightarrow> tail_distances list" where
  "recommended r = (case r of Inr (Some (Some x)) \<Rightarrow> [x] | _ \<Rightarrow> [])"

lemma recommend_loop_runs:
  assumes "recommend_loop ops factory ls fs q n gap days ds s = Inr s'"
  shows "rs_lines s' = rs_lines s @ concat (map (\<lambda>d. recommended (recommend_for ops factory ls fs q n gap days d)) ds)
    \<and> rs_abstain s' = rs_abstain s + length (filter (\<lambda>d. recommend_for ops factory ls fs q n gap days d = Inr (Some None)) ds)
    \<and> rs_insufficient s' = rs_insufficient s + length (filter (\<lambda>d. recommend_for ops factory ls fs q n gap days d = Inr None) ds)
    \<and> (\<forall>d \<in> set ds. is_ok (recommend_for ops factory ls fs q n gap days d))"
  using assms
proof (induction ds arbitrary: s)
  case (Cons d ds)
  then obtain r where r: "recommend_for ops factory ls fs q n gap days d = Inr r" by auto
  show ?case
  proof (cases r)
    case None
    with Cons r show ?thesis by (fastforce simp: recommended_def)
  next
    case (Some x)
    with Cons r show ?thesis by (cases x) (fastforce simp: recommended_def)+
  qed
qed simp

lemma recommend_walk_forward_runs:
  assumes "recommend_walk_forward ops factory labels features q n gap = Inr (report, lines)"
  shows "lines = concat (map (\<lambda>d. recommended (answer_for ops factory labels features q n gap d)) (label_days labels))"
    and "rr_recommended_days report = length lines"
    and "rr_abstain_days report = length (filter (\<lambda>d. answer_for ops factory labels features q n gap d = Inr (Some None)) (label_days labels))"
    and "rr_insufficient_history_days report = length (filter (\<lambda>d. answer_for ops factory labels features q n gap d = Inr None) (label_days labels))"
    and "\<forall>d \<in> set (label_days labels). is_ok (answer_for ops factory labels features q n gap d)"
proof -
  obtain s where s: "recommend_loop ops factory (keyed tl_day labels) (keyed ef_day features) q n gap (label_days labels) (label_days labels)
      \<lparr>rs_lines = [], rs_abstain = 0, rs_insufficient = 0\<rparr> = Inr s" "lines = rs_lines s"
      "report = \<lparr>rr_recommended_days = length (rs_lines s), rr_abstain_days = rs_abstain s,
              rr_insufficient_history_days = rs_insufficient s, rr_min_train_days = n, rr_quantile = q\<rparr>"
    using assms by (auto simp: recommend_walk_forward_def Let_def label_days_def)
  from recommend_loop_runs [OF s(1)] s(2,3)
  show "lines = concat (map (\<lambda>d. recommended (answer_for ops factory labels features q n gap d)) (label_days labels))"
    "rr_recommended_days report = length lines"
    "rr_abstain_days report = length (filter (\<lambda>d. answer_for ops factory labels features q n gap d = Inr (Some None)) (label_days labels))"
    "rr_insufficient_history_days report = length (filter (\<lambda>d. answer_for ops factory labels features q n gap d = Inr None) (label_days labels))"
    "\<forall>d \<in> set (label_days labels). is_ok (answer_for ops factory labels features q n gap d)"
    by (simp_all add: answer_for_def)
qed

text \<open>A recommendation carries the day of the features it was asked for, as both models of \<open>TailModel\<close> do.\<close>

definition names_its_day :: "'m tail_ops \<Rightarrow> bool" where
  "names_its_day ops \<longleftrightarrow> (\<forall>m f q t. ops_recommend ops m f q = Inr (Some t) \<longrightarrow> td_day t = ef_day f)"

lemma mk_tail_distances_id: "mk_tail_distances t = Inr t' \<Longrightarrow> t' = t"
  by (auto simp: mk_tail_distances_def split: if_splits)

lemma uncond_names_its_day: "names_its_day uncond_ops"
  by (auto simp: names_its_day_def uncond_ops_def uncond_recommend_def dest!: mk_tail_distances_id split: if_splits option.splits)

lemma iv_names_its_day: "names_its_day iv_ops"
  by (auto simp: names_its_day_def iv_ops_def iv_recommend_def Let_def dest!: mk_tail_distances_id split: if_splits option.splits prod.splits)

lemma answer_for_Some:
  assumes "answer_for ops factory labels features q n gap d = Inr (Some (Some r))"
  shows "\<exists>ls m. n \<le> int (length (filter (\<lambda>k. k \<le> d - gap div day_us) (label_days labels)))
    \<and> res_map (label_for (keyed tl_day labels)) (filter (\<lambda>k. k \<le> d - gap div day_us) (label_days labels)) = Inr ls
    \<and> ops_fit ops factory ls (map (features_last features) (filter (\<lambda>k. k \<le> d - gap div day_us) (label_days labels))) = Inr m
    \<and> ops_recommend ops m (features_last features d) q = Inr (Some r)"
  using assms
  by (auto simp: answer_for_def recommend_for_def date_minus_def Let_def features_last_def not_less split: if_splits)

lemma recommended_day:
  assumes "names_its_day ops" and "r \<in> set (recommended (answer_for ops factory labels features q n gap d))"
  shows "td_day r = d"
proof -
  have "answer_for ops factory labels features q n gap d = Inr (Some (Some r))"
    using assms(2) by (auto simp: recommended_def split: sum.splits option.splits)
  from answer_for_Some [OF this] assms(1) features_last_day [of features d] show ?thesis by (auto simp: names_its_day_def)
qed

lemma lines_on_day:
  assumes "distinct ds" and "\<forall>d \<in> set ds. \<forall>r \<in> set (g d). td_day r = d"
  shows "filter (\<lambda>r. td_day r = d) (concat (map g ds)) = (if d \<in> set ds then g d else [])"
proof -
  have "filter (\<lambda>r. td_day r = d) (g k) = (if k = d then g k else [])" if "k \<in> set ds" for k
    using that assms(2) by (auto simp: filter_id_conv filter_empty_conv)
  with assms(1) show ?thesis by (induction ds) auto
qed

lemma answers_sorted:
  assumes "sorted_wrt (<) ds" and "\<forall>d \<in> set ds. \<forall>r \<in> set (g d). td_day r = d" and "\<forall>d \<in> set ds. length (g d) \<le> 1"
  shows "sorted_wrt (<) (map td_day (concat (map g ds)))"
  using assms
proof (induction ds)
  case (Cons d ds)
  have "sorted_wrt (<) (map td_day (g d))" using Cons.prems(3) by (cases "g d") auto
  with Cons show ?case by (auto simp: sorted_wrt_append)
qed simp

lemma recommended_length: "length (recommended r) \<le> 1"
  by (simp add: recommended_def split: sum.splits option.splits)

lemma answers_partition:
  assumes "\<forall>d \<in> set ds. is_ok (g d)"
  shows "length (concat (map (\<lambda>d. recommended (g d)) ds)) + length (filter (\<lambda>d. g d = Inr (Some None)) ds)
    + length (filter (\<lambda>d. g d = Inr None) ds) = length ds"
  using assms by (induction ds) (auto simp: recommended_def is_ok_iff split: option.splits)

section \<open>An example\<close>

definition demo_history :: "rat \<Rightarrow> tail_label list" where
  "demo_history late = [\<lparr>tl_day = 10, up_max = 3, down_max = 2, tl_entry_price = None\<rparr>,
     \<lparr>tl_day = 12, up_max = late, down_max = 1, tl_entry_price = None\<rparr>]"

definition demo_factory :: uncond_model where
  "demo_factory = new_uncond \<lparr>quantiles = [1 / 2], min_regime_samples = 1, allow_fallback = True, min_distance = 1\<rparr>"

lemma demo_recommends: "\<exists>report r. recommend_walk_forward uncond_ops demo_factory (demo_history late) [] (1 / 2) 1 day_us = Inr (report, [r])
    \<and> td_day r = 12 \<and> up_distance r = 3 \<and> rr_insufficient_history_days report = 1"
  by (simp add: recommend_walk_forward_def Let_def demo_history_def keyed_def recommend_for_def date_minus_def date_max_def
      label_for_def feature_for_def uncond_ops_def uncond_fit_def demo_factory_def new_uncond_def quantile_table_def
      empirical_quantile_higher_def uncond_recommend_def mk_tail_distances_def uncond_version_def blank_iff is_space_def
      invalid_features_def day_us_def)

section \<open>Properties\<close>

text \<open>Every labelled day is accounted for and every recommendation is out of sample: a run that reports has
  recommended, abstained on or skipped for a short history each labelled day once; the file has at most
  one recommendation for a day, in order of days; and each comes from a model fitted on all the labelled
  days up to the purge gap before its day, at least the minimum of them, and none later.\<close>

theorem recommendations_out_of_sample:
  assumes "names_its_day ops" and "recommend_walk_forward ops factory labels features q n gap = Inr (report, lines)"
  shows "rr_recommended_days report + rr_abstain_days report + rr_insufficient_history_days report = length (label_days labels)
    \<and> rr_recommended_days report = length lines \<and> sorted_wrt (<) (map td_day lines)
    \<and> (\<forall>r \<in> set lines. \<exists>train ls m. train = filter (\<lambda>k. k \<le> td_day r - gap div day_us) (label_days labels)
         \<and> n \<le> int (length train) \<and> res_map (label_for (keyed tl_day labels)) train = Inr ls
         \<and> ops_fit ops factory ls (map (features_last features) train) = Inr m
         \<and> ops_recommend ops m (features_last features (td_day r)) q = Inr (Some r))"
proof (intro conjI ballI)
  note run = recommend_walk_forward_runs [OF assms(2)]
  let ?g = "answer_for ops factory labels features q n gap"
  show "rr_recommended_days report + rr_abstain_days report + rr_insufficient_history_days report = length (label_days labels)"
    using answers_partition [OF run(5)] unfolding run(2-4) by (simp add: run(1))
  show "sorted_wrt (<) (map td_day lines)"
    unfolding run(1) by (rule answers_sorted [OF label_days(1)]) (use recommended_day [OF assms(1)] recommended_length in auto)
  fix r assume "r \<in> set lines"
  then obtain d where d: "r \<in> set (recommended (?g d))" unfolding run(1) by auto
  then have "?g d = Inr (Some (Some r))" by (auto simp: recommended_def split: sum.splits option.splits)
  from answer_for_Some [OF this] recommended_day [OF assms(1) d]
  show "\<exists>train ls m. train = filter (\<lambda>k. k \<le> td_day r - gap div day_us) (label_days labels)
         \<and> n \<le> int (length train) \<and> res_map (label_for (keyed tl_day labels)) train = Inr ls
         \<and> ops_fit ops factory ls (map (features_last features) train) = Inr m
         \<and> ops_recommend ops m (features_last features (td_day r)) q = Inr (Some r)" by simp
qed (rule recommend_walk_forward_runs(2) [OF assms(2)])

theorem recommendations_out_of_sample_witness:
  "\<exists>report r. recommend_walk_forward uncond_ops demo_factory (demo_history 9) [] (1 / 2) 1 day_us = Inr (report, [r])
    \<and> rr_recommended_days report + rr_abstain_days report + rr_insufficient_history_days report = 2 \<and> up_distance r = 3"
proof -
  obtain report r where r: "recommend_walk_forward uncond_ops demo_factory (demo_history 9) [] (1 / 2) 1 day_us = Inr (report, [r])"
      "up_distance r = 3" using demo_recommends [of 9] by blast
  have "length (label_days (demo_history 9)) = 2" by (simp add: label_days_def demo_history_def keyed_def)
  with recommendations_out_of_sample [OF uncond_names_its_day r(1)] r show ?thesis by auto
qed

text \<open>What a day's recommendation depends on: labels and features up to and including the day the purge gap
  before it, whose part below a day the code drops, and the features of the day itself.\<close>

lemma recommendation_depends:
  assumes "names_its_day ops"
    and "recommend_walk_forward ops factory labels features q n gap = Inr (report, lines)"
    and "recommend_walk_forward ops factory labels' features' q n gap = Inr (report', lines')"
    and "label_on labels d \<noteq> None" and "label_on labels' d \<noteq> None"
    and "same_until (d - gap div day_us) labels features labels' features'"
    and "features_last features d = features_last features' d"
  shows "filter (\<lambda>r. td_day r = d) lines = filter (\<lambda>r. td_day r = d) lines'"
proof -
  have on: "filter (\<lambda>r. td_day r = d) ks = recommended (answer_for ops factory l f q n gap d)"
    if "recommend_walk_forward ops factory l f q n gap = Inr (rep, ks)" "label_on l d \<noteq> None" for l f rep ks
    unfolding recommend_walk_forward_runs(1) [OF that(1)]
    using lines_on_day [of "label_days l" "\<lambda>d. recommended (answer_for ops factory l f q n gap d)" d] label_days [of l]
      recommended_day [OF assms(1)] that(2) by (simp add: strict_sorted_iff)
  show ?thesis
    unfolding on [OF assms(2,4)] on [OF assms(3,5)] answer_for_def recommend_for_same [OF assms(6,7)] ..
qed

text \<open>C32. A recommendation sees no future, with a purge gap of at least one day, as the default has: the last
  day it may learn from, the whole days of the gap before it, lies before it, and two runs whose
  labels and features agree up to and including that day (the documentation says before it), and whose features agree on the day itself,
  recommend the same for it, whatever the label of the day itself and the labels and features of the embargoed
  and of all later days are.\<close>

theorem recommendation_sees_no_future:
  assumes "names_its_day ops" and gap: "day_us \<le> gap" and cutoff: "cutoff = d - gap div day_us"
    and "recommend_walk_forward ops factory labels features q n gap = Inr (report, lines)"
    and "recommend_walk_forward ops factory labels' features' q n gap = Inr (report', lines')"
    and "label_on labels d \<noteq> None" and "label_on labels' d \<noteq> None"
    and "same_until cutoff labels features labels' features'"
    and "features_last features d = features_last features' d"
  shows "cutoff < d \<and> filter (\<lambda>r. td_day r = d) lines = filter (\<lambda>r. td_day r = d) lines'"
proof
  have "1 \<le> gap div day_us" using gap zdiv_mono1 [OF gap, of day_us] by (simp add: day_us_def)
  then show "cutoff < d" by (simp add: cutoff)
  show "filter (\<lambda>r. td_day r = d) lines = filter (\<lambda>r. td_day r = d) lines'"
    by (rule recommendation_depends [OF assms(1,4-7) assms(8) [unfolded cutoff] assms(9)])
qed

theorem recommendation_sees_no_future_witness:
  "\<exists>report lines report' lines'. recommend_walk_forward uncond_ops demo_factory (demo_history 9) [] (1 / 2) 1 day_us = Inr (report, lines)
    \<and> recommend_walk_forward uncond_ops demo_factory (demo_history 4) [] (1 / 2) 1 day_us = Inr (report', lines')
    \<and> filter (\<lambda>r. td_day r = 12) lines = filter (\<lambda>r. td_day r = 12) lines'"
proof -
  obtain report lines report' lines' where r:
      "recommend_walk_forward uncond_ops demo_factory (demo_history 9) [] (1 / 2) 1 day_us = Inr (report, lines)"
      "recommend_walk_forward uncond_ops demo_factory (demo_history 4) [] (1 / 2) 1 day_us = Inr (report', lines')"
    using demo_recommends [of 9] demo_recommends [of 4] by blast
  have "label_on (demo_history 9) 12 \<noteq> None" "label_on (demo_history 4) 12 \<noteq> None"
      "same_until 11 (demo_history 9) [] (demo_history 4) []"
    by (simp_all add: label_on_def demo_history_def keyed_def same_until_def day_us_def)
  moreover have day_gap: "(11 :: int) = 12 - day_us div day_us" by (simp add: day_us_def)
  ultimately show ?thesis using recommendation_sees_no_future [OF uncond_names_its_day order_refl day_gap r] r by blast
qed

text \<open>With a gap under one day the label of the day itself is learned from: it is the distance recommended.\<close>

lemma short_gap_learns_the_day:
  "late \<in> {1, 2} \<Longrightarrow>
     \<exists>report r r'. recommend_walk_forward uncond_ops demo_factory (demo_history late) [] (1 / 2) 1 (day_us - 1) = Inr (report, [r, r'])
       \<and> td_day r' = 12 \<and> up_distance r' = late"
  by (auto simp: recommend_walk_forward_def Let_def demo_history_def keyed_def recommend_for_def date_minus_def date_max_def
      label_for_def feature_for_def uncond_ops_def uncond_fit_def demo_factory_def new_uncond_def quantile_table_def
      empirical_quantile_higher_def uncond_recommend_def mk_tail_distances_def uncond_version_def blank_iff is_space_def
      invalid_features_def day_us_def)

end
