(* ===== verification/OutcomeLabels.thy ===== *)
theory OutcomeLabels
  imports Excursions
begin

text \<open>
  Outcome labels of a decision (\<open>validation/outcome_labels.py\<close>): the post-decision observations, the
  request that admits only a complete window strictly after the prediction, and the labels computed
  from it.  Floats are exact rationals, so the finiteness checks have no counterpart.
\<close>

section \<open>Requests\<close>

record 't outcome_observation =
  ob_observed_at :: 't
  ob_underlying_price :: rat
  ob_mtm_pnl :: "rat option"

definition mk_outcome_observation :: "datetime outcome_observation \<Rightarrow> instant outcome_observation result" where
  "mk_outcome_observation b =
     res_bind (to_utc (ValueError ''observed_at must be timezone-aware'') (ob_observed_at b)) (\<lambda>t.
       if ob_underlying_price b \<le> 0 then Inl (ValueError ''underlying_price must be positive'')
       else Inr \<lparr>ob_observed_at = t, ob_underlying_price = ob_underlying_price b, ob_mtm_pnl = ob_mtm_pnl b\<rparr>)"

record 't outcome_request =
  rq_sample_id :: string
  rq_prediction_cutoff :: 't
  rq_intraday_end :: 't
  rq_expiry :: 't
  rq_reference_price :: rat
  rq_lower_level :: rat
  rq_upper_level :: rat
  rq_observations :: "instant outcome_observation list"

definition mk_outcome_request :: "datetime outcome_request \<Rightarrow> instant outcome_request result" where
  "mk_outcome_request r =
     (if blank (rq_sample_id r) then Inl (ValueError ''sample_id must not be blank'')
      else
        res_bind (to_utc (ValueError ''prediction_cutoff must be timezone-aware'') (rq_prediction_cutoff r)) (\<lambda>cutoff.
        res_bind (to_utc (ValueError ''intraday_end must be timezone-aware'') (rq_intraday_end r)) (\<lambda>intraday.
        res_bind (to_utc (ValueError ''expiry must be timezone-aware'') (rq_expiry r)) (\<lambda>expiry.
          let times = map ob_observed_at (rq_observations r) in
          if \<not> (cutoff < intraday \<and> intraday \<le> expiry)
            then Inl (ValueError ''require prediction_cutoff < intraday_end <= expiry'')
          else if \<not> (0 < rq_lower_level r \<and> rq_lower_level r < rq_reference_price r \<and> rq_reference_price r < rq_upper_level r)
            then Inl (ValueError ''require 0 < lower_level < reference_price < upper_level'')
          else if rq_observations r = [] then Inl (ValueError ''at least one post-cutoff observation is required'')
          else if list_ex (\<lambda>t. t \<le> cutoff) times
            then Inl (ValueError ''outcome observations must be strictly after prediction_cutoff'')
          else if list_ex (\<lambda>t. t > expiry) times then Inl (ValueError ''outcome observations must not be after expiry'')
          else if list_ex (\<lambda>(l, r). l \<ge> r) (zip times (tl times))
            then Inl (ValueError ''outcome observations must be strictly time ordered'')
          else if last times \<noteq> expiry then Inl (ValueError ''the final observation must be exactly at expiry'')
          else if \<not> list_ex (\<lambda>t. t \<le> intraday) times then Inl (ValueError ''an intraday observation is required'')
          else Inr \<lparr>rq_sample_id = rq_sample_id r, rq_prediction_cutoff = cutoff, rq_intraday_end = intraday, rq_expiry = expiry,
                 rq_reference_price = rq_reference_price r, rq_lower_level = rq_lower_level r,
                 rq_upper_level = rq_upper_level r, rq_observations = rq_observations r\<rparr>))))"

section \<open>Labels\<close>

record outcome_labels =
  ol_sample_id :: string
  ol_prediction_cutoff :: instant
  ol_label_as_of :: instant
  ol_maximum_upward_move :: rat
  ol_maximum_downward_move :: rat
  ol_upside_adverse_move :: rat
  ol_downside_adverse_move :: rat
  ol_intraday_upper_touch :: bool
  ol_intraday_lower_touch :: bool
  ol_expiry_upper_cross :: bool
  ol_expiry_lower_cross :: bool
  ol_maximum_mtm_loss :: "rat option"

text \<open>Python's \<open>max\<close> and \<open>min\<close> of a sequence, which raise where it is empty.\<close>

definition py_max :: "rat list \<Rightarrow> rat result" where
  "py_max xs = (case xs of [] \<Rightarrow> Inl (ValueError ''max() iterable argument is empty'') | x # rest \<Rightarrow> Inr (fold max rest x))"

definition py_min :: "rat list \<Rightarrow> rat result" where
  "py_min xs = (case xs of [] \<Rightarrow> Inl (ValueError ''min() iterable argument is empty'') | x # rest \<Rightarrow> Inr (fold min rest x))"

definition generate_outcome_labels :: "instant outcome_request \<Rightarrow> outcome_labels result" where
  "generate_outcome_labels r =
     (let prices = map ob_underlying_price (rq_observations r);
          intraday = filter (\<lambda>b. ob_observed_at b \<le> rq_intraday_end r) (rq_observations r);
          mtm = concat (map (\<lambda>b. case ob_mtm_pnl b of None \<Rightarrow> [] | Some v \<Rightarrow> [v]) (rq_observations r)) in
      res_bind (py_max prices) (\<lambda>high.
      res_bind (py_min prices) (\<lambda>low.
      res_bind (if mtm = [] then Inr None else res_bind (py_min mtm) (\<lambda>v. Inr (Some (max 0 (- v))))) (\<lambda>loss.
      let expiry_price = last prices in
        Inr \<lparr>ol_sample_id = rq_sample_id r, ol_prediction_cutoff = rq_prediction_cutoff r, ol_label_as_of = rq_expiry r,
          ol_maximum_upward_move = max 0 (high - rq_reference_price r),
          ol_maximum_downward_move = max 0 (rq_reference_price r - low),
          ol_upside_adverse_move = max 0 (rq_reference_price r - low),
          ol_downside_adverse_move = max 0 (high - rq_reference_price r),
          ol_intraday_upper_touch = list_ex (\<lambda>b. ob_underlying_price b \<ge> rq_upper_level r) intraday,
          ol_intraday_lower_touch = list_ex (\<lambda>b. ob_underlying_price b \<le> rq_lower_level r) intraday,
          ol_expiry_upper_cross = (expiry_price \<ge> rq_upper_level r),
          ol_expiry_lower_cross = (expiry_price \<le> rq_lower_level r),
          ol_maximum_mtm_loss = loss\<rparr>))))"

section \<open>Extremes\<close>

lemma py_max_Max: "xs \<noteq> [] \<Longrightarrow> py_max xs = Inr (Max (set xs))"
  by (cases xs) (simp_all add: py_max_def flip: Max.set_eq_fold)

lemma py_min_Min: "xs \<noteq> [] \<Longrightarrow> py_min xs = Inr (Min (set xs))"
  by (cases xs) (simp_all add: py_min_def flip: Min.set_eq_fold)

lemma max_above:
  fixes f :: "'a \<Rightarrow> rat"
  assumes "finite W" and "W \<noteq> {}"
  shows "max 0 (Max (f ` W) - p) = Max (insert 0 ((\<lambda>x. f x - p) ` W))"
proof -
  have "Max ((\<lambda>y. y - p) ` f ` W) = Max (f ` W) - p"
    using assms by (intro mono_Max_commute [symmetric]) (auto simp: mono_def)
  then show ?thesis using assms by (simp add: image_image)
qed

lemma max_below:
  fixes f :: "'a \<Rightarrow> rat"
  assumes "finite W" and "W \<noteq> {}"
  shows "max 0 (p - Min (f ` W)) = Max (insert 0 ((\<lambda>x. p - f x) ` W))"
proof -
  have "Max ((\<lambda>x. p - f x) ` W) = p - Min (f ` W)"
  proof (rule Max_eqI)
    have "Min (f ` W) \<in> f ` W" using assms by simp
    then obtain x where "x \<in> W" "Min (f ` W) = f x" by blast
    then show "p - Min (f ` W) \<in> (\<lambda>x. p - f x) ` W" by simp
    show "y \<le> p - Min (f ` W)" if "y \<in> (\<lambda>x. p - f x) ` W" for y using that assms by auto
  qed (use assms in simp)
  then show ?thesis using assms by simp
qed

lemma last_is_expiry:
  assumes "sorted_wrt (\<lambda>a b. ob_observed_at a < ob_observed_at b) xs" and "xs \<noteq> []" and "b \<in> set xs"
    and "ob_observed_at b = ob_observed_at (last xs)"
  shows "b = last (xs :: instant outcome_observation list)"
  using assms by (induction xs) (auto split: if_splits)

lemma guard_Inr: "(if c then Inl e else m) = Inr r \<longleftrightarrow> \<not> c \<and> m = Inr r"
  by simp

lemma bind_Inr: "res_bind m f = Inr y \<longleftrightarrow> (\<exists>x. m = Inr x \<and> f x = Inr y)"
  by (auto simp: res_bind_def split: sum.splits)

lemma mk_outcome_request_Inr:
  assumes "mk_outcome_request q = Inr r"
  shows "rq_observations r \<noteq> []" "rq_prediction_cutoff r < rq_intraday_end r" "rq_intraday_end r \<le> rq_expiry r"
    "0 < rq_lower_level r" "rq_lower_level r < rq_reference_price r" "rq_reference_price r < rq_upper_level r"
    "\<forall>b \<in> set (rq_observations r). rq_prediction_cutoff r < ob_observed_at b \<and> ob_observed_at b \<le> rq_expiry r"
    "ob_observed_at (last (rq_observations r)) = rq_expiry r"
    "\<exists>b \<in> set (rq_observations r). ob_observed_at b \<le> rq_intraday_end r"
    "sorted_wrt (\<lambda>a b. ob_observed_at a < ob_observed_at b) (rq_observations r)"
proof -
  have times: "(list_ex (\<lambda>(l, r). l \<ge> r) (zip (map ob_observed_at xs) (tl (map ob_observed_at xs))))
      = list_ex (\<lambda>(l, r). ob_observed_at l \<ge> ob_observed_at r) (zip xs (tl xs))" for xs :: "instant outcome_observation list"
    by (simp add: list_ex_iff map_tl [symmetric] zip_map_map) (auto simp: case_prod_beta)
  let ?ts = "map ob_observed_at (rq_observations r)"
  have all: "rq_observations r \<noteq> [] \<and> rq_prediction_cutoff r < rq_intraday_end r \<and> rq_intraday_end r \<le> rq_expiry r
    \<and> 0 < rq_lower_level r \<and> rq_lower_level r < rq_reference_price r \<and> rq_reference_price r < rq_upper_level r
    \<and> \<not> list_ex (\<lambda>t. t \<le> rq_prediction_cutoff r) ?ts \<and> \<not> list_ex (\<lambda>t. t > rq_expiry r) ?ts
    \<and> \<not> list_ex (\<lambda>(l, r). l \<ge> r) (zip ?ts (tl ?ts)) \<and> last ?ts = rq_expiry r \<and> list_ex (\<lambda>t. t \<le> rq_intraday_end r) ?ts"
    using assms unfolding mk_outcome_request_def Let_def guard_Inr bind_Inr by (elim exE conjE) (simp only: sum.inject(2), elim subst, simp)
  then show "rq_observations r \<noteq> []" "rq_prediction_cutoff r < rq_intraday_end r" "rq_intraday_end r \<le> rq_expiry r"
    "0 < rq_lower_level r" "rq_lower_level r < rq_reference_price r" "rq_reference_price r < rq_upper_level r"
    by simp_all
  from all show "\<forall>b \<in> set (rq_observations r). rq_prediction_cutoff r < ob_observed_at b \<and> ob_observed_at b \<le> rq_expiry r"
    by (auto simp: list_ex_iff not_le not_less)
  from all have "rq_observations r \<noteq> []" "last ?ts = rq_expiry r" by blast+
  then show "ob_observed_at (last (rq_observations r)) = rq_expiry r" by (simp add: last_map)
  from all show "\<exists>b \<in> set (rq_observations r). ob_observed_at b \<le> rq_intraday_end r" by (auto simp: list_ex_iff)
  from all have "\<not> list_ex (\<lambda>(l, r). ob_observed_at l \<ge> ob_observed_at r) (zip (rq_observations r) (tl (rq_observations r)))"
    unfolding times by blast
  then show "sorted_wrt (\<lambda>a b. ob_observed_at a < ob_observed_at b) (rq_observations r)"
    using adjacent_sorted [of ob_observed_at "rq_observations r"] by simp
qed

section \<open>Properties\<close>

definition marks :: "instant outcome_request \<Rightarrow> rat set" where
  "marks r = {v. \<exists>b \<in> set (rq_observations r). ob_mtm_pnl b = Some v}"

text \<open>C33. An admitted request always has labels, and they are what the window shows: no observation is at or before
  the prediction; the moves are the largest over all observations, at least zero; a level is touched
  exactly when an observation up to the intraday end reaches it, and crossed at expiry exactly when the
  observation at the expiry does; never both levels are; a level crossed at an expiry that is the
  intraday end was touched; and the loss is the largest negated mark, at least zero, where there is one.\<close>

theorem outcome_labels_exact:
  assumes "mk_outcome_request q = Inr r"
  shows "\<exists>l. generate_outcome_labels r = Inr l
    \<and> (\<forall>b \<in> set (rq_observations r). ol_prediction_cutoff l < ob_observed_at b \<and> ob_observed_at b \<le> ol_label_as_of l)
    \<and> ol_maximum_upward_move l = Max (insert 0 ((\<lambda>b. ob_underlying_price b - rq_reference_price r) ` set (rq_observations r)))
    \<and> ol_maximum_downward_move l = Max (insert 0 ((\<lambda>b. rq_reference_price r - ob_underlying_price b) ` set (rq_observations r)))
    \<and> ol_upside_adverse_move l = ol_maximum_downward_move l \<and> ol_downside_adverse_move l = ol_maximum_upward_move l
    \<and> (ol_intraday_upper_touch l \<longleftrightarrow> (\<exists>b \<in> set (rq_observations r). ob_observed_at b \<le> rq_intraday_end r \<and> rq_upper_level r \<le> ob_underlying_price b))
    \<and> (ol_intraday_lower_touch l \<longleftrightarrow> (\<exists>b \<in> set (rq_observations r). ob_observed_at b \<le> rq_intraday_end r \<and> ob_underlying_price b \<le> rq_lower_level r))
    \<and> (ol_expiry_upper_cross l \<longleftrightarrow> (\<exists>b \<in> set (rq_observations r). ob_observed_at b = rq_expiry r \<and> rq_upper_level r \<le> ob_underlying_price b))
    \<and> (ol_expiry_lower_cross l \<longleftrightarrow> (\<exists>b \<in> set (rq_observations r). ob_observed_at b = rq_expiry r \<and> ob_underlying_price b \<le> rq_lower_level r))
    \<and> \<not> (ol_expiry_upper_cross l \<and> ol_expiry_lower_cross l)
    \<and> (rq_intraday_end r = rq_expiry r \<and> ol_expiry_upper_cross l \<longrightarrow> ol_intraday_upper_touch l)
    \<and> ol_maximum_mtm_loss l = (if marks r = {} then None else Some (Max (insert 0 (uminus ` marks r))))"
proof -
  note f = mk_outcome_request_Inr [OF assms]
  let ?W = "set (rq_observations r)"
  let ?m = "concat (map (\<lambda>b. case ob_mtm_pnl b of None \<Rightarrow> [] | Some v \<Rightarrow> [v]) (rq_observations r))"
  have W: "finite ?W" "?W \<noteq> {}" using f(1) by simp_all
  have mset: "set ?m = marks r" by (force simp: marks_def split: option.splits)
  have ext: "py_max (map ob_underlying_price (rq_observations r)) = Inr (Max (ob_underlying_price ` ?W))"
    "py_min (map ob_underlying_price (rq_observations r)) = Inr (Min (ob_underlying_price ` ?W))"
    using py_max_Max [of "map ob_underlying_price (rq_observations r)"] py_min_Min [of "map ob_underlying_price (rq_observations r)"] f(1)
    by simp_all
  have loss: "(if ?m = [] then Inr None else res_bind (py_min ?m) (\<lambda>v. Inr (Some (max 0 (- v)))))
      = Inr (if marks r = {} then None else Some (Max (insert 0 (uminus ` marks r))))"
  proof (cases "?m = []")
    case True
    then show ?thesis using mset by simp
  next
    case False
    have m: "marks r \<noteq> {}" "finite (marks r)"
      unfolding mset [symmetric] by (simp only: set_empty, rule False) (rule finite_set)
    have "py_min ?m = Inr (Min (marks r))" using py_min_Min [OF False] unfolding mset .
    moreover have "max 0 (0 - Min (id ` marks r)) = Max (insert 0 ((\<lambda>x. 0 - id x) ` marks r))"
      by (rule max_below) (use m in auto)
    ultimately show ?thesis using False m by (simp add: image_def)
  qed
  let ?z = "last (rq_observations r)"
  have z: "?z \<in> ?W" using f(1) by simp
  have only: "b = ?z" if "b \<in> ?W" "ob_observed_at b = rq_expiry r" for b
    using last_is_expiry [OF f(10,1) that(1)] that(2) f(8) by simp
  have at_expiry: "P ?z \<longleftrightarrow> (\<exists>b \<in> ?W. ob_observed_at b = rq_expiry r \<and> P b)" for P
    using z f(8) only by blast
  define l where "l = \<lparr>ol_sample_id = rq_sample_id r, ol_prediction_cutoff = rq_prediction_cutoff r, ol_label_as_of = rq_expiry r,
     ol_maximum_upward_move = max 0 (Max (ob_underlying_price ` ?W) - rq_reference_price r),
     ol_maximum_downward_move = max 0 (rq_reference_price r - Min (ob_underlying_price ` ?W)),
     ol_upside_adverse_move = max 0 (rq_reference_price r - Min (ob_underlying_price ` ?W)),
     ol_downside_adverse_move = max 0 (Max (ob_underlying_price ` ?W) - rq_reference_price r),
     ol_intraday_upper_touch = (\<exists>b \<in> ?W. ob_observed_at b \<le> rq_intraday_end r \<and> rq_upper_level r \<le> ob_underlying_price b),
     ol_intraday_lower_touch = (\<exists>b \<in> ?W. ob_observed_at b \<le> rq_intraday_end r \<and> ob_underlying_price b \<le> rq_lower_level r),
     ol_expiry_upper_cross = (rq_upper_level r \<le> ob_underlying_price ?z),
     ol_expiry_lower_cross = (ob_underlying_price ?z \<le> rq_lower_level r),
     ol_maximum_mtm_loss = (if marks r = {} then None else Some (Max (insert 0 (uminus ` marks r))))\<rparr>"
  have gen: "generate_outcome_labels r = Inr l"
    unfolding generate_outcome_labels_def Let_def ext loss res_bind_simps l_def
    using f(1) by (simp add: last_map list_ex_iff Bex_def conj_assoc)
  have cross: "ol_expiry_upper_cross l \<longleftrightarrow> (\<exists>b \<in> ?W. ob_observed_at b = rq_expiry r \<and> rq_upper_level r \<le> ob_underlying_price b)"
    "ol_expiry_lower_cross l \<longleftrightarrow> (\<exists>b \<in> ?W. ob_observed_at b = rq_expiry r \<and> ob_underlying_price b \<le> rq_lower_level r)"
    using at_expiry [of "\<lambda>b. rq_upper_level r \<le> ob_underlying_price b"]
      at_expiry [of "\<lambda>b. ob_underlying_price b \<le> rq_lower_level r"] by (simp_all add: l_def)
  have "\<not> (ol_expiry_upper_cross l \<and> ol_expiry_lower_cross l)"
    using f(5,6) by (simp add: l_def)
  moreover have "rq_intraday_end r = rq_expiry r \<and> ol_expiry_upper_cross l \<longrightarrow> ol_intraday_upper_touch l"
    unfolding cross using f(7) by (auto simp: l_def)
  moreover have "ol_maximum_upward_move l = Max (insert 0 ((\<lambda>b. ob_underlying_price b - rq_reference_price r) ` ?W))"
    "ol_maximum_downward_move l = Max (insert 0 ((\<lambda>b. rq_reference_price r - ob_underlying_price b) ` ?W))"
    by (simp_all only: l_def outcome_labels.simps max_above [OF W] max_below [OF W])
  moreover have "\<forall>b \<in> ?W. ol_prediction_cutoff l < ob_observed_at b \<and> ob_observed_at b \<le> ol_label_as_of l"
    using f(7) by (simp add: l_def)
  moreover have "ol_upside_adverse_move l = ol_maximum_downward_move l" "ol_downside_adverse_move l = ol_maximum_upward_move l"
    "ol_intraday_upper_touch l \<longleftrightarrow> (\<exists>b \<in> ?W. ob_observed_at b \<le> rq_intraday_end r \<and> rq_upper_level r \<le> ob_underlying_price b)"
    "ol_intraday_lower_touch l \<longleftrightarrow> (\<exists>b \<in> ?W. ob_observed_at b \<le> rq_intraday_end r \<and> ob_underlying_price b \<le> rq_lower_level r)"
    "ol_maximum_mtm_loss l = (if marks r = {} then None else Some (Max (insert 0 (uminus ` marks r))))"
    by (simp_all add: l_def)
  ultimately show ?thesis using gen cross by (intro exI [of _ l] conjI)
qed

definition demo_request :: "datetime outcome_request" where
  "demo_request = \<lparr>rq_sample_id = ''s'', rq_prediction_cutoff = Aware 1, rq_intraday_end = Aware 3, rq_expiry = Aware 5,
     rq_reference_price = 100, rq_lower_level = 95, rq_upper_level = 105, rq_observations =
       [\<lparr>ob_observed_at = 2, ob_underlying_price = 106, ob_mtm_pnl = Some (- 4)\<rparr>, \<lparr>ob_observed_at = 5, ob_underlying_price = 98, ob_mtm_pnl = None\<rparr>]\<rparr>"

theorem outcome_labels_exact_witness:
  "\<exists>r l. mk_outcome_request demo_request = Inr r \<and> generate_outcome_labels r = Inr l \<and> ol_maximum_upward_move l = 6
    \<and> ol_intraday_upper_touch l \<and> \<not> ol_expiry_upper_cross l"
proof -
  have "\<exists>r. mk_outcome_request demo_request = Inr r"
    by (simp add: mk_outcome_request_def demo_request_def blank_iff is_space_def)
  then obtain r where r: "mk_outcome_request demo_request = Inr r" ..
  from outcome_labels_exact [OF r] obtain l where l: "generate_outcome_labels r = Inr l"
    "ol_maximum_upward_move l = Max (insert 0 ((\<lambda>b. ob_underlying_price b - rq_reference_price r) ` set (rq_observations r)))"
    "ol_intraday_upper_touch l \<longleftrightarrow> (\<exists>b \<in> set (rq_observations r). ob_observed_at b \<le> rq_intraday_end r \<and> rq_upper_level r \<le> ob_underlying_price b)"
    "ol_expiry_upper_cross l \<longleftrightarrow> (\<exists>b \<in> set (rq_observations r). ob_observed_at b = rq_expiry r \<and> rq_upper_level r \<le> ob_underlying_price b)"
    by blast
  have "rq_observations r = rq_observations demo_request" "rq_reference_price r = 100" "rq_upper_level r = 105" "rq_intraday_end r = 3"
      "rq_expiry r = 5"
    using r by (auto simp: mk_outcome_request_def demo_request_def Let_def split: if_splits)
  with l r show ?thesis by (auto simp: demo_request_def)
qed

end
