(* ===== verification/EntrySnapshot.thy ===== *)
theory EntrySnapshot
  imports Condor "HOL-Library.Product_Lexorder"
begin

text \<open>
  The feature snapshot of a chain at the entry instant (\<open>features/entry_features.py\<close>,
  \<open>features/entry_snapshot.py\<close>): Black-Scholes prices, their inversion by bisection, the OSI symbols,
  the selection of quotes and the features.  A float is a rational; the transcendental
  functions of \<open>math\<close>, which return the float nearest to a real number, are the parameter \<open>math_fns\<close>,
  and no result rests on what they return unless it says so.  The arithmetic is exact, but for the
  midpoints of the bisection and the median of its results: there the rounding to the nearest float,
  the parameter \<open>fn_round\<close>, decides whether the bracket's right end can come out, and it can.
\<close>

section \<open>The record\<close>

record 't feature_snapshot =
  sn_day :: pydate
  sn_entry_ts :: 't
  sn_implied_center :: rat
  sn_atm_iv :: rat
  sn_skew :: rat
  sn_realized_vol_30m :: rat
  sn_median_spread :: rat
  sn_atm_iv_valid :: bool

definition mk_feature_snapshot :: "datetime feature_snapshot \<Rightarrow> instant feature_snapshot result" where
  "mk_feature_snapshot f =
     res_bind (to_utc (EntryFeaturesError ''entry_ts must be timezone-aware'') (sn_entry_ts f)) (\<lambda>t.
       if sn_implied_center f \<le> 0 then Inl (EntryFeaturesError ''implied_center must be positive'')
       else if sn_atm_iv_valid f \<and> \<not> (0 < sn_atm_iv f \<and> sn_atm_iv f < 5)
         then Inl (EntryFeaturesError ''atm_iv must be within (0, 5)'')
       else if sn_realized_vol_30m f < 0 then Inl (EntryFeaturesError ''realized_vol_30m must not be negative'')
       else if sn_median_spread f < 0 then Inl (EntryFeaturesError ''median_spread must not be negative'')
       else Inr \<lparr>sn_day = sn_day f, sn_entry_ts = t, sn_implied_center = sn_implied_center f, sn_atm_iv = sn_atm_iv f,
              sn_skew = sn_skew f, sn_realized_vol_30m = sn_realized_vol_30m f, sn_median_spread = sn_median_spread f,
              sn_atm_iv_valid = sn_atm_iv_valid f\<rparr>)"

section \<open>Prices and their inversion\<close>

record math_fns =
  fn_exp :: "rat \<Rightarrow> rat"
  fn_log :: "rat \<Rightarrow> rat"
  fn_sqrt :: "rat \<Rightarrow> rat"
  fn_erf :: "rat \<Rightarrow> rat"
  fn_round :: "rat \<Rightarrow> rat"

definition divide_float :: "rat \<Rightarrow> rat \<Rightarrow> rat result" where
  "divide_float x y = (if y = 0 then Inl (ZeroDivisionError ''float division by zero'') else Inr (x / y))"

definition norm_cdf :: "math_fns \<Rightarrow> rat \<Rightarrow> rat result" where
  "norm_cdf M x = res_bind (divide_float x (fn_sqrt M 2)) (\<lambda>y. Inr (1 / 2 * (1 + fn_erf M y)))"

definition black_scholes_price :: "math_fns \<Rightarrow> rat \<Rightarrow> rat \<Rightarrow> rat \<Rightarrow> rat \<Rightarrow> rat \<Rightarrow> bool \<Rightarrow> rat result" where
  "black_scholes_price M spot strike rate sigma tau is_call =
     (if spot \<le> 0 \<or> strike \<le> 0 then Inl (EntryFeaturesError ''spot and strike must be positive'')
      else if tau \<le> 0 then Inr (if is_call then max (spot - strike) 0 else max (strike - spot) 0)
      else
        let discount = fn_exp M (- rate * tau) in
        if sigma \<le> 0
        then Inr (if is_call then max (spot - strike * discount) 0 else max (strike * discount - spot) 0)
        else
          let vol_sqrt_t = sigma * fn_sqrt M tau in
          res_bind (divide_float (fn_log M (spot / strike) + (rate + 1 / 2 * sigma * sigma) * tau) vol_sqrt_t) (\<lambda>d1.
            let d2 = d1 - vol_sqrt_t in
            if is_call
            then res_bind (norm_cdf M d1) (\<lambda>n1. res_bind (norm_cdf M d2) (\<lambda>n2.
                   Inr (spot * n1 - strike * discount * n2)))
            else res_bind (norm_cdf M (- d2)) (\<lambda>n2. res_bind (norm_cdf M (- d1)) (\<lambda>n1.
                   Inr (strike * discount * n2 - spot * n1)))))"

definition IV_BRACKET_LO :: rat where "IV_BRACKET_LO = 1 / 10000"
definition IV_BRACKET_HI :: rat where "IV_BRACKET_HI = 5"
definition IV_BISECTION_ITERATIONS :: nat where "IV_BISECTION_ITERATIONS = 64"

fun bisect_sigma :: "math_fns \<Rightarrow> (rat \<Rightarrow> rat result) \<Rightarrow> rat \<Rightarrow> nat \<Rightarrow> rat \<Rightarrow> rat \<Rightarrow> (rat \<times> rat) result" where
  "bisect_sigma M f price 0 lo hi = Inr (lo, hi)"
| "bisect_sigma M f price (Suc n) lo hi =
     (let mid = fn_round M (1 / 2 * (lo + hi)) in
      res_bind (f mid) (\<lambda>p. if p < price then bisect_sigma M f price n mid hi else bisect_sigma M f price n lo mid))"

definition implied_vol :: "math_fns \<Rightarrow> rat \<Rightarrow> rat \<Rightarrow> rat \<Rightarrow> rat \<Rightarrow> rat \<Rightarrow> bool \<Rightarrow> rat option result" where
  "implied_vol M price spot strike rate tau is_call =
     (if price < 0 \<or> tau \<le> 0 then Inr None
      else
        let f = (\<lambda>sigma. black_scholes_price M spot strike rate sigma tau is_call) in
        res_bind (f IV_BRACKET_LO) (\<lambda>p_lo.
        res_bind (f IV_BRACKET_HI) (\<lambda>p_hi.
          let tolerance = 1 / 10 ^ 9 * max 1 price in
          if price < p_lo - tolerance \<or> price > p_hi + tolerance then Inr None
          else res_bind (bisect_sigma M f price IV_BISECTION_ITERATIONS IV_BRACKET_LO IV_BRACKET_HI)
                 (\<lambda>(lo, hi). Inr (Some (fn_round M (1 / 2 * (lo + hi))))))))"

section \<open>Quotes\<close>

text \<open>\<open>str.isdigit\<close> on Latin-1 also holds of the three superscript digits, on which \<open>int\<close> raises.\<close>

definition digit_like :: "char \<Rightarrow> bool" where
  "digit_like c \<longleftrightarrow> is_digit c \<or> (of_char c :: nat) \<in> {178, 179, 185}"

definition parse_osi :: "string \<Rightarrow> (bool \<times> rat) result" where
  "parse_osi s =
     (if length s \<noteq> 21 then Inl (EntryFeaturesError ''OSI symbol must be 21 characters'')
      else
        let expiry = take 6 (drop 6 s); flag = s ! 12; strike = drop 13 s in
        if \<not> list_all digit_like expiry \<or> flag \<notin> {CHR ''C'', CHR ''P''} \<or> \<not> list_all digit_like strike
        then Inl (EntryFeaturesError ''malformed OSI symbol'')
        else if \<not> list_all is_digit strike then Inl (ValueError ''invalid literal for int() with base 10'')
        else Inr (flag = CHR ''C'', of_nat (read_nat strike) / 1000))"

record entry_quote =
  eq_strike :: rat
  eq_is_call :: bool
  eq_bid :: rat
  eq_ask :: rat

definition eq_mid :: "entry_quote \<Rightarrow> rat" where
  "eq_mid q = 1 / 2 * (eq_bid q + eq_ask q)"

definition eq_spread :: "entry_quote \<Rightarrow> rat" where
  "eq_spread q = eq_ask q - eq_bid q"

definition quotes_at_entry :: "chain_day \<Rightarrow> instant \<Rightarrow> (string, quote) dict" where
  "quotes_at_entry chain entry = latest_quotes (cd_quotes chain) entry []"

definition parse_quote :: "quote \<Rightarrow> entry_quote list result" where
  "parse_quote q =
     (case (q_bid q, q_ask q) of
        (Some b, Some a) \<Rightarrow> res_bind (parse_osi (q_symbol q)) (\<lambda>(c, k).
           Inr [\<lparr>eq_strike = k, eq_is_call = c, eq_bid = b, eq_ask = a\<rparr>])
      | _ \<Rightarrow> Inr [])"

definition two_sided :: "(string, quote) dict \<Rightarrow> entry_quote list result" where
  "two_sided quotes = res_bind (res_map parse_quote (dict_values quotes)) (\<lambda>xs. Inr (concat xs))"

definition MIN_MID :: rat where "MIN_MID = 1 / 10"
definition MAX_RELATIVE_SPREAD :: rat where "MAX_RELATIVE_SPREAD = 1 / 2"
definition ATM_CANDIDATES :: nat where "ATM_CANDIDATES = 4"
definition SKEW_OFFSET :: rat where "SKEW_OFFSET = 2 / 100"
definition SPREAD_BAND :: rat where "SPREAD_BAND = 3 / 100"
definition RV_WINDOW :: timedelta where "RV_WINDOW = minutes 30"
definition RV_MIN_BARS :: nat where "RV_MIN_BARS = 15"

definition sane :: "entry_quote \<Rightarrow> bool" where
  "sane q \<longleftrightarrow> MIN_MID \<le> eq_mid q \<and> eq_spread q \<le> MAX_RELATIVE_SPREAD * eq_mid q"

section \<open>Features\<close>

text \<open>\<open>statistics.median\<close> of a list that is not empty.\<close>

definition median :: "rat list \<Rightarrow> rat" where
  "median xs = (let s = sort xs; n = length s in
     if n mod 2 = 1 then s ! (n div 2) else (s ! (n div 2 - 1) + s ! (n div 2)) / 2)"

definition nearness :: "rat \<Rightarrow> entry_quote \<Rightarrow> rat \<times> rat" where
  "nearness target q = (\<bar>eq_strike q - target\<bar>, eq_strike q)"

definition quote_vol :: "math_fns \<Rightarrow> rat \<Rightarrow> rat \<Rightarrow> rat \<Rightarrow> entry_quote \<Rightarrow> rat option result" where
  "quote_vol M center tau rate q = implied_vol M (eq_mid q) center (eq_strike q) rate tau (eq_is_call q)"

definition somes :: "'a option list \<Rightarrow> 'a list" where
  "somes xs = concat (map (\<lambda>x. case x of None \<Rightarrow> [] | Some v \<Rightarrow> [v]) xs)"

definition atm_iv_of :: "math_fns \<Rightarrow> entry_quote list \<Rightarrow> rat \<Rightarrow> rat \<Rightarrow> rat \<Rightarrow> rat option result" where
  "atm_iv_of M candidates center tau rate =
     (let side = filter (\<lambda>q. eq_is_call q = (eq_strike q \<ge> center)) candidates;
          nearest = take ATM_CANDIDATES (sort_key (nearness center) side)
      in res_bind (res_map (quote_vol M center tau rate) nearest) (\<lambda>ivs.
           Inr (if somes ivs = [] then None else Some (fn_round M (median (somes ivs))))))"

definition skew_leg :: "math_fns \<Rightarrow> entry_quote list \<Rightarrow> rat \<Rightarrow> bool \<Rightarrow> rat \<Rightarrow> rat \<Rightarrow> rat \<Rightarrow> rat option result" where
  "skew_leg M candidates target is_call center tau rate =
     (let side = filter (\<lambda>q. eq_is_call q = is_call) candidates in
      if side = [] then Inr None
      else quote_vol M center tau rate (hd (sort_key (nearness target) side)))"

text \<open>\<open>statistics.stdev\<close>: the root of the sample variance.\<close>

definition sample_variance :: "rat list \<Rightarrow> rat" where
  "sample_variance xs = (let m = sum_list xs / of_nat (length xs) in
     sum_list (map (\<lambda>x. (x - m) ^ 2) xs) / of_nat (length xs - 1))"

definition log_returns :: "math_fns \<Rightarrow> rat list \<Rightarrow> rat list" where
  "log_returns M closes = map (\<lambda>(a, b). fn_log M (b / a)) (zip closes (tl closes))"

definition realized_vol_30m :: "math_fns \<Rightarrow> instant minute_bar list \<Rightarrow> instant \<Rightarrow> rat" where
  "realized_vol_30m M bars entry =
     (let closes = map bar_close (filter (\<lambda>b. entry - RV_WINDOW \<le> bar_ts b \<and> bar_ts b < entry \<and> bar_close b > 0) bars) in
      if length closes < RV_MIN_BARS then 0
      else let returns = log_returns M closes in
        if length returns < 2 then 0 else fn_sqrt M (sample_variance returns) * fn_sqrt M (252 * 390))"

definition median_spread_of :: "entry_quote list \<Rightarrow> rat \<Rightarrow> rat" where
  "median_spread_of quotes center =
     (let spreads = map eq_spread (filter (\<lambda>q. center * (1 - SPREAD_BAND) \<le> eq_strike q \<and> eq_strike q \<le> center * (1 + SPREAD_BAND)) quotes)
      in if spreads = [] then 0 else median spreads)"

definition SECONDS_PER_YEAR :: rat where "SECONDS_PER_YEAR = 36525 / 100 * 86400"

definition compute_entry_features ::
  "math_fns \<Rightarrow> chain_day \<Rightarrow> instant \<Rightarrow> rat \<Rightarrow> instant \<Rightarrow> rat \<Rightarrow> instant feature_snapshot result" where
  "compute_entry_features M chain entry center expiry_close rate =
     (let tau = of_int (expiry_close - entry) / 1000000 / SECONDS_PER_YEAR in
      if tau \<le> 0
      then Inl (EntryFeaturesError (''expiry_close '' @ isoformat expiry_close @ '' must be after entry '' @ isoformat entry))
      else res_bind (two_sided (quotes_at_entry chain entry)) (\<lambda>quotes.
        let candidates = filter sane quotes in
        res_bind (atm_iv_of M candidates center tau rate) (\<lambda>iv.
        res_bind (skew_leg M candidates (center * (1 - SKEW_OFFSET)) False center tau rate) (\<lambda>put_iv.
        res_bind (skew_leg M candidates (center * (1 + SKEW_OFFSET)) True center tau rate) (\<lambda>call_iv.
          mk_feature_snapshot \<lparr>sn_day = cd_day chain, sn_entry_ts = Aware entry, sn_implied_center = center,
            sn_atm_iv = (case iv of None \<Rightarrow> 0 | Some v \<Rightarrow> v),
            sn_skew = (case (put_iv, call_iv) of (Some p, Some c) \<Rightarrow> p - c | _ \<Rightarrow> 0),
            sn_realized_vol_30m = realized_vol_30m M (cd_bars chain) entry,
            sn_median_spread = median_spread_of quotes center, sn_atm_iv_valid = (iv \<noteq> None)\<rparr>)))))"

section \<open>Bisection\<close>

text \<open>What \<open>math\<close> and the float format document: \<open>sqrt\<close> is positive on positive numbers and never
  negative; rounding to the nearest float is monotone, leaves a float alone, and 5 is a float; the
  float nearest to 1/10000 is positive.\<close>

definition math_ok :: "math_fns \<Rightarrow> bool" where
  "math_ok M \<longleftrightarrow> (\<forall>x. 0 \<le> fn_sqrt M x \<and> (0 < x \<longrightarrow> 0 < fn_sqrt M x))
     \<and> mono (fn_round M) \<and> (\<forall>x. fn_round M (fn_round M x) = fn_round M x)
     \<and> fn_round M 5 = 5 \<and> 0 < fn_round M (1 / 10000)"

lemma math_okD:
  assumes "math_ok M"
  shows "0 \<le> fn_sqrt M x" "0 < x \<Longrightarrow> 0 < fn_sqrt M x" "x \<le> y \<Longrightarrow> fn_round M x \<le> fn_round M y"
    "fn_round M (fn_round M x) = fn_round M x" "fn_round M 5 = 5" "0 < fn_round M (1 / 10000)"
  using assms by (auto simp: math_ok_def dest: monoD)

lemma rounded_midpoint:
  assumes "math_ok M" and "fn_round M lo \<le> fn_round M hi"
  shows "fn_round M lo \<le> fn_round M (1 / 2 * (lo + hi)) \<and> fn_round M (1 / 2 * (lo + hi)) \<le> fn_round M hi"
proof (cases "lo \<le> hi")
  case True
  then show ?thesis by (intro conjI math_okD(3) [OF assms(1)]) simp_all
next
  case False
  then have "fn_round M (1 / 2 * (lo + hi)) \<le> fn_round M lo" "fn_round M hi \<le> fn_round M (1 / 2 * (lo + hi))"
    by (intro math_okD(3) [OF assms(1)]; simp)+
  with assms(2) show ?thesis by (intro conjI) linarith+
qed

lemma bisect_sigma_brackets:
  assumes M: "math_ok M" and "bisect_sigma M f price n lo hi = Inr (lo', hi')" and "fn_round M lo \<le> fn_round M hi"
  shows "fn_round M lo \<le> fn_round M lo' \<and> fn_round M lo' \<le> fn_round M hi' \<and> fn_round M hi' \<le> fn_round M hi
    \<and> (lo' = lo \<or> (\<exists>p. f lo' = Inr p \<and> p < price)) \<and> (hi' = hi \<or> (\<exists>p. f hi' = Inr p \<and> price \<le> p))"
  using assms(2,3)
proof (induction n arbitrary: lo hi)
  case (Suc n)
  define m where "m = fn_round M (1 / 2 * (lo + hi))"
  obtain p where p: "f m = Inr p"
      "(if p < price then bisect_sigma M f price n m hi else bisect_sigma M f price n lo m) = Inr (lo', hi')"
    using Suc.prems(1) unfolding bisect_sigma.simps Let_def m_def [symmetric] by (rule res_bind_InrE)
  have m: "fn_round M lo \<le> fn_round M m" "fn_round M m \<le> fn_round M hi"
    using rounded_midpoint [OF M Suc.prems(2)] by (simp_all add: m_def math_okD(4) [OF M])
  show ?case
  proof (cases "p < price")
    case True
    with p(2) have "bisect_sigma M f price n m hi = Inr (lo', hi')" by simp
    from Suc.IH [OF this m(2)] m p(1) True show ?thesis by auto
  next
    case False
    with p(2) have "bisect_sigma M f price n lo m = Inr (lo', hi')" by simp
    from Suc.IH [OF this m(1)] m p(1) False show ?thesis by (auto simp: not_less)
  qed
qed simp

lemma bisect_sigma_total: "\<forall>x. \<exists>p. f x = Inr p \<Longrightarrow> \<exists>r. bisect_sigma M f price n lo hi = Inr r"
proof (induction n arbitrary: lo hi)
  case (Suc n)
  from Suc(2) obtain p where "f (fn_round M (1 / 2 * (lo + hi))) = Inr p" by blast
  with Suc show ?case by (simp add: Let_def)
qed simp

lemma implied_vol_Some:
  assumes "implied_vol M price spot strike rate tau c = Inr (Some v)"
  shows "\<exists>lo hi. bisect_sigma M (\<lambda>s. black_scholes_price M spot strike rate s tau c) price 64 (1 / 10000) 5 = Inr (lo, hi)
    \<and> v = fn_round M (1 / 2 * (lo + hi)) \<and> 0 \<le> price \<and> 0 < tau"
  using assms
  by (auto simp: implied_vol_def Let_def IV_BISECTION_ITERATIONS_def IV_BRACKET_LO_def IV_BRACKET_HI_def split: if_splits)

lemma implied_vol_range:
  assumes M: "math_ok M" and "implied_vol M price spot strike rate tau c = Inr (Some v)"
  shows "fn_round M (1 / 10000) \<le> v \<and> v \<le> 5"
proof -
  from implied_vol_Some [OF assms(2)] obtain lo hi where b:
      "bisect_sigma M (\<lambda>s. black_scholes_price M spot strike rate s tau c) price 64 (1 / 10000) 5 = Inr (lo, hi)"
      "v = fn_round M (1 / 2 * (lo + hi))"
    by blast
  have "fn_round M (1 / 10000) \<le> fn_round M 5" by (rule math_okD(3) [OF M]) simp
  note r = bisect_sigma_brackets [OF M b(1) this]
  then have "fn_round M lo \<le> v \<and> v \<le> fn_round M hi" unfolding b(2) by (intro rounded_midpoint [OF M]) simp
  with r math_okD(5) [OF M] show ?thesis by simp
qed

lemma divide_float_ok [simp]: "y \<noteq> 0 \<Longrightarrow> divide_float x y = Inr (x / y)"
  by (simp add: divide_float_def)

lemma black_scholes_total:
  assumes M: "math_ok M" and "0 < spot" and "0 < strike"
  shows "\<exists>p. black_scholes_price M spot strike rate sigma tau c = Inr p"
proof -
  have "fn_sqrt M 2 \<noteq> 0" using math_okD(2) [OF M, of 2] by simp
  moreover have "sigma * fn_sqrt M tau \<noteq> 0" if "\<not> tau \<le> 0" "\<not> sigma \<le> 0"
    using math_okD(2) [OF M, of tau] that by simp
  ultimately show ?thesis
    using assms(2,3) by (auto simp: black_scholes_price_def norm_cdf_def Let_def simp del: mult_eq_0_iff)
qed

lemma implied_vol_total:
  assumes "math_ok M" and "0 < spot" and "0 < strike"
  shows "\<exists>r. implied_vol M price spot strike rate tau c = Inr r"
proof -
  let ?f = "\<lambda>s. black_scholes_price M spot strike rate s tau c"
  have total: "\<forall>x. \<exists>p. ?f x = Inr p" using black_scholes_total [OF assms] by blast
  then obtain a b lo hi where "?f IV_BRACKET_LO = Inr a" "?f IV_BRACKET_HI = Inr b"
      "bisect_sigma M ?f price IV_BISECTION_ITERATIONS IV_BRACKET_LO IV_BRACKET_HI = Inr (lo, hi)"
    using bisect_sigma_total [OF total] by (metis surj_pair)
  then show ?thesis by (simp add: implied_vol_def Let_def)
qed

section \<open>Symbols\<close>

lemma read_nat_pad_show: "read_nat (pad w (show_nat n)) = n"
  by (simp add: read_nat_pad read_show_nat)

lemma two_digits: "n < 100 \<Longrightarrow> length (pad 2 (show_nat n)) = 2"
  by (subst show_nat.simps, subst show_nat.simps) (auto simp: pad_def)

lemma digits_like: "list_all is_digit s \<Longrightarrow> list_all digit_like s"
  by (auto simp: list_all_iff digit_like_def)

lemma pad_length_ge: "w \<le> length (pad w s)"
  by (simp add: pad_def)

lemma parse_osi_symbol:
  assumes "osi_symbol day right strike = Inr s"
  shows "parse_osi s = Inr (right = ''C'', of_int strike)"
proof -
  obtain y m d where e: "ymd day = (y, m, d)" by (cases "ymd day")
  define a b c k where "a = pad 2 (show_nat (nat (y mod 100)))" and "b = pad 2 (show_nat (nat m))"
    and "c = pad 2 (show_nat (nat d))" and "k = pad 8 (show_nat (nat (strike * 1000)))"
  have r: "right = ''P'' \<or> right = ''C''" and pos: "0 < strike"
    and s: "s = ''SPXW'' @ ''  '' @ a @ b @ c @ right @ k" and len: "length s = 21"
    using assms by (auto simp: osi_symbol_def Let_def e a_def b_def c_def k_def option_root_def numeral_2_eq_2 split: if_splits)
  have "2 \<le> length a" "2 \<le> length b" "2 \<le> length c" "8 \<le> length k"
    unfolding a_def b_def c_def k_def by (rule pad_length_ge)+
  moreover have "length a + length b + length c + length k = 14" using len r by (auto simp: s)
  ultimately have lens: "length a = 2" "length b = 2" "length c = 2" "length k = 8" by simp_all
  have digits: "list_all is_digit a" "list_all is_digit b" "list_all is_digit c" "list_all is_digit k"
    unfolding a_def b_def c_def k_def by (intro pad_digits show_nat_digits)+
  have parts: "take 6 (drop 6 s) = a @ b @ c" "drop 13 s = k" "s ! 12 = hd right"
    using lens r by (auto simp: s nth_append)
  have "read_nat k = nat (strike * 1000)" by (simp add: k_def read_nat_pad_show)
  moreover have "(of_nat (nat (strike * 1000)) :: rat) / 1000 = of_int strike" using pos by simp
  ultimately show ?thesis
    using len digits r by (auto simp: parse_osi_def parts digits_like)
qed

section \<open>Totality\<close>

definition readable_quote :: "quote \<Rightarrow> bool" where
  "readable_quote q \<longleftrightarrow> \<not> crossed q \<and> (\<exists>c k. parse_osi (q_symbol q) = Inr (c, k) \<and> 0 < k)"

definition good_entry_quote :: "entry_quote \<Rightarrow> bool" where
  "good_entry_quote q \<longleftrightarrow> 0 < eq_strike q \<and> eq_bid q \<le> eq_ask q"

lemma parse_quote_good:
  assumes "readable_quote q"
  shows "\<exists>es. parse_quote q = Inr es \<and> list_all good_entry_quote es"
  using assms
  by (auto simp: readable_quote_def parse_quote_def good_entry_quote_def crossed_def split: option.splits)

lemma res_map_parse_good:
  "list_all readable_quote qs \<Longrightarrow> \<exists>ess. res_map parse_quote qs = Inr ess \<and> list_all good_entry_quote (concat ess)"
proof (induction qs)
  case (Cons q qs)
  then obtain es ess where "parse_quote q = Inr es" "list_all good_entry_quote es"
      "res_map parse_quote qs = Inr ess" "list_all good_entry_quote (concat ess)"
    using parse_quote_good [of q] by auto
  then show ?case by simp
qed simp

lemma index_quotes_values: "set (dict_values (index_quotes qs d)) \<subseteq> set qs \<union> set (dict_values d)"
proof (induction qs arbitrary: d)
  case (Cons q qs)
  have "set (dict_values (AList.update (q_symbol q) q d)) \<subseteq> insert q (set (dict_values d))"
    by (induction d) (auto simp: dict_values_def)
  with Cons [of "AList.update (q_symbol q) q d"] show ?case by (auto simp: index_quotes_def)
qed (simp add: index_quotes_def)

lemma two_sided_good:
  assumes "sorted (map q_ts (cd_quotes chain))" and "\<forall>q \<in> set (cd_quotes chain). q_ts q \<le> entry \<longrightarrow> readable_quote q"
  shows "\<exists>es. two_sided (quotes_at_entry chain entry) = Inr es \<and> list_all good_entry_quote es"
proof -
  have "set (dict_values (quotes_at_entry chain entry)) \<subseteq> {q \<in> set (cd_quotes chain). q_ts q \<le> entry}"
    using index_quotes_values [of "filter (\<lambda>q. q_ts q \<le> entry) (cd_quotes chain)" "[]"]
    by (auto simp: quotes_at_entry_def latest_quotes_filter [OF assms(1)] dict_values_def)
  with assms(2) have "list_all readable_quote (dict_values (quotes_at_entry chain entry))"
    by (auto simp: list_all_iff)
  from res_map_parse_good [OF this] show ?thesis by (auto simp: two_sided_def)
qed

lemma median_between:
  assumes "xs \<noteq> []"
  shows "\<exists>a \<in> set xs. \<exists>b \<in> set xs. median xs = (a + b) / 2"
proof -
  have "sort xs ! i \<in> set xs" if "i < length xs" for i
    using nth_mem [of i "sort xs"] that by simp
  moreover have "length xs div 2 < length xs" "length xs div 2 - 1 < length xs"
    using assms by (cases xs; simp; arith)+
  ultimately have *: "sort xs ! (length xs div 2) \<in> set xs" "sort xs ! (length xs div 2 - 1) \<in> set xs" by blast+
  show ?thesis
  proof (cases "length xs mod 2 = 1")
    case True
    then have "median xs = (sort xs ! (length xs div 2) + sort xs ! (length xs div 2)) / 2"
      by (simp add: median_def Let_def)
    with *(1) show ?thesis by blast
  next
    case False
    then have "median xs = (sort xs ! (length xs div 2 - 1) + sort xs ! (length xs div 2)) / 2"
      by (simp add: median_def Let_def)
    with * show ?thesis by blast
  qed
qed

lemma quote_vol_total:
  assumes "math_ok M" and "0 < center" and "good_entry_quote q"
  shows "\<exists>v. quote_vol M center tau rate q = Inr v"
  using implied_vol_total [OF assms(1,2)] assms(3) by (simp add: quote_vol_def good_entry_quote_def)

lemma somes_all: "v \<in> set (somes xs) \<longleftrightarrow> Some v \<in> set xs"
  by (force simp: somes_def split: option.splits)

lemma res_map_mem: "res_map f xs = Inr ys \<Longrightarrow> y \<in> set ys \<Longrightarrow> \<exists>x \<in> set xs. f x = Inr y"
  by (induction xs arbitrary: ys) (auto split: sum.splits)

lemma atm_iv_of_range:
  assumes M: "math_ok M" and "atm_iv_of M qs center tau rate = Inr (Some v)"
  shows "0 < v \<and> v \<le> 5"
proof -
  from assms(2) obtain xs ivs where r: "res_map (quote_vol M center tau rate) xs = Inr ivs"
      and ne: "somes ivs \<noteq> []" and v: "v = fn_round M (median (somes ivs))"
    by (auto simp: atm_iv_of_def Let_def split: if_splits)
  have bounds: "fn_round M (1 / 10000) \<le> u \<and> u \<le> 5" if u: "u \<in> set (somes ivs)" for u
  proof -
    from u have "Some u \<in> set ivs" by (simp add: somes_all)
    from res_map_mem [OF r this] show ?thesis by (auto simp: quote_vol_def dest: implied_vol_range [OF M])
  qed
  from median_between [OF ne] obtain a b where "a \<in> set (somes ivs)" "b \<in> set (somes ivs)" "median (somes ivs) = (a + b) / 2"
    by blast
  with bounds [of a] bounds [of b] have "fn_round M (1 / 10000) \<le> median (somes ivs)" "median (somes ivs) \<le> 5" by simp_all
  then have "fn_round M (fn_round M (1 / 10000)) \<le> v" "v \<le> fn_round M 5" unfolding v by (blast intro: math_okD(3) [OF M])+
  with math_okD(5,6) [OF M] show ?thesis by (simp add: math_okD(4) [OF M])
qed

lemma atm_iv_of_total:
  assumes "math_ok M" and "0 < center" and "list_all good_entry_quote qs"
  shows "\<exists>v. atm_iv_of M qs center tau rate = Inr v"
proof -
  define near where "near = take ATM_CANDIDATES (sort_key (nearness center) (filter (\<lambda>q. eq_is_call q = (eq_strike q \<ge> center)) qs))"
  have "set near \<subseteq> set qs" unfolding near_def by (rule subset_trans [OF set_take_subset]) auto
  with assms have "\<forall>q \<in> set near. \<exists>v. quote_vol M center tau rate q = Inr v"
    by (auto simp: list_all_iff intro: quote_vol_total)
  from res_map_total [OF this] show ?thesis
    by (auto simp: atm_iv_of_def Let_def near_def [symmetric])
qed

lemma skew_leg_total:
  assumes "math_ok M" and "0 < center" and "list_all good_entry_quote qs"
  shows "\<exists>v. skew_leg M qs target c center tau rate = Inr v"
proof (cases "filter (\<lambda>q. eq_is_call q = c) qs = []")
  case False
  define q where "q = hd (sort_key (nearness target) (filter (\<lambda>q. eq_is_call q = c) qs))"
  have "sort_key (nearness target) (filter (\<lambda>q. eq_is_call q = c) qs) \<noteq> []"
    using False by (metis length_0_conv length_sort)
  from hd_in_set [OF this] have "q \<in> set qs" by (simp add: q_def)
  with assms have "\<exists>v. quote_vol M center tau rate q = Inr v"
    by (auto simp: list_all_iff intro: quote_vol_total)
  with False show ?thesis by (simp add: skew_leg_def Let_def q_def)
qed (simp add: skew_leg_def)

lemma median_spread_nonneg:
  assumes "list_all good_entry_quote qs"
  shows "0 \<le> median_spread_of qs center"
proof -
  define sp where "sp = map eq_spread (filter (\<lambda>q. center * (1 - SPREAD_BAND) \<le> eq_strike q \<and> eq_strike q \<le> center * (1 + SPREAD_BAND)) qs)"
  have "\<forall>x \<in> set sp. 0 \<le> x" using assms by (auto simp: sp_def list_all_iff good_entry_quote_def eq_spread_def)
  then have "0 \<le> median sp" if ne: "sp \<noteq> []"
  proof -
    from median_between [OF ne] obtain a b where "a \<in> set sp" "b \<in> set sp" "median sp = (a + b) / 2" by blast
    moreover from this \<open>\<forall>x \<in> set sp. 0 \<le> x\<close> have "0 \<le> a" "0 \<le> b" by blast+
    ultimately show ?thesis by simp
  qed
  then show ?thesis by (simp add: median_spread_of_def Let_def sp_def [symmetric])
qed

lemma realized_vol_nonneg:
  assumes "math_ok M"
  shows "0 \<le> realized_vol_30m M bars t"
  using math_okD(1) [OF assms] by (simp add: realized_vol_30m_def Let_def)

definition years_between :: "instant \<Rightarrow> instant \<Rightarrow> rat" where
  "years_between t u = of_int (u - t) / 1000000 / SECONDS_PER_YEAR"

lemma compute_entry_features_unfold:
  assumes "entry < expiry" and tau: "tau = years_between entry expiry"
  shows "compute_entry_features M chain entry center expiry rate =
    res_bind (two_sided (quotes_at_entry chain entry)) (\<lambda>quotes.
        res_bind (atm_iv_of M (filter sane quotes) center tau rate) (\<lambda>iv.
        res_bind (skew_leg M (filter sane quotes) (center * (1 - SKEW_OFFSET)) False center tau rate) (\<lambda>put_iv.
        res_bind (skew_leg M (filter sane quotes) (center * (1 + SKEW_OFFSET)) True center tau rate) (\<lambda>call_iv.
          mk_feature_snapshot \<lparr>sn_day = cd_day chain, sn_entry_ts = Aware entry, sn_implied_center = center,
            sn_atm_iv = (case iv of None \<Rightarrow> 0 | Some v \<Rightarrow> v),
            sn_skew = (case (put_iv, call_iv) of (Some p, Some c) \<Rightarrow> p - c | _ \<Rightarrow> 0),
            sn_realized_vol_30m = realized_vol_30m M (cd_bars chain) entry,
            sn_median_spread = median_spread_of quotes center, sn_atm_iv_valid = (iv \<noteq> None)\<rparr>))))"
proof -
  have "\<not> years_between entry expiry \<le> 0"
    using assms(1) by (simp add: years_between_def SECONDS_PER_YEAR_def del: of_int_diff)
  then show ?thesis
    unfolding compute_entry_features_def Let_def years_between_def [symmetric] tau by (simp only: if_False)
qed

section \<open>Properties\<close>

text \<open>The inversion of a price brackets it: the volatility returned is the rounded midpoint of two
  numbers, not below the float nearest to 1/10000 and not above 5; at the left one the price computed
  is below the target, or it is the bracket's left end, and at the right one it is not below, or it is
  the bracket's right end.  With a positive spot and strike the inversion never raises.\<close>

theorem implied_vol_brackets:
  assumes M: "math_ok M" and "0 < spot" and "0 < strike" and "f = (\<lambda>s. black_scholes_price M spot strike rate s tau c)"
  shows "\<exists>r. implied_vol M price spot strike rate tau c = Inr r
    \<and> (\<forall>v. r = Some v \<longrightarrow> 0 \<le> price \<and> 0 < tau \<and> fn_round M (1 / 10000) \<le> v \<and> v \<le> 5 \<and>
        (\<exists>lo hi. v = fn_round M (1 / 2 * (lo + hi)) \<and> fn_round M lo \<le> v \<and> v \<le> fn_round M hi
          \<and> (lo = 1 / 10000 \<or> (\<exists>p. f lo = Inr p \<and> p < price)) \<and> (hi = 5 \<or> (\<exists>p. f hi = Inr p \<and> price \<le> p))))"
proof -
  from implied_vol_total [OF assms(1-3)] obtain r where r: "implied_vol M price spot strike rate tau c = Inr r" by blast
  have ends: "fn_round M (1 / 10000) \<le> fn_round M 5" by (rule math_okD(3) [OF M]) simp
  have "0 \<le> price \<and> 0 < tau \<and> fn_round M (1 / 10000) \<le> v \<and> v \<le> 5 \<and>
        (\<exists>lo hi. v = fn_round M (1 / 2 * (lo + hi)) \<and> fn_round M lo \<le> v \<and> v \<le> fn_round M hi
          \<and> (lo = 1 / 10000 \<or> (\<exists>p. f lo = Inr p \<and> p < price)) \<and> (hi = 5 \<or> (\<exists>p. f hi = Inr p \<and> price \<le> p)))"
    if v: "r = Some v" for v
  proof -
    from implied_vol_Some [OF r [unfolded v]] obtain lo hi where b:
        "bisect_sigma M f price 64 (1 / 10000) 5 = Inr (lo, hi)" "v = fn_round M (1 / 2 * (lo + hi))"
        and pt: "0 \<le> price" "0 < tau"
      unfolding assms(4) by blast
    note e = bisect_sigma_brackets [OF M b(1) ends]
    moreover have "fn_round M lo \<le> v \<and> v \<le> fn_round M hi"
      unfolding b(2) using e by (intro rounded_midpoint [OF M]) simp
    ultimately show ?thesis using b(2) pt implied_vol_range [OF M r [unfolded v]] by blast
  qed
  with r show ?thesis by blast
qed

definition flat_fns :: math_fns where
  "flat_fns = \<lparr>fn_exp = (\<lambda>x. 1), fn_log = (\<lambda>x. x - 1), fn_sqrt = (\<lambda>x. 1), fn_erf = (\<lambda>x. if x < -1 then -1 else if x > 1 then 1 else x),
     fn_round = (\<lambda>x. x)\<rparr>"

lemma flat_fns_ok: "math_ok flat_fns"
  by (simp add: math_ok_def flat_fns_def mono_def)

theorem implied_vol_brackets_witness:
  "\<exists>r. implied_vol flat_fns 60 5000 5000 0 (1 / 1000) True = Inr r"
  using implied_vol_brackets [of flat_fns 5000 5000 _ 0 "1 / 1000" True 60, OF flat_fns_ok _ _ refl] by auto

text \<open>The strike and the right written into a symbol by the backtest are the ones the feature
  reader reads back: every symbol \<open>osi_symbol\<close> builds parses to its own right and strike.\<close>

theorem osi_roundtrip:
  assumes "osi_symbol day right strike = Inr s"
  shows "parse_osi s = Inr (right = ''C'', of_int strike)"
  using assms by (rule parse_osi_symbol)

theorem osi_roundtrip_witness: "parse_osi ''SPXW  260817P04990000'' = Inr (False, 4990)"
  using osi_roundtrip [OF example_symbols(1)] by simp

text \<open>C30. The features see no future: two chains of the same day that agree on the quotes up to the
  entry and on the bars before it give the same snapshot, or the same error.\<close>

theorem entry_features_see_no_future:
  assumes "mk_chain_day c = Inr c" and "mk_chain_day c' = Inr c'" and "cd_day c' = cd_day c"
    and "filter (\<lambda>q. q_ts q \<le> entry) (cd_quotes c') = filter (\<lambda>q. q_ts q \<le> entry) (cd_quotes c)"
    and "filter (\<lambda>b. bar_ts b < entry) (cd_bars c') = filter (\<lambda>b. bar_ts b < entry) (cd_bars c)"
  shows "compute_entry_features M c' entry center expiry rate = compute_entry_features M c entry center expiry rate"
proof -
  have "sorted (map q_ts (cd_quotes c))" "sorted (map q_ts (cd_quotes c'))"
    using assms(1,2) by (auto dest: mk_chain_day_sorted)
  then have q: "quotes_at_entry c' entry = quotes_at_entry c entry"
    by (simp add: quotes_at_entry_def latest_quotes_filter assms(4))
  have split: "filter (\<lambda>b. entry - RV_WINDOW \<le> bar_ts b \<and> bar_ts b < entry \<and> bar_close b > 0) bs
      = filter (\<lambda>b. entry - RV_WINDOW \<le> bar_ts b \<and> bar_close b > 0) (filter (\<lambda>b. bar_ts b < entry) bs)" for bs
    by (simp add: conj_ac)
  have "realized_vol_30m M (cd_bars c') entry = realized_vol_30m M (cd_bars c) entry"
    unfolding realized_vol_30m_def split assms(5) by (rule refl)
  then show ?thesis unfolding compute_entry_features_def q assms(3) by (simp only:)
qed

theorem entry_features_see_no_future_witness:
  "compute_entry_features flat_fns (example_chain [example_quote ''SPXW  260817P04990000'' 4 5 11]) 10 5000 1000000 0
   = compute_entry_features flat_fns (example_chain []) 10 5000 1000000 0"
  by (rule entry_features_see_no_future)
    (simp_all add: example_chain_def mk_chain_day_def example_quote_def)

text \<open>C31. On a chain whose quotes up to the entry are not crossed and carry readable symbols with a
  positive strike, the data decide the outcome in one way only: the at-the-money volatility of the
  sane quotes, when there is one, lies in (0, 5], and the computation raises exactly when it is 5, the
  right end of the bisection's bracket, which rounding can reach and the snapshot refuses.  In every
  other case the features come out: they repeat the day, entry and centre, the volatility is valid
  exactly when there is one and is then that one, and zero when not, and the spread and the realized
  volatility are not negative.  The square root and the rounding of floats behave as documented.\<close>

theorem entry_features_outcome:
  assumes "mk_chain_day c = Inr c" and "0 < center" and "entry < expiry" and M: "math_ok M"
    and "\<forall>q \<in> set (cd_quotes c). q_ts q \<le> entry \<longrightarrow> readable_quote q"
  shows "\<exists>qs iv. two_sided (quotes_at_entry c entry) = Inr qs
    \<and> atm_iv_of M (filter sane qs) center (years_between entry expiry) rate = Inr iv
    \<and> (case iv of None \<Rightarrow> True | Some v \<Rightarrow> 0 < v \<and> v \<le> 5)
    \<and> (if iv = Some 5
       then compute_entry_features M c entry center expiry rate = Inl (EntryFeaturesError ''atm_iv must be within (0, 5)'')
       else \<exists>f. compute_entry_features M c entry center expiry rate = Inr f
         \<and> sn_day f = cd_day c \<and> sn_entry_ts f = entry \<and> sn_implied_center f = center
         \<and> sn_atm_iv_valid f = (iv \<noteq> None) \<and> sn_atm_iv f = (case iv of None \<Rightarrow> 0 | Some v \<Rightarrow> v)
         \<and> 0 \<le> sn_median_spread f \<and> 0 \<le> sn_realized_vol_30m f)"
proof -
  from assms(1) have "sorted (map q_ts (cd_quotes c))" by (blast dest: mk_chain_day_sorted)
  from two_sided_good [OF this assms(5)] obtain qs where qs: "two_sided (quotes_at_entry c entry) = Inr qs"
      and good: "list_all good_entry_quote qs" by blast
  have good': "list_all good_entry_quote (filter sane qs)" using good by (auto simp: list_all_iff)
  define tau where "tau = years_between entry expiry"
  from atm_iv_of_total [OF M assms(2) good'] obtain iv where iv: "atm_iv_of M (filter sane qs) center tau rate = Inr iv" by blast
  from skew_leg_total [OF M assms(2) good'] obtain p k where legs:
      "skew_leg M (filter sane qs) (center * (1 - SKEW_OFFSET)) False center tau rate = Inr p"
      "skew_leg M (filter sane qs) (center * (1 + SKEW_OFFSET)) True center tau rate = Inr k" by blast
  have iv_ok: "case iv of None \<Rightarrow> True | Some v \<Rightarrow> 0 < v \<and> v \<le> 5"
    using atm_iv_of_range [OF M] iv by (auto split: option.splits)
  have below: "v < 5" if "iv = Some v" "v \<noteq> 5" for v using iv_ok that by simp
  have "if iv = Some 5
       then compute_entry_features M c entry center expiry rate = Inl (EntryFeaturesError ''atm_iv must be within (0, 5)'')
       else \<exists>f. compute_entry_features M c entry center expiry rate = Inr f
         \<and> sn_day f = cd_day c \<and> sn_entry_ts f = entry \<and> sn_implied_center f = center
         \<and> sn_atm_iv_valid f = (iv \<noteq> None) \<and> sn_atm_iv f = (case iv of None \<Rightarrow> 0 | Some v \<Rightarrow> v)
         \<and> 0 \<le> sn_median_spread f \<and> 0 \<le> sn_realized_vol_30m f"
    unfolding compute_entry_features_unfold [OF assms(3) tau_def] qs res_bind_simps iv legs
    using assms(2) iv_ok median_spread_nonneg [OF good, of center] realized_vol_nonneg [OF M, of "cd_bars c" entry]
    by (cases iv) (simp_all add: mk_feature_snapshot_def below not_less not_le)
  with qs iv iv_ok show ?thesis unfolding tau_def by blast
qed

text \<open>With a rounding that takes everything above 2 to 5, every inversion that brackets returns 5; the
  chain has the one call of strike 5010.\<close>

definition coarse_fns :: math_fns where
  "coarse_fns = flat_fns\<lparr>fn_round := (\<lambda>x. if x > 2 then 5 else x)\<rparr>"

lemma coarse_fns_ok: "math_ok coarse_fns"
  by (simp add: math_ok_def coarse_fns_def flat_fns_def mono_def)

lemma coarse_bisect:
  "f 5 = Inr p \<Longrightarrow> lo = 1 / 10000 \<or> lo = 5 \<Longrightarrow>
     \<exists>lo'. (lo' = 1 / 10000 \<or> lo' = 5) \<and> bisect_sigma coarse_fns f price n lo 5 = Inr (lo', 5)"
proof (induction n arbitrary: lo)
  case (Suc n)
  have "fn_round coarse_fns (1 / 2 * (lo + 5)) = 5" using Suc.prems(2) by (auto simp: coarse_fns_def)
  then show ?case using Suc.IH [OF Suc.prems(1)] Suc.prems by (simp add: Let_def)
qed simp

lemma coarse_vol: "implied_vol coarse_fns (5 / 4) 5000 5010 0 (years_between 10 1000010) True = Inr (Some 5)"
proof -
  let ?f = "\<lambda>s. black_scholes_price coarse_fns 5000 5010 0 s (years_between 10 1000010) True"
  have t: "years_between 10 1000010 = 1 / 31557600" by (simp add: years_between_def SECONDS_PER_YEAR_def)
  obtain a where a: "?f (1 / 10000) = Inr a" "a \<le> 5 / 4"
    by (simp add: t black_scholes_price_def norm_cdf_def coarse_fns_def flat_fns_def Let_def)
  define b :: rat where "b = 263400788875 / 105402384"
  have b: "?f 5 = Inr b" "5 / 4 \<le> b"
    by (simp_all add: b_def t black_scholes_price_def norm_cdf_def coarse_fns_def flat_fns_def Let_def)
  from coarse_bisect [of ?f b "1 / 10000" "5 / 4" 64, OF b(1)] obtain lo where lo: "lo = 1 / 10000 \<or> lo = 5"
      "bisect_sigma coarse_fns ?f (5 / 4) 64 (1 / 10000) 5 = Inr (lo, 5)" by auto
  have "fn_round coarse_fns (1 / 2 * (lo + 5)) = 5" using lo(1) by (auto simp: coarse_fns_def)
  with a b lo(2) show ?thesis
    by (simp add: implied_vol_def Let_def t IV_BRACKET_LO_def IV_BRACKET_HI_def IV_BISECTION_ITERATIONS_def)
qed

definition call_chain :: chain_day where
  "call_chain = (example_chain [])\<lparr>cd_quotes := [example_quote ''SPXW  260817C05010000'' (6 / 5) (13 / 10) 3]\<rparr>"

lemma call_chain_quotes:
  "two_sided (quotes_at_entry call_chain 10) = Inr [\<lparr>eq_strike = 5010, eq_is_call = True, eq_bid = 6 / 5, eq_ask = 13 / 10\<rparr>]"
  using parse_osi_symbol [OF example_symbols(3)]
  by (simp add: two_sided_def quotes_at_entry_def call_chain_def example_chain_def example_quote_def parse_quote_def
      dict_values_def)

lemma call_chain_vol:
  "atm_iv_of coarse_fns (filter sane [\<lparr>eq_strike = 5010, eq_is_call = True, eq_bid = 6 / 5, eq_ask = 13 / 10\<rparr>])
     5000 (years_between 10 1000010) 0 = Inr (Some 5)"
  using coarse_vol
  by (simp add: atm_iv_of_def Let_def sane_def eq_mid_def eq_spread_def MIN_MID_def MAX_RELATIVE_SPREAD_def
      ATM_CANDIDATES_def quote_vol_def somes_def median_def math_okD(5) [OF coarse_fns_ok])

theorem entry_features_outcome_witness:
  "compute_entry_features coarse_fns call_chain 10 5000 1000010 0 = Inl (EntryFeaturesError ''atm_iv must be within (0, 5)'')"
proof -
  have c: "mk_chain_day call_chain = Inr call_chain"
    by (simp add: call_chain_def example_chain_def mk_chain_day_def example_quote_def)
  have "\<forall>q \<in> set (cd_quotes call_chain). q_ts q \<le> 10 \<longrightarrow> readable_quote q"
    using parse_osi_symbol [OF example_symbols(3)]
    by (simp add: call_chain_def example_quote_def readable_quote_def crossed_def) blast
  from entry_features_outcome [OF c _ _ coarse_fns_ok this, of 5000 1000010 0]
  show ?thesis by (simp add: call_chain_quotes call_chain_vol del: filter.simps)
qed

end
