(* ===== verification/AuditStore.thy ===== *)
theory AuditStore
  imports Attribution PointInTime
begin

text \<open>
  The local audit repository (\<open>services/repository.py\<close>): five append-only SQLite tables of decisions,
  alerts, feedback, record metadata and replay manifests, the reads over them and the integrity check
  of the schema.  A table is the list of its rows in insertion order.  A row holds the JSON text of its
  model: of the metadata it is printed here; of the pydantic models it is a \<open>codec\<close>, and the text of
  the timestamp that orders a table a function beside it.  Alerts and feedback keep the UTC offset their
  timestamps came with; what their models carry beyond the fields here is the record's extension.
\<close>

section \<open>Rows and models\<close>

record table_row =
  tr_key :: string
  tr_time :: string
  tr_extra :: string
  tr_payload :: string

record audit_tables =
  t_decision_runs :: "table_row list"
  t_alerts :: "table_row list"
  t_alert_feedback :: "table_row list"
  t_point_in_time_records :: "table_row list"
  t_replay_manifests :: "table_row list"

definition empty_audit :: audit_tables where
  "empty_audit = \<lparr>t_decision_runs = [], t_alerts = [], t_alert_feedback = [], t_point_in_time_records = [],
     t_replay_manifests = []\<rparr>"

datatype run_mode = LIVE | SCENARIO

record decision_output =
  do_run_id :: string
  do_platform :: string
  do_run_mode :: run_mode
  do_execution_enabled :: bool
  do_model_id :: string
  do_model_version :: string
  do_model_artifact_hash :: "string option"
  do_governed_version :: "string option"
  do_governed_hash :: "string option"
  do_session_id :: "string option"
  do_rules_version :: string
  do_code_version :: string
  do_snapshot_id :: string
  do_data_as_of :: instant
  do_action :: decision_action
  do_reasons :: "no_trade_reason list"
  do_output :: "(string, pyval) dict"

record ('o, 'p) audit_codecs =
  decision_json :: "decision_output codec"
  decision_stamp :: "decision_output \<Rightarrow> string"
  alert_json :: "'o alert_record_scheme codec"
  alert_stamp :: "'o alert_record_scheme \<Rightarrow> string"
  feedback_json :: "'p alert_feedback_scheme codec"
  feedback_stamp :: "'p alert_feedback_scheme \<Rightarrow> string"

section \<open>Appending and reading\<close>

definition row_of :: "table_row list \<Rightarrow> string \<Rightarrow> table_row option" where
  "row_of rows key = List.find (\<lambda>r. tr_key r = key) rows"

definition append_json :: "string \<Rightarrow> table_row list \<Rightarrow> table_row \<Rightarrow> table_row list result" where
  "append_json table rows new =
     (case row_of rows (tr_key new) of
        Some r \<Rightarrow>
          if tr_payload r \<noteq> tr_payload new
          then Inl (ImmutableAuditConflict (''immutable audit conflict: '' @ table @ ''/'' @ tr_key new))
          else Inr rows
      | None \<Rightarrow> Inr (rows @ [new]))"

definition append_decision :: "('o, 'p) audit_codecs \<Rightarrow> audit_tables \<Rightarrow> decision_output \<Rightarrow> audit_tables result" where
  "append_decision k s d =
     res_bind (append_json ''decision_runs'' (t_decision_runs s)
         \<lparr>tr_key = do_run_id d, tr_time = decision_stamp k d, tr_extra = [], tr_payload = enc (decision_json k) d\<rparr>)
       (\<lambda>rows. Inr (s\<lparr>t_decision_runs := rows\<rparr>))"

definition get_decision :: "('o, 'p) audit_codecs \<Rightarrow> audit_tables \<Rightarrow> string \<Rightarrow> decision_output option" where
  "get_decision k s key = map_option (\<lambda>r. dec (decision_json k) (tr_payload r)) (row_of (t_decision_runs s) key)"

text \<open>\<open>ORDER BY recorded_at DESC, run_id DESC LIMIT ?\<close>; texts are ordered by their bytes.\<close>

definition list_decisions :: "('o, 'p) audit_codecs \<Rightarrow> audit_tables \<Rightarrow> int \<Rightarrow> decision_output list result" where
  "list_decisions k s limit =
     (if limit \<le> 0 \<or> limit > 1000 then Inl (ValueError ''limit must be in [1, 1000]'')
      else Inr (map (\<lambda>r. dec (decision_json k) (tr_payload r))
             (take (nat limit) (rev (sort_key (\<lambda>r. (tr_time r, tr_key r)) (t_decision_runs s))))))"

definition append_alert :: "('o, 'p) audit_codecs \<Rightarrow> audit_tables \<Rightarrow> 'o alert_record_scheme \<Rightarrow> audit_tables result" where
  "append_alert k s a =
     res_bind (append_json ''alerts'' (t_alerts s)
         \<lparr>tr_key = alert_id a, tr_time = alert_stamp k a, tr_extra = [], tr_payload = enc (alert_json k) a\<rparr>)
       (\<lambda>rows. Inr (s\<lparr>t_alerts := rows\<rparr>))"

text \<open>\<open>ORDER BY created_at DESC, alert_id\<close>: by identity first, then stably by descending time.\<close>

definition list_alerts :: "('o, 'p) audit_codecs \<Rightarrow> audit_tables \<Rightarrow> 'o alert_record_scheme list" where
  "list_alerts k s =
     map (\<lambda>r. dec (alert_json k) (tr_payload r)) (rev (sort_key tr_time (rev (sort_key tr_key (t_alerts s)))))"

definition get_alert :: "('o, 'p) audit_codecs \<Rightarrow> audit_tables \<Rightarrow> string \<Rightarrow> 'o alert_record_scheme option" where
  "get_alert k s key = map_option (\<lambda>r. dec (alert_json k) (tr_payload r)) (row_of (t_alerts s) key)"

text \<open>The foreign key on the alert holds where the alert was found.\<close>

definition append_feedback ::
  "('o, 'p) audit_codecs \<Rightarrow> audit_tables \<Rightarrow> 'p alert_feedback_scheme \<Rightarrow> audit_tables result" where
  "append_feedback k s f =
     (if get_alert k s (fb_alert_id f) = None then Inl (KeyError (''unknown alert: '' @ fb_alert_id f))
      else res_bind (append_json ''alert_feedback'' (t_alert_feedback s)
             \<lparr>tr_key = feedback_id f, tr_time = feedback_stamp k f, tr_extra = fb_alert_id f,
              tr_payload = enc (feedback_json k) f\<rparr>)
           (\<lambda>rows. Inr (s\<lparr>t_alert_feedback := rows\<rparr>)))"

definition list_feedback ::
  "('o, 'p) audit_codecs \<Rightarrow> audit_tables \<Rightarrow> string option \<Rightarrow> 'p alert_feedback_scheme list" where
  "list_feedback k s aid =
     map (\<lambda>r. dec (feedback_json k) (tr_payload r))
       (sort_key (\<lambda>r. (tr_time r, tr_key r))
          (filter (\<lambda>r. case aid of None \<Rightarrow> True | Some i \<Rightarrow> tr_extra r = i) (t_alert_feedback s)))"

section \<open>Metadata of records and manifests\<close>

record record_metadata =
  pm_record_id :: string
  pm_logical_key :: string
  pm_published_at :: string
  pm_first_seen_at :: string
  pm_provider :: string
  pm_provider_version :: string
  pm_schema_version :: string
  pm_content_hash :: string

definition metadata_of :: "pit_record \<Rightarrow> record_metadata" where
  "metadata_of r = \<lparr>pm_record_id = record_id r, pm_logical_key = logical_key r,
     pm_published_at = isoformat (published_at r), pm_first_seen_at = isoformat (first_seen_at r),
     pm_provider = provider r, pm_provider_version = provider_version r, pm_schema_version = PointInTime.schema_version r,
     pm_content_hash = content_hash r\<rparr>"

definition metadata_dict :: "record_metadata \<Rightarrow> (string, pyval) dict" where
  "metadata_dict m =
     [(''record_id'', PStr (pm_record_id m)), (''logical_key'', PStr (pm_logical_key m)),
      (''published_at'', PStr (pm_published_at m)), (''first_seen_at'', PStr (pm_first_seen_at m)),
      (''provider'', PStr (pm_provider m)), (''provider_version'', PStr (pm_provider_version m)),
      (''schema_version'', PStr (pm_schema_version m)), (''content_hash'', PStr (pm_content_hash m))]"

text \<open>\<open>json.dumps\<close> with sorted keys and the separators of the canonical text.\<close>

definition dumps :: "(string, pyval) dict \<Rightarrow> string" where
  "dumps d = render (to_json (PDict d))"

definition append_point_in_time_record ::
  "(string \<Rightarrow> string) \<Rightarrow> audit_tables \<Rightarrow> pit_record \<Rightarrow> audit_tables result" where
  "append_point_in_time_record sha s r =
     res_bind (pit_verify sha r) (\<lambda>_.
       let m = metadata_of r in
       res_bind (append_json ''point_in_time_records'' (t_point_in_time_records s)
           \<lparr>tr_key = record_id r, tr_time = pm_first_seen_at m, tr_extra = [], tr_payload = dumps (metadata_dict m)\<rparr>)
         (\<lambda>rows. Inr (s\<lparr>t_point_in_time_records := rows\<rparr>)))"

text \<open>\<open>json.loads\<close> and the keyword call of the dataclass; the values stored are texts.\<close>

definition text_field :: "(string, json) dict \<Rightarrow> string \<Rightarrow> string result" where
  "text_field d key = (case map_of d key of Some (JStr s) \<Rightarrow> Inr s | _ \<Rightarrow> Inl (TypeError key))"

definition read_metadata :: "string \<Rightarrow> record_metadata result" where
  "read_metadata payload =
     res_bind (loads payload) (\<lambda>j.
       case j of
         JObj d \<Rightarrow>
           if fst ` set d \<noteq> {''record_id'', ''logical_key'', ''published_at'', ''first_seen_at'', ''provider'',
                ''provider_version'', ''schema_version'', ''content_hash''}
           then Inl (TypeError ''__init__'')
           else res_bind (text_field d ''record_id'') (\<lambda>i. res_bind (text_field d ''logical_key'') (\<lambda>l.
                res_bind (text_field d ''published_at'') (\<lambda>p. res_bind (text_field d ''first_seen_at'') (\<lambda>f.
                res_bind (text_field d ''provider'') (\<lambda>pr. res_bind (text_field d ''provider_version'') (\<lambda>pv.
                res_bind (text_field d ''schema_version'') (\<lambda>sv. res_bind (text_field d ''content_hash'') (\<lambda>ch.
                  Inr \<lparr>pm_record_id = i, pm_logical_key = l, pm_published_at = p, pm_first_seen_at = f,
                    pm_provider = pr, pm_provider_version = pv, pm_schema_version = sv, pm_content_hash = ch\<rparr>))))))))
       | _ \<Rightarrow> Inl (TypeError ''argument after ** must be a mapping''))"

definition point_in_time_records :: "audit_tables \<Rightarrow> record_metadata list result" where
  "point_in_time_records s =
     res_map (\<lambda>r. read_metadata (tr_payload r))
       (sort_key (\<lambda>r. (tr_time r, tr_key r)) (t_point_in_time_records s))"

definition manifest_dict :: "replay_manifest \<Rightarrow> (string, pyval) dict" where
  "manifest_dict m =
     [(''manifest_hash'', PStr (manifest_hash m)), (''as_of'', PStr (isoformat (rm_as_of m))),
      (''entries'', PList (map entry_value (rm_entries m)))]"

definition append_replay_manifest ::
  "(string \<Rightarrow> string) \<Rightarrow> audit_tables \<Rightarrow> replay_manifest \<Rightarrow> audit_tables result" where
  "append_replay_manifest sha s m =
     res_bind (verify_hash sha m) (\<lambda>_.
       res_bind (append_json ''replay_manifests'' (t_replay_manifests s)
           \<lparr>tr_key = manifest_hash m, tr_time = isoformat (rm_as_of m), tr_extra = [], tr_payload = dumps (manifest_dict m)\<rparr>)
         (\<lambda>rows. Inr (s\<lparr>t_replay_manifests := rows\<rparr>)))"

section \<open>The integrity check\<close>

text \<open>A row of \<open>sqlite_master\<close> for a trigger, and what the two \<open>PRAGMA\<close> checks and the schema query answer.\<close>

record trigger_row =
  tg_name :: string
  tg_table :: string
  tg_sql :: string

record schema_state =
  sc_tables :: "string list"
  sc_triggers :: "trigger_row list"
  sc_quick_check :: "string list"
  sc_foreign_key_rows :: nat
  sc_version :: "string option"

definition core_tables :: "string list" where
  "core_tables = [''decision_runs'', ''alerts'', ''alert_feedback'', ''point_in_time_records'', ''replay_manifests'']"

definition stream_tables :: "string list" where
  "stream_tables = [''alert_stream_events'', ''stream_deliveries'', ''attribution_tasks'', ''attribution_reviews'']"

definition checked_tables :: "bool \<Rightarrow> schema_state \<Rightarrow> string list" where
  "checked_tables require_stream c =
     (if require_stream then core_tables @ stream_tables
      else core_tables @ (if list_ex (\<lambda>t. t \<in> set stream_tables) (sc_tables c) then stream_tables else []))"

definition expected_triggers :: "string list \<Rightarrow> string list" where
  "expected_triggers tables = concat (map (\<lambda>t. [t @ ''_deny_update'', t @ ''_deny_delete'']) tables)"

text \<open>\<open>str.casefold\<close> on Latin-1; the micro sign, whose folding is no Latin-1 letter, is left.\<close>

definition fold_char :: "char \<Rightarrow> string" where
  "fold_char c =
     (let n = of_char c :: nat in
      if 65 \<le> n \<and> n \<le> 90 \<or> 192 \<le> n \<and> n \<le> 222 \<and> n \<noteq> 215 then [char_of (n + 32)]
      else if n = 223 then ''ss'' else [c])"

definition squeeze :: "string \<Rightarrow> string" where
  "squeeze s = filter (\<lambda>c. \<not> is_space c) (concat (map fold_char s))"

definition ends_with :: "string \<Rightarrow> string \<Rightarrow> bool" where
  "ends_with suff s \<longleftrightarrow> length suff \<le> length s \<and> drop (length s - length suff) s = suff"

definition denial_sql :: "string \<Rightarrow> string \<Rightarrow> string \<Rightarrow> string" where
  "denial_sql name table operation =
     (let message = (if table \<in> set stream_tables then ''append-only phase4 audit table'' else ''append-only audit table'')
      in ''create trigger '' @ name @ '' before '' @ operation @ '' on '' @ table
           @ '' begin select raise(abort, '' @ [CHR 0x27] @ message @ [CHR 0x27] @ ''); end'')"

definition is_expected_append_only_trigger :: "string list \<Rightarrow> trigger_row \<Rightarrow> bool" where
  "is_expected_append_only_trigger expected_names t =
     (if tg_name t \<notin> set expected_names then False
      else
        let operation = (if ends_with ''_deny_update'' (tg_name t) then ''update'' else ''delete'') in
        if tg_name t \<noteq> tg_table t @ ''_deny_'' @ operation then False
        else squeeze (tg_sql t) = squeeze (denial_sql (tg_name t) (tg_table t) operation))"

record integrity_report =
  ir_schema_version :: string
  ir_quick_check :: "string list"
  ir_foreign_key_violations :: nat
  ir_triggers_installed :: nat
  ir_triggers_expected :: nat

definition integrity_ok :: "integrity_report \<Rightarrow> bool" where
  "integrity_ok r \<longleftrightarrow> ir_quick_check r = [''ok''] \<and> ir_foreign_key_violations r = 0
     \<and> ir_triggers_installed r = ir_triggers_expected r"

definition read_schema_version :: "schema_state \<Rightarrow> string result" where
  "read_schema_version c = (case sc_version c of None \<Rightarrow> Inl (RuntimeError ''audit schema version is missing'') | Some v \<Rightarrow> Inr v)"

definition integrity_check :: "bool \<Rightarrow> schema_state \<Rightarrow> integrity_report result" where
  "integrity_check require_stream c =
     (let expected = remdups (expected_triggers (checked_tables require_stream c));
          valid = remdups (map tg_name (filter (is_expected_append_only_trigger expected) (sc_triggers c)))
      in res_bind (read_schema_version c) (\<lambda>v.
         Inr \<lparr>ir_schema_version = v, ir_quick_check = sc_quick_check c,
              ir_foreign_key_violations = sc_foreign_key_rows c, ir_triggers_installed = length valid,
              ir_triggers_expected = length expected\<rparr>))"

section \<open>Histories\<close>

datatype ('o, 'p) audit_op =
    OpDecision decision_output
  | OpAlert "'o alert_record_scheme"
  | OpFeedback "'p alert_feedback_scheme"
  | OpRecord pit_record
  | OpManifest replay_manifest

fun audit_apply ::
  "(string \<Rightarrow> string) \<Rightarrow> ('o, 'p) audit_codecs \<Rightarrow> audit_tables \<Rightarrow> ('o, 'p) audit_op \<Rightarrow> audit_tables result" where
  "audit_apply sha k s (OpDecision d) = append_decision k s d"
| "audit_apply sha k s (OpAlert a) = append_alert k s a"
| "audit_apply sha k s (OpFeedback f) = append_feedback k s f"
| "audit_apply sha k s (OpRecord r) = append_point_in_time_record sha s r"
| "audit_apply sha k s (OpManifest m) = append_replay_manifest sha s m"

definition audit_step ::
  "(string \<Rightarrow> string) \<Rightarrow> ('o, 'p) audit_codecs \<Rightarrow> audit_tables \<Rightarrow> ('o, 'p) audit_op \<Rightarrow> audit_tables" where
  "audit_step sha k s e = (case audit_apply sha k s e of Inl _ \<Rightarrow> s | Inr s' \<Rightarrow> s')"

definition keys_ok :: "table_row list \<Rightarrow> bool" where
  "keys_ok rows \<longleftrightarrow> distinct (map tr_key rows)"

definition metadata_row :: "table_row \<Rightarrow> record_metadata \<Rightarrow> bool" where
  "metadata_row r m \<longleftrightarrow> tr_key r = pm_record_id m \<and> tr_time r = pm_first_seen_at m \<and> tr_payload r = dumps (metadata_dict m)"

definition audit_ok :: "audit_tables \<Rightarrow> bool" where
  "audit_ok s \<longleftrightarrow> keys_ok (t_decision_runs s) \<and> keys_ok (t_alerts s) \<and> keys_ok (t_alert_feedback s)
     \<and> keys_ok (t_point_in_time_records s) \<and> keys_ok (t_replay_manifests s)
     \<and> (\<forall>f \<in> set (t_alert_feedback s). \<exists>a \<in> set (t_alerts s). tr_key a = tr_extra f)
     \<and> (\<forall>r \<in> set (t_point_in_time_records s). \<exists>m. metadata_row r m)"

definition audit_extends :: "audit_tables \<Rightarrow> audit_tables \<Rightarrow> bool" where
  "audit_extends s t \<longleftrightarrow> prefix (t_decision_runs s) (t_decision_runs t) \<and> prefix (t_alerts s) (t_alerts t)
     \<and> prefix (t_alert_feedback s) (t_alert_feedback t)
     \<and> prefix (t_point_in_time_records s) (t_point_in_time_records t)
     \<and> prefix (t_replay_manifests s) (t_replay_manifests t)"

lemma row_of_None: "row_of rows key = None \<longleftrightarrow> key \<notin> tr_key ` set rows"
  by (auto simp: row_of_def find_None_iff)

lemma row_of_Some: "row_of rows key = Some r \<Longrightarrow> r \<in> set rows \<and> tr_key r = key"
  by (auto simp: row_of_def find_Some_iff)

lemma row_of_append: "row_of (xs @ ys) key = (case row_of xs key of None \<Rightarrow> row_of ys key | Some r \<Rightarrow> Some r)"
  by (induction xs) (simp_all add: row_of_def)

lemma row_of_prefix: "prefix xs ys \<Longrightarrow> row_of xs key = Some r \<Longrightarrow> row_of ys key = Some r"
  by (auto simp: prefix_def row_of_append)

lemma append_json_Inr:
  assumes "append_json table rows new = Inr rows'"
  shows "(rows' = rows \<and> (\<exists>r. row_of rows (tr_key new) = Some r \<and> tr_payload r = tr_payload new)
      \<or> rows' = rows @ [new] \<and> row_of rows (tr_key new) = None)"
  using assms by (auto simp: append_json_def split: option.splits if_splits)

lemma append_json_keys: "append_json table rows new = Inr rows' \<Longrightarrow> keys_ok rows \<Longrightarrow> keys_ok rows'"
  by (drule append_json_Inr) (auto simp: keys_ok_def row_of_None)

lemma append_json_prefix: "append_json table rows new = Inr rows' \<Longrightarrow> prefix rows rows'"
  by (drule append_json_Inr) auto

lemma append_json_set: "append_json table rows new = Inr rows' \<Longrightarrow> set rows' \<subseteq> insert new (set rows)"
  by (drule append_json_Inr) auto

lemma append_json_get:
  assumes "append_json table rows new = Inr rows'"
  shows "\<exists>r. row_of rows' (tr_key new) = Some r \<and> tr_payload r = tr_payload new"
  using append_json_Inr [OF assms] by (auto simp: row_of_append) (simp add: row_of_def)

lemma append_json_other:
  assumes "append_json table rows new = Inr rows'" and "key \<noteq> tr_key new"
  shows "row_of rows' key = row_of rows key"
  using append_json_Inr [OF assms(1)] assms(2)
  by (auto simp: row_of_append split: option.splits) (simp add: row_of_def)

lemma append_json_again: "append_json table rows new = Inr rows' \<Longrightarrow> append_json table rows' new = Inr rows'"
  using append_json_get [of table rows new rows'] by (auto simp: append_json_def)

lemma metadata_row_of: "metadata_row \<lparr>tr_key = record_id r, tr_time = pm_first_seen_at (metadata_of r), tr_extra = [],
    tr_payload = dumps (metadata_dict (metadata_of r))\<rparr> (metadata_of r)"
  by (simp add: metadata_row_def metadata_of_def)

lemma audit_apply_ok:
  assumes "audit_apply sha k s e = Inr s'" and "audit_ok s"
  shows "audit_ok s' \<and> audit_extends s s'"
proof (cases e)
  case (OpDecision d)
  with assms show ?thesis
    by (auto simp: append_decision_def audit_ok_def audit_extends_def intro: append_json_keys append_json_prefix)
next
  case (OpAlert a)
  with assms(1) obtain rows new where r: "append_json ''alerts'' (t_alerts s) new = Inr rows" "s' = s\<lparr>t_alerts := rows\<rparr>"
    by (auto simp: append_alert_def)
  from append_json_prefix [OF r(1)] have "set (t_alerts s) \<subseteq> set rows" by (auto dest: set_mono_prefix)
  moreover have "\<forall>f \<in> set (t_alert_feedback s). \<exists>a \<in> set (t_alerts s). tr_key a = tr_extra f"
    using assms(2) by (simp add: audit_ok_def)
  ultimately have "\<forall>f \<in> set (t_alert_feedback s). \<exists>a \<in> set rows. tr_key a = tr_extra f" by blast
  with r assms(2) show ?thesis
    by (auto simp: audit_ok_def audit_extends_def intro: append_json_keys append_json_prefix)
next
  case (OpFeedback f)
  with assms(1) obtain rows new where r: "append_json ''alert_feedback'' (t_alert_feedback s) new = Inr rows"
      "s' = s\<lparr>t_alert_feedback := rows\<rparr>" "tr_extra new = fb_alert_id f" and a: "get_alert k s (fb_alert_id f) \<noteq> None"
    by (auto simp: append_feedback_def split: if_splits)
  from a obtain x where "x \<in> set (t_alerts s)" "tr_key x = fb_alert_id f"
    by (auto simp: get_alert_def dest: row_of_Some)
  with append_json_set [OF r(1)] r(3) assms(2) have "\<forall>f \<in> set rows. \<exists>a \<in> set (t_alerts s). tr_key a = tr_extra f"
    unfolding audit_ok_def by force
  with r(1,2) assms(2) show ?thesis
    by (auto simp: audit_ok_def audit_extends_def intro: append_json_keys append_json_prefix)
next
  case (OpRecord r)
  with assms(1) obtain rows new where r: "append_json ''point_in_time_records'' (t_point_in_time_records s) new = Inr rows"
      "s' = s\<lparr>t_point_in_time_records := rows\<rparr>" "metadata_row new (metadata_of r)"
    using metadata_row_of [of r] by (auto simp: append_point_in_time_record_def Let_def)
  with append_json_set [OF r(1)] assms(2) show ?thesis
    by (auto simp: audit_ok_def audit_extends_def intro: append_json_keys append_json_prefix)
next
  case (OpManifest m)
  with assms show ?thesis
    by (auto simp: append_replay_manifest_def audit_ok_def audit_extends_def intro: append_json_keys append_json_prefix)
qed

lemma audit_extends_refl: "audit_extends s s"
  by (simp add: audit_extends_def)

lemma audit_extends_trans: "audit_extends s t \<Longrightarrow> audit_extends t u \<Longrightarrow> audit_extends s u"
  by (auto simp: audit_extends_def intro: prefix_order.trans)

interpretation audit_run: evolving "audit_step sha k" audit_ok audit_extends
  by unfold_locales
    (auto simp: audit_step_def audit_extends_refl split: sum.splits dest: audit_apply_ok intro: audit_extends_trans)

lemma empty_audit_ok: "audit_ok empty_audit"
  by (simp add: audit_ok_def empty_audit_def keys_ok_def)

section \<open>Metadata round trip\<close>

lemma metadata_canonical: "canonical (to_json (PDict (metadata_dict m)))"
  by (simp add: canonical_PDict metadata_dict_def)

lemma metadata_json: "to_json (PDict (metadata_dict m)) =
    JObj [(''content_hash'', JStr (pm_content_hash m)), (''first_seen_at'', JStr (pm_first_seen_at m)),
      (''logical_key'', JStr (pm_logical_key m)), (''provider'', JStr (pm_provider m)),
      (''provider_version'', JStr (pm_provider_version m)), (''published_at'', JStr (pm_published_at m)),
      (''record_id'', JStr (pm_record_id m)), (''schema_version'', JStr (pm_schema_version m))]"
  by (simp add: metadata_dict_def to_json.simps(9))

lemma read_metadata_dumps: "read_metadata (dumps (metadata_dict m)) = Inr m"
proof -
  have "loads (dumps (metadata_dict m)) = Inr (to_json (PDict (metadata_dict m)))"
    unfolding dumps_def by (rule loads_render [OF metadata_canonical])
  then show ?thesis
    unfolding read_metadata_def metadata_json by (simp add: text_field_def insert_commute)
qed

lemma res_map_images:
  assumes "\<forall>x \<in> set xs. \<exists>y. R x y" and "\<forall>x y. R x y \<longrightarrow> f x = Inr y"
  shows "\<exists>ys. res_map f xs = Inr ys \<and> list_all2 R xs ys"
  using assms(1)
proof (induction xs)
  case (Cons x xs)
  then obtain y ys where "R x y" "res_map f xs = Inr ys" "list_all2 R xs ys" by auto
  with assms(2) show ?case by auto
qed simp

lemma records_readable:
  assumes "audit_ok s"
  shows "\<exists>ms. point_in_time_records s = Inr ms
    \<and> list_all2 metadata_row (sort_key (\<lambda>r. (tr_time r, tr_key r)) (t_point_in_time_records s)) ms"
  unfolding point_in_time_records_def
  by (rule res_map_images) (use assms in \<open>auto simp: audit_ok_def metadata_row_def read_metadata_dumps\<close>)

lemma metadata_row_unique: "metadata_row r m \<Longrightarrow> metadata_row r n \<Longrightarrow> m = n"
  by (metis metadata_row_def read_metadata_dumps sum.inject(2))

lemma listed_metadata:
  assumes "list_all2 metadata_row rs ms"
  shows "set ms = {m. \<exists>r \<in> set rs. metadata_row r m}" and "map (\<lambda>r. (tr_time r, tr_key r)) rs = map (\<lambda>m. (pm_first_seen_at m, pm_record_id m)) ms"
  using assms
proof (induction rule: list_all2_induct)
  case (Cons x xs y ys)
  have "metadata_row x m \<longleftrightarrow> m = y" for m using metadata_row_unique Cons(1) by blast
  moreover {
    case 1
    with calculation Cons.IH(1) show ?case by auto
  next
    case 2
    with Cons show ?case by (simp add: metadata_row_def)
  }
qed simp_all

lemma records_listed:
  assumes "audit_ok s" and "point_in_time_records s = Inr ms"
  shows "set ms = {m. \<exists>r \<in> set (t_point_in_time_records s). metadata_row r m}"
    and "sorted (map (\<lambda>m. (pm_first_seen_at m, pm_record_id m)) ms)"
proof -
  from records_readable [OF assms(1)] assms(2)
  have *: "list_all2 metadata_row (sort_key (\<lambda>r. (tr_time r, tr_key r)) (t_point_in_time_records s)) ms" by auto
  show "set ms = {m. \<exists>r \<in> set (t_point_in_time_records s). metadata_row r m}" using listed_metadata(1) [OF *] by simp
  show "sorted (map (\<lambda>m. (pm_first_seen_at m, pm_record_id m)) ms)"
    unfolding listed_metadata(2) [OF *, symmetric] by (rule sorted_sort_key)
qed

section \<open>Triggers\<close>

definition denial_installed :: "schema_state \<Rightarrow> string \<Rightarrow> string \<Rightarrow> bool" where
  "denial_installed c table operation \<longleftrightarrow>
     (\<exists>t \<in> set (sc_triggers c). tg_table t = table \<and> tg_name t = table @ ''_deny_'' @ operation
        \<and> squeeze (tg_sql t) = squeeze (denial_sql (table @ ''_deny_'' @ operation) table operation))"

lemma ends_with_append: "length a = length b \<Longrightarrow> ends_with a (t @ b) \<longleftrightarrow> a = b"
  by (auto simp: ends_with_def)

lemma expected_mem: "n \<in> set (expected_triggers ts) \<longleftrightarrow> (\<exists>t \<in> set ts. n = t @ ''_deny_update'' \<or> n = t @ ''_deny_delete'')"
  by (auto simp: expected_triggers_def)

lemma trigger_expected:
  assumes "name = table @ ''_deny_'' @ operation" and "operation = ''update'' \<or> operation = ''delete''"
    and "table \<in> set ts"
  shows "(\<exists>t \<in> set (sc_triggers c). is_expected_append_only_trigger (expected_triggers ts) t \<and> tg_name t = name)
    \<longleftrightarrow> denial_installed c table operation"
proof -
  define suff where "suff = ''_deny_'' @ operation"
  have name: "name = table @ suff" by (simp add: assms(1) suff_def)
  have mem: "name \<in> set (expected_triggers ts)" using assms by (auto simp: expected_mem)
  have opr: "(if ends_with ''_deny_update'' name then ''update'' else ''delete'') = operation"
    using assms(1,2) ends_with_append [of "''_deny_update''" "''_deny_'' @ operation" table] by auto
  have one: "is_expected_append_only_trigger (expected_triggers ts) t \<and> tg_name t = name \<longleftrightarrow>
      tg_table t = table \<and> tg_name t = name \<and> squeeze (tg_sql t) = squeeze (denial_sql name table operation)" for t
  proof (cases "tg_name t = name")
    case True
    have "is_expected_append_only_trigger (expected_triggers ts) t \<longleftrightarrow> name = tg_table t @ suff
        \<and> squeeze (tg_sql t) = squeeze (denial_sql name (tg_table t) operation)"
      unfolding is_expected_append_only_trigger_def Let_def True opr suff_def [symmetric] using mem by simp
    moreover have "name = tg_table t @ suff \<longleftrightarrow> tg_table t = table" using name by auto
    ultimately show ?thesis using True by blast
  qed blast
  show ?thesis unfolding one unfolding denial_installed_def assms(1) by (rule refl)
qed

lemma distinct_equal_length:
  assumes "distinct xs" and "distinct ys" and "set xs \<subseteq> set ys"
  shows "length xs = length ys \<longleftrightarrow> set xs = set ys"
  using assms by (metis card_subset_eq distinct_card finite_set)

section \<open>Properties\<close>

text \<open>C8. The audit repository is append-only: after any history of appends, accepted or refused, identities are
  unique in every table, every feedback belongs to a stored alert, and whatever is appended later every
  table only grows at its end, so that a decision or an alert once read is read again unchanged.\<close>

theorem audit_history_append_only:
  assumes "s = foldl (audit_step sha k) empty_audit ops" and "t = foldl (audit_step sha k) s later"
  shows "audit_ok t \<and> audit_extends s t
    \<and> (\<forall>i d. get_decision k s i = Some d \<longrightarrow> get_decision k t i = Some d)
    \<and> (\<forall>i a. get_alert k s i = Some a \<longrightarrow> get_alert k t i = Some a)"
proof -
  have s: "audit_ok s" unfolding assms(1) by (rule audit_run.run_inv [OF empty_audit_ok])
  have t: "audit_ok t" unfolding assms(2) by (rule audit_run.run_inv [OF s])
  have e: "audit_extends s t" unfolding assms(2) by (rule audit_run.run_rel [OF s])
  then have "prefix (t_decision_runs s) (t_decision_runs t)" "prefix (t_alerts s) (t_alerts t)"
    by (simp_all add: audit_extends_def)
  with t e show ?thesis by (auto simp: get_decision_def get_alert_def dest: row_of_prefix)
qed

definition demo_decision :: decision_output where
  "demo_decision = \<lparr>do_run_id = ''run-1'', do_platform = ''MarketPilot'', do_run_mode = LIVE, do_execution_enabled = False,
     do_model_id = MODEL_ID, do_model_version = MODEL_VERSION, do_model_artifact_hash = None, do_governed_version = None,
     do_governed_hash = None, do_session_id = None, do_rules_version = ''rules-v1'', do_code_version = ''dev'',
     do_snapshot_id = ''sha256:0'', do_data_as_of = 0, do_action = decision_action.NO_TRADE, do_reasons = [EVENT_PENDING],
     do_output = []\<rparr>"

definition demo_codecs :: "(unit, unit) audit_codecs" where
  "demo_codecs = \<lparr>decision_json = \<lparr>enc = do_run_id, dec = (\<lambda>i. demo_decision\<lparr>do_run_id := i\<rparr>)\<rparr>,
     decision_stamp = (\<lambda>d. isoformat (do_data_as_of d)),
     alert_json = \<lparr>enc = alert_id, dec = (\<lambda>i. example_alert i 0 0)\<rparr>, alert_stamp = (\<lambda>a. isoformat (created_at a)),
     feedback_json = \<lparr>enc = feedback_id, dec = (\<lambda>i. \<lparr>feedback_id = i, fb_alert_id = ''a'', fb_kind = FK_DISMISSED,
       recorded_at = 0, actor = ''x'', fb_note = None\<rparr>)\<rparr>,
     feedback_stamp = (\<lambda>f. isoformat (recorded_at f))\<rparr>"

theorem audit_history_append_only_witness:
  "get_decision demo_codecs (foldl (audit_step raw_sha demo_codecs) empty_audit [OpDecision demo_decision, OpAlert (example_alert ''a'' 0 0)])
     ''run-1'' = Some demo_decision"
proof -
  have "get_decision demo_codecs (foldl (audit_step raw_sha demo_codecs) empty_audit [OpDecision demo_decision]) ''run-1'' = Some demo_decision"
    by (simp add: audit_step_def append_decision_def append_json_def row_of_def empty_audit_def demo_decision_def
        demo_codecs_def get_decision_def)
  with audit_history_append_only [OF refl refl, of raw_sha demo_codecs "[OpDecision demo_decision]" "[OpAlert (example_alert ''a'' 0 0)]"]
  show ?thesis by simp
qed

text \<open>Appending a decision is immutable and idempotent: it is refused exactly when another decision's text is
  already stored under the identity; otherwise the identity then holds this decision's text, a second
  append changes nothing, and no other identity, nor any other table, is touched.\<close>

theorem decision_append_exact:
  assumes "dec (decision_json k) (enc (decision_json k) d) = d"
  shows "case append_decision k s d of
      Inl e \<Rightarrow> (\<exists>r. row_of (t_decision_runs s) (do_run_id d) = Some r \<and> tr_payload r \<noteq> enc (decision_json k) d)
        \<and> (\<exists>m. e = ImmutableAuditConflict m)
    | Inr s' \<Rightarrow> get_decision k s' (do_run_id d) = Some d \<and> append_decision k s' d = Inr s'
        \<and> (\<forall>i. i \<noteq> do_run_id d \<longrightarrow> get_decision k s' i = get_decision k s i)
        \<and> s'\<lparr>t_decision_runs := t_decision_runs s\<rparr> = s"
proof -
  let ?new = "\<lparr>tr_key = do_run_id d, tr_time = decision_stamp k d, tr_extra = [], tr_payload = enc (decision_json k) d\<rparr>"
  show ?thesis
  proof (cases "append_json ''decision_runs'' (t_decision_runs s) ?new")
    case (Inl e)
    then show ?thesis by (auto simp: append_decision_def) (auto simp: append_json_def split: option.splits if_splits)
  next
    case (Inr rows)
    from append_json_get [OF Inr] append_json_other [OF Inr] append_json_again [OF Inr] assms show ?thesis
      by (auto simp: append_decision_def Inr get_decision_def)
  qed
qed

theorem decision_append_exact_witness:
  "\<exists>s. append_decision demo_codecs empty_audit demo_decision = Inr s \<and> get_decision demo_codecs s ''run-1'' = Some demo_decision
     \<and> append_decision demo_codecs s demo_decision = Inr s"
proof -
  have "dec (decision_json demo_codecs) (enc (decision_json demo_codecs) demo_decision) = demo_decision"
    by (simp add: demo_codecs_def demo_decision_def)
  from decision_append_exact [OF this, of empty_audit] show ?thesis
    by (auto simp: row_of_def empty_audit_def demo_decision_def split: sum.splits)
qed

text \<open>The metadata of an accepted record is read back as it is, and nothing else: in any history, reading the
  metadata returns and is ordered by first-seen text and identity, and accepting a record adds exactly its own metadata,
  none of which is the record's licensed content.\<close>

theorem record_metadata_roundtrip:
  assumes "s = foldl (audit_step sha k) empty_audit ops" and "append_point_in_time_record sha s r = Inr s'"
  shows "\<exists>ms ms'. point_in_time_records s = Inr ms \<and> point_in_time_records s' = Inr ms'
    \<and> set ms' = insert (metadata_of r) (set ms) \<and> sorted (map (\<lambda>m. (pm_first_seen_at m, pm_record_id m)) ms')"
proof -
  have s: "audit_ok s" unfolding assms(1) by (rule audit_run.run_inv [OF empty_audit_ok])
  have s': "audit_ok s'" using audit_apply_ok [of sha k s "OpRecord r" s'] assms(2) s by simp
  obtain ms ms' where m: "point_in_time_records s = Inr ms" "point_in_time_records s' = Inr ms'"
    using records_readable [OF s] records_readable [OF s'] by blast
  let ?new = "\<lparr>tr_key = record_id r, tr_time = pm_first_seen_at (metadata_of r), tr_extra = [],
    tr_payload = dumps (metadata_dict (metadata_of r))\<rparr>"
  from assms(2) obtain rows where rows: "append_json ''point_in_time_records'' (t_point_in_time_records s) ?new = Inr rows"
      "t_point_in_time_records s' = rows" by (auto simp: append_point_in_time_record_def Let_def)
  have new: "metadata_row ?new m \<longleftrightarrow> m = metadata_of r" for m
    using metadata_row_of [of r] metadata_row_unique by blast
  have "{m. \<exists>x \<in> set rows. metadata_row x m} = insert (metadata_of r) {m. \<exists>x \<in> set (t_point_in_time_records s). metadata_row x m}"
    using append_json_Inr [OF rows(1)]
  proof (elim disjE conjE exE)
    fix x assume "rows = t_point_in_time_records s" and x: "row_of (t_point_in_time_records s) (tr_key ?new) = Some x" "tr_payload x = tr_payload ?new"
    moreover from x(1) have "x \<in> set (t_point_in_time_records s)" by (auto dest: row_of_Some)
    moreover from this s obtain m where m: "metadata_row x m" by (auto simp: audit_ok_def)
    from m x(2) have "m = metadata_of r"
      using read_metadata_dumps [of m] read_metadata_dumps [of "metadata_of r"] by (simp add: metadata_row_def)
    ultimately show ?thesis using m by auto
  next
    assume "rows = t_point_in_time_records s @ [?new]"
    then show ?thesis using new by auto
  qed
  with records_listed [OF s m(1)] records_listed [OF s' m(2)] m rows(2) show ?thesis by auto
qed

theorem record_metadata_roundtrip_witness:
  "\<exists>s. append_point_in_time_record raw_sha empty_audit (example_record ''v1'' 10) = Inr s
     \<and> point_in_time_records s = Inr [metadata_of (example_record ''v1'' 10)]"
proof -
  have v: "pit_verify raw_sha (example_record ''v1'' 10) = Inr ()" using example_record_fields [of "''v1''" 10] plain_strip by simp
  then obtain s where s: "append_point_in_time_record raw_sha empty_audit (example_record ''v1'' 10) = Inr s"
      "length (t_point_in_time_records s) = 1"
    by (simp add: append_point_in_time_record_def append_json_def row_of_def empty_audit_def Let_def)
  have "empty_audit = foldl (audit_step raw_sha demo_codecs) empty_audit []" by simp
  from record_metadata_roundtrip [OF this s(1)] obtain ms0 ms where m: "point_in_time_records empty_audit = Inr ms0"
      "point_in_time_records s = Inr ms" "set ms = insert (metadata_of (example_record ''v1'' 10)) (set ms0)"
    by blast
  moreover have "point_in_time_records empty_audit = Inr []" by (simp add: point_in_time_records_def empty_audit_def)
  ultimately have ms: "point_in_time_records s = Inr ms" "set ms = {metadata_of (example_record ''v1'' 10)}" by simp_all
  have "length ms = 1"
    using res_map_length [OF ms(1) [unfolded point_in_time_records_def]] s(2) by simp
  then obtain x where "ms = [x]" by (cases ms) simp_all
  with ms(2) have "ms = [metadata_of (example_record ''v1'' 10)]" by simp
  with s(1) ms(1) show ?thesis by blast
qed

text \<open>The integrity check is exact: a report is in order exactly when SQLite's own check answers ok, no
  foreign key is violated, and on every audited table both the update and the delete trigger are
  installed with the text that aborts, up to white space and letter case; a missing, renamed or weakened
  trigger is never made up for by another.\<close>

theorem integrity_exact:
  assumes "integrity_check req c = Inr rep"
  shows "integrity_ok rep \<longleftrightarrow> sc_quick_check c = [''ok''] \<and> sc_foreign_key_rows c = 0
    \<and> (\<forall>t \<in> set (checked_tables req c). denial_installed c t ''update'' \<and> denial_installed c t ''delete'')"
proof -
  let ?ts = "checked_tables req c"
  let ?e = "remdups (expected_triggers ?ts)"
  let ?v = "remdups (map tg_name (filter (is_expected_append_only_trigger ?e) (sc_triggers c)))"
  have same: "is_expected_append_only_trigger ?e = is_expected_append_only_trigger (expected_triggers ?ts)"
    by (rule ext) (simp add: is_expected_append_only_trigger_def)
  have sub: "set ?v \<subseteq> set ?e" by (auto simp: is_expected_append_only_trigger_def split: if_splits)
  have inst: "n \<in> set ?v \<longleftrightarrow> (\<exists>t \<in> set (sc_triggers c). is_expected_append_only_trigger (expected_triggers ?ts) t \<and> tg_name t = n)" for n
    unfolding same by auto
  have "length ?v = length ?e \<longleftrightarrow> set ?e \<subseteq> set ?v"
    using distinct_equal_length [OF distinct_remdups distinct_remdups sub] sub by blast
  also have "\<dots> \<longleftrightarrow> (\<forall>t \<in> set ?ts. t @ ''_deny_update'' \<in> set ?v \<and> t @ ''_deny_delete'' \<in> set ?v)"
    using expected_mem [of _ ?ts] by (auto simp del: set_remdups simp: subset_iff) (auto simp: expected_mem)
  also have "\<dots> \<longleftrightarrow> (\<forall>t \<in> set ?ts. denial_installed c t ''update'' \<and> denial_installed c t ''delete'')"
    unfolding inst using trigger_expected [of _ _ "''update''" ?ts c] trigger_expected [of _ _ "''delete''" ?ts c] by simp
  finally show ?thesis
    using assms by (auto simp: integrity_check_def integrity_ok_def Let_def)
qed

definition guarded_schema :: schema_state where
  "guarded_schema = \<lparr>sc_tables = core_tables,
     sc_triggers = concat (map (\<lambda>t. [\<lparr>tg_name = t @ ''_deny_update'', tg_table = t, tg_sql = denial_sql (t @ ''_deny_update'') t ''update''\<rparr>,
       \<lparr>tg_name = t @ ''_deny_delete'', tg_table = t, tg_sql = denial_sql (t @ ''_deny_delete'') t ''delete''\<rparr>]) core_tables),
     sc_quick_check = [''ok''], sc_foreign_key_rows = 0, sc_version = Some ''1''\<rparr>"

theorem integrity_exact_witness:
  "\<exists>rep. integrity_check False guarded_schema = Inr rep \<and> integrity_ok rep"
proof -
  obtain rep where rep: "integrity_check False guarded_schema = Inr rep"
    by (simp add: integrity_check_def Let_def read_schema_version_def guarded_schema_def)
  have "checked_tables False guarded_schema = core_tables"
    by (simp add: checked_tables_def guarded_schema_def core_tables_def stream_tables_def)
  moreover have "denial_installed guarded_schema t ''update'' \<and> denial_installed guarded_schema t ''delete''"
    if "t \<in> set core_tables" for t
    using that unfolding denial_installed_def guarded_schema_def by (auto simp: bex_Un)
  ultimately have "integrity_ok rep"
    using integrity_exact [OF rep] by (simp add: guarded_schema_def)
  with rep show ?thesis by blast
qed

end
