(* ===== verification/Operations.thy ===== *)
theory Operations
  imports AuditStore
begin

text \<open>
  The operations facade over the audit repository (\<open>services/operations.py\<close>): alerts shown with the status
  their feedback gives them, and the recording of feedback.  The status is decided by the order in which the
  repository returns feedback, that of the texts of its timestamps.
\<close>

section \<open>Feedback and status\<close>

definition mk_alert_feedback ::
  "string \<Rightarrow> string \<Rightarrow> feedback_kind \<Rightarrow> string \<Rightarrow> datetime \<Rightarrow> string option \<Rightarrow> 'p \<Rightarrow> 'p alert_feedback_scheme result" where
  "mk_alert_feedback fid aid fk who tm nt extra =
     (if \<not> bounded_identifier fid \<or> \<not> bounded_identifier aid \<or> who = [] \<or> 100 < length who
         \<or> (case nt of None \<Rightarrow> False | Some t \<Rightarrow> 1000 < length t)
      then Inl field_error
      else res_bind (to_utc (ValueError ''recorded_at must be timezone-aware'') tm) (\<lambda>t.
        Inr \<lparr>feedback_id = fid, fb_alert_id = aid, fb_kind = fk, recorded_at = t, actor = who, fb_note = nt, \<dots> = extra\<rparr>))"

definition apply_feedback :: "alert_status \<Rightarrow> 'p alert_feedback_scheme \<Rightarrow> alert_status" where
  "apply_feedback st f =
     (if fb_kind f = FK_ACKNOWLEDGED then ACKNOWLEDGED
      else if fb_kind f \<in> {FK_DISMISSED, FK_FALSE_POSITIVE} then DISMISSED else st)"

definition with_feedback_status ::
  "('o, 'p) audit_codecs \<Rightarrow> audit_tables \<Rightarrow> 'o alert_record_scheme \<Rightarrow> 'o alert_record_scheme" where
  "with_feedback_status k s a =
     a\<lparr>status := foldl apply_feedback (status a) (list_feedback k s (Some (alert_id a)))\<rparr>"

definition shown_alerts :: "('o, 'p) audit_codecs \<Rightarrow> audit_tables \<Rightarrow> 'o alert_record_scheme list" where
  "shown_alerts k s = map (with_feedback_status k s) (list_alerts k s)"

definition alert_feedback_of ::
  "('o, 'p) audit_codecs \<Rightarrow> audit_tables \<Rightarrow> string \<Rightarrow> 'p alert_feedback_scheme list result" where
  "alert_feedback_of k s aid =
     (if get_alert k s aid = None then Inl (KeyError (''unknown alert: '' @ aid))
      else Inr (list_feedback k s (Some aid)))"

definition record_alert_feedback ::
  "('o, 'p) audit_codecs \<Rightarrow> audit_tables \<Rightarrow> string \<Rightarrow> string \<Rightarrow> feedback_kind \<Rightarrow> string \<Rightarrow> datetime \<Rightarrow> string option \<Rightarrow> 'p
     \<Rightarrow> ('p alert_feedback_scheme \<times> 'o alert_record_scheme) result \<times> audit_tables" where
  "record_alert_feedback k s uuid aid fk who tm nt extra =
     (if get_alert k s aid = None then (Inl (KeyError (''unknown alert: '' @ aid)), s)
      else case mk_alert_feedback uuid aid fk who tm nt extra of
        Inl e \<Rightarrow> (Inl e, s)
      | Inr f \<Rightarrow>
          (case append_feedback k s f of
             Inl e \<Rightarrow> (Inl e, s)
           | Inr s' \<Rightarrow>
               (case List.find (\<lambda>a. alert_id a = aid) (shown_alerts k s') of
                  None \<Rightarrow> (Inl (RuntimeError ''StopIteration''), s')
                | Some a \<Rightarrow> (Inr (f, a), s'))))"

text \<open>The demonstration scenarios are stored each time they are shown.\<close>

fun store_scenarios ::
  "(string \<Rightarrow> string) \<Rightarrow> audit_tables \<Rightarrow> (pit_record \<times> replay_manifest) list \<Rightarrow> unit result \<times> audit_tables" where
  "store_scenarios sha s [] = (Inr (), s)"
| "store_scenarios sha s ((r, m) # rest) =
     (case append_point_in_time_record sha s r of
        Inl e \<Rightarrow> (Inl e, s)
      | Inr s1 \<Rightarrow>
          (case append_replay_manifest sha s1 m of
             Inl e \<Rightarrow> (Inl e, s1)
           | Inr s2 \<Rightarrow> store_scenarios sha s2 rest))"

section \<open>Typed tables\<close>

definition alert_row :: "('o, 'p) audit_codecs \<Rightarrow> 'o alert_record_scheme \<Rightarrow> table_row" where
  "alert_row k a = \<lparr>tr_key = alert_id a, tr_time = alert_stamp k a, tr_extra = [], tr_payload = enc (alert_json k) a\<rparr>"

definition feedback_row :: "('o, 'p) audit_codecs \<Rightarrow> 'p alert_feedback_scheme \<Rightarrow> table_row" where
  "feedback_row k f = \<lparr>tr_key = feedback_id f, tr_time = feedback_stamp k f, tr_extra = fb_alert_id f,
     tr_payload = enc (feedback_json k) f\<rparr>"

definition typed_tables :: "('o, 'p) audit_codecs \<Rightarrow> audit_tables \<Rightarrow> bool" where
  "typed_tables k s \<longleftrightarrow> (\<forall>r \<in> set (t_alerts s). \<exists>a. r = alert_row k a)
     \<and> (\<forall>r \<in> set (t_alert_feedback s). \<exists>f. r = feedback_row k f)"

lemma audit_apply_typed:
  assumes "audit_apply sha k s e = Inr s'" and "typed_tables k s"
  shows "typed_tables k s'"
proof (cases e)
  case (OpDecision d)
  with assms show ?thesis by (auto simp: append_decision_def typed_tables_def)
next
  case (OpAlert a)
  with assms(1) obtain rows where "append_json ''alerts'' (t_alerts s) (alert_row k a) = Inr rows" "s' = s\<lparr>t_alerts := rows\<rparr>"
    by (auto simp: append_alert_def alert_row_def)
  with append_json_set [OF this(1)] assms(2) show ?thesis by (force simp: typed_tables_def)
next
  case (OpFeedback f)
  with assms(1) obtain rows where "append_json ''alert_feedback'' (t_alert_feedback s) (feedback_row k f) = Inr rows"
      "s' = s\<lparr>t_alert_feedback := rows\<rparr>"
    by (auto simp: append_feedback_def feedback_row_def split: if_splits)
  with append_json_set [OF this(1)] assms(2) show ?thesis by (force simp: typed_tables_def)
next
  case (OpRecord r)
  with assms show ?thesis by (auto simp: append_point_in_time_record_def Let_def typed_tables_def)
next
  case (OpManifest m)
  with assms show ?thesis by (auto simp: append_replay_manifest_def typed_tables_def)
qed

interpretation typed_run: machine "audit_step sha k" "typed_tables k"
  by unfold_locales (auto simp: audit_step_def split: sum.splits dest: audit_apply_typed)

lemma reachable_tables:
  assumes "s = foldl (audit_step sha k) empty_audit ops"
  shows "audit_ok s" "typed_tables k s"
  unfolding assms
  by (rule audit_run.run_inv [OF empty_audit_ok], rule typed_run.run_inv) (simp add: typed_tables_def empty_audit_def)

section \<open>The deciding feedback\<close>

definition deciding :: "'p alert_feedback_scheme \<Rightarrow> bool" where
  "deciding f \<longleftrightarrow> status_for (fb_kind f) \<noteq> None"

lemma apply_feedback_status: "apply_feedback st f = (case status_for (fb_kind f) of None \<Rightarrow> st | Some x \<Rightarrow> x)"
  by (cases "fb_kind f") (simp_all add: apply_feedback_def)

lemma fold_status:
  "foldl apply_feedback st fs =
     (if filter deciding fs = [] then st else the (status_for (fb_kind (last (filter deciding fs)))))"
  by (induction fs arbitrary: st) (auto simp: apply_feedback_status deciding_def split: option.splits)

lemma last_is_max:
  assumes "sorted (map g xs)" and "xs \<noteq> []" and "x \<in> set xs"
  shows "g x \<le> g (last xs)"
  using assms by (induction xs) (auto simp: last_in_set)

lemma fold_status_max:
  assumes "sorted (map g fs)" and "inj_on g (set fs)" and "f \<in> set fs" and "deciding f"
    and "\<forall>h \<in> set fs. deciding h \<longrightarrow> g h \<le> g f"
  shows "status_for (fb_kind f) = Some (foldl apply_feedback st fs)"
proof -
  let ?ds = "filter deciding fs"
  have mem: "f \<in> set ?ds" using assms(3,4) by simp
  then have ne: "?ds \<noteq> []" by (metis empty_iff list.set(1))
  have "sorted (map g ?ds)" using assms(1) by (induction fs) auto
  from last_is_max [OF this ne mem] have "g f \<le> g (last ?ds)" .
  moreover have last: "last ?ds \<in> set fs" "deciding (last ?ds)" using last_in_set [OF ne] by auto
  then have "g (last ?ds) \<le> g f" using assms(5) by blast
  ultimately have "g f = g (last ?ds)" by simp
  with assms(2,3) last(1) have "f = last ?ds" by (auto dest: inj_onD)
  with ne assms(4) show ?thesis by (simp add: fold_status deciding_def)
qed

definition feedback_order :: "('o, 'p) audit_codecs \<Rightarrow> 'p alert_feedback_scheme \<Rightarrow> string \<times> string" where
  "feedback_order k f = (feedback_stamp k f, feedback_id f)"

lemma feedback_row_order: "(tr_time (feedback_row k f), tr_key (feedback_row k f)) = feedback_order k f"
  by (simp add: feedback_row_def feedback_order_def)

lemma keys_ok_unique: "keys_ok rows \<Longrightarrow> x \<in> set rows \<Longrightarrow> y \<in> set rows \<Longrightarrow> tr_key x = tr_key y \<Longrightarrow> x = y"
  by (auto simp: keys_ok_def distinct_map dest: inj_onD)

lemma listed_feedback:
  fixes aid :: string
  assumes "audit_ok s" and "typed_tables k s" and "codec_ok (feedback_json k)"
  defines "fs \<equiv> list_feedback k s (Some aid)"
  shows "sorted (map (feedback_order k) fs)" and "inj_on (feedback_order k) (set fs)"
    and "f \<in> set fs \<longleftrightarrow> feedback_row k f \<in> set (t_alert_feedback s) \<and> fb_alert_id f = aid"
proof -
  let ?D = "\<lambda>r. dec (feedback_json k) (tr_payload r)"
  define rows where "rows = sort_key (\<lambda>r. (tr_time r, tr_key r)) (filter (\<lambda>r. tr_extra r = aid) (t_alert_feedback s))"
  have fs: "fs = map ?D rows" by (simp add: fs_def list_feedback_def rows_def)
  have D: "?D (feedback_row k f) = f" for f using assms(3) by (simp add: codec_ok_def feedback_row_def)
  have row: "feedback_row k (?D r) = r" if "r \<in> set (t_alert_feedback s)" for r
    using assms(2) that D by (auto simp: typed_tables_def)
  have sub: "set rows = {r \<in> set (t_alert_feedback s). tr_extra r = aid}" by (auto simp: rows_def)
  have "map (feedback_order k) fs = map (\<lambda>r. (tr_time r, tr_key r)) rows"
    unfolding fs map_map using sub row feedback_row_order [of k] by (auto intro!: map_cong) metis+
  then show "sorted (map (feedback_order k) fs)" by (simp add: rows_def)
  show mem: "f \<in> set fs \<longleftrightarrow> feedback_row k f \<in> set (t_alert_feedback s) \<and> fb_alert_id f = aid" for f
  proof
    assume "f \<in> set fs"
    then obtain r where r: "r \<in> set (t_alert_feedback s)" "tr_extra r = aid" "f = ?D r" unfolding fs using sub by auto
    with row [OF r(1)] show "feedback_row k f \<in> set (t_alert_feedback s) \<and> fb_alert_id f = aid"
      by (metis feedback_row_def table_row.select_convs(3))
  next
    assume f: "feedback_row k f \<in> set (t_alert_feedback s) \<and> fb_alert_id f = aid"
    moreover have "tr_extra (feedback_row k f) = fb_alert_id f" by (simp add: feedback_row_def)
    ultimately have "feedback_row k f \<in> set rows" unfolding sub by simp
    then have "?D (feedback_row k f) \<in> set fs" unfolding fs by (metis image_eqI list.set_map)
    then show "f \<in> set fs" by (simp only: D)
  qed
  show "inj_on (feedback_order k) (set fs)"
  proof (rule inj_onI)
    fix f h assume "f \<in> set fs" "h \<in> set fs" "feedback_order k f = feedback_order k h"
    then have "feedback_row k f \<in> set (t_alert_feedback s)" "feedback_row k h \<in> set (t_alert_feedback s)"
        "tr_key (feedback_row k f) = tr_key (feedback_row k h)"
      unfolding mem by (auto simp: feedback_order_def feedback_row_def)
    then have "feedback_row k f = feedback_row k h"
      using assms(1) keys_ok_unique by (metis audit_ok_def)
    then show "f = h" by (metis D)
  qed
qed

lemma find_only:
  assumes "x \<in> set xs" and "P x" and "\<forall>y \<in> set xs. P y \<longrightarrow> y = x"
  shows "List.find P xs = Some x"
  using assms(1,3)
proof (induction xs)
  case (Cons y ys)
  show ?case
  proof (cases "P y")
    case True
    with Cons.prems(2) have "y = x" by simp
    with True show ?thesis by simp
  next
    case False
    with assms(2) Cons.prems(1) have "x \<in> set ys" by (metis set_ConsD)
    from Cons.IH [OF this] Cons.prems(2) False show ?thesis by simp
  qed
qed simp

lemma shown_alert:
  assumes "audit_ok s" and "typed_tables k s" and "codec_ok (alert_json k)" and "get_alert k s aid = Some a"
  shows "alert_id a = aid" and "List.find (\<lambda>a. alert_id a = aid) (shown_alerts k s) = Some (with_feedback_status k s a)"
proof -
  let ?D = "\<lambda>r. dec (alert_json k) (tr_payload r)"
  have key: "alert_id (?D r) = tr_key r" if "r \<in> set (t_alerts s)" for r
  proof -
    from assms(2) that obtain b where b: "r = alert_row k b" by (auto simp: typed_tables_def)
    show ?thesis using assms(3) by (simp add: b codec_ok_def alert_row_def)
  qed
  from assms(4) obtain r where r: "row_of (t_alerts s) aid = Some r" "a = ?D r" by (auto simp: get_alert_def)
  note m = row_of_Some [OF r(1)]
  show id: "alert_id a = aid" using key m r(2) by simp
  have set: "set (shown_alerts k s) = with_feedback_status k s ` ?D ` set (t_alerts s)"
    by (simp add: shown_alerts_def list_alerts_def image_image)
  have keep: "alert_id (with_feedback_status k s b) = alert_id b" for b by (simp add: with_feedback_status_def)
  show "List.find (\<lambda>a. alert_id a = aid) (shown_alerts k s) = Some (with_feedback_status k s a)"
  proof (rule find_only)
    show "with_feedback_status k s a \<in> set (shown_alerts k s)" using m r(2) by (simp add: set)
    show "alert_id (with_feedback_status k s a) = aid" by (simp add: keep id)
    show "\<forall>b \<in> set (shown_alerts k s). alert_id b = aid \<longrightarrow> b = with_feedback_status k s a"
    proof (intro ballI impI)
      fix b assume "b \<in> set (shown_alerts k s)" "alert_id b = aid"
      then obtain x where x0: "x \<in> set (t_alerts s)" "b = with_feedback_status k s (?D x)"
        unfolding set by blast
      with \<open>alert_id b = aid\<close> have "alert_id (?D x) = aid" by (simp only: keep)
      with key [OF x0(1)] x0 have x: "x \<in> set (t_alerts s)" "b = with_feedback_status k s (?D x)" "tr_key x = aid" by simp_all
      from assms(1) have "keys_ok (t_alerts s)" by (simp add: audit_ok_def)
      from keys_ok_unique [OF this x(1) m [THEN conjunct1]] m x(3) have "x = r" by simp
      with x(2) r(2) show "b = with_feedback_status k s a" by simp
    qed
  qed
qed

section \<open>Properties\<close>

text \<open>C34. Recording feedback on a stored alert always succeeds with a fresh identity: in any history the feedback is
  appended and nothing else changes, and the alert returned is the stored one with the status that the last
  status-changing feedback gives it, last in the order of timestamp texts and identities, or its own
  status when no feedback changes it.\<close>

theorem feedback_decides_status:
  assumes "codec_ok (alert_json k)" and "codec_ok (feedback_json k)"
    and "s = foldl (audit_step sha k) empty_audit ops"
    and "get_alert k s aid = Some a" and "mk_alert_feedback uuid aid fk who tm nt extra = Inr f"
    and "row_of (t_alert_feedback s) uuid = None"
  shows "\<exists>a' s'. record_alert_feedback k s uuid aid fk who tm nt extra = (Inr (f, a'), s')
    \<and> s' = s\<lparr>t_alert_feedback := t_alert_feedback s @ [feedback_row k f]\<rparr>
    \<and> set (list_feedback k s' (Some aid)) = insert f (set (list_feedback k s (Some aid)))
    \<and> a' = a\<lparr>status := status a'\<rparr>
    \<and> (\<forall>h \<in> set (list_feedback k s' (Some aid)). deciding h
          \<and> (\<forall>h' \<in> set (list_feedback k s' (Some aid)). deciding h' \<longrightarrow> feedback_order k h' \<le> feedback_order k h)
          \<longrightarrow> status_for (fb_kind h) = Some (status a'))
    \<and> ((\<forall>h \<in> set (list_feedback k s' (Some aid)). \<not> deciding h) \<longrightarrow> status a' = status a)"
proof -
  note s = reachable_tables [OF assms(3)]
  from assms(5) have f: "feedback_id f = uuid" "fb_alert_id f = aid"
    by (auto simp: mk_alert_feedback_def split: if_splits)
  define s' where "s' = s\<lparr>t_alert_feedback := t_alert_feedback s @ [feedback_row k f]\<rparr>"
  have app: "append_feedback k s f = Inr s'"
    using assms(4,6) f by (simp add: append_feedback_def append_json_def feedback_row_def s'_def)
  have s': "audit_ok s'" "typed_tables k s'"
    using audit_apply_ok [of sha k s "OpFeedback f" s'] audit_apply_typed [of sha k s "OpFeedback f" s'] app s by simp_all
  have "get_alert k s' aid = Some a" using assms(4) by (simp add: get_alert_def s'_def)
  note shown = shown_alert [OF s' assms(1) this]
  let ?fs = "list_feedback k s' (Some aid)"
  define a' where "a' = with_feedback_status k s' a"
  have run: "record_alert_feedback k s uuid aid fk who tm nt extra = (Inr (f, a'), s')"
    by (simp add: record_alert_feedback_def assms(4,5) app shown(2) a'_def)
  have st: "status a' = foldl apply_feedback (status a) ?fs" "a' = a\<lparr>status := status a'\<rparr>"
    by (simp_all add: a'_def with_feedback_status_def shown(1))
  note L = listed_feedback [OF s' assms(2), where aid = aid] and L0 = listed_feedback(3) [OF s assms(2)]
  have row_inj: "feedback_row k x = feedback_row k y \<Longrightarrow> x = y" for x y
    using assms(2) unfolding feedback_row_def codec_ok_def by (metis table_row.select_convs(4))
  have mem: "set ?fs = insert f (set (list_feedback k s (Some aid)))"
  proof (rule set_eqI)
    fix x
    have rows: "t_alert_feedback s' = t_alert_feedback s @ [feedback_row k f]" by (simp add: s'_def)
    show "x \<in> set ?fs \<longleftrightarrow> x \<in> insert f (set (list_feedback k s (Some aid)))"
      unfolding L(3) L0 insert_iff rows using f(2) row_inj [of x f] by auto
  qed
  show ?thesis
  proof (intro exI conjI)
    show "record_alert_feedback k s uuid aid fk who tm nt extra = (Inr (f, a'), s')" by (rule run)
    show "s' = s\<lparr>t_alert_feedback := t_alert_feedback s @ [feedback_row k f]\<rparr>" by (rule s'_def)
    show "set ?fs = insert f (set (list_feedback k s (Some aid)))" by (rule mem)
    show "a' = a\<lparr>status := status a'\<rparr>" by (rule st(2))
    show "\<forall>h \<in> set ?fs. deciding h \<and> (\<forall>h' \<in> set ?fs. deciding h' \<longrightarrow> feedback_order k h' \<le> feedback_order k h)
        \<longrightarrow> status_for (fb_kind h) = Some (status a')"
      unfolding st(1) using fold_status_max [OF L(1,2)] by blast
    show "(\<forall>h \<in> set ?fs. \<not> deciding h) \<longrightarrow> status a' = status a"
      unfolding st(1) by (simp add: fold_status filter_empty_conv)
  qed
qed

text \<open>Codecs of the example: every model is a tuple of countable values.\<close>

instance alert_priority :: countable by countable_datatype
instance alert_status :: countable by countable_datatype
instance alert_direction :: countable by countable_datatype
instance alert_action :: countable by countable_datatype
instance feedback_kind :: countable by countable_datatype

definition candidate_parts where
  "candidate_parts c = (fingerprint c, priority c, direction c, observed_at c, evidence c, event_id c, Alerts.snapshot_id c,
     Alerts.model_version c, Alerts.rules_version c, Alerts.action c, invalidation_conditions c, rerun_trigger c)"

definition alert_parts where
  "alert_parts a = (alert_id a, candidate_parts (candidate a), created_at a, status a, deduplicated_count a, escalation_level a)"

definition feedback_parts where
  "feedback_parts f = (feedback_id f, fb_alert_id f, fb_kind f, recorded_at f, actor f, fb_note f)"

definition full_codecs :: "(unit, unit) audit_codecs" where
  "full_codecs = demo_codecs\<lparr>
     alert_json := text_codec alert_parts (\<lambda>(i, (a, b, c, d, e, f, g, h, j, l, m, n), t, st, x, y).
       \<lparr>alert_id = i, candidate = \<lparr>fingerprint = a, priority = b, direction = c, observed_at = d, evidence = e, event_id = f,
          snapshot_id = g, model_version = h, rules_version = j, action = l, invalidation_conditions = m, rerun_trigger = n\<rparr>,
        created_at = t, status = st, deduplicated_count = x, escalation_level = y\<rparr>),
     feedback_json := text_codec feedback_parts (\<lambda>(i, a, fk, t, w, n).
       \<lparr>feedback_id = i, fb_alert_id = a, fb_kind = fk, recorded_at = t, actor = w, fb_note = n\<rparr>)\<rparr>"

lemma full_codecs_ok: "codec_ok (alert_json full_codecs)" "codec_ok (feedback_json full_codecs)"
  by (simp_all add: full_codecs_def text_codec_ok alert_parts_def candidate_parts_def feedback_parts_def)

theorem feedback_decides_status_witness:
  "\<exists>f a' s'. record_alert_feedback full_codecs (foldl (audit_step raw_sha full_codecs) empty_audit [OpAlert (example_alert ''a'' 0 0)])
     ''f1'' ''a'' FK_DISMISSED ''ops'' (Aware 5) None () = (Inr (f, a'), s') \<and> status a' = DISMISSED"
proof -
  let ?s = "foldl (audit_step raw_sha full_codecs) empty_audit [OpAlert (example_alert ''a'' 0 0)]"
  let ?f = "\<lparr>feedback_id = ''f1'', fb_alert_id = ''a'', fb_kind = FK_DISMISSED, recorded_at = 5, actor = ''ops'', fb_note = None\<rparr>"
  have s: "?s = empty_audit\<lparr>t_alerts := [alert_row full_codecs (example_alert ''a'' 0 0)]\<rparr>"
    by (simp add: audit_step_def append_alert_def append_json_def row_of_def empty_audit_def alert_row_def)
  have a: "get_alert full_codecs ?s ''a'' = Some (example_alert ''a'' 0 0)"
    unfolding s using full_codecs_ok(1) by (simp add: get_alert_def row_of_def alert_row_def codec_ok_def) (simp add: example_alert_def)
  have f: "mk_alert_feedback ''f1'' ''a'' FK_DISMISSED ''ops'' (Aware 5) None () = Inr ?f"
    by (simp add: mk_alert_feedback_def bounded_identifier_def alnum_def)
  have fresh: "row_of (t_alert_feedback ?s) ''f1'' = None" unfolding s by (simp add: row_of_def empty_audit_def)
  have none: "list_feedback full_codecs ?s (Some ''a'') = []" unfolding s by (simp add: list_feedback_def empty_audit_def)
  from feedback_decides_status [OF full_codecs_ok refl a f fresh] none obtain a' s' where
    "record_alert_feedback full_codecs ?s ''f1'' ''a'' FK_DISMISSED ''ops'' (Aware 5) None () = (Inr (?f, a'), s')"
    "deciding ?f \<longrightarrow> status_for (fb_kind ?f) = Some (status a')" by auto
  moreover have "deciding ?f" by (simp add: deciding_def)
  ultimately show ?thesis by auto
qed

end
