(* ===== verification/DecisionApi.thy ===== *)
theory DecisionApi
  imports AuditStore Governance
begin

text \<open>
  The decision endpoint (\<open>services/api.py\<close>, the requests of \<open>services/schemas.py\<close>, \<open>services/state.py\<close>): it
  derives the gates, freezes the governed model of the session, freezes the inputs, runs the model and
  stores the response.  Governance is any backend with the call \<open>freeze_session\<close>, of which
  \<open>Governance\<close> is one; the server's clock, the exchange's local date and the run identity are
  arguments.  A failure is an HTTP status with its detail, or with the exception it reports, or an
  exception that no handler catches.
\<close>

section \<open>Requests\<close>

datatype http_failure = HttpDetail int string | HttpCaught int py_error | Unhandled py_error

text \<open>A time keeps, besides its instant, the text \<open>isoformat\<close> gives it in the offset it came with.\<close>

record decision_request =
  rq_model_id :: string
  rq_mode :: run_mode
  rq_as_of :: "(datetime \<times> string) option"
  rq_session :: "string option"
  rq_values :: "(string, pyval) dict"
  rq_gates :: "decision_gate_context option"

definition session_pattern :: "string \<Rightarrow> bool" where
  "session_pattern s \<longleftrightarrow> 3 \<le> length s \<and> length s \<le> 120 \<and> alnum (hd s)
     \<and> list_all (\<lambda>c. alnum c \<or> c \<in> set ''._-'') (tl s)"

definition mk_decision_request :: "decision_request \<Rightarrow> decision_request result" where
  "mk_decision_request q =
     (if (case rq_as_of q of Some (Naive _, _) \<Rightarrow> True | _ \<Rightarrow> False)
        then Inl (ValueError ''as_of must be timezone-aware'')
      else if (case rq_session q of None \<Rightarrow> False | Some s \<Rightarrow> \<not> session_pattern s) then Inl field_error
      else if rq_mode q = LIVE \<and> rq_gates q \<noteq> None then Inl (ValueError ''gates are server-derived for LIVE runs'')
      else if rq_mode q = LIVE \<and> rq_values q \<noteq> [] then Inl (ValueError ''values are server-derived for LIVE runs'')
      else if rq_mode q = LIVE \<and> rq_as_of q \<noteq> None then Inl (ValueError ''as_of is server-derived for LIVE runs'')
      else if rq_mode q = LIVE \<and> rq_session q \<noteq> None
        then Inl (ValueError ''scenario_session_id is forbidden for LIVE runs'')
      else if rq_mode q = SCENARIO \<and> rq_gates q = None then Inl (ValueError ''gates are required for SCENARIO runs'')
      else if rq_mode q = SCENARIO \<and> rq_as_of q = None then Inl (ValueError ''as_of is required for SCENARIO runs'')
      else if rq_mode q = SCENARIO \<and> rq_session q = None
        then Inl (ValueError ''scenario_session_id is required for SCENARIO runs'')
      else Inr q)"

section \<open>Server-owned state\<close>

datatype capability_status = PASS | FAIL | ERROR | SKIPPED

record capability_view =
  cv_quality :: data_quality
  cv_production_ready :: bool
  cv_results :: "(string \<times> capability_status) list"

definition effective_quality :: "data_quality \<Rightarrow> bool \<Rightarrow> data_quality" where
  "effective_quality reported ready = (if ready then reported else if reported = RED then RED else AMBER)"

definition live_gate_context :: "capability_view option \<Rightarrow> decision_gate_context" where
  "live_gate_context report =
     (case report of
        None \<Rightarrow> \<lparr>gc_data_quality = RED, contract_matches = False, event_cleared = False, unscheduled_shock = False,
          option_chain_usable = False, tail_expanding = False, next_major_event_in_holding_period = False,
          edge_ok = False, risk_budget_ok = True\<rparr>
      | Some r \<Rightarrow>
          let capabilities = map_of (rev (cv_results r)) in
          \<lparr>gc_data_quality = effective_quality (cv_quality r) (cv_production_ready r),
           contract_matches = (capabilities ''es_explicit_contract'' = Some PASS), event_cleared = False,
           unscheduled_shock = False,
           option_chain_usable = list_all (\<lambda>i. capabilities i = Some PASS) [''spxw_contract_discovery'', ''spxw_option_snapshot''],
           tail_expanding = False, next_major_event_in_holding_period = False, edge_ok = False, risk_budget_ok = True\<rparr>)"

record 'g api_config =
  ac_registry :: model_registry
  ac_rules_version :: string
  ac_code_version :: string
  ac_local_date :: "instant \<Rightarrow> pydate"
  ac_freeze :: "'g \<Rightarrow> string \<Rightarrow> string \<Rightarrow> mversion result \<times> 'g"
  ac_sha :: "string \<Rightarrow> string"

definition MISSING :: string where "MISSING = ''GOVERNANCE_CHAMPION_MISSING''"
definition UNAVAILABLE :: string where "UNAVAILABLE = ''GOVERNANCE_BACKEND_UNAVAILABLE''"

definition governed_identity ::
  "'g api_config \<Rightarrow> 'g \<Rightarrow> string \<Rightarrow> run_mode \<Rightarrow> string \<Rightarrow> artifact_identity option \<times> 'g" where
  "governed_identity c g mid mode sid =
     (case ac_freeze c g mid sid of
        (Inr v, g') \<Rightarrow> (Some \<lparr>ai_version = version v, ai_artifact_hash = artifact_hash v\<rparr>, g')
      | (Inl (GovernanceError m), g') \<Rightarrow>
          (if mode = SCENARIO then None else Some \<lparr>ai_version = MISSING, ai_artifact_hash = MISSING\<rparr>, g')
      | (Inl _, g') \<Rightarrow> (Some \<lparr>ai_version = UNAVAILABLE, ai_artifact_hash = UNAVAILABLE\<rparr>, g'))"

definition decision_time :: "decision_request \<Rightarrow> instant \<Rightarrow> http_failure + (datetime \<times> string)" where
  "decision_time r now =
     (if rq_mode r = LIVE then Inr (Aware now, isoformat now)
      else case rq_as_of r of None \<Rightarrow> Inl (HttpDetail 422 ''as_of is required for SCENARIO runs'') | Some t \<Rightarrow> Inr t)"

definition session_of :: "'g api_config \<Rightarrow> decision_request \<Rightarrow> instant \<Rightarrow> http_failure + string" where
  "session_of c r now =
     (if rq_mode r = LIVE then Inr (''LIVE:XNYS:'' @ iso_date (ac_local_date c now))
      else case rq_session r of
        None \<Rightarrow> Inl (HttpDetail 422 ''scenario_session_id is required for SCENARIO runs'')
      | Some s \<Rightarrow> Inr (''SCENARIO:'' @ s))"

section \<open>The endpoint\<close>

definition mode_text :: "run_mode \<Rightarrow> string" where
  "mode_text m = (case m of LIVE \<Rightarrow> ''LIVE'' | SCENARIO \<Rightarrow> ''SCENARIO'')"

definition quality_text :: "data_quality \<Rightarrow> string" where
  "quality_text q = (case q of GREEN \<Rightarrow> ''GREEN'' | AMBER \<Rightarrow> ''AMBER'' | RED \<Rightarrow> ''RED'')"

definition gates_dict :: "decision_gate_context \<Rightarrow> (string, pyval) dict" where
  "gates_dict g =
     [(''data_quality'', PStr (quality_text (gc_data_quality g))), (''contract_matches'', PBool (contract_matches g)),
      (''event_cleared'', PBool (event_cleared g)), (''unscheduled_shock'', PBool (unscheduled_shock g)),
      (''option_chain_usable'', PBool (option_chain_usable g)), (''tail_expanding'', PBool (tail_expanding g)),
      (''next_major_event_in_holding_period'', PBool (next_major_event_in_holding_period g)),
      (''edge_ok'', PBool (edge_ok g)), (''risk_budget_ok'', PBool (risk_budget_ok g))]"

definition identity_value :: "artifact_identity option \<Rightarrow> pyval" where
  "identity_value i =
     (case i of None \<Rightarrow> PNone
      | Some a \<Rightarrow> PDict [(''version'', PStr (ai_version a)), (''artifact_hash'', PStr (ai_artifact_hash a))])"

definition input_payload ::
  "'g api_config \<Rightarrow> decision_request \<Rightarrow> string \<Rightarrow> decision_gate_context \<Rightarrow> string \<Rightarrow> artifact_identity option
     \<Rightarrow> (string, pyval) dict" where
  "input_payload c r time_text gates sid identity =
     [(''model_id'', PStr (rq_model_id r)), (''run_mode'', PStr (mode_text (rq_mode r))), (''as_of'', PStr time_text),
      (''values'', PDict (rq_values r)), (''gates'', PDict (gates_dict gates)), (''code_version'', PStr (ac_code_version c)),
      (''rules_version'', PStr (ac_rules_version c)), (''governance_session_id'', PStr sid),
      (''governed_model_identity'', identity_value identity)]"

text \<open>\<open>except (KeyError, ValueError)\<close>: the program's own exceptions derive from \<open>ValueError\<close> but for these.\<close>

definition key_or_value_error :: "py_error \<Rightarrow> bool" where
  "key_or_value_error e =
     (case e of TypeError _ \<Rightarrow> False | OverflowError _ \<Rightarrow> False | ZeroDivisionError _ \<Rightarrow> False
      | RuntimeError _ \<Rightarrow> False | AssertionError _ \<Rightarrow> False
      | AuthConfigurationError _ \<Rightarrow> False | IntegrityError _ \<Rightarrow> False | LandingAccessDenied _ \<Rightarrow> False
      | AnchorCloseError _ \<Rightarrow> False | DatabentoApiError _ \<Rightarrow> False | IngestCostCeilingExceeded _ \<Rightarrow> False | _ \<Rightarrow> True)"

definition response_of ::
  "'g api_config \<Rightarrow> decision_request \<Rightarrow> string \<Rightarrow> artifact_identity option \<Rightarrow> decision_result \<Rightarrow> decision_output result" where
  "response_of c r sid identity d =
     res_bind (registry_get (ac_registry c) (dr_model_id d)) (\<lambda>m.
       Inr \<lparr>do_run_id = run_id d, do_platform = ''MarketPilot'', do_run_mode = rq_mode r, do_execution_enabled = False,
         do_model_id = dr_model_id d, do_model_version = Decision.model_version d,
         do_model_artifact_hash = Some (md_artifact_hash (descriptor m)),
         do_governed_version = map_option ai_version identity, do_governed_hash = map_option ai_artifact_hash identity,
         do_session_id = Some sid, do_rules_version = Decision.rules_version d, do_code_version = ac_code_version c,
         do_snapshot_id = dr_snapshot_id d, do_data_as_of = data_as_of d, do_action = Decision.action d,
         do_reasons = Decision.reasons d, do_output = dr_output d\<rparr>)"

definition gates_for :: "capability_view option \<Rightarrow> decision_request \<Rightarrow> http_failure + decision_gate_context" where
  "gates_for report r =
     (if rq_mode r = SCENARIO
      then case rq_gates r of None \<Rightarrow> Inl (HttpDetail 422 ''gates are required for SCENARIO runs'') | Some g \<Rightarrow> Inr g
      else Inr (live_gate_context report))"

definition decide ::
  "'g api_config \<Rightarrow> string \<Rightarrow> decision_request \<Rightarrow> decision_gate_context \<Rightarrow> datetime \<times> string \<Rightarrow> string
     \<Rightarrow> artifact_identity option \<Rightarrow> http_failure + decision_output" where
  "decide c uuid r gates tm sid identity =
     (let frozen = freeze_snapshot (ac_sha c) (PDict (input_payload c r (snd tm) gates sid identity)) in
      case mk_market_snapshot (Snapshot.snapshot_id frozen) (fst tm)
             \<lparr>dq_status = gc_data_quality gates, dq_stale_fields = [], dq_violations = []\<rparr> (rq_values r) of
        Inl e \<Rightarrow> Inl (Unhandled e)
      | Inr snap \<Rightarrow>
          (case decision_run (ac_registry c) (ac_rules_version c) uuid (rq_model_id r) snap gates identity of
             Inl e \<Rightarrow> Inl (if key_or_value_error e then HttpCaught 422 e else Unhandled e)
           | Inr d \<Rightarrow>
               (case response_of c r sid identity d of Inl e \<Rightarrow> Inl (Unhandled e) | Inr resp \<Rightarrow> Inr resp)))"

definition run_decision ::
  "'g api_config \<Rightarrow> ('o, 'p) audit_codecs \<Rightarrow> capability_view option \<Rightarrow> instant \<Rightarrow> string \<Rightarrow> decision_request
     \<Rightarrow> 'g \<times> audit_tables \<Rightarrow> (http_failure + decision_output) \<times> 'g \<times> audit_tables" where
  "run_decision c k report now uuid r gs =
     (case gates_for report r of
        Inl e \<Rightarrow> (Inl e, gs)
      | Inr gates \<Rightarrow>
      (case decision_time r now of
        Inl e \<Rightarrow> (Inl e, gs)
      | Inr tm \<Rightarrow>
      (case session_of c r now of
        Inl e \<Rightarrow> (Inl e, gs)
      | Inr sid \<Rightarrow>
      (case governed_identity c (fst gs) (rq_model_id r) (rq_mode r) sid of
        (identity, g') \<Rightarrow>
          (case decide c uuid r gates tm sid identity of
             Inl e \<Rightarrow> (Inl e, g', snd gs)
           | Inr resp \<Rightarrow>
               (case append_decision k (snd gs) resp of
                  Inl e \<Rightarrow> (Inl (Unhandled e), g', snd gs)
                | Inr s' \<Rightarrow> (Inr resp, g', s')))))))"

definition fetch_decision :: "('o, 'p) audit_codecs \<Rightarrow> audit_tables \<Rightarrow> string \<Rightarrow> http_failure + decision_output" where
  "fetch_decision k s i =
     (case get_decision k s i of None \<Rightarrow> Inl (HttpDetail 404 ''decision not found'') | Some d \<Rightarrow> Inr d)"

section \<open>Runs\<close>

lemma live_request: "mk_decision_request q = Inr r \<Longrightarrow> rq_mode r = LIVE \<Longrightarrow>
    r = q \<and> rq_gates r = None \<and> rq_values r = [] \<and> rq_as_of r = None \<and> rq_session r = None"
  by (auto simp: mk_decision_request_def simp del: not_None_eq split: if_splits)

lemma scenario_request: "mk_decision_request q = Inr r \<Longrightarrow> rq_mode r = SCENARIO \<Longrightarrow>
    r = q \<and> (\<exists>g t x s. rq_gates r = Some g \<and> rq_as_of r = Some (Aware t, x) \<and> rq_session r = Some s)"
  by (auto simp: mk_decision_request_def split: if_splits option.splits datetime.splits)

lemma live_gates: "event_cleared (live_gate_context rep) = False" "edge_ok (live_gate_context rep) = False"
  by (simp_all add: live_gate_context_def Let_def split: option.split)

lemma decide_Inr:
  assumes "decide c uuid r gates (Aware t, x) sid identity = Inr d"
  obtains m snap res where "map_of (ac_registry c) (rq_model_id r) = Some m"
    and "decision_run (ac_registry c) (ac_rules_version c) uuid (rq_model_id r) snap gates identity = Inr res"
    and "ms_snapshot_id snap = Snapshot.snapshot_id (freeze_snapshot (ac_sha c) (PDict (input_payload c r x gates sid identity)))"
    and "as_of snap = t" and "response_of c r sid identity res = Inr d"
proof -
  let ?id = "Snapshot.snapshot_id (freeze_snapshot (ac_sha c) (PDict (input_payload c r x gates sid identity)))"
  let ?snap = "\<lparr>ms_snapshot_id = ?id, as_of = t, quality = \<lparr>dq_status = gc_data_quality gates, dq_stale_fields = [], dq_violations = []\<rparr>,
    ms_values = rq_values r\<rparr>"
  from assms obtain res where res: "decision_run (ac_registry c) (ac_rules_version c) uuid (rq_model_id r) ?snap gates identity = Inr res"
      "response_of c r sid identity res = Inr d"
    by (auto simp: decide_def Let_def mk_market_snapshot_def split: sum.splits)
  from res(1) obtain m where "map_of (ac_registry c) (rq_model_id r) = Some m" by (rule decision_run_Inr)
  then show thesis by (rule that [OF _ res(1) _ _ res(2)]) simp_all
qed

definition registry_sound :: "model_registry \<Rightarrow> bool" where
  "registry_sound reg \<longleftrightarrow> (\<forall>mid m. map_of reg mid = Some m \<longrightarrow> md_model_id (descriptor m) = mid)"

lemma registered_sound: "registry_sound reg \<Longrightarrow> registry_register reg m = Inr reg' \<Longrightarrow> registry_sound reg'"
  by (auto simp: registry_sound_def registry_register_def Let_def update_conv' split: option.splits if_splits)

lemma decision_run_fields:
  assumes "decision_run reg rules u mid snap g req = Inr d" and "map_of reg mid = Some m"
  shows "run_id d = u" "dr_model_id d = md_model_id (descriptor m)" "dr_snapshot_id d = ms_snapshot_id snap"
    "data_as_of d = as_of snap" "Decision.reasons d = run_reasons g req m"
  using assms(1) decision_run_cases [of reg mid m rules u snap g req] assms(2)
  by (auto simp: registry_get_def Let_def split: if_splits sum.splits)

lemma decide_closed:
  assumes "map_of (ac_registry c) (rq_model_id r) = Some m" and "registry_sound (ac_registry c)" and "\<not> all_clear gates"
  shows "\<exists>d. decide c uuid r gates (Aware t, x) sid identity = Inr d"
proof -
  have "md_model_id (descriptor m) = rq_model_id r" using assms(1,2) by (simp add: registry_sound_def)
  moreover have "registry_get (ac_registry c) (rq_model_id r) = Inr m" using assms(1) by (simp add: registry_get_def)
  ultimately show ?thesis
    using decision_run_cases [of "ac_registry c" "rq_model_id r" m] assms(3)
    by (simp add: decide_def Let_def mk_market_snapshot_def response_of_def)
qed

lemma run_decision_live:
  assumes "rq_mode r = LIVE"
  shows "run_decision c k report now uuid r (g, s) =
    (let sid = ''LIVE:XNYS:'' @ iso_date (ac_local_date c now);
         (identity, g') = governed_identity c g (rq_model_id r) LIVE sid
     in case decide c uuid r (live_gate_context report) (Aware now, isoformat now) sid identity of
          Inl e \<Rightarrow> (Inl e, g', s)
        | Inr d \<Rightarrow> (case append_decision k s d of Inl e \<Rightarrow> (Inl (Unhandled e), g', s) | Inr s' \<Rightarrow> (Inr d, g', s')))"
  using assms by (simp add: run_decision_def gates_for_def decision_time_def session_of_def Let_def split: prod.split sum.split)

section \<open>Properties\<close>

text \<open>C1. A live decision fails closed and answers: for an admitted live request on a loaded model with a fresh run
  identity the endpoint always responds; the response is no trade with an empty output, names the pending event and the
  missing edge among its reasons, and also the model version unless the loaded model is exactly the one
  governance froze for the server's own session date; it is dated by the server's clock; and it is
  stored, to be read back as it was returned, with every earlier decision unchanged.\<close>

theorem live_decision_fails_closed:
  assumes "mk_decision_request q = Inr r" and "rq_mode r = LIVE"
    and "map_of (ac_registry c) (rq_model_id r) = Some m" and "registry_sound (ac_registry c)"
    and "row_of (t_decision_runs s) uuid = None" and "\<forall>d. do_output d = [] \<longrightarrow> dec (decision_json k) (enc (decision_json k) d) = d"
  shows "\<exists>d g' s'. run_decision c k report now uuid r (g, s) = (Inr d, g', s')
    \<and> do_action d = decision_action.NO_TRADE \<and> do_output d = [] \<and> \<not> do_execution_enabled d
    \<and> {EVENT_PENDING, NEGATIVE_EDGE} \<subseteq> set (do_reasons d)
    \<and> (MODEL_VERSION_NOT_LOADED \<notin> set (do_reasons d) \<longrightarrow>
        fst (governed_identity c g (rq_model_id r) LIVE (''LIVE:XNYS:'' @ iso_date (ac_local_date c now)))
          = Some (descriptor_identity (descriptor m)))
    \<and> do_run_id d = uuid \<and> do_model_id d = rq_model_id r \<and> do_data_as_of d = now
    \<and> do_session_id d = Some (''LIVE:XNYS:'' @ iso_date (ac_local_date c now))
    \<and> fetch_decision k s' uuid = Inr d \<and> (\<forall>i. i \<noteq> uuid \<longrightarrow> fetch_decision k s' i = fetch_decision k s i)"
proof -
  let ?sid = "''LIVE:XNYS:'' @ iso_date (ac_local_date c now)"
  let ?gates = "live_gate_context report"
  obtain i g' where i: "governed_identity c g (rq_model_id r) LIVE ?sid = (i, g')" by (cases "governed_identity c g (rq_model_id r) LIVE ?sid")
  have i_some: "i \<noteq> None"
    using i by (auto simp: governed_identity_def split: sum.splits prod.splits py_error.splits)
  have closed: "\<not> all_clear ?gates" by (simp add: all_clear_def live_gates)
  from decide_closed [OF assms(3,4) closed] obtain d where
    d: "decide c uuid r ?gates (Aware now, isoformat now) ?sid i = Inr d" by blast
  from d obtain m' snap res where m': "map_of (ac_registry c) (rq_model_id r) = Some m'"
      and res: "decision_run (ac_registry c) (ac_rules_version c) uuid (rq_model_id r) snap ?gates i = Inr res"
      and snap: "as_of snap = now" and resp: "response_of c r ?sid i res = Inr d"
    by (rule decide_Inr)
  have m: "m' = m" using m' assms(3) by simp
  note f = decision_run_fields [OF res m' [unfolded m]]
  have act: "Decision.action res = decision_action.NO_TRADE" "dr_output res = []"
    using decision_run_Inr [OF res] closed by metis+
  have dd: "do_action d = Decision.action res" "do_output d = dr_output res" "do_execution_enabled d = False" "do_reasons d = Decision.reasons res"
      "do_run_id d = run_id res" "do_model_id d = dr_model_id res" "do_data_as_of d = data_as_of res" "do_session_id d = Some ?sid"
    using resp by (auto simp: response_of_def)
  have name: "md_model_id (descriptor m) = rq_model_id r" using assms(3,4) by (simp add: registry_sound_def)
  obtain s' where s': "append_decision k s d = Inr s'"
    using assms(5) f(1) dd(5) by (simp add: append_decision_def append_json_def)
  have dec: "dec (decision_json k) (enc (decision_json k) d) = d" using assms(6) dd(2) act(2) by simp
  have stored: "get_decision k s' (do_run_id d) = Some d" "\<And>i. i \<noteq> do_run_id d \<Longrightarrow> get_decision k s' i = get_decision k s i"
    using s' append_json_get append_json_other dec by (fastforce simp: append_decision_def get_decision_def)+
  have run: "run_decision c k report now uuid r (g, s) = (Inr d, g', s')"
    unfolding run_decision_live [OF assms(2)] Let_def i prod.case d sum.case s' by (rule refl)
  have reasons: "{EVENT_PENDING, NEGATIVE_EDGE} \<subseteq> set (run_reasons ?gates i m)"
    using gate_reasons_iff [of ?gates] live_gates [of report] by (simp add: run_reasons_def)
  have ident: "MODEL_VERSION_NOT_LOADED \<notin> set (run_reasons ?gates i m) \<longrightarrow> i = Some (descriptor_identity (descriptor m))"
    using i_some by (auto simp: run_reasons_def identity_ok_def)
  show ?thesis
    using run reasons ident i act dd f name snap stored
    by (intro exI [of _ d] exI [of _ g'] exI [of _ s']) (simp add: fetch_decision_def)
qed

text \<open>An example: a codec of responses with an empty output, and a server with the StrikePilot model.\<close>

instance run_mode :: countable by countable_datatype
instance no_trade_reason :: countable by countable_datatype

definition output_parts where
  "output_parts d = (do_run_id d, do_platform d, do_run_mode d, do_execution_enabled d, do_model_id d, do_model_version d,
     do_model_artifact_hash d, do_governed_version d, do_governed_hash d, do_session_id d, do_rules_version d, do_code_version d,
     do_snapshot_id d, do_data_as_of d, do_action d, do_reasons d)"

definition empty_output_codecs :: "(unit, unit) audit_codecs" where
  "empty_output_codecs = demo_codecs\<lparr>decision_json := text_codec output_parts (\<lambda>(a, b, c, d, e, f, g, h, i, j, l, m, n, t, act, rs).
     \<lparr>do_run_id = a, do_platform = b, do_run_mode = c, do_execution_enabled = d, do_model_id = e, do_model_version = f,
      do_model_artifact_hash = g, do_governed_version = h, do_governed_hash = i, do_session_id = j, do_rules_version = l,
      do_code_version = m, do_snapshot_id = n, do_data_as_of = t, do_action = act, do_reasons = rs, do_output = []\<rparr>)\<rparr>"

lemma empty_output_codecs_ok:
  "do_output d = [] \<Longrightarrow> dec (decision_json empty_output_codecs) (enc (decision_json empty_output_codecs) d) = d"
  by (simp add: empty_output_codecs_def text_codec_def read_show_nat output_parts_def)

definition demo_server :: "registry api_config" where
  "demo_server = \<lparr>ac_registry = [(MODEL_ID, example_model)], ac_rules_version = ''rules-v1'', ac_code_version = ''dev'',
     ac_local_date = (\<lambda>t. 739845), ac_freeze = freeze_session, ac_sha = raw_sha\<rparr>"

lemma demo_server_sound: "registry_sound (ac_registry demo_server)" "map_of (ac_registry demo_server) MODEL_ID = Some example_model"
  by (simp_all add: demo_server_def registry_sound_def example_model_def strikepilot_model_def)

definition live_request_example :: decision_request where
  "live_request_example = \<lparr>rq_model_id = MODEL_ID, rq_mode = LIVE, rq_as_of = None, rq_session = None, rq_values = [], rq_gates = None\<rparr>"

theorem live_decision_fails_closed_witness:
  "\<exists>d g' s'. run_decision demo_server empty_output_codecs None 5 ''run-1'' live_request_example (empty_registry, empty_audit) = (Inr d, g', s')
     \<and> do_action d = decision_action.NO_TRADE \<and> fetch_decision empty_output_codecs s' ''run-1'' = Inr d"
proof -
  have "mk_decision_request live_request_example = Inr live_request_example" "rq_mode live_request_example = LIVE"
    by (simp_all add: mk_decision_request_def live_request_example_def)
  moreover have "map_of (ac_registry demo_server) (rq_model_id live_request_example) = Some example_model"
    using demo_server_sound(2) by (simp add: live_request_example_def)
  moreover have "row_of (t_decision_runs empty_audit) ''run-1'' = None" by (simp add: row_of_def empty_audit_def)
  moreover have "\<forall>d. do_output d = [] \<longrightarrow> dec (decision_json empty_output_codecs) (enc (decision_json empty_output_codecs) d) = d"
    using empty_output_codecs_ok by blast
  ultimately show ?thesis
    using live_decision_fails_closed [OF _ _ _ demo_server_sound(1), of live_request_example live_request_example example_model
        empty_audit "''run-1''" empty_output_codecs None 5 empty_registry] by blast
qed

section \<open>What a snapshot identity binds\<close>

lemma gates_dict_eq: "to_json (PDict (gates_dict g)) = to_json (PDict (gates_dict h)) \<longleftrightarrow> g = h"
proof
  assume "to_json (PDict (gates_dict g)) = to_json (PDict (gates_dict h))"
  then have "map (to_json \<circ> snd) (gates_dict g) = map (to_json \<circ> snd) (gates_dict h)"
    by (subst (asm) PDict_eq_iff) (simp_all add: gates_dict_def)
  then show "g = h"
    by (cases g; cases h) (auto simp: gates_dict_def quality_text_def split: data_quality.splits)
qed simp

lemma identity_value_eq: "to_json (identity_value i) = to_json (identity_value j) \<longleftrightarrow> i = j"
proof
  assume e: "to_json (identity_value i) = to_json (identity_value j)"
  show "i = j"
  proof (cases i; cases j)
    fix a b assume ij: "i = Some a" "j = Some b"
    have "map (to_json \<circ> snd) [(''version'', PStr (ai_version a)), (''artifact_hash'', PStr (ai_artifact_hash a))]
        = map (to_json \<circ> snd) [(''version'', PStr (ai_version b)), (''artifact_hash'', PStr (ai_artifact_hash b))]"
      using e unfolding ij identity_value_def option.case by (subst (asm) PDict_eq_iff) simp_all
    then show "i = j" unfolding ij by (cases a; cases b) simp
  qed (use e in \<open>simp_all add: identity_value_def to_json.simps(9)\<close>)
qed simp

lemma canonical_parts:
  "canonical (to_json (PDict (gates_dict g)))" "canonical (to_json (identity_value i))"
  by (simp_all add: canonical_PDict gates_dict_def identity_value_def split: option.split)

lemma input_payload_id:
  assumes "inj sha" and "canonical (to_json (PDict (rq_values r)))" and "canonical (to_json (PDict (rq_values r')))"
    and "Snapshot.snapshot_id (freeze_snapshot sha (PDict (input_payload c r x g sid i)))
      = Snapshot.snapshot_id (freeze_snapshot sha (PDict (input_payload c' r' x' g' sid' i')))"
  shows "rq_model_id r = rq_model_id r' \<and> rq_mode r = rq_mode r' \<and> x = x'
    \<and> to_json (PDict (rq_values r)) = to_json (PDict (rq_values r')) \<and> g = g' \<and> ac_code_version c = ac_code_version c'
    \<and> ac_rules_version c = ac_rules_version c' \<and> sid = sid' \<and> i = i'"
proof -
  have "map (to_json \<circ> snd) (input_payload c r x g sid i) = map (to_json \<circ> snd) (input_payload c' r' x' g' sid' i')"
    by (rule payload_id_eq [OF assms(1) _ _ _ assms(4)])
      (use assms(2,3) canonical_parts in \<open>auto simp: input_payload_def\<close>)
  then show ?thesis
    by (auto simp: input_payload_def gates_dict_eq identity_value_eq mode_text_def split: run_mode.splits)
qed

text \<open>C7. The snapshot identity of a response binds everything the decision was made from: when two responses carry
  the same identity, both were made for the same model, in the same mode, at a time of the same text, from
  values of the same JSON, under the same gates, code, rules and session, and for the same governed model, as long as the
  digest has no collision.\<close>

theorem decision_snapshot_binds_inputs:
  assumes "inj sha" and "ac_sha c = sha" and "ac_sha c' = sha"
    and "canonical (to_json (PDict (rq_values r)))" and "canonical (to_json (PDict (rq_values r')))"
    and "decide c u r g (Aware t, x) sid i = Inr d" and "decide c' u' r' g' (Aware t', x') sid' i' = Inr d'"
    and "do_snapshot_id d = do_snapshot_id d'"
  shows "rq_model_id r = rq_model_id r' \<and> rq_mode r = rq_mode r' \<and> x = x'
    \<and> to_json (PDict (rq_values r)) = to_json (PDict (rq_values r')) \<and> g = g' \<and> ac_code_version c = ac_code_version c'
    \<and> ac_rules_version c = ac_rules_version c' \<and> sid = sid' \<and> i = i'"
proof -
  have id: "do_snapshot_id d = Snapshot.snapshot_id (freeze_snapshot (ac_sha c) (PDict (input_payload c r x g sid i)))"
    if d: "decide c u r g (Aware t, x) sid i = Inr d" for c :: "'h api_config" and u r g t x sid i d
  proof -
    from d obtain m snap res where m: "map_of (ac_registry c) (rq_model_id r) = Some m"
        and res: "decision_run (ac_registry c) (ac_rules_version c) u (rq_model_id r) snap g i = Inr res"
        and snap: "ms_snapshot_id snap = Snapshot.snapshot_id (freeze_snapshot (ac_sha c) (PDict (input_payload c r x g sid i)))"
        and resp: "response_of c r sid i res = Inr d"
      by (rule decide_Inr)
    from resp have "do_snapshot_id d = dr_snapshot_id res" by (auto simp: response_of_def)
    with decision_run_fields(3) [OF res m] snap show ?thesis by simp
  qed
  show ?thesis
    by (rule input_payload_id [OF assms(1,4,5)]) (use id [OF assms(6)] id [OF assms(7)] assms(2,3,8) in simp)
qed

theorem decision_snapshot_binds_inputs_witness:
  "\<exists>d d'. decide demo_server ''u'' live_request_example (live_gate_context None) (Aware 5, ''t'') ''LIVE:1'' None = Inr d
     \<and> decide demo_server ''v'' live_request_example (live_gate_context None) (Aware 5, ''t'') ''LIVE:2'' None = Inr d'
     \<and> do_snapshot_id d \<noteq> do_snapshot_id d'"
proof -
  have m: "map_of (ac_registry demo_server) (rq_model_id live_request_example) = Some example_model"
    using demo_server_sound(2) by (simp add: live_request_example_def)
  have nc: "\<not> all_clear (live_gate_context None)" by (simp add: all_clear_def live_gates)
  obtain d where d: "decide demo_server ''u'' live_request_example (live_gate_context None) (Aware 5, ''t'') ''LIVE:1'' None = Inr d"
    using decide_closed [OF m demo_server_sound(1) nc] by blast
  obtain d' where d': "decide demo_server ''v'' live_request_example (live_gate_context None) (Aware 5, ''t'') ''LIVE:2'' None = Inr d'"
    using decide_closed [OF m demo_server_sound(1) nc] by blast
  have sha: "ac_sha demo_server = raw_sha" by (simp add: demo_server_def)
  have vals: "canonical (to_json (PDict (rq_values live_request_example)))" by (simp add: live_request_example_def canonical_PDict)
  from decision_snapshot_binds_inputs [OF inj_raw_sha sha sha vals vals d d'] have "do_snapshot_id d \<noteq> do_snapshot_id d'" by auto
  with d d' show ?thesis by blast
qed

section \<open>Scenarios\<close>

lemma governed_state: "snd (governed_identity c g mid mode sid) = snd (ac_freeze c g mid sid)"
  by (simp add: governed_identity_def split: prod.split sum.split py_error.split)

lemma run_decision_governance:
  "fst (snd (run_decision c k report now uuid r (g, s))) = g
   \<or> (\<exists>sid. session_of c r now = Inr sid \<and> fst (snd (run_decision c k report now uuid r (g, s))) = snd (ac_freeze c g (rq_model_id r) sid))"
proof -
  show ?thesis
    using governed_state [of c g "rq_model_id r" "rq_mode r"]
    by (auto simp: run_decision_def split: sum.split prod.split) (metis snd_conv)+
qed

lemma freeze_session_other:
  assumes "sid \<noteq> sid'"
  shows "champion (snd (freeze_session g mid sid)) m (Some sid') = champion g m (Some sid')"
    and "champions (snd (freeze_session g mid sid)) = champions g" and "versions (snd (freeze_session g mid sid)) = versions g"
  using assms by (auto simp: freeze_session_def champion_def get_version_def Let_def update_conv' split: option.split)

text \<open>C3. A scenario never touches live governance, and never enters: whatever an admitted scenario request holds, the
  champions and the versions stay as they were, so does the champion of every live session, and the
  response, where there is one, is not an entry and enables no execution.\<close>

theorem scenario_never_touches_live:
  assumes "ac_freeze c = freeze_session" and "mk_decision_request q = Inr r" and "rq_mode r = SCENARIO"
    and "run_decision c k report now uuid r (g, s) = (x, g', s')"
  shows "champions g' = champions g \<and> versions g' = versions g
    \<and> (\<forall>mid day. champion g' mid (Some (''LIVE:XNYS:'' @ day)) = champion g mid (Some (''LIVE:XNYS:'' @ day)))
    \<and> (\<forall>d. x = Inr d \<longrightarrow> do_action d \<noteq> ENTER \<and> \<not> do_execution_enabled d)"
proof -
  from scenario_request [OF assms(2,3)] obtain gt t xt sn where r:
    "rq_gates r = Some gt" "rq_as_of r = Some (Aware t, xt)" "rq_session r = Some sn" by blast
  have sid: "session_of c r now = Inr (''SCENARIO:'' @ sn)" using assms(3) r(3) by (simp add: session_of_def)
  have ne: "''SCENARIO:'' @ sn \<noteq> ''LIVE:XNYS:'' @ day" for day by simp
  have "g' = g \<or> g' = snd (freeze_session g (rq_model_id r) (''SCENARIO:'' @ sn))"
    using run_decision_governance [of c k report now uuid r g s] unfolding sid assms(1,4) by auto
  then have state: "champions g' = champions g \<and> versions g' = versions g
      \<and> (\<forall>mid day. champion g' mid (Some (''LIVE:XNYS:'' @ day)) = champion g mid (Some (''LIVE:XNYS:'' @ day)))"
  proof (elim disjE)
    assume "g' = snd (freeze_session g (rq_model_id r) (''SCENARIO:'' @ sn))"
    with freeze_session_other [OF ne] show ?thesis by blast
  qed blast
  have "do_action d \<noteq> ENTER \<and> \<not> do_execution_enabled d" if "x = Inr d" for d
  proof -
    from assms(4) that r assms(3) obtain i where "decide c uuid r gt (Aware t, xt) (''SCENARIO:'' @ sn) i = Inr d"
      by (auto simp: run_decision_def gates_for_def decision_time_def session_of_def split: sum.splits prod.splits)
    then obtain snap res where res: "decision_run (ac_registry c) (ac_rules_version c) uuid (rq_model_id r) snap gt i = Inr res"
      and resp: "response_of c r (''SCENARIO:'' @ sn) i res = Inr d" by (rule decide_Inr)
    from decision_run_Inr [OF res] have "Decision.action res \<noteq> ENTER" by (metis decision_action.distinct(1,3))
    with resp show ?thesis by (auto simp: response_of_def)
  qed
  with state show ?thesis by blast
qed

definition scenario_request_example :: decision_request where
  "scenario_request_example = \<lparr>rq_model_id = MODEL_ID, rq_mode = SCENARIO, rq_as_of = Some (Aware 7, ''t''), rq_session = Some ''demo'',
     rq_values = [], rq_gates = Some clear_gates\<rparr>"

theorem scenario_never_touches_live_witness:
  "champions (fst (snd (run_decision demo_server empty_output_codecs None 5 ''run-1'' scenario_request_example (empty_registry, empty_audit)))) = []"
proof -
  obtain x g' s' where run: "run_decision demo_server empty_output_codecs None 5 ''run-1'' scenario_request_example (empty_registry, empty_audit) = (x, g', s')"
    by (rule prod_cases3)
  have "mk_decision_request scenario_request_example = Inr scenario_request_example" "rq_mode scenario_request_example = SCENARIO"
      "ac_freeze demo_server = freeze_session"
    by (simp_all add: mk_decision_request_def scenario_request_example_def session_pattern_def alnum_def demo_server_def)
  from scenario_never_touches_live [OF this(3,1,2) run] show ?thesis unfolding run by (simp add: empty_registry_def)
qed

end
