(* ===== verification/Spec2Isabelle.thy ===== *)
theory Spec2Isabelle
  imports Prelude PyTime IsoText Snapshot Strikes Decision Machine Governance Events Alerts
    Delivery PointInTime DataQuality Collector Condor ExitRules Attribution
    PromotionGate Execution HashChain CostLedger AsciiJson Readiness WalkForward
    PyText Contracts Scout BatchLedger Metrics Calendar Auth GovernanceService DateText TailCalibration
    TailModel TailEvaluation TailPredictors TailModelV2 RawLanding IngestPipeline
    Excursions LabelBatch DistanceRecommender OutcomeLabels EntrySnapshot
    AuditStore Operations DecisionApi
begin

text \<open>
  MarketPilot decides, from market data, whether a model may propose an index option trade, and
  alerts a person; it never trades.  Its Python sources are under \<open>src/src/marketpilot\<close>; the
  paths below are relative to that directory.  The parts and how they interact:

  A collector turns provider events into point-in-time records and grades the quotes it has;
  the ledger of such records is replayed as of an instant; an event risk lock blocks decisions
  around scheduled events; the decision runner asks the gate, then the registered model, for a
  proposal; governance decides which model version is champion; the alert engine turns
  proposals into alerts and the outbox delivers them; the validation package measures the
  strategy on recorded option chains.

  \<^bold>\<open>Theories.\<close>
  \<^item> \<open>Prelude\<close>: exceptions as left values of \<open>py_error + 'a\<close>, dictionaries in insertion order,
    \<open>str.strip\<close>, sets shown as sorted tuples.
  \<^item> \<open>PyTime\<close>, \<open>IsoText\<close>: instants and durations in microseconds, the range check of
    \<open>timedelta\<close>, calendar dates from ordinals, decimal numerals, \<open>isoformat\<close> and its injectivity.
  \<^item> \<open>Snapshot\<close> (\<open>domain/snapshot.py\<close>): Python values, their canonical JSON text, its parser and
    the digest, with the round trip and the injectivity every identity below rests on.
  \<^item> \<open>Strikes\<close>, \<open>Decision\<close> (\<open>models/\<close>, \<open>decision/\<close>, \<open>domain/decision.py\<close>, \<open>domain/market.py\<close>):
    strike selection, the gate, the model registry, the runner.  The runner fails closed: no entry
    is ever proposed, no trade is exactly some reason.
  \<^item> \<open>Machine\<close>: the locales of a state machine: \<open>machine\<close> (an invariant every operation keeps),
    \<open>evolving\<close> (a preorder every operation moves along) and \<open>audit_log\<close> (an append-only log).  The
    governance registry, the alert engine, the outbox, the ledger and the collector interpret them
    on their own operations, and their properties over histories rest on those facts.
  \<^item> \<open>Governance\<close> (\<open>governance/registry.py\<close>, \<open>domain/governance.py\<close>): registrations, promotions,
    rollbacks, session freezes, lineage; approvals are used once and bind their content.
  \<^item> \<open>Events\<close> (\<open>events/risk_lock.py\<close>, \<open>domain/events.py\<close>): timelines, the lock and its checkpoints.
  \<^item> \<open>Alerts\<close> (\<open>alerts/engine.py\<close>, \<open>domain/alerts.py\<close>): hysteresis, cooldown, feedback, escalation.
  \<^item> \<open>Delivery\<close> (\<open>services/alert_delivery_service.py\<close>, \<open>services/alert_delivery_store.py\<close>,
    \<open>domain/alert_delivery.py\<close>): the signed outbox; the SQLite tables are insertion-ordered maps.
  \<^item> \<open>PointInTime\<close> (\<open>domain/point_in_time.py\<close>, \<open>services/replay.py\<close>): records, ledger, replay, manifests.
  \<^item> \<open>DataQuality\<close> (\<open>domain/data_quality.py\<close>): the quote quality evaluator.
  \<^item> \<open>Collector\<close> (\<open>domain/collector.py\<close>, \<open>services/collector_service.py\<close>): the collector state
    machine on top of the two previous theories.
  \<^item> \<open>Condor\<close> (\<open>validation/condor_economics.py\<close>, \<open>validation/fee_model.py\<close>,
    \<open>validation/tail_distances.py\<close>, \<open>features/day_structure.py\<close>): entry fill, settlement, day, summary
    and batch of the iron condor backtest.
  \<^item> \<open>ExitRules\<close> (\<open>validation/exit_rules.py\<close>): exit policies, proved equal to a reference that looks
    each minute up afresh, and their comparison, whose \<open>HOLD\<close> rule is proved equal to the batch.
  \<^item> \<open>Attribution\<close> (\<open>services/stream_attribution_store.py\<close>, \<open>services/stream_attribution_service.py\<close>,
    \<open>domain/attribution.py\<close>, \<open>domain/streaming.py\<close>): the append-only tables, the resumable alert stream,
    whose client gets each event once over all its connections, and the review workflow.
  \<^item> \<open>PromotionGate\<close> (\<open>validation/promotion_gate.py\<close>): pre-registered criteria, slice evidence, the
    evaluation of a frozen holdout and its tamper-evident report.
  \<^item> \<open>Execution\<close> (\<open>validation/execution_economics.py\<close>, \<open>validation/risk_economics.py\<close>): fills at the
    conservative side of the quotes, the profit of a position, the tail loss, the entry risk gate.
  \<^item> \<open>WalkForward\<close> (\<open>validation/walk_forward.py\<close>): the purged expanding-window splitter, proved to
    return and never to leak a test sample's neighbourhood into its training samples.
  \<^item> \<open>Metrics\<close> (\<open>validation/metrics.py\<close>): tail loss, drawdown, the summary of results by stratum.
  \<^item> \<open>Calendar\<close> (\<open>domain/trading_calendar.py\<close>, \<open>ingest/calendar.py\<close>): the verified equity calendar,
    whose unverified days never trade, and the Globex week.
  \<^item> \<open>BatchLedger\<close> (\<open>ingest/pit_ledger.py\<close>): the file of immutable batch records and its manifests.
  \<^item> \<open>GovernanceService\<close> (\<open>services/governance_service.py\<close>, \<open>services/governance_schemas.py\<close>): the facade,
    each operation of which is proved to be operations of the registry of \<open>Governance\<close>.
  \<^item> \<open>PyText\<close>, \<open>Auth\<close> (\<open>services/auth.py\<close>): roles, bearer tokens and the middleware, proved to forward
    exactly the authorised requests.
  \<^item> \<open>Contracts\<close>, \<open>Scout\<close> (\<open>domain/contracts.py\<close>, \<open>domain/scout.py\<close>): explicit ES contracts and the
    candidates of detectors.
  \<^item> \<open>HashChain\<close>: the locale of a hash-chained ledger, in which the last hash binds the whole file;
    \<open>CostLedger\<close> (\<open>ingest/cost_ledger.py\<close>) and \<open>Readiness\<close> interpret it on their own entries.
  \<^item> \<open>AsciiJson\<close>, \<open>Readiness\<close> (\<open>domain/readiness.py\<close>, \<open>services/readiness.py\<close>):
    external evidence, shadow sessions and their ledger, the readiness gate, which is proved exact and
    never to rest on a local simulation.
  \<^item> \<open>DateText\<close>, \<open>TailCalibration\<close> (\<open>validation/tail_calibration.py\<close>): ISO dates read and printed, the
    conservative quantile and the joint corridor, which covers what it was calibrated on.
  \<^item> \<open>TailModel\<close>, \<open>TailEvaluation\<close>, \<open>TailPredictors\<close> (\<open>validation/tail_model.py\<close>): the tail distance
    models and their walk-forward evaluation, which never scores a day with what came after it; the
    locale \<open>tail_predictor\<close> states what the evaluation asks of a model and every model interprets it.
  \<^item> \<open>TailModelV2\<close> (\<open>validation/tail_model_v2.py\<close>): the buffered models, whose search for the two
    buffers is proved equal to trying every pair, and the comparison.
  \<^item> \<open>RawLanding\<close> (\<open>services/raw_landing.py\<close>, \<open>ingest/local_landing.py\<close>): the encrypted landing of
    licensed payloads; what landed is read back by those who may, whatever lands later.
  \<^item> \<open>IngestPipeline\<close> (\<open>ingest/pipeline.py\<close>): pulls planned under a cost ceiling, run into the landing,
    the batch ledger and the cost ledger; this composes three other components.
  \<^item> \<open>Excursions\<close>, \<open>LabelBatch\<close> (\<open>validation/realized_excursions.py\<close>, \<open>validation/excursion_batch.py\<close>,
    \<open>features/implied_spx.py\<close>): the implied index series, the excursion of a day, refused exactly when
    the series does not cover it, and the append-only batch that labels each day at most once.
  \<^item> \<open>DistanceRecommender\<close> (\<open>validation/distance_recommender.py\<close>): recommendations fitted up to the
    purge gap before a day, proved, for a gap of a day or more, to depend on neither its own label nor a later one.
  \<^item> \<open>OutcomeLabels\<close> (\<open>validation/outcome_labels.py\<close>): moves, touches and losses of a window.
  \<^item> \<open>EntrySnapshot\<close> (\<open>features/entry_snapshot.py\<close>, \<open>features/entry_features.py\<close>): implied volatility by
    bisection, which brackets the price, and the features of a chain at its entry, which see no future
    and come out unless the bisection ends on the right end of its bracket.

  \<^item> \<open>AuditStore\<close> (\<open>services/repository.py\<close>): the append-only audit tables, whose history only grows, and
    the integrity check, which passes exactly when every table denies updates and deletes.
  \<^item> \<open>Operations\<close> (\<open>services/operations.py\<close>): alerts under the status their feedback decides.
  \<^item> \<open>DecisionApi\<close> (\<open>services/api.py\<close>, \<open>services/schemas.py\<close>): the decision endpoint, which composes the
    gates, the governance registry, the snapshot, the runner and the audit repository; a live decision is
    proved to fail closed, a scenario never to touch live governance.

  \<^bold>\<open>Correspondence.\<close>  A dataclass is a record with the fields in the source's order, its
  \<open>__post_init__\<close> or pydantic validator a function \<open>mk_\<dots>\<close> with the source's guards in order; a
  method that mutates its object and may raise returns the result and the state it leaves; a loop
  is a recursion over the list it walks, with \<open>break\<close> and \<open>continue\<close> as its branches.  Of the loops
  over a counter, the minute walk of the exit simulation is a \<open>function\<close> whose measure is the time
  left to the session close, and the fold loop of the walk-forward splitter a \<open>partial_function\<close> that
  is proved to return for every splitter the constructor accepts; no fuel is used anywhere.

  \<^bold>\<open>Parameters.\<close>  The digest \<open>sha\<close> and the keyed digest \<open>hmac\<close> are functions; where identities
  matter the theorem says \<open>inj sha\<close>, the absence of collisions.  Fresh identifiers are an injective
  sequence, the clock is an argument, senders and the session gate are functions, the wall clock of
  New York (\<open>zoneinfo\<close>) is \<open>et_utc\<close>, \<open>et_date\<close> and
  \<open>et_clock\<close>, the loader of a recorded chain is a function to
  \<open>chain_day result\<close>, and a decoded TOML document is a value of type \<open>toml\<close>.  The JSON text pydantic
  makes of a stored model is a \<open>codec\<close>, of which \<open>codec_ok\<close> says that decoding undoes encoding;
  the JSON value it hashes of one is \<open>dump\<close>, of which \<open>dump_ok\<close> says that models with one value are
  equal.  A ledger file is the list of the entries its lines decode to.  The landing has a digest of
  bytes \<open>bsha\<close> and a pair of AES functions, of which \<open>cipher_ok\<close> says that decryption undoes
  encryption, for every nonce, where AES-GCM would refuse a short one; what the gateway, the resolver and the clock answer is a field of an oracle, one for each
  call in a history, so that answers may differ from call to call.  The transcendental functions of
  \<open>math\<close>, and the rounding to the nearest float where it decides an outcome, are \<open>math_fns\<close>, of which
  \<open>math_ok\<close> states what is documented; \<open>py_str\<close> is \<open>str\<close> on values that are not texts.

  \<^bold>\<open>Abstractions.\<close>  Floats are exact rationals: rounding, but for the bisection of an implied
  volatility, overflow and non-finite values are not
  modelled, tolerances are compared as written.  Strings range over Latin-1.  Instants have no
  bounds, so adding a duration to one never overflows.  Messages of exceptions keep their text where it is built
  from names, dates and integers; floats, reprs of values and file paths in them are left out.  A date
  is read in the form YYYY-MM-DD only; the other ISO forms Python accepts are refused here.

  \<^bold>\<open>Not modelled.\<close>  The HTTP routes but the decision endpoint, the command line and the configuration; the PostgreSQL stores,
  which are SQL for a database that is not under src; the network clients of the vendors and the readers
  of their binary formats; the readers of label, feature and rule files of the tail models; the
  exponential basis, the loaders of official closes and the batch driver of the entry features.
\<close>

end
